(* ===== verification/Mainsail_Prelude.thy ===== *)
theory Mainsail_Prelude
  imports Main "HOL-Library.AList"
begin

text \<open>
  What every component theory shares.

  \<^item> \<open>error\<close> names the exceptions of the TypeScript code (\<open>packages/exceptions\<close> and the
    plain \<open>new Error(...)\<close> throws; \<open>AssertError\<close> is the \<open>Error\<close> of \<open>assert.defined\<close> in
    \<open>packages/utils/source/assert.ts\<close>). A pure fallible function returns \<open>error + 'a\<close>; an operation
    that mutates an object returns an \<open>outcome\<close>, which keeps the state reached when the
    exception left the operation, as JavaScript does.
  \<^item> \<open>jsmap\<close> is the JavaScript \<open>Map\<close>: an association list in insertion order, where setting a
    present key keeps its place (\<open>AList.update\<close>) and deleting removes it (\<open>AList.delete\<close>).
  \<^item> \<open>js_array_set\<close> is \<open>array[i] = v\<close> on an array of booleans: out of range it extends the
    array; the holes read as \<open>undefined\<close>, which every use here tests for truth only.
\<close>

section \<open>Errors and outcomes\<close>

datatype error =
    JsError string
  | TypeError
  | AssertError
  | RangeError string
  | OutOfFuel
  | NotEnoughRoundValidatorsError nat nat
  | InvalidMilestoneConfigurationError nat
  | InvalidNumberOfRoundValidatorsError nat

datatype 's outcome = Done 's | Threw error 's

fun and_then :: "'s outcome \<Rightarrow> ('s \<Rightarrow> 's outcome) \<Rightarrow> 's outcome" where
  "and_then (Done s) f = f s"
| "and_then (Threw e s) f = Threw e s"

fun outcome_state :: "'s outcome \<Rightarrow> 's" where
  "outcome_state (Done s) = s"
| "outcome_state (Threw e s) = s"

fun is_done :: "'s outcome \<Rightarrow> bool" where
  "is_done (Done s) = True"
| "is_done (Threw e s) = False"

fun sum_bind :: "'e + 'a \<Rightarrow> ('a \<Rightarrow> 'e + 'b) \<Rightarrow> 'e + 'b" where
  "sum_bind (Inl e) f = Inl e"
| "sum_bind (Inr a) f = f a"

section \<open>JavaScript maps and arrays\<close>

type_synonym ('k, 'v) jsmap = "('k \<times> 'v) list"

definition map_get :: "('k, 'v) jsmap \<Rightarrow> 'k \<Rightarrow> 'v option" where
  "map_get m k = map_of m k"

definition map_has :: "('k, 'v) jsmap \<Rightarrow> 'k \<Rightarrow> bool" where
  "map_has m k = (map_of m k \<noteq> None)"

definition map_set :: "('k, 'v) jsmap \<Rightarrow> 'k \<Rightarrow> 'v \<Rightarrow> ('k, 'v) jsmap" where
  "map_set m k v = AList.update k v m"

definition map_delete :: "('k, 'v) jsmap \<Rightarrow> 'k \<Rightarrow> ('k, 'v) jsmap" where
  "map_delete m k = AList.delete k m"

definition map_ok :: "('k, 'v) jsmap \<Rightarrow> bool" where
  "map_ok m = distinct (map fst m)"

definition js_array_set :: "bool list \<Rightarrow> nat \<Rightarrow> bool \<Rightarrow> bool list" where
  "js_array_set xs i v =
     (if i < length xs then xs[i := v]
      else xs @ replicate (i - length xs) False @ [v])"

definition js_array_get :: "bool list \<Rightarrow> nat \<Rightarrow> bool" where
  "js_array_get xs i = (i < length xs \<and> xs ! i)"

named_theorems jsmap_simps \<open>the laws of the JavaScript map operations\<close>
named_theorems frame_simps \<open>which parts of a state an operation leaves alone\<close>
named_theorems outcome_simps \<open>how a property of outcomes passes through \<open>and_then\<close>\<close>

section \<open>Lemmas on maps\<close>

lemma map_get_set [jsmap_simps]: "map_get (map_set m k v) k' = (if k' = k then Some v else map_get m k')"
  by (simp add: map_get_def map_set_def update_conv)

lemma map_has_set [jsmap_simps]: "map_has (map_set m k v) k' = (k' = k \<or> map_has m k')"
  by (simp add: map_has_def map_set_def update_conv)

lemma map_get_delete [jsmap_simps]: "map_get (map_delete m k) k' = (if k' = k then None else map_get m k')"
  by (simp add: map_get_def map_delete_def delete_conv')

lemma map_has_delete [jsmap_simps]: "map_has (map_delete m k) k' = (k' \<noteq> k \<and> map_has m k')"
  by (simp add: map_has_def map_delete_def delete_conv')

lemma map_has_get: "map_has m k = (map_get m k \<noteq> None)"
  by (simp add: map_has_def map_get_def)

lemma map_get_Nil [simp]: "map_get [] k = None"
  by (simp add: map_get_def)

lemma map_has_Nil [simp]: "\<not> map_has [] k"
  by (simp add: map_has_def)

lemma map_ok_Nil [simp]: "map_ok []"
  by (simp add: map_ok_def)

lemma map_ok_set: "map_ok m \<Longrightarrow> map_ok (map_set m k v)"
  by (simp add: map_ok_def map_set_def distinct_update)

lemma map_ok_delete: "map_ok m \<Longrightarrow> map_ok (map_delete m k)"
  by (simp add: map_ok_def map_delete_def distinct_delete)

lemma map_set_fresh: "\<not> map_has m k \<Longrightarrow> map_set m k v = m @ [(k, v)]"
proof (induction m)
  case Nil
  then show ?case by (simp add: map_set_def)
next
  case (Cons p m)
  then show ?case by (cases p) (auto simp: map_set_def map_has_def split: if_splits)
qed

lemma map_get_in_set: "map_get m k = Some v \<Longrightarrow> (k, v) \<in> set m"
  by (simp add: map_get_def map_of_SomeD)

lemma map_ok_get: "map_ok m \<Longrightarrow> (k, v) \<in> set m \<Longrightarrow> map_get m k = Some v"
  by (simp add: map_ok_def map_get_def)

lemma map_has_iff: "map_has m k \<longleftrightarrow> k \<in> fst ` set m"
  by (simp add: map_has_def map_of_eq_None_iff)

section \<open>Lemmas on arrays of booleans\<close>

lemma js_array_get_set: "js_array_get (js_array_set xs i v) j = (if j = i then v else js_array_get xs j)"
  by (auto simp: js_array_get_def js_array_set_def nth_append nth_list_update)

lemma js_array_set_length: "i < length xs \<Longrightarrow> length (js_array_set xs i v) = length xs"
  by (simp add: js_array_set_def)

section \<open>Lemmas on outcomes\<close>

lemma and_then_Done_iff [outcome_simps]:
  "and_then r f = Done s \<longleftrightarrow> (\<exists>t. r = Done t \<and> f t = Done s)"
  by (cases r) auto

lemma outcome_state_and_then [outcome_simps]:
  "outcome_state (and_then r f) = (case r of Done s \<Rightarrow> outcome_state (f s) | Threw e s \<Rightarrow> s)"
  by (cases r) auto

text \<open>A property kept by both halves of a sequence is kept by the sequence.\<close>

lemma and_then_keeps:
  assumes "P (outcome_state r)" and "\<And>s. P s \<Longrightarrow> P (outcome_state (f s))"
  shows "P (outcome_state (and_then r f))"
  using assms by (cases r) auto

lemma sum_bind_Inr_iff: "sum_bind r f = Inr b \<longleftrightarrow> (\<exists>a. r = Inr a \<and> f a = Inr b)"
  by (cases r) auto

lemma sum_bind_assoc: "sum_bind (sum_bind r f) g = sum_bind r (\<lambda>a. sum_bind (f a) g)"
  by (cases r) auto

section \<open>Lemmas on lists\<close>

lemma find_append: "List.find P (xs @ ys) = (case List.find P xs of None \<Rightarrow> List.find P ys | Some x \<Rightarrow> Some x)"
  by (induction xs) simp_all

end
