(* ===== verification/Crypto_Configuration.thy ===== *)
theory Crypto_Configuration
  imports Mainsail_Prelude
begin

text \<open>
  The network configuration, \<open>packages/crypto-config/source/configuration.ts\<close>.

  A milestone is a record with the keys the modelled code reads, each optional as in
  \<open>Contracts.Crypto.MilestonePartial\<close>. The class \<open>Configuration\<close> is the record
  \<open>configuration\<close>: the built network config, the milestone cache (\<open>milestone.index\<close> and
  \<open>milestone.data\<close>), the height and the \<open>verify\<close> flag. \<open>deepmerge\<close> (npm) and the schema
  validator (ajv) are parameters.

  \<open>getMilestone\<close> walks a cached index forwards and backwards. \<open>milestone_at\<close> is its
  specification, the last milestone whose height is not above the asked one, and the lemmas show
  that the walk returns it from every cache state and keeps the cache well formed. The other
  operations of the class, and the components that only read milestones, are stated over
  \<open>milestone_at\<close>.
\<close>

section \<open>Data\<close>

record timeouts =
  blockPrepareTime :: nat
  blockTime :: nat
  stageTimeout :: nat
  stageTimeoutIncrease :: nat
  tolerance :: nat

record milestone_block =
  maxGasLimit :: nat
  maxPayload :: nat
  blockVersion :: nat

record milestone_snapshot =
  previousGenesisBlockHash :: string
  snapshotHash :: string

record milestone =
  ms_height :: nat
  ms_roundValidators :: "nat option"
  ms_timeouts :: "timeouts option"
  ms_block :: "milestone_block option"
  ms_reward :: "int option"
  ms_snapshot :: "milestone_snapshot option"
  ms_evmSpec :: "string option"
  ms_validatorRegistrationFee :: "int option"

record network_config =
  nc_genesisNumber :: nat
  nc_milestones :: "milestone list"
  nc_chainId :: nat

record configuration =
  cf_config :: "network_config option"
  cf_index :: int
  cf_data :: "milestone option"
  cf_originalMilestones :: "milestone list option"
  cf_height :: nat
  cf_verify :: bool

section \<open>Operations\<close>

text \<open>\<open>#checkRoundValidators\<close>: the list is sorted in place by height first (\<open>Array.sort\<close> is
  stable), then only the milestones that set \<open>roundValidators\<close> are looked at.\<close>

fun check_positive :: "nat \<Rightarrow> milestone list \<Rightarrow> error + unit" where
  "check_positive initialHeight [] = Inr ()"
| "check_positive initialHeight (m # ms) =
     (if ms_height m > initialHeight \<and> ms_roundValidators m = Some 0
      then Inl (InvalidNumberOfRoundValidatorsError (ms_height m))
      else check_positive initialHeight ms)"

text \<open>The last loop, from index 2 on. A value \<open>x % 0\<close> is \<open>NaN\<close> in JavaScript, which is
  not 0, so a previous value of 0 fails the test.\<close>

fun check_boundaries :: "milestone list \<Rightarrow> error + unit" where
  "check_boundaries (p # c # ms) =
     (case ms_roundValidators p of
        None \<Rightarrow> Inl AssertError
      | Some pv \<Rightarrow>
          if ms_roundValidators c = Some pv then check_boundaries (c # ms)
          else if pv = 0 \<or> (ms_height c - ms_height p) mod pv \<noteq> 0
          then Inl (InvalidMilestoneConfigurationError (ms_height c))
          else check_boundaries (c # ms))"
| "check_boundaries ms = Inr ()"

definition checkRoundValidators :: "network_config \<Rightarrow> error + unit" where
  "checkRoundValidators config =
     (let initialHeight = nc_genesisNumber config;
          milestones = filter (\<lambda>m. ms_roundValidators m \<noteq> None) (sort_key ms_height (nc_milestones config))
      in sum_bind (check_positive initialHeight milestones) (\<lambda>_.
         case milestones of
           [] \<Rightarrow> Inl (InvalidNumberOfRoundValidatorsError initialHeight)
         | genesis # rest \<Rightarrow>
             if ms_height genesis \<noteq> initialHeight \<or> ms_roundValidators genesis \<noteq> Some 0
             then Inl (InvalidNumberOfRoundValidatorsError initialHeight)
             else (case rest of
                 [] \<Rightarrow> Inl (InvalidNumberOfRoundValidatorsError (initialHeight + 1))
               | first # _ \<Rightarrow>
                   if ms_height first \<noteq> initialHeight + 1
                   then Inl (InvalidNumberOfRoundValidatorsError (initialHeight + 1))
                   else check_boundaries rest)))"

text \<open>\<open>#buildMilestones\<close>: sort, then merge every milestone over the merged one before it.\<close>

fun merge_from :: "(milestone \<Rightarrow> milestone \<Rightarrow> milestone) \<Rightarrow> milestone \<Rightarrow> milestone list \<Rightarrow> milestone list" where
  "merge_from deepmerge m [] = [m]"
| "merge_from deepmerge m (n # ns) = m # merge_from deepmerge (deepmerge m n) ns"

definition buildMilestones ::
  "(milestone \<Rightarrow> milestone \<Rightarrow> milestone) \<Rightarrow> network_config \<Rightarrow> milestone list" where
  "buildMilestones deepmerge config =
     (case sort_key ms_height (nc_milestones config) of
        [] \<Rightarrow> []
      | m # ms \<Rightarrow> merge_from deepmerge m ms)"

definition buildConstants ::
  "(milestone \<Rightarrow> milestone \<Rightarrow> milestone) \<Rightarrow> (network_config \<Rightarrow> bool) \<Rightarrow>
   network_config \<Rightarrow> configuration \<Rightarrow> configuration outcome" where
  "buildConstants deepmerge validate config c =
     (case checkRoundValidators config of
        Inl e \<Rightarrow> Threw e c
      | Inr _ \<Rightarrow>
          (let buildConfig = config\<lparr>nc_milestones := buildMilestones deepmerge config\<rparr>
           in if cf_verify c \<and> \<not> validate buildConfig then Threw (JsError ''MessageSchemaError'') c
              else Done (c\<lparr>cf_config := Some buildConfig,
                           cf_data := (case nc_milestones buildConfig of [] \<Rightarrow> None | m # _ \<Rightarrow> Some m),
                           cf_index := 0\<rparr>)))"

definition setConfig ::
  "(milestone \<Rightarrow> milestone \<Rightarrow> milestone) \<Rightarrow> (network_config \<Rightarrow> bool) \<Rightarrow>
   network_config \<Rightarrow> bool \<Rightarrow> configuration \<Rightarrow> configuration outcome" where
  "setConfig deepmerge validate config verify c =
     buildConstants deepmerge validate config
       (c\<lparr>cf_originalMilestones := Some (nc_milestones config),
          cf_height := nc_genesisNumber config,
          cf_verify := verify\<rparr>)"

definition setHeight :: "nat \<Rightarrow> configuration \<Rightarrow> configuration" where
  "setHeight v c = c\<lparr>cf_height := v\<rparr>"

definition getGenesisHeight :: "configuration \<Rightarrow> error + nat" where
  "getGenesisHeight c = (case cf_config c of None \<Rightarrow> Inl AssertError | Some nc \<Rightarrow> Inr (nc_genesisNumber nc))"

definition isNewMilestone :: "nat option \<Rightarrow> configuration \<Rightarrow> error + bool" where
  "isNewMilestone h c =
     (case cf_config c of
        None \<Rightarrow> Inl AssertError
      | Some nc \<Rightarrow>
          (let height = (case h of None \<Rightarrow> cf_height c | Some x \<Rightarrow> x)
           in Inr (list_ex (\<lambda>m. ms_height m = height) (nc_milestones nc))))"

text \<open>\<open>getMilestone\<close>. The first loop moves the cached index forwards, the second backwards. An
  index of -1 reads \<open>milestones[-1].height\<close>, a \<open>TypeError\<close>; the cache then stays at -1, and a
  later call for a height that has a milestone recovers.\<close>

function advance :: "milestone list \<Rightarrow> nat \<Rightarrow> int \<times> milestone option \<Rightarrow> int \<times> milestone option" where
  "advance ms h (i, d) =
     (if i < int (length ms) - 1 \<and> h \<ge> ms_height (ms ! nat (i + 1))
      then advance ms h (i + 1, Some (ms ! nat (i + 1)))
      else (i, d))"
  by pat_completeness auto
termination
  by (relation "measure (\<lambda>(ms, h, i, d). nat (int (length ms) - i))") auto

function retreat :: "milestone list \<Rightarrow> nat \<Rightarrow> int \<times> milestone option \<Rightarrow> bool \<times> int \<times> milestone option" where
  "retreat ms h (i, d) =
     (if i < 0 \<or> i \<ge> int (length ms) then (False, i, d)
      else if h < ms_height (ms ! nat i)
      then retreat ms h (i - 1, if i = 0 then None else Some (ms ! nat (i - 1)))
      else (True, i, d))"
  by pat_completeness auto
termination
  by (relation "measure (\<lambda>(ms, h, i, d). nat (i + 1))") auto

definition getMilestone :: "nat option \<Rightarrow> configuration \<Rightarrow> (error + milestone option) \<times> configuration" where
  "getMilestone h c =
     (case cf_config c of
        None \<Rightarrow> (Inl AssertError, c)
      | Some nc \<Rightarrow>
          (let height = (case h of None \<Rightarrow> cf_height c | Some x \<Rightarrow> x);
               (ok, i, d) = retreat (nc_milestones nc) height
                              (advance (nc_milestones nc) height (cf_index c, cf_data c))
           in (if ok then Inr d else Inl TypeError, c\<lparr>cf_index := i, cf_data := d\<rparr>)))"

text \<open>The specification of \<open>getMilestone\<close>, used by the readers below.\<close>

definition milestone_at :: "milestone list \<Rightarrow> nat \<Rightarrow> milestone option" where
  "milestone_at ms h =
     (let below = filter (\<lambda>m. ms_height m \<le> h) ms in if below = [] then None else Some (last below))"

text \<open>\<open>getNextMilestoneWithNewKey(previousMilestone, "roundValidators")\<close>: the first milestone
  whose value is truthy, differs from the one in force at \<open>previousMilestone\<close>, and lies above it.\<close>

definition getNextMilestoneWithNewKey :: "milestone list \<Rightarrow> nat \<Rightarrow> milestone option" where
  "getNextMilestoneWithNewKey ms prev =
     List.find (\<lambda>m. ms_roundValidators m \<noteq> None \<and> ms_roundValidators m \<noteq> Some 0
                \<and> ms_roundValidators m \<noteq> Option.bind (milestone_at ms prev) ms_roundValidators
                \<and> ms_height m > prev) ms"

text \<open>\<open>Math.max(...)\<close> is \<open>-Infinity\<close> without arguments and \<open>NaN\<close> with an \<open>undefined\<close> one: \<open>None\<close>.\<close>

definition getMaxRoundValidators :: "milestone list \<Rightarrow> nat option" where
  "getMaxRoundValidators ms =
     (if ms = [] \<or> list_ex (\<lambda>m. ms_roundValidators m = None) ms then None
      else Some (fold max (map (\<lambda>m. the (ms_roundValidators m)) ms) 0))"

declare advance.simps [simp del]
declare retreat.simps [simp del]

section \<open>The milestone cache\<close>

definition cache_ok :: "milestone list \<Rightarrow> int \<times> milestone option \<Rightarrow> bool" where
  "cache_ok ms c \<longleftrightarrow> -1 \<le> fst c \<and> fst c < int (length ms)
     \<and> snd c = (if fst c = -1 then None else Some (ms ! nat (fst c)))"

lemma advance_cache_ok: "cache_ok ms c \<Longrightarrow> cache_ok ms (advance ms h c)"
proof (induction ms h c rule: advance.induct)
  case (1 ms h i d)
  show ?case
  proof (cases "i < int (length ms) - 1 \<and> h \<ge> ms_height (ms ! nat (i + 1))")
    case True
    with "1.prems" have "cache_ok ms (i + 1, Some (ms ! nat (i + 1)))"
      by (auto simp: cache_ok_def)
    with "1.IH" True show ?thesis by (simp add: advance.simps [of ms h i d])
  next
    case False
    with "1.prems" show ?thesis by (subst advance.simps) auto
  qed
qed

lemma advance_stop:
  "fst (advance ms h c) + 1 < int (length ms) \<Longrightarrow> h < ms_height (ms ! nat (fst (advance ms h c) + 1))"
proof (induction ms h c rule: advance.induct)
  case (1 ms h i d)
  show ?case
  proof (cases "i < int (length ms) - 1 \<and> h \<ge> ms_height (ms ! nat (i + 1))")
    case True
    with 1 show ?thesis by (simp add: advance.simps [of ms h i d])
  next
    case False
    then have "advance ms h (i, d) = (i, d)" by (subst advance.simps) auto
    with False "1.prems" show ?thesis by auto
  qed
qed

text \<open>From a position with nothing at or below \<open>h\<close> above it, the backwards walk stops at the last
  milestone at or below \<open>h\<close>.\<close>

lemma retreat_spec:
  assumes "cache_ok ms c" and "\<exists>j < length ms. ms_height (ms ! j) \<le> h"
    and "\<forall>j < length ms. fst c < int j \<longrightarrow> h < ms_height (ms ! j)"
  shows "\<exists>k < length ms. retreat ms h c = (True, int k, Some (ms ! k)) \<and> ms_height (ms ! k) \<le> h
           \<and> (\<forall>j < length ms. k < j \<longrightarrow> h < ms_height (ms ! j))"
  using assms
proof (induction ms h c rule: retreat.induct)
  case (1 ms h i d)
  obtain j where j: "j < length ms" "ms_height (ms ! j) \<le> h" using "1.prems"(2) by blast
  with "1.prems"(3) have "int j \<le> i" by (metis fst_conv linorder_not_less)
  then have i0: "0 \<le> i" by linarith
  from "1.prems"(1) have ilt: "i < int (length ms)" by (simp add: cache_ok_def)
  show ?case
  proof (cases "h < ms_height (ms ! nat i)")
    case True
    have next_ok: "cache_ok ms (i - 1, if i = 0 then None else Some (ms ! nat (i - 1)))"
      using i0 ilt by (auto simp: cache_ok_def)
    have above: "\<forall>j < length ms. fst (i - 1, if i = 0 then None else Some (ms ! nat (i - 1))) < int j
                   \<longrightarrow> h < ms_height (ms ! j)"
    proof (intro allI impI)
      fix j assume j: "j < length ms" "fst (i - 1, if i = 0 then None else Some (ms ! nat (i - 1))) < int j"
      show "h < ms_height (ms ! j)"
      proof (cases "int j = i")
        case eq: True
        with True show ?thesis by (metis nat_int)
      next
        case False
        with j have "i < int j" by simp
        with "1.prems"(3) j(1) show ?thesis by simp
      qed
    qed
    from "1.IH"[OF _ True next_ok "1.prems"(2) above] i0 ilt True show ?thesis
      by (simp add: retreat.simps [of ms h i d])
  next
    case False
    with i0 ilt have "retreat ms h (i, d) = (True, i, d)" by (subst retreat.simps) auto
    moreover from "1.prems"(1) i0 have "d = Some (ms ! nat i)" by (simp add: cache_ok_def)
    ultimately show ?thesis
      using False i0 ilt "1.prems"(3) by (intro exI[of _ "nat i"]) auto
  qed
qed

lemma milestone_at_nth:
  assumes "k < length ms" and "ms_height (ms ! k) \<le> h"
    and "\<forall>j < length ms. k < j \<longrightarrow> h < ms_height (ms ! j)"
  shows "milestone_at ms h = Some (ms ! k)"
proof -
  have above: "filter (\<lambda>m. ms_height m \<le> h) (drop (Suc k) ms) = []"
  proof (rule filter_False, rule ballI)
    fix m assume "m \<in> set (drop (Suc k) ms)"
    then obtain j where "j < length ms - Suc k" "m = ms ! (Suc k + j)"
      by (auto simp: in_set_conv_nth)
    with assms(3) show "\<not> ms_height m \<le> h" by (simp add: not_le)
  qed
  have "filter (\<lambda>m. ms_height m \<le> h) ms
      = filter (\<lambda>m. ms_height m \<le> h) (take k ms @ ms ! k # drop (Suc k) ms)"
    using id_take_nth_drop [OF assms(1)] by simp
  also have "\<dots> = filter (\<lambda>m. ms_height m \<le> h) (take k ms) @ [ms ! k]"
    using assms(2) above by simp
  finally show ?thesis by (simp add: milestone_at_def)
qed

text \<open>The cached walk and the specification agree from every well-formed cache.\<close>

lemma sorted_above:
  assumes "sorted (map ms_height ms)" and "i < length ms" and "i \<le> j" and "j < length ms"
    and "h < ms_height (ms ! i)"
  shows "h < ms_height (ms ! j)"
  using sorted_nth_mono [OF assms(1), of i j] assms(2-5) by simp

lemma walk_spec:
  assumes srt: "sorted (map ms_height ms)" and ok: "cache_ok ms c"
    and ex: "\<exists>j < length ms. ms_height (ms ! j) \<le> h"
  shows "\<exists>k < length ms. retreat ms h (advance ms h c) = (True, int k, milestone_at ms h)
           \<and> milestone_at ms h = Some (ms ! k)"
proof -
  let ?c = "advance ms h c"
  have ok': "cache_ok ms ?c" using ok by (rule advance_cache_ok)
  have above: "\<forall>j < length ms. fst ?c < int j \<longrightarrow> h < ms_height (ms ! j)"
  proof (intro allI impI)
    fix j assume j: "j < length ms" "fst ?c < int j"
    let ?i = "nat (fst ?c + 1)"
    from ok' have "-1 \<le> fst ?c" by (simp add: cache_ok_def)
    with j have i: "?i \<le> j" "fst ?c + 1 < int (length ms)" by auto
    have "h < ms_height (ms ! ?i)" using i(2) by (rule advance_stop)
    with srt i j show "h < ms_height (ms ! j)" by (meson le_less_trans sorted_above)
  qed
  from retreat_spec [OF ok' ex above] show ?thesis by (metis milestone_at_nth)
qed

text \<open>C40 (equivalence). \<open>Configuration.getMilestone\<close>: whatever the cached index left by earlier calls,
  the two loops return exactly the last milestone whose height is at most the asked height, for a
  configuration whose milestones are sorted and start at or below that height; the cache stays
  well formed and nothing else of the configuration changes.\<close>

theorem getMilestone_equals_milestone_at:
  assumes "cf_config c = Some nc"
    and "sorted (map ms_height (nc_milestones nc))"
    and "cache_ok (nc_milestones nc) (cf_index c, cf_data c)"
    and "nc_milestones nc \<noteq> []" and "ms_height (hd (nc_milestones nc)) \<le> h"
  shows "\<exists>c'. getMilestone (Some h) c = (Inr (milestone_at (nc_milestones nc) h), c')
           \<and> cache_ok (nc_milestones nc) (cf_index c', cf_data c')
           \<and> cf_data c' = milestone_at (nc_milestones nc) h
           \<and> cf_config c' = cf_config c \<and> cf_height c' = cf_height c"
proof -
  let ?ms = "nc_milestones nc"
  from assms(4,5) have "\<exists>j < length ?ms. ms_height (?ms ! j) \<le> h"
    by (intro exI[of _ 0]) (simp add: hd_conv_nth)
  from walk_spec [OF assms(2,3) this] obtain k where
    "k < length ?ms" and "retreat ?ms h (advance ?ms h (cf_index c, cf_data c)) = (True, int k, milestone_at ?ms h)"
    and "milestone_at ?ms h = Some (?ms ! k)" by blast
  with assms(1) show ?thesis by (simp add: getMilestone_def cache_ok_def)
qed

text \<open>A configuration with milestones at 0, 5 and 9 whose cache was left at the last one.\<close>

definition sample_configuration :: configuration where
  "sample_configuration =
     (let m = (\<lambda>h. \<lparr>ms_height = h, ms_roundValidators = Some 0, ms_timeouts = None, ms_block = None,
                     ms_reward = None, ms_snapshot = None, ms_evmSpec = None, ms_validatorRegistrationFee = None\<rparr>)
      in \<lparr>cf_config = Some \<lparr>nc_genesisNumber = 0, nc_milestones = [m 0, m 5, m 9], nc_chainId = 1\<rparr>,
          cf_index = 2, cf_data = Some (m 9), cf_originalMilestones = None, cf_height = 0, cf_verify = True\<rparr>)"

theorem getMilestone_equals_milestone_at_witness:
  "\<exists>c'. getMilestone (Some 7) sample_configuration
     = (Inr (milestone_at (nc_milestones (the (cf_config sample_configuration))) 7), c')"
  using getMilestone_equals_milestone_at [of sample_configuration "the (cf_config sample_configuration)" 7]
  by (force simp: sample_configuration_def Let_def cache_ok_def)

end
