(* ===== verification/Blockchain_Utils.thy ===== *)
theory Blockchain_Utils
  imports Crypto_Configuration
begin

text \<open>
  \<open>packages/blockchain-utils/source\<close>: the quorum tests \<open>isMajority\<close> and \<open>isMinority\<close>, the fee,
  proposer, timestamp and round calculators. JavaScript numbers that are heights, counts or
  milliseconds are \<open>nat\<close>; amounts (\<open>bigint\<close>) are \<open>int\<close>.

  The lemmas show that a majority is a quorum of a system with fewer than a third of faulty
  validators (any two share a correct one) and that a minority holds a correct one, that the
  rounds of \<open>calculateRound\<close> tile the heights, and that the minimal timestamp grows with the round.
\<close>

section \<open>Quorums, fees, proposers and timestamps\<close>

definition isMajority :: "nat \<Rightarrow> nat \<Rightarrow> bool" where
  "isMajority votes roundValidators = (votes * 3 > roundValidators * 2)"

definition isMinority :: "nat \<Rightarrow> nat \<Rightarrow> bool" where
  "isMinority votes roundValidators = (votes * 3 > roundValidators)"

definition calculate :: "int \<Rightarrow> int \<Rightarrow> int" where
  "calculate gasPrice gasLimit = gasPrice * gasLimit"

definition calculateConsumed :: "int \<Rightarrow> int \<Rightarrow> int" where
  "calculateConsumed gasPrice gasUsed = gasPrice * gasUsed"

text \<open>\<open>getValidatorIndexFrom\<close>: \<open>x % 0\<close> is \<open>NaN\<close>, which no array index or comparison matches; it
  is \<open>None\<close> here.\<close>

definition getValidatorIndexFrom :: "nat \<Rightarrow> nat \<Rightarrow> nat \<Rightarrow> nat option" where
  "getValidatorIndexFrom roundValidators totalRound round =
     (if roundValidators = 0 then None else Some ((totalRound + round) mod roundValidators))"

text \<open>\<open>calculateMinimalTimestamp\<close>; \<open>t\<close> is \<open>getMilestone(previousBlock.number + 1).timeouts\<close>.\<close>

definition calculateMinimalTimestamp :: "timeouts \<Rightarrow> nat \<Rightarrow> nat \<Rightarrow> error + nat" where
  "calculateMinimalTimestamp t previousTimestamp round =
     (if round > 100000 then Inl (JsError ''Round is too high'')
      else (let previousRounds = round - 1;
                increases = (stageTimeoutIncrease t * previousRounds * (previousRounds + 1)) div 2
            in Inr (previousTimestamp + blockTime t + round * stageTimeout t + increases)))"

lemma calculateMinimalTimestamp_code [code]:
  "calculateMinimalTimestamp t previousTimestamp round =
     (if int round > 100000 then Inl (JsError ''Round is too high'')
      else (let previousRounds = round - 1;
                increases = (stageTimeoutIncrease t * previousRounds * (previousRounds + 1)) div 2
            in Inr (previousTimestamp + blockTime t + round * stageTimeout t + increases)))"
  unfolding calculateMinimalTimestamp_def by (intro if_cong) auto

section \<open>The round calculator\<close>

record validator_span =
  startHeight :: nat
  endHeight :: "nat option"
  startRound :: nat
  spanValidators :: nat

record round_info =
  maxValidators :: nat
  nextRound :: nat
  infoRound :: nat
  roundHeight :: nat

text \<open>The \<open>while (nextMilestone.found)\<close> loop of \<open>#getValidatorSpans\<close>. \<open>x % 0\<close> is \<open>NaN\<close>, so a
  span without validators fails the boundary test.\<close>

lemma find_Some_measure:
  assumes "getNextMilestoneWithNewKey ms h = Some m"
  shows "length (filter (\<lambda>x. ms_height x > ms_height m) ms) < length (filter (\<lambda>x. ms_height x > h) ms)"
proof -
  from assms have m: "m \<in> set ms" "ms_height m > h"
    by (auto simp: getNextMilestoneWithNewKey_def find_Some_iff)
  let ?above = "filter (\<lambda>x. ms_height x > h) ms"
  have "filter (\<lambda>x. ms_height x > ms_height m) ms = filter (\<lambda>x. ms_height x > ms_height m) ?above"
    using m(2) by (auto intro!: filter_cong)
  moreover have "length (filter (\<lambda>x. ms_height x > ms_height m) ?above) < length ?above"
    by (rule length_filter_less [of m]) (use m in simp_all)
  ultimately show ?thesis by simp
qed

function spans_from :: "milestone list \<Rightarrow> nat \<Rightarrow> nat \<Rightarrow> nat \<Rightarrow> error + validator_span list" where
  "spans_from ms start r rv =
     (case getNextMilestoneWithNewKey ms start of
        None \<Rightarrow> Inr [\<lparr>startHeight = start, endHeight = None, startRound = r, spanValidators = rv\<rparr>]
      | Some m \<Rightarrow>
          (let spanHeights = ms_height m - start
           in if rv = 0 \<or> spanHeights mod rv \<noteq> 0
              then Inl (InvalidMilestoneConfigurationError (ms_height m))
              else sum_bind (spans_from ms (ms_height m) (r + spanHeights div rv) (the (ms_roundValidators m)))
                     (\<lambda>rest. Inr (\<lparr>startHeight = start, endHeight = Some (ms_height m - 1),
                                    startRound = r, spanValidators = rv\<rparr> # rest))))"
  by pat_completeness auto
termination
  by (relation "measure (\<lambda>(ms, start, r, rv). length (filter (\<lambda>x. ms_height x > start) ms))")
    (auto simp: find_Some_measure)

text \<open>A configuration that passed \<open>checkRoundValidators\<close> sets \<open>roundValidators\<close> at the height after
  genesis; a missing value ends in \<open>NaN\<close> and is a \<open>TypeError\<close> here.\<close>

definition getValidatorSpans :: "network_config \<Rightarrow> error + validator_span list" where
  "getValidatorSpans nc =
     (let start = nc_genesisNumber nc + 1
      in case Option.bind (milestone_at (nc_milestones nc) start) ms_roundValidators of
           None \<Rightarrow> Inl TypeError
         | Some rv \<Rightarrow> spans_from (nc_milestones nc) start 1 rv)"

text \<open>The test of \<open>find\<close> in \<open>#getValidatorSpan\<close>.\<close>

definition span_covers :: "nat \<Rightarrow> validator_span \<Rightarrow> bool" where
  "span_covers height s = (case endHeight s of None \<Rightarrow> True | Some e \<Rightarrow> height \<le> e)"

definition getValidatorSpan :: "network_config \<Rightarrow> nat \<Rightarrow> error + validator_span" where
  "getValidatorSpan nc height =
     (if height < nc_genesisNumber nc then Inl (JsError ''Height is below the genesis height'')
      else sum_bind (getValidatorSpans nc) (\<lambda>spans.
        case List.find (span_covers height) spans of
          None \<Rightarrow> Inl AssertError
        | Some s \<Rightarrow> Inr s))"

text \<open>\<open>calculateRound\<close>. With no validators in the span the code returns \<open>NaN\<close> fields; the model
  reports it as an error.\<close>

definition calculateRound :: "network_config \<Rightarrow> nat \<Rightarrow> error + round_info" where
  "calculateRound nc height =
     (if height = nc_genesisNumber nc
      then Inr \<lparr>maxValidators = 0, nextRound = 1, infoRound = 0, roundHeight = nc_genesisNumber nc\<rparr>
      else sum_bind (getValidatorSpan nc height) (\<lambda>s.
        if spanValidators s = 0 then Inl (RangeError ''NaN'')
        else (let heightsIntoSpan = height - startHeight s;
                  roundsIntoSpan = heightsIntoSpan div spanValidators s;
                  r = startRound s + roundsIntoSpan
              in Inr \<lparr>maxValidators = spanValidators s,
                      nextRound = (if (heightsIntoSpan + 1) mod spanValidators s = 0 then r + 1 else r),
                      infoRound = r,
                      roundHeight = startHeight s + roundsIntoSpan * spanValidators s\<rparr>)))"

definition isNewRound :: "network_config \<Rightarrow> nat \<Rightarrow> error + bool" where
  "isNewRound nc height =
     sum_bind (calculateRound nc height) (\<lambda>info. Inr (roundHeight info = height))"

declare spans_from.simps [simp del]

section \<open>Quorum lemmas\<close>

lemma isMajority_mono: "isMajority k n \<Longrightarrow> k \<le> k' \<Longrightarrow> isMajority k' n"
  by (simp add: isMajority_def)

lemma isMajority_pos: "isMajority k n \<Longrightarrow> 0 < k"
  by (simp add: isMajority_def)

lemma isMajority_isMinority: "isMajority k n \<Longrightarrow> isMinority k n"
  by (simp add: isMajority_def isMinority_def)

text \<open>Two majorities of at most \<open>n\<close> voters share more than a third of them.\<close>

lemma majorities_overlap:
  assumes "finite V" and "card V \<le> n" and "A \<subseteq> V" and "B \<subseteq> V"
    and "isMajority (card A) n" and "isMajority (card B) n"
  shows "isMinority (card (A \<inter> B)) n"
proof -
  from assms have fin: "finite A" "finite B" using finite_subset by auto
  have "card (A \<union> B) \<le> n" using assms by (meson card_mono le_supI le_trans)
  moreover have "card A + card B = card (A \<union> B) + card (A \<inter> B)"
    using fin by (rule card_Un_Int)
  ultimately show ?thesis
    using assms(5,6) by (simp add: isMajority_def isMinority_def)
qed

lemma minority_has_correct:
  assumes "finite A" and "isMinority (card A) n" and "finite F" and "\<not> isMinority (card F) n"
  shows "\<exists>i \<in> A. i \<notin> F"
proof (rule ccontr)
  assume "\<not> (\<exists>i \<in> A. i \<notin> F)"
  then have "A \<subseteq> F" by blast
  then have "card A \<le> card F" using assms(3) by (rule card_mono [rotated])
  with assms(2,4) show False by (simp add: isMinority_def)
qed

section \<open>Round calculator lemmas\<close>

fun spans_ok :: "validator_span list \<Rightarrow> bool" where
  "spans_ok [] = False"
| "spans_ok [s] = (endHeight s = None)"
| "spans_ok (s # t # ss) =
     (0 < spanValidators s \<and> startHeight s < startHeight t \<and> endHeight s = Some (startHeight t - 1)
      \<and> (startHeight t - startHeight s) mod spanValidators s = 0
      \<and> startRound t = startRound s + (startHeight t - startHeight s) div spanValidators s
      \<and> spans_ok (t # ss))"

lemma spans_from_ok:
  "spans_from ms start r rv = Inr ss \<Longrightarrow>
   spans_ok ss \<and> startHeight (hd ss) = start \<and> startRound (hd ss) = r \<and> spanValidators (hd ss) = rv"
proof (induction ms start r rv arbitrary: ss rule: spans_from.induct)
  case (1 ms start r rv)
  show ?case
  proof (cases "getNextMilestoneWithNewKey ms start")
    case None
    with "1.prems" show ?thesis by (simp add: spans_from.simps [of ms start r rv]) auto
  next
    case (Some m)
    have gt: "start < ms_height m"
      using Some by (auto simp: getNextMilestoneWithNewKey_def find_Some_iff)
    from "1.prems" Some obtain rest where
      rv: "rv \<noteq> 0" "(ms_height m - start) mod rv = 0"
      and rest: "spans_from ms (ms_height m) (r + (ms_height m - start) div rv) (the (ms_roundValidators m)) = Inr rest"
      and ss: "ss = \<lparr>startHeight = start, endHeight = Some (ms_height m - 1),
                     startRound = r, spanValidators = rv\<rparr> # rest"
      by (auto simp: spans_from.simps [of ms start r rv] Let_def sum_bind_Inr_iff split: if_splits)
    from "1.IH"[OF Some refl _ rest] rv have IH: "spans_ok rest" "startHeight (hd rest) = ms_height m"
      "startRound (hd rest) = r + (ms_height m - start) div rv" by auto
    then show ?thesis using rv gt ss by (cases rest) auto
  qed
qed

lemma span_covers_None [simp]: "endHeight s = None \<Longrightarrow> span_covers h s"
  by (simp add: span_covers_def)

lemma span_covers_Some [simp]: "endHeight s = Some e \<Longrightarrow> span_covers h s \<longleftrightarrow> h \<le> e"
  by (simp add: span_covers_def)

lemma find_span:
  assumes "spans_ok ss" and "startHeight (hd ss) \<le> h"
  shows "\<exists>s. List.find (span_covers h) ss = Some s \<and> startHeight s \<le> h"
  using assms by (induction ss rule: spans_ok.induct) (auto split: option.splits)

lemma find_span_hd: "spans_ok ss \<Longrightarrow> List.find (span_covers (startHeight (hd ss))) ss = Some (hd ss)"
  by (cases ss rule: spans_ok.cases) auto

text \<open>Moving one height up stays in the span or enters the next one at its first height, and the
  round reached is the same either way.\<close>

lemma find_span_Suc:
  assumes "spans_ok ss" and "startHeight (hd ss) \<le> h" and "List.find (span_covers h) ss = Some s"
    and "List.find (span_covers (h + 1)) ss = Some t"
  shows "startRound t + (h + 1 - startHeight t) div spanValidators t
       = startRound s + (h + 1 - startHeight s) div spanValidators s"
  using assms
proof (induction ss rule: spans_ok.induct)
  case 1
  then show ?case by simp
next
  case (2 s')
  then show ?case by simp
next
  case (3 s' t' ss)
  show ?case
  proof (cases "h + 1 < startHeight t'")
    case True
    then have "h \<le> startHeight t' - 1" and "Suc h \<le> startHeight t' - 1" by simp_all
    with "3.prems" have "s = s'" and "t = s'" by auto
    then show ?thesis by simp
  next
    case False
    show ?thesis
    proof (cases "h + 1 = startHeight t'")
      case True
      then have "h \<le> startHeight t' - 1" by simp
      with "3.prems" have s: "s = s'" by auto
      have "List.find (span_covers (h + 1)) (t' # ss) = Some t'"
        using find_span_hd [of "t' # ss"] "3.prems"(1) True by simp
      moreover have "\<not> span_covers (h + 1) s'" using "3.prems"(1) True by simp
      ultimately have "t = t'" using "3.prems"(4) by (simp del: find.simps add: find.simps(2) [of _ s'])
      with s True "3.prems"(1) show ?thesis by simp
    next
      case gt: False
      with False have above: "startHeight t' \<le> h" by simp
      then have "\<not> span_covers h s'" and "\<not> span_covers (h + 1) s'" using "3.prems"(1) by auto
      with "3.prems"(3,4) have "List.find (span_covers h) (t' # ss) = Some s"
        and "List.find (span_covers (h + 1)) (t' # ss) = Some t" by (simp_all only: find.simps(2) [of _ s'] if_False)
      with "3.IH" "3.prems"(1) above show ?thesis by simp
    qed
  qed
qed

text \<open>A height above genesis is looked up in a span that starts at or below it.\<close>

lemma calculateRound_span:
  assumes "calculateRound nc h = Inr i" and "nc_genesisNumber nc < h"
  obtains ss s where "getValidatorSpans nc = Inr ss" and "spans_ok ss"
    and "startHeight (hd ss) = nc_genesisNumber nc + 1" and "startRound (hd ss) = 1"
    and "List.find (span_covers h) ss = Some s" and "startHeight s \<le> h" and "spanValidators s \<noteq> 0"
    and "maxValidators i = spanValidators s"
      "nextRound i = startRound s + (if (h - startHeight s + 1) mod spanValidators s = 0
                       then (h - startHeight s) div spanValidators s + 1
                       else (h - startHeight s) div spanValidators s)"
      "infoRound i = startRound s + (h - startHeight s) div spanValidators s"
      "roundHeight i = startHeight s + (h - startHeight s) div spanValidators s * spanValidators s"
proof -
  from assms obtain s where s: "getValidatorSpan nc h = Inr s" "spanValidators s \<noteq> 0"
    and i: "maxValidators i = spanValidators s"
      "nextRound i = startRound s + (if (h - startHeight s + 1) mod spanValidators s = 0
                       then (h - startHeight s) div spanValidators s + 1
                       else (h - startHeight s) div spanValidators s)"
      "infoRound i = startRound s + (h - startHeight s) div spanValidators s"
      "roundHeight i = startHeight s + (h - startHeight s) div spanValidators s * spanValidators s"
    by (auto simp: calculateRound_def sum_bind_Inr_iff Let_def split: if_splits)
  from s(1) obtain ss where ss: "getValidatorSpans nc = Inr ss" "List.find (span_covers h) ss = Some s"
    by (auto simp: getValidatorSpan_def sum_bind_Inr_iff split: if_splits option.splits)
  from ss(1) obtain rv where "spans_from (nc_milestones nc) (nc_genesisNumber nc + 1) 1 rv = Inr ss"
    by (auto simp: getValidatorSpans_def Let_def split: option.splits)
  note ok = spans_from_ok [OF this]
  moreover have "startHeight s \<le> h"
    using find_span [of ss h] ok assms(2) ss(2) by auto
  ultimately show ?thesis using that s(2) i ss by blast
qed

lemma div_Suc_step:
  fixes n v :: nat
  assumes "v \<noteq> 0"
  shows "(if (n + 1) mod v = 0 then n div v + 1 else n div v) = (n + 1) div v"
  using assms by (simp add: div_Suc)

section \<open>Properties of the calculators\<close>

text \<open>\<open>RoundCalculator.calculateRound\<close>: the rounds follow one another. From genesis on,
  the round that the next height is in is exactly the \<open>nextRound\<close> announced at this height, also
  across a change of the number of validators, and it is this round or its successor.\<close>

theorem calculateRound_next_round:
  assumes "calculateRound nc h = Inr i" and "calculateRound nc (h + 1) = Inr j"
    and "nc_genesisNumber nc \<le> h"
  shows "infoRound j = nextRound i \<and> (nextRound i = infoRound i \<or> nextRound i = infoRound i + 1)"
proof -
  have above: "nc_genesisNumber nc < h + 1" using assms(3) by simp
  obtain ss t where ss: "getValidatorSpans nc = Inr ss" "spans_ok ss"
    "startHeight (hd ss) = nc_genesisNumber nc + 1" "startRound (hd ss) = 1"
    and t: "List.find (span_covers (h + 1)) ss = Some t"
    and j: "infoRound j = startRound t + (h + 1 - startHeight t) div spanValidators t"
    by (rule calculateRound_span [OF assms(2) above]) blast
  show ?thesis
  proof (cases "h = nc_genesisNumber nc")
    case True
    with assms(1) have i: "nextRound i = 1" "infoRound i = 0" by (auto simp: calculateRound_def)
    from find_span_hd [OF ss(2)] ss(3) t True have "t = hd ss" by simp
    with i j ss(3,4) True show ?thesis by simp
  next
    case False
    with assms(3) have gt: "nc_genesisNumber nc < h" by simp
    obtain s where s: "List.find (span_covers h) ss = Some s" "startHeight s \<le> h"
      "spanValidators s \<noteq> 0"
      and i: "infoRound i = startRound s + (h - startHeight s) div spanValidators s"
        "nextRound i = startRound s + (if (h - startHeight s + 1) mod spanValidators s = 0
                         then (h - startHeight s) div spanValidators s + 1
                         else (h - startHeight s) div spanValidators s)"
      by (rule calculateRound_span [OF assms(1) gt]) (use ss(1) in auto)
    have "nextRound i = startRound s + (h + 1 - startHeight s) div spanValidators s"
      using div_Suc_step [OF s(3), of "h - startHeight s"] s(2) i(2) by (simp add: Suc_diff_le)
    with find_span_Suc [OF ss(2) _ s(1) t] ss(3) gt j i show ?thesis by auto
  qed
qed

text \<open>A height above genesis lies inside the round \<open>calculateRound\<close> gives it: at or after
  \<open>roundHeight\<close> and fewer than \<open>maxValidators\<close> blocks further, so every active validator has one
  block of the round.\<close>

theorem calculateRound_contains:
  assumes "calculateRound nc h = Inr i" and "nc_genesisNumber nc < h"
  shows "roundHeight i \<le> h \<and> h < roundHeight i + maxValidators i"
proof -
  from assms obtain s :: validator_span where s: "startHeight s \<le> h" "spanValidators s \<noteq> 0"
    and i: "maxValidators i = spanValidators s"
      "roundHeight i = startHeight s + (h - startHeight s) div spanValidators s * spanValidators s"
    by (rule calculateRound_span) blast
  let ?n = "h - startHeight s" and ?v = "spanValidators s"
  have "?n = ?n div ?v * ?v + ?n mod ?v" by simp
  moreover have "?n mod ?v < ?v" using s(2) by simp
  ultimately show ?thesis using i s(1) by linarith
qed

text \<open>\<open>calculateMinimalTimestamp\<close> is strictly later than the previous block and grows by
  at least one stage timeout with every round, so a proposal of a later round cannot carry the
  minimal timestamp of an earlier one; it fails exactly above round 100000.\<close>

theorem calculateMinimalTimestamp_monotone:
  "(calculateMinimalTimestamp t prev r = Inl (JsError ''Round is too high'') \<longleftrightarrow> 100000 < r)
   \<and> (r < r' \<and> r' \<le> 100000 \<longrightarrow>
      (\<exists>a b. calculateMinimalTimestamp t prev r = Inr a \<and> calculateMinimalTimestamp t prev r' = Inr b
         \<and> prev + blockTime t \<le> a \<and> a + (r' - r) * stageTimeout t \<le> b))"
proof (intro conjI impI)
  show "(calculateMinimalTimestamp t prev r = Inl (JsError ''Round is too high'')) = (100000 < r)"
    by (simp add: calculateMinimalTimestamp_def Let_def)
next
  assume r: "r < r' \<and> r' \<le> 100000"
  let ?q = "\<lambda>k. (stageTimeoutIncrease t * (k - 1) * (k - 1 + 1)) div 2"
  have "?q r \<le> ?q r'" using r by (intro div_le_mono mult_le_mono) auto
  moreover have "r * stageTimeout t + (r' - r) * stageTimeout t = r' * stageTimeout t"
    using r by (simp add: add_mult_distrib [symmetric])
  moreover have "calculateMinimalTimestamp t prev r = Inr (prev + blockTime t + r * stageTimeout t + ?q r)"
    and "calculateMinimalTimestamp t prev r' = Inr (prev + blockTime t + r' * stageTimeout t + ?q r')"
    using r by (simp_all only: calculateMinimalTimestamp_def Let_def) simp_all
  ultimately show "\<exists>a b. calculateMinimalTimestamp t prev r = Inr a \<and> calculateMinimalTimestamp t prev r' = Inr b
         \<and> prev + blockTime t \<le> a \<and> a + (r' - r) * stageTimeout t \<le> b"
    by - (intro exI conjI, (assumption | linarith)+)
qed

text \<open>A network with 3 validators from height 1 and 2 from height 7 on, for the witnesses.\<close>

definition plain_milestone :: "nat \<Rightarrow> nat \<Rightarrow> milestone" where
  "plain_milestone h v = \<lparr>ms_height = h, ms_roundValidators = Some v, ms_timeouts = None,
     ms_block = None, ms_reward = None, ms_snapshot = None, ms_evmSpec = None, ms_validatorRegistrationFee = None\<rparr>"

definition sample_network :: network_config where
  "sample_network = \<lparr>nc_genesisNumber = 0,
     nc_milestones = [plain_milestone 0 0, plain_milestone 1 3, plain_milestone 7 2], nc_chainId = 1\<rparr>"

lemma sample_network_rounds:
  "calculateRound sample_network 6 = Inr \<lparr>maxValidators = 3, nextRound = 3, infoRound = 2, roundHeight = 4\<rparr>"
  "calculateRound sample_network 7 = Inr \<lparr>maxValidators = 2, nextRound = 3, infoRound = 3, roundHeight = 7\<rparr>"
  by code_simp+

theorem calculateRound_next_round_witness:
  "\<exists>i j. calculateRound sample_network 6 = Inr i \<and> calculateRound sample_network 7 = Inr j
     \<and> infoRound j = nextRound i"
  using calculateRound_next_round [of sample_network 6] sample_network_rounds
  by (simp add: sample_network_def)

theorem calculateRound_contains_witness:
  "\<exists>i. calculateRound sample_network 6 = Inr i \<and> roundHeight i \<le> 6 \<and> 6 < roundHeight i + maxValidators i"
  using calculateRound_contains [of sample_network 6] sample_network_rounds
  by (simp add: sample_network_def)

theorem calculateMinimalTimestamp_monotone_witness:
  "\<exists>a b. calculateMinimalTimestamp \<lparr>blockPrepareTime = 4, blockTime = 8, stageTimeout = 2,
           stageTimeoutIncrease = 2, tolerance = 1\<rparr> 100 1 = Inr a
       \<and> calculateMinimalTimestamp \<lparr>blockPrepareTime = 4, blockTime = 8, stageTimeout = 2,
           stageTimeoutIncrease = 2, tolerance = 1\<rparr> 100 3 = Inr b \<and> 108 \<le> a \<and> a + 4 \<le> b"
  using calculateMinimalTimestamp_monotone [of "\<lparr>blockPrepareTime = 4, blockTime = 8, stageTimeout = 2,
           stageTimeoutIncrease = 2, tolerance = 1\<rparr>" 100 1 3]
  by auto

text \<open>The merge of \<open>deepmerge\<close> on the two keys the calculator reads: the later milestone's own
  values win, a missing one is inherited.\<close>

definition deepmerge_law :: "(milestone \<Rightarrow> milestone \<Rightarrow> milestone) \<Rightarrow> bool" where
  "deepmerge_law dm \<longleftrightarrow> (\<forall>a b. ms_height (dm a b) = ms_height b
     \<and> ms_roundValidators (dm a b) = (case ms_roundValidators b of None \<Rightarrow> ms_roundValidators a | Some v \<Rightarrow> Some v))"

definition redundant_network :: network_config where
  "redundant_network = \<lparr>nc_genesisNumber = 0,
     nc_milestones = [plain_milestone 0 0, plain_milestone 1 10, plain_milestone 6 10, plain_milestone 16 20],
     nc_chainId = 1\<rparr>"

text \<open>The configuration check and the round calculator disagree: a milestone that repeats the
  number of validators in the middle of a round makes \<open>checkRoundValidators\<close> measure the next
  change from it. The check then accepts a configuration for which every call of
  \<open>calculateRound\<close> above genesis throws.\<close>

theorem accepted_configuration_without_rounds:
  assumes "deepmerge_law dm" and "0 < h"
  shows "checkRoundValidators redundant_network = Inr ()
    \<and> calculateRound (redundant_network\<lparr>nc_milestones := buildMilestones dm redundant_network\<rparr>) h
      = Inl (InvalidMilestoneConfigurationError 16)"
proof -
  have built: "map ms_height (buildMilestones dm redundant_network) = [0, 1, 6, 16]"
    "map ms_roundValidators (buildMilestones dm redundant_network) = [Some 0, Some 10, Some 10, Some 20]"
    using assms(1)
    by (simp_all add: deepmerge_law_def buildMilestones_def redundant_network_def plain_milestone_def)
  then obtain a b c d where ms: "buildMilestones dm redundant_network = [a, b, c, d]"
    "ms_height a = 0" "ms_height b = 1" "ms_height c = 6" "ms_height d = 16"
    "ms_roundValidators a = Some 0" "ms_roundValidators b = Some 10"
    "ms_roundValidators c = Some 10" "ms_roundValidators d = Some 20"
    by auto
  have "getNextMilestoneWithNewKey [a, b, c, d] 1 = Some d"
    using ms by (simp add: getNextMilestoneWithNewKey_def milestone_at_def)
  then have "spans_from [a, b, c, d] 1 1 10 = Inl (InvalidMilestoneConfigurationError 16)"
    using ms by (simp add: spans_from.simps Let_def)
  then have "calculateRound (redundant_network\<lparr>nc_milestones := [a, b, c, d]\<rparr>) h
      = Inl (InvalidMilestoneConfigurationError 16)"
    using ms assms(2)
    by (simp add: calculateRound_def getValidatorSpan_def getValidatorSpans_def milestone_at_def
        redundant_network_def)
  moreover have "checkRoundValidators redundant_network = Inr ()" by code_simp
  ultimately show ?thesis using ms(1) by simp
qed

definition sample_deepmerge :: "milestone \<Rightarrow> milestone \<Rightarrow> milestone" where
  "sample_deepmerge a b =
     b\<lparr>ms_roundValidators := (case ms_roundValidators b of None \<Rightarrow> ms_roundValidators a | Some v \<Rightarrow> Some v)\<rparr>"

theorem accepted_configuration_without_rounds_witness:
  "checkRoundValidators redundant_network = Inr ()
    \<and> calculateRound (redundant_network\<lparr>nc_milestones := buildMilestones sample_deepmerge redundant_network\<rparr>) 2
      = Inl (InvalidMilestoneConfigurationError 16)"
  using accepted_configuration_without_rounds [of sample_deepmerge 2]
  by (simp add: deepmerge_law_def sample_deepmerge_def)

end
