(* ===== verification/Chain_Types.thy ===== *)
theory Chain_Types
  imports Mainsail_Prelude "HOL-Library.Word"
begin

text \<open>
  The data the components exchange, after \<open>packages/contracts/source/contracts/crypto\<close> and
  \<open>contracts/state\<close>: block headers and blocks, transactions, proposals, consensus messages and
  commits. A field keeps the name of the source behind a prefix. Hex strings are \<open>string\<close>,
  buffers are lists of bytes, heights, rounds, gas and timestamps are \<open>nat\<close>, amounts (\<open>bigint\<close>)
  are \<open>int\<close>, a missing optional field is \<open>None\<close>.
\<close>

type_synonym bytes = "8 word list"

record block_header =
  bh_version :: nat
  bh_timestamp :: nat
  bh_number :: nat
  bh_round :: nat
  bh_parentHash :: string
  bh_stateRoot :: string
  bh_logsBloom :: string
  bh_transactionsCount :: nat
  bh_gasUsed :: nat
  bh_fee :: int
  bh_reward :: int
  bh_payloadSize :: nat
  bh_transactionsRoot :: string
  bh_proposer :: string
  bh_randaoReveal :: string
  bh_hash :: string

record transaction =
  tx_network :: int
  tx_to :: "string option"
  tx_value :: int
  tx_gasPrice :: nat
  tx_gasLimit :: nat
  tx_nonce :: nat
  tx_data :: string
  tx_v :: nat
  tx_r :: string
  tx_s :: string
  tx_legacySecondSignature :: "string option"
  tx_hash :: string
  tx_from :: string
  tx_senderPublicKey :: string
  tx_senderLegacyAddress :: string
  tx_serialized :: bytes

record block =
  bk_header :: block_header
  bk_serialized :: string
  bk_transactions :: "transaction list"

record aggregated_signature =
  as_signature :: string
  as_validators :: "bool list"

record proposed_payload =
  pl_block :: block
  pl_lockProof :: "aggregated_signature option"
  pl_serialized :: string

text \<open>\<open>pr_payload\<close> is \<open>undefined\<close> until \<open>deserializePayload\<close> ran (\<open>crypto-proposal/source/proposal.ts\<close>).\<close>

record proposal =
  pr_blockHeader :: block_header
  pr_lockProof :: "aggregated_signature option"
  pr_round :: nat
  pr_validRound :: "nat option"
  pr_payloadSerialized :: string
  pr_payload :: "proposed_payload option"
  pr_validatorIndex :: nat
  pr_signature :: string
  pr_serialized :: bytes

text \<open>\<open>Enums.Crypto.MessageType\<close>; \<open>OtherType\<close> is any number outside the enum, which the \<open>default\<close>
  branches of the code reject.\<close>

datatype message_type = Prevote | Precommit | OtherType nat

record message =
  mg_type :: message_type
  mg_blockNumber :: nat
  mg_round :: nat
  mg_blockHash :: "string option"
  mg_validatorIndex :: nat
  mg_signature :: string
  mg_serialized :: bytes

record commit_proof =
  cp_round :: nat
  cp_signature :: string
  cp_validators :: "bool list"

record commit =
  cm_block :: block
  cm_proof :: commit_proof
  cm_serialized :: string

record validator_wallet =
  vw_address :: string
  vw_blsPublicKey :: string
  vw_voteBalance :: int
  vw_fee :: nat
  vw_votersCount :: nat
  vw_isResigned :: bool

text \<open>\<open>BlockProcessorResult\<close>, without the receipts, which the consensus does not read.\<close>

record processor_result =
  pc_success :: bool
  pc_gasUsed :: nat
  pc_feeUsed :: int

section \<open>\<open>crypto-proposal/source/proposal.ts\<close>\<close>

definition isDataDeserialized :: "proposal \<Rightarrow> bool" where
  "isDataDeserialized p = (pr_payload p \<noteq> None)"

text \<open>\<open>deserializePayload\<close>; the argument stands for \<open>proposalFactory.makePayloadFromBytes\<close> applied to
  the bytes of \<open>payloadSerialized\<close>.\<close>

definition deserializePayload :: "(string \<Rightarrow> error + proposed_payload) \<Rightarrow> proposal \<Rightarrow> error + proposal" where
  "deserializePayload makePayloadFromBytes p =
     (case pr_payload p of
        Some _ \<Rightarrow> Inr p
      | None \<Rightarrow> sum_bind (makePayloadFromBytes (pr_payloadSerialized p))
                  (\<lambda>payload. Inr (p\<lparr>pr_payload := Some payload\<rparr>)))"

definition getPayload :: "proposal \<Rightarrow> error + proposed_payload" where
  "getPayload p = (case pr_payload p of
     None \<Rightarrow> Inl (JsError ''Proposed payload is not deserialized.'') | Some payload \<Rightarrow> Inr payload)"

lemma deserializePayload_fields:
  "deserializePayload mk p = Inr q \<Longrightarrow>
   isDataDeserialized q \<and> pr_blockHeader q = pr_blockHeader p \<and> pr_round q = pr_round p
   \<and> pr_validRound q = pr_validRound p \<and> pr_lockProof q = pr_lockProof p
   \<and> pr_validatorIndex q = pr_validatorIndex p \<and> pr_serialized q = pr_serialized p
   \<and> pr_payloadSerialized q = pr_payloadSerialized p
   \<and> (pr_payload q = pr_payload p \<or> (\<exists>pl. pr_payload q = Some pl \<and> mk (pr_payloadSerialized p) = Inr pl))"
  by (auto simp: deserializePayload_def isDataDeserialized_def sum_bind_Inr_iff split: option.splits)

end
