(* ===== verification/Round_State.thy ===== *)
theory Round_State
  imports Blockchain_Utils Chain_Types "HOL-Library.Multiset"
begin

text \<open>
  \<open>packages/consensus/source\<close>: \<open>round-state.ts\<close>, \<open>aggregator.ts\<close> and \<open>round-state-repository.ts\<close>.

  A \<open>RoundState\<close> collects the proposal, the prevotes and the precommits of one round. The
  injected services are arguments: \<open>roundValidators\<close> is the value of the milestone at the block
  number, \<open>getValidator\<close> the validator set's lookup, the worker's BLS functions
  (\<open>aggregateSignatures\<close>, \<open>aggregatePublicKeys\<close>, \<open>verifySignature\<close>) and the commit serializer
  are functions. Account updates and contract events are carried through unread.

  The lemmas show that the cached vote counts are the numbers of distinct validators that voted,
  that a round holds at most one value with +2/3 of its votes, and that the votes counted by
  \<open>hasMajorityPrecommits\<close> aggregate into a proof the verifier accepts.
\<close>

section \<open>Round state: data\<close>

type_synonym account_update = string
type_synonym contract_event = string
type_synonym votes = "(nat, message) jsmap"
type_synonym vote_counts = "(string option, nat) jsmap"

record round_state =
  rs_blockNumber :: nat
  rs_round :: nat
  rs_proposal :: "proposal option"
  rs_processorResult :: "processor_result option"
  rs_accountUpdates :: "account_update list"
  rs_contractEvents :: "contract_event list"
  rs_prevotes :: votes
  rs_prevotesCount :: vote_counts
  rs_precommits :: votes
  rs_precommitsCount :: vote_counts
  rs_validators :: "(string, validator_wallet) jsmap"
  rs_validatorsSignedPrevote :: "bool list"
  rs_validatorsSignedPrecommit :: "bool list"
  rs_proposer :: "validator_wallet option"
  rs_commit :: "commit option"

definition new_round_state :: round_state where
  "new_round_state = \<lparr>rs_blockNumber = 0, rs_round = 0, rs_proposal = None, rs_processorResult = None,
     rs_accountUpdates = [], rs_contractEvents = [], rs_prevotes = [], rs_prevotesCount = [],
     rs_precommits = [], rs_precommitsCount = [], rs_validators = [], rs_validatorsSignedPrevote = [],
     rs_validatorsSignedPrecommit = [], rs_proposer = None, rs_commit = None\<rparr>"

section \<open>Aggregator\<close>

fun aggregate_loop ::
  "nat \<Rightarrow> (nat \<times> string) list \<Rightarrow> bool list \<Rightarrow> string list \<Rightarrow> error + (bool list \<times> string list)" where
  "aggregate_loop roundValidators [] validators buffers = Inr (validators, buffers)"
| "aggregate_loop roundValidators ((i, signature) # sigs) validators buffers =
     (if i \<ge> roundValidators
      then Inl (JsError ''Failed to aggregate signatures, because validator index is out of range.'')
      else aggregate_loop roundValidators sigs (js_array_set validators i True) (buffers @ [signature]))"

definition aggregate ::
  "(string list \<Rightarrow> error + string) \<Rightarrow> (nat \<times> string) list \<Rightarrow> nat \<Rightarrow> error + aggregated_signature" where
  "aggregate aggregateSignatures signatures roundValidators =
     (if \<not> isMajority (length signatures) roundValidators
      then Inl (JsError ''Failed to aggregate signatures, because the majority is not reached.'')
      else sum_bind (aggregate_loop roundValidators signatures (replicate roundValidators False) [])
        (\<lambda>(validators, buffers). sum_bind (aggregateSignatures buffers)
          (\<lambda>signature. Inr \<lparr>as_signature = signature, as_validators = validators\<rparr>)))"

text \<open>The public keys of the validators marked in the set, from index \<open>i\<close> on.\<close>

fun signer_keys :: "(nat \<Rightarrow> error + validator_wallet) \<Rightarrow> nat \<Rightarrow> bool list \<Rightarrow> error + string list" where
  "signer_keys getValidator i [] = Inr []"
| "signer_keys getValidator i (hasSigned # rest) =
     (if hasSigned
      then sum_bind (getValidator i) (\<lambda>v. sum_bind (signer_keys getValidator (i + 1) rest)
             (\<lambda>ks. Inr (vw_blsPublicKey v # ks)))
      else signer_keys getValidator (i + 1) rest)"

definition verify ::
  "(nat \<Rightarrow> error + validator_wallet) \<Rightarrow> (string list \<Rightarrow> error + string) \<Rightarrow>
   (string \<Rightarrow> bytes \<Rightarrow> string \<Rightarrow> error + bool) \<Rightarrow>
   aggregated_signature \<Rightarrow> bytes \<Rightarrow> nat \<Rightarrow> error + bool" where
  "verify getValidator aggregatePublicKeys verifySignature signature data roundValidators =
     (if length (as_validators signature) \<noteq> roundValidators then Inr False
      else sum_bind (signer_keys getValidator 0 (as_validators signature)) (\<lambda>publicKeys.
        if \<not> isMajority (length publicKeys) roundValidators then Inr False
        else sum_bind (aggregatePublicKeys publicKeys) (\<lambda>key.
          verifySignature (as_signature signature) data key)))"

section \<open>Round state: operations\<close>

text \<open>\<open>configure\<close>: \<open>roundValidators\<close> is the answer of \<open>validatorSet.getRoundValidators()\<close>, which may
  throw, and \<open>proposerIndex\<close> the one of \<open>proposerCalculator.getValidatorIndex(round)\<close>.\<close>

definition add_validator :: "validator_wallet \<Rightarrow> round_state \<Rightarrow> round_state" where
  "add_validator v rs = rs\<lparr>
     rs_validators := map_set (rs_validators rs) (vw_blsPublicKey v) v,
     rs_validatorsSignedPrecommit := rs_validatorsSignedPrecommit rs @ [False],
     rs_validatorsSignedPrevote := rs_validatorsSignedPrevote rs @ [False]\<rparr>"

definition configure_round_state ::
  "(error + validator_wallet list) \<Rightarrow> (nat \<Rightarrow> nat option) \<Rightarrow> nat \<Rightarrow> nat \<Rightarrow> round_state \<Rightarrow> round_state outcome" where
  "configure_round_state roundValidators proposerIndex blockNumber round rs =
     (let rs1 = rs\<lparr>rs_blockNumber := blockNumber, rs_round := round\<rparr>
      in case roundValidators of
           Inl e \<Rightarrow> Threw e rs1
         | Inr validators \<Rightarrow>
             Done ((fold add_validator validators rs1)\<lparr>rs_proposer :=
               (case proposerIndex round of
                  None \<Rightarrow> None
                | Some i \<Rightarrow> if i < length validators then Some (validators ! i) else None)\<rparr>))"

definition rs_getValidator :: "round_state \<Rightarrow> string \<Rightarrow> error + validator_wallet" where
  "rs_getValidator rs key =
     (case map_get (rs_validators rs) key of None \<Rightarrow> Inl AssertError | Some v \<Rightarrow> Inr v)"

definition hasProposal :: "round_state \<Rightarrow> bool" where
  "hasProposal rs = (rs_proposal rs \<noteq> None)"

definition addProposal :: "proposal \<Rightarrow> round_state \<Rightarrow> round_state outcome" where
  "addProposal p rs =
     (if rs_proposal rs \<noteq> None then Threw (JsError ''Proposal already exists.'') rs
      else Done (rs\<lparr>rs_proposal := Some p\<rparr>))"

definition rs_getBlock :: "round_state \<Rightarrow> error + block" where
  "rs_getBlock rs =
     (case Option.bind (rs_proposal rs) pr_payload of
        Some payload \<Rightarrow> Inr (pl_block payload)
      | None \<Rightarrow> Inl (JsError ''Block is not available, because proposal is not set or deserialized''))"

definition setProcessorResult :: "processor_result \<Rightarrow> round_state \<Rightarrow> round_state" where
  "setProcessorResult r rs = rs\<lparr>rs_processorResult := Some r\<rparr>"

definition hasProcessorResult :: "round_state \<Rightarrow> bool" where
  "hasProcessorResult rs = (rs_processorResult rs \<noteq> None)"

definition getProcessorResult :: "round_state \<Rightarrow> error + processor_result" where
  "getProcessorResult rs =
     (case rs_processorResult rs of
        None \<Rightarrow> Inl (JsError ''Processor result is undefined.'') | Some r \<Rightarrow> Inr r)"

definition setAccountUpdates :: "account_update list \<Rightarrow> round_state \<Rightarrow> round_state" where
  "setAccountUpdates accounts rs = rs\<lparr>rs_accountUpdates := accounts\<rparr>"

definition setContractEvents :: "contract_event list \<Rightarrow> round_state \<Rightarrow> round_state" where
  "setContractEvents events rs = rs\<lparr>rs_contractEvents := events\<rparr>"

definition vote_count :: "vote_counts \<Rightarrow> string option \<Rightarrow> nat" where
  "vote_count counts h = (case map_get counts h of None \<Rightarrow> 0 | Some n \<Rightarrow> n)"

definition getPrevoteCount :: "string option \<Rightarrow> round_state \<Rightarrow> nat" where
  "getPrevoteCount h rs = vote_count (rs_prevotesCount rs) h"

definition increasePrevoteCount :: "string option \<Rightarrow> round_state \<Rightarrow> round_state" where
  "increasePrevoteCount h rs =
     rs\<lparr>rs_prevotesCount := map_set (rs_prevotesCount rs) h (getPrevoteCount h rs + 1)\<rparr>"

definition getPrecommitCount :: "string option \<Rightarrow> round_state \<Rightarrow> nat" where
  "getPrecommitCount h rs = vote_count (rs_precommitsCount rs) h"

definition increasePrecommitCount :: "string option \<Rightarrow> round_state \<Rightarrow> round_state" where
  "increasePrecommitCount h rs =
     rs\<lparr>rs_precommitsCount := map_set (rs_precommitsCount rs) h (getPrecommitCount h rs + 1)\<rparr>"

definition hasPrevote :: "nat \<Rightarrow> round_state \<Rightarrow> bool" where
  "hasPrevote i rs = map_has (rs_prevotes rs) i"

definition addPrevote :: "message \<Rightarrow> round_state \<Rightarrow> round_state outcome" where
  "addPrevote m rs =
     (if map_has (rs_prevotes rs) (mg_validatorIndex m) then Threw (JsError ''Prevote already exists.'') rs
      else Done (increasePrevoteCount (mg_blockHash m) (rs\<lparr>
             rs_prevotes := map_set (rs_prevotes rs) (mg_validatorIndex m) m,
             rs_validatorsSignedPrevote :=
               js_array_set (rs_validatorsSignedPrevote rs) (mg_validatorIndex m) True\<rparr>)))"

definition hasPrecommit :: "nat \<Rightarrow> round_state \<Rightarrow> bool" where
  "hasPrecommit i rs = map_has (rs_precommits rs) i"

definition addPrecommit :: "message \<Rightarrow> round_state \<Rightarrow> round_state outcome" where
  "addPrecommit m rs =
     (if map_has (rs_precommits rs) (mg_validatorIndex m) then Threw (JsError ''Precommit already exists.'') rs
      else Done (increasePrecommitCount (mg_blockHash m) (rs\<lparr>
             rs_precommits := map_set (rs_precommits rs) (mg_validatorIndex m) m,
             rs_validatorsSignedPrecommit :=
               js_array_set (rs_validatorsSignedPrecommit rs) (mg_validatorIndex m) True\<rparr>)))"

definition hasMessage :: "message \<Rightarrow> round_state \<Rightarrow> error + bool" where
  "hasMessage m rs =
     (case mg_type m of
        Prevote \<Rightarrow> Inr (map_has (rs_prevotes rs) (mg_validatorIndex m))
      | Precommit \<Rightarrow> Inr (map_has (rs_precommits rs) (mg_validatorIndex m))
      | OtherType _ \<Rightarrow> Inl (JsError ''Invalid message type''))"

definition getMessage :: "nat \<Rightarrow> message_type \<Rightarrow> round_state \<Rightarrow> error + message option" where
  "getMessage i t rs =
     (case t of
        Prevote \<Rightarrow> Inr (map_get (rs_prevotes rs) i)
      | Precommit \<Rightarrow> Inr (map_get (rs_precommits rs) i)
      | OtherType _ \<Rightarrow> Inl (JsError ''Invalid message type''))"

definition addMessage :: "message \<Rightarrow> round_state \<Rightarrow> round_state outcome" where
  "addMessage m rs =
     (case mg_type m of
        Prevote \<Rightarrow> addPrevote m rs
      | Precommit \<Rightarrow> addPrecommit m rs
      | OtherType _ \<Rightarrow> Threw (JsError ''Invalid message type'') rs)"

text \<open>The quorum tests. \<open>rv\<close> is \<open>roundValidators\<close> of the milestone at the block number.\<close>

definition hasMajorityPrevotes :: "nat \<Rightarrow> round_state \<Rightarrow> bool" where
  "hasMajorityPrevotes rv rs =
     (case rs_proposal rs of
        None \<Rightarrow> False
      | Some p \<Rightarrow> isDataDeserialized p \<and> isMajority (getPrevoteCount (Some (bh_hash (pr_blockHeader p))) rs) rv)"

definition hasMajorityPrevotesAny :: "nat \<Rightarrow> round_state \<Rightarrow> bool" where
  "hasMajorityPrevotesAny rv rs = isMajority (length (rs_prevotes rs)) rv"

definition hasMajorityPrevotesNull :: "nat \<Rightarrow> round_state \<Rightarrow> bool" where
  "hasMajorityPrevotesNull rv rs = isMajority (getPrevoteCount None rs) rv"

definition hasMajorityPrecommits :: "nat \<Rightarrow> round_state \<Rightarrow> bool" where
  "hasMajorityPrecommits rv rs =
     (case rs_proposal rs of
        None \<Rightarrow> False
      | Some p \<Rightarrow> isDataDeserialized p \<and> isMajority (getPrecommitCount (Some (bh_hash (pr_blockHeader p))) rs) rv)"

definition hasMajorityPrecommitsAny :: "nat \<Rightarrow> round_state \<Rightarrow> bool" where
  "hasMajorityPrecommitsAny rv rs = isMajority (length (rs_precommits rs)) rv"

definition hasMajorityPrecommitsWithoutProposal :: "nat \<Rightarrow> round_state \<Rightarrow> bool" where
  "hasMajorityPrecommitsWithoutProposal rv rs =
     (rs_proposal rs = None \<and> list_ex (\<lambda>(h, n). h \<noteq> None \<and> isMajority n rv) (rs_precommitsCount rs))"

definition hasMinorityPrevotesOrPrecommits :: "nat \<Rightarrow> round_state \<Rightarrow> bool" where
  "hasMinorityPrevotesOrPrecommits rv rs =
     (isMinority (length (rs_prevotes rs)) rv \<or> isMinority (length (rs_precommits rs)) rv)"

definition getMessages :: "round_state \<Rightarrow> message list" where
  "getMessages rs = map snd (rs_prevotes rs) @ map snd (rs_precommits rs)"

text \<open>\<open>#getSignatures\<close>: a fresh \<open>Map\<close> filled in the order of the votes.\<close>

definition getSignatures :: "votes \<Rightarrow> round_state \<Rightarrow> error + (nat \<times> string) list" where
  "getSignatures votes rs =
     (case rs_proposal rs of
        None \<Rightarrow> Inl AssertError
      | Some p \<Rightarrow> Inr (fold (\<lambda>(key, vote) filtered.
            if mg_blockHash vote = Some (bh_hash (pr_blockHeader p))
            then map_set filtered key (mg_signature vote) else filtered) votes []))"

definition aggregatePrevotes ::
  "(string list \<Rightarrow> error + string) \<Rightarrow> nat \<Rightarrow> round_state \<Rightarrow> error + aggregated_signature" where
  "aggregatePrevotes agg rv rs =
     sum_bind (getSignatures (rs_prevotes rs) rs) (\<lambda>signatures. aggregate agg signatures rv)"

definition aggregatePrecommits ::
  "(string list \<Rightarrow> error + string) \<Rightarrow> nat \<Rightarrow> round_state \<Rightarrow> error + aggregated_signature" where
  "aggregatePrecommits agg rv rs =
     sum_bind (getSignatures (rs_precommits rs) rs) (\<lambda>signatures. aggregate agg signatures rv)"

definition getCommit ::
  "(string list \<Rightarrow> error + string) \<Rightarrow> (block \<Rightarrow> commit_proof \<Rightarrow> error + string) \<Rightarrow> nat \<Rightarrow>
   round_state \<Rightarrow> (error + commit) \<times> round_state" where
  "getCommit agg serializeCommit rv rs =
     (case rs_commit rs of
        Some c \<Rightarrow> (Inr c, rs)
      | None \<Rightarrow>
          (let result =
             (case rs_proposal rs of
                None \<Rightarrow> Inl AssertError
              | Some p \<Rightarrow> sum_bind (aggregatePrecommits agg rv rs) (\<lambda>majority.
                  sum_bind (getPayload p) (\<lambda>payload.
                    (let proof = \<lparr>cp_round = pr_round p, cp_signature = as_signature majority,
                                  cp_validators = as_validators majority\<rparr>
                     in sum_bind (serializeCommit (pl_block payload) proof) (\<lambda>serialized.
                          Inr \<lparr>cm_block = pl_block payload, cm_proof = proof, cm_serialized = serialized\<rparr>)))))
           in case result of
                Inl e \<Rightarrow> (Inl e, rs)
              | Inr c \<Rightarrow> (Inr c, rs\<lparr>rs_commit := Some c\<rparr>)))"

text \<open>\<open>logPrevotes\<close> and \<open>logPrecommits\<close> write to the log and change nothing, but
  \<open>validatorSet.getValidator\<close> may throw in them: the model returns the log lines or the exception.\<close>

fun voter_addresses :: "(nat \<Rightarrow> error + validator_wallet) \<Rightarrow> message list \<Rightarrow> error + string list" where
  "voter_addresses getValidator [] = Inr []"
| "voter_addresses getValidator (m # ms) =
     sum_bind (getValidator (mg_validatorIndex m)) (\<lambda>v.
       sum_bind (voter_addresses getValidator ms) (\<lambda>vs. Inr (vw_address v # vs)))"

fun log_votes ::
  "(nat \<Rightarrow> error + validator_wallet) \<Rightarrow> string option list \<Rightarrow> message list \<Rightarrow>
   error + (string option \<times> string list) list" where
  "log_votes getValidator [] ms = Inr []"
| "log_votes getValidator (key # keys) ms =
     sum_bind (voter_addresses getValidator (filter (\<lambda>m. mg_blockHash m = key) ms)) (\<lambda>voters.
       sum_bind (log_votes getValidator keys ms) (\<lambda>rest. Inr ((key, voters) # rest)))"

definition logPrevotes where
  "logPrevotes getValidator rs =
     log_votes getValidator (map fst (rs_prevotesCount rs)) (map snd (rs_prevotes rs))"

definition logPrecommits where
  "logPrecommits getValidator rs =
     log_votes getValidator (map fst (rs_precommitsCount rs)) (map snd (rs_precommits rs))"

section \<open>Round state repository\<close>

text \<open>The key \<open>`${blockNumber}-${round}`\<close> is the pair of the two numbers. \<open>create\<close> is
  \<open>#createRoundState\<close>: a new object, configured; when \<open>configure\<close> throws nothing is stored.\<close>

type_synonym rs_ref = "nat \<times> nat"
type_synonym repository = "(rs_ref, round_state) jsmap"

definition createRoundState ::
  "(error + validator_wallet list) \<Rightarrow> (nat \<Rightarrow> nat option) \<Rightarrow> rs_ref \<Rightarrow> error + round_state" where
  "createRoundState roundValidators proposerIndex ref =
     (case configure_round_state roundValidators proposerIndex (fst ref) (snd ref) new_round_state of
        Threw e _ \<Rightarrow> Inl e | Done rs \<Rightarrow> Inr rs)"

definition getRoundState :: "(rs_ref \<Rightarrow> error + round_state) \<Rightarrow> rs_ref \<Rightarrow> repository \<Rightarrow> error + (round_state \<times> repository)" where
  "getRoundState create ref repo =
     (case map_get repo ref of
        Some rs \<Rightarrow> Inr (rs, repo)
      | None \<Rightarrow> sum_bind (create ref) (\<lambda>rs. Inr (rs, map_set repo ref rs)))"

definition getRoundStates :: "repository \<Rightarrow> round_state list" where
  "getRoundStates repo = map snd repo"

definition clear_repository :: "repository \<Rightarrow> repository" where
  "clear_repository repo = []"

section \<open>Vote books\<close>

text \<open>What the two collections of votes promise: each validator votes at most once, under its own
  index, and the cached count of a value is the number of votes for it.\<close>

definition votes_ok :: "votes \<Rightarrow> vote_counts \<Rightarrow> bool" where
  "votes_ok vs cs \<longleftrightarrow> map_ok vs \<and> (\<forall>(i, m) \<in> set vs. mg_validatorIndex m = i)
     \<and> (\<forall>h. vote_count cs h = length (filter (\<lambda>(i, m). mg_blockHash m = h) vs))"

definition voters :: "votes \<Rightarrow> string option \<Rightarrow> nat set" where
  "voters vs h = {i. \<exists>m. map_get vs i = Some m \<and> mg_blockHash m = h}"

lemma voters_eq: "map_ok vs \<Longrightarrow> voters vs h = fst ` set (filter (\<lambda>(i, m). mg_blockHash m = h) vs)"
  by (force simp: voters_def dest: map_get_in_set map_ok_get)

lemma card_voters: "map_ok vs \<Longrightarrow> card (voters vs h) = length (filter (\<lambda>(i, m). mg_blockHash m = h) vs)"
proof -
  assume ok: "map_ok vs"
  have "distinct (map fst (filter (\<lambda>(i, m). mg_blockHash m = h) vs))"
    using ok by (simp add: map_ok_def distinct_map_filter)
  from distinct_card [OF this] show ?thesis using ok by (simp add: voters_eq)
qed

lemma finite_voters [simp]: "finite (voters vs h)"
proof -
  have "voters vs h \<subseteq> fst ` set vs" by (force simp: voters_def dest: map_get_in_set)
  then show ?thesis by (rule finite_subset) simp
qed

lemma votes_ok_count: "votes_ok vs cs \<Longrightarrow> vote_count cs h = card (voters vs h)"
  by (simp add: votes_ok_def card_voters)

lemma voters_disjoint: "h \<noteq> h' \<Longrightarrow> voters vs h \<inter> voters vs h' = {}"
  by (auto simp: voters_def)

lemma votes_ok_Nil [simp]: "votes_ok [] []"
  by (simp add: votes_ok_def vote_count_def)

definition votes_in_range :: "nat \<Rightarrow> votes \<Rightarrow> bool" where
  "votes_in_range rv vs \<longleftrightarrow> (\<forall>i. map_has vs i \<longrightarrow> i < rv)"

lemma voters_in_range: "votes_in_range rv vs \<Longrightarrow> voters vs h \<subseteq> {..<rv}"
  by (auto simp: votes_in_range_def voters_def map_has_get)

text \<open>At most one value of a round has more than two thirds of the votes.\<close>

lemma majority_value_unique:
  assumes "votes_ok vs cs" and "votes_in_range rv vs"
    and "isMajority (vote_count cs h) rv" and "isMajority (vote_count cs h') rv"
  shows "h = h'"
proof (rule ccontr)
  assume "h \<noteq> h'"
  have "isMinority (card (voters vs h \<inter> voters vs h')) rv"
    by (rule majorities_overlap [of "{..<rv}"])
      (use assms(3,4) voters_in_range [OF assms(2)] in \<open>simp_all add: votes_ok_count [OF assms(1)]\<close>)
  with voters_disjoint [OF \<open>h \<noteq> h'\<close>] show False by (simp add: isMinority_def)
qed

text \<open>The contract of adding a vote, met by \<open>addPrevote\<close> and \<open>addPrecommit\<close>.\<close>

locale vote_book =
  fixes book :: "'s \<Rightarrow> votes" and counts :: "'s \<Rightarrow> vote_counts" and add :: "message \<Rightarrow> 's \<Rightarrow> 's outcome"
  assumes add_new: "\<not> map_has (book s) (mg_validatorIndex m) \<Longrightarrow>
      \<exists>t. add m s = Done t \<and> book t = map_set (book s) (mg_validatorIndex m) m
        \<and> counts t = map_set (counts s) (mg_blockHash m) (vote_count (counts s) (mg_blockHash m) + 1)"
    and add_known: "map_has (book s) (mg_validatorIndex m) \<Longrightarrow> \<exists>e. add m s = Threw e s"
begin

lemma add_keeps_votes_ok:
  assumes "votes_ok (book s) (counts s)"
  shows "votes_ok (book (outcome_state (add m s))) (counts (outcome_state (add m s)))"
proof (cases "map_has (book s) (mg_validatorIndex m)")
  case True
  with assms add_known show ?thesis by fastforce
next
  case False
  then obtain t where t: "add m s = Done t" "book t = map_set (book s) (mg_validatorIndex m) m"
    "counts t = map_set (counts s) (mg_blockHash m) (vote_count (counts s) (mg_blockHash m) + 1)"
    using add_new by blast
  have "book t = book s @ [(mg_validatorIndex m, m)]" using t(2) False by (simp add: map_set_fresh)
  moreover have "map_ok (book t)" using assms t(2) by (simp add: votes_ok_def map_ok_set)
  moreover have "vote_count (counts t) h = vote_count (counts s) h + (if h = mg_blockHash m then 1 else 0)" for h
    using t(3) by (simp add: vote_count_def jsmap_simps)
  ultimately show ?thesis using assms t(1) by (auto simp: votes_ok_def)
qed

lemma add_never_replaces:
  "map_get (book s) i = Some v \<Longrightarrow> map_get (book (outcome_state (add m s))) i = Some v"
proof (cases "map_has (book s) (mg_validatorIndex m)")
  case True
  then obtain e where "add m s = Threw e s" using add_known by blast
  moreover assume "map_get (book s) i = Some v"
  ultimately show ?thesis by simp
next
  case False
  moreover assume "map_get (book s) i = Some v"
  moreover obtain t where "add m s = Done t" "book t = map_set (book s) (mg_validatorIndex m) m"
    using add_new False by blast
  ultimately show ?thesis by (auto simp: jsmap_simps map_has_get)
qed

end

interpretation prevotes: vote_book rs_prevotes rs_prevotesCount addPrevote
  by unfold_locales (simp_all add: addPrevote_def increasePrevoteCount_def getPrevoteCount_def)

interpretation precommits: vote_book rs_precommits rs_precommitsCount addPrecommit
  by unfold_locales (simp_all add: addPrecommit_def increasePrecommitCount_def getPrecommitCount_def)

section \<open>The invariant of a round state\<close>

definition flags_ok :: "bool list \<Rightarrow> votes \<Rightarrow> bool" where
  "flags_ok flags vs \<longleftrightarrow> (\<forall>i. js_array_get flags i = map_has vs i)"

definition rs_ok :: "round_state \<Rightarrow> bool" where
  "rs_ok rs \<longleftrightarrow> votes_ok (rs_prevotes rs) (rs_prevotesCount rs)
     \<and> votes_ok (rs_precommits rs) (rs_precommitsCount rs)
     \<and> flags_ok (rs_validatorsSignedPrevote rs) (rs_prevotes rs)
     \<and> flags_ok (rs_validatorsSignedPrecommit rs) (rs_precommits rs)"

lemma rs_ok_cong:
  assumes "rs_prevotes t = rs_prevotes s" "rs_prevotesCount t = rs_prevotesCount s"
    "rs_precommits t = rs_precommits s" "rs_precommitsCount t = rs_precommitsCount s"
    "rs_validatorsSignedPrevote t = rs_validatorsSignedPrevote s"
    "rs_validatorsSignedPrecommit t = rs_validatorsSignedPrecommit s"
  shows "rs_ok t = rs_ok s"
  using assms by (simp add: rs_ok_def)

lemma rs_ok_updates [simp]:
  "rs_ok (rs\<lparr>rs_proposal := a\<rparr>) = rs_ok rs" "rs_ok (rs\<lparr>rs_processorResult := b\<rparr>) = rs_ok rs"
  "rs_ok (rs\<lparr>rs_commit := c\<rparr>) = rs_ok rs" "rs_ok (rs\<lparr>rs_accountUpdates := d\<rparr>) = rs_ok rs"
  "rs_ok (rs\<lparr>rs_contractEvents := e\<rparr>) = rs_ok rs"
  by (simp_all add: rs_ok_def)

lemma addPrevote_rest:
  "rs_precommits (outcome_state (addPrevote m rs)) = rs_precommits rs"
  "rs_precommitsCount (outcome_state (addPrevote m rs)) = rs_precommitsCount rs"
  "rs_validatorsSignedPrecommit (outcome_state (addPrevote m rs)) = rs_validatorsSignedPrecommit rs"
  by (simp_all add: addPrevote_def increasePrevoteCount_def)

lemma addPrecommit_rest:
  "rs_prevotes (outcome_state (addPrecommit m rs)) = rs_prevotes rs"
  "rs_prevotesCount (outcome_state (addPrecommit m rs)) = rs_prevotesCount rs"
  "rs_validatorsSignedPrevote (outcome_state (addPrecommit m rs)) = rs_validatorsSignedPrevote rs"
  by (simp_all add: addPrecommit_def increasePrecommitCount_def)

lemma addPrevote_flags:
  "flags_ok (rs_validatorsSignedPrevote rs) (rs_prevotes rs) \<Longrightarrow>
   flags_ok (rs_validatorsSignedPrevote (outcome_state (addPrevote m rs))) (rs_prevotes (outcome_state (addPrevote m rs)))"
  by (auto simp: addPrevote_def increasePrevoteCount_def flags_ok_def js_array_get_set jsmap_simps)

lemma addPrecommit_flags:
  "flags_ok (rs_validatorsSignedPrecommit rs) (rs_precommits rs) \<Longrightarrow>
   flags_ok (rs_validatorsSignedPrecommit (outcome_state (addPrecommit m rs))) (rs_precommits (outcome_state (addPrecommit m rs)))"
  by (auto simp: addPrecommit_def increasePrecommitCount_def flags_ok_def js_array_get_set jsmap_simps)

lemma addPrevote_rs_ok: "rs_ok rs \<Longrightarrow> rs_ok (outcome_state (addPrevote m rs))"
  by (simp add: rs_ok_def addPrevote_rest addPrevote_flags prevotes.add_keeps_votes_ok)

lemma addPrecommit_rs_ok: "rs_ok rs \<Longrightarrow> rs_ok (outcome_state (addPrecommit m rs))"
  by (simp add: rs_ok_def addPrecommit_rest addPrecommit_flags precommits.add_keeps_votes_ok)

lemma addMessage_rs_ok: "rs_ok rs \<Longrightarrow> rs_ok (outcome_state (addMessage m rs))"
  by (simp add: addMessage_def addPrevote_rs_ok addPrecommit_rs_ok split: message_type.split)

text \<open>A configured round state starts with no votes.\<close>

lemma add_validator_votes [simp]:
  "rs_prevotes (add_validator v rs) = rs_prevotes rs" "rs_prevotesCount (add_validator v rs) = rs_prevotesCount rs"
  "rs_precommits (add_validator v rs) = rs_precommits rs" "rs_precommitsCount (add_validator v rs) = rs_precommitsCount rs"
  "rs_proposal (add_validator v rs) = rs_proposal rs" "rs_processorResult (add_validator v rs) = rs_processorResult rs"
  "rs_blockNumber (add_validator v rs) = rs_blockNumber rs" "rs_round (add_validator v rs) = rs_round rs"
  "rs_commit (add_validator v rs) = rs_commit rs"
  by (simp_all add: add_validator_def)

lemma fold_add_validator_votes [simp]:
  "rs_prevotes (fold add_validator vs rs) = rs_prevotes rs"
  "rs_prevotesCount (fold add_validator vs rs) = rs_prevotesCount rs"
  "rs_precommits (fold add_validator vs rs) = rs_precommits rs"
  "rs_precommitsCount (fold add_validator vs rs) = rs_precommitsCount rs"
  "rs_proposal (fold add_validator vs rs) = rs_proposal rs"
  "rs_processorResult (fold add_validator vs rs) = rs_processorResult rs"
  "rs_blockNumber (fold add_validator vs rs) = rs_blockNumber rs"
  "rs_round (fold add_validator vs rs) = rs_round rs"
  "rs_commit (fold add_validator vs rs) = rs_commit rs"
  by (induction vs arbitrary: rs) simp_all

lemma fold_add_validator_flags:
  "rs_validatorsSignedPrevote (fold add_validator vs rs) = rs_validatorsSignedPrevote rs @ replicate (length vs) False"
  "rs_validatorsSignedPrecommit (fold add_validator vs rs) = rs_validatorsSignedPrecommit rs @ replicate (length vs) False"
  by (induction vs arbitrary: rs) (simp_all add: add_validator_def replicate_app_Cons_same)

lemma flags_ok_replicate: "flags_ok (replicate n False) []"
  by (simp add: flags_ok_def js_array_get_def)

lemma createRoundState_fresh:
  assumes "createRoundState vs idx ref = Inr rs"
  shows "rs_ok rs \<and> rs_blockNumber rs = fst ref \<and> rs_round rs = snd ref \<and> rs_proposal rs = None
    \<and> rs_processorResult rs = None \<and> rs_prevotes rs = [] \<and> rs_precommits rs = [] \<and> rs_commit rs = None
    \<and> rs_prevotesCount rs = [] \<and> rs_precommitsCount rs = []"
  using assms
  by (auto simp: createRoundState_def configure_round_state_def new_round_state_def Let_def rs_ok_def
      fold_add_validator_flags flags_ok_replicate split: sum.splits)

section \<open>Aggregated votes\<close>

lemma getSignatures_eq:
  assumes "rs_proposal rs = Some p" and "map_ok vs"
  shows "getSignatures vs rs = Inr (map (\<lambda>(i, m). (i, mg_signature m))
           (filter (\<lambda>(i, m). mg_blockHash m = Some (bh_hash (pr_blockHeader p))) vs))"
proof -
  let ?h = "Some (bh_hash (pr_blockHeader p))"
  let ?step = "\<lambda>(key, vote) filtered. if mg_blockHash vote = ?h then map_set filtered key (mg_signature vote) else filtered"
  have "fold ?step vs acc = acc @ map (\<lambda>(i, m). (i, mg_signature m)) (filter (\<lambda>(i, m). mg_blockHash m = ?h) vs)"
    if "distinct (map fst vs)" and "fst ` set acc \<inter> fst ` set vs = {}" for acc
    using that
  proof (induction vs arbitrary: acc)
    case (Cons v vs)
    obtain i m where v: "v = (i, m)" by (cases v)
    show ?case
    proof (cases "mg_blockHash m = ?h")
      case True
      have "map_set acc i (mg_signature m) = acc @ [(i, mg_signature m)]"
        using Cons.prems v by (intro map_set_fresh) (auto simp: map_has_iff)
      with Cons v True show ?thesis by auto
    next
      case False
      with Cons v show ?thesis by auto
    qed
  qed simp
  from this [of "[]"] assms show ?thesis by (simp add: getSignatures_def map_ok_def)
qed

lemma aggregate_loop_ok:
  assumes "\<forall>i \<in> fst ` set sigs. i < rv" and "length vals = rv"
  shows "aggregate_loop rv sigs vals bufs
       = Inr (map (\<lambda>i. vals ! i \<or> i \<in> fst ` set sigs) [0..<rv], bufs @ map snd sigs)"
  using assms
proof (induction sigs arbitrary: vals bufs)
  case Nil
  then show ?case by (simp add: list_eq_iff_nth_eq)
next
  case (Cons x sigs)
  obtain i s where x: "x = (i, s)" by (cases x)
  with Cons.prems have i: "i < rv" by simp
  let ?vals = "js_array_set vals i True"
  have len: "length ?vals = rv" using i Cons.prems(2) by (simp add: js_array_set_length)
  have nth: "?vals ! j = (vals ! j \<or> j = i)" if "j < rv" for j
    using that i Cons.prems(2) by (simp add: js_array_set_def nth_list_update)
  from Cons.IH [OF _ len] Cons.prems(1) x i show ?case
    by (auto simp: nth)
qed

lemma signer_keys_ok:
  assumes "\<And>j. j < length bs \<Longrightarrow> gv (i + j) = Inr (w (i + j))"
  shows "signer_keys gv i bs = Inr (map (\<lambda>j. vw_blsPublicKey (w (i + j))) (filter (\<lambda>j. bs ! j) [0..<length bs]))"
  using assms
proof (induction bs arbitrary: i)
  case (Cons b bs)
  have gv0: "gv i = Inr (w i)" using Cons.prems [of 0] by simp
  have "signer_keys gv (i + 1) bs
      = Inr (map (\<lambda>j. vw_blsPublicKey (w (i + 1 + j))) (filter (\<lambda>j. bs ! j) [0..<length bs]))"
    using Cons.prems [of "Suc _"] by (intro Cons.IH) simp
  moreover have "filter (\<lambda>j. (b # bs) ! j) [0..<length (b # bs)]
      = (if b then [0] else []) @ map Suc (filter (\<lambda>j. bs ! j) [0..<length bs])"
    by (simp add: upt_conv_Cons map_Suc_upt [symmetric] filter_map comp_def del: upt_Suc)
  ultimately show ?case using gv0 by (simp add: comp_def del: upt_Suc)
qed simp

text \<open>The laws of BLS aggregation the code relies on: signatures that verify one by one over the same
  data aggregate into one that verifies under the aggregate of their keys, in any order of the keys.\<close>

definition bls_law ::
  "(string list \<Rightarrow> error + string) \<Rightarrow> (string list \<Rightarrow> error + string) \<Rightarrow>
   (string \<Rightarrow> bytes \<Rightarrow> string \<Rightarrow> error + bool) \<Rightarrow> bool" where
  "bls_law aggS aggP ver \<longleftrightarrow>
     (\<forall>pairs data. pairs \<noteq> [] \<and> (\<forall>(s, k) \<in> set pairs. ver s data k = Inr True) \<longrightarrow>
        (\<exists>S. aggS (map fst pairs) = Inr S \<and>
           (\<forall>ks. mset ks = mset (map snd pairs) \<longrightarrow> (\<exists>K. aggP ks = Inr K \<and> ver S data K = Inr True))))"

lemma marked_indices:
  assumes "distinct xs" and "\<forall>x \<in> set xs. x < n"
  shows "mset (filter (\<lambda>j. map (\<lambda>i. i \<in> set xs) [0..<n] ! j) [0..<n]) = mset xs"
proof -
  have "filter (\<lambda>j. map (\<lambda>i. i \<in> set xs) [0..<n] ! j) [0..<n] = filter (\<lambda>j. j \<in> set xs) [0..<n]"
    by (rule filter_cong) auto
  moreover have "mset (filter (\<lambda>j. j \<in> set xs) [0..<n]) = mset xs"
    using assms by (intro iffD1 [OF set_eq_iff_mset_eq_distinct]) auto
  ultimately show ?thesis by simp
qed

text \<open>The votes counted for the proposal's block aggregate into a signature the verifier accepts.\<close>

lemma aggregated_votes_verify:
  assumes p: "rs_proposal rs = Some p" and ok: "votes_ok vs cs" and range: "votes_in_range rv vs"
    and maj: "isMajority (vote_count cs (Some (bh_hash (pr_blockHeader p)))) rv"
    and law: "bls_law aggS aggP ver" and gv: "\<And>i. i < rv \<Longrightarrow> gv i = Inr (w i)"
    and signed: "\<And>i m. (i, m) \<in> set vs \<Longrightarrow> mg_blockHash m = Some (bh_hash (pr_blockHeader p)) \<Longrightarrow>
                   ver (mg_signature m) data (vw_blsPublicKey (w i)) = Inr True"
  shows "\<exists>a. sum_bind (getSignatures vs rs) (\<lambda>sigs. aggregate aggS sigs rv) = Inr a
           \<and> verify gv aggP ver a data rv = Inr True"
proof -
  let ?fs = "filter (\<lambda>(i, m). mg_blockHash m = Some (bh_hash (pr_blockHeader p))) vs"
  let ?sigs = "map (\<lambda>(i, m). (i, mg_signature m)) ?fs"
  let ?pairs = "map (\<lambda>(i, m). (mg_signature m, vw_blsPublicKey (w i))) ?fs"
  let ?vals = "map (\<lambda>i. i \<in> fst ` set ?sigs) [0..<rv]"
  from ok have mok: "map_ok vs" by (simp add: votes_ok_def)
  have sigs: "getSignatures vs rs = Inr ?sigs" by (rule getSignatures_eq [OF p mok])
  have maj': "isMajority (length ?sigs) rv" using maj ok by (simp add: votes_ok_def)
  have below: "\<forall>i \<in> fst ` set ?sigs. i < rv"
    using range by (force simp: votes_in_range_def map_has_iff)
  have loop: "aggregate_loop rv ?sigs (replicate rv False) [] = Inr (?vals, map snd ?sigs)"
    using aggregate_loop_ok [OF below, of "replicate rv False" "[]"] by (auto cong: map_cong)
  have keys: "signer_keys gv 0 ?vals = Inr (map (\<lambda>j. vw_blsPublicKey (w j)) (filter (\<lambda>j. ?vals ! j) [0..<rv]))"
    using signer_keys_ok [of ?vals gv 0 w] gv by simp
  let ?idx = "filter (\<lambda>j. ?vals ! j) [0..<rv]"
  have "distinct (map fst ?sigs)" using mok by (auto simp: map_ok_def comp_def split_beta distinct_map_filter)
  from marked_indices [OF this, of rv] below have idx: "mset ?idx = mset (map fst ?sigs)"
    by (simp only: list.set_map)
  from mset_eq_length [OF this] have len: "length ?idx = length ?sigs" by (simp only: length_map)
  have "mset (map (\<lambda>j. vw_blsPublicKey (w j)) ?idx) = mset (map (\<lambda>j. vw_blsPublicKey (w j)) (map fst ?sigs))"
    using idx by (simp only: mset_map)
  also have "map (\<lambda>j. vw_blsPublicKey (w j)) (map fst ?sigs) = map snd ?pairs"
    by (simp add: comp_def split_beta)
  finally have ks: "mset (map (\<lambda>j. vw_blsPublicKey (w j)) ?idx) = mset (map snd ?pairs)" .
  have ne: "?pairs \<noteq> []" using maj' isMajority_pos by fastforce
  have all: "\<forall>(s, k) \<in> set ?pairs. ver s data k = Inr True" using signed by auto
  from law ne all obtain S where S: "aggS (map fst ?pairs) = Inr S"
    "\<And>ks. mset ks = mset (map snd ?pairs) \<Longrightarrow> \<exists>K. aggP ks = Inr K \<and> ver S data K = Inr True"
    unfolding bls_law_def by blast
  from S(2) [OF ks] obtain K where K: "aggP (map (\<lambda>j. vw_blsPublicKey (w j)) ?idx) = Inr K" "ver S data K = Inr True"
    by blast
  have "map snd ?sigs = map fst ?pairs" by (simp add: split_beta)
  with S(1) have agg: "aggregate aggS ?sigs rv = Inr \<lparr>as_signature = S, as_validators = ?vals\<rparr>"
    using maj' loop by (simp add: aggregate_def del: map_map)
  have "verify gv aggP ver \<lparr>as_signature = S, as_validators = ?vals\<rparr> data rv = Inr True"
    using keys maj' len K by (simp add: verify_def del: map_map)
  with agg sigs show ?thesis by simp
qed

section \<open>Properties of the round state\<close>

definition add_messages :: "message list \<Rightarrow> round_state \<Rightarrow> round_state" where
  "add_messages ms rs = fold (\<lambda>m s. outcome_state (addMessage m s)) ms rs"

abbreviation first_vote :: "message_type \<Rightarrow> nat \<Rightarrow> message list \<Rightarrow> message option" where
  "first_vote t i ms \<equiv> List.find (\<lambda>m. mg_type m = t \<and> mg_validatorIndex m = i) ms"

lemma addMessage_prevotes_get:
  "map_get (rs_prevotes (outcome_state (addMessage m rs))) i =
     (case map_get (rs_prevotes rs) i of
        Some v \<Rightarrow> Some v | None \<Rightarrow> if mg_type m = Prevote \<and> mg_validatorIndex m = i then Some m else None)"
  by (auto simp: addMessage_def addPrevote_def increasePrevoteCount_def addPrecommit_rest jsmap_simps map_has_get
      split: message_type.splits option.splits)

lemma addMessage_precommits_get:
  "map_get (rs_precommits (outcome_state (addMessage m rs))) i =
     (case map_get (rs_precommits rs) i of
        Some v \<Rightarrow> Some v | None \<Rightarrow> if mg_type m = Precommit \<and> mg_validatorIndex m = i then Some m else None)"
  by (auto simp: addMessage_def addPrecommit_def increasePrecommitCount_def addPrevote_rest jsmap_simps map_has_get
      split: message_type.splits option.splits)

lemma add_messages_rs_ok: "rs_ok rs \<Longrightarrow> rs_ok (add_messages ms rs)"
  unfolding add_messages_def by (induction ms arbitrary: rs) (simp_all add: addMessage_rs_ok)

lemma add_messages_get:
  "map_get (rs_prevotes (add_messages ms rs)) i =
     (case map_get (rs_prevotes rs) i of Some v \<Rightarrow> Some v | None \<Rightarrow> first_vote Prevote i ms)"
  "map_get (rs_precommits (add_messages ms rs)) i =
     (case map_get (rs_precommits rs) i of Some v \<Rightarrow> Some v | None \<Rightarrow> first_vote Precommit i ms)"
  unfolding add_messages_def
  by (induction ms arbitrary: rs)
    (auto simp: addMessage_prevotes_get addMessage_precommits_get split: option.splits)

text \<open>Whatever messages reach \<open>addMessage\<close>, in whatever order and however often, a round
  state records for every validator exactly its first prevote and its first precommit, the cached
  counts are the numbers of distinct validators behind a value, and the flag arrays mark exactly
  the validators that voted.\<close>

theorem round_state_records_first_votes:
  assumes "createRoundState vs idx ref = Inr rs" and rs': "rs' = add_messages ms rs"
  shows "map_get (rs_prevotes rs') i = first_vote Prevote i ms
    \<and> map_get (rs_precommits rs') i = first_vote Precommit i ms
    \<and> getPrevoteCount h rs' = card {j. \<exists>m. first_vote Prevote j ms = Some m \<and> mg_blockHash m = h}
    \<and> getPrecommitCount h rs' = card {j. \<exists>m. first_vote Precommit j ms = Some m \<and> mg_blockHash m = h}
    \<and> js_array_get (rs_validatorsSignedPrevote rs') i = (first_vote Prevote i ms \<noteq> None)
    \<and> js_array_get (rs_validatorsSignedPrecommit rs') i = (first_vote Precommit i ms \<noteq> None)"
proof -
  from createRoundState_fresh [OF assms(1)] have rs: "rs_ok rs" "rs_prevotes rs = []" "rs_precommits rs = []"
    by simp_all
  have get: "map_get (rs_prevotes rs') j = first_vote Prevote j ms"
    "map_get (rs_precommits rs') j = first_vote Precommit j ms" for j
    using rs by (simp_all add: rs' add_messages_get)
  have ok: "rs_ok rs'" unfolding rs' using rs(1) by (rule add_messages_rs_ok)
  then have "vote_count (rs_prevotesCount rs') h = card (voters (rs_prevotes rs') h)"
    and "vote_count (rs_precommitsCount rs') h = card (voters (rs_precommits rs') h)"
    by (auto simp: rs_ok_def intro: votes_ok_count)
  with ok show ?thesis
    by (simp add: rs_ok_def getPrevoteCount_def getPrecommitCount_def voters_def get flags_ok_def map_has_get)
qed

text \<open>Among the votes of one round at most one value, block or nil, has more than two thirds:
  \<open>hasMajorityPrevotes\<close> and \<open>hasMajorityPrevotesNull\<close> exclude each other, and a majority of
  precommits for a missing proposal is for one hash only.\<close>

theorem one_majority_per_round:
  assumes "rs_ok rs" and "votes_in_range rv (rs_prevotes rs)" and "votes_in_range rv (rs_precommits rs)"
  shows "\<not> (hasMajorityPrevotes rv rs \<and> hasMajorityPrevotesNull rv rs)
    \<and> (isMajority (getPrevoteCount h rs) rv \<and> isMajority (getPrevoteCount h' rs) rv \<longrightarrow> h = h')
    \<and> (isMajority (getPrecommitCount h rs) rv \<and> isMajority (getPrecommitCount h' rs) rv \<longrightarrow> h = h')"
proof -
  from assms(1) have ok: "votes_ok (rs_prevotes rs) (rs_prevotesCount rs)"
    "votes_ok (rs_precommits rs) (rs_precommitsCount rs)" by (simp_all add: rs_ok_def)
  have pv: "isMajority (getPrevoteCount a rs) rv \<Longrightarrow> isMajority (getPrevoteCount b rs) rv \<Longrightarrow> a = b" for a b
    unfolding getPrevoteCount_def by (rule majority_value_unique [OF ok(1) assms(2)])
  have pc: "isMajority (getPrecommitCount a rs) rv \<Longrightarrow> isMajority (getPrecommitCount b rs) rv \<Longrightarrow> a = b" for a b
    unfolding getPrecommitCount_def by (rule majority_value_unique [OF ok(2) assms(3)])
  show ?thesis
    using pv [of None] pv pc
    by (auto simp: hasMajorityPrevotes_def hasMajorityPrevotesNull_def split: option.splits)
qed

text \<open>C34 (functional). \<open>RoundState.getCommit\<close>: once \<open>hasMajorityPrecommits\<close> holds, the precommits for the
  block of the proposal aggregate into a commit of that block, and \<open>Aggregator.verify\<close> accepts
  its proof over the data those precommits signed. Given are the laws of BLS aggregation, the
  validator set's answers, and that every counted precommit was verified when it was added.\<close>

theorem getCommit_proof_verifies:
  assumes "rs_ok rs" and "votes_in_range rv (rs_precommits rs)" and "hasMajorityPrecommits rv rs"
    and "rs_commit rs = None" and "rs_proposal rs = Some p" and "pr_payload p = Some payload"
    and "bls_law aggS aggP ver" and "\<forall>i < rv. gv i = Inr (w i)"
    and "\<forall>(i, m) \<in> set (rs_precommits rs). mg_blockHash m = Some (bh_hash (pr_blockHeader p)) \<longrightarrow>
           ver (mg_signature m) data (vw_blsPublicKey (w i)) = Inr True"
    and "\<forall>proof. \<exists>s. ser (pl_block payload) proof = Inr s"
  shows "\<exists>c. getCommit aggS ser rv rs = (Inr c, rs\<lparr>rs_commit := Some c\<rparr>)
    \<and> cm_block c = pl_block payload \<and> cp_round (cm_proof c) = pr_round p
    \<and> verify gv aggP ver \<lparr>as_signature = cp_signature (cm_proof c), as_validators = cp_validators (cm_proof c)\<rparr>
        data rv = Inr True"
proof -
  have "\<exists>a. sum_bind (getSignatures (rs_precommits rs) rs) (\<lambda>sigs. aggregate aggS sigs rv) = Inr a
           \<and> verify gv aggP ver a data rv = Inr True"
    by (rule aggregated_votes_verify [where cs = "rs_precommitsCount rs" and w = w])
      (use assms in \<open>auto simp: rs_ok_def hasMajorityPrecommits_def getPrecommitCount_def split: option.splits\<close>)
  then obtain a where a: "aggregatePrecommits aggS rv rs = Inr a" "verify gv aggP ver a data rv = Inr True"
    by (auto simp: aggregatePrecommits_def)
  let ?proof = "\<lparr>cp_round = pr_round p, cp_signature = as_signature a, cp_validators = as_validators a\<rparr>"
  from assms(10) obtain s where "ser (pl_block payload) ?proof = Inr s" by blast
  with a assms(4-6) show ?thesis by (cases a) (simp add: getCommit_def getPayload_def)
qed

text \<open>A lock proof built by \<open>aggregatePrevotes\<close> from a round with +2/3 prevotes for its
  proposal is accepted by \<open>Aggregator.verify\<close>, which is how the peers check a re-proposal.\<close>

theorem lock_proof_verifies:
  assumes "rs_ok rs" and "votes_in_range rv (rs_prevotes rs)" and "hasMajorityPrevotes rv rs"
    and "rs_proposal rs = Some p"
    and "bls_law aggS aggP ver" and "\<forall>i < rv. gv i = Inr (w i)"
    and "\<forall>(i, m) \<in> set (rs_prevotes rs). mg_blockHash m = Some (bh_hash (pr_blockHeader p)) \<longrightarrow>
           ver (mg_signature m) data (vw_blsPublicKey (w i)) = Inr True"
  shows "\<exists>a. aggregatePrevotes aggS rv rs = Inr a \<and> verify gv aggP ver a data rv = Inr True"
  unfolding aggregatePrevotes_def
  by (rule aggregated_votes_verify [where cs = "rs_prevotesCount rs" and w = w])
    (use assms in \<open>auto simp: rs_ok_def hasMajorityPrevotes_def getPrevoteCount_def split: option.splits\<close>)

section \<open>A concrete round, for the witnesses\<close>

text \<open>Four validators; all four precommit and prevote block \<open>''b''\<close>.\<close>

definition sample_wallet :: "nat \<Rightarrow> validator_wallet" where
  "sample_wallet i = \<lparr>vw_address = replicate i CHR ''a'', vw_blsPublicKey = replicate i CHR ''k'',
     vw_voteBalance = 0, vw_fee = 0, vw_votersCount = 0, vw_isResigned = False\<rparr>"

definition sample_message :: "message_type \<Rightarrow> nat \<Rightarrow> nat \<Rightarrow> string option \<Rightarrow> nat \<Rightarrow> message" where
  "sample_message t n r h i = \<lparr>mg_type = t, mg_blockNumber = n, mg_round = r, mg_blockHash = h,
     mg_validatorIndex = i, mg_signature = ''sig'', mg_serialized = []\<rparr>"

definition sample_header :: "nat \<Rightarrow> string \<Rightarrow> block_header" where
  "sample_header n h = \<lparr>bh_version = 1, bh_timestamp = 0, bh_number = n, bh_round = 0, bh_parentHash = [],
     bh_stateRoot = [], bh_logsBloom = [], bh_transactionsCount = 0, bh_gasUsed = 0, bh_fee = 0,
     bh_reward = 0, bh_payloadSize = 0, bh_transactionsRoot = [], bh_proposer = [], bh_randaoReveal = [],
     bh_hash = h\<rparr>"

definition sample_payload :: "nat \<Rightarrow> string \<Rightarrow> proposed_payload" where
  "sample_payload n h = \<lparr>pl_block = \<lparr>bk_header = sample_header n h, bk_serialized = [], bk_transactions = []\<rparr>,
     pl_lockProof = None, pl_serialized = []\<rparr>"

definition sample_proposal :: "nat \<Rightarrow> nat \<Rightarrow> string \<Rightarrow> proposal" where
  "sample_proposal n r h = \<lparr>pr_blockHeader = sample_header n h, pr_lockProof = None, pr_round = r,
     pr_validRound = None, pr_payloadSerialized = [], pr_payload = Some (sample_payload n h),
     pr_validatorIndex = 0, pr_signature = [], pr_serialized = []\<rparr>"

definition sample_votes :: "message list" where
  "sample_votes = map (sample_message Prevote 1 0 (Some ''b'')) [0, 1, 2, 3]
                @ map (sample_message Precommit 1 0 (Some ''b'')) [0, 1, 2, 3]"

definition sample_fresh_round :: round_state where
  "sample_fresh_round = projr (createRoundState (Inr (map sample_wallet [0, 1, 2, 3])) (\<lambda>r. Some (r mod 4)) (1, 0))"

definition sample_round :: round_state where
  "sample_round = (add_messages sample_votes sample_fresh_round)\<lparr>rs_proposal := Some (sample_proposal 1 0 ''b'')\<rparr>"

definition sample_verify :: "string \<Rightarrow> bytes \<Rightarrow> string \<Rightarrow> error + bool" where
  "sample_verify s d k = Inr (s = ''sig'')"

lemma sample_bls_law: "bls_law (\<lambda>_. Inr ''sig'') (\<lambda>_. Inr ''key'') sample_verify"
  by (simp add: bls_law_def sample_verify_def)

lemma sample_fresh_round_created:
  "createRoundState (Inr (map sample_wallet [0, 1, 2, 3])) (\<lambda>r. Some (r mod 4)) (1, 0) = Inr sample_fresh_round"
  by (simp add: sample_fresh_round_def createRoundState_def configure_round_state_def)

lemma sample_round_ok: "rs_ok sample_round"
  using createRoundState_fresh [OF sample_fresh_round_created]
  by (simp add: sample_round_def add_messages_rs_ok)

lemma sample_round_votes:
  "rs_prevotes sample_round = map (\<lambda>i. (i, sample_message Prevote 1 0 (Some ''b'') i)) [0, 1, 2, 3]"
  "rs_precommits sample_round = map (\<lambda>i. (i, sample_message Precommit 1 0 (Some ''b'') i)) [0, 1, 2, 3]"
  by code_simp+

lemma sample_round_majority: "hasMajorityPrevotes 4 sample_round" "hasMajorityPrecommits 4 sample_round"
  by code_simp+

lemma sample_round_in_range:
  "votes_in_range 4 (rs_prevotes sample_round)" "votes_in_range 4 (rs_precommits sample_round)"
  by (auto simp: votes_in_range_def sample_round_votes map_has_iff)

theorem round_state_records_first_votes_witness:
  "map_get (rs_prevotes (add_messages sample_votes sample_fresh_round)) 2 = first_vote Prevote 2 sample_votes"
  using round_state_records_first_votes [OF sample_fresh_round_created refl, of sample_votes 2] by simp

theorem one_majority_per_round_witness:
  "\<not> (hasMajorityPrevotes 4 sample_round \<and> hasMajorityPrevotesNull 4 sample_round)"
  using one_majority_per_round [OF sample_round_ok sample_round_in_range] by simp

theorem getCommit_proof_verifies_witness:
  "\<exists>c. getCommit (\<lambda>_. Inr ''sig'') (\<lambda>_ _. Inr []) 4 sample_round = (Inr c, sample_round\<lparr>rs_commit := Some c\<rparr>)
     \<and> verify (\<lambda>i. Inr (sample_wallet i)) (\<lambda>_. Inr ''key'') sample_verify
         \<lparr>as_signature = cp_signature (cm_proof c), as_validators = cp_validators (cm_proof c)\<rparr> [] 4 = Inr True"
proof -
  have state: "rs_commit sample_round = None" "rs_proposal sample_round = Some (sample_proposal 1 0 ''b'')"
    "pr_payload (sample_proposal 1 0 ''b'') = Some (sample_payload 1 ''b'')" by code_simp+
  show ?thesis
    using getCommit_proof_verifies [OF sample_round_ok sample_round_in_range(2) sample_round_majority(2) state
        sample_bls_law, of "\<lambda>i. Inr (sample_wallet i)" sample_wallet "[]" "\<lambda>_ _. Inr []"]
    by (auto simp: sample_round_votes sample_message_def sample_verify_def)
qed

theorem lock_proof_verifies_witness:
  "\<exists>a. aggregatePrevotes (\<lambda>_. Inr ''sig'') 4 sample_round = Inr a
     \<and> verify (\<lambda>i. Inr (sample_wallet i)) (\<lambda>_. Inr ''key'') sample_verify a [] 4 = Inr True"
proof -
  have state: "rs_proposal sample_round = Some (sample_proposal 1 0 ''b'')" by code_simp
  show ?thesis
    using lock_proof_verifies [OF sample_round_ok sample_round_in_range(1) sample_round_majority(1) state
        sample_bls_law, of "\<lambda>i. Inr (sample_wallet i)" sample_wallet "[]"]
    by (auto simp: sample_round_votes sample_message_def sample_verify_def)
qed

end
