(* ===== verification/Consensus_Storage.thy ===== *)
theory Consensus_Storage
  imports Chain_Types
begin

text \<open>
  \<open>packages/consensus-storage/source/service.ts\<close>: the durable record of what a validator signed and
  of the position it reached.

  The three LMDB databases are maps; the keys \<open>`${round}-${validatorIndex}`\<close> and
  \<open>`${round}-${validatorIndex}-${type}`\<close> are tuples. Values are the serialized bytes, as in the
  code; \<open>makeProposalFromBytes\<close> and \<open>makeMessageFromBytes\<close> of the factories are arguments of the
  readers. \<open>st_blockNumber\<close> is the in-memory field \<open>#blockNumber\<close>, which a restart sets again with
  \<open>initialize\<close>. A transaction that fails ends the process (\<open>app.fail\<close>), so a write either
  happened or the process is gone.

  The lemmas show which records a write keeps and which it drops, and that a record is read back.
\<close>

section \<open>Data\<close>

text \<open>\<open>Enums.Consensus.Step\<close>, with its numbering.\<close>

datatype step = Step_Propose | Step_Prevote | Step_Precommit

fun step_number :: "step \<Rightarrow> nat" where
  "step_number Step_Propose = 0"
| "step_number Step_Prevote = 1"
| "step_number Step_Precommit = 2"

record state_data =
  sd_blockNumber :: nat
  sd_lockedRound :: "nat option"
  sd_round :: nat
  sd_step :: step
  sd_validRound :: "nat option"

record store =
  st_blockNumber :: nat
  st_proposals :: "(nat \<times> nat, bytes) jsmap"
  st_messages :: "(nat \<times> nat \<times> message_type, bytes) jsmap"
  st_state :: "state_data option"

definition empty_store :: store where
  "empty_store = \<lparr>st_blockNumber = 0, st_proposals = [], st_messages = [], st_state = None\<rparr>"

section \<open>Operations\<close>

definition initialize :: "store \<Rightarrow> store" where
  "initialize st = st\<lparr>st_blockNumber := (case st_state st of None \<Rightarrow> 0 | Some d \<Rightarrow> sd_blockNumber d)\<rparr>"

definition getState :: "store \<Rightarrow> state_data option" where
  "getState st = st_state st"

definition clear_databases :: "store \<Rightarrow> store" where
  "clear_databases st = st\<lparr>st_proposals := [], st_messages := [], st_state := None\<rparr>"

text \<open>\<open>#write\<close>: the first record of a higher block drops every stored one in the same transaction.\<close>

definition storage_write :: "nat \<Rightarrow> (store \<Rightarrow> store) \<Rightarrow> store \<Rightarrow> store" where
  "storage_write blockNumber f st =
     (let replacesStoredBlock = blockNumber > st_blockNumber st;
          st1 = st\<lparr>st_blockNumber := max (st_blockNumber st) blockNumber\<rparr>
      in f (if replacesStoredBlock then clear_databases st1 else st1))"

definition saveState :: "state_data \<Rightarrow> store \<Rightarrow> store" where
  "saveState d st = storage_write (sd_blockNumber d) (\<lambda>s. s\<lparr>st_state := Some d\<rparr>) st"

definition saveProposal :: "proposal \<Rightarrow> store \<Rightarrow> store" where
  "saveProposal p st = storage_write (bh_number (pr_blockHeader p))
     (\<lambda>s. s\<lparr>st_proposals := map_set (st_proposals s) (pr_round p, pr_validatorIndex p) (pr_serialized p)\<rparr>) st"

definition saveMessage :: "message \<Rightarrow> store \<Rightarrow> store" where
  "saveMessage m st = storage_write (mg_blockNumber m)
     (\<lambda>s. s\<lparr>st_messages := map_set (st_messages s)
              (mg_round m, mg_validatorIndex m, mg_type m) (mg_serialized m)\<rparr>) st"

definition clear_storage :: "store \<Rightarrow> store" where
  "clear_storage st = clear_databases (st\<lparr>st_blockNumber := 0\<rparr>)"

fun parse_all :: "(bytes \<Rightarrow> error + 'a) \<Rightarrow> bytes list \<Rightarrow> error + 'a list" where
  "parse_all mk [] = Inr []"
| "parse_all mk (b # bs) = sum_bind (mk b) (\<lambda>x. sum_bind (parse_all mk bs) (\<lambda>xs. Inr (x # xs)))"

text \<open>LMDB ranges over the keys in order; the readers below are used for the set of records only.\<close>

definition getProposals :: "(bytes \<Rightarrow> error + proposal) \<Rightarrow> store \<Rightarrow> error + proposal list" where
  "getProposals mk st = parse_all mk (map snd (st_proposals st))"

definition getMessages_stored :: "(bytes \<Rightarrow> error + message) \<Rightarrow> store \<Rightarrow> error + message list" where
  "getMessages_stored mk st = parse_all mk (map snd (st_messages st))"

section \<open>Lemmas\<close>

lemma initialize_simps [simp]:
  "st_proposals (initialize st) = st_proposals st" "st_messages (initialize st) = st_messages st"
  "st_state (initialize st) = st_state st"
  "st_blockNumber (initialize st) = (case st_state st of None \<Rightarrow> 0 | Some d \<Rightarrow> sd_blockNumber d)"
  by (simp_all add: initialize_def)

lemma saveState_simps [simp]:
  "st_state (saveState d st) = Some d"
  "st_blockNumber (saveState d st) = max (st_blockNumber st) (sd_blockNumber d)"
  "st_messages (saveState d st) = (if sd_blockNumber d > st_blockNumber st then [] else st_messages st)"
  "st_proposals (saveState d st) = (if sd_blockNumber d > st_blockNumber st then [] else st_proposals st)"
  by (simp_all add: saveState_def storage_write_def clear_databases_def Let_def)

lemma saveMessage_simps [simp]:
  "st_state (saveMessage m st) = (if mg_blockNumber m > st_blockNumber st then None else st_state st)"
  "st_blockNumber (saveMessage m st) = max (st_blockNumber st) (mg_blockNumber m)"
  "st_messages (saveMessage m st) =
     map_set (if mg_blockNumber m > st_blockNumber st then [] else st_messages st)
       (mg_round m, mg_validatorIndex m, mg_type m) (mg_serialized m)"
  "st_proposals (saveMessage m st) = (if mg_blockNumber m > st_blockNumber st then [] else st_proposals st)"
  by (simp_all add: saveMessage_def storage_write_def clear_databases_def Let_def)

lemma saveProposal_simps [simp]:
  "st_state (saveProposal p st) = (if bh_number (pr_blockHeader p) > st_blockNumber st then None else st_state st)"
  "st_blockNumber (saveProposal p st) = max (st_blockNumber st) (bh_number (pr_blockHeader p))"
  "st_messages (saveProposal p st) = (if bh_number (pr_blockHeader p) > st_blockNumber st then [] else st_messages st)"
  "st_proposals (saveProposal p st) =
     map_set (if bh_number (pr_blockHeader p) > st_blockNumber st then [] else st_proposals st)
       (pr_round p, pr_validatorIndex p) (pr_serialized p)"
  by (simp_all add: saveProposal_def storage_write_def clear_databases_def Let_def)

lemma clear_storage_simps [simp]:
  "st_state (clear_storage st) = None" "st_messages (clear_storage st) = []"
  "st_proposals (clear_storage st) = []" "st_blockNumber (clear_storage st) = 0"
  by (simp_all add: clear_storage_def clear_databases_def)

lemma parse_all_Inr_iff: "parse_all mk bs = Inr xs \<longleftrightarrow> list_all2 (\<lambda>b x. mk b = Inr x) bs xs"
  by (induction bs arbitrary: xs) (auto simp: sum_bind_Inr_iff list_all2_Cons1)

lemma parse_all_origin: "parse_all mk bs = Inr xs \<Longrightarrow> x \<in> set xs \<Longrightarrow> \<exists>b \<in> set bs. mk b = Inr x"
  by (induction bs arbitrary: xs) (auto simp: sum_bind_Inr_iff)

lemma map_set_values: "snd ` set (map_set m k x) \<subseteq> insert x (snd ` set m)"
  by (induction m) (auto simp: map_set_def split: if_splits)

section \<open>Reading back what was written\<close>

text \<open>The contract of the store towards its clients: a record of the stored block or of a higher one
  can be read back, and the records of the stored block stay.\<close>

locale record_store =
  fixes put :: "'r \<Rightarrow> store \<Rightarrow> store" and lookup :: "'r \<Rightarrow> store \<Rightarrow> bytes option"
    and number :: "'r \<Rightarrow> nat" and content :: "'r \<Rightarrow> bytes" and same :: "'r \<Rightarrow> 'r \<Rightarrow> bool"
  assumes put_lookup: "same r r' \<Longrightarrow> lookup r (put r' st) = Some (content r')"
    and put_other: "\<not> same r r' \<Longrightarrow> number r' \<le> st_blockNumber st \<Longrightarrow> lookup r (put r' st) = lookup r st"
    and put_number: "st_blockNumber (put r st) = max (st_blockNumber st) (number r)"
    and same_sym: "same r r' \<Longrightarrow> same r' r"
begin

text \<open>After any sequence of writes of one block, each record read is the last one written under its key.\<close>

lemma last_write_wins:
  assumes "\<forall>r' \<in> set rs. number r' \<le> st_blockNumber (put r0 st)"
  shows "lookup r (fold put rs (put r0 st)) =
    (case List.find (same r) (rev rs) of
       Some r' \<Rightarrow> Some (content r') | None \<Rightarrow> lookup r (put r0 st))"
  using assms
proof (induction rs rule: rev_induct)
  case (snoc x xs)
  have num: "st_blockNumber (fold put xs (put r0 st)) \<ge> st_blockNumber (put r0 st)"
    by (induction xs rule: rev_induct) (auto simp: put_number le_max_iff_disj)
  show ?case
  proof (cases "same r x")
    case True
    then show ?thesis by (simp add: put_lookup)
  next
    case False
    with snoc num show ?thesis by (simp add: put_other)
  qed
qed simp

end

interpretation stored_messages: record_store saveMessage
  "\<lambda>m st. map_get (st_messages st) (mg_round m, mg_validatorIndex m, mg_type m)"
  mg_blockNumber mg_serialized
  "\<lambda>m m'. (mg_round m, mg_validatorIndex m, mg_type m) = (mg_round m', mg_validatorIndex m', mg_type m')"
  by unfold_locales (auto simp: jsmap_simps)

interpretation stored_proposals: record_store saveProposal
  "\<lambda>p st. map_get (st_proposals st) (pr_round p, pr_validatorIndex p)"
  "\<lambda>p. bh_number (pr_blockHeader p)" pr_serialized
  "\<lambda>p p'. (pr_round p, pr_validatorIndex p) = (pr_round p', pr_validatorIndex p')"
  by unfold_locales (auto simp: jsmap_simps)

text \<open>\<open>saveMessage\<close> and \<open>getMessages\<close>: from whatever the store held, after the votes \<open>ms\<close> of
  one block, at least the height of the stored one, are saved, the vote read for a round,
  validator and type is the last one saved for it; no saved vote is lost.\<close>

theorem saved_messages_are_read_back:
  assumes "\<forall>m \<in> set (m0 # ms). mg_blockNumber m = n" and "m \<in> set (m0 # ms)"
  shows "map_get (st_messages (fold saveMessage ms (saveMessage m0 st)))
           (mg_round m, mg_validatorIndex m, mg_type m)
       = map_option mg_serialized (List.find (\<lambda>m'. (mg_round m, mg_validatorIndex m, mg_type m)
           = (mg_round m', mg_validatorIndex m', mg_type m')) (rev (m0 # ms)))"
proof -
  have le: "\<forall>m' \<in> set ms. mg_blockNumber m' \<le> st_blockNumber (saveMessage m0 st)"
    using assms(1) by simp
  let ?same = "\<lambda>m'. (mg_round m, mg_validatorIndex m, mg_type m) = (mg_round m', mg_validatorIndex m', mg_type m')"
  show ?thesis
  proof (cases "List.find ?same (rev ms)")
    case None
    then have "m \<notin> set ms" by (auto simp: find_None_iff)
    with assms(2) have "m = m0" by simp
    with None show ?thesis
      unfolding stored_messages.last_write_wins [OF le, of m] by (simp add: find_append jsmap_simps)
  next
    case (Some m')
    then show ?thesis
      unfolding stored_messages.last_write_wins [OF le, of m] by (simp add: find_append)
  qed
qed

definition sample_saved_message :: "nat \<Rightarrow> message" where
  "sample_saved_message i = \<lparr>mg_type = Prevote, mg_blockNumber = 5, mg_round = 0, mg_blockHash = None,
     mg_validatorIndex = i, mg_signature = [], mg_serialized = [1, 2]\<rparr>"

theorem saved_messages_are_read_back_witness:
  "map_get (st_messages (fold saveMessage [sample_saved_message 1, sample_saved_message 2]
     (saveMessage (sample_saved_message 0) empty_store))) (0, 1, Prevote) = Some [1, 2]"
  using saved_messages_are_read_back [of "sample_saved_message 0" "[sample_saved_message 1, sample_saved_message 2]"
      5 "sample_saved_message 1" empty_store]
  by (simp add: sample_saved_message_def)

end
