(* ===== verification/Consensus_Scheduler.thy ===== *)
theory Consensus_Scheduler
  imports Blockchain_Utils
begin

text \<open>
  \<open>packages/consensus/source/scheduler.ts\<close>. A pending timer is the position it was scheduled for and
  its delay in milliseconds; when it fires, the field is unset before the handler runs. The
  timeouts of the milestone in force and the timestamp of the last block are arguments.
\<close>

record scheduler =
  sc_timeoutBlockPrepare :: "nat option"
  sc_timeoutPropose :: "(nat \<times> nat \<times> nat) option"
  sc_timeoutPrevote :: "(nat \<times> nat \<times> nat) option"
  sc_timeoutPrecommit :: "(nat \<times> nat \<times> nat) option"

definition idle_scheduler :: scheduler where
  "idle_scheduler = \<lparr>sc_timeoutBlockPrepare = None, sc_timeoutPropose = None, sc_timeoutPrevote = None,
     sc_timeoutPrecommit = None\<rparr>"

definition getNextBlockTimestamp :: "timeouts \<Rightarrow> nat \<Rightarrow> nat \<Rightarrow> nat \<Rightarrow> error + nat" where
  "getNextBlockTimestamp t lastTimestamp roundStartTime round =
     sum_bind (calculateMinimalTimestamp t lastTimestamp round)
       (\<lambda>minimal. Inr (max (roundStartTime + blockPrepareTime t) minimal))"

definition getTimeout :: "timeouts \<Rightarrow> nat \<Rightarrow> nat" where
  "getTimeout t round = stageTimeout t + round * stageTimeoutIncrease t"

text \<open>\<open>Math.max(0, timestamp - now)\<close> is the truncated difference of \<open>nat\<close>.\<close>

definition scheduleTimeoutBlockPrepare :: "nat \<Rightarrow> nat \<Rightarrow> scheduler \<Rightarrow> bool \<times> scheduler" where
  "scheduleTimeoutBlockPrepare now timestamp sc =
     (if sc_timeoutBlockPrepare sc \<noteq> None then (False, sc)
      else (True, sc\<lparr>sc_timeoutBlockPrepare := Some (timestamp - now)\<rparr>))"

definition scheduleTimeoutPropose :: "timeouts \<Rightarrow> nat \<Rightarrow> nat \<Rightarrow> scheduler \<Rightarrow> bool \<times> scheduler" where
  "scheduleTimeoutPropose t blockNumber round sc =
     (if sc_timeoutPropose sc \<noteq> None then (False, sc)
      else (True, sc\<lparr>sc_timeoutPropose := Some (blockNumber, round, getTimeout t round)\<rparr>))"

definition scheduleTimeoutPrevote :: "timeouts \<Rightarrow> nat \<Rightarrow> nat \<Rightarrow> scheduler \<Rightarrow> bool \<times> scheduler" where
  "scheduleTimeoutPrevote t blockNumber round sc =
     (if sc_timeoutPrevote sc \<noteq> None then (False, sc)
      else (True, sc\<lparr>sc_timeoutPrevote := Some (blockNumber, round, getTimeout t round)\<rparr>))"

definition scheduleTimeoutPrecommit :: "timeouts \<Rightarrow> nat \<Rightarrow> nat \<Rightarrow> scheduler \<Rightarrow> bool \<times> scheduler" where
  "scheduleTimeoutPrecommit t blockNumber round sc =
     (if sc_timeoutPrecommit sc \<noteq> None then (False, sc)
      else (True, sc\<lparr>sc_timeoutPrecommit := Some (blockNumber, round, getTimeout t round)\<rparr>))"

definition clear_scheduler :: "scheduler \<Rightarrow> scheduler" where
  "clear_scheduler sc = sc\<lparr>sc_timeoutBlockPrepare := None, sc_timeoutPropose := None,
     sc_timeoutPrevote := None, sc_timeoutPrecommit := None\<rparr>"

lemma clear_scheduler_idle: "clear_scheduler sc = idle_scheduler"
  by (cases sc) (simp add: clear_scheduler_def idle_scheduler_def)

text \<open>\<open>getNextBlockTimestamp\<close> leaves the block preparation time and respects the minimal
  timestamp of the round, so a block forged with it passes the timestamp check of its round; it
  fails only above round 100000.\<close>

theorem getNextBlockTimestamp_bounds:
  "(round \<le> 100000 \<longrightarrow> (\<exists>ts minimal. getNextBlockTimestamp t prev start round = Inr ts
       \<and> calculateMinimalTimestamp t prev round = Inr minimal
       \<and> minimal \<le> ts \<and> start + blockPrepareTime t \<le> ts \<and> prev + blockTime t \<le> ts))
   \<and> (100000 < round \<longrightarrow> getNextBlockTimestamp t prev start round = Inl (JsError ''Round is too high''))"
  by (auto simp: getNextBlockTimestamp_def calculateMinimalTimestamp_def Let_def)

theorem getNextBlockTimestamp_bounds_witness:
  "\<exists>ts. getNextBlockTimestamp \<lparr>blockPrepareTime = 4, blockTime = 8, stageTimeout = 2,
     stageTimeoutIncrease = 2, tolerance = 1\<rparr> 100 107 2 = Inr ts \<and> 111 \<le> ts \<and> 108 \<le> ts"
  using getNextBlockTimestamp_bounds [of 2 "\<lparr>blockPrepareTime = 4, blockTime = 8, stageTimeout = 2,
     stageTimeoutIncrease = 2, tolerance = 1\<rparr>" 100 107]
  by auto

end
