(* ===== verification/Consensus_Node.thy ===== *)
theory Consensus_Node
  imports Round_State Consensus_Storage Consensus_Scheduler
begin

text \<open>
  \<open>packages/consensus/source/consensus.ts\<close> and \<open>commit-state.ts\<close>: the Tendermint state machine of a
  node.

  The fields of the class \<open>Consensus\<close> are the record \<open>node\<close>. A \<open>RoundState\<close> object is named by its
  block number and round and lives in the repository \<open>nd_repo\<close>; the repository is cleared exactly
  when the block number grows, so a reference of the current block always names one object, and
  every handler ignores a round state of another block. \<open>nd_trace\<close> is the sequence of effects on
  the world: writes to the consensus store, signatures, commits, events. Messages that enter a
  round state and verified lock proofs are recorded there too, for the safety proofs.

  The services the class calls are the record \<open>env\<close>. Its functions may depend on the whole node
  state, trace included, so that two calls may answer differently: clock, validator set, own
  validators, processor, event listeners, key use.

  A handler runs under \<open>#handlerLock\<close> and is one function on \<open>node\<close>; an exception leaves it with
  the state reached so far. The recursion \<open>applyRules\<close> - \<open>onMajorityPrecommit\<close> - \<open>startRound\<close> -
  \<open>applyRules\<close> takes fuel; \<open>Consensus_Rules\<close> shows that 3 is always enough.
\<close>

section \<open>Data\<close>

datatype effect =
    SaveState state_data
  | SaveProposal proposal
  | SaveMessage message
  | ClearStore
  | Restarted
  | SignedMessage message
  | AddedMessage message
  | LockProofVerified proposal
  | CommitProofVerified nat nat string
  | ProcessMessage message
  | ProcessProposal proposal
  | Dispatched string
  | CommittedBlock nat string
  | NewRoundStatistic nat nat

text \<open>What \<open>#createProposal\<close> fixed before its first \<open>await\<close>: a re-proposal of the valid block, the
  request to forge one, or an exception.\<close>

datatype proposal_job =
    Repropose nat nat nat block aggregated_signature
  | Forge nat string nat nat nat
  | JobFailed error

record node =
  nd_blockNumber :: nat
  nd_round :: nat
  nd_step :: step
  nd_lockedValue :: "rs_ref option"
  nd_validValue :: "rs_ref option"
  nd_didMajorityPrevote :: bool
  nd_didMajorityPrecommit :: bool
  nd_didMajorityPrecommitWithoutProposal :: bool
  nd_isDisposed :: bool
  nd_pendingJobs :: "rs_ref list"
  nd_proposalPromise :: "(nat \<times> proposal_job) option"
  nd_promiseCount :: nat
  nd_roundStartTime :: nat
  nd_repo :: repository
  nd_scheduler :: scheduler
  nd_trace :: "effect list"

text \<open>A unit for the block processor: a round state or a commit state.\<close>

record unit_data =
  un_blockNumber :: nat
  un_round :: nat
  un_block :: "error + block"
  un_result :: "error + processor_result"

record env =
  ev_now :: "node \<Rightarrow> nat"
  ev_roundValidators :: "node \<Rightarrow> error + validator_wallet list"
  ev_proposerIndex :: "node \<Rightarrow> nat \<Rightarrow> nat option"
  ev_validatorIndex :: "node \<Rightarrow> string \<Rightarrow> error + nat"
  ev_isRegistered :: "node \<Rightarrow> string \<Rightarrow> bool"
  ev_milestoneValidators :: "nat \<Rightarrow> nat"
  ev_timeouts :: "node \<Rightarrow> timeouts"
  ev_lastTimestamp :: "node \<Rightarrow> nat"
  ev_pendingCommit :: "node \<Rightarrow> nat \<Rightarrow> bool"
  ev_makePayload :: "string \<Rightarrow> error + proposed_payload"
  ev_verifyLockProof :: "node \<Rightarrow> proposal \<Rightarrow> error + bool"
  ev_process :: "node \<Rightarrow> block \<Rightarrow> error + processor_result"
  ev_commit :: "node \<Rightarrow> nat \<Rightarrow> block \<Rightarrow> error option"
  ev_makeMessage :: "node \<Rightarrow> message_type \<Rightarrow> nat \<Rightarrow> nat \<Rightarrow> nat \<Rightarrow> string option \<Rightarrow> error + message"
  ev_aggregate :: "string list \<Rightarrow> error + string"
  ev_listener :: "node \<Rightarrow> string \<Rightarrow> error option"
  ev_getValidator :: "node \<Rightarrow> nat \<Rightarrow> error + validator_wallet"

section \<open>Reading the state\<close>

definition getLockedRound :: "node \<Rightarrow> nat option" where
  "getLockedRound s = map_option snd (nd_lockedValue s)"

definition getValidRound :: "node \<Rightarrow> nat option" where
  "getValidRound s = map_option snd (nd_validValue s)"

definition getState_node :: "node \<Rightarrow> state_data" where
  "getState_node s = \<lparr>sd_blockNumber = nd_blockNumber s, sd_lockedRound = getLockedRound s,
     sd_round = nd_round s, sd_step = nd_step s, sd_validRound = getValidRound s\<rparr>"

definition current_ref :: "node \<Rightarrow> rs_ref" where
  "current_ref s = (nd_blockNumber s, nd_round s)"

definition isCurrentRoundState :: "rs_ref \<Rightarrow> node \<Rightarrow> bool" where
  "isCurrentRoundState ref s = (fst ref = nd_blockNumber s \<and> snd ref = nd_round s)"

definition isFromFuture :: "env \<Rightarrow> block_header \<Rightarrow> node \<Rightarrow> bool" where
  "isFromFuture e header s = (bh_timestamp header > ev_now e s + tolerance (ev_timeouts e s))"

section \<open>Effects\<close>

definition emit :: "effect \<Rightarrow> node \<Rightarrow> node" where
  "emit x s = s\<lparr>nd_trace := nd_trace s @ [x]\<rparr>"

definition persistState :: "node \<Rightarrow> node" where
  "persistState s = emit (SaveState (getState_node s)) s"

definition dispatch :: "env \<Rightarrow> string \<Rightarrow> node \<Rightarrow> node outcome" where
  "dispatch e event s =
     (let s1 = emit (Dispatched event) s
      in case ev_listener e s1 event of None \<Rightarrow> Done s1 | Some err \<Rightarrow> Threw err s1)"

definition put_round_state :: "rs_ref \<Rightarrow> round_state \<Rightarrow> node \<Rightarrow> node" where
  "put_round_state ref rs s = s\<lparr>nd_repo := map_set (nd_repo s) ref rs\<rparr>"

text \<open>\<open>roundStateRepository.getRoundState\<close>, then the rest of the operation.\<close>

definition with_round_state :: "env \<Rightarrow> rs_ref \<Rightarrow> (round_state \<Rightarrow> node \<Rightarrow> node outcome) \<Rightarrow> node \<Rightarrow> node outcome" where
  "with_round_state e ref k s =
     (case getRoundState (createRoundState (ev_roundValidators e s) (ev_proposerIndex e s)) ref (nd_repo s) of
        Inl err \<Rightarrow> Threw err s
      | Inr (rs, repo) \<Rightarrow> k rs (s\<lparr>nd_repo := repo\<rparr>))"

section \<open>Voting\<close>

fun own_validators ::
  "env \<Rightarrow> node \<Rightarrow> (nat \<Rightarrow> bool) \<Rightarrow> validator_wallet list \<Rightarrow> error + nat list" where
  "own_validators e s voted [] = Inr []"
| "own_validators e s voted (v # vs) =
     (if \<not> ev_isRegistered e s (vw_blsPublicKey v) then own_validators e s voted vs
      else sum_bind (ev_validatorIndex e s (vw_address v)) (\<lambda>i.
        if voted i then own_validators e s voted vs
        else sum_bind (own_validators e s voted vs) (\<lambda>is. Inr (i # is))))"

definition getValidators :: "env \<Rightarrow> (nat \<Rightarrow> bool) \<Rightarrow> node \<Rightarrow> error + nat list" where
  "getValidators e voted s =
     sum_bind (ev_roundValidators e s) (own_validators e s voted)"

text \<open>The loops of \<open>prevote\<close> and \<open>precommit\<close>: sign, save, hand the message to the processor.\<close>

fun sign_votes :: "env \<Rightarrow> message_type \<Rightarrow> string option \<Rightarrow> nat list \<Rightarrow> node \<Rightarrow> node outcome" where
  "sign_votes e t blockHash [] s = Done s"
| "sign_votes e t blockHash (i # is) s =
     (case ev_makeMessage e s t i (nd_blockNumber s) (nd_round s) blockHash of
        Inl err \<Rightarrow> Threw err s
      | Inr m \<Rightarrow> sign_votes e t blockHash is
                   (emit (ProcessMessage m) (emit (SaveMessage m) (emit (SignedMessage m) s))))"

definition prevote :: "env \<Rightarrow> string option \<Rightarrow> node \<Rightarrow> node outcome" where
  "prevote e blockHash s = with_round_state e (current_ref s) (\<lambda>rs s1.
     case getValidators e (\<lambda>i. hasPrevote i rs) s1 of
       Inl err \<Rightarrow> Threw err s1
     | Inr is \<Rightarrow> sign_votes e Prevote blockHash is s1) s"

definition precommit :: "env \<Rightarrow> string option \<Rightarrow> node \<Rightarrow> node outcome" where
  "precommit e blockHash s = with_round_state e (current_ref s) (\<lambda>rs s1.
     case getValidators e (\<lambda>i. hasPrecommit i rs) s1 of
       Inl err \<Rightarrow> Threw err s1
     | Inr is \<Rightarrow> sign_votes e Precommit blockHash is s1) s"

section \<open>Processing a proposal\<close>

text \<open>\<open>ProposalProcessor.hasValidLockProof\<close>; the last argument is \<open>aggregator.verify\<close> on the lock
  proof and the prevote data of \<open>validRound\<close>.\<close>

definition hasValidLockProof :: "(proposal \<Rightarrow> error + bool) \<Rightarrow> proposal \<Rightarrow> error + bool" where
  "hasValidLockProof verifyLockProof p =
     (case (pr_validRound p, pr_lockProof p) of
        (None, None) \<Rightarrow> Inr True
      | (_, None) \<Rightarrow> Inr False
      | (None, Some _) \<Rightarrow> Inr False
      | (Some vr, Some _) \<Rightarrow> if vr \<ge> pr_round p then Inr False else verifyLockProof p)"

definition failedProcessorResult :: processor_result where
  "failedProcessorResult = \<lparr>pc_success = False, pc_gasUsed = 0, pc_feeUsed = 0\<rparr>"

definition processProposal :: "env \<Rightarrow> rs_ref \<Rightarrow> node \<Rightarrow> node" where
  "processProposal e ref s =
     (case map_get (nd_repo s) ref of
        None \<Rightarrow> s
      | Some rs \<Rightarrow>
          (case rs_proposal rs of
             None \<Rightarrow> s
           | Some p \<Rightarrow>
               if hasProcessorResult rs then s
               else case deserializePayload (ev_makePayload e) p of
                 Inl _ \<Rightarrow> put_round_state ref (setProcessorResult failedProcessorResult rs) s
               | Inr p1 \<Rightarrow>
                   (let rs1 = rs\<lparr>rs_proposal := Some p1\<rparr>;
                        s1 = put_round_state ref rs1 s
                    in if hasValidLockProof (ev_verifyLockProof e s1) p1 \<noteq> Inr True
                       then put_round_state ref (setProcessorResult failedProcessorResult rs1) s1
                       else (let s2 = emit (LockProofVerified p1) s1
                             in case sum_bind (rs_getBlock rs1) (ev_process e s2) of
                                  Inl _ \<Rightarrow> put_round_state ref (setProcessorResult failedProcessorResult rs1) s2
                                | Inr r \<Rightarrow> put_round_state ref (setProcessorResult r rs1) s2))))"

section \<open>Building a proposal\<close>

definition createProposal :: "env \<Rightarrow> round_state \<Rightarrow> node \<Rightarrow> proposal_job" where
  "createProposal e rs s =
     (case rs_proposer rs of
        None \<Rightarrow> JobFailed TypeError
      | Some proposer \<Rightarrow>
          (case ev_validatorIndex e s (vw_address proposer) of
             Inl err \<Rightarrow> JobFailed err
           | Inr i \<Rightarrow>
               (case nd_validValue s of
                  Some ref \<Rightarrow>
                    (case map_get (nd_repo s) ref of
                       None \<Rightarrow> JobFailed TypeError
                     | Some vrs \<Rightarrow>
                         (case sum_bind (rs_getBlock vrs) (\<lambda>block.
                                 sum_bind (aggregatePrevotes (ev_aggregate e) (ev_milestoneValidators e (fst ref)) vrs)
                                   (\<lambda>lockProof. Inr (block, lockProof))) of
                            Inl err \<Rightarrow> JobFailed err
                          | Inr (block, lockProof) \<Rightarrow> Repropose i (nd_round s) (snd ref) block lockProof))
                | None \<Rightarrow>
                    (case getNextBlockTimestamp (ev_timeouts e s) (ev_lastTimestamp e s) (nd_roundStartTime s) (nd_round s) of
                       Inl err \<Rightarrow> JobFailed err
                     | Inr timestamp \<Rightarrow> Forge i (vw_address proposer) (nd_blockNumber s) (nd_round s) timestamp))))"

text \<open>\<open>prepareProposal\<close> starts \<open>#makeProposal\<close> and keeps its promise; a promise is a number of its own.\<close>

definition prepareProposal :: "env \<Rightarrow> round_state \<Rightarrow> node \<Rightarrow> node outcome" where
  "prepareProposal e rs s =
     (if hasProposal rs then Done s
      else case rs_proposer rs of
             None \<Rightarrow> Threw TypeError s
           | Some proposer \<Rightarrow>
               if \<not> ev_isRegistered e s (vw_blsPublicKey proposer) then Done s
               else Done (s\<lparr>nd_proposalPromise := Some (nd_promiseCount s, createProposal e rs s),
                            nd_promiseCount := nd_promiseCount s + 1\<rparr>))"

section \<open>Rounds\<close>

definition beginRound :: "env \<Rightarrow> node \<Rightarrow> node outcome" where
  "beginRound e s =
     (let s1 = emit (NewRoundStatistic (nd_blockNumber s) (nd_round s))
                 (s\<lparr>nd_roundStartTime := ev_now e s, nd_proposalPromise := None,
                    nd_scheduler := clear_scheduler (nd_scheduler s)\<rparr>)
      in if nd_isDisposed s1 then Done s1
         else with_round_state e (current_ref s1) (\<lambda>rs s2.
           if rs_proposer rs = None then Threw TypeError s2
           else and_then (dispatch e ''consensus.round.started'' s2) (\<lambda>s3.
             if nd_step s3 \<noteq> Step_Propose then Done s3
             else case getNextBlockTimestamp (ev_timeouts e s3) (ev_lastTimestamp e s3)
                         (nd_roundStartTime s3) (nd_round s3) of
                    Inl err \<Rightarrow> Threw err s3
                  | Inr timestamp \<Rightarrow>
                      (let s4 = s3\<lparr>nd_scheduler :=
                                  snd (scheduleTimeoutBlockPrepare (ev_now e s3) timestamp (nd_scheduler s3))\<rparr>
                       in if ev_pendingCommit e s4 (nd_blockNumber s4) then Done s4
                          else prepareProposal e rs s4))) s1)"

definition enter_round :: "nat \<Rightarrow> node \<Rightarrow> node" where
  "enter_round r s =
     (let s1 = s\<lparr>nd_round := r, nd_step := Step_Propose, nd_didMajorityPrevote := False,
                 nd_didMajorityPrecommit := False, nd_didMajorityPrecommitWithoutProposal := False\<rparr>
      in if r > 0 then persistState s1 else s1)"

text \<open>\<open>startRound\<close>; \<open>apply\<close> is the nested \<open>applyRules\<close>.\<close>

definition startRound_with ::
  "(rs_ref \<Rightarrow> node \<Rightarrow> node outcome) \<Rightarrow> env \<Rightarrow> nat \<Rightarrow> node \<Rightarrow> node outcome" where
  "startRound_with apply e r s =
     and_then (beginRound e (enter_round r s)) (\<lambda>s1.
       if nd_isDisposed s1 then Done s1
       else with_round_state e (current_ref s1) (\<lambda>rs. apply (current_ref s1)) s1)"

section \<open>The rules\<close>

definition onProposal :: "env \<Rightarrow> rs_ref \<Rightarrow> node \<Rightarrow> node outcome" where
  "onProposal e ref s =
     (case map_get (nd_repo s) ref of
        None \<Rightarrow> Done s
      | Some rs \<Rightarrow>
          (case rs_proposal rs of
             None \<Rightarrow> Done s
           | Some p \<Rightarrow>
               if \<not> (nd_step s = Step_Propose \<and> isCurrentRoundState ref s
                      \<and> pr_validRound p = None \<and> hasProcessorResult rs) then Done s
               else and_then (dispatch e ''consensus.proposal.accepted''
                                (persistState (s\<lparr>nd_step := Step_Prevote\<rparr>))) (\<lambda>s1.
                 if nd_lockedValue s1 \<noteq> None then prevote e None s1
                 else if isFromFuture e (pr_blockHeader p) s1 then prevote e None s1
                 else case getProcessorResult rs of
                        Inl err \<Rightarrow> Threw err s1
                      | Inr r \<Rightarrow> prevote e (if pc_success r then Some (bh_hash (pr_blockHeader p)) else None) s1)))"

text \<open>\<open>lockedValue.getProposal()?.blockHeader.hash\<close>\<close>

definition proposal_hash :: "rs_ref \<Rightarrow> node \<Rightarrow> string option" where
  "proposal_hash ref s =
     Option.bind (map_get (nd_repo s) ref) (\<lambda>rs. map_option (\<lambda>p. bh_hash (pr_blockHeader p)) (rs_proposal rs))"

definition isAllowedByLock :: "proposal \<Rightarrow> nat \<Rightarrow> node \<Rightarrow> bool" where
  "isAllowedByLock p validRound s =
     (case nd_lockedValue s of
        None \<Rightarrow> True
      | Some locked \<Rightarrow> snd locked \<le> validRound \<or> proposal_hash locked s = Some (bh_hash (pr_blockHeader p)))"

definition onProposalLocked :: "env \<Rightarrow> rs_ref \<Rightarrow> node \<Rightarrow> node outcome" where
  "onProposalLocked e ref s =
     (case map_get (nd_repo s) ref of
        None \<Rightarrow> Done s
      | Some rs \<Rightarrow>
          (case rs_proposal rs of
             None \<Rightarrow> Done s
           | Some p \<Rightarrow>
               (case pr_validRound p of
                  None \<Rightarrow> Done s
                | Some vr \<Rightarrow>
                    if \<not> (nd_step s = Step_Propose \<and> isCurrentRoundState ref s \<and> pr_lockProof p \<noteq> None
                           \<and> vr < nd_round s \<and> hasProcessorResult rs) then Done s
                    else and_then (dispatch e ''consensus.proposal.accepted''
                                     (persistState (s\<lparr>nd_step := Step_Prevote\<rparr>))) (\<lambda>s1.
                      if \<not> isAllowedByLock p vr s1 then prevote e None s1
                      else case getProcessorResult rs of
                             Inl err \<Rightarrow> Threw err s1
                           | Inr r \<Rightarrow> if pc_success r then prevote e (Some (bh_hash (pr_blockHeader p))) s1
                                      else prevote e None s1))))"

definition onMajorityPrevote :: "env \<Rightarrow> rs_ref \<Rightarrow> node \<Rightarrow> node outcome" where
  "onMajorityPrevote e ref s =
     (case map_get (nd_repo s) ref of
        None \<Rightarrow> Done s
      | Some rs \<Rightarrow>
          (case rs_proposal rs of
             None \<Rightarrow> Done s
           | Some p \<Rightarrow>
               if \<not> (\<not> nd_didMajorityPrevote s \<and> step_number (nd_step s) \<ge> step_number Step_Prevote
                      \<and> isCurrentRoundState ref s) then Done s
               else case getProcessorResult rs of
                 Inl err \<Rightarrow> Threw err s
               | Inr r \<Rightarrow>
                   if \<not> pc_success r then Done s
                   else if nd_step s = Step_Prevote
                   then and_then (dispatch e ''consensus.prevoted.proposal''
                          (persistState (s\<lparr>nd_didMajorityPrevote := True, nd_lockedValue := Some ref,
                             nd_validValue := Some ref, nd_step := Step_Precommit\<rparr>)))
                        (precommit e (Some (bh_hash (pr_blockHeader p))))
                   else dispatch e ''consensus.prevoted.proposal''
                          (persistState (s\<lparr>nd_didMajorityPrevote := True, nd_validValue := Some ref\<rparr>))))"

definition onMajorityPrevoteAny :: "env \<Rightarrow> rs_ref \<Rightarrow> node \<Rightarrow> node outcome" where
  "onMajorityPrevoteAny e ref s =
     (if \<not> (nd_step s = Step_Prevote \<and> isCurrentRoundState ref s) then Done s
      else (let (scheduled, sc) = scheduleTimeoutPrevote (ev_timeouts e s) (nd_blockNumber s) (nd_round s) (nd_scheduler s);
                s1 = s\<lparr>nd_scheduler := sc\<rparr>
            in if scheduled then dispatch e ''consensus.prevoted.any'' s1 else Done s1))"

definition onMajorityPrevoteNull :: "env \<Rightarrow> rs_ref \<Rightarrow> node \<Rightarrow> node outcome" where
  "onMajorityPrevoteNull e ref s =
     (if \<not> (nd_step s = Step_Prevote \<and> isCurrentRoundState ref s) then Done s
      else and_then (dispatch e ''consensus.prevoted.null'' (persistState (s\<lparr>nd_step := Step_Precommit\<rparr>)))
             (precommit e None))"

definition onMajorityPrecommitAny :: "env \<Rightarrow> rs_ref \<Rightarrow> node \<Rightarrow> node outcome" where
  "onMajorityPrecommitAny e ref s =
     (if \<not> isCurrentRoundState ref s then Done s
      else (let (scheduled, sc) = scheduleTimeoutPrecommit (ev_timeouts e s) (nd_blockNumber s) (nd_round s) (nd_scheduler s);
                s1 = s\<lparr>nd_scheduler := sc\<rparr>
            in if scheduled then dispatch e ''consensus.precommitted.any'' s1 else Done s1))"

text \<open>The body under \<open>commitLock\<close>: commit the block, forget the round states and the values of the height.
  \<open>app.fail\<close> does not return.\<close>

definition commitBlock :: "env \<Rightarrow> nat \<Rightarrow> block \<Rightarrow> node \<Rightarrow> node outcome" where
  "commitBlock e number block s =
     (case ev_commit e s number block of
        Some err \<Rightarrow> Threw err s
      | None \<Rightarrow> Done ((emit (CommittedBlock number (bh_hash (bk_header block))) s)\<lparr>
                  nd_repo := clear_repository (nd_repo s), nd_blockNumber := nd_blockNumber s + 1,
                  nd_lockedValue := None, nd_validValue := None\<rparr>))"

definition onMajorityPrecommit ::
  "(nat \<Rightarrow> node \<Rightarrow> node outcome) \<Rightarrow> env \<Rightarrow> unit_data \<Rightarrow> bool \<Rightarrow> node \<Rightarrow> node outcome" where
  "onMajorityPrecommit start e u isRoundState s =
     (if \<not> (un_blockNumber u = nd_blockNumber s \<and> (\<not> isRoundState \<or> \<not> nd_didMajorityPrecommit s)) then Done s
      else (let s1 = (if isRoundState then s\<lparr>nd_didMajorityPrecommit := True\<rparr> else s)
            in case un_block u of
                 Inl err \<Rightarrow> Threw err s1
               | Inr block \<Rightarrow>
                   (case un_result u of
                      Inl err \<Rightarrow> Threw err s1
                    | Inr r \<Rightarrow>
                        if \<not> pc_success r then Done s1
                        else and_then (dispatch e ''consensus.precommitted.proposal'' s1) (\<lambda>s2.
                               and_then (commitBlock e (un_blockNumber u) block s2) (start 0)))))"

definition round_state_unit :: "rs_ref \<Rightarrow> round_state \<Rightarrow> unit_data" where
  "round_state_unit ref rs = \<lparr>un_blockNumber = fst ref, un_round = snd ref, un_block = rs_getBlock rs,
     un_result = getProcessorResult rs\<rparr>"

definition onMajorityPrecommitWithoutProposal :: "rs_ref \<Rightarrow> node \<Rightarrow> node" where
  "onMajorityPrecommitWithoutProposal ref s =
     (if \<not> (\<not> nd_didMajorityPrecommitWithoutProposal s \<and> isCurrentRoundState ref s) then s
      else s\<lparr>nd_didMajorityPrecommitWithoutProposal := True\<rparr>)"

definition onMinorityWithHigherRound ::
  "(nat \<Rightarrow> node \<Rightarrow> node outcome) \<Rightarrow> rs_ref \<Rightarrow> node \<Rightarrow> node outcome" where
  "onMinorityWithHigherRound start ref s =
     (if \<not> (fst ref = nd_blockNumber s \<and> snd ref > nd_round s) then Done s else start (snd ref) s)"

text \<open>A rule behind its test. After a commit the round state is gone from the repository; the code still
  tests the old object, and the handler then ignores it for its block number.\<close>

definition rule_if :: "(round_state \<Rightarrow> bool) \<Rightarrow> rs_ref \<Rightarrow> (round_state \<Rightarrow> node \<Rightarrow> node outcome) \<Rightarrow> node \<Rightarrow> node outcome" where
  "rule_if test ref handler s =
     (case map_get (nd_repo s) ref of
        None \<Rightarrow> Done s | Some rs \<Rightarrow> if test rs then handler rs s else Done s)"

definition applyRules_with :: "(nat \<Rightarrow> node \<Rightarrow> node outcome) \<Rightarrow> env \<Rightarrow> rs_ref \<Rightarrow> node \<Rightarrow> node outcome" where
  "applyRules_with start e ref s =
     (if fst ref \<noteq> nd_blockNumber s then Done s
      else (let rv = ev_milestoneValidators e (fst ref)
            in and_then (onProposal e ref (processProposal e ref s)) (\<lambda>s.
               and_then (onProposalLocked e ref s) (\<lambda>s.
               and_then (rule_if (hasMajorityPrevotes rv) ref (\<lambda>_. onMajorityPrevote e ref) s) (\<lambda>s.
               and_then (rule_if (hasMajorityPrevotesAny rv) ref (\<lambda>_. onMajorityPrevoteAny e ref) s) (\<lambda>s.
               and_then (rule_if (hasMajorityPrevotesNull rv) ref (\<lambda>_. onMajorityPrevoteNull e ref) s) (\<lambda>s.
               and_then (rule_if (hasMajorityPrecommitsAny rv) ref (\<lambda>_. onMajorityPrecommitAny e ref) s) (\<lambda>s.
               and_then (rule_if (hasMajorityPrecommits rv) ref
                          (\<lambda>rs. onMajorityPrecommit start e (round_state_unit ref rs) True) s) (\<lambda>s.
               and_then (rule_if (hasMajorityPrecommitsWithoutProposal rv) ref
                          (\<lambda>_ s. Done (onMajorityPrecommitWithoutProposal ref s)) s) (\<lambda>s.
               rule_if (hasMinorityPrevotesOrPrecommits rv) ref
                          (\<lambda>_. onMinorityWithHigherRound start ref) s))))))))))"

fun applyRules :: "env \<Rightarrow> nat \<Rightarrow> rs_ref \<Rightarrow> node \<Rightarrow> node outcome" where
  "applyRules e 0 ref s = Threw OutOfFuel s"
| "applyRules e (Suc fuel) ref s = applyRules_with (startRound_with (applyRules e fuel) e) e ref s"

definition startRound :: "env \<Rightarrow> nat \<Rightarrow> nat \<Rightarrow> node \<Rightarrow> node outcome" where
  "startRound e fuel r s = startRound_with (applyRules e fuel) e r s"

section \<open>Entry points\<close>

text \<open>The handlers are run with fuel 3.\<close>

definition handler_fuel :: nat where
  "handler_fuel = 3"

text \<open>\<open>run\<close>, on the state the bootstrapper returned.\<close>

definition run :: "env \<Rightarrow> state_data \<Rightarrow> rs_ref option \<Rightarrow> rs_ref option \<Rightarrow> node \<Rightarrow> node outcome" where
  "run e state lockedValue validValue s =
     and_then (dispatch e ''consensus.bootstrapped''
        (s\<lparr>nd_blockNumber := sd_blockNumber state, nd_round := sd_round state, nd_step := sd_step state,
           nd_lockedValue := lockedValue, nd_validValue := validValue\<rparr>)) (\<lambda>s1.
     and_then (beginRound e s1) (\<lambda>s2.
       if nd_isDisposed s2 then Done s2
       else with_round_state e (current_ref s2) (\<lambda>rs. applyRules e handler_fuel (current_ref s2)) s2))"

definition dispose :: "node \<Rightarrow> node" where
  "dispose s = s\<lparr>nd_scheduler := clear_scheduler (nd_scheduler s), nd_isDisposed := True\<rparr>"

text \<open>\<open>handle\<close> in two halves: joining the queue of the handler lock, and running behind it. The first
  returns whether the caller waits for the lock. The second is one step with the awaits inside it: while it runs every other handler waits for
  \<open>#handlerLock\<close>, and what else can happen meanwhile - arriving messages, expired time-outs - happens before or after it. A crash
  in between is a prefix of its trace of effects (\<open>Consensus_Reach\<close>).\<close>

definition handle_enqueue :: "rs_ref \<Rightarrow> node \<Rightarrow> bool \<times> node" where
  "handle_enqueue ref s =
     (if ref \<in> set (nd_pendingJobs s) then (False, s)
      else (True, s\<lparr>nd_pendingJobs := nd_pendingJobs s @ [ref]\<rparr>))"

definition handle :: "env \<Rightarrow> rs_ref \<Rightarrow> node \<Rightarrow> node outcome" where
  "handle e ref s =
     (let s1 = s\<lparr>nd_pendingJobs := removeAll ref (nd_pendingJobs s)\<rparr>
      in if nd_isDisposed s1 then Done s1 else applyRules e handler_fuel ref s1)"

record commit_state =
  cs_commit :: commit
  cs_processorResult :: "processor_result option"
  cs_validators :: "(string, validator_wallet) jsmap"

definition configure_commit_state :: "(error + validator_wallet list) \<Rightarrow> commit \<Rightarrow> error + commit_state" where
  "configure_commit_state roundValidators c =
     sum_bind roundValidators (\<lambda>vs. Inr \<lparr>cs_commit = c, cs_processorResult = None,
       cs_validators = fold (\<lambda>v m. map_set m (vw_blsPublicKey v) v) vs []\<rparr>)"

definition commit_state_unit :: "commit_state \<Rightarrow> unit_data" where
  "commit_state_unit cs = \<lparr>un_blockNumber = bh_number (bk_header (cm_block (cs_commit cs))),
     un_round = cp_round (cm_proof (cs_commit cs)), un_block = Inr (cm_block (cs_commit cs)),
     un_result = (case cs_processorResult cs of
        None \<Rightarrow> Inl (JsError ''Processor result is undefined.'') | Some r \<Rightarrow> Inr r)\<rparr>"

definition processBlock :: "env \<Rightarrow> commit_state \<Rightarrow> node \<Rightarrow> commit_state" where
  "processBlock e cs s =
     (if cs_processorResult cs \<noteq> None then cs
      else case ev_process e s (cm_block (cs_commit cs)) of
             Inr r \<Rightarrow> cs\<lparr>cs_processorResult := Some r\<rparr>
           | Inl _ \<Rightarrow> cs\<lparr>cs_processorResult := Some failedProcessorResult\<rparr>)"

definition handleCommitState :: "env \<Rightarrow> commit_state \<Rightarrow> node \<Rightarrow> commit_state \<times> node outcome" where
  "handleCommitState e cs s =
     (if nd_isDisposed s \<or> un_blockNumber (commit_state_unit cs) \<noteq> nd_blockNumber s then (cs, Done s)
      else (let cs1 = processBlock e cs s
            in (cs1, onMajorityPrecommit (startRound e handler_fuel) e (commit_state_unit cs1) False s)))"

definition onTimeoutPropose :: "env \<Rightarrow> nat \<Rightarrow> nat \<Rightarrow> node \<Rightarrow> node outcome" where
  "onTimeoutPropose e blockNumber round s =
     (if nd_isDisposed s then Done s
      else if \<not> (nd_step s = Step_Propose \<and> nd_blockNumber s = blockNumber \<and> nd_round s = round) then Done s
      else prevote e None (persistState (s\<lparr>nd_step := Step_Prevote\<rparr>)))"

definition onTimeoutPrevote :: "env \<Rightarrow> nat \<Rightarrow> nat \<Rightarrow> node \<Rightarrow> node outcome" where
  "onTimeoutPrevote e blockNumber round s =
     (if nd_isDisposed s then Done s
      else if \<not> (nd_step s = Step_Prevote \<and> nd_blockNumber s = blockNumber \<and> nd_round s = round) then Done s
      else with_round_state e (current_ref s) (\<lambda>rs s1.
        case logPrevotes (ev_getValidator e s1) rs of
          Inl err \<Rightarrow> Threw err s1
        | Inr _ \<Rightarrow> precommit e None (persistState (s1\<lparr>nd_step := Step_Precommit\<rparr>))) s)"

definition onTimeoutPrecommit :: "env \<Rightarrow> nat \<Rightarrow> nat \<Rightarrow> node \<Rightarrow> node outcome" where
  "onTimeoutPrecommit e blockNumber round s =
     (if nd_isDisposed s then Done s
      else if \<not> (nd_blockNumber s = blockNumber \<and> nd_round s = round) then Done s
      else with_round_state e (current_ref s) (\<lambda>rs s1.
        case sum_bind (logPrevotes (ev_getValidator e s1) rs) (\<lambda>_. logPrecommits (ev_getValidator e s1) rs) of
          Inl err \<Rightarrow> Threw err s1
        | Inr _ \<Rightarrow> startRound e handler_fuel (nd_round s1 + 1) s1) s)"

text \<open>\<open>onTimeoutBlockPrepare\<close> does not take the handler lock: the part before \<open>await proposalPromise\<close>
  returns the promise it waits for, the part after it resumes with the proposal built.\<close>

definition onTimeoutBlockPrepare :: "env \<Rightarrow> node \<Rightarrow> (nat \<times> proposal_job) option \<times> node" where
  "onTimeoutBlockPrepare e s =
     (nd_proposalPromise s,
      s\<lparr>nd_scheduler := snd (scheduleTimeoutPropose (ev_timeouts e s) (nd_blockNumber s) (nd_round s) (nd_scheduler s))\<rparr>)"

definition onTimeoutBlockPrepare_resume :: "nat \<Rightarrow> proposal option \<Rightarrow> node \<Rightarrow> node" where
  "onTimeoutBlockPrepare_resume promise result s =
     (if nd_isDisposed s \<or> map_option fst (nd_proposalPromise s) \<noteq> Some promise then s
      else (let s1 = s\<lparr>nd_proposalPromise := None\<rparr>
            in case result of
                 None \<Rightarrow> s1
               | Some p \<Rightarrow> emit (ProcessProposal p) (emit (Dispatched ''consensus.proposed'') (emit (SaveProposal p) s1))))"

end
