(* ===== verification/Consensus_Rules.thy ===== *)
theory Consensus_Rules
  imports Consensus_Node
begin

text \<open>
  General facts on the handlers of \<open>Consensus_Node\<close>: which parts of the node they leave alone, and
  that the recursion through nested rounds ends.

  A rule that does not start a round keeps the position. A fresh round state fires no rule. So the
  nesting \<open>applyRules\<close> - \<open>startRound\<close> - \<open>applyRules\<close> is at most three deep: a round entered on f+1
  messages may commit, and the round after a commit is fresh.
\<close>

section \<open>Frames\<close>

lemma emit_fields [simp]:
  "nd_blockNumber (emit x s) = nd_blockNumber s" "nd_round (emit x s) = nd_round s"
  "nd_step (emit x s) = nd_step s" "nd_lockedValue (emit x s) = nd_lockedValue s"
  "nd_validValue (emit x s) = nd_validValue s" "nd_repo (emit x s) = nd_repo s"
  "nd_isDisposed (emit x s) = nd_isDisposed s" "nd_trace (emit x s) = nd_trace s @ [x]"
  "nd_scheduler (emit x s) = nd_scheduler s" "nd_proposalPromise (emit x s) = nd_proposalPromise s"
  "nd_roundStartTime (emit x s) = nd_roundStartTime s" "nd_promiseCount (emit x s) = nd_promiseCount s"
  "nd_didMajorityPrevote (emit x s) = nd_didMajorityPrevote s"
  "nd_didMajorityPrecommit (emit x s) = nd_didMajorityPrecommit s"
  by (simp_all add: emit_def)

lemma persistState_fields [simp]:
  "nd_blockNumber (persistState s) = nd_blockNumber s" "nd_round (persistState s) = nd_round s"
  "nd_step (persistState s) = nd_step s" "nd_lockedValue (persistState s) = nd_lockedValue s"
  "nd_validValue (persistState s) = nd_validValue s" "nd_repo (persistState s) = nd_repo s"
  "nd_isDisposed (persistState s) = nd_isDisposed s"
  "nd_trace (persistState s) = nd_trace s @ [SaveState (getState_node s)]"
  by (simp_all add: persistState_def)

lemma current_ref_emit [simp]: "current_ref (emit x s) = current_ref s"
  by (simp add: current_ref_def)

lemma current_ref_persistState [simp]: "current_ref (persistState s) = current_ref s"
  by (simp add: current_ref_def)

lemma isCurrentRoundState_iff: "isCurrentRoundState ref s \<longleftrightarrow> ref = current_ref s"
  by (cases ref) (simp add: isCurrentRoundState_def current_ref_def)

lemma dispatch_state [simp]: "outcome_state (dispatch e event s) = emit (Dispatched event) s"
  by (simp add: dispatch_def Let_def split: option.split)

text \<open>What a look into the repository may change: a missing round state is created.\<close>

lemma with_round_state_cases:
  obtains (failed) err where "with_round_state e ref k s = Threw err s"
  | (known) rs where "map_get (nd_repo s) ref = Some rs" and "with_round_state e ref k s = k rs s"
  | (created) rs vs idx where "map_get (nd_repo s) ref = None" and "createRoundState vs idx ref = Inr rs"
      and "with_round_state e ref k s = k rs (put_round_state ref rs s)"
proof (cases "map_get (nd_repo s) ref")
  case None
  show ?thesis
  proof (cases "createRoundState (ev_roundValidators e s) (ev_proposerIndex e s) ref")
    case (Inl err)
    with None show ?thesis by (intro failed) (simp add: with_round_state_def getRoundState_def)
  next
    case (Inr rs)
    with None show ?thesis
      by (intro created [OF None Inr]) (simp add: with_round_state_def getRoundState_def put_round_state_def)
  qed
next
  case (Some rs)
  then show ?thesis by (intro known [OF Some]) (simp add: with_round_state_def getRoundState_def)
qed

lemma put_round_state_fields [simp]:
  "nd_blockNumber (put_round_state ref rs s) = nd_blockNumber s" "nd_round (put_round_state ref rs s) = nd_round s"
  "nd_step (put_round_state ref rs s) = nd_step s" "nd_lockedValue (put_round_state ref rs s) = nd_lockedValue s"
  "nd_validValue (put_round_state ref rs s) = nd_validValue s" "nd_trace (put_round_state ref rs s) = nd_trace s"
  "nd_isDisposed (put_round_state ref rs s) = nd_isDisposed s"
  "nd_repo (put_round_state ref rs s) = map_set (nd_repo s) ref rs"
  "current_ref (put_round_state ref rs s) = current_ref s"
  by (simp_all add: put_round_state_def current_ref_def)

text \<open>A property kept by creating a round state and by the continuation is kept by the whole.\<close>

lemma with_round_state_keeps:
  assumes "P s" and "\<And>rs vs idx. createRoundState vs idx ref = Inr rs \<Longrightarrow> map_get (nd_repo s) ref = None
             \<Longrightarrow> P (put_round_state ref rs s)"
    and "\<And>rs t. P t \<Longrightarrow> map_get (nd_repo t) ref = Some rs \<Longrightarrow> current_ref t = current_ref s \<Longrightarrow> P (outcome_state (k rs t))"
  shows "P (outcome_state (with_round_state e ref k s))"
proof (cases rule: with_round_state_cases [of e ref k s])
  case (failed err)
  with assms(1) show ?thesis by simp
next
  case (known rs)
  with assms(1,3) show ?thesis by simp
next
  case (created rs vs idx)
  with assms(2) have "P (put_round_state ref rs s)" by blast
  with created assms(3) show ?thesis by (simp add: jsmap_simps)
qed

lemma sign_votes_frame [frame_simps]:
  "nd_blockNumber (outcome_state (sign_votes e t h is s)) = nd_blockNumber s"
  "nd_round (outcome_state (sign_votes e t h is s)) = nd_round s"
  "nd_repo (outcome_state (sign_votes e t h is s)) = nd_repo s"
  "nd_step (outcome_state (sign_votes e t h is s)) = nd_step s"
  "nd_lockedValue (outcome_state (sign_votes e t h is s)) = nd_lockedValue s"
  by (induction e t h "is" s rule: sign_votes.induct) (simp_all split: sum.split)

lemma prevote_position [frame_simps]: "current_ref (outcome_state (prevote e h s)) = current_ref s"
  unfolding prevote_def
  by (rule with_round_state_keeps [where P = "\<lambda>t. current_ref t = current_ref s"])
    (auto simp: current_ref_def frame_simps split: sum.split)

lemma precommit_position [frame_simps]: "current_ref (outcome_state (precommit e h s)) = current_ref s"
  unfolding precommit_def
  by (rule with_round_state_keeps [where P = "\<lambda>t. current_ref t = current_ref s"])
    (auto simp: current_ref_def frame_simps split: sum.split)

lemma current_ref_updates [simp]:
  "current_ref (s\<lparr>nd_step := a\<rparr>) = current_ref s" "current_ref (s\<lparr>nd_scheduler := b\<rparr>) = current_ref s"
  "current_ref (s\<lparr>nd_lockedValue := c\<rparr>) = current_ref s" "current_ref (s\<lparr>nd_validValue := c\<rparr>) = current_ref s"
  "current_ref (s\<lparr>nd_didMajorityPrevote := d\<rparr>) = current_ref s"
  "current_ref (s\<lparr>nd_didMajorityPrecommit := d\<rparr>) = current_ref s"
  "current_ref (s\<lparr>nd_didMajorityPrecommitWithoutProposal := d\<rparr>) = current_ref s"
  "current_ref (s\<lparr>nd_pendingJobs := j\<rparr>) = current_ref s" "current_ref (s\<lparr>nd_repo := r\<rparr>) = current_ref s"
  "current_ref (s\<lparr>nd_proposalPromise := q\<rparr>) = current_ref s" "current_ref (s\<lparr>nd_roundStartTime := w\<rparr>) = current_ref s"
  "current_ref (s\<lparr>nd_promiseCount := w\<rparr>) = current_ref s"
  by (simp_all add: current_ref_def)

lemma processProposal_position [frame_simps]: "current_ref (processProposal e ref s) = current_ref s"
  by (simp add: processProposal_def Let_def split: option.split sum.split)

lemma after_dispatch:
  "P (emit (Dispatched event) s) \<Longrightarrow> P (outcome_state (k (emit (Dispatched event) s)))
   \<Longrightarrow> P (outcome_state (and_then (dispatch e event s) k))"
  by (simp add: dispatch_def Let_def split: option.split)

lemma onProposal_position [frame_simps]: "current_ref (outcome_state (onProposal e ref s)) = current_ref s"
  unfolding onProposal_def
  by (auto intro!: after_dispatch [where P = "\<lambda>t. current_ref t = current_ref s"]
      simp: frame_simps split: option.split sum.split)

lemma onProposalLocked_position [frame_simps]: "current_ref (outcome_state (onProposalLocked e ref s)) = current_ref s"
  unfolding onProposalLocked_def
  by (auto intro!: after_dispatch [where P = "\<lambda>t. current_ref t = current_ref s"]
      simp: frame_simps split: option.split sum.split)

lemma onMajorityPrevote_position [frame_simps]: "current_ref (outcome_state (onMajorityPrevote e ref s)) = current_ref s"
  unfolding onMajorityPrevote_def
  by (auto intro!: after_dispatch [where P = "\<lambda>t. current_ref t = current_ref s"]
      simp: frame_simps split: option.split sum.split)

lemma onMajorityPrevoteAny_position [frame_simps]: "current_ref (outcome_state (onMajorityPrevoteAny e ref s)) = current_ref s"
  by (simp add: onMajorityPrevoteAny_def Let_def split: prod.split)

lemma onMajorityPrevoteNull_position [frame_simps]: "current_ref (outcome_state (onMajorityPrevoteNull e ref s)) = current_ref s"
  unfolding onMajorityPrevoteNull_def
  by (auto intro!: after_dispatch [where P = "\<lambda>t. current_ref t = current_ref s"] simp: frame_simps)

lemma onMajorityPrecommitAny_position [frame_simps]: "current_ref (outcome_state (onMajorityPrecommitAny e ref s)) = current_ref s"
  by (simp add: onMajorityPrecommitAny_def Let_def split: prod.split)

lemma rule_if_position [frame_simps]:
  "(\<And>rs. current_ref (outcome_state (h rs s)) = current_ref s) \<Longrightarrow>
   current_ref (outcome_state (rule_if test ref h s)) = current_ref s"
  by (simp add: rule_if_def split: option.split)

section \<open>The nesting of rounds is bounded\<close>

definition rs_fresh :: "round_state \<Rightarrow> bool" where
  "rs_fresh rs \<longleftrightarrow> rs_proposal rs = None \<and> rs_prevotes rs = [] \<and> rs_precommits rs = []
     \<and> rs_prevotesCount rs = [] \<and> rs_precommitsCount rs = []"

lemma createRoundState_rs_fresh: "createRoundState vs idx ref = Inr rs \<Longrightarrow> rs_fresh rs"
  using createRoundState_fresh by (auto simp: rs_fresh_def)

text \<open>A round state without proposal and votes fires no rule.\<close>

lemma applyRules_with_fresh:
  assumes "map_get (nd_repo s) ref = Some rs" and "rs_fresh rs"
  shows "applyRules_with start e ref s = Done s"
proof -
  have no: "\<not> hasMajorityPrevotes rv rs" "\<not> hasMajorityPrevotesAny rv rs" "\<not> hasMajorityPrevotesNull rv rs"
    "\<not> hasMajorityPrecommitsAny rv rs" "\<not> hasMajorityPrecommits rv rs"
    "\<not> hasMajorityPrecommitsWithoutProposal rv rs" "\<not> hasMinorityPrevotesOrPrecommits rv rs" for rv
    using assms(2)
    by (simp_all add: rs_fresh_def hasMajorityPrevotes_def hasMajorityPrevotesAny_def hasMajorityPrevotesNull_def
        hasMajorityPrecommitsAny_def hasMajorityPrecommits_def hasMajorityPrecommitsWithoutProposal_def
        hasMinorityPrevotesOrPrecommits_def isMajority_def isMinority_def getPrevoteCount_def vote_count_def)
  have "processProposal e ref s = s" "onProposal e ref s = Done s" "onProposalLocked e ref s = Done s"
    using assms by (simp_all add: processProposal_def onProposal_def onProposalLocked_def rs_fresh_def)
  then show ?thesis using assms(1) no by (simp add: applyRules_with_def Let_def rule_if_def)
qed

lemma enter_round_fields [simp]:
  "nd_blockNumber (enter_round r s) = nd_blockNumber s" "nd_round (enter_round r s) = r"
  "nd_repo (enter_round r s) = nd_repo s" "nd_isDisposed (enter_round r s) = nd_isDisposed s"
  "nd_lockedValue (enter_round r s) = nd_lockedValue s" "nd_step (enter_round r s) = Step_Propose"
  "current_ref (enter_round r s) = (nd_blockNumber s, r)"
  by (simp_all add: enter_round_def Let_def current_ref_def)

text \<open>\<open>beginRound\<close> keeps the position and leaves the round state of the position as it was, or creates it.\<close>

lemma prepareProposal_fields [frame_simps]:
  "nd_repo (outcome_state (prepareProposal e rs s)) = nd_repo s"
  "current_ref (outcome_state (prepareProposal e rs s)) = current_ref s"
  "nd_trace (outcome_state (prepareProposal e rs s)) = nd_trace s"
  "nd_step (outcome_state (prepareProposal e rs s)) = nd_step s"
  "nd_lockedValue (outcome_state (prepareProposal e rs s)) = nd_lockedValue s"
  "nd_isDisposed (outcome_state (prepareProposal e rs s)) = nd_isDisposed s"
  by (simp_all add: prepareProposal_def split: option.split)

definition begin_tail :: "env \<Rightarrow> round_state \<Rightarrow> node \<Rightarrow> node outcome" where
  "begin_tail e rs s2 =
     (if rs_proposer rs = None then Threw TypeError s2
      else and_then (dispatch e ''consensus.round.started'' s2) (\<lambda>s3.
        if nd_step s3 \<noteq> Step_Propose then Done s3
        else case getNextBlockTimestamp (ev_timeouts e s3) (ev_lastTimestamp e s3)
                    (nd_roundStartTime s3) (nd_round s3) of
               Inl err \<Rightarrow> Threw err s3
             | Inr timestamp \<Rightarrow>
                 (let s4 = s3\<lparr>nd_scheduler :=
                             snd (scheduleTimeoutBlockPrepare (ev_now e s3) timestamp (nd_scheduler s3))\<rparr>
                  in if ev_pendingCommit e s4 (nd_blockNumber s4) then Done s4
                     else prepareProposal e rs s4)))"

definition begin_head :: "env \<Rightarrow> node \<Rightarrow> node" where
  "begin_head e s = emit (NewRoundStatistic (nd_blockNumber s) (nd_round s))
     (s\<lparr>nd_roundStartTime := ev_now e s, nd_proposalPromise := None,
        nd_scheduler := clear_scheduler (nd_scheduler s)\<rparr>)"

lemma beginRound_split:
  "beginRound e s = (if nd_isDisposed s then Done (begin_head e s)
     else with_round_state e (current_ref s) (begin_tail e) (begin_head e s))"
  unfolding beginRound_def begin_head_def begin_tail_def [abs_def] Let_def by simp

lemma begin_head_fields [simp]:
  "nd_repo (begin_head e s) = nd_repo s" "current_ref (begin_head e s) = current_ref s"
  "nd_blockNumber (begin_head e s) = nd_blockNumber s" "nd_round (begin_head e s) = nd_round s"
  "nd_step (begin_head e s) = nd_step s" "nd_lockedValue (begin_head e s) = nd_lockedValue s"
  "nd_isDisposed (begin_head e s) = nd_isDisposed s"
  "nd_trace (begin_head e s) = nd_trace s @ [NewRoundStatistic (nd_blockNumber s) (nd_round s)]"
  by (simp_all add: begin_head_def)

lemma begin_tail_fields [frame_simps]:
  "nd_repo (outcome_state (begin_tail e rs s)) = nd_repo s"
  "current_ref (outcome_state (begin_tail e rs s)) = current_ref s"
  "nd_step (outcome_state (begin_tail e rs s)) = nd_step s"
  "nd_lockedValue (outcome_state (begin_tail e rs s)) = nd_lockedValue s"
  "nd_isDisposed (outcome_state (begin_tail e rs s)) = nd_isDisposed s"
  unfolding begin_tail_def
  by (simp_all add: dispatch_def Let_def frame_simps split: option.split sum.split)

lemma beginRound_position [frame_simps]: "current_ref (outcome_state (beginRound e s)) = current_ref s"
  unfolding beginRound_split
  by (auto intro!: with_round_state_keeps [where P = "\<lambda>t. current_ref t = current_ref s"] simp: frame_simps)

lemma beginRound_fresh:
  assumes "map_get (nd_repo s) (current_ref s) = None" and "beginRound e s = Done s1" and "\<not> nd_isDisposed s"
  shows "\<exists>rs. map_get (nd_repo s1) (current_ref s1) = Some rs \<and> rs_fresh rs"
proof (cases rule: with_round_state_cases [of e "current_ref s" "begin_tail e" "begin_head e s"])
  case (failed err)
  with assms(2,3) show ?thesis by (simp add: beginRound_split)
next
  case (known rs)
  with assms(1) show ?thesis by simp
next
  case (created rs vs idx)
  let ?t = "put_round_state (current_ref s) rs (begin_head e s)"
  from assms(2,3) created(3) have "begin_tail e rs ?t = Done s1" by (simp add: beginRound_split)
  with begin_tail_fields(1,2) [of e rs ?t] have "nd_repo s1 = nd_repo ?t" "current_ref s1 = current_ref s"
    by (metis outcome_state.simps(1) put_round_state_fields(9) begin_head_fields(2))+
  then show ?thesis using createRoundState_rs_fresh [OF created(2)] by (simp add: jsmap_simps)
qed

text \<open>Two ways to run the nested rules agree on a round whose round state is new.\<close>

lemma startRound_with_fresh:
  assumes "map_get (nd_repo s) (nd_blockNumber s, r) = None"
  shows "startRound_with (applyRules e (Suc n)) e r s = startRound_with (applyRules e (Suc m)) e r s"
proof (cases "beginRound e (enter_round r s)")
  case (Threw err s1)
  then show ?thesis by (simp add: startRound_with_def)
next
  case (Done s1)
  show ?thesis
  proof (cases "nd_isDisposed s")
    case True
    with Done have "nd_isDisposed s1" by (auto simp: beginRound_split)
    with Done show ?thesis by (simp add: startRound_with_def)
  next
    case False
    with assms Done beginRound_fresh [of "enter_round r s" e s1] obtain rs where
      "map_get (nd_repo s1) (current_ref s1) = Some rs" "rs_fresh rs" by auto
    with Done show ?thesis
      by (simp add: startRound_with_def with_round_state_def getRoundState_def applyRules_with_fresh)
  qed
qed

lemma commitBlock_empties: "commitBlock e n b s = Done t \<Longrightarrow> nd_repo t = []"
  by (auto simp: commitBlock_def clear_repository_def split: option.splits)

text \<open>\<open>onMajorityPrecommit\<close> starts a round only on an empty repository.\<close>

lemma and_then_cong: "(\<And>t. r = Done t \<Longrightarrow> f t = g t) \<Longrightarrow> and_then r f = and_then r g"
  by (cases r) simp_all

lemma onMajorityPrecommit_cong:
  assumes "\<And>t. nd_repo t = [] \<Longrightarrow> start 0 t = start' 0 t"
  shows "onMajorityPrecommit start e u b s = onMajorityPrecommit start' e u b s"
proof -
  have "and_then (commitBlock e n bl t) (start 0) = and_then (commitBlock e n bl t) (start' 0)" for n bl t
    by (rule and_then_cong) (use assms commitBlock_empties in blast)
  then show ?thesis by (simp add: onMajorityPrecommit_def Let_def split: sum.split)
qed

text \<open>The rules behind a round state use \<open>start\<close> after a commit, and for a higher round of the block.\<close>

lemma rule_if_cong: "(\<And>rs. map_get (nd_repo s) ref = Some rs \<Longrightarrow> test rs \<Longrightarrow> h rs s = h' rs s) \<Longrightarrow>
   rule_if test ref h s = rule_if test ref h' s"
  by (simp add: rule_if_def split: option.split)

definition rules_until_precommit :: "env \<Rightarrow> rs_ref \<Rightarrow> node \<Rightarrow> node outcome" where
  "rules_until_precommit e ref s =
     (let rv = ev_milestoneValidators e (fst ref)
      in and_then (onProposal e ref (processProposal e ref s)) (\<lambda>s.
         and_then (onProposalLocked e ref s) (\<lambda>s.
         and_then (rule_if (hasMajorityPrevotes rv) ref (\<lambda>_. onMajorityPrevote e ref) s) (\<lambda>s.
         and_then (rule_if (hasMajorityPrevotesAny rv) ref (\<lambda>_. onMajorityPrevoteAny e ref) s) (\<lambda>s.
         and_then (rule_if (hasMajorityPrevotesNull rv) ref (\<lambda>_. onMajorityPrevoteNull e ref) s) (\<lambda>s.
         rule_if (hasMajorityPrecommitsAny rv) ref (\<lambda>_. onMajorityPrecommitAny e ref) s))))))"

definition rules_from_precommit :: "(nat \<Rightarrow> node \<Rightarrow> node outcome) \<Rightarrow> env \<Rightarrow> rs_ref \<Rightarrow> node \<Rightarrow> node outcome" where
  "rules_from_precommit start e ref s =
     (let rv = ev_milestoneValidators e (fst ref)
      in and_then (rule_if (hasMajorityPrecommits rv) ref
                    (\<lambda>rs. onMajorityPrecommit start e (round_state_unit ref rs) True) s) (\<lambda>s.
         and_then (rule_if (hasMajorityPrecommitsWithoutProposal rv) ref
                    (\<lambda>_ s. Done (onMajorityPrecommitWithoutProposal ref s)) s) (\<lambda>s.
         rule_if (hasMinorityPrevotesOrPrecommits rv) ref (\<lambda>_. onMinorityWithHigherRound start ref) s)))"

lemma and_then_assoc: "and_then (and_then r f) g = and_then r (\<lambda>s. and_then (f s) g)"
  by (cases r) simp_all

lemma applyRules_with_split:
  "applyRules_with start e ref s = (if fst ref \<noteq> nd_blockNumber s then Done s
     else and_then (rules_until_precommit e ref s) (rules_from_precommit start e ref))"
  by (simp add: applyRules_with_def rules_until_precommit_def rules_from_precommit_def [abs_def] and_then_assoc Let_def)

lemma and_then_position:
  "current_ref (outcome_state r) = x \<Longrightarrow> (\<And>t. current_ref t = x \<Longrightarrow> current_ref (outcome_state (f t)) = x) \<Longrightarrow>
   current_ref (outcome_state (and_then r f)) = x"
  by (cases r) simp_all

lemma rules_until_precommit_position [frame_simps]:
  "current_ref (outcome_state (rules_until_precommit e ref s)) = current_ref s"
  unfolding rules_until_precommit_def Let_def by (intro and_then_position) (simp_all add: frame_simps)

lemma startRound_fresh_position:
  assumes "map_get (nd_repo s) (nd_blockNumber s, r) = None"
  shows "current_ref (outcome_state (startRound_with (applyRules e (Suc n)) e r s)) = (nd_blockNumber s, r)"
proof (cases "beginRound e (enter_round r s)")
  case (Threw err s1)
  with beginRound_position [of e "enter_round r s"] show ?thesis by (simp add: startRound_with_def)
next
  case (Done s1)
  with beginRound_position [of e "enter_round r s"] have pos: "current_ref s1 = (nd_blockNumber s, r)" by simp
  show ?thesis
  proof (cases "nd_isDisposed s1")
    case True
    with Done pos show ?thesis by (simp add: startRound_with_def)
  next
    case False
    with Done have "\<not> nd_isDisposed s" by (auto simp: beginRound_split split: if_splits)
    with assms Done beginRound_fresh [of "enter_round r s" e s1] obtain rs where
      "map_get (nd_repo s1) (current_ref s1) = Some rs" "rs_fresh rs" by auto
    with Done False pos show ?thesis
      by (simp add: startRound_with_def with_round_state_def getRoundState_def applyRules_with_fresh)
  qed
qed

lemma commitBlock_number: "commitBlock e n b s = Done t \<Longrightarrow> nd_blockNumber t = Suc (nd_blockNumber s)"
  by (auto simp: commitBlock_def split: option.splits)

lemma onMajorityPrecommit_position:
  assumes "\<And>t. nd_repo t = [] \<Longrightarrow> nd_blockNumber (outcome_state (start 0 t)) = nd_blockNumber t"
  shows "current_ref (outcome_state (onMajorityPrecommit start e u b s)) = current_ref s
       \<or> nd_blockNumber (outcome_state (onMajorityPrecommit start e u b s)) = Suc (nd_blockNumber s)"
proof -
  have "current_ref (outcome_state (and_then (commitBlock e n bl t) (start 0))) = current_ref t
       \<or> nd_blockNumber (outcome_state (and_then (commitBlock e n bl t) (start 0))) = Suc (nd_blockNumber t)" for n bl t
  proof (cases "commitBlock e n bl t")
    case (Done t')
    with assms [OF commitBlock_empties [OF Done]] commitBlock_number [OF Done] show ?thesis by simp
  next
    case (Threw err t')
    then show ?thesis by (auto simp: commitBlock_def split: option.splits)
  qed
  note commit = this
  have "current_ref (outcome_state (and_then (dispatch e ev t) (\<lambda>s2. and_then (commitBlock e n bl s2) (start 0)))) = current_ref t
       \<or> nd_blockNumber (outcome_state (and_then (dispatch e ev t) (\<lambda>s2. and_then (commitBlock e n bl s2) (start 0)))) = Suc (nd_blockNumber t)"
    for ev t n bl
    using commit [of n bl "emit (Dispatched ev) t"] by (simp add: dispatch_def Let_def split: option.split)
  from this [of _ "s\<lparr>nd_didMajorityPrecommit := True\<rparr>"] this [of _ s] show ?thesis
    by (simp add: onMajorityPrecommit_def Let_def split: sum.split)
qed

lemma rules_from_precommit_cong:
  assumes "\<And>t. nd_repo t = [] \<Longrightarrow> start 0 t = start' 0 t"
    and "\<And>t. fst ref = nd_blockNumber t \<Longrightarrow> nd_round t < snd ref \<Longrightarrow> start (snd ref) t = start' (snd ref) t"
  shows "rules_from_precommit start e ref s = rules_from_precommit start' e ref s"
proof -
  have "onMinorityWithHigherRound start ref = onMinorityWithHigherRound start' ref"
    using assms(2) by (auto simp: onMinorityWithHigherRound_def fun_eq_iff)
  moreover have "onMajorityPrecommit start e u b = onMajorityPrecommit start' e u b" for u b
    using onMajorityPrecommit_cong [of start start', OF assms(1)] by blast
  ultimately show ?thesis by (simp add: rules_from_precommit_def)
qed

text \<open>At the current position the last rule does not fire.\<close>

lemma rules_from_precommit_current:
  assumes "\<And>t. nd_repo t = [] \<Longrightarrow> start 0 t = start' 0 t"
    and pos: "\<And>t. nd_repo t = [] \<Longrightarrow> nd_blockNumber (outcome_state (start 0 t)) = nd_blockNumber t"
  shows "rules_from_precommit start e (current_ref s) s = rules_from_precommit start' e (current_ref s) s"
proof -
  let ?ref = "current_ref s" and ?rv = "ev_milestoneValidators e (fst (current_ref s))"
  let ?first = "\<lambda>st. rule_if (hasMajorityPrecommits ?rv) ?ref (\<lambda>rs. onMajorityPrecommit st e (round_state_unit ?ref rs) True) s"
  have eq: "?first start = ?first start'"
    by (intro rule_if_cong onMajorityPrecommit_cong assms(1))
  have after: "current_ref t = ?ref \<or> nd_blockNumber t = Suc (nd_blockNumber s)" if "?first start = Done t" for t
    using that onMajorityPrecommit_position [of start, OF pos]
    by (auto simp: rule_if_def split: option.splits if_splits) (metis outcome_state.simps(1))+
  have idle: "onMinorityWithHigherRound st ?ref t = Done t"
    if "current_ref t = ?ref \<or> nd_blockNumber t = Suc (nd_blockNumber s)" for st t
    using that by (auto simp: onMinorityWithHigherRound_def current_ref_def)
  have tail: "and_then (rule_if (hasMajorityPrecommitsWithoutProposal ?rv) ?ref
                (\<lambda>_ s. Done (onMajorityPrecommitWithoutProposal ?ref s)) t)
              (\<lambda>s. rule_if (hasMinorityPrevotesOrPrecommits ?rv) ?ref (\<lambda>_. onMinorityWithHigherRound start ?ref) s)
            = and_then (rule_if (hasMajorityPrecommitsWithoutProposal ?rv) ?ref
                (\<lambda>_ s. Done (onMajorityPrecommitWithoutProposal ?ref s)) t)
              (\<lambda>s. rule_if (hasMinorityPrevotesOrPrecommits ?rv) ?ref (\<lambda>_. onMinorityWithHigherRound start' ?ref) s)"
    if "current_ref t = ?ref \<or> nd_blockNumber t = Suc (nd_blockNumber s)" for t
  proof (rule and_then_cong)
    fix t' assume "rule_if (hasMajorityPrecommitsWithoutProposal ?rv) ?ref
                (\<lambda>_ s. Done (onMajorityPrecommitWithoutProposal ?ref s)) t = Done t'"
    with that have "current_ref t' = ?ref \<or> nd_blockNumber t' = Suc (nd_blockNumber s)"
      by (auto simp: rule_if_def onMajorityPrecommitWithoutProposal_def split: option.splits if_splits)
    then show "rule_if (hasMinorityPrevotesOrPrecommits ?rv) ?ref (\<lambda>_. onMinorityWithHigherRound start ?ref) t'
             = rule_if (hasMinorityPrevotesOrPrecommits ?rv) ?ref (\<lambda>_. onMinorityWithHigherRound start' ?ref) t'"
      by (intro rule_if_cong) (simp add: idle)
  qed
  show ?thesis
    unfolding rules_from_precommit_def Let_def eq [symmetric]
    by (rule and_then_cong) (use after tail in blast)
qed

lemma applyRules_current_fuel:
  "applyRules e (Suc (Suc n)) (current_ref s) s = applyRules e (Suc (Suc m)) (current_ref s) s"
proof -
  have eq: "nd_repo t = [] \<Longrightarrow> startRound_with (applyRules e (Suc n)) e 0 t = startRound_with (applyRules e (Suc m)) e 0 t" for t
    by (rule startRound_with_fresh) simp
  have pos: "nd_repo t = [] \<Longrightarrow> nd_blockNumber (outcome_state (startRound_with (applyRules e (Suc n)) e 0 t)) = nd_blockNumber t" for t
    using startRound_fresh_position [of t 0 e n] by (simp add: current_ref_def)
  have "rules_from_precommit (startRound_with (applyRules e (Suc n)) e) e (current_ref s) t
      = rules_from_precommit (startRound_with (applyRules e (Suc m)) e) e (current_ref s) t"
    if "rules_until_precommit e (current_ref s) s = Done t" for t
  proof -
    have "current_ref t = current_ref s" using rules_until_precommit_position [of e "current_ref s" s] that by simp
    with rules_from_precommit_current [of "startRound_with (applyRules e (Suc n)) e"
        "startRound_with (applyRules e (Suc m)) e" e t, OF eq pos] show ?thesis by simp
  qed
  then have "and_then (rules_until_precommit e (current_ref s) s)
        (rules_from_precommit (startRound_with (applyRules e (Suc n)) e) e (current_ref s))
      = and_then (rules_until_precommit e (current_ref s) s)
        (rules_from_precommit (startRound_with (applyRules e (Suc m)) e) e (current_ref s))"
    by (rule and_then_cong)
  then show ?thesis
    unfolding applyRules.simps(2) [of e "Suc n"] applyRules.simps(2) [of e "Suc m"] applyRules_with_split by argo
qed

lemma with_round_state_cong:
  "(\<And>rs t. current_ref t = current_ref s \<Longrightarrow> k rs t = k' rs t) \<Longrightarrow> with_round_state e ref k s = with_round_state e ref k' s"
  by (simp add: with_round_state_def split: sum.split)

lemma startRound_fuel:
  "startRound_with (applyRules e (Suc (Suc n))) e r s = startRound_with (applyRules e (Suc (Suc m))) e r s"
proof -
  have "with_round_state e (current_ref t) (\<lambda>rs. applyRules e (Suc (Suc n)) (current_ref t)) t
      = with_round_state e (current_ref t) (\<lambda>rs. applyRules e (Suc (Suc m)) (current_ref t)) t" for t
    by (rule with_round_state_cong) (metis applyRules_current_fuel)
  note same = this
  show ?thesis unfolding startRound_with_def by (rule and_then_cong) (simp only: same)
qed

section \<open>Properties\<close>

text \<open>C6 (termination). The recursion \<open>applyRules\<close>, \<open>onMajorityPrecommit\<close> or
  \<open>onMinorityWithHigherRound\<close>, \<open>startRound\<close>, \<open>applyRules\<close> always ends: from every node state, with
  every answer of the services, the result with fuel 3 is the result with any larger fuel, and so
  is the one of \<open>startRound\<close> with fuel 2.\<close>

theorem applyRules_terminates:
  "applyRules e (3 + k) ref s = applyRules e 3 ref s
   \<and> startRound e (2 + k) r s = startRound e 2 r s"
proof
  have num: "3 + k = Suc (Suc (Suc k))" "3 = Suc (Suc (Suc 0))" by simp_all
  have eq0: "nd_repo t = [] \<Longrightarrow> startRound_with (applyRules e (Suc (Suc k))) e 0 t
      = startRound_with (applyRules e (Suc (Suc 0))) e 0 t" for t
    by (rule startRound_with_fresh) simp
  have "rules_from_precommit (startRound_with (applyRules e (Suc (Suc k))) e) e ref t
      = rules_from_precommit (startRound_with (applyRules e (Suc (Suc 0))) e) e ref t" for t
    by (rule rules_from_precommit_cong) (use eq0 startRound_fuel in blast)+
  then have "rules_from_precommit (startRound_with (applyRules e (Suc (Suc k))) e) e ref
      = rules_from_precommit (startRound_with (applyRules e (Suc (Suc 0))) e) e ref" by blast
  then have "applyRules e (Suc (Suc (Suc k))) ref s = applyRules e (Suc (Suc (Suc 0))) ref s"
    unfolding applyRules.simps(2) [of e "Suc (Suc k)"] applyRules.simps(2) [of e "Suc (Suc 0)"]
      applyRules_with_split by argo
  then show "applyRules e (3 + k) ref s = applyRules e 3 ref s" by (simp only: num(1) num(2) [symmetric])
  show "startRound e (2 + k) r s = startRound e 2 r s"
    using startRound_fuel [of e k r s 0] by (simp add: startRound_def numeral_2_eq_2 del: applyRules.simps)
qed

end
