(* ===== verification/Consensus_Processors.thy ===== *)
theory Consensus_Processors
  imports Consensus_Rules
begin

text \<open>
  \<open>packages/consensus/source/processors\<close> and \<open>bootstrapper.ts\<close>: how messages, proposals and commits
  reach the node, and how a restarted node finds its position again.

  A processor awaits a signature check, during which other messages are handled; so each
  \<open>process\<close> is a first half up to that \<open>await\<close> and a second half that resumes with the verdict.
  The commit lock is held non-exclusively over both halves, so no block is committed between them.
  The verdict of the signature check, an exception included, is an argument.
\<close>

section \<open>Abstract processor\<close>

datatype processor_verdict = Result_Invalid | Result_Accepted | Result_Skipped

definition hasValidBlockNumberAndRound :: "nat \<Rightarrow> nat \<Rightarrow> node \<Rightarrow> bool" where
  "hasValidBlockNumberAndRound blockNumber round s =
     (blockNumber = nd_blockNumber s \<and> round \<ge> nd_round s)"

text \<open>\<open>!dayjs().isAfter(earliestTime)\<close>; the earliest time may be negative.\<close>

definition isRoundAheadOfTime :: "env \<Rightarrow> nat \<Rightarrow> node \<Rightarrow> error + bool" where
  "isRoundAheadOfTime e round s =
     (if round \<le> nd_round s then Inr False
      else sum_bind (calculateMinimalTimestamp (ev_timeouts e s) (ev_lastTimestamp e s) round) (\<lambda>minimal.
        Inr (int (ev_now e s) \<le> int minimal - int (tolerance (ev_timeouts e s)))))"

section \<open>Message processor\<close>

text \<open>\<open>#pendingMessages\<close>: for the bytes of every message being verified, the copies that wait for it.\<close>

type_synonym pending_messages = "(bytes, nat list) jsmap"

datatype signature_check = Check_Skip | Check_Invalid | Check_Accepted

datatype message_progress =
    Finished processor_verdict
  | Verifying
  | Waiting

text \<open>\<open>#isDuplicateMessage\<close>; the warning for a conflicting message has no effect on the state.\<close>

definition isDuplicateMessage :: "round_state \<Rightarrow> message \<Rightarrow> error + bool" where
  "isDuplicateMessage rs m = hasMessage m rs"

text \<open>\<open>process\<close> up to the \<open>await\<close> in \<open>#signatureCheck\<close>. \<open>waiter\<close> names the promise of this call.\<close>

definition message_begin ::
  "env \<Rightarrow> nat \<Rightarrow> message \<Rightarrow> pending_messages \<Rightarrow> node \<Rightarrow> (error + message_progress) \<times> pending_messages \<times> node" where
  "message_begin e waiter m pending s =
     (if nd_isDisposed s then (Inr (Finished Result_Skipped), pending, s)
      else if \<not> hasValidBlockNumberAndRound (mg_blockNumber m) (mg_round m) s
      then (Inr (Finished Result_Skipped), pending, s)
      else case isRoundAheadOfTime e (mg_round m) s of
        Inl err \<Rightarrow> (Inl err, pending, s)
      | Inr True \<Rightarrow> (Inr (Finished Result_Skipped), pending, s)
      | Inr False \<Rightarrow>
          (case getRoundState (createRoundState (ev_roundValidators e s) (ev_proposerIndex e s))
                  (mg_blockNumber m, mg_round m) (nd_repo s) of
             Inl err \<Rightarrow> (Inl err, pending, s)
           | Inr (rs, repo) \<Rightarrow>
               (let s1 = s\<lparr>nd_repo := repo\<rparr>
                in case isDuplicateMessage rs m of
                     Inl err \<Rightarrow> (Inl err, pending, s1)
                   | Inr True \<Rightarrow> (Inr (Finished Result_Skipped), pending, s1)
                   | Inr False \<Rightarrow>
                       (case map_get pending (mg_serialized m) of
                          Some waiting \<Rightarrow> (Inr Waiting, map_set pending (mg_serialized m) (waiting @ [waiter]), s1)
                        | None \<Rightarrow> (Inr Verifying, map_set pending (mg_serialized m) [], s1)))))"

text \<open>\<open>#signatureCheck\<close> after its \<open>await\<close>: the verdict for this call, for every waiting copy, and the
  pending map without the entry.\<close>

definition takePendingMessages :: "bytes \<Rightarrow> pending_messages \<Rightarrow> error + (nat list \<times> pending_messages)" where
  "takePendingMessages key pending =
     (case map_get pending key of
        None \<Rightarrow> Inl AssertError
      | Some waiting \<Rightarrow> Inr (waiting, map_delete pending key))"

definition signatureCheck_finish ::
  "error + bool \<Rightarrow> message \<Rightarrow> pending_messages \<Rightarrow>
   (error + signature_check) \<times> (nat \<times> (error + signature_check)) list \<times> pending_messages" where
  "signatureCheck_finish verdict m pending =
     (case takePendingMessages (mg_serialized m) pending of
        Inl err \<Rightarrow> (Inl err, [], pending)
      | Inr (waiting, pending1) \<Rightarrow>
          (case verdict of
             Inl err \<Rightarrow> (Inl err, map (\<lambda>w. (w, Inl err)) waiting, pending1)
           | Inr valid \<Rightarrow> (Inr (if valid then Check_Accepted else Check_Invalid),
                           map (\<lambda>w. (w, Inr (if valid then Check_Skip else Check_Invalid))) waiting, pending1)))"

text \<open>The rest of \<open>process\<close>: \<open>addMessage\<close>, \<open>saveMessage\<close>, broadcast, \<open>handleRoundState\<close>.\<close>

definition message_finish ::
  "error + signature_check \<Rightarrow> message \<Rightarrow> node \<Rightarrow> (error + processor_verdict) \<times> node" where
  "message_finish check m s =
     (case check of
        Inl err \<Rightarrow> (Inl err, s)
      | Inr Check_Skip \<Rightarrow> (Inr Result_Skipped, s)
      | Inr Check_Invalid \<Rightarrow> (Inr Result_Invalid, s)
      | Inr Check_Accepted \<Rightarrow>
          (let ref = (mg_blockNumber m, mg_round m)
           in case map_get (nd_repo s) ref of
                None \<Rightarrow> (Inl TypeError, s)
              | Some rs \<Rightarrow>
                  (case isDuplicateMessage rs m of
                     Inl err \<Rightarrow> (Inl err, s)
                   | Inr True \<Rightarrow> (Inr Result_Skipped, s)
                   | Inr False \<Rightarrow>
                       (case addMessage m rs of
                          Threw err _ \<Rightarrow> (Inl err, s)
                        | Done rs1 \<Rightarrow>
                            (Inr Result_Accepted,
                             snd (handle_enqueue ref
                               (emit (SaveMessage m) (emit (AddedMessage m) (put_round_state ref rs1 s)))))))))"

section \<open>Proposal processor\<close>

definition isDuplicateProposal :: "round_state \<Rightarrow> bool" where
  "isDuplicateProposal rs = hasProposal rs"

definition hasValidProposer :: "env \<Rightarrow> proposal \<Rightarrow> node \<Rightarrow> bool" where
  "hasValidProposer e p s = (ev_proposerIndex e s (pr_round p) = Some (pr_validatorIndex p))"

text \<open>\<open>process\<close> up to the signature check; \<open>None\<close> means the check runs.\<close>

definition proposal_begin :: "env \<Rightarrow> proposal \<Rightarrow> node \<Rightarrow> (error + processor_verdict option) \<times> node" where
  "proposal_begin e p s =
     (if nd_isDisposed s then (Inr (Some Result_Skipped), s)
      else if \<not> hasValidBlockNumberAndRound (bh_number (pr_blockHeader p)) (pr_round p) s
      then (Inr (Some Result_Skipped), s)
      else case isRoundAheadOfTime e (pr_round p) s of
        Inl err \<Rightarrow> (Inl err, s)
      | Inr True \<Rightarrow> (Inr (Some Result_Skipped), s)
      | Inr False \<Rightarrow>
          if \<not> hasValidProposer e p s then (Inr (Some Result_Invalid), s)
          else case getRoundState (createRoundState (ev_roundValidators e s) (ev_proposerIndex e s))
                      (bh_number (pr_blockHeader p), pr_round p) (nd_repo s) of
                 Inl err \<Rightarrow> (Inl err, s)
               | Inr (rs, repo) \<Rightarrow>
                   (if isDuplicateProposal rs then (Inr (Some Result_Skipped), s\<lparr>nd_repo := repo\<rparr>)
                    else (Inr None, s\<lparr>nd_repo := repo\<rparr>)))"

definition proposal_finish :: "error + bool \<Rightarrow> proposal \<Rightarrow> node \<Rightarrow> (error + processor_verdict) \<times> node" where
  "proposal_finish verdict p s =
     (case verdict of
        Inl err \<Rightarrow> (Inl err, s)
      | Inr False \<Rightarrow> (Inr Result_Invalid, s)
      | Inr True \<Rightarrow>
          (let ref = (bh_number (pr_blockHeader p), pr_round p)
           in case map_get (nd_repo s) ref of
                None \<Rightarrow> (Inl TypeError, s)
              | Some rs \<Rightarrow>
                  (if isDuplicateProposal rs then (Inr Result_Skipped, s)
                   else case addProposal p rs of
                          Threw err _ \<Rightarrow> (Inl err, s)
                        | Done rs1 \<Rightarrow>
                            (Inr Result_Accepted,
                             snd (handle_enqueue ref (emit (SaveProposal p) (put_round_state ref rs1 s)))))))"

section \<open>Commit processor\<close>

definition commit_process :: "env \<Rightarrow> commit \<Rightarrow> node \<Rightarrow> (error + processor_verdict) \<times> node" where
  "commit_process e c s =
     (if bh_number (bk_header (cm_block c)) \<noteq> nd_blockNumber s then (Inr Result_Skipped, s)
      else case configure_commit_state (ev_roundValidators e s) c of
        Inl err \<Rightarrow> (Inl err, s)
      | Inr cs \<Rightarrow>
          (case handleCommitState e cs s of
             (cs1, Threw err s1) \<Rightarrow> (Inl err, s1)
           | (cs1, Done s1) \<Rightarrow>
               (case cs_processorResult cs1 of
                  None \<Rightarrow> (Inr Result_Skipped, s1)
                | Some r \<Rightarrow> (Inr (if pc_success r then Result_Accepted else Result_Invalid), s1))))"

text \<open>\<open>hasValidSignature\<close>; \<open>serialize\<close> is \<open>serializeMessageForSignature\<close> on a precommit for the block in
  the proof's round, in the context of the genesis block and the previous block.\<close>

definition commit_hasValidSignature where
  "commit_hasValidSignature gv aggP ver serialize rv c previousBlockHash =
     sum_bind (serialize Precommit (bh_number (bk_header (cm_block c))) (cp_round (cm_proof c))
                 (Some (bh_hash (bk_header (cm_block c)))) previousBlockHash)
       (\<lambda>data. verify gv aggP ver
         \<lparr>as_signature = cp_signature (cm_proof c), as_validators = cp_validators (cm_proof c)\<rparr> data rv)"

text \<open>What the block downloader asks of a batch before it hands its commits over: consecutive numbers, and a valid
  signature of each commit over the hash of the block before it. An exception of a check fails the batch.\<close>

definition previous_hashes :: "string \<Rightarrow> commit list \<Rightarrow> string list" where
  "previous_hashes h cs = h # map (\<lambda>c. bh_hash (bk_header (cm_block c))) cs"

fun all_valid :: "(commit \<Rightarrow> string \<Rightarrow> error + bool) \<Rightarrow> (commit \<times> string) list \<Rightarrow> error + bool" where
  "all_valid hasValidSignature [] = Inr True"
| "all_valid hasValidSignature ((c, h) # rest) =
     sum_bind (hasValidSignature c h) (\<lambda>valid. sum_bind (all_valid hasValidSignature rest) (\<lambda>others. Inr (valid \<and> others)))"

definition verify_batch ::
  "(commit \<Rightarrow> string \<Rightarrow> error + bool) \<Rightarrow> nat \<Rightarrow> string \<Rightarrow> commit list \<Rightarrow> error + commit list" where
  "verify_batch hasValidSignature number previousBlockHash commits =
     (if map (\<lambda>c. bh_number (bk_header (cm_block c))) commits \<noteq> [number..<number + length commits]
      then Inl (JsError ''Received block number does not match expected number'')
      else sum_bind (all_valid hasValidSignature (zip commits (previous_hashes previousBlockHash commits))) (\<lambda>valid.
        if \<not> valid then Inl (JsError ''Received block(s) with invalid signature(s)'') else Inr commits))"

lemma all_valid_sound: "all_valid valid cs = Inr True \<Longrightarrow> (c, h) \<in> set cs \<Longrightarrow> valid c h = Inr True"
  by (induction cs) (auto simp: sum_bind_Inr_iff)

lemma verify_batch_Inr_iff:
  "verify_batch valid number h commits = Inr cs \<longleftrightarrow> cs = commits
     \<and> map (\<lambda>c. bh_number (bk_header (cm_block c))) commits = [number..<number + length commits]
     \<and> all_valid valid (zip commits (previous_hashes h commits)) = Inr True"
  by (auto simp: verify_batch_def sum_bind_Inr_iff split: if_splits)

lemma verified_commit:
  assumes "verify_batch valid number h commits = Inr cs" and "c \<in> set cs"
  shows "\<exists>previous. valid c previous = Inr True"
proof -
  have "c \<in> set (map fst (zip commits (previous_hashes h commits)))"
    using assms by (simp add: verify_batch_Inr_iff previous_hashes_def map_fst_zip_take)
  with assms(1) show ?thesis by (auto simp: verify_batch_Inr_iff) (blast dest: all_valid_sound)
qed

section \<open>Bootstrapper\<close>

record stored_records =
  sr_state :: "state_data option"
  sr_proposals :: "proposal list"
  sr_messages :: "message list"

definition readRecords ::
  "(bytes \<Rightarrow> error + message) \<Rightarrow> (bytes \<Rightarrow> error + proposal) \<Rightarrow> store \<Rightarrow> error + stored_records" where
  "readRecords mkM mkP st =
     sum_bind (getMessages_stored mkM st) (\<lambda>ms.
       sum_bind (getProposals mkP st) (\<lambda>ps.
         Inr \<lparr>sr_state = getState st, sr_proposals = ps, sr_messages = ms\<rparr>))"

definition load_with :: "env \<Rightarrow> rs_ref \<Rightarrow> (round_state \<Rightarrow> round_state outcome) \<Rightarrow> node \<Rightarrow> node outcome" where
  "load_with e ref add s = with_round_state e ref (\<lambda>rs s1.
     case add rs of Threw err rs1 \<Rightarrow> Threw err s1 | Done rs1 \<Rightarrow> Done (put_round_state ref rs1 s1)) s"

fun load_proposals :: "env \<Rightarrow> nat \<Rightarrow> proposal list \<Rightarrow> node \<Rightarrow> node outcome" where
  "load_proposals e n [] s = Done s"
| "load_proposals e n (p # ps) s =
     and_then (load_with e (n, pr_round p) (addProposal p) s) (load_proposals e n ps)"

fun load_messages :: "env \<Rightarrow> nat \<Rightarrow> message list \<Rightarrow> node \<Rightarrow> node outcome" where
  "load_messages e n [] s = Done s"
| "load_messages e n (m # ms) s =
     and_then (load_with e (n, mg_round m) (addMessage m) s) (load_messages e n ms)"

definition loadRounds :: "env \<Rightarrow> nat \<Rightarrow> stored_records \<Rightarrow> node \<Rightarrow> node outcome" where
  "loadRounds e blockNumber r s =
     and_then (load_proposals e blockNumber
                 (filter (\<lambda>p. bh_number (pr_blockHeader p) = blockNumber) (sr_proposals r)) s)
       (load_messages e blockNumber (filter (\<lambda>m. mg_blockNumber m = blockNumber) (sr_messages r)))"

text \<open>\<open>#getProvenRoundState\<close>: the node must hold the proposal and the +2/3 prevotes of a round it is
  locked on or found valid. The messages are those of the code less the formatted height and round.\<close>

definition proposal_not_stored :: "string \<Rightarrow> error" where
  "proposal_not_stored kind = JsError (''refusing to start on an inconsistent consensus store: the proposal of '' @ kind @ '' round is not stored'')"

definition prevotes_not_stored :: "string \<Rightarrow> error" where
  "prevotes_not_stored kind = JsError (''refusing to start on an inconsistent consensus store: the +2/3 prevotes of '' @ kind @ '' round are not stored'')"

definition getProvenRoundState :: "env \<Rightarrow> rs_ref \<Rightarrow> string \<Rightarrow> node \<Rightarrow> node outcome" where
  "getProvenRoundState e ref kind s = with_round_state e ref (\<lambda>rs s1.
     case rs_proposal rs of
       None \<Rightarrow> Threw (proposal_not_stored kind) s1
     | Some p \<Rightarrow>
         (case deserializePayload (ev_makePayload e) p of
            Inl err \<Rightarrow> Threw err s1
          | Inr p1 \<Rightarrow>
              (let rs1 = rs\<lparr>rs_proposal := Some p1\<rparr>;
                   s2 = put_round_state ref rs1 s1
               in if \<not> hasMajorityPrevotes (ev_milestoneValidators e (fst ref)) rs1
                  then Threw (prevotes_not_stored kind) s2
                  else Done s2))) s"

definition prove_round :: "env \<Rightarrow> nat \<Rightarrow> nat option \<Rightarrow> string \<Rightarrow> node \<Rightarrow> node outcome" where
  "prove_round e n r kind s = (case r of None \<Rightarrow> Done s | Some r \<Rightarrow> getProvenRoundState e (n, r) kind s)"

definition initialState :: "nat \<Rightarrow> state_data" where
  "initialState n = \<lparr>sd_blockNumber = n, sd_lockedRound = None, sd_round = 0, sd_step = Step_Propose,
     sd_validRound = None\<rparr>"

text \<open>\<open>bootstrap\<close>: the state to run from. The references to the valid and the locked round state are
  those of the rounds in the returned state.\<close>

definition bootstrap ::
  "env \<Rightarrow> (bytes \<Rightarrow> error + message) \<Rightarrow> (bytes \<Rightarrow> error + proposal) \<Rightarrow> nat \<Rightarrow> nat \<Rightarrow> store \<Rightarrow>
   node \<Rightarrow> (error + state_data) \<times> node" where
  "bootstrap e mkM mkP lastBlock configHeight st s =
     (let blockNumber = lastBlock + 1
      in if blockNumber \<noteq> configHeight
         then (Inl (JsError ''bootstrapped block number does not match configuration block number''), s)
         else case readRecords mkM mkP st of
           Inl _ \<Rightarrow> (Inr (initialState blockNumber), emit ClearStore s)
         | Inr r \<Rightarrow>
             (case loadRounds e blockNumber r s of
                Threw err s1 \<Rightarrow> (Inl err, s1)
              | Done s1 \<Rightarrow>
                  (case sr_state r of
                     None \<Rightarrow> (Inr (initialState blockNumber), s1)
                   | Some d \<Rightarrow>
                       if sd_blockNumber d = blockNumber
                       then (case and_then (prove_round e blockNumber (sd_validRound d) ''valid'' s1)
                                    (prove_round e blockNumber (sd_lockedRound d) ''locked'') of
                               Threw err s2 \<Rightarrow> (Inl err, s2)
                             | Done s2 \<Rightarrow> (Inr d, s2))
                       else if sd_blockNumber d > blockNumber
                       then (Inr (initialState blockNumber), emit ClearStore s1)
                       else (Inr (initialState blockNumber), s1))))"

text \<open>A restarted process: \<open>Service.initialize\<close> ran, then \<open>bootstrap\<close>, then \<open>run\<close>.\<close>

definition restored_ref :: "nat \<Rightarrow> nat option \<Rightarrow> rs_ref option" where
  "restored_ref n r = map_option (\<lambda>r. (n, r)) r"

definition boot ::
  "env \<Rightarrow> (bytes \<Rightarrow> error + message) \<Rightarrow> (bytes \<Rightarrow> error + proposal) \<Rightarrow> nat \<Rightarrow> nat \<Rightarrow> store \<Rightarrow>
   node \<Rightarrow> node outcome" where
  "boot e mkM mkP lastBlock configHeight st s =
     (case bootstrap e mkM mkP lastBlock configHeight (initialize st) s of
        (Inl err, s1) \<Rightarrow> Threw err s1
      | (Inr d, s1) \<Rightarrow> run e d (restored_ref (sd_blockNumber d) (sd_lockedRound d))
                         (restored_ref (sd_blockNumber d) (sd_validRound d)) s1)"

end
