(* ===== verification/Consensus_Safety.thy ===== *)
theory Consensus_Safety
  imports Consensus_Processors "HOL-Library.Product_Lexorder"
begin

text \<open>
  Safety of one node over any sequence of handlers, exceptions, crashes and restarts.

  The trace of effects is the history of the node; what is durable is a function of it: the
  consensus store (\<open>store_of\<close>) and the last committed block (\<open>last_block\<close>). A crash keeps a prefix
  of the effects of the handler it interrupts, at least all effects of the handlers before it; a
  restart boots from the store and the chain of that prefix.

  The invariant has two halves. \<open>durable_ok\<close> holds for every prefix of the trace: the stored position
  is at or after every vote signed, the stored lock covers every block precommitted, votes of one
  position carry one value, a block precommit rests on +2/3 prevotes the node has seen, and a block
  prevote after an earlier block precommit rests on +2/3 prevotes of a round in between.
  \<open>memory_ok\<close> relates the fields of the node to it.
\<close>

section \<open>What a trace makes durable\<close>

record world =
  wd_genesis :: nat
  wd_makeMessage :: "bytes \<Rightarrow> error + message"
  wd_makeProposal :: "bytes \<Rightarrow> error + proposal"
  wd_validators :: "nat \<Rightarrow> nat"
  wd_payloadHash :: "string \<Rightarrow> string"
  wd_validator :: "nat \<Rightarrow> nat \<Rightarrow> error + validator_wallet"
  wd_aggregatePublicKeys :: "string list \<Rightarrow> error + string"
  wd_verifySignature :: "string \<Rightarrow> bytes \<Rightarrow> string \<Rightarrow> error + bool"
  wd_serialize :: "message_type \<Rightarrow> nat \<Rightarrow> nat \<Rightarrow> string option \<Rightarrow> string \<Rightarrow> error + bytes"

fun apply_effect :: "effect \<Rightarrow> store \<Rightarrow> store" where
  "apply_effect (SaveState d) st = saveState d st"
| "apply_effect (SaveProposal p) st = saveProposal p st"
| "apply_effect (SaveMessage m) st = saveMessage m st"
| "apply_effect ClearStore st = clear_storage st"
| "apply_effect Restarted st = initialize st"
| "apply_effect _ st = st"

definition store_of :: "effect list \<Rightarrow> store" where
  "store_of tr = fold apply_effect tr empty_store"

fun commit_effect :: "effect \<Rightarrow> nat \<Rightarrow> nat" where
  "commit_effect (CommittedBlock n h) k = n"
| "commit_effect _ k = k"

definition last_block :: "world \<Rightarrow> effect list \<Rightarrow> nat" where
  "last_block w tr = fold commit_effect tr (wd_genesis w)"

lemma store_of_snoc [simp]: "store_of (tr @ [x]) = apply_effect x (store_of tr)"
  by (simp add: store_of_def)

lemma last_block_snoc [simp]: "last_block w (tr @ [x]) = commit_effect x (last_block w tr)"
  by (simp add: last_block_def)

type_synonym position = "nat \<times> nat \<times> nat"

fun vote_number :: "message_type \<Rightarrow> nat" where
  "vote_number Prevote = 1"
| "vote_number Precommit = 2"
| "vote_number (OtherType n) = 0"

definition vote_pos :: "message \<Rightarrow> position" where
  "vote_pos m = (mg_blockNumber m, mg_round m, vote_number (mg_type m))"

definition node_pos :: "node \<Rightarrow> position" where
  "node_pos s = (nd_blockNumber s, nd_round s, step_number (nd_step s))"

text \<open>The position and the lock the bootstrapper restores.\<close>

definition stored_state :: "world \<Rightarrow> effect list \<Rightarrow> state_data" where
  "stored_state w tr =
     (case st_state (store_of tr) of
        Some d \<Rightarrow> if sd_blockNumber d = last_block w tr + 1 then d else initialState (last_block w tr + 1)
      | None \<Rightarrow> initialState (last_block w tr + 1))"

definition state_pos :: "state_data \<Rightarrow> position" where
  "state_pos d = (sd_blockNumber d, sd_round d, step_number (sd_step d))"

abbreviation durable_pos :: "world \<Rightarrow> effect list \<Rightarrow> position" where
  "durable_pos w tr \<equiv> state_pos (stored_state w tr)"

abbreviation durable_lock :: "world \<Rightarrow> effect list \<Rightarrow> nat option" where
  "durable_lock w tr \<equiv> sd_lockedRound (stored_state w tr)"

lemma stored_state_number [simp]: "sd_blockNumber (stored_state w tr) = last_block w tr + 1"
  by (simp add: stored_state_def initialState_def split: option.split)

section \<open>Evidence in a trace\<close>

text \<open>A vote the node added to a round state or signed itself.\<close>

definition seen :: "effect list \<Rightarrow> message \<Rightarrow> bool" where
  "seen tr m \<longleftrightarrow> AddedMessage m \<in> set tr \<or> SignedMessage m \<in> set tr"

definition vote_senders :: "world \<Rightarrow> effect list \<Rightarrow> message_type \<Rightarrow> nat \<Rightarrow> nat \<Rightarrow> string \<Rightarrow> nat set" where
  "vote_senders w tr t n r h = {i. i < wd_validators w n \<and> (\<exists>m. seen tr m \<and> mg_type m = t
     \<and> mg_blockNumber m = n \<and> mg_round m = r \<and> mg_blockHash m = Some h \<and> mg_validatorIndex m = i)}"

definition vote_quorum :: "world \<Rightarrow> effect list \<Rightarrow> message_type \<Rightarrow> nat \<Rightarrow> nat \<Rightarrow> string \<Rightarrow> bool" where
  "vote_quorum w tr t n r h \<longleftrightarrow> isMajority (card (vote_senders w tr t n r h)) (wd_validators w n)"

abbreviation prevote_quorum :: "world \<Rightarrow> effect list \<Rightarrow> nat \<Rightarrow> nat \<Rightarrow> string \<Rightarrow> bool" where
  "prevote_quorum w tr \<equiv> vote_quorum w tr Prevote"

definition lock_verified :: "effect list \<Rightarrow> nat \<Rightarrow> nat \<Rightarrow> string \<Rightarrow> bool" where
  "lock_verified tr n r h \<longleftrightarrow> (\<exists>p. LockProofVerified p \<in> set tr \<and> pr_validRound p = Some r \<and> pr_lockProof p \<noteq> None
     \<and> bh_number (pr_blockHeader p) = n \<and> bh_hash (pr_blockHeader p) = h)"

definition polka :: "world \<Rightarrow> effect list \<Rightarrow> nat \<Rightarrow> nat \<Rightarrow> string \<Rightarrow> bool" where
  "polka w tr n r h \<longleftrightarrow> prevote_quorum w tr n r h \<or> lock_verified tr n r h"

text \<open>\<open>hasValidSignature\<close> of the commit processor on the services of the network: \<open>wd_validator w n\<close> is the validator set
  of the round of block \<open>n\<close> (the downloader cuts its batches at the end of a round, so this is the active one).\<close>

definition signed_commit :: "world \<Rightarrow> commit \<Rightarrow> string \<Rightarrow> error + bool" where
  "signed_commit w c previousBlockHash =
     commit_hasValidSignature (wd_validator w (bh_number (bk_header (cm_block c)))) (wd_aggregatePublicKeys w)
       (wd_verifySignature w) (wd_serialize w) (wd_validators w (bh_number (bk_header (cm_block c)))) c previousBlockHash"

text \<open>A commit of this block and round whose aggregated precommit signature passes the check.\<close>

definition signed_proof :: "world \<Rightarrow> nat \<Rightarrow> nat \<Rightarrow> string \<Rightarrow> bool" where
  "signed_proof w n r h \<longleftrightarrow> (\<exists>c previous. signed_commit w c previous = Inr True
     \<and> bh_number (bk_header (cm_block c)) = n \<and> cp_round (cm_proof c) = r \<and> bh_hash (bk_header (cm_block c)) = h)"

text \<open>What entitles a node to commit a block: +2/3 precommits it has seen, or a commit proof it has checked.\<close>

definition commit_evidence :: "world \<Rightarrow> effect list \<Rightarrow> nat \<Rightarrow> string \<Rightarrow> bool" where
  "commit_evidence w tr n h \<longleftrightarrow>
     (\<exists>r. vote_quorum w tr Precommit n r h \<or> CommitProofVerified n r h \<in> set tr \<and> signed_proof w n r h)"

definition signed_vote :: "effect list \<Rightarrow> message_type \<Rightarrow> nat \<Rightarrow> nat \<Rightarrow> string option \<Rightarrow> bool" where
  "signed_vote tr t n r h \<longleftrightarrow> (\<exists>m. SignedMessage m \<in> set tr \<and> mg_type m = t \<and> mg_blockNumber m = n
     \<and> mg_round m = r \<and> mg_blockHash m = h)"

lemma seen_mono: "set tr \<subseteq> set tr' \<Longrightarrow> seen tr m \<Longrightarrow> seen tr' m"
  by (auto simp: seen_def)

lemma vote_senders_mono: "set tr \<subseteq> set tr' \<Longrightarrow> vote_senders w tr t n r h \<subseteq> vote_senders w tr' t n r h"
  by (auto simp: vote_senders_def dest: seen_mono)

lemma finite_vote_senders [simp]: "finite (vote_senders w tr t n r h)"
  by (rule finite_subset [of _ "{..<wd_validators w n}"]) (auto simp: vote_senders_def)

lemma vote_quorum_mono: "set tr \<subseteq> set tr' \<Longrightarrow> vote_quorum w tr t n r h \<Longrightarrow> vote_quorum w tr' t n r h"
  unfolding vote_quorum_def by (meson card_mono finite_vote_senders isMajority_mono vote_senders_mono)

lemma lock_verified_mono: "set tr \<subseteq> set tr' \<Longrightarrow> lock_verified tr n r h \<Longrightarrow> lock_verified tr' n r h"
  by (auto simp: lock_verified_def)

lemma polka_mono: "set tr \<subseteq> set tr' \<Longrightarrow> polka w tr n r h \<Longrightarrow> polka w tr' n r h"
  using vote_quorum_mono lock_verified_mono by (auto simp: polka_def)

lemma commit_evidence_mono: "set tr \<subseteq> set tr' \<Longrightarrow> commit_evidence w tr n h \<Longrightarrow> commit_evidence w tr' n h"
  unfolding commit_evidence_def using vote_quorum_mono by blast

section \<open>The invariant\<close>

definition one_value :: "effect list \<Rightarrow> bool" where
  "one_value tr \<longleftrightarrow> (\<forall>t n r h h'. signed_vote tr t n r h \<longrightarrow> signed_vote tr t n r h' \<longrightarrow> h = h')"

definition seen_bytes :: "world \<Rightarrow> effect list \<Rightarrow> bytes \<Rightarrow> bool" where
  "seen_bytes w tr b \<longleftrightarrow>
     (\<exists>m. seen tr m \<and> wd_makeMessage w b = Inr m \<and> mg_validatorIndex m < wd_validators w (mg_blockNumber m))"

definition readable :: "world \<Rightarrow> effect list \<Rightarrow> bool" where
  "readable w tr \<longleftrightarrow>
     (\<forall>b \<in> snd ` set (st_messages (store_of tr)). seen_bytes w tr b)
     \<and> (\<forall>b \<in> snd ` set (st_proposals (store_of tr)). \<exists>p. wd_makeProposal w b = Inr p)"

definition store_numbers_ok :: "world \<Rightarrow> effect list \<Rightarrow> bool" where
  "store_numbers_ok w tr \<longleftrightarrow>
     (\<forall>d. st_state (store_of tr) = Some d \<longrightarrow>
        sd_blockNumber d \<le> st_blockNumber (store_of tr) \<and> sd_blockNumber d \<le> last_block w tr + 1
        \<and> (\<forall>L. sd_lockedRound d = Some L \<longrightarrow> L < sd_round d \<or> L = sd_round d \<and> sd_step d = Step_Precommit))"

definition votes_covered :: "world \<Rightarrow> effect list \<Rightarrow> bool" where
  "votes_covered w tr \<longleftrightarrow>
     (\<forall>m. SignedMessage m \<in> set tr \<longrightarrow> vote_pos m \<le> durable_pos w tr)
     \<and> (\<forall>r v. signed_vote tr Precommit (last_block w tr + 1) r (Some v) \<longrightarrow>
          (\<exists>L. durable_lock w tr = Some L \<and> r \<le> L))"

definition votes_justified :: "world \<Rightarrow> effect list \<Rightarrow> bool" where
  "votes_justified w tr \<longleftrightarrow>
     (\<forall>n r v. signed_vote tr Precommit n r (Some v) \<longrightarrow> prevote_quorum w tr n r v)
     \<and> (\<forall>n r r' v v'. signed_vote tr Precommit n r (Some v) \<longrightarrow> signed_vote tr Prevote n r' (Some v') \<longrightarrow>
          r < r' \<longrightarrow> (\<exists>k. r \<le> k \<and> k < r' \<and> polka w tr n k v'))"

definition commits_justified :: "world \<Rightarrow> effect list \<Rightarrow> bool" where
  "commits_justified w tr \<longleftrightarrow> (\<forall>n h. CommittedBlock n h \<in> set tr \<longrightarrow> commit_evidence w tr n h)"

definition durable_ok :: "world \<Rightarrow> effect list \<Rightarrow> bool" where
  "durable_ok w tr \<longleftrightarrow> one_value tr \<and> readable w tr \<and> store_numbers_ok w tr \<and> votes_covered w tr
     \<and> votes_justified w tr \<and> commits_justified w tr"

definition trace_ok :: "world \<Rightarrow> effect list \<Rightarrow> bool" where
  "trace_ok w tr \<longleftrightarrow> (\<forall>k. durable_ok w (take k tr))"

lemma trace_ok_durable: "trace_ok w tr \<Longrightarrow> durable_ok w tr"
  unfolding trace_ok_def by (metis take_all_iff le_refl)

lemma trace_ok_snoc: "trace_ok w (tr @ [x]) \<longleftrightarrow> trace_ok w tr \<and> durable_ok w (tr @ [x])"
proof
  assume ok: "trace_ok w (tr @ [x])"
  then have "durable_ok w (take k tr)" for k
    unfolding trace_ok_def by (metis append_take_drop_id min.cobounded1 nat_le_linear take_append take_take take_all_iff append_Nil2 diff_is_0_eq take0 take_Nil)
  then show "trace_ok w tr \<and> durable_ok w (tr @ [x])"
    using trace_ok_durable [OF ok] by (simp add: trace_ok_def)
next
  assume ok: "trace_ok w tr \<and> durable_ok w (tr @ [x])"
  show "trace_ok w (tr @ [x])"
    unfolding trace_ok_def
  proof
    fix k
    show "durable_ok w (take k (tr @ [x]))"
      using ok by (cases "k \<le> length tr") (auto simp: trace_ok_def)
  qed
qed

text \<open>A round state of the repository: its votes were seen, are of its position and in range; a
  successful result of a re-proposal rests on a verified lock proof.\<close>

definition vote_ok :: "world \<Rightarrow> effect list \<Rightarrow> message_type \<Rightarrow> rs_ref \<Rightarrow> nat \<Rightarrow> message \<Rightarrow> bool" where
  "vote_ok w tr t ref i m \<longleftrightarrow> seen tr m \<and> mg_type m = t \<and> mg_blockNumber m = fst ref \<and> mg_round m = snd ref
     \<and> i < wd_validators w (fst ref)"

definition proposal_ok :: "world \<Rightarrow> proposal \<Rightarrow> bool" where
  "proposal_ok w p \<longleftrightarrow> bh_hash (pr_blockHeader p) = wd_payloadHash w (pr_payloadSerialized p)
     \<and> (\<forall>pl. pr_payload p = Some pl \<longrightarrow> bh_hash (bk_header (pl_block pl)) = wd_payloadHash w (pr_payloadSerialized p))"

definition round_state_ok :: "world \<Rightarrow> effect list \<Rightarrow> rs_ref \<Rightarrow> round_state \<Rightarrow> bool" where
  "round_state_ok w tr ref rs \<longleftrightarrow> rs_ok rs
     \<and> (\<forall>(i, m) \<in> set (rs_prevotes rs). vote_ok w tr Prevote ref i m)
     \<and> (\<forall>(i, m) \<in> set (rs_precommits rs). vote_ok w tr Precommit ref i m)
     \<and> (\<forall>p. rs_proposal rs = Some p \<longrightarrow> bh_number (pr_blockHeader p) = fst ref \<and> proposal_ok w p)
     \<and> (rs_proposal rs = None \<longrightarrow> rs_processorResult rs = None)
     \<and> (\<forall>p r vr. rs_proposal rs = Some p \<longrightarrow> rs_processorResult rs = Some r \<longrightarrow> pc_success r \<longrightarrow>
          pr_validRound p = Some vr \<longrightarrow> LockProofVerified p \<in> set tr)"

definition repo_ok :: "world \<Rightarrow> effect list \<Rightarrow> repository \<Rightarrow> bool" where
  "repo_ok w tr repo \<longleftrightarrow> (\<forall>ref rs. map_get repo ref = Some rs \<longrightarrow> round_state_ok w tr ref rs)"

lemma repo_okD: "repo_ok w tr repo \<Longrightarrow> map_get repo ref = Some rs \<Longrightarrow> round_state_ok w tr ref rs"
  unfolding repo_ok_def by blast

definition lock_ok :: "world \<Rightarrow> node \<Rightarrow> bool" where
  "lock_ok w s \<longleftrightarrow> (\<forall>n L. nd_lockedValue s = Some (n, L) \<longrightarrow>
     n = nd_blockNumber s \<and> (L < nd_round s \<or> L = nd_round s \<and> nd_step s = Step_Precommit)
     \<and> (\<exists>h. proposal_hash (n, L) s = Some h \<and> prevote_quorum w (nd_trace s) n L h))"

definition memory_ok :: "world \<Rightarrow> node \<Rightarrow> bool" where
  "memory_ok w s \<longleftrightarrow> nd_blockNumber s = last_block w (nd_trace s) + 1
     \<and> durable_pos w (nd_trace s) \<le> node_pos s
     \<and> (\<forall>L. durable_lock w (nd_trace s) = Some L \<longrightarrow> (\<exists>L'. getLockedRound s = Some L' \<and> L \<le> L'))
     \<and> lock_ok w s \<and> repo_ok w (nd_trace s) (nd_repo s)"

definition node_inv :: "world \<Rightarrow> node \<Rightarrow> bool" where
  "node_inv w s \<longleftrightarrow> trace_ok w (nd_trace s) \<and> memory_ok w s"

section \<open>Effects that only add evidence\<close>

fun neutral :: "effect \<Rightarrow> bool" where
  "neutral (SaveState d) = False"
| "neutral (SaveProposal p) = False"
| "neutral (SaveMessage m) = False"
| "neutral ClearStore = False"
| "neutral Restarted = False"
| "neutral (SignedMessage m) = False"
| "neutral (CommittedBlock n h) = False"
| "neutral _ = True"

lemma neutral_apply [simp]: "neutral x \<Longrightarrow> apply_effect x st = st" "neutral x \<Longrightarrow> commit_effect x n = n"
  by (cases x; simp)+

lemma stored_state_cong:
  "st_state (store_of tr') = st_state (store_of tr) \<Longrightarrow> last_block w tr' = last_block w tr \<Longrightarrow>
   stored_state w tr' = stored_state w tr"
  by (simp add: stored_state_def split: option.split)

lemma stored_state_neutral [simp]: "neutral x \<Longrightarrow> stored_state w (tr @ [x]) = stored_state w tr"
  by (rule stored_state_cong) simp_all

lemma neutral_signed: "neutral x \<Longrightarrow> SignedMessage m \<in> set (tr @ [x]) \<longleftrightarrow> SignedMessage m \<in> set tr"
  by auto

lemma signed_vote_neutral [simp]: "neutral x \<Longrightarrow> signed_vote (tr @ [x]) t n r h = signed_vote tr t n r h"
  by (auto simp: signed_vote_def)

lemma snoc_mono: "set tr \<subseteq> set (tr @ [x])"
  by auto

lemmas snoc_monos = seen_mono [OF snoc_mono] vote_quorum_mono [OF snoc_mono] lock_verified_mono [OF snoc_mono]
  polka_mono [OF snoc_mono] commit_evidence_mono [OF snoc_mono]

lemma votes_justified_same_votes:
  assumes "votes_justified w tr" and "\<And>t n r h. signed_vote (tr @ [x]) t n r h = signed_vote tr t n r h"
  shows "votes_justified w (tr @ [x])"
  using assms snoc_monos unfolding votes_justified_def by metis

lemma commits_justified_snoc:
  assumes "commits_justified w tr" and "\<And>n h. x = CommittedBlock n h \<Longrightarrow> commit_evidence w tr n h"
  shows "commits_justified w (tr @ [x])"
  using assms snoc_monos(5) unfolding commits_justified_def by (metis in_set_conv_decomp_first rotate1.simps(2) set_ConsD set_rotate1)

lemma one_value_same_votes:
  assumes "one_value tr" and "\<And>t n r h. signed_vote (tr @ [x]) t n r h = signed_vote tr t n r h"
  shows "one_value (tr @ [x])"
  using assms unfolding one_value_def by blast

lemma seen_bytes_snoc: "seen_bytes w tr b \<Longrightarrow> seen_bytes w (tr @ [x]) b"
  unfolding seen_bytes_def using snoc_monos(1) by blast

lemma readable_snoc:
  assumes "readable w tr"
    and "snd ` set (st_messages (store_of (tr @ [x]))) \<subseteq> snd ` set (st_messages (store_of tr)) \<union> {b. seen_bytes w tr b}"
    and "snd ` set (st_proposals (store_of (tr @ [x])))
           \<subseteq> snd ` set (st_proposals (store_of tr)) \<union> {b. \<exists>p. wd_makeProposal w b = Inr p}"
  shows "readable w (tr @ [x])"
  unfolding readable_def
proof (intro conjI ballI)
  fix b assume "b \<in> snd ` set (st_messages (store_of (tr @ [x])))"
  with assms(2) have "b \<in> snd ` set (st_messages (store_of tr)) \<or> seen_bytes w tr b" by blast
  with assms(1) show "seen_bytes w (tr @ [x]) b" unfolding readable_def by (metis seen_bytes_snoc)
next
  fix b assume "b \<in> snd ` set (st_proposals (store_of (tr @ [x])))"
  with assms(3) have "b \<in> snd ` set (st_proposals (store_of tr)) \<or> (\<exists>p. wd_makeProposal w b = Inr p)" by blast
  with assms(1) show "\<exists>p. wd_makeProposal w b = Inr p" unfolding readable_def by metis
qed

lemma durable_ok_neutral: "neutral x \<Longrightarrow> durable_ok w tr \<Longrightarrow> durable_ok w (tr @ [x])"
proof -
  assume x: "neutral x" and ok: "durable_ok w tr"
  have "readable w (tr @ [x])"
    using ok x by (intro readable_snoc) (auto simp: durable_ok_def)
  moreover have "store_numbers_ok w (tr @ [x])" "votes_covered w (tr @ [x])"
    using ok x neutral_signed [OF x] by (simp_all add: durable_ok_def store_numbers_ok_def votes_covered_def)
  ultimately show ?thesis
    using ok x unfolding durable_ok_def
    by (auto simp: votes_justified_same_votes one_value_same_votes intro!: commits_justified_snoc)
qed

lemma vote_ok_mono: "set tr \<subseteq> set tr' \<Longrightarrow> vote_ok w tr t ref i m \<Longrightarrow> vote_ok w tr' t ref i m"
  unfolding vote_ok_def using seen_mono by blast

lemma round_state_ok_mono: "set tr \<subseteq> set tr' \<Longrightarrow> round_state_ok w tr ref rs \<Longrightarrow> round_state_ok w tr' ref rs"
  unfolding round_state_ok_def by (auto dest: vote_ok_mono)

lemma repo_ok_mono: "set tr \<subseteq> set tr' \<Longrightarrow> repo_ok w tr repo \<Longrightarrow> repo_ok w tr' repo"
  unfolding repo_ok_def using round_state_ok_mono by blast

lemma proposal_hash_emit [simp]: "proposal_hash ref (emit x s) = proposal_hash ref s"
  by (simp add: proposal_hash_def)

lemma lock_ok_emit: "lock_ok w s \<Longrightarrow> lock_ok w (emit x s)"
  unfolding lock_ok_def using snoc_monos(2) by simp blast

lemma getLockedRound_emit [simp]: "getLockedRound (emit x s) = getLockedRound s"
  by (simp add: getLockedRound_def)

lemma node_pos_emit [simp]: "node_pos (emit x s) = node_pos s"
  by (simp add: node_pos_def)

lemma memory_ok_emit:
  assumes "memory_ok w s" and "commit_effect x (last_block w (nd_trace s)) = last_block w (nd_trace s)"
    and "durable_pos w (nd_trace s @ [x]) \<le> node_pos s"
    and "\<And>L. durable_lock w (nd_trace s @ [x]) = Some L \<Longrightarrow> \<exists>L'. getLockedRound s = Some L' \<and> L \<le> L'"
  shows "memory_ok w (emit x s)"
  using assms lock_ok_emit repo_ok_mono [OF snoc_mono] unfolding memory_ok_def by simp

lemma inv_emit_neutral: "neutral x \<Longrightarrow> node_inv w s \<Longrightarrow> node_inv w (emit x s)"
proof -
  assume x: "neutral x" and inv: "node_inv w s"
  then have "memory_ok w (emit x s)" by (intro memory_ok_emit) (auto simp: node_inv_def memory_ok_def)
  with x inv show ?thesis by (simp add: node_inv_def trace_ok_snoc durable_ok_neutral trace_ok_durable)
qed

section \<open>Writes to the store\<close>

text \<open>A record of the current block leaves the restored state as it was.\<close>

lemma inv_save_record:
  assumes "node_inv w s" and "x = SaveMessage m \<and> mg_blockNumber m = nd_blockNumber s \<and> seen (nd_trace s) m
        \<and> wd_makeMessage w (mg_serialized m) = Inr m \<and> mg_validatorIndex m < wd_validators w (mg_blockNumber m)
      \<or> x = SaveProposal p \<and> bh_number (pr_blockHeader p) = nd_blockNumber s
        \<and> (\<exists>q. wd_makeProposal w (pr_serialized p) = Inr q)"
  shows "node_inv w (emit x s)"
proof -
  let ?tr = "nd_trace s" and ?n = "nd_blockNumber s"
  from assms(1) have mem: "memory_ok w s" and tr: "trace_ok w ?tr" and d: "durable_ok w ?tr"
    by (simp_all add: node_inv_def trace_ok_durable)
  from mem have n: "?n = last_block w ?tr + 1" by (simp add: memory_ok_def)
  from d have num: "store_numbers_ok w ?tr" by (simp add: durable_ok_def)
  have lb: "last_block w (?tr @ [x]) = last_block w ?tr" using assms(2) by auto
  have st: "st_state (store_of (?tr @ [x])) = (if ?n > st_blockNumber (store_of ?tr) then None else st_state (store_of ?tr))"
    using assms(2) by auto
  have same: "stored_state w (?tr @ [x]) = stored_state w ?tr"
    using st lb num n by (auto simp: stored_state_def store_numbers_ok_def split: option.splits)
  have votes: "signed_vote (?tr @ [x]) t k r h = signed_vote ?tr t k r h" for t k r h
    using assms(2) by (auto simp: signed_vote_def)
  have signed: "SignedMessage v \<in> set (?tr @ [x]) \<longleftrightarrow> SignedMessage v \<in> set ?tr" for v
    using assms(2) by auto
  have "readable w (?tr @ [x])"
  proof (rule readable_snoc)
    show "readable w ?tr" using d by (simp add: durable_ok_def)
    show "snd ` set (st_messages (store_of (?tr @ [x]))) \<subseteq> snd ` set (st_messages (store_of ?tr)) \<union> {b. seen_bytes w ?tr b}"
      using assms(2) by (elim disjE) (auto simp: seen_bytes_def intro!: order.trans [OF map_set_values])
    show "snd ` set (st_proposals (store_of (?tr @ [x])))
        \<subseteq> snd ` set (st_proposals (store_of ?tr)) \<union> {b. \<exists>p. wd_makeProposal w b = Inr p}"
      using assms(2) by (elim disjE) (auto intro!: order.trans [OF map_set_values])
  qed
  moreover have "store_numbers_ok w (?tr @ [x])"
    using num st lb assms(2) by (auto simp: store_numbers_ok_def split: if_splits)
  moreover have "votes_covered w (?tr @ [x])"
    using d same lb votes signed by (simp add: durable_ok_def votes_covered_def)
  ultimately have "durable_ok w (?tr @ [x])"
    using d votes assms(2) unfolding durable_ok_def
    by (auto simp: votes_justified_same_votes one_value_same_votes intro!: commits_justified_snoc)
  moreover have "memory_ok w (emit x s)"
    using mem same lb by (intro memory_ok_emit) (auto simp: memory_ok_def)
  ultimately show ?thesis using tr by (simp add: node_inv_def trace_ok_snoc)
qed

section \<open>Updates of the node\<close>

lemma proposal_hash_cong: "nd_repo t = nd_repo s \<Longrightarrow> proposal_hash ref t = proposal_hash ref s"
  by (simp add: proposal_hash_def)

lemma inv_cong:
  assumes "nd_trace t = nd_trace s" "nd_blockNumber t = nd_blockNumber s" "nd_round t = nd_round s"
    "nd_step t = nd_step s" "nd_lockedValue t = nd_lockedValue s" "nd_repo t = nd_repo s"
  shows "node_inv w t = node_inv w s"
  using assms proposal_hash_cong [OF assms(6)]
  by (simp add: node_inv_def memory_ok_def lock_ok_def node_pos_def getLockedRound_def)

lemma inv_updates [simp]:
  "node_inv w (s\<lparr>nd_validValue := a\<rparr>) = node_inv w s" "node_inv w (s\<lparr>nd_didMajorityPrevote := b\<rparr>) = node_inv w s"
  "node_inv w (s\<lparr>nd_didMajorityPrecommit := b\<rparr>) = node_inv w s"
  "node_inv w (s\<lparr>nd_didMajorityPrecommitWithoutProposal := b\<rparr>) = node_inv w s"
  "node_inv w (s\<lparr>nd_isDisposed := b\<rparr>) = node_inv w s" "node_inv w (s\<lparr>nd_pendingJobs := c\<rparr>) = node_inv w s"
  "node_inv w (s\<lparr>nd_proposalPromise := d\<rparr>) = node_inv w s" "node_inv w (s\<lparr>nd_promiseCount := x\<rparr>) = node_inv w s"
  "node_inv w (s\<lparr>nd_roundStartTime := x\<rparr>) = node_inv w s" "node_inv w (s\<lparr>nd_scheduler := sc\<rparr>) = node_inv w s"
  by (rule inv_cong; simp)+

text \<open>Moving the position forward within a block.\<close>

lemma inv_advance:
  assumes "node_inv w s" and "nd_trace t = nd_trace s" "nd_blockNumber t = nd_blockNumber s" "nd_lockedValue t = nd_lockedValue s"
    "nd_repo t = nd_repo s" and "node_pos s \<le> node_pos t"
  shows "node_inv w t"
proof -
  have lock: "lock_ok w t"
    unfolding lock_ok_def
  proof (intro allI impI)
    fix n L assume "nd_lockedValue t = Some (n, L)"
    with assms have l: "nd_lockedValue s = Some (n, L)" "lock_ok w s" by (simp_all add: node_inv_def memory_ok_def)
    then have L: "n = nd_blockNumber s" "L < nd_round s \<or> L = nd_round s \<and> nd_step s = Step_Precommit"
      "\<exists>h. proposal_hash (n, L) s = Some h \<and> prevote_quorum w (nd_trace s) n L h" by (auto simp: lock_ok_def)
    have "nd_round s < nd_round t \<or> nd_round s = nd_round t \<and> step_number (nd_step s) \<le> step_number (nd_step t)"
      using assms(3,6) by (auto simp: node_pos_def)
    with L(2) have "L < nd_round t \<or> L = nd_round t \<and> nd_step t = Step_Precommit"
      by (cases "nd_step t") auto
    with L(1,3) assms(2,3,5) show "n = nd_blockNumber t \<and> (L < nd_round t \<or> L = nd_round t \<and> nd_step t = Step_Precommit)
        \<and> (\<exists>h. proposal_hash (n, L) t = Some h \<and> prevote_quorum w (nd_trace t) n L h)"
      by (simp add: proposal_hash_cong [OF assms(5)])
  qed
  have "durable_pos w (nd_trace t) \<le> node_pos t"
    using assms(1,2,6) order.trans by (fastforce simp: node_inv_def memory_ok_def)
  with lock assms(1-5) show ?thesis by (simp add: node_inv_def memory_ok_def getLockedRound_def)
qed

lemma inv_step:
  "node_inv w s \<Longrightarrow> step_number (nd_step s) \<le> step_number st \<Longrightarrow> node_inv w (s\<lparr>nd_step := st\<rparr>)"
  by (rule inv_advance) (auto simp: node_pos_def)

section \<open>Persisting the position\<close>

lemma persisted_state:
  "nd_blockNumber s = last_block w (nd_trace s) + 1 \<Longrightarrow> stored_state w (nd_trace (persistState s)) = getState_node s"
  by (simp add: stored_state_def getState_node_def)

lemma state_pos_getState [simp]: "state_pos (getState_node s) = node_pos s"
  by (simp add: state_pos_def getState_node_def node_pos_def)

lemma inv_persist:
  assumes "node_inv w s"
  shows "node_inv w (persistState s)"
    and "durable_pos w (nd_trace (persistState s)) = node_pos s"
    and "durable_lock w (nd_trace (persistState s)) = getLockedRound s"
proof -
  let ?tr = "nd_trace s" and ?x = "SaveState (getState_node s)"
  from assms have mem: "memory_ok w s" and tr: "trace_ok w ?tr" and d: "durable_ok w ?tr"
    by (simp_all add: node_inv_def trace_ok_durable)
  from mem have n: "nd_blockNumber s = last_block w ?tr + 1" by (simp add: memory_ok_def)
  note st = persisted_state [OF n]
  show pos: "durable_pos w (nd_trace (persistState s)) = node_pos s"
    and lock: "durable_lock w (nd_trace (persistState s)) = getLockedRound s"
    unfolding st by (simp, simp add: getState_node_def)
  have votes: "signed_vote (?tr @ [?x]) t k r h = signed_vote ?tr t k r h" for t k r h
    by (auto simp: signed_vote_def)
  have "readable w (?tr @ [?x])" using d by (intro readable_snoc) (auto simp: durable_ok_def)
  moreover have "store_numbers_ok w (?tr @ [?x])"
    using mem n by (auto simp: store_numbers_ok_def getState_node_def getLockedRound_def memory_ok_def lock_ok_def)
  moreover have "votes_covered w (?tr @ [?x])"
    unfolding votes_covered_def
  proof (intro conjI allI impI)
    fix m assume "SignedMessage m \<in> set (?tr @ [?x])"
    then have "vote_pos m \<le> durable_pos w ?tr" using d by (auto simp: durable_ok_def votes_covered_def)
    also have "\<dots> \<le> node_pos s" using mem by (simp add: memory_ok_def)
    finally show "vote_pos m \<le> durable_pos w (?tr @ [?x])" using pos by (simp del: store_of_snoc)
  next
    fix r v assume "signed_vote (?tr @ [?x]) Precommit (last_block w (?tr @ [?x]) + 1) r (Some v)"
    then have "signed_vote ?tr Precommit (last_block w ?tr + 1) r (Some v)" by (simp add: votes)
    then obtain L where L: "durable_lock w ?tr = Some L" "r \<le> L" using d by (auto simp: durable_ok_def votes_covered_def)
    with mem obtain L' where "getLockedRound s = Some L'" "L \<le> L'" by (auto simp: memory_ok_def)
    with L(2) lock show "\<exists>L. durable_lock w (?tr @ [?x]) = Some L \<and> r \<le> L" by (auto simp del: store_of_snoc)
  qed
  ultimately have "durable_ok w (?tr @ [?x])"
    using d votes unfolding durable_ok_def
    by (auto simp: votes_justified_same_votes one_value_same_votes intro!: commits_justified_snoc)
  moreover have "memory_ok w (persistState s)"
    unfolding persistState_def using mem pos lock
    by (intro memory_ok_emit) (simp_all add: persistState_def, metis order_refl)
  ultimately show "node_inv w (persistState s)" using tr by (simp add: node_inv_def trace_ok_snoc)
qed

section \<open>Signing\<close>

text \<open>When a node may sign votes of type \<open>t\<close> for \<open>h\<close> at its position.\<close>

definition may_sign :: "world \<Rightarrow> message_type \<Rightarrow> string option \<Rightarrow> node \<Rightarrow> bool" where
  "may_sign w t h s \<longleftrightarrow> node_inv w s \<and> durable_pos w (nd_trace s) = node_pos s
     \<and> (t = Prevote \<or> t = Precommit) \<and> vote_number t = step_number (nd_step s)
     \<and> (\<forall>h'. signed_vote (nd_trace s) t (nd_blockNumber s) (nd_round s) h' \<longrightarrow> h' = h)
     \<and> (t = Precommit \<longrightarrow> (\<forall>v. h = Some v \<longrightarrow> durable_lock w (nd_trace s) = Some (nd_round s)
          \<and> prevote_quorum w (nd_trace s) (nd_blockNumber s) (nd_round s) v))
     \<and> (t = Prevote \<longrightarrow> (\<forall>v v' r. h = Some v' \<longrightarrow> signed_vote (nd_trace s) Precommit (nd_blockNumber s) r (Some v) \<longrightarrow>
          r < nd_round s \<longrightarrow> (\<exists>k. r \<le> k \<and> k < nd_round s \<and> polka w (nd_trace s) (nd_blockNumber s) k v')))"

lemma signed_vote_new: "signed_vote (tr @ [SignedMessage m]) t n r h \<longleftrightarrow>
   signed_vote tr t n r h \<or> (mg_type m = t \<and> mg_blockNumber m = n \<and> mg_round m = r \<and> mg_blockHash m = h)"
  by (auto simp: signed_vote_def)

lemma signed_vote_save [simp]: "signed_vote (tr @ [SaveState d]) t n r h = signed_vote tr t n r h"
  by (auto simp: signed_vote_def)

lemma stored_state_signed [simp]: "stored_state w (tr @ [SignedMessage m]) = stored_state w tr"
  by (rule stored_state_cong) simp_all

definition vote_of :: "message_type \<Rightarrow> string option \<Rightarrow> node \<Rightarrow> message \<Rightarrow> bool" where
  "vote_of t h s m \<longleftrightarrow> mg_type m = t \<and> mg_blockNumber m = nd_blockNumber s \<and> mg_round m = nd_round s
     \<and> mg_blockHash m = h"

lemma signed_vote_pos:
  "votes_covered w tr \<Longrightarrow> signed_vote tr t n r h \<Longrightarrow> (n, r, vote_number t) \<le> durable_pos w tr"
  by (auto simp: votes_covered_def signed_vote_def vote_pos_def)

lemma may_sign_justified:
  assumes "may_sign w t h s" and "vote_of t h s m"
  shows "votes_justified w (nd_trace s @ [SignedMessage m])"
proof -
  let ?tr = "nd_trace s" and ?tr' = "nd_trace s @ [SignedMessage m]"
  from assms(1) have d: "durable_ok w ?tr" by (simp add: may_sign_def node_inv_def trace_ok_durable)
  then have old: "votes_justified w ?tr" and cov: "votes_covered w ?tr" by (simp_all add: durable_ok_def)
  show ?thesis
    unfolding votes_justified_def
  proof (intro conjI allI impI)
    fix n r v assume "signed_vote ?tr' Precommit n r (Some v)"
    then have "prevote_quorum w ?tr n r v"
      using old assms by (auto simp: signed_vote_new votes_justified_def may_sign_def vote_of_def)
    then show "prevote_quorum w ?tr' n r v" by (rule snoc_monos)
  next
    fix n r r' v v'
    assume pc: "signed_vote ?tr' Precommit n r (Some v)" and pv: "signed_vote ?tr' Prevote n r' (Some v')" and lt: "r < r'"
    have "\<exists>k\<ge>r. k < r' \<and> polka w ?tr n k v'"
    proof (cases "signed_vote ?tr Prevote n r' (Some v')")
      case True
      have "signed_vote ?tr Precommit n r (Some v)"
      proof (rule ccontr)
        assume "\<not> ?thesis"
        with pc assms(2) have "n = nd_blockNumber s" "r = nd_round s" "t = Precommit"
          by (auto simp: signed_vote_new vote_of_def)
        moreover have "(n, r', 1) \<le> node_pos s"
          using signed_vote_pos [OF cov True] assms(1) by (simp add: may_sign_def)
        ultimately show False using lt by (simp add: node_pos_def)
      qed
      with True lt old show ?thesis unfolding votes_justified_def by blast
    next
      case False
      with pv assms(2) have new: "t = Prevote" "h = Some v'" "n = nd_blockNumber s" "r' = nd_round s"
        by (auto simp: signed_vote_new vote_of_def)
      with pc assms(2) have "signed_vote ?tr Precommit n r (Some v)" by (auto simp: signed_vote_new vote_of_def)
      with new lt assms(1) show ?thesis unfolding may_sign_def by blast
    qed
    then show "\<exists>k\<ge>r. k < r' \<and> polka w ?tr' n k v'" using snoc_monos(4) by blast
  qed
qed

lemma sign_one:
  assumes "may_sign w t h s" and "vote_of t h s m"
  shows "may_sign w t h (emit (SignedMessage m) s)"
proof -
  let ?tr = "nd_trace s" and ?tr' = "nd_trace s @ [SignedMessage m]"
  from assms(1) have mem: "memory_ok w s" and tr: "trace_ok w ?tr" and d: "durable_ok w ?tr"
    and pos: "durable_pos w ?tr = node_pos s" by (simp_all add: may_sign_def node_inv_def trace_ok_durable)
  have m: "vote_pos m = node_pos s"
    using assms by (auto simp: vote_pos_def node_pos_def may_sign_def vote_of_def)
  have "one_value ?tr'"
    using d assms unfolding one_value_def durable_ok_def may_sign_def vote_of_def signed_vote_new by metis
  moreover have "readable w ?tr'" using d by (intro readable_snoc) (auto simp: durable_ok_def)
  moreover have "store_numbers_ok w ?tr'" using d by (simp add: durable_ok_def store_numbers_ok_def)
  moreover have "votes_covered w ?tr'"
    using d m pos assms mem
    by (auto simp: durable_ok_def votes_covered_def signed_vote_new may_sign_def vote_of_def memory_ok_def)
  moreover have "commits_justified w ?tr'" using d by (intro commits_justified_snoc) (auto simp: durable_ok_def)
  ultimately have "durable_ok w ?tr'" using may_sign_justified [OF assms] by (simp add: durable_ok_def)
  moreover have "memory_ok w (emit (SignedMessage m) s)"
    using mem by (intro memory_ok_emit) (auto simp: memory_ok_def)
  ultimately have "node_inv w (emit (SignedMessage m) s)" using tr by (simp add: node_inv_def trace_ok_snoc)
  moreover have "r < nd_round s \<Longrightarrow> signed_vote ?tr' Precommit (nd_blockNumber s) r (Some v) \<Longrightarrow>
      signed_vote ?tr Precommit (nd_blockNumber s) r (Some v)" for r v
    using assms(2) by (auto simp: signed_vote_new vote_of_def)
  ultimately show ?thesis
    using assms snoc_monos(2,4) [of w ?tr]
    unfolding may_sign_def by (simp add: vote_of_def) (metis signed_vote_new)
qed

section \<open>The environment\<close>

text \<open>What the safety of a node asks of the services: the milestones are those of the network, a message
  is made as asked and can be read back from its bytes, a validator index is one of the round, and
  the block in a payload is the one whose header the proposal was made with.\<close>

definition world_ok :: "world \<Rightarrow> bool" where
  "world_ok w \<longleftrightarrow> (\<forall>b p. wd_makeProposal w b = Inr p \<longrightarrow> proposal_ok w p)"

definition env_ok :: "world \<Rightarrow> env \<Rightarrow> bool" where
  "env_ok w e \<longleftrightarrow> ev_milestoneValidators e = wd_validators w
     \<and> (\<forall>s t i n r h m. ev_makeMessage e s t i n r h = Inr m \<longrightarrow>
          mg_type m = t \<and> mg_validatorIndex m = i \<and> mg_blockNumber m = n \<and> mg_round m = r \<and> mg_blockHash m = h
          \<and> wd_makeMessage w (mg_serialized m) = Inr m)
     \<and> (\<forall>s a i. ev_validatorIndex e s a = Inr i \<longrightarrow> i < wd_validators w (nd_blockNumber s))
     \<and> (\<forall>b pl. ev_makePayload e b = Inr pl \<longrightarrow> bh_hash (bk_header (pl_block pl)) = wd_payloadHash w b)"

lemma own_validators_in_range:
  "env_ok w e \<Longrightarrow> own_validators e s voted vs = Inr is \<Longrightarrow> \<forall>i \<in> set is. i < wd_validators w (nd_blockNumber s)"
  by (induction vs arbitrary: "is") (auto simp: env_ok_def sum_bind_Inr_iff split: if_splits)

lemma getValidators_in_range:
  "env_ok w e \<Longrightarrow> getValidators e voted s = Inr is \<Longrightarrow> \<forall>i \<in> set is. i < wd_validators w (nd_blockNumber s)"
  by (auto simp: getValidators_def sum_bind_Inr_iff dest!: own_validators_in_range)

text \<open>Other effects keep the permission to sign.\<close>

lemma may_sign_emit:
  assumes "may_sign w t h s" and "node_inv w (emit x s)" and "stored_state w (nd_trace s @ [x]) = stored_state w (nd_trace s)"
    and "\<And>m. x \<noteq> SignedMessage m"
  shows "may_sign w t h (emit x s)"
proof -
  have "signed_vote (nd_trace s @ [x]) t' n r h' = signed_vote (nd_trace s) t' n r h'" for t' n r h'
    using assms(4) by (auto simp: signed_vote_def)
  with assms(1-3) snoc_monos(2,4) [of w "nd_trace s"] show ?thesis
    unfolding may_sign_def by simp metis
qed

lemma may_sign_neutral: "neutral x \<Longrightarrow> may_sign w t h s \<Longrightarrow> may_sign w t h (emit x s)"
  by (rule may_sign_emit) (auto simp: may_sign_def intro: inv_emit_neutral)

lemma stored_state_save_message:
  assumes "node_inv w s" and "mg_blockNumber m = nd_blockNumber s"
  shows "stored_state w (nd_trace s @ [SaveMessage m]) = stored_state w (nd_trace s)"
proof -
  from assms have "store_numbers_ok w (nd_trace s)" "nd_blockNumber s = last_block w (nd_trace s) + 1"
    by (auto simp: node_inv_def memory_ok_def durable_ok_def dest: trace_ok_durable)
  with assms(2) show ?thesis by (auto simp: stored_state_def store_numbers_ok_def split: option.splits)
qed

lemma sign_votes_inv:
  assumes "env_ok w e" and "may_sign w t h s" and "\<forall>i \<in> set is. i < wd_validators w (nd_blockNumber s)"
  shows "node_inv w (outcome_state (sign_votes e t h is s))"
  using assms
proof (induction "is" arbitrary: s)
  case Nil
  then show ?case by (simp add: may_sign_def)
next
  case (Cons i "is")
  show ?case
  proof (cases "ev_makeMessage e s t i (nd_blockNumber s) (nd_round s) h")
    case (Inl err)
    with Cons.prems show ?thesis by (simp add: may_sign_def)
  next
    case (Inr m)
    with Cons.prems(1,3) have m: "vote_of t h s m" "wd_makeMessage w (mg_serialized m) = Inr m"
      "mg_blockNumber m = nd_blockNumber s" "mg_validatorIndex m < wd_validators w (mg_blockNumber m)"
      by (auto simp: env_ok_def vote_of_def)
    let ?s1 = "emit (SignedMessage m) s"
    let ?s2 = "emit (SaveMessage m) ?s1"
    have s1: "may_sign w t h ?s1" by (rule sign_one [OF Cons.prems(2) m(1)])
    have seen1: "seen (nd_trace ?s1) m" by (simp add: seen_def)
    have i1: "node_inv w ?s1" using s1 by (simp add: may_sign_def)
    have "node_inv w ?s2"
      by (rule inv_save_record [OF i1]) (use m seen1 in auto)
    with s1 have s2: "may_sign w t h ?s2"
      by (rule may_sign_emit) (use stored_state_save_message [OF i1, of m] m(3) in simp_all)
    then have "may_sign w t h (emit (ProcessMessage m) ?s2)"
      by (rule may_sign_neutral [rotated]) simp
    from Cons.IH [OF Cons.prems(1) this] Cons.prems(3) Inr show ?thesis by simp
  qed
qed

section \<open>Round states\<close>

lemma round_state_ok_created: "createRoundState vs idx ref = Inr rs \<Longrightarrow> round_state_ok w tr ref rs"
  using createRoundState_fresh [of vs idx ref rs] by (auto simp: round_state_ok_def)

lemma inv_put_round_state:
  assumes "node_inv w s" and "round_state_ok w (nd_trace s) ref rs"
    and "\<And>h. proposal_hash ref s = Some h \<Longrightarrow> map_option (\<lambda>p. bh_hash (pr_blockHeader p)) (rs_proposal rs) = Some h"
  shows "node_inv w (put_round_state ref rs s)"
proof -
  have "proposal_hash ref' (put_round_state ref rs s) = Some h" if "proposal_hash ref' s = Some h" for ref' h
    using that assms(3) [of h] by (auto simp: proposal_hash_def jsmap_simps)
  then have "lock_ok w (put_round_state ref rs s)"
    using assms(1) unfolding node_inv_def memory_ok_def lock_ok_def by fastforce
  then show ?thesis
    using assms(1,2)
    by (auto simp: node_inv_def memory_ok_def getLockedRound_def node_pos_def repo_ok_def jsmap_simps)
qed

lemma inv_round_state_created:
  assumes "node_inv w s" and "createRoundState vs idx ref = Inr rs" and "map_get (nd_repo s) ref = None"
  shows "node_inv w (put_round_state ref rs s)"
  using assms by (intro inv_put_round_state) (auto simp: round_state_ok_created proposal_hash_def)

lemma may_sign_created:
  assumes "may_sign w t h s" and "createRoundState vs idx ref = Inr rs" and "map_get (nd_repo s) ref = None"
  shows "may_sign w t h (put_round_state ref rs s)"
  using assms inv_round_state_created unfolding may_sign_def by (simp add: node_pos_def)

lemma vote_body_inv:
  assumes "env_ok w e" and "may_sign w t h s"
  shows "node_inv w (outcome_state (case getValidators e voted s of
    Inl err \<Rightarrow> Threw err s | Inr is \<Rightarrow> sign_votes e t h is s))"
proof (cases "getValidators e voted s")
  case (Inl err)
  with assms(2) show ?thesis by (simp add: may_sign_def)
next
  case (Inr "is")
  with sign_votes_inv [OF assms getValidators_in_range [OF assms(1) Inr]] show ?thesis by simp
qed

lemma vote_inv:
  assumes "env_ok w e" and "may_sign w t h s"
  shows "node_inv w (outcome_state (with_round_state e ref (\<lambda>rs s1. case getValidators e (voted rs) s1 of
    Inl err \<Rightarrow> Threw err s1 | Inr is \<Rightarrow> sign_votes e t h is s1) s))" (is "node_inv w (outcome_state (with_round_state e ref ?k s))")
proof (cases rule: with_round_state_cases [of e ref ?k s])
  case (failed err)
  with assms(2) show ?thesis by (simp add: may_sign_def)
next
  case (known rs)
  with vote_body_inv [OF assms] show ?thesis by simp
next
  case (created rs vs idx)
  with vote_body_inv [OF assms(1) may_sign_created [OF assms(2) created(2,1)]] show ?thesis by simp
qed

lemma prevote_inv: "env_ok w e \<Longrightarrow> may_sign w Prevote h s \<Longrightarrow> node_inv w (outcome_state (prevote e h s))"
  unfolding prevote_def by (rule vote_inv)

lemma precommit_inv: "env_ok w e \<Longrightarrow> may_sign w Precommit h s \<Longrightarrow> node_inv w (outcome_state (precommit e h s))"
  unfolding precommit_def by (rule vote_inv)

text \<open>After the step has been persisted nothing is signed at the new position yet.\<close>

lemma unsigned_at:
  assumes "node_inv w s" and "node_pos s < (nd_blockNumber s, nd_round s, vote_number t)"
  shows "\<not> signed_vote (nd_trace s) t (nd_blockNumber s) (nd_round s) h"
proof
  assume sv: "signed_vote (nd_trace s) t (nd_blockNumber s) (nd_round s) h"
  from assms(1) have "votes_covered w (nd_trace s)" "durable_pos w (nd_trace s) \<le> node_pos s"
    by (auto simp: node_inv_def memory_ok_def durable_ok_def dest: trace_ok_durable)
  with signed_vote_pos [OF _ sv] assms(2) show False by (meson leD order.trans)
qed

lemma node_inv_facts:
  assumes "node_inv w s"
  shows "durable_ok w (nd_trace s)" and "nd_blockNumber s = last_block w (nd_trace s) + 1"
    and "durable_pos w (nd_trace s) \<le> node_pos s"
    and "\<And>L. durable_lock w (nd_trace s) = Some L \<Longrightarrow> \<exists>L'. getLockedRound s = Some L' \<and> L \<le> L'"
    and "lock_ok w s" and "repo_ok w (nd_trace s) (nd_repo s)"
  using assms trace_ok_durable by (auto simp: node_inv_def memory_ok_def)

lemma block_precommit_locked:
  assumes "node_inv w s" and "signed_vote (nd_trace s) Precommit (nd_blockNumber s) r (Some v)"
  obtains L where "nd_lockedValue s = Some (nd_blockNumber s, L)" and "r \<le> L"
proof -
  note facts = node_inv_facts [OF assms(1)]
  from facts(1) have "votes_covered w (nd_trace s)" by (simp add: durable_ok_def)
  with assms(2) facts(2) obtain L where L: "durable_lock w (nd_trace s) = Some L" "r \<le> L"
    unfolding votes_covered_def by metis
  from facts(4) [OF L(1)] obtain L' where L': "getLockedRound s = Some L'" "L \<le> L'" by blast
  then obtain n where n: "nd_lockedValue s = Some (n, L')" by (auto simp: getLockedRound_def)
  with facts(5) have "n = nd_blockNumber s" by (simp add: lock_ok_def)
  with n L' L(2) show ?thesis by (intro that [of L']) simp_all
qed

text \<open>Entering the prevote step, and voting there.\<close>

lemma may_prevote:
  assumes "node_inv w s" and "nd_step s = Step_Propose" and "s1 = emit (Dispatched ev) (persistState (s\<lparr>nd_step := Step_Prevote\<rparr>))
      \<or> s1 = persistState (s\<lparr>nd_step := Step_Prevote\<rparr>)"
    and "\<And>r v v'. h = Some v' \<Longrightarrow> signed_vote (nd_trace s) Precommit (nd_blockNumber s) r (Some v) \<Longrightarrow> r < nd_round s \<Longrightarrow>
           \<exists>k. r \<le> k \<and> k < nd_round s \<and> polka w (nd_trace s) (nd_blockNumber s) k v'"
  shows "may_sign w Prevote h s1"
proof -
  let ?s0 = "s\<lparr>nd_step := Step_Prevote\<rparr>"
  have i0: "node_inv w ?s0" using assms(1,2) by (intro inv_step) simp_all
  note p = inv_persist [OF i0]
  have none: "\<not> signed_vote (nd_trace s) Prevote (nd_blockNumber s) (nd_round s) h'" for h'
    by (rule unsigned_at [OF assms(1)]) (simp add: node_pos_def assms(2))
  have "may_sign w Prevote h (persistState ?s0)"
    unfolding may_sign_def
  proof (intro conjI allI impI)
    fix v v' r assume "h = Some v'" "signed_vote (nd_trace (persistState ?s0)) Precommit (nd_blockNumber (persistState ?s0)) r (Some v)"
      "r < nd_round (persistState ?s0)"
    with assms(4) [of v' r v] have "\<exists>k\<ge>r. k < nd_round s \<and> polka w (nd_trace s) (nd_blockNumber s) k v'" by simp
    then show "\<exists>k\<ge>r. k < nd_round (persistState ?s0) \<and> polka w (nd_trace (persistState ?s0)) (nd_blockNumber (persistState ?s0)) k v'"
      using snoc_monos(4) by simp blast
  qed (use p none in \<open>simp_all add: node_pos_def\<close>)
  then have "may_sign w Prevote h (emit (Dispatched ev) (persistState ?s0))"
    by (rule may_sign_neutral [rotated]) simp
  with \<open>may_sign w Prevote h (persistState ?s0)\<close> assms(3) show ?thesis by blast
qed

end
