(* ===== verification/Consensus_Safety_Rules.thy ===== *)
theory Consensus_Safety_Rules
  imports Consensus_Safety
begin

text \<open>
  Every rule of \<open>consensus.ts\<close>, and with them every handler, keeps the invariant of
  \<open>Consensus_Safety\<close>. Each lemma looks at one rule: what it persists before it signs, and where the
  evidence for the vote comes from.
\<close>

section \<open>Processing a proposal\<close>

lemma round_state_ok_set_result:
  assumes "round_state_ok w tr ref rs" and "rs_proposal rs \<noteq> None"
    and "\<And>p vr. pc_success r \<Longrightarrow> rs_proposal rs = Some p \<Longrightarrow> pr_validRound p = Some vr \<Longrightarrow> LockProofVerified p \<in> set tr"
  shows "round_state_ok w tr ref (setProcessorResult r rs)"
  using assms unfolding round_state_ok_def setProcessorResult_def by simp

lemma round_state_ok_set_proposal:
  assumes "round_state_ok w tr ref rs" and "bh_number (pr_blockHeader p) = fst ref" and "proposal_ok w p"
    and "rs_processorResult rs = None"
  shows "round_state_ok w tr ref (rs\<lparr>rs_proposal := Some p\<rparr>)"
  using assms unfolding round_state_ok_def by simp

lemma deserializePayload_ok:
  assumes "env_ok w e" and "proposal_ok w p" and "deserializePayload (ev_makePayload e) p = Inr q"
  shows "proposal_ok w q"
  using deserializePayload_fields [OF assms(3)] assms(1,2) by (auto simp: proposal_ok_def env_ok_def)

lemma processProposal_inv:
  assumes "env_ok w e" and "node_inv w s"
  shows "node_inv w (processProposal e ref s)"
proof (cases "\<exists>rs p. map_get (nd_repo s) ref = Some rs \<and> rs_proposal rs = Some p \<and> \<not> hasProcessorResult rs")
  case False
  with assms(2) show ?thesis by (auto simp: processProposal_def split: option.split)
next
  case True
  then obtain rs p where rs: "map_get (nd_repo s) ref = Some rs" "rs_proposal rs = Some p" "\<not> hasProcessorResult rs" by blast
  have ok: "round_state_ok w (nd_trace s) ref rs" by (rule repo_okD [OF node_inv_facts(6) [OF assms(2)] rs(1)])
  have hash: "proposal_hash ref s = Some (bh_hash (pr_blockHeader p))" using rs by (simp add: proposal_hash_def)
  have num: "bh_number (pr_blockHeader p) = fst ref" "proposal_ok w p" using ok rs(2) by (simp_all add: round_state_ok_def)
  have none: "rs_processorResult rs = None" using rs(3) by (simp add: hasProcessorResult_def)
  have failed: "node_inv w (put_round_state ref (setProcessorResult failedProcessorResult rs') t)"
    if "node_inv w t" "round_state_ok w (nd_trace t) ref rs'" "proposal_hash ref t = Some (bh_hash (pr_blockHeader p))"
      "map_option pr_blockHeader (rs_proposal rs') = Some (pr_blockHeader p)" for rs' t
    using that by (intro inv_put_round_state round_state_ok_set_result)
      (auto simp: failedProcessorResult_def setProcessorResult_def)
  show ?thesis
  proof (cases "deserializePayload (ev_makePayload e) p")
    case (Inl err)
    with rs failed [OF assms(2) ok hash] show ?thesis by (simp add: processProposal_def)
  next
    case (Inr p1)
    let ?rs1 = "rs\<lparr>rs_proposal := Some p1\<rparr>"
    let ?s1 = "put_round_state ref ?rs1 s"
    let ?s2 = "emit (LockProofVerified p1) ?s1"
    from deserializePayload_fields [OF Inr] have p1: "pr_blockHeader p1 = pr_blockHeader p" by simp
    have ok1: "round_state_ok w (nd_trace s) ref ?rs1"
      using ok num p1 none deserializePayload_ok [OF assms(1) num(2) Inr] by (intro round_state_ok_set_proposal) simp_all
    have i1: "node_inv w ?s1" using assms(2) ok1 hash p1 by (intro inv_put_round_state) simp_all
    have i2: "node_inv w ?s2" using i1 by (intro inv_emit_neutral) simp_all
    have ok2: "round_state_ok w (nd_trace ?s2) ref ?rs1" using ok1 round_state_ok_mono [OF snoc_mono] by simp
    have h: "proposal_hash ref ?s1 = Some (bh_hash (pr_blockHeader p))" using p1 by (simp add: proposal_hash_def jsmap_simps)
    have succ: "node_inv w (put_round_state ref (setProcessorResult r ?rs1) ?s2)" for r
      using i2 h p1 ok2 by (intro inv_put_round_state round_state_ok_set_result) (simp_all add: setProcessorResult_def)
    have f1: "node_inv w (put_round_state ref (setProcessorResult failedProcessorResult ?rs1) ?s1)"
      by (rule failed [OF i1]) (use ok1 h p1 in simp_all)
    from rs Inr f1 succ show ?thesis
      by (simp add: processProposal_def Let_def split: sum.split)
  qed
qed

section \<open>Prevoting\<close>

lemma inv_dispatch: "node_inv w s \<Longrightarrow> node_inv w (emit (Dispatched ev) s)"
  by (rule inv_emit_neutral) simp_all

lemma propose_to_prevote:
  assumes "env_ok w e" and "node_inv w s" and "nd_step s = Step_Propose"
    and "\<And>r v v'. h = Some v' \<Longrightarrow> signed_vote (nd_trace s) Precommit (nd_blockNumber s) r (Some v) \<Longrightarrow> r < nd_round s \<Longrightarrow>
           \<exists>k. r \<le> k \<and> k < nd_round s \<and> polka w (nd_trace s) (nd_blockNumber s) k v'"
  shows "node_inv w (outcome_state (prevote e h (emit (Dispatched ev) (persistState (s\<lparr>nd_step := Step_Prevote\<rparr>)))))"
    and "node_inv w (outcome_state (prevote e h (persistState (s\<lparr>nd_step := Step_Prevote\<rparr>))))"
proof -
  have "may_sign w Prevote h (emit (Dispatched ev) (persistState (s\<lparr>nd_step := Step_Prevote\<rparr>)))"
    by (rule may_prevote [OF assms(2,3) disjI1 [OF refl] assms(4)])
  then show "node_inv w (outcome_state (prevote e h (emit (Dispatched ev) (persistState (s\<lparr>nd_step := Step_Prevote\<rparr>)))))"
    by (rule prevote_inv [OF assms(1)])
  have "may_sign w Prevote h (persistState (s\<lparr>nd_step := Step_Prevote\<rparr>))"
    by (rule may_prevote [OF assms(2,3) disjI2 [OF refl] assms(4)])
  then show "node_inv w (outcome_state (prevote e h (persistState (s\<lparr>nd_step := Step_Prevote\<rparr>))))"
    by (rule prevote_inv [OF assms(1)])
qed

lemma inv_enter_prevote:
  "node_inv w s \<Longrightarrow> nd_step s = Step_Propose \<Longrightarrow> node_inv w (persistState (s\<lparr>nd_step := Step_Prevote\<rparr>))"
  by (intro inv_persist inv_step) simp_all

lemma onProposal_inv:
  assumes "env_ok w e" and "node_inv w s"
  shows "node_inv w (outcome_state (onProposal e ref s))"
proof (cases "nd_step s = Step_Propose")
  case False
  with assms show ?thesis by (simp add: onProposal_def split: option.split)
next
  case True
  let ?s1 = "emit (Dispatched ''consensus.proposal.accepted'') (persistState (s\<lparr>nd_step := Step_Prevote\<rparr>))"
  have nil: "node_inv w (outcome_state (prevote e None ?s1))"
    using propose_to_prevote(1) [OF assms True, of None] by simp
  have free: "node_inv w (outcome_state (prevote e h ?s1))" if "nd_lockedValue s = None" for h
    by (rule propose_to_prevote(1) [OF assms True])
      (use that block_precommit_locked [OF assms(2)] in \<open>metis option.distinct(1)\<close>)
  have i1: "node_inv w ?s1" using assms(2) True by (intro inv_dispatch inv_enter_prevote)
  then have "node_inv w (outcome_state (and_then (dispatch e ''consensus.proposal.accepted''
      (persistState (s\<lparr>nd_step := Step_Prevote\<rparr>))) (\<lambda>s1.
         if nd_lockedValue s1 \<noteq> None then prevote e None s1
         else if isFromFuture e (pr_blockHeader p) s1 then prevote e None s1
         else case getProcessorResult rs of
                Inl err \<Rightarrow> Threw err s1
              | Inr r \<Rightarrow> prevote e (if pc_success r then Some (bh_hash (pr_blockHeader p)) else None) s1)))" for p :: proposal and rs
    by (rule after_dispatch [where P = "node_inv w"])
      (use i1 nil free in \<open>cases "nd_lockedValue s"; auto split: sum.split\<close>)
  then show ?thesis using assms(2) by (simp add: onProposal_def del: not_None_eq split: option.split)
qed

lemma onProposalLocked_inv:
  assumes "env_ok w e" and "node_inv w s"
  shows "node_inv w (outcome_state (onProposalLocked e ref s))"
proof (cases "\<exists>rs p vr. map_get (nd_repo s) ref = Some rs \<and> rs_proposal rs = Some p \<and> pr_validRound p = Some vr
    \<and> nd_step s = Step_Propose \<and> ref = current_ref s \<and> pr_lockProof p \<noteq> None \<and> vr < nd_round s")
  case False
  with assms(2) show ?thesis by (auto simp: onProposalLocked_def isCurrentRoundState_iff split: option.split)
next
  case True
  then obtain rs p vr where rs: "map_get (nd_repo s) ref = Some rs" "rs_proposal rs = Some p" "pr_validRound p = Some vr"
    and st: "nd_step s = Step_Propose" "ref = current_ref s" and p: "pr_lockProof p \<noteq> None" "vr < nd_round s" by blast
  let ?hash = "bh_hash (pr_blockHeader p)"
  let ?s1 = "emit (Dispatched ''consensus.proposal.accepted'') (persistState (s\<lparr>nd_step := Step_Prevote\<rparr>))"
  note facts = node_inv_facts [OF assms(2)]
  have ok: "round_state_ok w (nd_trace s) ref rs" by (rule repo_okD [OF facts(6) rs(1)])
  have nil: "node_inv w (outcome_state (prevote e None ?s1))"
    using propose_to_prevote(1) [OF assms st(1), of None] by simp
  have yes: "node_inv w (outcome_state (prevote e (Some ?hash) ?s1))"
    if "isAllowedByLock p vr ?s1" "getProcessorResult rs = Inr res" "pc_success res" for res
  proof (rule propose_to_prevote(1) [OF assms st(1)])
    fix r v v' assume v': "Some ?hash = Some v'" and pc: "signed_vote (nd_trace s) Precommit (nd_blockNumber s) r (Some v)"
      "r < nd_round s"
    obtain L where L: "nd_lockedValue s = Some (nd_blockNumber s, L)" "r \<le> L"
      using block_precommit_locked [OF assms(2) pc(1)] by blast
    from facts(5) L(1) st(1) obtain h where h: "L < nd_round s" "proposal_hash (nd_blockNumber s, L) s = Some h"
      "prevote_quorum w (nd_trace s) (nd_blockNumber s) L h" by (auto simp: lock_ok_def)
    have "rs_processorResult rs = Some res" using that(2) by (auto simp: getProcessorResult_def split: option.splits)
    with ok rs that(3) have "LockProofVerified p \<in> set (nd_trace s)" "bh_number (pr_blockHeader p) = nd_blockNumber s"
      using st(2) by (auto simp: round_state_ok_def current_ref_def)
    with rs(3) p have lock: "polka w (nd_trace s) (nd_blockNumber s) vr ?hash" by (auto simp: polka_def lock_verified_def)
    have "proposal_hash (nd_blockNumber s, L) ?s1 = proposal_hash (nd_blockNumber s, L) s"
      by (simp add: proposal_hash_def)
    with that(1) L(1) h(2) have "L \<le> vr \<or> h = ?hash" by (auto simp: isAllowedByLock_def)
    then show "\<exists>k. r \<le> k \<and> k < nd_round s \<and> polka w (nd_trace s) (nd_blockNumber s) k v'"
    proof
      assume "L \<le> vr"
      with L(2) p(2) lock v' show ?thesis by (intro exI [of _ vr]) simp
    next
      assume "h = ?hash"
      with L(2) h v' show ?thesis by (intro exI [of _ L]) (simp add: polka_def)
    qed
  qed
  have i1: "node_inv w ?s1" using assms(2) st by (intro inv_dispatch inv_enter_prevote)
  then have "node_inv w (outcome_state (and_then (dispatch e ''consensus.proposal.accepted''
      (persistState (s\<lparr>nd_step := Step_Prevote\<rparr>))) (\<lambda>s1.
         if \<not> isAllowedByLock p vr s1 then prevote e None s1
         else case getProcessorResult rs of
                Inl err \<Rightarrow> Threw err s1
              | Inr r \<Rightarrow> if pc_success r then prevote e (Some ?hash) s1 else prevote e None s1)))"
    by (rule after_dispatch [where P = "node_inv w"]) (use i1 nil yes in \<open>simp split: sum.split\<close>)
  with rs assms(2) show ?thesis by (simp add: onProposalLocked_def)
qed

section \<open>Precommitting\<close>

lemma may_precommit:
  assumes "node_inv w s" and "nd_step s = Step_Precommit"
    and "\<And>h'. \<not> signed_vote (nd_trace s) Precommit (nd_blockNumber s) (nd_round s) h'"
    and "\<And>v. h = Some v \<Longrightarrow> getLockedRound s = Some (nd_round s)
           \<and> prevote_quorum w (nd_trace s) (nd_blockNumber s) (nd_round s) v"
  shows "may_sign w Precommit h (persistState s)"
  using inv_persist [OF assms(1)] assms(2-4) snoc_monos(2) [of w "nd_trace s"]
  unfolding may_sign_def by (simp add: node_pos_def)

lemma precommit_after_persist:
  assumes "env_ok w e" and "may_sign w Precommit h (persistState s)"
  shows "node_inv w (outcome_state (and_then (dispatch e ev (persistState s)) (precommit e h)))"
    and "node_inv w (outcome_state (precommit e h (persistState s)))"
proof -
  have "may_sign w Precommit h (emit (Dispatched ev) (persistState s))"
    by (rule may_sign_neutral [OF _ assms(2)]) simp
  with precommit_inv [OF assms(1)] show "node_inv w (outcome_state (and_then (dispatch e ev (persistState s)) (precommit e h)))"
    by (intro after_dispatch [where P = "node_inv w"]) (auto simp: may_sign_def)
  show "node_inv w (outcome_state (precommit e h (persistState s)))" by (rule precommit_inv [OF assms])
qed

lemma nil_precommit:
  assumes "env_ok w e" and "node_inv w s" and "nd_step s = Step_Prevote"
  shows "may_sign w Precommit None (persistState (s\<lparr>nd_step := Step_Precommit\<rparr>))"
proof (rule may_precommit)
  show "node_inv w (s\<lparr>nd_step := Step_Precommit\<rparr>)" using assms by (intro inv_step) simp_all
  show "\<not> signed_vote (nd_trace (s\<lparr>nd_step := Step_Precommit\<rparr>)) Precommit
      (nd_blockNumber (s\<lparr>nd_step := Step_Precommit\<rparr>)) (nd_round (s\<lparr>nd_step := Step_Precommit\<rparr>)) h'" for h'
    using unsigned_at [OF assms(2), of Precommit h'] assms(3) by (simp add: node_pos_def)
qed simp_all

lemma onMajorityPrevoteNull_inv:
  assumes "env_ok w e" and "node_inv w s"
  shows "node_inv w (outcome_state (onMajorityPrevoteNull e ref s))"
  using assms precommit_after_persist(1) [OF assms(1) nil_precommit [OF assms]]
  by (simp add: onMajorityPrevoteNull_def)

text \<open>The prevotes behind \<open>hasMajorityPrevotes\<close> are evidence of a quorum.\<close>

lemma counted_votes_quorum:
  assumes ok: "votes_ok vs cs" and votes: "\<forall>(i, m) \<in> set vs. vote_ok w tr t ref i m"
    and maj: "isMajority (vote_count cs (Some h)) (wd_validators w (fst ref))"
  shows "vote_quorum w tr t (fst ref) (snd ref) h"
proof -
  have sub: "voters vs (Some h) \<subseteq> vote_senders w tr t (fst ref) (snd ref) h"
  proof
    fix i assume "i \<in> voters vs (Some h)"
    then obtain m where m: "(i, m) \<in> set vs" "mg_blockHash m = Some h"
      by (auto simp: voters_def dest: map_get_in_set)
    with ok have "mg_validatorIndex m = i" by (auto simp: votes_ok_def)
    with m votes show "i \<in> vote_senders w tr t (fst ref) (snd ref) h"
      by (fastforce simp: vote_senders_def vote_ok_def)
  qed
  have "isMajority (card (voters vs (Some h))) (wd_validators w (fst ref))"
    using maj votes_ok_count [OF ok] by simp
  with card_mono [OF finite_vote_senders sub] show ?thesis
    unfolding vote_quorum_def by (rule isMajority_mono [rotated])
qed

lemma majority_prevotes_quorum:
  assumes "round_state_ok w tr ref rs" and "rs_proposal rs = Some p"
    and "hasMajorityPrevotes (wd_validators w (fst ref)) rs"
  shows "prevote_quorum w tr (fst ref) (snd ref) (bh_hash (pr_blockHeader p))"
  using assms
  by (intro counted_votes_quorum [of "rs_prevotes rs" "rs_prevotesCount rs"])
    (auto simp: round_state_ok_def rs_ok_def hasMajorityPrevotes_def getPrevoteCount_def)

lemma majority_precommits_evidence:
  assumes "round_state_ok w tr ref rs" and "hasMajorityPrecommits (wd_validators w (fst ref)) rs"
    and "rs_getBlock rs = Inr b"
  shows "commit_evidence w tr (fst ref) (bh_hash (bk_header b))"
proof -
  from assms(3) obtain p pl where p: "rs_proposal rs = Some p" "pr_payload p = Some pl" "b = pl_block pl"
    by (auto simp: rs_getBlock_def split: option.splits bind_splits)
  have "vote_quorum w tr Precommit (fst ref) (snd ref) (bh_hash (pr_blockHeader p))"
    using assms(1,2) p
    by (intro counted_votes_quorum [of "rs_precommits rs" "rs_precommitsCount rs"])
      (auto simp: round_state_ok_def rs_ok_def hasMajorityPrecommits_def getPrecommitCount_def)
  moreover have "bh_hash (pr_blockHeader p) = bh_hash (bk_header b)"
    using assms(1) p by (simp add: round_state_ok_def proposal_ok_def)
  ultimately show ?thesis by (auto simp: commit_evidence_def)
qed

lemma inv_lock:
  assumes "node_inv w s" and "nd_step s = Step_Prevote" and "proposal_hash (current_ref s) s = Some h"
    and "prevote_quorum w (nd_trace s) (nd_blockNumber s) (nd_round s) h"
  shows "node_inv w (s\<lparr>nd_lockedValue := Some (current_ref s), nd_step := Step_Precommit\<rparr>)" (is "node_inv w ?t")
proof -
  note facts = node_inv_facts [OF assms(1)]
  have "lock_ok w ?t"
    using assms(3,4) proposal_hash_cong [of ?t s] by (simp add: lock_ok_def current_ref_def)
  moreover have "node_pos s \<le> node_pos ?t" using assms(2) by (auto simp: node_pos_def)
  then have "durable_pos w (nd_trace s) \<le> node_pos ?t" using facts(3) by (rule order.trans [rotated])
  moreover have "\<exists>L'. getLockedRound ?t = Some L' \<and> L \<le> L'" if "durable_lock w (nd_trace s) = Some L" for L
  proof -
    from facts(4) [OF that] obtain L' where L': "getLockedRound s = Some L'" "L \<le> L'" by blast
    then obtain n where "nd_lockedValue s = Some (n, L')" by (auto simp: getLockedRound_def)
    with facts(5) assms(2) have "L' < nd_round s" by (auto simp: lock_ok_def)
    with L'(2) show ?thesis by (simp add: getLockedRound_def current_ref_def)
  qed
  ultimately show ?thesis using assms(1) by (simp add: node_inv_def memory_ok_def)
qed

lemma onMajorityPrevote_inv:
  assumes "env_ok w e" and "node_inv w s" and "map_get (nd_repo s) ref = Some rs"
    and "hasMajorityPrevotes (wd_validators w (fst ref)) rs"
  shows "node_inv w (outcome_state (onMajorityPrevote e ref s))"
proof (cases "\<exists>p. rs_proposal rs = Some p \<and> ref = current_ref s \<and> nd_step s = Step_Prevote")
  case False
  have "node_inv w (emit (Dispatched ev) (persistState (s\<lparr>nd_didMajorityPrevote := True, nd_validValue := Some ref\<rparr>)))" for ev
    using assms(2) by (intro inv_dispatch inv_persist) simp
  with False assms(2,3) show ?thesis
    by (auto simp: onMajorityPrevote_def isCurrentRoundState_iff split: option.split sum.split)
next
  case True
  then obtain p where p: "rs_proposal rs = Some p" "ref = current_ref s" "nd_step s = Step_Prevote" by blast
  have quorum: "prevote_quorum w (nd_trace s) (nd_blockNumber s) (nd_round s) (bh_hash (pr_blockHeader p))"
    using majority_prevotes_quorum [OF repo_okD [OF node_inv_facts(6) [OF assms(2)] assms(3)] p(1) assms(4)] p(2)
    by (simp add: current_ref_def)
  let ?lock = "s\<lparr>nd_lockedValue := Some ref, nd_step := Step_Precommit\<rparr>"
  let ?t = "s\<lparr>nd_didMajorityPrevote := True, nd_lockedValue := Some ref, nd_validValue := Some ref, nd_step := Step_Precommit\<rparr>"
  have "node_inv w ?lock"
    using inv_lock [OF assms(2) p(3) _ quorum] assms(3) p by (simp add: proposal_hash_def)
  then have "node_inv w ?t" by (subst inv_cong [of _ ?lock]) simp_all
  moreover have "\<not> signed_vote (nd_trace s) Precommit (nd_blockNumber s) (nd_round s) h'" for h'
    by (rule unsigned_at [OF assms(2)]) (simp add: node_pos_def p(3))
  ultimately have "may_sign w Precommit (Some (bh_hash (pr_blockHeader p))) (persistState ?t)"
    using quorum p(2) by (intro may_precommit) (simp_all add: getLockedRound_def current_ref_def)
  from precommit_after_persist(1) [OF assms(1) this] p assms(2,3) show ?thesis
    by (simp add: onMajorityPrevote_def split: sum.split)
qed

lemma onMajorityPrevoteAny_inv: "node_inv w s \<Longrightarrow> node_inv w (outcome_state (onMajorityPrevoteAny e ref s))"
  by (simp add: onMajorityPrevoteAny_def Let_def inv_dispatch split: prod.split)

lemma onMajorityPrecommitAny_inv: "node_inv w s \<Longrightarrow> node_inv w (outcome_state (onMajorityPrecommitAny e ref s))"
  by (simp add: onMajorityPrecommitAny_def Let_def inv_dispatch split: prod.split)

section \<open>Committing and starting rounds\<close>

lemma commit_durable:
  assumes "node_inv w s" and "commit_evidence w (nd_trace s) (nd_blockNumber s) h"
  shows "durable_ok w (nd_trace s @ [CommittedBlock (nd_blockNumber s) h])"
    and "stored_state w (nd_trace s @ [CommittedBlock (nd_blockNumber s) h]) = initialState (nd_blockNumber s + 1)"
proof -
  let ?tr = "nd_trace s" and ?n = "nd_blockNumber s"
  let ?x = "CommittedBlock ?n h"
  note facts = node_inv_facts [OF assms(1)]
  from facts(1) have num: "store_numbers_ok w ?tr" and cov: "votes_covered w ?tr" by (simp_all add: durable_ok_def)
  show init: "stored_state w (?tr @ [?x]) = initialState (?n + 1)"
    using num facts(2) by (auto simp: stored_state_def store_numbers_ok_def split: option.splits)
  have votes: "signed_vote (?tr @ [?x]) t k r v = signed_vote ?tr t k r v" for t k r v by (auto simp: signed_vote_def)
  have below: "vote_pos m < (?n + 1, 0, 0)" if "SignedMessage m \<in> set ?tr" for m
  proof -
    have "vote_pos m \<le> durable_pos w ?tr" using cov that by (simp add: votes_covered_def)
    also have "\<dots> < (?n + 1, 0, 0)" using facts(2) by (simp add: state_pos_def)
    finally show ?thesis .
  qed
  have "readable w (?tr @ [?x])" using facts(1) by (intro readable_snoc) (auto simp: durable_ok_def)
  moreover have "store_numbers_ok w (?tr @ [?x])" using num facts(2) by (auto simp: store_numbers_ok_def)
  moreover have "votes_covered w (?tr @ [?x])"
    unfolding votes_covered_def init
  proof (intro conjI allI impI)
    fix m assume "SignedMessage m \<in> set (?tr @ [?x])"
    with below [of m] show "vote_pos m \<le> state_pos (initialState (?n + 1))"
      by (simp add: state_pos_def initialState_def less_imp_le)
  next
    fix r v assume "signed_vote (?tr @ [?x]) Precommit (last_block w (?tr @ [?x]) + 1) r (Some v)"
    then obtain m where "SignedMessage m \<in> set ?tr" "mg_blockNumber m = ?n + 1" by (auto simp: signed_vote_def)
    with below [of m] show "\<exists>L. sd_lockedRound (initialState (?n + 1)) = Some L \<and> r \<le> L" by (simp add: vote_pos_def)
  qed
  ultimately show "durable_ok w (?tr @ [?x])"
    using facts(1) votes assms(2) unfolding durable_ok_def
    by (auto simp: votes_justified_same_votes one_value_same_votes intro!: commits_justified_snoc)
qed

text \<open>When a node may start round \<open>r\<close> of its block.\<close>

definition may_start :: "world \<Rightarrow> nat \<Rightarrow> node \<Rightarrow> bool" where
  "may_start w r s \<longleftrightarrow> node_inv w s \<and> durable_pos w (nd_trace s) \<le> (nd_blockNumber s, r, 0)
     \<and> (\<forall>n L. nd_lockedValue s = Some (n, L) \<longrightarrow> L < r)"

lemma commitBlock_may_start:
  assumes "node_inv w s" and "commitBlock e (nd_blockNumber s) b s = Done t"
    and "commit_evidence w (nd_trace s) (nd_blockNumber s) (bh_hash (bk_header b))"
  shows "may_start w 0 t"
proof -
  let ?x = "CommittedBlock (nd_blockNumber s) (bh_hash (bk_header b))"
  from assms(2) have t: "nd_trace t = nd_trace s @ [?x]" "nd_repo t = []" "nd_blockNumber t = nd_blockNumber s + 1"
    "nd_lockedValue t = None"
    by (auto simp: commitBlock_def clear_repository_def split: option.splits)
  note d = commit_durable [OF assms(1,3)]
  have pos: "durable_pos w (nd_trace t) = (nd_blockNumber t, 0, 0)"
    using d(2) t by (simp add: state_pos_def initialState_def)
  have "trace_ok w (nd_trace t)" using assms(1) d(1) t(1) by (simp add: node_inv_def trace_ok_snoc)
  moreover have "memory_ok w t"
    unfolding memory_ok_def
  proof (intro conjI)
    show "nd_blockNumber t = last_block w (nd_trace t) + 1" using t by simp
    show "durable_pos w (nd_trace t) \<le> node_pos t" unfolding pos by (auto simp: node_pos_def)
    show "\<forall>L. durable_lock w (nd_trace t) = Some L \<longrightarrow> (\<exists>L'. getLockedRound t = Some L' \<and> L \<le> L')"
      using d(2) t(1) by (simp add: initialState_def)
  qed (use t in \<open>simp_all add: lock_ok_def repo_ok_def\<close>)
  ultimately show ?thesis using pos t by (simp add: may_start_def node_inv_def)
qed

lemma higher_round_may_start:
  assumes "node_inv w s" and "nd_round s < r"
  shows "may_start w r s"
proof -
  note facts = node_inv_facts [OF assms(1)]
  have "node_pos s \<le> (nd_blockNumber s, r, 0)" using assms(2) by (simp add: node_pos_def)
  with facts(3) have "durable_pos w (nd_trace s) \<le> (nd_blockNumber s, r, 0)" by (rule order.trans)
  moreover have "L < r" if "nd_lockedValue s = Some (n, L)" for n L
    using facts(5) that assms(2) by (auto simp: lock_ok_def)
  ultimately show ?thesis using assms(1) by (simp add: may_start_def)
qed

lemma enter_round_inv:
  assumes "may_start w r s"
  shows "node_inv w (enter_round r s)"
proof -
  let ?t = "s\<lparr>nd_round := r, nd_step := Step_Propose, nd_didMajorityPrevote := False, nd_didMajorityPrecommit := False,
     nd_didMajorityPrecommitWithoutProposal := False\<rparr>"
  from assms have inv: "node_inv w s" by (simp add: may_start_def)
  note facts = node_inv_facts [OF inv]
  have "lock_ok w ?t"
    using facts(5) assms proposal_hash_cong [of ?t s] by (auto simp: lock_ok_def may_start_def)
  moreover have "durable_pos w (nd_trace s) \<le> node_pos ?t" using assms by (simp add: may_start_def node_pos_def)
  ultimately have "node_inv w ?t" using inv by (simp add: node_inv_def memory_ok_def getLockedRound_def)
  then show ?thesis using inv_persist(1) [of w ?t] by (auto simp: enter_round_def Let_def)
qed

lemma begin_tail_inv:
  assumes "node_inv w s"
  shows "node_inv w (outcome_state (begin_tail e rs s))"
proof -
  have "node_inv w (outcome_state (prepareProposal e rs t)) = node_inv w t" for t
    by (simp add: prepareProposal_def split: option.split)
  note prep = this
  have "node_inv w (outcome_state (and_then (dispatch e ev s) (\<lambda>s3.
        if nd_step s3 \<noteq> Step_Propose then Done s3
        else case getNextBlockTimestamp (ev_timeouts e s3) (ev_lastTimestamp e s3) (nd_roundStartTime s3) (nd_round s3) of
               Inl err \<Rightarrow> Threw err s3
             | Inr timestamp \<Rightarrow>
                 (let s4 = s3\<lparr>nd_scheduler := snd (scheduleTimeoutBlockPrepare (ev_now e s3) timestamp (nd_scheduler s3))\<rparr>
                  in if ev_pendingCommit e s4 (nd_blockNumber s4) then Done s4 else prepareProposal e rs s4))))" for ev
    by (rule after_dispatch [where P = "node_inv w"])
      (simp_all add: inv_dispatch [OF assms] prep Let_def split: sum.split)
  with assms show ?thesis by (simp add: begin_tail_def)
qed

lemma begin_head_inv: "node_inv w s \<Longrightarrow> node_inv w (begin_head e s)"
  unfolding begin_head_def by (rule inv_emit_neutral) simp_all

lemma with_round_state_inv:
  assumes "node_inv w s" and "\<And>rs t. node_inv w t \<Longrightarrow> map_get (nd_repo t) ref = Some rs \<Longrightarrow> current_ref t = current_ref s
    \<Longrightarrow> node_inv w (outcome_state (k rs t))"
  shows "node_inv w (outcome_state (with_round_state e ref k s))"
  by (rule with_round_state_keeps [where P = "node_inv w"]) (use assms inv_round_state_created in blast)+

lemma beginRound_inv: "node_inv w s \<Longrightarrow> node_inv w (outcome_state (beginRound e s))"
  unfolding beginRound_split
  by (auto intro!: with_round_state_inv begin_head_inv begin_tail_inv)

lemma startRound_with_inv:
  assumes "may_start w r s" and "\<And>ref t. node_inv w t \<Longrightarrow> node_inv w (outcome_state (apply ref t))"
  shows "node_inv w (outcome_state (startRound_with apply e r s))"
  unfolding startRound_with_def
proof (rule and_then_keeps [where P = "node_inv w"])
  show "node_inv w (outcome_state (beginRound e (enter_round r s)))"
    using assms(1) by (intro beginRound_inv enter_round_inv)
next
  fix t assume "node_inv w t"
  moreover have "node_inv w (outcome_state (with_round_state e (current_ref t) (\<lambda>rs. apply (current_ref t)) t))"
    if "node_inv w t" using that assms(2) by (intro with_round_state_inv) simp_all
  ultimately show "node_inv w (outcome_state (if nd_isDisposed t then Done t
      else with_round_state e (current_ref t) (\<lambda>rs. apply (current_ref t)) t))" by simp
qed

lemma onMajorityPrecommit_inv:
  assumes "node_inv w s" and "\<And>t. may_start w 0 t \<Longrightarrow> node_inv w (outcome_state (start 0 t))"
    and "\<And>bl. un_block u = Inr bl \<Longrightarrow> un_blockNumber u = nd_blockNumber s \<Longrightarrow>
           commit_evidence w (nd_trace s) (nd_blockNumber s) (bh_hash (bk_header bl))"
  shows "node_inv w (outcome_state (onMajorityPrecommit start e u b s))"
proof -
  have commit: "node_inv w (outcome_state (and_then (commitBlock e (nd_blockNumber t) bl t) (start 0)))"
    if "node_inv w t" "commit_evidence w (nd_trace t) (nd_blockNumber t) (bh_hash (bk_header bl))" for t bl
  proof (cases "commitBlock e (nd_blockNumber t) bl t")
    case (Done t')
    with commitBlock_may_start [OF that(1) Done that(2)] assms(2) show ?thesis by simp
  next
    case (Threw err t')
    then show ?thesis using that by (auto simp: commitBlock_def split: option.splits)
  qed
  have "node_inv w (outcome_state (and_then (dispatch e ev t) (\<lambda>s2. and_then (commitBlock e (nd_blockNumber t) bl s2) (start 0))))"
    if "node_inv w t" "commit_evidence w (nd_trace t) (nd_blockNumber t) (bh_hash (bk_header bl))" for ev t bl
    using commit [of "emit (Dispatched ev) t" bl] that snoc_monos(5) [of w "nd_trace t"]
    by (intro after_dispatch [where P = "node_inv w"]) (simp_all add: inv_dispatch)
  from this [of "s\<lparr>nd_didMajorityPrecommit := True\<rparr>"] this [of s] assms(1,3) show ?thesis
    by (simp add: onMajorityPrecommit_def Let_def split: sum.split)
qed

section \<open>All rules together\<close>

lemma rule_if_inv:
  "node_inv w s \<Longrightarrow> (\<And>rs. map_get (nd_repo s) ref = Some rs \<Longrightarrow> test rs \<Longrightarrow> node_inv w (outcome_state (h rs s)))
   \<Longrightarrow> node_inv w (outcome_state (rule_if test ref h s))"
  by (simp add: rule_if_def split: option.split)

lemma rules_until_precommit_inv:
  assumes "env_ok w e" and "node_inv w s"
  shows "node_inv w (outcome_state (rules_until_precommit e ref s))"
proof -
  have rv: "ev_milestoneValidators e = wd_validators w" using assms(1) by (simp add: env_ok_def)
  show ?thesis
    unfolding rules_until_precommit_def Let_def rv
    by (intro and_then_keeps [where P = "node_inv w"] rule_if_inv onMajorityPrevote_inv [OF assms(1)]
        onMajorityPrevoteAny_inv onMajorityPrevoteNull_inv [OF assms(1)] onMajorityPrecommitAny_inv
        onProposal_inv [OF assms(1)] onProposalLocked_inv [OF assms(1)] processProposal_inv [OF assms(1)] assms(2))
qed

lemma rules_from_precommit_inv:
  assumes "env_ok w e" and "node_inv w s" and "\<And>r t. may_start w r t \<Longrightarrow> node_inv w (outcome_state (start r t))"
  shows "node_inv w (outcome_state (rules_from_precommit start e ref s))"
proof -
  have rv: "ev_milestoneValidators e = wd_validators w" using assms(1) by (simp add: env_ok_def)
  show ?thesis
    unfolding rules_from_precommit_def Let_def rv
  proof (intro and_then_keeps [where P = "node_inv w"] rule_if_inv onMajorityPrecommit_inv)
    fix rs bl
    assume rs: "map_get (nd_repo s) ref = Some rs" "hasMajorityPrecommits (wd_validators w (fst ref)) rs"
      and u: "un_block (round_state_unit ref rs) = Inr bl" "un_blockNumber (round_state_unit ref rs) = nd_blockNumber s"
    from majority_precommits_evidence [OF repo_okD [OF node_inv_facts(6) [OF assms(2)] rs(1)] rs(2), of bl] u
    show "commit_evidence w (nd_trace s) (nd_blockNumber s) (bh_hash (bk_header bl))"
      by (simp add: round_state_unit_def)
  next
    fix t assume "node_inv w t"
    then show "node_inv w (outcome_state (Done (onMajorityPrecommitWithoutProposal ref t)))"
      by (simp add: onMajorityPrecommitWithoutProposal_def)
  next
    fix t assume "node_inv w t"
    then show "node_inv w (outcome_state (onMinorityWithHigherRound start ref t))"
      using assms(3) higher_round_may_start by (simp add: onMinorityWithHigherRound_def)
  qed (use assms in auto)
qed

lemma applyRules_inv:
  "env_ok w e \<Longrightarrow> node_inv w s \<Longrightarrow> node_inv w (outcome_state (applyRules e fuel ref s))"
proof (induction fuel arbitrary: ref s)
  case (Suc fuel)
  have start: "may_start w r t \<Longrightarrow> node_inv w (outcome_state (startRound_with (applyRules e fuel) e r t))" for r t
    by (rule startRound_with_inv) (use Suc in auto)
  have "node_inv w (outcome_state (and_then (rules_until_precommit e ref s)
      (rules_from_precommit (startRound_with (applyRules e fuel) e) e ref)))"
    by (intro and_then_keeps [where P = "node_inv w"] rules_until_precommit_inv rules_from_precommit_inv start Suc.prems)
  with Suc.prems(2) show ?case by (simp add: applyRules_with_split)
qed simp

lemma startRound_inv: "env_ok w e \<Longrightarrow> may_start w r s \<Longrightarrow> node_inv w (outcome_state (startRound e fuel r s))"
  unfolding startRound_def by (rule startRound_with_inv) (auto intro: applyRules_inv)

section \<open>Handlers\<close>

lemma handle_inv: "env_ok w e \<Longrightarrow> node_inv w s \<Longrightarrow> node_inv w (outcome_state (handle e ref s))"
  by (simp add: handle_def Let_def applyRules_inv)

lemma processBlock_commit [simp]: "cs_commit (processBlock e cs s) = cs_commit cs"
  by (simp add: processBlock_def split: sum.split)

lemma handleCommitState_inv:
  assumes "env_ok w e" and "node_inv w s"
    and "commit_evidence w (nd_trace s) (bh_number (bk_header (cm_block (cs_commit cs))))
           (bh_hash (bk_header (cm_block (cs_commit cs))))"
  shows "node_inv w (outcome_state (snd (handleCommitState e cs s)))"
proof -
  have "node_inv w (outcome_state (onMajorityPrecommit (startRound e handler_fuel) e
      (commit_state_unit (processBlock e cs s)) False s))"
    by (rule onMajorityPrecommit_inv [OF assms(2) startRound_inv [OF assms(1)]])
      (use assms(3) in \<open>simp_all add: commit_state_unit_def\<close>)
  with assms(2) show ?thesis by (simp add: handleCommitState_def Let_def)
qed

lemma onTimeoutPropose_inv:
  assumes "env_ok w e" and "node_inv w s"
  shows "node_inv w (outcome_state (onTimeoutPropose e n r s))"
  using assms propose_to_prevote(2) [OF assms, of None] by (simp add: onTimeoutPropose_def)

lemma onTimeoutPrevote_inv:
  assumes "env_ok w e" and "node_inv w s"
  shows "node_inv w (outcome_state (onTimeoutPrevote e n r s))"
proof -
  have step: "node_inv w (outcome_state (case logPrevotes gv rs of Inl err \<Rightarrow> Threw err t
      | Inr _ \<Rightarrow> precommit e None (persistState (t\<lparr>nd_step := Step_Precommit\<rparr>))))"
    if "node_inv w t" "nd_step t = Step_Prevote" for t gv rs
    using that precommit_after_persist(2) [OF assms(1) nil_precommit [OF assms(1) that]] by (simp split: sum.split)
  have "node_inv w (outcome_state (with_round_state e (current_ref s) (\<lambda>rs s1.
        case logPrevotes (ev_getValidator e s1) rs of
          Inl err \<Rightarrow> Threw err s1
        | Inr _ \<Rightarrow> precommit e None (persistState (s1\<lparr>nd_step := Step_Precommit\<rparr>))) s))" (is "node_inv w (outcome_state (with_round_state e ?ref ?k s))")
    if st: "nd_step s = Step_Prevote"
  proof (cases rule: with_round_state_cases [of e ?ref ?k s])
    case (failed err)
    then show ?thesis using assms(2) by simp
  next
    case (known rs)
    then show ?thesis using step [OF assms(2) st] by simp
  next
    case (created rs vs idx)
    then show ?thesis using step [OF inv_round_state_created [OF assms(2) created(2,1)]] st by simp
  qed
  with assms(2) show ?thesis by (simp add: onTimeoutPrevote_def)
qed

lemma onTimeoutPrecommit_inv:
  assumes "env_ok w e" and "node_inv w s"
  shows "node_inv w (outcome_state (onTimeoutPrecommit e n r s))"
  using assms
  by (auto simp: onTimeoutPrecommit_def split: sum.split
      intro!: with_round_state_inv startRound_inv higher_round_may_start)

lemma onTimeoutBlockPrepare_inv: "node_inv w s \<Longrightarrow> node_inv w (snd (onTimeoutBlockPrepare e s))"
  by (simp add: onTimeoutBlockPrepare_def)

lemma onTimeoutBlockPrepare_resume_inv:
  assumes "node_inv w s" and "\<And>p. result = Some p \<Longrightarrow> bh_number (pr_blockHeader p) = nd_blockNumber s
      \<and> (\<exists>q. wd_makeProposal w (pr_serialized p) = Inr q)"
  shows "node_inv w (onTimeoutBlockPrepare_resume promise result s)"
proof (cases result)
  case None
  with assms(1) show ?thesis by (simp add: onTimeoutBlockPrepare_resume_def Let_def)
next
  case (Some p)
  let ?s1 = "s\<lparr>nd_proposalPromise := None\<rparr>"
  have "node_inv w (emit (SaveProposal p) ?s1)"
    by (rule inv_save_record) (use assms Some in auto)
  then have "node_inv w (emit (ProcessProposal p) (emit (Dispatched ''consensus.proposed'') (emit (SaveProposal p) ?s1)))"
    by (simp add: inv_emit_neutral)
  with Some assms(1) show ?thesis by (simp add: onTimeoutBlockPrepare_resume_def Let_def)
qed

end
