(* ===== verification/Consensus_Reach.thy ===== *)
theory Consensus_Reach
  imports Consensus_Safety_Rules
begin

text \<open>
  The reachable states of a node: any interleaving of handlers, timeouts, arriving messages,
  proposals and commits, with crashes at any effect and restarts through the bootstrapper.

  \<open>reach w base s\<close>: the node is in state \<open>s\<close>, and \<open>base\<close> is the trace at the start of the last
  handler, the part no crash can take back. The invariant of \<open>Consensus_Safety\<close> holds in every
  reachable state; the theorems are what it says about the votes signed and the blocks committed.
\<close>

section \<open>Messages and proposals\<close>

definition verified_message :: "world \<Rightarrow> node \<Rightarrow> message \<Rightarrow> bool" where
  "verified_message w s m \<longleftrightarrow> mg_blockNumber m = nd_blockNumber s \<and> wd_makeMessage w (mg_serialized m) = Inr m
     \<and> mg_validatorIndex m < wd_validators w (mg_blockNumber m)"

lemma addPrevote_Done:
  "addPrevote m rs = Done rs1 \<Longrightarrow> rs_prevotes rs1 = rs_prevotes rs @ [(mg_validatorIndex m, m)]
    \<and> rs_precommits rs1 = rs_precommits rs \<and> rs_proposal rs1 = rs_proposal rs \<and> rs_processorResult rs1 = rs_processorResult rs"
  by (auto simp: addPrevote_def increasePrevoteCount_def map_set_fresh split: if_splits)

lemma addPrecommit_Done:
  "addPrecommit m rs = Done rs1 \<Longrightarrow> rs_precommits rs1 = rs_precommits rs @ [(mg_validatorIndex m, m)]
    \<and> rs_prevotes rs1 = rs_prevotes rs \<and> rs_proposal rs1 = rs_proposal rs \<and> rs_processorResult rs1 = rs_processorResult rs"
  by (auto simp: addPrecommit_def increasePrecommitCount_def map_set_fresh split: if_splits)

lemma addMessage_round_state_ok:
  assumes "round_state_ok w tr ref rs" and "addMessage m rs = Done rs1"
    and "vote_ok w tr (mg_type m) ref (mg_validatorIndex m) m"
  shows "round_state_ok w tr ref rs1 \<and> rs_proposal rs1 = rs_proposal rs"
proof -
  have ok: "rs_ok rs1" using addMessage_rs_ok [of rs m] assms(1,2) by (simp add: round_state_ok_def)
  consider "mg_type m = Prevote" "addPrevote m rs = Done rs1" | "mg_type m = Precommit" "addPrecommit m rs = Done rs1"
    using assms(2) by (auto simp: addMessage_def split: message_type.splits)
  then show ?thesis
  proof cases
    case 1
    with addPrevote_Done [OF 1(2)] assms(1,3) ok show ?thesis unfolding round_state_ok_def by simp
  next
    case 2
    with addPrecommit_Done [OF 2(2)] assms(1,3) ok show ?thesis unfolding round_state_ok_def by simp
  qed
qed

lemma emit_put_round_state: "emit x (put_round_state ref rs s) = put_round_state ref rs (emit x s)"
  by (simp add: emit_def put_round_state_def)

lemma proposal_hash_known:
  "map_get (nd_repo s) ref = Some rs \<Longrightarrow> proposal_hash ref s = map_option (\<lambda>p. bh_hash (pr_blockHeader p)) (rs_proposal rs)"
  by (simp add: proposal_hash_def)

lemma handle_enqueue_inv: "node_inv w (snd (handle_enqueue ref s)) = node_inv w s"
  by (simp add: handle_enqueue_def)

lemma message_finish_inv:
  assumes "node_inv w s" and "check = Inr Check_Accepted \<Longrightarrow> verified_message w s m"
  shows "node_inv w (snd (message_finish check m s))"
proof (cases "\<exists>rs rs1. check = Inr Check_Accepted \<and> map_get (nd_repo s) (mg_blockNumber m, mg_round m) = Some rs
    \<and> isDuplicateMessage rs m = Inr False \<and> addMessage m rs = Done rs1")
  case False
  with assms(1) show ?thesis
    by (auto simp: message_finish_def Let_def split: sum.split signature_check.split option.split bool.split outcome.split)
next
  case True
  let ?ref = "(mg_blockNumber m, mg_round m)"
  let ?s1 = "emit (AddedMessage m) s"
  from True obtain rs rs1 where c: "check = Inr Check_Accepted" and rs: "map_get (nd_repo s) ?ref = Some rs"
    "isDuplicateMessage rs m = Inr False" "addMessage m rs = Done rs1" by blast
  from assms(2) [OF c] have m: "mg_blockNumber m = nd_blockNumber s" "wd_makeMessage w (mg_serialized m) = Inr m"
    "mg_validatorIndex m < wd_validators w (mg_blockNumber m)" unfolding verified_message_def by blast+
  have i1: "node_inv w ?s1" using assms(1) by (rule inv_emit_neutral [rotated]) simp
  have "round_state_ok w (nd_trace ?s1) ?ref rs"
    by (rule repo_okD [OF node_inv_facts(6) [OF i1]]) (simp add: rs(1))
  moreover have seen: "seen (nd_trace ?s1) m" by (simp add: seen_def)
  ultimately have ok: "round_state_ok w (nd_trace ?s1) ?ref rs1" "rs_proposal rs1 = rs_proposal rs"
    using addMessage_round_state_ok [OF _ rs(3)] m by (simp_all add: vote_ok_def)
  have "node_inv w (put_round_state ?ref rs1 ?s1)"
    by (rule inv_put_round_state [OF i1 ok(1)]) (simp add: proposal_hash_known [OF rs(1)] ok(2))
  then have "node_inv w (emit (SaveMessage m) (put_round_state ?ref rs1 ?s1))"
    by (rule inv_save_record) (use m seen in auto)
  with c rs show ?thesis
    by (simp add: message_finish_def Let_def handle_enqueue_inv emit_put_round_state)
qed

lemma known_or_created_inv:
  assumes "node_inv w s" and "getRoundState (createRoundState vs idx) ref (nd_repo s) = Inr (rs, repo)"
  shows "node_inv w (s\<lparr>nd_repo := repo\<rparr>)"
proof (cases "map_get (nd_repo s) ref")
  case None
  with assms(2) obtain rs' where "createRoundState vs idx ref = Inr rs'" "repo = map_set (nd_repo s) ref rs'"
    by (auto simp: getRoundState_def sum_bind_Inr_iff)
  with inv_round_state_created [OF assms(1) _ None] show ?thesis by (simp add: put_round_state_def)
next
  case (Some rs')
  with assms(2) have "repo = nd_repo s" by (simp add: getRoundState_def)
  with assms(1) show ?thesis by simp
qed

lemma message_begin_inv: "node_inv w s \<Longrightarrow> node_inv w (snd (snd (message_begin e i m pending s)))"
  by (auto simp: message_begin_def Let_def intro: known_or_created_inv split: sum.split bool.split option.split)

lemma proposal_begin_inv: "node_inv w s \<Longrightarrow> node_inv w (snd (proposal_begin e p s))"
  by (auto simp: proposal_begin_def Let_def intro: known_or_created_inv split: sum.split bool.split)

lemma addProposal_round_state_ok:
  assumes "round_state_ok w tr ref rs" and "addProposal p rs = Done rs1"
    and "bh_number (pr_blockHeader p) = fst ref" and "proposal_ok w p"
  shows "round_state_ok w tr ref rs1 \<and> rs_proposal rs = None"
proof -
  from assms(2) have rs1: "rs1 = rs\<lparr>rs_proposal := Some p\<rparr>" "rs_proposal rs = None"
    by (auto simp: addProposal_def split: if_splits)
  with assms(1) have "rs_processorResult rs = None" by (simp add: round_state_ok_def)
  with assms rs1 round_state_ok_set_proposal show ?thesis by blast
qed

lemma proposal_finish_inv:
  assumes "world_ok w" and "node_inv w s" and "bh_number (pr_blockHeader p) = nd_blockNumber s"
    and "wd_makeProposal w (pr_serialized p) = Inr p"
  shows "node_inv w (snd (proposal_finish verdict p s))"
proof (cases "\<exists>rs rs1. verdict = Inr True \<and> map_get (nd_repo s) (bh_number (pr_blockHeader p), pr_round p) = Some rs
    \<and> \<not> isDuplicateProposal rs \<and> addProposal p rs = Done rs1")
  case False
  with assms(2) show ?thesis
    by (auto simp: proposal_finish_def Let_def split: sum.split option.split bool.split outcome.split)
next
  case True
  let ?ref = "(bh_number (pr_blockHeader p), pr_round p)"
  from True obtain rs rs1 where v: "verdict = Inr True" and rs: "map_get (nd_repo s) ?ref = Some rs"
    "\<not> isDuplicateProposal rs" "addProposal p rs = Done rs1" by blast
  have ok: "round_state_ok w (nd_trace s) ?ref rs1" "rs_proposal rs = None"
    using addProposal_round_state_ok [OF repo_okD [OF node_inv_facts(6) [OF assms(2)] rs(1)] rs(3)] assms(1,4)
    by (auto simp: world_ok_def)
  have "node_inv w (put_round_state ?ref rs1 s)"
    by (rule inv_put_round_state [OF assms(2) ok(1)]) (simp add: proposal_hash_known [OF rs(1)] ok(2))
  then have "node_inv w (emit (SaveProposal p) (put_round_state ?ref rs1 s))"
    by (rule inv_save_record) (use assms(3,4) in auto)
  with v rs show ?thesis by (simp add: proposal_finish_def Let_def handle_enqueue_inv)
qed

section \<open>Restarting\<close>

definition fresh_node :: "effect list \<Rightarrow> node" where
  "fresh_node tr = \<lparr>nd_blockNumber = 1, nd_round = 0, nd_step = Step_Propose, nd_lockedValue = None,
     nd_validValue = None, nd_didMajorityPrevote = False, nd_didMajorityPrecommit = False,
     nd_didMajorityPrecommitWithoutProposal = False, nd_isDisposed = False, nd_pendingJobs = [],
     nd_proposalPromise = None, nd_promiseCount = 0, nd_roundStartTime = 0, nd_repo = [],
     nd_scheduler = idle_scheduler, nd_trace = tr\<rparr>"

text \<open>A process that starts after the trace \<open>tr\<close>: it boots from the store and the chain.\<close>

definition booted :: "world \<Rightarrow> env \<Rightarrow> effect list \<Rightarrow> state_data \<Rightarrow> node \<Rightarrow> bool" where
  "booted w e tr d s1 \<longleftrightarrow>
     bootstrap e (wd_makeMessage w) (wd_makeProposal w) (last_block w tr) (last_block w tr + 1)
       (initialize (store_of tr)) (fresh_node (tr @ [Restarted])) = (Inr d, s1)"

definition started :: "world \<Rightarrow> effect list \<Rightarrow> node \<Rightarrow> bool" where
  "started w tr s \<longleftrightarrow> (\<exists>e d s1. env_ok w e \<and> booted w e tr d s1
     \<and> s = outcome_state (run e d (restored_ref (sd_blockNumber d) (sd_lockedRound d))
             (restored_ref (sd_blockNumber d) (sd_validRound d)) s1))"

lemma stored_state_restarted [simp]: "stored_state w (tr @ [Restarted]) = stored_state w tr"
  by (rule stored_state_cong) simp_all

lemma durable_ok_restarted:
  assumes "durable_ok w tr"
  shows "durable_ok w (tr @ [Restarted])"
proof -
  have votes: "signed_vote (tr @ [Restarted]) t n r h = signed_vote tr t n r h" for t n r h
    by (auto simp: signed_vote_def)
  have "readable w (tr @ [Restarted])" using assms by (intro readable_snoc) (auto simp: durable_ok_def)
  moreover have "store_numbers_ok w (tr @ [Restarted])" using assms by (auto simp: durable_ok_def store_numbers_ok_def)
  moreover have "votes_covered w (tr @ [Restarted])" using assms votes by (simp add: durable_ok_def votes_covered_def)
  ultimately show ?thesis
    using assms votes unfolding durable_ok_def
    by (auto simp: votes_justified_same_votes one_value_same_votes intro!: commits_justified_snoc)
qed

text \<open>While the records are loaded the position is not set yet; what holds is that the round states are
  in order and the trace does not change.\<close>

definition loading :: "world \<Rightarrow> effect list \<Rightarrow> node \<Rightarrow> bool" where
  "loading w tr s \<longleftrightarrow> nd_trace s = tr
     \<and> (\<forall>ref rs. map_get (nd_repo s) ref = Some rs \<longrightarrow> round_state_ok w tr ref rs \<and> rs_processorResult rs = None)"

lemma loadingD: "loading w tr s \<Longrightarrow> map_get (nd_repo s) ref = Some rs \<Longrightarrow> round_state_ok w tr ref rs \<and> rs_processorResult rs = None"
  unfolding loading_def by blast

lemma loading_put:
  "loading w tr s \<Longrightarrow> round_state_ok w tr ref rs \<Longrightarrow> rs_processorResult rs = None \<Longrightarrow> loading w tr (put_round_state ref rs s)"
  unfolding loading_def by (auto simp: jsmap_simps)

lemma with_round_state_loading:
  assumes "loading w tr s" and "\<And>rs t. loading w tr t \<Longrightarrow> map_get (nd_repo t) ref = Some rs \<Longrightarrow> loading w tr (outcome_state (k rs t))"
  shows "loading w tr (outcome_state (with_round_state e ref k s))"
proof (rule with_round_state_keeps [where P = "loading w tr"])
  fix rs vs idx assume "createRoundState vs idx ref = Inr rs"
  with createRoundState_fresh [OF this] show "loading w tr (put_round_state ref rs s)"
    by (intro loading_put assms(1) round_state_ok_created) simp_all
qed (use assms in blast)+

lemma load_with_loading:
  assumes "loading w tr s" and "\<And>rs rs1. round_state_ok w tr ref rs \<Longrightarrow> add rs = Done rs1 \<Longrightarrow>
      round_state_ok w tr ref rs1 \<and> rs_processorResult rs1 = rs_processorResult rs"
  shows "loading w tr (outcome_state (load_with e ref add s))"
  unfolding load_with_def
proof (rule with_round_state_loading [OF assms(1)])
  fix rs t assume t: "loading w tr t" "map_get (nd_repo t) ref = Some rs"
  show "loading w tr (outcome_state (case add rs of Threw err rs1 \<Rightarrow> Threw err t | Done rs1 \<Rightarrow> Done (put_round_state ref rs1 t)))"
  proof (cases "add rs")
    case (Done rs1)
    have "round_state_ok w tr ref rs1" "rs_processorResult rs1 = None"
      using assms(2) [OF _ Done] loadingD [OF t] by simp_all
    with Done t(1) show ?thesis by (simp add: loading_put)
  qed (use t(1) in simp)
qed

lemma addProposal_result: "addProposal p rs = Done rs1 \<Longrightarrow> rs_processorResult rs1 = rs_processorResult rs"
  by (auto simp: addProposal_def split: if_splits)

lemma addMessage_result: "addMessage m rs = Done rs1 \<Longrightarrow> rs_processorResult rs1 = rs_processorResult rs"
  using addPrevote_Done [of m rs rs1] addPrecommit_Done [of m rs rs1]
  by (cases "mg_type m") (auto simp: addMessage_def)

lemma load_proposals_loading:
  "loading w tr s \<Longrightarrow> (\<forall>p \<in> set ps. bh_number (pr_blockHeader p) = n \<and> proposal_ok w p) \<Longrightarrow>
   loading w tr (outcome_state (load_proposals e n ps s))"
proof (induction ps arbitrary: s)
  case (Cons p ps)
  have "loading w tr (outcome_state (load_with e (n, pr_round p) (addProposal p) s))"
    by (rule load_with_loading [OF Cons.prems(1)])
      (use Cons.prems(2) addProposal_round_state_ok addProposal_result in fastforce)
  then show ?case using Cons by (auto intro!: and_then_keeps [where P = "loading w tr"])
qed simp

lemma load_messages_loading:
  "loading w tr s \<Longrightarrow> (\<forall>m \<in> set ms. seen tr m \<and> mg_blockNumber m = n \<and> mg_validatorIndex m < wd_validators w n) \<Longrightarrow>
   loading w tr (outcome_state (load_messages e n ms s))"
proof (induction ms arbitrary: s)
  case (Cons m ms)
  have "loading w tr (outcome_state (load_with e (n, mg_round m) (addMessage m) s))"
    by (rule load_with_loading [OF Cons.prems(1)])
      (use Cons.prems(2) addMessage_round_state_ok addMessage_result in \<open>fastforce simp: vote_ok_def\<close>)
  then show ?case using Cons by (auto intro!: and_then_keeps [where P = "loading w tr"])
qed simp

lemma parse_all_total: "(\<forall>b \<in> set bs. \<exists>x. mk b = Inr x) \<Longrightarrow> \<exists>xs. parse_all mk bs = Inr xs"
  by (induction bs) auto

text \<open>Everything in the store can be read, and what is read was seen before.\<close>

lemma readRecords_ok:
  assumes "world_ok w" and "readable w tr"
  obtains r where "readRecords (wd_makeMessage w) (wd_makeProposal w) (initialize (store_of tr)) = Inr r"
    and "sr_state r = st_state (store_of tr)" and "\<forall>p \<in> set (sr_proposals r). proposal_ok w p"
    and "\<forall>m \<in> set (sr_messages r). seen tr m \<and> mg_validatorIndex m < wd_validators w (mg_blockNumber m)"
proof -
  let ?ms = "map snd (st_messages (store_of tr))" and ?ps = "map snd (st_proposals (store_of tr))"
  have rm: "\<forall>b \<in> set ?ms. seen_bytes w tr b" and rp: "\<forall>b \<in> set ?ps. \<exists>p. wd_makeProposal w b = Inr p"
    using assms(2) by (simp_all add: readable_def)
  obtain ms where ms: "parse_all (wd_makeMessage w) ?ms = Inr ms"
    using parse_all_total [of ?ms "wd_makeMessage w"] rm unfolding seen_bytes_def by blast
  obtain ps where ps: "parse_all (wd_makeProposal w) ?ps = Inr ps"
    using parse_all_total [of ?ps "wd_makeProposal w"] rp by blast
  have "proposal_ok w p" if "p \<in> set ps" for p
    using parse_all_origin [OF ps that] assms(1) unfolding world_ok_def by blast
  moreover have "seen tr m \<and> mg_validatorIndex m < wd_validators w (mg_blockNumber m)" if "m \<in> set ms" for m
  proof -
    from parse_all_origin [OF ms that] obtain b where "b \<in> set ?ms" "wd_makeMessage w b = Inr m" by blast
    with rm show ?thesis unfolding seen_bytes_def by fastforce
  qed
  ultimately show ?thesis
    using ms ps by (intro that) (auto simp: readRecords_def getMessages_stored_def getProposals_def getState_def)
qed

lemma loadRounds_loading:
  assumes "loading w tr s" and "\<forall>p \<in> set (sr_proposals r). proposal_ok w p"
    and "\<forall>m \<in> set (sr_messages r). seen tr m \<and> mg_validatorIndex m < wd_validators w (mg_blockNumber m)"
  shows "loading w tr (outcome_state (loadRounds e n r s))"
  unfolding loadRounds_def
  by (intro and_then_keeps [where P = "loading w tr"] load_proposals_loading load_messages_loading)
    (use assms in auto)

lemma getProvenRoundState_loading:
  assumes "env_ok w e" and "loading w tr s"
  shows "loading w tr (outcome_state (getProvenRoundState e ref kind s))"
  unfolding getProvenRoundState_def
proof (rule with_round_state_loading [OF assms(2)])
  fix rs t assume t: "loading w tr t" "map_get (nd_repo t) ref = Some rs"
  then have ok: "round_state_ok w tr ref rs" and none: "rs_processorResult rs = None" using loadingD by blast+
  have put: "loading w tr (put_round_state ref (rs\<lparr>rs_proposal := Some q\<rparr>) t)"
    if "rs_proposal rs = Some p" "deserializePayload (ev_makePayload e) p = Inr q" for p q
  proof (rule loading_put [OF t(1)])
    have "proposal_ok w q" using deserializePayload_ok [OF assms(1) _ that(2)] ok that(1) by (simp add: round_state_ok_def)
    moreover have "pr_blockHeader q = pr_blockHeader p" using deserializePayload_fields [OF that(2)] by simp
    ultimately show "round_state_ok w tr ref (rs\<lparr>rs_proposal := Some q\<rparr>)"
      using ok that(1) none by (intro round_state_ok_set_proposal) (simp_all add: round_state_ok_def)
  qed (simp add: none)
  with t(1) show "loading w tr (outcome_state (case rs_proposal rs of
       None \<Rightarrow> Threw (proposal_not_stored kind) t
     | Some p \<Rightarrow>
         (case deserializePayload (ev_makePayload e) p of
            Inl err \<Rightarrow> Threw err t
          | Inr p1 \<Rightarrow>
              (let rs1 = rs\<lparr>rs_proposal := Some p1\<rparr>;
                   s2 = put_round_state ref rs1 t
               in if \<not> hasMajorityPrevotes (ev_milestoneValidators e (fst ref)) rs1
                  then Threw (prevotes_not_stored kind) s2
                  else Done s2))))"
    by (simp add: Let_def split: option.split sum.split)
qed

lemma getProvenRoundState_Done:
  assumes "getProvenRoundState e ref kind s = Done t"
  shows "\<exists>rs p. map_get (nd_repo t) ref = Some rs \<and> rs_proposal rs = Some p
    \<and> hasMajorityPrevotes (ev_milestoneValidators e (fst ref)) rs"
  using assms unfolding getProvenRoundState_def with_round_state_def
  by (auto simp: Let_def jsmap_simps split: option.splits sum.splits if_splits prod.splits)

lemma prove_round_loading:
  "env_ok w e \<Longrightarrow> loading w tr s \<Longrightarrow> loading w tr (outcome_state (prove_round e n r kind s))"
  by (auto simp: prove_round_def intro: getProvenRoundState_loading split: option.split)

lemma prove_rounds:
  assumes "env_ok w e" and "loading w tr s"
    and "and_then (prove_round e n v kv s) (prove_round e n l kl) = Done t"
  shows "loading w tr t" and "l = Some L \<Longrightarrow> \<exists>h. proposal_hash (n, L) t = Some h \<and> prevote_quorum w tr n L h"
proof -
  from assms(3) obtain u where u: "prove_round e n v kv s = Done u" "prove_round e n l kl u = Done t"
    by (cases "prove_round e n v kv s") auto
  have "loading w tr u" using prove_round_loading [OF assms(1,2), of n v kv] u(1) by simp
  then show t: "loading w tr t" using prove_round_loading [OF assms(1), of tr u n l kl] u(2) by simp
  assume "l = Some L"
  with u(2) have "getProvenRoundState e (n, L) kl u = Done t" by (simp add: prove_round_def)
  from getProvenRoundState_Done [OF this] assms(1) obtain rs p where
    rs: "map_get (nd_repo t) (n, L) = Some rs" "rs_proposal rs = Some p" "hasMajorityPrevotes (wd_validators w n) rs"
    by (auto simp: env_ok_def)
  with majority_prevotes_quorum [of w tr "(n, L)" rs p] loadingD [OF t rs(1)]
  show "\<exists>h. proposal_hash (n, L) t = Some h \<and> prevote_quorum w tr n L h"
    by (auto simp: proposal_hash_known)
qed

lemma booted_facts:
  assumes "world_ok w" and "env_ok w e" and "durable_ok w tr" and "booted w e tr d s1"
  shows "d = stored_state w tr" and "loading w (tr @ [Restarted]) s1"
    and "sd_lockedRound d = Some L \<Longrightarrow> \<exists>h. proposal_hash (last_block w tr + 1, L) s1 = Some h
           \<and> prevote_quorum w (tr @ [Restarted]) (last_block w tr + 1) L h"
proof -
  let ?n = "last_block w tr + 1" and ?tr = "tr @ [Restarted]"
  from assms(3) have rd: "readable w tr" and num: "store_numbers_ok w tr" by (simp_all add: durable_ok_def)
  obtain r where r: "readRecords (wd_makeMessage w) (wd_makeProposal w) (initialize (store_of tr)) = Inr r"
    "sr_state r = st_state (store_of tr)" "\<forall>p \<in> set (sr_proposals r). proposal_ok w p"
    and seen: "\<forall>m \<in> set (sr_messages r). seen tr m \<and> mg_validatorIndex m < wd_validators w (mg_blockNumber m)"
    using readRecords_ok [OF assms(1) rd] by blast
  have fresh: "loading w ?tr (fresh_node ?tr)" by (simp add: loading_def fresh_node_def)
  have seen': "\<forall>m \<in> set (sr_messages r). seen ?tr m \<and> mg_validatorIndex m < wd_validators w (mg_blockNumber m)"
    using seen snoc_monos(1) by blast
  have load: "loading w ?tr (outcome_state (loadRounds e ?n r (fresh_node ?tr)))"
    by (rule loadRounds_loading [OF fresh r(3) seen'])
  obtain s0 where s0: "loadRounds e ?n r (fresh_node ?tr) = Done s0"
    using assms(4) r(1) by (auto simp: booted_def bootstrap_def Let_def split: outcome.splits)
  with load have l0: "loading w ?tr s0" by simp
  have le: "sd_blockNumber d' \<le> ?n" if "st_state (store_of tr) = Some d'" for d'
    using num that by (simp add: store_numbers_ok_def)
  consider (restored) "st_state (store_of tr) = Some d" "sd_blockNumber d = ?n"
      "and_then (prove_round e ?n (sd_validRound d) ''valid'' s0) (prove_round e ?n (sd_lockedRound d) ''locked'') = Done s1"
    | (initial) "d = initialState ?n" "s1 = s0"
        "\<forall>d'. st_state (store_of tr) = Some d' \<longrightarrow> sd_blockNumber d' \<noteq> ?n"
    using assms(4) r(1,2) s0 le
    by (fastforce simp: booted_def bootstrap_def Let_def split: option.splits if_splits outcome.splits)
  then have "d = stored_state w tr \<and> loading w ?tr s1 \<and> (sd_lockedRound d = Some L \<longrightarrow>
      (\<exists>h. proposal_hash (?n, L) s1 = Some h \<and> prevote_quorum w ?tr ?n L h))"
  proof cases
    case restored
    with prove_rounds [OF assms(2) l0 restored(3)] show ?thesis by (simp add: stored_state_def)
  next
    case initial
    with l0 show ?thesis by (auto simp: stored_state_def initialState_def split: option.split)
  qed
  then show "d = stored_state w tr" and "loading w ?tr s1"
    and "sd_lockedRound d = Some L \<Longrightarrow> \<exists>h. proposal_hash (?n, L) s1 = Some h \<and> prevote_quorum w ?tr ?n L h"
    by blast+
qed

lemma started_inv:
  assumes "world_ok w" and "trace_ok w tr" and "started w tr s"
  shows "node_inv w s"
proof -
  from assms(3) obtain e d s1 where e: "env_ok w e" and b: "booted w e tr d s1"
    and s: "s = outcome_state (run e d (restored_ref (sd_blockNumber d) (sd_lockedRound d))
             (restored_ref (sd_blockNumber d) (sd_validRound d)) s1)" unfolding started_def by blast
  let ?n = "last_block w tr + 1" and ?tr = "tr @ [Restarted]"
  note d = trace_ok_durable [OF assms(2)]
  note facts = booted_facts [OF assms(1) e d b]
  let ?s2 = "s1\<lparr>nd_blockNumber := sd_blockNumber d, nd_round := sd_round d, nd_step := sd_step d,
     nd_lockedValue := restored_ref (sd_blockNumber d) (sd_lockedRound d),
     nd_validValue := restored_ref (sd_blockNumber d) (sd_validRound d)\<rparr>"
  have n: "sd_blockNumber d = ?n" using facts(1) by simp
  have tr: "nd_trace ?s2 = ?tr" using facts(2) by (simp add: loading_def)
  have lock_pos: "L < sd_round d \<or> L = sd_round d \<and> sd_step d = Step_Precommit" if "sd_lockedRound d = Some L" for L
  proof -
    from that facts(1) have "st_state (store_of tr) = Some d"
      by (auto simp: stored_state_def initialState_def split: option.splits if_splits)
    with d that show ?thesis by (auto simp: durable_ok_def store_numbers_ok_def)
  qed
  have "trace_ok w ?tr" using assms(2) durable_ok_restarted [OF d] by (simp add: trace_ok_snoc)
  moreover have "memory_ok w ?s2"
    unfolding memory_ok_def tr
  proof (intro conjI)
    show "durable_pos w ?tr \<le> node_pos ?s2" using facts(1) by (simp add: state_pos_def node_pos_def)
    show "\<forall>L. durable_lock w ?tr = Some L \<longrightarrow> (\<exists>L'. getLockedRound ?s2 = Some L' \<and> L \<le> L')"
      using facts(1) by (simp add: getLockedRound_def restored_ref_def)
    show "lock_ok w ?s2"
      unfolding lock_ok_def tr using lock_pos facts(3) n proposal_hash_cong [of ?s2 s1]
      by (auto simp: restored_ref_def)
    show "repo_ok w ?tr (nd_repo ?s2)" using facts(2) by (simp add: loading_def repo_ok_def)
  qed (simp add: n)
  ultimately have i2: "node_inv w ?s2" using tr by (simp add: node_inv_def)
  have "node_inv w (outcome_state (run e d (restored_ref (sd_blockNumber d) (sd_lockedRound d))
             (restored_ref (sd_blockNumber d) (sd_validRound d)) s1))"
    unfolding run_def
  proof (rule after_dispatch [where P = "node_inv w"])
    show i3: "node_inv w (emit (Dispatched ''consensus.bootstrapped'') ?s2)" using i2 by (rule inv_dispatch)
    have "node_inv w (outcome_state (if nd_isDisposed t then Done t
        else with_round_state e (current_ref t) (\<lambda>rs. applyRules e handler_fuel (current_ref t)) t))" if "node_inv w t" for t
    proof (cases "nd_isDisposed t")
      case False
      have "node_inv w (outcome_state (with_round_state e (current_ref t) (\<lambda>rs. applyRules e handler_fuel (current_ref t)) t))"
        using that e by (intro with_round_state_inv applyRules_inv)
      with False show ?thesis by simp
    qed (simp add: that)
    then show "node_inv w (outcome_state (and_then (beginRound e (emit (Dispatched ''consensus.bootstrapped'') ?s2)) (\<lambda>s2.
        if nd_isDisposed s2 then Done s2
        else with_round_state e (current_ref s2) (\<lambda>rs. applyRules e handler_fuel (current_ref s2)) s2)))"
      by (intro and_then_keeps [where P = "node_inv w"] beginRound_inv i3)
  qed
  with s show ?thesis by simp
qed

section \<open>Reachable states\<close>

text \<open>A downloaded commit takes two steps: the batch it is part of passes the checks, which the trace records for each
  commit, and later the commit goes to the commit processor; other steps may come between.\<close>

definition commit_marker :: "commit \<Rightarrow> effect" where
  "commit_marker c = CommitProofVerified (bh_number (bk_header (cm_block c))) (cp_round (cm_proof c)) (bh_hash (bk_header (cm_block c)))"

lemma commit_process_state:
  assumes "P s" and "\<And>cs. cs_commit cs = c \<Longrightarrow> P (outcome_state (snd (handleCommitState e cs s)))"
  shows "P (snd (commit_process e c s))"
proof -
  have "cs_commit cs = c" if "configure_commit_state vs c = Inr cs" for vs cs
    using that by (auto simp: configure_commit_state_def sum_bind_Inr_iff split: sum.splits)
  then show ?thesis using assms
    by (auto simp: commit_process_def split: sum.split prod.split outcome.split option.split) (metis outcome_state.simps snd_conv)+
qed

inductive node_step :: "world \<Rightarrow> node \<Rightarrow> node \<Rightarrow> bool" for w where
  step_handle: "env_ok w e \<Longrightarrow> node_step w s (outcome_state (handle e ref s))"
| step_verify_commit: "verify_batch (signed_commit w) number previous commits = Inr verified \<Longrightarrow> c \<in> set verified \<Longrightarrow>
    node_step w s (emit (commit_marker c) s)"
| step_commit: "env_ok w e \<Longrightarrow> verify_batch (signed_commit w) number previous commits = Inr verified \<Longrightarrow>
    c \<in> set verified \<Longrightarrow> commit_marker c \<in> set (nd_trace s) \<Longrightarrow> node_step w s (snd (commit_process e c s))"
| step_timeout_propose: "env_ok w e \<Longrightarrow> node_step w s (outcome_state (onTimeoutPropose e n r s))"
| step_timeout_prevote: "env_ok w e \<Longrightarrow> node_step w s (outcome_state (onTimeoutPrevote e n r s))"
| step_timeout_precommit: "env_ok w e \<Longrightarrow> node_step w s (outcome_state (onTimeoutPrecommit e n r s))"
| step_block_prepare: "env_ok w e \<Longrightarrow> node_step w s (snd (onTimeoutBlockPrepare e s))"
| step_block_prepared: "(\<And>p. result = Some p \<Longrightarrow> bh_number (pr_blockHeader p) = nd_blockNumber s
      \<and> (\<exists>q. wd_makeProposal w (pr_serialized p) = Inr q)) \<Longrightarrow>
    node_step w s (onTimeoutBlockPrepare_resume promise result s)"
| step_message_begin: "env_ok w e \<Longrightarrow> node_step w s (snd (snd (message_begin e i m pending s)))"
| step_message_finish: "(check = Inr Check_Accepted \<Longrightarrow> verified_message w s m) \<Longrightarrow>
    node_step w s (snd (message_finish check m s))"
| step_proposal_begin: "env_ok w e \<Longrightarrow> node_step w s (snd (proposal_begin e p s))"
| step_proposal_finish: "bh_number (pr_blockHeader p) = nd_blockNumber s \<Longrightarrow>
    wd_makeProposal w (pr_serialized p) = Inr p \<Longrightarrow> node_step w s (snd (proposal_finish verdict p s))"
| step_enqueue: "node_step w s (snd (handle_enqueue ref s))"
| step_dispose: "node_step w s (dispose s)"

inductive reach :: "world \<Rightarrow> effect list \<Rightarrow> node \<Rightarrow> bool" for w where
  reach_start: "started w [] s \<Longrightarrow> reach w [] s"
| reach_step: "reach w base s \<Longrightarrow> node_step w s t \<Longrightarrow> reach w (nd_trace s) t"
| reach_crash: "reach w base s \<Longrightarrow> take k (nd_trace s) = base @ rest \<Longrightarrow> started w (base @ rest) t \<Longrightarrow>
    reach w (base @ rest) t"

lemma node_step_inv: "node_step w s t \<Longrightarrow> world_ok w \<Longrightarrow> node_inv w s \<Longrightarrow> node_inv w t"
proof (induction rule: node_step.induct)
  case (step_commit e number previous commits verified c s)
  then have "signed_proof w (bh_number (bk_header (cm_block c))) (cp_round (cm_proof c)) (bh_hash (bk_header (cm_block c)))"
    using verified_commit unfolding signed_proof_def by blast
  with step_commit have "commit_evidence w (nd_trace s) (bh_number (bk_header (cm_block c))) (bh_hash (bk_header (cm_block c)))"
    unfolding commit_evidence_def commit_marker_def by blast
  with step_commit show ?case by (intro commit_process_state [where P = "node_inv w"] handleCommitState_inv) simp_all
next
  case (step_block_prepared result s promise)
  then show ?case by (intro onTimeoutBlockPrepare_resume_inv)
next
  case (step_message_finish check s m)
  then show ?case by (intro message_finish_inv)
next
  case (step_dispose s)
  then show ?case by (simp add: dispose_def)
qed (simp_all add: handle_inv inv_emit_neutral commit_marker_def onTimeoutPropose_inv onTimeoutPrevote_inv onTimeoutPrecommit_inv
    onTimeoutBlockPrepare_inv message_begin_inv proposal_begin_inv proposal_finish_inv handle_enqueue_inv)

lemma durable_ok_Nil: "durable_ok w []"
  by (simp add: durable_ok_def one_value_def readable_def store_numbers_ok_def votes_covered_def votes_justified_def
      commits_justified_def signed_vote_def store_of_def empty_store_def)

lemma trace_ok_Nil: "trace_ok w []"
  by (simp add: trace_ok_def durable_ok_Nil)

lemma trace_ok_take: "trace_ok w tr \<Longrightarrow> trace_ok w (take k tr)"
  by (simp add: trace_ok_def)

lemma reach_inv: "reach w base s \<Longrightarrow> world_ok w \<Longrightarrow> node_inv w s"
proof (induction rule: reach.induct)
  case (reach_start s)
  then show ?case using started_inv [OF _ trace_ok_Nil] by blast
next
  case (reach_step base s t)
  then show ?case using node_step_inv by blast
next
  case (reach_crash base s k rest t)
  then have "trace_ok w (base @ rest)" using trace_ok_take [of w "nd_trace s" k] by (simp add: node_inv_def)
  with reach_crash show ?case using started_inv by blast
qed

end
