(* ===== verification/Node_Safety.thy ===== *)
theory Node_Safety
  imports Consensus_Reach
begin

text \<open>
  What the invariant says of a node over every history of handlers, exceptions, crashes and
  restarts, and a sample run of a network of one validator that the witnesses use: a proposal,
  a prevote, a lock, a lost round, a re-proposal with its lock proof, a commit.
\<close>

section \<open>A sample run\<close>

definition demo_vote :: "message_type \<Rightarrow> nat \<Rightarrow> message" where
  "demo_vote t r = \<lparr>mg_type = t, mg_blockNumber = 1, mg_round = r, mg_blockHash = Some ''b'',
     mg_validatorIndex = 0, mg_signature = ''s'', mg_serialized = [word_of_nat (vote_number t), word_of_nat r]\<rparr>"

definition demo_votes :: "message list" where
  "demo_votes = [demo_vote Prevote 0, demo_vote Precommit 0, demo_vote Prevote 1]"

definition demo_proposal :: "nat \<Rightarrow> proposal" where
  "demo_proposal r = \<lparr>pr_blockHeader = sample_header 1 ''b'',
     pr_lockProof = (if r = 0 then None else Some \<lparr>as_signature = ''s'', as_validators = [True]\<rparr>),
     pr_round = r, pr_validRound = (if r = 0 then None else Some 0), pr_payloadSerialized = ''b'',
     pr_payload = None, pr_validatorIndex = 0, pr_signature = ''s'', pr_serialized = [word_of_nat r]\<rparr>"

definition demo_world :: world where
  "demo_world = \<lparr>wd_genesis = 0,
     wd_makeMessage = (\<lambda>b. case find (\<lambda>m. mg_serialized m = b) demo_votes of
        Some m \<Rightarrow> Inr m | None \<Rightarrow> Inl (JsError ''message'')),
     wd_makeProposal = (\<lambda>b. case find (\<lambda>p. pr_serialized p = b) [demo_proposal 0, demo_proposal 1] of
        Some p \<Rightarrow> Inr p | None \<Rightarrow> Inl (JsError ''proposal'')),
     wd_validators = (\<lambda>_. 1), wd_payloadHash = (\<lambda>b. b),
     wd_validator = (\<lambda>_ _. Inr (sample_wallet 0)), wd_aggregatePublicKeys = (\<lambda>keys. Inr (concat keys)),
     wd_verifySignature = (\<lambda>signature data key. Inr (signature = ''s'')),
     wd_serialize = (\<lambda>t n r h previous. Inr [word_of_nat (vote_number t), word_of_nat n, word_of_nat r])\<rparr>"

definition demo_env :: env where
  "demo_env = \<lparr>ev_now = (\<lambda>_. 0), ev_roundValidators = (\<lambda>_. Inr [sample_wallet 0]),
     ev_proposerIndex = (\<lambda>_ _. Some 0), ev_validatorIndex = (\<lambda>_ _. Inr 0), ev_isRegistered = (\<lambda>_ _. True),
     ev_milestoneValidators = (\<lambda>_. 1),
     ev_timeouts = (\<lambda>_. \<lparr>blockPrepareTime = 4, blockTime = 8, stageTimeout = 2, stageTimeoutIncrease = 2, tolerance = 1\<rparr>),
     ev_lastTimestamp = (\<lambda>_. 0), ev_pendingCommit = (\<lambda>_ _. False),
     ev_makePayload = (\<lambda>b. Inr (sample_payload 1 b)), ev_verifyLockProof = (\<lambda>_ _. Inr True),
     ev_process = (\<lambda>_ _. Inr \<lparr>pc_success = True, pc_gasUsed = 0, pc_feeUsed = 0\<rparr>),
     ev_commit = (\<lambda>_ _ _. None),
     ev_makeMessage = (\<lambda>_ t i n r h. case find (\<lambda>m. mg_type m = t \<and> mg_validatorIndex m = i \<and> mg_blockNumber m = n
         \<and> mg_round m = r \<and> mg_blockHash m = h) demo_votes of Some m \<Rightarrow> Inr m | None \<Rightarrow> Inl (JsError ''key'')),
     ev_aggregate = (\<lambda>_. Inr ''s''), ev_listener = (\<lambda>_ _. None), ev_getValidator = (\<lambda>_ _. Inr (sample_wallet 0))\<rparr>"

text \<open>The states of the run, written out: after the first prevote, the lock, the next round, the prevote
  for the re-proposal and the commit.\<close>

definition demo_full :: "nat \<Rightarrow> proposal" where
  "demo_full r = (demo_proposal r)\<lparr>pr_payload := Some (sample_payload 1 ''b'')\<rparr>"

definition demo_state :: "nat option \<Rightarrow> nat \<Rightarrow> step \<Rightarrow> effect" where
  "demo_state lock r st = SaveState \<lparr>sd_blockNumber = 1, sd_lockedRound = lock, sd_round = r, sd_step = st,
     sd_validRound = lock\<rparr>"

definition demo_round :: "nat \<Rightarrow> nat \<Rightarrow> proposal option \<Rightarrow> bool \<Rightarrow> round_state" where
  "demo_round n r p voted = \<lparr>rs_blockNumber = n, rs_round = r, rs_proposal = p,
     rs_processorResult = map_option (\<lambda>_. \<lparr>pc_success = True, pc_gasUsed = 0, pc_feeUsed = 0\<rparr>) p,
     rs_accountUpdates = [], rs_contractEvents = [],
     rs_prevotes = (if voted then [(0, demo_vote Prevote 0)] else []),
     rs_prevotesCount = (if voted then [(Some ''b'', 1)] else []), rs_precommits = [], rs_precommitsCount = [],
     rs_validators = [([], sample_wallet 0)], rs_validatorsSignedPrevote = [voted],
     rs_validatorsSignedPrecommit = [False], rs_proposer = Some (sample_wallet 0), rs_commit = None\<rparr>"

definition demo_start :: node where
  "demo_start = (fresh_node [Restarted, Dispatched ''consensus.bootstrapped'', NewRoundStatistic 1 0,
     Dispatched ''consensus.round.started''])\<lparr>nd_proposalPromise := Some (0, Forge 0 [] 1 0 8), nd_promiseCount := 1,
     nd_repo := [((1, 0), demo_round 1 0 None False)],
     nd_scheduler := idle_scheduler\<lparr>sc_timeoutBlockPrepare := Some 8\<rparr>\<rparr>"

definition demo_prevoted :: node where
  "demo_prevoted = demo_start\<lparr>nd_step := Step_Prevote, nd_repo := [((1, 0), demo_round 1 0 (Some (demo_full 0)) False)],
     nd_trace := nd_trace demo_start @ [SaveProposal (demo_proposal 0), LockProofVerified (demo_full 0),
       demo_state None 0 Step_Prevote, Dispatched ''consensus.proposal.accepted'',
       SignedMessage (demo_vote Prevote 0), SaveMessage (demo_vote Prevote 0), ProcessMessage (demo_vote Prevote 0)]\<rparr>"

definition demo_locked :: node where
  "demo_locked = demo_prevoted\<lparr>nd_step := Step_Precommit, nd_lockedValue := Some (1, 0), nd_validValue := Some (1, 0),
     nd_didMajorityPrevote := True, nd_repo := [((1, 0), demo_round 1 0 (Some (demo_full 0)) True)],
     nd_trace := nd_trace demo_prevoted @ [AddedMessage (demo_vote Prevote 0), SaveMessage (demo_vote Prevote 0),
       demo_state (Some 0) 0 Step_Precommit, Dispatched ''consensus.prevoted.proposal'',
       SignedMessage (demo_vote Precommit 0), SaveMessage (demo_vote Precommit 0), ProcessMessage (demo_vote Precommit 0)]\<rparr>"

definition demo_next_round :: node where
  "demo_next_round = demo_locked\<lparr>nd_round := 1, nd_step := Step_Propose, nd_didMajorityPrevote := False,
     nd_proposalPromise := Some (1, Repropose 0 1 0 (pl_block (sample_payload 1 ''b''))
       \<lparr>as_signature = ''s'', as_validators = [True]\<rparr>), nd_promiseCount := 2,
     nd_repo := nd_repo demo_locked @ [((1, 1), demo_round 1 1 None False)],
     nd_scheduler := idle_scheduler\<lparr>sc_timeoutBlockPrepare := Some 10\<rparr>,
     nd_trace := nd_trace demo_locked @ [demo_state (Some 0) 1 Step_Propose, NewRoundStatistic 1 1,
       Dispatched ''consensus.round.started'']\<rparr>"

definition demo_revoted :: node where
  "demo_revoted = demo_next_round\<lparr>nd_step := Step_Prevote,
     nd_repo := nd_repo demo_locked @ [((1, 1), demo_round 1 1 (Some (demo_full 1)) False)],
     nd_trace := nd_trace demo_next_round @ [SaveProposal (demo_proposal 1), LockProofVerified (demo_full 1),
       demo_state (Some 0) 1 Step_Prevote, Dispatched ''consensus.proposal.accepted'',
       SignedMessage (demo_vote Prevote 1), SaveMessage (demo_vote Prevote 1), ProcessMessage (demo_vote Prevote 1)]\<rparr>"

definition demo_committed :: node where
  "demo_committed = (fresh_node (nd_trace demo_revoted @ [AddedMessage (demo_vote Precommit 0),
       SaveMessage (demo_vote Precommit 0), Dispatched ''consensus.precommitted.proposal'', CommittedBlock 1 ''b'',
       NewRoundStatistic 2 0, Dispatched ''consensus.round.started'']))\<lparr>nd_blockNumber := 2,
     nd_proposalPromise := Some (2, Forge 0 [] 2 0 8), nd_promiseCount := 3,
     nd_repo := [((2, 0), demo_round 2 0 None False)],
     nd_scheduler := idle_scheduler\<lparr>sc_timeoutBlockPrepare := Some 8\<rparr>\<rparr>"

lemma demo_run:
  "run demo_env (initialState 1) None None (fresh_node [Restarted]) = Done demo_start"
  "handle demo_env (1, 0) (snd (proposal_finish (Inr True) (demo_proposal 0) demo_start)) = Done demo_prevoted"
  "handle demo_env (1, 0) (snd (message_finish (Inr Check_Accepted) (demo_vote Prevote 0) demo_prevoted)) = Done demo_locked"
  "onTimeoutPrecommit demo_env 1 0 demo_locked = Done demo_next_round"
  "handle demo_env (1, 1) (snd (proposal_finish (Inr True) (demo_proposal 1) demo_next_round)) = Done demo_revoted"
  "handle demo_env (1, 0) (snd (message_finish (Inr Check_Accepted) (demo_vote Precommit 0) demo_revoted)) = Done demo_committed"
  by code_simp+

lemma demo_world_ok: "world_ok demo_world"
proof -
  have "find (\<lambda>p. pr_serialized p = b) [demo_proposal 0, demo_proposal 1] = Some p \<Longrightarrow>
      p = demo_proposal 0 \<or> p = demo_proposal 1" for b p
    by (auto split: if_splits)
  moreover have "proposal_ok demo_world (demo_proposal r)" for r
    by (simp add: proposal_ok_def demo_proposal_def demo_world_def sample_header_def)
  ultimately show ?thesis
    by (auto simp: world_ok_def demo_world_def split: option.splits)
qed

lemma demo_votes_decode: "m \<in> set demo_votes \<Longrightarrow> wd_makeMessage demo_world (mg_serialized m) = Inr m"
  by (auto simp: demo_votes_def demo_world_def demo_vote_def)

lemma demo_env_ok: "env_ok demo_world demo_env"
  unfolding env_ok_def
proof (intro conjI allI impI)
  fix s t i n r h m assume "ev_makeMessage demo_env s t i n r h = Inr m"
  then have f: "find (\<lambda>m. mg_type m = t \<and> mg_validatorIndex m = i \<and> mg_blockNumber m = n
         \<and> mg_round m = r \<and> mg_blockHash m = h) demo_votes = Some m"
    by (simp add: demo_env_def split: option.splits)
  then have "m \<in> set demo_votes" by (auto simp: find_Some_iff)
  with f demo_votes_decode show "mg_type m = t" "mg_validatorIndex m = i" "mg_blockNumber m = n" "mg_round m = r"
    "mg_blockHash m = h" "wd_makeMessage demo_world (mg_serialized m) = Inr m" by (auto simp: find_Some_iff)
qed (simp_all add: demo_env_def demo_world_def sample_payload_def sample_header_def)

lemma demo_started: "started demo_world [] demo_start"
proof -
  have "booted demo_world demo_env [] (initialState 1) (fresh_node [Restarted])" by code_simp
  then show ?thesis
    unfolding started_def using demo_env_ok demo_run(1)
    by (intro exI [of _ demo_env] exI [of _ "initialState 1"] exI [of _ "fresh_node [Restarted]"])
      (simp add: initialState_def restored_ref_def)
qed

lemma demo_verified: "m \<in> set demo_votes \<Longrightarrow> nd_blockNumber s = 1 \<Longrightarrow> verified_message demo_world s m"
  by (auto simp: verified_message_def demo_votes_decode demo_votes_def) (simp_all add: demo_vote_def demo_world_def)

lemma demo_proposal_steps:
  "r = 0 \<or> r = 1 \<Longrightarrow> nd_blockNumber s = 1 \<Longrightarrow>
   node_step demo_world s (snd (proposal_finish v (demo_proposal r) s))"
  by (rule step_proposal_finish) (auto simp: demo_proposal_def sample_header_def demo_world_def)

lemma demo_message_steps:
  "m \<in> set demo_votes \<Longrightarrow> nd_blockNumber s = 1 \<Longrightarrow> node_step demo_world s (snd (message_finish c m s))"
  by (rule step_message_finish) (rule demo_verified)

lemma demo_block_number:
  "nd_blockNumber demo_start = 1" "nd_blockNumber demo_prevoted = 1" "nd_blockNumber demo_next_round = 1"
  "nd_blockNumber demo_revoted = 1"
  by (simp_all add: demo_revoted_def demo_next_round_def demo_locked_def demo_prevoted_def demo_start_def fresh_node_def)

lemma demo_vote_known:
  "demo_vote Prevote 0 \<in> set demo_votes" "demo_vote Precommit 0 \<in> set demo_votes" "demo_vote Prevote 1 \<in> set demo_votes"
  by (simp_all add: demo_votes_def)


lemma demo_reach_next:
  assumes "reach demo_world base s" and "node_step demo_world s s1" and "handle demo_env ref s1 = Done t"
  shows "reach demo_world (nd_trace s1) t"
  using reach_step [OF reach_step [OF assms(1,2)] step_handle [OF demo_env_ok, where ref = ref]] assms(3) by simp

lemma demo_reach: "\<exists>base. reach demo_world base demo_committed"
proof -
  have s0: "reach demo_world [] demo_start" by (rule reach_start [OF demo_started])
  have "\<exists>base. reach demo_world base demo_prevoted"
    using demo_reach_next [OF s0 _ demo_run(2)] demo_proposal_steps demo_block_number by auto
  then have "\<exists>base. reach demo_world base demo_locked"
    using demo_reach_next [OF _ _ demo_run(3)] demo_message_steps demo_vote_known demo_block_number by blast
  then have "\<exists>base. reach demo_world base demo_next_round"
    using reach_step [OF _ step_timeout_precommit [OF demo_env_ok, of demo_locked 1 0]] demo_run(4) by auto
  then have "\<exists>base. reach demo_world base demo_revoted"
    using demo_reach_next [OF _ _ demo_run(5)] demo_proposal_steps demo_block_number by blast
  then show ?thesis
    using demo_reach_next [OF _ _ demo_run(6)] demo_message_steps demo_vote_known demo_block_number by blast
qed

lemma demo_trace:
  "SignedMessage (demo_vote Prevote 0) \<in> set (nd_trace demo_committed)"
  "SignedMessage (demo_vote Precommit 0) \<in> set (nd_trace demo_committed)"
  "SignedMessage (demo_vote Prevote 1) \<in> set (nd_trace demo_committed)"
  "CommittedBlock 1 ''b'' \<in> set (nd_trace demo_committed)"
  by (simp_all add: demo_committed_def demo_revoted_def demo_next_round_def demo_locked_def demo_prevoted_def fresh_node_def)

section \<open>Facts of the invariant\<close>

lemma reach_durable: "reach w base s \<Longrightarrow> world_ok w \<Longrightarrow> durable_ok w (nd_trace s)"
  using reach_inv trace_ok_durable unfolding node_inv_def by blast

lemma reach_durable_prefix:
  assumes "reach w base s" and "world_ok w" and "nd_trace s = tr @ x # rest"
  shows "durable_ok w (tr @ [x])"
proof -
  have "trace_ok w (nd_trace s)" using reach_inv assms(1,2) unfolding node_inv_def by blast
  then have "durable_ok w (take (Suc (length tr)) (nd_trace s))" by (simp add: trace_ok_def)
  with assms(3) show ?thesis by simp
qed

lemma vote_senders_other_vote:
  "mg_type m \<noteq> t \<Longrightarrow> vote_senders w (tr @ [SignedMessage m]) t n r h = vote_senders w tr t n r h"
  by (auto simp: vote_senders_def seen_def)

section \<open>Safety of one node\<close>

text \<open>C2 (safety). A node never equivocates: over every history of handlers, exceptions, crashes at any
  effect and restarts from the store, two votes it signed for the same block number, round and type
  name the same block (or both no block).\<close>

theorem node_never_equivocates:
  assumes "reach w base s" and "world_ok w"
    and "SignedMessage m \<in> set (nd_trace s)" and "SignedMessage m' \<in> set (nd_trace s)"
    and "mg_type m = mg_type m'" and "mg_blockNumber m = mg_blockNumber m'" and "mg_round m = mg_round m'"
  shows "mg_blockHash m = mg_blockHash m'"
proof -
  have "one_value (nd_trace s)" using reach_durable assms(1,2) unfolding durable_ok_def by blast
  moreover have "signed_vote (nd_trace s) (mg_type m) (mg_blockNumber m) (mg_round m) (mg_blockHash m)"
    "signed_vote (nd_trace s) (mg_type m) (mg_blockNumber m) (mg_round m) (mg_blockHash m')"
    using assms(3-7) unfolding signed_vote_def by metis+
  ultimately show ?thesis unfolding one_value_def by blast
qed

theorem node_never_equivocates_witness:
  "{h. \<exists>m. SignedMessage m \<in> set (nd_trace demo_committed) \<and> mg_type m = Precommit \<and> mg_blockNumber m = 1
      \<and> mg_round m = 0 \<and> h = mg_blockHash m} = {Some ''b''}"
proof -
  let ?v = "demo_vote Precommit 0"
  obtain base where r: "reach demo_world base demo_committed" using demo_reach by blast
  have v: "mg_type ?v = Precommit" "mg_blockNumber ?v = 1" "mg_round ?v = 0" "mg_blockHash ?v = Some ''b''"
    by (simp_all add: demo_vote_def)
  have "mg_blockHash m = Some ''b''" if "SignedMessage m \<in> set (nd_trace demo_committed)" "mg_type m = Precommit"
    "mg_blockNumber m = 1" "mg_round m = 0" for m
    using node_never_equivocates [OF r demo_world_ok that(1) demo_trace(2)] that(2-4) v by simp
  with demo_trace(2) v show ?thesis by fastforce
qed

text \<open>C4 (invariant). The position is durable before a vote is signed: at the moment of every signature
  the store already holds a state of that height, round and step or later, so a crash at any
  later effect finds it.\<close>

theorem state_saved_before_vote:
  assumes "reach w base s" and "world_ok w" and "nd_trace s = tr @ SignedMessage m # rest"
  shows "vote_pos m \<le> state_pos (stored_state w tr)"
proof -
  have "votes_covered w (tr @ [SignedMessage m])"
    using reach_durable_prefix [OF assms] unfolding durable_ok_def by blast
  then have "vote_pos m \<le> durable_pos w (tr @ [SignedMessage m])" unfolding votes_covered_def by auto
  then show ?thesis by simp
qed

theorem state_saved_before_vote_witness:
  "\<exists>tr rest. nd_trace demo_committed = tr @ SignedMessage (demo_vote Precommit 0) # rest
     \<and> (1, 0, 2) \<le> state_pos (stored_state demo_world tr)"
proof -
  obtain base where r: "reach demo_world base demo_committed" using demo_reach by blast
  obtain tr rest where tr: "nd_trace demo_committed = tr @ SignedMessage (demo_vote Precommit 0) # rest"
    using demo_trace(2) by (meson split_list)
  have "vote_pos (demo_vote Precommit 0) = (1, 0, 2)" by code_simp
  with state_saved_before_vote [OF r demo_world_ok tr] tr show ?thesis by auto
qed

text \<open>When a node signs a precommit for a block, it has seen prevotes for that block of more
  than two thirds of the validators, in the same round.\<close>

theorem block_precommit_needs_prevotes:
  assumes "reach w base s" and "world_ok w" and "nd_trace s = tr @ SignedMessage m # rest"
    and "mg_type m = Precommit" and "mg_blockHash m = Some h"
  shows "vote_quorum w tr Prevote (mg_blockNumber m) (mg_round m) h"
proof -
  have "votes_justified w (tr @ [SignedMessage m])"
    using reach_durable_prefix [OF assms(1-3)] unfolding durable_ok_def by blast
  moreover have "signed_vote (tr @ [SignedMessage m]) Precommit (mg_blockNumber m) (mg_round m) (Some h)"
    using assms(4,5) unfolding signed_vote_def by auto
  ultimately have "prevote_quorum w (tr @ [SignedMessage m]) (mg_blockNumber m) (mg_round m) h"
    unfolding votes_justified_def by blast
  then show ?thesis using assms(4) by (simp add: vote_quorum_def vote_senders_other_vote)
qed

theorem block_precommit_needs_prevotes_witness:
  "\<exists>tr rest. nd_trace demo_committed = tr @ SignedMessage (demo_vote Precommit 0) # rest
     \<and> vote_quorum demo_world tr Prevote 1 0 ''b''"
proof -
  obtain base where r: "reach demo_world base demo_committed" using demo_reach by blast
  obtain tr rest where tr: "nd_trace demo_committed = tr @ SignedMessage (demo_vote Precommit 0) # rest"
    using demo_trace(2) by (meson split_list)
  have "mg_type (demo_vote Precommit 0) = Precommit" "mg_blockHash (demo_vote Precommit 0) = Some ''b''"
    "mg_blockNumber (demo_vote Precommit 0) = 1" "mg_round (demo_vote Precommit 0) = 0" by (simp_all add: demo_vote_def)
  with block_precommit_needs_prevotes [OF r demo_world_ok tr] tr show ?thesis by auto
qed

text \<open>C3 (safety). The lock rule: after a precommit for a block in a round, a node prevotes a block in a
  later round of that height only if it knows +2/3 prevotes for that very block in a round from the
  first up to before the second (votes it saw, or a lock proof it verified). This holds across restarts.\<close>

theorem locked_node_needs_newer_polka:
  assumes "reach w base s" and "world_ok w"
    and "SignedMessage m \<in> set (nd_trace s)" and "mg_type m = Precommit" and "mg_blockHash m = Some v"
    and "SignedMessage m' \<in> set (nd_trace s)" and "mg_type m' = Prevote" and "mg_blockHash m' = Some v'"
    and "mg_blockNumber m' = mg_blockNumber m" and "mg_round m < mg_round m'"
  shows "\<exists>k. mg_round m \<le> k \<and> k < mg_round m' \<and> polka w (nd_trace s) (mg_blockNumber m) k v'"
proof -
  have "votes_justified w (nd_trace s)" using reach_durable assms(1,2) unfolding durable_ok_def by blast
  moreover have "signed_vote (nd_trace s) Precommit (mg_blockNumber m) (mg_round m) (Some v)"
    "signed_vote (nd_trace s) Prevote (mg_blockNumber m) (mg_round m') (Some v')"
    using assms(3-9) unfolding signed_vote_def by metis+
  ultimately show ?thesis using assms(10) unfolding votes_justified_def by blast
qed

theorem locked_node_needs_newer_polka_witness:
  "\<exists>k. 0 \<le> k \<and> k < 1 \<and> polka demo_world (nd_trace demo_committed) 1 k ''b''"
proof -
  have "mg_type (demo_vote Precommit 0) = Precommit" "mg_blockHash (demo_vote Precommit 0) = Some ''b''"
    "mg_type (demo_vote Prevote 1) = Prevote" "mg_blockHash (demo_vote Prevote 1) = Some ''b''"
    "mg_blockNumber (demo_vote Prevote 1) = mg_blockNumber (demo_vote Precommit 0)"
    "mg_round (demo_vote Precommit 0) < mg_round (demo_vote Prevote 1)"
    "mg_blockNumber (demo_vote Precommit 0) = 1" "mg_round (demo_vote Precommit 0) = 0" "mg_round (demo_vote Prevote 1) = 1"
    by (simp_all add: demo_vote_def)
  with locked_node_needs_newer_polka [OF _ demo_world_ok demo_trace(2) _ _ demo_trace(3)] demo_reach
  show ?thesis by auto
qed

lemma signed_commit_facts:
  assumes "signed_commit w c previous = Inr True"
  shows "\<exists>keys data key. length (cp_validators (cm_proof c)) = wd_validators w (bh_number (bk_header (cm_block c)))
    \<and> signer_keys (wd_validator w (bh_number (bk_header (cm_block c)))) 0 (cp_validators (cm_proof c)) = Inr keys
    \<and> isMajority (length keys) (wd_validators w (bh_number (bk_header (cm_block c)))) \<and> wd_aggregatePublicKeys w keys = Inr key
    \<and> wd_serialize w Precommit (bh_number (bk_header (cm_block c))) (cp_round (cm_proof c)) (Some (bh_hash (bk_header (cm_block c)))) previous = Inr data
    \<and> wd_verifySignature w (cp_signature (cm_proof c)) data key = Inr True"
  using assms by (auto simp: signed_commit_def commit_hasValidSignature_def verify_def sum_bind_Inr_iff split: if_splits)

text \<open>C5 (safety). A committed block has its evidence: for every block a node commits it has seen precommits for it of more
  than two thirds of the validators in one round, or it was handed a commit of that block, in a batch of downloaded commits, whose
  aggregated precommit signature was checked: as many validator bits as the round has validators, more than two thirds of them
  set, and a signature of their aggregated public keys over the precommit of that height, round and block hash.\<close>

theorem committed_block_has_evidence:
  assumes "reach w base s" and "world_ok w" and "CommittedBlock n h \<in> set (nd_trace s)"
  shows "\<exists>r. vote_quorum w (nd_trace s) Precommit n r h
    \<or> CommitProofVerified n r h \<in> set (nd_trace s)
      \<and> (\<exists>(c :: commit) previous keys data key.
           bh_number (bk_header (cm_block c)) = n \<and> bh_hash (bk_header (cm_block c)) = h \<and> cp_round (cm_proof c) = r
           \<and> length (cp_validators (cm_proof c)) = wd_validators w n
           \<and> signer_keys (wd_validator w n) 0 (cp_validators (cm_proof c)) = Inr keys
           \<and> isMajority (length keys) (wd_validators w n) \<and> wd_aggregatePublicKeys w keys = Inr key
           \<and> wd_serialize w Precommit n r (Some h) previous = Inr data
           \<and> wd_verifySignature w (cp_signature (cm_proof c)) data key = Inr True)"
proof -
  from reach_durable [OF assms(1,2)] assms(3) obtain r where
    "vote_quorum w (nd_trace s) Precommit n r h \<or> CommitProofVerified n r h \<in> set (nd_trace s) \<and> signed_proof w n r h"
    unfolding durable_ok_def commits_justified_def commit_evidence_def by blast
  then show ?thesis
  proof
    assume v: "CommitProofVerified n r h \<in> set (nd_trace s) \<and> signed_proof w n r h"
    then obtain c previous where "signed_commit w c previous = Inr True" and c: "bh_number (bk_header (cm_block c)) = n"
      "cp_round (cm_proof c) = r" "bh_hash (bk_header (cm_block c)) = h" unfolding signed_proof_def by blast
    from signed_commit_facts [OF this(1), unfolded c] v show ?thesis
      by (intro exI [of _ r] disjI2 conjI exI [of _ c] exI [of _ previous]) (use c in blast)+
  qed blast
qed

theorem committed_block_has_evidence_witness:
  "\<exists>r. vote_quorum demo_world (nd_trace demo_committed) Precommit 1 r ''b''
     \<or> CommitProofVerified 1 r ''b'' \<in> set (nd_trace demo_committed)"
  using committed_block_has_evidence [OF _ demo_world_ok demo_trace(4)] demo_reach by blast

section \<open>A restart before the first state\<close>

text \<open>The sample node stops after it stored the proposal of round 0 and before it saved a state, restarts,
  prevotes, locks, and stops again.\<close>

definition stopped_trace :: "effect list" where
  "stopped_trace = nd_trace demo_start @ [SaveProposal (demo_proposal 0)]"

definition rebooted :: node where
  "rebooted = (fresh_node (stopped_trace @ [Restarted]))\<lparr>nd_repo := [((1, 0), (demo_round 1 0 None False)\<lparr>rs_proposal := Some (demo_proposal 0)\<rparr>)]\<rparr>"

definition rebooted_prevoted :: node where
  "rebooted_prevoted = demo_prevoted\<lparr>nd_proposalPromise := None, nd_promiseCount := 0,
     nd_trace := stopped_trace @ [Restarted, Dispatched ''consensus.bootstrapped'', NewRoundStatistic 1 0,
       Dispatched ''consensus.round.started'', LockProofVerified (demo_full 0), demo_state None 0 Step_Prevote,
       Dispatched ''consensus.proposal.accepted'', SignedMessage (demo_vote Prevote 0), SaveMessage (demo_vote Prevote 0),
       ProcessMessage (demo_vote Prevote 0)]\<rparr>"

definition rebooted_locked :: node where
  "rebooted_locked = demo_locked\<lparr>nd_proposalPromise := None, nd_promiseCount := 0,
     nd_trace := nd_trace rebooted_prevoted @ [AddedMessage (demo_vote Prevote 0), SaveMessage (demo_vote Prevote 0),
       demo_state (Some 0) 0 Step_Precommit, Dispatched ''consensus.prevoted.proposal'',
       SignedMessage (demo_vote Precommit 0), SaveMessage (demo_vote Precommit 0), ProcessMessage (demo_vote Precommit 0)]\<rparr>"

lemma rebooted_run:
  "booted demo_world demo_env stopped_trace (initialState 1) rebooted"
  "run demo_env (initialState 1) None None rebooted = Done rebooted_prevoted"
  "handle demo_env (1, 0) (snd (message_finish (Inr Check_Accepted) (demo_vote Prevote 0) rebooted_prevoted)) = Done rebooted_locked"
  by code_simp+

lemma rebooted_reach: "\<exists>base. reach demo_world base rebooted_locked"
proof -
  have s0: "reach demo_world [] demo_start" by (rule reach_start [OF demo_started])
  let ?p = "snd (proposal_finish (Inr True) (demo_proposal 0) demo_start)"
  have s1: "reach demo_world (nd_trace demo_start) ?p"
    using reach_step [OF s0 demo_proposal_steps] demo_block_number by blast
  have tr: "take (length stopped_trace) (nd_trace ?p) = nd_trace demo_start @ [SaveProposal (demo_proposal 0)]" by code_simp
  have "started demo_world stopped_trace rebooted_prevoted"
    unfolding started_def using demo_env_ok rebooted_run(1,2)
    by (intro exI [of _ demo_env] exI [of _ "initialState 1"] exI [of _ rebooted])
      (simp add: initialState_def restored_ref_def)
  then have "reach demo_world stopped_trace rebooted_prevoted"
    using reach_crash [OF s1 tr] unfolding stopped_trace_def by blast
  from demo_reach_next [OF this demo_message_steps [OF demo_vote_known(1)] rebooted_run(3)]
  show ?thesis by (auto simp: rebooted_prevoted_def demo_prevoted_def demo_start_def fresh_node_def)
qed

text \<open>A write of a state after a restart that found no state: the records of that height are gone.\<close>

lemma state_after_restart_drops_records:
  "st_state (store_of tr) = None \<Longrightarrow> 0 < sd_blockNumber d \<Longrightarrow>
   st_proposals (store_of (tr @ [Restarted, SaveState d])) = [] \<and> st_messages (store_of (tr @ [Restarted, SaveState d])) = []"
  by (simp add: store_of_def)

text \<open>C7 (error). A node can reach a store it refuses to start from. \<open>Service.initialize\<close> takes the stored height
  from the state record alone, so after a restart that finds records but no state the next state written drops every record of the
  current height, whatever they are. A node that so lost the proposal of its round can prevote, lock on that round and sign a precommit
  for it: its store then has the lock and not the proposal, and the bootstrapper stops with the error that the proposal is not stored.\<close>

theorem restart_can_lose_the_locked_proposal:
  "(\<forall>tr d. st_state (store_of tr) = None \<and> 0 < sd_blockNumber d \<longrightarrow>
      st_proposals (store_of (tr @ [Restarted, SaveState d])) = [] \<and> st_messages (store_of (tr @ [Restarted, SaveState d])) = [])
   \<and> (\<exists>base s tr rest d. reach demo_world base s \<and> nd_trace s = tr @ Restarted # rest
      \<and> getProposals (wd_makeProposal demo_world) (store_of tr) = Inr [demo_proposal 0] \<and> st_state (store_of tr) = None
      \<and> SignedMessage (demo_vote Precommit 0) \<in> set rest
      \<and> st_state (store_of (nd_trace s)) = Some d \<and> sd_blockNumber d = last_block demo_world (nd_trace s) + 1
      \<and> sd_lockedRound d = Some 0 \<and> getProposals (wd_makeProposal demo_world) (store_of (nd_trace s)) = Inr []
      \<and> fst (bootstrap demo_env (wd_makeMessage demo_world) (wd_makeProposal demo_world)
              (last_block demo_world (nd_trace s)) (last_block demo_world (nd_trace s) + 1)
              (initialize (store_of (nd_trace s))) (fresh_node (nd_trace s @ [Restarted])))
          = Inl (proposal_not_stored ''valid''))"
proof
  let ?s = rebooted_locked and ?d = "\<lparr>sd_blockNumber = 1, sd_lockedRound = Some 0, sd_round = 0, sd_step = Step_Precommit, sd_validRound = Some 0\<rparr>"
  obtain rest where rest: "nd_trace ?s = stopped_trace @ Restarted # rest" "SignedMessage (demo_vote Precommit 0) \<in> set rest"
    by (simp add: rebooted_locked_def rebooted_prevoted_def)
  have "getProposals (wd_makeProposal demo_world) (store_of stopped_trace) = Inr [demo_proposal 0]"
    "st_state (store_of stopped_trace) = None" by code_simp+
  moreover have "st_state (store_of (nd_trace ?s)) = Some ?d" "last_block demo_world (nd_trace ?s) = 0"
    "getProposals (wd_makeProposal demo_world) (store_of (nd_trace ?s)) = Inr []" by code_simp+
  moreover have "fst (bootstrap demo_env (wd_makeMessage demo_world) (wd_makeProposal demo_world)
              (last_block demo_world (nd_trace ?s)) (last_block demo_world (nd_trace ?s) + 1)
              (initialize (store_of (nd_trace ?s))) (fresh_node (nd_trace ?s @ [Restarted])))
       = Inl (proposal_not_stored ''valid'')" by code_simp
  ultimately show "\<exists>base s tr rest d. reach demo_world base s \<and> nd_trace s = tr @ Restarted # rest
      \<and> getProposals (wd_makeProposal demo_world) (store_of tr) = Inr [demo_proposal 0] \<and> st_state (store_of tr) = None
      \<and> SignedMessage (demo_vote Precommit 0) \<in> set rest
      \<and> st_state (store_of (nd_trace s)) = Some d \<and> sd_blockNumber d = last_block demo_world (nd_trace s) + 1
      \<and> sd_lockedRound d = Some 0 \<and> getProposals (wd_makeProposal demo_world) (store_of (nd_trace s)) = Inr []
      \<and> fst (bootstrap demo_env (wd_makeMessage demo_world) (wd_makeProposal demo_world)
              (last_block demo_world (nd_trace s)) (last_block demo_world (nd_trace s) + 1)
              (initialize (store_of (nd_trace s))) (fresh_node (nd_trace s @ [Restarted])))
          = Inl (proposal_not_stored ''valid'')"
    using rebooted_reach rest by (metis state_data.select_convs(1,2) add.left_neutral)
qed (use state_after_restart_drops_records in blast)

theorem restart_can_lose_the_locked_proposal_witness:
  "st_state (store_of stopped_trace) = None \<and> getProposals (wd_makeProposal demo_world) (store_of stopped_trace) = Inr [demo_proposal 0]
   \<and> st_proposals (store_of (stopped_trace @ [Restarted, SaveState \<lparr>sd_blockNumber = 1, sd_lockedRound = None, sd_round = 0, sd_step = Step_Prevote, sd_validRound = None\<rparr>])) = []"
proof -
  have "st_state (store_of stopped_trace) = None" "getProposals (wd_makeProposal demo_world) (store_of stopped_trace) = Inr [demo_proposal 0]" by code_simp+
  then show ?thesis using restart_can_lose_the_locked_proposal by simp
qed

end
