(* ===== verification/Bft_Agreement.thy ===== *)
theory Bft_Agreement
  imports Node_Safety
begin

text \<open>
  Agreement: nodes that run this code never commit different blocks at one height while at most a
  third of the validators are faulty.

  \<open>bft_votes\<close> is the contract between the nodes and the argument: what a correct validator's votes
  obey. The argument is made once in the locale, by induction on rounds over overlapping
  majorities. \<open>network\<close> is a set of nodes that run the model, in any reachable state each, with the
  validators each one signs for; its nodes provide the contract by the theorems on one node.
\<close>

section \<open>The contract and the argument\<close>

locale bft_votes =
  fixes validators :: nat
    and correct :: "nat set"
    and prevoted :: "nat \<Rightarrow> nat \<Rightarrow> 'v \<Rightarrow> bool"
    and precommitted :: "nat \<Rightarrow> nat \<Rightarrow> 'v \<Rightarrow> bool"
  assumes few_faulty: "\<not> isMinority (card ({..<validators} - correct)) validators"
    and one_prevote: "\<lbrakk>i \<in> correct; i < validators; prevoted i r v; prevoted i r v'\<rbrakk> \<Longrightarrow> v = v'"
    and precommit_polka: "\<lbrakk>i \<in> correct; i < validators; precommitted i r v\<rbrakk> \<Longrightarrow>
      isMajority (card {j. j < validators \<and> prevoted j r v}) validators"
    and lock_rule: "\<lbrakk>i \<in> correct; i < validators; precommitted i r v; prevoted i r' v'; r < r'\<rbrakk> \<Longrightarrow>
      \<exists>k. r \<le> k \<and> k < r' \<and> isMajority (card {j. j < validators \<and> prevoted j k v'}) validators"
begin

lemma common_correct:
  assumes "isMajority (card {j. j < validators \<and> P j}) validators"
    and "isMajority (card {j. j < validators \<and> Q j}) validators"
  obtains i where "i \<in> correct" "i < validators" "P i" "Q i"
proof -
  let ?A = "{j. j < validators \<and> P j}" and ?B = "{j. j < validators \<and> Q j}"
  have "isMinority (card (?A \<inter> ?B)) validators"
    using assms by (intro majorities_overlap [where V = "{..<validators}"]) auto
  from minority_has_correct [OF _ this _ few_faulty] obtain i where "i \<in> ?A \<inter> ?B" "i \<notin> {..<validators} - correct"
    by auto
  then show ?thesis using that by blast
qed

lemma polkas_agree_in_round:
  assumes "isMajority (card {j. j < validators \<and> prevoted j r v}) validators"
    and "isMajority (card {j. j < validators \<and> prevoted j r v'}) validators"
  shows "v = v'"
proof -
  obtain i where "i \<in> correct" "i < validators" "prevoted i r v" "prevoted i r v'"
    using common_correct [OF assms] by blast
  then show ?thesis using one_prevote by blast
qed

text \<open>Once a value has a majority of precommits, no later round has a majority of prevotes for another.\<close>

lemma decided_value_is_locked:
  assumes "isMajority (card {j. j < validators \<and> precommitted j r v}) validators"
  shows "r \<le> k \<Longrightarrow> isMajority (card {j. j < validators \<and> prevoted j k v'}) validators \<Longrightarrow> v' = v"
proof (induction k rule: less_induct)
  case (less k)
  obtain i where i: "i \<in> correct" "i < validators" "precommitted i r v" "prevoted i k v'"
    using common_correct [OF assms less.prems(2)] by blast
  show ?case
  proof (cases "k = r")
    case True
    with less.prems(2) precommit_polka [OF i(1-3)] polkas_agree_in_round show ?thesis by blast
  next
    case False
    with less.prems(1) have "r < k" by simp
    from lock_rule [OF i this] less.IH show ?thesis by blast
  qed
qed

lemma decided_values_agree:
  assumes "isMajority (card {j. j < validators \<and> precommitted j r v}) validators"
    and "isMajority (card {j. j < validators \<and> precommitted j r' v'}) validators"
  shows "v = v'"
proof -
  obtain i where "i \<in> correct" "i < validators" "precommitted i r v"
    using common_correct [OF assms(1,1)] by blast
  from precommit_polka [OF this] have p: "isMajority (card {j. j < validators \<and> prevoted j r v}) validators" .
  obtain i' where "i' \<in> correct" "i' < validators" "precommitted i' r' v'"
    using common_correct [OF assms(2,2)] by blast
  from precommit_polka [OF this] have p': "isMajority (card {j. j < validators \<and> prevoted j r' v'}) validators" .
  from decided_value_is_locked [OF assms(1) _ p'] decided_value_is_locked [OF assms(2) _ p]
  show ?thesis by (cases "r \<le> r'") auto
qed

end

section \<open>A network of nodes\<close>

text \<open>\<open>nw_owner n i\<close> is the node that holds the key of validator \<open>i\<close> of height \<open>n\<close>, \<open>nw_correct n\<close> the
  validators whose key only a node of the network holds.\<close>

record network =
  nw_world :: world
  nw_nodes :: "node list"
  nw_owner :: "nat \<Rightarrow> nat \<Rightarrow> nat"
  nw_correct :: "nat \<Rightarrow> nat set"

definition node_trace :: "network \<Rightarrow> nat \<Rightarrow> effect list" where
  "node_trace net k = nd_trace (nw_nodes net ! k)"

text \<open>The vote exists: a correct validator's vote was signed by its node; a faulty one may have voted anything.\<close>

definition voted :: "network \<Rightarrow> message_type \<Rightarrow> nat \<Rightarrow> nat \<Rightarrow> nat \<Rightarrow> string \<Rightarrow> bool" where
  "voted net t n i r h \<longleftrightarrow> (i \<in> nw_correct net n \<longrightarrow>
     (\<exists>m. SignedMessage m \<in> set (node_trace net (nw_owner net n i)) \<and> mg_validatorIndex m = i \<and> mg_type m = t
        \<and> mg_blockNumber m = n \<and> mg_round m = r \<and> mg_blockHash m = Some h))"

text \<open>What the signature scheme gives: a vote or a proof that verified was signed by the validators it names.
  An aggregated signature names a majority (\<open>aggregator.verify\<close>).\<close>

definition signatures_sound :: "network \<Rightarrow> bool" where
  "signatures_sound net \<longleftrightarrow> (\<forall>k < length (nw_nodes net).
     (\<forall>m h. AddedMessage m \<in> set (node_trace net k) \<longrightarrow> mg_blockHash m = Some h \<longrightarrow>
        voted net (mg_type m) (mg_blockNumber m) (mg_validatorIndex m) (mg_round m) h)
     \<and> (\<forall>p r. LockProofVerified p \<in> set (node_trace net k) \<longrightarrow> pr_validRound p = Some r \<longrightarrow> pr_lockProof p \<noteq> None \<longrightarrow>
        (\<exists>S \<subseteq> {..<wd_validators (nw_world net) (bh_number (pr_blockHeader p))}.
           isMajority (card S) (wd_validators (nw_world net) (bh_number (pr_blockHeader p)))
           \<and> (\<forall>i \<in> S. voted net Prevote (bh_number (pr_blockHeader p)) i r (bh_hash (pr_blockHeader p)))))
     \<and> (\<forall>n r h. CommitProofVerified n r h \<in> set (node_trace net k) \<longrightarrow>
        (\<exists>S \<subseteq> {..<wd_validators (nw_world net) n}.
           isMajority (card S) (wd_validators (nw_world net) n) \<and> (\<forall>i \<in> S. voted net Precommit n i r h))))"

definition keys_exclusive :: "network \<Rightarrow> bool" where
  "keys_exclusive net \<longleftrightarrow>
     (\<forall>n i. i \<in> nw_correct net n \<longrightarrow> nw_owner net n i < length (nw_nodes net))
     \<and> (\<forall>k m. k < length (nw_nodes net) \<longrightarrow> SignedMessage m \<in> set (node_trace net k) \<longrightarrow>
          mg_validatorIndex m \<in> nw_correct net (mg_blockNumber m) \<longrightarrow>
          nw_owner net (mg_blockNumber m) (mg_validatorIndex m) = k)"

definition network_ok :: "network \<Rightarrow> bool" where
  "network_ok net \<longleftrightarrow> world_ok (nw_world net)
     \<and> (\<forall>k < length (nw_nodes net). \<exists>base. reach (nw_world net) base (nw_nodes net ! k))
     \<and> (\<forall>n. 3 * card ({..<wd_validators (nw_world net) n} - nw_correct net n) \<le> wd_validators (nw_world net) n)
     \<and> signatures_sound net \<and> keys_exclusive net"

lemma network_durable: "network_ok net \<Longrightarrow> k < length (nw_nodes net) \<Longrightarrow> durable_ok (nw_world net) (node_trace net k)"
  unfolding network_ok_def node_trace_def using reach_durable by blast

section \<open>Evidence at a node is votes in the network\<close>

lemma voted_of_seen:
  assumes "network_ok net" and "k < length (nw_nodes net)" and "seen (node_trace net k) m" and "mg_blockHash m = Some h"
  shows "voted net (mg_type m) (mg_blockNumber m) (mg_validatorIndex m) (mg_round m) h"
proof (cases "AddedMessage m \<in> set (node_trace net k)")
  case True
  with assms show ?thesis unfolding network_ok_def signatures_sound_def by blast
next
  case False
  with assms(3) have "SignedMessage m \<in> set (node_trace net k)" by (simp add: seen_def)
  with assms(1,2,4) show ?thesis unfolding network_ok_def keys_exclusive_def voted_def by blast
qed

lemma voters_of_quorum:
  assumes "network_ok net" and "k < length (nw_nodes net)" and "vote_quorum (nw_world net) (node_trace net k) t n r h"
  shows "isMajority (card {i. i < wd_validators (nw_world net) n \<and> voted net t n i r h}) (wd_validators (nw_world net) n)"
proof (rule isMajority_mono)
  show "isMajority (card (vote_senders (nw_world net) (node_trace net k) t n r h)) (wd_validators (nw_world net) n)"
    using assms(3) by (simp add: vote_quorum_def)
  show "card (vote_senders (nw_world net) (node_trace net k) t n r h)
      \<le> card {i. i < wd_validators (nw_world net) n \<and> voted net t n i r h}"
    using voted_of_seen [OF assms(1,2)] by (intro card_mono) (auto simp: vote_senders_def)
qed

lemma voters_of_set:
  assumes "S \<subseteq> {..<n}" and "isMajority (card S) n" and "\<forall>i \<in> S. P i"
  shows "isMajority (card {i. i < n \<and> P i}) n"
  by (rule isMajority_mono [OF assms(2)], rule card_mono) (use assms(1,3) in auto)

lemma voters_of_polka:
  assumes "network_ok net" and "k < length (nw_nodes net)" and "polka (nw_world net) (node_trace net k) n r h"
  shows "isMajority (card {i. i < wd_validators (nw_world net) n \<and> voted net Prevote n i r h}) (wd_validators (nw_world net) n)"
proof (cases "prevote_quorum (nw_world net) (node_trace net k) n r h")
  case False
  with assms(3) obtain p where "LockProofVerified p \<in> set (node_trace net k)" "pr_validRound p = Some r"
    "pr_lockProof p \<noteq> None" "bh_number (pr_blockHeader p) = n" "bh_hash (pr_blockHeader p) = h"
    unfolding polka_def lock_verified_def by blast
  with assms(1,2) show ?thesis
    unfolding network_ok_def signatures_sound_def using voters_of_set by meson
qed (use voters_of_quorum assms in blast)

lemma voters_of_commit:
  assumes "network_ok net" and "k < length (nw_nodes net)" and "CommittedBlock n h \<in> set (node_trace net k)"
  obtains r where "isMajority (card {i. i < wd_validators (nw_world net) n \<and> voted net Precommit n i r h})
    (wd_validators (nw_world net) n)"
proof -
  have "commit_evidence (nw_world net) (node_trace net k) n h"
    using network_durable [OF assms(1,2)] assms(3) unfolding durable_ok_def commits_justified_def by blast
  then obtain r where "vote_quorum (nw_world net) (node_trace net k) Precommit n r h
      \<or> CommitProofVerified n r h \<in> set (node_trace net k)" unfolding commit_evidence_def by blast
  then show ?thesis
  proof
    assume "CommitProofVerified n r h \<in> set (node_trace net k)"
    with assms(1,2) show ?thesis
      unfolding network_ok_def signatures_sound_def using voters_of_set that by meson
  qed (use voters_of_quorum assms that in blast)
qed

section \<open>The nodes provide the contract\<close>

lemma correct_signed:
  assumes "network_ok net" and "i \<in> nw_correct net n" and "voted net t n i r h"
  shows "nw_owner net n i < length (nw_nodes net)" and "signed_vote (node_trace net (nw_owner net n i)) t n r (Some h)"
  using assms unfolding network_ok_def keys_exclusive_def voted_def signed_vote_def by blast+

lemma network_one_vote:
  assumes "network_ok net" and "i \<in> nw_correct net n" and "voted net t n i r h" and "voted net t n i r h'"
  shows "h = h'"
proof -
  have "one_value (node_trace net (nw_owner net n i))"
    using network_durable correct_signed(1) assms(1-3) unfolding durable_ok_def by blast
  with correct_signed(2) [OF assms(1,2)] assms(3,4) show ?thesis unfolding one_value_def by blast
qed

lemma network_precommit_polka:
  assumes "network_ok net" and "i \<in> nw_correct net n" and "voted net Precommit n i r h"
  shows "isMajority (card {j. j < wd_validators (nw_world net) n \<and> voted net Prevote n j r h}) (wd_validators (nw_world net) n)"
  using voters_of_quorum [OF assms(1) correct_signed(1) [OF assms]] network_durable [OF assms(1) correct_signed(1) [OF assms]]
    correct_signed(2) [OF assms] unfolding durable_ok_def votes_justified_def by blast

lemma network_lock_rule:
  assumes "network_ok net" and "i \<in> nw_correct net n" and "voted net Precommit n i r h" and "voted net Prevote n i r' h'" and "r < r'"
  shows "\<exists>k. r \<le> k \<and> k < r'
    \<and> isMajority (card {j. j < wd_validators (nw_world net) n \<and> voted net Prevote n j k h'}) (wd_validators (nw_world net) n)"
proof -
  note owner = correct_signed(1) [OF assms(1-3)]
  have "votes_justified (nw_world net) (node_trace net (nw_owner net n i))"
    using network_durable [OF assms(1) owner] unfolding durable_ok_def by blast
  then have "\<exists>k. r \<le> k \<and> k < r' \<and> polka (nw_world net) (node_trace net (nw_owner net n i)) n k h'"
    using correct_signed(2) [OF assms(1,2)] assms(3-5) unfolding votes_justified_def by blast
  then show ?thesis using voters_of_polka [OF assms(1) owner] by blast
qed

section \<open>A sample network\<close>

text \<open>The validator of the sample run and an observer that commits the block by its commit proof.\<close>

definition observer_env :: env where
  "observer_env = demo_env\<lparr>ev_isRegistered := (\<lambda>_ _. False)\<rparr>"

definition observer_start :: node where
  "observer_start = demo_start\<lparr>nd_proposalPromise := None, nd_promiseCount := 0\<rparr>"

definition observer_commit :: commit where
  "observer_commit = \<lparr>cm_block = pl_block (sample_payload 1 ''b''),
     cm_proof = \<lparr>cp_round = 0, cp_signature = ''s'', cp_validators = [True]\<rparr>, cm_serialized = []\<rparr>"

definition observer_committed :: node where
  "observer_committed = observer_start\<lparr>nd_blockNumber := 2, nd_repo := [((2, 0), demo_round 2 0 None False)],
     nd_trace := nd_trace demo_start @ [CommitProofVerified 1 0 ''b'', Dispatched ''consensus.precommitted.proposal'',
       CommittedBlock 1 ''b'', NewRoundStatistic 2 0, Dispatched ''consensus.round.started'']\<rparr>"

lemma observer_run:
  "run observer_env (initialState 1) None None (fresh_node [Restarted]) = Done observer_start"
  "verify_batch (signed_commit demo_world) 1 ''g'' [observer_commit] = Inr [observer_commit]"
  "commit_process observer_env observer_commit (emit (commit_marker observer_commit) observer_start) = (Inr Result_Accepted, observer_committed)"
  by code_simp+

lemma observer_env_ok: "env_ok demo_world observer_env"
  using demo_env_ok by (simp add: env_ok_def observer_env_def)

lemma observer_started: "started demo_world [] observer_start"
proof -
  have "booted demo_world observer_env [] (initialState 1) (fresh_node [Restarted])" by code_simp
  then show ?thesis
    unfolding started_def using observer_env_ok observer_run(1)
    by (intro exI [of _ observer_env] exI [of _ "initialState 1"] exI [of _ "fresh_node [Restarted]"])
      (simp add: initialState_def restored_ref_def)
qed

lemma observer_reach: "\<exists>base. reach demo_world base observer_committed"
proof -
  let ?s = "emit (commit_marker observer_commit) observer_start"
  have "reach demo_world (nd_trace observer_start) ?s"
    by (rule reach_step [OF reach_start [OF observer_started] step_verify_commit [OF observer_run(2)]]) simp
  moreover have "node_step demo_world ?s (snd (commit_process observer_env observer_commit ?s))"
    by (rule step_commit [OF observer_env_ok observer_run(2)]) (simp_all add: emit_def)
  ultimately show ?thesis using reach_step observer_run(3) by fastforce
qed

definition demo_network :: network where
  "demo_network = \<lparr>nw_world = demo_world, nw_nodes = [demo_committed, observer_committed],
     nw_owner = (\<lambda>_ _. 0), nw_correct = (\<lambda>_. {0})\<rparr>"

lemmas demo_trace_simps = demo_network_def node_trace_def demo_committed_def demo_revoted_def demo_next_round_def
  demo_locked_def demo_prevoted_def demo_start_def demo_state_def fresh_node_def observer_committed_def observer_start_def

lemma demo_voted:
  "voted demo_network Prevote 1 0 0 ''b''" "voted demo_network Precommit 1 0 0 ''b''" "voted demo_network Prevote 1 0 1 ''b''"
  using demo_trace by (auto simp: voted_def demo_network_def node_trace_def demo_vote_def)

lemma demo_signatures_sound: "signatures_sound demo_network"
  unfolding signatures_sound_def
proof (intro allI impI conjI)
  fix k m h assume "k < length (nw_nodes demo_network)" "AddedMessage m \<in> set (node_trace demo_network k)" "mg_blockHash m = Some h"
  then have "m = demo_vote Prevote 0 \<or> m = demo_vote Precommit 0" "h = ''b''"
    by (auto simp: demo_trace_simps less_2_cases_iff numeral_2_eq_2 less_Suc_eq demo_vote_def)
  with demo_voted show "voted demo_network (mg_type m) (mg_blockNumber m) (mg_validatorIndex m) (mg_round m) h"
    by (auto simp: demo_vote_def)
next
  fix k p r assume "k < length (nw_nodes demo_network)" "LockProofVerified p \<in> set (node_trace demo_network k)" "pr_validRound p = Some r"
  then have "p = demo_full 1" "r = 0"
    by (auto simp: demo_trace_simps less_Suc_eq demo_full_def demo_proposal_def)
  with demo_voted(1) show "\<exists>S \<subseteq> {..<wd_validators (nw_world demo_network) (bh_number (pr_blockHeader p))}.
           isMajority (card S) (wd_validators (nw_world demo_network) (bh_number (pr_blockHeader p)))
           \<and> (\<forall>i \<in> S. voted demo_network Prevote (bh_number (pr_blockHeader p)) i r (bh_hash (pr_blockHeader p)))"
    by (intro exI [of _ "{0}"]) (auto simp: demo_network_def demo_world_def isMajority_def demo_full_def demo_proposal_def sample_header_def)
next
  fix k n r h assume "k < length (nw_nodes demo_network)" "CommitProofVerified n r h \<in> set (node_trace demo_network k)"
  then have "n = 1" "r = 0" "h = ''b''" by (auto simp: demo_trace_simps less_Suc_eq)
  with demo_voted(2) show "\<exists>S \<subseteq> {..<wd_validators (nw_world demo_network) n}.
           isMajority (card S) (wd_validators (nw_world demo_network) n) \<and> (\<forall>i \<in> S. voted demo_network Precommit n i r h)"
    by (intro exI [of _ "{0}"]) (auto simp: demo_network_def demo_world_def isMajority_def)
qed

lemma demo_network_ok: "network_ok demo_network"
proof -
  have "keys_exclusive demo_network"
    by (auto simp: keys_exclusive_def demo_trace_simps less_Suc_eq demo_vote_def)
  moreover have "3 * card ({..<wd_validators demo_world n} - {0}) \<le> wd_validators demo_world n" for n
    by (simp add: demo_world_def lessThan_Suc)
  moreover have "\<forall>k < 2. \<exists>base. reach demo_world base ([demo_committed, observer_committed] ! k)"
    using demo_reach observer_reach by (auto simp: less_2_cases_iff)
  ultimately show ?thesis
    using demo_world_ok demo_signatures_sound by (simp add: network_ok_def demo_network_def numeral_2_eq_2)
qed

section \<open>Agreement\<close>

typedef safe_network = "{net. network_ok net}"
  using demo_network_ok by blast

lemma safe_network_ok: "network_ok (Rep_safe_network net)"
  using Rep_safe_network by blast

interpretation tendermint: bft_votes "wd_validators (nw_world (Rep_safe_network net)) n"
  "nw_correct (Rep_safe_network net) n" "voted (Rep_safe_network net) Prevote n" "voted (Rep_safe_network net) Precommit n"
  for net :: safe_network and n :: nat
proof unfold_locales
  let ?net = "Rep_safe_network net"
  have "3 * card ({..<wd_validators (nw_world ?net) n} - nw_correct ?net n) \<le> wd_validators (nw_world ?net) n"
    using safe_network_ok [of net] unfolding network_ok_def by blast
  then show "\<not> isMinority (card ({..<wd_validators (nw_world ?net) n} - nw_correct ?net n)) (wd_validators (nw_world ?net) n)"
    by (simp add: isMinority_def)
qed (use network_one_vote [OF safe_network_ok] network_precommit_polka [OF safe_network_ok]
      network_lock_rule [OF safe_network_ok] in blast)+

lemma network_decisions_agree:
  assumes "network_ok net"
    and "isMajority (card {j. j < wd_validators (nw_world net) n \<and> voted net Precommit n j r h}) (wd_validators (nw_world net) n)"
    and "isMajority (card {j. j < wd_validators (nw_world net) n \<and> voted net Precommit n j r' h'}) (wd_validators (nw_world net) n)"
  shows "h = h'"
  using tendermint.decided_values_agree [where net = "Abs_safe_network net"] assms Abs_safe_network_inverse [of net] by simp

text \<open>C1 (safety). Agreement: while at most a third of the validators are faulty, two nodes that run this
  code never commit different blocks at the same height, whatever the interleaving of their handlers,
  the messages lost, late or forged by faulty validators, the exceptions, crashes and restarts. In
  particular no node commits two blocks at one height.\<close>

theorem agreement:
  assumes "network_ok net" and "k < length (nw_nodes net)" and "k' < length (nw_nodes net)"
    and "CommittedBlock n h \<in> set (nd_trace (nw_nodes net ! k))"
    and "CommittedBlock n h' \<in> set (nd_trace (nw_nodes net ! k'))"
  shows "h = h'"
proof -
  obtain r where "isMajority (card {i. i < wd_validators (nw_world net) n \<and> voted net Precommit n i r h})
      (wd_validators (nw_world net) n)" using voters_of_commit assms(1,2,4) unfolding node_trace_def by blast
  moreover obtain r' where "isMajority (card {i. i < wd_validators (nw_world net) n \<and> voted net Precommit n i r' h'})
      (wd_validators (nw_world net) n)" using voters_of_commit assms(1,3,5) unfolding node_trace_def by blast
  ultimately show ?thesis using network_decisions_agree assms(1) by blast
qed

theorem agreement_witness:
  "{h. CommittedBlock 1 h \<in> set (nd_trace (nw_nodes demo_network ! 0))
      \<or> CommittedBlock 1 h \<in> set (nd_trace (nw_nodes demo_network ! 1))} = {''b''}"
proof -
  have a: "CommittedBlock 1 ''b'' \<in> set (nd_trace (nw_nodes demo_network ! 0))"
    using demo_trace(4) by (simp add: demo_network_def)
  have n: "0 < length (nw_nodes demo_network)" "1 < length (nw_nodes demo_network)" by (simp_all add: demo_network_def)
  from agreement [OF demo_network_ok n(1) n(1) _ a] agreement [OF demo_network_ok n(2) n(1) _ a] a
  show ?thesis by blast
qed

end
