(* ===== verification/Byte_Buffer.thy ===== *)
theory Byte_Buffer
  imports Chain_Types
begin

unbundle bit_operations_syntax

text \<open>
  \<open>packages/utils/source/byte-buffer.ts\<close> and \<open>validator-set-pack.ts\<close>: the buffer all wire formats are
  written to and read from.

  A \<open>ByteBuffer\<close> is a record of its bytes, the offset and the marker. A JavaScript \<open>number\<close> or
  \<open>bigint\<close> that is written is an \<open>int\<close>; every range check of the code is kept, and so are those of
  Node's \<open>Buffer\<close>, which throws when a fixed-width access leaves the buffer. The functions of
  \<open>viem\<close> that the code calls are the record \<open>viem\<close>, with their documented behaviour \<open>viem_law\<close>.

  The contract of a codec is the locale \<open>wire_codec\<close>: a writer appends the encoding of a value, a
  reader takes it off the front and accepts nothing else. Each pair of methods is an interpretation.
\<close>

section \<open>Little-endian and big-endian numbers\<close>

fun le_bytes :: "nat \<Rightarrow> nat \<Rightarrow> bytes" where
  "le_bytes 0 v = []"
| "le_bytes (Suc k) v = word_of_nat (v mod 256) # le_bytes k (v div 256)"

fun le_value :: "bytes \<Rightarrow> nat" where
  "le_value [] = 0"
| "le_value (b # bs) = unat b + 256 * le_value bs"

abbreviation be_bytes :: "nat \<Rightarrow> nat \<Rightarrow> bytes" where
  "be_bytes k v \<equiv> rev (le_bytes k v)"

abbreviation be_value :: "bytes \<Rightarrow> nat" where
  "be_value bs \<equiv> le_value (rev bs)"

lemma length_le_bytes [simp]: "length (le_bytes k v) = k"
  by (induction k arbitrary: v) simp_all

lemma unat_byte [simp]: "unat (word_of_nat (v mod 256) :: 8 word) = v mod 256"
  by (simp add: unat_of_nat)

lemma le_value_bytes: "v < 256 ^ k \<Longrightarrow> le_value (le_bytes k v) = v"
proof (induction k arbitrary: v)
  case (Suc k)
  then have "v div 256 < 256 ^ k" by (simp add: less_mult_imp_div_less mult.commute)
  with Suc.IH show ?case by simp
qed simp

lemma byte_lt: "unat (b :: 8 word) < 256"
  using unsigned_less [of b] by simp

lemma byte_mod_div [simp]:
  "(unat (b :: 8 word) + 256 * n) mod 256 = unat b" "(unat (b :: 8 word) + 256 * n) div 256 = n"
  "word_of_nat (unat b mod 256) = b"
  using byte_lt [of b] by simp_all

lemma le_bytes_value: "le_bytes (length bs) (le_value bs) = bs"
  by (induction bs) simp_all

lemma le_value_bound: "le_value bs < 256 ^ length bs"
proof (induction bs)
  case (Cons b bs)
  with byte_lt [of b] show ?case by simp
qed simp

lemma le_value_append: "le_value (xs @ ys) = le_value xs + 256 ^ length xs * le_value ys"
  by (induction xs) (simp_all add: algebra_simps)

section \<open>Library functions\<close>

text \<open>The shortest little-endian form of a number, with at least one byte.\<close>

fun le_min :: "nat \<Rightarrow> bytes" where
  "le_min n = (if n < 256 then [word_of_nat n] else word_of_nat (n mod 256) # le_min (n div 256))"

declare le_min.simps [simp del]

text \<open>RLP, the encoding of Ethereum: a byte below 128 stands for itself, other strings carry a header with
  their length, a list a header with the length of its items.\<close>

definition rlp_header :: "nat \<Rightarrow> nat \<Rightarrow> bytes" where
  "rlp_header base n =
     (if n < 56 then [word_of_nat (base + n)]
      else (let len = rev (le_min n) in word_of_nat (base + 55 + length len) # len))"

definition rlp_bytes :: "bytes \<Rightarrow> bytes" where
  "rlp_bytes bs = (if length bs = 1 \<and> unat (hd bs) < 128 then bs else rlp_header 128 (length bs) @ bs)"

definition rlp_list :: "bytes list \<Rightarrow> bytes" where
  "rlp_list items = (let body = concat (map rlp_bytes items) in rlp_header 192 (length body) @ body)"

record viem =
  vm_toBytes :: "nat \<Rightarrow> bytes"
  vm_padBytes :: "bytes \<Rightarrow> nat \<Rightarrow> bytes"
  vm_trim :: "bytes \<Rightarrow> bytes"
  vm_bytesToBigInt :: "bytes \<Rightarrow> nat"
  vm_hexToBytes :: "string \<Rightarrow> bytes"
  vm_getAddress :: "bytes \<Rightarrow> string"
  vm_toRlp :: "bytes list \<Rightarrow> bytes"

text \<open>\<open>toBytes(n)\<close> is the shortest big-endian form with at least one byte, \<open>padBytes\<close> fills with zeros on
  the left, \<open>trim\<close> drops leading zeros but the last byte, \<open>bytesToBigInt\<close> reads big-endian; an address is
  the checksummed text of its 20 bytes.\<close>

definition viem_law :: "viem \<Rightarrow> bool" where
  "viem_law vm \<longleftrightarrow>
     (\<forall>n. be_value (vm_toBytes vm n) = n \<and> vm_toBytes vm n \<noteq> []
        \<and> (n \<noteq> 0 \<longrightarrow> hd (vm_toBytes vm n) \<noteq> 0) \<and> (n = 0 \<longrightarrow> vm_toBytes vm n = [0]))
     \<and> (\<forall>bs k. length bs \<le> k \<longrightarrow> vm_padBytes vm bs k = replicate (k - length bs) 0 @ bs)
     \<and> (\<forall>bs. be_value (vm_trim vm bs) = be_value bs)
     \<and> (\<forall>bs. vm_bytesToBigInt vm bs = be_value bs)
     \<and> (\<forall>bs. length bs = 20 \<longrightarrow> vm_hexToBytes vm (vm_getAddress vm bs) = bs)
     \<and> (\<forall>items. vm_toRlp vm items = rlp_list items)"

lemma le_min_value: "le_value (le_min n) = n"
proof (induction n rule: le_min.induct)
  case (1 n)
  show ?case
  proof (cases "n < 256")
    case True
    then have "unat (word_of_nat n :: 8 word) = n" by (simp add: unat_of_nat)
    with True show ?thesis by (subst le_min.simps) simp
  next
    case False
    with 1 show ?thesis by (subst le_min.simps) simp
  qed
qed

lemma le_min_top: "n \<noteq> 0 \<Longrightarrow> last (le_min n) \<noteq> 0"
proof (induction n rule: le_min.induct)
  case (1 n)
  show ?case
  proof (cases "n < 256")
    case True
    then have "unat (word_of_nat n :: 8 word) = n" by (simp add: unat_of_nat)
    with True 1(2) show ?thesis by (subst le_min.simps) (metis if_True last_ConsL unsigned_0)
  next
    case False
    then have "last (le_min (n div 256)) \<noteq> 0" using 1(1) by simp
    moreover have "le_min (n div 256) \<noteq> []" by (subst le_min.simps) simp
    ultimately show ?thesis using False by (subst le_min.simps) simp
  qed
qed

lemma le_min_nonempty [simp]: "le_min n \<noteq> []"
  by (subst le_min.simps) simp

section \<open>ByteBuffer\<close>

record byte_buffer =
  bb_buffer :: bytes
  bb_offset :: nat
  bb_marker :: nat

definition fromSize :: "nat \<Rightarrow> byte_buffer" where
  "fromSize n = \<lparr>bb_buffer = replicate n 0, bb_offset = 0, bb_marker = 0\<rparr>"

definition fromBuffer :: "bytes \<Rightarrow> byte_buffer" where
  "fromBuffer buffer = \<lparr>bb_buffer = buffer, bb_offset = 0, bb_marker = 0\<rparr>"

definition getRemainder :: "byte_buffer \<Rightarrow> bytes" where
  "getRemainder b = drop (bb_offset b) (bb_buffer b)"

definition getRemainderLength :: "byte_buffer \<Rightarrow> nat" where
  "getRemainderLength b = length (bb_buffer b) - bb_offset b"

definition getResult :: "byte_buffer \<Rightarrow> bytes" where
  "getResult b = take (bb_offset b) (bb_buffer b)"

definition getResultLength :: "byte_buffer \<Rightarrow> nat" where
  "getResultLength b = bb_offset b"

definition mark :: "byte_buffer \<Rightarrow> byte_buffer" where
  "mark b = b\<lparr>bb_marker := bb_offset b\<rparr>"

definition reset :: "byte_buffer \<Rightarrow> byte_buffer" where
  "reset b = b\<lparr>bb_offset := bb_marker b\<rparr>"

definition skip :: "int \<Rightarrow> byte_buffer \<Rightarrow> error + byte_buffer" where
  "skip n b =
     (if n < - int (bb_offset b) \<or> n > int (getRemainderLength b) then Inl (JsError ''Jump over buffer boundary.'')
      else Inr (b\<lparr>bb_offset := nat (int (bb_offset b) + n)\<rparr>))"

definition toBuffer :: "byte_buffer \<Rightarrow> bytes" where
  "toBuffer b = bb_buffer b"

text \<open>Bytes copied to the offset, which moves behind them.\<close>

definition put_bytes :: "bytes \<Rightarrow> byte_buffer \<Rightarrow> byte_buffer" where
  "put_bytes bs b = b\<lparr>bb_buffer := take (bb_offset b) (bb_buffer b) @ bs @ drop (bb_offset b + length bs) (bb_buffer b),
     bb_offset := bb_offset b + length bs\<rparr>"

text \<open>\<open>Buffer.writeUInt*LE\<close> and \<open>readUInt*LE\<close> of \<open>k\<close> bytes.\<close>

definition node_write_le :: "nat \<Rightarrow> int \<Rightarrow> byte_buffer \<Rightarrow> error + byte_buffer" where
  "node_write_le k v b =
     (if bb_offset b + k > length (bb_buffer b) then Inl (RangeError ''ERR_OUT_OF_RANGE'')
      else Inr (put_bytes (le_bytes k (nat v)) b))"

definition node_read_le :: "nat \<Rightarrow> byte_buffer \<Rightarrow> error + (int \<times> byte_buffer)" where
  "node_read_le k b =
     (if bb_offset b + k > length (bb_buffer b) then Inl (RangeError ''ERR_OUT_OF_RANGE'')
      else Inr (int (le_value (take k (getRemainder b))), b\<lparr>bb_offset := bb_offset b + k\<rparr>))"

definition isSafeInteger :: "int \<Rightarrow> bool" where
  "isSafeInteger v = (\<bar>v\<bar> \<le> 2 ^ 53 - 1)"

definition write_number :: "nat \<Rightarrow> int \<Rightarrow> byte_buffer \<Rightarrow> error + byte_buffer" where
  "write_number k v b =
     (if \<not> isSafeInteger v then Inl (JsError ''value must be a safe integer'')
      else if v < 0 \<or> v > 2 ^ (8 * k) - 1 then Inl (JsError ''The value of value is out of range.'')
      else node_write_le k v b)"

definition writeUint8 :: "int \<Rightarrow> byte_buffer \<Rightarrow> error + byte_buffer" where
  "writeUint8 v b = write_number 1 v b"

definition readUint8 :: "byte_buffer \<Rightarrow> error + (int \<times> byte_buffer)" where
  "readUint8 b = node_read_le 1 b"

definition writeUint16 :: "int \<Rightarrow> byte_buffer \<Rightarrow> error + byte_buffer" where
  "writeUint16 v b = write_number 2 v b"

definition readUint16 :: "byte_buffer \<Rightarrow> error + (int \<times> byte_buffer)" where
  "readUint16 b = node_read_le 2 b"

definition writeUint32 :: "int \<Rightarrow> byte_buffer \<Rightarrow> error + byte_buffer" where
  "writeUint32 v b = write_number 4 v b"

definition readUint32 :: "byte_buffer \<Rightarrow> error + (int \<times> byte_buffer)" where
  "readUint32 b = node_read_le 4 b"

definition writeUint48 :: "int \<Rightarrow> byte_buffer \<Rightarrow> error + byte_buffer" where
  "writeUint48 v b = write_number 6 v b"

definition readUint48 :: "byte_buffer \<Rightarrow> error + (int \<times> byte_buffer)" where
  "readUint48 b = node_read_le 6 b"

definition writeUint64 :: "int \<Rightarrow> byte_buffer \<Rightarrow> error + byte_buffer" where
  "writeUint64 v b =
     (if v < 0 \<or> v > 2 ^ 64 - 1 then Inl (JsError ''The value of value is out of range.'')
      else node_write_le 8 v b)"

definition readUint64 :: "byte_buffer \<Rightarrow> error + (int \<times> byte_buffer)" where
  "readUint64 b = node_read_le 8 b"

definition writeBytes :: "bytes \<Rightarrow> byte_buffer \<Rightarrow> error + byte_buffer" where
  "writeBytes bs b =
     (if length bs > getRemainderLength b then Inl (JsError ''Write over buffer boundary.'')
      else Inr (put_bytes bs b))"

definition readBytes :: "nat \<Rightarrow> byte_buffer \<Rightarrow> error + (bytes \<times> byte_buffer)" where
  "readBytes n b =
     (if n > getRemainderLength b then Inl (JsError ''Read over buffer boundary.'')
      else Inr (take n (getRemainder b), b\<lparr>bb_offset := bb_offset b + n\<rparr>))"

definition readHex :: "nat \<Rightarrow> byte_buffer \<Rightarrow> error + (bytes \<times> byte_buffer)" where
  "readHex n b = readBytes n b"

definition writeUint256 :: "viem \<Rightarrow> int \<Rightarrow> byte_buffer \<Rightarrow> error + byte_buffer" where
  "writeUint256 vm v b =
     (if v < 0 then Inl (JsError ''value must be non-negative'')
      else (let bytes = vm_toBytes vm (nat v)
            in if length bytes > 32 then Inl (JsError ''value must fit into uint256'')
               else writeBytes (vm_padBytes vm bytes 32) b))"

definition readUint256 :: "viem \<Rightarrow> byte_buffer \<Rightarrow> error + (int \<times> byte_buffer)" where
  "readUint256 vm b =
     sum_bind (readBytes 32 b) (\<lambda>(bytes, b1). Inr (int (vm_bytesToBigInt vm (vm_trim vm bytes)), b1))"

section \<open>Validator sets as bitmaps\<close>

definition validatorSetPack :: "bool list \<Rightarrow> int" where
  "validatorSetPack validatorSet =
     fold (\<lambda>(i, element) packed. if element then packed + 2 ^ i else packed) (enumerate 0 validatorSet) 0"

text \<open>The loop of \<open>validatorSetUnpack\<close> with its \<open>mask\<close>.\<close>

fun unpack_loop :: "int \<Rightarrow> int \<Rightarrow> nat \<Rightarrow> bool list" where
  "unpack_loop packed msk 0 = []"
| "unpack_loop packed msk (Suc n) = (packed AND msk \<noteq> 0) # unpack_loop packed (push_bit 1 msk) n"

definition validatorSetUnpack :: "int \<Rightarrow> nat \<Rightarrow> error + bool list" where
  "validatorSetUnpack packed numberOfValidators =
     (if packed < 0 then Inl (RangeError ''packed must be non-negative'')
      else if drop_bit numberOfValidators packed \<noteq> 0
      then Inl (RangeError ''packed contains set bits beyond numberOfValidators'')
      else Inr (unpack_loop packed 1 numberOfValidators))"

lemma unpack_loop_bits: "unpack_loop packed (push_bit k 1) n = map (bit packed) [k..<k + n]"
proof (induction n arbitrary: k)
  case (Suc n)
  have "(packed AND push_bit k 1 \<noteq> 0) = bit packed k"
    by (simp add: and_exp_eq_0_iff_not_bit push_bit_of_1)
  moreover have "push_bit 1 (push_bit k 1 :: int) = push_bit (Suc k) 1" by simp
  ultimately show ?case using Suc [of "Suc k"] by (simp add: upt_conv_Cons mult.commute del: push_bit_push_bit upt_Suc)
qed simp

text \<open>Packing is the binary number whose digits are the flags.\<close>

fun flags_value :: "bool list \<Rightarrow> int" where
  "flags_value [] = 0"
| "flags_value (x # xs) = of_bool x + 2 * flags_value xs"

lemma pack_fold:
  "fold (\<lambda>(i, element) packed. if element then packed + 2 ^ i else packed) (enumerate k xs) acc
     = acc + 2 ^ k * flags_value xs"
  by (induction xs arbitrary: k acc) (auto simp: algebra_simps)

lemma validatorSetPack_value: "validatorSetPack xs = flags_value xs"
  using pack_fold [of 0 xs 0] by (simp add: validatorSetPack_def)

lemma flags_value_bounds: "0 \<le> flags_value xs \<and> flags_value xs < 2 ^ length xs"
  by (induction xs) auto

lemma flags_value_bits: "map (bit (flags_value xs)) [0..<length xs] = xs"
proof (induction xs)
  case (Cons x xs)
  have "map (bit (flags_value (x # xs))) [0..<length (x # xs)]
      = bit (flags_value (x # xs)) 0 # map (\<lambda>i. bit (flags_value (x # xs)) (Suc i)) [0..<length xs]"
    by (simp add: map_upt_Suc del: upt_Suc)
  also have "\<dots> = x # map (bit (flags_value xs)) [0..<length xs]"
    by (auto simp: bit_0 bit_Suc)
  finally show ?case using Cons by simp
qed simp

lemma flags_of_bits: "0 \<le> v \<Longrightarrow> v < 2 ^ n \<Longrightarrow> flags_value (map (bit v) [0..<n]) = v"
proof (induction n arbitrary: v)
  case (Suc n)
  have half: "0 \<le> v div 2" "v div 2 < 2 ^ n" using Suc.prems by simp_all
  have "map (bit v) [0..<Suc n] = odd v # map (bit (v div 2)) [0..<n]"
    by (simp add: map_upt_Suc bit_0 bit_Suc del: upt_Suc)
  then show ?case using Suc.IH [OF half] by (simp add: of_bool_odd_eq_mod_2)
qed simp

lemma unpack_pack:
  "validatorSetUnpack (validatorSetPack xs) (length xs) = Inr xs
   \<and> (validatorSetUnpack packed n = Inr ys) = (length ys = n \<and> validatorSetPack ys = packed)"
proof
  have unpack: "validatorSetUnpack v n = (if 0 \<le> v \<and> v < 2 ^ n then Inr (map (bit v) [0..<n]) else validatorSetUnpack v n)"
    for v n using unpack_loop_bits [of v 0 n] by (simp add: validatorSetUnpack_def drop_bit_eq_div)
  have refuse: "\<not> (0 \<le> v \<and> v < 2 ^ n) \<Longrightarrow> validatorSetUnpack v n \<noteq> Inr zs" for v n zs
    by (auto simp: validatorSetUnpack_def drop_bit_eq_div zdiv_eq_0_iff)
  show pack: "validatorSetUnpack (validatorSetPack xs) (length xs) = Inr xs" for xs
    using unpack [of "flags_value xs" "length xs"] flags_value_bounds [of xs] flags_value_bits [of xs]
    by (simp add: validatorSetPack_value)
  show "(validatorSetUnpack packed n = Inr ys) = (length ys = n \<and> validatorSetPack ys = packed)"
  proof
    assume u: "validatorSetUnpack packed n = Inr ys"
    then have b: "0 \<le> packed" "packed < 2 ^ n" using refuse by blast+
    with u unpack [of packed n] flags_of_bits [OF b] show "length ys = n \<and> validatorSetPack ys = packed"
      by (auto simp: validatorSetPack_value)
  qed (use pack in auto)
qed

text \<open>\<open>validatorSetPack\<close> and \<open>validatorSetUnpack\<close>: unpacking a packed set with its length returns
  it, and a bitmap that unpacks is exactly the packing of the result: no two bitmaps of one length
  give the same set, and stray bits are refused.\<close>

theorem validator_set_roundtrip:
  "validatorSetUnpack (validatorSetPack xs) (length xs) = Inr xs
   \<and> (validatorSetUnpack packed n = Inr ys) = (length ys = n \<and> validatorSetPack ys = packed)"
  by (rule unpack_pack)

section \<open>The contract of a codec\<close>

definition bb_ok :: "byte_buffer \<Rightarrow> bool" where
  "bb_ok b \<longleftrightarrow> bb_offset b \<le> length (bb_buffer b)"

text \<open>\<open>b'\<close> is \<open>b\<close> after \<open>bs\<close> was written.\<close>

definition appended :: "byte_buffer \<Rightarrow> bytes \<Rightarrow> byte_buffer \<Rightarrow> bool" where
  "appended b bs b' \<longleftrightarrow> bb_ok b' \<and> getResult b' = getResult b @ bs
     \<and> getRemainderLength b = length bs + getRemainderLength b'"

text \<open>\<open>b'\<close> is \<open>b\<close> after \<open>bs\<close> was read.\<close>

definition consumed :: "byte_buffer \<Rightarrow> bytes \<Rightarrow> byte_buffer \<Rightarrow> bool" where
  "consumed b bs b' \<longleftrightarrow> bb_ok b' \<and> getRemainder b = bs @ getRemainder b'"

lemma fromSize_simps [simp]:
  "bb_ok (fromSize n)" "getResult (fromSize n) = []" "getRemainderLength (fromSize n) = n"
  by (simp_all add: fromSize_def bb_ok_def getResult_def getRemainderLength_def)

lemma fromBuffer_simps [simp]:
  "bb_ok (fromBuffer bs)" "getRemainder (fromBuffer bs) = bs" "getRemainderLength (fromBuffer bs) = length bs"
  by (simp_all add: fromBuffer_def bb_ok_def getRemainder_def getRemainderLength_def)

lemma length_getRemainder: "length (getRemainder b) = getRemainderLength b"
  by (simp add: getRemainder_def getRemainderLength_def)

lemma put_bytes_appended: "bb_ok b \<Longrightarrow> length bs \<le> getRemainderLength b \<Longrightarrow> appended b bs (put_bytes bs b)"
  by (auto simp: appended_def bb_ok_def getResult_def getRemainderLength_def put_bytes_def min_def)

lemma read_consumed:
  "bb_ok b \<Longrightarrow> n \<le> getRemainderLength b \<Longrightarrow> consumed b (take n (getRemainder b)) (b\<lparr>bb_offset := bb_offset b + n\<rparr>)"
  by (auto simp: consumed_def bb_ok_def getRemainder_def getRemainderLength_def)
    (metis add.commute append_take_drop_id drop_drop)

lemma appended_trans:
  "appended b xs b1 \<Longrightarrow> appended b1 ys b2 \<Longrightarrow> appended b (xs @ ys) b2"
  by (simp add: appended_def)

lemma consumed_trans: "consumed b xs b1 \<Longrightarrow> consumed b1 ys b2 \<Longrightarrow> consumed b (xs @ ys) b2"
  by (simp add: consumed_def)

locale wire_codec =
  fixes put :: "'v \<Rightarrow> byte_buffer \<Rightarrow> error + byte_buffer"
    and get :: "byte_buffer \<Rightarrow> error + ('v \<times> byte_buffer)"
    and enc :: "'v \<Rightarrow> bytes"
    and ok :: "'v \<Rightarrow> bool"
  assumes put_appends: "\<lbrakk>ok v; bb_ok b; length (enc v) \<le> getRemainderLength b\<rbrakk> \<Longrightarrow>
      \<exists>b'. put v b = Inr b' \<and> appended b (enc v) b'"
    and get_consumes: "\<lbrakk>ok v; bb_ok b; getRemainder b = enc v @ rest\<rbrakk> \<Longrightarrow>
      \<exists>b'. get b = Inr (v, b') \<and> consumed b (enc v) b'"
    and get_canonical: "\<lbrakk>bb_ok b; get b = Inr (v, b')\<rbrakk> \<Longrightarrow> ok v \<and> consumed b (enc v) b'"
begin

text \<open>Written into a buffer of its size and read from the result.\<close>

lemma put_get:
  assumes "ok v"
  shows "\<exists>b'. put v (fromSize (length (enc v))) = Inr b' \<and> getResult b' = enc v
    \<and> (\<exists>r. get (fromBuffer (getResult b')) = Inr (v, r) \<and> getRemainderLength r = 0)"
proof -
  obtain b' where b': "put v (fromSize (length (enc v))) = Inr b'" "appended (fromSize (length (enc v))) (enc v) b'"
    using put_appends [OF assms fromSize_simps(1)] by fastforce
  then have res: "getResult b' = enc v" by (simp add: appended_def)
  obtain r where r: "get (fromBuffer (enc v)) = Inr (v, r)" "consumed (fromBuffer (enc v)) (enc v) r"
    using get_consumes [OF assms fromBuffer_simps(1), of "enc v" "[]"] by auto
  then have "getRemainder r = []" by (simp add: consumed_def)
  then have "getRemainderLength r = 0" by (metis length_getRemainder list.size(3))
  with b'(1) res r show ?thesis by auto
qed

text \<open>One encoding per value.\<close>

lemma get_unique:
  assumes "get (fromBuffer bs) = Inr (v, r)" and "get (fromBuffer cs) = Inr (v, r')"
    and "getRemainderLength r = 0" and "getRemainderLength r' = 0"
  shows "bs = cs"
proof -
  have "getRemainder r = []" "getRemainder r' = []" using assms(3,4) length_getRemainder by (metis length_0_conv)+
  with get_canonical [OF fromBuffer_simps(1) assms(1)] get_canonical [OF fromBuffer_simps(1) assms(2)]
  show ?thesis by (simp add: consumed_def)
qed

end

section \<open>The codecs of ByteBuffer\<close>

lemma node_read_le_cases:
  "bb_ok b \<Longrightarrow> node_read_le k b = (if k \<le> getRemainderLength b
     then Inr (int (le_value (take k (getRemainder b))), b\<lparr>bb_offset := bb_offset b + k\<rparr>) else Inl (RangeError ''ERR_OUT_OF_RANGE''))"
  by (auto simp: node_read_le_def getRemainderLength_def bb_ok_def)

lemma read_le_codec:
  assumes "bb_ok b" and "node_read_le k b = Inr (v, b')"
  shows "0 \<le> v \<and> v < 2 ^ (8 * k) \<and> consumed b (le_bytes k (nat v)) b'"
proof -
  have k: "k \<le> getRemainderLength b" and v: "v = int (le_value (take k (getRemainder b)))"
    and b': "b' = b\<lparr>bb_offset := bb_offset b + k\<rparr>"
    using assms by (auto simp: node_read_le_cases split: if_splits)
  let ?bs = "take k (getRemainder b)"
  have len: "length ?bs = k" using k by (simp add: length_getRemainder)
  have "le_value ?bs < 2 ^ (8 * k)" using le_value_bound [of ?bs] len by (simp add: power_mult)
  then have "v < 2 ^ (8 * k)" unfolding v by (metis of_nat_less_iff of_nat_numeral of_nat_power)
  moreover have "le_bytes k (nat v) = ?bs" using le_bytes_value [of ?bs] len v by simp
  ultimately show ?thesis using read_consumed [OF assms(1) k] v b' by simp
qed

lemma read_le_written:
  assumes "bb_ok b" and "0 \<le> v" and "v < 2 ^ (8 * k)" and "getRemainder b = le_bytes k (nat v) @ rest"
  shows "\<exists>b'. node_read_le k b = Inr (v, b') \<and> consumed b (le_bytes k (nat v)) b'"
proof -
  have k: "k \<le> getRemainderLength b" using assms(4) length_getRemainder [of b] by simp
  have "nat v < 256 ^ k" using assms(2,3) by (simp add: nat_less_iff power_mult)
  then have "le_value (le_bytes k (nat v)) = nat v" by (rule le_value_bytes)
  with k assms(1,2,4) read_consumed [OF assms(1) k] show ?thesis by (simp add: node_read_le_cases)
qed

lemma write_le_appends:
  "bb_ok b \<Longrightarrow> k \<le> getRemainderLength b \<Longrightarrow> \<exists>b'. node_write_le k v b = Inr b' \<and> appended b (le_bytes k (nat v)) b'"
  using put_bytes_appended [of b "le_bytes k (nat v)"] by (auto simp: node_write_le_def getRemainderLength_def bb_ok_def)

lemma number_codec:
  assumes "k \<le> 6"
  shows "wire_codec (write_number k) (node_read_le k) (\<lambda>v. le_bytes k (nat v)) (\<lambda>v. 0 \<le> v \<and> v < 2 ^ (8 * k))"
proof
  fix v b assume v: "0 \<le> v \<and> v < 2 ^ (8 * k)" and b: "bb_ok b" "length (le_bytes k (nat v)) \<le> getRemainderLength b"
  have "(2::int) ^ (8 * k) \<le> 2 ^ 48" using assms by (intro power_increasing) simp_all
  then have "isSafeInteger v" using v by (simp add: isSafeInteger_def)
  with v b write_le_appends [OF b(1), of k v]
  show "\<exists>b'. write_number k v b = Inr b' \<and> appended b (le_bytes k (nat v)) b'" by (auto simp: write_number_def)
qed (use read_le_written read_le_codec in blast)+

interpretation uint8_codec: wire_codec writeUint8 readUint8 "\<lambda>v. le_bytes 1 (nat v)" "\<lambda>v. 0 \<le> v \<and> v < 2 ^ (8 * 1)"
  using number_codec [of 1] unfolding writeUint8_def readUint8_def by simp

interpretation uint16_codec: wire_codec writeUint16 readUint16 "\<lambda>v. le_bytes 2 (nat v)" "\<lambda>v. 0 \<le> v \<and> v < 2 ^ (8 * 2)"
  using number_codec [of 2] unfolding writeUint16_def readUint16_def by simp

interpretation uint32_codec: wire_codec writeUint32 readUint32 "\<lambda>v. le_bytes 4 (nat v)" "\<lambda>v. 0 \<le> v \<and> v < 2 ^ (8 * 4)"
  using number_codec [of 4] unfolding writeUint32_def readUint32_def by simp

interpretation uint48_codec: wire_codec writeUint48 readUint48 "\<lambda>v. le_bytes 6 (nat v)" "\<lambda>v. 0 \<le> v \<and> v < 2 ^ (8 * 6)"
  using number_codec [of 6] unfolding writeUint48_def readUint48_def by simp

interpretation uint64_codec: wire_codec writeUint64 readUint64 "\<lambda>v. le_bytes 8 (nat v)" "\<lambda>v. 0 \<le> v \<and> v < 2 ^ (8 * 8)"
proof
  fix v b assume "0 \<le> v \<and> v < 2 ^ (8 * 8)" and "bb_ok b" "length (le_bytes 8 (nat v)) \<le> getRemainderLength b"
  then show "\<exists>b'. writeUint64 v b = Inr b' \<and> appended b (le_bytes 8 (nat v)) b'"
    using write_le_appends [of b 8 v] by (auto simp: writeUint64_def)
qed (use read_le_written [where k = 8] read_le_codec [where k = 8] in \<open>auto simp: readUint64_def\<close>)

interpretation bytes_codec: wire_codec writeBytes "readBytes n" "\<lambda>bs. bs" "\<lambda>bs. length bs = n" for n
proof
  fix bs b rest assume "length bs = n" "bb_ok b" "getRemainder b = bs @ rest"
  then show "\<exists>b'. readBytes n b = Inr (bs, b') \<and> consumed b bs b'"
    using read_consumed [of b n] length_getRemainder [of b] by (auto simp: readBytes_def)
next
  fix bs b b' assume b: "bb_ok b" "readBytes n b = Inr (bs, b')"
  then have n: "n \<le> getRemainderLength b" by (auto simp: readBytes_def split: if_splits)
  with b read_consumed [OF b(1) n] show "length bs = n \<and> consumed b bs b'"
    by (auto simp: readBytes_def length_getRemainder split: if_splits)
qed (auto simp: writeBytes_def intro: put_bytes_appended)

section \<open>256-bit numbers\<close>

lemma be_value_ge: "bs \<noteq> [] \<Longrightarrow> hd bs \<noteq> 0 \<Longrightarrow> 256 ^ (length bs - 1) \<le> be_value bs"
proof (cases bs)
  case (Cons b cs)
  assume "hd bs \<noteq> 0"
  with Cons have "0 < unat b" by (simp add: unat_gt_0)
  then have "256 ^ length cs * 1 \<le> 256 ^ length cs * unat b" by (intro mult_left_mono) simp_all
  with Cons show ?thesis by (simp add: le_value_append trans_le_add2)
qed simp

lemma toBytes_length:
  assumes "viem_law vm" and "n < 256 ^ k" and "0 < k"
  shows "length (vm_toBytes vm n) \<le> k"
proof (cases "n = 0")
  case False
  with assms(1) have ne: "vm_toBytes vm n \<noteq> []" "hd (vm_toBytes vm n) \<noteq> 0" and v: "be_value (vm_toBytes vm n) = n"
    by (simp_all add: viem_law_def)
  have "256 ^ (length (vm_toBytes vm n) - 1) < (256::nat) ^ k"
    using be_value_ge [OF ne] v assms(2) by linarith
  then show ?thesis by simp
qed (use assms in \<open>simp add: viem_law_def\<close>)

lemma le_value_replicate_0 [simp]: "le_value (replicate k 0) = 0"
  by (induction k) simp_all

lemma padded_toBytes:
  assumes "viem_law vm" and "length (vm_toBytes vm n) \<le> k"
  shows "vm_padBytes vm (vm_toBytes vm n) k = be_bytes k n"
proof -
  let ?bs = "replicate (k - length (vm_toBytes vm n)) 0 @ vm_toBytes vm n"
  have "le_value (rev ?bs) = n" "length (rev ?bs) = k"
    using assms by (simp_all add: viem_law_def le_value_append)
  then have "rev ?bs = le_bytes k n" using le_bytes_value [of "rev ?bs"] by simp
  with assms show ?thesis by (metis rev_rev_ident viem_law_def)
qed

lemma uint256_codec:
  assumes "viem_law vm"
  shows "wire_codec (writeUint256 vm) (readUint256 vm) (\<lambda>v. be_bytes 32 (nat v)) (\<lambda>v. 0 \<le> v \<and> v < 2 ^ (8 * 32))"
proof -
  have trim: "vm_bytesToBigInt vm (vm_trim vm bs) = be_value bs" for bs using assms by (simp add: viem_law_def)
  have pow: "(2::int) ^ (8 * 32) = int (256 ^ 32)" by simp
  show ?thesis
  proof
    fix v b assume v: "0 \<le> v \<and> v < 2 ^ (8 * 32)" and b: "bb_ok b" "length (be_bytes 32 (nat v)) \<le> getRemainderLength b"
    have "nat v < 256 ^ 32" using v unfolding pow by (simp add: nat_less_iff)
    then have "length (vm_toBytes vm (nat v)) \<le> 32" by (rule toBytes_length [OF assms]) simp
    with v b padded_toBytes [OF assms, of "nat v" 32] put_bytes_appended [OF b]
    show "\<exists>b'. writeUint256 vm v b = Inr b' \<and> appended b (be_bytes 32 (nat v)) b'"
      by (simp add: writeUint256_def Let_def writeBytes_def)
  next
    fix v b rest assume v: "0 \<le> v \<and> v < 2 ^ (8 * 32)" and b: "bb_ok b" "getRemainder b = be_bytes 32 (nat v) @ rest"
    obtain b' where "readBytes 32 b = Inr (be_bytes 32 (nat v), b')" "consumed b (be_bytes 32 (nat v)) b'"
      using bytes_codec.get_consumes [of "be_bytes 32 (nat v)" 32 b rest] b by auto
    moreover have "nat v < 256 ^ 32" using v unfolding pow by (simp add: nat_less_iff)
    ultimately show "\<exists>b'. readUint256 vm b = Inr (v, b') \<and> consumed b (be_bytes 32 (nat v)) b'"
      using v by (simp add: readUint256_def trim le_value_bytes)
  next
    fix b v b' assume b: "bb_ok b" "readUint256 vm b = Inr (v, b')"
    then obtain bs where bs: "readBytes 32 b = Inr (bs, b')" "v = int (be_value bs)"
      by (auto simp: readUint256_def sum_bind_Inr_iff trim)
    from bytes_codec.get_canonical [OF b(1) bs(1)] have len: "length bs = 32" "consumed b bs b'" by simp_all
    have "be_value bs < 256 ^ 32" using le_value_bound [of "rev bs"] len by simp
    then have "v < 2 ^ (8 * 32)" unfolding bs(2) pow of_nat_less_iff .
    moreover have "be_bytes 32 (nat v) = bs" using le_bytes_value [of "rev bs"] len bs(2) by simp
    ultimately show "(0 \<le> v \<and> v < 2 ^ (8 * 32)) \<and> consumed b (be_bytes 32 (nat v)) b'" using len bs(2) by simp
  qed
qed

section \<open>Building codecs from codecs\<close>

text \<open>A codec of another type behind a pair of conversions, of which the first may refuse.\<close>

lemma codec_map:
  assumes "wire_codec p g e good" and "\<And>v. un (f v) = Inr v"
  shows "wire_codec (\<lambda>x b. sum_bind (un x) (\<lambda>v. p v b)) (\<lambda>b. sum_bind (g b) (\<lambda>(v, b'). Inr (f v, b')))
    (\<lambda>x. e (projr (un x))) (\<lambda>x. \<exists>v. x = f v \<and> good v)"
proof
  show "\<exists>b'. sum_bind (un x) (\<lambda>v. p v b) = Inr b' \<and> appended b (e (projr (un x))) b'"
    if "\<exists>v. x = f v \<and> good v" "bb_ok b" "length (e (projr (un x))) \<le> getRemainderLength b" for x b
    using that assms(2) wire_codec.put_appends [OF assms(1), of _ b] by auto
  show "\<exists>b'. sum_bind (g b) (\<lambda>(v, b'). Inr (f v, b')) = Inr (x, b') \<and> consumed b (e (projr (un x))) b'"
    if "\<exists>v. x = f v \<and> good v" "bb_ok b" "getRemainder b = e (projr (un x)) @ rest" for x b rest
  proof -
    from that(1) obtain v where v: "x = f v" "good v" by blast
    with that assms(2) wire_codec.get_consumes [OF assms(1) v(2) that(2), of rest] show ?thesis by auto
  qed
  show "(\<exists>v. x = f v \<and> good v) \<and> consumed b (e (projr (un x))) b'"
    if "bb_ok b" "sum_bind (g b) (\<lambda>(v, b'). Inr (f v, b')) = Inr (x, b')" for x b b'
    using that assms(2) wire_codec.get_canonical [OF assms(1), of b] by (auto simp: sum_bind_Inr_iff)
qed

text \<open>A header codec, then a codec that the header selects.\<close>

lemma codec_seq:
  assumes "wire_codec p g e good" and "\<And>h. good h \<Longrightarrow> wire_codec (p' h) (g' h) (e' h) (good' h)"
    and "\<And>h v. good h \<Longrightarrow> good' h v \<Longrightarrow> hdr v = h"
  shows "wire_codec (\<lambda>v b. sum_bind (p (hdr v) b) (p' (hdr v) v)) (\<lambda>b. sum_bind (g b) (\<lambda>(h, b1). g' h b1))
    (\<lambda>v. e (hdr v) @ e' (hdr v) v) (\<lambda>v. good (hdr v) \<and> good' (hdr v) v)"
proof
  fix v b assume v: "good (hdr v) \<and> good' (hdr v) v" and b: "bb_ok b" "length (e (hdr v) @ e' (hdr v) v) \<le> getRemainderLength b"
  obtain b1 where b1: "p (hdr v) b = Inr b1" "appended b (e (hdr v)) b1"
    using wire_codec.put_appends [OF assms(1), of "hdr v" b] v b by auto
  then have "bb_ok b1" "length (e' (hdr v) v) \<le> getRemainderLength b1" using b by (simp_all add: appended_def)
  then obtain b2 where "p' (hdr v) v b1 = Inr b2" "appended b1 (e' (hdr v) v) b2"
    using wire_codec.put_appends [OF assms(2), of "hdr v" v b1] v by auto
  with b1 show "\<exists>b'. sum_bind (p (hdr v) b) (p' (hdr v) v) = Inr b' \<and> appended b (e (hdr v) @ e' (hdr v) v) b'"
    using appended_trans by auto
next
  fix v b rest assume v: "good (hdr v) \<and> good' (hdr v) v" and b: "bb_ok b" "getRemainder b = (e (hdr v) @ e' (hdr v) v) @ rest"
  obtain b1 where b1: "g b = Inr (hdr v, b1)" "consumed b (e (hdr v)) b1"
    using wire_codec.get_consumes [OF assms(1), of "hdr v" b "e' (hdr v) v @ rest"] v b by auto
  then have "bb_ok b1" "getRemainder b1 = e' (hdr v) v @ rest" using b by (simp_all add: consumed_def)
  then obtain b2 where "g' (hdr v) b1 = Inr (v, b2)" "consumed b1 (e' (hdr v) v) b2"
    using wire_codec.get_consumes [OF assms(2), of "hdr v" v b1 rest] v by auto
  with b1 show "\<exists>b'. sum_bind (g b) (\<lambda>(h, b1). g' h b1) = Inr (v, b') \<and> consumed b (e (hdr v) @ e' (hdr v) v) b'"
    using consumed_trans by auto
next
  fix b v b' assume b: "bb_ok b" "sum_bind (g b) (\<lambda>(h, b1). g' h b1) = Inr (v, b')"
  then obtain h b1 where h: "g b = Inr (h, b1)" "g' h b1 = Inr (v, b')" by (auto simp: sum_bind_Inr_iff)
  from wire_codec.get_canonical [OF assms(1) b(1) h(1)] have c1: "good h" "consumed b (e h) b1" by simp_all
  then have "bb_ok b1" by (simp add: consumed_def)
  from wire_codec.get_canonical [OF assms(2) [OF c1(1)] this h(2)] have c2: "good' h v" "consumed b1 (e' h v) b'" by simp_all
  with c1 assms(3) show "(good (hdr v) \<and> good' (hdr v) v) \<and> consumed b (e (hdr v) @ e' (hdr v) v) b'"
    using consumed_trans by auto
qed

end
