(* ===== verification/Wire_Serializer.thy ===== *)
theory Wire_Serializer
  imports Byte_Buffer
begin

text \<open>
  \<open>packages/serializer/source/serializer.ts\<close>: objects written and read field by field along a schema.

  An object is the map of its properties; \<open>js_value\<close> is the value of one. A schema lists its
  properties in order (\<open>Object.entries\<close>). Hex strings are decoded as Node's \<open>Buffer.from(_, "hex")\<close>
  does: up to the first pair that is not hexadecimal. A value of a type the schema does not allow
  takes the error branch the code takes for it.

  Every property type is a \<open>wire_codec\<close>, and so is every schema: what is written is read back, and
  a text that is read is the only one with that content.
\<close>

section \<open>Hex strings\<close>

definition hex_chars :: string where
  "hex_chars = ''0123456789abcdef''"

definition hex_digit :: "char \<Rightarrow> nat option" where
  "hex_digit c =
     (let n = of_char c
      in if 48 \<le> n \<and> n \<le> 57 then Some (n - 48)
         else if 97 \<le> n \<and> n \<le> 102 then Some (n - 87)
         else if 65 \<le> n \<and> n \<le> 70 then Some (n - 55)
         else None)"

fun from_hex :: "string \<Rightarrow> bytes" where
  "from_hex (a # b # cs) =
     (case (hex_digit a, hex_digit b) of
        (Some x, Some y) \<Rightarrow> word_of_nat (16 * x + y) # from_hex cs
      | _ \<Rightarrow> [])"
| "from_hex _ = []"

definition to_hex :: "bytes \<Rightarrow> string" where
  "to_hex bs = concat (map (\<lambda>b. [hex_chars ! (unat b div 16), hex_chars ! (unat b mod 16)]) bs)"

section \<open>Values and schemas\<close>

datatype js_value =
    V_Undefined
  | V_Number int
  | V_BigInt int
  | V_String string
  | V_Flags "bool list"
  | V_Buffers "bytes list"

datatype property_type =
    P_uint8 | P_uint16 | P_uint32 | P_uint48 | P_uint64 | P_uint256 | P_bigint
  | P_hash "nat option" | P_blockHash | P_address | P_publicKey | P_consensusSignature
  | P_validatorSet | P_hex | P_transactions | P_other string

record property_schema =
  ps_type :: property_type
  ps_optional :: bool

type_synonym schema = "(string \<times> property_schema) list"
type_synonym js_object = "(string, js_value) jsmap"

section \<open>Writing\<close>

fun js_number :: "js_value \<Rightarrow> error + int" where
  "js_number (V_Number n) = Inr n"
| "js_number _ = Inl (JsError ''value must be a safe integer'')"

fun js_bigint :: "js_value \<Rightarrow> error + int" where
  "js_bigint (V_BigInt n) = Inr n"
| "js_bigint _ = Inl (JsError ''value must be a bigint'')"

fun js_hex :: "js_value \<Rightarrow> error + bytes" where
  "js_hex (V_String s) = Inr (from_hex s)"
| "js_hex _ = Inl TypeError"

fun js_address :: "viem \<Rightarrow> js_value \<Rightarrow> error + bytes" where
  "js_address vm (V_String s) = Inr (vm_hexToBytes vm s)"
| "js_address vm _ = Inl TypeError"

definition writeOptional :: "bool \<Rightarrow> js_value \<Rightarrow> (byte_buffer \<Rightarrow> error + byte_buffer) \<Rightarrow> byte_buffer \<Rightarrow> error + byte_buffer" where
  "writeOptional optional v wr result =
     (if optional
      then if v = V_Undefined then writeUint8 0 result else sum_bind (writeUint8 1 result) wr
      else wr result)"

fun write_transactions :: "bytes list \<Rightarrow> byte_buffer \<Rightarrow> error + byte_buffer" where
  "write_transactions [] result = Inr result"
| "write_transactions (t # ts) result =
     sum_bind (sum_bind (writeUint32 (int (length t)) result) (writeBytes t)) (write_transactions ts)"

fun write_validator_set :: "js_value \<Rightarrow> byte_buffer \<Rightarrow> error + byte_buffer" where
  "write_validator_set (V_Flags validatorSet) result =
     sum_bind (writeUint8 (int (length validatorSet)) result) (writeUint64 (validatorSetPack validatorSet))"
| "write_validator_set _ result = Inl AssertError"

fun write_hex :: "js_value \<Rightarrow> byte_buffer \<Rightarrow> error + byte_buffer" where
  "write_hex (V_String s) result =
     sum_bind (writeUint32 (int (length (from_hex s))) result) (writeBytes (from_hex s))"
| "write_hex _ result = Inl AssertError"

fun js_buffers :: "js_value \<Rightarrow> error + bytes list" where
  "js_buffers (V_Buffers ts) = Inr ts"
| "js_buffers _ = Inl TypeError"

definition write_property :: "viem \<Rightarrow> property_schema \<Rightarrow> js_value \<Rightarrow> byte_buffer \<Rightarrow> error + byte_buffer" where
  "write_property vm sch v result =
     (let wopt = (\<lambda>wr. writeOptional (ps_optional sch) v wr result)
      in case ps_type sch of
           P_uint8 \<Rightarrow> wopt (\<lambda>b. sum_bind (js_number v) (\<lambda>n. writeUint8 n b))
         | P_uint16 \<Rightarrow> wopt (\<lambda>b. sum_bind (js_number v) (\<lambda>n. writeUint16 n b))
         | P_uint32 \<Rightarrow> wopt (\<lambda>b. sum_bind (js_number v) (\<lambda>n. writeUint32 n b))
         | P_uint48 \<Rightarrow> wopt (\<lambda>b. sum_bind (js_number v) (\<lambda>n. writeUint48 n b))
         | P_uint64 \<Rightarrow> wopt (\<lambda>b. sum_bind (js_bigint v) (\<lambda>n. writeUint64 n b))
         | P_uint256 \<Rightarrow> wopt (\<lambda>b. sum_bind (js_bigint v) (\<lambda>n. writeUint256 vm n b))
         | P_bigint \<Rightarrow> wopt (\<lambda>b. sum_bind (js_bigint v) (\<lambda>n. writeUint64 n b))
         | P_hash _ \<Rightarrow> sum_bind (js_hex v) (\<lambda>bs. writeBytes bs result)
         | P_blockHash \<Rightarrow> wopt (\<lambda>b. sum_bind (js_hex v) (\<lambda>bs. writeBytes bs b))
         | P_address \<Rightarrow> sum_bind (js_address vm v) (\<lambda>bs. writeBytes bs result)
         | P_publicKey \<Rightarrow> sum_bind (js_hex v) (\<lambda>bs. writeBytes bs result)
         | P_consensusSignature \<Rightarrow> sum_bind (js_hex v) (\<lambda>bs. writeBytes bs result)
         | P_validatorSet \<Rightarrow> write_validator_set v result
         | P_hex \<Rightarrow> write_hex v result
         | P_transactions \<Rightarrow> sum_bind (js_buffers v) (\<lambda>ts. write_transactions ts result)
         | P_other t \<Rightarrow> Inl (JsError ''NotImplemented''))"

definition object_get :: "js_object \<Rightarrow> string \<Rightarrow> js_value" where
  "object_get data property = (case map_get data property of None \<Rightarrow> V_Undefined | Some v \<Rightarrow> v)"

fun write_properties :: "viem \<Rightarrow> schema \<Rightarrow> js_object \<Rightarrow> byte_buffer \<Rightarrow> error + byte_buffer" where
  "write_properties vm [] data result = Inr result"
| "write_properties vm ((property, sch) # rest) data result =
     sum_bind (write_property vm sch (object_get data property) result) (write_properties vm rest data)"

definition serialize :: "viem \<Rightarrow> js_object \<Rightarrow> nat \<Rightarrow> nat \<Rightarrow> schema \<Rightarrow> error + bytes" where
  "serialize vm data bufferSize skipped schema =
     (let result = fromSize bufferSize
      in sum_bind (if skipped > 0 then skip (int skipped) result else Inr result) (\<lambda>result.
           sum_bind (write_properties vm schema data result) (\<lambda>result. Inr (getResult result))))"

section \<open>Reading\<close>

definition readOptional :: "bool \<Rightarrow> (byte_buffer \<Rightarrow> error + (js_value \<times> byte_buffer)) \<Rightarrow> byte_buffer \<Rightarrow> error + (js_value \<times> byte_buffer)" where
  "readOptional optional rd source =
     (if optional
      then sum_bind (readUint8 source) (\<lambda>(isPresent, source1).
             if isPresent = 0 then Inr (V_Undefined, source1)
             else if isPresent \<noteq> 1 then Inl (JsError ''Invalid optional presence flag'')
             else rd source1)
      else rd source)"

definition read_as :: "('a \<Rightarrow> js_value) \<Rightarrow> (byte_buffer \<Rightarrow> error + ('a \<times> byte_buffer)) \<Rightarrow> byte_buffer \<Rightarrow> error + (js_value \<times> byte_buffer)" where
  "read_as f rd source = sum_bind (rd source) (\<lambda>(v, source1). Inr (f v, source1))"

abbreviation V_Hex :: "bytes \<Rightarrow> js_value" where
  "V_Hex bs \<equiv> V_String (to_hex bs)"

definition read_sized :: "byte_buffer \<Rightarrow> error + (bytes \<times> byte_buffer)" where
  "read_sized source = sum_bind (readUint32 source) (\<lambda>(n, source1). readBytes (nat n) source1)"

definition read_validator_set :: "byte_buffer \<Rightarrow> error + (bool list \<times> byte_buffer)" where
  "read_validator_set source =
     sum_bind (readUint8 source) (\<lambda>(n, source1).
       sum_bind (readUint64 source1) (\<lambda>(packed, source2).
         sum_bind (validatorSetUnpack packed (nat n)) (\<lambda>validatorSet. Inr (validatorSet, source2))))"

fun read_transactions :: "nat \<Rightarrow> byte_buffer \<Rightarrow> error + (bytes list \<times> byte_buffer)" where
  "read_transactions 0 source = Inr ([], source)"
| "read_transactions (Suc n) source =
     sum_bind (read_sized source) (\<lambda>(t, source1).
       sum_bind (read_transactions n source1) (\<lambda>(ts, source2). Inr (t # ts, source2)))"

text \<open>\<open>hashSize\<close> is \<open>Hash.Size.HASH256\<close>.\<close>

definition hashSize :: nat where
  "hashSize = 32"

definition hash_width :: "nat option \<Rightarrow> nat" where
  "hash_width width = (case width of None \<Rightarrow> hashSize | Some n \<Rightarrow> n)"

definition read_property :: "viem \<Rightarrow> js_object \<Rightarrow> property_schema \<Rightarrow> byte_buffer \<Rightarrow> error + (js_value \<times> byte_buffer)" where
  "read_property vm target sch source =
     (let ropt = (\<lambda>rd. readOptional (ps_optional sch) rd source)
      in case ps_type sch of
           P_uint8 \<Rightarrow> ropt (read_as V_Number readUint8)
         | P_uint16 \<Rightarrow> ropt (read_as V_Number readUint16)
         | P_uint32 \<Rightarrow> ropt (read_as V_Number readUint32)
         | P_uint48 \<Rightarrow> ropt (read_as V_Number readUint48)
         | P_uint64 \<Rightarrow> ropt (read_as V_BigInt readUint64)
         | P_uint256 \<Rightarrow> ropt (read_as V_BigInt (readUint256 vm))
         | P_bigint \<Rightarrow> ropt (read_as V_BigInt readUint64)
         | P_hash width \<Rightarrow> read_as V_Hex (readBytes (hash_width width)) source
         | P_blockHash \<Rightarrow> ropt (read_as V_Hex (readBytes hashSize))
         | P_address \<Rightarrow> read_as (\<lambda>bs. V_String (vm_getAddress vm bs)) (readBytes 20) source
         | P_publicKey \<Rightarrow> read_as V_Hex (readBytes 33) source
         | P_consensusSignature \<Rightarrow> read_as V_Hex (readBytes 96) source
         | P_validatorSet \<Rightarrow> read_as V_Flags read_validator_set source
         | P_hex \<Rightarrow> read_as V_Hex read_sized source
         | P_transactions \<Rightarrow>
             (case object_get target ''transactionsCount'' of
                V_Number n \<Rightarrow> read_as V_Buffers (read_transactions (nat n)) source
              | _ \<Rightarrow> Inl AssertError)
         | P_other t \<Rightarrow> Inl (JsError ''NotImplemented''))"

fun deserialize :: "viem \<Rightarrow> schema \<Rightarrow> js_object \<Rightarrow> byte_buffer \<Rightarrow> error + (js_object \<times> byte_buffer)" where
  "deserialize vm [] target source = Inr (target, source)"
| "deserialize vm ((property, sch) # rest) target source =
     sum_bind (read_property vm target sch source) (\<lambda>(v, source1).
       deserialize vm rest (map_set target property v) source1)"

section \<open>Hex lemmas\<close>

lemma hex_digit_chars: "n < 16 \<Longrightarrow> hex_digit (hex_chars ! n) = Some n"
proof -
  have "\<forall>n \<in> set [0..<16]. hex_digit (hex_chars ! n) = Some n" by code_simp
  then show "n < 16 \<Longrightarrow> hex_digit (hex_chars ! n) = Some n" by simp
qed

lemma from_to_hex [simp]: "from_hex (to_hex bs) = bs"
proof (induction bs)
  case (Cons b bs)
  have "unat b div 16 < 16" "unat b mod 16 < 16" using byte_lt [of b] by simp_all
  with Cons show ?case by (simp add: to_hex_def hex_digit_chars)
qed (simp add: to_hex_def)

lemma to_hex_inject [simp]: "to_hex bs = to_hex cs \<longleftrightarrow> bs = cs"
  by (metis from_to_hex)

lemma length_to_hex [simp]: "length (to_hex bs) = 2 * length bs"
  by (induction bs) (simp_all add: to_hex_def)

section \<open>Codecs of the property types\<close>

lemma codec_cong:
  assumes "wire_codec p g e good" and "\<And>v b. good v \<Longrightarrow> p' v b = p v b" and "\<And>b. g' b = g b"
    and "\<And>v. good v \<Longrightarrow> e' v = e v" and "\<And>v. good' v = good v"
  shows "wire_codec p' g' e' good'"
proof -
  have "good' = good" "g' = g" using assms(3,5) by auto
  then show ?thesis
    using wire_codec.put_appends [OF assms(1)] wire_codec.get_consumes [OF assms(1)] wire_codec.get_canonical [OF assms(1)]
      assms(2,4) by unfold_locales auto
qed

definition opt_enc :: "bool \<Rightarrow> (js_value \<Rightarrow> bytes) \<Rightarrow> js_value \<Rightarrow> bytes" where
  "opt_enc optional e v = (if optional then if v = V_Undefined then [0] else 1 # e v else e v)"

definition opt_ok :: "bool \<Rightarrow> (js_value \<Rightarrow> bool) \<Rightarrow> js_value \<Rightarrow> bool" where
  "opt_ok optional good v = (optional \<and> v = V_Undefined \<or> good v)"

text \<open>The presence flag is a header of one byte; a value of a type with a presence flag is never \<open>undefined\<close>.\<close>

definition present :: "js_value \<Rightarrow> int" where
  "present v = (if v = V_Undefined then 0 else 1)"

lemma codec_optional:
  assumes c: "wire_codec p g e good" and nu: "\<not> good V_Undefined"
  shows "wire_codec (\<lambda>v. writeOptional optional v (p v)) (readOptional optional g) (opt_enc optional e) (opt_ok optional good)"
proof (cases optional)
  case False
  show ?thesis by (rule codec_cong [OF c]) (simp_all add: False writeOptional_def readOptional_def opt_enc_def opt_ok_def)
next
  case True
  let ?g = "\<lambda>h b. if h = 0 then Inr (V_Undefined, b) else if h \<noteq> 1 then Inl (JsError ''Invalid optional presence flag'') else g b"
  let ?e = "\<lambda>h v. if h = 0 then [] else e v" and ?good = "\<lambda>h v. h = 0 \<and> v = V_Undefined \<or> h = 1 \<and> good v"
  have tail: "wire_codec (\<lambda>v b. if h = 0 then Inr b else p v b) (?g h) (?e h) (?good h)" for h :: int
  proof (cases "h = 1")
    case True
    show ?thesis by (rule codec_cong [OF c]) (simp_all add: True)
  next
    case False
    then show ?thesis
      by unfold_locales (auto simp: appended_def consumed_def split: if_splits)
  qed
  have seq: "wire_codec (\<lambda>v b. sum_bind (writeUint8 (present v) b) (\<lambda>b. if present v = 0 then Inr b else p v b))
      (\<lambda>b. sum_bind (readUint8 b) (\<lambda>(h, b1). ?g h b1))
      (\<lambda>v. le_bytes 1 (nat (present v)) @ ?e (present v) v)
      (\<lambda>v. (0 \<le> present v \<and> present v < 2 ^ (8 * 1)) \<and> ?good (present v) v)"
    using nu by (intro codec_seq [OF uint8_codec.wire_codec_axioms tail]) (auto simp: present_def)
  show ?thesis
  proof (rule codec_cong [OF seq])
    show "writeOptional optional v (p v) b
        = sum_bind (writeUint8 (present v) b) (\<lambda>b. if present v = 0 then Inr b else p v b)" for v b
      using True by (cases "writeUint8 0 b") (auto simp: writeOptional_def present_def)
    show "readOptional optional g b = sum_bind (readUint8 b) (\<lambda>(h, b1). ?g h b1)" for b
      using True by (simp add: readOptional_def)
    show "opt_enc optional e v = le_bytes 1 (nat (present v)) @ ?e (present v) v" for v
      using True by (simp add: opt_enc_def present_def)
    show "opt_ok optional good v = ((0 \<le> present v \<and> present v < 2 ^ (8 * 1)) \<and> ?good (present v) v)" for v
      using True nu by (auto simp: opt_ok_def present_def)
  qed
qed

lemma sized_codec:
  "wire_codec (\<lambda>t b. sum_bind (writeUint32 (int (length t)) b) (writeBytes t)) read_sized
     (\<lambda>t. le_bytes 4 (length t) @ t) (\<lambda>t. length t < 2 ^ 32)"
proof (rule codec_cong [OF codec_seq [OF uint32_codec.wire_codec_axioms, where p' = "\<lambda>_. writeBytes" and g' = "\<lambda>h. readBytes (nat h)"
      and e' = "\<lambda>_ t. t" and good' = "\<lambda>h t. length t = nat h" and hdr = "\<lambda>t. int (length t)"]])
  show "wire_codec writeBytes (readBytes (nat h)) (\<lambda>t. t) (\<lambda>t. length t = nat h)" for h
    by (rule bytes_codec.wire_codec_axioms)
qed (auto simp: read_sized_def)

fun transactions_enc :: "bytes list \<Rightarrow> bytes" where
  "transactions_enc [] = []"
| "transactions_enc (t # ts) = le_bytes 4 (length t) @ t @ transactions_enc ts"

lemma transactions_codec:
  "wire_codec write_transactions (read_transactions n) transactions_enc (\<lambda>ts. length ts = n \<and> (\<forall>t \<in> set ts. length t < 2 ^ 32))"
proof (induction n)
  case 0
  then show ?case by unfold_locales (auto simp: appended_def consumed_def)
next
  case (Suc n)
  note sized = sized_codec
  show ?case
  proof
    fix ts b assume ts: "length ts = Suc n \<and> (\<forall>t \<in> set ts. length t < 2 ^ 32)" and b: "bb_ok b" "length (transactions_enc ts) \<le> getRemainderLength b"
    obtain t us where [simp]: "ts = t # us" using ts by (cases ts) auto
    obtain b1 where b1: "sum_bind (writeUint32 (int (length t)) b) (writeBytes t) = Inr b1" "appended b (le_bytes 4 (length t) @ t) b1"
      using wire_codec.put_appends [OF sized, of t b] ts b by auto
    then obtain b2 where "write_transactions us b1 = Inr b2" "appended b1 (transactions_enc us) b2"
      using wire_codec.put_appends [OF Suc.IH, of us b1] ts b by (auto simp: appended_def)
    with b1 appended_trans [OF b1(2)] show "\<exists>b'. write_transactions ts b = Inr b' \<and> appended b (transactions_enc ts) b'" by auto
  next
    fix ts b rest assume ts: "length ts = Suc n \<and> (\<forall>t \<in> set ts. length t < 2 ^ 32)" and b: "bb_ok b" "getRemainder b = transactions_enc ts @ rest"
    obtain t us where [simp]: "ts = t # us" using ts by (cases ts) auto
    obtain b1 where b1: "read_sized b = Inr (t, b1)" "consumed b (le_bytes 4 (length t) @ t) b1"
      using wire_codec.get_consumes [OF sized, of t b "transactions_enc us @ rest"] ts b by auto
    then obtain b2 where "read_transactions n b1 = Inr (us, b2)" "consumed b1 (transactions_enc us) b2"
      using wire_codec.get_consumes [OF Suc.IH, of us b1 rest] ts b by (auto simp: consumed_def)
    with b1 consumed_trans [OF b1(2)] show "\<exists>b'. read_transactions (Suc n) b = Inr (ts, b') \<and> consumed b (transactions_enc ts) b'" by auto
  next
    fix b ts b' assume b: "bb_ok b" "read_transactions (Suc n) b = Inr (ts, b')"
    then obtain t b1 us where r: "read_sized b = Inr (t, b1)" "read_transactions n b1 = Inr (us, b')" "ts = t # us"
      by (auto simp: sum_bind_Inr_iff)
    have c1: "length t < 2 ^ 32" "consumed b (le_bytes 4 (length t) @ t) b1"
      using wire_codec.get_canonical [OF sized b(1) r(1)] by simp_all
    have "(length us = n \<and> (\<forall>t \<in> set us. length t < 2 ^ 32)) \<and> consumed b1 (transactions_enc us) b'"
      by (rule wire_codec.get_canonical [OF Suc.IH _ r(2)]) (use c1 in \<open>simp add: consumed_def\<close>)
    with c1 consumed_trans [OF c1(2)] r(3)
    show "(length ts = Suc n \<and> (\<forall>t \<in> set ts. length t < 2 ^ 32)) \<and> consumed b (transactions_enc ts) b'" by auto
  qed
qed

lemma validator_set_codec:
  "wire_codec (\<lambda>xs b. sum_bind (writeUint8 (int (length xs)) b) (writeUint64 (validatorSetPack xs))) read_validator_set
     (\<lambda>xs. le_bytes 1 (length xs) @ le_bytes 8 (nat (validatorSetPack xs)))
     (\<lambda>xs. length xs < 2 ^ 8 \<and> validatorSetPack xs < 2 ^ 64)"
proof -
  have pos: "0 \<le> validatorSetPack xs" for xs using flags_value_bounds [of xs] by (simp add: validatorSetPack_value)
  let ?g = "\<lambda>h b. sum_bind (readUint64 b) (\<lambda>(packed, b2). sum_bind (validatorSetUnpack packed (nat h)) (\<lambda>xs. Inr (xs, b2)))"
  have tail: "wire_codec (\<lambda>xs. writeUint64 (validatorSetPack xs)) (?g h) (\<lambda>xs. le_bytes 8 (nat (validatorSetPack xs)))
      (\<lambda>xs. length xs = nat h \<and> validatorSetPack xs < 2 ^ 64)" for h
  proof
    show "\<exists>b'. writeUint64 (validatorSetPack xs) b = Inr b' \<and> appended b (le_bytes 8 (nat (validatorSetPack xs))) b'"
      if "length xs = nat h \<and> validatorSetPack xs < 2 ^ 64" "bb_ok b" "length (le_bytes 8 (nat (validatorSetPack xs))) \<le> getRemainderLength b" for xs b
      using that pos [of xs] uint64_codec.put_appends [of "validatorSetPack xs" b] by simp
    show "\<exists>b'. ?g h b = Inr (xs, b') \<and> consumed b (le_bytes 8 (nat (validatorSetPack xs))) b'"
      if "length xs = nat h \<and> validatorSetPack xs < 2 ^ 64" "bb_ok b" "getRemainder b = le_bytes 8 (nat (validatorSetPack xs)) @ rest" for xs b rest
      using that pos [of xs] uint64_codec.get_consumes [of "validatorSetPack xs" b rest] unpack_pack [of xs] by (auto simp del: le_bytes.simps)
    show "(length xs = nat h \<and> validatorSetPack xs < 2 ^ 64) \<and> consumed b (le_bytes 8 (nat (validatorSetPack xs))) b'"
      if "bb_ok b" "?g h b = Inr (xs, b')" for xs b b'
      using that uint64_codec.get_canonical [of b] unpack_pack by (fastforce simp: sum_bind_Inr_iff)
  qed
  show ?thesis
    by (rule codec_cong [OF codec_seq [OF uint8_codec.wire_codec_axioms tail, where hdr = "\<lambda>xs. int (length xs)"]])
      (auto simp: read_validator_set_def)
qed

section \<open>Codecs of properties\<close>

fun has_presence_flag :: "property_type \<Rightarrow> bool" where
  "has_presence_flag t = (t \<in> {P_uint8, P_uint16, P_uint32, P_uint48, P_uint64, P_uint256, P_bigint, P_blockHash})"

definition number_in :: "(int \<Rightarrow> js_value) \<Rightarrow> nat \<Rightarrow> js_value \<Rightarrow> bool" where
  "number_in f k v \<longleftrightarrow> (\<exists>n. v = f n \<and> 0 \<le> n \<and> n < 2 ^ (8 * k))"

definition hex_of_length :: "nat \<Rightarrow> js_value \<Rightarrow> bool" where
  "hex_of_length k v \<longleftrightarrow> (\<exists>bs. v = V_Hex bs \<and> length bs = k)"

fun raw_ok :: "viem \<Rightarrow> js_object \<Rightarrow> property_type \<Rightarrow> js_value \<Rightarrow> bool" where
  "raw_ok vm target P_uint8 v = number_in V_Number 1 v"
| "raw_ok vm target P_uint16 v = number_in V_Number 2 v"
| "raw_ok vm target P_uint32 v = number_in V_Number 4 v"
| "raw_ok vm target P_uint48 v = number_in V_Number 6 v"
| "raw_ok vm target P_uint64 v = number_in V_BigInt 8 v"
| "raw_ok vm target P_uint256 v = number_in V_BigInt 32 v"
| "raw_ok vm target P_bigint v = number_in V_BigInt 8 v"
| "raw_ok vm target (P_hash width) v = hex_of_length (hash_width width) v"
| "raw_ok vm target P_blockHash v = hex_of_length hashSize v"
| "raw_ok vm target P_address v = (\<exists>bs. v = V_String (vm_getAddress vm bs) \<and> length bs = 20)"
| "raw_ok vm target P_publicKey v = hex_of_length 33 v"
| "raw_ok vm target P_consensusSignature v = hex_of_length 96 v"
| "raw_ok vm target P_validatorSet v =
     (\<exists>xs. v = V_Flags xs \<and> length xs < 2 ^ 8 \<and> validatorSetPack xs < 2 ^ 64)"
| "raw_ok vm target P_hex v = (\<exists>bs. v = V_Hex bs \<and> length bs < 2 ^ 32)"
| "raw_ok vm target P_transactions v =
     (\<exists>n ts. object_get target ''transactionsCount'' = V_Number n \<and> v = V_Buffers ts
        \<and> length ts = nat n \<and> (\<forall>t \<in> set ts. length t < 2 ^ 32))"
| "raw_ok vm target (P_other t) v = False"

fun raw_enc :: "viem \<Rightarrow> property_type \<Rightarrow> js_value \<Rightarrow> bytes" where
  "raw_enc vm P_uint8 v = le_bytes 1 (nat (projr (js_number v)))"
| "raw_enc vm P_uint16 v = le_bytes 2 (nat (projr (js_number v)))"
| "raw_enc vm P_uint32 v = le_bytes 4 (nat (projr (js_number v)))"
| "raw_enc vm P_uint48 v = le_bytes 6 (nat (projr (js_number v)))"
| "raw_enc vm P_uint64 v = le_bytes 8 (nat (projr (js_bigint v)))"
| "raw_enc vm P_uint256 v = be_bytes 32 (nat (projr (js_bigint v)))"
| "raw_enc vm P_bigint v = le_bytes 8 (nat (projr (js_bigint v)))"
| "raw_enc vm (P_hash width) v = projr (js_hex v)"
| "raw_enc vm P_blockHash v = projr (js_hex v)"
| "raw_enc vm P_address v = projr (js_address vm v)"
| "raw_enc vm P_publicKey v = projr (js_hex v)"
| "raw_enc vm P_consensusSignature v = projr (js_hex v)"
| "raw_enc vm P_validatorSet v =
     (case v of V_Flags xs \<Rightarrow> le_bytes 1 (length xs) @ le_bytes 8 (nat (validatorSetPack xs)) | _ \<Rightarrow> [])"
| "raw_enc vm P_hex v = (let bs = projr (js_hex v) in le_bytes 4 (length bs) @ bs)"
| "raw_enc vm P_transactions v = transactions_enc (projr (js_buffers v))"
| "raw_enc vm (P_other t) v = []"

definition property_ok :: "viem \<Rightarrow> js_object \<Rightarrow> property_schema \<Rightarrow> js_value \<Rightarrow> bool" where
  "property_ok vm target sch =
     (if has_presence_flag (ps_type sch) then opt_ok (ps_optional sch) (raw_ok vm target (ps_type sch))
      else raw_ok vm target (ps_type sch))"

definition property_enc :: "viem \<Rightarrow> property_schema \<Rightarrow> js_value \<Rightarrow> bytes" where
  "property_enc vm sch =
     (if has_presence_flag (ps_type sch) then opt_enc (ps_optional sch) (raw_enc vm (ps_type sch))
      else raw_enc vm (ps_type sch))"

lemmas property_defs = write_property_def read_property_def property_ok_def property_enc_def Let_def

text \<open>A property type whose codec is a codec on the values, behind the presence flag.\<close>

lemma optional_number_codec:
  assumes "wire_codec p g e (\<lambda>n. 0 \<le> n \<and> n < 2 ^ (8 * k))" and "\<And>n. un (f n) = Inr n" and "\<And>n. f n \<noteq> V_Undefined"
  shows "wire_codec (\<lambda>v. writeOptional optional v (\<lambda>b. sum_bind (un v) (\<lambda>n. p n b))) (readOptional optional (read_as f g))
    (opt_enc optional (\<lambda>v. e (projr (un v)))) (opt_ok optional (number_in f k))"
proof -
  have "wire_codec (\<lambda>v b. sum_bind (un v) (\<lambda>n. p n b)) (read_as f g) (\<lambda>v. e (projr (un v))) (number_in f k)"
    by (rule codec_cong [OF codec_map [where un = un and f = f, OF assms(1,2)]]) (auto simp: read_as_def number_in_def)
  moreover have "\<not> number_in f k V_Undefined" using assms(3) unfolding number_in_def by metis
  ultimately show ?thesis by (rule codec_optional)
qed

lemma hex_codec:
  "wire_codec (\<lambda>v b. sum_bind (js_hex v) (\<lambda>bs. writeBytes bs b)) (read_as V_Hex (readBytes k)) (\<lambda>v. projr (js_hex v)) (hex_of_length k)"
  by (rule codec_cong [OF codec_map [where un = js_hex and f = V_Hex, OF bytes_codec.wire_codec_axioms]])
    (auto simp: read_as_def hex_of_length_def)

lemma address_codec:
  assumes "viem_law vm"
  shows "wire_codec (\<lambda>v b. sum_bind (js_address vm v) (\<lambda>bs. writeBytes bs b))
    (read_as (\<lambda>bs. V_String (vm_getAddress vm bs)) (readBytes 20)) (\<lambda>v. projr (js_address vm v))
    (\<lambda>v. \<exists>bs. v = V_String (vm_getAddress vm bs) \<and> length bs = 20)"
proof -
  have inv: "length bs = 20 \<Longrightarrow> vm_hexToBytes vm (vm_getAddress vm bs) = bs" for bs using assms by (simp add: viem_law_def)
  show ?thesis
  proof
    show "\<exists>b'. sum_bind (js_address vm v) (\<lambda>bs. writeBytes bs b) = Inr b' \<and> appended b (projr (js_address vm v)) b'"
      if "\<exists>bs. v = V_String (vm_getAddress vm bs) \<and> length bs = 20" "bb_ok b"
        "length (projr (js_address vm v)) \<le> getRemainderLength b" for v b
      using that inv bytes_codec.put_appends [of _ 20 b] by fastforce
    show "\<exists>b'. read_as (\<lambda>bs. V_String (vm_getAddress vm bs)) (readBytes 20) b = Inr (v, b') \<and> consumed b (projr (js_address vm v)) b'"
      if "\<exists>bs. v = V_String (vm_getAddress vm bs) \<and> length bs = 20" "bb_ok b" "getRemainder b = projr (js_address vm v) @ rest" for v b rest
      using that inv bytes_codec.get_consumes [of _ 20 b rest] by (fastforce simp: read_as_def)
    show "(\<exists>bs. v = V_String (vm_getAddress vm bs) \<and> length bs = 20) \<and> consumed b (projr (js_address vm v)) b'"
      if "bb_ok b" "read_as (\<lambda>bs. V_String (vm_getAddress vm bs)) (readBytes 20) b = Inr (v, b')" for v b b'
      using that inv bytes_codec.get_canonical [of b 20] by (auto simp: read_as_def sum_bind_Inr_iff)
  qed
qed

lemma flags_codec:
  "wire_codec write_validator_set (read_as V_Flags read_validator_set) (raw_enc vm P_validatorSet) (raw_ok vm target P_validatorSet)"
  by (rule codec_cong [OF codec_map [where un = "\<lambda>v. case v of V_Flags xs \<Rightarrow> Inr xs | _ \<Rightarrow> Inl AssertError" and f = V_Flags,
        OF validator_set_codec]]) (auto simp: read_as_def)

lemma hex_property_codec:
  "wire_codec write_hex (read_as V_Hex read_sized) (raw_enc vm P_hex) (raw_ok vm target P_hex)"
  by (rule codec_cong [OF codec_map [where un = js_hex and f = V_Hex, OF sized_codec]])
    (auto simp: read_as_def Let_def)

lemma transactions_property_codec:
  "wire_codec (\<lambda>v b. sum_bind (js_buffers v) (\<lambda>ts. write_transactions ts b))
     (\<lambda>b. case object_get target ''transactionsCount'' of
        V_Number n \<Rightarrow> read_as V_Buffers (read_transactions (nat n)) b | _ \<Rightarrow> Inl AssertError)
     (raw_enc vm P_transactions) (raw_ok vm target P_transactions)"
proof (cases "object_get target ''transactionsCount''")
  case (V_Number n)
  show ?thesis
    by (rule codec_cong [OF codec_map [where un = js_buffers and f = V_Buffers, OF transactions_codec [of "nat n"]]])
      (auto simp: read_as_def V_Number)
qed (unfold_locales; auto)+

lemma property_codec:
  assumes "viem_law vm"
  shows "wire_codec (write_property vm sch) (read_property vm target sch) (property_enc vm sch) (property_ok vm target sch)"
proof (cases "ps_type sch")
  case P_uint8
  then show ?thesis by (intro codec_cong [OF optional_number_codec [OF uint8_codec.wire_codec_axioms, where un = js_number and f = V_Number and optional = "ps_optional sch"]]) (simp_all add: property_defs hex_of_length_def opt_ok_def opt_enc_def)
next
  case P_uint16
  then show ?thesis by (intro codec_cong [OF optional_number_codec [OF uint16_codec.wire_codec_axioms, where un = js_number and f = V_Number and optional = "ps_optional sch"]]) (simp_all add: property_defs hex_of_length_def opt_ok_def opt_enc_def)
next
  case P_uint32
  then show ?thesis by (intro codec_cong [OF optional_number_codec [OF uint32_codec.wire_codec_axioms, where un = js_number and f = V_Number and optional = "ps_optional sch"]]) (simp_all add: property_defs hex_of_length_def opt_ok_def opt_enc_def)
next
  case P_uint48
  then show ?thesis by (intro codec_cong [OF optional_number_codec [OF uint48_codec.wire_codec_axioms, where un = js_number and f = V_Number and optional = "ps_optional sch"]]) (simp_all add: property_defs hex_of_length_def opt_ok_def opt_enc_def)
next
  case P_uint64
  then show ?thesis by (intro codec_cong [OF optional_number_codec [OF uint64_codec.wire_codec_axioms, where un = js_bigint and f = V_BigInt and optional = "ps_optional sch"]]) (simp_all add: property_defs hex_of_length_def opt_ok_def opt_enc_def)
next
  case P_uint256
  then show ?thesis by (intro codec_cong [OF optional_number_codec [OF uint256_codec [OF assms], where un = js_bigint and f = V_BigInt and optional = "ps_optional sch"]]) (simp_all add: property_defs hex_of_length_def opt_ok_def opt_enc_def)
next
  case P_bigint
  then show ?thesis by (intro codec_cong [OF optional_number_codec [OF uint64_codec.wire_codec_axioms, where un = js_bigint and f = V_BigInt and optional = "ps_optional sch"]]) (simp_all add: property_defs hex_of_length_def opt_ok_def opt_enc_def)
next
  case (P_hash width)
  then show ?thesis by (intro codec_cong [OF hex_codec [of "hash_width width"]]) (simp_all add: property_defs hex_of_length_def opt_ok_def opt_enc_def)
next
  case P_blockHash
  then show ?thesis by (intro codec_cong [OF codec_optional [OF hex_codec [of hashSize], of "ps_optional sch"]]) (simp_all add: property_defs hex_of_length_def opt_ok_def opt_enc_def)
next
  case P_address
  then show ?thesis by (intro codec_cong [OF address_codec [OF assms]]) (simp_all add: property_defs hex_of_length_def opt_ok_def opt_enc_def)
next
  case P_publicKey
  then show ?thesis by (intro codec_cong [OF hex_codec [of 33]]) (simp_all add: property_defs hex_of_length_def opt_ok_def opt_enc_def)
next
  case P_consensusSignature
  then show ?thesis by (intro codec_cong [OF hex_codec [of 96]]) (simp_all add: property_defs hex_of_length_def opt_ok_def opt_enc_def)
next
  case P_validatorSet
  then show ?thesis by (intro codec_cong [OF flags_codec [of vm target]]) (simp_all add: property_defs hex_of_length_def opt_ok_def opt_enc_def)
next
  case P_hex
  then show ?thesis by (intro codec_cong [OF hex_property_codec [of vm target]]) (simp_all add: property_defs hex_of_length_def opt_ok_def opt_enc_def)
next
  case P_transactions
  then show ?thesis by (intro codec_cong [OF transactions_property_codec [of target vm]]) (simp_all add: property_defs hex_of_length_def opt_ok_def opt_enc_def)
next
  case (P_other t)
  then show ?thesis by unfold_locales (simp_all add: property_defs)
qed

section \<open>Schemas\<close>

text \<open>The values of an object in the order of the schema, the target they build and their encoding.\<close>

fun values_ok :: "viem \<Rightarrow> schema \<Rightarrow> js_object \<Rightarrow> js_value list \<Rightarrow> bool" where
  "values_ok vm [] target vs = (vs = [])"
| "values_ok vm ((p, sch) # rest) target [] = False"
| "values_ok vm ((p, sch) # rest) target (v # vs) = (property_ok vm target sch v \<and> values_ok vm rest (map_set target p v) vs)"

fun values_enc :: "viem \<Rightarrow> schema \<Rightarrow> js_value list \<Rightarrow> bytes" where
  "values_enc vm ((p, sch) # rest) (v # vs) = property_enc vm sch v @ values_enc vm rest vs"
| "values_enc vm _ _ = []"

fun assign :: "schema \<Rightarrow> js_value list \<Rightarrow> js_object \<Rightarrow> js_object" where
  "assign ((p, sch) # rest) (v # vs) target = assign rest vs (map_set target p v)"
| "assign _ _ target = target"

definition object_values :: "schema \<Rightarrow> js_object \<Rightarrow> js_value list" where
  "object_values schema data = map (\<lambda>(p, _). object_get data p) schema"

lemma object_get_set [simp]: "object_get (map_set m p v) q = (if q = p then v else object_get m q)"
  by (simp add: object_get_def jsmap_simps)

lemma values_ok_length: "values_ok vm schema target vs \<Longrightarrow> length vs = length schema"
  by (induction vm schema target vs rule: values_ok.induct) auto

lemma assign_other: "p \<notin> fst ` set schema \<Longrightarrow> object_get (assign schema vs target) p = object_get target p"
  by (induction schema vs target rule: assign.induct) auto

lemma object_values_assign:
  "distinct (map fst schema) \<Longrightarrow> length vs = length schema \<Longrightarrow> object_values schema (assign schema vs target) = vs"
proof (induction schema vs target rule: assign.induct)
  case (1 p sch rest v vs target)
  then show ?case using assign_other [of p rest vs "map_set target p v"] by (auto simp: object_values_def)
qed (auto simp: object_values_def)

lemma write_properties_appends:
  assumes "viem_law vm"
  shows "values_ok vm schema target (object_values schema data) \<Longrightarrow> bb_ok b \<Longrightarrow>
    length (values_enc vm schema (object_values schema data)) \<le> getRemainderLength b \<Longrightarrow>
    \<exists>b'. write_properties vm schema data b = Inr b' \<and> appended b (values_enc vm schema (object_values schema data)) b'"
proof (induction schema arbitrary: target b)
  case Nil
  then show ?case by (simp add: appended_def object_values_def)
next
  case (Cons x rest)
  obtain p sch where x: "x = (p, sch)" by (cases x)
  let ?v = "object_get data p"
  have vs: "object_values ((p, sch) # rest) data = ?v # object_values rest data" by (simp add: object_values_def)
  obtain b1 where b1: "write_property vm sch ?v b = Inr b1" "appended b (property_enc vm sch ?v) b1"
    using wire_codec.put_appends [OF property_codec [OF assms], of target sch ?v b] Cons.prems by (auto simp: x vs)
  then obtain b2 where "write_properties vm rest data b1 = Inr b2" "appended b1 (values_enc vm rest (object_values rest data)) b2"
    using Cons.IH [of "map_set target p ?v" b1] Cons.prems by (auto simp: x vs appended_def)
  with b1 appended_trans [OF b1(2)] show ?case by (auto simp: x vs)
qed

lemma deserialize_consumes:
  assumes "viem_law vm"
  shows "values_ok vm schema target vs \<Longrightarrow> bb_ok b \<Longrightarrow> getRemainder b = values_enc vm schema vs @ rest \<Longrightarrow>
    \<exists>b'. deserialize vm schema target b = Inr (assign schema vs target, b') \<and> consumed b (values_enc vm schema vs) b'"
proof (induction schema arbitrary: target vs b)
  case Nil
  then show ?case by (simp add: consumed_def)
next
  case (Cons x schema)
  obtain p sch where x: "x = (p, sch)" by (cases x)
  from Cons.prems(1) obtain v us where vs: "vs = v # us" by (cases vs) (auto simp: x)
  obtain b1 where b1: "read_property vm target sch b = Inr (v, b1)" "consumed b (property_enc vm sch v) b1"
    using wire_codec.get_consumes [OF property_codec [OF assms], of target sch v b "values_enc vm schema us @ rest"]
      Cons.prems by (auto simp: x vs)
  then obtain b2 where "deserialize vm schema (map_set target p v) b1 = Inr (assign schema us (map_set target p v), b2)"
    "consumed b1 (values_enc vm schema us) b2"
    using Cons.IH [of "map_set target p v" us b1] Cons.prems by (auto simp: x vs consumed_def)
  with b1 consumed_trans [OF b1(2)] show ?case by (auto simp: x vs)
qed

lemma deserialize_canonical:
  assumes "viem_law vm"
  shows "bb_ok b \<Longrightarrow> deserialize vm schema target b = Inr (data, b') \<Longrightarrow>
    \<exists>vs. values_ok vm schema target vs \<and> data = assign schema vs target \<and> consumed b (values_enc vm schema vs) b'"
proof (induction schema arbitrary: target b)
  case Nil
  then show ?case by (auto simp: consumed_def)
next
  case (Cons x schema)
  obtain p sch where x: "x = (p, sch)" by (cases x)
  from Cons.prems(2) obtain v b1 where r: "read_property vm target sch b = Inr (v, b1)"
    "deserialize vm schema (map_set target p v) b1 = Inr (data, b')" by (auto simp: x sum_bind_Inr_iff)
  have c: "property_ok vm target sch v" "consumed b (property_enc vm sch v) b1"
    using wire_codec.get_canonical [OF property_codec [OF assms] Cons.prems(1) r(1)] by simp_all
  then obtain vs where "values_ok vm schema (map_set target p v) vs" "data = assign schema vs (map_set target p v)"
    "consumed b1 (values_enc vm schema vs) b'"
    using Cons.IH [OF _ r(2)] by (auto simp: consumed_def)
  with c consumed_trans [OF c(2)] show ?case by (intro exI [of _ "v # vs"]) (auto simp: x)
qed

text \<open>The two directions on whole texts, for a schema with distinct properties.\<close>

lemma serialize_object:
  assumes "viem_law vm" and "values_ok vm schema target (object_values schema data)"
    and "length (values_enc vm schema (object_values schema data)) \<le> n"
  shows "serialize vm data n 0 schema = Inr (values_enc vm schema (object_values schema data))"
  using write_properties_appends [OF assms(1,2), of "fromSize n"] assms(3)
  by (auto simp: serialize_def Let_def appended_def)

definition read_whole :: "viem \<Rightarrow> schema \<Rightarrow> bytes \<Rightarrow> js_object option" where
  "read_whole vm schema bs =
     (case deserialize vm schema [] (fromBuffer bs) of
        Inl _ \<Rightarrow> None | Inr (data, rest) \<Rightarrow> if getRemainderLength rest = 0 then Some data else None)"

lemma remainder_empty: "getRemainderLength r = 0 \<longleftrightarrow> getRemainder r = []"
  using length_getRemainder [of r] by auto

lemma read_whole_values:
  assumes "viem_law vm" and "values_ok vm schema [] vs"
  shows "read_whole vm schema (values_enc vm schema vs) = Some (assign schema vs [])"
  using deserialize_consumes [OF assms fromBuffer_simps(1), of "values_enc vm schema vs" "[]"]
  by (auto simp: read_whole_def remainder_empty consumed_def)

lemma read_whole_canonical:
  assumes "viem_law vm" and "distinct (map fst schema)" and "read_whole vm schema bs = Some data"
  shows "values_ok vm schema [] (object_values schema data) \<and> bs = values_enc vm schema (object_values schema data)
    \<and> data = assign schema (object_values schema data) []"
proof -
  from assms(3) obtain r where r: "deserialize vm schema [] (fromBuffer bs) = Inr (data, r)" "getRemainderLength r = 0"
    by (auto simp: read_whole_def split: sum.splits if_splits)
  from deserialize_canonical [OF assms(1) fromBuffer_simps(1) r(1)] obtain vs where
    vs: "values_ok vm schema [] vs" "data = assign schema vs []" "consumed (fromBuffer bs) (values_enc vm schema vs) r" by blast
  have "object_values schema data = vs" using object_values_assign [OF assms(2) values_ok_length [OF vs(1)]] vs(2) by simp
  with vs r(2) show ?thesis by (simp add: consumed_def remainder_empty)
qed

end
