(* ===== verification/Consensus_Codecs.thy ===== *)
theory Consensus_Codecs
  imports Wire_Serializer
begin

text \<open>
  The wire formats of the consensus: \<open>crypto-messages\<close>, \<open>crypto-proposal\<close> and \<open>crypto-commit\<close>
  (\<open>serializer.ts\<close>, \<open>deserializer.ts\<close>, \<open>serializer-schemas.ts\<close> and the size providers).

  An object handed to the serializer is the list of its properties. Reading gives an object again,
  which the theory turns into the record of \<open>Chain_Types\<close>; the schema fixes the type of every
  property, so the view is total on what can be read.

  The theorems: what is written is read back; a message that can be read has one encoding; the
  bytes a vote is signed over determine the vote.
\<close>

section \<open>Schemas\<close>

abbreviation mandatory :: "property_type \<Rightarrow> property_schema" where
  "mandatory t \<equiv> \<lparr>ps_type = t, ps_optional = False\<rparr>"

abbreviation optionally :: "property_type \<Rightarrow> property_schema" where
  "optionally t \<equiv> \<lparr>ps_type = t, ps_optional = True\<rparr>"

definition messageFields :: schema where
  "messageFields = [(''type'', mandatory P_uint8), (''blockNumber'', mandatory P_uint32),
     (''round'', mandatory P_uint32), (''blockHash'', optionally P_blockHash)]"

definition schemaForSignature :: schema where
  "schemaForSignature =
     [(''genesisBlockHash'', mandatory (P_hash None)), (''previousBlockHash'', mandatory (P_hash None))] @ messageFields"

definition message_schema :: schema where
  "message_schema = messageFields @ [(''validatorIndex'', mandatory P_uint8), (''signature'', mandatory P_consensusSignature)]"

definition proposal_schemaUnsigned :: schema where
  "proposal_schemaUnsigned = [(''round'', mandatory P_uint32), (''validRound'', optionally P_uint32),
     (''validatorIndex'', mandatory P_uint8), (''payloadSerialized'', mandatory P_hex)]"

definition proposal_schema :: schema where
  "proposal_schema = proposal_schemaUnsigned @ [(''signature'', mandatory P_consensusSignature)]"

definition lockProofSchema :: schema where
  "lockProofSchema = [(''signature'', mandatory P_consensusSignature), (''validators'', mandatory P_validatorSet)]"

definition commitProofSchema :: schema where
  "commitProofSchema = [(''round'', mandatory P_uint32), (''signature'', mandatory P_consensusSignature),
     (''validators'', mandatory P_validatorSet)]"

definition signatureSize :: nat where
  "signatureSize = 96"

definition lockProofSize :: nat where
  "lockProofSize = signatureSize + 1 + 8"

definition proofSize :: nat where
  "proofSize = 4 + signatureSize + 1 + 8"

lemmas schema_defs = messageFields_def schemaForSignature_def message_schema_def proposal_schemaUnsigned_def
  proposal_schema_def lockProofSchema_def commitProofSchema_def

section \<open>Objects and records\<close>

fun message_type_number :: "message_type \<Rightarrow> nat" where
  "message_type_number Prevote = 1"
| "message_type_number Precommit = 2"
| "message_type_number (OtherType n) = n"

definition message_type_of :: "nat \<Rightarrow> message_type" where
  "message_type_of n = (if n = 1 then Prevote else if n = 2 then Precommit else OtherType n)"

definition V_Option :: "('a \<Rightarrow> js_value) \<Rightarrow> 'a option \<Rightarrow> js_value" where
  "V_Option f x = (case x of None \<Rightarrow> V_Undefined | Some y \<Rightarrow> f y)"

abbreviation V_Nat :: "nat \<Rightarrow> js_value" where
  "V_Nat n \<equiv> V_Number (int n)"

fun as_nat :: "js_value \<Rightarrow> nat" where
  "as_nat (V_Number n) = nat n"
| "as_nat (V_BigInt n) = nat n"
| "as_nat _ = 0"

fun as_string :: "js_value \<Rightarrow> string" where
  "as_string (V_String s) = s"
| "as_string _ = []"

fun as_flags :: "js_value \<Rightarrow> bool list" where
  "as_flags (V_Flags xs) = xs"
| "as_flags _ = []"

definition as_option :: "(js_value \<Rightarrow> 'a) \<Rightarrow> js_value \<Rightarrow> 'a option" where
  "as_option f v = (if v = V_Undefined then None else Some (f v))"

definition message_object :: "message \<Rightarrow> js_object" where
  "message_object m = [(''type'', V_Nat (message_type_number (mg_type m))), (''blockNumber'', V_Nat (mg_blockNumber m)),
     (''round'', V_Nat (mg_round m)), (''blockHash'', V_Option V_String (mg_blockHash m)),
     (''validatorIndex'', V_Nat (mg_validatorIndex m)), (''signature'', V_String (mg_signature m))]"

definition message_of :: "js_object \<Rightarrow> bytes \<Rightarrow> message" where
  "message_of data serialized = \<lparr>mg_type = message_type_of (as_nat (object_get data ''type'')),
     mg_blockNumber = as_nat (object_get data ''blockNumber''), mg_round = as_nat (object_get data ''round''),
     mg_blockHash = as_option as_string (object_get data ''blockHash''),
     mg_validatorIndex = as_nat (object_get data ''validatorIndex''),
     mg_signature = as_string (object_get data ''signature''), mg_serialized = serialized\<rparr>"

section \<open>Messages\<close>

definition serializeMessage :: "viem \<Rightarrow> message \<Rightarrow> error + bytes" where
  "serializeMessage vm m = serialize vm (message_object m)
     (1 + 4 + 4 + 1 + 1 + (if mg_blockHash m \<noteq> None \<and> mg_blockHash m \<noteq> Some [] then hashSize else 0) + signatureSize) 0 message_schema"

record signature_context =
  sx_genesisBlockHash :: string
  sx_previousBlockHash :: string

definition serializeMessageForSignature ::
  "viem \<Rightarrow> message_type \<Rightarrow> nat \<Rightarrow> nat \<Rightarrow> string option \<Rightarrow> signature_context \<Rightarrow> error + bytes" where
  "serializeMessageForSignature vm t blockNumber round blockHash cx = serialize vm
     [(''genesisBlockHash'', V_String (sx_genesisBlockHash cx)), (''previousBlockHash'', V_String (sx_previousBlockHash cx)),
      (''type'', V_Nat (message_type_number t)), (''blockNumber'', V_Nat blockNumber), (''round'', V_Nat round),
      (''blockHash'', V_Option V_String blockHash)]
     (hashSize + hashSize + 1 + 4 + 4 + 1 + (if blockHash \<noteq> None \<and> blockHash \<noteq> Some [] then hashSize else 0)) 0 schemaForSignature"

definition deserializeMessage :: "viem \<Rightarrow> bytes \<Rightarrow> error + js_object" where
  "deserializeMessage vm serialized =
     (case deserialize vm message_schema [] (fromBuffer serialized) of
        Inl _ \<Rightarrow> Inl (JsError ''MessageDeserializationError'')
      | Inr (result, buffer) \<Rightarrow>
          if getRemainderLength buffer = 0 then Inr result
          else Inl (JsError ''MessageDeserializationError''))"

text \<open>\<open>Factory.makeMessageFromBytes\<close>; \<open>validate\<close> is the schema check of \<open>validator\<close>.\<close>

definition makeMessageFromBytes :: "viem \<Rightarrow> (js_object \<Rightarrow> bool) \<Rightarrow> bytes \<Rightarrow> error + message" where
  "makeMessageFromBytes vm validate bytes =
     sum_bind (deserializeMessage vm bytes) (\<lambda>data.
       if validate data then Inr (message_of data bytes) else Inl (JsError ''MessageSchemaError''))"

text \<open>\<open>Factory.makeMessage\<close>; \<open>sign\<close> is the BLS signature with the key pair.\<close>

definition makeMessage ::
  "viem \<Rightarrow> (js_object \<Rightarrow> bool) \<Rightarrow> (bytes \<Rightarrow> error + string) \<Rightarrow> signature_context \<Rightarrow>
   message_type \<Rightarrow> nat \<Rightarrow> nat \<Rightarrow> nat \<Rightarrow> string option \<Rightarrow> error + message" where
  "makeMessage vm validate sign cx t validatorIndex blockNumber round blockHash =
     sum_bind (serializeMessageForSignature vm t blockNumber round blockHash cx) (\<lambda>bytes.
       sum_bind (sign bytes) (\<lambda>signature.
         sum_bind (serializeMessage vm \<lparr>mg_type = t, mg_blockNumber = blockNumber, mg_round = round, mg_blockHash = blockHash,
             mg_validatorIndex = validatorIndex, mg_signature = signature, mg_serialized = []\<rparr>)
           (makeMessageFromBytes vm validate)))"

section \<open>Messages that can travel\<close>

definition wire_hash :: "string \<Rightarrow> bool" where
  "wire_hash h \<longleftrightarrow> (\<exists>bs. h = to_hex bs \<and> length bs = hashSize)"

definition wire_signature :: "string \<Rightarrow> bool" where
  "wire_signature h \<longleftrightarrow> (\<exists>bs. h = to_hex bs \<and> length bs = signatureSize)"

definition wire_message :: "message \<Rightarrow> bool" where
  "wire_message m \<longleftrightarrow> message_type_number (mg_type m) < 2 ^ 8 \<and> message_type_of (message_type_number (mg_type m)) = mg_type m
     \<and> mg_blockNumber m < 2 ^ 32 \<and> mg_round m < 2 ^ 32 \<and> (\<forall>h. mg_blockHash m = Some h \<longrightarrow> wire_hash h)
     \<and> mg_validatorIndex m < 2 ^ 8 \<and> wire_signature (mg_signature m)"

lemma message_type_of_inverse [simp]: "message_type_number (message_type_of n) = n"
  by (simp add: message_type_of_def)

lemma V_Option_simps [simp]:
  "V_Option V_String h = V_Undefined \<longleftrightarrow> h = None" "as_option as_string (V_Option V_String h) = h"
  "V_Option V_Nat r = V_Undefined \<longleftrightarrow> r = None" "as_option as_nat (V_Option V_Nat r) = r"
  by (cases h; cases r; simp add: V_Option_def as_option_def)+

lemma int_less_power [simp]: "int n < 2 ^ k \<longleftrightarrow> n < 2 ^ k"
  by (metis of_nat_less_iff of_nat_numeral of_nat_power)

lemma wire_hash_nonempty: "wire_hash h \<Longrightarrow> h \<noteq> []"
  by (auto simp: wire_hash_def hashSize_def to_hex_def)

lemma message_values:
  "object_values message_schema (message_object m) = [V_Nat (message_type_number (mg_type m)), V_Nat (mg_blockNumber m),
     V_Nat (mg_round m), V_Option V_String (mg_blockHash m), V_Nat (mg_validatorIndex m), V_String (mg_signature m)]"
  by (simp add: schema_defs object_values_def message_object_def object_get_def map_get_def)

lemma property_ok_simps:
  "property_ok vm target (mandatory P_uint8) v = number_in V_Number 1 v"
  "property_ok vm target (mandatory P_uint32) v = number_in V_Number 4 v"
  "property_ok vm target (optionally P_uint32) v = (v = V_Undefined \<or> number_in V_Number 4 v)"
  "property_ok vm target (optionally P_blockHash) v = (v = V_Undefined \<or> hex_of_length hashSize v)"
  "property_ok vm target (mandatory (P_hash None)) v = hex_of_length hashSize v"
  "property_ok vm target (mandatory P_consensusSignature) v = hex_of_length signatureSize v"
  by (simp_all add: property_ok_def opt_ok_def hash_width_def signatureSize_def)

lemma number_in_nat [simp]: "number_in V_Number k (V_Nat n) \<longleftrightarrow> n < 2 ^ (8 * k)"
  by (auto simp: number_in_def)

lemma hex_of_length_string:
  "hex_of_length hashSize (V_String h) \<longleftrightarrow> wire_hash h" "hex_of_length signatureSize (V_String h) \<longleftrightarrow> wire_signature h"
  by (auto simp: hex_of_length_def wire_hash_def wire_signature_def)

lemma optional_hash_ok:
  "V_Option V_String h = V_Undefined \<or> hex_of_length hashSize (V_Option V_String h) \<longleftrightarrow> (\<forall>x. h = Some x \<longrightarrow> wire_hash x)"
  by (cases h) (auto simp: V_Option_def hex_of_length_string)

lemma message_values_ok:
  "values_ok vm message_schema [] (object_values message_schema (message_object m))
     \<longleftrightarrow> message_type_number (mg_type m) < 2 ^ 8 \<and> mg_blockNumber m < 2 ^ 32 \<and> mg_round m < 2 ^ 32
       \<and> (\<forall>h. mg_blockHash m = Some h \<longrightarrow> wire_hash h) \<and> mg_validatorIndex m < 2 ^ 8 \<and> wire_signature (mg_signature m)"
  unfolding message_values
  by (simp add: schema_defs property_ok_simps hex_of_length_string optional_hash_ok del: V_Option_simps)

lemma property_enc_length:
  "length (property_enc vm (mandatory P_uint8) v) = 1" "length (property_enc vm (mandatory P_uint32) v) = 4"
  "length (property_enc vm (optionally P_uint32) v) = (if v = V_Undefined then 1 else 5)"
  "hex_of_length hashSize v \<Longrightarrow> length (property_enc vm (optionally P_blockHash) v) = 33"
  "length (property_enc vm (optionally P_blockHash) V_Undefined) = 1"
  "hex_of_length hashSize v \<Longrightarrow> length (property_enc vm (mandatory (P_hash None)) v) = 32"
  "hex_of_length signatureSize v \<Longrightarrow> length (property_enc vm (mandatory P_consensusSignature) v) = 96"
  by (auto simp: property_enc_def opt_enc_def hex_of_length_def hashSize_def signatureSize_def)

lemma optional_hash_length:
  "(\<forall>x. h = Some x \<longrightarrow> wire_hash x) \<Longrightarrow> length (property_enc vm (optionally P_blockHash) (V_Option V_String h))
     = 1 + (if h \<noteq> None \<and> h \<noteq> Some [] then hashSize else 0)"
proof (cases h)
  case (Some x)
  assume "\<forall>x. h = Some x \<longrightarrow> wire_hash x"
  with Some have x: "wire_hash x" by simp
  then have "hex_of_length hashSize (V_String x)" by (simp add: hex_of_length_string)
  from property_enc_length(4) [OF this] wire_hash_nonempty [OF x] Some show ?thesis by (simp add: V_Option_def hashSize_def)
qed (simp add: V_Option_def property_enc_length)

lemma message_enc_length:
  assumes "wire_message m"
  shows "length (values_enc vm message_schema (object_values message_schema (message_object m)))
    = 1 + 4 + 4 + 1 + 1 + (if mg_blockHash m \<noteq> None \<and> mg_blockHash m \<noteq> Some [] then hashSize else 0) + signatureSize"
  using assms unfolding message_values
  by (simp add: schema_defs wire_message_def property_enc_length hex_of_length_string optional_hash_length
      del: V_Option_simps) (simp add: signatureSize_def)

lemma serializeMessage_enc:
  assumes "viem_law vm" and "wire_message m"
  shows "serializeMessage vm m = Inr (values_enc vm message_schema (object_values message_schema (message_object m)))"
  unfolding serializeMessage_def
proof (rule serialize_object [OF assms(1)])
  show "values_ok vm message_schema [] (object_values message_schema (message_object m))"
    using assms(2) unfolding message_values_ok wire_message_def by blast
qed (simp only: message_enc_length [OF assms(2)] le_refl)

lemma deserializeMessage_whole: "deserializeMessage vm bs = Inr data \<longleftrightarrow> read_whole vm message_schema bs = Some data"
  by (auto simp: deserializeMessage_def read_whole_def split: sum.splits if_splits)

lemma message_of_values:
  "message_of (assign message_schema [V_Nat t, V_Nat n, V_Nat r, V_Option V_String h, V_Nat i, V_String sg] []) bs
   = \<lparr>mg_type = message_type_of t, mg_blockNumber = n, mg_round = r, mg_blockHash = h, mg_validatorIndex = i,
      mg_signature = sg, mg_serialized = bs\<rparr>"
  by (simp add: message_of_def schema_defs)

lemma deserializeMessage_enc:
  assumes "viem_law vm" and "wire_message m"
    and "bs = values_enc vm message_schema (object_values message_schema (message_object m))"
  shows "\<exists>data. deserializeMessage vm bs = Inr data \<and> message_of data bs = m\<lparr>mg_serialized := bs\<rparr>"
proof -
  have "values_ok vm message_schema [] (object_values message_schema (message_object m))"
    using assms(2) unfolding message_values_ok wire_message_def by blast
  from read_whole_values [OF assms(1) this] assms(2,3) show ?thesis
    unfolding deserializeMessage_whole
    by (auto simp: message_values message_of_values wire_message_def simp del: V_Option_simps)
qed

text \<open>Values of the schema come from a message.\<close>

lemma message_values_surj:
  assumes "values_ok vm message_schema [] vs"
  obtains t n r h i sg where "vs = [V_Nat t, V_Nat n, V_Nat r, V_Option V_String h, V_Nat i, V_String sg]"
proof -
  have num: "\<exists>n. v = V_Nat n" if "number_in V_Number k v" for k v
    using that by (metis int_nat_eq number_in_def)
  have opt: "\<exists>h. v = V_Option V_String h" if "v = V_Undefined \<or> hex_of_length hashSize v" for v
  proof -
    have "V_Undefined = V_Option V_String None" "V_String x = V_Option V_String (Some x)" for x by (simp_all add: V_Option_def)
    with that show ?thesis unfolding hex_of_length_def by blast
  qed
  from values_ok_length [OF assms] have "length vs = 6" by (simp add: schema_defs)
  then obtain a b c d e f where vs: "vs = [a, b, c, d, e, f]" by (auto simp: length_Suc_conv numeral_eq_Suc)
  with assms have ok: "number_in V_Number 1 a" "number_in V_Number 4 b" "number_in V_Number 4 c"
    "d = V_Undefined \<or> hex_of_length hashSize d" "number_in V_Number 1 e" "hex_of_length signatureSize f"
    by (simp_all add: schema_defs property_ok_simps)
  obtain sg where "f = V_String sg" using ok(6) unfolding hex_of_length_def by blast
  moreover obtain h where "d = V_Option V_String h" using opt [OF ok(4)] by blast
  ultimately show ?thesis using num [OF ok(1)] num [OF ok(2)] num [OF ok(3)] num [OF ok(5)] vs that by blast
qed

lemma message_read_canonical:
  assumes "viem_law vm" and "deserializeMessage vm bs = Inr data"
  shows "wire_message (message_of data bs) \<and> serializeMessage vm (message_of data bs) = Inr bs"
proof -
  have dist: "distinct (map fst message_schema)" by (simp add: schema_defs)
  from read_whole_canonical [OF assms(1) dist] assms(2) have
    c: "values_ok vm message_schema [] (object_values message_schema data)"
      "bs = values_enc vm message_schema (object_values message_schema data)"
      "data = assign message_schema (object_values message_schema data) []"
    unfolding deserializeMessage_whole by blast+
  obtain t n r h i sg where vs: "object_values message_schema data = [V_Nat t, V_Nat n, V_Nat r, V_Option V_String h, V_Nat i, V_String sg]"
    using message_values_surj [OF c(1)] .
  have m: "message_of data bs = \<lparr>mg_type = message_type_of t, mg_blockNumber = n, mg_round = r, mg_blockHash = h,
      mg_validatorIndex = i, mg_signature = sg, mg_serialized = bs\<rparr>"
    using c(3) message_of_values unfolding vs by metis
  then have same: "object_values message_schema (message_object (message_of data bs)) = object_values message_schema data"
    unfolding message_values vs by simp
  with c(1) message_values_ok [of vm "message_of data bs"] m have "wire_message (message_of data bs)"
    by (simp add: wire_message_def)
  with serializeMessage_enc [OF assms(1)] same c(2) show ?thesis by metis
qed

section \<open>What is signed\<close>

lemma signature_values:
  "object_values schemaForSignature [(''genesisBlockHash'', g), (''previousBlockHash'', p), (''type'', t), (''blockNumber'', n),
     (''round'', r), (''blockHash'', h)] = [g, p, t, n, r, h]"
  by (simp add: schema_defs object_values_def object_get_def map_get_def)

definition wire_vote :: "message_type \<Rightarrow> nat \<Rightarrow> nat \<Rightarrow> string option \<Rightarrow> signature_context \<Rightarrow> bool" where
  "wire_vote t n r h cx \<longleftrightarrow> t \<in> {Prevote, Precommit} \<and> n < 2 ^ 32 \<and> r < 2 ^ 32 \<and> (\<forall>x. h = Some x \<longrightarrow> wire_hash x)
     \<and> wire_hash (sx_genesisBlockHash cx) \<and> wire_hash (sx_previousBlockHash cx)"

abbreviation vote_values :: "message_type \<Rightarrow> nat \<Rightarrow> nat \<Rightarrow> string option \<Rightarrow> signature_context \<Rightarrow> js_value list" where
  "vote_values t n r h cx \<equiv> [V_String (sx_genesisBlockHash cx), V_String (sx_previousBlockHash cx),
     V_Nat (message_type_number t), V_Nat n, V_Nat r, V_Option V_String h]"

lemma vote_values_ok: "wire_vote t n r h cx \<Longrightarrow> values_ok vm schemaForSignature [] (vote_values t n r h cx)"
  by (auto simp: wire_vote_def schema_defs property_ok_simps hex_of_length_string optional_hash_ok simp del: V_Option_simps)

lemma vote_values_length:
  "wire_vote t n r h cx \<Longrightarrow> length (values_enc vm schemaForSignature (vote_values t n r h cx))
     = hashSize + hashSize + 1 + 4 + 4 + 1 + (if h \<noteq> None \<and> h \<noteq> Some [] then hashSize else 0)"
  by (simp add: wire_vote_def schema_defs property_enc_length hex_of_length_string optional_hash_length del: V_Option_simps)
    (simp add: hashSize_def)

lemma signed_bytes:
  assumes "viem_law vm" and "wire_vote t n r h cx"
  shows "serializeMessageForSignature vm t n r h cx = Inr (values_enc vm schemaForSignature (vote_values t n r h cx))"
  unfolding serializeMessageForSignature_def
  using serialize_object [OF assms(1), where schema = schemaForSignature and target = "[]"] vote_values_ok [OF assms(2)]
    vote_values_length [OF assms(2), of vm] by (simp add: signature_values)

lemma V_Option_inject: "V_Option V_String h = V_Option V_String h' \<longleftrightarrow> h = h'"
  by (cases h; cases h'; simp add: V_Option_def)

lemma values_enc_inject:
  assumes "viem_law vm" and "distinct (map fst schema)" and "values_ok vm schema [] vs" and "values_ok vm schema [] us"
    and "values_enc vm schema vs = values_enc vm schema us"
  shows "vs = us"
  using read_whole_values [OF assms(1,3)] read_whole_values [OF assms(1,4)] assms(5)
    object_values_assign [OF assms(2) values_ok_length [OF assms(3)]] object_values_assign [OF assms(2) values_ok_length [OF assms(4)]]
  by (metis option.inject)

section \<open>Properties\<close>

text \<open>A consensus message that fits its wire format is written without an error, and reading the bytes
  gives the same message.\<close>

theorem message_roundtrip:
  assumes "viem_law vm" and "wire_message m"
  shows "\<exists>bs data. serializeMessage vm m = Inr bs \<and> deserializeMessage vm bs = Inr data
    \<and> message_of data bs = m\<lparr>mg_serialized := bs\<rparr>"
  using serializeMessage_enc [OF assms] deserializeMessage_enc [OF assms refl] by blast

text \<open>A consensus message has one encoding: whatever bytes \<open>makeMessageFromBytes\<close> accepts are exactly
  the bytes \<open>serializeMessage\<close> writes for the result. Two different texts never decode to the same
  vote, so the bytes are a faithful key for it.\<close>

theorem message_encoding_unique:
  assumes "viem_law vm" and "makeMessageFromBytes vm validate bs = Inr m"
  shows "serializeMessage vm m = Inr bs \<and> mg_serialized m = bs"
proof -
  from assms(2) obtain data where "deserializeMessage vm bs = Inr data" "m = message_of data bs"
    by (auto simp: makeMessageFromBytes_def sum_bind_Inr_iff split: if_splits)
  with message_read_canonical [OF assms(1)] show ?thesis by (auto simp: message_of_def)
qed

text \<open>C37 (safety). The bytes a vote is signed over determine the vote: type, height, round, block hash (or none) and
  the chain it belongs to. A signature of one vote is never a signature of another.\<close>

theorem signed_bytes_determine_vote:
  assumes "viem_law vm" and "wire_vote t n r h cx" and "wire_vote t' n' r' h' cx'"
    and "serializeMessageForSignature vm t n r h cx = serializeMessageForSignature vm t' n' r' h' cx'"
  shows "t = t' \<and> n = n' \<and> r = r' \<and> h = h' \<and> cx = cx'"
proof -
  have "values_enc vm schemaForSignature (vote_values t n r h cx) = values_enc vm schemaForSignature (vote_values t' n' r' h' cx')"
    using assms(4) unfolding signed_bytes [OF assms(1,2)] signed_bytes [OF assms(1,3)] by simp
  moreover have "distinct (map fst schemaForSignature)" by (simp add: schema_defs)
  ultimately have "vote_values t n r h cx = vote_values t' n' r' h' cx'"
    using values_enc_inject [OF assms(1) _ vote_values_ok [OF assms(2)] vote_values_ok [OF assms(3)]] by blast
  moreover have "message_type_number t = message_type_number t' \<Longrightarrow> t = t'"
    using assms(2,3) by (auto simp: wire_vote_def)
  ultimately show ?thesis by (cases cx; cases cx') (auto simp: V_Option_inject)
qed

text \<open>\<open>Factory.makeMessage\<close>: a vote signed by the node has the content asked for, and its bytes read
  back give it again, also after a restart from the consensus store. This is what the safety proofs
  assume of the message factory.\<close>

theorem made_message_is_read_back:
  assumes "viem_law vm" and "wire_vote t n r h cx" and "i < 2 ^ 8"
    and "\<And>bs sg. sign bs = Inr sg \<Longrightarrow> wire_signature sg"
    and "makeMessage vm validate sign cx t i n r h = Inr m"
  shows "mg_type m = t \<and> mg_validatorIndex m = i \<and> mg_blockNumber m = n \<and> mg_round m = r \<and> mg_blockHash m = h
    \<and> makeMessageFromBytes vm validate (mg_serialized m) = Inr m"
proof -
  let ?m = "\<lambda>sg. \<lparr>mg_type = t, mg_blockNumber = n, mg_round = r, mg_blockHash = h, mg_validatorIndex = i,
    mg_signature = sg, mg_serialized = []\<rparr>"
  from assms(5) obtain sb sg bs where sg: "sign sb = Inr sg" and bs: "serializeMessage vm (?m sg) = Inr bs"
    and m: "makeMessageFromBytes vm validate bs = Inr m"
    by (auto simp: makeMessage_def sum_bind_Inr_iff)
  have wm: "wire_message (?m sg)"
    using assms(2,3) assms(4) [OF sg] by (auto simp: wire_message_def wire_vote_def message_type_of_def)
  obtain data where data: "deserializeMessage vm bs = Inr data" "message_of data bs = (?m sg)\<lparr>mg_serialized := bs\<rparr>"
    using deserializeMessage_enc [OF assms(1) wm] bs serializeMessage_enc [OF assms(1) wm] by auto
  with m have "m = (?m sg)\<lparr>mg_serialized := bs\<rparr>" by (auto simp: makeMessageFromBytes_def split: if_splits)
  with m show ?thesis by simp
qed

section \<open>A sample\<close>

text \<open>An instance of the library functions, a vote and a context.\<close>

definition sample_viem :: viem where
  "sample_viem = \<lparr>vm_toBytes = (\<lambda>n. rev (le_min n)), vm_padBytes = (\<lambda>bs k. replicate (k - length bs) 0 @ bs),
     vm_trim = dropWhile (\<lambda>b. b = 0), vm_bytesToBigInt = (\<lambda>bs. be_value bs), vm_hexToBytes = (\<lambda>a. from_hex (drop 2 a)),
     vm_getAddress = (\<lambda>bs. ''0x'' @ to_hex bs), vm_toRlp = rlp_list\<rparr>"

lemma be_value_trim: "be_value (dropWhile (\<lambda>b. b = 0) bs) = be_value bs"
  by (induction bs) (auto simp: le_value_append)

lemma le_min_0: "le_min 0 = [0]"
  by (subst le_min.simps) simp

lemma sample_viem_law: "viem_law sample_viem"
  by (simp add: viem_law_def sample_viem_def le_min_value le_min_top hd_rev be_value_trim le_min_0)

definition sample_vote :: message where
  "sample_vote = \<lparr>mg_type = Precommit, mg_blockNumber = 7, mg_round = 1, mg_blockHash = Some (to_hex (replicate 32 5)),
     mg_validatorIndex = 3, mg_signature = to_hex (replicate 96 9), mg_serialized = []\<rparr>"

lemma sample_wire_message: "wire_message sample_vote"
  by (auto simp: wire_message_def sample_vote_def message_type_of_def wire_hash_def wire_signature_def hashSize_def signatureSize_def
      intro!: exI [of _ "replicate 32 5"] exI [of _ "replicate 96 9"])

definition sample_context :: signature_context where
  "sample_context = \<lparr>sx_genesisBlockHash = to_hex (replicate 32 1), sx_previousBlockHash = to_hex (replicate 32 2)\<rparr>"

lemma sample_wire_vote: "wire_vote Precommit 7 1 (Some (to_hex (replicate 32 5))) sample_context" "wire_vote Prevote 7 1 None sample_context"
  by (auto simp: wire_vote_def sample_context_def wire_hash_def hashSize_def)

theorem message_roundtrip_witness:
  "\<exists>bs data. serializeMessage sample_viem sample_vote = Inr bs \<and> deserializeMessage sample_viem bs = Inr data
     \<and> message_of data bs = sample_vote\<lparr>mg_serialized := bs\<rparr>"
  by (rule message_roundtrip [OF sample_viem_law sample_wire_message])

lemma sample_made_message:
  "\<exists>bs m. serializeMessage sample_viem sample_vote = Inr bs \<and> makeMessageFromBytes sample_viem (\<lambda>_. True) bs = Inr m"
  using serializeMessage_enc [OF sample_viem_law sample_wire_message]
    deserializeMessage_enc [OF sample_viem_law sample_wire_message refl] by (auto simp: makeMessageFromBytes_def)

theorem message_encoding_unique_witness:
  "\<exists>bs m. makeMessageFromBytes sample_viem (\<lambda>_. True) bs = Inr m \<and> serializeMessage sample_viem m = Inr bs"
  using sample_made_message message_encoding_unique [OF sample_viem_law, of "\<lambda>_. True"] by blast

theorem signed_bytes_determine_vote_witness:
  "serializeMessageForSignature sample_viem Precommit 7 1 (Some (to_hex (replicate 32 5))) sample_context
   \<noteq> serializeMessageForSignature sample_viem Prevote 7 1 None sample_context"
  using signed_bytes_determine_vote [OF sample_viem_law sample_wire_vote(1) sample_wire_vote(2)] by auto

definition sample_sign :: "bytes \<Rightarrow> error + string" where
  "sample_sign bs = Inr (to_hex (replicate 96 9))"

theorem made_message_is_read_back_witness:
  "\<exists>m. makeMessage sample_viem (\<lambda>_. True) sample_sign sample_context Prevote 3 7 1 None = Inr m
     \<and> mg_validatorIndex m = 3 \<and> makeMessageFromBytes sample_viem (\<lambda>_. True) (mg_serialized m) = Inr m"
proof -
  let ?m = "\<lparr>mg_type = Prevote, mg_blockNumber = 7, mg_round = 1, mg_blockHash = None, mg_validatorIndex = 3,
     mg_signature = to_hex (replicate 96 9), mg_serialized = []\<rparr>"
  have sg: "wire_signature (to_hex (replicate 96 9))" by (auto simp: wire_signature_def signatureSize_def)
  then have w: "wire_message ?m" by (simp add: wire_message_def message_type_of_def)
  obtain m where m: "makeMessage sample_viem (\<lambda>_. True) sample_sign sample_context Prevote 3 7 1 None = Inr m"
    using signed_bytes [OF sample_viem_law sample_wire_vote(2)] serializeMessage_enc [OF sample_viem_law w]
      deserializeMessage_enc [OF sample_viem_law w refl]
    by (auto simp: makeMessage_def sample_sign_def makeMessageFromBytes_def)
  have "\<And>bs sg. sample_sign bs = Inr sg \<Longrightarrow> wire_signature sg" using sg by (simp add: sample_sign_def)
  from made_message_is_read_back [OF sample_viem_law sample_wire_vote(2) _ this m] m show ?thesis by auto
qed

end
