(* ===== verification/Block_Codec.thy ===== *)
theory Block_Codec
  imports Consensus_Codecs
begin

text \<open>
  \<open>packages/crypto-block/source\<close>: \<open>serializer.ts\<close>, \<open>deserializer.ts\<close>, \<open>hash.factory.ts\<close>, \<open>factory.ts\<close>, the
  schemas and the header size of \<open>service-provider.ts\<close>.

  \<open>sha256\<close>, the schema validator and the transaction factory are arguments. A block whose header
  and transactions fit the format is written and read back; the payload size in the header is
  compared with the bytes that follow it.
\<close>

section \<open>Schemas and sizes\<close>

definition blockHeaderSchema :: schema where
  "blockHeaderSchema = [(''version'', mandatory P_uint8), (''timestamp'', mandatory P_uint48), (''number'', mandatory P_uint32),
     (''round'', mandatory P_uint32), (''parentHash'', mandatory (P_hash None)), (''stateRoot'', mandatory (P_hash None)),
     (''logsBloom'', mandatory (P_hash (Some 256))), (''transactionsCount'', mandatory P_uint16),
     (''gasUsed'', mandatory P_uint32), (''fee'', mandatory P_uint256), (''reward'', mandatory P_uint256),
     (''payloadSize'', mandatory P_uint32), (''transactionsRoot'', mandatory (P_hash None)),
     (''proposer'', mandatory P_address), (''randaoReveal'', mandatory P_consensusSignature)]"

definition transactionsSchema :: schema where
  "transactionsSchema = [(''transactions'', mandatory P_transactions)]"

definition blockSchema :: schema where
  "blockSchema = blockHeaderSchema @ transactionsSchema"

definition headerSize :: nat where
  "headerSize = 1 + 6 + 4 + 4 + hashSize + hashSize + 256 + 2 + 4 + 32 + 32 + 4 + hashSize + 20 + 96"

definition header_object :: "block_header \<Rightarrow> js_object" where
  "header_object h = [(''version'', V_Nat (bh_version h)), (''timestamp'', V_Nat (bh_timestamp h)), (''number'', V_Nat (bh_number h)),
     (''round'', V_Nat (bh_round h)), (''parentHash'', V_String (bh_parentHash h)), (''stateRoot'', V_String (bh_stateRoot h)),
     (''logsBloom'', V_String (bh_logsBloom h)), (''transactionsCount'', V_Nat (bh_transactionsCount h)),
     (''gasUsed'', V_Nat (bh_gasUsed h)), (''fee'', V_BigInt (bh_fee h)), (''reward'', V_BigInt (bh_reward h)),
     (''payloadSize'', V_Nat (bh_payloadSize h)), (''transactionsRoot'', V_String (bh_transactionsRoot h)),
     (''proposer'', V_String (bh_proposer h)), (''randaoReveal'', V_String (bh_randaoReveal h))]"

fun as_bigint :: "js_value \<Rightarrow> int" where
  "as_bigint (V_BigInt n) = n"
| "as_bigint _ = 0"

fun as_buffers :: "js_value \<Rightarrow> bytes list" where
  "as_buffers (V_Buffers bs) = bs"
| "as_buffers _ = []"

definition header_of :: "js_object \<Rightarrow> string \<Rightarrow> block_header" where
  "header_of data hash = \<lparr>bh_version = as_nat (object_get data ''version''), bh_timestamp = as_nat (object_get data ''timestamp''),
     bh_number = as_nat (object_get data ''number''), bh_round = as_nat (object_get data ''round''),
     bh_parentHash = as_string (object_get data ''parentHash''), bh_stateRoot = as_string (object_get data ''stateRoot''),
     bh_logsBloom = as_string (object_get data ''logsBloom''),
     bh_transactionsCount = as_nat (object_get data ''transactionsCount''), bh_gasUsed = as_nat (object_get data ''gasUsed''),
     bh_fee = as_bigint (object_get data ''fee''), bh_reward = as_bigint (object_get data ''reward''),
     bh_payloadSize = as_nat (object_get data ''payloadSize''),
     bh_transactionsRoot = as_string (object_get data ''transactionsRoot''),
     bh_proposer = as_string (object_get data ''proposer''), bh_randaoReveal = as_string (object_get data ''randaoReveal''),
     bh_hash = hash\<rparr>"

section \<open>Serializer and hash\<close>

definition totalSize :: "block_header \<Rightarrow> nat" where
  "totalSize h = headerSize + bh_payloadSize h"

definition serializeHeader :: "viem \<Rightarrow> block_header \<Rightarrow> error + bytes" where
  "serializeHeader vm h = serialize vm (header_object h) headerSize 0 blockHeaderSchema"

definition serializeWithTransactions :: "viem \<Rightarrow> block_header \<Rightarrow> bytes list \<Rightarrow> error + bytes" where
  "serializeWithTransactions vm h txs =
     serialize vm (header_object h @ [(''transactions'', V_Buffers txs)]) (totalSize h) 0 blockSchema"

definition make_hash :: "viem \<Rightarrow> (bytes \<Rightarrow> bytes) \<Rightarrow> block_header \<Rightarrow> error + string" where
  "make_hash vm sha256 h = sum_bind (serializeHeader vm h) (\<lambda>bs. Inr (to_hex (sha256 bs)))"

section \<open>Deserializer\<close>

definition deserializeBufferHeader :: "viem \<Rightarrow> byte_buffer \<Rightarrow> error + (js_object \<times> byte_buffer)" where
  "deserializeBufferHeader vm buffer =
     sum_bind (deserialize vm blockHeaderSchema [] buffer) (\<lambda>(header, rest).
       if getRemainderLength rest \<noteq> as_nat (object_get header ''payloadSize'')
       then Inl (JsError ''InvalidBlockBytesError: payload size'') else Inr (header, rest))"

definition with_hash :: "viem \<Rightarrow> (bytes \<Rightarrow> bytes) \<Rightarrow> js_object \<Rightarrow> error + block_header" where
  "with_hash vm sha256 header = sum_bind (make_hash vm sha256 (header_of header [])) (\<lambda>hash. Inr (header_of header hash))"

definition deserializeHeader :: "viem \<Rightarrow> (bytes \<Rightarrow> bytes) \<Rightarrow> bytes \<Rightarrow> error + block_header" where
  "deserializeHeader vm sha256 serialized =
     sum_bind (deserializeBufferHeader vm (fromBuffer serialized)) (\<lambda>(header, _). with_hash vm sha256 header)"

fun map_sum :: "('a \<Rightarrow> error + 'b) \<Rightarrow> 'a list \<Rightarrow> error + 'b list" where
  "map_sum f [] = Inr []"
| "map_sum f (x # xs) = sum_bind (f x) (\<lambda>y. sum_bind (map_sum f xs) (\<lambda>ys. Inr (y # ys)))"

definition deserializeTransactions ::
  "viem \<Rightarrow> (bytes \<Rightarrow> error + transaction) \<Rightarrow> js_object \<Rightarrow> byte_buffer \<Rightarrow> error + (transaction list \<times> byte_buffer)" where
  "deserializeTransactions vm fromBytes header buffer =
     sum_bind (deserialize vm transactionsSchema header buffer) (\<lambda>(b, rest).
       sum_bind (map_sum fromBytes (as_buffers (object_get b ''transactions''))) (\<lambda>txs. Inr (txs, rest)))"

definition deserializeWithTransactions ::
  "viem \<Rightarrow> (bytes \<Rightarrow> bytes) \<Rightarrow> (bytes \<Rightarrow> error + transaction) \<Rightarrow> bytes \<Rightarrow> error + (block_header \<times> transaction list)" where
  "deserializeWithTransactions vm sha256 fromBytes serialized =
     sum_bind (deserializeBufferHeader vm (fromBuffer serialized)) (\<lambda>(header, buffer).
       sum_bind (if getRemainderLength buffer > 0 then deserializeTransactions vm fromBytes header buffer else Inr ([], buffer))
         (\<lambda>(transactions, buffer1).
            if getRemainderLength buffer1 \<noteq> 0 then Inl (JsError ''InvalidBlockBytesError: trailing bytes'')
            else sum_bind (with_hash vm sha256 header) (\<lambda>h. Inr (h, transactions))))"

section \<open>Factory\<close>

text \<open>\<open>verify\<close> is the schema check, which throws \<open>BlockSchemaError\<close>.\<close>

definition headerFromBytes :: "viem \<Rightarrow> (bytes \<Rightarrow> bytes) \<Rightarrow> (block_header \<Rightarrow> error option) \<Rightarrow> bytes \<Rightarrow> error + block_header" where
  "headerFromBytes vm sha256 verifyHeader serialized =
     sum_bind (deserializeHeader vm sha256 serialized) (\<lambda>h.
       case verifyHeader h of Some err \<Rightarrow> Inl err | None \<Rightarrow> Inr h)"

definition blockFromBytes ::
  "viem \<Rightarrow> (bytes \<Rightarrow> bytes) \<Rightarrow> (bytes \<Rightarrow> error + transaction) \<Rightarrow> (block_header \<Rightarrow> transaction list \<Rightarrow> error option) \<Rightarrow>
   bytes \<Rightarrow> error + block" where
  "blockFromBytes vm sha256 fromBytes verifyBlock serialized =
     sum_bind (deserializeWithTransactions vm sha256 fromBytes serialized) (\<lambda>(h, txs).
       case verifyBlock h txs of Some err \<Rightarrow> Inl err
       | None \<Rightarrow> Inr \<lparr>bk_header = h, bk_serialized = to_hex serialized, bk_transactions = txs\<rparr>)"

definition make_block ::
  "viem \<Rightarrow> (bytes \<Rightarrow> bytes) \<Rightarrow> (block_header \<Rightarrow> transaction list \<Rightarrow> error option) \<Rightarrow>
   block_header \<Rightarrow> transaction list \<Rightarrow> error + block" where
  "make_block vm sha256 verifyBlock data txs =
     sum_bind (make_hash vm sha256 data) (\<lambda>hash.
       let h = data\<lparr>bh_hash := hash\<rparr>
       in case verifyBlock h txs of Some err \<Rightarrow> Inl err
          | None \<Rightarrow> sum_bind (serializeWithTransactions vm data (map tx_serialized txs)) (\<lambda>serialized.
              Inr \<lparr>bk_header = h, bk_serialized = to_hex serialized, bk_transactions = txs\<rparr>))"

section \<open>Headers that fit\<close>

definition wire_hex :: "nat \<Rightarrow> string \<Rightarrow> bool" where
  "wire_hex k s \<longleftrightarrow> (\<exists>bs. s = to_hex bs \<and> length bs = k)"

definition wire_header :: "viem \<Rightarrow> block_header \<Rightarrow> bool" where
  "wire_header vm h \<longleftrightarrow> bh_version h < 2 ^ 8 \<and> bh_timestamp h < 2 ^ 48 \<and> bh_number h < 2 ^ 32 \<and> bh_round h < 2 ^ 32
     \<and> wire_hex 32 (bh_parentHash h) \<and> wire_hex 32 (bh_stateRoot h) \<and> wire_hex 256 (bh_logsBloom h)
     \<and> bh_transactionsCount h < 2 ^ 16 \<and> bh_gasUsed h < 2 ^ 32
     \<and> 0 \<le> bh_fee h \<and> bh_fee h < 2 ^ 256 \<and> 0 \<le> bh_reward h \<and> bh_reward h < 2 ^ 256
     \<and> bh_payloadSize h < 2 ^ 32 \<and> wire_hex 32 (bh_transactionsRoot h)
     \<and> (\<exists>bs. bh_proposer h = vm_getAddress vm bs \<and> length bs = 20) \<and> wire_hex 96 (bh_randaoReveal h)"

abbreviation header_values :: "block_header \<Rightarrow> js_value list" where
  "header_values h \<equiv> [V_Nat (bh_version h), V_Nat (bh_timestamp h), V_Nat (bh_number h), V_Nat (bh_round h),
     V_String (bh_parentHash h), V_String (bh_stateRoot h), V_String (bh_logsBloom h), V_Nat (bh_transactionsCount h),
     V_Nat (bh_gasUsed h), V_BigInt (bh_fee h), V_BigInt (bh_reward h), V_Nat (bh_payloadSize h),
     V_String (bh_transactionsRoot h), V_String (bh_proposer h), V_String (bh_randaoReveal h)]"

lemma header_object_values:
  "object_values blockHeaderSchema (header_object h) = header_values h"
  "object_values blockHeaderSchema (header_object h @ rest) = header_values h"
  by (simp_all add: blockHeaderSchema_def object_values_def header_object_def object_get_def map_get_def)

lemma header_property_ok:
  "property_ok vm target (mandatory P_uint48) (V_Nat n) = (n < 2 ^ 48)"
  "property_ok vm target (mandatory P_uint16) (V_Nat n) = (n < 2 ^ 16)"
  "property_ok vm target (mandatory P_uint32) (V_Nat n) = (n < 2 ^ 32)"
  "property_ok vm target (mandatory P_uint8) (V_Nat n) = (n < 2 ^ 8)"
  "property_ok vm target (mandatory P_uint256) (V_BigInt i) = (0 \<le> i \<and> i < 2 ^ 256)"
  "property_ok vm target (mandatory (P_hash w)) (V_String s) = wire_hex (hash_width w) s"
  "property_ok vm target (mandatory P_consensusSignature) (V_String s) = wire_hex 96 s"
  "property_ok vm target (mandatory P_address) (V_String s) = (\<exists>bs. s = vm_getAddress vm bs \<and> length bs = 20)"
  by (auto simp: property_ok_def opt_ok_def number_in_def hex_of_length_def wire_hex_def)

lemma header_values_ok: "wire_header vm h \<Longrightarrow> values_ok vm blockHeaderSchema target (header_values h)"
  unfolding wire_header_def blockHeaderSchema_def
  by (simp add: header_property_ok hash_width_def hashSize_def)

lemma header_of_values:
  "header_of (assign blockHeaderSchema (header_values h) []) hash = h\<lparr>bh_hash := hash\<rparr>"
  by (simp add: header_of_def blockHeaderSchema_def)

lemma header_hash_irrelevant [simp]: "header_object (h\<lparr>bh_hash := x\<rparr>) = header_object h"
  by (simp add: header_object_def)

lemma header_enc_length:
  assumes "viem_law vm" and "wire_header vm h"
  shows "length (values_enc vm blockHeaderSchema (header_values h)) = headerSize"
proof -
  have hex: "length (from_hex s) = k" if "wire_hex k s" for k s using that by (auto simp: wire_hex_def)
  have addr: "length (vm_hexToBytes vm (bh_proposer h)) = 20"
    using assms by (auto simp: wire_header_def viem_law_def)
  have fields: "wire_hex 32 (bh_parentHash h)" "wire_hex 32 (bh_stateRoot h)" "wire_hex 256 (bh_logsBloom h)"
    "wire_hex 32 (bh_transactionsRoot h)" "wire_hex 96 (bh_randaoReveal h)"
    using assms(2) by (simp_all add: wire_header_def)
  show ?thesis
    by (simp add: fields [THEN hex] addr blockHeaderSchema_def property_enc_def opt_enc_def headerSize_def hashSize_def)
qed

lemma serializeHeader_enc:
  assumes "viem_law vm" and "wire_header vm h"
  shows "serializeHeader vm h = Inr (values_enc vm blockHeaderSchema (header_values h))"
  unfolding serializeHeader_def
  using serialize_object [OF assms(1), of blockHeaderSchema "[]" "header_object h" headerSize] header_values_ok [OF assms(2)]
    header_enc_length [OF assms] by (simp add: header_object_values)

text \<open>Every object the header schema reads is the object of a header that fits.\<close>

lemma header_values_surj:
  assumes "values_ok vm blockHeaderSchema [] vs"
  obtains h where "vs = header_values h" and "wire_header vm h" and "bh_hash h = []"
proof -
  have num: "\<exists>n. v = V_Nat n \<and> n < 2 ^ (8 * k)" if "number_in V_Number k v" for k v
  proof -
    from that obtain i where "v = V_Number i" "0 \<le> i" "i < 2 ^ (8 * k)" by (auto simp: number_in_def)
    then show ?thesis by (intro exI [of _ "nat i"]) (simp add: nat_less_iff)
  qed
  have big: "\<exists>i. v = V_BigInt i \<and> 0 \<le> i \<and> i < 2 ^ 256" if "number_in V_BigInt 32 v" for v
    using that by (auto simp: number_in_def)
  have hex: "\<exists>s. v = V_String s \<and> wire_hex k s" if "hex_of_length k v" for k v
    using that by (auto simp: hex_of_length_def wire_hex_def)
  from values_ok_length [OF assms] have "length vs = 15" by (simp add: blockHeaderSchema_def)
  then obtain a b c d e f g i j k l m n p q where vs: "vs = [a, b, c, d, e, f, g, i, j, k, l, m, n, p, q]"
    by (auto simp: length_Suc_conv numeral_eq_Suc)
  from assms have ok: "number_in V_Number 1 a" "number_in V_Number 6 b" "number_in V_Number 4 c" "number_in V_Number 4 d"
    "hex_of_length 32 e" "hex_of_length 32 f" "hex_of_length 256 g" "number_in V_Number 2 i" "number_in V_Number 4 j"
    "number_in V_BigInt 32 k" "number_in V_BigInt 32 l" "number_in V_Number 4 m" "hex_of_length 32 n"
    "\<exists>bs. p = V_String (vm_getAddress vm bs) \<and> length bs = 20" "hex_of_length 96 q"
    unfolding vs blockHeaderSchema_def
    by (simp_all add: property_ok_def opt_ok_def hash_width_def hashSize_def)
  obtain a' b' c' d' where "a = V_Nat a'" "a' < 2 ^ 8" "b = V_Nat b'" "b' < 2 ^ 48" "c = V_Nat c'" "c' < 2 ^ 32" "d = V_Nat d'" "d' < 2 ^ 32"
    using num [OF ok(1)] num [OF ok(2)] num [OF ok(3)] num [OF ok(4)] by auto
  moreover obtain e' f' g' i' j' where "e = V_String e'" "wire_hex 32 e'" "f = V_String f'" "wire_hex 32 f'" "g = V_String g'"
    "wire_hex 256 g'" "i = V_Nat i'" "i' < 2 ^ 16" "j = V_Nat j'" "j' < 2 ^ 32"
    using hex [OF ok(5)] hex [OF ok(6)] hex [OF ok(7)] num [OF ok(8)] num [OF ok(9)] by auto
  moreover obtain p' where "p = V_String p'" "\<exists>bs. p' = vm_getAddress vm bs \<and> length bs = 20" using ok(14) by blast
  moreover obtain k' l' m' n' q' where "k = V_BigInt k'" "0 \<le> k'" "k' < 2 ^ 256" "l = V_BigInt l'" "0 \<le> l'" "l' < 2 ^ 256"
    "m = V_Nat m'" "m' < 2 ^ 32" "n = V_String n'" "wire_hex 32 n'" "q = V_String q'" "wire_hex 96 q'"
    using big [OF ok(10)] big [OF ok(11)] num [OF ok(12)] hex [OF ok(13)] hex [OF ok(15)] by auto
  ultimately show ?thesis
    using that [of "\<lparr>bh_version = a', bh_timestamp = b', bh_number = c', bh_round = d', bh_parentHash = e', bh_stateRoot = f',
      bh_logsBloom = g', bh_transactionsCount = i', bh_gasUsed = j', bh_fee = k', bh_reward = l', bh_payloadSize = m',
      bh_transactionsRoot = n', bh_proposer = p', bh_randaoReveal = q', bh_hash = []\<rparr>"] vs
    by (simp add: wire_header_def)
qed

lemma with_hash_values:
  assumes "viem_law vm" and "wire_header vm h"
  shows "with_hash vm sha256 (assign blockHeaderSchema (header_values h) [])
    = Inr (h\<lparr>bh_hash := to_hex (sha256 (values_enc vm blockHeaderSchema (header_values h)))\<rparr>)"
proof -
  have "serializeHeader vm (h\<lparr>bh_hash := []\<rparr>) = serializeHeader vm h" by (simp add: serializeHeader_def)
  then show ?thesis by (simp add: with_hash_def make_hash_def header_of_values serializeHeader_enc [OF assms])
qed

text \<open>What reading a header off a buffer means.\<close>

lemma deserializeBufferHeader_Inr:
  assumes "viem_law vm" and "deserializeBufferHeader vm (fromBuffer bs) = Inr (header, rest)"
  obtains h where "header = assign blockHeaderSchema (header_values h) []" and "wire_header vm h"
    and "bs = values_enc vm blockHeaderSchema (header_values h) @ getRemainder rest"
    and "length (getRemainder rest) = bh_payloadSize h" and "bb_ok rest"
proof -
  from assms(2) have d: "deserialize vm blockHeaderSchema [] (fromBuffer bs) = Inr (header, rest)"
    "getRemainderLength rest = as_nat (object_get header ''payloadSize'')"
    by (auto simp: deserializeBufferHeader_def sum_bind_Inr_iff split: if_splits)
  from deserialize_canonical [OF assms(1) fromBuffer_simps(1) d(1)] obtain vs where
    vs: "values_ok vm blockHeaderSchema [] vs" "header = assign blockHeaderSchema vs []"
      "consumed (fromBuffer bs) (values_enc vm blockHeaderSchema vs) rest" by blast
  obtain h where h: "vs = header_values h" "wire_header vm h" using header_values_surj [OF vs(1)] .
  have "as_nat (object_get header ''payloadSize'') = bh_payloadSize h"
    unfolding vs(2) h(1) by (simp add: blockHeaderSchema_def)
  with that [of h] vs h d(2) show ?thesis by (simp add: consumed_def length_getRemainder)
qed

lemma deserializeBufferHeader_enc:
  assumes "viem_law vm" and "wire_header vm h" and "length rest = bh_payloadSize h"
    and "bs = values_enc vm blockHeaderSchema (header_values h) @ rest"
  shows "\<exists>b. deserializeBufferHeader vm (fromBuffer bs) = Inr (assign blockHeaderSchema (header_values h) [], b)
    \<and> getRemainder b = rest \<and> bb_ok b"
proof -
  obtain b where b: "deserialize vm blockHeaderSchema [] (fromBuffer bs) = Inr (assign blockHeaderSchema (header_values h) [], b)"
    "consumed (fromBuffer bs) (values_enc vm blockHeaderSchema (header_values h)) b"
    using deserialize_consumes [OF assms(1) header_values_ok [OF assms(2)] fromBuffer_simps(1), of bs rest] assms(4) by auto
  have "getRemainder b = rest" using b(2) assms(4) by (simp add: consumed_def)
  moreover have "as_nat (object_get (assign blockHeaderSchema (header_values h) []) ''payloadSize'') = bh_payloadSize h"
    by (simp add: blockHeaderSchema_def)
  ultimately show ?thesis
    using b assms(3) length_getRemainder [of b] by (simp add: deserializeBufferHeader_def consumed_def)
qed

section \<open>Blocks that fit\<close>

definition wire_block :: "viem \<Rightarrow> block_header \<Rightarrow> bytes list \<Rightarrow> bool" where
  "wire_block vm h txs \<longleftrightarrow> wire_header vm h \<and> bh_transactionsCount h = length txs
     \<and> bh_payloadSize h = length (transactions_enc txs) \<and> (\<forall>t \<in> set txs. length t < 2 ^ 32)"

lemma transactions_values_ok:
  "wire_block vm h txs \<Longrightarrow>
   values_ok vm transactionsSchema (assign blockHeaderSchema (header_values h) []) [V_Buffers txs]"
  by (simp add: transactionsSchema_def wire_block_def property_ok_def blockHeaderSchema_def)

lemma values_ok_append:
  "length vs = length schema \<Longrightarrow> values_ok vm (schema @ schema') target (vs @ vs')
     \<longleftrightarrow> values_ok vm schema target vs \<and> values_ok vm schema' (assign schema vs target) vs'"
proof (induction schema arbitrary: vs target)
  case (Cons x schema)
  obtain p sch where "x = (p, sch)" by (cases x)
  with Cons show ?case by (cases vs) auto
qed simp

lemma values_enc_append:
  "length vs = length schema \<Longrightarrow> values_enc vm (schema @ schema') (vs @ vs') = values_enc vm schema vs @ values_enc vm schema' vs'"
proof (induction schema arbitrary: vs)
  case (Cons x schema)
  obtain p sch where "x = (p, sch)" by (cases x)
  with Cons show ?case by (cases vs) auto
qed simp

lemma transactions_enc_values: "values_enc vm transactionsSchema [V_Buffers txs] = transactions_enc txs"
  by (simp add: transactionsSchema_def property_enc_def)

lemma block_object_values:
  "object_values blockSchema (header_object h @ [(''transactions'', V_Buffers txs)]) = header_values h @ [V_Buffers txs]"
proof -
  have "object_get (header_object h @ [(''transactions'', V_Buffers txs)]) ''transactions'' = V_Buffers txs"
    by (simp add: header_object_def object_get_def map_get_def)
  then show ?thesis
    using header_object_values(2) [of h "[(''transactions'', V_Buffers txs)]"]
    by (simp add: blockSchema_def object_values_def transactionsSchema_def)
qed

text \<open>A header may announce more bytes than its transactions take.\<close>

lemma serializeWithTransactions_fits:
  assumes "viem_law vm" and "wire_header vm h" and "bh_transactionsCount h = length txs" and "\<forall>t \<in> set txs. length t < 2 ^ 32"
    and "length (transactions_enc txs) \<le> bh_payloadSize h"
  shows "serializeWithTransactions vm h txs
    = Inr (values_enc vm blockHeaderSchema (header_values h) @ transactions_enc txs)"
proof -
  have len: "length (header_values h) = length blockHeaderSchema" by (simp add: blockHeaderSchema_def)
  have "values_ok vm transactionsSchema (assign blockHeaderSchema (header_values h) []) [V_Buffers txs]"
    using assms(3,4) by (simp add: transactionsSchema_def property_ok_def blockHeaderSchema_def)
  then have "values_ok vm blockSchema [] (header_values h @ [V_Buffers txs])"
    unfolding blockSchema_def values_ok_append [OF len] using header_values_ok [OF assms(2)] by blast
  moreover have enc: "values_enc vm blockSchema (header_values h @ [V_Buffers txs])
      = values_enc vm blockHeaderSchema (header_values h) @ transactions_enc txs"
    unfolding blockSchema_def values_enc_append [OF len] transactions_enc_values ..
  ultimately show ?thesis
    unfolding serializeWithTransactions_def
    using serialize_object [OF assms(1), of blockSchema "[]" "header_object h @ [(''transactions'', V_Buffers txs)]" "totalSize h"]
      header_enc_length [OF assms(1,2)] assms(5)
    by (simp add: block_object_values totalSize_def)
qed

lemma serializeWithTransactions_enc:
  assumes "viem_law vm" and "wire_block vm h txs"
  shows "serializeWithTransactions vm h txs
    = Inr (values_enc vm blockHeaderSchema (header_values h) @ transactions_enc txs)"
  using assms(2) unfolding wire_block_def by (intro serializeWithTransactions_fits [OF assms(1)]) auto

lemma transactions_enc_Nil: "transactions_enc txs = [] \<longleftrightarrow> txs = []"
  by (cases txs) (auto dest: arg_cong [of _ _ length])

lemma deserializeTransactions_enc:
  assumes "viem_law vm" and "wire_block vm h txs" and "bb_ok b" and "getRemainder b = transactions_enc txs"
    and "map_sum fromBytes txs = Inr ts"
  shows "\<exists>b'. deserializeTransactions vm fromBytes (assign blockHeaderSchema (header_values h) []) b = Inr (ts, b')
    \<and> getRemainderLength b' = 0"
proof -
  let ?t = "assign blockHeaderSchema (header_values h) []"
  obtain b' where b': "deserialize vm transactionsSchema ?t b = Inr (assign transactionsSchema [V_Buffers txs] ?t, b')"
    "consumed b (transactions_enc txs) b'"
    using deserialize_consumes [OF assms(1) transactions_values_ok [OF assms(2)] assms(3), of "[]"] assms(4)
    by (auto simp: transactions_enc_values)
  have "object_get (assign transactionsSchema [V_Buffers txs] ?t) ''transactions'' = V_Buffers txs"
    by (simp add: transactionsSchema_def)
  with b' assms(4,5) show ?thesis by (simp add: deserializeTransactions_def consumed_def remainder_empty)
qed

lemma block_written_and_read:
  assumes "viem_law vm" and "wire_block vm h txs" and "map_sum fromBytes txs = Inr ts"
  shows "\<exists>hb bs. serializeHeader vm h = Inr hb \<and> serializeWithTransactions vm h txs = Inr bs
    \<and> length bs = headerSize + bh_payloadSize h
    \<and> deserializeWithTransactions vm sha256 fromBytes bs = Inr (h\<lparr>bh_hash := to_hex (sha256 hb)\<rparr>, ts)"
proof -
  let ?hb = "values_enc vm blockHeaderSchema (header_values h)" and ?t = "assign blockHeaderSchema (header_values h) []"
  have wh: "wire_header vm h" and size: "bh_payloadSize h = length (transactions_enc txs)"
    using assms(2) by (simp_all add: wire_block_def)
  obtain b where b: "deserializeBufferHeader vm (fromBuffer (?hb @ transactions_enc txs)) = Inr (?t, b)"
    "getRemainder b = transactions_enc txs" "bb_ok b"
    using deserializeBufferHeader_enc [OF assms(1) wh size [symmetric] refl] by blast
  obtain b' where b': "(if getRemainderLength b > 0 then deserializeTransactions vm fromBytes ?t b else Inr ([], b)) = Inr (ts, b')"
    "getRemainderLength b' = 0"
  proof (cases "txs = []")
    case True
    with b(2) assms(3) that [of b] show ?thesis by (simp add: length_getRemainder [symmetric])
  next
    case False
    then have "getRemainderLength b > 0" using b(2) transactions_enc_Nil [of txs] unfolding length_getRemainder [symmetric] by simp
    with deserializeTransactions_enc [OF assms(1,2) b(3,2) assms(3)] that show ?thesis by auto
  qed
  have "deserializeWithTransactions vm sha256 fromBytes (?hb @ transactions_enc txs) = Inr (h\<lparr>bh_hash := to_hex (sha256 ?hb)\<rparr>, ts)"
    using b(1) b' by (simp add: deserializeWithTransactions_def with_hash_values [OF assms(1) wh])
  with serializeHeader_enc [OF assms(1) wh] serializeWithTransactions_enc [OF assms(1,2)] header_enc_length [OF assms(1) wh] size
  show ?thesis by auto
qed

section \<open>Properties\<close>

text \<open>A block whose header fields fit the format, with the transaction count and payload size of its
  transactions, is written without an error into exactly \<open>headerSize + payloadSize\<close> bytes, and reading
  them gives the header, with the hash of its bytes, and the transactions.\<close>

theorem block_roundtrip:
  assumes "viem_law vm" and "wire_block vm h txs" and "map_sum fromBytes txs = Inr ts"
  shows "\<exists>hb bs. serializeHeader vm h = Inr hb \<and> serializeWithTransactions vm h txs = Inr bs
    \<and> length bs = headerSize + bh_payloadSize h
    \<and> deserializeWithTransactions vm sha256 fromBytes bs = Inr (h\<lparr>bh_hash := to_hex (sha256 hb)\<rparr>, ts)"
  by (rule block_written_and_read [OF assms])

text \<open>The hash of a block that was read is \<open>sha256\<close> of the first \<open>headerSize\<close> bytes it was read from, and
  the bytes after them are as many as its payload size says. The header bytes are the only encoding of
  that header.\<close>

theorem read_header_hash:
  assumes "viem_law vm" and "deserializeHeader vm sha256 bs = Inr h"
  shows "bh_hash h = to_hex (sha256 (take headerSize bs)) \<and> length bs = headerSize + bh_payloadSize h
    \<and> serializeHeader vm h = Inr (take headerSize bs)"
proof -
  from assms(2) obtain header rest where r: "deserializeBufferHeader vm (fromBuffer bs) = Inr (header, rest)"
    "with_hash vm sha256 header = Inr h" by (auto simp: deserializeHeader_def sum_bind_Inr_iff)
  obtain g where g: "header = assign blockHeaderSchema (header_values g) []" "wire_header vm g"
    "bs = values_enc vm blockHeaderSchema (header_values g) @ getRemainder rest" "length (getRemainder rest) = bh_payloadSize g"
    using deserializeBufferHeader_Inr [OF assms(1) r(1)] by blast
  have len: "length (values_enc vm blockHeaderSchema (header_values g)) = headerSize" by (rule header_enc_length [OF assms(1) g(2)])
  have h: "h = g\<lparr>bh_hash := to_hex (sha256 (values_enc vm blockHeaderSchema (header_values g)))\<rparr>"
    using r(2) with_hash_values [OF assms(1) g(2), of sha256] g(1) by simp
  have "serializeHeader vm h = serializeHeader vm g" by (simp add: h serializeHeader_def)
  with h g len serializeHeader_enc [OF assms(1) g(2)] show ?thesis by simp
qed

section \<open>A sample block\<close>

definition sample_header :: block_header where
  "sample_header = \<lparr>bh_version = 1, bh_timestamp = 1700000000000, bh_number = 12, bh_round = 0,
     bh_parentHash = to_hex (replicate 32 1), bh_stateRoot = to_hex (replicate 32 2), bh_logsBloom = to_hex (replicate 256 0),
     bh_transactionsCount = 1, bh_gasUsed = 21000, bh_fee = 105000, bh_reward = 2000000000, bh_payloadSize = 7,
     bh_transactionsRoot = to_hex (replicate 32 3), bh_proposer = ''0x'' @ to_hex (replicate 20 4),
     bh_randaoReveal = to_hex (replicate 96 5), bh_hash = []\<rparr>"

definition sample_transaction :: "bytes \<Rightarrow> error + transaction" where
  "sample_transaction bs = Inr \<lparr>tx_network = 1, tx_to = None, tx_value = 0, tx_gasPrice = 5, tx_gasLimit = 21000, tx_nonce = 0,
     tx_data = [], tx_v = 27, tx_r = [], tx_s = [], tx_legacySecondSignature = None, tx_hash = [], tx_from = [],
     tx_senderPublicKey = [], tx_senderLegacyAddress = [], tx_serialized = bs\<rparr>"

definition sample_sha256 :: "bytes \<Rightarrow> bytes" where
  "sample_sha256 bs = replicate 32 (of_nat (length bs))"

lemma wire_hex_replicate: "wire_hex k (to_hex (replicate k b))"
  by (auto simp: wire_hex_def)

lemma sample_wire_header: "wire_header sample_viem sample_header"
  by (simp add: wire_header_def sample_header_def wire_hex_replicate)
    (auto simp: sample_viem_def intro!: exI [of _ "replicate 20 4"])

lemma sample_wire_block: "wire_block sample_viem sample_header [[1, 2, 3]]"
  using sample_wire_header by (simp add: wire_block_def sample_header_def)

theorem block_roundtrip_witness:
  "\<exists>hb bs txs. serializeHeader sample_viem sample_header = Inr hb \<and> serializeWithTransactions sample_viem sample_header [[1, 2, 3]] = Inr bs
     \<and> length bs = headerSize + 7
     \<and> deserializeWithTransactions sample_viem sample_sha256 sample_transaction bs
       = Inr (sample_header\<lparr>bh_hash := to_hex (sample_sha256 hb)\<rparr>, txs)"
  using block_roundtrip [OF sample_viem_law sample_wire_block, of sample_transaction _ sample_sha256]
  by (auto simp: sample_transaction_def sample_header_def)

theorem read_header_hash_witness:
  "\<exists>bs h. deserializeHeader sample_viem sample_sha256 bs = Inr h \<and> bh_payloadSize h = 7 \<and> length bs = headerSize + 7
     \<and> bh_hash h = to_hex (sample_sha256 (take headerSize bs))"
proof -
  let ?enc = "values_enc sample_viem blockHeaderSchema (header_values sample_header)"
  have size: "length (replicate 7 (0 :: 8 word)) = bh_payloadSize sample_header" by (simp add: sample_header_def)
  obtain b where "deserializeBufferHeader sample_viem (fromBuffer (?enc @ replicate 7 0))
      = Inr (assign blockHeaderSchema (header_values sample_header) [], b)"
    using deserializeBufferHeader_enc [OF sample_viem_law sample_wire_header size refl] by blast
  then obtain h where h: "deserializeHeader sample_viem sample_sha256 (?enc @ replicate 7 0) = Inr h" "bh_payloadSize h = 7"
    by (simp add: deserializeHeader_def with_hash_values [OF sample_viem_law sample_wire_header])
      (simp add: sample_header_def)
  with read_header_hash [OF sample_viem_law h(1)] show ?thesis
    by (intro exI [of _ "?enc @ replicate 7 0"] exI [of _ h] conjI) simp_all
qed

end
