(* ===== verification/Proposal_Codec.thy ===== *)
theory Proposal_Codec
  imports Block_Codec
begin

text \<open>
  Proposals and commits on the wire: \<open>serializer.ts\<close>, \<open>deserializer.ts\<close> and \<open>factory.ts\<close> of
  \<open>packages/crypto-proposal/source\<close> and \<open>packages/crypto-commit/source\<close>.

  A proposal carries its payload as hex: the length of the lock proof, the lock proof and the block. The
  factory reads the lock proof and the header when the proposal arrives and the whole block later;
  both readers see the same header. The schema checks of \<open>validator\<close>, the transaction factory, the hash
  and the signature are arguments, collected in \<open>services\<close>.
\<close>

section \<open>Data\<close>

text \<open>\<open>ProposalDataSerializable\<close>; the unsigned data is the same record with the signature unused.\<close>

record proposal_data =
  pd_round :: nat
  pd_validRound :: "nat option"
  pd_validatorIndex :: nat
  pd_payloadSerialized :: string
  pd_signature :: string

record services =
  sv_viem :: viem
  sv_sha256 :: "bytes \<Rightarrow> bytes"
  sv_transaction :: "bytes \<Rightarrow> error + transaction"
  sv_verifyHeader :: "block_header \<Rightarrow> error option"
  sv_verifyBlock :: "block_header \<Rightarrow> transaction list \<Rightarrow> error option"
  sv_checkUnsigned :: "proposal_data \<Rightarrow> bool"
  sv_checkProposal :: "proposal_data \<Rightarrow> bool"
  sv_checkLockProof :: "aggregated_signature \<Rightarrow> nat \<Rightarrow> bool"
  sv_checkCommit :: "commit \<Rightarrow> bool"

definition proposal_object :: "proposal_data \<Rightarrow> js_object" where
  "proposal_object d = [(''round'', V_Nat (pd_round d)), (''validRound'', V_Option V_Nat (pd_validRound d)),
     (''validatorIndex'', V_Nat (pd_validatorIndex d)), (''payloadSerialized'', V_String (pd_payloadSerialized d)),
     (''signature'', V_String (pd_signature d))]"

definition proposal_data_of :: "js_object \<Rightarrow> proposal_data" where
  "proposal_data_of data = \<lparr>pd_round = as_nat (object_get data ''round''),
     pd_validRound = as_option as_nat (object_get data ''validRound''),
     pd_validatorIndex = as_nat (object_get data ''validatorIndex''),
     pd_payloadSerialized = as_string (object_get data ''payloadSerialized''),
     pd_signature = as_string (object_get data ''signature'')\<rparr>"

definition lock_proof_object :: "aggregated_signature \<Rightarrow> js_object" where
  "lock_proof_object lp = [(''signature'', V_String (as_signature lp)), (''validators'', V_Flags (as_validators lp))]"

definition lock_proof_of :: "js_object \<Rightarrow> aggregated_signature" where
  "lock_proof_of data = \<lparr>as_signature = as_string (object_get data ''signature''), as_validators = as_flags (object_get data ''validators'')\<rparr>"

definition commit_proof_object :: "commit_proof \<Rightarrow> js_object" where
  "commit_proof_object p = [(''round'', V_Nat (cp_round p)), (''signature'', V_String (cp_signature p)),
     (''validators'', V_Flags (cp_validators p))]"

definition commit_proof_of :: "js_object \<Rightarrow> commit_proof" where
  "commit_proof_of data = \<lparr>cp_round = as_nat (object_get data ''round''), cp_signature = as_string (object_get data ''signature''),
     cp_validators = as_flags (object_get data ''validators'')\<rparr>"

section \<open>\<open>crypto-proposal/source/serializer.ts\<close>\<close>

definition unsignedProposalSize :: "proposal_data \<Rightarrow> nat" where
  "unsignedProposalSize d = 4 + (if pd_validRound d = None then 1 else 5) + 4 + length (pd_payloadSerialized d) div 2 + 1"

definition serializeProposalUnsigned :: "viem \<Rightarrow> proposal_data \<Rightarrow> error + bytes" where
  "serializeProposalUnsigned vm d = serialize vm (proposal_object d) (unsignedProposalSize d) 0 proposal_schemaUnsigned"

definition serializeProposal :: "viem \<Rightarrow> proposal_data \<Rightarrow> error + bytes" where
  "serializeProposal vm d = serialize vm (proposal_object d) (unsignedProposalSize d + signatureSize) 0 proposal_schema"

definition serializeLockProof :: "viem \<Rightarrow> aggregated_signature \<Rightarrow> error + bytes" where
  "serializeLockProof vm lp = serialize vm (lock_proof_object lp) lockProofSize 0 lockProofSchema"

definition serializePayload :: "viem \<Rightarrow> block \<Rightarrow> aggregated_signature option \<Rightarrow> error + bytes" where
  "serializePayload vm blk lockProof =
     (let serializedBlock = from_hex (bk_serialized blk)
      in case lockProof of
           Some lp \<Rightarrow> sum_bind (serializeLockProof vm lp) (\<lambda>serializedLockProof.
             Inr ([of_nat (length serializedLockProof)] @ serializedLockProof @ serializedBlock))
         | None \<Rightarrow> Inr ([0] @ serializedBlock))"

section \<open>\<open>crypto-proposal/source/deserializer.ts\<close>\<close>

definition deserializeProposal :: "viem \<Rightarrow> bytes \<Rightarrow> error + js_object" where
  "deserializeProposal vm serialized =
     sum_bind (deserialize vm proposal_schema [] (fromBuffer serialized)) (\<lambda>(data, buffer).
       if getRemainderLength buffer \<noteq> 0 then Inl (JsError ''InvalidProposalBytesError: trailing bytes'') else Inr data)"

definition deserializeLockProof :: "viem \<Rightarrow> bytes \<Rightarrow> error + aggregated_signature" where
  "deserializeLockProof vm serialized =
     sum_bind (deserialize vm lockProofSchema [] (fromBuffer serialized)) (\<lambda>(data, _). Inr (lock_proof_of data))"

section \<open>\<open>crypto-proposal/source/factory.ts\<close>\<close>

definition getLockProof :: "viem \<Rightarrow> byte_buffer \<Rightarrow> error + (aggregated_signature option \<times> byte_buffer)" where
  "getLockProof vm buffer =
     sum_bind (readUint8 buffer) (\<lambda>(lockProofLength, buffer1).
       if lockProofLength > 0
       then sum_bind (readBytes (nat lockProofLength) buffer1) (\<lambda>(lockProofBuffer, buffer2).
              sum_bind (deserializeLockProof vm lockProofBuffer) (\<lambda>lp. Inr (Some lp, buffer2)))
       else Inr (None, buffer1))"

definition lock_proof_checked :: "services \<Rightarrow> aggregated_signature option \<Rightarrow> nat \<Rightarrow> bool" where
  "lock_proof_checked sv lockProof number = (case lockProof of None \<Rightarrow> True | Some lp \<Rightarrow> sv_checkLockProof sv lp number)"

definition getLockProofAndBlockHeader :: "services \<Rightarrow> bytes \<Rightarrow> error + (block_header \<times> aggregated_signature option)" where
  "getLockProofAndBlockHeader sv bytes =
     sum_bind (getLockProof (sv_viem sv) (fromBuffer bytes)) (\<lambda>(lockProof, buffer).
       sum_bind (headerFromBytes (sv_viem sv) (sv_sha256 sv) (sv_verifyHeader sv) (getRemainder buffer)) (\<lambda>blockHeader.
         if lock_proof_checked sv lockProof (bh_number blockHeader) then Inr (blockHeader, lockProof)
         else Inl (JsError ''MessageSchemaError: lockProof'')))"

definition makePayloadFromBytes :: "services \<Rightarrow> bytes \<Rightarrow> error + proposed_payload" where
  "makePayloadFromBytes sv bytes =
     sum_bind (getLockProof (sv_viem sv) (fromBuffer bytes)) (\<lambda>(lockProof, buffer).
       sum_bind (blockFromBytes (sv_viem sv) (sv_sha256 sv) (sv_transaction sv) (sv_verifyBlock sv) (getRemainder buffer)) (\<lambda>blk.
         if lock_proof_checked sv lockProof (bh_number (bk_header blk))
         then Inr \<lparr>pl_block = blk, pl_lockProof = lockProof, pl_serialized = to_hex bytes\<rparr>
         else Inl (JsError ''MessageSchemaError: lockProof'')))"

definition makeProposalFromBytes :: "services \<Rightarrow> bytes \<Rightarrow> error + proposal" where
  "makeProposalFromBytes sv serialized =
     sum_bind (deserializeProposal (sv_viem sv) serialized) (\<lambda>data.
       let d = proposal_data_of data
       in if \<not> sv_checkProposal sv d then Inl (JsError ''MessageSchemaError: proposal'')
          else sum_bind (getLockProofAndBlockHeader sv (from_hex (pd_payloadSerialized d))) (\<lambda>(blockHeader, lockProof).
            if (pd_validRound d = None) \<noteq> (lockProof = None) then
              Inl (JsError (if lockProof = None then ''MessageSchemaError: validRound requires a lockProof''
                 else ''MessageSchemaError: lockProof requires a validRound''))
            else if (case pd_validRound d of None \<Rightarrow> False | Some vr \<Rightarrow> vr \<ge> pd_round d) then
              Inl (JsError ''MessageSchemaError: validRound must be lower than round'')
            else Inr \<lparr>pr_blockHeader = blockHeader, pr_lockProof = lockProof, pr_round = pd_round d, pr_validRound = pd_validRound d,
              pr_payloadSerialized = pd_payloadSerialized d, pr_payload = None, pr_validatorIndex = pd_validatorIndex d,
              pr_signature = pd_signature d, pr_serialized = serialized\<rparr>))"

definition makeProposal :: "services \<Rightarrow> (bytes \<Rightarrow> error + string) \<Rightarrow> proposal_data \<Rightarrow> error + proposal" where
  "makeProposal sv sign d =
     (if \<not> sv_checkUnsigned sv d then Inl (JsError ''MessageSchemaError: proposalUnsigned'')
      else sum_bind (serializeProposalUnsigned (sv_viem sv) d) (\<lambda>bytes.
        sum_bind (sign bytes) (\<lambda>signature. makeProposalFromBytes sv (bytes @ from_hex signature))))"

definition toSerializableData :: "proposal \<Rightarrow> proposal_data" where
  "toSerializableData p = \<lparr>pd_round = pr_round p, pd_validRound = pr_validRound p, pd_validatorIndex = pr_validatorIndex p,
     pd_payloadSerialized = pr_payloadSerialized p, pd_signature = pr_signature p\<rparr>"

section \<open>\<open>crypto-commit/source\<close>\<close>

definition serializeCommitProof :: "viem \<Rightarrow> commit_proof \<Rightarrow> error + bytes" where
  "serializeCommitProof vm p = serialize vm (commit_proof_object p) proofSize 0 commitProofSchema"

definition serializeCommit :: "viem \<Rightarrow> commit_proof \<Rightarrow> block \<Rightarrow> error + bytes" where
  "serializeCommit vm p blk = sum_bind (serializeCommitProof vm p) (\<lambda>serializedProof. Inr (serializedProof @ from_hex (bk_serialized blk)))"

definition deserializeCommitProof :: "viem \<Rightarrow> bytes \<Rightarrow> error + commit_proof" where
  "deserializeCommitProof vm serialized =
     sum_bind (deserialize vm commitProofSchema [] (fromBuffer serialized)) (\<lambda>(data, buffer).
       if getRemainderLength buffer \<noteq> 0 then Inl (JsError ''InvalidCommitProofBytesError: trailing bytes'')
       else Inr (commit_proof_of data))"

definition commitFromBytes :: "services \<Rightarrow> bytes \<Rightarrow> error + commit" where
  "commitFromBytes sv buff =
     sum_bind (readBytes proofSize (fromBuffer buff)) (\<lambda>(proofBuffer, buffer).
       sum_bind (deserializeCommitProof (sv_viem sv) proofBuffer) (\<lambda>proof.
         sum_bind (blockFromBytes (sv_viem sv) (sv_sha256 sv) (sv_transaction sv) (sv_verifyBlock sv) (getRemainder buffer)) (\<lambda>blk.
           let cm = \<lparr>cm_block = blk, cm_proof = proof, cm_serialized = to_hex buff\<rparr>
           in if sv_checkCommit sv cm then Inr cm else Inl (JsError ''MessageSchemaError: commit''))))"

section \<open>Records a schema can carry\<close>

text \<open>A record type with its object, the view of an object that was read and the records that fit.\<close>

locale record_codec =
  fixes schema :: schema
    and vals :: "'r \<Rightarrow> js_value list"
    and fits :: "viem \<Rightarrow> 'r \<Rightarrow> bool"
    and object_of :: "'r \<Rightarrow> js_object"
    and view :: "js_object \<Rightarrow> 'r"
  assumes object_vals: "object_values schema (object_of r) = vals r"
    and vals_ok: "fits vm r \<Longrightarrow> values_ok vm schema [] (vals r)"
    and vals_surj: "values_ok vm schema [] vs \<Longrightarrow> \<exists>r. vs = vals r \<and> fits vm r"
    and view_vals: "view (assign schema (vals r) []) = r"
begin

lemma written:
  assumes "viem_law vm" and "fits vm r" and "length (values_enc vm schema (vals r)) \<le> n"
  shows "serialize vm (object_of r) n 0 schema = Inr (values_enc vm schema (vals r))"
  using serialize_object [OF assms(1), of schema "[]" "object_of r" n] vals_ok [OF assms(2)] assms(3) by (simp add: object_vals)

lemma read_prefix:
  assumes "viem_law vm" and "fits vm r" and "bb_ok b" and "getRemainder b = values_enc vm schema (vals r) @ rest"
  shows "\<exists>b'. deserialize vm schema [] b = Inr (assign schema (vals r) [], b') \<and> getRemainder b' = rest"
  using deserialize_consumes [OF assms(1) vals_ok [OF assms(2)] assms(3,4)] assms(4) by (auto simp: consumed_def)

lemma read_canonical:
  assumes "viem_law vm" and "bb_ok b" and "deserialize vm schema [] b = Inr (data, b')"
  shows "fits vm (view data) \<and> getRemainder b = values_enc vm schema (vals (view data)) @ getRemainder b'"
proof -
  obtain vs where vs: "values_ok vm schema [] vs" "data = assign schema vs []" "consumed b (values_enc vm schema vs) b'"
    using deserialize_canonical [OF assms] by blast
  obtain r where "vs = vals r" "fits vm r" using vals_surj [OF vs(1)] by blast
  with vs view_vals show ?thesis by (simp add: consumed_def)
qed

end

abbreviation lock_proof_values :: "aggregated_signature \<Rightarrow> js_value list" where
  "lock_proof_values lp \<equiv> [V_String (as_signature lp), V_Flags (as_validators lp)]"

abbreviation commit_proof_values :: "commit_proof \<Rightarrow> js_value list" where
  "commit_proof_values p \<equiv> [V_Nat (cp_round p), V_String (cp_signature p), V_Flags (cp_validators p)]"

abbreviation proposal_values :: "proposal_data \<Rightarrow> js_value list" where
  "proposal_values d \<equiv> [V_Nat (pd_round d), V_Option V_Nat (pd_validRound d), V_Nat (pd_validatorIndex d),
     V_String (pd_payloadSerialized d), V_String (pd_signature d)]"

definition wire_flags :: "bool list \<Rightarrow> bool" where
  "wire_flags xs \<longleftrightarrow> length xs < 2 ^ 8 \<and> validatorSetPack xs < 2 ^ 64"

definition wire_lock_proof :: "viem \<Rightarrow> aggregated_signature \<Rightarrow> bool" where
  "wire_lock_proof vm lp \<longleftrightarrow> wire_signature (as_signature lp) \<and> wire_flags (as_validators lp)"

definition wire_commit_proof :: "viem \<Rightarrow> commit_proof \<Rightarrow> bool" where
  "wire_commit_proof vm p \<longleftrightarrow> cp_round p < 2 ^ 32 \<and> wire_signature (cp_signature p) \<and> wire_flags (cp_validators p)"

definition wire_payload :: "string \<Rightarrow> bool" where
  "wire_payload s \<longleftrightarrow> (\<exists>bs. s = to_hex bs \<and> length bs < 2 ^ 32)"

definition wire_proposal :: "viem \<Rightarrow> proposal_data \<Rightarrow> bool" where
  "wire_proposal vm d \<longleftrightarrow> pd_round d < 2 ^ 32 \<and> (\<forall>vr. pd_validRound d = Some vr \<longrightarrow> vr < 2 ^ 32) \<and> pd_validatorIndex d < 2 ^ 8
     \<and> wire_payload (pd_payloadSerialized d) \<and> wire_signature (pd_signature d)"

lemma number_in_cases: "number_in V_Number k v \<Longrightarrow> \<exists>n. v = V_Nat n \<and> n < 2 ^ (8 * k)"
  using number_in_nat by (metis int_nat_eq number_in_def)

lemma signature_cases: "hex_of_length signatureSize v \<Longrightarrow> \<exists>s. v = V_String s \<and> wire_signature s"
  by (auto simp: hex_of_length_def wire_signature_def)

lemma validator_set_ok:
  "property_ok vm target (mandatory P_validatorSet) v \<longleftrightarrow> (\<exists>xs. v = V_Flags xs \<and> wire_flags xs)"
  "property_ok vm target (mandatory P_hex) v \<longleftrightarrow> (\<exists>s. v = V_String s \<and> wire_payload s)"
  by (auto simp: property_ok_def wire_flags_def wire_payload_def)

lemma optional_round_ok:
  "v = V_Undefined \<or> number_in V_Number 4 v \<longleftrightarrow> (\<exists>r. v = V_Option V_Nat r \<and> (\<forall>vr. r = Some vr \<longrightarrow> vr < 2 ^ 32))" (is "?l \<longleftrightarrow> ?r")
proof
  assume ?l
  then show ?r
  proof
    assume "v = V_Undefined"
    then show ?r by (intro exI [of _ None]) (simp add: V_Option_def)
  next
    assume "number_in V_Number 4 v"
    then obtain n where "v = V_Nat n" "n < 2 ^ (8 * 4)" using number_in_cases by blast
    then show ?r by (intro exI [of _ "Some n"]) (simp add: V_Option_def)
  qed
next
  assume ?r
  then obtain r where r: "v = V_Option V_Nat r" "\<forall>vr. r = Some vr \<longrightarrow> vr < 2 ^ 32" by blast
  then show ?l by (cases r) (simp_all add: V_Option_def)
qed

lemmas wire_property_simps = property_ok_simps validator_set_ok hex_of_length_string optional_round_ok

lemma lock_proof_surj:
  assumes "values_ok vm lockProofSchema [] vs"
  shows "\<exists>r. vs = lock_proof_values r \<and> wire_lock_proof vm r"
proof -
  obtain a b where vs: "vs = [a, b]" using values_ok_length [OF assms] by (auto simp: schema_defs length_Suc_conv)
  with assms obtain sg xs where "a = V_String sg" "wire_signature sg" "b = V_Flags xs" "wire_flags xs"
    using signature_cases [of a] by (auto simp: schema_defs wire_property_simps)
  with vs show ?thesis by (intro exI [of _ "\<lparr>as_signature = sg, as_validators = xs\<rparr>"]) (simp add: wire_lock_proof_def)
qed

lemma commit_proof_surj:
  assumes "values_ok vm commitProofSchema [] vs"
  shows "\<exists>r. vs = commit_proof_values r \<and> wire_commit_proof vm r"
proof -
  obtain n a b where vs: "vs = [n, a, b]" using values_ok_length [OF assms] by (auto simp: schema_defs length_Suc_conv numeral_eq_Suc)
  with assms have ok: "number_in V_Number 4 n" "hex_of_length signatureSize a" "\<exists>xs. b = V_Flags xs \<and> wire_flags xs"
    by (simp_all add: schema_defs wire_property_simps)
  obtain r sg xs where "n = V_Nat r" "r < 2 ^ 32" "a = V_String sg" "wire_signature sg" "b = V_Flags xs" "wire_flags xs"
    using number_in_cases [OF ok(1)] signature_cases [OF ok(2)] ok(3) by auto
  with vs show ?thesis
    by (intro exI [of _ "\<lparr>cp_round = r, cp_signature = sg, cp_validators = xs\<rparr>"]) (simp add: wire_commit_proof_def)
qed

lemma proposal_surj:
  assumes "values_ok vm proposal_schema [] vs"
  shows "\<exists>r. vs = proposal_values r \<and> wire_proposal vm r"
proof -
  obtain a b c d e where vs: "vs = [a, b, c, d, e]"
    using values_ok_length [OF assms] by (auto simp: schema_defs length_Suc_conv numeral_eq_Suc)
  with assms have ok: "number_in V_Number 4 a" "\<exists>r. b = V_Option V_Nat r \<and> (\<forall>vr. r = Some vr \<longrightarrow> vr < 2 ^ 32)" "number_in V_Number 1 c"
    "\<exists>s. d = V_String s \<and> wire_payload s" "hex_of_length signatureSize e"
    by (simp_all add: schema_defs wire_property_simps)
  obtain r o' where r: "a = V_Nat r" "r < 2 ^ 32" "b = V_Option V_Nat o'" "\<forall>vr. o' = Some vr \<longrightarrow> vr < 2 ^ 32"
    using number_in_cases [OF ok(1)] ok(2) by auto
  obtain i s sg where "c = V_Nat i" "i < 2 ^ 8" "d = V_String s" "wire_payload s" "e = V_String sg" "wire_signature sg"
    using number_in_cases [OF ok(3)] ok(4) signature_cases [OF ok(5)] by auto
  with vs r show ?thesis
    by (intro exI [of _ "\<lparr>pd_round = r, pd_validRound = o', pd_validatorIndex = i, pd_payloadSerialized = s, pd_signature = sg\<rparr>"])
      (simp add: wire_proposal_def)
qed

interpretation lock_proof_codec: record_codec lockProofSchema lock_proof_values wire_lock_proof lock_proof_object lock_proof_of
  by (unfold_locales; (erule lock_proof_surj | simp add: schema_defs object_values_def lock_proof_object_def lock_proof_of_def
      object_get_def map_get_def map_set_def wire_lock_proof_def wire_property_simps))

interpretation commit_proof_codec: record_codec commitProofSchema commit_proof_values wire_commit_proof commit_proof_object commit_proof_of
  by (unfold_locales; (erule commit_proof_surj | simp add: schema_defs object_values_def commit_proof_object_def commit_proof_of_def
      object_get_def map_get_def map_set_def wire_commit_proof_def wire_property_simps))

lemma proposal_vals_ok: "wire_proposal vm d \<Longrightarrow> values_ok vm proposal_schema [] (proposal_values d)"
  using optional_round_ok [of "V_Option V_Nat (pd_validRound d)"]
  by (auto simp: schema_defs wire_proposal_def property_ok_simps validator_set_ok hex_of_length_string simp del: V_Option_simps)

interpretation proposal_codec: record_codec proposal_schema proposal_values wire_proposal proposal_object proposal_data_of
  by (unfold_locales; (erule proposal_surj proposal_vals_ok | simp add: schema_defs object_values_def proposal_object_def proposal_data_of_def
      object_get_def map_get_def map_set_def))

section \<open>Reading a payload\<close>

lemma header_of_whole_block:
  assumes "deserializeWithTransactions vm sha256 fromBytes bs = Inr (h, txs)"
  shows "deserializeHeader vm sha256 bs = Inr h"
  using assms by (auto simp: deserializeWithTransactions_def deserializeHeader_def sum_bind_Inr_iff split: if_splits)

lemma blockFromBytes_header:
  "blockFromBytes vm sha256 fromBytes verifyBlock bs = Inr blk \<Longrightarrow>
   deserializeHeader vm sha256 bs = Inr (bk_header blk) \<and> bk_serialized blk = to_hex bs"
  by (auto simp: blockFromBytes_def sum_bind_Inr_iff split: option.splits dest!: header_of_whole_block)

text \<open>The header read when a proposal arrives is the header of the block read from its payload later.\<close>

lemma payload_readers_agree:
  assumes "getLockProofAndBlockHeader sv bs = Inr (h, lockProof)" and "makePayloadFromBytes sv bs = Inr pl"
  shows "bk_header (pl_block pl) = h \<and> pl_lockProof pl = lockProof"
proof -
  from assms(1) obtain b where b: "getLockProof (sv_viem sv) (fromBuffer bs) = Inr (lockProof, b)"
    "headerFromBytes (sv_viem sv) (sv_sha256 sv) (sv_verifyHeader sv) (getRemainder b) = Inr h"
    by (auto simp: getLockProofAndBlockHeader_def sum_bind_Inr_iff split: if_splits)
  with assms(2) obtain blk where
    "blockFromBytes (sv_viem sv) (sv_sha256 sv) (sv_transaction sv) (sv_verifyBlock sv) (getRemainder b) = Inr blk"
    "pl = \<lparr>pl_block = blk, pl_lockProof = lockProof, pl_serialized = to_hex bs\<rparr>"
    by (auto simp: makePayloadFromBytes_def sum_bind_Inr_iff split: if_splits)
  with b(2) blockFromBytes_header show ?thesis
    by (auto simp: headerFromBytes_def sum_bind_Inr_iff split: option.splits)
qed

abbreviation lock_proof_enc :: "viem \<Rightarrow> aggregated_signature \<Rightarrow> bytes" where
  "lock_proof_enc vm lp \<equiv> values_enc vm lockProofSchema (lock_proof_values lp)"

lemma signature_enc_length: "wire_signature s \<Longrightarrow> length (property_enc vm (mandatory P_consensusSignature) (V_String s)) = signatureSize"
  using property_enc_length(7) [of "V_String s" vm] hex_of_length_string(2) [of s] by (simp add: signatureSize_def)

lemma flags_enc_length: "length (property_enc vm (mandatory P_validatorSet) (V_Flags xs)) = 9"
  by (simp add: property_enc_def)

lemma lock_proof_enc_length: "wire_lock_proof vm lp \<Longrightarrow> length (lock_proof_enc vm lp) = lockProofSize"
  by (simp add: schema_defs wire_lock_proof_def signature_enc_length flags_enc_length lockProofSize_def)

lemma commit_proof_enc_length: "wire_commit_proof vm p \<Longrightarrow> length (values_enc vm commitProofSchema (commit_proof_values p)) = proofSize"
  by (simp add: schema_defs wire_commit_proof_def signature_enc_length flags_enc_length property_enc_length proofSize_def)

lemma serializeLockProof_enc:
  "viem_law vm \<Longrightarrow> wire_lock_proof vm lp \<Longrightarrow> serializeLockProof vm lp = Inr (lock_proof_enc vm lp)"
  unfolding serializeLockProof_def by (rule lock_proof_codec.written) (simp_all add: lock_proof_enc_length)

lemma deserializeLockProof_enc:
  assumes "viem_law vm" and "wire_lock_proof vm lp"
  shows "deserializeLockProof vm (lock_proof_enc vm lp @ junk) = Inr lp"
  using lock_proof_codec.read_prefix [OF assms fromBuffer_simps(1), of "lock_proof_enc vm lp @ junk" junk]
  by (auto simp: deserializeLockProof_def lock_proof_codec.view_vals)

text \<open>Reading the lock proof off a payload, whatever follows it inside its length.\<close>

lemma read_byte:
  assumes "bb_ok b" and "getRemainder b = w # rest"
  shows "\<exists>b'. readUint8 b = Inr (uint w, b') \<and> bb_ok b' \<and> getRemainder b' = rest"
proof -
  have enc: "le_bytes 1 (nat (uint w)) = [w]" by (simp flip: unat_eq_nat_uint)
  have "uint w < 2 ^ (8 * 1)" using uint_lt2p [of w] by simp
  with uint8_codec.get_consumes [OF _ assms(1), of "uint w" rest] enc assms(2) show ?thesis by (auto simp: consumed_def)
qed

lemma getLockProof_enc:
  assumes "viem_law vm" and "wire_lock_proof vm lp" and "n = lockProofSize + length junk" and "n < 256"
  shows "\<exists>b. getLockProof vm (fromBuffer (of_nat n # lock_proof_enc vm lp @ junk @ rest)) = Inr (Some lp, b) \<and> getRemainder b = rest"
proof -
  let ?bs = "lock_proof_enc vm lp @ junk"
  have n: "uint (of_nat n :: 8 word) = int n" using assms(4) by (simp add: unsigned_of_nat take_bit_nat_eq_self_iff)
  obtain b where b: "readUint8 (fromBuffer (of_nat n # ?bs @ rest)) = Inr (int n, b)" "bb_ok b" "getRemainder b = ?bs @ rest"
    using read_byte [OF fromBuffer_simps(1), of "of_nat n # ?bs @ rest" "of_nat n" "?bs @ rest"] n by auto
  obtain b' where b': "readBytes n b = Inr (?bs, b')" "getRemainder b' = rest"
    using bytes_codec.get_consumes [of ?bs n b rest] b(2,3) lock_proof_enc_length [OF assms(2)] assms(3) by (auto simp: consumed_def)
  have "n > 0" using assms(3) by (simp add: lockProofSize_def)
  with b b' deserializeLockProof_enc [OF assms(1,2), of junk] show ?thesis by (auto simp: getLockProof_def)
qed

lemma getLockProof_none: "\<exists>b. getLockProof vm (fromBuffer (0 # rest)) = Inr (None, b) \<and> getRemainder b = rest"
  using read_byte [OF fromBuffer_simps(1), of "0 # rest" 0 rest] by (auto simp: getLockProof_def)

section \<open>Reading a proposal\<close>

abbreviation proposal_enc :: "viem \<Rightarrow> proposal_data \<Rightarrow> bytes" where
  "proposal_enc vm d \<equiv> values_enc vm proposal_schema (proposal_values d)"

definition unsigned_enc :: "viem \<Rightarrow> proposal_data \<Rightarrow> bytes" where
  "unsigned_enc vm d = values_enc vm proposal_schemaUnsigned (butlast (proposal_values d))"

lemma proposal_enc_split:
  "wire_signature (pd_signature d) \<Longrightarrow> proposal_enc vm d = unsigned_enc vm d @ from_hex (pd_signature d)"
  by (simp add: unsigned_enc_def schema_defs property_enc_def)

lemma unsigned_enc_length: "wire_proposal vm d \<Longrightarrow> length (unsigned_enc vm d) = unsignedProposalSize d"
  by (auto simp: unsigned_enc_def unsignedProposalSize_def schema_defs wire_proposal_def wire_payload_def property_enc_def opt_enc_def Let_def)

lemma proposal_enc_length: "wire_proposal vm d \<Longrightarrow> length (proposal_enc vm d) = unsignedProposalSize d + signatureSize"
  using unsigned_enc_length [of vm d] by (auto simp: proposal_enc_split wire_proposal_def wire_signature_def)

lemma serializeProposal_enc: "viem_law vm \<Longrightarrow> wire_proposal vm d \<Longrightarrow> serializeProposal vm d = Inr (proposal_enc vm d)"
  unfolding serializeProposal_def by (rule proposal_codec.written) (simp_all add: proposal_enc_length)

lemma serializeProposalUnsigned_enc:
  assumes "viem_law vm" and "wire_proposal vm (d\<lparr>pd_signature := sg\<rparr>)"
  shows "serializeProposalUnsigned vm d = Inr (unsigned_enc vm (d\<lparr>pd_signature := sg\<rparr>))"
proof -
  let ?d = "d\<lparr>pd_signature := sg\<rparr>"
  have vals: "object_values proposal_schemaUnsigned (proposal_object d) = butlast (proposal_values ?d)"
    by (simp add: schema_defs object_values_def proposal_object_def object_get_def map_get_def)
  have "values_ok vm proposal_schemaUnsigned [] (butlast (proposal_values ?d))"
    using proposal_vals_ok [OF assms(2)] by (simp add: schema_defs)
  with serialize_object [OF assms(1), of proposal_schemaUnsigned "[]" "proposal_object d" "unsignedProposalSize d"]
    unsigned_enc_length [OF assms(2)] show ?thesis
    by (simp add: serializeProposalUnsigned_def vals unsigned_enc_def unsignedProposalSize_def)
qed

lemma deserializeProposal_enc:
  assumes "viem_law vm" and "wire_proposal vm d"
  shows "\<exists>data. deserializeProposal vm (proposal_enc vm d) = Inr data \<and> proposal_data_of data = d"
  using proposal_codec.read_prefix [OF assms fromBuffer_simps(1), of "proposal_enc vm d" "[]"]
  by (auto simp: deserializeProposal_def remainder_empty proposal_codec.view_vals)

lemma deserializeProposal_canonical:
  assumes "viem_law vm" and "deserializeProposal vm bs = Inr data"
  shows "wire_proposal vm (proposal_data_of data) \<and> bs = proposal_enc vm (proposal_data_of data)"
proof -
  from assms(2) obtain b where b: "deserialize vm proposal_schema [] (fromBuffer bs) = Inr (data, b)" "getRemainder b = []"
    by (auto simp: deserializeProposal_def sum_bind_Inr_iff remainder_empty split: if_splits)
  from proposal_codec.read_canonical [OF assms(1) fromBuffer_simps(1) b(1)] b(2) show ?thesis by simp
qed

lemma makeProposalFromBytes_Inr:
  assumes "makeProposalFromBytes sv bs = Inr p"
  obtains data where "deserializeProposal (sv_viem sv) bs = Inr data" and "toSerializableData p = proposal_data_of data"
    and "getLockProofAndBlockHeader sv (from_hex (pr_payloadSerialized p)) = Inr (pr_blockHeader p, pr_lockProof p)"
    and "pr_validRound p = None \<longleftrightarrow> pr_lockProof p = None" and "\<forall>vr. pr_validRound p = Some vr \<longrightarrow> vr < pr_round p"
    and "pr_serialized p = bs" and "pr_payload p = None"
proof -
  from assms obtain data h lp where r: "deserializeProposal (sv_viem sv) bs = Inr data"
    "getLockProofAndBlockHeader sv (from_hex (pd_payloadSerialized (proposal_data_of data))) = Inr (h, lp)"
    by (auto simp: makeProposalFromBytes_def Let_def sum_bind_Inr_iff split: if_splits)
  with assms show thesis
    by (intro that [of data]) (auto simp: makeProposalFromBytes_def Let_def toSerializableData_def split: if_splits option.splits)
qed

section \<open>Reading a commit\<close>

abbreviation commit_proof_enc :: "viem \<Rightarrow> commit_proof \<Rightarrow> bytes" where
  "commit_proof_enc vm p \<equiv> values_enc vm commitProofSchema (commit_proof_values p)"

lemma serializeCommitProof_enc:
  "viem_law vm \<Longrightarrow> wire_commit_proof vm p \<Longrightarrow> serializeCommitProof vm p = Inr (commit_proof_enc vm p)"
  unfolding serializeCommitProof_def by (rule commit_proof_codec.written) (simp_all add: commit_proof_enc_length)

lemma deserializeCommitProof_iff:
  assumes "viem_law vm"
  shows "deserializeCommitProof vm bs = Inr p \<longleftrightarrow> wire_commit_proof vm p \<and> bs = commit_proof_enc vm p"
proof
  assume "deserializeCommitProof vm bs = Inr p"
  then obtain data b where b: "deserialize vm commitProofSchema [] (fromBuffer bs) = Inr (data, b)" "getRemainder b = []"
    "p = commit_proof_of data"
    by (auto simp: deserializeCommitProof_def sum_bind_Inr_iff remainder_empty split: if_splits)
  from commit_proof_codec.read_canonical [OF assms fromBuffer_simps(1) b(1)] b(2,3)
  show "wire_commit_proof vm p \<and> bs = commit_proof_enc vm p" by simp
next
  assume "wire_commit_proof vm p \<and> bs = commit_proof_enc vm p"
  with commit_proof_codec.read_prefix [OF assms _ fromBuffer_simps(1), of p bs "[]"] show "deserializeCommitProof vm bs = Inr p"
    by (auto simp: deserializeCommitProof_def remainder_empty commit_proof_codec.view_vals)
qed

lemma commitFromBytes_iff:
  assumes "viem_law (sv_viem sv)"
  shows "commitFromBytes sv bs = Inr cm \<longleftrightarrow>
    wire_commit_proof (sv_viem sv) (cm_proof cm) \<and> serializeCommit (sv_viem sv) (cm_proof cm) (cm_block cm) = Inr bs
    \<and> blockFromBytes (sv_viem sv) (sv_sha256 sv) (sv_transaction sv) (sv_verifyBlock sv) (drop proofSize bs) = Inr (cm_block cm)
    \<and> cm_serialized cm = to_hex bs \<and> sv_checkCommit sv cm" (is "?l \<longleftrightarrow> ?r")
proof
  assume ?l
  then obtain pb b blk where r: "readBytes proofSize (fromBuffer bs) = Inr (pb, b)" "deserializeCommitProof (sv_viem sv) pb = Inr (cm_proof cm)"
    "blockFromBytes (sv_viem sv) (sv_sha256 sv) (sv_transaction sv) (sv_verifyBlock sv) (getRemainder b) = Inr blk"
    "cm_block cm = blk" "cm_serialized cm = to_hex bs" "sv_checkCommit sv cm"
    by (auto simp: commitFromBytes_def sum_bind_Inr_iff Let_def split: if_splits)
  from bytes_codec.get_canonical [OF fromBuffer_simps(1) r(1)] have b: "length pb = proofSize" "bs = pb @ getRemainder b"
    by (simp_all add: consumed_def)
  from r(2) have w: "wire_commit_proof (sv_viem sv) (cm_proof cm)" "pb = commit_proof_enc (sv_viem sv) (cm_proof cm)"
    by (simp_all add: deserializeCommitProof_iff [OF assms])
  with r b blockFromBytes_header [OF r(3)] show ?r by (simp add: serializeCommit_def serializeCommitProof_enc [OF assms])
next
  assume r: ?r
  then have w: "wire_commit_proof (sv_viem sv) (cm_proof cm)" by blast
  let ?enc = "commit_proof_enc (sv_viem sv) (cm_proof cm)"
  have bs: "bs = ?enc @ drop proofSize bs"
    using r blockFromBytes_header [of "sv_viem sv" "sv_sha256 sv" "sv_transaction sv" "sv_verifyBlock sv" "drop proofSize bs" "cm_block cm"]
    by (simp add: serializeCommit_def serializeCommitProof_enc [OF assms w])
  have len: "length ?enc = proofSize" using r commit_proof_enc_length by blast
  obtain b where "readBytes proofSize (fromBuffer bs) = Inr (?enc, b)" "getRemainder b = drop proofSize bs"
    using bytes_codec.get_consumes [OF len fromBuffer_simps(1), of bs "drop proofSize bs"] bs by (auto simp: consumed_def)
  moreover have "deserializeCommitProof (sv_viem sv) ?enc = Inr (cm_proof cm)" using w by (simp add: deserializeCommitProof_iff [OF assms])
  ultimately show ?l using r by (cases cm) (simp add: commitFromBytes_def)
qed

section \<open>Properties\<close>

text \<open>The block header a proposal is processed with when it arrives, which decides on its height, round, proposer
  and vote, is the header of the block that is read from its payload later, and both see one lock proof.\<close>

theorem proposal_header_is_block_header:
  assumes "makeProposalFromBytes sv bs = Inr p"
    and "deserializePayload (\<lambda>s. makePayloadFromBytes sv (from_hex s)) p = Inr q" and "pr_payload q = Some pl"
  shows "bk_header (pl_block pl) = pr_blockHeader q \<and> pl_lockProof pl = pr_lockProof q
    \<and> bh_hash (bk_header (pl_block pl)) = bh_hash (pr_blockHeader p)"
proof -
  obtain data where d: "getLockProofAndBlockHeader sv (from_hex (pr_payloadSerialized p)) = Inr (pr_blockHeader p, pr_lockProof p)"
    "pr_payload p = None" using makeProposalFromBytes_Inr [OF assms(1)] by metis
  with assms(2,3) have "makePayloadFromBytes sv (from_hex (pr_payloadSerialized p)) = Inr pl"
    by (auto simp: deserializePayload_def sum_bind_Inr_iff)
  with payload_readers_agree [OF d(1)] deserializePayload_fields [OF assms(2)] show ?thesis by simp
qed

text \<open>C36 (type). What \<open>makeProposalFromBytes\<close> accepts is well formed: a lock proof comes with a valid round and the other way
  round, the valid round is below the round, and the bytes are the only encoding of the proposal.\<close>

theorem accepted_proposal_is_well_formed:
  assumes "viem_law (sv_viem sv)" and "makeProposalFromBytes sv bs = Inr p"
  shows "(pr_validRound p = None \<longleftrightarrow> pr_lockProof p = None) \<and> (\<forall>vr. pr_validRound p = Some vr \<longrightarrow> vr < pr_round p)
    \<and> wire_proposal (sv_viem sv) (toSerializableData p) \<and> serializeProposal (sv_viem sv) (toSerializableData p) = Inr bs
    \<and> pr_serialized p = bs \<and> \<not> isDataDeserialized p"
proof -
  obtain data where d: "deserializeProposal (sv_viem sv) bs = Inr data" "toSerializableData p = proposal_data_of data"
    "pr_validRound p = None \<longleftrightarrow> pr_lockProof p = None" "\<forall>vr. pr_validRound p = Some vr \<longrightarrow> vr < pr_round p"
    "pr_serialized p = bs" "pr_payload p = None"
    using makeProposalFromBytes_Inr [OF assms(2)] by metis
  from deserializeProposal_canonical [OF assms(1) d(1)] serializeProposal_enc [OF assms(1)] d show ?thesis
    by (simp add: isDataDeserialized_def)
qed

text \<open>A proposal made from unsigned data carries that data and the signature of its unsigned bytes, and its
  bytes are read back to the same proposal.\<close>

theorem made_proposal_carries_its_data:
  assumes "viem_law (sv_viem sv)" and "\<And>bs sg. sign bs = Inr sg \<Longrightarrow> wire_proposal (sv_viem sv) (d\<lparr>pd_signature := sg\<rparr>)"
    and "makeProposal sv sign d = Inr p"
  shows "\<exists>bytes sg. serializeProposalUnsigned (sv_viem sv) d = Inr bytes \<and> sign bytes = Inr sg
    \<and> toSerializableData p = d\<lparr>pd_signature := sg\<rparr> \<and> makeProposalFromBytes sv (pr_serialized p) = Inr p"
proof -
  let ?vm = "sv_viem sv"
  from assms(3) obtain bytes sg where s: "serializeProposalUnsigned ?vm d = Inr bytes" "sign bytes = Inr sg"
    "makeProposalFromBytes sv (bytes @ from_hex sg) = Inr p"
    by (auto simp: makeProposal_def sum_bind_Inr_iff split: if_splits)
  let ?d = "d\<lparr>pd_signature := sg\<rparr>"
  have w: "wire_proposal ?vm ?d" by (rule assms(2) [OF s(2)])
  then have "bytes @ from_hex sg = proposal_enc ?vm ?d"
    using serializeProposalUnsigned_enc [OF assms(1) w] s(1) proposal_enc_split [of ?d ?vm] by (simp add: wire_proposal_def)
  then obtain data where data: "deserializeProposal ?vm (bytes @ from_hex sg) = Inr data" "proposal_data_of data = ?d"
    using deserializeProposal_enc [OF assms(1) w] by auto
  with makeProposalFromBytes_Inr [OF s(3)] have "toSerializableData p = ?d" "pr_serialized p = bytes @ from_hex sg"
    by (metis Inr_inject)+
  with s show ?thesis by metis
qed

text \<open>The payload of a proposal is written and read back: the block with its lock proof, or without one.\<close>

theorem payload_roundtrip:
  assumes "viem_law (sv_viem sv)" and "\<forall>lp. lockProof = Some lp \<longrightarrow> wire_lock_proof (sv_viem sv) lp"
    and "blockFromBytes (sv_viem sv) (sv_sha256 sv) (sv_transaction sv) (sv_verifyBlock sv) bs = Inr blk"
    and "lock_proof_checked sv lockProof (bh_number (bk_header blk))"
  shows "\<exists>payload. serializePayload (sv_viem sv) blk lockProof = Inr payload
    \<and> makePayloadFromBytes sv payload = Inr \<lparr>pl_block = blk, pl_lockProof = lockProof, pl_serialized = to_hex payload\<rparr>"
proof -
  have ser: "from_hex (bk_serialized blk) = bs" using blockFromBytes_header [OF assms(3)] by simp
  show ?thesis
  proof (cases lockProof)
    case None
    obtain b where "getLockProof (sv_viem sv) (fromBuffer (0 # bs)) = Inr (None, b)" "getRemainder b = bs"
      using getLockProof_none by blast
    with None assms(3,4) ser show ?thesis by (auto simp: serializePayload_def makePayloadFromBytes_def)
  next
    case (Some lp)
    with assms(2) have w: "wire_lock_proof (sv_viem sv) lp" by simp
    obtain b where "getLockProof (sv_viem sv) (fromBuffer (of_nat lockProofSize # lock_proof_enc (sv_viem sv) lp @ bs)) = Inr (Some lp, b)"
      "getRemainder b = bs"
      using getLockProof_enc [OF assms(1) w, of lockProofSize "[]" bs] by (auto simp: lockProofSize_def signatureSize_def)
    with Some assms(3,4) ser serializeLockProof_enc [OF assms(1) w] lock_proof_enc_length [OF w] show ?thesis
      by (auto simp: serializePayload_def makePayloadFromBytes_def)
  qed
qed

text \<open>Reading a lock proof ignores bytes behind it: up to 150 arbitrary bytes counted in its length give the same
  block and lock proof, so a payload has more than one encoding.\<close>

theorem lock_proof_trailing_bytes_ignored:
  assumes "viem_law (sv_viem sv)" and "wire_lock_proof (sv_viem sv) lp" and "lockProofSize + length junk < 256"
    and "blockFromBytes (sv_viem sv) (sv_sha256 sv) (sv_transaction sv) (sv_verifyBlock sv) bs = Inr blk"
    and "sv_checkLockProof sv lp (bh_number (bk_header blk))"
  shows "\<exists>proof pl. serializeLockProof (sv_viem sv) lp = Inr proof
    \<and> makePayloadFromBytes sv (of_nat (lockProofSize + length junk) # proof @ junk @ bs) = Inr pl
    \<and> pl_block pl = blk \<and> pl_lockProof pl = Some lp"
proof -
  obtain b where "getLockProof (sv_viem sv)
      (fromBuffer (of_nat (lockProofSize + length junk) # lock_proof_enc (sv_viem sv) lp @ junk @ bs)) = Inr (Some lp, b)"
    "getRemainder b = bs"
    using getLockProof_enc [OF assms(1,2) refl assms(3)] by blast
  with assms(4,5) serializeLockProof_enc [OF assms(1,2)] show ?thesis
    by (auto simp: makePayloadFromBytes_def lock_proof_checked_def)
qed

text \<open>C38 (roundtrip). A commit is written and read back, and the bytes of a commit that was read are the bytes the serializer
  writes for it.\<close>

theorem commit_roundtrip:
  assumes "viem_law (sv_viem sv)"
  shows "commitFromBytes sv bs = Inr cm \<longleftrightarrow>
    wire_commit_proof (sv_viem sv) (cm_proof cm) \<and> serializeCommit (sv_viem sv) (cm_proof cm) (cm_block cm) = Inr bs
    \<and> blockFromBytes (sv_viem sv) (sv_sha256 sv) (sv_transaction sv) (sv_verifyBlock sv) (drop proofSize bs) = Inr (cm_block cm)
    \<and> cm_serialized cm = to_hex bs \<and> sv_checkCommit sv cm"
  by (rule commitFromBytes_iff [OF assms])

section \<open>A sample\<close>

definition sample_services :: services where
  "sample_services = \<lparr>sv_viem = sample_viem, sv_sha256 = sample_sha256, sv_transaction = sample_transaction,
     sv_verifyHeader = (\<lambda>_. None), sv_verifyBlock = (\<lambda>_ _. None), sv_checkUnsigned = (\<lambda>_. True), sv_checkProposal = (\<lambda>_. True),
     sv_checkLockProof = (\<lambda>_ _. True), sv_checkCommit = (\<lambda>_. True)\<rparr>"

lemma sample_services_simps [simp]:
  "sv_viem sample_services = sample_viem" "sv_sha256 sample_services = sample_sha256" "sv_transaction sample_services = sample_transaction"
  "sv_verifyHeader sample_services h = None" "sv_verifyBlock sample_services h ts = None" "sv_checkUnsigned sample_services d"
  "sv_checkProposal sample_services d" "sv_checkLockProof sample_services lp n" "sv_checkCommit sample_services cm"
  "lock_proof_checked sample_services l n"
  by (simp_all add: sample_services_def lock_proof_checked_def split: option.split)

definition sample_lock_proof :: aggregated_signature where
  "sample_lock_proof = \<lparr>as_signature = to_hex (replicate 96 7), as_validators = [True, True, False, True]\<rparr>"

definition sample_data :: "bytes \<Rightarrow> proposal_data" where
  "sample_data payload = \<lparr>pd_round = 3, pd_validRound = None, pd_validatorIndex = 2, pd_payloadSerialized = to_hex payload,
     pd_signature = to_hex (replicate 96 9)\<rparr>"

lemma sample_signature: "wire_signature (to_hex (replicate 96 b))"
  by (auto simp: wire_signature_def signatureSize_def)

lemma sample_wire_lock_proof: "wire_lock_proof sample_viem sample_lock_proof"
  by (simp add: wire_lock_proof_def sample_lock_proof_def sample_signature wire_flags_def validatorSetPack_value)

lemma sample_wire_data: "length payload < 2 ^ 32 \<Longrightarrow> wire_proposal vm (sample_data payload)"
  by (auto simp: wire_proposal_def sample_data_def sample_signature wire_payload_def)

abbreviation sample_block_from :: "bytes \<Rightarrow> error + block" where
  "sample_block_from \<equiv> blockFromBytes (sv_viem sample_services) (sv_sha256 sample_services) (sv_transaction sample_services) (sv_verifyBlock sample_services)"

lemma sample_block: "\<exists>bs blk. sample_block_from bs = Inr blk \<and> bh_number (bk_header blk) = 12 \<and> length bs = headerSize + 7"
proof -
  obtain hb bs where "length bs = headerSize + bh_payloadSize sample_header"
    "deserializeWithTransactions sample_viem sample_sha256 sample_transaction bs
      = Inr (sample_header\<lparr>bh_hash := to_hex (sample_sha256 hb)\<rparr>, [projr (sample_transaction [1, 2, 3])])"
    using block_written_and_read [OF sample_viem_law sample_wire_block, of sample_transaction _ sample_sha256]
    by (auto simp: sample_transaction_def)
  then show ?thesis by (intro exI [of _ bs]) (simp add: blockFromBytes_def sample_header_def)
qed

lemma sample_proposal:
  "\<exists>bs p q pl. makeProposalFromBytes sample_services bs = Inr p
     \<and> deserializePayload (\<lambda>s. makePayloadFromBytes sample_services (from_hex s)) p = Inr q \<and> pr_payload q = Some pl
     \<and> pr_round p = 3 \<and> bs = proposal_enc sample_viem (sample_data (from_hex (pr_payloadSerialized p)))
     \<and> wire_proposal sample_viem (sample_data (from_hex (pr_payloadSerialized p)))"
proof -
  obtain bs blk where b: "sample_block_from bs = Inr blk" "length bs = headerSize + 7" using sample_block by blast
  obtain r where r: "getLockProof sample_viem (fromBuffer (0 # bs)) = Inr (None, r)" "getRemainder r = bs" using getLockProof_none by blast
  have w: "wire_proposal sample_viem (sample_data (0 # bs))"
    by (rule sample_wire_data) (simp add: b(2) headerSize_def hashSize_def)
  from b(1) r have payload: "makePayloadFromBytes sample_services (0 # bs) = Inr \<lparr>pl_block = blk, pl_lockProof = None, pl_serialized = to_hex (0 # bs)\<rparr>"
    by (simp add: makePayloadFromBytes_def)
  moreover have "getLockProofAndBlockHeader sample_services (0 # bs) = Inr (bk_header blk, None)"
    using r blockFromBytes_header [OF b(1)] by (simp add: getLockProofAndBlockHeader_def headerFromBytes_def)
  moreover obtain data where "deserializeProposal sample_viem (proposal_enc sample_viem (sample_data (0 # bs))) = Inr data"
    "proposal_data_of data = sample_data (0 # bs)" using deserializeProposal_enc [OF sample_viem_law w] by blast
  ultimately show ?thesis using w
    by (intro exI [of _ "proposal_enc sample_viem (sample_data (0 # bs))"])
      (simp add: makeProposalFromBytes_def Let_def sample_data_def deserializePayload_def)
qed

theorem proposal_header_is_block_header_witness:
  "\<exists>bs p q pl. makeProposalFromBytes sample_services bs = Inr p
     \<and> deserializePayload (\<lambda>s. makePayloadFromBytes sample_services (from_hex s)) p = Inr q \<and> pr_payload q = Some pl
     \<and> bk_header (pl_block pl) = pr_blockHeader q"
  using sample_proposal proposal_header_is_block_header [of sample_services] by metis

theorem accepted_proposal_is_well_formed_witness:
  "\<exists>bs p. makeProposalFromBytes sample_services bs = Inr p \<and> pr_round p = 3
     \<and> serializeProposal sample_viem (toSerializableData p) = Inr bs"
  using sample_proposal accepted_proposal_is_well_formed [of sample_services] sample_viem_law by (metis sample_services_simps(1))

theorem made_proposal_carries_its_data_witness:
  "\<exists>d p. makeProposal sample_services sample_sign d = Inr p \<and> pd_round d = 3 \<and> pr_round p = 3
     \<and> makeProposalFromBytes sample_services (pr_serialized p) = Inr p"
proof -
  obtain bs p where p: "makeProposalFromBytes sample_services bs = Inr p"
    "bs = proposal_enc sample_viem (sample_data (from_hex (pr_payloadSerialized p)))"
    "wire_proposal sample_viem (sample_data (from_hex (pr_payloadSerialized p)))" using sample_proposal by blast
  let ?d = "sample_data (from_hex (pr_payloadSerialized p))"
  have same: "?d\<lparr>pd_signature := sg\<rparr> = ?d" if "sample_sign x = Inr sg" for x sg
    using that by (auto simp: sample_sign_def sample_data_def)
  have sg: "sample_sign x = Inr (pd_signature ?d)" for x by (simp add: sample_sign_def sample_data_def)
  have "bs = unsigned_enc sample_viem ?d @ from_hex (pd_signature ?d)"
    using proposal_enc_split [of ?d sample_viem] p(2,3) by (simp add: wire_proposal_def)
  moreover have "serializeProposalUnsigned sample_viem ?d = Inr (unsigned_enc sample_viem ?d)"
    using serializeProposalUnsigned_enc [OF sample_viem_law, of "pd_signature ?d" ?d] p(3) same [OF sg] by simp
  ultimately have m: "makeProposal sample_services sample_sign ?d = Inr p" using p(1) sg by (simp add: makeProposal_def)
  have "makeProposalFromBytes sample_services (pr_serialized p) = Inr p" "pr_round p = 3"
    using made_proposal_carries_its_data [OF _ _ m] sample_viem_law same p(3)
    by (auto simp: toSerializableData_def sample_data_def)
  with m show ?thesis by (intro exI [of _ ?d] exI [of _ p]) (simp add: sample_data_def)
qed

theorem payload_roundtrip_witness:
  "\<exists>blk payload pl. serializePayload sample_viem blk (Some sample_lock_proof) = Inr payload
     \<and> makePayloadFromBytes sample_services payload = Inr pl \<and> pl_block pl = blk \<and> pl_lockProof pl = Some sample_lock_proof
     \<and> bh_number (bk_header blk) = 12"
proof -
  obtain bs blk where b: "sample_block_from bs = Inr blk" "bh_number (bk_header blk) = 12" using sample_block by blast
  with payload_roundtrip [of sample_services "Some sample_lock_proof", OF _ _ b(1)] sample_viem_law sample_wire_lock_proof
  show ?thesis by (intro exI [of _ blk]) auto
qed

theorem lock_proof_trailing_bytes_ignored_witness:
  "\<exists>bs proof pl. serializeLockProof sample_viem sample_lock_proof = Inr proof
     \<and> makePayloadFromBytes sample_services (of_nat (lockProofSize + 2) # proof @ [1, 2] @ bs) = Inr pl
     \<and> pl_lockProof pl = Some sample_lock_proof"
proof -
  obtain bs blk where b: "sample_block_from bs = Inr blk" using sample_block by blast
  with lock_proof_trailing_bytes_ignored [of sample_services sample_lock_proof "[1, 2]", OF _ _ _ b] sample_viem_law sample_wire_lock_proof
  show ?thesis by (auto simp: lockProofSize_def signatureSize_def)
qed

theorem commit_roundtrip_witness:
  "\<exists>bs cm. commitFromBytes sample_services bs = Inr cm \<and> cp_round (cm_proof cm) = 3
     \<and> serializeCommit sample_viem (cm_proof cm) (cm_block cm) = Inr bs"
proof -
  obtain bs blk where b: "sample_block_from bs = Inr blk" using sample_block by blast
  let ?p = "\<lparr>cp_round = 3, cp_signature = to_hex (replicate 96 7), cp_validators = [True, True, False, True]\<rparr>"
  let ?enc = "commit_proof_enc sample_viem ?p"
  have w: "wire_commit_proof sample_viem ?p"
    by (simp add: wire_commit_proof_def sample_signature wire_flags_def validatorSetPack_value)
  then have ser: "serializeCommit sample_viem ?p blk = Inr (?enc @ bs)"
    using serializeCommitProof_enc [OF sample_viem_law] blockFromBytes_header [OF b] by (simp add: serializeCommit_def)
  let ?cm = "\<lparr>cm_block = blk, cm_proof = ?p, cm_serialized = to_hex (?enc @ bs)\<rparr>"
  from commit_roundtrip [of sample_services "?enc @ bs" ?cm] sample_viem_law w ser b commit_proof_enc_length [OF w]
  have "commitFromBytes sample_services (?enc @ bs) = Inr ?cm" by simp
  with ser show ?thesis by (intro exI [of _ "?enc @ bs"] exI [of _ ?cm]) simp
qed

end
