(* ===== verification/Transaction_Codec.thy ===== *)
theory Transaction_Codec
  imports Consensus_Codecs
begin

text \<open>
  Transactions on the wire: \<open>serializer.ts\<close>, \<open>deserializer.ts\<close>, \<open>hash.factory.ts\<close>, \<open>factory.ts\<close> and
  \<open>verifier.ts\<close> of \<open>packages/crypto-transaction/source\<close>.

  The decoder keeps the 32-bit shifts of the code: \<open>(length << 8) | v\<close> is an operation on \<open>32 word\<close> read
  as a signed number. A decoded field is kept as its bytes; the code has them as hex text.
  \<open>Number(hex)\<close> rounds to 53 bits; a number too large for a double is an error here, where the code has
  \<open>Infinity\<close>, which its schema check refuses. The arithmetic on \<open>v\<close> is exact.

  A transaction that fits is written and read back. The decoder reads other bytes as the same
  transaction too: a list of eleven items, and a list whose length is written in five bytes.
\<close>

section \<open>Data\<close>

text \<open>\<open>TransactionSerializable\<close>: what is written to and read from the wire.\<close>

record transaction_data =
  td_network :: int
  td_to :: "string option"
  td_value :: int
  td_gasPrice :: nat
  td_gasLimit :: nat
  td_nonce :: int
  td_data :: string
  td_v :: int
  td_r :: string
  td_s :: string
  td_legacySecondSignature :: "string option"

section \<open>Numbers\<close>

fun bit_length :: "nat \<Rightarrow> nat" where
  "bit_length n = (if n = 0 then 0 else Suc (bit_length (n div 2)))"

declare bit_length.simps [simp del]

text \<open>The conversion of an integer to a double, to the nearest value and to the even one in the middle.\<close>

definition js_Number :: "nat \<Rightarrow> error + nat" where
  "js_Number n =
     (let k = bit_length n - 53;
          q = n div 2 ^ k;
          r = n mod 2 ^ k;
          m = (if k > 0 \<and> (2 * r > 2 ^ k \<or> 2 * r = 2 ^ k \<and> odd q) then q + 1 else q) * 2 ^ k
      in if m < 2 ^ 1024 then Inr m else Inl (RangeError ''Infinity''))"

definition js_BigInt_hex :: "string \<Rightarrow> error + nat" where
  "js_BigInt_hex s =
     (if s = [] \<or> (\<exists>c \<in> set s. hex_digit c = None) then Inl (JsError ''SyntaxError'')
      else Inr (fold (\<lambda>c a. 16 * a + the (hex_digit c)) s 0))"

section \<open>\<open>deserializer.ts\<close>\<close>

definition SECP256K1_ORDER :: nat where
  "SECP256K1_ORDER = 115792089237316195423570985008687907852837564279074904382605163141518161494337"

text \<open>The loop that reads a length: the first byte of several may not be zero.\<close>

definition read_length_bytes :: "bytes \<Rightarrow> error + int" where
  "read_length_bytes bs =
     (if length bs > 1 \<and> hd bs = 0 then Inl (JsError ''decode RLP leading zero in length'')
      else Inr (sint (fold (\<lambda>v len. or (push_bit 8 len) (ucast v)) bs (0 :: 32 word))))"

definition decodeListBounds :: "bytes \<Rightarrow> error + (nat \<times> nat)" where
  "decodeListBounds buffer =
     (if buffer = [] then Inl (JsError ''decode RLP empty buffer'')
      else let p = unat (hd buffer)
        in if p \<ge> 0xc0 \<and> p \<le> 0xf7 then
             (let start = 1; end = start + (p - 0xc0)
              in if end > length buffer then Inl (JsError ''decode RLP truncated short list'') else Inr (start, end))
           else if p \<ge> 0xf8 then
             (let lengthOfLength = p - 0xf7
              in if 1 + lengthOfLength > length buffer then Inl (JsError ''decode RLP truncated length-of-length'')
                 else sum_bind (read_length_bytes (take lengthOfLength (drop 1 buffer))) (\<lambda>len.
                   if len < 56 then Inl (JsError ''decode RLP non-minimal long list'')
                   else let start = 1 + lengthOfLength; end = start + nat len
                     in if end > length buffer then Inl (JsError ''decode RLP truncated long list'') else Inr (start, end)))
           else Inl (JsError ''decode RLP not a list''))"

definition readLength :: "bytes \<Rightarrow> nat \<Rightarrow> nat \<Rightarrow> error + (int \<times> nat)" where
  "readLength buffer offset lengthOfLength =
     (if lengthOfLength < 1 \<or> lengthOfLength > 8 then Inl (JsError ''decode RLP invalid length-of-length'')
      else if offset + lengthOfLength > length buffer then Inl (JsError ''decode RLP truncated length'')
      else sum_bind (read_length_bytes (take lengthOfLength (drop offset buffer))) (\<lambda>len. Inr (len, offset + lengthOfLength)))"

definition decodeItem :: "bytes \<Rightarrow> nat \<Rightarrow> error + (bytes \<times> nat)" where
  "decodeItem buffer offset =
     (if offset \<ge> length buffer then Inl (JsError ''decode RLP oob'')
      else let p = unat (buffer ! offset)
        in if p \<le> 0x7f then Inr ([buffer ! offset], offset + 1)
           else if p \<le> 0xb7 then
             (let len = p - 0x80; start = offset + 1; end = start + len
              in if end > length buffer then Inl (JsError ''decode RLP truncated short str'')
                 else if len = 1 \<and> unat (buffer ! start) < 0x80 then Inl (JsError ''decode RLP non-minimal short str'')
                 else Inr (take len (drop start buffer), end))
           else if p \<le> 0xbf then
             sum_bind (readLength buffer (offset + 1) (p - 0xb7)) (\<lambda>(len, next).
               if len < 56 then Inl (JsError ''decode RLP non-minimal long str'')
               else let end = next + nat len
                 in if end > length buffer then Inl (JsError ''decode RLP truncated long str'')
                    else Inr (take (nat len) (drop next buffer), end))
           else Inl (JsError ''decode RLP list prefix inside item (unexpected for legacy flat fields)''))"

text \<open>The loop over the items; it throws before a twelfth item is read.\<close>

function decode_fields :: "bytes \<Rightarrow> nat \<Rightarrow> nat \<Rightarrow> bytes list \<Rightarrow> error + (bytes list \<times> nat)" where
  "decode_fields buffer end offset items =
     (if offset < end then
        if length items > 10 then Inl (JsError ''decoded RLP contains too many fields'')
        else (case decodeItem buffer offset of
                Inl e \<Rightarrow> Inl e
              | Inr (item, next) \<Rightarrow> decode_fields buffer end next (items @ [item]))
      else Inr (items, offset))"
  by pat_completeness auto
termination by (relation "measure (\<lambda>(buffer, end, offset, items). 11 - length items)") auto

declare decode_fields.simps [simp del]

definition assertCanonicalInteger :: "bytes \<Rightarrow> error + unit" where
  "assertCanonicalInteger field =
     (if field \<noteq> [] \<and> hd field = 0 then Inl (JsError ''non-canonical integer (leading zeroes)'') else Inr ())"

definition parseNumber :: "bytes \<Rightarrow> error + nat" where
  "parseNumber field = sum_bind (assertCanonicalInteger field) (\<lambda>_. if field = [] then Inr 0 else js_Number (be_value field))"

definition parseBigInt :: "bytes \<Rightarrow> error + int" where
  "parseBigInt field = sum_bind (assertCanonicalInteger field) (\<lambda>_. Inr (int (be_value field)))"

definition parseSignaturePart :: "bytes \<Rightarrow> error + string" where
  "parseSignaturePart field =
     (if length (to_hex field) > 64 then Inl (JsError ''decoded RLP signature exceeds 32 bytes'')
      else sum_bind (assertCanonicalInteger field) (\<lambda>_.
        if be_value field = 0 \<or> be_value field \<ge> SECP256K1_ORDER then Inl (JsError ''decoded RLP signature is out of range'')
        else Inr (replicate (64 - length (to_hex field)) CHR ''0'' @ to_hex field)))"

text \<open>\<open>parseAddress\<close> and \<open>getAddress\<close>, which throws for anything but 20 bytes.\<close>

definition parseRecipient :: "viem \<Rightarrow> bytes \<Rightarrow> error + string option" where
  "parseRecipient vm field =
     (if field = [] then Inr None
      else if length field = 20 then Inr (Some (vm_getAddress vm field))
      else Inl (JsError ''InvalidAddressError''))"

definition parseData :: "bytes \<Rightarrow> string" where
  "parseData field = ''0x'' @ to_hex field"

definition transaction_of_fields :: "viem \<Rightarrow> bytes list \<Rightarrow> error + transaction_data" where
  "transaction_of_fields vm items =
     (if length items < 9 then Inl (JsError ''decoded RLP contains too few fields'')
      else sum_bind (parseBigInt (items ! 0)) (\<lambda>nonce.
        sum_bind (parseNumber (items ! 1)) (\<lambda>gasPrice.
        sum_bind (parseNumber (items ! 2)) (\<lambda>gasLimit.
        sum_bind (parseRecipient vm (items ! 3)) (\<lambda>to.
        sum_bind (parseBigInt (items ! 4)) (\<lambda>val.
        sum_bind (parseNumber (items ! 6)) (\<lambda>v.
        let chainId = (int v - 35) div 2 in
        sum_bind (parseSignaturePart (items ! 7)) (\<lambda>r.
        sum_bind (parseSignaturePart (items ! 8)) (\<lambda>s.
          Inr \<lparr>td_network = chainId, td_to = to, td_value = val, td_gasPrice = gasPrice, td_gasLimit = gasLimit, td_nonce = nonce,
             td_data = parseData (items ! 5), td_v = int v - (chainId * 2 + 35), td_r = r, td_s = s,
             td_legacySecondSignature =
               (if length items = 10 \<and> items ! 9 \<noteq> [] then Some (to_hex (items ! 9)) else None)\<rparr>)))))))))"

definition deserialize_transaction :: "viem \<Rightarrow> bytes \<Rightarrow> error + transaction_data" where
  "deserialize_transaction vm serialized =
     sum_bind (decodeListBounds serialized) (\<lambda>(start, end).
       if end \<noteq> length serialized then Inl (JsError ''decoded RLP contains trailing bytes'')
       else sum_bind (decode_fields serialized end start []) (\<lambda>(items, offset).
         if offset \<noteq> length serialized then Inl (JsError ''decoded RLP not exhausted'')
         else transaction_of_fields vm items))"

section \<open>\<open>serializer.ts\<close>\<close>

definition toBytesCompat :: "viem \<Rightarrow> int \<Rightarrow> error + bytes" where
  "toBytesCompat vm n =
     (if n = 0 then Inr [] else if n < 0 then Inl (RangeError ''IntegerOutOfRangeError'') else Inr (vm_toBytes vm (nat n)))"

definition recipient_bytes :: "viem \<Rightarrow> string option \<Rightarrow> bytes" where
  "recipient_bytes vm to = vm_hexToBytes vm (case to of None \<Rightarrow> ''0x'' | Some a \<Rightarrow> if a = [] then ''0x'' else a)"

definition serialize_transaction :: "viem \<Rightarrow> transaction_data \<Rightarrow> error + bytes" where
  "serialize_transaction vm d =
     sum_bind (toBytesCompat vm (td_nonce d)) (\<lambda>nonce.
     sum_bind (toBytesCompat vm (int (td_gasPrice d))) (\<lambda>gasPrice.
     sum_bind (toBytesCompat vm (int (td_gasLimit d))) (\<lambda>gasLimit.
     sum_bind (toBytesCompat vm (td_value d)) (\<lambda>val.
     sum_bind (toBytesCompat vm (td_network d * 2 + 35 + td_v d)) (\<lambda>v.
     sum_bind (sum_bind (js_BigInt_hex (td_r d)) (\<lambda>n. toBytesCompat vm (int n))) (\<lambda>r.
     sum_bind (sum_bind (js_BigInt_hex (td_s d)) (\<lambda>n. toBytesCompat vm (int n))) (\<lambda>s.
       let items = [nonce, gasPrice, gasLimit, recipient_bytes vm (td_to d), val, vm_hexToBytes vm (td_data d), v, r, s];
           extra = (case td_legacySecondSignature d of
              None \<Rightarrow> [] | Some sg \<Rightarrow> if sg = [] then [] else [vm_hexToBytes vm (''0x'' @ sg)])
       in Inr (vm_toRlp vm (items @ extra)))))))))"

definition serializeUnsigned :: "viem \<Rightarrow> transaction_data \<Rightarrow> error + bytes" where
  "serializeUnsigned vm d =
     sum_bind (toBytesCompat vm (td_nonce d)) (\<lambda>nonce.
     sum_bind (toBytesCompat vm (int (td_gasPrice d))) (\<lambda>gasPrice.
     sum_bind (toBytesCompat vm (int (td_gasLimit d))) (\<lambda>gasLimit.
     sum_bind (toBytesCompat vm (td_value d)) (\<lambda>val.
     sum_bind (toBytesCompat vm (td_network d)) (\<lambda>network.
       Inr (vm_toRlp vm [nonce, gasPrice, gasLimit, recipient_bytes vm (td_to d), val, vm_hexToBytes vm (td_data d), network, [], []]))))))"

section \<open>\<open>hash.factory.ts\<close>, \<open>factory.ts\<close> and \<open>verifier.ts\<close>\<close>

definition toHash :: "viem \<Rightarrow> (bytes \<Rightarrow> bytes) \<Rightarrow> transaction_data \<Rightarrow> error + bytes" where
  "toHash vm keccak256 d =
     sum_bind (serialize_transaction vm (d\<lparr>td_legacySecondSignature := None\<rparr>)) (\<lambda>serialized. Inr (keccak256 serialized))"

definition toHashUnsigned :: "viem \<Rightarrow> (bytes \<Rightarrow> bytes) \<Rightarrow> transaction_data \<Rightarrow> error + bytes" where
  "toHashUnsigned vm keccak256 d = sum_bind (serializeUnsigned vm d) (\<lambda>serialized. Inr (keccak256 serialized))"

text \<open>The signature scheme, the address factories and the schema checks the transaction factory calls; a failed
  check gives its message.\<close>

record crypto_data =
  cd_from :: string
  cd_hash :: string
  cd_senderLegacyAddress :: string
  cd_senderPublicKey :: string

record transaction_services =
  ts_viem :: viem
  ts_keccak256 :: "bytes \<Rightarrow> bytes"
  ts_isLowS :: "string \<times> string \<times> int \<Rightarrow> bool"
  ts_recoverPublicKey :: "bytes \<Rightarrow> string \<times> string \<times> int \<Rightarrow> error + string"
  ts_verifyRecoverable :: "string \<times> string \<times> string \<Rightarrow> bytes \<Rightarrow> bytes \<Rightarrow> bool"
  ts_address :: "string \<Rightarrow> error + string"
  ts_legacyAddress :: "string \<Rightarrow> error + string"
  ts_verifySchemaSigned :: "transaction_data \<Rightarrow> string option"
  ts_verifySchemaStrict :: "crypto_data \<Rightarrow> transaction_data \<Rightarrow> string option"

definition computeCryptoData :: "transaction_services \<Rightarrow> transaction_data \<Rightarrow> error + crypto_data" where
  "computeCryptoData ts d =
     (let sig = (td_r d, td_s d, td_v d)
      in if \<not> ts_isLowS ts sig then Inl (JsError ''non-canonical signature (high S value)'')
         else sum_bind (toHashUnsigned (ts_viem ts) (ts_keccak256 ts) d) (\<lambda>unsignedHash.
           sum_bind (toHash (ts_viem ts) (ts_keccak256 ts) d) (\<lambda>hash.
           sum_bind (ts_recoverPublicKey ts unsignedHash sig) (\<lambda>senderPublicKey.
           sum_bind (ts_address ts senderPublicKey) (\<lambda>from.
           sum_bind (ts_legacyAddress ts senderPublicKey) (\<lambda>legacy.
             Inr \<lparr>cd_from = from, cd_hash = to_hex hash, cd_senderLegacyAddress = legacy, cd_senderPublicKey = senderPublicKey\<rparr>))))))"

text \<open>\<open>#fromSerialized\<close>: an exception other than a schema error becomes \<open>InvalidTransactionBytesError\<close>.\<close>

definition transaction_fromSerialized :: "transaction_services \<Rightarrow> bytes \<Rightarrow> error + (crypto_data \<times> transaction_data \<times> bytes)" where
  "transaction_fromSerialized ts serialized =
     (case sum_bind (deserialize_transaction (ts_viem ts) serialized) (\<lambda>d.
             sum_bind (computeCryptoData ts d) (\<lambda>c. Inr (c, d))) of
        Inl _ \<Rightarrow> Inl (JsError ''InvalidTransactionBytesError'')
      | Inr (c, d) \<Rightarrow> (case ts_verifySchemaStrict ts c d of
            Some _ \<Rightarrow> Inl (JsError ''TransactionSchemaError'')
          | None \<Rightarrow> Inr (c, d, serialized)))"

definition transaction_fromData :: "transaction_services \<Rightarrow> transaction_data \<Rightarrow> error + (crypto_data \<times> transaction_data \<times> bytes)" where
  "transaction_fromData ts d =
     (case ts_verifySchemaSigned ts d of
        Some _ \<Rightarrow> Inl (JsError ''TransactionSchemaError'')
      | None \<Rightarrow> sum_bind (serialize_transaction (ts_viem ts) d) (transaction_fromSerialized ts))"

definition verifyLegacySecondSignature :: "transaction_services \<Rightarrow> transaction_data \<Rightarrow> string \<Rightarrow> error + bool" where
  "verifyLegacySecondSignature ts d legacySecondPublicKey =
     (case td_legacySecondSignature d of
        None \<Rightarrow> Inl (JsError ''MissingLegacySecondSignatureError'')
      | Some sg \<Rightarrow> if sg = [] then Inl (JsError ''MissingLegacySecondSignatureError'')
          else sum_bind (toHashUnsigned (ts_viem ts) (ts_keccak256 ts) d) (\<lambda>hash.
            if ts_verifyRecoverable ts (take 64 sg, take 64 (drop 64 sg), take 2 (drop 128 sg)) hash (from_hex legacySecondPublicKey)
            then Inr True else Inl (JsError ''InvalidLegacySecondSignatureError'')))"

section \<open>Decoding what RLP encodes\<close>

lemma or_byte: "or (push_bit 8 len) (ucast v) = 256 * len + ucast (v :: 8 word)" for len :: "32 word"
proof -
  have "and (push_bit 8 len) (ucast v) = 0"
    by (rule bit_eqI) (auto simp: bit_simps dest: bit_imp_le_length)
  then have "or (push_bit 8 len) (ucast v) = push_bit 8 len + ucast v"
    by (simp add: disjunctive_add_eq_or)
  then show ?thesis by (simp add: push_bit_eq_mult mult.commute)
qed

lemma sint_small: "n < 2 ^ 31 \<Longrightarrow> sint (of_nat n :: 32 word) = int n"
proof -
  assume n: "n < 2 ^ 31"
  then have "take_bit 32 n = n" by (simp add: take_bit_nat_eq_self_iff)
  moreover have "signed_take_bit 31 (int n) = int n" using n by (intro signed_take_bit_int_eq_self) simp_all
  ultimately show ?thesis by (simp add: sint_uint unsigned_of_nat)
qed

lemma fold_length:
  "fold (\<lambda>v len. or (push_bit 8 len) (ucast v)) bs w = w * 256 ^ length bs + of_nat (be_value bs)" for w :: "32 word"
proof (induction bs arbitrary: w)
  case (Cons v bs)
  have "ucast v = (of_nat (unat v) :: 32 word)" by simp
  with Cons show ?case by (simp add: or_byte le_value_append algebra_simps)
qed simp

lemma read_length_bytes_value:
  "be_value bs < 2 ^ 31 \<Longrightarrow> length bs > 1 \<longrightarrow> hd bs \<noteq> 0 \<Longrightarrow> read_length_bytes bs = Inr (int (be_value bs))"
  by (simp add: read_length_bytes_def fold_length sint_small)

lemma le_min_length: "n < 256 ^ k \<Longrightarrow> 0 < k \<Longrightarrow> length (le_min n) \<le> k"
proof -
  assume n: "n < 256 ^ k" "0 < k"
  show ?thesis
  proof (cases "n = 0")
    case False
    then have "256 ^ (length (rev (le_min n)) - 1) \<le> be_value (rev (le_min n))"
      by (intro be_value_ge) (simp_all add: hd_rev le_min_top)
    then have "256 ^ (length (le_min n) - 1) \<le> n" by (simp add: le_min_value)
    then have "256 ^ (length (le_min n) - 1) < (256::nat) ^ k" using n(1) by linarith
    then show ?thesis by simp
  qed (use n in \<open>simp add: le_min.simps\<close>)
qed

text \<open>Reading at an offset.\<close>

lemma drop_Cons_nth:
  assumes "drop i xs = y # ys"
  shows "i < length xs" and "xs ! i = y" and "drop (Suc i) xs = ys"
proof -
  show i: "i < length xs" using assms by (metis drop_all list.distinct(1) not_le_imp_less)
  with assms show "xs ! i = y" "drop (Suc i) xs = ys" by (metis Cons_nth_drop_Suc list.inject)+
qed

lemma drop_append_parts:
  assumes "drop i xs = ys @ zs"
  shows "i + length ys \<le> length xs \<or> ys = []" and "take (length ys) (drop i xs) = ys" and "drop (i + length ys) xs = zs"
proof -
  have "length (drop i xs) = length ys + length zs" by (simp add: assms)
  then show "i + length ys \<le> length xs \<or> ys = []" by (cases "i \<le> length xs") auto
  show "take (length ys) (drop i xs) = ys" using assms by simp
  show "drop (i + length ys) xs = zs" using assms drop_drop [of "length ys" i xs] by (simp add: add.commute)
qed

lemma unat_of_nat_byte: "n < 256 \<Longrightarrow> unat (of_nat n :: 8 word) = n"
  by (simp add: unat_of_nat)

lemma rlp_length:
  assumes "56 \<le> n" and "n < 2 ^ 31"
  shows "read_length_bytes (rev (le_min n)) = Inr (int n)" "0 < length (le_min n)" "length (le_min n) \<le> 4"
proof -
  show "read_length_bytes (rev (le_min n)) = Inr (int n)"
    using assms read_length_bytes_value [of "rev (le_min n)"] by (simp add: le_min_value hd_rev le_min_top)
  show "length (le_min n) \<le> 4" using assms by (intro le_min_length) simp_all
qed simp

lemma decodeItem_rlp:
  assumes "drop offset buffer = rlp_bytes bs @ rest" and "length bs < 2 ^ 31"
  shows "decodeItem buffer offset = Inr (bs, offset + length (rlp_bytes bs)) \<and> drop (offset + length (rlp_bytes bs)) buffer = rest"
proof -
  have rest: "drop (offset + length (rlp_bytes bs)) buffer = rest" using drop_append_parts(3) [OF assms(1)] .
  consider (single) b where "bs = [b]" "unat b < 128" | (short) "length bs < 56" "\<not> (length bs = 1 \<and> unat (hd bs) < 128)" | (long) "56 \<le> length bs"
    by (cases "length bs = 1 \<and> unat (hd bs) < 128"; cases "length bs < 56") (auto simp: length_Suc_conv)
  then have "decodeItem buffer offset = Inr (bs, offset + length (rlp_bytes bs))"
  proof cases
    case single
    with drop_Cons_nth [of offset buffer b rest] assms(1) show ?thesis by (simp add: rlp_bytes_def decodeItem_def)
  next
    case short
    then have e: "rlp_bytes bs = of_nat (128 + length bs) # bs" by (simp add: rlp_bytes_def rlp_header_def)
    with assms(1) have d: "drop offset buffer = of_nat (128 + length bs) # (bs @ rest)" by simp
    note n = drop_Cons_nth [OF d]
    have p: "unat (buffer ! offset) = 128 + length bs" unfolding n(2) using short by (intro unat_of_nat_byte) simp
    have "Suc offset + length bs \<le> length buffer" using drop_append_parts(1) [OF n(3)] n(1) by auto
    moreover have "\<not> (length bs = 1 \<and> unat (buffer ! Suc offset) < 128)"
      using short(2) drop_Cons_nth(2) [of "Suc offset" buffer] n(3) by (cases bs) auto
    ultimately show ?thesis
      using short n p drop_append_parts(2) [OF n(3)] by (simp add: decodeItem_def e Let_def)
  next
    case long
    let ?len = "rev (le_min (length bs))"
    note len = rlp_length [OF long assms(2)]
    have e: "rlp_bytes bs = of_nat (183 + length ?len) # ?len @ bs" using long by (simp add: rlp_bytes_def rlp_header_def Let_def)
    with assms(1) have d: "drop offset buffer = of_nat (183 + length ?len) # (?len @ (bs @ rest))" by simp
    note n = drop_Cons_nth [OF d]
    have p: "unat (buffer ! offset) = 183 + length ?len" unfolding n(2) using len by (intro unat_of_nat_byte) simp
    note l = drop_append_parts [OF n(3)]
    have "?len \<noteq> []" "bs \<noteq> []" using long by auto
    then have b: "Suc offset + length ?len \<le> length buffer" "Suc offset + length ?len + length bs \<le> length buffer"
      using l(1) drop_append_parts(1) [OF l(3)] by auto
    have "readLength buffer (offset + 1) (length ?len) = Inr (int (length bs), offset + 1 + length ?len)"
      using len b l(2) by (simp add: readLength_def)
    then show ?thesis
      using p n(1) len long b drop_append_parts(2) [OF l(3)] by (simp add: decodeItem_def e Let_def)
  qed
  with rest show ?thesis by simp
qed


lemma decode_fields_rlp:
  assumes "drop offset buffer = concat (map rlp_bytes items)" and "\<forall>x \<in> set items. length x < 2 ^ 31"
    and "length acc + length items \<le> 11" and "offset \<le> length buffer"
  shows "decode_fields buffer (length buffer) offset acc = Inr (acc @ items, length buffer)"
  using assms
proof (induction items arbitrary: offset acc)
  case Nil
  then show ?case by (subst decode_fields.simps) simp
next
  case (Cons x items)
  from Cons.prems(1) have d: "drop offset buffer = rlp_bytes x @ concat (map rlp_bytes items)" by simp
  have item: "decodeItem buffer offset = Inr (x, offset + length (rlp_bytes x))"
    "drop (offset + length (rlp_bytes x)) buffer = concat (map rlp_bytes items)"
    using decodeItem_rlp [OF d] Cons.prems(2) by simp_all
  have "rlp_bytes x \<noteq> []" by (auto simp: rlp_bytes_def rlp_header_def Let_def)
  then have le: "offset + length (rlp_bytes x) \<le> length buffer" using drop_append_parts(1) [OF d] by blast
  have "offset < length buffer" using le \<open>rlp_bytes x \<noteq> []\<close> by (cases "rlp_bytes x") auto
  with item Cons.IH [OF item(2), of "acc @ [x]"] Cons.prems le show ?case by (subst decode_fields.simps) simp
qed

text \<open>A list header: the canonical one, or one that writes the length in five bytes of which the first is lost.\<close>

definition list_header :: "nat \<Rightarrow> bytes \<Rightarrow> bool" where
  "list_header n h \<longleftrightarrow> n < 2 ^ 31 \<and> (h = rlp_header 192 n \<or> 56 \<le> n \<and> (\<exists>x. x \<noteq> 0 \<and> h = 0xfc # x # be_bytes 4 n))"

lemma wrapped_length:
  assumes "n < 2 ^ 31" and "x \<noteq> 0"
  shows "read_length_bytes (x # be_bytes 4 n) = Inr (int n)"
proof -
  have "be_value (be_bytes 4 n) = n" using assms(1) by (simp add: le_value_bytes)
  then have "be_value (x # be_bytes 4 n) = n + 256 ^ 4 * unat x" by (simp add: le_value_append)
  moreover have "(of_nat (n + 256 ^ 4 * unat x) :: 32 word) = of_nat n"
  proof -
    have "(256 :: nat) ^ 4 = 2 ^ 32" by simp
    moreover have "(of_nat (2 ^ 32) :: 32 word) = 0" by (simp only: of_nat_power of_nat_numeral exp_eq_zero_iff) simp
    ultimately show ?thesis by (simp only: of_nat_add of_nat_mult mult_zero_left add_0_right)
  qed
  ultimately have "fold (\<lambda>v len. or (push_bit 8 len) (ucast v)) (x # be_bytes 4 n) (0 :: 32 word) = of_nat n"
    by (simp only: fold_length mult_zero_left add_0)
  with assms show ?thesis unfolding read_length_bytes_def by (simp add: sint_small del: fold_simps)
qed

lemma decodeListBounds_header:
  assumes "list_header (length body) h"
  shows "decodeListBounds (h @ body) = Inr (length h, length (h @ body))"
proof -
  let ?n = "length body"
  consider (short) "?n < 56" "h = [of_nat (192 + ?n)]" | (long) "56 \<le> ?n" "h = of_nat (247 + length (le_min ?n)) # rev (le_min ?n)"
    | (wrapped) x where "56 \<le> ?n" "x \<noteq> 0" "h = 0xfc # x # be_bytes 4 ?n"
    using assms unfolding list_header_def rlp_header_def Let_def by (auto split: if_splits)
  moreover have n: "?n < 2 ^ 31" using assms by (simp add: list_header_def)
  ultimately show ?thesis
  proof cases
    case short
    then have "unat (of_nat (192 + ?n) :: 8 word) = 192 + ?n" by (intro unat_of_nat_byte) simp
    with short show ?thesis by (simp add: decodeListBounds_def Let_def)
  next
    case long
    note len = rlp_length [OF long(1) n]
    have "unat (of_nat (247 + length (le_min ?n)) :: 8 word) = 247 + length (le_min ?n)" using len by (intro unat_of_nat_byte) simp
    with long len show ?thesis by (simp add: decodeListBounds_def Let_def Suc_le_eq)
  next
    case wrapped
    with wrapped_length [OF n wrapped(2)] show ?thesis by (simp add: decodeListBounds_def Let_def)
  qed
qed

lemma deserialize_items:
  assumes "list_header (length (concat (map rlp_bytes items))) h" and "\<forall>x \<in> set items. length x < 2 ^ 31" and "length items \<le> 11"
  shows "deserialize_transaction vm (h @ concat (map rlp_bytes items)) = transaction_of_fields vm items"
proof -
  let ?bs = "h @ concat (map rlp_bytes items)"
  have "decode_fields ?bs (length ?bs) (length h) [] = Inr ([] @ items, length ?bs)"
    using assms(2,3) by (intro decode_fields_rlp) simp_all
  with decodeListBounds_header [OF assms(1)] show ?thesis by (simp add: deserialize_transaction_def)
qed

section \<open>Transactions that fit\<close>

text \<open>\<open>hexToBytes\<close> on the texts the serializer hands it.\<close>

definition hex_law :: "viem \<Rightarrow> bool" where
  "hex_law vm \<longleftrightarrow> (\<forall>bs. vm_hexToBytes vm (''0x'' @ to_hex bs) = bs) \<and> (\<forall>bs. vm_getAddress vm bs \<noteq> [])"

definition wire_recipient :: "viem \<Rightarrow> string option \<Rightarrow> bool" where
  "wire_recipient vm to \<longleftrightarrow> (\<forall>a. to = Some a \<longrightarrow> (\<exists>bs. a = vm_getAddress vm bs \<and> length bs = 20))"

definition wire_signature_part :: "string \<Rightarrow> bool" where
  "wire_signature_part s \<longleftrightarrow> (\<exists>bs. s = to_hex bs \<and> length bs = 32 \<and> 0 < be_value bs \<and> be_value bs < SECP256K1_ORDER)"

definition compat_bytes :: "viem \<Rightarrow> int \<Rightarrow> bytes" where
  "compat_bytes vm n = (if n = 0 then [] else vm_toBytes vm (nat n))"

definition nine_items :: "viem \<Rightarrow> transaction_data \<Rightarrow> bytes list" where
  "nine_items vm d = [compat_bytes vm (td_nonce d), compat_bytes vm (int (td_gasPrice d)), compat_bytes vm (int (td_gasLimit d)),
     recipient_bytes vm (td_to d), compat_bytes vm (td_value d), vm_hexToBytes vm (td_data d),
     compat_bytes vm (td_network d * 2 + 35 + td_v d), compat_bytes vm (int (be_value (from_hex (td_r d)))),
     compat_bytes vm (int (be_value (from_hex (td_s d))))]"

definition second_signature_items :: "string option \<Rightarrow> bytes list" where
  "second_signature_items sg = (case sg of None \<Rightarrow> [] | Some x \<Rightarrow> [from_hex x])"

definition small_list :: "bytes list \<Rightarrow> bool" where
  "small_list items \<longleftrightarrow> (\<forall>x \<in> set items. length x < 2 ^ 31) \<and> length (concat (map rlp_bytes items)) < 2 ^ 31"

definition wire_transaction :: "viem \<Rightarrow> transaction_data \<Rightarrow> bool" where
  "wire_transaction vm d \<longleftrightarrow> 0 \<le> td_nonce d \<and> td_gasPrice d < 2 ^ 53 \<and> td_gasLimit d < 2 ^ 53 \<and> wire_recipient vm (td_to d) \<and> 0 \<le> td_value d
     \<and> (\<exists>bs. td_data d = ''0x'' @ to_hex bs) \<and> (td_v d = 0 \<or> td_v d = 1)
     \<and> 0 \<le> td_network d * 2 + 35 + td_v d \<and> td_network d * 2 + 35 + td_v d < 2 ^ 53
     \<and> wire_signature_part (td_r d) \<and> wire_signature_part (td_s d)
     \<and> (\<forall>sg. td_legacySecondSignature d = Some sg \<longrightarrow> (\<exists>bs. sg = to_hex bs \<and> bs \<noteq> []))"

lemma toBytesCompat_bytes: "0 \<le> n \<Longrightarrow> toBytesCompat vm n = Inr (compat_bytes vm n)"
  by (simp add: toBytesCompat_def compat_bytes_def)

lemma compat_bytes_canonical:
  assumes "viem_law vm" and "0 \<le> n"
  shows "assertCanonicalInteger (compat_bytes vm n) = Inr ()" "be_value (compat_bytes vm n) = nat n" "compat_bytes vm n = [] \<longleftrightarrow> n = 0"
  using assms by (auto simp: compat_bytes_def assertCanonicalInteger_def viem_law_def)

lemma bit_length_le: "n < 2 ^ k \<Longrightarrow> bit_length n \<le> k"
proof (induction n arbitrary: k rule: bit_length.induct)
  case (1 n)
  show ?case
  proof (cases "n = 0")
    case False
    with 1(2) obtain j where k: "k = Suc j" by (cases k) auto
    with 1(2) have "n div 2 < 2 ^ j" by (simp add: less_mult_imp_div_less)
    with 1(1) [OF False] k False show ?thesis by (subst bit_length.simps) simp
  qed (subst bit_length.simps, simp)
qed

lemma js_Number_exact: "n < 2 ^ 53 \<Longrightarrow> js_Number n = Inr n"
proof -
  assume n: "n < 2 ^ 53"
  also have "(2::nat) ^ 53 < 2 ^ 1024" by (rule power_strict_increasing) simp_all
  finally show ?thesis using bit_length_le [OF n] by (simp add: js_Number_def)
qed

lemma parse_compat:
  assumes "viem_law vm"
  shows "0 \<le> n \<Longrightarrow> parseBigInt (compat_bytes vm n) = Inr n"
    and "m < 2 ^ 53 \<Longrightarrow> parseNumber (compat_bytes vm (int m)) = Inr m"
  using compat_bytes_canonical [OF assms] by (simp_all add: parseBigInt_def parseNumber_def js_Number_exact)

lemma hex_value_fold: "fold (\<lambda>c a. 16 * a + the (hex_digit c)) (to_hex bs) a = a * 256 ^ length bs + be_value bs"
proof (induction bs arbitrary: a)
  case (Cons b bs)
  have "unat b div 16 < 16" "unat b mod 16 < 16" using byte_lt [of b] by simp_all
  then have "fold (\<lambda>c a. 16 * a + the (hex_digit c)) (to_hex (b # bs)) a = fold (\<lambda>c a. 16 * a + the (hex_digit c)) (to_hex bs) (256 * a + unat b)"
    by (simp add: to_hex_def hex_digit_chars algebra_simps)
  with Cons show ?case by (simp add: le_value_append algebra_simps)
qed (simp add: to_hex_def)

lemma to_hex_digits: "c \<in> set (to_hex bs) \<Longrightarrow> hex_digit c \<noteq> None"
proof (induction bs)
  case (Cons b bs)
  have "unat b div 16 < 16" "unat b mod 16 < 16" using byte_lt [of b] by simp_all
  with Cons show ?case by (auto simp: to_hex_def hex_digit_chars)
qed (simp add: to_hex_def)

lemma js_BigInt_to_hex: "bs \<noteq> [] \<Longrightarrow> js_BigInt_hex (to_hex bs) = Inr (be_value bs)"
proof -
  assume "bs \<noteq> []"
  then have "to_hex bs \<noteq> []" by (cases bs) (simp_all add: to_hex_def)
  then show ?thesis using to_hex_digits [of _ bs] by (auto simp: js_BigInt_hex_def hex_value_fold)
qed

lemma to_hex_zeros: "to_hex (replicate k 0 @ bs) = replicate (2 * k) CHR ''0'' @ to_hex bs"
  by (induction k) (simp_all add: to_hex_def hex_chars_def)

lemma signature_part_parse:
  assumes "viem_law vm" and "wire_signature_part s"
  shows "parseSignaturePart (compat_bytes vm (int (be_value (from_hex s)))) = Inr s"
    and "js_BigInt_hex s = Inr (be_value (from_hex s))"
proof -
  obtain bs where bs: "s = to_hex bs" "length bs = 32" "0 < be_value bs" "be_value bs < SECP256K1_ORDER"
    using assms(2) by (auto simp: wire_signature_part_def)
  then have s: "be_value (from_hex s) = be_value bs" by simp
  let ?n = "be_value bs"
  let ?m = "compat_bytes vm (int ?n)"
  have m: "?m = vm_toBytes vm ?n" using bs(3) by (simp add: compat_bytes_def)
  have "?n < 256 ^ 32" using le_value_bound [of "rev bs"] bs(2) by simp
  then have len: "length ?m \<le> 32" unfolding m using toBytes_length [OF assms(1), of ?n 32] by simp
  have "replicate (32 - length ?m) 0 @ ?m = be_bytes 32 ?n"
    using padded_toBytes [OF assms(1), of ?n 32] len assms(1) unfolding m by (simp add: viem_law_def)
  also have "\<dots> = bs" using le_bytes_value [of "rev bs"] bs(2) by simp
  finally have "to_hex (replicate (32 - length ?m) 0 @ ?m) = s" using bs(1) by simp
  then have "replicate (64 - length (to_hex ?m)) CHR ''0'' @ to_hex ?m = s" by (simp add: to_hex_zeros right_diff_distrib')
  then show "parseSignaturePart (compat_bytes vm (int (be_value (from_hex s)))) = Inr s"
    unfolding s using compat_bytes_canonical [OF assms(1), of "int ?n"] bs len by (simp add: parseSignaturePart_def)
  show "js_BigInt_hex s = Inr (be_value (from_hex s))" 
  proof -
    have "bs \<noteq> []" using bs(2) by auto
    with js_BigInt_to_hex [of bs] bs(1) show ?thesis by simp
  qed
qed

lemma recipient_parse:
  assumes "viem_law vm" and "hex_law vm" and "wire_recipient vm to"
  shows "parseRecipient vm (recipient_bytes vm to) = Inr to"
proof (cases to)
  case None
  have "vm_hexToBytes vm (''0x'' @ to_hex []) = []" using assms(2) unfolding hex_law_def by blast
  with None show ?thesis by (simp add: recipient_bytes_def parseRecipient_def to_hex_def)
next
  case (Some a)
  with assms obtain bs where bs: "a = vm_getAddress vm bs" "length bs = 20" by (auto simp: wire_recipient_def)
  with assms have "recipient_bytes vm to = bs" by (simp add: Some recipient_bytes_def hex_law_def viem_law_def)
  with bs Some show ?thesis by (auto simp: parseRecipient_def)
qed

lemma transaction_of_nine:
  assumes "parseBigInt a0 = Inr nonce" and "parseNumber a1 = Inr gasPrice" and "parseNumber a2 = Inr gasLimit"
    and "parseRecipient vm a3 = Inr to" and "parseBigInt a4 = Inr val" and "parseNumber a6 = Inr v"
    and "parseSignaturePart a7 = Inr r" and "parseSignaturePart a8 = Inr s"
  shows "transaction_of_fields vm ([a0, a1, a2, a3, a4, a5, a6, a7, a8] @ extra) = Inr \<lparr>td_network = (int v - 35) div 2, td_to = to,
    td_value = val, td_gasPrice = gasPrice, td_gasLimit = gasLimit, td_nonce = nonce, td_data = parseData a5,
    td_v = int v - ((int v - 35) div 2 * 2 + 35), td_r = r, td_s = s,
    td_legacySecondSignature = (if length extra = 1 \<and> hd extra \<noteq> [] then Some (to_hex (hd extra)) else None)\<rparr>"
  using assms by (cases extra) (simp_all add: transaction_of_fields_def Let_def)

lemma nine_items_parse:
  assumes "viem_law vm" and "hex_law vm" and "wire_transaction vm d"
  shows "transaction_of_fields vm (nine_items vm d @ extra) = Inr (d\<lparr>td_legacySecondSignature :=
    (if length extra = 1 \<and> hd extra \<noteq> [] then Some (to_hex (hd extra)) else None)\<rparr>)"
proof -
  have w: "0 \<le> td_nonce d" "td_gasPrice d < 2 ^ 53" "td_gasLimit d < 2 ^ 53" "0 \<le> td_value d" "td_v d = 0 \<or> td_v d = 1"
    "0 \<le> td_network d * 2 + 35 + td_v d" "td_network d * 2 + 35 + td_v d < 2 ^ 53"
    "wire_recipient vm (td_to d)" "wire_signature_part (td_r d)" "wire_signature_part (td_s d)"
    using assms(3) by (simp_all add: wire_transaction_def)
  define v where "v = nat (td_network d * 2 + 35 + td_v d)"
  have v: "td_network d * 2 + 35 + td_v d = int v" "v < 2 ^ 53" using w(6,7) by (simp_all add: v_def)
  then have net: "(int v - 35) div 2 = td_network d" "int v - (td_network d * 2 + 35) = td_v d" using w(5) by auto
  obtain bs where "td_data d = ''0x'' @ to_hex bs" using assms(3) by (auto simp: wire_transaction_def)
  then have data: "parseData (vm_hexToBytes vm (td_data d)) = td_data d" using assms(2) by (simp add: hex_law_def parseData_def)
  show ?thesis
    unfolding nine_items_def v(1)
      transaction_of_nine [OF parse_compat(1) [OF assms(1) w(1)] parse_compat(2) [OF assms(1) w(2)] parse_compat(2) [OF assms(1) w(3)]
        recipient_parse [OF assms(1,2) w(8)] parse_compat(1) [OF assms(1) w(4)] parse_compat(2) [OF assms(1) v(2)]
        signature_part_parse(1) [OF assms(1) w(9)] signature_part_parse(1) [OF assms(1) w(10)]]
    by (simp add: net data)
qed

lemma serialize_transaction_items:
  assumes "viem_law vm" and "hex_law vm" and "wire_transaction vm d"
  shows "serialize_transaction vm d = Inr (rlp_list (nine_items vm d @ second_signature_items (td_legacySecondSignature d)))"
proof -
  have w: "0 \<le> td_nonce d" "0 \<le> td_value d" "0 \<le> td_network d * 2 + 35 + td_v d"
    "wire_signature_part (td_r d)" "wire_signature_part (td_s d)"
    using assms(3) by (simp_all add: wire_transaction_def)
  have extra: "(case td_legacySecondSignature d of None \<Rightarrow> [] | Some sg \<Rightarrow> if sg = [] then [] else [vm_hexToBytes vm (''0x'' @ sg)])
      = second_signature_items (td_legacySecondSignature d)"
  proof (cases "td_legacySecondSignature d")
    case (Some sg)
    with assms(3) obtain bs where bs: "sg = to_hex bs" "bs \<noteq> []" by (auto simp: wire_transaction_def)
    then have "sg \<noteq> []" by (cases bs) (simp_all add: to_hex_def)
    with Some bs assms(2) show ?thesis by (simp add: second_signature_items_def hex_law_def)
  qed (simp add: second_signature_items_def)
  have rlp: "vm_toRlp vm items = rlp_list items" for items using assms(1) by (simp add: viem_law_def)
  show ?thesis
    unfolding serialize_transaction_def signature_part_parse(2) [OF assms(1) w(4)] signature_part_parse(2) [OF assms(1) w(5)] extra rlp
    using w by (simp add: toBytesCompat_bytes nine_items_def)
qed

lemma rlp_list_header: "small_list items \<Longrightarrow> list_header (length (concat (map rlp_bytes items))) (rlp_header 192 (length (concat (map rlp_bytes items))))"
  by (simp add: list_header_def small_list_def)

lemma deserialize_rlp_list:
  assumes "small_list items" and "length items \<le> 11"
  shows "deserialize_transaction vm (rlp_list items) = transaction_of_fields vm items"
  using deserialize_items [OF rlp_list_header [OF assms(1)]] assms by (simp add: rlp_list_def Let_def small_list_def)

text \<open>The items can be read off the bytes.\<close>

lemma rlp_list_inject:
  assumes "rlp_list xs = rlp_list ys" and "small_list xs" and "small_list ys" and "length xs \<le> 11" and "length ys \<le> 11"
  shows "xs = ys"
proof -
  have "decode_fields (rlp_list zs) (length (rlp_list zs)) (length (rlp_header 192 (length (concat (map rlp_bytes zs))))) []
      = Inr (zs, length (rlp_list zs)) \<and> decodeListBounds (rlp_list zs)
        = Inr (length (rlp_header 192 (length (concat (map rlp_bytes zs)))), length (rlp_list zs))"
    if "small_list zs" "length zs \<le> 11" for zs
    using that decode_fields_rlp [of _ "rlp_list zs" zs "[]"] decodeListBounds_header [OF rlp_list_header [OF that(1)]]
    by (simp add: rlp_list_def Let_def small_list_def)
  from this [OF assms(2,4)] this [OF assms(3,5)] assms(1) show ?thesis by simp
qed

section \<open>Properties\<close>

text \<open>C39 (roundtrip). A transaction that fits is written without an error and read back, with or without the second signature, and
  its hash is the hash of its bytes when it has none.\<close>

theorem transaction_roundtrip:
  assumes "viem_law vm" and "hex_law vm" and "wire_transaction vm d"
    and "small_list (nine_items vm d @ second_signature_items (td_legacySecondSignature d))"
  shows "\<exists>bs. serialize_transaction vm d = Inr bs \<and> deserialize_transaction vm bs = Inr d
    \<and> (td_legacySecondSignature d = None \<longrightarrow> toHash vm keccak256 d = Inr (keccak256 bs))"
proof -
  let ?extra = "second_signature_items (td_legacySecondSignature d)"
  have "length (nine_items vm d @ ?extra) \<le> 11" by (simp add: nine_items_def second_signature_items_def split: option.split)
  from deserialize_rlp_list [OF assms(4) this] nine_items_parse [OF assms(1-3)]
  have "deserialize_transaction vm (rlp_list (nine_items vm d @ ?extra))
      = Inr (d\<lparr>td_legacySecondSignature := (if length ?extra = 1 \<and> hd ?extra \<noteq> [] then Some (to_hex (hd ?extra)) else None)\<rparr>)"
    by simp
  moreover have "(if length ?extra = 1 \<and> hd ?extra \<noteq> [] then Some (to_hex (hd ?extra)) else None) = td_legacySecondSignature d"
    using assms(3) by (auto simp: second_signature_items_def wire_transaction_def split: option.split)
  ultimately have "deserialize_transaction vm (rlp_list (nine_items vm d @ ?extra)) = Inr d" by simp
  moreover have "toHash vm keccak256 d = Inr (keccak256 (rlp_list (nine_items vm d @ ?extra)))" if "td_legacySecondSignature d = None"
  proof -
    have "d\<lparr>td_legacySecondSignature := None\<rparr> = d" using that by simp
    then show ?thesis unfolding toHash_def by (simp only: serialize_transaction_items [OF assms(1-3)] sum_bind.simps)
  qed
  ultimately show ?thesis using serialize_transaction_items [OF assms(1-3)] by simp
qed

text \<open>The decoder accepts more than one encoding of a transaction: two further items of any content are ignored, and a
  list length written in five bytes is read modulo \<open>2 ^ 32\<close>, so its first byte can be anything but zero.\<close>

theorem transaction_encoding_not_unique:
  assumes "viem_law vm" and "hex_law vm" and "wire_transaction vm d" and "td_legacySecondSignature d = None"
    and "small_list (nine_items vm d @ [a, b])" and "56 \<le> length (concat (map rlp_bytes (nine_items vm d)))" and "x \<noteq> 0"
  shows "\<exists>bs body. serialize_transaction vm d = Inr bs \<and> body = concat (map rlp_bytes (nine_items vm d))
    \<and> deserialize_transaction vm (rlp_list (nine_items vm d @ [a, b])) = Inr d \<and> rlp_list (nine_items vm d @ [a, b]) \<noteq> bs
    \<and> deserialize_transaction vm (0xfc # x # be_bytes 4 (length body) @ body) = Inr d \<and> 0xfc # x # be_bytes 4 (length body) @ body \<noteq> bs"
proof -
  let ?items = "nine_items vm d" and ?body = "concat (map rlp_bytes (nine_items vm d))"
  have len: "length ?items = 9" by (simp add: nine_items_def)
  have small: "small_list ?items" using assms(5) by (simp add: small_list_def)
  have same: "d\<lparr>td_legacySecondSignature := None\<rparr> = d" using assms(4) by simp
  have ser: "serialize_transaction vm d = Inr (rlp_list ?items)"
    using serialize_transaction_items [OF assms(1-3)] assms(4) by (simp add: second_signature_items_def)
  have two: "deserialize_transaction vm (rlp_list (?items @ [a, b])) = Inr d"
    using deserialize_rlp_list [OF assms(5)] nine_items_parse [OF assms(1-3), of "[a, b]"] len same by simp
  have "rlp_list (?items @ [a, b]) \<noteq> rlp_list ?items"
    using rlp_list_inject [OF _ assms(5) small] len by auto
  moreover have "list_header (length ?body) (0xfc # x # be_bytes 4 (length ?body))"
    using small assms(6,7) by (auto simp: list_header_def small_list_def)
  from deserialize_items [OF this] small len
  have "deserialize_transaction vm (0xfc # x # be_bytes 4 (length ?body) @ ?body) = transaction_of_fields vm ?items"
    by (simp add: small_list_def)
  then have "deserialize_transaction vm (0xfc # x # be_bytes 4 (length ?body) @ ?body) = Inr d"
    using nine_items_parse [OF assms(1-3), of "[]"] same by simp
  moreover have "0xfc # x # be_bytes 4 (length ?body) @ ?body \<noteq> rlp_list ?items"
  proof
    have n: "length ?body < 2 ^ 31" using small by (simp add: small_list_def)
    assume "0xfc # x # be_bytes 4 (length ?body) @ ?body = rlp_list ?items"
    then have "hd (rlp_list ?items) = 0xfc" by (metis list.sel(1))
    then have "unat (of_nat (247 + length (le_min (length ?body))) :: 8 word) = 252"
      using assms(6) by (simp add: rlp_list_def rlp_header_def Let_def)
    moreover have "unat (of_nat (247 + length (le_min (length ?body))) :: 8 word) = 247 + length (le_min (length ?body))"
      using rlp_length(3) [OF assms(6) n] by (intro unat_of_nat_byte) simp
    ultimately show False using rlp_length(3) [OF assms(6) n] by simp
  qed
  ultimately show ?thesis using ser two by blast
qed

section \<open>A sample transaction\<close>

definition sample_tx :: transaction_data where
  "sample_tx = \<lparr>td_network = 11, td_to = Some (vm_getAddress sample_viem (replicate 20 4)), td_value = 7, td_gasPrice = 5,
     td_gasLimit = 210, td_nonce = 3, td_data = ''0x'' @ to_hex (replicate 50 1), td_v = 1, td_r = to_hex (replicate 31 0 @ [6]),
     td_s = to_hex (replicate 31 0 @ [9]), td_legacySecondSignature = None\<rparr>"

lemma sample_hex_law: "hex_law sample_viem"
  by (simp add: hex_law_def sample_viem_def)

lemma be_value_zeros: "be_value (replicate k 0 @ [b]) = unat b"
  by simp

lemma sample_signature_part: "0 < unat b \<Longrightarrow> wire_signature_part (to_hex (replicate 31 0 @ [b]))"
  using byte_lt [of b]
  by (auto simp: wire_signature_part_def SECP256K1_ORDER_def intro!: exI [of _ "replicate 31 0 @ [b]"])

lemma sample_wire_tx: "wire_transaction sample_viem sample_tx"
  unfolding wire_transaction_def
  using sample_signature_part [of 6] sample_signature_part [of 9] by (auto simp: sample_tx_def wire_recipient_def)

lemma sample_compat: "0 < n \<Longrightarrow> n < 256 \<Longrightarrow> compat_bytes sample_viem n = [of_int n]"
  by (subst compat_bytes_def) (simp add: sample_viem_def le_min.simps)

lemma sample_tx_items:
  "nine_items sample_viem sample_tx = [[3], [5], [210], replicate 20 4, [7], replicate 50 1, [58], [6], [9]]"
proof -
  have "recipient_bytes sample_viem (td_to sample_tx) = replicate 20 4" "vm_hexToBytes sample_viem (td_data sample_tx) = replicate 50 1"
    by (simp_all add: recipient_bytes_def sample_tx_def sample_viem_def)
  then show ?thesis by (simp add: nine_items_def) (simp add: sample_tx_def sample_compat)
qed

theorem transaction_roundtrip_witness:
  "\<exists>bs. serialize_transaction sample_viem sample_tx = Inr bs \<and> deserialize_transaction sample_viem bs = Inr sample_tx
     \<and> toHash sample_viem rev sample_tx = Inr (rev bs)"
proof -
  have none: "td_legacySecondSignature sample_tx = None" by (simp add: sample_tx_def)
  have "small_list (nine_items sample_viem sample_tx @ second_signature_items (td_legacySecondSignature sample_tx))"
    unfolding sample_tx_items none by (simp add: small_list_def second_signature_items_def rlp_bytes_def rlp_header_def)
  from transaction_roundtrip [OF sample_viem_law sample_hex_law sample_wire_tx this, of rev] none show ?thesis by simp
qed

theorem transaction_encoding_not_unique_witness:
  "\<exists>bs other. serialize_transaction sample_viem sample_tx = Inr bs \<and> deserialize_transaction sample_viem other = Inr sample_tx \<and> other \<noteq> bs"
proof -
  have none: "td_legacySecondSignature sample_tx = None" by (simp add: sample_tx_def)
  have small: "small_list (nine_items sample_viem sample_tx @ [[1], [2]])" and "56 \<le> length (concat (map rlp_bytes (nine_items sample_viem sample_tx)))"
    unfolding sample_tx_items by (simp_all add: small_list_def rlp_bytes_def rlp_header_def)
  from transaction_encoding_not_unique [OF sample_viem_law sample_hex_law sample_wire_tx none this, of 1] show ?thesis by auto
qed

end
