(* ===== verification/Async_Lock.thy ===== *)
theory Async_Lock
  imports Mainsail_Prelude
begin

text \<open>
  \<open>packages/utils/source/lock.ts\<close>: the lock under which the consensus runs its handlers and the
  transaction pool its operations.

  A task is one call of \<open>runExclusive\<close> or \<open>runNonExclusive\<close>; its number stands for the promise the call
  creates. Between two awaits JavaScript runs a task without interruption, so one step of the
  relation is the code between two awaits: entering (with the test of the loop), the end of the
  callback, the \<open>finally\<close> block, and the loop test again after the awaited promise is over. The task that
  owns a promise awaits it before anyone else can, so its \<open>finally\<close> block runs before the tasks
  that wait for the promise look at the lock again: a waiting task resumes when the owner has
  finished.
\<close>

section \<open>State\<close>

datatype lock_kind = ExclusiveTask | NonExclusiveTask

text \<open>\<open>Waiting p\<close>: inside the loop, awaiting the exclusive promise \<open>p\<close>. \<open>Draining ps\<close>: an exclusive task awaits the
  non-exclusive promises it found. \<open>Running\<close>: the callback was called and is not over. \<open>Settled\<close>: it is over,
  returned or thrown, and the \<open>finally\<close> block has not run.\<close>

datatype lock_phase = Absent | Waiting nat | Draining "nat list" | Running | Settled | Finished

record lock_state =
  lk_exclusivePromise :: "nat option"
  lk_nonExclusivePromises :: "nat list"
  lk_kind :: "nat \<Rightarrow> lock_kind"
  lk_phase :: "nat \<Rightarrow> lock_phase"

definition new_lock :: lock_state where
  "new_lock = \<lparr>lk_exclusivePromise = None, lk_nonExclusivePromises = [], lk_kind = (\<lambda>_. NonExclusiveTask), lk_phase = (\<lambda>_. Absent)\<rparr>"

section \<open>Operations\<close>

abbreviation set_phase :: "nat \<Rightarrow> lock_phase \<Rightarrow> lock_state \<Rightarrow> lock_state" where
  "set_phase t p s \<equiv> s\<lparr>lk_phase := (lk_phase s)(t := p)\<rparr>"

text \<open>The loop test of \<open>runNonExclusive\<close> and what follows it up to the next await. The callback is called and its promise then added in one step; a
  callback that calls the same lock before its own first await, which no callback of the program does, would see the lock without its promise.\<close>

definition enter_nonExclusive :: "nat \<Rightarrow> lock_state \<Rightarrow> lock_state" where
  "enter_nonExclusive t s =
     (case lk_exclusivePromise s of
        Some p \<Rightarrow> set_phase t (Waiting p) s
      | None \<Rightarrow> set_phase t Running (s\<lparr>lk_nonExclusivePromises := lk_nonExclusivePromises s @ [t]\<rparr>))"

definition enter_exclusive :: "nat \<Rightarrow> lock_state \<Rightarrow> lock_state" where
  "enter_exclusive t s =
     (case lk_exclusivePromise s of
        Some p \<Rightarrow> set_phase t (Waiting p) s
      | None \<Rightarrow> set_phase t (Draining (lk_nonExclusivePromises s)) (s\<lparr>lk_exclusivePromise := Some t\<rparr>))"

definition enter :: "nat \<Rightarrow> lock_state \<Rightarrow> lock_state" where
  "enter t s = (case lk_kind s t of ExclusiveTask \<Rightarrow> enter_exclusive t s | NonExclusiveTask \<Rightarrow> enter_nonExclusive t s)"

definition finally_nonExclusive :: "nat \<Rightarrow> lock_state \<Rightarrow> lock_state" where
  "finally_nonExclusive t s = set_phase t Finished (s\<lparr>lk_nonExclusivePromises := removeAll t (lk_nonExclusivePromises s)\<rparr>)"

definition finally_exclusive :: "nat \<Rightarrow> lock_state \<Rightarrow> lock_state" where
  "finally_exclusive t s = set_phase t Finished (s\<lparr>lk_exclusivePromise := None\<rparr>)"

definition leave :: "nat \<Rightarrow> lock_state \<Rightarrow> lock_state" where
  "leave t s = (case lk_kind s t of ExclusiveTask \<Rightarrow> finally_exclusive t s | NonExclusiveTask \<Rightarrow> finally_nonExclusive t s)"

definition over :: "lock_phase \<Rightarrow> bool" where
  "over p = (p = Settled \<or> p = Finished)"

text \<open>The steps of the tasks already called.\<close>

inductive task_step :: "lock_state \<Rightarrow> lock_state \<Rightarrow> bool" where
  settle: "lk_phase s t = Running \<Longrightarrow> task_step s (set_phase t Settled s)"
| leave: "lk_phase s t = Settled \<Longrightarrow> task_step s (leave t s)"
| drained: "lk_phase s t = Draining ps \<Longrightarrow> \<forall>p \<in> set ps. over (lk_phase s p) \<Longrightarrow> task_step s (set_phase t Running s)"
| resume: "lk_phase s t = Waiting p \<Longrightarrow> lk_phase s p = Finished \<Longrightarrow> task_step s (enter t s)"

text \<open>A new call, or a step of a task.\<close>

inductive lock_step :: "lock_state \<Rightarrow> lock_state \<Rightarrow> bool" where
  called: "lk_phase s t = Absent \<Longrightarrow> lock_step s (enter t (s\<lparr>lk_kind := (lk_kind s)(t := k)\<rparr>))"
| task: "task_step s s' \<Longrightarrow> lock_step s s'"

inductive lock_reachable :: "lock_state \<Rightarrow> bool" where
  start: "lock_reachable new_lock"
| step: "lock_reachable s \<Longrightarrow> lock_step s s' \<Longrightarrow> lock_reachable s'"

section \<open>Invariant\<close>

definition holds_lock :: "lock_phase \<Rightarrow> bool" where
  "holds_lock p = (p = Running \<or> p = Settled \<or> (\<exists>ps. p = Draining ps))"

text \<open>The exclusive promise belongs to the one exclusive task that has entered and not finished.\<close>

definition owner_ok :: "lock_state \<Rightarrow> bool" where
  "owner_ok s \<longleftrightarrow> (\<forall>t. lk_exclusivePromise s = Some t \<longleftrightarrow> lk_kind s t = ExclusiveTask \<and> holds_lock (lk_phase s t))"

text \<open>The set of promises holds the non-exclusive tasks that have entered and not finished.\<close>

definition members_ok :: "lock_state \<Rightarrow> bool" where
  "members_ok s \<longleftrightarrow> (\<forall>t. t \<in> set (lk_nonExclusivePromises s) \<longleftrightarrow> lk_kind s t = NonExclusiveTask \<and> holds_lock (lk_phase s t))"

text \<open>A draining task has all of them in its list.\<close>

definition drain_ok :: "lock_state \<Rightarrow> bool" where
  "drain_ok s \<longleftrightarrow> (\<forall>t ps. lk_phase s t = Draining ps \<longrightarrow> lk_kind s t = ExclusiveTask \<and> set (lk_nonExclusivePromises s) \<subseteq> set ps
     \<and> (\<forall>u \<in> set ps. lk_kind s u = NonExclusiveTask \<and> (lk_phase s u = Running \<or> over (lk_phase s u))))"

text \<open>While an exclusive callback runs, the callbacks of all others are over.\<close>

definition alone_ok :: "lock_state \<Rightarrow> bool" where
  "alone_ok s \<longleftrightarrow> (\<forall>t u. lk_kind s t = ExclusiveTask \<longrightarrow> lk_phase s t = Running \<longrightarrow> u \<in> set (lk_nonExclusivePromises s) \<longrightarrow> lk_phase s u = Settled)"

text \<open>A task waits for an exclusive task that has entered.\<close>

definition wait_ok :: "lock_state \<Rightarrow> bool" where
  "wait_ok s \<longleftrightarrow> (\<forall>t p. lk_phase s t = Waiting p \<longrightarrow> lk_kind s p = ExclusiveTask \<and> (holds_lock (lk_phase s p) \<or> lk_phase s p = Finished))"

definition lock_inv :: "lock_state \<Rightarrow> bool" where
  "lock_inv s \<longleftrightarrow> owner_ok s \<and> members_ok s \<and> drain_ok s \<and> alone_ok s \<and> wait_ok s"

lemmas inv_defs = owner_ok_def members_ok_def drain_ok_def alone_ok_def wait_ok_def

lemma holds_lock_simps [simp]:
  "\<not> holds_lock Absent" "\<not> holds_lock (Waiting p)" "holds_lock (Draining ps)" "holds_lock Running" "holds_lock Settled" "\<not> holds_lock Finished"
  "over Settled" "over Finished" "\<not> over Running" "\<not> over Absent" "\<not> over (Waiting p)" "\<not> over (Draining ps)"
  by (simp_all add: holds_lock_def over_def)

lemma enter_cases:
  assumes "lk_exclusivePromise s = None"
  shows "lk_kind s t = ExclusiveTask \<Longrightarrow> enter t s = set_phase t (Draining (lk_nonExclusivePromises s)) (s\<lparr>lk_exclusivePromise := Some t\<rparr>)"
    and "lk_kind s t = NonExclusiveTask \<Longrightarrow> enter t s = set_phase t Running (s\<lparr>lk_nonExclusivePromises := lk_nonExclusivePromises s @ [t]\<rparr>)"
  using assms by (simp_all add: enter_def enter_exclusive_def enter_nonExclusive_def)

lemma enter_waits: "lk_exclusivePromise s = Some p \<Longrightarrow> enter t s = set_phase t (Waiting p) s"
  by (simp add: enter_def enter_exclusive_def enter_nonExclusive_def split: lock_kind.split)

lemma enter_inv:
  assumes "lock_inv s" and "lk_phase s t = Absent \<or> (\<exists>p. lk_phase s t = Waiting p)"
  shows "lock_inv (enter t s)"
proof -
  from assms(2) have t: "\<not> holds_lock (lk_phase s t)" "\<not> over (lk_phase s t)" by auto
  from assms(2) have fin: "lk_phase s t \<noteq> Finished" by auto
  have i: "owner_ok s" "members_ok s" "drain_ok s" "alone_ok s" "wait_ok s" using assms(1) by (simp_all add: lock_inv_def)
  show ?thesis
  proof (cases "lk_exclusivePromise s")
    case (Some p)
    with i(1) have p: "lk_kind s p = ExclusiveTask" "holds_lock (lk_phase s p)" by (auto simp: owner_ok_def)
    with t have "p \<noteq> t" by auto
    have "owner_ok (enter t s)" using i(1) t by (auto simp: owner_ok_def enter_waits [OF Some])
    moreover have "members_ok (enter t s)" using i(2) t by (auto simp: members_ok_def enter_waits [OF Some])
    moreover have "drain_ok (enter t s)" using i(3) t by (fastforce simp: drain_ok_def enter_waits [OF Some])
    moreover have "alone_ok (enter t s)" using i(4,2) t by (auto simp: alone_ok_def members_ok_def enter_waits [OF Some])
    moreover have "wait_ok (enter t s)" using i(5) t fin p \<open>p \<noteq> t\<close> by (auto simp: wait_ok_def enter_waits [OF Some])
    ultimately show ?thesis by (simp add: lock_inv_def)
  next
    case None
    with i(1) have no: "\<And>u. lk_kind s u = ExclusiveTask \<Longrightarrow> \<not> holds_lock (lk_phase s u)" by (auto simp: owner_ok_def)
    then have idle: "lk_kind s u = ExclusiveTask \<Longrightarrow> lk_phase s u \<noteq> Running" for u by force
    show ?thesis
    proof (cases "lk_kind s t")
      case ExclusiveTask
      note e = enter_cases(1) [OF None ExclusiveTask]
      have "owner_ok (enter t s)" using no ExclusiveTask by (auto simp: owner_ok_def e)
      moreover have "members_ok (enter t s)" using i(2) ExclusiveTask by (auto simp: members_ok_def e)
      moreover have "drain_ok (enter t s)"
      proof -
        have none: "lk_phase s u \<noteq> Draining ps" for u ps using i(3) no [of u] by (auto simp: drain_ok_def)
        have "lk_kind s u = NonExclusiveTask \<and> (lk_phase s u = Running \<or> over (lk_phase s u))" if "u \<in> set (lk_nonExclusivePromises s)" for u
          using that i(2) none by (auto simp: members_ok_def holds_lock_def)
        with none t ExclusiveTask show ?thesis by (auto simp: drain_ok_def e)
      qed
      moreover have "alone_ok (enter t s)" using idle by (auto simp: alone_ok_def e)
      moreover have "wait_ok (enter t s)" using i(5) ExclusiveTask by (auto simp: wait_ok_def e)
      ultimately show ?thesis by (simp add: lock_inv_def)
    next
      case NonExclusiveTask
      note e = enter_cases(2) [OF None NonExclusiveTask]
      have "owner_ok (enter t s)" using i(1) NonExclusiveTask by (auto simp: owner_ok_def e)
      moreover have "members_ok (enter t s)" using i(2) NonExclusiveTask by (auto simp: members_ok_def e)
      moreover have "drain_ok (enter t s)" using i(3) no by (fastforce simp: drain_ok_def e)
      moreover have "alone_ok (enter t s)" using idle NonExclusiveTask by (auto simp: alone_ok_def e)
      moreover have "wait_ok (enter t s)" using i(5) t fin NonExclusiveTask by (auto simp: wait_ok_def e)
      ultimately show ?thesis by (simp add: lock_inv_def)
    qed
  qed
qed

lemma settle_inv:
  assumes "lock_inv s" and "lk_phase s t = Running"
  shows "lock_inv (set_phase t Settled s)"
proof -
  have i: "owner_ok s" "members_ok s" "drain_ok s" "alone_ok s" "wait_ok s" using assms(1) by (simp_all add: lock_inv_def)
  have "owner_ok (set_phase t Settled s)" using i(1) assms(2) by (auto simp: owner_ok_def)
  moreover have "members_ok (set_phase t Settled s)" using i(2) assms(2) by (auto simp: members_ok_def)
  moreover have "drain_ok (set_phase t Settled s)" using i(3) assms(2) by (fastforce simp: drain_ok_def)
  moreover have "alone_ok (set_phase t Settled s)" using i(4) assms(2) by (auto simp: alone_ok_def)
  moreover have "wait_ok (set_phase t Settled s)" using i(5) assms(2) by (auto simp: wait_ok_def)
  ultimately show ?thesis by (simp add: lock_inv_def)
qed

lemma leave_inv:
  assumes "lock_inv s" and "lk_phase s t = Settled"
  shows "lock_inv (leave t s)"
proof -
  have i: "owner_ok s" "members_ok s" "drain_ok s" "alone_ok s" "wait_ok s" using assms(1) by (simp_all add: lock_inv_def)
  show ?thesis
  proof (cases "lk_kind s t")
    case ExclusiveTask
    then have e: "leave t s = set_phase t Finished (s\<lparr>lk_exclusivePromise := None\<rparr>)" by (simp add: leave_def finally_exclusive_def)
    have x: "lk_exclusivePromise s = Some t" using i(1) assms(2) ExclusiveTask by (simp add: owner_ok_def)
    have "owner_ok (leave t s)" using i(1) x by (auto simp: owner_ok_def e)
    moreover have "members_ok (leave t s)" using i(2) ExclusiveTask by (auto simp: members_ok_def e)
    moreover have "drain_ok (leave t s)" using i(3) assms(2) by (fastforce simp: drain_ok_def e)
    moreover have "alone_ok (leave t s)" using i(2,4) ExclusiveTask by (auto simp: alone_ok_def members_ok_def e)
    moreover have "wait_ok (leave t s)" using i(5) by (auto simp: wait_ok_def e)
    ultimately show ?thesis by (simp add: lock_inv_def)
  next
    case NonExclusiveTask
    then have e: "leave t s = set_phase t Finished (s\<lparr>lk_nonExclusivePromises := removeAll t (lk_nonExclusivePromises s)\<rparr>)"
      by (simp add: leave_def finally_nonExclusive_def)
    have "owner_ok (leave t s)" using i(1) NonExclusiveTask by (auto simp: owner_ok_def e)
    moreover have "members_ok (leave t s)" using i(2) by (auto simp: members_ok_def e)
    moreover have "drain_ok (leave t s)" using i(3) assms(2) by (fastforce simp: drain_ok_def e)
    moreover have "alone_ok (leave t s)" using i(4) by (auto simp: alone_ok_def e)
    moreover have "wait_ok (leave t s)" using i(5) by (auto simp: wait_ok_def e)
    ultimately show ?thesis by (simp add: lock_inv_def)
  qed
qed

lemma drained_inv:
  assumes "lock_inv s" and "lk_phase s t = Draining ps" and "\<forall>p \<in> set ps. over (lk_phase s p)"
  shows "lock_inv (set_phase t Running s)"
proof -
  have i: "owner_ok s" "members_ok s" "drain_ok s" "alone_ok s" "wait_ok s" using assms(1) by (simp_all add: lock_inv_def)
  have k: "lk_kind s t = ExclusiveTask" using i(3) assms(2) by (simp add: drain_ok_def)
  have x: "lk_exclusivePromise s = Some t" using i(1) k assms(2) by (simp add: owner_ok_def)
  have "lk_phase s u = Settled" if "u \<in> set (lk_nonExclusivePromises s)" for u
  proof -
    have "over (lk_phase s u)" using that i(3) assms(2,3) by (fastforce simp: drain_ok_def)
    moreover have "holds_lock (lk_phase s u)" using that i(2) by (simp add: members_ok_def)
    ultimately show ?thesis by (auto simp: over_def)
  qed
  then have "alone_ok (set_phase t Running s)" using i(2) k by (auto simp: alone_ok_def members_ok_def)
  moreover have "owner_ok (set_phase t Running s)" using i(1) assms(2) by (auto simp: owner_ok_def)
  moreover have "members_ok (set_phase t Running s)" using i(2) k by (auto simp: members_ok_def)
  moreover have "drain_ok (set_phase t Running s)" using i(3) k by (fastforce simp: drain_ok_def)
  moreover have "wait_ok (set_phase t Running s)" using i(5) assms(2) by (auto simp: wait_ok_def)
  ultimately show ?thesis by (simp add: lock_inv_def)
qed

lemma task_step_inv: "task_step s s' \<Longrightarrow> lock_inv s \<Longrightarrow> lock_inv s'"
  by (induction rule: task_step.induct) (auto intro: settle_inv leave_inv drained_inv enter_inv)

lemma kind_inv:
  assumes "lock_inv s" and "lk_phase s t = Absent"
  shows "lock_inv (s\<lparr>lk_kind := (lk_kind s)(t := k)\<rparr>)"
proof -
  have i: "owner_ok s" "members_ok s" "drain_ok s" "alone_ok s" "wait_ok s" using assms(1) by (simp_all add: lock_inv_def)
  let ?s = "s\<lparr>lk_kind := (lk_kind s)(t := k)\<rparr>"
  have "owner_ok ?s" using i(1) assms(2) by (auto simp: owner_ok_def)
  moreover have "members_ok ?s" using i(2) assms(2) by (auto simp: members_ok_def)
  moreover have "drain_ok ?s" using i(3) assms(2) by (fastforce simp: drain_ok_def)
  moreover have "alone_ok ?s" using i(4) assms(2) by (auto simp: alone_ok_def)
  moreover have "wait_ok ?s" using i(5) assms(2) by (fastforce simp: wait_ok_def)
  ultimately show ?thesis by (simp add: lock_inv_def)
qed

lemma lock_reachable_inv: "lock_reachable s \<Longrightarrow> lock_inv s"
proof (induction rule: lock_reachable.induct)
  case start
  show ?case by (simp add: lock_inv_def inv_defs new_lock_def)
next
  case (step s s')
  from step(2,3) show ?case
    by (cases rule: lock_step.cases) (auto intro: task_step_inv enter_inv kind_inv)
qed

section \<open>Progress\<close>

fun phase_weight :: "lock_phase \<Rightarrow> nat" where
  "phase_weight (Waiting p) = 4"
| "phase_weight (Draining ps) = 3"
| "phase_weight Running = 2"
| "phase_weight Settled = 1"
| "phase_weight Finished = 0"
| "phase_weight Absent = 0"

definition called_tasks :: "lock_state \<Rightarrow> nat set" where
  "called_tasks s = {t. lk_phase s t \<noteq> Absent}"

definition lock_weight :: "lock_state \<Rightarrow> nat" where
  "lock_weight s = (\<Sum>t \<in> called_tasks s. phase_weight (lk_phase s t))"

text \<open>The tasks that may look at the lock again.\<close>

definition resumable :: "lock_state \<Rightarrow> nat set" where
  "resumable s = {t. \<exists>p. lk_phase s t = Waiting p \<and> lk_phase s p = Finished}"

lemma lock_weight_update:
  assumes "finite (called_tasks s)" and "lk_phase s t \<noteq> Absent" and "lk_phase s' = (lk_phase s)(t := p)" and "p \<noteq> Absent"
  shows "lock_weight s' + phase_weight (lk_phase s t) = lock_weight s + phase_weight p"
proof -
  have c: "called_tasks s' = called_tasks s" using assms(2-4) by (auto simp: called_tasks_def)
  have t: "t \<in> called_tasks s" using assms(2) by (simp add: called_tasks_def)
  have "(\<Sum>u \<in> called_tasks s - {t}. phase_weight (lk_phase s' u)) = (\<Sum>u \<in> called_tasks s - {t}. phase_weight (lk_phase s u))"
    by (rule sum.cong) (simp_all add: assms(3))
  then show ?thesis
    unfolding lock_weight_def c sum.remove [OF assms(1) t] by (simp add: assms(3))
qed

lemma enter_phase: "\<exists>p. lk_phase (enter t s) = (lk_phase s)(t := p) \<and> p \<noteq> Absent"
  by (auto simp: enter_def enter_exclusive_def enter_nonExclusive_def split: lock_kind.split option.split)

lemma leave_phase: "lk_phase (leave t s) = (lk_phase s)(t := Finished)"
  by (simp add: leave_def finally_exclusive_def finally_nonExclusive_def split: lock_kind.split)

lemma lock_step_phase:
  assumes "lock_step s s'"
  shows "\<exists>t p. lk_phase s' = (lk_phase s)(t := p)"
  using assms
proof cases
  case (called t k)
  then show ?thesis using enter_phase [of t "s\<lparr>lk_kind := (lk_kind s)(t := k)\<rparr>"] by auto
next
  case task
  then show ?thesis
  proof cases
    case (resume t p)
    then show ?thesis using enter_phase [of t s] by auto
  qed (auto simp: leave_phase)
qed

lemma finite_called: "lock_reachable s \<Longrightarrow> finite (called_tasks s)"
proof (induction rule: lock_reachable.induct)
  case (step s s')
  obtain t p where "lk_phase s' = (lk_phase s)(t := p)" using lock_step_phase [OF step(2)] by blast
  then have "called_tasks s' \<subseteq> insert t (called_tasks s)" by (auto simp: called_tasks_def)
  with step(3) show ?case by (simp add: finite_subset)
qed (simp add: called_tasks_def new_lock_def)

lemma finite_resumable: "finite (called_tasks s) \<Longrightarrow> finite (resumable s)"
  by (rule finite_subset [of _ "called_tasks s"]) (auto simp: resumable_def called_tasks_def)

text \<open>Every step of a task brings it nearer to its end, or is a look at a lock that was taken again.\<close>

definition lock_order :: "(lock_state \<times> lock_state) set" where
  "lock_order = inv_image (less_than <*lex*> less_than) (\<lambda>s. (lock_weight s, card (resumable s)))"

lemma task_step_order:
  assumes "task_step s s'" and "lock_inv s" and "finite (called_tasks s)"
  shows "(s', s) \<in> lock_order"
  using assms(1)
proof cases
  case (settle t)
  with lock_weight_update [OF assms(3), of t s' Settled] show ?thesis by (simp add: lock_order_def)
next
  case (leave t)
  with lock_weight_update [OF assms(3), of t s' Finished] show ?thesis by (simp add: lock_order_def leave_phase)
next
  case (drained t ps)
  with lock_weight_update [OF assms(3), of t s' Running] show ?thesis by (simp add: lock_order_def)
next
  case (resume t p)
  show ?thesis
  proof (cases "lk_exclusivePromise s")
    case None
    then obtain q where "lk_phase s' = (lk_phase s)(t := q)" "q \<noteq> Absent" "phase_weight q < 4"
      using enter_cases [OF None, of t] resume(1) by (cases "lk_kind s t") auto
    with lock_weight_update [OF assms(3), of t s' q] resume(2) show ?thesis by (simp add: lock_order_def)
  next
    case (Some q)
    have s': "s' = set_phase t (Waiting q) s" using enter_waits [OF Some] resume(1) by simp
    have q: "holds_lock (lk_phase s q)" using assms(2) Some by (auto simp: lock_inv_def owner_ok_def)
    have "resumable s' \<subseteq> resumable s - {t}"
      using q resume(2) by (auto simp: resumable_def s' split: if_splits)
    moreover have "t \<in> resumable s" using resume by (auto simp: resumable_def)
    ultimately have "card (resumable s') < card (resumable s)"
      using finite_resumable [OF assms(3)] by (metis Diff_subset card_Diff1_less card_mono finite_Diff le_less_trans)
    moreover have "lock_weight s' = lock_weight s" using lock_weight_update [OF assms(3), of t s' "Waiting q"] resume(2) s' by simp
    ultimately show ?thesis by (simp add: lock_order_def)
  qed
qed

lemma task_step_exists:
  assumes "lock_inv s" and "lk_phase s t \<noteq> Absent" and "lk_phase s t \<noteq> Finished"
  shows "\<exists>s'. task_step s s'"
proof (rule ccontr)
  assume "\<nexists>s'. task_step s s'"
  then have stuck: "lk_phase s u \<noteq> Running" "lk_phase s u \<noteq> Settled" for u using settle [of s u] leave [of s u] by blast+
  have i: "owner_ok s" "drain_ok s" "wait_ok s" using assms(1) by (simp_all add: lock_inv_def)
  have nd: "lk_phase s u \<noteq> Draining ps" for u ps
  proof
    assume d: "lk_phase s u = Draining ps"
    with i(2) stuck have "\<forall>p \<in> set ps. over (lk_phase s p)" by (fastforce simp: drain_ok_def)
    with drained [OF d] \<open>\<nexists>s'. task_step s s'\<close> show False by blast
  qed
  with assms stuck obtain p where "lk_phase s t = Waiting p" by (cases "lk_phase s t") auto
  moreover from this i(3) stuck nd have "lk_phase s p = Finished" by (force simp: wait_ok_def holds_lock_def)
  ultimately show False using resume \<open>\<nexists>s'. task_step s s'\<close> by blast
qed

section \<open>Properties\<close>

text \<open>C33 (safety). While the callback of a \<open>runExclusive\<close> call runs no other callback runs under the lock, whatever calls and
  completions are interleaved.\<close>

theorem lock_excludes:
  assumes "lock_reachable s" and "lk_kind s t = ExclusiveTask" and "lk_phase s t = Running" and "lk_phase s u = Running"
  shows "u = t"
proof (cases "lk_kind s u")
  case ExclusiveTask
  with lock_reachable_inv [OF assms(1)] assms(2-4) have "lk_exclusivePromise s = Some u" "lk_exclusivePromise s = Some t"
    by (simp_all add: lock_inv_def owner_ok_def)
  then show ?thesis by simp
next
  case NonExclusiveTask
  with lock_reachable_inv [OF assms(1)] assms(2-4) show ?thesis by (force simp: lock_inv_def members_ok_def alone_ok_def)
qed

text \<open>Every call under the lock ends: from a reachable state the tasks can take only finitely many steps
  when no new calls come, and where they cannot take another one all of them have finished.\<close>

theorem lock_calls_finish:
  assumes "lock_reachable s"
  shows "(\<nexists>f. f 0 = s \<and> (\<forall>i. task_step (f i) (f (Suc i))))
    \<and> (\<forall>s'. task_step\<^sup>*\<^sup>* s s' \<longrightarrow> (\<nexists>s''. task_step s' s'') \<longrightarrow> (\<forall>t. lk_phase s' t = Absent \<or> lk_phase s' t = Finished))"
proof
  have r: "lock_reachable s'" if "task_step\<^sup>*\<^sup>* s s'" for s'
    using that by (induction rule: rtranclp_induct) (auto intro: assms lock_reachable.step lock_step.task)
  show "\<nexists>f. f 0 = s \<and> (\<forall>i. task_step (f i) (f (Suc i)))"
  proof
    assume "\<exists>f. f 0 = s \<and> (\<forall>i. task_step (f i) (f (Suc i)))"
    then obtain f where f: "f 0 = s" "\<forall>i. task_step (f i) (f (Suc i))" by blast
    have "task_step\<^sup>*\<^sup>* s (f i)" for i
      using f by (induction i) (auto intro: rtranclp.rtrancl_into_rtrancl)
    with r f(2) have "\<forall>i. (f (Suc i), f i) \<in> lock_order"
      using task_step_order lock_reachable_inv finite_called by blast
    moreover have "wf lock_order" by (simp add: lock_order_def wf_inv_image wf_lex_prod)
    ultimately show False by (metis wf_iff_no_infinite_down_chain)
  qed
  show "\<forall>s'. task_step\<^sup>*\<^sup>* s s' \<longrightarrow> (\<nexists>s''. task_step s' s'') \<longrightarrow> (\<forall>t. lk_phase s' t = Absent \<or> lk_phase s' t = Finished)"
    using r lock_reachable_inv task_step_exists by blast
qed

section \<open>A sample run\<close>

text \<open>Task 0 runs non-exclusively, task 1 wants the lock for itself, task 2 waits for it.\<close>

definition sample_lock :: lock_state where
  "sample_lock = set_phase 1 Running (set_phase 0 Settled
     (enter 2 ((enter 1 ((enter 0 new_lock)\<lparr>lk_kind := (lk_kind (enter 0 new_lock))(1 := ExclusiveTask)\<rparr>))
        \<lparr>lk_kind := (lk_kind (enter 0 new_lock))(1 := ExclusiveTask, 2 := NonExclusiveTask)\<rparr>)))"

lemma sample_lock_phases:
  "lk_phase sample_lock 0 = Settled" "lk_phase sample_lock 1 = Running" "lk_phase sample_lock 2 = Waiting 1" "lk_kind sample_lock 1 = ExclusiveTask"
  by (simp_all add: sample_lock_def new_lock_def enter_def enter_exclusive_def enter_nonExclusive_def)

lemma sample_lock_reachable: "lock_reachable sample_lock"
proof -
  let ?s0 = "enter 0 (new_lock\<lparr>lk_kind := (lk_kind new_lock)(0 := NonExclusiveTask)\<rparr>)"
  let ?s1 = "enter 1 (?s0\<lparr>lk_kind := (lk_kind ?s0)(1 := ExclusiveTask)\<rparr>)"
  let ?s2 = "enter 2 (?s1\<lparr>lk_kind := (lk_kind ?s1)(2 := NonExclusiveTask)\<rparr>)"
  let ?s3 = "set_phase 0 Settled ?s2"
  note unf = new_lock_def enter_def enter_exclusive_def enter_nonExclusive_def
  have "lock_step new_lock ?s0" by (rule called) (simp add: unf)
  moreover have "lock_step ?s0 ?s1" by (rule called) (simp add: unf)
  moreover have "lock_step ?s1 ?s2" by (rule called) (simp add: unf)
  moreover have "lock_step ?s2 ?s3" by (intro task settle) (simp add: unf)
  moreover have "lock_step ?s3 (set_phase 1 Running ?s3)" by (intro task drained [where ps = "[0]"]) (simp_all add: unf)
  ultimately have "lock_reachable (set_phase 1 Running ?s3)" by (meson lock_reachable.intros)
  moreover have "set_phase 1 Running ?s3 = sample_lock" by (simp add: sample_lock_def unf fun_upd_idem)
  ultimately show ?thesis by simp
qed

theorem lock_excludes_witness: "{u. lk_phase sample_lock u = Running} = {1}"
  using lock_excludes [OF sample_lock_reachable sample_lock_phases(4,2)] sample_lock_phases(2) by blast

theorem lock_calls_finish_witness: "\<nexists>f. f 0 = sample_lock \<and> (\<forall>i. task_step (f i) (f (Suc i)))"
  using lock_calls_finish [OF sample_lock_reachable] by blast

end
