(* ===== verification/Pool_Sender.thy ===== *)
theory Pool_Sender
  imports Blockchain_Utils Chain_Types "HOL-Library.Multiset"
begin

text \<open>
  The pool of one sender: \<open>sender-state.ts\<close> and \<open>sender-mempool.ts\<close> of
  \<open>packages/transaction-pool-service/source\<close>, on \<open>packages/state/source/wallets/wallet.ts\<close>.

  Each operation is a function that runs to its end. In the code only \<open>addTransaction\<close> takes the lock of the sender: a removal is
  synchronous and takes no lock, so it can come between the checks of an addition and its effect. \<open>sender_flow\<close> has these
  overlaps: the parts of an addition between its \<open>await\<close>s are steps of their own (\<open>add_to_sender_parts\<close> puts them together again), and
  removals come anywhere. A replacement is taken as a whole, so the overlap of a removal with a replacement is not covered.
  An exception keeps the state it was thrown in. The account data and the preverification of
  the EVM and the check of the second signature are arguments (\<open>pool_env\<close>), and may change from one
  operation to the next.

  The invariant: the transactions carry consecutive nonces up to the nonce of the wallet, the
  wallet's balance is the account's less what they can cost, and it is not negative.
\<close>

section \<open>Wallet\<close>

record account_info =
  ai_balance :: int
  ai_nonce :: int
  ai_secondPublicKey :: "string option"

record wallet =
  wl_address :: string
  wl_legacyAddress :: "string option"
  wl_balance :: int
  wl_nonce :: int
  wl_secondPublicKey :: "string option"

record pool_config =
  pf_maxTransactionBytes :: nat
  pf_chainId :: nat
  pf_maxTransactionsPerSender :: nat
  pf_allowedSenders :: "string list"
  pf_maxTransactionsInPool :: nat
  pf_maxTransactionAge :: nat
  pf_maxTransactionsPerRequest :: nat
  pf_rebroadcastThreshold :: nat
  pf_rebroadcastCooldownBlocks :: nat

record pool_env =
  pe_config :: pool_config
  pe_accountInfo :: "string \<Rightarrow> string option \<Rightarrow> error + account_info"
  pe_verifySecondSignature :: "transaction \<Rightarrow> string \<Rightarrow> error + bool"
  pe_preverify :: "transaction \<Rightarrow> bool"
  pe_addressFromPublicKey :: "string \<Rightarrow> error + string"
  pe_fromBytes :: "bytes \<Rightarrow> error + transaction"
  pe_blockNumber :: nat
  pe_maxGasLimit :: nat
  pe_randomNumber :: "nat \<Rightarrow> nat \<Rightarrow> nat"

definition init_wallet :: "pool_env \<Rightarrow> string \<Rightarrow> string option \<Rightarrow> error + wallet" where
  "init_wallet e address legacyAddress =
     sum_bind (pe_accountInfo e address legacyAddress) (\<lambda>info.
       Inr \<lparr>wl_address = address, wl_legacyAddress = legacyAddress, wl_balance = ai_balance info, wl_nonce = ai_nonce info,
         wl_secondPublicKey = ai_secondPublicKey info\<rparr>)"

definition increaseBalance :: "int \<Rightarrow> wallet \<Rightarrow> wallet" where
  "increaseBalance amount w = w\<lparr>wl_balance := wl_balance w + amount\<rparr>"

definition decreaseBalance :: "int \<Rightarrow> wallet \<Rightarrow> wallet" where
  "decreaseBalance amount w = w\<lparr>wl_balance := wl_balance w - amount\<rparr>"

definition increaseNonce :: "wallet \<Rightarrow> wallet" where
  "increaseNonce w = w\<lparr>wl_nonce := wl_nonce w + 1\<rparr>"

definition decreaseNonce :: "wallet \<Rightarrow> wallet" where
  "decreaseNonce w = w\<lparr>wl_nonce := wl_nonce w - 1\<rparr>"

definition hasLegacySecondPublicKey :: "wallet \<Rightarrow> bool" where
  "hasLegacySecondPublicKey w = (wl_secondPublicKey w \<noteq> None \<and> wl_secondPublicKey w \<noteq> Some [])"

section \<open>Sender state\<close>

definition transaction_cost :: "transaction \<Rightarrow> int" where
  "transaction_cost t = tx_value t + calculate (int (tx_gasPrice t)) (int (tx_gasLimit t))"

definition validateTransaction :: "pool_env \<Rightarrow> wallet \<Rightarrow> transaction \<Rightarrow> int \<Rightarrow> int \<Rightarrow> error option" where
  "validateTransaction e w t nonceOffset refund =
     (if length (tx_serialized t) > pf_maxTransactionBytes (pe_config e) then Some (JsError ''TransactionExceedsMaximumByteSizeError'')
      else if tx_network t \<noteq> 0 \<and> tx_network t \<noteq> int (pf_chainId (pe_config e)) then Some (JsError ''TransactionFromWrongNetworkError'')
      else if wl_nonce w + nonceOffset \<noteq> int (tx_nonce t) then Some (JsError ''UnexpectedNonceError'')
      else if wl_balance w + refund - tx_value t - calculate (int (tx_gasPrice t)) (int (tx_gasLimit t)) < 0
        then Some (JsError ''InsufficientBalanceError'')
      else
        let second =
          (if hasLegacySecondPublicKey w
           then (case pe_verifySecondSignature e t (the (wl_secondPublicKey w)) of Inl err \<Rightarrow> Some err | Inr _ \<Rightarrow> None)
           else if tx_legacySecondSignature t \<noteq> None \<and> tx_legacySecondSignature t \<noteq> Some []
             then Some (JsError ''UnexpectedLegacySecondSignatureError'') else None)
        in if second \<noteq> None then second
           else if \<not> pe_preverify e t then Some (JsError ''TransactionFailedToPreverifyError'') else None)"

definition apply_transaction :: "pool_env \<Rightarrow> transaction \<Rightarrow> wallet \<Rightarrow> error + wallet" where
  "apply_transaction e t w =
     (case validateTransaction e w t 0 0 of
        Some err \<Rightarrow> Inl err
      | None \<Rightarrow> Inr (decreaseBalance (transaction_cost t) (increaseNonce w)))"

text \<open>The flag is the result of \<open>replace\<close>: the wallet is changed when it is true.\<close>

definition replace_in_state :: "pool_env \<Rightarrow> transaction \<Rightarrow> transaction \<Rightarrow> int \<Rightarrow> wallet \<Rightarrow> error + (bool \<times> wallet)" where
  "replace_in_state e old new currentNonce w =
     (if tx_nonce old \<noteq> tx_nonce new then Inl (JsError ''cannot replace transaction with mismatching nonce'')
      else let oldCost = transaction_cost old; newCost = transaction_cost new
        in if wl_balance w + oldCost < newCost then Inr (False, w)
           else let nonceOffset = (currentNonce - int (tx_nonce new)) * -1
             in case validateTransaction e w new nonceOffset oldCost of
                  Some err \<Rightarrow> Inl err
                | None \<Rightarrow> Inr (True, decreaseBalance newCost (increaseBalance oldCost w)))"

definition revert_transaction :: "transaction \<Rightarrow> wallet \<Rightarrow> wallet" where
  "revert_transaction t w = increaseBalance (transaction_cost t) (decreaseNonce w)"

section \<open>Sender mempool\<close>

record sender_mempool =
  sm_wallet :: wallet
  sm_concurrency :: nat
  sm_transactions :: "transaction list"

definition configure_sender :: "pool_env \<Rightarrow> string \<Rightarrow> string option \<Rightarrow> error + sender_mempool" where
  "configure_sender e address legacyAddress =
     sum_bind (init_wallet e address legacyAddress) (\<lambda>w. Inr \<lparr>sm_wallet = w, sm_concurrency = 0, sm_transactions = []\<rparr>)"

definition isDisposable :: "sender_mempool \<Rightarrow> bool" where
  "isDisposable m = (length (sm_transactions m) = 0 \<and> sm_concurrency m = 0)"

definition getFromEarliest :: "sender_mempool \<Rightarrow> transaction list" where
  "getFromEarliest m = sm_transactions m"

definition getFromLatest :: "sender_mempool \<Rightarrow> transaction list" where
  "getFromLatest m = rev (sm_transactions m)"

definition add_to_sender :: "pool_env \<Rightarrow> transaction \<Rightarrow> sender_mempool \<Rightarrow> sender_mempool outcome" where
  "add_to_sender e t m =
     (let m1 = m\<lparr>sm_concurrency := sm_concurrency m + 1\<rparr>;
          result =
            (if length (sm_transactions m1) \<ge> pf_maxTransactionsPerSender (pe_config e) \<and> tx_from t \<notin> set (pf_allowedSenders (pe_config e))
             then Threw (JsError ''SenderExceededMaximumTransactionCountError'') m1
             else case apply_transaction e t (sm_wallet m1) of
                    Inl err \<Rightarrow> Threw err m1
                  | Inr w \<Rightarrow> Done (m1\<lparr>sm_wallet := w, sm_transactions := sm_transactions m1 @ [t]\<rparr>));
          leave = (\<lambda>m2. m2\<lparr>sm_concurrency := sm_concurrency m2 - 1\<rparr>)
      in case result of Done m2 \<Rightarrow> Done (leave m2) | Threw err m2 \<Rightarrow> Threw err (leave m2))"

text \<open>\<open>findIndex\<close>.\<close>

definition find_index :: "('a \<Rightarrow> bool) \<Rightarrow> 'a list \<Rightarrow> nat option" where
  "find_index P xs = (if \<exists>x \<in> set xs. P x then Some (length (takeWhile (\<lambda>x. \<not> P x) xs)) else None)"

text \<open>\<open>splice(index, length - index).reverse()\<close> and the loop that reverts what was cut off.\<close>

definition cut_from :: "nat \<Rightarrow> sender_mempool \<Rightarrow> transaction list \<times> sender_mempool" where
  "cut_from index m =
     (let removed = rev (drop index (sm_transactions m))
      in (removed, m\<lparr>sm_transactions := take index (sm_transactions m), sm_wallet := fold revert_transaction removed (sm_wallet m)\<rparr>))"

definition remove_from_sender :: "string \<Rightarrow> sender_mempool \<Rightarrow> transaction list \<times> sender_mempool" where
  "remove_from_sender hash m =
     (case find_index (\<lambda>t. tx_hash t = hash) (sm_transactions m) of None \<Rightarrow> ([], m) | Some index \<Rightarrow> cut_from index m)"

text \<open>The loop that adds transactions again and collects those that fail.\<close>

fun add_again :: "pool_env \<Rightarrow> transaction list \<Rightarrow> sender_mempool \<Rightarrow> transaction list \<times> sender_mempool" where
  "add_again e [] m = ([], m)"
| "add_again e (t # ts) m =
     (case add_to_sender e t m of
        Done m1 \<Rightarrow> add_again e ts m1
      | Threw _ m1 \<Rightarrow> (case add_again e ts m1 of (removed, m2) \<Rightarrow> (t # removed, m2)))"

definition replace_in_sender :: "pool_env \<Rightarrow> transaction \<Rightarrow> sender_mempool \<Rightarrow> (error + transaction list) \<times> sender_mempool" where
  "replace_in_sender e new m =
     (let affected = takeWhile (\<lambda>t. \<not> tx_nonce t < tx_nonce new) (getFromLatest m)
      in if affected = [] then (Inr [], m)
         else let same = last affected
           in if tx_nonce same \<noteq> tx_nonce new then (Inl (JsError ''transaction nonce mismatch''), m)
              else if tx_gasPrice new \<le> tx_gasPrice same then (Inr [], m)
              else let index = the (find_index (\<lambda>t. tx_nonce t = tx_nonce new) (sm_transactions m))
                in case replace_in_state e same new (wl_nonce (sm_wallet m)) (sm_wallet m) of
                     Inl err \<Rightarrow> (Inl err, m)
                   | Inr (True, w) \<Rightarrow> (Inr [same], m\<lparr>sm_wallet := w, sm_transactions := (sm_transactions m)[index := new]\<rparr>)
                   | Inr (False, _) \<Rightarrow>
                       (case cut_from index m of (removed, m1) \<Rightarrow>
                          (case add_again e (new # tl (rev removed)) m1 of (failed, m2) \<Rightarrow> (Inr (same # failed), m2))))"

definition readd_in_sender :: "pool_env \<Rightarrow> sender_mempool \<Rightarrow> (error + transaction list) \<times> sender_mempool" where
  "readd_in_sender e m =
     (case init_wallet e (wl_address (sm_wallet m)) (wl_legacyAddress (sm_wallet m)) of
        Inl err \<Rightarrow> (Inl err, m)
      | Inr w \<Rightarrow> (case add_again e (sm_transactions m) (m\<lparr>sm_wallet := w, sm_transactions := []\<rparr>) of (removed, m1) \<Rightarrow> (Inr removed, m1)))"

section \<open>Nothing is lost\<close>

lemma add_to_sender_eq:
  "add_to_sender e t m =
     (if length (sm_transactions m) \<ge> pf_maxTransactionsPerSender (pe_config e) \<and> tx_from t \<notin> set (pf_allowedSenders (pe_config e))
      then Threw (JsError ''SenderExceededMaximumTransactionCountError'') m
      else case apply_transaction e t (sm_wallet m) of
             Inl err \<Rightarrow> Threw err m
           | Inr w \<Rightarrow> Done (m\<lparr>sm_wallet := w, sm_transactions := sm_transactions m @ [t]\<rparr>))"
  by (cases m) (auto simp: add_to_sender_def Let_def split: sum.split)

lemma add_to_sender_result:
  "(\<exists>w. apply_transaction e t (sm_wallet m) = Inr w
      \<and> add_to_sender e t m = Done (m\<lparr>sm_wallet := w, sm_transactions := sm_transactions m @ [t]\<rparr>))
   \<or> (\<exists>err. add_to_sender e t m = Threw err m)"
  by (auto simp: add_to_sender_eq split: sum.split)

lemma add_to_sender_cases:
  obtains (added) w where "apply_transaction e t (sm_wallet m) = Inr w"
    and "add_to_sender e t m = Done (m\<lparr>sm_wallet := w, sm_transactions := sm_transactions m @ [t]\<rparr>)"
  | (refused) err where "add_to_sender e t m = Threw err m"
  using add_to_sender_result [of e t m] by blast

lemma add_again_conserves:
  assumes "add_again e ts m = (removed, m')"
  shows "mset (sm_transactions m') + mset removed = mset (sm_transactions m) + mset ts"
  using assms
proof (induction ts arbitrary: m removed)
  case (Cons t ts)
  show ?case
  proof (rule add_to_sender_cases [of e t m])
    fix w assume "add_to_sender e t m = Done (m\<lparr>sm_wallet := w, sm_transactions := sm_transactions m @ [t]\<rparr>)"
    with Cons.prems Cons.IH show ?case by fastforce
  next
    fix err assume "add_to_sender e t m = Threw err m"
    with Cons.prems obtain r where "add_again e ts m = (r, m')" "removed = t # r" by (auto split: prod.splits)
    with Cons.IH [of m r] show ?case by simp
  qed
qed simp

lemma cut_from_simps [simp]:
  "fst (cut_from i m) = rev (drop i (sm_transactions m))" "sm_transactions (snd (cut_from i m)) = take i (sm_transactions m)"
  "sm_wallet (snd (cut_from i m)) = fold revert_transaction (rev (drop i (sm_transactions m))) (sm_wallet m)"
  "sm_concurrency (snd (cut_from i m)) = sm_concurrency m"
  by (simp_all add: cut_from_def Let_def)

lemma cut_from_conserves: "mset (sm_transactions (snd (cut_from i m))) + mset (fst (cut_from i m)) = mset (sm_transactions m)"
  by (simp flip: mset_append)

lemma remove_conserves:
  assumes "remove_from_sender hash m = (removed, m')"
  shows "mset (sm_transactions m') + mset removed = mset (sm_transactions m)"
proof (cases "find_index (\<lambda>t. tx_hash t = hash) (sm_transactions m)")
  case (Some i)
  with assms cut_from_conserves [of i m] show ?thesis by (simp add: remove_from_sender_def)
qed (use assms in \<open>simp add: remove_from_sender_def\<close>)

section \<open>The wallet follows the transactions\<close>

text \<open>\<open>b\<close> and \<open>n\<close> are balance and nonce of the account.\<close>

definition sender_ok :: "int \<Rightarrow> int \<Rightarrow> sender_mempool \<Rightarrow> bool" where
  "sender_ok b n m \<longleftrightarrow>
     (\<forall>i < length (sm_transactions m). int (tx_nonce (sm_transactions m ! i)) = n + int i)
     \<and> wl_nonce (sm_wallet m) = n + int (length (sm_transactions m))
     \<and> wl_balance (sm_wallet m) = b - sum_list (map transaction_cost (sm_transactions m))
     \<and> 0 \<le> wl_balance (sm_wallet m)
     \<and> (\<forall>t \<in> set (sm_transactions m). 0 \<le> tx_value t)"

lemma transaction_cost_nonneg: "0 \<le> tx_value t \<Longrightarrow> 0 \<le> transaction_cost t"
  by (simp add: transaction_cost_def calculate_def)

lemma validate_accepts:
  "validateTransaction e w t off refund = None \<Longrightarrow>
   int (tx_nonce t) = wl_nonce w + off \<and> 0 \<le> wl_balance w + refund - transaction_cost t"
  by (auto simp: validateTransaction_def transaction_cost_def Let_def split: if_splits)

lemma add_to_sender_ok:
  assumes "sender_ok b n m" and "0 \<le> tx_value t"
  shows "sender_ok b n (outcome_state (add_to_sender e t m))"
proof (rule add_to_sender_cases [of e t m])
  fix w assume w: "apply_transaction e t (sm_wallet m) = Inr w"
    and a: "add_to_sender e t m = Done (m\<lparr>sm_wallet := w, sm_transactions := sm_transactions m @ [t]\<rparr>)"
  from w have v: "validateTransaction e (sm_wallet m) t 0 0 = None"
    and w': "w = decreaseBalance (transaction_cost t) (increaseNonce (sm_wallet m))"
    by (auto simp: apply_transaction_def split: option.splits)
  show ?thesis
    using assms validate_accepts [OF v]
    by (auto simp: a w' sender_ok_def decreaseBalance_def increaseNonce_def nth_append less_Suc_eq)
next
  fix err assume "add_to_sender e t m = Threw err m"
  with assms show ?thesis by simp
qed

lemma add_again_ok:
  assumes "sender_ok b n m" and "\<forall>t \<in> set ts. 0 \<le> tx_value t" and "add_again e ts m = (removed, m')"
  shows "sender_ok b n m'"
  using assms
proof (induction ts arbitrary: m removed)
  case (Cons t ts)
  have "sender_ok b n (outcome_state (add_to_sender e t m))" using Cons.prems by (intro add_to_sender_ok) simp_all
  with Cons show ?case by (cases "add_to_sender e t m") (auto split: prod.splits)
qed simp

lemma fold_revert:
  "wl_balance (fold revert_transaction ts w) = wl_balance w + sum_list (map transaction_cost ts)"
  "wl_nonce (fold revert_transaction ts w) = wl_nonce w - int (length ts)"
  by (induction ts arbitrary: w) (simp_all add: revert_transaction_def increaseBalance_def decreaseNonce_def)

lemma cost_take_drop:
  "sum_list (map transaction_cost xs) = sum_list (map transaction_cost (take i xs)) + sum_list (map transaction_cost (drop i xs))"
  by (metis append_take_drop_id map_append sum_list_append)

lemma sum_list_rev_cost: "sum_list (map transaction_cost (rev xs)) = sum_list (map transaction_cost xs)"
  by (simp add: sum_list_rev flip: rev_map)

lemma cut_from_ok:
  assumes "sender_ok b n m"
  shows "sender_ok b n (snd (cut_from i m))"
proof -
  let ?txs = "sm_transactions m"
  have "0 \<le> sum_list (map transaction_cost (drop i ?txs))"
    using assms by (intro sum_list_nonneg) (auto simp: sender_ok_def dest!: in_set_dropD intro: transaction_cost_nonneg)
  with assms cost_take_drop [of ?txs i] show ?thesis
    by (auto simp: sender_ok_def fold_revert sum_list_rev_cost dest: in_set_takeD)
qed

lemma remove_from_sender_ok:
  "sender_ok b n m \<Longrightarrow> sender_ok b n (snd (remove_from_sender hash m))"
  by (simp add: remove_from_sender_def cut_from_ok split: option.split)

text \<open>The transaction to replace is the one at the index the code computes.\<close>

lemma find_index_nth:
  assumes "find_index P xs = Some i"
  shows "i < length xs \<and> P (xs ! i)"
proof -
  have i: "i = length (takeWhile (\<lambda>x. \<not> P x) xs)" "\<exists>x \<in> set xs. P x" using assms by (auto simp: find_index_def split: if_splits)
  then have "length (takeWhile (\<lambda>x. \<not> P x) xs) < length xs"
    by (metis (mono_tags, lifting) length_takeWhile_le nat_less_le set_takeWhileD takeWhile_eq_take take_all)
  with i nth_length_takeWhile [of "\<lambda>x. \<not> P x" xs] show ?thesis by simp
qed

lemma sender_nonce_unique:
  assumes "sender_ok b n m" and "t \<in> set (sm_transactions m)" and "u \<in> set (sm_transactions m)" and "tx_nonce t = tx_nonce u"
  shows "t = u"
proof -
  obtain i j where ij: "i < length (sm_transactions m)" "sm_transactions m ! i = t" "j < length (sm_transactions m)" "sm_transactions m ! j = u"
    using assms(2,3) by (meson in_set_conv_nth)
  then have "int (tx_nonce t) = n + int i" "int (tx_nonce u) = n + int j" using assms(1) unfolding sender_ok_def by blast+
  with ij assms(4) show ?thesis by simp
qed

lemma replaced_index:
  assumes "sender_ok b n m" and "affected = takeWhile (\<lambda>t. \<not> tx_nonce t < tx_nonce new) (getFromLatest m)" and "affected \<noteq> []"
    and "tx_nonce (last affected) = tx_nonce new"
  obtains i where "find_index (\<lambda>t. tx_nonce t = tx_nonce new) (sm_transactions m) = Some i" and "i < length (sm_transactions m)"
    and "sm_transactions m ! i = last affected"
proof -
  have same: "last affected \<in> set (sm_transactions m)"
    using last_in_set [OF assms(3)] assms(2) by (auto simp: getFromLatest_def dest: set_takeWhileD)
  then have "find_index (\<lambda>t. tx_nonce t = tx_nonce new) (sm_transactions m) \<noteq> None"
    using assms(4) by (auto simp: find_index_def)
  then obtain i where i: "find_index (\<lambda>t. tx_nonce t = tx_nonce new) (sm_transactions m) = Some i" by blast
  from find_index_nth [OF this] have "i < length (sm_transactions m)" "tx_nonce (sm_transactions m ! i) = tx_nonce new" by auto
  with that [OF i] sender_nonce_unique [OF assms(1) _ same] assms(4) show thesis by (metis nth_mem)
qed

lemma cost_update:
  assumes "i < length xs"
  shows "sum_list (map transaction_cost (xs[i := y])) = sum_list (map transaction_cost xs) + transaction_cost y - transaction_cost (xs ! i)"
proof -
  have "xs = take i xs @ xs ! i # drop (Suc i) xs" "xs[i := y] = take i xs @ y # drop (Suc i) xs"
    using assms by (simp_all add: id_take_nth_drop upd_conv_take_nth_drop)
  then have "sum_list (map transaction_cost xs) = sum_list (map transaction_cost (take i xs)) + transaction_cost (xs ! i) + sum_list (map transaction_cost (drop (Suc i) xs))"
    "sum_list (map transaction_cost (xs[i := y])) = sum_list (map transaction_cost (take i xs)) + transaction_cost y + sum_list (map transaction_cost (drop (Suc i) xs))"
    by (metis (no_types, lifting) add.assoc list.simps(9) map_append sum_list.Cons sum_list_append)+
  then show ?thesis by simp
qed

lemma replace_in_sender_cases:
  assumes "sender_ok b n m"
  obtains (unchanged) r where "replace_in_sender e new m = (r, m)" and "r = Inr [] \<or> (\<exists>err. r = Inl err)"
  | (swapped) i w where "i < length (sm_transactions m)" and "tx_nonce (sm_transactions m ! i) = tx_nonce new"
    and "tx_gasPrice (sm_transactions m ! i) < tx_gasPrice new"
    and "replace_in_state e (sm_transactions m ! i) new (wl_nonce (sm_wallet m)) (sm_wallet m) = Inr (True, w)"
    and "replace_in_sender e new m = (Inr [sm_transactions m ! i], m\<lparr>sm_wallet := w, sm_transactions := (sm_transactions m)[i := new]\<rparr>)"
  | (rebuilt) i failed m' where "i < length (sm_transactions m)" and "tx_nonce (sm_transactions m ! i) = tx_nonce new"
    and "tx_gasPrice (sm_transactions m ! i) < tx_gasPrice new"
    and "wl_balance (sm_wallet m) + transaction_cost (sm_transactions m ! i) < transaction_cost new"
    and "add_again e (new # drop (Suc i) (sm_transactions m)) (snd (cut_from i m)) = (failed, m')"
    and "replace_in_sender e new m = (Inr (sm_transactions m ! i # failed), m')"
proof -
  define affected where "affected = takeWhile (\<lambda>t. \<not> tx_nonce t < tx_nonce new) (getFromLatest m)"
  show thesis
  proof (cases "affected = [] \<or> tx_nonce (last affected) \<noteq> tx_nonce new \<or> tx_gasPrice new \<le> tx_gasPrice (last affected)")
    case True
    then have "\<exists>r. replace_in_sender e new m = (r, m) \<and> (r = Inr [] \<or> (\<exists>err. r = Inl err))"
      unfolding replace_in_sender_def Let_def affected_def [symmetric] by auto
    then show thesis using unchanged by blast
  next
    case False
    obtain i where i: "find_index (\<lambda>t. tx_nonce t = tx_nonce new) (sm_transactions m) = Some i" "i < length (sm_transactions m)"
      "sm_transactions m ! i = last affected"
      using replaced_index [OF assms affected_def] False by blast
    have r: "replace_in_sender e new m =
        (case replace_in_state e (sm_transactions m ! i) new (wl_nonce (sm_wallet m)) (sm_wallet m) of
           Inl err \<Rightarrow> (Inl err, m)
         | Inr (True, w) \<Rightarrow> (Inr [sm_transactions m ! i], m\<lparr>sm_wallet := w, sm_transactions := (sm_transactions m)[i := new]\<rparr>)
         | Inr (False, _) \<Rightarrow> (case cut_from i m of (removed, m1) \<Rightarrow>
             (case add_again e (new # tl (rev removed)) m1 of (failed, m2) \<Rightarrow> (Inr (sm_transactions m ! i # failed), m2))))"
    proof -
      have "last affected = sm_transactions m ! i" "the (find_index (\<lambda>t. tx_nonce t = tx_nonce new) (sm_transactions m)) = i"
        using i by simp_all
      note eqs = this
      show ?thesis using False unfolding replace_in_sender_def Let_def affected_def [symmetric] eqs by simp
    qed
    have tl: "tl (rev (fst (cut_from i m))) = drop (Suc i) (sm_transactions m)" by (simp add: drop_Suc tl_drop)
    show thesis
    proof (cases "replace_in_state e (sm_transactions m ! i) new (wl_nonce (sm_wallet m)) (sm_wallet m)")
      case (Inl err)
      with r show thesis by (intro unchanged [of "Inl err"]) auto
    next
      case (Inr p)
      obtain ok w where p: "p = (ok, w)" by (cases p)
      show thesis
      proof (cases ok)
        case True
        with Inr p r False i show thesis by (intro swapped [of i w]) simp_all
      next
        case not: False
        have poor: "wl_balance (sm_wallet m) + transaction_cost (sm_transactions m ! i) < transaction_cost new"
          using Inr p not False i(3) by (auto simp: replace_in_state_def Let_def split: if_splits option.splits)
        obtain failed m' where a: "add_again e (new # drop (Suc i) (sm_transactions m)) (snd (cut_from i m)) = (failed, m')" by fastforce
        have "replace_in_sender e new m = (Inr (sm_transactions m ! i # failed), m')"
          using r Inr p not a tl by (cases "cut_from i m") (auto simp del: add_again.simps)
        with poor a False i show thesis by (intro rebuilt [of i failed m']) simp_all
      qed
    qed
  qed
qed

lemma replace_in_sender_ok:
  assumes "sender_ok b n m" and "0 \<le> tx_value new"
  shows "sender_ok b n (snd (replace_in_sender e new m))"
  using assms(1)
proof (cases rule: replace_in_sender_cases [where e = e and new = new])
  case (swapped i w)
  from swapped(4) have w: "w = decreaseBalance (transaction_cost new) (increaseBalance (transaction_cost (sm_transactions m ! i)) (sm_wallet m))"
    "0 \<le> wl_balance (sm_wallet m) + transaction_cost (sm_transactions m ! i) - transaction_cost new"
    by (auto simp: replace_in_state_def Let_def split: if_splits option.splits)
  have "sum_list (map transaction_cost ((sm_transactions m)[i := new]))
      = sum_list (map transaction_cost (sm_transactions m)) + transaction_cost new - transaction_cost (sm_transactions m ! i)"
    by (rule cost_update [OF swapped(1)])
  with assms swapped(1,2,5) w show ?thesis
    by (auto simp: sender_ok_def nth_list_update decreaseBalance_def increaseBalance_def dest!: set_update_subset_insert [THEN subsetD])
next
  case (rebuilt i failed m')
  have "\<forall>t \<in> set (new # drop (Suc i) (sm_transactions m)). 0 \<le> tx_value t"
    using assms by (auto simp: sender_ok_def dest: in_set_dropD)
  from add_again_ok [OF cut_from_ok [OF assms(1)] this rebuilt(5)] rebuilt(6) show ?thesis by simp
qed (use assms in auto)

lemma replace_conserves:
  assumes "sender_ok b n m" and "replace_in_sender e new m = (Inr removed, m')" and "removed \<noteq> []"
  shows "mset (sm_transactions m') + mset removed = add_mset new (mset (sm_transactions m))"
  using assms(1)
proof (cases rule: replace_in_sender_cases [where e = e and new = new])
  case (swapped i w)
  with assms(2) show ?thesis by (auto simp: mset_update)
next
  case (rebuilt i failed m2)
  have "mset (sm_transactions m) = mset (take i (sm_transactions m)) + add_mset (sm_transactions m ! i) (mset (drop (Suc i) (sm_transactions m)))"
    using id_take_nth_drop [OF rebuilt(1)] by (metis mset.simps(2) mset_append)
  with add_again_conserves [OF rebuilt(5)] rebuilt(6) assms(2) show ?thesis by simp
qed (use assms(2,3) in auto)

lemma readd_in_sender_ok:
  assumes "pe_accountInfo e (wl_address (sm_wallet m)) (wl_legacyAddress (sm_wallet m)) = Inr info" and "0 \<le> ai_balance info"
    and "\<forall>t \<in> set (sm_transactions m). 0 \<le> tx_value t" and "readd_in_sender e m = (r, m')"
  shows "sender_ok (ai_balance info) (ai_nonce info) m' \<and> (\<exists>removed. r = Inr removed \<and> mset (sm_transactions m') + mset removed = mset (sm_transactions m))"
proof -
  obtain w where w: "init_wallet e (wl_address (sm_wallet m)) (wl_legacyAddress (sm_wallet m)) = Inr w" "wl_balance w = ai_balance info"
    "wl_nonce w = ai_nonce info" using assms(1) by (simp add: init_wallet_def)
  let ?m = "m\<lparr>sm_wallet := w, sm_transactions := []\<rparr>"
  obtain removed where r: "add_again e (sm_transactions m) ?m = (removed, m')" "r = Inr removed"
    using assms(4) w(1) by (auto simp: readd_in_sender_def split: prod.splits)
  have "sender_ok (ai_balance info) (ai_nonce info) ?m" using w assms(2) by (simp add: sender_ok_def)
  from add_again_ok [OF this assms(3) r(1)] add_again_conserves [OF r(1)] r(2) show ?thesis by simp
qed


lemma replaced_from:
  assumes "sender_ok b n m" and "i < length (sm_transactions m)" and "tx_nonce (sm_transactions m ! i) = tx_nonce new"
  shows "takeWhile (\<lambda>t. \<not> tx_nonce t < tx_nonce new) (getFromLatest m) = rev (drop i (sm_transactions m))"
proof -
  let ?txs = "sm_transactions m" and ?P = "\<lambda>t. \<not> tx_nonce t < tx_nonce new"
  have nonce: "int (tx_nonce (?txs ! j)) = n + int j" if "j < length ?txs" for j using assms(1) that by (simp add: sender_ok_def)
  have new: "int (tx_nonce new) = n + int i" using nonce [OF assms(2)] assms(3) by simp
  have high: "?P t" if "t \<in> set (drop i ?txs)" for t
  proof -
    from that obtain j where "j < length ?txs - i" "t = ?txs ! (i + j)" by (auto simp: in_set_conv_nth)
    moreover from this(1) have "int (tx_nonce (?txs ! (i + j))) = n + int (i + j)" by (intro nonce) simp
    ultimately show ?thesis using new by simp
  qed
  have low: "\<not> ?P t" if "t \<in> set (take i ?txs)" for t
  proof -
    from that obtain j where "j < i" "t = ?txs ! j" "j < length ?txs" by (auto simp: in_set_conv_nth)
    with nonce [of j] new show ?thesis by simp
  qed
  have "takeWhile ?P (rev (drop i ?txs) @ rev (take i ?txs)) = rev (drop i ?txs) @ takeWhile ?P (rev (take i ?txs))"
    using high by (intro takeWhile_append2) simp
  moreover have "takeWhile P ys = []" if "\<forall>y \<in> set ys. \<not> P y" for P :: "transaction \<Rightarrow> bool" and ys using that by (cases ys) auto
  from this [of "rev (take i ?txs)" ?P] have "takeWhile ?P (rev (take i ?txs)) = []" using low by simp
  moreover have "rev ?txs = rev (drop i ?txs) @ rev (take i ?txs)" by (metis append_take_drop_id rev_append)
  ultimately show ?thesis by (simp add: getFromLatest_def)
qed

lemma add_again_wrong_nonce:
  "\<forall>t \<in> set ts. int (tx_nonce t) \<noteq> wl_nonce (sm_wallet m) \<Longrightarrow> add_again e ts m = (ts, m)"
proof (induction ts)
  case (Cons t ts)
  then have "\<nexists>w. apply_transaction e t (sm_wallet m) = Inr w"
    using validate_accepts [of e "sm_wallet m" t 0 0] by (auto simp: apply_transaction_def split: option.splits)
  with add_to_sender_result [of e t m] Cons show ?case by auto
qed simp

section \<open>Overlapping operations\<close>

text \<open>\<open>validateTransaction\<close> up to its first \<open>await\<close>, and the rest of it.\<close>

definition validate_checks :: "pool_env \<Rightarrow> wallet \<Rightarrow> transaction \<Rightarrow> int \<Rightarrow> int \<Rightarrow> error option" where
  "validate_checks e w t nonceOffset refund =
     (if length (tx_serialized t) > pf_maxTransactionBytes (pe_config e) then Some (JsError ''TransactionExceedsMaximumByteSizeError'')
      else if tx_network t \<noteq> 0 \<and> tx_network t \<noteq> int (pf_chainId (pe_config e)) then Some (JsError ''TransactionFromWrongNetworkError'')
      else if wl_nonce w + nonceOffset \<noteq> int (tx_nonce t) then Some (JsError ''UnexpectedNonceError'')
      else if wl_balance w + refund - tx_value t - calculate (int (tx_gasPrice t)) (int (tx_gasLimit t)) < 0
        then Some (JsError ''InsufficientBalanceError'') else None)"

definition validate_awaits :: "pool_env \<Rightarrow> wallet \<Rightarrow> transaction \<Rightarrow> error option" where
  "validate_awaits e w t =
     (let second =
        (if hasLegacySecondPublicKey w
         then (case pe_verifySecondSignature e t (the (wl_secondPublicKey w)) of Inl err \<Rightarrow> Some err | Inr _ \<Rightarrow> None)
         else if tx_legacySecondSignature t \<noteq> None \<and> tx_legacySecondSignature t \<noteq> Some []
           then Some (JsError ''UnexpectedLegacySecondSignatureError'') else None)
      in if second \<noteq> None then second
         else if \<not> pe_preverify e t then Some (JsError ''TransactionFailedToPreverifyError'') else None)"

lemma validateTransaction_parts:
  "validateTransaction e w t off refund = (case validate_checks e w t off refund of Some err \<Rightarrow> Some err | None \<Rightarrow> validate_awaits e w t)"
  by (simp add: validateTransaction_def validate_checks_def validate_awaits_def)

text \<open>The parts of \<open>addTransaction\<close>: the checks, the change of the wallet, and the \<open>push\<close> after the \<open>await\<close> of \<open>apply\<close>.\<close>

definition add_begin :: "pool_env \<Rightarrow> transaction \<Rightarrow> sender_mempool \<Rightarrow> error option" where
  "add_begin e t m =
     (if length (sm_transactions m) \<ge> pf_maxTransactionsPerSender (pe_config e) \<and> tx_from t \<notin> set (pf_allowedSenders (pe_config e))
      then Some (JsError ''SenderExceededMaximumTransactionCountError'') else validate_checks e (sm_wallet m) t 0 0)"

definition add_apply :: "transaction \<Rightarrow> sender_mempool \<Rightarrow> sender_mempool" where
  "add_apply t m = m\<lparr>sm_wallet := decreaseBalance (transaction_cost t) (increaseNonce (sm_wallet m))\<rparr>"

definition add_push :: "transaction \<Rightarrow> sender_mempool \<Rightarrow> sender_mempool" where
  "add_push t m = m\<lparr>sm_transactions := sm_transactions m @ [t]\<rparr>"

lemma add_to_sender_parts:
  "add_to_sender e t m =
     (case add_begin e t m of
        Some err \<Rightarrow> Threw err m
      | None \<Rightarrow> (case validate_awaits e (sm_wallet m) t of Some err \<Rightarrow> Threw err m | None \<Rightarrow> Done (add_push t (add_apply t m))))"
  by (simp add: add_to_sender_eq apply_transaction_def validateTransaction_parts add_begin_def add_apply_def add_push_def split: option.split)

text \<open>The addition that holds the lock of the sender.\<close>

datatype flight = Validated transaction | Applied transaction

definition flight_applied :: "flight option \<Rightarrow> transaction list" where
  "flight_applied f = (case f of Some (Applied t) \<Rightarrow> [t] | _ \<Rightarrow> [])"

text \<open>\<open>b\<close> and \<open>n\<close> are balance and nonce of the account when the wallet was made, the flag tells that no removal took a transaction away
  during an addition since. \<open>reAddTransactions\<close> is a reset followed by additions. A replacement is one step, on a pool without a gap: its awaits, during which the code does not hold
  the lock of the sender, are not cut.\<close>

inductive sender_flow :: "int \<Rightarrow> int \<Rightarrow> bool \<Rightarrow> sender_mempool \<Rightarrow> flight option \<Rightarrow> bool" where
  configured: "configure_sender e address legacyAddress = Inr m \<Longrightarrow> pe_accountInfo e address legacyAddress = Inr info \<Longrightarrow> 0 \<le> ai_balance info \<Longrightarrow>
    sender_flow (ai_balance info) (ai_nonce info) True m None"
| begins: "sender_flow b n clean m None \<Longrightarrow> 0 \<le> tx_value t \<Longrightarrow> add_begin e t m = None \<Longrightarrow> sender_flow b n clean m (Some (Validated t))"
| refused: "sender_flow b n clean m (Some (Validated t)) \<Longrightarrow> sender_flow b n clean m None"
| applies: "sender_flow b n clean m (Some (Validated t)) \<Longrightarrow> sender_flow b n clean (add_apply t m) (Some (Applied t))"
| pushes: "sender_flow b n clean m (Some (Applied t)) \<Longrightarrow> sender_flow b n clean (add_push t m) None"
| removes: "sender_flow b n clean m f \<Longrightarrow> remove_from_sender hash m = (removed, m') \<Longrightarrow> sender_flow b n (clean \<and> (f = None \<or> removed = [])) m' f"
| replaces: "sender_flow b n True m None \<Longrightarrow> 0 \<le> tx_value t \<Longrightarrow> sender_flow b n True (snd (replace_in_sender e t m)) None"
| resets: "sender_flow b n clean m None \<Longrightarrow> pe_accountInfo e (wl_address (sm_wallet m)) (wl_legacyAddress (sm_wallet m)) = Inr info \<Longrightarrow> 0 \<le> ai_balance info \<Longrightarrow>
    init_wallet e (wl_address (sm_wallet m)) (wl_legacyAddress (sm_wallet m)) = Inr w \<Longrightarrow>
    sender_flow (ai_balance info) (ai_nonce info) True (m\<lparr>sm_wallet := w, sm_transactions := []\<rparr>) None"

text \<open>What holds through all overlaps: the accounts of the wallet. With no removal in between, all of \<open>sender_ok\<close>.\<close>

definition flow_ok :: "int \<Rightarrow> int \<Rightarrow> bool \<Rightarrow> sender_mempool \<Rightarrow> flight option \<Rightarrow> bool" where
  "flow_ok b n clean m f \<longleftrightarrow>
     wl_nonce (sm_wallet m) = n + int (length (sm_transactions m @ flight_applied f))
     \<and> wl_balance (sm_wallet m) = b - sum_list (map transaction_cost (sm_transactions m @ flight_applied f))
     \<and> 0 \<le> wl_balance (sm_wallet m) \<and> (\<forall>t \<in> set (sm_transactions m @ flight_applied f). 0 \<le> tx_value t)
     \<and> (\<forall>t. f = Some (Validated t) \<longrightarrow> 0 \<le> tx_value t \<and> transaction_cost t \<le> wl_balance (sm_wallet m) \<and> (clean \<longrightarrow> int (tx_nonce t) = wl_nonce (sm_wallet m)))
     \<and> (clean \<longrightarrow> (\<forall>i < length (sm_transactions m @ flight_applied f). int (tx_nonce ((sm_transactions m @ flight_applied f) ! i)) = n + int i))"

lemma flow_ok_idle: "flow_ok b n True m None \<longleftrightarrow> sender_ok b n m"
  by (auto simp: flow_ok_def sender_ok_def flight_applied_def)

lemma flow_ok_cut:
  assumes "flow_ok b n clean m f"
  shows "flow_ok b n (clean \<and> (f = None \<or> drop i (sm_transactions m) = [])) (snd (cut_from i m)) f"
proof -
  let ?txs = "sm_transactions m"
  have nonneg: "0 \<le> sum_list (map transaction_cost (drop i ?txs))"
    using assms by (intro sum_list_nonneg) (auto simp: flow_ok_def dest!: in_set_dropD intro: transaction_cost_nonneg)
  consider "drop i ?txs = []" | "f = None" | "drop i ?txs \<noteq> []" "f \<noteq> None" by blast
  then show ?thesis
  proof cases
    case 1
    then have same: "snd (cut_from i m) = m" by (simp add: cut_from_def)
    show ?thesis unfolding same using 1 assms by simp
  next
    case 2
    with assms nonneg cost_take_drop [of ?txs i] show ?thesis by (auto simp: flow_ok_def fold_revert sum_list_rev_cost flight_applied_def dest: in_set_takeD)
  next
    case 3
    with assms nonneg cost_take_drop [of ?txs i] show ?thesis
      by (auto simp: flow_ok_def fold_revert sum_list_rev_cost flight_applied_def dest: in_set_takeD split: flight.splits)
  qed
qed

lemma sender_flow_ok: "sender_flow b n clean m f \<Longrightarrow> flow_ok b n clean m f"
proof (induction rule: sender_flow.induct)
  case (configured e address legacyAddress m info)
  then show ?case by (auto simp: flow_ok_def configure_sender_def init_wallet_def flight_applied_def sum_bind_Inr_iff)
next
  case (begins b n clean m t e)
  have "int (tx_nonce t) = wl_nonce (sm_wallet m)" "transaction_cost t \<le> wl_balance (sm_wallet m)"
    using begins.hyps(3) by (auto simp: add_begin_def validate_checks_def transaction_cost_def split: if_splits)
  with begins show ?case by (simp add: flow_ok_def flight_applied_def)
next
  case (applies b n clean m t)
  then show ?case by (auto simp: flow_ok_def flight_applied_def add_apply_def decreaseBalance_def increaseNonce_def nth_append less_Suc_eq)
next
  case (removes b n clean m f hash removed m')
  show ?case
  proof (cases "find_index (\<lambda>t. tx_hash t = hash) (sm_transactions m)")
    case (Some i)
    with removes have "removed = rev (drop i (sm_transactions m))" "m' = snd (cut_from i m)"
      by (auto simp: remove_from_sender_def cut_from_def Let_def)
    with flow_ok_cut [OF removes.IH, of i] show ?thesis by simp
  qed (use removes in \<open>simp add: remove_from_sender_def\<close>)
next
  case (replaces b n m t e)
  then show ?case using replace_in_sender_ok unfolding flow_ok_idle by blast
next
  case (resets b n clean m e info w)
  then show ?case by (auto simp: flow_ok_def init_wallet_def flight_applied_def)
qed (simp_all add: flow_ok_def flight_applied_def add_push_def)

section \<open>Properties\<close>


text \<open>A replacement the sender cannot pay for is not refused: the call reports success, the transaction to be replaced
  and every transaction with a higher nonce leave the pool, and the new one does not enter it.\<close>

theorem unaffordable_replacement_drops_the_tail:
  assumes "sender_ok b n m" and "i < length (sm_transactions m)" and "tx_nonce (sm_transactions m ! i) = tx_nonce new"
    and "tx_gasPrice (sm_transactions m ! i) < tx_gasPrice new"
    and "b - sum_list (map transaction_cost (take i (sm_transactions m))) < transaction_cost new"
  shows "\<exists>removed m'. replace_in_sender e new m = (Inr removed, m') \<and> sm_transactions m' = take i (sm_transactions m)
    \<and> removed \<noteq> [] \<and> mset removed = add_mset new (mset (drop i (sm_transactions m)))"
proof -
  let ?txs = "sm_transactions m" and ?m1 = "snd (cut_from i m)"
  have nonce: "int (tx_nonce (?txs ! j)) = n + int j" if "j < length ?txs" for j using assms(1) that by (simp add: sender_ok_def)
  have ok1: "sender_ok b n ?m1" by (rule cut_from_ok [OF assms(1)])
  then have w1: "wl_nonce (sm_wallet ?m1) = n + int i" "wl_balance (sm_wallet ?m1) = b - sum_list (map transaction_cost (take i ?txs))"
    using assms(2) by (simp_all add: sender_ok_def)
  have rest: "add_again e (drop (Suc i) ?txs) ?m1 = (drop (Suc i) ?txs, ?m1)"
  proof (rule add_again_wrong_nonce, rule ballI)
    fix t assume "t \<in> set (drop (Suc i) ?txs)"
    then obtain j where "j < length ?txs - Suc i" "t = ?txs ! (Suc i + j)" by (auto simp: in_set_conv_nth)
    with nonce [of "Suc i + j"] show "int (tx_nonce t) \<noteq> wl_nonce (sm_wallet ?m1)" unfolding w1(1) by simp
  qed
  have "\<nexists>w. apply_transaction e new (sm_wallet ?m1) = Inr w"
    using validate_accepts [of e "sm_wallet ?m1" new 0 0] assms(5) unfolding apply_transaction_def w1(2) by (auto split: option.splits)
  with add_to_sender_result [of e new ?m1] obtain err where "add_to_sender e new ?m1 = Threw err ?m1" by blast
  with rest have failed: "add_again e (new # drop (Suc i) ?txs) ?m1 = (new # drop (Suc i) ?txs, ?m1)" by simp
  have last: "last (takeWhile (\<lambda>t. \<not> tx_nonce t < tx_nonce new) (getFromLatest m)) = ?txs ! i"
    unfolding replaced_from [OF assms(1-3)] using assms(2) by (simp add: last_rev hd_drop_conv_nth)
  have poor: "wl_balance (sm_wallet m) + transaction_cost (?txs ! i) < transaction_cost new"
  proof -
    have "0 \<le> sum_list (map transaction_cost (drop (Suc i) ?txs))"
      using assms(1) by (intro sum_list_nonneg) (auto simp: sender_ok_def dest!: in_set_dropD intro: transaction_cost_nonneg)
    moreover have "wl_balance (sm_wallet m) = b - sum_list (map transaction_cost ?txs)" using assms(1) by (simp add: sender_ok_def)
    ultimately show ?thesis
      using assms(5) cost_take_drop [of ?txs i] Cons_nth_drop_Suc [OF assms(2), symmetric] by simp
  qed
  have "replace_in_sender e new m = (Inr (?txs ! i # new # drop (Suc i) ?txs), ?m1)"
    using assms(1)
  proof (cases rule: replace_in_sender_cases [where e = e and new = new])
    case (unchanged r)
    have "takeWhile (\<lambda>t. \<not> tx_nonce t < tx_nonce new) (getFromLatest m) \<noteq> []"
      unfolding replaced_from [OF assms(1-3)] using assms(2) by simp
    with unchanged last assms(3,4) poor show ?thesis
      by (auto simp: replace_in_sender_def replace_in_state_def Let_def simp del: add_again.simps split: prod.splits)
  next
    case (swapped j w)
    with sender_nonce_unique [OF assms(1)] assms(2,3) have "?txs ! j = ?txs ! i" by (metis nth_mem)
    with swapped(4) poor show ?thesis by (simp add: replace_in_state_def Let_def split: if_splits)
  next
    case (rebuilt j f m')
    have "j = i" using nonce [OF rebuilt(1)] nonce [OF assms(2)] rebuilt(2) assms(3) by simp
    with rebuilt(5,6) failed show ?thesis by simp
  qed
  moreover have "mset (?txs ! i # new # drop (Suc i) ?txs) = add_mset new (mset (drop i ?txs))"
    using Cons_nth_drop_Suc [OF assms(2), symmetric] by simp
  ultimately show ?thesis by (intro exI [of _ "?txs ! i # new # drop (Suc i) ?txs"] exI [of _ ?m1]) simp
qed

section \<open>A sample sender\<close>

definition sample_pool_tx :: "nat \<Rightarrow> nat \<Rightarrow> int \<Rightarrow> string \<Rightarrow> transaction" where
  "sample_pool_tx nonce gasPrice amount hash = \<lparr>tx_network = 1, tx_to = None, tx_value = amount, tx_gasPrice = gasPrice, tx_gasLimit = 10,
     tx_nonce = nonce, tx_data = [], tx_v = 0, tx_r = [], tx_s = [], tx_legacySecondSignature = None, tx_hash = hash, tx_from = ''alice'',
     tx_senderPublicKey = ''alicekey'', tx_senderLegacyAddress = [], tx_serialized = [1, 2, 3]\<rparr>"

definition sample_pool_env :: pool_env where
  "sample_pool_env = \<lparr>pe_config = \<lparr>pf_maxTransactionBytes = 1000, pf_chainId = 1, pf_maxTransactionsPerSender = 3, pf_allowedSenders = [],
       pf_maxTransactionsInPool = 2, pf_maxTransactionAge = 10, pf_maxTransactionsPerRequest = 5,
       pf_rebroadcastThreshold = 60, pf_rebroadcastCooldownBlocks = 3\<rparr>,
     pe_accountInfo = (\<lambda>_ _. Inr \<lparr>ai_balance = 100, ai_nonce = 5, ai_secondPublicKey = None\<rparr>), pe_verifySecondSignature = (\<lambda>_ _. Inr True),
     pe_preverify = (\<lambda>_. True), pe_addressFromPublicKey = (\<lambda>_. Inr ''alice''), pe_fromBytes = (\<lambda>_. Inl TypeError), pe_blockNumber = 20,
     pe_maxGasLimit = 1000, pe_randomNumber = (\<lambda>low high. low)\<rparr>"

definition sample_sender :: sender_mempool where
  "sample_sender = \<lparr>sm_wallet = \<lparr>wl_address = ''alice'', wl_legacyAddress = None, wl_balance = 60, wl_nonce = 7, wl_secondPublicKey = None\<rparr>,
     sm_concurrency = 0, sm_transactions = [sample_pool_tx 5 1 10 ''a'', sample_pool_tx 6 1 10 ''b'']\<rparr>"

lemma sample_sender_ok: "sender_ok 100 5 sample_sender"
  by (simp add: sender_ok_def sample_sender_def sample_pool_tx_def transaction_cost_def calculate_def less_Suc_eq)

text \<open>A sender with the account 100 and nonce 5 adds a transaction, begins to add the next one, and loses the first while that one is
  being verified.\<close>

definition fresh_sender :: sender_mempool where
  "fresh_sender = \<lparr>sm_wallet = \<lparr>wl_address = ''alice'', wl_legacyAddress = None, wl_balance = 100, wl_nonce = 5, wl_secondPublicKey = None\<rparr>,
     sm_concurrency = 0, sm_transactions = []\<rparr>"

definition one_added :: sender_mempool where
  "one_added = add_push (sample_pool_tx 5 1 10 ''a'') (add_apply (sample_pool_tx 5 1 10 ''a'') fresh_sender)"

lemma sample_adds: "add_begin sample_pool_env (sample_pool_tx 5 1 10 ''a'') fresh_sender = None" "add_begin sample_pool_env (sample_pool_tx 6 1 10 ''b'') one_added = None"
  by code_simp+

lemma one_added_flow: "sender_flow 100 5 True one_added None"
proof -
  have "configure_sender sample_pool_env ''alice'' None = Inr fresh_sender"
    "pe_accountInfo sample_pool_env ''alice'' None = Inr \<lparr>ai_balance = 100, ai_nonce = 5, ai_secondPublicKey = None\<rparr>" by code_simp+
  from sender_flow.configured [OF this] have "sender_flow 100 5 True fresh_sender None" by simp
  from sender_flow.pushes [OF sender_flow.applies [OF sender_flow.begins [OF this _ sample_adds(1)]]] show ?thesis
    by (simp add: one_added_def sample_pool_tx_def)
qed

lemma second_under_way: "sender_flow 100 5 True one_added (Some (Validated (sample_pool_tx 6 1 10 ''b'')))"
  by (rule sender_flow.begins [OF one_added_flow _ sample_adds(2)]) (simp add: sample_pool_tx_def)

text \<open>A removal during an addition leaves a gap: the transaction that was being verified is put behind it.\<close>

theorem removal_during_addition_leaves_a_gap:
  "\<exists>m. sender_flow 100 5 False m None \<and> sm_transactions m = [sample_pool_tx 6 1 10 ''b''] \<and> wl_nonce (sm_wallet m) = 6 \<and> \<not> sender_ok 100 5 m"
proof -
  let ?b = "sample_pool_tx 6 1 10 ''b''"
  have r: "remove_from_sender ''a'' one_added = ([sample_pool_tx 5 1 10 ''a''], fresh_sender)" by code_simp
  from sender_flow.pushes [OF sender_flow.applies, of 100 5 False fresh_sender ?b] sender_flow.removes [OF second_under_way r]
  have "sender_flow 100 5 False (add_push ?b (add_apply ?b fresh_sender)) None" by simp
  moreover have "sm_transactions (add_push ?b (add_apply ?b fresh_sender)) = [?b]" "wl_nonce (sm_wallet (add_push ?b (add_apply ?b fresh_sender))) = 6"
    by (simp_all add: add_push_def add_apply_def fresh_sender_def decreaseBalance_def increaseNonce_def)
  moreover have "tx_nonce ?b = 6" by (simp add: sample_pool_tx_def)
  ultimately show ?thesis by (intro exI [of _ "add_push ?b (add_apply ?b fresh_sender)"]) (simp add: sender_ok_def)
qed


theorem unaffordable_replacement_drops_the_tail_witness:
  "\<exists>removed m'. replace_in_sender sample_pool_env (sample_pool_tx 5 2 200 ''d'') sample_sender = (Inr removed, m')
     \<and> sm_transactions m' = [] \<and> length removed = 3"
proof -
  have "\<exists>removed m'. replace_in_sender sample_pool_env (sample_pool_tx 5 2 200 ''d'') sample_sender = (Inr removed, m')
      \<and> sm_transactions m' = take 0 (sm_transactions sample_sender) \<and> removed \<noteq> []
      \<and> mset removed = add_mset (sample_pool_tx 5 2 200 ''d'') (mset (drop 0 (sm_transactions sample_sender)))"
    by (rule unaffordable_replacement_drops_the_tail [OF sample_sender_ok])
      (simp_all add: sample_sender_def sample_pool_tx_def transaction_cost_def calculate_def)
  then show ?thesis by (auto simp: sample_sender_def dest!: arg_cong [of "mset _" _ size])
qed

end
