(* ===== verification/Pool_Query.thy ===== *)
theory Pool_Query
  imports Pool_Sender Wire_Serializer
begin

text \<open>
  Which transactions the pool offers first: \<open>query.ts\<close> and \<open>selector.ts\<close> of
  \<open>packages/transaction-pool-service/source\<close>, over the map of sender pools of \<open>mempool.ts\<close>.

  \<open>Array.sort\<close> with the difference of two gas prices is the stable \<open>sort_key\<close>. A query without
  predicates returns its transactions.

  The selection is a merge of the senders' lists: every sender's transactions come in the order of its
  list, and each pick is the best of the transactions that are next for their sender.
\<close>

section \<open>Query\<close>

type_synonym mempool = "(string, sender_mempool) jsmap"

definition mempool_size :: "mempool \<Rightarrow> nat" where
  "mempool_size mp = sum_list (map (\<lambda>(_, m). length (sm_transactions m)) mp)"

definition getAll :: "mempool \<Rightarrow> transaction list" where
  "getAll mp = concat (map (\<lambda>(_, m). getFromLatest m) mp)"

definition getAllBySender :: "string \<Rightarrow> mempool \<Rightarrow> transaction list" where
  "getAllBySender address mp = (case map_get mp address of None \<Rightarrow> [] | Some m \<Rightarrow> getFromEarliest m)"

type_synonym by_sender = "(string, transaction list) jsmap"

definition group_by_sender :: "(sender_mempool \<Rightarrow> transaction list) \<Rightarrow> mempool \<Rightarrow> by_sender" where
  "group_by_sender selector mp =
     fold (\<lambda>(_, m) acc. let transactions = selector m
       in if transactions = [] then acc else map_set acc (tx_from (hd transactions)) transactions) mp []"

definition by_sender_size :: "by_sender \<Rightarrow> nat" where
  "by_sender_size bySender = sum_list (map (\<lambda>(_, ts). length ts) bySender)"

lemma by_sender_size_set:
  "map_get bySender k = Some ts \<Longrightarrow> by_sender_size (map_set bySender k us) + length ts = by_sender_size bySender + length us"
  by (induction bySender) (auto simp: by_sender_size_def map_get_def map_set_def split: if_splits)

text \<open>The loop over the priority queue. The transactions of a sender that is not in the map would be \<open>undefined\<close>.\<close>

function select_loop :: "(transaction \<Rightarrow> int) \<Rightarrow> by_sender \<Rightarrow> transaction list \<Rightarrow> error + transaction list" where
  "select_loop priority bySender [] = Inr []"
| "select_loop priority bySender (t # queue) =
     (case map_get bySender (tx_from t) of
        None \<Rightarrow> Inl TypeError
      | Some ts \<Rightarrow>
          let ts' = tl ts;
              queue' = sort_key priority (if ts' \<noteq> [] then queue @ [hd ts'] else queue)
          in sum_bind (select_loop priority (map_set bySender (tx_from t) ts') queue') (\<lambda>selected. Inr (t # selected)))"
  by pat_completeness auto
termination
proof (relation "measure (\<lambda>(priority, bySender, queue). by_sender_size bySender + length queue)")
  fix priority :: "transaction \<Rightarrow> int" and bySender and t :: transaction and queue ts ts' queue'
  assume "map_get bySender (tx_from t) = Some ts" "ts' = tl ts" "queue' = sort_key priority (if ts' \<noteq> [] then queue @ [hd ts'] else queue)"
  with by_sender_size_set [of bySender "tx_from t" ts ts']
  show "((priority, map_set bySender (tx_from t) ts', queue'), (priority, bySender, t # queue)) \<in> measure (\<lambda>(priority, bySender, queue). by_sender_size bySender + length queue)"
    by (cases ts) auto
qed simp

definition select_transactions :: "(sender_mempool \<Rightarrow> transaction list) \<Rightarrow> (transaction \<Rightarrow> int) \<Rightarrow> mempool \<Rightarrow> error + transaction list" where
  "select_transactions selector priority mp =
     (let bySender = group_by_sender selector mp
      in select_loop priority bySender (sort_key priority (map (\<lambda>(_, ts). hd ts) bySender)))"

definition sortByHighestGasPrice :: "transaction \<Rightarrow> int" where
  "sortByHighestGasPrice t = - int (tx_gasPrice t)"

definition sortByLowestGasPrice :: "transaction \<Rightarrow> int" where
  "sortByLowestGasPrice t = int (tx_gasPrice t)"

definition getFromLowestPriority :: "mempool \<Rightarrow> error + transaction list" where
  "getFromLowestPriority mp = select_transactions getFromLatest sortByLowestGasPrice mp"

definition getFromHighestPriority :: "mempool \<Rightarrow> error + transaction list" where
  "getFromHighestPriority mp = select_transactions getFromEarliest sortByHighestGasPrice mp"

definition query_first :: "transaction list \<Rightarrow> error + transaction" where
  "query_first ts = (case ts of [] \<Rightarrow> Inl (JsError ''Transaction not found'') | t # _ \<Rightarrow> Inr t)"

section \<open>Selector\<close>

record selector =
  se_transactions :: "transaction list"
  se_currentBlockRound :: string
  se_index :: nat

definition clear_selector :: selector where
  "clear_selector = \<lparr>se_transactions = [], se_currentBlockRound = [], se_index = 0\<rparr>"

definition prepare :: "mempool \<Rightarrow> string \<Rightarrow> selector \<Rightarrow> selector outcome" where
  "prepare mp blockRound s =
     (if se_currentBlockRound s = blockRound then Done s
      else let s1 = s\<lparr>se_currentBlockRound := blockRound, se_index := 0\<rparr>
        in case getFromHighestPriority mp of Inl err \<Rightarrow> Threw err s1 | Inr ts \<Rightarrow> Done (s1\<lparr>se_transactions := ts\<rparr>))"

fun batch_loop :: "transaction list \<Rightarrow> int \<Rightarrow> nat \<Rightarrow> nat \<Rightarrow> transaction list" where
  "batch_loop [] bytesLeft maxSize taken = []"
| "batch_loop (t # ts) bytesLeft maxSize taken =
     (if bytesLeft - 4 - int (length (tx_serialized t)) < 0 then []
      else if taken + 1 \<ge> maxSize then [t]
      else t # batch_loop ts (bytesLeft - 4 - int (length (tx_serialized t))) maxSize (taken + 1))"

text \<open>\<open>getBatch\<close>: the number of remaining transactions and the batch.\<close>

definition getBatch :: "mempool \<Rightarrow> string \<Rightarrow> nat \<Rightarrow> nat \<Rightarrow> selector \<Rightarrow> (error + nat \<times> transaction list) \<times> selector" where
  "getBatch mp blockRound maxBytes maxSize s =
     (case prepare mp blockRound s of
        Threw err s1 \<Rightarrow> (Inl err, s1)
      | Done s1 \<Rightarrow>
          let transactions = batch_loop (drop (se_index s1) (se_transactions s1)) (int maxBytes) maxSize 0;
              s2 = s1\<lparr>se_index := se_index s1 + length transactions\<rparr>
          in (Inr (length (se_transactions s2) - se_index s2, transactions), s2))"

section \<open>The selection is a merge\<close>

abbreviation of_sender :: "string \<Rightarrow> transaction list \<Rightarrow> transaction list" where
  "of_sender k ts \<equiv> filter (\<lambda>t. tx_from t = k) ts"

text \<open>Each transaction is at least as good as the one that is next for any sender.\<close>

definition by_priority :: "(transaction \<Rightarrow> int) \<Rightarrow> transaction list \<Rightarrow> bool" where
  "by_priority priority out \<longleftrightarrow>
     (\<forall>pre t post k u us. out = pre @ t # post \<longrightarrow> of_sender k (t # post) = u # us \<longrightarrow> priority t \<le> priority u)"

lemma by_priority_Nil [simp]: "by_priority priority []"
  by (simp add: by_priority_def)

lemma by_priority_Cons:
  "by_priority priority (t # out) \<longleftrightarrow> (\<forall>k u us. of_sender k (t # out) = u # us \<longrightarrow> priority t \<le> priority u) \<and> by_priority priority out"
  (is "?l \<longleftrightarrow> ?r")
proof
  assume l: ?l
  then have "\<forall>k u us. of_sender k (t # out) = u # us \<longrightarrow> priority t \<le> priority u" unfolding by_priority_def by (metis append_Nil)
  moreover have "by_priority priority out" using l unfolding by_priority_def by (metis append_Cons)
  ultimately show ?r by blast
next
  assume r: ?r
  show ?l
    unfolding by_priority_def
  proof (intro allI impI)
    fix pre x post k u us assume e: "t # out = pre @ x # post" and u: "of_sender k (x # post) = u # us"
    show "priority x \<le> priority u"
    proof (cases pre)
      case Nil
      with e have "x = t" "post = out" by simp_all
      with r u show ?thesis by blast
    next
      case (Cons p pre')
      with e have "out = pre' @ x # post" by simp
      with r u show ?thesis unfolding by_priority_def by blast
    qed
  qed
qed

definition by_sender_ok :: "by_sender \<Rightarrow> bool" where
  "by_sender_ok bySender \<longleftrightarrow> map_ok bySender \<and> (\<forall>k ts. map_get bySender k = Some ts \<longrightarrow> (\<forall>t \<in> set ts. tx_from t = k))"

definition rest_of :: "by_sender \<Rightarrow> string \<Rightarrow> transaction list" where
  "rest_of bySender k = (case map_get bySender k of None \<Rightarrow> [] | Some ts \<Rightarrow> ts)"

text \<open>The queue holds the next transaction of every sender that has one.\<close>

definition queue_ok :: "(transaction \<Rightarrow> int) \<Rightarrow> by_sender \<Rightarrow> transaction list \<Rightarrow> bool" where
  "queue_ok priority bySender queue \<longleftrightarrow> sorted (map priority queue) \<and> distinct (map tx_from queue)
     \<and> (\<forall>t. t \<in> set queue \<longleftrightarrow> (\<exists>us. rest_of bySender (tx_from t) = t # us))"

lemma rest_of_set [simp]: "rest_of (map_set bySender k ts) k' = (if k' = k then ts else rest_of bySender k')"
  by (simp add: rest_of_def jsmap_simps)

lemma by_sender_ok_set:
  assumes "by_sender_ok bySender" and "\<forall>t \<in> set ts. tx_from t = k"
  shows "by_sender_ok (map_set bySender k ts)"
  using assms by (auto simp: by_sender_ok_def map_ok_set jsmap_simps split: if_splits)

lemma rest_from: "by_sender_ok bySender \<Longrightarrow> t \<in> set (rest_of bySender k) \<Longrightarrow> tx_from t = k"
  by (cases "map_get bySender k") (auto simp: by_sender_ok_def rest_of_def)

lemma distinct_map_sort_key: "distinct (map f (sort_key p xs)) = distinct (map f xs)"
  by (metis mset_eq_imp_distinct_iff mset_map mset_sort)

lemma queue_next:
  assumes "by_sender_ok bySender" and "queue_ok priority bySender (t # queue)" and "rest_of bySender (tx_from t) = t # us"
  shows "queue_ok priority (map_set bySender (tx_from t) us) (sort_key priority (if us \<noteq> [] then queue @ [hd us] else queue))"
proof -
  have us: "tx_from u = tx_from t" if "u \<in> set us" for u using rest_from [OF assms(1)] assms(3) that by (metis list.set_intros(2))
  have q: "distinct (map tx_from queue)" "tx_from t \<notin> tx_from ` set queue"
    using assms(2) by (simp_all add: queue_ok_def)
  have q3: "x \<in> set (t # queue) \<longleftrightarrow> (\<exists>us. rest_of bySender (tx_from x) = x # us)" for x
    using assms(2) unfolding queue_ok_def by blast
  have "distinct (map tx_from (sort_key priority (if us \<noteq> [] then queue @ [hd us] else queue)))"
    using q us by (cases us) (simp_all add: distinct_map_sort_key)
  moreover have "x \<in> set (sort_key priority (if us \<noteq> [] then queue @ [hd us] else queue)) \<longleftrightarrow>
      (\<exists>vs. rest_of (map_set bySender (tx_from t) us) (tx_from x) = x # vs)" for x
  proof (cases "tx_from x = tx_from t")
    case True
    with q(2) have "x \<notin> set queue" by (metis image_eqI)
    with True us show ?thesis by (cases us) auto
  next
    case False
    then have "x \<noteq> t" by auto
    with False q3 [of x] us show ?thesis by (cases us) auto
  qed
  ultimately show ?thesis by (simp add: queue_ok_def)
qed

lemma select_loop_merges:
  assumes "by_sender_ok bySender" and "queue_ok priority bySender queue"
  shows "\<exists>out. select_loop priority bySender queue = Inr out \<and> (\<forall>k. of_sender k out = rest_of bySender k) \<and> by_priority priority out"
  using assms
proof (induction priority bySender queue rule: select_loop.induct)
  case (1 priority bySender)
  have "rest_of bySender k = []" for k
  proof (cases "rest_of bySender k")
    case (Cons t us)
    with rest_from [OF 1(1), of t k] 1(2) show ?thesis by (auto simp: queue_ok_def)
  qed
  then show ?case by simp
next
  case (2 priority bySender t queue)
  from 2(3) obtain us where us: "rest_of bySender (tx_from t) = t # us" unfolding queue_ok_def by (metis list.set_intros(1))
  then have get: "map_get bySender (tx_from t) = Some (t # us)" by (simp add: rest_of_def split: option.splits)
  have "\<forall>u \<in> set us. tx_from u = tx_from t" using rest_from [OF 2(2)] us by (metis list.set_intros(2))
  note IH = 2(1) [OF get refl refl, simplified list.sel, OF by_sender_ok_set [OF 2(2) this] queue_next [OF 2(2,3) us]]
  then obtain out where out: "select_loop priority (map_set bySender (tx_from t) us) (sort_key priority (if us \<noteq> [] then queue @ [hd us] else queue)) = Inr out"
    "\<forall>k. of_sender k out = rest_of (map_set bySender (tx_from t) us) k" "by_priority priority out" by blast
  have rest: "of_sender k (t # out) = rest_of bySender k" for k using out(2) us by auto
  have "priority t \<le> priority u" if "of_sender k (t # out) = u # vs" for k u vs
  proof -
    have r: "rest_of bySender k = u # vs" using rest that by simp
    then have "tx_from u = k" using rest_from [OF 2(2), of u k] by simp
    with r 2(3) have "u \<in> set (t # queue)" unfolding queue_ok_def by blast
    with 2(3) show ?thesis by (auto simp: queue_ok_def)
  qed
  with out(3) have "by_priority priority (t # out)" by (simp add: by_priority_Cons)
  with out(1) rest get show ?case by simp
qed

section \<open>The pool of all senders\<close>

text \<open>The transactions are kept under their sender.\<close>

definition mempool_ok :: "mempool \<Rightarrow> bool" where
  "mempool_ok mp \<longleftrightarrow> map_ok mp \<and> (\<forall>(k, m) \<in> set mp. \<forall>t \<in> set (sm_transactions m). tx_from t = k)"

definition transactions_of :: "mempool \<Rightarrow> string \<Rightarrow> transaction list" where
  "transactions_of mp k = (case map_get mp k of None \<Rightarrow> [] | Some m \<Rightarrow> sm_transactions m)"

lemma transactions_of_Cons:
  "transactions_of ((k', m) # mp) k = (if k = k' then sm_transactions m else transactions_of mp k)"
  by (simp add: transactions_of_def map_get_def)

lemma first_queue_ok:
  assumes "by_sender_ok bySender" and "\<And>k. map_get bySender k \<noteq> Some []"
  shows "queue_ok priority bySender (sort_key priority (map (\<lambda>(_, ts). hd ts) bySender))"
proof -
  have e: "ts \<noteq> [] \<and> tx_from (hd ts) = k \<and> rest_of bySender k = ts" if "(k, ts) \<in> set bySender" for k ts
  proof -
    have g: "map_get bySender k = Some ts" using that assms(1) by (simp add: by_sender_ok_def map_ok_get)
    with assms(2) [of k] have "ts \<noteq> []" by auto
    with g assms(1) show ?thesis by (auto simp: by_sender_ok_def rest_of_def)
  qed
  have "map (tx_from \<circ> (\<lambda>(_, ts). hd ts)) bySender = map fst bySender" using e by (intro map_cong) auto
  then have "map tx_from (map (\<lambda>(_, ts). hd ts) bySender) = map fst bySender" by (simp only: map_map)
  then have "distinct (map tx_from (map (\<lambda>(_, ts). hd ts) bySender))"
    using assms(1) by (simp only: by_sender_ok_def map_ok_def)
  moreover have "t \<in> (\<lambda>(_, ts). hd ts) ` set bySender \<longleftrightarrow> (\<exists>us. rest_of bySender (tx_from t) = t # us)" for t
  proof
    assume "t \<in> (\<lambda>(_, ts). hd ts) ` set bySender"
    then obtain k ts where "(k, ts) \<in> set bySender" "t = hd ts" by auto
    with e [of k ts] show "\<exists>us. rest_of bySender (tx_from t) = t # us" by (cases ts) auto
  next
    assume "\<exists>us. rest_of bySender (tx_from t) = t # us"
    then obtain us where "map_get bySender (tx_from t) = Some (t # us)" by (auto simp: rest_of_def split: option.splits)
    then show "t \<in> (\<lambda>(_, ts). hd ts) ` set bySender" by (force dest: map_get_in_set)
  qed
  ultimately show ?thesis by (simp add: queue_ok_def distinct_map_sort_key)
qed

text \<open>A selector of \<open>query.ts\<close> lists the transactions of a sender in some order: \<open>f\<close> is the order.\<close>

locale transaction_selector =
  fixes selector :: "sender_mempool \<Rightarrow> transaction list" and f :: "transaction list \<Rightarrow> transaction list"
  assumes selector_order: "selector m = f (sm_transactions m)"
    and order_members: "set (f ts) = set ts"
begin

lemma order_Nil: "f [] = []"
  using order_members [of "[]"] by simp

lemma group_fold:
  assumes "mempool_ok mp" and "\<forall>k \<in> fst ` set mp. map_get acc k = None" and "by_sender_ok acc"
    and "\<forall>k. map_get acc k \<noteq> Some []"
  shows "let r = fold (\<lambda>(_, m) acc. let transactions = selector m
       in if transactions = [] then acc else map_set acc (tx_from (hd transactions)) transactions) mp acc
    in by_sender_ok r \<and> (\<forall>k. map_get r k \<noteq> Some []) \<and> (\<forall>k. rest_of r k = (if k \<in> fst ` set mp then f (transactions_of mp k) else rest_of acc k))"
  using assms
proof (induction mp arbitrary: acc)
  case (Cons p mp)
  obtain k m where p: "p = (k, m)" by (cases p)
  have mp: "mempool_ok mp" "k \<notin> fst ` set mp" "\<forall>t \<in> set (sm_transactions m). tx_from t = k"
    using Cons.prems(1) by (auto simp: mempool_ok_def map_ok_def p)
  note sel = selector_order [of m] order_members order_Nil
  show ?case
  proof (cases "f (sm_transactions m) = []")
    case True
    have "rest_of acc k = []" using Cons.prems(2) by (simp add: rest_of_def p)
    with Cons.IH [OF mp(1) _ Cons.prems(3,4)] Cons.prems(2) True mp(2) sel(1) show ?thesis
      by (auto simp: p transactions_of_Cons Let_def)
  next
    case False
    then have h: "tx_from (hd (f (sm_transactions m))) = k" using mp(3) sel(2) by (metis hd_in_set)
    let ?acc = "map_set acc k (f (sm_transactions m))"
    have "by_sender_ok ?acc" by (rule by_sender_ok_set [OF Cons.prems(3)]) (use mp(3) sel(2) in auto)
    moreover have "\<forall>k' \<in> fst ` set mp. map_get ?acc k' = None" using Cons.prems(2) mp(2) by (auto simp: jsmap_simps p)
    moreover have "\<forall>k'. map_get ?acc k' \<noteq> Some []" using Cons.prems(4) False by (auto simp: jsmap_simps)
    ultimately show ?thesis using Cons.IH [OF mp(1), of ?acc] False h mp(2) sel(1) by (auto simp: p transactions_of_Cons Let_def)
  qed
qed simp

lemma group_by_sender_ok:
  assumes "mempool_ok mp"
  shows "by_sender_ok (group_by_sender selector mp)" and "map_get (group_by_sender selector mp) k \<noteq> Some []"
    and "rest_of (group_by_sender selector mp) k = f (transactions_of mp k)"
proof -
  have n: "transactions_of mp k = []" if "k \<notin> fst ` set mp"
    using that by (force simp: transactions_of_def split: option.splits dest: map_get_in_set)
  with group_fold [OF assms, of "[]"] order_Nil
  show "by_sender_ok (group_by_sender selector mp)" "map_get (group_by_sender selector mp) k \<noteq> Some []"
    "rest_of (group_by_sender selector mp) k = f (transactions_of mp k)"
    by (auto simp: group_by_sender_def by_sender_ok_def rest_of_def Let_def)
qed

lemma select_transactions_merges:
  assumes "mempool_ok mp"
  obtains out where "select_transactions selector priority mp = Inr out" "\<And>k. of_sender k out = f (transactions_of mp k)" "by_priority priority out"
  using select_loop_merges [OF group_by_sender_ok(1) [OF assms] first_queue_ok [OF group_by_sender_ok(1,2) [OF assms]], of priority]
    group_by_sender_ok(3) [OF assms] by (auto simp: select_transactions_def Let_def)

end

interpretation earliest: transaction_selector getFromEarliest "\<lambda>ts. ts"
  by unfold_locales (simp_all add: getFromEarliest_def)

interpretation latest: transaction_selector getFromLatest rev
  by unfold_locales (simp_all add: getFromLatest_def)

text \<open>C24 (functional). The transactions for a block are those of the pool, every sender's in the order of their nonces, and each one has
  at least the gas price of every other sender's next transaction; from the lowest priority the same holds
  from the latest nonce and the lowest gas price.\<close>

theorem priority_order:
  assumes "mempool_ok mp"
  shows "\<exists>out. getFromHighestPriority mp = Inr out
      \<and> (\<forall>k. of_sender k out = getAllBySender k mp)
      \<and> (\<forall>pre t post k u us. out = pre @ t # post \<longrightarrow> of_sender k (t # post) = u # us \<longrightarrow> tx_gasPrice u \<le> tx_gasPrice t)
    \<and> (\<exists>out. getFromLowestPriority mp = Inr out
      \<and> (\<forall>k. of_sender k out = rev (getAllBySender k mp))
      \<and> (\<forall>pre t post k u us. out = pre @ t # post \<longrightarrow> of_sender k (t # post) = u # us \<longrightarrow> tx_gasPrice t \<le> tx_gasPrice u))"
proof -
  have all: "transactions_of mp k = getAllBySender k mp" for k
    by (simp add: transactions_of_def getAllBySender_def getFromEarliest_def split: option.splits)
  obtain high where "getFromHighestPriority mp = Inr high" "\<And>k. of_sender k high = getAllBySender k mp" "by_priority sortByHighestGasPrice high"
    by (rule earliest.select_transactions_merges [OF assms]) (auto simp: all getFromHighestPriority_def)
  moreover obtain low where "getFromLowestPriority mp = Inr low" "\<And>k. of_sender k low = rev (getAllBySender k mp)" "by_priority sortByLowestGasPrice low"
    by (rule latest.select_transactions_merges [OF assms]) (auto simp: all getFromLowestPriority_def)
  ultimately show ?thesis unfolding by_priority_def sortByHighestGasPrice_def sortByLowestGasPrice_def
    by (metis neg_le_iff_le of_nat_le_iff)
qed

section \<open>Batches\<close>

lemma batch_loop_prefix: "batch_loop ts bytesLeft maxSize n = take (length (batch_loop ts bytesLeft maxSize n)) ts"
  by (induction ts bytesLeft maxSize n rule: batch_loop.induct) (simp_all add: Let_def)

lemma batch_loop_bytes:
  "0 \<le> bytesLeft \<Longrightarrow> int (length (transactions_enc (map tx_serialized (batch_loop ts bytesLeft maxSize n)))) \<le> bytesLeft"
  by (induction ts bytesLeft maxSize n rule: batch_loop.induct) auto

lemma batch_loop_size: "length (batch_loop ts bytesLeft maxSize n) \<le> max 1 (maxSize - n)"
  by (induction ts bytesLeft maxSize n rule: batch_loop.induct) auto

lemma batch_loop_stops:
  assumes "batch_loop ts bytesLeft maxSize n = batch" and "length batch < length ts" and "n + length batch < maxSize"
  shows "bytesLeft < int (length (transactions_enc (map tx_serialized (take (Suc (length batch)) ts))))"
  using assms
proof (induction ts bytesLeft maxSize n arbitrary: batch rule: batch_loop.induct)
  case (2 t ts bytesLeft maxSize n)
  show ?case
  proof (cases "bytesLeft - 4 - int (length (tx_serialized t)) < 0 \<or> n + 1 \<ge> maxSize")
    case True
    with 2 show ?thesis by (auto split: if_splits)
  next
    case False
    then have "batch = t # batch_loop ts (bytesLeft - 4 - int (length (tx_serialized t))) maxSize (n + 1)" using 2(2) by auto
    with 2(1) [OF _ _ refl] 2(3,4) False show ?thesis by simp
  qed
qed simp

text \<open>C25 (bounds). A batch is the next part of the list that was made for its block round, as long as possible: it encodes in at most
  \<open>maxBytes\<close> and has at most \<open>maxSize\<close> transactions (one at least is allowed), and unless it is that long or the list is used up, the
  next transaction would not fit. Requests for the same round continue the list, a new round starts a new one.\<close>

theorem batches_continue_and_fit:
  assumes "getBatch mp blockRound maxBytes maxSize s = (Inr (remaining, batch), s')"
  shows "(if se_currentBlockRound s = blockRound then se_transactions s' = se_transactions s else getFromHighestPriority mp = Inr (se_transactions s'))
    \<and> drop (if se_currentBlockRound s = blockRound then se_index s else 0) (se_transactions s') = batch @ drop (se_index s') (se_transactions s')
    \<and> remaining = length (drop (se_index s') (se_transactions s')) \<and> se_currentBlockRound s' = blockRound
    \<and> length (transactions_enc (map tx_serialized batch)) \<le> maxBytes \<and> length batch \<le> max 1 maxSize
    \<and> (remaining = 0 \<or> length batch \<ge> maxSize
       \<or> maxBytes < length (transactions_enc (map tx_serialized (batch @ [se_transactions s' ! se_index s']))))"
proof -
  obtain s1 where s1: "prepare mp blockRound s = Done s1" using assms by (cases "prepare mp blockRound s") (auto simp: getBatch_def)
  let ?rest = "drop (se_index s1) (se_transactions s1)"
  have b: "batch = batch_loop ?rest (int maxBytes) maxSize 0" and s': "s' = s1\<lparr>se_index := se_index s1 + length batch\<rparr>"
    and r: "remaining = length (se_transactions s') - se_index s'"
    using assms s1 by (auto simp: getBatch_def Let_def)
  have start: "se_index s1 = (if se_currentBlockRound s = blockRound then se_index s else 0)" "se_currentBlockRound s1 = blockRound"
    "if se_currentBlockRound s = blockRound then se_transactions s1 = se_transactions s else getFromHighestPriority mp = Inr (se_transactions s1)"
    using s1 by (auto simp: prepare_def Let_def split: if_splits sum.splits)
  have pre: "batch = take (length batch) ?rest" using batch_loop_prefix b by metis
  then have "?rest = batch @ drop (se_index s') (se_transactions s')"
    unfolding s' by (metis (no_types) add.commute append_take_drop_id drop_drop selector.select_convs(1,3) selector.surjective selector.update_convs(3))
  moreover have "length (transactions_enc (map tx_serialized batch)) \<le> maxBytes"
    using batch_loop_bytes [of "int maxBytes" ?rest maxSize 0] b by simp
  moreover have "length batch \<le> max 1 maxSize" using batch_loop_size [of ?rest "int maxBytes" maxSize 0] b by simp
  moreover have "remaining = 0 \<or> length batch \<ge> maxSize
       \<or> maxBytes < length (transactions_enc (map tx_serialized (batch @ [se_transactions s' ! se_index s'])))"
  proof (rule ccontr)
    assume n: "\<not> ?thesis"
    then have l: "length batch < length ?rest" using r s' by auto
    with batch_loop_stops [OF b [symmetric]] n
    have "maxBytes < length (transactions_enc (map tx_serialized (take (Suc (length batch)) ?rest)))" by simp
    moreover have "take (Suc (length batch)) ?rest = batch @ [se_transactions s' ! se_index s']"
      using take_Suc_conv_app_nth [OF l] l pre s' by (simp add: add.commute nth_drop)
    ultimately show False using n by simp
  qed
  ultimately show ?thesis using start r s' by simp
qed

section \<open>A sample pool\<close>

definition sample_mempool :: mempool where
  "sample_mempool =
     [(''alice'', sample_sender\<lparr>sm_transactions := [sample_pool_tx 5 1 10 ''a'', sample_pool_tx 6 9 10 ''b'']\<rparr>),
      (''bob'', sample_sender\<lparr>sm_transactions := [(sample_pool_tx 3 4 10 ''c'')\<lparr>tx_from := ''bob''\<rparr>]\<rparr>)]"

lemma sample_mempool_ok: "mempool_ok sample_mempool"
  by (simp add: mempool_ok_def map_ok_def sample_mempool_def sample_pool_tx_def)

lemmas sample_pool_defs = sample_mempool_def sample_sender_def sample_pool_tx_def

lemma sample_highest: "map_sum id (map tx_hash) (getFromHighestPriority sample_mempool) = Inr [''c'', ''a'', ''b'']"
  by (simp add: getFromHighestPriority_def select_transactions_def group_by_sender_def getFromEarliest_def sortByHighestGasPrice_def
      sample_pool_defs map_get_def map_set_def)

theorem priority_order_witness:
  "\<exists>out. getFromHighestPriority sample_mempool = Inr out \<and> map tx_hash out = [''c'', ''a'', ''b'']
     \<and> map tx_hash (of_sender ''alice'' out) = [''a'', ''b'']"
proof -
  obtain out where "getFromHighestPriority sample_mempool = Inr out" "\<forall>k. of_sender k out = getAllBySender k sample_mempool"
    using priority_order [OF sample_mempool_ok] by blast
  moreover have "map tx_hash (getAllBySender ''alice'' sample_mempool) = [''a'', ''b'']"
    by (simp add: getAllBySender_def getFromEarliest_def map_get_def sample_pool_defs)
  ultimately show ?thesis using sample_highest by auto
qed

definition sample_selector :: selector where
  "sample_selector = \<lparr>se_transactions = [sample_pool_tx 5 1 10 ''a'', sample_pool_tx 6 9 10 ''b''], se_currentBlockRound = ''r'', se_index = 1\<rparr>"

lemma sample_batch: "getBatch [] ''r'' 10 5 sample_selector = (Inr (0, [sample_pool_tx 6 9 10 ''b'']), sample_selector\<lparr>se_index := 2\<rparr>)"
  by (simp add: getBatch_def prepare_def sample_selector_def sample_pool_tx_def Let_def)

theorem batches_continue_and_fit_witness:
  "length (transactions_enc (map tx_serialized [sample_pool_tx 6 9 10 ''b''])) \<le> 10
   \<and> drop 1 (se_transactions sample_selector) = [sample_pool_tx 6 9 10 ''b''] @ drop 2 (se_transactions sample_selector)"
  using batches_continue_and_fit [OF sample_batch] by (simp add: sample_selector_def)

end
