(* ===== verification/Pool_Service.thy ===== *)
theory Pool_Service
  imports Pool_Query
begin

text \<open>
  The pool of all senders with its database: \<open>mempool.ts\<close>, \<open>storage.ts\<close>, \<open>service.ts\<close> and \<open>processor.ts\<close>
  of \<open>packages/transaction-pool-service/source\<close>.

  The table of the database is the list of its rows in the order of the key \<open>n\<close>. Events are collected in the
  order they are dispatched; \<open>removalListener\<close> is what the service does when one of them is delivered. The
  operations of the service run one after the other. The loop that shrinks a pool may not end when
  the pool holds a transaction under another sender, so it is a \<open>partial_function\<close>, and that it ends for
  every pool the service makes is proved. The comparison with the rebroadcast threshold is exact, where the code
  uses floating-point numbers.
\<close>

section \<open>Storage\<close>

record stored_transaction =
  sx_blockNumber :: nat
  sx_hash :: string
  sx_senderPublicKey :: string
  sx_serialized :: bytes

type_synonym storage_rows = "stored_transaction list"

definition storage_hasTransaction :: "string \<Rightarrow> storage_rows \<Rightarrow> bool" where
  "storage_hasTransaction hash rows = (\<exists>r \<in> set rows. sx_hash r = hash)"

text \<open>The index on the hash is unique.\<close>

definition storage_addTransaction :: "stored_transaction \<Rightarrow> storage_rows \<Rightarrow> error + storage_rows" where
  "storage_addTransaction r rows =
     (if storage_hasTransaction (sx_hash r) rows then Inl (JsError ''SqliteError'') else Inr (rows @ [r]))"

definition storage_getOldTransactions :: "int \<Rightarrow> storage_rows \<Rightarrow> storage_rows" where
  "storage_getOldTransactions blockNumber rows = rev (filter (\<lambda>r. int (sx_blockNumber r) \<le> blockNumber) rows)"

definition storage_removeTransaction :: "string \<Rightarrow> storage_rows \<Rightarrow> storage_rows" where
  "storage_removeTransaction hash rows = filter (\<lambda>r. sx_hash r \<noteq> hash) rows"

section \<open>Mempool\<close>

datatype pool_event = AddedToPool | RejectedByPool | RemovedFromPool | Expired

record pool_state =
  ps_mempool :: mempool
  ps_storage :: storage_rows
  ps_cooldowns :: "(string, nat) jsmap"
  ps_disposed :: bool
  ps_events :: "(pool_event \<times> transaction) list"
  ps_broadcasts :: "transaction list list"

definition dispatch_event :: "pool_event \<Rightarrow> transaction \<Rightarrow> pool_state \<Rightarrow> pool_state" where
  "dispatch_event event t s = s\<lparr>ps_events := ps_events s @ [(event, t)]\<rparr>"

definition removeDisposableMempool :: "string \<Rightarrow> mempool \<Rightarrow> mempool" where
  "removeDisposableMempool address mp =
     (case map_get mp address of None \<Rightarrow> mp | Some m \<Rightarrow> if isDisposable m then map_delete mp address else mp)"

definition tryReplaceTransaction :: "pool_env \<Rightarrow> transaction \<Rightarrow> sender_mempool \<Rightarrow> pool_state \<Rightarrow> pool_state outcome" where
  "tryReplaceTransaction e t m s =
     (case replace_in_sender e t m of
        (Inl err, m1) \<Rightarrow> Threw err (s\<lparr>ps_mempool := map_set (ps_mempool s) (tx_from t) m1\<rparr>)
      | (Inr removed, m1) \<Rightarrow>
          if removed = [] then
            (case add_to_sender e t m1 of
               Threw err m2 \<Rightarrow> Threw err (s\<lparr>ps_mempool := map_set (ps_mempool s) (tx_from t) m2\<rparr>)
             | Done m2 \<Rightarrow> Done (s\<lparr>ps_mempool := map_set (ps_mempool s) (tx_from t) m2\<rparr>))
          else Done (fold (\<lambda>r s. dispatch_event RemovedFromPool r (s\<lparr>ps_storage := storage_removeTransaction (tx_hash r) (ps_storage s)\<rparr>)) removed
            (s\<lparr>ps_mempool := map_set (ps_mempool s) (tx_from t) m1\<rparr>)))"

definition mempool_addTransaction :: "pool_env \<Rightarrow> transaction \<Rightarrow> pool_state \<Rightarrow> pool_state outcome" where
  "mempool_addTransaction e t s =
     (let found = (case map_get (ps_mempool s) (tx_from t) of
            Some m \<Rightarrow> Inr m
          | None \<Rightarrow> configure_sender e (tx_from t) (Some (tx_senderLegacyAddress t)));
          leave = (\<lambda>s. s\<lparr>ps_mempool := removeDisposableMempool (tx_from t) (ps_mempool s)\<rparr>)
      in case found of
           Inl err \<Rightarrow> Threw err s
         | Inr m \<Rightarrow>
             let s1 = s\<lparr>ps_mempool := map_set (ps_mempool s) (tx_from t) m\<rparr>;
                 result =
                   (if int (tx_nonce t) \<le> wl_nonce (sm_wallet m) then tryReplaceTransaction e t m s1
                    else case add_to_sender e t m of
                           Threw err m1 \<Rightarrow> Threw err (s1\<lparr>ps_mempool := map_set (ps_mempool s1) (tx_from t) m1\<rparr>)
                         | Done m1 \<Rightarrow> Done (s1\<lparr>ps_mempool := map_set (ps_mempool s1) (tx_from t) m1\<rparr>))
             in case result of Done s2 \<Rightarrow> Done (leave s2) | Threw err s2 \<Rightarrow> Threw err (leave s2))"

definition mempool_removeTransaction :: "string \<Rightarrow> string \<Rightarrow> mempool \<Rightarrow> transaction list \<times> mempool" where
  "mempool_removeTransaction address hash mp =
     (case map_get mp address of
        None \<Rightarrow> ([], mp)
      | Some m \<Rightarrow> (case remove_from_sender hash m of (removed, m1) \<Rightarrow> (removed, removeDisposableMempool address (map_set mp address m1))))"

fun mempool_reAddTransactions :: "pool_env \<Rightarrow> string list \<Rightarrow> mempool \<Rightarrow> (error + transaction list) \<times> mempool" where
  "mempool_reAddTransactions e [] mp = (Inr [], mp)"
| "mempool_reAddTransactions e (address # addresses) mp =
     (case map_get mp address of
        None \<Rightarrow> mempool_reAddTransactions e addresses mp
      | Some m \<Rightarrow>
          (case readd_in_sender e m of
             (Inl err, m1) \<Rightarrow> (Inl err, map_set mp address m1)
           | (Inr removed, m1) \<Rightarrow>
               (case mempool_reAddTransactions e addresses (removeDisposableMempool address (map_set mp address m1)) of
                  (Inl err, mp') \<Rightarrow> (Inl err, mp')
                | (Inr rest, mp') \<Rightarrow> (Inr (removed @ rest), mp'))))"

section \<open>Service\<close>

definition removalListener :: "string \<Rightarrow> pool_state \<Rightarrow> pool_state" where
  "removalListener hash s = s\<lparr>ps_cooldowns := map_delete (ps_cooldowns s) hash\<rparr>"

definition forget_hash :: "string \<Rightarrow> pool_state \<Rightarrow> pool_state" where
  "forget_hash hash s =
     s\<lparr>ps_storage := storage_removeTransaction hash (ps_storage s), ps_cooldowns := map_delete (ps_cooldowns s) hash\<rparr>"

definition expiredBlockNumber :: "pool_env \<Rightarrow> int" where
  "expiredBlockNumber e = int (pe_blockNumber e) - int (pf_maxTransactionAge (pe_config e))"

text \<open>The loop of \<open>removeOldTransactions\<close> over the rows that were read before it. The \<open>Set\<close> of hashes has each of them once.\<close>

fun remove_old_loop :: "pool_env \<Rightarrow> storage_rows \<Rightarrow> pool_state \<Rightarrow> pool_state outcome" where
  "remove_old_loop e [] s = Done s"
| "remove_old_loop e (r # rows) s =
     (case pe_addressFromPublicKey e (sx_senderPublicKey r) of
        Inl err \<Rightarrow> Threw err s
      | Inr address \<Rightarrow>
          (case mempool_removeTransaction address (sx_hash r) (ps_mempool s) of
             (removed, mp) \<Rightarrow>
               let s1 = fold forget_hash (remdups (map tx_hash removed @ [sx_hash r])) (s\<lparr>ps_mempool := mp\<rparr>)
               in remove_old_loop e rows (fold (dispatch_event Expired) removed s1)))"

definition removeOldTransactions :: "pool_env \<Rightarrow> pool_state \<Rightarrow> pool_state outcome" where
  "removeOldTransactions e s = remove_old_loop e (storage_getOldTransactions (expiredBlockNumber e) (ps_storage s)) s"

definition removeLowestPriorityTransaction :: "pool_state \<Rightarrow> pool_state outcome" where
  "removeLowestPriorityTransaction s =
     (if mempool_size (ps_mempool s) = 0 then Done s
      else case sum_bind (getFromLowestPriority (ps_mempool s)) query_first of
             Inl err \<Rightarrow> Threw err s
           | Inr t \<Rightarrow>
               (case mempool_removeTransaction (tx_from t) (tx_hash t) (ps_mempool s) of
                  (removed, mp) \<Rightarrow>
                    Done (fold (\<lambda>r s. dispatch_event RemovedFromPool r (forget_hash (tx_hash r) s)) removed (s\<lparr>ps_mempool := mp\<rparr>))))"

partial_function (option) removeLowestPriorityTransactions :: "pool_env \<Rightarrow> pool_state \<Rightarrow> pool_state outcome option" where
  "removeLowestPriorityTransactions e s =
     (if mempool_size (ps_mempool s) > pf_maxTransactionsInPool (pe_config e)
      then case removeLowestPriorityTransaction s of
             Threw err s1 \<Rightarrow> Some (Threw err s1)
           | Done s1 \<Rightarrow> removeLowestPriorityTransactions e s1
      else Some (Done s))"

definition cleanUp :: "pool_env \<Rightarrow> pool_state \<Rightarrow> pool_state outcome option" where
  "cleanUp e s =
     (case removeOldTransactions e s of
        Threw err s1 \<Rightarrow> Some (Threw err s1)
      | Done s1 \<Rightarrow> removeLowestPriorityTransactions e s1)"

definition addTransactionToMempool :: "pool_env \<Rightarrow> transaction \<Rightarrow> pool_state \<Rightarrow> pool_state outcome option" where
  "addTransactionToMempool e t s =
     (let full = (\<lambda>s. mempool_size (ps_mempool s) \<ge> pf_maxTransactionsInPool (pe_config e));
          make_room = (\<lambda>s.
            if full s then
              (case sum_bind (getFromLowestPriority (ps_mempool s)) query_first of
                 Inl err \<Rightarrow> Threw err s
               | Inr lowest \<Rightarrow>
                   if tx_gasPrice t \<le> tx_gasPrice lowest then Threw (JsError ''TransactionPoolFullError'') s
                   else removeLowestPriorityTransaction s)
            else Done s)
      in Option.bind (if full s then cleanUp e s else Some (Done s)) (\<lambda>cleaned.
           Some (and_then (and_then cleaned make_room) (mempool_addTransaction e t))))"

text \<open>The type of a \<open>PoolError\<close>; other errors have none.\<close>

definition pool_error_type :: "error \<Rightarrow> string option" where
  "pool_error_type err =
     (case err of
        JsError name \<Rightarrow>
          map_of [(''PoolError'', ''ERR_OTHER''), (''TransactionAlreadyInPoolError'', ''ERR_DUPLICATE''),
            (''TransactionExceedsMaximumByteSizeError'', ''ERR_TOO_LARGE''), (''TransactionFeeTooLowError'', ''ERR_LOW_FEE''),
            (''TransactionFeeTooHighError'', ''ERR_HIGH_FEE''),
            (''SenderExceededMaximumTransactionCountError'', ''ERR_EXCEEDS_MAX_COUNT''), (''TransactionPoolFullError'', ''ERR_POOL_FULL''),
            (''TransactionFailedToPreverifyError'', ''ERR_PREVERIFY''), (''TransactionFromWrongNetworkError'', ''ERR_WRONG_NETWORK''),
            (''InvalidTransactionDataError'', ''ERR_BAD_DATA'')] name
      | _ \<Rightarrow> None)"

definition service_addTransaction :: "pool_env \<Rightarrow> transaction \<Rightarrow> pool_state \<Rightarrow> pool_state outcome option" where
  "service_addTransaction e t s =
     (if ps_disposed s then Some (Done s)
      else if storage_hasTransaction (tx_hash t) (ps_storage s) then Some (Threw (JsError ''TransactionAlreadyInPoolError'') s)
      else case storage_addTransaction
             \<lparr>sx_blockNumber = pe_blockNumber e, sx_hash = tx_hash t, sx_senderPublicKey = tx_senderPublicKey t, sx_serialized = tx_serialized t\<rparr>
             (ps_storage s) of
             Inl err \<Rightarrow> Some (Threw err s)
           | Inr rows \<Rightarrow>
               Option.bind (addTransactionToMempool e t (s\<lparr>ps_storage := rows\<rparr>)) (\<lambda>result. Some (case result of
                 Done s1 \<Rightarrow> Done (dispatch_event AddedToPool t (s1\<lparr>ps_cooldowns := map_set (ps_cooldowns s1) (tx_hash t) (pe_blockNumber e)\<rparr>))
               | Threw err s1 \<Rightarrow>
                   Threw (if pool_error_type err = None then JsError ''PoolError'' else err)
                     (dispatch_event RejectedByPool t (s1\<lparr>ps_storage := storage_removeTransaction (tx_hash t) (ps_storage s1)\<rparr>)))))"

text \<open>The loop of \<open>reAddTransactions\<close>.\<close>

fun readd_loop :: "pool_env \<Rightarrow> storage_rows \<Rightarrow> pool_state \<Rightarrow> pool_state option" where
  "readd_loop e [] s = Some s"
| "readd_loop e (r # rows) s =
     (if int (sx_blockNumber r) > expiredBlockNumber e then
        (case pe_fromBytes e (sx_serialized r) of
           Inl err \<Rightarrow> readd_loop e rows (forget_hash (sx_hash r) s)
         | Inr t \<Rightarrow>
             Option.bind (addTransactionToMempool e t s) (\<lambda>result. case result of
               Done s1 \<Rightarrow> readd_loop e rows (dispatch_event AddedToPool t s1)
             | Threw err s1 \<Rightarrow> readd_loop e rows (forget_hash (sx_hash r) s1)))
      else readd_loop e rows (forget_hash (sx_hash r) s))"

definition service_reAddTransactions :: "pool_env \<Rightarrow> pool_state \<Rightarrow> pool_state option" where
  "service_reAddTransactions e s =
     (if ps_disposed s then Some s else readd_loop e (ps_storage s) (s\<lparr>ps_mempool := []\<rparr>))"

definition service_flush :: "pool_state \<Rightarrow> pool_state" where
  "service_flush s = (if ps_disposed s then s else s\<lparr>ps_mempool := [], ps_storage := [], ps_cooldowns := []\<rparr>)"

definition service_dispose :: "pool_state \<Rightarrow> pool_state" where
  "service_dispose s = s\<lparr>ps_disposed := True\<rparr>"

text \<open>The loop that chooses what to broadcast again: a cooldown of \<open>0\<close> counts as none.\<close>

definition cooling_down :: "nat \<Rightarrow> (string, nat) jsmap \<Rightarrow> transaction \<Rightarrow> bool" where
  "cooling_down blockNumber cooldowns t = (case map_get cooldowns (tx_hash t) of None \<Rightarrow> False | Some c \<Rightarrow> c \<noteq> 0 \<and> c \<ge> blockNumber)"

fun rebroadcast_loop :: "nat \<Rightarrow> nat \<Rightarrow> nat \<Rightarrow> transaction list \<Rightarrow> nat \<Rightarrow> (string, nat) jsmap \<Rightarrow> transaction list \<times> (string, nat) jsmap" where
  "rebroadcast_loop blockNumber cooldownVariance limit [] taken cooldowns = ([], cooldowns)"
| "rebroadcast_loop blockNumber cooldownVariance limit (t # ts) taken cooldowns =
     (if cooling_down blockNumber cooldowns t then rebroadcast_loop blockNumber cooldownVariance limit ts taken cooldowns
      else let cooldowns' = map_set cooldowns (tx_hash t) (blockNumber + cooldownVariance)
        in if taken + 1 \<ge> limit then ([t], cooldowns')
           else (case rebroadcast_loop blockNumber cooldownVariance limit ts (taken + 1) cooldowns' of (more_ts, c) \<Rightarrow> (t # more_ts, c)))"

definition rebroadcastMempoolTransactions :: "pool_env \<Rightarrow> nat \<Rightarrow> pool_state \<Rightarrow> pool_state outcome" where
  "rebroadcastMempoolTransactions e consumedGas s =
     (let cooldownBlocks = pf_rebroadcastCooldownBlocks (pe_config e);
          cooldownVariance = pe_randomNumber e (min 1 cooldownBlocks) cooldownBlocks
      in if consumedGas * 100 > pe_maxGasLimit e * pf_rebroadcastThreshold (pe_config e) then Done s
         else case getFromHighestPriority (ps_mempool s) of
                Inl err \<Rightarrow> Threw err s
              | Inr all \<Rightarrow>
                  (case rebroadcast_loop (pe_blockNumber e) cooldownVariance (pf_maxTransactionsPerRequest (pe_config e)) all 0 (ps_cooldowns s) of
                     (broadcast, cooldowns) \<Rightarrow>
                       Done (s\<lparr>ps_cooldowns := cooldowns,
                         ps_broadcasts := if broadcast = [] then ps_broadcasts s else ps_broadcasts s @ [broadcast]\<rparr>)))"

definition service_commit :: "pool_env \<Rightarrow> string list \<Rightarrow> nat \<Rightarrow> bool \<Rightarrow> pool_state \<Rightarrow> pool_state outcome option" where
  "service_commit e sendersAddresses consumedGas isSyncing s =
     (if ps_disposed s then Some (Done s)
      else case mempool_reAddTransactions e sendersAddresses (ps_mempool s) of
             (Inl err, mp) \<Rightarrow> Some (Threw err (s\<lparr>ps_mempool := mp\<rparr>))
           | (Inr removed, mp) \<Rightarrow>
               let s1 = fold (\<lambda>r s. dispatch_event RemovedFromPool r (forget_hash (tx_hash r) s)) removed (s\<lparr>ps_mempool := mp\<rparr>)
               in Option.bind (cleanUp e s1) (\<lambda>cleaned.
                    Some (and_then cleaned (\<lambda>s2. if isSyncing then Done s2 else rebroadcastMempoolTransactions e consumedGas s2))))"

text \<open>The request \<open>removeTransaction\<close> of the node (\<open>transaction-pool-worker/source/handlers/remove-transaction.ts\<close>), made when a transaction cannot be put into a block.\<close>

definition handle_removeTransaction :: "string \<Rightarrow> string \<Rightarrow> pool_state \<Rightarrow> pool_state" where
  "handle_removeTransaction address hash s =
     (case mempool_removeTransaction address hash (ps_mempool s) of
        (removed, mp) \<Rightarrow>
          let removedTransactionHashes = remdups (map tx_hash removed @ [hash])
          in fold (dispatch_event RemovedFromPool) removed
               (s\<lparr>ps_mempool := mp, ps_storage := fold storage_removeTransaction removedTransactionHashes (ps_storage s)\<rparr>))"

section \<open>Processor\<close>

record pool_processor_result =
  pr_accept :: "nat list"
  pr_broadcast :: "nat list"
  pr_invalid :: "nat list"
  pr_excess :: "nat list"
  pr_errors :: "(nat \<times> string) list"

definition getTransactionFromBuffer :: "pool_env \<Rightarrow> bytes \<Rightarrow> error + transaction" where
  "getTransactionFromBuffer e data =
     (case pe_fromBytes e data of Inl err \<Rightarrow> Inl (JsError ''InvalidTransactionDataError'') | Inr t \<Rightarrow> Inr t)"

definition note_invalid :: "nat \<Rightarrow> error \<Rightarrow> pool_processor_result \<Rightarrow> error + pool_processor_result" where
  "note_invalid index err r =
     (case pool_error_type err of
        None \<Rightarrow> Inl err
      | Some type \<Rightarrow> Inr (r\<lparr>pr_invalid := pr_invalid r @ [index],
          pr_excess := if type = ''ERR_EXCEEDS_MAX_COUNT'' then pr_excess r @ [index] else pr_excess r,
          pr_errors := pr_errors r @ [(index, type)]\<rparr>))"

text \<open>The loop of \<open>process\<close>: what it returns or throws, the transactions to broadcast and the pool.\<close>

fun process_loop :: "pool_env \<Rightarrow> nat \<Rightarrow> bytes list \<Rightarrow> pool_processor_result \<Rightarrow> transaction list \<Rightarrow> pool_state \<Rightarrow>
    ((error + pool_processor_result) \<times> transaction list \<times> pool_state) option" where
  "process_loop e index [] r broadcasts s = Some (Inr r, broadcasts, s)"
| "process_loop e index (data # rest) r broadcasts s =
     (case getTransactionFromBuffer e data of
        Inl err \<Rightarrow>
          (case note_invalid index err r of
             Inl err' \<Rightarrow> Some (Inl err', broadcasts, s)
           | Inr r1 \<Rightarrow> process_loop e (index + 1) rest r1 broadcasts s)
      | Inr t \<Rightarrow>
          Option.bind (service_addTransaction e t s) (\<lambda>result. case result of
            Done s1 \<Rightarrow> process_loop e (index + 1) rest
              (r\<lparr>pr_accept := pr_accept r @ [index], pr_broadcast := pr_broadcast r @ [index]\<rparr>) (broadcasts @ [t]) s1
          | Threw err s1 \<Rightarrow>
              (case note_invalid index err r of
                 Inl err' \<Rightarrow> Some (Inl err', broadcasts, s1)
               | Inr r1 \<Rightarrow> process_loop e (index + 1) rest r1 broadcasts s1)))"

definition process :: "pool_env \<Rightarrow> bytes list \<Rightarrow> pool_state \<Rightarrow> ((error + pool_processor_result) \<times> pool_state) option" where
  "process e data s =
     Option.bind (process_loop e 0 data \<lparr>pr_accept = [], pr_broadcast = [], pr_invalid = [], pr_excess = [], pr_errors = []\<rparr> [] s)
       (\<lambda>(result, broadcasts, s1).
         Some (result, if broadcasts = [] then s1 else s1\<lparr>ps_broadcasts := ps_broadcasts s1 @ [broadcasts]\<rparr>))"

end
