(* ===== verification/Pool_Steps.thy ===== *)
theory Pool_Steps
  imports Pool_Service
begin

text \<open>
  What the operations of \<open>mempool.ts\<close> and \<open>service.ts\<close> do to the transactions of the pool and the rows of the database: the
  operations that only remove (\<open>shrinks\<close>), among them the clean-up with its loop, and the ones that add (\<open>added_or_refused\<close>).

  The invariant \<open>pool_inv\<close>: the transactions of every sender are consistent with its wallet, their hashes are different
  and each has its row; \<open>factory_ok\<close> states what the service relies on of the transaction factory and the address factory.
\<close>

section \<open>The transactions of the pool\<close>

definition pool_mset :: "mempool \<Rightarrow> transaction multiset" where
  "pool_mset mp = sum_list (map (\<lambda>p. mset (sm_transactions (snd p))) mp)"

lemma pool_mset_simps [simp]: "pool_mset [] = {#}" "pool_mset (p # mp) = mset (sm_transactions (snd p)) + pool_mset mp"
  by (simp_all add: pool_mset_def)

lemma mempool_size_pool: "mempool_size mp = size (pool_mset mp)"
  by (induction mp) (auto simp: mempool_size_def)

lemma pool_mset_set:
  "map_get mp k = Some m \<Longrightarrow> pool_mset (map_set mp k m') + mset (sm_transactions m) = pool_mset mp + mset (sm_transactions m')"
  "map_get mp k = None \<Longrightarrow> pool_mset (map_set mp k m') = pool_mset mp + mset (sm_transactions m')"
  by (induction mp) (auto simp: map_get_def map_set_def split: if_splits)

lemma map_delete_notin: "k \<notin> fst ` set mp \<Longrightarrow> map_delete mp k = mp"
  by (force simp: map_delete_def AList.delete_eq filter_id_conv)

lemma pool_mset_delete:
  "map_ok mp \<Longrightarrow> map_get mp k = Some m \<Longrightarrow> pool_mset (map_delete mp k) + mset (sm_transactions m) = pool_mset mp"
proof (induction mp)
  case (Cons p mp)
  show ?case
  proof (cases "fst p = k")
    case True
    with Cons.prems have "k \<notin> fst ` set mp" "snd p = m" by (auto simp: map_ok_def map_get_def)
    with True map_delete_notin [of k mp] show ?thesis by (cases p) (simp add: map_delete_def)
  next
    case False
    with Cons show ?thesis by (cases p) (auto simp: map_ok_def map_get_def map_delete_def)
  qed
qed simp

lemma in_pool: "t \<in># pool_mset mp \<longleftrightarrow> (\<exists>(k, m) \<in> set mp. t \<in> set (sm_transactions m))"
  by (induction mp) auto

text \<open>Every sender's transactions are consistent with its wallet and are kept under the sender, whose wallet it is.\<close>

definition entry_ok :: "string \<Rightarrow> sender_mempool \<Rightarrow> bool" where
  "entry_ok k m \<longleftrightarrow> (\<exists>b n. sender_ok b n m) \<and> (\<forall>t \<in> set (sm_transactions m). tx_from t = k) \<and> wl_address (sm_wallet m) = k"

lemma add_keeps_address: "wl_address (sm_wallet (outcome_state (add_to_sender e t m))) = wl_address (sm_wallet m)"
  by (auto simp: add_to_sender_eq apply_transaction_def decreaseBalance_def increaseNonce_def split: sum.split option.split)

lemma again_keeps_address: "add_again e ts m = (removed, m') \<Longrightarrow> wl_address (sm_wallet m') = wl_address (sm_wallet m)"
proof (induction ts arbitrary: m removed)
  case (Cons t ts)
  then show ?case using add_keeps_address [of e t m] by (cases "add_to_sender e t m") (fastforce split: prod.splits)+
qed simp

lemma revert_keeps_address [simp]: "wl_address (fold revert_transaction ts w) = wl_address w"
  by (induction ts arbitrary: w) (simp_all add: revert_transaction_def increaseBalance_def decreaseNonce_def)

lemma cut_keeps_address: "wl_address (sm_wallet (snd (cut_from i m))) = wl_address (sm_wallet m)"
  by (simp add: cut_from_def Let_def)

lemma remove_keeps_address: "wl_address (sm_wallet (snd (remove_from_sender hash m))) = wl_address (sm_wallet m)"
  by (simp add: remove_from_sender_def split: option.split)

lemma replace_keeps_address:
  assumes "sender_ok b n m"
  shows "wl_address (sm_wallet (snd (replace_in_sender e t m))) = wl_address (sm_wallet m)"
proof (cases rule: replace_in_sender_cases [OF assms, where e = e and new = t])
  case (2 i w)
  then show ?thesis by (auto simp: replace_in_state_def Let_def decreaseBalance_def increaseBalance_def split: if_splits option.splits)
next
  case (3 i failed m')
  then show ?thesis using again_keeps_address cut_keeps_address [of i m] by fastforce
qed simp

definition senders_ok :: "mempool \<Rightarrow> bool" where
  "senders_ok mp \<longleftrightarrow> map_ok mp \<and> (\<forall>k m. map_get mp k = Some m \<longrightarrow> entry_ok k m)"

lemma senders_ok_entry: "senders_ok mp \<Longrightarrow> map_get mp k = Some m \<Longrightarrow> entry_ok k m"
  by (simp add: senders_ok_def)

lemma senders_ok_Nil [simp]: "senders_ok []"
  by (simp add: senders_ok_def)

lemma senders_ok_set: "senders_ok mp \<Longrightarrow> entry_ok k m \<Longrightarrow> senders_ok (map_set mp k m)"
  by (simp add: senders_ok_def map_ok_set jsmap_simps)

lemma senders_ok_mempool_ok: "senders_ok mp \<Longrightarrow> mempool_ok mp"
  unfolding senders_ok_def mempool_ok_def entry_ok_def by (auto dest: map_ok_get)

lemma in_pool_get:
  assumes "mempool_ok mp" and "t \<in># pool_mset mp"
  obtains m where "map_get mp (tx_from t) = Some m" "t \<in> set (sm_transactions m)"
proof -
  obtain k m where km: "(k, m) \<in> set mp" "t \<in> set (sm_transactions m)" using assms(2) by (auto simp: in_pool)
  with assms(1) have "map_get mp k = Some m" by (simp add: mempool_ok_def map_ok_get)
  with km assms(1) show ?thesis by (intro that [of m]) (auto simp: mempool_ok_def)
qed

lemma get_in_pool: "map_get mp k = Some m \<Longrightarrow> t \<in> set (sm_transactions m) \<Longrightarrow> t \<in># pool_mset mp"
  by (auto simp: in_pool dest: map_get_in_set)

lemma dispose_ok:
  assumes "senders_ok mp"
  shows "senders_ok (removeDisposableMempool k mp)" and "pool_mset (removeDisposableMempool k mp) = pool_mset mp"
proof -
  show "senders_ok (removeDisposableMempool k mp)"
    using assms by (auto simp: removeDisposableMempool_def senders_ok_def map_ok_delete jsmap_simps split: option.splits if_splits)
  show "pool_mset (removeDisposableMempool k mp) = pool_mset mp"
  proof (cases "map_get mp k")
    case (Some m)
    from assms have "map_ok mp" by (simp add: senders_ok_def)
    from pool_mset_delete [OF this Some] Some show ?thesis by (auto simp: removeDisposableMempool_def isDisposable_def)
  qed (simp add: removeDisposableMempool_def)
qed

section \<open>Removing from a sender\<close>

lemma remove_from_sender_removes:
  assumes "remove_from_sender hash m = (removed, m')"
  shows "\<forall>t \<in> set (sm_transactions m'). tx_hash t \<noteq> hash"
    and "t \<in> set (sm_transactions m) \<Longrightarrow> tx_hash t = hash \<Longrightarrow> removed \<noteq> []"
    and "entry_ok k m \<Longrightarrow> entry_ok k m'"
proof -
  let ?P = "\<lambda>t. tx_hash t = hash" and ?txs = "sm_transactions m"
  have e: "(removed = [] \<and> m' = m \<and> (\<forall>t \<in> set ?txs. \<not> ?P t)) \<or>
    ((\<exists>t \<in> set ?txs. ?P t) \<and> cut_from (length (takeWhile (\<lambda>t. \<not> ?P t) ?txs)) m = (removed, m'))"
    using assms by (auto simp: remove_from_sender_def find_index_def split: option.splits if_splits)
  let ?i = "length (takeWhile (\<lambda>t. \<not> ?P t) ?txs)"
  have cut: "sm_transactions m' = takeWhile (\<lambda>t. \<not> ?P t) ?txs \<and> removed = rev (dropWhile (\<lambda>t. \<not> ?P t) ?txs)" if "cut_from ?i m = (removed, m')"
    using that cut_from_simps(1,2) [of ?i m] by (simp add: dropWhile_eq_drop flip: takeWhile_eq_take)
  show "\<forall>t \<in> set (sm_transactions m'). tx_hash t \<noteq> hash" using e cut by (auto dest: set_takeWhileD)
  show "t \<in> set ?txs \<Longrightarrow> tx_hash t = hash \<Longrightarrow> removed \<noteq> []" using e cut by auto
  assume k: "entry_ok k m"
  then obtain b n where bn: "sender_ok b n m" by (auto simp: entry_ok_def)
  have "sender_ok b n m'" using remove_from_sender_ok [OF bn, of hash] assms by simp
  moreover have "set (sm_transactions m') \<subseteq> set ?txs" using e cut by (auto dest: set_takeWhileD)
  ultimately show "entry_ok k m'" using k remove_keeps_address [of hash m] assms by (auto simp: entry_ok_def)
qed

lemma multiset_swap: "p' + m = p + m1 \<Longrightarrow> m1 + r = m \<Longrightarrow> p' + r = p" for m :: "'a multiset"
  by (metis add.assoc add.commute add_right_cancel)

lemma mempool_remove:
  assumes "senders_ok mp" and "mempool_removeTransaction address hash mp = (removed, mp')"
  shows "senders_ok mp'" and "pool_mset mp' + mset removed = pool_mset mp"
    and "\<forall>t. t \<in># pool_mset mp' \<longrightarrow> tx_from t = address \<longrightarrow> tx_hash t \<noteq> hash"
    and "t \<in># pool_mset mp \<Longrightarrow> tx_from t = address \<Longrightarrow> tx_hash t = hash \<Longrightarrow> removed \<noteq> []"
proof -
  have "senders_ok mp' \<and> pool_mset mp' + mset removed = pool_mset mp \<and> (\<forall>t. t \<in># pool_mset mp' \<longrightarrow> tx_from t = address \<longrightarrow> tx_hash t \<noteq> hash)
    \<and> (t \<in># pool_mset mp \<longrightarrow> tx_from t = address \<longrightarrow> tx_hash t = hash \<longrightarrow> removed \<noteq> [])"
  proof (cases "map_get mp address")
    case None
    with assms(2) have "mp' = mp" "removed = []" by (simp_all add: mempool_removeTransaction_def)
    moreover have "tx_from u \<noteq> address" if "u \<in># pool_mset mp" for u
      using in_pool_get [OF senders_ok_mempool_ok [OF assms(1)] that] None by fastforce
    ultimately show ?thesis using assms(1) by simp
  next
    case (Some m)
    obtain m1 where m1: "remove_from_sender hash m = (removed, m1)" "mp' = removeDisposableMempool address (map_set mp address m1)"
      using assms(2) Some by (auto simp: mempool_removeTransaction_def split: prod.splits)
    have ok: "senders_ok (map_set mp address m1)"
      by (rule senders_ok_set [OF assms(1) remove_from_sender_removes(3) [OF m1(1) senders_ok_entry [OF assms(1) Some]]])
    have "pool_mset mp' + mset removed = pool_mset mp"
      unfolding m1(2) dispose_ok(2) [OF ok]
      by (rule multiset_swap [OF pool_mset_set(1) [OF Some, of m1] remove_conserves [OF m1(1)]])
    moreover have "tx_hash u \<noteq> hash" if "u \<in># pool_mset mp'" "tx_from u = address" for u
    proof -
      have "u \<in># pool_mset (map_set mp address m1)" using that(1) by (simp add: m1(2) dispose_ok(2) [OF ok])
      then obtain m2 where "map_get (map_set mp address m1) (tx_from u) = Some m2" "u \<in> set (sm_transactions m2)" by (rule in_pool_get [OF senders_ok_mempool_ok [OF ok]])
      with that(2) have "u \<in> set (sm_transactions m1)" by (simp add: jsmap_simps)
      with remove_from_sender_removes(1) [OF m1(1)] show ?thesis by simp
    qed
    moreover have "removed \<noteq> []" if t: "t \<in># pool_mset mp" "tx_from t = address" "tx_hash t = hash"
    proof -
      obtain m2 where "map_get mp (tx_from t) = Some m2" "t \<in> set (sm_transactions m2)" by (rule in_pool_get [OF senders_ok_mempool_ok [OF assms(1)] t(1)])
      with t Some have "t \<in> set (sm_transactions m)" by simp
      with remove_from_sender_removes(2) [OF m1(1)] t(3) show ?thesis by simp
    qed
    ultimately show ?thesis using dispose_ok(1) [OF ok] m1(2) by blast
  qed
  then show "senders_ok mp'" "pool_mset mp' + mset removed = pool_mset mp"
    "\<forall>t. t \<in># pool_mset mp' \<longrightarrow> tx_from t = address \<longrightarrow> tx_hash t \<noteq> hash"
    "t \<in># pool_mset mp \<Longrightarrow> tx_from t = address \<Longrightarrow> tx_hash t = hash \<Longrightarrow> removed \<noteq> []" by blast+
qed

section \<open>The pool is backed by the database\<close>

text \<open>What the service relies on of the factories: \<open>fb\<close> makes a transaction of its bytes and \<open>af\<close> the address of a public key.\<close>

definition factory_ok :: "(bytes \<Rightarrow> error + transaction) \<Rightarrow> (string \<Rightarrow> error + string) \<Rightarrow> bool" where
  "factory_ok fb af \<longleftrightarrow>
     (\<forall>bs t. fb bs = Inr t \<longrightarrow> tx_serialized t = bs \<and> af (tx_senderPublicKey t) = Inr (tx_from t) \<and> 0 \<le> tx_value t)"

definition row_of :: "transaction \<Rightarrow> stored_transaction \<Rightarrow> bool" where
  "row_of t r \<longleftrightarrow> sx_hash r = tx_hash t \<and> sx_senderPublicKey r = tx_senderPublicKey t"

definition rows_ok :: "(bytes \<Rightarrow> error + transaction) \<Rightarrow> storage_rows \<Rightarrow> bool" where
  "rows_ok fb rows \<longleftrightarrow> distinct (map sx_hash rows) \<and> (\<forall>r \<in> set rows. \<exists>t. fb (sx_serialized r) = Inr t \<and> row_of t r)"

definition unique_hashes :: "transaction multiset \<Rightarrow> bool" where
  "unique_hashes P \<longleftrightarrow> (\<forall>h. count (image_mset tx_hash P) h \<le> 1)"

definition backed :: "(string \<Rightarrow> error + string) \<Rightarrow> transaction multiset \<Rightarrow> storage_rows \<Rightarrow> bool" where
  "backed af P rows \<longleftrightarrow> unique_hashes P
     \<and> (\<forall>t. t \<in># P \<longrightarrow> af (tx_senderPublicKey t) = Inr (tx_from t) \<and> (\<exists>r \<in> set rows. row_of t r))"

definition pool_inv :: "(bytes \<Rightarrow> error + transaction) \<Rightarrow> (string \<Rightarrow> error + string) \<Rightarrow> pool_state \<Rightarrow> bool" where
  "pool_inv fb af s \<longleftrightarrow> senders_ok (ps_mempool s) \<and> backed af (pool_mset (ps_mempool s)) (ps_storage s) \<and> rows_ok fb (ps_storage s)"

abbreviation pool_of :: "pool_state \<Rightarrow> transaction multiset" where
  "pool_of s \<equiv> pool_mset (ps_mempool s)"

lemma unique_disjoint: "unique_hashes (P + R) \<Longrightarrow> t \<in># P \<Longrightarrow> u \<in># R \<Longrightarrow> tx_hash t \<noteq> tx_hash u"
proof
  assume u: "unique_hashes (P + R)" and "t \<in># P" "u \<in># R" "tx_hash t = tx_hash u"
  then have "0 < count (image_mset tx_hash P) (tx_hash t)" "0 < count (image_mset tx_hash R) (tx_hash t)"
    by (metis count_greater_zero_iff image_eqI set_image_mset)+
  with u [unfolded unique_hashes_def, rule_format, of "tx_hash t"] show False by simp
qed

lemma unique_subset: "P \<subseteq># Q \<Longrightarrow> unique_hashes Q \<Longrightarrow> unique_hashes P"
  unfolding unique_hashes_def by (meson image_mset_subseteq_mono le_trans mset_subset_eq_count)

lemma unique_add: "unique_hashes P \<Longrightarrow> \<forall>u. u \<in># P \<longrightarrow> tx_hash u \<noteq> tx_hash t \<Longrightarrow> unique_hashes (add_mset t P)"
  by (auto simp: unique_hashes_def count_eq_zero_iff)

lemma backed_shrink:
  assumes "backed af P rows" and "P' \<subseteq># P" and "\<forall>t. t \<in># P' \<longrightarrow> tx_hash t \<notin> H"
  shows "backed af P' (filter (\<lambda>r. sx_hash r \<notin> H) rows)"
  using assms unique_subset [OF assms(2)] unfolding backed_def row_of_def by (fastforce dest: mset_subset_eqD)

lemma backed_add:
  assumes "backed af P rows" and "\<forall>u. u \<in># P \<longrightarrow> tx_hash u \<noteq> tx_hash t" and "\<exists>r \<in> set rows. row_of t r"
    and "af (tx_senderPublicKey t) = Inr (tx_from t)"
  shows "backed af (add_mset t P) rows"
  using assms unique_add [OF _ assms(2)] unfolding backed_def by auto

lemma rows_ok_filter: "rows_ok fb rows \<Longrightarrow> rows_ok fb (filter P rows)"
  by (auto simp: rows_ok_def distinct_map_filter)

section \<open>Steps that only remove\<close>

definition fresh_row :: "stored_transaction \<Rightarrow> pool_state \<Rightarrow> bool" where
  "fresh_row r s \<longleftrightarrow> r \<in> set (ps_storage s) \<and> (\<forall>t. t \<in># pool_of s \<longrightarrow> tx_hash t \<noteq> sx_hash r)"

text \<open>The rows that go are those of transactions that were in the pool, and rows that need not be kept.\<close>

definition shrinks :: "(stored_transaction \<Rightarrow> bool) \<Rightarrow> pool_state \<Rightarrow> pool_state \<Rightarrow> bool" where
  "shrinks keep s s' \<longleftrightarrow> senders_ok (ps_mempool s') \<and> pool_of s' \<subseteq># pool_of s
     \<and> (\<exists>H. ps_storage s' = filter (\<lambda>r. sx_hash r \<notin> H) (ps_storage s) \<and> (\<forall>t. t \<in># pool_of s' \<longrightarrow> tx_hash t \<notin> H)
          \<and> (\<forall>r \<in> set (ps_storage s). sx_hash r \<in> H \<longrightarrow> keep r \<longrightarrow> sx_hash r \<in> tx_hash ` set_mset (pool_of s)))"

lemma shrinksI:
  assumes "senders_ok (ps_mempool s')" and "pool_of s' \<subseteq># pool_of s" and "ps_storage s' = filter (\<lambda>r. sx_hash r \<notin> H) (ps_storage s)"
    and "\<forall>t. t \<in># pool_of s' \<longrightarrow> tx_hash t \<notin> H"
    and "\<And>r. r \<in> set (ps_storage s) \<Longrightarrow> sx_hash r \<in> H \<Longrightarrow> keep r \<Longrightarrow> sx_hash r \<in> tx_hash ` set_mset (pool_of s)"
  shows "shrinks keep s s'"
  using assms unfolding shrinks_def by blast

lemma shrinks_refl: "senders_ok (ps_mempool s) \<Longrightarrow> shrinks keep s s"
  unfolding shrinks_def by (auto intro!: exI [of _ "{}"])

lemma shrinks_weaken: "shrinks (\<lambda>_. True) s s' \<Longrightarrow> shrinks keep s s'"
  unfolding shrinks_def by blast

lemma shrinks_trans:
  assumes "shrinks keep s s1" and "shrinks keep s1 s2"
  shows "shrinks keep s s2"
proof -
  obtain H1 where 1: "ps_storage s1 = filter (\<lambda>r. sx_hash r \<notin> H1) (ps_storage s)" "\<forall>t. t \<in># pool_of s1 \<longrightarrow> tx_hash t \<notin> H1"
    "\<forall>r \<in> set (ps_storage s). sx_hash r \<in> H1 \<longrightarrow> keep r \<longrightarrow> sx_hash r \<in> tx_hash ` set_mset (pool_of s)" and s1: "pool_of s1 \<subseteq># pool_of s"
    using assms(1) unfolding shrinks_def by blast
  obtain H2 where 2: "ps_storage s2 = filter (\<lambda>r. sx_hash r \<notin> H2) (ps_storage s1)" "\<forall>t. t \<in># pool_of s2 \<longrightarrow> tx_hash t \<notin> H2"
    "\<forall>r \<in> set (ps_storage s1). sx_hash r \<in> H2 \<longrightarrow> keep r \<longrightarrow> sx_hash r \<in> tx_hash ` set_mset (pool_of s1)" and s2: "pool_of s2 \<subseteq># pool_of s1"
    "senders_ok (ps_mempool s2)"
    using assms(2) unfolding shrinks_def by blast
  have "ps_storage s2 = filter (\<lambda>r. sx_hash r \<notin> H1 \<union> H2) (ps_storage s)" unfolding 2(1) 1(1) filter_filter by (rule filter_cong) auto
  moreover have "\<forall>t. t \<in># pool_of s2 \<longrightarrow> tx_hash t \<notin> H1 \<union> H2" using 1(2) 2(2) s2(1) by (auto dest: mset_subset_eqD)
  moreover have "sx_hash r \<in> tx_hash ` set_mset (pool_of s)" if "r \<in> set (ps_storage s)" "sx_hash r \<in> H1 \<union> H2" "keep r" for r
  proof (cases "sx_hash r \<in> H1")
    case False
    with that have "r \<in> set (ps_storage s1)" "sx_hash r \<in> H2" by (auto simp: 1(1))
    with 2(3) that(3) s1 show ?thesis by (metis (no_types, lifting) image_mono set_mset_mono subsetD)
  qed (use 1(3) that in blast)
  ultimately show ?thesis unfolding shrinks_def using s2 s1 by (meson subset_mset.order_trans)
qed

lemma shrinks_inv: "pool_inv fb af s \<Longrightarrow> shrinks keep s s' \<Longrightarrow> pool_inv fb af s'"
  unfolding pool_inv_def shrinks_def using backed_shrink rows_ok_filter by (metis (no_types, lifting))

lemma shrinks_fresh:
  assumes "shrinks keep s s'" and "fresh_row r s" and "keep r"
  shows "fresh_row r s'"
proof -
  obtain H where H: "ps_storage s' = filter (\<lambda>r. sx_hash r \<notin> H) (ps_storage s)"
    "sx_hash r \<in> H \<longrightarrow> sx_hash r \<in> tx_hash ` set_mset (pool_of s)" and p: "pool_of s' \<subseteq># pool_of s"
    using assms unfolding shrinks_def fresh_row_def by blast
  with assms(2) show ?thesis by (auto simp: fresh_row_def dest: mset_subset_eqD)
qed

lemma shrinks_size: "shrinks keep s s' \<Longrightarrow> size (pool_of s') \<le> size (pool_of s)"
  by (simp add: shrinks_def size_mset_mono)

lemma shrinks_members: "shrinks keep s s' \<Longrightarrow> set_mset (pool_of s') \<subseteq> set_mset (pool_of s)"
  by (simp add: shrinks_def set_mset_mono)

lemma shrinks_removed:
  assumes "pool_inv fb af s" and "senders_ok (ps_mempool s')" and "pool_of s' + mset removed = pool_of s"
    and "ps_storage s' = filter (\<lambda>r. sx_hash r \<notin> tx_hash ` set removed) (ps_storage s)"
  shows "shrinks keep s s'"
proof -
  have "unique_hashes (pool_of s' + mset removed)" using assms(1,3) by (simp add: pool_inv_def backed_def)
  then have "\<forall>t. t \<in># pool_of s' \<longrightarrow> tx_hash t \<notin> tx_hash ` set removed" using unique_disjoint by fastforce
  moreover have "tx_hash ` set removed \<subseteq> tx_hash ` set_mset (pool_of s)" using assms(3) by (metis image_mono mset_subset_eq_add_right set_mset_mono set_mset_mset)
  moreover have "pool_of s' \<subseteq># pool_of s" using assms(3) by (metis mset_subset_eq_add_left)
  ultimately show ?thesis unfolding shrinks_def using assms(2,4) by blast
qed

lemma fold_forget_hash [simp]:
  "ps_storage (fold forget_hash hs s) = filter (\<lambda>r. sx_hash r \<notin> set hs) (ps_storage s)"
  "ps_mempool (fold forget_hash hs s) = ps_mempool s" "ps_disposed (fold forget_hash hs s) = ps_disposed s"
  by (induction hs arbitrary: s) (auto simp: forget_hash_def storage_removeTransaction_def intro!: filter_cong)

lemma dispatch_simps [simp]:
  "ps_storage (dispatch_event event t s) = ps_storage s" "ps_mempool (dispatch_event event t s) = ps_mempool s" "ps_disposed (dispatch_event event t s) = ps_disposed s"
  by (simp_all add: dispatch_event_def)

lemma fold_dispatch [simp]:
  "ps_storage (fold (dispatch_event event) ts s) = ps_storage s" "ps_mempool (fold (dispatch_event event) ts s) = ps_mempool s"
  "ps_disposed (fold (dispatch_event event) ts s) = ps_disposed s"
  by (induction ts arbitrary: s) simp_all

lemma fold_forget_removed [simp]:
  "ps_storage (fold (\<lambda>r s. dispatch_event event r (forget_hash (tx_hash r) s)) removed s) = filter (\<lambda>r. sx_hash r \<notin> tx_hash ` set removed) (ps_storage s)"
  "ps_mempool (fold (\<lambda>r s. dispatch_event event r (forget_hash (tx_hash r) s)) removed s) = ps_mempool s"
  "ps_disposed (fold (\<lambda>r s. dispatch_event event r (forget_hash (tx_hash r) s)) removed s) = ps_disposed s"
  by (induction removed arbitrary: s) (auto simp: forget_hash_def storage_removeTransaction_def intro!: filter_cong)

lemma fold_overwritten [simp]:
  "ps_storage (fold (\<lambda>r s. dispatch_event event r (s\<lparr>ps_storage := storage_removeTransaction (tx_hash r) (ps_storage s)\<rparr>)) removed s)
     = filter (\<lambda>r. sx_hash r \<notin> tx_hash ` set removed) (ps_storage s)"
  "ps_mempool (fold (\<lambda>r s. dispatch_event event r (s\<lparr>ps_storage := storage_removeTransaction (tx_hash r) (ps_storage s)\<rparr>)) removed s) = ps_mempool s"
  "ps_disposed (fold (\<lambda>r s. dispatch_event event r (s\<lparr>ps_storage := storage_removeTransaction (tx_hash r) (ps_storage s)\<rparr>)) removed s) = ps_disposed s"
  by (induction removed arbitrary: s) (auto simp: storage_removeTransaction_def intro!: filter_cong)

section \<open>Cleaning up\<close>

definition is_old :: "pool_env \<Rightarrow> stored_transaction \<Rightarrow> bool" where
  "is_old e r \<longleftrightarrow> int (sx_blockNumber r) \<le> expiredBlockNumber e"

lemma distinct_hash: "distinct (map sx_hash rows) \<Longrightarrow> r \<in> set rows \<Longrightarrow> r' \<in> set rows \<Longrightarrow> sx_hash r = sx_hash r' \<Longrightarrow> r = r'"
  by (auto simp: distinct_map inj_on_def)

lemma remove_old_step:
  assumes inv: "pool_inv fb af s" and rows0: "distinct (map sx_hash rows0)" "r \<in> set rows0" "set (ps_storage s) \<subseteq> set rows0"
    and "af (sx_senderPublicKey r) = Inr address" and old: "is_old e r"
    and rm: "mempool_removeTransaction address (sx_hash r) (ps_mempool s) = (removed, mp)"
  shows "shrinks (\<lambda>r. \<not> is_old e r) s
    (fold (dispatch_event Expired) removed (fold forget_hash (remdups (map tx_hash removed @ [sx_hash r])) (s\<lparr>ps_mempool := mp\<rparr>)))"
proof -
  have senders: "senders_ok (ps_mempool s)" and b: "backed af (pool_of s) (ps_storage s)" using inv by (simp_all add: pool_inv_def)
  note rm' = mempool_remove [OF senders rm]
  have sub: "pool_mset mp \<subseteq># pool_of s" using rm'(2) by (metis mset_subset_eq_add_left)
  have "unique_hashes (pool_mset mp + mset removed)" using b rm'(2) by (simp add: backed_def)
  then have u: "tx_hash t \<notin> tx_hash ` set removed" if "t \<in># pool_mset mp" for t using unique_disjoint that by fastforce
  have h: "tx_hash t \<noteq> sx_hash r" if t: "t \<in># pool_mset mp" for t
  proof
    assume eq: "tx_hash t = sx_hash r"
    have "t \<in># pool_of s" using mset_subset_eqD [OF sub t] .
    then obtain r' where r': "r' \<in> set (ps_storage s)" "row_of t r'" "af (tx_senderPublicKey t) = Inr (tx_from t)" using b by (auto simp: backed_def)
    then have "r' = r" using rows0 eq by (intro distinct_hash [OF rows0(1)]) (auto simp: row_of_def)
    with r' assms(5) have "tx_from t = address" by (simp add: row_of_def)
    with rm'(3) t eq show False by simp
  qed
  let ?H = "insert (sx_hash r) (tx_hash ` set removed)"
  have keep: "sx_hash x \<in> tx_hash ` set_mset (pool_of s)" if x: "x \<in> set (ps_storage s)" "sx_hash x \<in> ?H" "\<not> is_old e x" for x
  proof -
    have "x \<noteq> r" using x(3) old by auto
    with x rows0 have "sx_hash x \<noteq> sx_hash r" using distinct_hash [OF rows0(1), of x r] by auto
    with x(2) obtain t where "t \<in> set removed" "tx_hash t = sx_hash x" by auto
    then show ?thesis using rm'(2) by (metis image_eqI set_mset_mset union_iff)
  qed
  let ?s = "fold (dispatch_event Expired) removed (fold forget_hash (remdups (map tx_hash removed @ [sx_hash r])) (s\<lparr>ps_mempool := mp\<rparr>))"
  have "ps_storage ?s = filter (\<lambda>x. sx_hash x \<notin> ?H) (ps_storage s)" by simp
  moreover have "ps_mempool ?s = mp" by simp
  moreover have "\<forall>t. t \<in># pool_mset mp \<longrightarrow> tx_hash t \<notin> ?H" using u h by blast
  ultimately show ?thesis using rm'(1) sub keep by (intro shrinksI [where H = ?H]) (simp_all only:)
qed

lemma remove_old_loop_shrinks:
  assumes "pool_inv (pe_fromBytes e) (pe_addressFromPublicKey e) s" and "factory_ok (pe_fromBytes e) (pe_addressFromPublicKey e)"
    and "rows_ok (pe_fromBytes e) rows0" and "set rows \<subseteq> {r \<in> set rows0. is_old e r}" and "set (ps_storage s) \<subseteq> set rows0"
  shows "\<exists>s'. remove_old_loop e rows s = Done s' \<and> shrinks (\<lambda>r. \<not> is_old e r) s s'"
  using assms(1,4,5)
proof (induction rows arbitrary: s)
  case Nil
  then show ?case by (simp add: pool_inv_def shrinks_refl)
next
  case (Cons r rows)
  have r: "r \<in> set rows0" "is_old e r" using Cons.prems(2) by auto
  then obtain t where "pe_fromBytes e (sx_serialized r) = Inr t" "row_of t r" using assms(3) by (auto simp: rows_ok_def)
  then have af: "pe_addressFromPublicKey e (sx_senderPublicKey r) = Inr (tx_from t)" using assms(2) by (auto simp: factory_ok_def row_of_def)
  obtain removed mp where rm: "mempool_removeTransaction (tx_from t) (sx_hash r) (ps_mempool s) = (removed, mp)" by fastforce
  define s1 where "s1 = fold (dispatch_event Expired) removed (fold forget_hash (remdups (map tx_hash removed @ [sx_hash r])) (s\<lparr>ps_mempool := mp\<rparr>))"
  have sh: "shrinks (\<lambda>r. \<not> is_old e r) s s1" unfolding s1_def
    by (rule remove_old_step [OF Cons.prems(1) _ r(1) Cons.prems(3) af r(2) rm]) (use assms(3) in \<open>simp add: rows_ok_def\<close>)
  have "set (ps_storage s1) \<subseteq> set rows0" using sh Cons.prems(3) by (auto simp: shrinks_def)
  then obtain s' where "remove_old_loop e rows s1 = Done s'" "shrinks (\<lambda>r. \<not> is_old e r) s1 s'"
    using Cons.IH [OF shrinks_inv [OF Cons.prems(1) sh]] Cons.prems(2) by auto
  with shrinks_trans [OF sh] af rm show ?case by (auto simp: s1_def Let_def)
qed

lemma removeOldTransactions_shrinks:
  assumes "pool_inv (pe_fromBytes e) (pe_addressFromPublicKey e) s" and "factory_ok (pe_fromBytes e) (pe_addressFromPublicKey e)"
  obtains s' where "removeOldTransactions e s = Done s'" "shrinks (\<lambda>r. \<not> is_old e r) s s'"
proof -
  have "rows_ok (pe_fromBytes e) (ps_storage s)" using assms(1) by (simp add: pool_inv_def)
  from remove_old_loop_shrinks [OF assms this, of "storage_getOldTransactions (expiredBlockNumber e) (ps_storage s)"] that show ?thesis
    by (auto simp: removeOldTransactions_def storage_getOldTransactions_def is_old_def)
qed

lemma lowest_member:
  assumes "mempool_ok mp" and "sum_bind (getFromLowestPriority mp) query_first = Inr t"
  shows "t \<in># pool_mset mp"
proof -
  obtain out where out: "getFromLowestPriority mp = Inr out" "\<And>k. of_sender k out = rev (transactions_of mp k)"
    using latest.select_transactions_merges [OF assms(1), of sortByLowestGasPrice] by (auto simp: getFromLowestPriority_def)
  with assms(2) obtain rest where "out = t # rest" by (cases out) (auto simp: query_first_def)
  then have "t \<in> set (of_sender (tx_from t) out)" by simp
  then have "t \<in> set (transactions_of mp (tx_from t))" unfolding out(2) by simp
  then show ?thesis using get_in_pool [of mp "tx_from t"] by (cases "map_get mp (tx_from t)") (simp_all add: transactions_of_def)
qed

lemma lowest_in_pool:
  assumes "mempool_ok mp" and "pool_mset mp \<noteq> {#}"
  obtains t where "sum_bind (getFromLowestPriority mp) query_first = Inr t" "t \<in># pool_mset mp"
proof -
  obtain out where out: "getFromLowestPriority mp = Inr out" "\<And>k. of_sender k out = rev (transactions_of mp k)"
    using latest.select_transactions_merges [OF assms(1), of sortByLowestGasPrice] by (auto simp: getFromLowestPriority_def)
  obtain u where u: "u \<in># pool_mset mp" using assms(2) by (meson multiset_nonemptyE)
  obtain m where "map_get mp (tx_from u) = Some m" "u \<in> set (sm_transactions m)" by (rule in_pool_get [OF assms(1) u])
  then have "transactions_of mp (tx_from u) \<noteq> []" by (auto simp: transactions_of_def)
  with out(2) [of "tx_from u"] obtain t rest where "out = t # rest" by (cases out) auto
  with out(1) have "sum_bind (getFromLowestPriority mp) query_first = Inr t" by (simp add: query_first_def)
  then show ?thesis using lowest_member [OF assms(1)] that by blast
qed

lemma removeLowest_shrinks:
  assumes "pool_inv fb af s"
  obtains s' where "removeLowestPriorityTransaction s = Done s'" "shrinks keep s s'" "pool_of s \<noteq> {#} \<Longrightarrow> size (pool_of s') < size (pool_of s)"
proof (cases "pool_of s = {#}")
  case True
  with assms show ?thesis by (intro that [of s]) (simp_all add: removeLowestPriorityTransaction_def mempool_size_pool pool_inv_def shrinks_refl)
next
  case False
  have senders: "senders_ok (ps_mempool s)" using assms by (simp add: pool_inv_def)
  obtain t where t: "sum_bind (getFromLowestPriority (ps_mempool s)) query_first = Inr t" "t \<in># pool_of s" by (rule lowest_in_pool [OF senders_ok_mempool_ok [OF senders] False])
  obtain removed mp where rm: "mempool_removeTransaction (tx_from t) (tx_hash t) (ps_mempool s) = (removed, mp)" by fastforce
  note rm' = mempool_remove [OF senders rm]
  let ?s = "fold (\<lambda>r s. dispatch_event RemovedFromPool r (forget_hash (tx_hash r) s)) removed (s\<lparr>ps_mempool := mp\<rparr>)"
  have "shrinks keep s ?s" by (rule shrinks_removed [OF assms]) (simp_all add: rm'(1,2))
  moreover have "size (pool_of ?s) < size (pool_of s)"
  proof -
    have "removed \<noteq> []" using rm'(4) t(2) by simp
    then have "size (pool_mset mp) < size (pool_of s)" using arg_cong [OF rm'(2), of size] by (cases removed) simp_all
    then show ?thesis by simp
  qed
  ultimately show ?thesis using False t(1) rm by (intro that [of ?s]) (simp_all add: removeLowestPriorityTransaction_def mempool_size_pool)
qed

lemma removeLowests_shrinks:
  assumes "pool_inv fb af s"
  shows "\<exists>s'. removeLowestPriorityTransactions e s = Some (Done s') \<and> shrinks keep s s' \<and> size (pool_of s') \<le> pf_maxTransactionsInPool (pe_config e)"
  using assms
proof (induction "size (pool_of s)" arbitrary: s rule: less_induct)
  case less
  show ?case
  proof (cases "size (pool_of s) > pf_maxTransactionsInPool (pe_config e)")
    case True
    obtain s1 where s1: "removeLowestPriorityTransaction s = Done s1" "shrinks keep s s1" "size (pool_of s1) < size (pool_of s)"
      using removeLowest_shrinks [OF less.prems, of keep] True by (metis gr_zeroI less_nat_zero_code size_eq_0_iff_empty)
    from less.hyps [OF s1(3) shrinks_inv [OF less.prems s1(2)]] shrinks_trans [OF s1(2)] s1(1) True show ?thesis
      by (subst removeLowestPriorityTransactions.simps) (auto simp: mempool_size_pool)
  next
    case False
    with less.prems show ?thesis
      by (subst removeLowestPriorityTransactions.simps) (auto simp: mempool_size_pool pool_inv_def shrinks_refl)
  qed
qed

lemma cleanUp_shrinks:
  assumes "pool_inv (pe_fromBytes e) (pe_addressFromPublicKey e) s" and "factory_ok (pe_fromBytes e) (pe_addressFromPublicKey e)"
  obtains s' where "cleanUp e s = Some (Done s')" "shrinks (\<lambda>r. \<not> is_old e r) s s'" "size (pool_of s') \<le> pf_maxTransactionsInPool (pe_config e)"
proof -
  obtain s1 where s1: "removeOldTransactions e s = Done s1" "shrinks (\<lambda>r. \<not> is_old e r) s s1" by (rule removeOldTransactions_shrinks [OF assms])
  from removeLowests_shrinks [OF shrinks_inv [OF assms(1) s1(2)]] shrinks_trans [OF s1(2)] s1(1) that show ?thesis
    unfolding cleanUp_def by fastforce
qed

section \<open>Adding\<close>

definition accounts_ok :: "pool_env \<Rightarrow> bool" where
  "accounts_ok e \<longleftrightarrow> (\<forall>a l info. pe_accountInfo e a l = Inr info \<longrightarrow> 0 \<le> ai_balance info)"

text \<open>A transaction enters the pool, and others leave it together with their rows.\<close>

definition enters :: "transaction \<Rightarrow> pool_state \<Rightarrow> pool_state \<Rightarrow> bool" where
  "enters t s s' \<longleftrightarrow> senders_ok (ps_mempool s')
     \<and> (\<exists>removed. pool_of s' + mset removed = add_mset t (pool_of s)
          \<and> ps_storage s' = filter (\<lambda>r. sx_hash r \<notin> tx_hash ` set removed) (ps_storage s))"

definition same_pool :: "pool_state \<Rightarrow> pool_state \<Rightarrow> bool" where
  "same_pool s s' \<longleftrightarrow> senders_ok (ps_mempool s') \<and> pool_of s' = pool_of s \<and> ps_storage s' = ps_storage s"

fun added_or_refused :: "transaction \<Rightarrow> pool_state \<Rightarrow> pool_state outcome \<Rightarrow> bool" where
  "added_or_refused t s (Done s') = enters t s s'"
| "added_or_refused t s (Threw err s') = same_pool s s'"

lemma entry_ok_add:
  assumes "entry_ok (tx_from t) m" and "0 \<le> tx_value t"
  shows "entry_ok (tx_from t) (outcome_state (add_to_sender e t m))"
proof -
  obtain b n where "sender_ok b n m" using assms(1) by (auto simp: entry_ok_def)
  from add_to_sender_ok [OF this assms(2)] have "sender_ok b n (outcome_state (add_to_sender e t m))" .
  moreover have "\<forall>u \<in> set (sm_transactions (outcome_state (add_to_sender e t m))). tx_from u = tx_from t"
    using assms(1) add_to_sender_result [of e t m] by (auto simp: entry_ok_def)
  ultimately show ?thesis using add_keeps_address [of e t m] assms(1) by (auto simp: entry_ok_def)
qed

lemma entry_ok_replace:
  assumes "entry_ok (tx_from t) m" and "0 \<le> tx_value t" and "replace_in_sender e t m = (r, m')"
  shows "entry_ok (tx_from t) m'" and "r = Inr [] \<Longrightarrow> m' = m" and "r = Inl err \<Longrightarrow> m' = m"
    and "r = Inr removed \<Longrightarrow> removed \<noteq> [] \<Longrightarrow> mset (sm_transactions m') + mset removed = add_mset t (mset (sm_transactions m))"
proof -
  obtain b n where bn: "sender_ok b n m" using assms(1) by (auto simp: entry_ok_def)
  have same: "m' = m" if "r = Inr [] \<or> (\<exists>err. r = Inl err)"
    using bn by (cases rule: replace_in_sender_cases [where e = e and new = t]) (use assms(3) that in auto)
  have grow: "mset (sm_transactions m') + mset removed = add_mset t (mset (sm_transactions m))" if "r = Inr removed" "removed \<noteq> []" for removed
    using replace_conserves [OF bn] assms(3) that by blast
  have "\<forall>u \<in> set (sm_transactions m'). tx_from u = tx_from t"
  proof (cases "r = Inr [] \<or> (\<exists>err. r = Inl err)")
    case True
    with same assms(1) show ?thesis by (auto simp: entry_ok_def)
  next
    case False
    then obtain removed where "r = Inr removed" "removed \<noteq> []" by (cases r) auto
    from arg_cong [OF grow [OF this], of set_mset] assms(1) show ?thesis by (auto simp: entry_ok_def)
  qed
  moreover have "sender_ok b n m'" using replace_in_sender_ok [OF bn assms(2), of e] assms(3) by simp
  ultimately show "entry_ok (tx_from t) m'" using replace_keeps_address [OF bn, of e t] assms(1,3) by (auto simp: entry_ok_def)
  show "r = Inr [] \<Longrightarrow> m' = m" "r = Inl err \<Longrightarrow> m' = m" using same by auto
  show "r = Inr removed \<Longrightarrow> removed \<noteq> [] \<Longrightarrow> mset (sm_transactions m') + mset removed = add_mset t (mset (sm_transactions m))" by (rule grow)
qed

lemma set_same:
  assumes "senders_ok (ps_mempool s)" and "map_get (ps_mempool s) k = Some m" and "entry_ok k m1" and "sm_transactions m1 = sm_transactions m"
    and "ps_mempool s' = map_set (ps_mempool s) k m1" and "ps_storage s' = ps_storage s"
  shows "same_pool s s'"
  using senders_ok_set [OF assms(1,3)] pool_mset_set(1) [OF assms(2), of m1] assms(4-6) by (simp add: same_pool_def)

lemma set_enters:
  assumes "senders_ok (ps_mempool s)" and "map_get (ps_mempool s) k = Some m" and "entry_ok k m1"
    and "mset (sm_transactions m1) + mset removed = add_mset t (mset (sm_transactions m))"
    and "ps_mempool s' = map_set (ps_mempool s) k m1" and "ps_storage s' = filter (\<lambda>r. sx_hash r \<notin> tx_hash ` set removed) (ps_storage s)"
  shows "enters t s s'"
proof -
  have "pool_of s' + mset removed + mset (sm_transactions m) = pool_of s + (mset (sm_transactions m1) + mset removed)"
    using pool_mset_set(1) [OF assms(2), of m1] by (simp add: assms(5) ac_simps)
  also have "\<dots> = add_mset t (pool_of s) + mset (sm_transactions m)" unfolding assms(4) by simp
  finally have "pool_of s' + mset removed = add_mset t (pool_of s)" by (metis add_right_cancel)
  with senders_ok_set [OF assms(1,3)] assms(5,6) show ?thesis by (auto simp: enters_def)
qed

lemma set_added:
  assumes "senders_ok (ps_mempool s)" and "map_get (ps_mempool s) (tx_from t) = Some m" and "0 \<le> tx_value t"
  shows "added_or_refused t s (case add_to_sender e t m of
           Threw err m2 \<Rightarrow> Threw err (s\<lparr>ps_mempool := map_set (ps_mempool s) (tx_from t) m2\<rparr>)
         | Done m2 \<Rightarrow> Done (s\<lparr>ps_mempool := map_set (ps_mempool s) (tx_from t) m2\<rparr>))"
proof -
  note ok = entry_ok_add [OF senders_ok_entry [OF assms(1,2)] assms(3), of e]
  show ?thesis
  proof (rule add_to_sender_cases [of e t m])
    fix w assume a: "add_to_sender e t m = Done (m\<lparr>sm_wallet := w, sm_transactions := sm_transactions m @ [t]\<rparr>)"
    show ?thesis using ok unfolding a by (auto intro!: set_enters [OF assms(1,2), where removed = "[]"])
  next
    fix err assume a: "add_to_sender e t m = Threw err m"
    show ?thesis using ok unfolding a by (auto intro!: set_same [OF assms(1,2)])
  qed
qed

lemma tryReplace_result:
  assumes "senders_ok (ps_mempool s)" and "map_get (ps_mempool s) (tx_from t) = Some m" and "0 \<le> tx_value t"
  shows "added_or_refused t s (tryReplaceTransaction e t m s)"
proof -
  obtain r m1 where r: "replace_in_sender e t m = (r, m1)" by fastforce
  note ok = entry_ok_replace [OF senders_ok_entry [OF assms(1,2)] assms(3) r]
  show ?thesis
  proof (cases r)
    case (Inl err)
    have "same_pool s (s\<lparr>ps_mempool := map_set (ps_mempool s) (tx_from t) m1\<rparr>)"
      by (rule set_same [OF assms(1,2) ok(1)]) (use ok(3) Inl in simp_all)
    with r Inl show ?thesis by (simp add: tryReplaceTransaction_def)
  next
    case (Inr removed)
    show ?thesis
    proof (cases "removed = []")
      case True
      with Inr ok(2) r set_added [OF assms, of e] show ?thesis by (simp add: tryReplaceTransaction_def)
    next
      case False
      let ?s = "fold (\<lambda>r s. dispatch_event RemovedFromPool r (s\<lparr>ps_storage := storage_removeTransaction (tx_hash r) (ps_storage s)\<rparr>)) removed
            (s\<lparr>ps_mempool := map_set (ps_mempool s) (tx_from t) m1\<rparr>)"
      have "enters t s ?s" by (rule set_enters [OF assms(1,2) ok(1) ok(4) [OF Inr False]]) simp_all
      with r Inr False show ?thesis by (simp add: tryReplaceTransaction_def)
    qed
  qed
qed

lemma leave_result:
  assumes "added_or_refused t s result"
  shows "added_or_refused t s (case result of
      Done s2 \<Rightarrow> Done (s2\<lparr>ps_mempool := removeDisposableMempool k (ps_mempool s2)\<rparr>)
    | Threw err s2 \<Rightarrow> Threw err (s2\<lparr>ps_mempool := removeDisposableMempool k (ps_mempool s2)\<rparr>))"
  using assms by (cases result) (auto simp: enters_def same_pool_def dispose_ok)

lemma mempool_add_result:
  assumes "senders_ok (ps_mempool s)" and "0 \<le> tx_value t" and "accounts_ok e"
  shows "added_or_refused t s (mempool_addTransaction e t s)"
proof -
  let ?found = "case map_get (ps_mempool s) (tx_from t) of Some m \<Rightarrow> Inr m | None \<Rightarrow> configure_sender e (tx_from t) (Some (tx_senderLegacyAddress t))"
  show ?thesis
  proof (cases ?found)
    case (Inl err)
    with assms(1) show ?thesis by (simp add: mempool_addTransaction_def same_pool_def Let_def)
  next
    case (Inr m)
    let ?s1 = "s\<lparr>ps_mempool := map_set (ps_mempool s) (tx_from t) m\<rparr>"
    have s1: "senders_ok (ps_mempool ?s1) \<and> pool_of ?s1 = pool_of s"
    proof (cases "map_get (ps_mempool s) (tx_from t)")
      case None
      with Inr obtain w where m: "m = \<lparr>sm_wallet = w, sm_concurrency = 0, sm_transactions = []\<rparr>"
        "init_wallet e (tx_from t) (Some (tx_senderLegacyAddress t)) = Inr w" by (auto simp: configure_sender_def sum_bind_Inr_iff)
      then have "sender_ok (wl_balance w) (wl_nonce w) m"
        using assms(3) by (auto simp: sender_ok_def init_wallet_def accounts_ok_def sum_bind_Inr_iff)
      then have "entry_ok (tx_from t) m" using m by (auto simp: entry_ok_def init_wallet_def sum_bind_Inr_iff)
      with None assms(1) m(1) show ?thesis by (simp add: senders_ok_set pool_mset_set(2))
    next
      case (Some m')
      with Inr have "m' = m" by simp
      with Some senders_ok_set [OF assms(1) senders_ok_entry [OF assms(1) Some]] pool_mset_set(1) [OF Some, of m] show ?thesis by simp
    qed
    define result where "result = (if int (tx_nonce t) \<le> wl_nonce (sm_wallet m) then tryReplaceTransaction e t m ?s1
        else case add_to_sender e t m of
               Threw err m1 \<Rightarrow> Threw err (?s1\<lparr>ps_mempool := map_set (ps_mempool ?s1) (tx_from t) m1\<rparr>)
             | Done m1 \<Rightarrow> Done (?s1\<lparr>ps_mempool := map_set (ps_mempool ?s1) (tx_from t) m1\<rparr>))"
    have get: "map_get (ps_mempool ?s1) (tx_from t) = Some m" by (simp add: jsmap_simps)
    have "added_or_refused t ?s1 result"
      unfolding result_def using tryReplace_result [OF conjunct1 [OF s1] get assms(2), of e] set_added [OF conjunct1 [OF s1] get assms(2), of e] by presburger
    then have "added_or_refused t s result" using s1 by (cases result) (simp_all add: enters_def same_pool_def)
    from leave_result [OF this, of "tx_from t"] Inr show ?thesis by (simp add: mempool_addTransaction_def Let_def result_def)
  qed
qed

end
