(* ===== verification/Pool_Invariant.thy ===== *)
theory Pool_Invariant
  imports Pool_Steps
begin

text \<open>
  The states the pool of \<open>packages/transaction-pool-service\<close> reaches over every sequence of operations and restarts, one operation after the
  other: the pool stays within its limit and backed by the database, every operation returns and the processor never throws.
\<close>

section \<open>The service keeps the pool backed and bounded\<close>

lemma enters_inv:
  assumes "pool_inv fb af s" and "enters t s s'" and "fresh_row r s" and "row_of t r" and "af (tx_senderPublicKey t) = Inr (tx_from t)"
  shows "pool_inv fb af s'" and "fresh_row r' s \<Longrightarrow> sx_hash r' \<noteq> tx_hash t \<Longrightarrow> fresh_row r' s'"
    and "size (pool_of s') \<le> Suc (size (pool_of s))" and "set_mset (pool_of s') \<subseteq> insert t (set_mset (pool_of s))"
proof -
  obtain removed where rm: "pool_of s' + mset removed = add_mset t (pool_of s)"
    "ps_storage s' = filter (\<lambda>r. sx_hash r \<notin> tx_hash ` set removed) (ps_storage s)" and senders: "senders_ok (ps_mempool s')"
    using assms(2) by (auto simp: enters_def)
  have b: "backed af (pool_of s) (ps_storage s)" and rows: "rows_ok fb (ps_storage s)" using assms(1) by (simp_all add: pool_inv_def)
  have "backed af (add_mset t (pool_of s)) (ps_storage s)"
    by (rule backed_add [OF b _ _ assms(5)]) (use assms(3,4) in \<open>auto simp: fresh_row_def row_of_def\<close>)
  moreover from this rm(1) have "unique_hashes (pool_of s' + mset removed)" by (simp add: backed_def)
  then have "\<forall>u. u \<in># pool_of s' \<longrightarrow> tx_hash u \<notin> tx_hash ` set removed" using unique_disjoint by fastforce
  moreover have sub: "pool_of s' \<subseteq># add_mset t (pool_of s)" using rm(1) by (metis mset_subset_eq_add_left)
  ultimately have "backed af (pool_of s') (ps_storage s')" unfolding rm(2) by (intro backed_shrink)
  with senders rows_ok_filter [OF rows] show "pool_inv fb af s'" by (simp add: pool_inv_def rm(2))
  have "set removed \<subseteq> insert t (set_mset (pool_of s))" using arg_cong [OF rm(1), of set_mset] by auto
  then show "fresh_row r' s \<Longrightarrow> sx_hash r' \<noteq> tx_hash t \<Longrightarrow> fresh_row r' s'"
    using mset_subset_eqD [OF sub] by (fastforce simp: fresh_row_def rm(2))
  show "size (pool_of s') \<le> Suc (size (pool_of s))" using size_mset_mono [OF sub] by simp
  show "set_mset (pool_of s') \<subseteq> insert t (set_mset (pool_of s))" using set_mset_mono [OF sub] by simp
qed

lemma same_pool_shrinks: "same_pool s s' \<Longrightarrow> shrinks keep s s'"
  unfolding same_pool_def by (intro shrinksI [where H = "{}"]) auto

text \<open>What the operations of one environment may assume of it.\<close>

definition pool_env_ok :: "(bytes \<Rightarrow> error + transaction) \<Rightarrow> (string \<Rightarrow> error + string) \<Rightarrow> nat \<Rightarrow> pool_env \<Rightarrow> bool" where
  "pool_env_ok fb af limit e \<longleftrightarrow> pe_fromBytes e = fb \<and> pe_addressFromPublicKey e = af \<and> factory_ok fb af \<and> accounts_ok e
     \<and> pf_maxTransactionsInPool (pe_config e) = limit \<and> 0 < pf_maxTransactionAge (pe_config e)"

abbreviation bounded :: "nat \<Rightarrow> pool_state \<Rightarrow> bool" where
  "bounded limit s \<equiv> size (pool_of s) \<le> limit"

text \<open>A transaction whose row is stored and recent: the pool stays backed, and the other recent rows remain.\<close>

lemma addTransactionToMempool_result:
  assumes env: "pool_env_ok fb af limit e" and inv: "pool_inv fb af s" and t: "fb bs = Inr t" and r: "fresh_row r s" "row_of t r" "\<not> is_old e r"
    and lim: "bounded limit s"
  obtains res where "addTransactionToMempool e t s = Some res" "pool_inv fb af (outcome_state res)" "bounded limit (outcome_state res)"
    "\<And>r'. fresh_row r' s \<Longrightarrow> \<not> is_old e r' \<Longrightarrow> sx_hash r' \<noteq> tx_hash t \<Longrightarrow> fresh_row r' (outcome_state res)"
    "\<not> is_done res \<Longrightarrow> fresh_row r (outcome_state res)" "set_mset (pool_of (outcome_state res)) \<subseteq> insert t (set_mset (pool_of s))"
proof -
  have fac: "factory_ok fb af" and acc: "accounts_ok e" and cfg: "pe_fromBytes e = fb" "pe_addressFromPublicKey e = af" "pf_maxTransactionsInPool (pe_config e) = limit"
    using env by (simp_all add: pool_env_ok_def)
  have af: "af (tx_senderPublicKey t) = Inr (tx_from t)" and val: "0 \<le> tx_value t" using fac t by (auto simp: factory_ok_def)
  let ?keep = "\<lambda>r. \<not> is_old e r"
  obtain s1 where s1: "(if mempool_size (ps_mempool s) \<ge> limit then cleanUp e s else Some (Done s)) = Some (Done s1)" "shrinks ?keep s s1"
  proof (cases "mempool_size (ps_mempool s) \<ge> limit")
    case True
    obtain s' where "cleanUp e s = Some (Done s')" "shrinks ?keep s s'"
      by (rule cleanUp_shrinks [of e s]) (use inv fac cfg in auto)
    with True that show ?thesis by simp
  qed (use that inv shrinks_refl in \<open>auto simp: pool_inv_def\<close>)
  have inv1: "pool_inv fb af s1" by (rule shrinks_inv [OF inv s1(2)])
  define room where "room = (if mempool_size (ps_mempool s1) \<ge> limit then
      (case sum_bind (getFromLowestPriority (ps_mempool s1)) query_first of
         Inl err \<Rightarrow> Threw err s1
       | Inr lowest \<Rightarrow> if tx_gasPrice t \<le> tx_gasPrice lowest then Threw (JsError ''TransactionPoolFullError'') s1 else removeLowestPriorityTransaction s1)
      else Done s1)"
  have res: "addTransactionToMempool e t s = Some (and_then room (mempool_addTransaction e t))"
    using s1(1) by (simp add: addTransactionToMempool_def Let_def room_def cfg(3) cong: if_cong)
  have room: "shrinks ?keep s1 (outcome_state room) \<and> (is_done room \<longrightarrow> size (pool_of (outcome_state room)) < limit)"
  proof (cases "mempool_size (ps_mempool s1) \<ge> limit")
    case True
    obtain s2 where s2: "removeLowestPriorityTransaction s1 = Done s2" "shrinks ?keep s1 s2" "pool_of s1 \<noteq> {#} \<Longrightarrow> size (pool_of s2) < size (pool_of s1)"
      using removeLowest_shrinks [OF inv1, of ?keep] by metis
    have l1: "size (pool_of s1) \<le> limit" using shrinks_size [OF s1(2)] lim by simp
    have refl: "shrinks ?keep s1 s1" using inv1 by (simp add: pool_inv_def shrinks_refl)
    show ?thesis
    proof (cases "sum_bind (getFromLowestPriority (ps_mempool s1)) query_first")
      case (Inl err)
      with True refl show ?thesis by (simp add: room_def)
    next
      case (Inr lowest)
      have "pool_of s1 \<noteq> {#}" using lowest_member [OF senders_ok_mempool_ok Inr] inv1 by (auto simp: pool_inv_def)
      with s2 l1 Inr True refl show ?thesis by (auto simp: room_def)
    qed
  next
    case False
    with inv1 show ?thesis by (simp add: room_def mempool_size_pool pool_inv_def shrinks_refl)
  qed
  let ?s2 = "outcome_state room"
  have sh: "shrinks ?keep s ?s2" using shrinks_trans [OF s1(2)] room by blast
  note inv2 = shrinks_inv [OF inv sh] and fresh2 = shrinks_fresh [OF sh]
  have sub2: "set_mset (pool_of ?s2) \<subseteq> set_mset (pool_of s)" by (rule shrinks_members [OF sh])
  show ?thesis
  proof (cases room)
    case (Threw err s2)
    with res sh inv2 fresh2 shrinks_size [OF sh] lim r sub2 show ?thesis by (intro that [of room]) auto
  next
    case (Done s2)
    then have s2: "?s2 = s2" "size (pool_of s2) < limit" using room by auto
    have added: "added_or_refused t s2 (mempool_addTransaction e t s2)"
      using inv2 s2(1) by (intro mempool_add_result [OF _ val acc]) (simp add: pool_inv_def)
    have r2: "fresh_row r s2" using fresh2 [OF r(1)] r(3) s2(1) by simp
    have i2: "pool_inv fb af s2" using inv2 s2(1) by simp
    show ?thesis
    proof (cases "mempool_addTransaction e t s2")
      case (Done s3)
      then have "enters t s2 s3" using added by simp
      note e = enters_inv [OF i2 this r2 r(2) af]
      show ?thesis using res Done \<open>room = Done s2\<close> e s2 fresh2 sub2 by (intro that [of "Done s3"]) auto
    next
      case (Threw err s3)
      then have "shrinks ?keep s2 s3" using added same_pool_shrinks by simp
      note e = shrinks_inv [OF i2 this] shrinks_fresh [OF this] shrinks_size [OF this] shrinks_members [OF this]
      show ?thesis using res Threw \<open>room = Done s2\<close> e s2 fresh2 sub2 r2 r(3) by (intro that [of "Threw err s3"]) auto
    qed
  qed
qed

lemma service_add_result:
  assumes env: "pool_env_ok fb af limit e" and inv: "pool_inv fb af s" and lim: "bounded limit s" and t: "fb bs = Inr t"
  obtains res where "service_addTransaction e t s = Some res" "pool_inv fb af (outcome_state res)" "bounded limit (outcome_state res)"
proof (cases "ps_disposed s \<or> storage_hasTransaction (tx_hash t) (ps_storage s)")
  case True
  with inv lim show ?thesis
    by (intro that [of "if ps_disposed s then Done s else Threw (JsError ''TransactionAlreadyInPoolError'') s"]) (auto simp: service_addTransaction_def)
next
  case False
  define r where "r = \<lparr>sx_blockNumber = pe_blockNumber e, sx_hash = tx_hash t, sx_senderPublicKey = tx_senderPublicKey t, sx_serialized = tx_serialized t\<rparr>"
  let ?s0 = "s\<lparr>ps_storage := ps_storage s @ [r]\<rparr>"
  have b: "backed af (pool_of s) (ps_storage s)" and rows: "rows_ok fb (ps_storage s)" using inv by (simp_all add: pool_inv_def)
  have row: "row_of t r" "\<not> is_old e r" using env by (simp_all add: r_def row_of_def is_old_def expiredBlockNumber_def pool_env_ok_def)
  have bs: "fb (tx_serialized t) = Inr t" using env t by (auto simp: pool_env_ok_def factory_ok_def)
  have new: "\<forall>x \<in> set (ps_storage s). sx_hash x \<noteq> tx_hash t" using False by (auto simp: storage_hasTransaction_def)
  have "rows_ok fb (ps_storage s @ [r])" using rows bs row(1) new by (auto simp: rows_ok_def r_def)
  moreover have "backed af (pool_of s) (ps_storage s @ [r])" using b by (auto simp: backed_def)
  ultimately have inv0: "pool_inv fb af ?s0" using inv by (simp add: pool_inv_def)
  have fresh: "fresh_row r ?s0" using b new by (fastforce simp: fresh_row_def backed_def row_of_def r_def)
  obtain res where res: "addTransactionToMempool e t ?s0 = Some res" "pool_inv fb af (outcome_state res)" "bounded limit (outcome_state res)"
    "\<not> is_done res \<Longrightarrow> fresh_row r (outcome_state res)"
    by (rule addTransactionToMempool_result [OF env inv0 t fresh row]) (use lim in auto)
  show ?thesis
  proof (cases res)
    case (Done s1)
    with res False show ?thesis
      by (intro that) (auto simp: service_addTransaction_def storage_addTransaction_def r_def pool_inv_def)
  next
    case (Threw err s1)
    let ?s2 = "dispatch_event RejectedByPool t (s1\<lparr>ps_storage := storage_removeTransaction (tx_hash t) (ps_storage s1)\<rparr>)"
    have "shrinks (\<lambda>_. False) s1 ?s2"
      by (rule shrinksI [where H = "{tx_hash t}"]) (use Threw res(2,4) in \<open>auto simp: storage_removeTransaction_def pool_inv_def fresh_row_def r_def\<close>)
    from shrinks_inv [OF _ this] shrinks_size [OF this] Threw res False show ?thesis
      by (intro that) (auto simp: service_addTransaction_def storage_addTransaction_def r_def)
  qed
qed

lemma forget_inv:
  assumes "pool_inv fb af s" and "\<forall>t. t \<in># pool_of s \<longrightarrow> tx_hash t \<noteq> h"
  shows "shrinks (\<lambda>r. sx_hash r \<noteq> h) s (forget_hash h s)"
  by (rule shrinksI [where H = "{h}"]) (use assms in \<open>auto simp: forget_hash_def storage_removeTransaction_def pool_inv_def\<close>)

lemma readd_loop_result:
  assumes env: "pool_env_ok fb af limit e" and "distinct (map sx_hash rows)" and "\<forall>r \<in> set rows. \<exists>t. fb (sx_serialized r) = Inr t \<and> row_of t r"
    and "\<forall>r \<in> set rows. (\<forall>t. t \<in># pool_of s \<longrightarrow> tx_hash t \<noteq> sx_hash r) \<and> (\<not> is_old e r \<longrightarrow> r \<in> set (ps_storage s))"
    and "pool_inv fb af s" and "bounded limit s"
  shows "\<exists>s'. readd_loop e rows s = Some s' \<and> pool_inv fb af s' \<and> bounded limit s'"
  using assms(2-6)
proof (induction rows arbitrary: s)
  case (Cons r rows)
  have rows: "distinct (map sx_hash rows)" "\<forall>r \<in> set rows. \<exists>t. fb (sx_serialized r) = Inr t \<and> row_of t r"
    and "sx_hash r \<notin> sx_hash ` set rows" using Cons.prems(1,2) by auto
  then have other: "\<And>x. x \<in> set rows \<Longrightarrow> sx_hash x \<noteq> sx_hash r" by (metis image_eqI)
  obtain t where t: "fb (sx_serialized r) = Inr t" "row_of t r" using Cons.prems(2) by auto
  have fb: "pe_fromBytes e = fb" using env by (simp add: pool_env_ok_def)
  have forget: "\<exists>s'. readd_loop e rows (forget_hash (sx_hash r) s1) = Some s' \<and> pool_inv fb af s' \<and> bounded limit s'"
    if s1: "pool_inv fb af s1" "bounded limit s1" "\<forall>t. t \<in># pool_of s1 \<longrightarrow> tx_hash t \<noteq> sx_hash r"
      "\<forall>x \<in> set rows. (\<forall>t. t \<in># pool_of s1 \<longrightarrow> tx_hash t \<noteq> sx_hash x) \<and> (\<not> is_old e x \<longrightarrow> x \<in> set (ps_storage s1))" for s1
  proof (rule Cons.IH [OF rows])
    note sh = forget_inv [OF s1(1,3)]
    show "pool_inv fb af (forget_hash (sx_hash r) s1)" by (rule shrinks_inv [OF s1(1) sh])
    show "bounded limit (forget_hash (sx_hash r) s1)" using s1(2) by (simp add: forget_hash_def)
    show "\<forall>x \<in> set rows. (\<forall>t. t \<in># pool_of (forget_hash (sx_hash r) s1) \<longrightarrow> tx_hash t \<noteq> sx_hash x) \<and> (\<not> is_old e x \<longrightarrow> x \<in> set (ps_storage (forget_hash (sx_hash r) s1)))"
      using s1(4) other by (simp add: forget_hash_def storage_removeTransaction_def)
  qed
  show ?case
  proof (cases "is_old e r")
    case True
    then have "readd_loop e (r # rows) s = readd_loop e rows (forget_hash (sx_hash r) s)" by (simp add: is_old_def)
    with forget [OF Cons.prems(4,5)] Cons.prems(3) show ?thesis by auto
  next
    case False
    have fresh: "fresh_row r s" using Cons.prems(3) False by (simp add: fresh_row_def)
    obtain res where res: "addTransactionToMempool e t s = Some res" "pool_inv fb af (outcome_state res)" "bounded limit (outcome_state res)"
      "\<And>r'. fresh_row r' s \<Longrightarrow> \<not> is_old e r' \<Longrightarrow> sx_hash r' \<noteq> tx_hash t \<Longrightarrow> fresh_row r' (outcome_state res)"
      "\<not> is_done res \<Longrightarrow> fresh_row r (outcome_state res)" "set_mset (pool_of (outcome_state res)) \<subseteq> insert t (set_mset (pool_of s))"
      by (rule addTransactionToMempool_result [OF env Cons.prems(4) t(1) fresh t(2) False Cons.prems(5)]) blast
    have hash: "tx_hash t = sx_hash r" using t(2) by (simp add: row_of_def)
    have rest: "\<forall>x \<in> set rows. (\<forall>u. u \<in># pool_of (outcome_state res) \<longrightarrow> tx_hash u \<noteq> sx_hash x) \<and> (\<not> is_old e x \<longrightarrow> x \<in> set (ps_storage (outcome_state res)))"
    proof (intro ballI conjI allI impI)
      fix x u assume x: "x \<in> set rows" "u \<in># pool_of (outcome_state res)"
      then have "u = t \<or> u \<in># pool_of s" using res(6) by blast
      with x(1) Cons.prems(3) other hash show "tx_hash u \<noteq> sx_hash x" by fastforce
    next
      fix x assume x: "x \<in> set rows" "\<not> is_old e x"
      then have "fresh_row x s" using Cons.prems(3) by (simp add: fresh_row_def)
      from res(4) [OF this x(2)] other [OF x(1)] hash show "x \<in> set (ps_storage (outcome_state res))" by (simp add: fresh_row_def)
    qed
    show ?thesis
    proof (cases res)
      case (Done s1)
      have "\<exists>s'. readd_loop e rows (dispatch_event AddedToPool t s1) = Some s' \<and> pool_inv fb af s' \<and> bounded limit s'"
        by (rule Cons.IH [OF rows]) (use Done res(2,3) rest in \<open>simp_all add: pool_inv_def\<close>)
      with False Done res(1) t(1) fb show ?thesis by (simp add: is_old_def)
    next
      case (Threw err s1)
      from forget [of s1] res(2,3,5) rest Threw have "\<exists>s'. readd_loop e rows (forget_hash (sx_hash r) s1) = Some s' \<and> pool_inv fb af s' \<and> bounded limit s'"
        by (simp add: fresh_row_def)
      with False Threw res(1) t(1) fb show ?thesis by (simp add: is_old_def)
    qed
  qed
qed simp

lemma service_readd_result:
  assumes "pool_env_ok fb af limit e" and "pool_inv fb af s" and "bounded limit s"
  shows "\<exists>s'. service_reAddTransactions e s = Some s' \<and> pool_inv fb af s' \<and> bounded limit s'"
proof (cases "ps_disposed s")
  case False
  have "\<exists>s'. readd_loop e (ps_storage s) (s\<lparr>ps_mempool := []\<rparr>) = Some s' \<and> pool_inv fb af s' \<and> bounded limit s'"
    by (rule readd_loop_result [OF assms(1)]) (use assms(2) in \<open>auto simp: pool_inv_def rows_ok_def backed_def unique_hashes_def\<close>)
  with False show ?thesis by (simp add: service_reAddTransactions_def)
qed (use assms in \<open>simp add: service_reAddTransactions_def\<close>)

lemma readd_in_sender_entry:
  assumes "entry_ok k m" and "accounts_ok e" and "readd_in_sender e m = (r, m')"
  shows "entry_ok k m'" and "r = Inl err \<Longrightarrow> m' = m" and "r = Inr removed \<Longrightarrow> mset (sm_transactions m') + mset removed = mset (sm_transactions m)"
proof -
  let ?info = "pe_accountInfo e (wl_address (sm_wallet m)) (wl_legacyAddress (sm_wallet m))"
  have "entry_ok k m' \<and> (r = Inl err \<longrightarrow> m' = m) \<and> (r = Inr removed \<longrightarrow> mset (sm_transactions m') + mset removed = mset (sm_transactions m))"
  proof (cases ?info)
    case (Inl err')
    with assms(1,3) show ?thesis by (auto simp: readd_in_sender_def init_wallet_def)
  next
    case (Inr info)
    have "0 \<le> ai_balance info" "\<forall>t \<in> set (sm_transactions m). 0 \<le> tx_value t"
      using Inr assms(1,2) by (auto simp: accounts_ok_def entry_ok_def sender_ok_def)
    from readd_in_sender_ok [OF Inr this assms(3)] obtain removed' where ok: "sender_ok (ai_balance info) (ai_nonce info) m'"
      "r = Inr removed'" "mset (sm_transactions m') + mset removed' = mset (sm_transactions m)" by blast
    from arg_cong [OF ok(3), of set_mset] have "set (sm_transactions m') \<subseteq> set (sm_transactions m)" by auto
    moreover have "wl_address (sm_wallet m') = wl_address (sm_wallet m)"
      using assms(3) Inr again_keeps_address by (fastforce simp: readd_in_sender_def init_wallet_def split: prod.splits)
    ultimately show ?thesis using ok assms(1) by (auto simp: entry_ok_def)
  qed
  then show "entry_ok k m'" "r = Inl err \<Longrightarrow> m' = m" "r = Inr removed \<Longrightarrow> mset (sm_transactions m') + mset removed = mset (sm_transactions m)" by auto
qed

lemma mempool_readd_result:
  assumes "senders_ok mp" and "accounts_ok e" and "mempool_reAddTransactions e addresses mp = (r, mp')"
  shows "senders_ok mp' \<and> pool_mset mp' \<subseteq># pool_mset mp \<and> (\<forall>removed. r = Inr removed \<longrightarrow> pool_mset mp' + mset removed = pool_mset mp)"
  using assms(1,3)
proof (induction addresses arbitrary: mp r mp')
  case (Cons address addresses)
  show ?case
  proof (cases "map_get mp address")
    case None
    with Cons show ?thesis by simp
  next
    case (Some m)
    obtain r1 m1 where r1: "readd_in_sender e m = (r1, m1)" by fastforce
    note ok = readd_in_sender_entry [OF senders_ok_entry [OF Cons.prems(1) Some] assms(2) r1]
    have s1: "senders_ok (map_set mp address m1)" by (rule senders_ok_set [OF Cons.prems(1) ok(1)])
    let ?mp1 = "removeDisposableMempool address (map_set mp address m1)"
    show ?thesis
    proof (cases r1)
      case (Inl err)
      with pool_mset_set(1) [OF Some, of m] ok(2) Cons.prems(2) Some r1 s1 show ?thesis by auto
    next
      case (Inr removed)
      have p1: "pool_mset ?mp1 + mset removed = pool_mset mp"
        unfolding dispose_ok(2) [OF s1] by (rule multiset_swap [OF pool_mset_set(1) [OF Some, of m1] ok(3) [OF Inr]])
      obtain r2 mp2 where r2: "mempool_reAddTransactions e addresses ?mp1 = (r2, mp2)" by fastforce
      from Cons.IH [OF dispose_ok(1) [OF s1] r2] have IH: "senders_ok mp2" "pool_mset mp2 \<subseteq># pool_mset ?mp1"
        "\<forall>rest. r2 = Inr rest \<longrightarrow> pool_mset mp2 + mset rest = pool_mset ?mp1" by auto
      have "pool_mset ?mp1 \<subseteq># pool_mset mp" using p1 by (metis mset_subset_eq_add_left)
      with IH(2) have "pool_mset mp2 \<subseteq># pool_mset mp" by (rule subset_mset.order_trans)
      moreover have "pool_mset mp2 + mset (removed @ rest) = pool_mset mp" if "r2 = Inr rest" for rest
      proof -
        have "pool_mset mp2 + mset (removed @ rest) = (pool_mset mp2 + mset rest) + mset removed" by (simp add: ac_simps)
        also have "\<dots> = pool_mset mp" using IH(3) that p1 by simp
        finally show ?thesis .
      qed
      ultimately show ?thesis using IH(1) Cons.prems(2) Some r1 r2 Inr by (cases r2) auto
    qed
  qed
qed auto

lemma rebroadcast_same: "ps_mempool (outcome_state (rebroadcastMempoolTransactions e g s)) = ps_mempool s
    \<and> ps_storage (outcome_state (rebroadcastMempoolTransactions e g s)) = ps_storage s"
  by (simp add: rebroadcastMempoolTransactions_def Let_def split: sum.split prod.split)

lemma service_commit_result:
  assumes env: "pool_env_ok fb af limit e" and inv: "pool_inv fb af s" and lim: "bounded limit s"
  shows "\<exists>res. service_commit e addresses consumedGas isSyncing s = Some res \<and> pool_inv fb af (outcome_state res) \<and> bounded limit (outcome_state res)"
proof (cases "ps_disposed s")
  case False
  have senders: "senders_ok (ps_mempool s)" and acc: "accounts_ok e" and cfg: "factory_ok (pe_fromBytes e) (pe_addressFromPublicKey e)"
    "pe_fromBytes e = fb" "pe_addressFromPublicKey e = af" using inv env by (auto simp: pool_inv_def pool_env_ok_def)
  obtain r mp where r: "mempool_reAddTransactions e addresses (ps_mempool s) = (r, mp)" by fastforce
  note rm = mempool_readd_result [OF senders acc r]
  show ?thesis
  proof (cases r)
    case (Inl err)
    have sh: "shrinks (\<lambda>_. True) s (s\<lparr>ps_mempool := mp\<rparr>)" by (rule shrinksI [where H = "{}"]) (use rm in auto)
    from shrinks_inv [OF inv this] shrinks_size [OF this] lim False r Inl show ?thesis by (simp add: service_commit_def)
  next
    case (Inr removed)
    let ?s1 = "fold (\<lambda>r s. dispatch_event RemovedFromPool r (forget_hash (tx_hash r) s)) removed (s\<lparr>ps_mempool := mp\<rparr>)"
    have sh: "shrinks (\<lambda>_. True) s ?s1" by (rule shrinks_removed [OF inv]) (use rm Inr in auto)
    note inv1 = shrinks_inv [OF inv sh]
    obtain s2 where s2: "cleanUp e ?s1 = Some (Done s2)" "shrinks (\<lambda>r. \<not> is_old e r) ?s1 s2"
      by (rule cleanUp_shrinks [of e ?s1]) (use inv1 cfg in auto)
    have "pool_inv fb af s2 \<and> bounded limit s2" using shrinks_inv [OF inv1 s2(2)] shrinks_size [OF sh] shrinks_size [OF s2(2)] lim by simp
    with s2(1) False r Inr rebroadcast_same [of e consumedGas s2] show ?thesis
      by (cases isSyncing) (auto simp: service_commit_def Let_def pool_inv_def)
  qed
qed (use inv lim in \<open>simp add: service_commit_def\<close>)

section \<open>Processing\<close>

lemma service_add_pool_error: "service_addTransaction e t s = Some (Threw err s') \<Longrightarrow> pool_error_type err \<noteq> None"
  by (auto simp: service_addTransaction_def storage_addTransaction_def pool_error_type_def
      split: if_splits sum.splits outcome.splits Option.bind_splits)

lemma getTransaction_pool_error: "getTransactionFromBuffer e bs = Inl err \<Longrightarrow> pool_error_type err \<noteq> None"
  by (auto simp: getTransactionFromBuffer_def pool_error_type_def split: sum.splits)

definition result_ok :: "nat \<Rightarrow> pool_processor_result \<Rightarrow> bool" where
  "result_ok n r \<longleftrightarrow> mset (pr_accept r @ pr_invalid r) = mset [0..<n] \<and> pr_broadcast r = pr_accept r \<and> map fst (pr_errors r) = pr_invalid r
     \<and> pr_excess r = map fst (filter (\<lambda>(_, type). type = ''ERR_EXCEEDS_MAX_COUNT'') (pr_errors r))"

lemma note_invalid_ok:
  assumes "result_ok n r" and "pool_error_type err \<noteq> None"
  obtains r' where "note_invalid n err r = Inr r'" "result_ok (Suc n) r'"
  using assms by (fastforce simp: note_invalid_def result_ok_def)

lemma process_loop_result:
  assumes "pool_env_ok fb af limit e" and "pool_inv fb af s" and "bounded limit s" and "result_ok n r"
  shows "\<exists>r' ts s'. process_loop e n data r broadcasts s = Some (Inr r', ts, s') \<and> result_ok (n + length data) r' \<and> pool_inv fb af s' \<and> bounded limit s'"
  using assms(2-4)
proof (induction data arbitrary: n r broadcasts s)
  case (Cons bs data)
  show ?case
  proof (cases "getTransactionFromBuffer e bs")
    case (Inl err)
    obtain r1 where r1: "note_invalid n err r = Inr r1" "result_ok (Suc n) r1" by (rule note_invalid_ok [OF Cons.prems(3) getTransaction_pool_error [OF Inl]])
    from Cons.IH [OF Cons.prems(1,2) r1(2), of broadcasts] Inl r1(1) show ?thesis by auto
  next
    case (Inr t)
    then have t: "fb bs = Inr t" using assms(1) by (auto simp: getTransactionFromBuffer_def pool_env_ok_def split: sum.splits)
    obtain res where res: "service_addTransaction e t s = Some res" "pool_inv fb af (outcome_state res)" "bounded limit (outcome_state res)"
      by (rule service_add_result [OF assms(1) Cons.prems(1,2) t])
    show ?thesis
    proof (cases res)
      case (Done s1)
      have "result_ok (Suc n) (r\<lparr>pr_accept := pr_accept r @ [n], pr_broadcast := pr_broadcast r @ [n]\<rparr>)"
        using Cons.prems(3) by (simp add: result_ok_def)
      from Cons.IH [OF _ _ this, of s1 "broadcasts @ [t]"] Done res Inr show ?thesis by auto
    next
      case (Threw err s1)
      obtain r1 where r1: "note_invalid n err r = Inr r1" "result_ok (Suc n) r1"
        by (rule note_invalid_ok [OF Cons.prems(3) service_add_pool_error]) (use Threw res(1) in simp)
      from Cons.IH [OF _ _ r1(2), of s1 broadcasts] Threw res Inr r1(1) show ?thesis by auto
    qed
  qed
qed simp

lemma process_result:
  assumes "pool_env_ok fb af limit e" and "pool_inv fb af s" and "bounded limit s"
  shows "\<exists>r s'. process e data s = Some (Inr r, s') \<and> result_ok (length data) r \<and> pool_inv fb af s' \<and> bounded limit s'"
proof -
  let ?r = "\<lparr>pr_accept = [], pr_broadcast = [], pr_invalid = [], pr_excess = [], pr_errors = []\<rparr>"
  have "result_ok 0 ?r" by (simp add: result_ok_def)
  from process_loop_result [OF assms this, of data "[]"] obtain r ts s' where
    "process_loop e 0 data ?r [] s = Some (Inr r, ts, s')" "result_ok (length data) r" "pool_inv fb af s'" "bounded limit s'" by auto
  then show ?thesis by (auto simp: process_def pool_inv_def)
qed

section \<open>Removing at the request of the node\<close>

lemma fold_storage_remove: "fold storage_removeTransaction hs rows = filter (\<lambda>r. sx_hash r \<notin> set hs) rows"
  by (induction hs arbitrary: rows) (auto simp: storage_removeTransaction_def intro!: filter_cong)

lemma handle_remove_shrinks:
  assumes inv: "pool_inv fb af s" and sender: "\<And>u. u \<in># pool_of s \<Longrightarrow> tx_hash u = hash \<Longrightarrow> tx_from u = address"
  shows "shrinks (\<lambda>r. sx_hash r \<noteq> hash) s (handle_removeTransaction address hash s)"
proof -
  obtain removed mp where rm: "mempool_removeTransaction address hash (ps_mempool s) = (removed, mp)" by fastforce
  have senders: "senders_ok (ps_mempool s)" and b: "backed af (pool_of s) (ps_storage s)" using inv by (simp_all add: pool_inv_def)
  note rm' = mempool_remove [OF senders rm]
  let ?s = "handle_removeTransaction address hash s" and ?H = "insert hash (tx_hash ` set removed)"
  have parts: "ps_mempool ?s = mp" "ps_storage ?s = filter (\<lambda>r. sx_hash r \<notin> ?H) (ps_storage s)"
    by (simp_all add: handle_removeTransaction_def rm Let_def fold_storage_remove)
  have sub: "pool_mset mp \<subseteq># pool_of s" using rm'(2) by (metis mset_subset_eq_add_left)
  have "unique_hashes (pool_mset mp + mset removed)" using b rm'(2) by (simp add: backed_def)
  then have "tx_hash t \<notin> ?H" if "t \<in># pool_mset mp" for t
    using unique_disjoint [of "pool_mset mp" "mset removed" t] that rm'(3) sender [OF mset_subset_eqD [OF sub that]] by auto
  moreover have "sx_hash r \<in> tx_hash ` set_mset (pool_of s)" if "sx_hash r \<in> ?H" "sx_hash r \<noteq> hash" for r
    using that unfolding rm'(2) [symmetric] by auto
  ultimately show ?thesis using rm'(1) sub parts by (intro shrinksI [where H = ?H] allI impI) (simp_all only: not_False_eq_True)
qed

section \<open>The states the pool can reach\<close>

definition started_pool :: "storage_rows \<Rightarrow> pool_state" where
  "started_pool rows = \<lparr>ps_mempool = [], ps_storage = rows, ps_cooldowns = [], ps_disposed = False, ps_events = [], ps_broadcasts = []\<rparr>"

text \<open>The first start finds an empty database, later ones the rows that were stored.\<close>

inductive pool_reachable :: "(bytes \<Rightarrow> error + transaction) \<Rightarrow> (string \<Rightarrow> error + string) \<Rightarrow> nat \<Rightarrow> pool_state \<Rightarrow> bool"
  for fb af limit where
  first_start: "pool_reachable fb af limit (started_pool [])"
| restart: "pool_reachable fb af limit s \<Longrightarrow> pool_reachable fb af limit (started_pool (ps_storage s))"
| added: "pool_reachable fb af limit s \<Longrightarrow> pool_env_ok fb af limit e \<Longrightarrow> fb bs = Inr t \<Longrightarrow> service_addTransaction e t s = Some res \<Longrightarrow>
    pool_reachable fb af limit (outcome_state res)"
| processed: "pool_reachable fb af limit s \<Longrightarrow> pool_env_ok fb af limit e \<Longrightarrow> process e data s = Some (r, s') \<Longrightarrow> pool_reachable fb af limit s'"
| readded: "pool_reachable fb af limit s \<Longrightarrow> pool_env_ok fb af limit e \<Longrightarrow> service_reAddTransactions e s = Some s' \<Longrightarrow> pool_reachable fb af limit s'"
| committed: "pool_reachable fb af limit s \<Longrightarrow> pool_env_ok fb af limit e \<Longrightarrow> service_commit e addresses consumedGas isSyncing s = Some res \<Longrightarrow>
    pool_reachable fb af limit (outcome_state res)"
| removed: "pool_reachable fb af limit s \<Longrightarrow> (\<And>u. u \<in> set (getAll (ps_mempool s)) \<Longrightarrow> tx_hash u = hash \<Longrightarrow> tx_from u = address) \<Longrightarrow>
    pool_reachable fb af limit (handle_removeTransaction address hash s)"
| flushed: "pool_reachable fb af limit s \<Longrightarrow> pool_reachable fb af limit (service_flush s)"
| disposed: "pool_reachable fb af limit s \<Longrightarrow> pool_reachable fb af limit (service_dispose s)"
| delivered: "pool_reachable fb af limit s \<Longrightarrow> pool_reachable fb af limit (removalListener hash s)"

lemma backed_empty [simp]: "backed af {#} rows"
  by (simp add: backed_def unique_hashes_def)

lemma rows_ok_Nil [simp]: "rows_ok fb []"
  by (simp add: rows_ok_def)

lemma getAll_mset: "mset (getAll mp) = pool_mset mp"
  by (induction mp) (auto simp: getAll_def getFromLatest_def)

lemma reachable_inv: "pool_reachable fb af limit s \<Longrightarrow> pool_inv fb af s \<and> bounded limit s"
proof (induction rule: pool_reachable.induct)
  case (added s e bs t res)
  then show ?case using service_add_result [of fb af limit e s bs t] by force
next
  case (processed s e data r s')
  then show ?case using process_result [of fb af limit e s data] by force
next
  case (readded s e s')
  then show ?case using service_readd_result [of fb af limit e s] by force
next
  case (committed s e addresses consumedGas isSyncing res)
  then show ?case using service_commit_result [of fb af limit e s addresses consumedGas isSyncing] by force
next
  case (removed s hash address)
  then have "shrinks (\<lambda>r. sx_hash r \<noteq> hash) s (handle_removeTransaction address hash s)"
    by (intro handle_remove_shrinks [of fb af]) (simp_all flip: getAll_mset)
  then show ?case using shrinks_inv shrinks_size removed(3) by (meson le_trans)
qed (auto simp: pool_inv_def started_pool_def service_flush_def service_dispose_def removalListener_def)

lemma unique_hashes_list: "unique_hashes (mset ts) = distinct (map tx_hash ts)"
proof -
  have "(\<forall>h. count (mset hs) h \<le> 1) = distinct hs" for hs :: "string list"
    unfolding distinct_count_atmost_1
    by (metis One_nat_def count_mset_0_iff le_0_eq le_Suc_eq le_numeral_extra(4) zero_le)
  from this [of "map tx_hash ts"] show ?thesis by (simp add: unique_hashes_def)
qed

lemma cleanUp_nothing:
  assumes "\<forall>r \<in> set (ps_storage s). expiredBlockNumber e < int (sx_blockNumber r)" and "mempool_size (ps_mempool s) \<le> pf_maxTransactionsInPool (pe_config e)"
  shows "cleanUp e s = Some (Done s)"
proof -
  have "storage_getOldTransactions (expiredBlockNumber e) (ps_storage s) = []" using assms(1) by (auto simp: storage_getOldTransactions_def filter_empty_conv)
  then have "removeOldTransactions e s = Done s" by (simp add: removeOldTransactions_def)
  moreover have "removeLowestPriorityTransactions e s = Some (Done s)" using assms(2) by (subst removeLowestPriorityTransactions.simps) simp
  ultimately show ?thesis by (simp add: cleanUp_def)
qed

lemma mempool_remove_has: "mempool_removeTransaction address hash mp = (removed, mp') \<Longrightarrow> map_has mp' k \<Longrightarrow> map_has mp k"
  by (auto simp: mempool_removeTransaction_def removeDisposableMempool_def map_has_get jsmap_simps split: option.splits prod.splits if_splits)

text \<open>A new sender whose transaction skips a nonce.\<close>

lemma unknown_nonce_gap:
  assumes "map_get (ps_mempool s) (tx_from t) = None" and "pe_accountInfo e (tx_from t) (Some (tx_senderLegacyAddress t)) = Inr info"
    and "ai_nonce info < int (tx_nonce t)" and "senders_ok (ps_mempool s)"
  obtains err s' where "mempool_addTransaction e t s = Threw err s'" "pool_of s' = pool_of s"
proof -
  obtain w where w: "configure_sender e (tx_from t) (Some (tx_senderLegacyAddress t)) = Inr \<lparr>sm_wallet = w, sm_concurrency = 0, sm_transactions = []\<rparr>"
    "wl_nonce w = ai_nonce info" using assms(2) by (simp add: configure_sender_def init_wallet_def)
  let ?m = "\<lparr>sm_wallet = w, sm_concurrency = 0, sm_transactions = []\<rparr>"
  have "\<nexists>w'. apply_transaction e t w = Inr w'"
    using validate_accepts [of e w t 0 0] assms(3) w(2) by (auto simp: apply_transaction_def split: option.splits)
  with add_to_sender_result [of e t ?m] obtain err where err: "add_to_sender e t ?m = Threw err ?m" by auto
  let ?mp = "map_set (ps_mempool s) (tx_from t) ?m"
  have pool: "pool_mset (removeDisposableMempool (tx_from t) (map_set ?mp (tx_from t) ?m)) = pool_of s"
  proof -
    have "map_ok (map_set ?mp (tx_from t) ?m)" "map_get (map_set ?mp (tx_from t) ?m) (tx_from t) = Some ?m"
      using assms(4) by (simp_all add: senders_ok_def map_ok_set jsmap_simps)
    from pool_mset_delete [OF this] this(2) pool_mset_set(1) [of ?mp "tx_from t" ?m ?m] pool_mset_set(2) [OF assms(1), of ?m] show ?thesis
      by (simp add: removeDisposableMempool_def jsmap_simps)
  qed
  show ?thesis
  proof (rule that)
    show "mempool_addTransaction e t s = Threw err (s\<lparr>ps_mempool := removeDisposableMempool (tx_from t) (map_set ?mp (tx_from t) ?m)\<rparr>)"
      using assms(1,3) w err by (simp add: mempool_addTransaction_def Let_def)
  qed (simp add: pool)
qed

section \<open>Properties\<close>

text \<open>In every state the pool reaches by operations that run one after the other (\<open>Pool_Overlap\<close> for those that overlap) it holds at most \<open>maxTransactionsInPool\<close> transactions, with different hashes, each of them
  stored in the database under its hash and its sender's key; every sender's transactions are kept under the sender, with consecutive
  nonces and costs the sender can pay.\<close>

theorem pool_backed_and_bounded:
  assumes "pool_reachable fb af limit s"
  shows "mempool_size (ps_mempool s) \<le> limit \<and> distinct (map tx_hash (getAll (ps_mempool s)))
    \<and> (\<forall>t. t \<in> set (getAll (ps_mempool s)) \<longrightarrow>
         (\<exists>r \<in> set (ps_storage s). sx_hash r = tx_hash t \<and> sx_senderPublicKey r = tx_senderPublicKey t))
    \<and> distinct (map sx_hash (ps_storage s)) \<and> mempool_ok (ps_mempool s)
    \<and> (\<forall>k m. map_get (ps_mempool s) k = Some m \<longrightarrow> (\<exists>b n. sender_ok b n m))"
proof (intro conjI)
  from reachable_inv [OF assms] have inv: "senders_ok (ps_mempool s)" "backed af (mset (getAll (ps_mempool s))) (ps_storage s)" "rows_ok fb (ps_storage s)"
    and "bounded limit s" by (simp_all add: pool_inv_def getAll_mset)
  then show "mempool_size (ps_mempool s) \<le> limit" by (simp add: mempool_size_pool)
  show "distinct (map tx_hash (getAll (ps_mempool s)))" using inv(2) by (simp add: backed_def unique_hashes_list)
  show "\<forall>t. t \<in> set (getAll (ps_mempool s)) \<longrightarrow> (\<exists>r \<in> set (ps_storage s). sx_hash r = tx_hash t \<and> sx_senderPublicKey r = tx_senderPublicKey t)"
    using inv(2) by (simp add: backed_def row_of_def)
  show "distinct (map sx_hash (ps_storage s))" using inv(3) by (simp add: rows_ok_def)
  show "mempool_ok (ps_mempool s)" by (rule senders_ok_mempool_ok [OF inv(1)])
  show "\<forall>k m. map_get (ps_mempool s) k = Some m \<longrightarrow> (\<exists>b n. sender_ok b n m)" using inv(1) by (simp add: senders_ok_def entry_ok_def)
qed

text \<open>C21 (termination). In every state the pool reaches, every operation of the service returns: the loop that removes the lowest priority ends.
  The processor never throws, and sorts every transaction it is given into the accepted ones, which are broadcast, and the invalid ones,
  which carry an error.\<close>

theorem pool_operations_return:
  assumes "pool_reachable fb af limit s" and "pool_env_ok fb af limit e"
  shows "(\<exists>s'. service_reAddTransactions e s = Some s')
    \<and> (\<exists>res. service_commit e addresses consumedGas isSyncing s = Some res)
    \<and> (\<exists>r s'. process e data s = Some (Inr r, s')
         \<and> mset (pr_accept r @ pr_invalid r) = mset [0..<length data] \<and> pr_broadcast r = pr_accept r \<and> map fst (pr_errors r) = pr_invalid r
         \<and> pr_excess r = map fst (filter (\<lambda>(_, type). type = ''ERR_EXCEEDS_MAX_COUNT'') (pr_errors r)))"
  using reachable_inv [OF assms(1)] service_readd_result [OF assms(2)] service_commit_result [OF assms(2)] process_result [OF assms(2), of s data]
  unfolding result_ok_def by blast

text \<open>A full pool gives up its lowest transaction before it looks at the new one: a transaction with a higher gas price whose
  nonce is not the next one of its sender is refused, and the pool has lost a transaction.\<close>

theorem rejected_transaction_evicts:
  assumes "pool_reachable fb af limit s" and "pool_env_ok fb af limit e" and "\<not> ps_disposed s"
    and "\<not> storage_hasTransaction (tx_hash t) (ps_storage s)" and "\<forall>r \<in> set (ps_storage s). expiredBlockNumber e < int (sx_blockNumber r)"
    and "mempool_size (ps_mempool s) = limit" and "sum_bind (getFromLowestPriority (ps_mempool s)) query_first = Inr lowest"
    and "tx_gasPrice lowest < tx_gasPrice t"
    and "\<not> map_has (ps_mempool s) (tx_from t)" and "pe_accountInfo e (tx_from t) (Some (tx_senderLegacyAddress t)) = Inr info"
    and "ai_nonce info < int (tx_nonce t)"
  shows "\<exists>err s'. service_addTransaction e t s = Some (Threw err s') \<and> mempool_size (ps_mempool s') < limit
    \<and> lowest \<in> set (getAll (ps_mempool s)) \<and> lowest \<notin> set (getAll (ps_mempool s'))"
proof -
  have inv: "pool_inv fb af s" using reachable_inv [OF assms(1)] by simp
  then have senders: "senders_ok (ps_mempool s)" by (simp add: pool_inv_def)
  define r where "r = \<lparr>sx_blockNumber = pe_blockNumber e, sx_hash = tx_hash t, sx_senderPublicKey = tx_senderPublicKey t, sx_serialized = tx_serialized t\<rparr>"
  let ?s0 = "s\<lparr>ps_storage := ps_storage s @ [r]\<rparr>"
  have cfg: "pf_maxTransactionsInPool (pe_config e) = limit" "accounts_ok e" "0 < pf_maxTransactionAge (pe_config e)" using assms(2) by (simp_all add: pool_env_ok_def)
  have low: "lowest \<in># pool_of s" by (rule lowest_member [OF senders_ok_mempool_ok [OF senders] assms(7)])
  then have pos: "0 < limit" using assms(6) by (auto simp: mempool_size_pool nonempty_has_size [symmetric])
  have clean: "cleanUp e ?s0 = Some (Done ?s0)"
    by (rule cleanUp_nothing) (use assms(5,6) cfg in \<open>auto simp: r_def expiredBlockNumber_def\<close>)
  obtain removed mp where rm: "mempool_removeTransaction (tx_from lowest) (tx_hash lowest) (ps_mempool s) = (removed, mp)" by fastforce
  note rm' = mempool_remove [OF senders rm]
  define s1 where "s1 = fold (\<lambda>r s. dispatch_event RemovedFromPool r (forget_hash (tx_hash r) s)) removed (?s0\<lparr>ps_mempool := mp\<rparr>)"
  have lowest: "removeLowestPriorityTransaction ?s0 = Done s1"
    using assms(6,7) pos rm by (simp add: removeLowestPriorityTransaction_def s1_def)
  have mp: "ps_mempool s1 = mp" by (simp add: s1_def)
  have unknown: "map_get (ps_mempool s1) (tx_from t) = None"
    using assms(9) mempool_remove_has [OF rm, of "tx_from t"] unfolding mp map_has_get by metis
  obtain err s2 where s2: "mempool_addTransaction e t s1 = Threw err s2" and same: "pool_of s2 = pool_mset mp"
    by (rule unknown_nonce_gap [OF unknown assms(10,11)]) (use rm'(1) mp in auto)
  have add: "addTransactionToMempool e t ?s0 = Some (Threw err s2)"
    using clean assms(6-8) lowest s2 by (simp add: addTransactionToMempool_def Let_def cfg(1))
  let ?s3 = "dispatch_event RejectedByPool t (s2\<lparr>ps_storage := storage_removeTransaction (tx_hash t) (ps_storage s2)\<rparr>)"
  have "\<exists>err'. service_addTransaction e t s = Some (Threw err' ?s3)"
    using assms(3,4) add by (simp add: service_addTransaction_def storage_addTransaction_def r_def)
  moreover have "pool_of ?s3 = pool_mset mp" using same by simp
  moreover have "size (pool_mset mp) < limit"
  proof -
    have "removed \<noteq> []" using rm'(4) low by simp
    then show ?thesis using arg_cong [OF rm'(2), of size] assms(6) by (cases removed) (simp_all add: mempool_size_pool)
  qed
  moreover have "lowest \<notin># pool_mset mp" using rm'(3) by blast
  moreover have in_all: "u \<in> set (getAll q) \<longleftrightarrow> u \<in># pool_mset q" for u q by (metis getAll_mset set_mset_mset)
  ultimately show ?thesis using low by (metis mempool_size_pool)
qed

section \<open>A sample pool\<close>

text \<open>A factory that knows one transaction of \<open>alice\<close> and one of \<open>bob\<close>.\<close>

definition sample_alice_tx :: transaction where
  "sample_alice_tx = sample_pool_tx 5 1 10 ''a''"

definition sample_bob_tx :: transaction where
  "sample_bob_tx = (sample_pool_tx 9 4 10 ''b'')\<lparr>tx_from := ''bob'', tx_senderPublicKey := ''bobkey'', tx_serialized := [4]\<rparr>"

definition sample_fromBytes :: "bytes \<Rightarrow> error + transaction" where
  "sample_fromBytes bs = (if bs = [1, 2, 3] then Inr sample_alice_tx else if bs = [4] then Inr sample_bob_tx else Inl TypeError)"

definition sample_addressFactory :: "string \<Rightarrow> error + string" where
  "sample_addressFactory key = (if key = ''alicekey'' then Inr ''alice'' else Inr ''bob'')"

definition sample_service_env :: pool_env where
  "sample_service_env = sample_pool_env\<lparr>pe_fromBytes := sample_fromBytes, pe_addressFromPublicKey := sample_addressFactory,
     pe_config := (pe_config sample_pool_env)\<lparr>pf_maxTransactionsInPool := 1\<rparr>\<rparr>"

lemma sample_service_env_ok: "pool_env_ok sample_fromBytes sample_addressFactory 1 sample_service_env"
  by (auto simp: pool_env_ok_def factory_ok_def accounts_ok_def sample_service_env_def sample_pool_env_def sample_fromBytes_def sample_addressFactory_def
      sample_alice_tx_def sample_bob_tx_def sample_pool_tx_def split: if_splits)

definition sample_alice_row :: stored_transaction where
  "sample_alice_row = \<lparr>sx_blockNumber = 20, sx_hash = ''a'', sx_senderPublicKey = ''alicekey'', sx_serialized = [1, 2, 3]\<rparr>"

definition sample_full_pool :: pool_state where
  "sample_full_pool = \<lparr>ps_mempool = [(''alice'', \<lparr>sm_wallet = \<lparr>wl_address = ''alice'', wl_legacyAddress = Some [], wl_balance = 80, wl_nonce = 6,
       wl_secondPublicKey = None\<rparr>, sm_concurrency = 0, sm_transactions = [sample_alice_tx]\<rparr>)],
     ps_storage = [sample_alice_row], ps_cooldowns = [(''a'', 20)], ps_disposed = False, ps_events = [(AddedToPool, sample_alice_tx)], ps_broadcasts = []\<rparr>"

lemmas sample_service_defs = sample_service_env_def sample_pool_env_def sample_alice_tx_def sample_bob_tx_def sample_pool_tx_def sample_alice_row_def

lemma sample_added: "service_addTransaction sample_service_env sample_alice_tx (started_pool []) = Some (Done sample_full_pool)"
  by (simp add: service_addTransaction_def storage_hasTransaction_def storage_addTransaction_def addTransactionToMempool_def mempool_addTransaction_def
      mempool_size_def configure_sender_def init_wallet_def tryReplaceTransaction_def replace_in_sender_def getFromLatest_def add_to_sender_eq
      apply_transaction_def validateTransaction_def transaction_cost_def calculate_def hasLegacySecondPublicKey_def decreaseBalance_def increaseNonce_def
      removeDisposableMempool_def isDisposable_def dispatch_event_def started_pool_def map_get_def map_set_def sample_full_pool_def sample_service_defs Let_def)

lemma sample_reachable: "pool_reachable sample_fromBytes sample_addressFactory 1 sample_full_pool"
proof -
  have "sample_fromBytes [1, 2, 3] = Inr sample_alice_tx" by (simp add: sample_fromBytes_def)
  from pool_reachable.added [OF pool_reachable.first_start sample_service_env_ok this sample_added] show ?thesis by simp
qed

theorem pool_backed_and_bounded_witness:
  "mempool_size (ps_mempool sample_full_pool) = 1
   \<and> (\<exists>r \<in> set (ps_storage sample_full_pool). sx_hash r = tx_hash sample_alice_tx \<and> sx_senderPublicKey r = tx_senderPublicKey sample_alice_tx)"
  using pool_backed_and_bounded [OF sample_reachable]
  by (simp add: sample_full_pool_def mempool_size_def getAll_def getFromLatest_def)

theorem pool_operations_return_witness:
  "\<exists>r s'. process sample_service_env [[1, 2, 3], [7]] sample_full_pool = Some (Inr r, s') \<and> mset (pr_accept r @ pr_invalid r) = {#0, 1#}"
  using pool_operations_return [OF sample_reachable sample_service_env_ok, of "[]" 0 True "[[1, 2, 3], [7]]"] by (auto simp: upt_rec)

theorem rejected_transaction_evicts_witness:
  "\<exists>err s'. service_addTransaction sample_service_env sample_bob_tx sample_full_pool = Some (Threw err s') \<and> mempool_size (ps_mempool s') = 0"
proof -
  have low: "sum_bind (getFromLowestPriority (ps_mempool sample_full_pool)) query_first = Inr sample_alice_tx"
    by (simp add: getFromLowestPriority_def select_transactions_def group_by_sender_def getFromLatest_def query_first_def sortByLowestGasPrice_def
        sample_full_pool_def map_get_def map_set_def)
  have "\<exists>err s'. service_addTransaction sample_service_env sample_bob_tx sample_full_pool = Some (Threw err s') \<and> mempool_size (ps_mempool s') < 1
      \<and> sample_alice_tx \<in> set (getAll (ps_mempool sample_full_pool)) \<and> sample_alice_tx \<notin> set (getAll (ps_mempool s'))"
    by (rule rejected_transaction_evicts [OF sample_reachable sample_service_env_ok _ _ _ _ low, where info = "\<lparr>ai_balance = 100, ai_nonce = 5, ai_secondPublicKey = None\<rparr>"])
      (simp_all add: sample_full_pool_def storage_hasTransaction_def expiredBlockNumber_def mempool_size_def map_has_def sample_service_defs)
  then show ?thesis by auto
qed

end
