(* ===== verification/Pool_Worker.thy ===== *)
theory Pool_Worker
  imports Pool_Invariant
begin

text \<open>
  The thread of the transaction pool (\<open>packages/transaction-pool-worker/source\<close>): what the node asks of it (\<open>worker.ts\<close>) and the handlers of its requests
  (\<open>handlers/\<close>), over the pool and its selector. Environments of the pool - accounts, block number - are a function of the block number the thread was told.

  The request for a peer is in \<open>P2p_Peers\<close>, how requests travel in \<open>Kernel_Services\<close>. Starting the HTTP interface and webhooks are left out. When a milestone
  begins, the handler does not wait for the pool to be filled again; here it is one step.
\<close>

section \<open>State\<close>

record pool_thread =
  pt_pool :: pool_state
  pt_selector :: selector
  pt_blockNumber :: nat

record thread_env =
  te_pool :: "nat \<Rightarrow> pool_env"
  te_config :: network_config

section \<open>Requests of the node\<close>

definition add_value :: "'a \<Rightarrow> 'a list \<Rightarrow> 'a list" where
  "add_value x xs = (if x \<in> set xs then xs else xs @ [x])"

definition senders_of :: "transaction list \<Rightarrow> string list" where
  "senders_of ts = fold (\<lambda>t. add_value (tx_from t)) ts []"

text \<open>\<open>onCommit\<close>: the arguments of the request.\<close>

definition commit_request :: "timeouts \<Rightarrow> nat \<Rightarrow> block \<Rightarrow> nat \<times> string list \<times> nat \<times> bool" where
  "commit_request ts nowMs b =
     (bh_number (bk_header b), senders_of (bk_transactions b), bh_gasUsed (bk_header b), int (bh_timestamp (bk_header b)) < int nowMs - int (blockTime ts * 3))"

section \<open>Handlers\<close>

definition thread_setBlockNumber :: "nat \<Rightarrow> pool_thread \<Rightarrow> pool_thread" where
  "thread_setBlockNumber n t = t\<lparr>pt_blockNumber := n\<rparr>"

definition thread_isNewMilestone :: "thread_env \<Rightarrow> pool_thread \<Rightarrow> bool" where
  "thread_isNewMilestone te t = list_ex (\<lambda>m. ms_height m = pt_blockNumber t + 1) (nc_milestones (te_config te))"

definition handle_start :: "thread_env \<Rightarrow> nat \<Rightarrow> pool_thread \<Rightarrow> pool_thread option" where
  "handle_start te blockNumber t =
     (let t1 = thread_setBlockNumber blockNumber t
      in map_option (\<lambda>s. t1\<lparr>pt_pool := s\<rparr>) (service_reAddTransactions (te_pool te blockNumber) (pt_pool t1)))"

definition handle_commit :: "thread_env \<Rightarrow> nat \<times> string list \<times> nat \<times> bool \<Rightarrow> pool_thread \<Rightarrow> pool_thread outcome option" where
  "handle_commit te r t =
     (case r of (blockNumber, sendersAddresses, consumedGas, isSyncing) \<Rightarrow>
        let t1 = (thread_setBlockNumber blockNumber t)\<lparr>pt_selector := clear_selector\<rparr>; e = te_pool te blockNumber
        in if thread_isNewMilestone te t1 then map_option (\<lambda>s. Done (t1\<lparr>pt_pool := s\<rparr>)) (service_reAddTransactions e (pt_pool t1))
           else map_option (\<lambda>res. case res of
                    Done s \<Rightarrow> Done (t1\<lparr>pt_pool := s\<rparr>)
                  | Threw _ s \<Rightarrow> Threw (JsError ''Failed to commit block'') (t1\<lparr>pt_pool := s\<rparr>))
                (service_commit e sendersAddresses consumedGas isSyncing (pt_pool t1)))"

definition handle_getTransactions :: "string \<Rightarrow> nat \<Rightarrow> nat \<Rightarrow> pool_thread \<Rightarrow> (error + nat \<times> transaction list) \<times> pool_thread" where
  "handle_getTransactions blockRound maxBytes maxSize t =
     (case getBatch (ps_mempool (pt_pool t)) blockRound maxBytes maxSize (pt_selector t) of (r, se) \<Rightarrow> (r, t\<lparr>pt_selector := se\<rparr>))"

text \<open>The life of the thread: requests of the node, transactions from the HTTP interface, and its own listener, in any order.\<close>

inductive thread_reach :: "(bytes \<Rightarrow> error + transaction) \<Rightarrow> (string \<Rightarrow> error + string) \<Rightarrow> nat \<Rightarrow> thread_env \<Rightarrow> pool_thread \<Rightarrow> bool" for fb af limit te where
  first_thread: "thread_reach fb af limit te \<lparr>pt_pool = started_pool [], pt_selector = clear_selector, pt_blockNumber = 0\<rparr>"
| next_thread: "thread_reach fb af limit te t \<Longrightarrow> thread_reach fb af limit te \<lparr>pt_pool = started_pool (ps_storage (pt_pool t)), pt_selector = clear_selector, pt_blockNumber = 0\<rparr>"
| started: "thread_reach fb af limit te t \<Longrightarrow> handle_start te n t = Some t' \<Longrightarrow> thread_reach fb af limit te t'"
| committed: "thread_reach fb af limit te t \<Longrightarrow> handle_commit te r t = Some res \<Longrightarrow> thread_reach fb af limit te (outcome_state res)"
| given: "thread_reach fb af limit te t \<Longrightarrow> thread_reach fb af limit te (snd (handle_getTransactions blockRound maxBytes maxSize t))"
| dropped: "thread_reach fb af limit te t \<Longrightarrow> (\<And>u. u \<in> set (getAll (ps_mempool (pt_pool t))) \<Longrightarrow> tx_hash u = hash \<Longrightarrow> tx_from u = address) \<Longrightarrow>
    thread_reach fb af limit te (t\<lparr>pt_pool := handle_removeTransaction address hash (pt_pool t)\<rparr>)"
| posted: "thread_reach fb af limit te t \<Longrightarrow> process (te_pool te (pt_blockNumber t)) data (pt_pool t) = Some (r, s) \<Longrightarrow> thread_reach fb af limit te (t\<lparr>pt_pool := s\<rparr>)"
| heard: "thread_reach fb af limit te t \<Longrightarrow> thread_reach fb af limit te (t\<lparr>pt_pool := removalListener hash (pt_pool t)\<rparr>)"
| closed: "thread_reach fb af limit te t \<Longrightarrow> thread_reach fb af limit te (t\<lparr>pt_pool := service_dispose (pt_pool t)\<rparr>)"

section \<open>The pool of the thread is a pool\<close>

lemma outcome_state_case: "outcome_state (case res of Done s \<Rightarrow> Done (f s) | Threw x s \<Rightarrow> Threw (g x) (f s)) = f (outcome_state res)"
  by (cases res) simp_all

lemma commit_pool:
  assumes "handle_commit te (n, addresses, gas, syncing) t = Some res"
  shows "(\<exists>s. service_reAddTransactions (te_pool te n) (pt_pool t) = Some s \<and> pt_pool (outcome_state res) = s)
    \<or> (\<exists>r. service_commit (te_pool te n) addresses gas syncing (pt_pool t) = Some r \<and> pt_pool (outcome_state res) = outcome_state r)"
  using assms by (auto simp: handle_commit_def Let_def thread_setBlockNumber_def outcome_state_case split: if_splits)

lemma commit_done:
  assumes "handle_commit te (n, addresses, gas, syncing) t = Some (Done t')" and "\<not> thread_isNewMilestone te t'"
  obtains s where "service_commit (te_pool te n) addresses gas syncing (pt_pool t) = Some (Done s)" "pt_pool t' = s" "pt_selector t' = clear_selector"
proof -
  let ?t1 = "(thread_setBlockNumber n t)\<lparr>pt_selector := clear_selector\<rparr>"
  have old: "\<not> thread_isNewMilestone te ?t1"
  proof
    assume "thread_isNewMilestone te ?t1"
    then show False using assms by (auto simp: handle_commit_def Let_def thread_setBlockNumber_def thread_isNewMilestone_def)
  qed
  have "map_option (\<lambda>res. case res of Done s \<Rightarrow> Done (?t1\<lparr>pt_pool := s\<rparr>) | Threw _ s \<Rightarrow> Threw (JsError ''Failed to commit block'') (?t1\<lparr>pt_pool := s\<rparr>))
      (service_commit (te_pool te n) addresses gas syncing (pt_pool ?t1)) = Some (Done t')"
    using assms(1) old by (simp add: handle_commit_def Let_def)
  then obtain res where res: "service_commit (te_pool te n) addresses gas syncing (pt_pool t) = Some res"
    "(case res of Done s \<Rightarrow> Done (?t1\<lparr>pt_pool := s\<rparr>) | Threw _ s \<Rightarrow> Threw (JsError ''Failed to commit block'') (?t1\<lparr>pt_pool := s\<rparr>)) = Done t'"
    by (auto simp: thread_setBlockNumber_def)
  then show thesis using that by (cases res) auto
qed

lemma thread_pool:
  assumes "thread_reach fb af limit te t" and env: "\<And>n. pool_env_ok fb af limit (te_pool te n)"
  shows "pool_reachable fb af limit (pt_pool t)"
  using assms(1)
proof (induction rule: thread_reach.induct)
  case (started t n t')
  then show ?case using pool_reachable.readded [OF started.IH env] by (auto simp: handle_start_def Let_def thread_setBlockNumber_def)
next
  case (committed t r res)
  obtain n addresses gas syncing where "r = (n, addresses, gas, syncing)" by (metis prod_cases4)
  then show ?case using commit_pool committed pool_reachable.readded [OF committed.IH env] pool_reachable.committed [OF committed.IH env] by metis
next
  case (given t blockRound maxBytes maxSize)
  then show ?case by (simp add: handle_getTransactions_def split: prod.splits)
next
  case (dropped t hash address)
  then show ?case by (simp add: pool_reachable.removed)
next
  case (posted t data r s)
  then show ?case using pool_reachable.processed [OF posted.IH env] by simp
qed (simp_all add: pool_reachable.first_start pool_reachable.restart pool_reachable.delivered pool_reachable.disposed)

section \<open>What a committed block leaves\<close>

text \<open>\<open>nonce\<close> are the nonces of accounts after the block, whatever legacy address is asked with.\<close>

definition account_nonces :: "pool_env \<Rightarrow> (string \<Rightarrow> int) \<Rightarrow> bool" where
  "account_nonces e nonce \<longleftrightarrow> (\<forall>a l info. pe_accountInfo e a l = Inr info \<longrightarrow> ai_nonce info = nonce a)"

definition above :: "(string \<Rightarrow> int) \<Rightarrow> string set \<Rightarrow> transaction multiset \<Rightarrow> bool" where
  "above nonce addresses P \<longleftrightarrow> (\<forall>t. t \<in># P \<longrightarrow> tx_from t \<in> addresses \<longrightarrow> nonce (tx_from t) \<le> int (tx_nonce t))"

lemma above_subset: "above nonce A P \<Longrightarrow> set_mset Q \<subseteq> set_mset P \<Longrightarrow> above nonce A Q"
  by (auto simp: above_def)

lemma above_insert: "above nonce {a} P \<Longrightarrow> above nonce A P \<Longrightarrow> above nonce (insert a A) P"
  by (auto simp: above_def)

lemma sender_ok_above: "sender_ok b n m \<Longrightarrow> t \<in> set (sm_transactions m) \<Longrightarrow> n \<le> int (tx_nonce t)"
  by (auto simp: sender_ok_def in_set_conv_nth)

lemma readd_sender_nonces:
  assumes "entry_ok k m" and "accounts_ok e" and "account_nonces e nonce" and "readd_in_sender e m = (Inr removed, m')" and "t \<in> set (sm_transactions m')"
  shows "nonce k \<le> int (tx_nonce t)"
proof -
  have k: "wl_address (sm_wallet m) = k" and nonneg: "\<forall>t \<in> set (sm_transactions m). 0 \<le> tx_value t" using assms(1) by (auto simp: entry_ok_def sender_ok_def)
  obtain info where info: "pe_accountInfo e (wl_address (sm_wallet m)) (wl_legacyAddress (sm_wallet m)) = Inr info"
    using assms(4) by (auto simp: readd_in_sender_def init_wallet_def sum_bind_Inr_iff split: sum.splits)
  moreover have "0 \<le> ai_balance info" using info assms(2) by (simp add: accounts_ok_def)
  ultimately have "sender_ok (ai_balance info) (ai_nonce info) m'" using readd_in_sender_ok [OF info _ nonneg assms(4)] by blast
  then show ?thesis using sender_ok_above [OF _ assms(5)] info assms(3) k by (auto simp: account_nonces_def)
qed

lemma readd_nonces:
  assumes "senders_ok mp" and "accounts_ok e" and "account_nonces e nonce" and "mempool_reAddTransactions e addresses mp = (Inr removed, mp')"
  shows "above nonce (set addresses) (pool_mset mp')"
  using assms(1,4)
proof (induction addresses arbitrary: mp removed)
  case (Cons address addresses)
  show ?case
  proof (cases "map_get mp address")
    case None
    then have rest: "mempool_reAddTransactions e addresses mp = (Inr removed, mp')" using Cons.prems(2) by simp
    have "tx_from t \<noteq> address" if "t \<in># pool_mset mp" for t using in_pool_get [OF senders_ok_mempool_ok [OF Cons.prems(1)] that] None by fastforce
    then have "above nonce {address} (pool_mset mp)" by (auto simp: above_def)
    then have "above nonce {address} (pool_mset mp')"
      by (rule above_subset) (use mempool_readd_result [OF Cons.prems(1) assms(2) rest] in \<open>auto dest: mset_subset_eqD\<close>)
    then show ?thesis using Cons.IH [OF Cons.prems(1) rest] by (simp add: above_insert)
  next
    case (Some m)
    obtain removed1 m1 removed2 where r1: "readd_in_sender e m = (Inr removed1, m1)"
      and rest: "mempool_reAddTransactions e addresses (removeDisposableMempool address (map_set mp address m1)) = (Inr removed2, mp')"
      using Cons.prems(2) Some by (auto split: prod.splits sum.splits)
    have entry: "entry_ok address m" by (rule senders_ok_entry [OF Cons.prems(1) Some])
    have s1: "senders_ok (map_set mp address m1)" by (rule senders_ok_set [OF Cons.prems(1) readd_in_sender_entry(1) [OF entry assms(2) r1]])
    let ?mp1 = "removeDisposableMempool address (map_set mp address m1)"
    have "above nonce {address} (pool_mset ?mp1)" unfolding above_def dispose_ok(2) [OF s1]
    proof (intro allI impI)
      fix t assume t: "t \<in># pool_mset (map_set mp address m1)" "tx_from t \<in> {address}"
      obtain m2 where "map_get (map_set mp address m1) (tx_from t) = Some m2" "t \<in> set (sm_transactions m2)" by (rule in_pool_get [OF senders_ok_mempool_ok [OF s1] t(1)])
      then have "t \<in> set (sm_transactions m1)" using t(2) by (simp add: jsmap_simps)
      then show "nonce (tx_from t) \<le> int (tx_nonce t)" using readd_sender_nonces [OF entry assms(2,3) r1] t(2) by simp
    qed
    then have "above nonce {address} (pool_mset mp')"
      by (rule above_subset) (use mempool_readd_result [OF dispose_ok(1) [OF s1] assms(2) rest] in \<open>auto dest: mset_subset_eqD\<close>)
    then show ?thesis using Cons.IH [OF dispose_ok(1) [OF s1] rest] by (simp add: above_insert)
  qed
qed (simp add: above_def)

lemma commit_nonces:
  assumes env: "pool_env_ok fb af limit e" and inv: "pool_inv fb af s" and "account_nonces e nonce" and "\<not> ps_disposed s"
    and c: "service_commit e addresses consumedGas isSyncing s = Some (Done s')"
  shows "above nonce (set addresses) (pool_of s')"
proof -
  have senders: "senders_ok (ps_mempool s)" and acc: "accounts_ok e" and cfg: "factory_ok (pe_fromBytes e) (pe_addressFromPublicKey e)"
    "pe_fromBytes e = fb" "pe_addressFromPublicKey e = af" using inv env by (auto simp: pool_inv_def pool_env_ok_def)
  obtain removed mp where r: "mempool_reAddTransactions e addresses (ps_mempool s) = (Inr removed, mp)"
    using c assms(4) by (auto simp: service_commit_def split: prod.splits sum.splits)
  let ?s1 = "fold (\<lambda>r s. dispatch_event RemovedFromPool r (forget_hash (tx_hash r) s)) removed (s\<lparr>ps_mempool := mp\<rparr>)"
  have sh: "shrinks (\<lambda>_. True) s ?s1" by (rule shrinks_removed [OF inv]) (use mempool_readd_result [OF senders acc r] in auto)
  obtain s2 where s2: "cleanUp e ?s1 = Some (Done s2)" "shrinks (\<lambda>r. \<not> is_old e r) ?s1 s2"
    by (rule cleanUp_shrinks [of e ?s1]) (use shrinks_inv [OF inv sh] cfg in auto)
  have "ps_mempool s' = ps_mempool s2"
    using c s2(1) r assms(4) rebroadcast_same [of e consumedGas s2] by (cases isSyncing) (auto simp: service_commit_def Let_def split: outcome.splits)
  moreover have "above nonce (set addresses) (pool_of s2)"
    using above_subset [OF readd_nonces [OF senders acc assms(3) r] shrinks_members [OF s2(2), simplified]] by simp
  ultimately show ?thesis by simp
qed

lemma senders_of_members: "set (senders_of ts) = tx_from ` set ts"
proof -
  have "set (fold (\<lambda>t. add_value (tx_from t)) ts acc) = set acc \<union> tx_from ` set ts" for acc
    by (induction ts arbitrary: acc) (auto simp: add_value_def)
  then show ?thesis by (simp add: senders_of_def)
qed

text \<open>The first batch for a block after the selector was cleared.\<close>

lemma batch_loop_subset: "set (batch_loop ts bytes n taken) \<subseteq> set ts"
  by (induction ts bytes n taken rule: batch_loop.induct) auto

lemma first_batch:
  assumes "senders_ok mp" and "getBatch mp blockRound maxBytes maxSize clear_selector = (Inr (n, batch), se)" and "blockRound \<noteq> []"
  shows "set batch \<subseteq> set_mset (pool_mset mp)"
proof -
  obtain out where out: "getFromHighestPriority mp = Inr out" "\<And>k. of_sender k out = transactions_of mp k"
    using earliest.select_transactions_merges [OF senders_ok_mempool_ok [OF assms(1)], of sortByHighestGasPrice] by (auto simp: getFromHighestPriority_def)
  have "set batch \<subseteq> set out" using assms(2,3) out(1) batch_loop_subset by (fastforce simp: getBatch_def prepare_def clear_selector_def Let_def)
  moreover have "t \<in># pool_mset mp" if "t \<in> set out" for t
  proof -
    have "t \<in> set (transactions_of mp (tx_from t))" using that unfolding out(2) [symmetric] by simp
    then show ?thesis using get_in_pool [of mp "tx_from t"] by (cases "map_get mp (tx_from t)") (simp_all add: transactions_of_def)
  qed
  ultimately show ?thesis by blast
qed

text \<open>C23 (functional). When the node has committed a block and its request was handled, outside a change of milestone, no transaction that the block outdates - same
  sender, same or lower nonce, the ones of the block among them - is left in the pool or given out for the next block.\<close>

theorem committed_transactions_leave_the_pool:
  assumes "thread_reach fb af limit te t" and "\<And>n. pool_env_ok fb af limit (te_pool te n)" and "\<not> ps_disposed (pt_pool t)"
    and "handle_commit te (commit_request ts now b) t = Some (Done t')" and "\<not> thread_isNewMilestone te t'"
    and "account_nonces (te_pool te (bh_number (bk_header b))) nonce" and "\<And>u. u \<in> set (bk_transactions b) \<Longrightarrow> int (tx_nonce u) < nonce (tx_from u)"
    and "handle_getTransactions blockRound maxBytes maxSize t' = (Inr (left, batch), t'')" and "blockRound \<noteq> []"
    and "u \<in> set (bk_transactions b)" and "v \<in> set (getAll (ps_mempool (pt_pool t'))) \<union> set batch" and "tx_from v = tx_from u"
  shows "tx_nonce u < tx_nonce v"
proof -
  let ?e = "te_pool te (bh_number (bk_header b))"
  have inv: "pool_inv fb af (pt_pool t)" using reachable_inv [OF thread_pool [OF assms(1,2)]] by simp
  obtain gas syncing s where r: "commit_request ts now b = (bh_number (bk_header b), senders_of (bk_transactions b), gas, syncing)"
    and c: "service_commit ?e (senders_of (bk_transactions b)) gas syncing (pt_pool t) = Some (Done s)" and t': "pt_pool t' = s" "pt_selector t' = clear_selector"
    using commit_done [OF assms(4) [unfolded commit_request_def] assms(5)] by (auto simp: commit_request_def)
  have up: "above nonce (tx_from ` set (bk_transactions b)) (pool_of s)"
    using commit_nonces [OF assms(2) inv assms(6,3) c] by (simp add: senders_of_members)
  obtain res where "service_commit ?e (senders_of (bk_transactions b)) gas syncing (pt_pool t) = Some res" "pool_inv fb af (outcome_state res)"
    using service_commit_result [OF assms(2) inv] reachable_inv [OF thread_pool [OF assms(1,2)]] by blast
  then have senders: "senders_ok (ps_mempool s)" using c by (auto simp: pool_inv_def)
  have "set batch \<subseteq> set_mset (pool_of s)"
    using first_batch [OF senders _ assms(9), of maxBytes maxSize left batch] assms(8) t' by (auto simp: handle_getTransactions_def split: prod.splits)
  moreover have "set (getAll (ps_mempool (pt_pool t'))) = set_mset (pool_of s)" by (metis getAll_mset set_mset_mset t'(1))
  ultimately have "v \<in># pool_of s" using assms(11) by auto
  then have "nonce (tx_from v) \<le> int (tx_nonce v)" using up assms(10,12) by (auto simp: above_def)
  then show ?thesis using assms(7) [OF assms(10)] assms(12) by simp
qed

section \<open>A sample thread\<close>

text \<open>Two transactions of one sender, with nonces 4 and 5; the block after block 2 has one with nonce 4.\<close>

definition thread_tx :: "nat \<Rightarrow> string \<Rightarrow> transaction" where
  "thread_tx nonce hash = (sample_pool_tx nonce 1 10 hash)\<lparr>tx_serialized := [of_nat nonce]\<rparr>"

definition thread_fromBytes :: "bytes \<Rightarrow> error + transaction" where
  "thread_fromBytes bs = (if bs = [4] then Inr (thread_tx 4 ''a'') else if bs = [5] then Inr (thread_tx 5 ''b'') else Inl TypeError)"

definition thread_sample :: thread_env where
  "thread_sample = \<lparr>te_pool = (\<lambda>n. sample_pool_env\<lparr>pe_fromBytes := thread_fromBytes, pe_addressFromPublicKey := sample_addressFactory, pe_blockNumber := n,
     pe_accountInfo := (\<lambda>_ _. Inr \<lparr>ai_balance = 100, ai_nonce = (if n < 3 then 4 else 5), ai_secondPublicKey = None\<rparr>)\<rparr>),
     te_config = \<lparr>nc_genesisNumber = 0, nc_milestones = [], nc_chainId = 1\<rparr>\<rparr>"

definition thread_block :: block where
  "thread_block = \<lparr>bk_header = \<lparr>bh_version = 1, bh_timestamp = 0, bh_number = 3, bh_round = 0, bh_parentHash = [], bh_stateRoot = [], bh_logsBloom = [], bh_transactionsCount = 1,
     bh_gasUsed = 0, bh_fee = 0, bh_reward = 0, bh_payloadSize = 0, bh_transactionsRoot = [], bh_proposer = [], bh_randaoReveal = [], bh_hash = []\<rparr>,
     bk_serialized = [], bk_transactions = [thread_tx 4 ''a'']\<rparr>"

definition thread_pool_state :: "transaction list \<Rightarrow> int \<Rightarrow> stored_transaction list \<Rightarrow> (string, nat) jsmap \<Rightarrow> (pool_event \<times> transaction) list \<Rightarrow> transaction list list \<Rightarrow> pool_state" where
  "thread_pool_state ts balance rows cooldowns events broadcasts = \<lparr>ps_mempool = [(''alice'', \<lparr>sm_wallet = \<lparr>wl_address = ''alice'', wl_legacyAddress = Some [], wl_balance = balance,
     wl_nonce = 6, wl_secondPublicKey = None\<rparr>, sm_concurrency = 0, sm_transactions = ts\<rparr>)], ps_storage = rows, ps_cooldowns = cooldowns, ps_disposed = False, ps_events = events,
     ps_broadcasts = broadcasts\<rparr>"

definition thread_row :: "nat \<Rightarrow> string \<Rightarrow> stored_transaction" where
  "thread_row nonce hash = \<lparr>sx_blockNumber = 2, sx_hash = hash, sx_senderPublicKey = ''alicekey'', sx_serialized = [of_nat nonce]\<rparr>"

definition thread_before :: pool_thread where
  "thread_before = \<lparr>pt_pool = thread_pool_state [thread_tx 4 ''a'', thread_tx 5 ''b''] 60 [thread_row 4 ''a'', thread_row 5 ''b''] [(''a'', 2), (''b'', 2)]
       [(AddedToPool, thread_tx 4 ''a''), (AddedToPool, thread_tx 5 ''b'')] [[thread_tx 4 ''a'', thread_tx 5 ''b'']],
     pt_selector = clear_selector, pt_blockNumber = 2\<rparr>"

definition thread_after :: pool_thread where
  "thread_after = \<lparr>pt_pool = thread_pool_state [thread_tx 5 ''b''] 80 [thread_row 5 ''b''] [(''b'', 2)]
       [(AddedToPool, thread_tx 4 ''a''), (AddedToPool, thread_tx 5 ''b''), (RemovedFromPool, thread_tx 4 ''a'')] [[thread_tx 4 ''a'', thread_tx 5 ''b'']],
     pt_selector = clear_selector, pt_blockNumber = 3\<rparr>"

lemmas thread_defs = service_addTransaction_def storage_hasTransaction_def storage_addTransaction_def addTransactionToMempool_def mempool_addTransaction_def
  mempool_size_def configure_sender_def init_wallet_def tryReplaceTransaction_def replace_in_sender_def getFromLatest_def add_to_sender_eq
  apply_transaction_def validateTransaction_def transaction_cost_def calculate_def hasLegacySecondPublicKey_def decreaseBalance_def increaseNonce_def
  removeDisposableMempool_def isDisposable_def dispatch_event_def started_pool_def map_get_def map_set_def Let_def sample_pool_env_def sample_pool_tx_def
  thread_tx_def thread_sample_def thread_pool_state_def thread_row_def

lemma thread_posted: "process (te_pool thread_sample 2) [[4], [5]] (started_pool []) = Some (Inr \<lparr>pr_accept = [0, 1], pr_broadcast = [0, 1], pr_invalid = [], pr_excess = [], pr_errors = []\<rparr>, pt_pool thread_before)"
  by (simp add: process_def getTransactionFromBuffer_def thread_fromBytes_def thread_before_def thread_defs)

lemma thread_env: "pool_env_ok thread_fromBytes sample_addressFactory 2 (te_pool thread_sample n)"
  by (auto simp: pool_env_ok_def factory_ok_def accounts_ok_def thread_sample_def sample_pool_env_def thread_fromBytes_def sample_addressFactory_def thread_tx_def sample_pool_tx_def split: if_splits)

lemma thread_reached: "thread_reach thread_fromBytes sample_addressFactory 2 thread_sample thread_before"
proof -
  have "handle_start thread_sample 2 \<lparr>pt_pool = started_pool [], pt_selector = clear_selector, pt_blockNumber = 0\<rparr>
      = Some \<lparr>pt_pool = started_pool [], pt_selector = clear_selector, pt_blockNumber = 2\<rparr>"
    by (simp add: handle_start_def thread_setBlockNumber_def service_reAddTransactions_def started_pool_def)
  from thread_reach.posted [OF thread_reach.started [OF thread_reach.first_thread this]] thread_posted show ?thesis by (force simp: thread_before_def)
qed

lemma thread_committed: "handle_commit thread_sample (commit_request \<lparr>blockPrepareTime = 4, blockTime = 8, stageTimeout = 2, stageTimeoutIncrease = 2, tolerance = 1\<rparr> 99 thread_block) thread_before
    = Some (Done thread_after)"
proof -
  let ?e = "te_pool thread_sample 3"
  have readd: "mempool_reAddTransactions ?e [''alice''] (ps_mempool (pt_pool thread_before)) = (Inr [thread_tx 4 ''a''], ps_mempool (pt_pool thread_after))"
    by (simp add: readd_in_sender_def thread_before_def thread_after_def thread_defs)
  have clean: "cleanUp ?e (pt_pool thread_after) = Some (Done (pt_pool thread_after))"
    by (rule cleanUp_nothing) (simp_all add: thread_after_def expiredBlockNumber_def thread_defs)
  have "service_commit ?e [''alice''] 0 True (pt_pool thread_before) = Some (Done (pt_pool thread_after))"
  proof -
    have "(\<lambda>r s. dispatch_event RemovedFromPool r (forget_hash (tx_hash r) s)) (thread_tx 4 ''a'') ((pt_pool thread_before)\<lparr>ps_mempool := ps_mempool (pt_pool thread_after)\<rparr>) = pt_pool thread_after"
      by (simp add: forget_hash_def storage_removeTransaction_def map_delete_def thread_before_def thread_after_def thread_defs)
    moreover have "\<not> ps_disposed (pt_pool thread_before)" by (simp add: thread_before_def thread_pool_state_def)
    ultimately show ?thesis using readd clean by (simp add: service_commit_def Let_def)
  qed
  then show ?thesis
    by (simp add: handle_commit_def commit_request_def thread_block_def senders_of_def add_value_def thread_setBlockNumber_def thread_isNewMilestone_def Let_def)
      (simp add: thread_before_def thread_after_def thread_sample_def thread_tx_def sample_pool_tx_def)
qed

lemma thread_batch: "\<exists>t''. handle_getTransactions ''3-0'' 100 10 thread_after = (Inr (0, [thread_tx 5 ''b'']), t'')"
  by (simp add: handle_getTransactions_def getBatch_def prepare_def clear_selector_def thread_after_def thread_pool_state_def getFromHighestPriority_def select_transactions_def
    group_by_sender_def getFromEarliest_def sortByHighestGasPrice_def map_get_def map_set_def Let_def thread_tx_def sample_pool_tx_def)

theorem committed_transactions_leave_the_pool_witness:
  "getAll (ps_mempool (pt_pool thread_before)) = [thread_tx 5 ''b'', thread_tx 4 ''a''] \<and> getAll (ps_mempool (pt_pool thread_after)) = [thread_tx 5 ''b'']
   \<and> tx_nonce (thread_tx 4 ''a'') < tx_nonce (thread_tx 5 ''b'')"
proof -
  obtain t'' where batch: "handle_getTransactions ''3-0'' 100 10 thread_after = (Inr (0, [thread_tx 5 ''b'']), t'')" using thread_batch by blast
  have "tx_nonce (thread_tx 4 ''a'') < tx_nonce (thread_tx 5 ''b'')"
  proof (rule committed_transactions_leave_the_pool [OF thread_reached thread_env _ thread_committed _ _ _ batch, where nonce = "\<lambda>_. 5"])
    show "\<not> ps_disposed (pt_pool thread_before)" by (simp add: thread_before_def thread_pool_state_def)
    show "\<not> thread_isNewMilestone thread_sample thread_after" by (simp add: thread_isNewMilestone_def thread_sample_def)
  qed (simp_all add: thread_block_def account_nonces_def thread_sample_def thread_tx_def sample_pool_tx_def)
  then show ?thesis by (simp add: thread_before_def thread_after_def thread_pool_state_def getAll_def getFromLatest_def)
qed

end
