(* ===== verification/Pool_Overlap.thy ===== *)
theory Pool_Overlap
  imports Pool_Invariant
begin

text \<open>
  The pool when additions overlap. The service adds under \<open>runNonExclusive\<close>, so an addition can begin, and see the size of the pool, while
  another one waits for the account data of its sender: \<open>addTransaction_begin\<close> is the part of \<open>addTransaction\<close> of \<open>service.ts\<close> before its first
  \<open>await\<close> in a pool that is not full, \<open>addTransaction_insert\<close> the rest. Two additions that overlap exceed \<open>maxTransactionsInPool\<close>.

  A commit runs under \<open>runExclusive\<close>, with no addition under way. What it does is stated for every pool, whatever additions left behind:
  \<open>settles\<close> relates two states with the events in between that account for what has gone.
\<close>

section \<open>The parts of an addition\<close>

text \<open>An addition that ends at once, or the pool with the new row.\<close>

definition addTransaction_begin :: "pool_env \<Rightarrow> transaction \<Rightarrow> pool_state \<Rightarrow> pool_state outcome + pool_state" where
  "addTransaction_begin e t s =
     (if ps_disposed s then Inl (Done s)
      else if storage_hasTransaction (tx_hash t) (ps_storage s) then Inl (Threw (JsError ''TransactionAlreadyInPoolError'') s)
      else case storage_addTransaction
             \<lparr>sx_blockNumber = pe_blockNumber e, sx_hash = tx_hash t, sx_senderPublicKey = tx_senderPublicKey t, sx_serialized = tx_serialized t\<rparr>
             (ps_storage s) of
             Inl err \<Rightarrow> Inl (Threw err s)
           | Inr rows \<Rightarrow> Inr (s\<lparr>ps_storage := rows\<rparr>))"

definition addTransaction_finish :: "pool_env \<Rightarrow> transaction \<Rightarrow> pool_state outcome \<Rightarrow> pool_state outcome" where
  "addTransaction_finish e t result =
     (case result of
        Done s1 \<Rightarrow> Done (dispatch_event AddedToPool t (s1\<lparr>ps_cooldowns := map_set (ps_cooldowns s1) (tx_hash t) (pe_blockNumber e)\<rparr>))
      | Threw err s1 \<Rightarrow>
          Threw (if pool_error_type err = None then JsError ''PoolError'' else err)
            (dispatch_event RejectedByPool t (s1\<lparr>ps_storage := storage_removeTransaction (tx_hash t) (ps_storage s1)\<rparr>)))"

definition addTransaction_insert :: "pool_env \<Rightarrow> transaction \<Rightarrow> pool_state \<Rightarrow> pool_state outcome" where
  "addTransaction_insert e t s = addTransaction_finish e t (mempool_addTransaction e t s)"

text \<open>Run one after the other they are the whole addition.\<close>

lemma service_addTransaction_parts:
  "service_addTransaction e t s =
     (case addTransaction_begin e t s of
        Inl result \<Rightarrow> Some result
      | Inr s1 \<Rightarrow>
          if mempool_size (ps_mempool s1) < pf_maxTransactionsInPool (pe_config e) then Some (addTransaction_insert e t s1)
          else Option.bind (addTransactionToMempool e t s1) (\<lambda>result. Some (addTransaction_finish e t result)))"
  by (auto simp: service_addTransaction_def addTransaction_begin_def addTransaction_insert_def addTransaction_finish_def addTransactionToMempool_def Let_def
    split: sum.split outcome.split)

section \<open>Settling\<close>

definition settles :: "pool_state \<Rightarrow> pool_state \<Rightarrow> bool" where
  "settles s s' \<longleftrightarrow> mempool_ok (ps_mempool s') \<and> set (ps_storage s') \<subseteq> set (ps_storage s)
     \<and> (\<exists>gone. ps_events s' = ps_events s @ gone \<and> fst ` set gone \<subseteq> {RemovedFromPool, Expired}
          \<and> pool_of s = pool_of s' + mset (map snd gone) \<and> (\<forall>t \<in> snd ` set gone. \<not> storage_hasTransaction (tx_hash t) (ps_storage s')))"

lemma settles_refl: "mempool_ok (ps_mempool s) \<Longrightarrow> settles s s"
  by (auto simp: settles_def)

lemma settles_trans:
  assumes "settles s s1" and "settles s1 s2"
  shows "settles s s2"
proof -
  obtain g1 where g1: "ps_events s1 = ps_events s @ g1" "fst ` set g1 \<subseteq> {RemovedFromPool, Expired}"
    "pool_of s = pool_of s1 + mset (map snd g1)" "\<forall>t \<in> snd ` set g1. \<not> storage_hasTransaction (tx_hash t) (ps_storage s1)"
    using assms(1) unfolding settles_def by blast
  obtain g2 where g2: "ps_events s2 = ps_events s1 @ g2" "fst ` set g2 \<subseteq> {RemovedFromPool, Expired}"
    "pool_of s1 = pool_of s2 + mset (map snd g2)" "\<forall>t \<in> snd ` set g2. \<not> storage_hasTransaction (tx_hash t) (ps_storage s2)"
    using assms(2) unfolding settles_def by blast
  have sub: "set (ps_storage s2) \<subseteq> set (ps_storage s1)" "set (ps_storage s1) \<subseteq> set (ps_storage s)" and ok: "mempool_ok (ps_mempool s2)"
    using assms by (simp_all only: settles_def)
  show ?thesis unfolding settles_def
  proof (intro conjI exI [of _ "g1 @ g2"])
    show "ps_events s2 = ps_events s @ g1 @ g2" by (simp add: g1(1) g2(1))
    show "fst ` set (g1 @ g2) \<subseteq> {RemovedFromPool, Expired}" using g1(2) g2(2) by auto
    show "pool_of s = pool_of s2 + mset (map snd (g1 @ g2))" unfolding g1(3) g2(3) by (simp add: ac_simps)
    show "\<forall>t \<in> snd ` set (g1 @ g2). \<not> storage_hasTransaction (tx_hash t) (ps_storage s2)"
    proof
      fix t assume "t \<in> snd ` set (g1 @ g2)"
      then have "t \<in> snd ` set g1 \<or> t \<in> snd ` set g2" by auto
      then have "\<not> storage_hasTransaction (tx_hash t) (ps_storage s1) \<or> \<not> storage_hasTransaction (tx_hash t) (ps_storage s2)" using g1(4) g2(4) by blast
      then show "\<not> storage_hasTransaction (tx_hash t) (ps_storage s2)" using sub(1) unfolding storage_hasTransaction_def by blast
    qed
  qed (rule ok, rule subset_trans [OF sub])
qed

lemma fold_events [simp]:
  "ps_events (fold (dispatch_event event) ts s) = ps_events s @ map (Pair event) ts"
  "ps_events (fold forget_hash hs s) = ps_events s"
  "ps_events (fold (\<lambda>r s. dispatch_event event r (forget_hash (tx_hash r) s)) ts s) = ps_events s @ map (Pair event) ts"
proof -
  show "ps_events (fold (dispatch_event event) ts s) = ps_events s @ map (Pair event) ts"
    by (induction ts arbitrary: s) (simp_all add: dispatch_event_def)
  show "ps_events (fold forget_hash hs s) = ps_events s" by (induction hs arbitrary: s) (simp_all add: forget_hash_def)
  show "ps_events (fold (\<lambda>r s. dispatch_event event r (forget_hash (tx_hash r) s)) ts s) = ps_events s @ map (Pair event) ts"
    by (induction ts arbitrary: s) (simp_all add: dispatch_event_def forget_hash_def)
qed

text \<open>A step that takes \<open>removed\<close> away, with its events, and rows among them at least theirs.\<close>

lemma settles_removed:
  assumes "pool_of s = pool_mset mp + mset removed" and "mempool_ok mp" and "event = RemovedFromPool \<or> event = Expired"
    and "ps_mempool s' = mp" and "ps_events s' = ps_events s @ map (Pair event) removed"
    and "ps_storage s' = filter (\<lambda>r. sx_hash r \<notin> H) (ps_storage s)" and "tx_hash ` set removed \<subseteq> H"
  shows "settles s s'"
  unfolding settles_def using assms
  by (intro conjI exI [of _ "map (Pair event) removed"]) (auto simp: storage_hasTransaction_def comp_def)

section \<open>What the operations take away\<close>

lemma mempool_ok_get:
  "mempool_ok mp \<longleftrightarrow> map_ok mp \<and> (\<forall>k m t. map_get mp k = Some m \<longrightarrow> t \<in> set (sm_transactions m) \<longrightarrow> tx_from t = k)"
  unfolding mempool_ok_def by (fastforce dest: map_get_in_set map_ok_get)

lemma mempool_ok_set:
  assumes "mempool_ok mp" and "map_get mp k = Some m" and "mset (sm_transactions m1) + mset removed = mset (sm_transactions m)"
  shows "mempool_ok (map_set mp k m1)"
proof -
  have "set (sm_transactions m1) \<subseteq> set (sm_transactions m)" using arg_cong [OF assms(3), of set_mset] by auto
  with assms(1,2) show ?thesis by (auto simp: mempool_ok_get map_ok_set map_get_set)
qed

lemma dispose_conserves:
  assumes "mempool_ok mp"
  shows "mempool_ok (removeDisposableMempool k mp) \<and> pool_mset (removeDisposableMempool k mp) = pool_mset mp"
proof (cases "map_get mp k")
  case (Some m)
  have "map_ok mp" using assms by (simp add: mempool_ok_def)
  with pool_mset_delete [OF _ Some] assms Some show ?thesis
    by (auto simp: removeDisposableMempool_def isDisposable_def mempool_ok_get map_ok_delete map_get_delete split: if_splits)
qed (use assms in \<open>simp add: removeDisposableMempool_def\<close>)

lemma mempool_remove_conserves:
  assumes "mempool_ok mp" and "mempool_removeTransaction address hash mp = (removed, mp')"
  shows "mempool_ok mp' \<and> pool_mset mp = pool_mset mp' + mset removed"
proof (cases "map_get mp address")
  case (Some m)
  obtain m1 where m1: "remove_from_sender hash m = (removed, m1)" "mp' = removeDisposableMempool address (map_set mp address m1)"
    using assms(2) Some by (auto simp: mempool_removeTransaction_def split: prod.splits)
  note c = remove_conserves [OF m1(1)]
  have "pool_mset (map_set mp address m1) + mset removed = pool_mset mp" by (rule multiset_swap [OF pool_mset_set(1) [OF Some] c])
  then show ?thesis using dispose_conserves [OF mempool_ok_set [OF assms(1) Some c]] m1(2) by simp
qed (use assms in \<open>simp add: mempool_removeTransaction_def\<close>)

lemma readd_conserves: "readd_in_sender e m = (Inr removed, m') \<Longrightarrow> mset (sm_transactions m') + mset removed = mset (sm_transactions m)"
  by (auto simp: readd_in_sender_def split: sum.splits prod.splits dest!: add_again_conserves)

lemma mempool_readd_conserves:
  assumes "mempool_ok mp" and "mempool_reAddTransactions e addresses mp = (Inr removed, mp')"
  shows "mempool_ok mp' \<and> pool_mset mp = pool_mset mp' + mset removed"
  using assms
proof (induction addresses arbitrary: mp removed)
  case (Cons address addresses)
  show ?case
  proof (cases "map_get mp address")
    case (Some m)
    let ?next = "\<lambda>m1. removeDisposableMempool address (map_set mp address m1)"
    obtain first m1 rest where r: "readd_in_sender e m = (Inr first, m1)" "mempool_reAddTransactions e addresses (?next m1) = (Inr rest, mp')" "removed = first @ rest"
      using Cons.prems(2) Some by (auto split: prod.splits sum.splits)
    note c = readd_conserves [OF r(1)] and n = dispose_conserves [OF mempool_ok_set [OF Cons.prems(1) Some readd_conserves [OF r(1)]], of address]
    have "pool_mset (map_set mp address m1) + mset first = pool_mset mp" by (rule multiset_swap [OF pool_mset_set(1) [OF Some] c])
    with Cons.IH [OF _ r(2)] n r(3) show ?thesis by (simp add: ac_simps)
  qed (use Cons in simp)
qed simp

text \<open>The eviction of the transaction with the lowest priority takes at least this one away.\<close>

lemma lowest_removed:
  assumes "mempool_ok mp" and "t \<in># pool_mset mp" and "mempool_removeTransaction (tx_from t) (tx_hash t) mp = (removed, mp')"
  shows "size (pool_mset mp') < size (pool_mset mp)"
proof -
  obtain m where m: "map_get mp (tx_from t) = Some m" "t \<in> set (sm_transactions m)" by (rule in_pool_get [OF assms(1,2)])
  then have "find_index (\<lambda>u. tx_hash u = tx_hash t) (sm_transactions m) \<noteq> None" by (auto simp: find_index_def)
  then obtain i where "find_index (\<lambda>u. tx_hash u = tx_hash t) (sm_transactions m) = Some i" by blast
  with find_index_nth [OF this] assms(3) m(1) have "removed \<noteq> []"
    by (auto simp: mempool_removeTransaction_def remove_from_sender_def cut_from_def Let_def split: prod.splits)
  then show ?thesis using mempool_remove_conserves [OF assms(1,3)] by (cases removed) auto
qed

lemma remove_old_settles:
  assumes "mempool_ok (ps_mempool s)" and "remove_old_loop e rows s = Done s'"
  shows "settles s s'"
  using assms
proof (induction rows arbitrary: s)
  case (Cons r rows)
  obtain address where af: "pe_addressFromPublicKey e (sx_senderPublicKey r) = Inr address" using Cons.prems(2) by (auto split: sum.splits)
  obtain removed mp where rm: "mempool_removeTransaction address (sx_hash r) (ps_mempool s) = (removed, mp)" by fastforce
  define s1 where "s1 = fold (dispatch_event Expired) removed (fold forget_hash (remdups (map tx_hash removed @ [sx_hash r])) (s\<lparr>ps_mempool := mp\<rparr>))"
  have go: "remove_old_loop e rows s1 = Done s'" using Cons.prems(2) af rm by (simp add: Let_def s1_def)
  note c = mempool_remove_conserves [OF Cons.prems(1) rm]
  have "settles s s1"
    by (rule settles_removed [where mp = mp and event = Expired and H = "insert (sx_hash r) (tx_hash ` set removed)"])
      (use c in \<open>auto simp: s1_def\<close>)
  moreover from this have "mempool_ok (ps_mempool s1)" by (simp add: settles_def)
  ultimately show ?case using settles_trans Cons.IH [OF _ go] by blast
qed (simp add: settles_refl)

lemma removeLowest_settles:
  assumes "mempool_ok (ps_mempool s)" and "pool_of s \<noteq> {#}"
  obtains s' where "removeLowestPriorityTransaction s = Done s'" "settles s s'" "size (pool_of s') < size (pool_of s)"
proof -
  obtain t where t: "sum_bind (getFromLowestPriority (ps_mempool s)) query_first = Inr t" "t \<in># pool_of s" by (rule lowest_in_pool [OF assms])
  obtain removed mp where rm: "mempool_removeTransaction (tx_from t) (tx_hash t) (ps_mempool s) = (removed, mp)" by fastforce
  define s' where "s' = fold (\<lambda>r s. dispatch_event RemovedFromPool r (forget_hash (tx_hash r) s)) removed (s\<lparr>ps_mempool := mp\<rparr>)"
  show thesis
  proof (rule that)
    show "removeLowestPriorityTransaction s = Done s'" using assms(2) t(1) rm by (simp add: removeLowestPriorityTransaction_def mempool_size_pool s'_def)
    show "settles s s'"
      by (rule settles_removed [where mp = mp and event = RemovedFromPool and H = "tx_hash ` set removed"])
        (use mempool_remove_conserves [OF assms(1) rm] in \<open>auto simp: s'_def\<close>)
    show "size (pool_of s') < size (pool_of s)" using lowest_removed [OF assms(1) t(2) rm] by (simp add: s'_def)
  qed
qed

lemma removeLowests_settles:
  assumes "mempool_ok (ps_mempool s)"
  shows "\<exists>s'. removeLowestPriorityTransactions e s = Some (Done s') \<and> settles s s' \<and> mempool_size (ps_mempool s') \<le> pf_maxTransactionsInPool (pe_config e)"
  using assms
proof (induction "size (pool_of s)" arbitrary: s rule: less_induct)
  case less
  show ?case
  proof (cases "size (pool_of s) > pf_maxTransactionsInPool (pe_config e)")
    case True
    then have "pool_of s \<noteq> {#}" by auto
    then obtain s1 where s1: "removeLowestPriorityTransaction s = Done s1" "settles s s1" "size (pool_of s1) < size (pool_of s)"
      by (rule removeLowest_settles [OF less.prems])
    have "mempool_ok (ps_mempool s1)" using s1(2) by (simp add: settles_def)
    from less.hyps [OF s1(3) this] settles_trans [OF s1(2)] s1(1) True show ?thesis
      by (subst removeLowestPriorityTransactions.simps) (auto simp: mempool_size_pool)
  next
    case False
    with less.prems show ?thesis by (subst removeLowestPriorityTransactions.simps) (auto simp: mempool_size_pool intro: settles_refl)
  qed
qed

lemma cleanUp_settles:
  assumes "settles s s1"
  shows "\<exists>cleaned. cleanUp e s1 = Some cleaned
    \<and> (\<forall>s2. cleaned = Done s2 \<longrightarrow> settles s s2 \<and> mempool_size (ps_mempool s2) \<le> pf_maxTransactionsInPool (pe_config e))"
proof (cases "removeOldTransactions e s1")
  case (Done s0)
  have "mempool_ok (ps_mempool s1)" using assms by (simp add: settles_def)
  then have "settles s1 s0" using Done by (intro remove_old_settles) (simp_all add: removeOldTransactions_def)
  from settles_trans [OF assms this] have s0: "settles s s0" .
  then have "mempool_ok (ps_mempool s0)" by (simp only: settles_def)
  then obtain s2 where "removeLowestPriorityTransactions e s0 = Some (Done s2)" "settles s0 s2" "mempool_size (ps_mempool s2) \<le> pf_maxTransactionsInPool (pe_config e)"
    using removeLowests_settles by blast
  with settles_trans [OF s0] Done show ?thesis by (simp add: cleanUp_def)
qed (simp add: cleanUp_def)

section \<open>Properties\<close>

text \<open>C20 (bounds). A commit brings the pool back to its limit and accounts for what it takes away. From every pool with each sender's transactions under the sender, whatever
  overlapping additions left behind, a commit ends; when it ends without an exception at most \<open>maxTransactionsInPool\<close> transactions are left, the transactions before are those
  left and those of the \<open>RemovedFromPool\<close> and \<open>Expired\<close> events it dispatched, each exactly once, and no row of one of these is left in the database.
  (The commit holds the lock of the service exclusively; the request \<open>removeTransaction\<close>, which takes no lock, is taken not to come in between.)\<close>

theorem commit_restores_the_limit:
  assumes "mempool_ok (ps_mempool s)" and "\<not> ps_disposed s"
  shows "\<exists>result. service_commit e addresses consumedGas isSyncing s = Some result
    \<and> (\<forall>s'. result = Done s' \<longrightarrow> mempool_size (ps_mempool s') \<le> pf_maxTransactionsInPool (pe_config e) \<and> set (ps_storage s') \<subseteq> set (ps_storage s)
         \<and> (\<exists>gone. ps_events s' = ps_events s @ gone \<and> fst ` set gone \<subseteq> {RemovedFromPool, Expired}
              \<and> mset (getAll (ps_mempool s)) = mset (getAll (ps_mempool s')) + mset (map snd gone)
              \<and> (\<forall>t \<in> snd ` set gone. \<not> storage_hasTransaction (tx_hash t) (ps_storage s'))))"
proof (cases "mempool_reAddTransactions e addresses (ps_mempool s)")
  case (Pair r mp)
  show ?thesis
  proof (cases r)
    case (Inl err)
    then show ?thesis using assms(2) Pair by (simp add: service_commit_def)
  next
    case (Inr removed)
    define s1 where "s1 = fold (\<lambda>r s. dispatch_event RemovedFromPool r (forget_hash (tx_hash r) s)) removed (s\<lparr>ps_mempool := mp\<rparr>)"
    have commit: "service_commit e addresses consumedGas isSyncing s = Option.bind (cleanUp e s1) (\<lambda>cleaned.
        Some (and_then cleaned (\<lambda>s2. if isSyncing then Done s2 else rebroadcastMempoolTransactions e consumedGas s2)))"
      using assms(2) Pair Inr by (simp add: service_commit_def s1_def Let_def)
    have "settles s s1"
      by (rule settles_removed [where mp = mp and event = RemovedFromPool and H = "tx_hash ` set removed"])
        (use mempool_readd_conserves [OF assms(1) Pair [unfolded Inr]] in \<open>auto simp: s1_def\<close>)
    from commit cleanUp_settles [OF this] obtain cleaned where c: "cleanUp e s1 = Some cleaned"
      "\<And>s2. cleaned = Done s2 \<Longrightarrow> settles s s2 \<and> mempool_size (ps_mempool s2) \<le> pf_maxTransactionsInPool (pe_config e)" by blast
    have "settles s s' \<and> mempool_size (ps_mempool s') \<le> pf_maxTransactionsInPool (pe_config e)"
      if ended: "and_then cleaned (\<lambda>s2. if isSyncing then Done s2 else rebroadcastMempoolTransactions e consumedGas s2) = Done s'" for s'
    proof -
      obtain s2 where s2: "cleaned = Done s2" "s' = s2 \<or> rebroadcastMempoolTransactions e consumedGas s2 = Done s'"
        using ended [unfolded and_then_Done_iff] by (auto split: if_splits)
      have "ps_mempool s' = ps_mempool s2" "ps_storage s' = ps_storage s2" "ps_events s' = ps_events s2"
        using s2(2) by (auto simp: rebroadcastMempoolTransactions_def Let_def split: if_splits sum.splits prod.splits)
      then show ?thesis using c(2) [OF s2(1)] by (simp add: settles_def)
    qed
    then show ?thesis unfolding commit c(1) settles_def getAll_mset by simp
  qed
qed

section \<open>Two additions that overlap\<close>

text \<open>The sample pool may hold one transaction. Both additions see it empty before either of them is put in.\<close>

definition overlapping_bob_tx :: transaction where
  "overlapping_bob_tx = sample_bob_tx\<lparr>tx_nonce := 5\<rparr>"

theorem overlapping_additions_exceed_the_limit:
  "\<exists>s1 s2 s3 s4. addTransaction_begin sample_service_env sample_alice_tx (started_pool []) = Inr s1 \<and> mempool_size (ps_mempool s1) < 1
     \<and> addTransaction_begin sample_service_env overlapping_bob_tx s1 = Inr s2 \<and> mempool_size (ps_mempool s2) < 1
     \<and> addTransaction_insert sample_service_env sample_alice_tx s2 = Done s3 \<and> addTransaction_insert sample_service_env overlapping_bob_tx s3 = Done s4
     \<and> pf_maxTransactionsInPool (pe_config sample_service_env) = 1 \<and> mempool_size (ps_mempool s4) = 2"
proof -
  have "case addTransaction_begin sample_service_env sample_alice_tx (started_pool []) of Inl _ \<Rightarrow> False | Inr s1 \<Rightarrow> mempool_size (ps_mempool s1) < 1 \<and>
      (case addTransaction_begin sample_service_env overlapping_bob_tx s1 of Inl _ \<Rightarrow> False | Inr s2 \<Rightarrow> mempool_size (ps_mempool s2) < 1 \<and>
        (case addTransaction_insert sample_service_env sample_alice_tx s2 of Threw _ _ \<Rightarrow> False | Done s3 \<Rightarrow>
          (case addTransaction_insert sample_service_env overlapping_bob_tx s3 of Threw _ _ \<Rightarrow> False | Done s4 \<Rightarrow> mempool_size (ps_mempool s4) = 2)))"
    by code_simp
  moreover have "pf_maxTransactionsInPool (pe_config sample_service_env) = 1" by code_simp
  ultimately show ?thesis by (auto split: sum.splits outcome.splits)
qed

text \<open>The pool they leave, and the commit after it.\<close>

definition overfull_pool :: pool_state where
  "overfull_pool = sample_full_pool\<lparr>ps_mempool := ps_mempool sample_full_pool @ [(''bob'', \<lparr>sm_wallet = \<lparr>wl_address = ''bob'', wl_legacyAddress = Some [], wl_balance = 50,
     wl_nonce = 6, wl_secondPublicKey = None\<rparr>, sm_concurrency = 0, sm_transactions = [overlapping_bob_tx]\<rparr>)]\<rparr>"

theorem commit_restores_the_limit_witness:
  "mempool_size (ps_mempool overfull_pool) = 2 \<and> pf_maxTransactionsInPool (pe_config sample_service_env) = 1
   \<and> (\<exists>s'. service_commit sample_service_env [] 0 True overfull_pool = Some (Done s') \<and> mempool_size (ps_mempool s') \<le> 1)"
proof -
  have size: "mempool_size (ps_mempool overfull_pool) = 2" "pf_maxTransactionsInPool (pe_config sample_service_env) = 1" by code_simp+
  have ok: "mempool_ok (ps_mempool overfull_pool)" "\<not> ps_disposed overfull_pool" by code_simp+
  have "removeOldTransactions sample_service_env overfull_pool = Done overfull_pool" by code_simp
  with removeLowests_settles [OF ok(1), of sample_service_env] obtain s' where c: "service_commit sample_service_env [] 0 True overfull_pool = Some (Done s')"
    using ok(2) by (auto simp: service_commit_def cleanUp_def)
  with commit_restores_the_limit [OF ok, of sample_service_env "[]" 0 True] size show ?thesis by simp
qed

end
