(* ===== verification/Chain_State.thy ===== *)
theory Chain_State
  imports Blockchain_Utils Wire_Serializer
begin

text \<open>
  What the node knows of its chain: \<open>packages/state/source/store.ts\<close> and the validators of the round,
  \<open>packages/evm-consensus/source/validator-set.ts\<close>, with the randomness of \<open>blockchain-utils/source/randao.ts\<close> and the
  proposer of a round, \<open>proposer-calculator.ts\<close>.

  The store sets the height of the configuration, which \<open>getMilestone()\<close> without argument reads, to the next block; it is
  kept in the store here. The contract service that reads the validators from the EVM is an argument.
\<close>

section \<open>Milestones\<close>

text \<open>\<open>getMilestone(height)\<close>, and a field of a milestone that is used as a value.\<close>

definition milestone_of :: "network_config \<Rightarrow> nat \<Rightarrow> error + milestone" where
  "milestone_of nc height = (case milestone_at (nc_milestones nc) height of None \<Rightarrow> Inl TypeError | Some m \<Rightarrow> Inr m)"

definition defined_field :: "'a option \<Rightarrow> error + 'a" where
  "defined_field f = (case f of None \<Rightarrow> Inl TypeError | Some x \<Rightarrow> Inr x)"

section \<open>Store\<close>

record state_store =
  so_genesisCommit :: "commit option"
  so_lastBlock :: "block option"
  so_blockNumber :: nat
  so_totalRound :: nat
  so_configHeight :: nat

definition setGenesisCommit :: "commit \<Rightarrow> state_store \<Rightarrow> state_store" where
  "setGenesisCommit c st = st\<lparr>so_genesisCommit := Some c\<rparr>"

definition setTotalRound :: "nat \<Rightarrow> state_store \<Rightarrow> state_store" where
  "setTotalRound n st = st\<lparr>so_totalRound := n\<rparr>"

definition getGenesisCommit :: "state_store \<Rightarrow> error + commit" where
  "getGenesisCommit st = (case so_genesisCommit st of None \<Rightarrow> Inl AssertError | Some c \<Rightarrow> Inr c)"

definition getLastBlock :: "state_store \<Rightarrow> error + block" where
  "getLastBlock st = (case so_lastBlock st of None \<Rightarrow> Inl AssertError | Some b \<Rightarrow> Inr b)"

definition setBlockNumber :: "nat \<Rightarrow> state_store \<Rightarrow> state_store" where
  "setBlockNumber n st = st\<lparr>so_blockNumber := n, so_configHeight := n + 1\<rparr>"

definition setLastBlock :: "block \<Rightarrow> state_store \<Rightarrow> state_store" where
  "setLastBlock b st = setBlockNumber (bh_number (bk_header b)) (st\<lparr>so_lastBlock := Some b\<rparr>)"

definition store_onCommit :: "block \<Rightarrow> nat \<Rightarrow> state_store \<Rightarrow> state_store" where
  "store_onCommit b round st = (setLastBlock b st)\<lparr>so_totalRound := so_totalRound (setLastBlock b st) + (round + 1)\<rparr>"

definition getValidatorIndex :: "network_config \<Rightarrow> state_store \<Rightarrow> nat \<Rightarrow> error + nat option" where
  "getValidatorIndex nc st round =
     sum_bind (milestone_of nc (so_configHeight st)) (\<lambda>m.
       Inr (case ms_roundValidators m of None \<Rightarrow> None | Some v \<Rightarrow> getValidatorIndexFrom v (so_totalRound st) round))"

section \<open>Randomness\<close>

definition RANDAO_TAG :: bytes where
  "RANDAO_TAG = map (\<lambda>c. of_nat (of_char c)) ''MAINSAIL_RANDAO''"

definition randaoMessage :: "string \<Rightarrow> string \<Rightarrow> nat \<Rightarrow> error + bytes" where
  "randaoMessage genesisBlockHash parentRandaoReveal blockNumber =
     (if blockNumber \<ge> 2 ^ 32 then Inl (RangeError ''ERR_OUT_OF_RANGE'')
      else Inr (RANDAO_TAG @ from_hex genesisBlockHash @ from_hex parentRandaoReveal @ be_bytes 4 blockNumber))"

definition getPrevrandao :: "(bytes \<Rightarrow> bytes) \<Rightarrow> block \<Rightarrow> bytes" where
  "getPrevrandao keccak256 previousBlock = keccak256 (from_hex (bh_randaoReveal (bk_header previousBlock)))"

section \<open>Validator set\<close>

record validator_set =
  vs_topValidators :: "validator_wallet list"
  vs_indexByAddress :: "(string, nat) jsmap"
  vs_allValidators :: "(string, validator_wallet) jsmap"
  vs_dirtyValidators :: "validator_wallet list"

text \<open>\<open>new Map(entries)\<close>.\<close>

definition map_of_entries :: "('k \<times> 'v) list \<Rightarrow> ('k, 'v) jsmap" where
  "map_of_entries entries = fold (\<lambda>(k, v) m. map_set m k v) entries []"

text \<open>The set a node starts with, before \<open>restore\<close>.\<close>

definition empty_validator_set :: validator_set where
  "empty_validator_set = \<lparr>vs_topValidators = [], vs_indexByAddress = [], vs_allValidators = [], vs_dirtyValidators = []\<rparr>"

record contract_service =
  ct_getRoundValidators :: "error + validator_wallet list"
  ct_getAllValidators :: "error + validator_wallet list"

definition buildRoundValidators :: "network_config \<Rightarrow> state_store \<Rightarrow> contract_service \<Rightarrow> validator_set \<Rightarrow> validator_set outcome" where
  "buildRoundValidators nc st cs vs =
     (case sum_bind (milestone_of nc (so_configHeight st)) (\<lambda>m. sum_bind (ct_getRoundValidators cs) (\<lambda>validators.
             let roundValidators = (case ms_roundValidators m of None \<Rightarrow> length validators | Some v \<Rightarrow> v)
             in if length validators < roundValidators then Inl (NotEnoughRoundValidatorsError (length validators) roundValidators)
                else Inr (take roundValidators validators))) of
        Inl err \<Rightarrow> Threw err vs
      | Inr topVs \<Rightarrow> Done (vs\<lparr>vs_topValidators := topVs,
          vs_indexByAddress := map_of_entries (map (\<lambda>(v, i). (vw_address v, i)) (zip topVs [0..<length topVs]))\<rparr>))"

definition validator_changed :: "validator_wallet \<Rightarrow> validator_wallet option \<Rightarrow> bool" where
  "validator_changed validator current =
     (case current of
        None \<Rightarrow> True
      | Some c \<Rightarrow> vw_voteBalance c \<noteq> vw_voteBalance validator \<or> vw_fee c \<noteq> vw_fee validator \<or> vw_isResigned c \<noteq> vw_isResigned validator
          \<or> vw_votersCount c \<noteq> vw_votersCount validator \<or> vw_blsPublicKey c \<noteq> vw_blsPublicKey validator)"

definition calculateChangedValidators :: "contract_service \<Rightarrow> validator_set \<Rightarrow> validator_set outcome" where
  "calculateChangedValidators cs vs =
     (case ct_getAllValidators cs of
        Inl err \<Rightarrow> Threw err (vs\<lparr>vs_dirtyValidators := []\<rparr>)
      | Inr validators \<Rightarrow>
          Done (vs\<lparr>vs_dirtyValidators := filter (\<lambda>v. validator_changed v (map_get (vs_allValidators vs) (vw_address v))) validators,
            vs_allValidators := map_of_entries (map (\<lambda>v. (vw_address v, v)) validators)\<rparr>))"

definition validator_restore :: "network_config \<Rightarrow> state_store \<Rightarrow> contract_service \<Rightarrow> validator_set \<Rightarrow> validator_set outcome" where
  "validator_restore nc st cs vs =
     and_then (buildRoundValidators nc st cs vs) (\<lambda>vs1. case ct_getAllValidators cs of
       Inl err \<Rightarrow> Threw err vs1
     | Inr validators \<Rightarrow> Done (vs1\<lparr>vs_allValidators := map_of_entries (map (\<lambda>v. (vw_address v, v)) validators)\<rparr>))"

definition validator_onCommit :: "network_config \<Rightarrow> state_store \<Rightarrow> contract_service \<Rightarrow> bool \<Rightarrow> nat \<Rightarrow> validator_set \<Rightarrow> validator_set outcome" where
  "validator_onCommit nc st cs apiSync blockNumber vs =
     (case isNewRound nc (blockNumber + 1) of
        Inl err \<Rightarrow> Threw err vs
      | Inr new \<Rightarrow> and_then (if new then buildRoundValidators nc st cs vs else Done vs)
          (\<lambda>vs1. if apiSync then calculateChangedValidators cs vs1 else Done vs1))"

definition getRoundValidators :: "network_config \<Rightarrow> state_store \<Rightarrow> validator_set \<Rightarrow> error + validator_wallet list" where
  "getRoundValidators nc st vs =
     sum_bind (milestone_of nc (so_configHeight st)) (\<lambda>m.
       case ms_roundValidators m of
         None \<Rightarrow> Inl (NotEnoughRoundValidatorsError (length (vs_topValidators vs)) 0)
       | Some v \<Rightarrow> if length (vs_topValidators vs) \<noteq> v then Inl (NotEnoughRoundValidatorsError (length (vs_topValidators vs)) v)
           else Inr (take v (vs_topValidators vs)))"

definition getValidator :: "validator_set \<Rightarrow> nat option \<Rightarrow> error + validator_wallet" where
  "getValidator vs index =
     (case index of
        None \<Rightarrow> Inl (JsError ''Validator at index not found.'')
      | Some i \<Rightarrow> if i < length (vs_topValidators vs) then Inr (vs_topValidators vs ! i) else Inl (JsError ''Validator at index not found.''))"

definition getValidatorIndexByWalletAddress :: "validator_set \<Rightarrow> string \<Rightarrow> error + nat" where
  "getValidatorIndexByWalletAddress vs address =
     (case map_get (vs_indexByAddress vs) address of None \<Rightarrow> Inl (JsError ''Validator not found.'') | Some i \<Rightarrow> Inr i)"

section \<open>The index finds the validator\<close>

definition indexed_validators :: "validator_set \<Rightarrow> bool" where
  "indexed_validators vs \<longleftrightarrow> (\<forall>a i. map_get (vs_indexByAddress vs) a = Some i \<longrightarrow> i < length (vs_topValidators vs) \<and> vw_address (vs_topValidators vs ! i) = a)
     \<and> (\<forall>v \<in> set (vs_topValidators vs). map_has (vs_indexByAddress vs) (vw_address v))"

lemma map_get_entries:
  "map_get (fold (\<lambda>(k, v) m. map_set m k v) entries m) k
     = (case map_of (rev entries) k of None \<Rightarrow> map_get m k | Some v \<Rightarrow> Some v)"
  by (induction entries arbitrary: m) (auto simp: jsmap_simps map_of_append map_add_def split: option.splits)

lemma map_of_entries_get: "map_get (map_of_entries entries) k = map_of (rev entries) k"
  by (simp add: map_of_entries_def map_get_entries split: option.splits)

lemma build_ok: "buildRoundValidators nc st cs vs = Done vs' \<Longrightarrow> indexed_validators vs'"
proof -
  assume "buildRoundValidators nc st cs vs = Done vs'"
  then obtain topVs where topVs: "vs_topValidators vs' = topVs"
    "vs_indexByAddress vs' = map_of_entries (map (\<lambda>(v, i). (vw_address v, i)) (zip topVs [0..<length topVs]))"
    by (auto simp: buildRoundValidators_def split: sum.splits)
  let ?es = "map (\<lambda>(v, i). (vw_address v, i)) (zip topVs [0..<length topVs])"
  have "i < length topVs \<and> vw_address (topVs ! i) = a" if "map_of (rev ?es) a = Some i" for a i
  proof -
    from that have "(a, i) \<in> set ?es" using map_of_SomeD by fastforce
    then show ?thesis by (auto simp: set_zip)
  qed
  moreover have "map_of (rev ?es) (vw_address v) \<noteq> None" if "v \<in> set topVs" for v
  proof -
    from that obtain i where "i < length topVs" "v = topVs ! i" by (auto simp: in_set_conv_nth)
    then have "(vw_address v, i) \<in> set ?es" by (force simp: set_zip)
    then show ?thesis unfolding map_of_eq_None_iff by (metis fst_conv image_eqI set_rev)
  qed
  ultimately show ?thesis by (simp add: indexed_validators_def topVs map_of_entries_get map_has_get)
qed

end
