(* ===== verification/Block_Processor.thy ===== *)
theory Block_Processor
  imports Chain_State Block_Codec
begin

text \<open>
  \<open>packages/processor/source\<close>: the verifiers of a block in the order of \<open>service-provider.ts\<close>, the execution of its
  transactions and the checks of the result, \<open>block-processor.ts\<close> and \<open>transaction-processor.ts\<close>.

  The EVM is a parameter: a record of its operations over a state of its own, each of which returns a value or throws and
  leaves a state. Hashes, BLS signatures and the check of a second signature are parameters too. Events and log lines are
  left out.
\<close>

section \<open>The EVM\<close>

record commit_key =
  ck_blockNumber :: nat
  ck_round :: nat
  ck_blockHash :: "string option"

record block_context =
  bc_commitKey :: commit_key
  bc_gasLimit :: nat
  bc_prevrandao :: bytes
  bc_timestamp :: nat
  bc_validatorAddress :: string

record transaction_context =
  tc_commitKey :: commit_key
  tc_data :: bytes
  tc_from :: string
  tc_gasLimit :: nat
  tc_gasPrice :: nat
  tc_legacyAddress :: string
  tc_nonce :: nat
  tc_specId :: "string option"
  tc_to :: "string option"
  tc_txHash :: string
  tc_value :: int

record receipt =
  rc_gasUsed :: nat
  rc_status :: nat
  rc_contractAddress :: "string option"

text \<open>\<open>UpdateRewardsAndVotesContext\<close>, \<open>UpdateValidatorRegistrationFeeContext\<close> and \<open>CalculateRoundValidatorsContext\<close> differ in
  one amount: the reward, the fee or the number of validators.\<close>

record update_context =
  uc_commitKey :: commit_key
  uc_amount :: int
  uc_specId :: "string option"
  uc_timestamp :: nat
  uc_validatorAddress :: string

type_synonym ('v, 'a) evm_op = "'v \<Rightarrow> (error + 'a) \<times> 'v"

record 'v evm =
  em_initializeGenesis :: "('v, unit) evm_op"
  em_prepareNextCommit :: "block_context \<Rightarrow> ('v, unit) evm_op"
  em_process :: "transaction_context \<Rightarrow> ('v, receipt) evm_op"
  em_snapshot :: "commit_key \<Rightarrow> ('v, unit) evm_op"
  em_rollback :: "commit_key \<Rightarrow> ('v, unit) evm_op"
  em_updateRewardsAndVotes :: "update_context \<Rightarrow> ('v, unit) evm_op"
  em_updateValidatorRegistrationFee :: "update_context \<Rightarrow> ('v, unit) evm_op"
  em_calculateRoundValidators :: "update_context \<Rightarrow> ('v, unit) evm_op"
  em_logsBloom :: "commit_key \<Rightarrow> ('v, string) evm_op"
  em_stateRoot :: "commit_key \<Rightarrow> string \<Rightarrow> ('v, string) evm_op"
  em_secondPublicKey :: "string \<Rightarrow> string \<Rightarrow> 'v \<Rightarrow> error + string option"

definition op_bind :: "('v, 'a) evm_op \<Rightarrow> ('a \<Rightarrow> ('v, 'b) evm_op) \<Rightarrow> ('v, 'b) evm_op" where
  "op_bind m f = (\<lambda>v. case m v of (Inl err, v1) \<Rightarrow> (Inl err, v1) | (Inr a, v1) \<Rightarrow> f a v1)"

definition op_return :: "'a \<Rightarrow> ('v, 'a) evm_op" where
  "op_return a = (\<lambda>v. (Inr a, v))"

definition op_lift :: "error + 'a \<Rightarrow> ('v, 'a) evm_op" where
  "op_lift r = (\<lambda>v. (r, v))"

lemma op_bind_Inr:
  "op_bind m f v = (Inr b, v') \<longleftrightarrow> (\<exists>a v1. m v = (Inr a, v1) \<and> f a v1 = (Inr b, v'))"
  by (auto simp: op_bind_def split: prod.splits sum.splits)

lemma op_simps [simp]:
  "op_return a v = (Inr b, v') \<longleftrightarrow> b = a \<and> v' = v" "op_lift r v = (Inr b, v') \<longleftrightarrow> r = Inr b \<and> v' = v"
  by (auto simp: op_return_def op_lift_def)

section \<open>Verifiers\<close>

record processable_unit =
  pu_block :: block
  pu_round :: nat

record processor_services =
  px_sha256 :: "bytes \<Rightarrow> bytes"
  px_keccak256 :: "bytes \<Rightarrow> bytes"
  px_blsVerify :: "bytes \<Rightarrow> bytes \<Rightarrow> bytes \<Rightarrow> error + bool"
  px_verifySecondSignature :: "transaction \<Rightarrow> string \<Rightarrow> error + bool"

abbreviation unit_header :: "processable_unit \<Rightarrow> block_header" where
  "unit_header u \<equiv> bk_header (pu_block u)"

definition require :: "bool \<Rightarrow> string \<Rightarrow> error + unit" where
  "require ok name = (if ok then Inr () else Inl (JsError name))"

lemma require_Inr [simp]: "require ok name = Inr x \<longleftrightarrow> ok"
  by (simp add: require_def)

definition ZeroHash :: string where
  "ZeroHash = replicate 64 CHR ''0''"

definition chainedVerifier :: "network_config \<Rightarrow> state_store \<Rightarrow> processable_unit \<Rightarrow> error + unit" where
  "chainedVerifier nc st u =
     (if bh_number (unit_header u) = nc_genesisNumber nc then
        sum_bind (milestone_of nc (bh_number (unit_header u))) (\<lambda>m.
          let expectedParentHash = (case ms_snapshot m of Some sn \<Rightarrow> previousGenesisBlockHash sn | None \<Rightarrow> ZeroHash)
          in require (bh_parentHash (unit_header u) = expectedParentHash) ''BlockNotChained'')
      else sum_bind (getLastBlock st) (\<lambda>previousBlock.
        sum_bind (require (bh_parentHash (unit_header u) = bh_hash (bk_header previousBlock)) ''BlockNotChained'') (\<lambda>_.
          require (bh_number (unit_header u) = bh_number (bk_header previousBlock) + 1) ''BlockNotChained'')))"

definition roundVerifier :: "processable_unit \<Rightarrow> error + unit" where
  "roundVerifier u = require (bh_round (unit_header u) \<le> pu_round u) ''InvalidBlockRound''"

text \<open>\<open>Buffer.byteLength(text, "hex")\<close> is half of the length of the text.\<close>

definition sizeVerifier :: "network_config \<Rightarrow> processable_unit \<Rightarrow> error + unit" where
  "sizeVerifier nc u =
     sum_bind (sum_bind (milestone_of nc (bh_number (unit_header u))) (\<lambda>m. defined_field (ms_block m))) (\<lambda>mb.
       let totalSize = headerSize + bh_payloadSize (unit_header u);
           totalPayloadSize = length (bk_transactions (pu_block u)) * 4 + sum_list (map (\<lambda>t. length (tx_serialized t)) (bk_transactions (pu_block u)))
       in sum_bind (require (totalSize \<le> maxPayload mb) ''MaxPayloadExceeded'') (\<lambda>_.
          sum_bind (require (totalSize = length (bk_serialized (pu_block u)) div 2) ''InvalidPayloadSize'') (\<lambda>_.
            require (totalPayloadSize = bh_payloadSize (unit_header u)) ''InvalidPayloadSize'')))"

definition timestampVerifier :: "network_config \<Rightarrow> state_store \<Rightarrow> processable_unit \<Rightarrow> error + unit" where
  "timestampVerifier nc st u =
     (if bh_number (unit_header u) = nc_genesisNumber nc then Inr ()
      else sum_bind (getLastBlock st) (\<lambda>previousBlock.
        sum_bind (sum_bind (milestone_of nc (bh_number (bk_header previousBlock) + 1)) (\<lambda>m. defined_field (ms_timeouts m))) (\<lambda>t.
        sum_bind (calculateMinimalTimestamp t (bh_timestamp (bk_header previousBlock)) (bh_round (unit_header u))) (\<lambda>minimal.
          require (minimal \<le> bh_timestamp (unit_header u)) ''InvalidTimestamp''))))"

definition generatorVerifier :: "network_config \<Rightarrow> state_store \<Rightarrow> validator_set \<Rightarrow> processable_unit \<Rightarrow> error + unit" where
  "generatorVerifier nc st vs u =
     (if bh_number (unit_header u) = nc_genesisNumber nc then Inr ()
      else sum_bind (getValidatorIndex nc st (bh_round (unit_header u))) (\<lambda>validatorIndex.
        sum_bind (getValidator vs validatorIndex) (\<lambda>validator.
          require (bh_proposer (unit_header u) = vw_address validator) ''InvalidGenerator'')))"

definition versionVerifier :: "network_config \<Rightarrow> processable_unit \<Rightarrow> error + unit" where
  "versionVerifier nc u =
     sum_bind (sum_bind (milestone_of nc (bh_number (unit_header u))) (\<lambda>m. defined_field (ms_block m))) (\<lambda>mb.
       require (bh_version (unit_header u) = blockVersion mb) ''InvalidBlockVersion'')"

definition rewardVerifier :: "network_config \<Rightarrow> processable_unit \<Rightarrow> error + unit" where
  "rewardVerifier nc u =
     sum_bind (sum_bind (milestone_of nc (bh_number (unit_header u))) (\<lambda>m. defined_field (ms_reward m))) (\<lambda>reward.
       require (bh_reward (unit_header u) = reward) ''InvalidReward'')"

definition transactionsLengthVerifier :: "processable_unit \<Rightarrow> error + unit" where
  "transactionsLengthVerifier u =
     require (length (bk_transactions (pu_block u)) = bh_transactionsCount (unit_header u)) ''InvalidTransactionsLength''"

text \<open>The loop with the set of hashes seen so far.\<close>

fun duplicates_loop :: "string set \<Rightarrow> transaction list \<Rightarrow> error + unit" where
  "duplicates_loop applied [] = Inr ()"
| "duplicates_loop applied (t # ts) =
     (if tx_hash t \<in> applied then Inl (JsError ''DuplicatedTransaction'') else duplicates_loop (insert (tx_hash t) applied) ts)"

definition transactionsDuplicatesVerifier :: "processable_unit \<Rightarrow> error + unit" where
  "transactionsDuplicatesVerifier u = duplicates_loop {} (bk_transactions (pu_block u))"

definition transactions_root :: "(bytes \<Rightarrow> bytes) \<Rightarrow> transaction list \<Rightarrow> string" where
  "transactions_root sha256 ts = to_hex (sha256 (concat (map (\<lambda>t. from_hex (tx_hash t)) ts)))"

definition transactionsRootVerifier :: "processor_services \<Rightarrow> processable_unit \<Rightarrow> error + unit" where
  "transactionsRootVerifier px u =
     require (transactions_root (px_sha256 px) (bk_transactions (pu_block u)) = bh_transactionsRoot (unit_header u)) ''InvalidTransactionsRoot''"

definition gasLimitVerifier :: "network_config \<Rightarrow> processable_unit \<Rightarrow> error + unit" where
  "gasLimitVerifier nc u =
     (if bh_number (unit_header u) = nc_genesisNumber nc then Inr ()
      else sum_bind (sum_bind (milestone_of nc (bh_number (unit_header u))) (\<lambda>m. defined_field (ms_block m))) (\<lambda>mb.
        require (bh_gasUsed (unit_header u) \<le> maxGasLimit mb) ''ExceededGasLimit''))"

text \<open>The loop with the attributes of the senders read so far. An empty key or signature counts as none.\<close>

fun legacy_loop :: "processor_services \<Rightarrow> 'v evm \<Rightarrow> 'v \<Rightarrow> (string, string option) jsmap \<Rightarrow> transaction list \<Rightarrow> error + unit" where
  "legacy_loop px evm v senders [] = Inr ()"
| "legacy_loop px evm v senders (t # ts) =
     sum_bind (case map_get senders (tx_from t) of
         Some k \<Rightarrow> Inr (k, senders)
       | None \<Rightarrow> sum_bind (em_secondPublicKey evm (tx_from t) (tx_senderLegacyAddress t) v) (\<lambda>k. Inr (k, map_set senders (tx_from t) k)))
       (\<lambda>(key, senders1).
         if key = None \<or> key = Some [] then
           (if tx_legacySecondSignature t \<noteq> None \<and> tx_legacySecondSignature t \<noteq> Some []
            then Inl (JsError ''UnexpectedLegacySecondSignatureError'') else legacy_loop px evm v senders1 ts)
         else sum_bind (px_verifySecondSignature px t (the key)) (\<lambda>_. legacy_loop px evm v senders1 ts))"

definition legacyAttributeVerifier :: "processor_services \<Rightarrow> 'v evm \<Rightarrow> 'v \<Rightarrow> processable_unit \<Rightarrow> error + unit" where
  "legacyAttributeVerifier px evm v u = legacy_loop px evm v [] (bk_transactions (pu_block u))"

definition randaoVerifier :: "processor_services \<Rightarrow> network_config \<Rightarrow> state_store \<Rightarrow> validator_set \<Rightarrow> processable_unit \<Rightarrow> error + unit" where
  "randaoVerifier px nc st vs u =
     (if bh_number (unit_header u) = nc_genesisNumber nc then Inr ()
      else sum_bind (sum_bind (getValidatorIndexByWalletAddress vs (bh_proposer (unit_header u))) (\<lambda>i. getValidator vs (Some i))) (\<lambda>proposer.
        sum_bind (getGenesisCommit st) (\<lambda>genesis.
        sum_bind (getLastBlock st) (\<lambda>last_block.
        sum_bind (randaoMessage (bh_hash (bk_header (cm_block genesis))) (bh_randaoReveal (bk_header last_block)) (bh_number (unit_header u))) (\<lambda>msg.
        sum_bind (px_blsVerify px (from_hex (bh_randaoReveal (unit_header u))) msg (from_hex (vw_blsPublicKey proposer))) (\<lambda>valid.
          require valid ''InvalidRandaoReveal''))))))"

fun run_handlers :: "(error + unit) list \<Rightarrow> error + unit" where
  "run_handlers [] = Inr ()"
| "run_handlers (h # hs) = sum_bind h (\<lambda>_. run_handlers hs)"

definition verify_block :: "processor_services \<Rightarrow> network_config \<Rightarrow> state_store \<Rightarrow> validator_set \<Rightarrow> 'v evm \<Rightarrow> 'v \<Rightarrow> processable_unit \<Rightarrow> error + unit" where
  "verify_block px nc st vs evm v u =
     run_handlers [chainedVerifier nc st u, roundVerifier u, sizeVerifier nc u, timestampVerifier nc st u, generatorVerifier nc st vs u,
       versionVerifier nc u, rewardVerifier nc u, transactionsLengthVerifier u, transactionsDuplicatesVerifier u,
       transactionsRootVerifier px u, gasLimitVerifier nc u, legacyAttributeVerifier px evm v u, randaoVerifier px nc st vs u]"

section \<open>Execution\<close>

record block_processor_result =
  br_feeUsed :: int
  br_gasUsed :: nat
  br_receipts :: "(string, receipt) jsmap"
  br_success :: bool

definition block_commitKey :: "block_header \<Rightarrow> commit_key" where
  "block_commitKey h = \<lparr>ck_blockNumber = bh_number h, ck_round = bh_round h, ck_blockHash = Some (bh_hash h)\<rparr>"

definition tx_context :: "commit_key \<Rightarrow> string option \<Rightarrow> transaction \<Rightarrow> transaction_context" where
  "tx_context key specId t = \<lparr>tc_commitKey = key, tc_data = from_hex (drop 2 (tx_data t)), tc_from = tx_from t, tc_gasLimit = tx_gasLimit t,
     tc_gasPrice = tx_gasPrice t, tc_legacyAddress = tx_senderLegacyAddress t, tc_nonce = tx_nonce t, tc_specId = specId, tc_to = tx_to t,
     tc_txHash = tx_hash t, tc_value = tx_value t\<rparr>"

definition transaction_process :: "'v evm \<Rightarrow> network_config \<Rightarrow> block_header \<Rightarrow> transaction \<Rightarrow> ('v, receipt) evm_op" where
  "transaction_process evm nc h t =
     op_bind (op_lift (milestone_of nc (bh_number h))) (\<lambda>m. em_process evm (tx_context (block_commitKey h) (ms_evmSpec m) t))"

definition consumeGas :: "block_header \<Rightarrow> nat \<Rightarrow> block_processor_result \<Rightarrow> block_processor_result outcome" where
  "consumeGas h gasUsed r =
     (if br_gasUsed r + gasUsed > bh_gasUsed h then Threw (JsError ''InvalidGasUsed'') r else Done (r\<lparr>br_gasUsed := br_gasUsed r + gasUsed\<rparr>))"

definition consumeFee :: "block_header \<Rightarrow> transaction \<Rightarrow> nat \<Rightarrow> block_processor_result \<Rightarrow> block_processor_result outcome" where
  "consumeFee h t gasUsed r =
     (let fee = calculateConsumed (int (tx_gasPrice t)) (int gasUsed)
      in if br_feeUsed r + fee > bh_fee h then Threw (JsError ''InvalidFee'') r else Done (r\<lparr>br_feeUsed := br_feeUsed r + fee\<rparr>))"

fun execute_transactions :: "'v evm \<Rightarrow> network_config \<Rightarrow> block_header \<Rightarrow> transaction list \<Rightarrow> block_processor_result \<Rightarrow> 'v \<Rightarrow> block_processor_result outcome \<times> 'v" where
  "execute_transactions evm nc h [] r v = (Done r, v)"
| "execute_transactions evm nc h (t # ts) r v =
     (case transaction_process evm nc h t v of
        (Inl err, v1) \<Rightarrow> (Threw err r, v1)
      | (Inr receipt, v1) \<Rightarrow>
          (case and_then (consumeGas h (rc_gasUsed receipt) (r\<lparr>br_receipts := map_set (br_receipts r) (tx_hash t) receipt\<rparr>))
                  (consumeFee h t (rc_gasUsed receipt)) of
             Threw err r1 \<Rightarrow> (Threw err r1, v1)
           | Done r1 \<Rightarrow> execute_transactions evm nc h ts r1 v1))"

definition block_prevrandao :: "processor_services \<Rightarrow> network_config \<Rightarrow> state_store \<Rightarrow> block_header \<Rightarrow> error + bytes" where
  "block_prevrandao px nc st h =
     (if bh_number h = nc_genesisNumber nc then Inr (replicate 32 0)
      else sum_bind (getLastBlock st) (\<lambda>b. Inr (getPrevrandao (px_keccak256 px) b)))"

definition getPreviousStateRoot :: "network_config \<Rightarrow> state_store \<Rightarrow> block_header \<Rightarrow> error + string" where
  "getPreviousStateRoot nc st h =
     (if bh_number h \<noteq> nc_genesisNumber nc then sum_bind (getLastBlock st) (\<lambda>b. Inr (bh_stateRoot (bk_header b)))
      else sum_bind (milestone_of nc (bh_number h)) (\<lambda>m. Inr (case ms_snapshot m of Some sn \<Rightarrow> snapshotHash sn | None \<Rightarrow> ZeroHash)))"

definition update_of :: "commit_key \<Rightarrow> nat \<Rightarrow> string \<Rightarrow> string option \<Rightarrow> int \<Rightarrow> update_context" where
  "update_of key timestamp validatorAddress specId amount = \<lparr>uc_commitKey = key, uc_amount = amount, uc_specId = specId, uc_timestamp = timestamp,
     uc_validatorAddress = validatorAddress\<rparr>"

text \<open>\<open>#updateRewardsAndVotes\<close>, and for the last block of a round \<open>#updateValidatorRegistrationFee\<close> and \<open>#calculateRoundValidators\<close>; \<open>next\<close> is
  the number of the next block.\<close>

definition round_updates :: "'v evm \<Rightarrow> network_config \<Rightarrow> milestone \<Rightarrow> nat \<Rightarrow> (string option \<Rightarrow> int \<Rightarrow> update_context) \<Rightarrow> ('v, unit) evm_op" where
  "round_updates evm nc milestone next context =
     op_bind (op_lift (defined_field (ms_reward milestone))) (\<lambda>reward.
     op_bind (em_updateRewardsAndVotes evm (context (ms_evmSpec milestone) reward)) (\<lambda>_.
     op_bind (op_lift (isNewRound nc next)) (\<lambda>new.
       if \<not> new then op_return ()
       else op_bind (op_lift (milestone_of nc next)) (\<lambda>m.
         op_bind (op_lift (defined_field (ms_validatorRegistrationFee m))) (\<lambda>fee.
         op_bind (em_updateValidatorRegistrationFee evm (context (ms_evmSpec m) fee)) (\<lambda>_.
         op_bind (op_lift (defined_field (ms_roundValidators m))) (\<lambda>roundValidators.
           em_calculateRoundValidators evm (context (ms_evmSpec m) (int roundValidators)))))))))"

definition verify_roots :: "'v evm \<Rightarrow> network_config \<Rightarrow> state_store \<Rightarrow> block_header \<Rightarrow> ('v, unit) evm_op" where
  "verify_roots evm nc st h =
     op_bind (op_lift (getPreviousStateRoot nc st h)) (\<lambda>previousStateRoot.
     op_bind (em_stateRoot evm (block_commitKey h) previousStateRoot) (\<lambda>stateRoot.
     op_bind (op_lift (require (bh_stateRoot h = stateRoot) ''InvalidStateRoot'')) (\<lambda>_.
     op_bind (em_logsBloom evm (block_commitKey h)) (\<lambda>logsBloom.
       op_lift (require (bh_logsBloom h = logsBloom) ''InvalidLogsBloom'')))))"

definition prepareCommit :: "processor_services \<Rightarrow> network_config \<Rightarrow> state_store \<Rightarrow> 'v evm \<Rightarrow> block_header \<Rightarrow> milestone \<Rightarrow> ('v, unit) evm_op" where
  "prepareCommit px nc st evm h m =
     op_bind (op_lift (defined_field (ms_block m))) (\<lambda>mb.
     op_bind (op_lift (block_prevrandao px nc st h)) (\<lambda>prevrandao.
       em_prepareNextCommit evm \<lparr>bc_commitKey = block_commitKey h, bc_gasLimit = maxGasLimit mb, bc_prevrandao = prevrandao,
         bc_timestamp = bh_timestamp h, bc_validatorAddress = bh_proposer h\<rparr>))"

text \<open>\<open>process\<close>: an exception leaves what was counted so far and no success.\<close>

definition process_block ::
  "processor_services \<Rightarrow> network_config \<Rightarrow> state_store \<Rightarrow> validator_set \<Rightarrow> 'v evm \<Rightarrow> processable_unit \<Rightarrow> 'v \<Rightarrow> block_processor_result \<times> 'v" where
  "process_block px nc st vs evm u v =
     (let h = unit_header u;
          r0 = \<lparr>br_feeUsed = 0, br_gasUsed = 0, br_receipts = [], br_success = False\<rparr>;
          start = op_bind (op_lift (verify_block px nc st vs evm v u)) (\<lambda>_.
            op_bind (op_lift (milestone_of nc (bh_number h))) (\<lambda>m.
            op_bind (prepareCommit px nc st evm h m) (\<lambda>_. op_return m)))
      in case start v of
           (Inl err, v1) \<Rightarrow> (r0, v1)
         | (Inr m, v1) \<Rightarrow>
             (case execute_transactions evm nc h (bk_transactions (pu_block u)) r0 v1 of
                (Threw err r, v2) \<Rightarrow> (r, v2)
              | (Done r, v2) \<Rightarrow>
                  if bh_gasUsed h \<noteq> br_gasUsed r \<or> br_feeUsed r \<noteq> bh_fee h then (r, v2)
                  else (case op_bind (round_updates evm nc m (bh_number h + 1) (update_of (block_commitKey h) (bh_timestamp h) (bh_proposer h)))
                          (\<lambda>_. verify_roots evm nc st h) v2 of
                          (Inl err, v3) \<Rightarrow> (r, v3)
                        | (Inr _, v3) \<Rightarrow> (r\<lparr>br_success := True\<rparr>, v3))))"

section \<open>The execution as a whole\<close>

text \<open>All transactions run one after the other, without the checks in between.\<close>

fun run_all :: "'v evm \<Rightarrow> network_config \<Rightarrow> block_header \<Rightarrow> transaction list \<Rightarrow> ('v, receipt list) evm_op" where
  "run_all evm nc h [] = op_return []"
| "run_all evm nc h (t # ts) =
     op_bind (transaction_process evm nc h t) (\<lambda>receipt. op_bind (run_all evm nc h ts) (\<lambda>receipts. op_return (receipt # receipts)))"

definition gas_of :: "receipt list \<Rightarrow> nat" where
  "gas_of rcs = sum_list (map rc_gasUsed rcs)"

definition fee_of :: "transaction list \<Rightarrow> receipt list \<Rightarrow> int" where
  "fee_of ts rcs = sum_list (map (\<lambda>(t, rc). calculateConsumed (int (tx_gasPrice t)) (int (rc_gasUsed rc))) (zip ts rcs))"

definition add_receipts :: "transaction list \<Rightarrow> receipt list \<Rightarrow> block_processor_result \<Rightarrow> block_processor_result" where
  "add_receipts ts rcs r = r\<lparr>br_gasUsed := br_gasUsed r + gas_of rcs, br_feeUsed := br_feeUsed r + fee_of ts rcs,
     br_receipts := fold (\<lambda>(t, rc) m. map_set m (tx_hash t) rc) (zip ts rcs) (br_receipts r)\<rparr>"

lemma gas_of_simps [simp]: "gas_of [] = 0" "gas_of (rc # rcs) = rc_gasUsed rc + gas_of rcs"
  by (simp_all add: gas_of_def)

lemma fee_of_simps [simp]:
  "fee_of [] rcs = 0" "fee_of (t # ts) (rc # rcs) = calculateConsumed (int (tx_gasPrice t)) (int (rc_gasUsed rc)) + fee_of ts rcs"
  by (simp_all add: fee_of_def)

lemma fee_of_nonneg: "0 \<le> fee_of ts rcs"
  unfolding fee_of_def by (rule sum_list_nonneg) (auto simp: calculateConsumed_def)

lemma run_all_length: "run_all evm nc h ts v = (Inr rcs, v') \<Longrightarrow> length rcs = length ts"
  by (induction ts arbitrary: v rcs v') (auto simp: op_bind_Inr)

lemma run_all_Cons:
  "run_all evm nc h (t # ts) v = (Inr rcs, v') \<longleftrightarrow>
     (\<exists>rc rcs' v1. transaction_process evm nc h t v = (Inr rc, v1) \<and> run_all evm nc h ts v1 = (Inr rcs', v') \<and> rcs = rc # rcs')"
  by (auto simp: op_bind_Inr)

lemma add_receipts_Cons:
  "add_receipts (t # ts) (rc # rcs) r = add_receipts ts rcs (r\<lparr>br_gasUsed := br_gasUsed r + rc_gasUsed rc,
     br_feeUsed := br_feeUsed r + calculateConsumed (int (tx_gasPrice t)) (int (rc_gasUsed rc)), br_receipts := map_set (br_receipts r) (tx_hash t) rc\<rparr>)"
  by (simp add: add_receipts_def ac_simps)

lemma consume_both:
  "and_then (consumeGas h g (r\<lparr>br_receipts := m\<rparr>)) (consumeFee h t g) = Done r1 \<longleftrightarrow>
     br_gasUsed r + g \<le> bh_gasUsed h \<and> br_feeUsed r + calculateConsumed (int (tx_gasPrice t)) (int g) \<le> bh_fee h
     \<and> r1 = r\<lparr>br_gasUsed := br_gasUsed r + g, br_feeUsed := br_feeUsed r + calculateConsumed (int (tx_gasPrice t)) (int g), br_receipts := m\<rparr>"
  by (auto simp: consumeGas_def consumeFee_def Let_def)

lemma execute_Done:
  assumes "execute_transactions evm nc h ts r v = (Done r', v')"
  shows "\<exists>rcs. run_all evm nc h ts v = (Inr rcs, v') \<and> r' = add_receipts ts rcs r"
  using assms
proof (induction ts arbitrary: r v)
  case Nil
  then show ?case by (simp add: add_receipts_def op_return_def)
next
  case (Cons t ts)
  obtain rc v1 where p: "transaction_process evm nc h t v = (Inr rc, v1)"
    using Cons.prems by (auto split: prod.splits sum.splits)
  let ?c = "and_then (consumeGas h (rc_gasUsed rc) (r\<lparr>br_receipts := map_set (br_receipts r) (tx_hash t) rc\<rparr>)) (consumeFee h t (rc_gasUsed rc))"
  obtain r1 where c: "?c = Done r1" "execute_transactions evm nc h ts r1 v1 = (Done r', v')"
    using Cons.prems p by (cases ?c) auto
  from Cons.IH [OF c(2)] obtain rcs where "run_all evm nc h ts v1 = (Inr rcs, v')" "r' = add_receipts ts rcs r1" by blast
  with p c(1) show ?case unfolding consume_both run_all_Cons by (metis add_receipts_Cons)
qed

lemma execute_run_all:
  assumes "run_all evm nc h ts v = (Inr rcs, v')" and "br_gasUsed r + gas_of rcs \<le> bh_gasUsed h" and "br_feeUsed r + fee_of ts rcs \<le> bh_fee h"
  shows "execute_transactions evm nc h ts r v = (Done (add_receipts ts rcs r), v')"
  using assms
proof (induction ts arbitrary: r v rcs)
  case Nil
  then show ?case by (simp add: add_receipts_def)
next
  case (Cons t ts)
  obtain rc rcs' v1 where p: "transaction_process evm nc h t v = (Inr rc, v1)" "run_all evm nc h ts v1 = (Inr rcs', v')" "rcs = rc # rcs'"
    using Cons.prems(1) unfolding run_all_Cons by blast
  let ?r1 = "r\<lparr>br_gasUsed := br_gasUsed r + rc_gasUsed rc, br_feeUsed := br_feeUsed r + calculateConsumed (int (tx_gasPrice t)) (int (rc_gasUsed rc)),
    br_receipts := map_set (br_receipts r) (tx_hash t) rc\<rparr>"
  have "and_then (consumeGas h (rc_gasUsed rc) (r\<lparr>br_receipts := map_set (br_receipts r) (tx_hash t) rc\<rparr>)) (consumeFee h t (rc_gasUsed rc)) = Done ?r1"
    unfolding consume_both using Cons.prems(2,3) fee_of_nonneg [of ts rcs'] by (simp add: p(3))
  with Cons.IH [OF p(2), of ?r1] Cons.prems(2,3) p show ?case by (simp add: add_receipts_Cons ac_simps)
qed

section \<open>The handlers\<close>

lemma run_handlers_Inr: "run_handlers hs = Inr () \<longleftrightarrow> (\<forall>h \<in> set hs. h = Inr ())"
  by (induction hs) (auto simp: sum_bind_Inr_iff)

lemma verify_block_Inr:
  "verify_block px nc st vs evm v u = Inr () \<longleftrightarrow>
     chainedVerifier nc st u = Inr () \<and> roundVerifier u = Inr () \<and> sizeVerifier nc u = Inr () \<and> timestampVerifier nc st u = Inr ()
     \<and> generatorVerifier nc st vs u = Inr () \<and> versionVerifier nc u = Inr () \<and> rewardVerifier nc u = Inr ()
     \<and> transactionsLengthVerifier u = Inr () \<and> transactionsDuplicatesVerifier u = Inr () \<and> transactionsRootVerifier px u = Inr ()
     \<and> gasLimitVerifier nc u = Inr () \<and> legacyAttributeVerifier px evm v u = Inr () \<and> randaoVerifier px nc st vs u = Inr ()"
  by (simp add: verify_block_def run_handlers_Inr del: run_handlers.simps)

lemma duplicates_loop_Inr: "duplicates_loop applied ts = Inr () \<longleftrightarrow> distinct (map tx_hash ts) \<and> tx_hash ` set ts \<inter> applied = {}"
  by (induction ts arbitrary: applied) auto

lemma payload_length: "length ts * 4 + sum_list (map (\<lambda>t. length (tx_serialized t)) ts) = length (transactions_enc (map tx_serialized ts))"
  by (induction ts) auto

section \<open>What success means\<close>

definition finish_block :: "'v evm \<Rightarrow> network_config \<Rightarrow> state_store \<Rightarrow> block_header \<Rightarrow> milestone \<Rightarrow> ('v, unit) evm_op" where
  "finish_block evm nc st h m =
     op_bind (round_updates evm nc m (bh_number h + 1) (update_of (block_commitKey h) (bh_timestamp h) (bh_proposer h))) (\<lambda>_. verify_roots evm nc st h)"

lemma execute_no_success: "\<not> br_success r \<Longrightarrow> \<not> br_success (outcome_state (fst (execute_transactions evm nc h ts r v)))"
proof (induction ts arbitrary: r v)
  case (Cons t ts)
  obtain a v1 where p: "transaction_process evm nc h t v = (a, v1)" by fastforce
  let ?c = "\<lambda>rc. and_then (consumeGas h (rc_gasUsed rc) (r\<lparr>br_receipts := map_set (br_receipts r) (tx_hash t) rc\<rparr>)) (consumeFee h t (rc_gasUsed rc))"
  have c: "\<not> br_success (outcome_state (?c rc))" for rc using Cons.prems by (auto simp: consumeGas_def consumeFee_def Let_def)
  show ?case
  proof (cases a)
    case (Inr rc)
    with Cons.IH c [of rc] p show ?thesis by (cases "?c rc") simp_all
  qed (use Cons.prems p in simp)
qed simp

lemma process_block_success:
  fixes u defines "h \<equiv> unit_header u" and "ts \<equiv> bk_transactions (pu_block u)"
  shows "(\<exists>r. process_block px nc st vs evm u v = (r, v') \<and> br_success r) \<longleftrightarrow>
     verify_block px nc st vs evm v u = Inr ()
     \<and> (\<exists>m v1 rcs v2. milestone_of nc (bh_number h) = Inr m \<and> prepareCommit px nc st evm h m v = (Inr (), v1)
        \<and> run_all evm nc h ts v1 = (Inr rcs, v2) \<and> bh_gasUsed h = gas_of rcs \<and> bh_fee h = fee_of ts rcs
        \<and> finish_block evm nc st h m v2 = (Inr (), v'))" (is "?l \<longleftrightarrow> ?r")
proof
  define r0 where "r0 = \<lparr>br_feeUsed = 0, br_gasUsed = 0, br_receipts = [], br_success = False\<rparr>"
  define start where "start = op_bind (op_lift (verify_block px nc st vs evm v u)) (\<lambda>_.
    op_bind (op_lift (milestone_of nc (bh_number h))) (\<lambda>m. op_bind (prepareCommit px nc st evm h m) (\<lambda>_. op_return m)))"
  have start: "start v = (Inr m, v1) \<longleftrightarrow> verify_block px nc st vs evm v u = Inr () \<and> milestone_of nc (bh_number h) = Inr m
      \<and> prepareCommit px nc st evm h m v = (Inr (), v1)" for m v1
    unfolding start_def by (auto simp: op_bind_Inr)
  have eq: "process_block px nc st vs evm u v = (case start v of
      (Inl err, v1) \<Rightarrow> (r0, v1)
    | (Inr m, v1) \<Rightarrow> (case execute_transactions evm nc h ts r0 v1 of
        (Threw err r, v2) \<Rightarrow> (r, v2)
      | (Done r, v2) \<Rightarrow> if bh_gasUsed h \<noteq> br_gasUsed r \<or> br_feeUsed r \<noteq> bh_fee h then (r, v2)
          else (case finish_block evm nc st h m v2 of (Inl err, v3) \<Rightarrow> (r, v3) | (Inr _, v3) \<Rightarrow> (r\<lparr>br_success := True\<rparr>, v3))))"
    unfolding process_block_def Let_def start_def r0_def finish_block_def h_def ts_def by (rule refl)
  have r0: "\<not> br_success r0" "br_gasUsed r0 = 0" "br_feeUsed r0 = 0" by (simp_all add: r0_def)
  note flag = execute_no_success [OF r0(1), of evm nc h ts]
  {
    assume ?l
    then obtain r where r: "process_block px nc st vs evm u v = (r, v')" "br_success r" by blast
    obtain m v1 where s: "start v = (Inr m, v1)" using r r0 unfolding eq by (auto split: prod.splits sum.splits)
    obtain r1 v2 where e: "execute_transactions evm nc h ts r0 v1 = (Done r1, v2)"
      using r flag [of v1] s unfolding eq by (auto split: prod.splits outcome.splits)
    have f: "bh_gasUsed h = br_gasUsed r1" "br_feeUsed r1 = bh_fee h" "finish_block evm nc st h m v2 = (Inr (), v')"
      using r flag [of v1] s e unfolding eq by (auto split: if_splits prod.splits sum.splits)
    from execute_Done [OF e] obtain rcs where "run_all evm nc h ts v1 = (Inr rcs, v2)" "r1 = add_receipts ts rcs r0" by blast
    with f s start r0 show ?r by (auto simp: add_receipts_def)
  next
    assume ?r
    then obtain m v1 rcs v2 where s: "start v = (Inr m, v1)" and run: "run_all evm nc h ts v1 = (Inr rcs, v2)"
      and f: "bh_gasUsed h = gas_of rcs" "bh_fee h = fee_of ts rcs" "finish_block evm nc st h m v2 = (Inr (), v')" unfolding start by blast
    from execute_run_all [OF run, of r0] f r0 have "execute_transactions evm nc h ts r0 v1 = (Done (add_receipts ts rcs r0), v2)" by simp
    with s f r0 show ?l unfolding eq by (simp add: add_receipts_def)
  }
qed

section \<open>Properties\<close>

text \<open>C8 (safety). A block above genesis that is processed with success follows the last block, was made by the validator whose turn it was not before
  the minimal timestamp of its round, obeys the limits of its milestone, lists different transactions that match its count, payload
  size and root, and its gas, fee and roots are those of executing it. The EVM states are one chain from the state the processor was
  called with to the one it leaves: the commit is prepared, all transactions run one after the other, the rewards and at the end of a
  round the fee and the next validators are updated, and only then the state root (over the previous block's) and the logs bloom are taken.\<close>

theorem processed_block_is_valid:
  assumes "process_block px nc st vs evm u v = (r, v')" and "br_success r" and "bh_number (unit_header u) \<noteq> nc_genesisNumber nc"
  shows "\<exists>previous m mb timing minimal validator v1 rcs v2 v3 v4.
      getLastBlock st = Inr previous \<and> bh_parentHash (unit_header u) = bh_hash (bk_header previous)
    \<and> bh_number (unit_header u) = bh_number (bk_header previous) + 1
    \<and> milestone_of nc (bh_number (unit_header u)) = Inr m \<and> ms_timeouts m = Some timing
    \<and> calculateMinimalTimestamp timing (bh_timestamp (bk_header previous)) (bh_round (unit_header u)) = Inr minimal
    \<and> minimal \<le> bh_timestamp (unit_header u) \<and> bh_round (unit_header u) \<le> pu_round u
    \<and> sum_bind (getValidatorIndex nc st (bh_round (unit_header u))) (getValidator vs) = Inr validator
    \<and> bh_proposer (unit_header u) = vw_address validator
    \<and> ms_block m = Some mb \<and> bh_version (unit_header u) = blockVersion mb \<and> ms_reward m = Some (bh_reward (unit_header u))
    \<and> bh_transactionsCount (unit_header u) = length (bk_transactions (pu_block u)) \<and> distinct (map tx_hash (bk_transactions (pu_block u)))
    \<and> bh_payloadSize (unit_header u) = length (transactions_enc (map tx_serialized (bk_transactions (pu_block u))))
    \<and> headerSize + bh_payloadSize (unit_header u) \<le> maxPayload mb
    \<and> bh_transactionsRoot (unit_header u) = transactions_root (px_sha256 px) (bk_transactions (pu_block u))
    \<and> em_prepareNextCommit evm \<lparr>bc_commitKey = block_commitKey (unit_header u), bc_gasLimit = maxGasLimit mb,
        bc_prevrandao = getPrevrandao (px_keccak256 px) previous, bc_timestamp = bh_timestamp (unit_header u),
        bc_validatorAddress = bh_proposer (unit_header u)\<rparr> v = (Inr (), v1)
    \<and> run_all evm nc (unit_header u) (bk_transactions (pu_block u)) v1 = (Inr rcs, v2)
    \<and> bh_gasUsed (unit_header u) = gas_of rcs \<and> gas_of rcs \<le> maxGasLimit mb \<and> bh_fee (unit_header u) = fee_of (bk_transactions (pu_block u)) rcs
    \<and> round_updates evm nc m (bh_number (unit_header u) + 1)
        (update_of (block_commitKey (unit_header u)) (bh_timestamp (unit_header u)) (bh_proposer (unit_header u))) v2 = (Inr (), v3)
    \<and> em_stateRoot evm (block_commitKey (unit_header u)) (bh_stateRoot (bk_header previous)) v3 = (Inr (bh_stateRoot (unit_header u)), v4)
    \<and> em_logsBloom evm (block_commitKey (unit_header u)) v4 = (Inr (bh_logsBloom (unit_header u)), v')"
proof -
  let ?h = "unit_header u" and ?ts = "bk_transactions (pu_block u)"
  from assms(1,2) process_block_success [of px nc st vs evm u v v'] obtain m v1 rcs v2 where ver: "verify_block px nc st vs evm v u = Inr ()"
    and m: "milestone_of nc (bh_number ?h) = Inr m" and prep: "prepareCommit px nc st evm ?h m v = (Inr (), v1)" and run: "run_all evm nc ?h ?ts v1 = (Inr rcs, v2)" "bh_gasUsed ?h = gas_of rcs" "bh_fee ?h = fee_of ?ts rcs"
    and fin: "finish_block evm nc st ?h m v2 = (Inr (), v')" by blast
  note ver = ver [unfolded verify_block_Inr]
  obtain previous where p: "getLastBlock st = Inr previous" "bh_parentHash ?h = bh_hash (bk_header previous)" "bh_number ?h = bh_number (bk_header previous) + 1"
    using ver assms(3) by (auto simp: chainedVerifier_def sum_bind_Inr_iff)
  obtain mb where mb: "ms_block m = Some mb" "headerSize + bh_payloadSize ?h \<le> maxPayload mb"
    "length ?ts * 4 + sum_list (map (\<lambda>t. length (tx_serialized t)) ?ts) = bh_payloadSize ?h"
    using ver m by (auto simp: sizeVerifier_def sum_bind_Inr_iff defined_field_def Let_def split: option.splits)
  have v: "bh_version ?h = blockVersion mb" "gas_of rcs \<le> maxGasLimit mb" "ms_reward m = Some (bh_reward ?h)"
    using ver m mb(1) run(2) assms(3) by (auto simp: versionVerifier_def gasLimitVerifier_def rewardVerifier_def sum_bind_Inr_iff defined_field_def split: option.splits)
  obtain timing minimal where t: "ms_timeouts m = Some timing" "minimal \<le> bh_timestamp ?h"
    "calculateMinimalTimestamp timing (bh_timestamp (bk_header previous)) (bh_round ?h) = Inr minimal"
    using ver m p assms(3) by (auto simp: timestampVerifier_def sum_bind_Inr_iff defined_field_def split: option.splits)
  obtain validator where g: "sum_bind (getValidatorIndex nc st (bh_round ?h)) (getValidator vs) = Inr validator" "bh_proposer ?h = vw_address validator"
    using ver assms(3) by (auto simp: generatorVerifier_def sum_bind_Inr_iff)
  have d: "distinct (map tx_hash ?ts)" "bh_transactionsCount ?h = length ?ts" "bh_transactionsRoot ?h = transactions_root (px_sha256 px) ?ts" "bh_round ?h \<le> pu_round u"
    using ver by (auto simp: transactionsDuplicatesVerifier_def duplicates_loop_Inr transactionsLengthVerifier_def transactionsRootVerifier_def roundVerifier_def)
  obtain v3 v4 where "em_stateRoot evm (block_commitKey ?h) (bh_stateRoot (bk_header previous)) v3 = (Inr (bh_stateRoot ?h), v4)"
    "em_logsBloom evm (block_commitKey ?h) v4 = (Inr (bh_logsBloom ?h), v')"
    "round_updates evm nc m (bh_number ?h + 1) (update_of (block_commitKey ?h) (bh_timestamp ?h) (bh_proposer ?h)) v2 = (Inr (), v3)"
    using fin p(1) assms(3) by (auto simp: finish_block_def verify_roots_def getPreviousStateRoot_def op_bind_Inr)
  moreover have "em_prepareNextCommit evm \<lparr>bc_commitKey = block_commitKey ?h, bc_gasLimit = maxGasLimit mb,
      bc_prevrandao = getPrevrandao (px_keccak256 px) previous, bc_timestamp = bh_timestamp ?h, bc_validatorAddress = bh_proposer ?h\<rparr> v = (Inr (), v1)"
    using prep p(1) mb(1) assms(3) by (auto simp: prepareCommit_def block_prevrandao_def op_bind_Inr defined_field_def)
  ultimately show ?thesis using p m mb(1,2) mb(3) [unfolded payload_length, symmetric] v t g d run by blast
qed

section \<open>A sample chain\<close>

text \<open>One validator, so every block ends a round; the EVM charges 21000 gas for a transaction and has no state.\<close>

definition sample_rules :: "nat \<Rightarrow> milestone" where
  "sample_rules payload = \<lparr>ms_height = 0, ms_roundValidators = Some 1,
     ms_timeouts = Some \<lparr>blockPrepareTime = 4000, blockTime = 8000, stageTimeout = 2000, stageTimeoutIncrease = 2000, tolerance = 100\<rparr>,
     ms_block = Some \<lparr>maxGasLimit = 30000000, maxPayload = payload, blockVersion = 1\<rparr>, ms_reward = Some 2000000000, ms_snapshot = None,
     ms_evmSpec = Some ''Shanghai'', ms_validatorRegistrationFee = Some 250\<rparr>"

definition sample_chain :: "nat \<Rightarrow> network_config" where
  "sample_chain payload = \<lparr>nc_genesisNumber = 0, nc_milestones = [sample_rules payload], nc_chainId = 1\<rparr>"

definition sample_previous :: block where
  "sample_previous = \<lparr>bk_header = sample_header\<lparr>bh_number := 11, bh_hash := to_hex (replicate 32 8)\<rparr>, bk_serialized = [], bk_transactions = []\<rparr>"

definition sample_store :: state_store where
  "sample_store = \<lparr>so_genesisCommit = Some \<lparr>cm_block = sample_previous, cm_proof = \<lparr>cp_round = 0, cp_signature = [], cp_validators = []\<rparr>, cm_serialized = []\<rparr>,
     so_lastBlock = Some sample_previous, so_blockNumber = 11, so_totalRound = 5, so_configHeight = 12\<rparr>"

definition sample_validators :: validator_set where
  "sample_validators = (let v = \<lparr>vw_address = ''0x'' @ to_hex (replicate 20 4), vw_blsPublicKey = [], vw_voteBalance = 0, vw_fee = 0, vw_votersCount = 0,
     vw_isResigned = False\<rparr> in empty_validator_set\<lparr>vs_topValidators := [v], vs_indexByAddress := [(vw_address v, 0)]\<rparr>)"

definition sample_evm :: "unit evm" where
  "sample_evm = \<lparr>em_initializeGenesis = op_return (), em_prepareNextCommit = \<lambda>_. op_return (),
     em_process = \<lambda>c. if 21000 \<le> tc_gasLimit c then op_return \<lparr>rc_gasUsed = 21000, rc_status = 1, rc_contractAddress = None\<rparr> else op_lift (Inl (JsError ''gas'')),
     em_snapshot = \<lambda>_. op_return (), em_rollback = \<lambda>_. op_return (), em_updateRewardsAndVotes = \<lambda>_. op_return (),
     em_updateValidatorRegistrationFee = \<lambda>_. op_return (), em_calculateRoundValidators = \<lambda>_. op_return (),
     em_logsBloom = \<lambda>_. op_return (to_hex (replicate 256 0)), em_stateRoot = \<lambda>_ _. op_return (to_hex (replicate 32 2)),
     em_secondPublicKey = \<lambda>_ _ _. Inr None\<rparr>"

definition sample_processor :: processor_services where
  "sample_processor = \<lparr>px_sha256 = sample_sha256, px_keccak256 = sample_sha256, px_blsVerify = \<lambda>_ _ _. Inr True, px_verifySecondSignature = \<lambda>_ _. Inr True\<rparr>"

definition sample_unit :: processable_unit where
  "sample_unit = \<lparr>pu_block = \<lparr>bk_header = sample_header\<lparr>bh_timestamp := 1700000008000, bh_parentHash := to_hex (replicate 32 8), bh_transactionsCount := 0,
     bh_gasUsed := 0, bh_fee := 0, bh_payloadSize := 0, bh_transactionsRoot := transactions_root sample_sha256 []\<rparr>,
     bk_serialized = replicate (2 * headerSize) CHR ''0'', bk_transactions = []\<rparr>, pu_round = 0\<rparr>"

lemma sample_milestone: "milestone_of (sample_chain payload) n = Inr (sample_rules payload)" "nc_genesisNumber (sample_chain payload) = 0"
  by (simp_all add: sample_chain_def milestone_of_def milestone_at_def sample_rules_def)

lemma sample_new_round: "0 < n \<Longrightarrow> isNewRound (sample_chain payload) n = Inr True"
  by (simp add: isNewRound_def calculateRound_def getValidatorSpan_def getValidatorSpans_def sample_chain_def sample_rules_def milestone_at_def spans_from.simps
    span_covers_def getNextMilestoneWithNewKey_def Let_def)

lemmas sample_chain_simps = sample_milestone sample_rules_def sample_new_round sample_store_def sample_previous_def sample_validators_def sample_evm_def
  sample_processor_def sample_header_def getLastBlock_def getGenesisCommit_def defined_field_def

lemma sample_turns:
  assumes "bh_number (unit_header u) = 12" and "bh_round (unit_header u) = 0" and "bh_timestamp (unit_header u) = 1700000008000"
    and "bh_proposer (unit_header u) = ''0x'' @ to_hex (replicate 20 4)"
  shows "timestampVerifier (sample_chain payload) sample_store u = Inr ()" "generatorVerifier (sample_chain payload) sample_store sample_validators u = Inr ()"
    "randaoVerifier sample_processor (sample_chain payload) sample_store sample_validators u = Inr ()"
  using assms by (simp_all add: timestampVerifier_def generatorVerifier_def randaoVerifier_def sample_chain_simps calculateMinimalTimestamp_def
    getValidatorIndex_def getValidatorIndexFrom_def getValidator_def getValidatorIndexByWalletAddress_def map_get_def randaoMessage_def
    require_def Let_def)

lemma sample_processed: "\<exists>r v'. process_block sample_processor (sample_chain 2097152) sample_store sample_validators sample_evm sample_unit () = (r, v') \<and> br_success r"
proof -
  let ?nc = "sample_chain 2097152" and ?u = sample_unit
  have u: "bh_number (unit_header ?u) = 12" "bh_round (unit_header ?u) = 0" "bh_timestamp (unit_header ?u) = 1700000008000"
    "bh_proposer (unit_header ?u) = ''0x'' @ to_hex (replicate 20 4)" by (simp_all add: sample_unit_def sample_header_def)
  have "verify_block sample_processor ?nc sample_store sample_validators sample_evm () ?u = Inr ()"
    unfolding verify_block_Inr
    by (intro conjI sample_turns u) (simp_all add: chainedVerifier_def roundVerifier_def sizeVerifier_def versionVerifier_def rewardVerifier_def transactionsLengthVerifier_def
      transactionsDuplicatesVerifier_def transactionsRootVerifier_def gasLimitVerifier_def legacyAttributeVerifier_def
      sample_chain_simps sample_unit_def headerSize_def hashSize_def require_def Let_def)
  moreover have "\<exists>m v1 rcs v2. milestone_of ?nc (bh_number (unit_header ?u)) = Inr m \<and> prepareCommit sample_processor ?nc sample_store sample_evm (unit_header ?u) m () = (Inr (), v1)
    \<and> run_all sample_evm ?nc (unit_header ?u) (bk_transactions (pu_block ?u)) v1 = (Inr rcs, v2) \<and> bh_gasUsed (unit_header ?u) = gas_of rcs
    \<and> bh_fee (unit_header ?u) = fee_of (bk_transactions (pu_block ?u)) rcs \<and> finish_block sample_evm ?nc sample_store (unit_header ?u) m v2 = (Inr (), ())"
    by (simp add: prepareCommit_def block_prevrandao_def finish_block_def round_updates_def verify_roots_def getPreviousStateRoot_def op_bind_Inr
      sample_chain_simps sample_unit_def gas_of_def fee_of_def require_def) blast
  ultimately show ?thesis using process_block_success [of sample_processor ?nc sample_store sample_validators sample_evm ?u "()" "()"] by auto
qed

theorem processed_block_is_valid_witness:
  "\<exists>r v1 rcs v2. br_success r \<and> bh_number (unit_header sample_unit) = bh_number (bk_header sample_previous) + 1
     \<and> run_all sample_evm (sample_chain 2097152) (unit_header sample_unit) [] v1 = (Inr rcs, v2) \<and> bh_gasUsed (unit_header sample_unit) = gas_of rcs
     \<and> fst (process_block sample_processor (sample_chain 2097152) sample_store sample_validators sample_evm sample_unit ()) = r"
proof -
  obtain r v' where r: "process_block sample_processor (sample_chain 2097152) sample_store sample_validators sample_evm sample_unit () = (r, v')" "br_success r"
    using sample_processed by blast
  have "bh_number (unit_header sample_unit) \<noteq> nc_genesisNumber (sample_chain 2097152)" by (simp add: sample_unit_def sample_header_def sample_milestone)
  from processed_block_is_valid [OF r this] r show ?thesis by (fastforce simp: sample_unit_def getLastBlock_def sample_store_def)
qed

end
