(* ===== verification/Block_Forger.thy ===== *)
theory Block_Forger
  imports Block_Processor Transaction_Codec Pool_Query
begin

text \<open>
  \<open>packages/forger/source\<close>: how a proposer makes a block. \<open>transaction-iterable.ts\<close> takes the transactions from the selector of the
  pool batch by batch, \<open>transaction-forger.ts\<close> executes them on an EVM of its own until time or gas runs out, and \<open>block-forger.ts\<close>
  makes the block.

  The clock is an argument that tells for each transaction whether the time is over. The instance of the EVM is thrown away
  afterwards (\<open>dispose\<close>).
\<close>

section \<open>Transactions from the pool\<close>

definition transaction_toData :: "transaction \<Rightarrow> transaction_data" where
  "transaction_toData t = \<lparr>td_network = tx_network t, td_to = tx_to t, td_value = tx_value t, td_gasPrice = tx_gasPrice t, td_gasLimit = tx_gasLimit t,
     td_nonce = int (tx_nonce t), td_data = tx_data t, td_v = int (tx_v t), td_r = tx_r t, td_s = tx_s t,
     td_legacySecondSignature = (if tx_legacySecondSignature t = Some [] then None else tx_legacySecondSignature t)\<rparr>"

definition fromPoolData :: "viem \<Rightarrow> transaction \<Rightarrow> error + transaction" where
  "fromPoolData vm t = sum_bind (serialize_transaction vm (transaction_toData t)) (\<lambda>serialized. Inr (t\<lparr>tx_serialized := serialized\<rparr>))"

lemma getBatch_progress:
  assumes "getBatch mp blockRound maxBytes maxSize s = (Inr (remaining, batch), s1)" and "batch \<noteq> []"
  shows "se_currentBlockRound s1 = blockRound"
    and "se_currentBlockRound s = blockRound \<Longrightarrow> length (se_transactions s1) - se_index s1 < length (se_transactions s) - se_index s"
proof -
  obtain s0 where s0: "prepare mp blockRound s = Done s0" using assms(1) by (cases "prepare mp blockRound s") (auto simp: getBatch_def)
  have b: "batch = batch_loop (drop (se_index s0) (se_transactions s0)) (int maxBytes) maxSize 0" and s1: "s1 = s0\<lparr>se_index := se_index s0 + length batch\<rparr>"
    using assms(1) s0 by (auto simp: getBatch_def Let_def)
  show "se_currentBlockRound s1 = blockRound" using s0 s1 by (auto simp: prepare_def Let_def split: if_splits sum.splits)
  assume "se_currentBlockRound s = blockRound"
  then have "s0 = s" using s0 by (simp add: prepare_def)
  moreover have "drop (se_index s0) (se_transactions s0) \<noteq> []" using b assms(2) by auto
  ultimately show "length (se_transactions s1) - se_index s1 < length (se_transactions s) - se_index s" using s1 assms(2) by (cases batch) auto
qed

text \<open>What the iterator yields, and what it throws as its last element.\<close>

function transaction_iterable :: "viem \<Rightarrow> mempool \<Rightarrow> string \<Rightarrow> selector \<Rightarrow> (error + transaction) list" where
  "transaction_iterable vm mp blockRound s =
     (case getBatch mp blockRound 10000000 100 s of
        (Inl err, s1) \<Rightarrow> [Inl err]
      | (Inr (remaining, batch), s1) \<Rightarrow> if batch = [] then [] else map (fromPoolData vm) batch @ transaction_iterable vm mp blockRound s1)"
  by pat_completeness auto

termination
  by (relation "measures [\<lambda>(vm, mp, blockRound, s). if se_currentBlockRound s = blockRound then 0 else 1,
      \<lambda>(vm, mp, blockRound, s). length (se_transactions s) - se_index s]")
    (auto dest!: sym [of "(Inr _, _)"] dest: getBatch_progress)

declare transaction_iterable.simps [simp del]

section \<open>Transaction forger\<close>

text \<open>\<open>ProcessTransactionResult\<close> with the set of failed senders and the transactions the pool was asked to remove.\<close>

record forger_state =
  fs_fee :: int
  fs_gasLeft :: int
  fs_gasUsed :: nat
  fs_transactions :: "transaction list"
  fs_failedSenders :: "string set"
  fs_removed :: "(string \<times> string) list"

record forger_env =
  fe_late :: "nat \<Rightarrow> bool"
  fe_removeTransaction :: "string \<Rightarrow> string \<Rightarrow> error option"

definition handleFailedTransaction :: "forger_env \<Rightarrow> transaction \<Rightarrow> forger_state \<Rightarrow> forger_state outcome" where
  "handleFailedTransaction fe t s =
     (case fe_removeTransaction fe (tx_from t) (tx_hash t) of
        Some err \<Rightarrow> Threw err s
      | None \<Rightarrow> Done (s\<lparr>fs_removed := fs_removed s @ [(tx_from t, tx_hash t)], fs_failedSenders := insert (tx_senderPublicKey t) (fs_failedSenders s)\<rparr>))"

text \<open>The \<open>catch\<close> of \<open>#processTransaction\<close>; an exception of the rollback is only logged.\<close>

definition forge_failed :: "forger_env \<Rightarrow> 'v evm \<Rightarrow> commit_key \<Rightarrow> transaction \<Rightarrow> bool \<Rightarrow> forger_state \<Rightarrow> 'v \<Rightarrow> forger_state outcome \<times> 'v" where
  "forge_failed fe evm key t snapshotTaken s v =
     (handleFailedTransaction fe t s, if snapshotTaken then snd (em_rollback evm key v) else v)"

definition forge_execute :: "forger_env \<Rightarrow> 'v evm \<Rightarrow> commit_key \<Rightarrow> string option \<Rightarrow> transaction \<Rightarrow> bool \<Rightarrow> forger_state \<Rightarrow> 'v \<Rightarrow> forger_state outcome \<times> 'v" where
  "forge_execute fe evm key specId t snapshotTaken s v =
     (case em_process evm (tx_context key specId t) v of
        (Inl err, v1) \<Rightarrow> forge_failed fe evm key t snapshotTaken s v1
      | (Inr validation, v1) \<Rightarrow>
          let gasUsed = rc_gasUsed validation;
              s1 = s\<lparr>fs_gasLeft := fs_gasLeft s - int gasUsed\<rparr>
          in if fs_gasLeft s1 < 0 then
               (if snapshotTaken then
                  (case em_rollback evm key v1 of
                     (Inr _, v2) \<Rightarrow> (Done s1, v2)
                   | (Inl err, v2) \<Rightarrow> forge_failed fe evm key t snapshotTaken s1 v2)
                else forge_failed fe evm key t snapshotTaken s1 v1)
             else (Done (s1\<lparr>fs_gasUsed := fs_gasUsed s1 + gasUsed,
                fs_fee := fs_fee s1 + calculateConsumed (int (tx_gasPrice t)) (int gasUsed), fs_transactions := fs_transactions s1 @ [t]\<rparr>), v1))"

definition forge_transaction :: "forger_env \<Rightarrow> 'v evm \<Rightarrow> commit_key \<Rightarrow> string option \<Rightarrow> transaction \<Rightarrow> forger_state \<Rightarrow> 'v \<Rightarrow> forger_state outcome \<times> 'v" where
  "forge_transaction fe evm key specId t s v =
     (if fs_gasLeft s - int (tx_gasLimit t) < 0 then
        (case em_snapshot evm key v of
           (Inl err, v1) \<Rightarrow> forge_failed fe evm key t False s v1
         | (Inr _, v1) \<Rightarrow> forge_execute fe evm key specId t True s v1)
      else forge_execute fe evm key specId t False s v)"

text \<open>The loop over the iterator; the index is that of the transaction.\<close>

fun forge_loop :: "forger_env \<Rightarrow> 'v evm \<Rightarrow> commit_key \<Rightarrow> string option \<Rightarrow> nat \<Rightarrow> (error + transaction) list \<Rightarrow> forger_state \<Rightarrow> 'v \<Rightarrow> forger_state outcome \<times> 'v" where
  "forge_loop fe evm key specId i [] s v = (Done s, v)"
| "forge_loop fe evm key specId i (Inl err # source) s v = (Threw err s, v)"
| "forge_loop fe evm key specId i (Inr t # source) s v =
     (if fe_late fe i then (Done s, v)
      else if tx_senderPublicKey t \<in> fs_failedSenders s then forge_loop fe evm key specId (i + 1) source s v
      else if fs_gasLeft s < 21000 then (Done s, v)
      else (case forge_transaction fe evm key specId t s v of
              (Threw err s1, v1) \<Rightarrow> (Threw err s1, v1)
            | (Done s1, v1) \<Rightarrow> forge_loop fe evm key specId (i + 1) source s1 v1))"

record forged_transactions =
  fg_fee :: int
  fg_gasUsed :: nat
  fg_logsBloom :: string
  fg_stateRoot :: string
  fg_transactions :: "transaction list"

definition forge_start :: "nat \<Rightarrow> forger_state" where
  "forge_start gasLimit = \<lparr>fs_fee = 0, fs_gasLeft = int gasLimit, fs_gasUsed = 0, fs_transactions = [], fs_failedSenders = {}, fs_removed = []\<rparr>"

text \<open>\<open>initialize\<close> and \<open>getTransactions\<close>. The two updates at the end of a round test for it each, with the same result.\<close>

definition forge_transactions ::
  "(bytes \<Rightarrow> bytes) \<Rightarrow> network_config \<Rightarrow> state_store \<Rightarrow> 'v evm \<Rightarrow> forger_env \<Rightarrow> (error + transaction) list \<Rightarrow> string \<Rightarrow> nat \<Rightarrow> commit_key \<Rightarrow>
   ('v, forged_transactions) evm_op" where
  "forge_transactions keccak256 nc st evm fe source generatorAddress timestamp key =
     op_bind (op_lift (milestone_of nc (so_configHeight st))) (\<lambda>m.
     op_bind (op_lift (getLastBlock st)) (\<lambda>previousBlock.
     op_bind (op_lift (defined_field (ms_timeouts m))) (\<lambda>_.
     op_bind (em_initializeGenesis evm) (\<lambda>_.
     op_bind (op_lift (defined_field (ms_block m))) (\<lambda>mb.
     op_bind (em_prepareNextCommit evm \<lparr>bc_commitKey = key, bc_gasLimit = maxGasLimit mb, bc_prevrandao = getPrevrandao keccak256 previousBlock,
       bc_timestamp = timestamp, bc_validatorAddress = generatorAddress\<rparr>) (\<lambda>_.
     op_bind (\<lambda>v. case forge_loop fe evm key (ms_evmSpec m) 0 source (forge_start (maxGasLimit mb)) v of
        (Done s, v1) \<Rightarrow> (Inr s, v1) | (Threw err s, v1) \<Rightarrow> (Inl err, v1)) (\<lambda>s.
     op_bind (round_updates evm nc m (bh_number (bk_header previousBlock) + 2) (update_of key timestamp generatorAddress)) (\<lambda>_.
     op_bind (em_logsBloom evm key) (\<lambda>logsBloom.
     op_bind (em_stateRoot evm key (bh_stateRoot (bk_header previousBlock))) (\<lambda>stateRoot.
       op_return \<lparr>fg_fee = fs_fee s, fg_gasUsed = fs_gasUsed s, fg_logsBloom = logsBloom, fg_stateRoot = stateRoot,
         fg_transactions = fs_transactions s\<rparr>))))))))))"

section \<open>Block forger\<close>

record forger_services =
  fv_viem :: viem
  fv_sha256 :: "bytes \<Rightarrow> bytes"
  fv_keccak256 :: "bytes \<Rightarrow> bytes"
  fv_verifyBlock :: "block_header \<Rightarrow> transaction list \<Rightarrow> error option"

text \<open>The header \<open>#makeBlock\<close> hands to the factory; its hash is not known yet.\<close>

definition forged_header :: "(bytes \<Rightarrow> bytes) \<Rightarrow> int \<Rightarrow> nat \<Rightarrow> string \<Rightarrow> nat \<Rightarrow> string \<Rightarrow> block \<Rightarrow> forged_transactions \<Rightarrow> block_header" where
  "forged_header sha256 reward round proposer timestamp randaoReveal previousBlock f =
     \<lparr>bh_version = 1, bh_timestamp = timestamp, bh_number = bh_number (bk_header previousBlock) + 1, bh_round = round,
      bh_parentHash = bh_hash (bk_header previousBlock), bh_stateRoot = fg_stateRoot f, bh_logsBloom = fg_logsBloom f,
      bh_transactionsCount = length (fg_transactions f), bh_gasUsed = fg_gasUsed f, bh_fee = fg_fee f, bh_reward = reward,
      bh_payloadSize = length (fg_transactions f) * 4 + sum_list (map (\<lambda>t. length (tx_serialized t)) (fg_transactions f)),
      bh_transactionsRoot = transactions_root sha256 (fg_transactions f), bh_proposer = proposer, bh_randaoReveal = randaoReveal, bh_hash = []\<rparr>"

definition makeBlock :: "forger_services \<Rightarrow> network_config \<Rightarrow> nat \<Rightarrow> string \<Rightarrow> nat \<Rightarrow> string \<Rightarrow> block \<Rightarrow> forged_transactions \<Rightarrow> error + block" where
  "makeBlock fv nc round proposer timestamp randaoReveal previousBlock f =
     sum_bind (sum_bind (milestone_of nc (bh_number (bk_header previousBlock) + 1)) (\<lambda>m. defined_field (ms_reward m))) (\<lambda>reward.
       make_block (fv_viem fv) (fv_sha256 fv) (fv_verifyBlock fv)
         (forged_header (fv_sha256 fv) reward round proposer timestamp randaoReveal previousBlock f) (fg_transactions f))"

definition forgeBlock ::
  "forger_services \<Rightarrow> network_config \<Rightarrow> state_store \<Rightarrow> 'v evm \<Rightarrow> forger_env \<Rightarrow> (error + transaction) list \<Rightarrow>
   string \<Rightarrow> nat \<Rightarrow> nat \<Rightarrow> string \<Rightarrow> ('v, block) evm_op" where
  "forgeBlock fv nc st evm fe source generatorAddress round timestamp randaoReveal =
     op_bind (op_lift (getLastBlock st)) (\<lambda>previousBlock.
     op_bind (forge_transactions (fv_keccak256 fv) nc st evm fe source generatorAddress timestamp
       \<lparr>ck_blockNumber = bh_number (bk_header previousBlock) + 1, ck_round = round, ck_blockHash = None\<rparr>) (\<lambda>f.
       op_lift (makeBlock fv nc round generatorAddress timestamp randaoReveal previousBlock f)))"

end
