(* ===== verification/Forged_Blocks.thy ===== *)
theory Forged_Blocks
  imports Block_Forger "HOL-Library.Sublist"
begin

text \<open>
  The forger against the processor. Both execute the same transactions, the forger on an instance of its own that is thrown away
  and with roll backs in between, the processor on the instance of the node. What is relied on of the EVM is \<open>evm_ok\<close>; under it every
  transaction the forger takes runs the same way in the processor, so that gas, fee and roots of the block come out right.
\<close>

section \<open>What is relied on of the EVM\<close>

text \<open>\<open>R\<close> relates states of two instances that behave the same. The hash in a commit key does not matter, reading
  changes nothing, a call that throws or is rolled back to a snapshot leaves no trace, and a transaction uses at most its gas limit.\<close>

definition same_key :: "commit_key \<Rightarrow> commit_key \<Rightarrow> bool" where
  "same_key k k' \<longleftrightarrow> ck_blockNumber k = ck_blockNumber k' \<and> ck_round k = ck_round k'"

definition agrees :: "('v \<Rightarrow> 'v \<Rightarrow> bool) \<Rightarrow> ('v, 'a) evm_op \<Rightarrow> ('v, 'a) evm_op \<Rightarrow> bool" where
  "agrees R f g \<longleftrightarrow> (\<forall>v w a v'. R v w \<longrightarrow> f v = (Inr a, v') \<longrightarrow> (\<exists>w'. g w = (Inr a, w') \<and> R v' w'))"

definition silent :: "('v \<Rightarrow> 'v \<Rightarrow> bool) \<Rightarrow> ('v, 'a) evm_op \<Rightarrow> bool" where
  "silent R f \<longleftrightarrow> (\<forall>v w. R v w \<longrightarrow> R (snd (f v)) w \<and> R v (snd (f w)))"

definition evm_ok :: "'v evm \<Rightarrow> ('v \<Rightarrow> 'v \<Rightarrow> bool) \<Rightarrow> bool" where
  "evm_ok evm R \<longleftrightarrow> (\<forall>c k. same_key (bc_commitKey c) k \<longrightarrow> agrees R (em_prepareNextCommit evm c) (em_prepareNextCommit evm (c\<lparr>bc_commitKey := k\<rparr>)))
     \<and> (\<forall>c k. same_key (tc_commitKey c) k \<longrightarrow> agrees R (em_process evm c) (em_process evm (c\<lparr>tc_commitKey := k\<rparr>)))
     \<and> (\<forall>c k. same_key (uc_commitKey c) k \<longrightarrow> agrees R (em_updateRewardsAndVotes evm c) (em_updateRewardsAndVotes evm (c\<lparr>uc_commitKey := k\<rparr>)))
     \<and> (\<forall>c k. same_key (uc_commitKey c) k \<longrightarrow> agrees R (em_updateValidatorRegistrationFee evm c) (em_updateValidatorRegistrationFee evm (c\<lparr>uc_commitKey := k\<rparr>)))
     \<and> (\<forall>c k. same_key (uc_commitKey c) k \<longrightarrow> agrees R (em_calculateRoundValidators evm c) (em_calculateRoundValidators evm (c\<lparr>uc_commitKey := k\<rparr>)))
     \<and> (\<forall>k k' root. same_key k k' \<longrightarrow> agrees R (em_stateRoot evm k root) (em_stateRoot evm k' root))
     \<and> (\<forall>k k'. same_key k k' \<longrightarrow> agrees R (em_logsBloom evm k) (em_logsBloom evm k'))
     \<and> (\<forall>k root. silent R (em_stateRoot evm k root)) \<and> (\<forall>k. silent R (em_logsBloom evm k)) \<and> (\<forall>k. silent R (em_snapshot evm k))
     \<and> (\<forall>c v w err v'. R v w \<longrightarrow> em_process evm c v = (Inl err, v') \<longrightarrow> R v' w)
     \<and> (\<forall>c v w v1 x v2. R v w \<longrightarrow> em_snapshot evm (tc_commitKey c) v = (Inr (), v1) \<longrightarrow> em_process evm c v1 = (x, v2) \<longrightarrow>
          (\<exists>v3. em_rollback evm (tc_commitKey c) v2 = (Inr (), v3) \<and> R v3 w))
     \<and> (\<forall>c v rc v'. em_process evm c v = (Inr rc, v') \<longrightarrow> rc_gasUsed rc \<le> tc_gasLimit c)"

lemmas evm_prepare = evm_ok_def [THEN iffD1, THEN conjunct1, rule_format]
lemmas evm_process = evm_ok_def [THEN iffD1, THEN conjunct2, THEN conjunct1, rule_format]
lemmas evm_rewards = evm_ok_def [THEN iffD1, THEN conjunct2, THEN conjunct2, THEN conjunct1, rule_format]
lemmas evm_fee = evm_ok_def [THEN iffD1, THEN conjunct2, THEN conjunct2, THEN conjunct2, THEN conjunct1, rule_format]
lemmas evm_round = evm_ok_def [THEN iffD1, THEN conjunct2, THEN conjunct2, THEN conjunct2, THEN conjunct2, THEN conjunct1, rule_format]
lemmas evm_root = evm_ok_def [THEN iffD1, THEN conjunct2, THEN conjunct2, THEN conjunct2, THEN conjunct2, THEN conjunct2, THEN conjunct1, rule_format]
lemmas evm_bloom = evm_ok_def [THEN iffD1, THEN conjunct2, THEN conjunct2, THEN conjunct2, THEN conjunct2, THEN conjunct2, THEN conjunct2, THEN conjunct1, rule_format]
lemmas evm_silent_root = evm_ok_def [THEN iffD1, THEN conjunct2, THEN conjunct2, THEN conjunct2, THEN conjunct2, THEN conjunct2, THEN conjunct2, THEN conjunct2, THEN conjunct1, rule_format]
lemmas evm_silent_bloom = evm_ok_def [THEN iffD1, THEN conjunct2, THEN conjunct2, THEN conjunct2, THEN conjunct2, THEN conjunct2, THEN conjunct2, THEN conjunct2, THEN conjunct2, THEN conjunct1, rule_format]
lemmas evm_silent_snapshot = evm_ok_def [THEN iffD1, THEN conjunct2, THEN conjunct2, THEN conjunct2, THEN conjunct2, THEN conjunct2, THEN conjunct2, THEN conjunct2, THEN conjunct2, THEN conjunct2, THEN conjunct1, rule_format]
lemmas evm_throws = evm_ok_def [THEN iffD1, THEN conjunct2, THEN conjunct2, THEN conjunct2, THEN conjunct2, THEN conjunct2, THEN conjunct2, THEN conjunct2, THEN conjunct2, THEN conjunct2, THEN conjunct2, THEN conjunct1, rule_format]
lemmas evm_rolls_back = evm_ok_def [THEN iffD1, THEN conjunct2, THEN conjunct2, THEN conjunct2, THEN conjunct2, THEN conjunct2, THEN conjunct2, THEN conjunct2, THEN conjunct2, THEN conjunct2, THEN conjunct2, THEN conjunct2, THEN conjunct1, rule_format]
lemmas evm_gas = evm_ok_def [THEN iffD1, THEN conjunct2, THEN conjunct2, THEN conjunct2, THEN conjunct2, THEN conjunct2, THEN conjunct2, THEN conjunct2, THEN conjunct2, THEN conjunct2, THEN conjunct2, THEN conjunct2, THEN conjunct2, rule_format]

lemma agreesE:
  assumes "agrees R f g" and "R v w" and "f v = (Inr a, v')"
  obtains w' where "g w = (Inr a, w')" and "R v' w'"
  using assms unfolding agrees_def by blast

lemma silentD: "silent R f \<Longrightarrow> R v w \<Longrightarrow> f v = (x, v') \<Longrightarrow> R v' w" "silent R f \<Longrightarrow> R v w \<Longrightarrow> f w = (x, w') \<Longrightarrow> R v w'"
  unfolding silent_def by (metis snd_conv)+

section \<open>One transaction\<close>

lemma tx_context_key: "(tx_context key specId t)\<lparr>tc_commitKey := k\<rparr> = tx_context k specId t"
  "tc_commitKey (tx_context key specId t) = key" "tc_gasLimit (tx_context key specId t) = tx_gasLimit t"
  by (simp_all add: tx_context_def)

lemma handleFailed_keeps:
  "handleFailedTransaction fe t s = Done s' \<Longrightarrow> fs_fee s' = fs_fee s \<and> fs_gasLeft s' = fs_gasLeft s \<and> fs_gasUsed s' = fs_gasUsed s \<and> fs_transactions s' = fs_transactions s"
  by (auto simp: handleFailedTransaction_def split: option.splits)

text \<open>Either the transaction was left out or it was executed as the processor executes it.\<close>

definition left_out :: "forger_state \<Rightarrow> forger_state \<Rightarrow> bool" where
  "left_out s s' \<longleftrightarrow> fs_fee s' = fs_fee s \<and> fs_gasUsed s' = fs_gasUsed s \<and> fs_transactions s' = fs_transactions s \<and> fs_gasLeft s' \<le> fs_gasLeft s"

definition taken_in :: "transaction \<Rightarrow> receipt \<Rightarrow> forger_state \<Rightarrow> forger_state \<Rightarrow> bool" where
  "taken_in t rc s s' \<longleftrightarrow> fs_fee s' = fs_fee s + calculateConsumed (int (tx_gasPrice t)) (int (rc_gasUsed rc))
     \<and> fs_gasUsed s' = fs_gasUsed s + rc_gasUsed rc \<and> fs_transactions s' = fs_transactions s @ [t]
     \<and> fs_gasLeft s' = fs_gasLeft s - int (rc_gasUsed rc) \<and> 0 \<le> fs_gasLeft s'"

lemma forge_execute_result:
  assumes ok: "evm_ok evm R" and rel: "R v0 w" "if snapshotTaken then em_snapshot evm key v0 = (Inr (), v) else v = v0"
    and fits: "snapshotTaken \<or> int (tx_gasLimit t) \<le> fs_gasLeft s"
    and h: "same_key key (block_commitKey h)" "milestone_of nc (bh_number h) = Inr m"
    and run: "forge_execute fe evm key (ms_evmSpec m) t snapshotTaken s v = (Done s', v')"
  shows "(left_out s s' \<and> R v' w) \<or> (\<exists>rc w'. transaction_process evm nc h t w = (Inr rc, w') \<and> R v' w' \<and> taken_in t rc s s')"
proof -
  let ?c = "tx_context key (ms_evmSpec m) t"
  obtain x v1 where p: "em_process evm ?c v = (x, v1)" by fastforce
  have rolled: "\<exists>v3. em_rollback evm key v1 = (Inr (), v3) \<and> R v3 w" if taken: "snapshotTaken"
    using evm_rolls_back [OF ok rel(1), of ?c] rel(2) taken p by (simp add: tx_context_key)
  have failed: "left_out s s' \<and> R v' w" if f: "forge_failed fe evm key t snapshotTaken s1 v1 = (Done s', v')" and l: "left_out s s1"
    and r: "\<not> snapshotTaken \<Longrightarrow> R v1 w" for s1
  proof -
    have s': "handleFailedTransaction fe t s1 = Done s'" and v': "v' = (if snapshotTaken then snd (em_rollback evm key v1) else v1)"
      using f by (auto simp: forge_failed_def)
    show ?thesis using handleFailed_keeps [OF s'] l rolled r v' by (auto simp: left_out_def)
  qed
  show ?thesis
  proof (cases x)
    case (Inl err)
    have "R v1 w" if "\<not> snapshotTaken" using evm_throws [OF ok rel(1)] rel(2) p Inl that by simp
    moreover have "forge_failed fe evm key t snapshotTaken s v1 = (Done s', v')" using run p Inl by (simp add: forge_execute_def)
    ultimately show ?thesis using failed [of s] by (simp add: left_out_def)
  next
    case (Inr rc)
    let ?s1 = "s\<lparr>fs_gasLeft := fs_gasLeft s - int (rc_gasUsed rc)\<rparr>"
    have gas: "rc_gasUsed rc \<le> tx_gasLimit t" using evm_gas [OF ok p [unfolded Inr]] by (simp add: tx_context_key)
    show ?thesis
    proof (cases "fs_gasLeft ?s1 < 0")
      case True
      then have taken: "snapshotTaken" using fits gas by auto
      with rolled obtain v3 where "em_rollback evm key v1 = (Inr (), v3)" "R v3 w" by blast
      with run p Inr True taken show ?thesis by (auto simp: forge_execute_def left_out_def Let_def)
    next
      case False
      have rv: "R v w" using rel silentD(1) [OF evm_silent_snapshot [OF ok] rel(1)] by (auto split: if_splits)
      have "agrees R (em_process evm ?c) (em_process evm (tx_context (block_commitKey h) (ms_evmSpec m) t))"
        using evm_process [OF ok, of ?c] h(1) by (simp add: tx_context_key)
      from agreesE [OF this rv p [unfolded Inr]] obtain w' where "em_process evm (tx_context (block_commitKey h) (ms_evmSpec m) t) w = (Inr rc, w')" "R v1 w'" .
      moreover have "taken_in t rc s s'" "v' = v1" using run p Inr False by (auto simp: forge_execute_def Let_def taken_in_def)
      ultimately show ?thesis using h(2) by (auto simp: transaction_process_def op_bind_def op_lift_def)
    qed
  qed
qed

lemma forge_transaction_result:
  assumes ok: "evm_ok evm R" and rel: "R v w" and h: "same_key key (block_commitKey h)" "milestone_of nc (bh_number h) = Inr m"
    and run: "forge_transaction fe evm key (ms_evmSpec m) t s v = (Done s', v')"
  shows "(left_out s s' \<and> R v' w) \<or> (\<exists>rc w'. transaction_process evm nc h t w = (Inr rc, w') \<and> R v' w' \<and> taken_in t rc s s')"
proof (cases "fs_gasLeft s - int (tx_gasLimit t) < 0")
  case False
  with run show ?thesis by (intro forge_execute_result [OF ok rel _ _ h, of False]) (auto simp: forge_transaction_def)
next
  case True
  obtain x v1 where sn: "em_snapshot evm key v = (x, v1)" by fastforce
  show ?thesis
  proof (cases x)
    case (Inl err)
    have "R v1 w" by (rule silentD(1) [OF evm_silent_snapshot [OF ok] rel sn])
    with run True sn Inl handleFailed_keeps [of fe t s s'] show ?thesis by (auto simp: forge_transaction_def forge_failed_def left_out_def)
  next
    case (Inr y)
    with run True sn show ?thesis by (intro forge_execute_result [OF ok rel _ _ h, of True]) (auto simp: forge_transaction_def)
  qed
qed

section \<open>All transactions\<close>

definition source_transactions :: "(error + transaction) list \<Rightarrow> transaction list" where
  "source_transactions source = concat (map (\<lambda>x. case x of Inl _ \<Rightarrow> [] | Inr t \<Rightarrow> [t]) source)"

lemma source_transactions_simps [simp]:
  "source_transactions [] = []" "source_transactions (Inl err # source) = source_transactions source"
  "source_transactions (Inr t # source) = t # source_transactions source"
  by (simp_all add: source_transactions_def)

text \<open>The gas of a block under way stays below the limit \<open>g\<close>.\<close>

definition gas_within :: "int \<Rightarrow> forger_state \<Rightarrow> bool" where
  "gas_within g s \<longleftrightarrow> int (fs_gasUsed s) + fs_gasLeft s \<le> g \<and> int (fs_gasUsed s) \<le> g"

lemma gas_within_kept: "gas_within g s \<Longrightarrow> left_out s s' \<Longrightarrow> gas_within g s'" "gas_within g s \<Longrightarrow> taken_in t rc s s' \<Longrightarrow> gas_within g s'"
  by (auto simp: gas_within_def left_out_def taken_in_def)

definition forged_from :: "transaction list \<Rightarrow> receipt list \<Rightarrow> forger_state \<Rightarrow> forger_state \<Rightarrow> bool" where
  "forged_from ts rcs s s' \<longleftrightarrow> fs_transactions s' = fs_transactions s @ ts \<and> fs_gasUsed s' = fs_gasUsed s + gas_of rcs
     \<and> fs_fee s' = fs_fee s + fee_of ts rcs \<and> (\<forall>g. gas_within g s \<longrightarrow> gas_within g s')"

lemma forged_from_Nil: "left_out s s' \<Longrightarrow> forged_from ts rcs s' s'' \<Longrightarrow> forged_from ts rcs s s''"
  using gas_within_kept(1) by (auto simp: forged_from_def left_out_def)

lemma forged_from_Cons: "taken_in t rc s s' \<Longrightarrow> forged_from ts rcs s' s'' \<Longrightarrow> forged_from (t # ts) (rc # rcs) s s''"
  using gas_within_kept(2) by (auto simp: forged_from_def taken_in_def)

lemma forge_loop_step:
  assumes "forge_loop fe evm key specId i (Inr t # source) s v = (Done s', v')"
  shows "(s' = s \<and> v' = v) \<or> forge_loop fe evm key specId (i + 1) source s v = (Done s', v')
    \<or> (\<exists>s1 v1. forge_transaction fe evm key specId t s v = (Done s1, v1) \<and> forge_loop fe evm key specId (i + 1) source s1 v1 = (Done s', v'))"
proof -
  obtain y v1 where "forge_transaction fe evm key specId t s v = (y, v1)" by fastforce
  then show ?thesis using assms by (cases y) (simp_all split: if_splits)
qed

lemma forge_loop_result:
  assumes ok: "evm_ok evm R" and h: "same_key key (block_commitKey h)" "milestone_of nc (bh_number h) = Inr m"
    and "R v w" and "forge_loop fe evm key (ms_evmSpec m) i source s v = (Done s', v')"
  shows "\<exists>ts rcs w'. run_all evm nc h ts w = (Inr rcs, w') \<and> R v' w' \<and> forged_from ts rcs s s' \<and> subseq ts (source_transactions source)"
  using assms(4,5)
proof (induction source arbitrary: i s v w)
  case Nil
  then show ?case by (intro exI [of _ "[]"] exI [of _ w]) (auto simp: forged_from_def)
next
  case (Cons x source)
  have none: "\<exists>ts rcs w'. run_all evm nc h ts w = (Inr rcs, w') \<and> R v w' \<and> forged_from ts rcs s s \<and> subseq ts (source_transactions (x # source))"
    using Cons.prems(1) by (intro exI [of _ "[]"] exI [of _ w]) (auto simp: forged_from_def)
  obtain t where x: "x = Inr t" using Cons.prems(2) by (cases x) auto
  from forge_loop_step [OF Cons.prems(2) [unfolded x]] consider (stop) "s' = s" "v' = v" | (skipped) "forge_loop fe evm key (ms_evmSpec m) (i + 1) source s v = (Done s', v')"
    | (go) s1 v1 where "forge_transaction fe evm key (ms_evmSpec m) t s v = (Done s1, v1)" "forge_loop fe evm key (ms_evmSpec m) (i + 1) source s1 v1 = (Done s', v')"
    by blast
  then show ?case
  proof cases
    case stop
    with none show ?thesis by simp
  next
    case skipped
    from Cons.IH [OF Cons.prems(1) this] x show ?thesis by (auto intro: list_emb_Cons)
  next
    case go
    from forge_transaction_result [OF ok Cons.prems(1) h go(1)] show ?thesis
    proof (elim disjE conjE exE)
      assume "left_out s s1" "R v1 w"
      with Cons.IH [OF _ go(2), of w] x forged_from_Nil show ?thesis by (fastforce intro: list_emb_Cons)
    next
      fix rc w1 assume p: "transaction_process evm nc h t w = (Inr rc, w1)" "R v1 w1" "taken_in t rc s s1"
      from Cons.IH [OF p(2) go(2)] obtain ts rcs w' where r: "run_all evm nc h ts w1 = (Inr rcs, w')" "R v' w'" "forged_from ts rcs s1 s'"
        "subseq ts (source_transactions source)" by blast
      have "run_all evm nc h (t # ts) w = (Inr (rc # rcs), w')" unfolding run_all_Cons using p(1) r(1) by blast
      with r forged_from_Cons [OF p(3) r(3)] x show ?thesis by (metis source_transactions_simps(3) subseq_Cons2_iff)
    qed
  qed
qed

section \<open>The end of the block\<close>

lemma agrees_bind: "agrees R f g \<Longrightarrow> (\<And>a. agrees R (f' a) (g' a)) \<Longrightarrow> agrees R (op_bind f f') (op_bind g g')"
  unfolding agrees_def op_bind_Inr by meson

lemma agrees_pure: "agrees R (op_lift r) (op_lift r)" "agrees R (op_return a) (op_return a)"
  by (auto simp: agrees_def)

lemma update_of_key: "(update_of key timestamp address specId amount)\<lparr>uc_commitKey := k\<rparr> = update_of k timestamp address specId amount"
  "uc_commitKey (update_of key timestamp address specId amount) = key"
  by (simp_all add: update_of_def)

lemma round_updates_agree:
  assumes "evm_ok evm R" and "same_key key k"
  shows "agrees R (round_updates evm nc m next (update_of key timestamp address)) (round_updates evm nc m next (update_of k timestamp address))"
proof -
  let ?u = "update_of key timestamp address" and ?u' = "update_of k timestamp address"
  have "agrees R (em_updateRewardsAndVotes evm (?u sp a)) (em_updateRewardsAndVotes evm (?u' sp a))"
    "agrees R (em_updateValidatorRegistrationFee evm (?u sp a)) (em_updateValidatorRegistrationFee evm (?u' sp a))"
    "agrees R (em_calculateRoundValidators evm (?u sp a)) (em_calculateRoundValidators evm (?u' sp a))" for sp a
    using evm_rewards [OF assms(1), of "?u sp a" k] evm_fee [OF assms(1), of "?u sp a" k] evm_round [OF assms(1), of "?u sp a" k] assms(2)
    by (simp_all add: update_of_key)
  then show ?thesis unfolding round_updates_def by (intro agrees_bind agrees_pure) (auto intro!: agrees_bind agrees_pure)
qed

text \<open>The forger reads the bloom filter first, the processor the state root.\<close>

lemma roots_agree:
  assumes ok: "evm_ok evm R" and k: "same_key key k" and r: "R v w"
    and b: "em_logsBloom evm key v = (Inr bloom, v1)" and s: "em_stateRoot evm key prev v1 = (Inr root, v2)"
  shows "\<exists>w1 w2. em_stateRoot evm k prev w = (Inr root, w1) \<and> em_logsBloom evm k w1 = (Inr bloom, w2)"
proof -
  have "R v1 w" by (rule silentD(1) [OF evm_silent_bloom [OF ok] r b])
  from agreesE [OF evm_root [OF ok k] this s] obtain w1 where w1: "em_stateRoot evm k prev w = (Inr root, w1)" .
  have "R v w1" by (rule silentD(2) [OF evm_silent_root [OF ok] r w1])
  from agreesE [OF evm_bloom [OF ok k] this b] obtain w2 where "em_logsBloom evm k w1 = (Inr bloom, w2)" .
  with w1 show ?thesis by blast
qed

section \<open>What was forged\<close>

lemma outcome_result_Inr: "(case x of (Done s, v1) \<Rightarrow> (Inr s, v1) | (Threw err s, v1) \<Rightarrow> (Inl err, v1)) = (Inr a, v') \<longleftrightarrow> x = (Done a, v')"
  by (cases x; cases "fst x") auto

lemma forge_transactions_result:
  assumes ok: "evm_ok evm R" and k: "same_key key (block_commitKey h)" and m: "milestone_of nc (so_configHeight st) = Inr m" "so_configHeight st = bh_number h"
    and p: "getLastBlock st = Inr previous" "bh_number h = bh_number (bk_header previous) + 1" "bh_number h \<noteq> nc_genesisNumber nc" and px: "px_keccak256 px = keccak256"
    and h: "bh_timestamp h = timestamp" "bh_proposer h = address"
    and start: "R (snd (em_initializeGenesis evm v)) w"
    and run: "forge_transactions keccak256 nc st evm fe source address timestamp key v = (Inr f, v')"
    and roots: "bh_stateRoot h = fg_stateRoot f" "bh_logsBloom h = fg_logsBloom f"
  shows "\<exists>mb rcs w1 w2 w3. ms_block m = Some mb \<and> prepareCommit px nc st evm h m w = (Inr (), w1) \<and> run_all evm nc h (fg_transactions f) w1 = (Inr rcs, w2)
    \<and> fg_gasUsed f = gas_of rcs \<and> gas_of rcs \<le> maxGasLimit mb \<and> fg_fee f = fee_of (fg_transactions f) rcs
    \<and> finish_block evm nc st h m w2 = (Inr (), w3) \<and> subseq (fg_transactions f) (source_transactions source)"
proof -
  from run m p obtain mb v1 v2 s v3 v4 v5 where mb: "ms_block m = Some mb" and init: "em_initializeGenesis evm v = (Inr (), v1)"
    and prep: "em_prepareNextCommit evm \<lparr>bc_commitKey = key, bc_gasLimit = maxGasLimit mb, bc_prevrandao = getPrevrandao keccak256 previous,
       bc_timestamp = timestamp, bc_validatorAddress = address\<rparr> v1 = (Inr (), v2)"
    and loop: "forge_loop fe evm key (ms_evmSpec m) 0 source (forge_start (maxGasLimit mb)) v2 = (Done s, v3)"
    and upd: "round_updates evm nc m (bh_number h + 1) (update_of key timestamp address) v3 = (Inr (), v4)"
    and bloom: "em_logsBloom evm key v4 = (Inr (fg_logsBloom f), v5)" and root: "em_stateRoot evm key (bh_stateRoot (bk_header previous)) v5 = (Inr (fg_stateRoot f), v')"
    and f: "fg_fee f = fs_fee s" "fg_gasUsed f = fs_gasUsed s" "fg_transactions f = fs_transactions s"
    by (auto simp: forge_transactions_def op_bind_Inr outcome_result_Inr defined_field_def split: option.splits)
  have "R v1 w" using start init by simp
  from agreesE [OF evm_prepare [OF ok] this prep, of "block_commitKey h"] k obtain w1 where w1: "prepareCommit px nc st evm h m w = (Inr (), w1)" "R v2 w1"
    using mb p h px by (auto simp: prepareCommit_def op_bind_Inr defined_field_def block_prevrandao_def)
  have m': "milestone_of nc (bh_number h) = Inr m" using m by simp
  from forge_loop_result [OF ok k m' w1(2) loop] obtain ts rcs w2 where w2: "run_all evm nc h ts w1 = (Inr rcs, w2)" "R v3 w2"
    "forged_from ts rcs (forge_start (maxGasLimit mb)) s" "subseq ts (source_transactions source)" by blast
  have s: "fs_transactions s = ts" "fs_gasUsed s = gas_of rcs" "fs_fee s = fee_of ts rcs" "gas_within (int (maxGasLimit mb)) s"
    using w2(3) by (auto simp: forged_from_def forge_start_def gas_within_def)
  from agreesE [OF round_updates_agree [OF ok k] w2(2) upd] obtain w3 where w3: "round_updates evm nc m (bh_number h + 1) (update_of (block_commitKey h) timestamp address) w2 = (Inr (), w3)" "R v4 w3" .
  from roots_agree [OF ok k w3(2) bloom root] obtain w4 w5 where
    "em_stateRoot evm (block_commitKey h) (bh_stateRoot (bk_header previous)) w3 = (Inr (fg_stateRoot f), w4)" "em_logsBloom evm (block_commitKey h) w4 = (Inr (fg_logsBloom f), w5)" by blast
  with w3 p h roots have "finish_block evm nc st h m w2 = (Inr (), w5)"
    by (auto simp: finish_block_def verify_roots_def getPreviousStateRoot_def op_bind_Inr)
  with mb w1 w2 s f show ?thesis by (auto simp: gas_within_def)
qed

definition forged_unit :: "block \<Rightarrow> processable_unit" where
  "forged_unit b = \<lparr>pu_block = b, pu_round = bh_round (bk_header b)\<rparr>"

lemma forgeBlock_Inr:
  assumes "forgeBlock fv nc st evm fe source address round timestamp randaoReveal v = (Inr b, v')" and "getLastBlock st = Inr previous"
  shows "\<exists>f reward hash serialized. forge_transactions (fv_keccak256 fv) nc st evm fe source address timestamp
       \<lparr>ck_blockNumber = bh_number (bk_header previous) + 1, ck_round = round, ck_blockHash = None\<rparr> v = (Inr f, v')
    \<and> sum_bind (milestone_of nc (bh_number (bk_header previous) + 1)) (\<lambda>m. defined_field (ms_reward m)) = Inr reward
    \<and> bk_header b = (forged_header (fv_sha256 fv) reward round address timestamp randaoReveal previous f)\<lparr>bh_hash := hash\<rparr>
    \<and> bk_transactions b = fg_transactions f \<and> bk_serialized b = to_hex serialized
    \<and> serializeWithTransactions (fv_viem fv) (bk_header b) (map tx_serialized (fg_transactions f)) = Inr serialized"
  using assms
  by (auto simp: forgeBlock_def op_bind_Inr makeBlock_def make_block_def sum_bind_Inr_iff Let_def serializeWithTransactions_def header_object_def totalSize_def split: option.splits)

lemma serialized_length:
  assumes "viem_law vm" and "wire_block vm h txs" and "serializeWithTransactions vm h txs = Inr bs"
  shows "length bs = headerSize + bh_payloadSize h"
proof -
  have wire: "wire_header vm h" "bh_payloadSize h = length (transactions_enc txs)" using assms(2) by (simp_all only: wire_block_def)
  from assms(3) have "bs = values_enc vm blockHeaderSchema (header_values h) @ transactions_enc txs"
    unfolding serializeWithTransactions_enc [OF assms(1,2)] by (simp only: sum.inject)
  from arg_cong [OF this, of length] show ?thesis unfolding length_append header_enc_length [OF assms(1) wire(1)] by (simp only: wire(2))
qed

lemma distinct_subseq: "subseq xs ys \<Longrightarrow> distinct ys \<Longrightarrow> distinct xs"
  by (induction rule: list_emb.induct) (auto dest: list_emb_set)


text \<open>Nothing stops the forger at \<open>maxPayload\<close>: a block it made that is larger than the milestone allows is refused by every node.\<close>

theorem oversized_forged_block_is_refused:
  assumes "forgeBlock fv nc st evm fe source address round timestamp randaoReveal v = (Inr b, v')" and "getLastBlock st = Inr previous"
    and "milestone_of nc (bh_number (bk_header previous) + 1) = Inr m" and "ms_block m = Some mb"
    and "maxPayload mb < headerSize + length (bk_transactions b) * 4 + sum_list (map (\<lambda>t. length (tx_serialized t)) (bk_transactions b))"
    and "pu_block u = b"
  shows "\<not> br_success (fst (process_block px nc st' vs evm' u w))"
proof
  assume s: "br_success (fst (process_block px nc st' vs evm' u w))"
  have "sizeVerifier nc u = Inr ()"
    using process_block_success [of px nc st' vs evm' u w "snd (process_block px nc st' vs evm' u w)"] s unfolding verify_block_Inr by (metis prod.collapse)
  moreover from forgeBlock_Inr [OF assms(1,2)] have "bh_number (bk_header b) = bh_number (bk_header previous) + 1"
    "bh_payloadSize (bk_header b) = length (bk_transactions b) * 4 + sum_list (map (\<lambda>t. length (tx_serialized t)) (bk_transactions b))"
    by (auto simp: forged_header_def)
  ultimately show False using assms(3-6) by (simp add: sizeVerifier_def sum_bind_Inr_iff defined_field_def Let_def)
qed

section \<open>A sample block\<close>

text \<open>The state of the EVM is the number of transactions executed, and the number at the last snapshot; the state root depends on it. The
  pool gives four transactions: one the EVM refuses, one of the same sender, one that is taken, and one that uses more gas than is left
  and is rolled back.\<close>

definition rolling_evm :: "(nat \<times> nat) evm" where
  "rolling_evm = \<lparr>em_initializeGenesis = op_return (), em_prepareNextCommit = \<lambda>_. op_return (),
     em_process = \<lambda>c (n, saved). if 21000 \<le> tc_gasLimit c
       then (Inr \<lparr>rc_gasUsed = tc_gasLimit c, rc_status = 1, rc_contractAddress = None\<rparr>, (n + 1, saved)) else (Inl (JsError ''gas''), (n, saved)),
     em_snapshot = \<lambda>_ (n, saved). (Inr (), (n, n)), em_rollback = \<lambda>_ (n, saved). (Inr (), (saved, saved)), em_updateRewardsAndVotes = \<lambda>_. op_return (),
     em_updateValidatorRegistrationFee = \<lambda>_. op_return (), em_calculateRoundValidators = \<lambda>_. op_return (),
     em_logsBloom = \<lambda>_. op_return (to_hex (replicate 256 0)),
     em_stateRoot = \<lambda>_ _ (n, saved). (Inr (to_hex (replicate 32 (if n = 1 then 2 else 3))), (n, saved)),
     em_secondPublicKey = \<lambda>_ _ _. Inr None\<rparr>"

definition sample_pool_transaction :: transaction where
  "sample_pool_transaction = projr (sample_transaction [1, 2, 3])"

definition sample_source :: "(error + transaction) list" where
  "sample_source = [Inr (sample_pool_transaction\<lparr>tx_gasLimit := 20999, tx_hash := ''a1'', tx_senderPublicKey := ''02''\<rparr>),
     Inr (sample_pool_transaction\<lparr>tx_hash := ''a2'', tx_senderPublicKey := ''02''\<rparr>), Inr sample_pool_transaction,
     Inr (sample_pool_transaction\<lparr>tx_gasLimit := 30000000, tx_hash := ''a3'', tx_senderPublicKey := ''03''\<rparr>)]"

definition sample_forger :: forger_services where
  "sample_forger = \<lparr>fv_viem = sample_viem, fv_sha256 = sample_sha256, fv_keccak256 = sample_sha256, fv_verifyBlock = \<lambda>_ _. None\<rparr>"

definition sample_forge_env :: forger_env where
  "sample_forge_env = \<lparr>fe_late = \<lambda>_. False, fe_removeTransaction = \<lambda>_ _. None\<rparr>"

abbreviation sample_forge :: "nat \<Rightarrow> (error + block) \<times> nat \<times> nat" where
  "sample_forge payload \<equiv> forgeBlock sample_forger (sample_chain payload) sample_store rolling_evm sample_forge_env sample_source
     (''0x'' @ to_hex (replicate 20 4)) 0 1700000008000 (to_hex (replicate 96 5)) (0, 0)"

definition sample_forged_header :: block_header where
  "sample_forged_header = sample_header\<lparr>bh_timestamp := 1700000008000, bh_parentHash := to_hex (replicate 32 8), bh_transactionsRoot := to_hex (replicate 32 0)\<rparr>"

lemma sample_forged_transactions:
  "forge_transactions sample_sha256 (sample_chain payload) sample_store rolling_evm sample_forge_env sample_source
     (''0x'' @ to_hex (replicate 20 4)) 1700000008000 key (0, 0)
   = (Inr \<lparr>fg_fee = 105000, fg_gasUsed = 21000, fg_logsBloom = to_hex (replicate 256 0), fg_stateRoot = to_hex (replicate 32 2), fg_transactions = [sample_pool_transaction]\<rparr>, (1, 1))"
  by (simp add: forge_transactions_def op_bind_def op_lift_def op_return_def sample_chain_simps round_updates_def forge_start_def sample_forge_env_def
    forge_transaction_def forge_execute_def forge_failed_def handleFailedTransaction_def sample_source_def rolling_evm_def tx_context_def sample_pool_transaction_def sample_transaction_def calculateConsumed_def Let_def)

lemma sample_forged_wire: "wire_block sample_viem sample_forged_header [[1, 2, 3]]"
  by (simp add: wire_block_def wire_header_def sample_forged_header_def sample_header_def wire_hex_replicate)
    (auto simp: sample_viem_def intro!: exI [of _ "replicate 20 4"])

lemma sample_forged:
  "\<exists>b hash. sample_forge payload = (Inr b, (1, 1)) \<and> bk_header b = sample_forged_header\<lparr>bh_hash := hash\<rparr> \<and> bk_transactions b = [sample_pool_transaction]"
proof -
  have wh: "wire_header sample_viem sample_forged_header" using sample_forged_wire by (simp only: wire_block_def)
  have "forged_header sample_sha256 2000000000 0 (''0x'' @ to_hex (replicate 20 4)) 1700000008000 (to_hex (replicate 96 5)) sample_previous
      \<lparr>fg_fee = 105000, fg_gasUsed = 21000, fg_logsBloom = to_hex (replicate 256 0), fg_stateRoot = to_hex (replicate 32 2), fg_transactions = [sample_pool_transaction]\<rparr>
    = sample_forged_header"
    by (simp add: forged_header_def sample_forged_header_def sample_header_def sample_previous_def sample_pool_transaction_def sample_transaction_def
      transactions_root_def sample_sha256_def)
  moreover have "getLastBlock sample_store = Inr sample_previous" by (simp add: getLastBlock_def sample_store_def)
  moreover have "map tx_serialized [sample_pool_transaction] = [[1, 2, 3]]" by (simp add: sample_pool_transaction_def sample_transaction_def)
  moreover obtain hb bs where "make_hash sample_viem sample_sha256 sample_forged_header = Inr hb" "serializeWithTransactions sample_viem sample_forged_header [[1, 2, 3]] = Inr bs"
    using serializeHeader_enc [OF sample_viem_law wh] serializeWithTransactions_enc [OF sample_viem_law sample_forged_wire] by (auto simp: make_hash_def)
  ultimately show ?thesis
    using sample_forged_transactions [of payload] by (simp add: forgeBlock_def op_bind_def op_lift_def makeBlock_def make_block_def sample_forger_def sample_milestone
      sample_rules_def defined_field_def Let_def) blast
qed

lemma rolling_evm_ok: "evm_ok rolling_evm (\<lambda>v w. fst v = fst w)"
  by (auto simp: evm_ok_def rolling_evm_def agrees_def silent_def op_return_def split: if_splits prod.splits)


theorem oversized_forged_block_is_refused_witness:
  "\<exists>b. sample_forge headerSize = (Inr b, (1, 1))
     \<and> \<not> br_success (fst (process_block sample_processor (sample_chain headerSize) sample_store sample_validators rolling_evm (forged_unit b) (0, 0)))"
proof -
  obtain b where b: "sample_forge headerSize = (Inr b, (1, 1))" "bk_transactions b = [sample_pool_transaction]" using sample_forged by blast
  have "getLastBlock sample_store = Inr sample_previous" by (simp add: getLastBlock_def sample_store_def)
  from oversized_forged_block_is_refused [OF b(1) this sample_milestone(1), of "the (ms_block (sample_rules headerSize))" "forged_unit b" sample_processor sample_store
      sample_validators rolling_evm "(0, 0)"] b
  show ?thesis by (auto simp: sample_rules_def forged_unit_def)
qed

end
