(* ===== verification/Consensus_Contract.thy ===== *)
theory Consensus_Contract
  imports Chain_State
begin

text \<open>
  The contract that holds the validators, the votes and the rounds: \<open>contracts/src/consensus/ConsensusV1.sol\<close>, every function that changes its storage and the views the node
  reads. A call reverts as a whole, so it gives a new storage or an error.

  Addresses are 160-bit words. A \<open>mapping\<close> is a function with the default of its type. Amounts are natural numbers; additions and subtractions on them are checked at their
  width, as Solidity does. Counters of addresses have 256 bits and cannot overflow. The precompiled contract that verifies a proof of possession, \<open>keccak256\<close>, the balances of
  accounts and what the receiver of a refund does (it may call the contract again) come with the call. \<open>cc_held\<close> is the balance of the contract itself, \<open>cc_log\<close> its events.
  Being upgraded, and the ownership it has from OpenZeppelin beyond \<open>onlyOwner\<close>, are left out.
\<close>

section \<open>Data\<close>

type_synonym address = "160 word"

record validator_data =
  vd_voteBalance :: nat
  vd_fee :: nat
  vd_votersCount :: nat
  vd_isResigned :: bool
  vd_blsPublicKey :: bytes

record contract_validator =
  cv_addr :: address
  cv_data :: validator_data

record contract_vote =
  vt_validator :: address
  vt_balance :: nat
  vt_prev :: address
  vt_next :: address

datatype contract_event =
    FeeUpdated nat
  | ValidatorRegistered address bytes
  | ValidatorUpdated address bytes
  | ValidatorResigned address
  | Voted address address
  | Unvoted address address

datatype contract_error =
    InvalidFee
  | RefundFailed
  | CallerIsNotValidator
  | ValidatorNotRegistered
  | ValidatorAlreadyRegistered
  | ValidatorAlreadyResigned
  | BellowMinValidators
  | InsufficientActiveValidators nat nat
  | BlsKeyAlreadyRegistered
  | BlsKeyIsInvalid
  | InvalidProofOfPossession
  | VoteResignedValidator
  | VoteSameValidator
  | VoteValidatorWithoutBlsPublicKey
  | AlreadyVoted
  | MissingVote
  | InvalidParameters
  | ImportIsNotAllowed
  | InvalidInputLength
  | PrecompileCallFailed
  | OwnableUnauthorizedAccount address
  | InputLengthMismatch
  | Panic

record consensus_contract =
  cc_validatorsData :: "address \<Rightarrow> validator_data"
  cc_hasValidator :: "address \<Rightarrow> bool"
  cc_blsPublicKeys :: "bytes \<Rightarrow> bool"
  cc_validators :: "address list"
  cc_activeValidators :: "address list"
  cc_activeValidatorIndex :: "address \<Rightarrow> nat"
  cc_resignedValidatorsCount :: nat
  cc_voters :: "address \<Rightarrow> contract_vote"
  cc_votersHead :: address
  cc_votersTail :: address
  cc_votersCount :: nat
  cc_roundValidatorsMap :: "address \<Rightarrow> address"
  cc_roundValidators :: "address list"
  cc_roundValidatorsHead :: address
  cc_roundValidatorsCount :: nat
  cc_minValidators :: nat
  cc_fee :: nat
  cc_rounds :: "(address \<times> nat) list list"
  cc_owner :: address
  cc_held :: nat
  cc_log :: "contract_event list"

record contract_call =
  ce_sender :: address
  ce_value :: nat
  ce_balance :: "address \<Rightarrow> nat"
  ce_chainid :: bytes
  ce_random :: "nat \<Rightarrow> nat"
  ce_keccak256 :: "bytes \<Rightarrow> bytes"
  ce_popVerify :: "bytes \<Rightarrow> bytes option"
  ce_receiver :: "consensus_contract \<Rightarrow> consensus_contract option"

definition no_validator :: validator_data where
  "no_validator = \<lparr>vd_voteBalance = 0, vd_fee = 0, vd_votersCount = 0, vd_isResigned = False, vd_blsPublicKey = []\<rparr>"

definition no_vote :: contract_vote where
  "no_vote = \<lparr>vt_validator = 0, vt_balance = 0, vt_prev = 0, vt_next = 0\<rparr>"

text \<open>Checked arithmetic.\<close>

definition checked_add :: "nat \<Rightarrow> nat \<Rightarrow> nat \<Rightarrow> contract_error + nat" where
  "checked_add width a b = (if a + b < 2 ^ width then Inr (a + b) else Inl Panic)"

definition checked_sub :: "nat \<Rightarrow> nat \<Rightarrow> contract_error + nat" where
  "checked_sub a b = (if b \<le> a then Inr (a - b) else Inl Panic)"

definition emit_event :: "contract_event \<Rightarrow> consensus_contract \<Rightarrow> consensus_contract" where
  "emit_event ev s = s\<lparr>cc_log := cc_log s @ [ev]\<rparr>"

definition update_validator :: "address \<Rightarrow> (validator_data \<Rightarrow> validator_data) \<Rightarrow> consensus_contract \<Rightarrow> consensus_contract" where
  "update_validator addr f s = s\<lparr>cc_validatorsData := (cc_validatorsData s)(addr := f (cc_validatorsData s addr))\<rparr>"

definition update_vote :: "address \<Rightarrow> (contract_vote \<Rightarrow> contract_vote) \<Rightarrow> consensus_contract \<Rightarrow> consensus_contract" where
  "update_vote addr f s = s\<lparr>cc_voters := (cc_voters s)(addr := f (cc_voters s addr))\<rparr>"

section \<open>Set up\<close>

definition contract_initialize :: "address \<Rightarrow> nat \<Rightarrow> consensus_contract" where
  "contract_initialize sender registrationFee =
     \<lparr>cc_validatorsData = \<lambda>_. no_validator, cc_hasValidator = \<lambda>_. False, cc_blsPublicKeys = \<lambda>_. False, cc_validators = [], cc_activeValidators = [], cc_activeValidatorIndex = \<lambda>_. 0,
      cc_resignedValidatorsCount = 0, cc_voters = \<lambda>_. no_vote, cc_votersHead = 0, cc_votersTail = 0, cc_votersCount = 0, cc_roundValidatorsMap = \<lambda>_. 0, cc_roundValidators = [],
      cc_roundValidatorsHead = 0, cc_roundValidatorsCount = 0, cc_minValidators = 1, cc_fee = registrationFee, cc_rounds = [], cc_owner = sender, cc_held = 0, cc_log = []\<rparr>"

definition only_owner :: "contract_call \<Rightarrow> consensus_contract \<Rightarrow> contract_error + 'a \<Rightarrow> contract_error + 'a" where
  "only_owner e s r = (if ce_sender e \<noteq> cc_owner s then Inl (OwnableUnauthorizedAccount (ce_sender e)) else r)"

definition setFee :: "contract_call \<Rightarrow> nat \<Rightarrow> consensus_contract \<Rightarrow> contract_error + consensus_contract" where
  "setFee e registrationFee s =
     only_owner e s (if cc_fee s = registrationFee then Inr s else Inr (emit_event (FeeUpdated registrationFee) (s\<lparr>cc_fee := registrationFee\<rparr>)))"

section \<open>Active validators\<close>

definition canBecomeActiveValidator :: "address \<Rightarrow> consensus_contract \<Rightarrow> bool" where
  "canBecomeActiveValidator addr s = (\<not> vd_isResigned (cc_validatorsData s addr) \<and> vd_blsPublicKey (cc_validatorsData s addr) \<noteq> [])"

definition isActiveValidator :: "address \<Rightarrow> consensus_contract \<Rightarrow> bool" where
  "isActiveValidator addr s =
     (let index = cc_activeValidatorIndex s addr
      in if index \<ge> length (cc_activeValidators s) then False else cc_activeValidators s ! index = addr)"

definition addActiveValidator :: "address \<Rightarrow> consensus_contract \<Rightarrow> consensus_contract" where
  "addActiveValidator addr s =
     (let s1 = s\<lparr>cc_activeValidators := cc_activeValidators s @ [addr]\<rparr>
      in s1\<lparr>cc_activeValidatorIndex := (cc_activeValidatorIndex s1)(addr := length (cc_activeValidators s1) - 1)\<rparr>)"

definition removeActiveValidator :: "address \<Rightarrow> consensus_contract \<Rightarrow> consensus_contract" where
  "removeActiveValidator addr s =
     (if \<not> isActiveValidator addr s then s
      else let index = cc_activeValidatorIndex s addr; lastIndex = length (cc_activeValidators s) - 1;
               s1 = (if index \<noteq> lastIndex
                     then let lastValidator = cc_activeValidators s ! lastIndex
                       in s\<lparr>cc_activeValidators := (cc_activeValidators s)[index := lastValidator], cc_activeValidatorIndex := (cc_activeValidatorIndex s)(lastValidator := index)\<rparr>
                     else s)
           in s1\<lparr>cc_activeValidators := butlast (cc_activeValidators s1), cc_activeValidatorIndex := (cc_activeValidatorIndex s1)(addr := 0)\<rparr>)"

section \<open>Validators\<close>

definition isValidatorRegistered :: "address \<Rightarrow> consensus_contract \<Rightarrow> bool" where
  "isValidatorRegistered addr s = cc_hasValidator s addr"

definition addValidator :: "contract_call \<Rightarrow> address \<Rightarrow> bool \<Rightarrow> consensus_contract \<Rightarrow> contract_error + consensus_contract" where
  "addValidator e addr resigned s = only_owner e s
     (if cc_rounds s \<noteq> [] then Inl ImportIsNotAllowed
      else if cc_hasValidator s addr then Inl ValidatorAlreadyRegistered
      else let validator = \<lparr>vd_voteBalance = 0, vd_fee = 0, vd_votersCount = 0, vd_isResigned = resigned, vd_blsPublicKey = []\<rparr>;
               s1 = s\<lparr>cc_hasValidator := (cc_hasValidator s)(addr := True), cc_validatorsData := (cc_validatorsData s)(addr := validator), cc_validators := cc_validators s @ [addr]\<rparr>;
               s2 = (if resigned then s1\<lparr>cc_resignedValidatorsCount := cc_resignedValidatorsCount s1 + 1\<rparr> else s1)
           in Inr (emit_event (ValidatorRegistered addr []) s2))"

text \<open>\<open>BLSPoP.verify\<close>.\<close>

definition address_bytes :: "address \<Rightarrow> bytes" where
  "address_bytes a = map (\<lambda>i. ucast (drop_bit (8 * (19 - i)) a)) [0..<20]"

definition pop_verify :: "contract_call \<Rightarrow> bytes \<Rightarrow> bytes \<Rightarrow> contract_error + bool" where
  "pop_verify e compressedPubkeyG1 compressedProofG2 =
     (if length compressedPubkeyG1 \<noteq> 48 then Inl InvalidInputLength
      else if length compressedProofG2 \<noteq> 96 then Inl InvalidInputLength
      else case ce_popVerify e (ce_chainid e @ address_bytes (ce_sender e) @ compressedPubkeyG1 @ compressedProofG2) of
        None \<Rightarrow> Inl PrecompileCallFailed
      | Some out \<Rightarrow> if length out \<noteq> 32 then Inl PrecompileCallFailed else Inr (out = replicate 31 0 @ [1]))"

definition verifyAndRegisterBlsPublicKey :: "contract_call \<Rightarrow> bytes \<Rightarrow> consensus_contract \<Rightarrow> contract_error + consensus_contract" where
  "verifyAndRegisterBlsPublicKey e blsPublicKey s =
     (let blsPublicKeyHash = ce_keccak256 e blsPublicKey
      in if cc_blsPublicKeys s blsPublicKeyHash then Inl BlsKeyAlreadyRegistered
         else if length blsPublicKey \<noteq> 48 then Inl BlsKeyIsInvalid
         else Inr (s\<lparr>cc_blsPublicKeys := (cc_blsPublicKeys s)(blsPublicKeyHash := True)\<rparr>))"

definition registerValidator :: "contract_call \<Rightarrow> bytes \<Rightarrow> bytes \<Rightarrow> consensus_contract \<Rightarrow> contract_error + consensus_contract" where
  "registerValidator e blsPublicKey proofOfPossession s =
     (if ce_value e \<noteq> cc_fee s then Inl InvalidFee
      else if cc_hasValidator s (ce_sender e) then Inl ValidatorAlreadyRegistered
      else sum_bind (pop_verify e blsPublicKey proofOfPossession) (\<lambda>ok.
        if \<not> ok then Inl InvalidProofOfPossession
        else sum_bind (verifyAndRegisterBlsPublicKey e blsPublicKey s) (\<lambda>s1.
          let validator = \<lparr>vd_voteBalance = 0, vd_fee = ce_value e, vd_votersCount = 0, vd_isResigned = False, vd_blsPublicKey = blsPublicKey\<rparr>;
              s2 = s1\<lparr>cc_hasValidator := (cc_hasValidator s1)(ce_sender e := True), cc_validatorsData := (cc_validatorsData s1)(ce_sender e := validator),
                      cc_validators := cc_validators s1 @ [ce_sender e], cc_held := cc_held s1 + ce_value e\<rparr>
          in Inr (emit_event (ValidatorRegistered (ce_sender e) blsPublicKey) (addActiveValidator (ce_sender e) s2)))))"

definition updateValidator :: "contract_call \<Rightarrow> bytes \<Rightarrow> bytes \<Rightarrow> consensus_contract \<Rightarrow> contract_error + consensus_contract" where
  "updateValidator e blsPublicKey proofOfPossession s =
     (if \<not> isValidatorRegistered (ce_sender e) s then Inl ValidatorNotRegistered
      else sum_bind (pop_verify e blsPublicKey proofOfPossession) (\<lambda>ok.
        if \<not> ok then Inl InvalidProofOfPossession
        else sum_bind (verifyAndRegisterBlsPublicKey e blsPublicKey s) (\<lambda>s1.
          let s2 = update_validator (ce_sender e) (\<lambda>d. d\<lparr>vd_blsPublicKey := blsPublicKey\<rparr>) s1;
              s3 = (if canBecomeActiveValidator (ce_sender e) s2 \<and> \<not> isActiveValidator (ce_sender e) s2 then addActiveValidator (ce_sender e) s2 else s2)
          in Inr (emit_event (ValidatorUpdated (ce_sender e) blsPublicKey) s3))))"

text \<open>The refund: the contract pays, the receiver runs.\<close>

definition pay_refund :: "contract_call \<Rightarrow> nat \<Rightarrow> consensus_contract \<Rightarrow> contract_error + consensus_contract" where
  "pay_refund e fee s =
     (if cc_held s < fee then Inl RefundFailed
      else case ce_receiver e (s\<lparr>cc_held := cc_held s - fee\<rparr>) of None \<Rightarrow> Inl RefundFailed | Some s' \<Rightarrow> Inr s')"

definition resignValidator :: "contract_call \<Rightarrow> consensus_contract \<Rightarrow> contract_error + consensus_contract" where
  "resignValidator e s =
     (if \<not> isValidatorRegistered (ce_sender e) s then Inl CallerIsNotValidator
      else if vd_isResigned (cc_validatorsData s (ce_sender e)) then Inl ValidatorAlreadyResigned
      else if length (cc_activeValidators s) \<le> cc_minValidators s then Inl BellowMinValidators
      else let s1 = update_validator (ce_sender e) (\<lambda>d. d\<lparr>vd_isResigned := True\<rparr>) s;
               s2 = s1\<lparr>cc_resignedValidatorsCount := cc_resignedValidatorsCount s1 + 1\<rparr>;
               s3 = removeActiveValidator (ce_sender e) s2;
               fee = vd_fee (cc_validatorsData s3 (ce_sender e))
           in sum_bind (if fee > 0 then pay_refund e fee s3 else Inr s3) (\<lambda>s4. Inr (emit_event (ValidatorResigned (ce_sender e)) s4)))"

section \<open>Votes\<close>

text \<open>The end of the list of voters, for \<open>_addVote\<close> and \<open>vote\<close>.\<close>

definition append_voter :: "address \<Rightarrow> consensus_contract \<Rightarrow> consensus_contract" where
  "append_voter voter s =
     (let s1 = (if cc_votersHead s = 0 then s\<lparr>cc_votersHead := voter, cc_votersTail := voter\<rparr>
                else let t1 = update_vote (cc_votersTail s) (\<lambda>v. v\<lparr>vt_next := voter\<rparr>) s;
                         t2 = update_vote voter (\<lambda>v. v\<lparr>vt_prev := cc_votersTail t1\<rparr>) t1
                     in t2\<lparr>cc_votersTail := voter\<rparr>)
      in s1\<lparr>cc_votersCount := cc_votersCount s1 + 1\<rparr>)"

definition count_vote :: "address \<Rightarrow> nat \<Rightarrow> consensus_contract \<Rightarrow> contract_error + consensus_contract" where
  "count_vote validator balance s =
     sum_bind (checked_add 256 (vd_voteBalance (cc_validatorsData s validator)) balance) (\<lambda>voteBalance.
     sum_bind (checked_add 64 (vd_votersCount (cc_validatorsData s validator)) 1) (\<lambda>votersCount.
       Inr (update_validator validator (\<lambda>d. d\<lparr>vd_voteBalance := voteBalance, vd_votersCount := votersCount\<rparr>) s)))"

definition addVote :: "contract_call \<Rightarrow> address \<Rightarrow> address \<Rightarrow> consensus_contract \<Rightarrow> contract_error + consensus_contract" where
  "addVote e voter validator s =
     (if cc_rounds s \<noteq> [] then Inl ImportIsNotAllowed
      else if \<not> isValidatorRegistered validator s then Inl ValidatorNotRegistered
      else if vt_validator (cc_voters s voter) \<noteq> 0 then Inl AlreadyVoted
      else let s1 = update_vote voter (\<lambda>_. \<lparr>vt_validator = validator, vt_balance = ce_balance e voter, vt_prev = 0, vt_next = 0\<rparr>) s;
               s2 = append_voter voter s1
           in sum_bind (count_vote validator (ce_balance e voter) s2) (\<lambda>s3. Inr (emit_event (Voted voter validator) s3)))"

fun add_votes :: "contract_call \<Rightarrow> (address \<times> address) list \<Rightarrow> consensus_contract \<Rightarrow> contract_error + consensus_contract" where
  "add_votes e [] s = Inr s"
| "add_votes e ((voter, validator) # rest) s = sum_bind (addVote e voter validator s) (add_votes e rest)"

definition addVotes :: "contract_call \<Rightarrow> address list \<Rightarrow> address list \<Rightarrow> consensus_contract \<Rightarrow> contract_error + consensus_contract" where
  "addVotes e voters validators s =
     only_owner e s (if length voters \<noteq> length validators then Inl InputLengthMismatch else add_votes e (zip voters validators) s)"

definition unlink_voter :: "address \<Rightarrow> consensus_contract \<Rightarrow> consensus_contract" where
  "unlink_voter a s =
     (let voter = cc_voters s a
      in if cc_votersHead s = cc_votersTail s then s\<lparr>cc_votersHead := 0, cc_votersTail := 0\<rparr>
         else if cc_votersTail s = a
         then let s1 = update_vote (vt_prev voter) (\<lambda>v. v\<lparr>vt_next := 0\<rparr>) s in s1\<lparr>cc_votersTail := vt_prev (cc_voters s1 a)\<rparr>
         else if cc_votersHead s = a
         then let s1 = update_vote (vt_next voter) (\<lambda>v. v\<lparr>vt_prev := 0\<rparr>) s in s1\<lparr>cc_votersHead := vt_next (cc_voters s1 a)\<rparr>
         else let s1 = update_vote (vt_prev voter) (\<lambda>v. v\<lparr>vt_next := vt_next voter\<rparr>) s
           in update_vote (vt_next (cc_voters s1 a)) (\<lambda>v. v\<lparr>vt_prev := vt_prev (cc_voters s1 a)\<rparr>) s1)"

definition unvote_internal :: "contract_call \<Rightarrow> consensus_contract \<Rightarrow> contract_error + consensus_contract" where
  "unvote_internal e s =
     (if vt_validator (cc_voters s (ce_sender e)) = 0 then Inl MissingVote
      else let s1 = unlink_voter (ce_sender e) s; voter = cc_voters s1 (ce_sender e); validatorAddr = vt_validator voter
        in sum_bind (checked_sub (vd_voteBalance (cc_validatorsData s1 validatorAddr)) (vt_balance voter)) (\<lambda>voteBalance.
           sum_bind (checked_sub (vd_votersCount (cc_validatorsData s1 validatorAddr)) 1) (\<lambda>votersCount.
             let s2 = update_validator validatorAddr (\<lambda>d. d\<lparr>vd_voteBalance := voteBalance, vd_votersCount := votersCount\<rparr>) s1;
                 s3 = update_vote (ce_sender e) (\<lambda>_. no_vote) s2
             in sum_bind (checked_sub (cc_votersCount s3) 1) (\<lambda>count. Inr (emit_event (Unvoted (ce_sender e) validatorAddr) (s3\<lparr>cc_votersCount := count\<rparr>))))))"

definition contract_unvote :: "contract_call \<Rightarrow> consensus_contract \<Rightarrow> contract_error + consensus_contract" where
  "contract_unvote e s = unvote_internal e s"

definition contract_voteFor :: "contract_call \<Rightarrow> address \<Rightarrow> consensus_contract \<Rightarrow> contract_error + consensus_contract" where
  "contract_voteFor e addr s =
     (if \<not> isValidatorRegistered addr s then Inl ValidatorNotRegistered
      else if vd_isResigned (cc_validatorsData s addr) then Inl VoteResignedValidator
      else if vd_blsPublicKey (cc_validatorsData s addr) = [] then Inl VoteValidatorWithoutBlsPublicKey
      else if vt_validator (cc_voters s (ce_sender e)) = addr then Inl VoteSameValidator
      else sum_bind (if vt_validator (cc_voters s (ce_sender e)) \<noteq> 0 then unvote_internal e s else Inr s) (\<lambda>s1.
        let s2 = update_vote (ce_sender e) (\<lambda>_. \<lparr>vt_validator = addr, vt_balance = ce_balance e (ce_sender e), vt_prev = 0, vt_next = 0\<rparr>) s1;
            s3 = append_voter (ce_sender e) s2
        in sum_bind (count_vote addr (ce_balance e (ce_sender e)) s3) (\<lambda>s4. Inr (emit_event (Voted (ce_sender e) addr) s4))))"

definition updateVoter :: "contract_call \<Rightarrow> address \<Rightarrow> consensus_contract \<Rightarrow> contract_error + consensus_contract" where
  "updateVoter e addr s =
     (let voter = cc_voters s addr; voteBalance = vd_voteBalance (cc_validatorsData s (vt_validator voter))
      in if vt_validator voter = 0 then Inr s
         else sum_bind (if vt_balance voter < ce_balance e addr then checked_add 256 voteBalance (ce_balance e addr - vt_balance voter)
                        else checked_sub voteBalance (vt_balance voter - ce_balance e addr)) (\<lambda>voteBalance'.
           Inr (update_vote addr (\<lambda>v. v\<lparr>vt_balance := ce_balance e addr\<rparr>) (update_validator (vt_validator voter) (\<lambda>d. d\<lparr>vd_voteBalance := voteBalance'\<rparr>) s))))"

fun update_voters :: "contract_call \<Rightarrow> address list \<Rightarrow> consensus_contract \<Rightarrow> contract_error + consensus_contract" where
  "update_voters e [] s = Inr s"
| "update_voters e (addr # rest) s = sum_bind (updateVoter e addr s) (update_voters e rest)"

definition updateVoters :: "contract_call \<Rightarrow> address list \<Rightarrow> consensus_contract \<Rightarrow> contract_error + consensus_contract" where
  "updateVoters e voters s = only_owner e s (update_voters e voters s)"

section \<open>Rounds\<close>

definition validator_at :: "consensus_contract \<Rightarrow> address \<Rightarrow> contract_validator" where
  "validator_at s addr = \<lparr>cv_addr = addr, cv_data = cc_validatorsData s addr\<rparr>"

definition isGreater :: "contract_validator \<Rightarrow> contract_validator \<Rightarrow> bool" where
  "isGreater validatorA validatorB =
     (if vd_voteBalance (cv_data validatorA) = vd_voteBalance (cv_data validatorB) then cv_addr validatorA < cv_addr validatorB
      else vd_voteBalance (cv_data validatorA) > vd_voteBalance (cv_data validatorB))"

partial_function (option) delete_loop :: "address \<Rightarrow> (address \<Rightarrow> address) \<Rightarrow> (address \<Rightarrow> address) option" where
  "delete_loop next m = (if next = 0 then Some m else delete_loop (m next) (m(next := 0)))"

definition deleteRoundValidators :: "consensus_contract \<Rightarrow> consensus_contract option" where
  "deleteRoundValidators s =
     map_option (\<lambda>m. s\<lparr>cc_roundValidatorsMap := m, cc_roundValidatorsCount := 0\<rparr>) (delete_loop (cc_roundValidatorsHead s) (cc_roundValidatorsMap s))"

definition insertHead :: "address \<Rightarrow> consensus_contract \<Rightarrow> consensus_contract" where
  "insertHead addr s =
     s\<lparr>cc_roundValidatorsMap := (cc_roundValidatorsMap s)(addr := cc_roundValidatorsHead s), cc_roundValidatorsHead := addr, cc_roundValidatorsCount := cc_roundValidatorsCount s + 1\<rparr>"

definition insertAfter :: "address \<Rightarrow> address \<Rightarrow> consensus_contract \<Rightarrow> consensus_contract" where
  "insertAfter prev addr s =
     (let m1 = (cc_roundValidatorsMap s)(addr := cc_roundValidatorsMap s prev)
      in s\<lparr>cc_roundValidatorsMap := m1(prev := addr), cc_roundValidatorsCount := cc_roundValidatorsCount s + 1\<rparr>)"

partial_function (option) insert_loop :: "address \<Rightarrow> address \<Rightarrow> address \<Rightarrow> consensus_contract \<Rightarrow> consensus_contract option" where
  "insert_loop addr current previous s =
     (if current = 0 then Some (insertAfter previous addr s)
      else if isGreater (validator_at s current) (validator_at s addr) then Some (insertAfter previous addr s)
      else insert_loop addr (cc_roundValidatorsMap s current) current s)"

definition drop_lowest :: "consensus_contract \<Rightarrow> consensus_contract" where
  "drop_lowest s =
     (let head = cc_roundValidatorsHead s; next = cc_roundValidatorsMap s head
      in s\<lparr>cc_roundValidatorsMap := (cc_roundValidatorsMap s)(head := 0), cc_roundValidatorsHead := next, cc_roundValidatorsCount := cc_roundValidatorsCount s - 1\<rparr>)"

definition insertValidator :: "address \<Rightarrow> nat \<Rightarrow> consensus_contract \<Rightarrow> consensus_contract option" where
  "insertValidator addr limit s =
     Option.bind
       (if isGreater (validator_at s (cc_roundValidatorsHead s)) (validator_at s addr) then Some (insertHead addr s)
        else insert_loop addr (cc_roundValidatorsMap s (cc_roundValidatorsHead s)) (cc_roundValidatorsHead s) s)
       (\<lambda>s1. Some (if cc_roundValidatorsCount s1 > limit then drop_lowest s1 else s1))"

text \<open>The body of the loop over \<open>_activeValidators\<close>, and the loop.\<close>

definition consider_validator :: "nat \<Rightarrow> address \<Rightarrow> consensus_contract \<Rightarrow> consensus_contract option" where
  "consider_validator n addr s =
     (let data = cc_validatorsData s addr
      in if vd_isResigned data \<or> vd_blsPublicKey data = [] then Some s
         else if cc_roundValidatorsHead s = 0 then Some (s\<lparr>cc_roundValidatorsHead := addr, cc_roundValidatorsCount := 1\<rparr>)
         else if cc_roundValidatorsCount s < n then insertValidator addr n s
         else if isGreater (validator_at s addr) (validator_at s (cc_roundValidatorsHead s)) then insertValidator addr n s
         else Some s)"

fun consider_validators :: "nat \<Rightarrow> address list \<Rightarrow> consensus_contract \<Rightarrow> consensus_contract option" where
  "consider_validators n [] s = Some s"
| "consider_validators n (addr # rest) s = Option.bind (consider_validator n addr s) (consider_validators n rest)"

fun follow :: "(address \<Rightarrow> address) \<Rightarrow> nat \<Rightarrow> address \<Rightarrow> address list" where
  "follow m 0 next = []"
| "follow m (Suc n) next = next # follow m n (m next)"

definition swap_elements :: "nat \<Rightarrow> nat \<Rightarrow> 'a list \<Rightarrow> 'a list" where
  "swap_elements i j xs = xs[i := xs ! j, j := xs ! i]"

definition shuffleMem :: "(nat \<Rightarrow> nat) \<Rightarrow> 'a list \<Rightarrow> 'a list" where
  "shuffleMem random xs = (if xs = [] then [] else fold (\<lambda>i. swap_elements i (random i mod (i + 1))) (rev [1..<length xs]) xs)"

definition calculateRoundValidators :: "contract_call \<Rightarrow> nat \<Rightarrow> consensus_contract \<Rightarrow> (contract_error + consensus_contract) option" where
  "calculateRoundValidators e n s =
     (if ce_sender e \<noteq> cc_owner s then Some (Inl (OwnableUnauthorizedAccount (ce_sender e)))
      else if n = 0 then Some (Inl InvalidParameters)
      else Option.bind (deleteRoundValidators (s\<lparr>cc_minValidators := n\<rparr>)) (\<lambda>s1.
        Option.bind (consider_validators n (cc_activeValidators s1) (s1\<lparr>cc_roundValidatorsHead := 0\<rparr>)) (\<lambda>s2.
          if cc_roundValidatorsCount s2 < n then Some (Inl (InsufficientActiveValidators (cc_roundValidatorsCount s2) n))
          else let shuffledValidators = shuffleMem (ce_random e) (follow (cc_roundValidatorsMap s2) n (cc_roundValidatorsHead s2))
            in Some (Inr (s2\<lparr>cc_roundValidators := shuffledValidators,
                 cc_rounds := cc_rounds s2 @ [map (\<lambda>addr. (addr, vd_voteBalance (cc_validatorsData s2 addr))) shuffledValidators]\<rparr>)))))"

section \<open>Views\<close>

definition contract_getRoundValidators :: "consensus_contract \<Rightarrow> contract_validator list" where
  "contract_getRoundValidators s = map (validator_at s) (cc_roundValidators s)"

definition contract_getAllValidators :: "consensus_contract \<Rightarrow> contract_validator list" where
  "contract_getAllValidators s = map (validator_at s) (cc_validators s)"

definition contract_getVotesCount :: "consensus_contract \<Rightarrow> nat" where
  "contract_getVotesCount s = cc_votersCount s"

text \<open>The loop of \<open>getVotes\<close>; \<open>room\<close> is the length of the array it writes to, and writing past it would panic.\<close>

fun votes_loop :: "(address \<Rightarrow> contract_vote) \<Rightarrow> nat \<Rightarrow> nat \<Rightarrow> address \<Rightarrow> contract_error + (address \<times> address) list" where
  "votes_loop voters 0 room next = Inr []"
| "votes_loop voters (Suc count) room next =
     (if next = 0 then Inr []
      else if room = 0 then Inl Panic
      else sum_bind (votes_loop voters count (room - 1) (vt_next (voters next))) (\<lambda>rest. Inr ((next, vt_validator (voters next)) # rest)))"

definition contract_getVotes :: "contract_call \<Rightarrow> address \<Rightarrow> nat \<Rightarrow> consensus_contract \<Rightarrow> contract_error + (address \<times> address) list" where
  "contract_getVotes e addr count s =
     only_owner e s (votes_loop (cc_voters s) count (min count (cc_votersCount s)) (if addr \<noteq> 0 then vt_next (cc_voters s addr) else cc_votersHead s))"

definition contract_getRounds :: "contract_call \<Rightarrow> nat \<Rightarrow> nat \<Rightarrow> consensus_contract \<Rightarrow> contract_error + (nat \<times> (address \<times> nat) list) list" where
  "contract_getRounds e offset count s = only_owner e s
     (let rounds = cc_rounds s; read = (\<lambda>total. map (\<lambda>i. (offset + i + 1, rounds ! (offset + i))) [0..<total])
      in if offset \<ge> length rounds then Inr (read 0)
         else sum_bind (checked_add 256 offset count) (\<lambda>end. Inr (read (if end > length rounds then length rounds - offset else count))))"

section \<open>The life of the contract\<close>

text \<open>Calls in any order, by anyone; what the receiver of a refund does are calls too. Nobody has the address 0, and none is imported.\<close>

inductive contract_steps :: "(bytes \<Rightarrow> bytes) \<Rightarrow> consensus_contract \<Rightarrow> consensus_contract \<Rightarrow> bool" for K where
  no_step: "contract_steps K s s"
| fee_set: "contract_steps K s0 s \<Longrightarrow> setFee e registrationFee s = Inr s' \<Longrightarrow> contract_steps K s0 s'"
| validator_added: "contract_steps K s0 s \<Longrightarrow> addr \<noteq> 0 \<Longrightarrow> addValidator e addr resigned s = Inr s' \<Longrightarrow> contract_steps K s0 s'"
| votes_added: "contract_steps K s0 s \<Longrightarrow> 0 \<notin> set voters \<Longrightarrow> addVotes e voters validators s = Inr s' \<Longrightarrow> contract_steps K s0 s'"
| registered: "contract_steps K s0 s \<Longrightarrow> ce_sender e \<noteq> 0 \<Longrightarrow> ce_keccak256 e = K \<Longrightarrow> registerValidator e key proof_of s = Inr s' \<Longrightarrow> contract_steps K s0 s'"
| updated: "contract_steps K s0 s \<Longrightarrow> ce_sender e \<noteq> 0 \<Longrightarrow> ce_keccak256 e = K \<Longrightarrow> updateValidator e key proof_of s = Inr s' \<Longrightarrow> contract_steps K s0 s'"
| resigned: "contract_steps K s0 s \<Longrightarrow> ce_sender e \<noteq> 0 \<Longrightarrow> (\<And>x y. ce_receiver e x = Some y \<Longrightarrow> contract_steps K x y) \<Longrightarrow> resignValidator e s = Inr s' \<Longrightarrow> contract_steps K s0 s'"
| voted: "contract_steps K s0 s \<Longrightarrow> ce_sender e \<noteq> 0 \<Longrightarrow> contract_voteFor e addr s = Inr s' \<Longrightarrow> contract_steps K s0 s'"
| unvoted: "contract_steps K s0 s \<Longrightarrow> ce_sender e \<noteq> 0 \<Longrightarrow> contract_unvote e s = Inr s' \<Longrightarrow> contract_steps K s0 s'"
| voters_updated: "contract_steps K s0 s \<Longrightarrow> updateVoters e voters s = Inr s' \<Longrightarrow> contract_steps K s0 s'"
| round_calculated: "contract_steps K s0 s \<Longrightarrow> calculateRoundValidators e n s = Some (Inr s') \<Longrightarrow> contract_steps K s0 s'"

end
