(* ===== verification/Contract_Votes.thy ===== *)
theory Contract_Votes
  imports Consensus_Contract
begin

text \<open>
  The votes of the consensus contract: its doubly linked list of voters implements a list of votes, and what it keeps of a validator is what these votes say.
\<close>

section \<open>Linked lists in a mapping\<close>

primrec leads :: "(address \<Rightarrow> address) \<Rightarrow> address \<Rightarrow> address list \<Rightarrow> address \<Rightarrow> bool" where
  "leads h p [] q \<longleftrightarrow> p = q"
| "leads h p (a # as) q \<longleftrightarrow> p = a \<and> leads h (h a) as q"

lemma leads_append [simp]: "leads h p (xs @ ys) q \<longleftrightarrow> (\<exists>m. leads h p xs m \<and> leads h m ys q)"
  by (induction xs arbitrary: p) auto

lemma leads_outside [simp]: "u \<notin> set xs \<Longrightarrow> leads (h(u := v)) p xs q = leads h p xs q"
  by (induction xs arbitrary: p) auto

lemma leads_cong: "(\<And>a. a \<in> set xs \<Longrightarrow> h a = h' a) \<Longrightarrow> leads h p xs q = leads h' p xs q"
  by (induction xs arbitrary: p) auto

definition links :: "(address \<Rightarrow> address) \<Rightarrow> (address \<Rightarrow> address) \<Rightarrow> address \<Rightarrow> address \<Rightarrow> address list \<Rightarrow> bool" where
  "links h g p q xs \<longleftrightarrow> leads h p xs 0 \<and> leads g q (rev xs) 0 \<and> distinct xs \<and> 0 \<notin> set xs"

lemma links_cong: "(\<And>a. a \<in> set xs \<Longrightarrow> h a = h' a) \<Longrightarrow> (\<And>a. a \<in> set xs \<Longrightarrow> g a = g' a) \<Longrightarrow> links h g p q xs = links h' g' p q xs"
  unfolding links_def using leads_cong [of xs h h' p 0] leads_cong [of "rev xs" g g' q 0] by simp

lemma links_empty: "links h g p q [] \<longleftrightarrow> p = 0 \<and> q = 0"
  by (auto simp: links_def)

lemma links_head: "links h g p q (a # xs) \<Longrightarrow> p = a"
  by (simp add: links_def)

lemma links_last: "links h g p q (xs @ [a]) \<Longrightarrow> q = a"
  by (simp add: links_def)

lemma links_nonempty: "links h g p q xs \<Longrightarrow> p = 0 \<longleftrightarrow> xs = []"
  by (cases xs) (auto simp: links_def)

text \<open>A new last element.\<close>

lemma links_snoc_first: "links h g 0 0 [] \<Longrightarrow> a \<noteq> 0 \<Longrightarrow> h a = 0 \<Longrightarrow> g a = 0 \<Longrightarrow> links h g a a [a]"
  by (simp add: links_def)

lemma links_snoc:
  assumes "links h g p q xs" and "xs \<noteq> []" and "a \<noteq> 0" and "a \<notin> set xs" and "h a = 0"
  shows "links (h(q := a)) (g(a := q)) p a (xs @ [a])"
proof -
  obtain ys t where xs: "xs = ys @ [t]" using assms(2) rev_exhaust by blast
  have "t = q" using assms(1) xs links_last by blast
  then show ?thesis using assms xs by (auto simp: links_def)
qed

text \<open>An element taken out.\<close>

lemma links_only: "links h g p p xs \<Longrightarrow> a \<in> set xs \<Longrightarrow> xs = [a]"
proof -
  assume l: "links h g p p xs" and a: "a \<in> set xs"
  then obtain b ys where xs: "xs = b # ys" by (cases xs) auto
  have "ys = []"
  proof (cases ys rule: rev_cases)
    case (snoc zs c)
    then have "b = p" "c = p" using l xs by (auto simp: links_def)
    then show ?thesis using l xs snoc by (auto simp: links_def)
  qed
  then show ?thesis using xs a by simp
qed

lemma links_cut_last:
  assumes l: "links h g p q (ys @ [a])" and "ys \<noteq> []"
  shows "links (h(g a := 0)) g p (g a) ys \<and> g a \<in> set ys"
proof -
  obtain zs b where ys: "ys = zs @ [b]" using assms(2) rev_exhaust by blast
  have "g a = b" using l ys by (simp add: links_def)
  then show ?thesis using l ys by (simp add: links_def)
qed

lemma links_cut_first:
  assumes l: "links h g p q (a # zs)" and "zs \<noteq> []"
  shows "links h (g(h a := 0)) (h a) q zs \<and> h a \<in> set zs"
proof -
  obtain b ys where zs: "zs = b # ys" using assms(2) by (cases zs) auto
  have "h a = b" using l zs by (simp add: links_def)
  then show ?thesis using l zs by (simp add: links_def)
qed

lemma links_cut_middle:
  assumes l: "links h g p q (ys @ a # zs)" and "ys \<noteq> []" and "zs \<noteq> []"
  shows "links (h(g a := h a)) (g(h a := g a)) p q (ys @ zs) \<and> g a \<in> set ys \<and> h a \<in> set zs"
proof -
  obtain ys1 b where ys: "ys = ys1 @ [b]" using assms(2) rev_exhaust by blast
  obtain c zs1 where zs: "zs = c # zs1" using assms(3) by (cases zs) auto
  have "g a = b" "h a = c" using l ys zs by (auto simp: links_def)
  then show ?thesis using l ys zs by (auto simp: links_def)
qed

section \<open>The list of voters\<close>

abbreviation next_voter :: "consensus_contract \<Rightarrow> address \<Rightarrow> address" where
  "next_voter s \<equiv> \<lambda>a. vt_next (cc_voters s a)"

abbreviation prev_voter :: "consensus_contract \<Rightarrow> address \<Rightarrow> address" where
  "prev_voter s \<equiv> \<lambda>a. vt_prev (cc_voters s a)"

definition voters_listed :: "consensus_contract \<Rightarrow> address list \<Rightarrow> bool" where
  "voters_listed s xs \<longleftrightarrow> links (next_voter s) (prev_voter s) (cc_votersHead s) (cc_votersTail s) xs \<and> cc_votersCount s = length xs"

lemmas contract_steps_simps = update_vote_def update_validator_def emit_event_def

lemma append_voter_listed:
  assumes "voters_listed s xs" and "a \<noteq> 0" and "a \<notin> set xs"
  shows "voters_listed (append_voter a (update_vote a (\<lambda>_. \<lparr>vt_validator = d, vt_balance = b, vt_prev = 0, vt_next = 0\<rparr>) s)) (xs @ [a])"
proof (cases "xs = []")
  case True
  then show ?thesis using assms by (simp add: voters_listed_def append_voter_def contract_steps_simps links_empty links_def)
next
  case False
  let ?h = "next_voter s" and ?g = "prev_voter s" and ?s' = "append_voter a (update_vote a (\<lambda>_. \<lparr>vt_validator = d, vt_balance = b, vt_prev = 0, vt_next = 0\<rparr>) s)"
  have l: "links ?h ?g (cc_votersHead s) (cc_votersTail s) xs" using assms(1) by (simp add: voters_listed_def)
  have head: "cc_votersHead s \<noteq> 0" using links_nonempty [OF l] False by blast
  have tail: "cc_votersTail s \<noteq> a" using l False assms(3) by (cases xs rule: rev_cases) (auto simp: links_def)
  have "links (?h(a := 0)) (?g(a := 0)) (cc_votersHead s) (cc_votersTail s) xs" using l assms(3) by (subst links_cong [where h' = ?h and g' = ?g]) auto
  from links_snoc [OF this False assms(2,3)]
  have "links ((?h(a := 0))(cc_votersTail s := a)) ((?g(a := 0))(a := cc_votersTail s)) (cc_votersHead s) a (xs @ [a])" by simp
  moreover have "next_voter ?s' = (?h(a := 0))(cc_votersTail s := a)" "prev_voter ?s' = (?g(a := 0))(a := cc_votersTail s)"
    using head tail by (auto simp: append_voter_def contract_steps_simps Let_def fun_eq_iff)
  ultimately show ?thesis using assms(1) head by (simp add: voters_listed_def append_voter_def contract_steps_simps Let_def)
qed

lemma unlink_voter_listed:
  assumes "voters_listed s xs" and "a \<in> set xs"
  shows "voters_listed ((update_vote a (\<lambda>_. no_vote) (unlink_voter a s))\<lparr>cc_votersCount := cc_votersCount s - 1\<rparr>) (remove1 a xs)"
proof -
  let ?h = "next_voter s" and ?g = "prev_voter s" and ?u = "unlink_voter a s" and ?p = "cc_votersHead s" and ?q = "cc_votersTail s"
  let ?s' = "(update_vote a (\<lambda>_. no_vote) ?u)\<lparr>cc_votersCount := cc_votersCount s - 1\<rparr>"
  have l: "links ?h ?g ?p ?q xs" and count: "cc_votersCount s = length xs" using assms(1) by (auto simp: voters_listed_def)
  obtain ys zs where xs: "xs = ys @ a # zs" using assms(2) by (meson split_list)
  have a: "a \<notin> set ys" "a \<notin> set zs" and rem: "remove1 a xs = ys @ zs" using l xs by (auto simp: links_def remove1_append)
  have "links (next_voter ?u) (prev_voter ?u) (cc_votersHead ?u) (cc_votersTail ?u) (ys @ zs)"
  proof (cases "?p = ?q")
    case True
    then have "xs = [a]" using links_only [of ?h ?g ?p xs a] l assms(2) by simp
    then have "ys @ zs = []" using xs by (cases ys) auto
    then show ?thesis using True by (simp add: unlink_voter_def links_empty)
  next
    case False
    consider (last) "zs = []" "ys \<noteq> []" | (first) "ys = []" "zs \<noteq> []" | (middle) "ys \<noteq> []" "zs \<noteq> []"
      using False l xs by (cases "ys = []"; cases "zs = []") (auto simp: links_def)
    then show ?thesis
    proof cases
      case last
      then have "?q = a" and cut: "links (?h(?g a := 0)) ?g ?p (?g a) ys" "?g a \<in> set ys" using links_last [of ?h ?g ?p ?q ys a] links_cut_last [of ?h ?g ?p ?q ys a] l xs by auto
      moreover have "next_voter ?u = ?h(?g a := 0)" "prev_voter ?u = ?g" using False \<open>?q = a\<close> by (auto simp: unlink_voter_def contract_steps_simps Let_def fun_eq_iff)
      ultimately show ?thesis using False last a by (auto simp: unlink_voter_def contract_steps_simps Let_def)
    next
      case first
      then have "?p = a" and cut: "links ?h (?g(?h a := 0)) (?h a) ?q zs" "?h a \<in> set zs" using links_head [of ?h ?g ?p ?q a zs] links_cut_first [of ?h ?g ?p ?q a zs] l xs by auto
      moreover have "next_voter ?u = ?h" "prev_voter ?u = ?g(?h a := 0)" using False \<open>?p = a\<close> by (auto simp: unlink_voter_def contract_steps_simps Let_def fun_eq_iff)
      ultimately show ?thesis using False first a by (auto simp: unlink_voter_def contract_steps_simps Let_def)
    next
      case middle
      then have cut: "links (?h(?g a := ?h a)) (?g(?h a := ?g a)) ?p ?q (ys @ zs)" "?g a \<in> set ys" "?h a \<in> set zs" using links_cut_middle [of ?h ?g ?p ?q ys a zs] l xs by auto
      have ends: "?p \<noteq> a" "?q \<noteq> a" "?g a \<noteq> a" "?h a \<noteq> a"
        using l xs middle a cut by (cases ys; cases zs rule: rev_cases; auto simp: links_def)+
      then have "next_voter ?u = ?h(?g a := ?h a)" "prev_voter ?u = ?g(?h a := ?g a)" "cc_votersHead ?u = ?p" "cc_votersTail ?u = ?q"
        using False by (auto simp: unlink_voter_def contract_steps_simps Let_def fun_eq_iff)
      then show ?thesis using cut(1) by simp
    qed
  qed
  moreover have "links (next_voter ?s') (prev_voter ?s') p' q' (ys @ zs) = links (next_voter ?u) (prev_voter ?u) p' q' (ys @ zs)" for p' q'
    by (rule links_cong) (use a in \<open>auto simp: contract_steps_simps\<close>)
  ultimately show ?thesis using rem count xs by (simp add: voters_listed_def contract_steps_simps)
qed

section \<open>Votes as a list\<close>

text \<open>A ballot: the voter, the validator, the balance recorded.\<close>

type_synonym ballot = "address \<times> address \<times> nat"

definition ballots :: "address \<Rightarrow> ballot list \<Rightarrow> ballot list" where
  "ballots d es = filter (\<lambda>(a, v, b). v = d) es"

definition tally :: "address \<Rightarrow> ballot list \<Rightarrow> nat" where
  "tally d es = sum_list (map (\<lambda>(a, v, b). b) (ballots d es))"

definition without :: "address \<Rightarrow> ballot list \<Rightarrow> ballot list" where
  "without a es = filter (\<lambda>x. fst x \<noteq> a) es"

definition with_balance :: "(address \<Rightarrow> nat) \<Rightarrow> address \<Rightarrow> ballot list \<Rightarrow> ballot list" where
  "with_balance balance a es = map (\<lambda>(x, d, b). (x, d, if x = a then balance a else b)) es"

lemma ballots_simps [simp]:
  "ballots d [] = []" "ballots d (es @ fs) = ballots d es @ ballots d fs" "ballots d ((a, v, b) # es) = (if v = d then (a, v, b) # ballots d es else ballots d es)"
  by (simp_all add: ballots_def)

lemma tally_simps [simp]:
  "tally d [] = 0" "tally d (es @ fs) = tally d es + tally d fs" "tally d ((a, v, b) # es) = (if v = d then b + tally d es else tally d es)"
  by (simp_all add: tally_def)

lemma without_absent: "a \<notin> fst ` set es \<Longrightarrow> without a es = es"
  unfolding without_def by (intro filter_True) auto

lemma without_simps [simp]: "without a (es @ fs) = without a es @ without a fs" "without a ((x, d, b) # es) = (if x = a then without a es else (x, d, b) # without a es)"
  by (simp_all add: without_def)

lemma set_without: "set (without a es) = {x \<in> set es. fst x \<noteq> a}"
  by (simp add: without_def)

lemma fst_with_balance [simp]: "map fst (with_balance balance a es) = map fst es"
  by (simp add: with_balance_def case_prod_beta comp_def)

lemma with_balance_absent: "a \<notin> fst ` set es \<Longrightarrow> with_balance balance a es = es"
  unfolding with_balance_def by (intro map_idI) force

lemma with_balance_split [simp]:
  "with_balance balance a (es @ fs) = with_balance balance a es @ with_balance balance a fs"
  "with_balance balance a ((x, d, b) # es) = (x, d, if x = a then balance a else b) # with_balance balance a es"
  by (simp_all add: with_balance_def)

text \<open>What the storage says of votes, of validators and of single ballots.\<close>

definition implements :: "consensus_contract \<Rightarrow> ballot list \<Rightarrow> bool" where
  "implements s es \<longleftrightarrow> voters_listed s (map fst es) \<and> \<not> cc_hasValidator s 0
     \<and> (\<forall>a d b. (a, d, b) \<in> set es \<longrightarrow> vt_validator (cc_voters s a) = d \<and> vt_balance (cc_voters s a) = b \<and> cc_hasValidator s d)
     \<and> (\<forall>a. a \<notin> fst ` set es \<longrightarrow> vt_validator (cc_voters s a) = 0)
     \<and> (\<forall>d. vd_voteBalance (cc_validatorsData s d) = tally d es \<and> vd_votersCount (cc_validatorsData s d) = length (ballots d es))"

lemma implements_distinct: "implements s es \<Longrightarrow> distinct (map fst es)"
  by (simp add: implements_def voters_listed_def links_def)

lemma implements_unregistered: "implements s es \<Longrightarrow> \<not> cc_hasValidator s d \<Longrightarrow> ballots d es = [] \<and> tally d es = 0"
  unfolding implements_def tally_def ballots_def by (auto simp: filter_empty_conv)

lemma implements_voter:
  assumes "implements s es"
  shows "vt_validator (cc_voters s a) \<noteq> 0 \<longleftrightarrow> a \<in> fst ` set es"
proof
  assume "a \<in> fst ` set es"
  then obtain d b where "(a, d, b) \<in> set es" by auto
  then show "vt_validator (cc_voters s a) \<noteq> 0" using assms unfolding implements_def by metis
qed (use assms in \<open>auto simp: implements_def\<close>)

lemma implements_ballot:
  assumes "implements s es" and "vt_validator (cc_voters s a) \<noteq> 0"
  obtains es1 es2 where "es = es1 @ (a, vt_validator (cc_voters s a), vt_balance (cc_voters s a)) # es2" "a \<notin> fst ` set es1" "a \<notin> fst ` set es2"
proof -
  obtain d b where x: "(a, d, b) \<in> set es" using implements_voter [OF assms(1), of a] assms(2) by auto
  then obtain es1 es2 where es: "es = es1 @ (a, d, b) # es2" by (meson split_list)
  moreover have "vt_validator (cc_voters s a) = d" "vt_balance (cc_voters s a) = b" using x assms(1) unfolding implements_def by blast+
  moreover have "a \<notin> fst ` set es1" "a \<notin> fst ` set es2" using implements_distinct [OF assms(1)] es by auto
  ultimately show thesis using that by blast
qed

lemma implements_frame:
  assumes "implements s es" and "cc_voters s' = cc_voters s" and "cc_votersHead s' = cc_votersHead s" and "cc_votersTail s' = cc_votersTail s" and "cc_votersCount s' = cc_votersCount s"
    and "\<And>d. cc_hasValidator s d \<Longrightarrow> cc_hasValidator s' d" and "\<not> cc_hasValidator s' 0"
    and "\<And>d. vd_voteBalance (cc_validatorsData s' d) = tally d es" and "\<And>d. vd_votersCount (cc_validatorsData s' d) = length (ballots d es)"
  shows "implements s' es"
  using assms unfolding implements_def voters_listed_def by auto

lemma implements_emit [simp]: "implements (emit_event ev s) es = implements s es"
  by (simp add: implements_def voters_listed_def emit_event_def)

section \<open>The operations on votes\<close>

lemma append_voter_frame:
  "vt_validator (cc_voters (append_voter a s) x) = vt_validator (cc_voters s x)" "vt_balance (cc_voters (append_voter a s) x) = vt_balance (cc_voters s x)"
  "cc_validatorsData (append_voter a s) = cc_validatorsData s" "cc_hasValidator (append_voter a s) = cc_hasValidator s"
  by (simp_all add: append_voter_def contract_steps_simps Let_def)

lemma unlink_voter_frame:
  "vt_validator (cc_voters (unlink_voter a s) x) = vt_validator (cc_voters s x)" "vt_balance (cc_voters (unlink_voter a s) x) = vt_balance (cc_voters s x)"
  "cc_validatorsData (unlink_voter a s) = cc_validatorsData s" "cc_hasValidator (unlink_voter a s) = cc_hasValidator s" "cc_votersCount (unlink_voter a s) = cc_votersCount s"
  by (simp_all add: unlink_voter_def contract_steps_simps Let_def)

lemma cast_implements:
  assumes "implements s es" and "a \<notin> fst ` set es" and "a \<noteq> 0" and "cc_hasValidator s d"
    and c: "count_vote d b (append_voter a (update_vote a (\<lambda>_. \<lparr>vt_validator = d, vt_balance = b, vt_prev = 0, vt_next = 0\<rparr>) s)) = Inr s'"
  shows "implements s' (es @ [(a, d, b)])"
proof -
  let ?s1 = "append_voter a (update_vote a (\<lambda>_. \<lparr>vt_validator = d, vt_balance = b, vt_prev = 0, vt_next = 0\<rparr>) s)"
  have s': "s' = update_validator d (\<lambda>v. v\<lparr>vd_voteBalance := vd_voteBalance (cc_validatorsData s d) + b, vd_votersCount := vd_votersCount (cc_validatorsData s d) + 1\<rparr>) ?s1"
    using c by (auto simp: count_vote_def checked_add_def append_voter_frame update_vote_def sum_bind_Inr_iff split: if_splits)
  have "voters_listed ?s1 (map fst (es @ [(a, d, b)]))"
    using append_voter_listed [of s "map fst es" a d b] assms(1-3) by (simp add: implements_def)
  moreover have "voters_listed s' xs = voters_listed ?s1 xs" for xs by (simp add: s' voters_listed_def update_validator_def)
  ultimately show ?thesis using assms(1-4) unfolding implements_def
    by (auto simp: s' append_voter_frame contract_steps_simps)
qed

lemma addVote_implements:
  assumes "implements s es" and "voter \<noteq> 0" and r: "addVote e voter validator s = Inr s'"
  shows "voter \<notin> fst ` set es \<and> implements s' (es @ [(voter, validator, ce_balance e voter)])"
proof -
  obtain s1 where c: "count_vote validator (ce_balance e voter) (append_voter voter (update_vote voter (\<lambda>_. \<lparr>vt_validator = validator, vt_balance = ce_balance e voter, vt_prev = 0, vt_next = 0\<rparr>) s)) = Inr s1"
    and s': "s' = emit_event (Voted voter validator) s1" and "vt_validator (cc_voters s voter) = 0" "cc_hasValidator s validator"
    using r by (auto simp: addVote_def isValidatorRegistered_def Let_def sum_bind_Inr_iff split: if_splits)
  moreover from this have "voter \<notin> fst ` set es" using implements_voter [OF assms(1), of voter] by blast
  ultimately have "implements s1 (es @ [(voter, validator, ce_balance e voter)])" "voter \<notin> fst ` set es" using cast_implements [OF assms(1) _ assms(2) _ c] by blast+
  then show ?thesis by (simp add: s')
qed

text \<open>To take a vote back never fails for a voter.\<close>

lemma unvote_implements:
  assumes "implements s es" and v: "vt_validator (cc_voters s (ce_sender e)) \<noteq> 0"
  shows "\<exists>s'. unvote_internal e s = Inr s' \<and> implements s' (without (ce_sender e) es) \<and> cc_hasValidator s' = cc_hasValidator s"
proof -
  let ?a = "ce_sender e" let ?u = "unlink_voter ?a s" let ?d = "vt_validator (cc_voters s ?a)" and ?b = "vt_balance (cc_voters s ?a)"
  obtain es1 es2 where es: "es = es1 @ (?a, ?d, ?b) # es2" and a: "?a \<notin> fst ` set es1" "?a \<notin> fst ` set es2" by (rule implements_ballot [OF assms])
  have w: "without ?a es = es1 @ es2" by (subst es) (simp add: without_absent a)
  have data: "vd_voteBalance (cc_validatorsData s x) = tally x es" "vd_votersCount (cc_validatorsData s x) = length (ballots x es)" for x using assms(1) by (auto simp: implements_def)
  have count: "cc_votersCount s = length es" using assms(1) by (simp add: implements_def voters_listed_def)
  let ?s2 = "update_vote ?a (\<lambda>_. no_vote) (update_validator ?d (\<lambda>v. v\<lparr>vd_voteBalance := vd_voteBalance (cc_validatorsData s ?d) - ?b, vd_votersCount := vd_votersCount (cc_validatorsData s ?d) - 1\<rparr>) ?u)"
  let ?s' = "emit_event (Unvoted ?a ?d) (?s2\<lparr>cc_votersCount := cc_votersCount s - 1\<rparr>)"
  have enough: "?b \<le> vd_voteBalance (cc_validatorsData s ?d)" "1 \<le> vd_votersCount (cc_validatorsData s ?d)" "1 \<le> cc_votersCount s"
    unfolding data count by (subst es; simp)+
  then have r: "unvote_internal e s = Inr ?s'"
    using v by (simp add: unvote_internal_def Let_def unlink_voter_frame checked_sub_def update_vote_def update_validator_def)
  have listed: "voters_listed ?s' (map fst (es1 @ es2))"
  proof -
    have "voters_listed s (map fst es)" "?a \<in> set (map fst es)" using assms(1) implements_voter [OF assms(1), of ?a] v by (auto simp: implements_def)
    from unlink_voter_listed [OF this] have "voters_listed ((update_vote ?a (\<lambda>_. no_vote) ?u)\<lparr>cc_votersCount := cc_votersCount s - 1\<rparr>) (remove1 ?a (map fst es))" .
    moreover have "remove1 ?a (map fst es) = map fst (es1 @ es2)" using a by (subst es) (auto simp: remove1_append)
    ultimately show ?thesis by (simp add: voters_listed_def contract_steps_simps)
  qed
  have sums: "tally x es = (if x = ?d then ?b else 0) + tally x (es1 @ es2)" "length (ballots x es) = (if x = ?d then 1 else 0) + length (ballots x (es1 @ es2))" for x
    by (subst es; simp)+
  have data': "vd_voteBalance (cc_validatorsData ?s' x) = tally x (es1 @ es2)" "vd_votersCount (cc_validatorsData ?s' x) = length (ballots x (es1 @ es2))" for x
    using data [of x] sums [of x] by (auto simp: contract_steps_simps unlink_voter_frame)
  have votes: "vt_validator (cc_voters ?s' x) = (if x = ?a then 0 else vt_validator (cc_voters s x))" "vt_balance (cc_voters ?s' x) = (if x = ?a then 0 else vt_balance (cc_voters s x))" for x
    by (simp_all add: contract_steps_simps unlink_voter_frame no_vote_def)
  have has: "cc_hasValidator ?s' = cc_hasValidator s" by (simp add: contract_steps_simps unlink_voter_frame)
  have sub: "set (es1 @ es2) = {x \<in> set es. fst x \<noteq> ?a}" using w set_without [of ?a es] by simp
  have old: "vt_validator (cc_voters s x) = d \<and> vt_balance (cc_voters s x) = b \<and> cc_hasValidator s d" if "(x, d, b) \<in> set es" for x d b
    using assms(1) that unfolding implements_def by blast
  have none: "vt_validator (cc_voters s x) = 0" if "x \<notin> fst ` set es" for x using assms(1) that unfolding implements_def by blast
  have "vt_validator (cc_voters s x) = 0" if "x \<notin> fst ` {x \<in> set es. fst x \<noteq> ?a}" "x \<noteq> ?a" for x
    by (rule none) (use that in force)
  then have "implements ?s' (es1 @ es2)" unfolding implements_def votes has data' sub
    using listed assms(1) old by (auto simp: implements_def)
  then show ?thesis using r w has by metis
qed

lemma voteFor_implements:
  assumes "implements s es" and "ce_sender e \<noteq> 0" and r: "contract_voteFor e addr s = Inr s'"
  shows "implements s' (without (ce_sender e) es @ [(ce_sender e, addr, ce_balance e (ce_sender e))])"
proof -
  let ?a = "ce_sender e"
  obtain s1 s2 where s1: "(if vt_validator (cc_voters s ?a) \<noteq> 0 then unvote_internal e s else Inr s) = Inr s1"
    and c: "count_vote addr (ce_balance e ?a) (append_voter ?a (update_vote ?a (\<lambda>_. \<lparr>vt_validator = addr, vt_balance = ce_balance e ?a, vt_prev = 0, vt_next = 0\<rparr>) s1)) = Inr s2"
    and s': "s' = emit_event (Voted ?a addr) s2" and "cc_hasValidator s addr"
    using r by (auto simp: contract_voteFor_def isValidatorRegistered_def Let_def sum_bind_Inr_iff split: if_splits)
  have "implements s1 (without ?a es) \<and> cc_hasValidator s1 = cc_hasValidator s"
  proof (cases "vt_validator (cc_voters s ?a) = 0")
    case True
    then show ?thesis using s1 assms(1) implements_voter [OF assms(1), of ?a] without_absent [of ?a es] by simp
  qed (use unvote_implements [OF assms(1), of e] s1 in auto)
  moreover have "?a \<notin> fst ` set (without ?a es)" by (auto simp: set_without)
  ultimately have "implements s2 (without ?a es @ [(?a, addr, ce_balance e ?a)])" using cast_implements [of s1 "without ?a es" ?a addr] assms(2) c \<open>cc_hasValidator s addr\<close> by auto
  then show ?thesis by (simp add: s')
qed

lemma updateVoter_implements:
  assumes "implements s es" and r: "updateVoter e a s = Inr s'"
  shows "implements s' (with_balance (ce_balance e) a es)"
proof (cases "vt_validator (cc_voters s a) = 0")
  case True
  then have "a \<notin> fst ` set es" using implements_voter [OF assms(1), of a] by blast
  then show ?thesis using True assms by (simp add: updateVoter_def with_balance_absent)
next
  case False
  let ?d = "vt_validator (cc_voters s a)" and ?b = "vt_balance (cc_voters s a)" and ?n = "ce_balance e a"
  obtain es1 es2 where es: "es = es1 @ (a, ?d, ?b) # es2" and a: "a \<notin> fst ` set es1" "a \<notin> fst ` set es2" by (rule implements_ballot [OF assms(1) False])
  have data: "vd_voteBalance (cc_validatorsData s x) = tally x es" "vd_votersCount (cc_validatorsData s x) = length (ballots x es)" for x using assms(1) by (auto simp: implements_def)
  have tot: "tally x es = (if x = ?d then ?b else 0) + tally x (es1 @ es2)" for x by (subst es) simp
  have s': "s' = update_vote a (\<lambda>v. v\<lparr>vt_balance := ?n\<rparr>) (update_validator ?d (\<lambda>v. v\<lparr>vd_voteBalance := tally ?d (es1 @ es2) + ?n\<rparr>) s)"
    using r False data(1) [of ?d] tot [of ?d] by (auto simp: updateVoter_def Let_def checked_add_def checked_sub_def ac_simps split: if_splits)
  have es': "with_balance (ce_balance e) a es = es1 @ (a, ?d, ?n) # es2" by (subst es) (simp add: with_balance_absent a)
  have "map fst (with_balance (ce_balance e) a es) = map fst es" by simp
  then have fsts: "map fst (es1 @ (a, ?d, ?n) # es2) = map fst es" unfolding es' .
  have "next_voter s' = next_voter s" "prev_voter s' = prev_voter s" by (auto simp: s' contract_steps_simps fun_eq_iff)
  then have listed: "voters_listed s' (map fst es)" using assms(1) by (simp add: implements_def voters_listed_def) (simp add: s' contract_steps_simps)
  have es_len: "length (ballots x es) = length (ballots x es1) + (if x = ?d then 1 else 0) + length (ballots x es2)" for x by (subst es) simp
  have len: "length (ballots x (es1 @ (a, ?d, ?n) # es2)) = length (ballots x es)" for x by (simp add: es_len)
  have votes: "vt_validator (cc_voters s' x) = vt_validator (cc_voters s x)" "vt_balance (cc_voters s' x) = (if x = a then ?n else vt_balance (cc_voters s x))"
    "vd_voteBalance (cc_validatorsData s' x) = tally x (es1 @ (a, ?d, ?n) # es2)" "vd_votersCount (cc_validatorsData s' x) = length (ballots x (es1 @ (a, ?d, ?n) # es2))" for x
    using data [of x] tot [of x] unfolding len by (auto simp: s' contract_steps_simps)
  have old: "vt_validator (cc_voters s x) = d \<and> (if x = a then ?n else vt_balance (cc_voters s x)) = b \<and> cc_hasValidator s d" if "(x, d, b) \<in> set (es1 @ (a, ?d, ?n) # es2)" for x d b
  proof -
    have "(x, d, b) \<in> set es \<and> x \<noteq> a \<or> (x, d, b) = (a, ?d, ?n)" using that a by (subst es) force
    moreover have "(a, ?d, ?b) \<in> set es" using arg_cong [OF es, of set] by simp
    ultimately show ?thesis using assms(1) unfolding implements_def by (metis prod.inject)
  qed
  have others: "vt_validator (cc_voters s x) = 0" if "x \<notin> fst ` set es" for x using assms(1) that unfolding implements_def by blast
  have zero: "\<not> cc_hasValidator s 0" using assms(1) by (simp add: implements_def)
  have "fst ` set (es1 @ (a, ?d, ?n) # es2) = fst ` set es" using fsts by (metis set_map)
  moreover have "cc_hasValidator s' = cc_hasValidator s" by (simp add: s' contract_steps_simps)
  ultimately show ?thesis unfolding es' implements_def votes fsts using listed zero old others by presburger
qed

fun update_all :: "(address \<Rightarrow> nat) \<Rightarrow> address list \<Rightarrow> ballot list \<Rightarrow> ballot list" where
  "update_all balance [] es = es"
| "update_all balance (a # as) es = update_all balance as (with_balance balance a es)"

lemma update_voters_implements:
  "implements s es \<Longrightarrow> update_voters e as s = Inr s' \<Longrightarrow> implements s' (update_all (ce_balance e) as es)"
  by (induction as arbitrary: s es) (auto simp: sum_bind_Inr_iff dest: updateVoter_implements)

lemma update_all_ballots:
  "update_all balance as es = map (\<lambda>(a, d, b). (a, d, if a \<in> set as then balance a else b)) es"
  by (induction as arbitrary: es) (auto simp: with_balance_def)

lemma add_votes_implements:
  "implements s es \<Longrightarrow> 0 \<notin> fst ` set vs \<Longrightarrow> add_votes e vs s = Inr s' \<Longrightarrow> implements s' (es @ map (\<lambda>(a, d). (a, d, ce_balance e a)) vs)"
proof (induction vs arbitrary: s es)
  case (Cons v vs)
  obtain a d where v: "v = (a, d)" by (cases v)
  obtain s1 where "addVote e a d s = Inr s1" "add_votes e vs s1 = Inr s'" using Cons.prems(3) v by (auto simp: sum_bind_Inr_iff)
  then show ?case using Cons.IH [of s1 "es @ [(a, d, ce_balance e a)]"] addVote_implements [OF Cons.prems(1), of a e d] Cons.prems(2) v by auto
qed simp

section \<open>The other operations leave votes alone\<close>

text \<open>What the calculation of a round writes before the round itself.\<close>

definition other_fields :: "consensus_contract \<Rightarrow> consensus_contract" where
  "other_fields s = s\<lparr>cc_roundValidatorsMap := \<lambda>_. 0, cc_roundValidatorsHead := 0, cc_roundValidatorsCount := 0\<rparr>"

lemma other_fields_same:
  assumes "other_fields s' = other_fields s"
  shows "cc_validatorsData s' = cc_validatorsData s" "cc_hasValidator s' = cc_hasValidator s" "cc_blsPublicKeys s' = cc_blsPublicKeys s" "cc_validators s' = cc_validators s"
    "cc_activeValidators s' = cc_activeValidators s" "cc_activeValidatorIndex s' = cc_activeValidatorIndex s" "cc_voters s' = cc_voters s" "cc_votersHead s' = cc_votersHead s"
    "cc_votersTail s' = cc_votersTail s" "cc_votersCount s' = cc_votersCount s" "cc_minValidators s' = cc_minValidators s" "cc_rounds s' = cc_rounds s"
    "cc_roundValidators s' = cc_roundValidators s" "cc_owner s' = cc_owner s" "cc_held s' = cc_held s" "cc_fee s' = cc_fee s" "cc_log s' = cc_log s"
    "cc_resignedValidatorsCount s' = cc_resignedValidatorsCount s"
  using arg_cong [OF assms, of cc_validatorsData] arg_cong [OF assms, of cc_hasValidator] arg_cong [OF assms, of cc_blsPublicKeys] arg_cong [OF assms, of cc_validators]
    arg_cong [OF assms, of cc_activeValidators] arg_cong [OF assms, of cc_activeValidatorIndex] arg_cong [OF assms, of cc_voters] arg_cong [OF assms, of cc_votersHead]
    arg_cong [OF assms, of cc_votersTail] arg_cong [OF assms, of cc_votersCount] arg_cong [OF assms, of cc_minValidators] arg_cong [OF assms, of cc_rounds]
    arg_cong [OF assms, of cc_roundValidators] arg_cong [OF assms, of cc_owner] arg_cong [OF assms, of cc_held] arg_cong [OF assms, of cc_fee] arg_cong [OF assms, of cc_log]
    arg_cong [OF assms, of cc_resignedValidatorsCount]
  by (simp_all add: other_fields_def)

lemma insert_loop_writes: "insert_loop addr current previous s = Some s' \<Longrightarrow> other_fields s' = other_fields s"
proof (induction addr current previous s s' rule: insert_loop.raw_induct [rotated, consumes 1, case_names step])
  case (step rec addr current previous s r)
  then show ?case by (auto simp: insertAfter_def Let_def other_fields_def split: if_splits)
qed

lemma insertValidator_writes:
  assumes "insertValidator addr limit s = Some s'"
  shows "other_fields s' = other_fields s"
proof -
  have "other_fields (drop_lowest x) = other_fields x" "other_fields (insertHead addr s) = other_fields s" for x by (simp_all add: drop_lowest_def insertHead_def Let_def other_fields_def)
  then show ?thesis using assms by (auto simp: insertValidator_def bind_eq_Some_conv split: if_splits dest: insert_loop_writes)
qed

lemma consider_validators_writes: "consider_validators n as s = Some s' \<Longrightarrow> other_fields s' = other_fields s"
proof (induction as arbitrary: s)
  case (Cons a as)
  then obtain s1 where s1: "consider_validator n a s = Some s1" "consider_validators n as s1 = Some s'" by (auto simp: bind_eq_Some_conv)
  have head: "other_fields (s\<lparr>cc_roundValidatorsHead := h, cc_roundValidatorsCount := c\<rparr>) = other_fields s" for h c by (simp add: other_fields_def)
  have "other_fields s1 = other_fields s"
    using s1(1) head by (auto simp: consider_validator_def Let_def split: if_splits dest: insertValidator_writes)
  then show ?case using Cons.IH [OF s1(2)] by simp
qed simp

lemma calculate_writes:
  assumes "calculateRoundValidators e n s = Some (Inr s')"
  obtains s1 xs where "s' = s1\<lparr>cc_roundValidators := xs, cc_rounds := cc_rounds s @ [map (\<lambda>addr. (addr, vd_voteBalance (cc_validatorsData s addr))) xs]\<rparr>"
    "other_fields s1 = other_fields (s\<lparr>cc_minValidators := n\<rparr>)"
proof -
  obtain m s2 where m: "consider_validators n (cc_activeValidators s) (s\<lparr>cc_minValidators := n, cc_roundValidatorsMap := m, cc_roundValidatorsCount := 0, cc_roundValidatorsHead := 0\<rparr>) = Some s2"
    and s': "s' = s2\<lparr>cc_roundValidators := shuffleMem (ce_random e) (follow (cc_roundValidatorsMap s2) n (cc_roundValidatorsHead s2)),
      cc_rounds := cc_rounds s2 @ [map (\<lambda>addr. (addr, vd_voteBalance (cc_validatorsData s2 addr))) (shuffleMem (ce_random e) (follow (cc_roundValidatorsMap s2) n (cc_roundValidatorsHead s2)))]\<rparr>"
    using assms by (auto simp: calculateRoundValidators_def deleteRoundValidators_def bind_eq_Some_conv Let_def split: if_splits)
  have o: "other_fields s2 = other_fields (s\<lparr>cc_minValidators := n\<rparr>)" using consider_validators_writes [OF m] by (simp add: other_fields_def)
  then show thesis using that s' other_fields_same [OF o] by simp
qed

end
