(* ===== verification/Contract_Invariant.thy ===== *)
theory Contract_Invariant
  imports Contract_Votes
begin

text \<open>
  The invariant of the consensus contract: the array of active validators with its index, the keys, the fees that are held, and the votes, in every storage that calls lead to.
\<close>

section \<open>The array of active validators\<close>

definition array_ok :: "consensus_contract \<Rightarrow> bool" where
  "array_ok s \<longleftrightarrow> distinct (cc_activeValidators s) \<and> (\<forall>i < length (cc_activeValidators s). cc_activeValidatorIndex s (cc_activeValidators s ! i) = i)"

lemma isActive_iff: "array_ok s \<Longrightarrow> isActiveValidator a s \<longleftrightarrow> a \<in> set (cc_activeValidators s)"
  unfolding array_ok_def isActiveValidator_def Let_def by (metis in_set_conv_nth not_le)

lemma swap_remove:
  assumes "distinct xs" and "i < length xs"
  shows "distinct (butlast (xs[i := last xs]))" "set (butlast (xs[i := last xs])) = set xs - {xs ! i}"
proof -
  obtain us l where xs: "xs = us @ [l]" using assms(2) by (cases xs rule: rev_cases) auto
  have "distinct (butlast (xs[i := last xs])) \<and> set (butlast (xs[i := last xs])) = set xs - {xs ! i}"
  proof (cases "i = length us")
    case True
    then show ?thesis using assms xs by simp
  next
    case False
    then have "i < length us" "us ! i \<in> set us" using assms(2) xs by auto
    then show ?thesis using assms(1) xs set_update_distinct [of us i l] distinct_list_update [of us l i] by (auto simp: list_update_append nth_append)
  qed
  then show "distinct (butlast (xs[i := last xs]))" "set (butlast (xs[i := last xs])) = set xs - {xs ! i}" by simp_all
qed

lemma addActive_array:
  assumes "array_ok s" and "a \<notin> set (cc_activeValidators s)"
  shows "array_ok (addActiveValidator a s)" "cc_activeValidators (addActiveValidator a s) = cc_activeValidators s @ [a]"
  using assms by (auto simp: array_ok_def addActiveValidator_def Let_def nth_append in_set_conv_nth)

lemma removeActive_array:
  assumes "array_ok s"
  shows "array_ok (removeActiveValidator a s)" "set (cc_activeValidators (removeActiveValidator a s)) = set (cc_activeValidators s) - {a}"
    "length (cc_activeValidators s) \<le> Suc (length (cc_activeValidators (removeActiveValidator a s)))"
proof -
  let ?xs = "cc_activeValidators s" and ?ix = "cc_activeValidatorIndex s" and ?r = "removeActiveValidator a s"
  have "array_ok ?r \<and> set (cc_activeValidators ?r) = set ?xs - {a} \<and> length ?xs \<le> Suc (length (cc_activeValidators ?r))"
  proof (cases "isActiveValidator a s")
    case False
    then show ?thesis using assms isActive_iff [OF assms, of a] by (simp add: removeActiveValidator_def)
  next
    case True
    let ?i = "?ix a" let ?ys = "butlast (?xs[?i := last ?xs])"
    have i: "?i < length ?xs" "?xs ! ?i = a" using True by (auto simp: isActiveValidator_def Let_def split: if_splits)
    have d: "distinct ?xs" and ix: "\<And>j. j < length ?xs \<Longrightarrow> ?ix (?xs ! j) = j" using assms by (auto simp: array_ok_def)
    have last: "last ?xs = ?xs ! (length ?xs - 1)" using i by (intro last_conv_nth) auto
    have xs: "cc_activeValidators ?r = ?ys"
    proof (cases "?i = length ?xs - 1")
      case True
      then have "?xs[?i := last ?xs] = ?xs" using last by (metis list_update_id)
      then show ?thesis using \<open>isActiveValidator a s\<close> True by (simp add: removeActiveValidator_def Let_def)
    qed (use True last in \<open>simp add: removeActiveValidator_def Let_def\<close>)
    have "cc_activeValidatorIndex ?r (?ys ! j) = j" if j: "j < length ?ys" for j
    proof -
      have j': "j < length ?xs" "j < length ?xs - 1" using j by auto
      have y: "?ys ! j = (if j = ?i then ?xs ! (length ?xs - 1) else ?xs ! j)" using j j' last by (simp add: nth_butlast nth_list_update)
      have ne: "?ys ! j \<noteq> a" using nth_mem [OF j] swap_remove(2) [OF d i(1)] i(2) by auto
      show ?thesis
      proof (cases "?i = length ?xs - 1")
        case True
        then show ?thesis using y j' ne ix [of j] \<open>isActiveValidator a s\<close> by (simp add: removeActiveValidator_def Let_def)
      next
        case False
        have "?xs ! j \<noteq> ?xs ! (length ?xs - 1)" if "j \<noteq> ?i" using d j' by (simp add: nth_eq_iff_index_eq)
        then show ?thesis using False y ne ix [OF j'(1)] \<open>isActiveValidator a s\<close> by (auto simp: removeActiveValidator_def Let_def)
      qed
    qed
    then show ?thesis using swap_remove [OF d i(1)] i by (simp add: array_ok_def xs)
  qed
  then show "array_ok ?r" "set (cc_activeValidators ?r) = set ?xs - {a}" "length ?xs \<le> Suc (length (cc_activeValidators ?r))" by simp_all
qed

lemma removeActive_frame:
  "removeActiveValidator a s = s\<lparr>cc_activeValidators := cc_activeValidators (removeActiveValidator a s), cc_activeValidatorIndex := cc_activeValidatorIndex (removeActiveValidator a s)\<rparr>"
  by (simp add: removeActiveValidator_def Let_def)

section \<open>The register of validators\<close>

text \<open>What is left when votes, events and the fee of new validators are taken away.\<close>

definition registry :: "consensus_contract \<Rightarrow> consensus_contract" where
  "registry s = s\<lparr>cc_voters := \<lambda>_. no_vote, cc_votersHead := 0, cc_votersTail := 0, cc_votersCount := 0, cc_log := [], cc_fee := 0,
     cc_validatorsData := \<lambda>a. (cc_validatorsData s a)\<lparr>vd_voteBalance := 0, vd_votersCount := 0\<rparr>\<rparr>"

definition fees_held :: "consensus_contract \<Rightarrow> nat" where
  "fees_held s = (\<Sum>a \<leftarrow> cc_validators s. if vd_isResigned (cc_validatorsData s a) then 0 else vd_fee (cc_validatorsData s a))"

definition registry_ok :: "(bytes \<Rightarrow> bytes) \<Rightarrow> consensus_contract \<Rightarrow> bool" where
  "registry_ok K s \<longleftrightarrow> array_ok s \<and> set (cc_activeValidators s) = {a. cc_hasValidator s a \<and> canBecomeActiveValidator a s}
     \<and> distinct (cc_validators s) \<and> set (cc_validators s) = {a. cc_hasValidator s a} \<and> \<not> cc_hasValidator s 0
     \<and> (\<forall>a. cc_hasValidator s a \<and> vd_blsPublicKey (cc_validatorsData s a) \<noteq> [] \<longrightarrow> cc_blsPublicKeys s (K (vd_blsPublicKey (cc_validatorsData s a))))
     \<and> (\<forall>a b. cc_hasValidator s a \<and> cc_hasValidator s b \<and> vd_blsPublicKey (cc_validatorsData s a) = vd_blsPublicKey (cc_validatorsData s b)
          \<and> vd_blsPublicKey (cc_validatorsData s a) \<noteq> [] \<longrightarrow> a = b)
     \<and> cc_held s = fees_held s
     \<and> cc_resignedValidatorsCount s = length (filter (\<lambda>a. vd_isResigned (cc_validatorsData s a)) (cc_validators s))
     \<and> (cc_rounds s \<noteq> [] \<longrightarrow> cc_minValidators s \<le> length (cc_activeValidators s))"

lemma registry_same:
  assumes "registry s' = registry s"
  shows "cc_hasValidator s' = cc_hasValidator s" "cc_blsPublicKeys s' = cc_blsPublicKeys s" "cc_validators s' = cc_validators s" "cc_activeValidators s' = cc_activeValidators s"
    "cc_activeValidatorIndex s' = cc_activeValidatorIndex s" "cc_minValidators s' = cc_minValidators s" "cc_rounds s' = cc_rounds s" "cc_held s' = cc_held s"
    "cc_resignedValidatorsCount s' = cc_resignedValidatorsCount s" "vd_fee (cc_validatorsData s' a) = vd_fee (cc_validatorsData s a)"
    "vd_isResigned (cc_validatorsData s' a) = vd_isResigned (cc_validatorsData s a)" "vd_blsPublicKey (cc_validatorsData s' a) = vd_blsPublicKey (cc_validatorsData s a)"
    "cc_roundValidatorsMap s' = cc_roundValidatorsMap s" "cc_roundValidatorsHead s' = cc_roundValidatorsHead s" "cc_owner s' = cc_owner s"
  using arg_cong [OF assms, of cc_hasValidator] arg_cong [OF assms, of cc_blsPublicKeys] arg_cong [OF assms, of cc_validators] arg_cong [OF assms, of cc_activeValidators]
    arg_cong [OF assms, of cc_activeValidatorIndex] arg_cong [OF assms, of cc_minValidators] arg_cong [OF assms, of cc_rounds] arg_cong [OF assms, of cc_held]
    arg_cong [OF assms, of cc_resignedValidatorsCount] arg_cong [OF assms, of "\<lambda>x. vd_fee (cc_validatorsData x a)"]
    arg_cong [OF assms, of "\<lambda>x. vd_isResigned (cc_validatorsData x a)"] arg_cong [OF assms, of "\<lambda>x. vd_blsPublicKey (cc_validatorsData x a)"]
    arg_cong [OF assms, of cc_roundValidatorsMap] arg_cong [OF assms, of cc_roundValidatorsHead] arg_cong [OF assms, of cc_owner]
  by (simp_all add: registry_def)

lemma registry_ok_cong:
  assumes "registry s' = registry s"
  shows "registry_ok K s' = registry_ok K s"
  unfolding registry_ok_def array_ok_def canBecomeActiveValidator_def fees_held_def registry_same [OF assms] by (rule refl)

lemma registry_votes [simp]:
  "registry (emit_event ev s) = registry s" "registry (update_vote a f s) = registry s" "registry (append_voter a s) = registry s" "registry (unlink_voter a s) = registry s"
  "registry (s\<lparr>cc_votersCount := n\<rparr>) = registry s" "registry (s\<lparr>cc_fee := n\<rparr>) = registry s"
  by (simp_all add: registry_def append_voter_def unlink_voter_def contract_steps_simps Let_def)

lemma registry_tally:
  "registry (update_validator a (\<lambda>d. d\<lparr>vd_voteBalance := b, vd_votersCount := c\<rparr>) s) = registry s" "registry (update_validator a (\<lambda>d. d\<lparr>vd_voteBalance := b\<rparr>) s) = registry s"
  by (auto simp: registry_def contract_steps_simps fun_eq_iff)

lemma count_vote_registry: "count_vote d b s = Inr s' \<Longrightarrow> registry s' = registry s"
  by (auto simp: count_vote_def sum_bind_Inr_iff registry_tally)

lemma addVote_registry: "addVote e voter validator s = Inr s' \<Longrightarrow> registry s' = registry s"
  by (auto simp: addVote_def Let_def sum_bind_Inr_iff dest!: count_vote_registry split: if_splits)

lemma add_votes_registry: "add_votes e vs s = Inr s' \<Longrightarrow> registry s' = registry s"
  by (induction e vs s rule: add_votes.induct) (auto simp: sum_bind_Inr_iff dest: addVote_registry)

lemma unvote_registry: "unvote_internal e s = Inr s' \<Longrightarrow> registry s' = registry s"
  by (auto simp: unvote_internal_def Let_def sum_bind_Inr_iff registry_tally split: if_splits)

lemma voteFor_registry: "contract_voteFor e addr s = Inr s' \<Longrightarrow> registry s' = registry s"
  by (auto simp: contract_voteFor_def Let_def sum_bind_Inr_iff dest!: count_vote_registry unvote_registry split: if_splits)

lemma updateVoter_registry: "updateVoter e a s = Inr s' \<Longrightarrow> registry s' = registry s"
  by (auto simp: updateVoter_def Let_def sum_bind_Inr_iff registry_tally split: if_splits)

lemma update_voters_registry: "update_voters e as s = Inr s' \<Longrightarrow> registry s' = registry s"
  by (induction e as s rule: update_voters.induct) (auto simp: sum_bind_Inr_iff dest: updateVoter_registry)

section \<open>Operations on validators\<close>

lemma verify_result: "verifyAndRegisterBlsPublicKey e key s = Inr s' \<Longrightarrow>
    \<not> cc_blsPublicKeys s (ce_keccak256 e key) \<and> length key = 48 \<and> s' = s\<lparr>cc_blsPublicKeys := (cc_blsPublicKeys s)(ce_keccak256 e key := True)\<rparr>"
  by (auto simp: verifyAndRegisterBlsPublicKey_def Let_def split: if_splits)

lemma fees_unchanged: "a \<notin> set xs \<Longrightarrow> (\<Sum>x \<leftarrow> xs. f (if x = a then u else g x)) = (\<Sum>x \<leftarrow> xs. f (g x))"
  by (intro arg_cong [of _ _ sum_list] map_cong) auto

lemma addValidator_registry:
  assumes "registry_ok K s" and "addr \<noteq> 0" and r: "addValidator e addr resigned s = Inr s'"
  shows "registry_ok K s'"
proof -
  have new: "\<not> cc_hasValidator s addr" "cc_rounds s = []" using r by (auto simp: addValidator_def only_owner_def split: if_splits)
  then have a: "addr \<notin> set (cc_validators s)" "addr \<notin> set (cc_activeValidators s)" using assms(1) by (auto simp: registry_ok_def)
  let ?d = "\<lparr>vd_voteBalance = 0, vd_fee = 0, vd_votersCount = 0, vd_isResigned = resigned, vd_blsPublicKey = []\<rparr>"
  let ?s1 = "s\<lparr>cc_hasValidator := (cc_hasValidator s)(addr := True), cc_validatorsData := (cc_validatorsData s)(addr := ?d), cc_validators := cc_validators s @ [addr],
    cc_resignedValidatorsCount := cc_resignedValidatorsCount s + (if resigned then 1 else 0)\<rparr>"
  have "s' = emit_event (ValidatorRegistered addr []) ?s1" using r by (cases resigned) (simp_all add: addValidator_def only_owner_def Let_def split: if_splits)
  then have s': "registry s' = registry ?s1" by simp
  have fees: "fees_held ?s1 = fees_held s" unfolding fees_held_def using a by (auto intro!: arg_cong [of _ _ sum_list])
  have count: "filter (\<lambda>x. vd_isResigned (((cc_validatorsData s)(addr := ?d)) x)) (cc_validators s) = filter (\<lambda>x. vd_isResigned (cc_validatorsData s x)) (cc_validators s)"
    using a by (intro filter_cong) auto
  have can: "canBecomeActiveValidator x ?s1 \<longleftrightarrow> x \<noteq> addr \<and> canBecomeActiveValidator x s" for x by (simp add: canBecomeActiveValidator_def)
  have "registry_ok K ?s1" using assms(1,2) new a count unfolding registry_ok_def fees can by (auto simp: array_ok_def)
  then show ?thesis using registry_ok_cong [OF s'] by blast
qed

lemma registerValidator_registry:
  assumes "registry_ok K s" and "ce_sender e \<noteq> 0" and "ce_keccak256 e = K" and r: "registerValidator e key proof_of s = Inr s'"
  shows "registry_ok K s'"
proof -
  let ?a = "ce_sender e"
  let ?d = "\<lparr>vd_voteBalance = 0, vd_fee = ce_value e, vd_votersCount = 0, vd_isResigned = False, vd_blsPublicKey = key\<rparr>"
  let ?s1 = "s\<lparr>cc_blsPublicKeys := (cc_blsPublicKeys s)(K key := True), cc_hasValidator := (cc_hasValidator s)(?a := True), cc_validatorsData := (cc_validatorsData s)(?a := ?d),
    cc_validators := cc_validators s @ [?a], cc_held := cc_held s + ce_value e\<rparr>"
  have new: "\<not> cc_hasValidator s ?a" "\<not> cc_blsPublicKeys s (K key)" "key \<noteq> []" and s': "s' = emit_event (ValidatorRegistered ?a key) (addActiveValidator ?a ?s1)"
    using r assms(3) by (auto simp: registerValidator_def sum_bind_Inr_iff Let_def dest!: verify_result split: if_splits)
  then have a: "?a \<notin> set (cc_validators s)" "?a \<notin> set (cc_activeValidators s)" using assms(1) by (auto simp: registry_ok_def)
  have s'': "registry s' = registry (addActiveValidator ?a ?s1)" by (simp add: s')
  have "array_ok ?s1" using assms(1) by (simp add: registry_ok_def array_ok_def)
  note arr = addActive_array [OF this, of ?a]
  have fees: "fees_held (addActiveValidator ?a ?s1) = fees_held s + ce_value e" unfolding fees_held_def using a by (auto intro!: arg_cong [of _ _ sum_list] simp: addActiveValidator_def Let_def)
  have count: "filter (\<lambda>x. vd_isResigned (((cc_validatorsData s)(?a := ?d)) x)) (cc_validators s) = filter (\<lambda>x. vd_isResigned (cc_validatorsData s x)) (cc_validators s)"
    using a by (intro filter_cong) auto
  have can: "canBecomeActiveValidator x (addActiveValidator ?a ?s1) \<longleftrightarrow> x = ?a \<or> canBecomeActiveValidator x s" for x
    using new(3) by (auto simp: canBecomeActiveValidator_def addActiveValidator_def Let_def)
  have "registry_ok K (addActiveValidator ?a ?s1)" unfolding registry_ok_def fees can
    using assms(1,2) new a count arr by (auto simp: registry_ok_def addActiveValidator_def Let_def)
  then show ?thesis using registry_ok_cong [OF s''] by blast
qed

definition rekeyed :: "contract_call \<Rightarrow> bytes \<Rightarrow> consensus_contract \<Rightarrow> consensus_contract" where
  "rekeyed e key s = update_validator (ce_sender e) (\<lambda>d. d\<lparr>vd_blsPublicKey := key\<rparr>) (s\<lparr>cc_blsPublicKeys := (cc_blsPublicKeys s)(ce_keccak256 e key := True)\<rparr>)"

lemma updateValidator_result:
  assumes "updateValidator e key proof_of s = Inr s'"
  shows "cc_hasValidator s (ce_sender e)" "\<not> cc_blsPublicKeys s (ce_keccak256 e key)" "key \<noteq> []"
    "s' = emit_event (ValidatorUpdated (ce_sender e) key) (if canBecomeActiveValidator (ce_sender e) (rekeyed e key s) \<and> \<not> isActiveValidator (ce_sender e) (rekeyed e key s)
       then addActiveValidator (ce_sender e) (rekeyed e key s) else rekeyed e key s)"
  using assms by (auto simp: updateValidator_def isValidatorRegistered_def rekeyed_def sum_bind_Inr_iff Let_def dest!: verify_result split: if_splits)

lemma updateValidator_registry:
  assumes "registry_ok K s" and "ce_keccak256 e = K" and r: "updateValidator e key proof_of s = Inr s'"
  shows "registry_ok K s'"
proof -
  let ?a = "ce_sender e"
  let ?s1 = "update_validator ?a (\<lambda>d. d\<lparr>vd_blsPublicKey := key\<rparr>) (s\<lparr>cc_blsPublicKeys := (cc_blsPublicKeys s)(K key := True)\<rparr>)"
  let ?s2 = "if canBecomeActiveValidator ?a ?s1 \<and> \<not> isActiveValidator ?a ?s1 then addActiveValidator ?a ?s1 else ?s1"
  have new: "cc_hasValidator s ?a" "\<not> cc_blsPublicKeys s (K key)" "key \<noteq> []" and s': "s' = emit_event (ValidatorUpdated ?a key) ?s2"
    using updateValidator_result [OF r] unfolding rekeyed_def assms(2) by blast+
  have s'': "registry s' = registry ?s2" by (simp add: s')
  have arr: "array_ok ?s1" using assms(1) by (simp add: registry_ok_def array_ok_def update_validator_def)
  have act: "cc_activeValidators ?s1 = cc_activeValidators s" by (simp add: update_validator_def)
  have can: "canBecomeActiveValidator x ?s1 \<longleftrightarrow> (if x = ?a then \<not> vd_isResigned (cc_validatorsData s x) else canBecomeActiveValidator x s)" for x
    using new(3) by (auto simp: canBecomeActiveValidator_def update_validator_def)
  have set_active: "set (cc_activeValidators s) = {a. cc_hasValidator s a \<and> canBecomeActiveValidator a s}" using assms(1) by (simp add: registry_ok_def)
  have arr2: "array_ok ?s2 \<and> set (cc_activeValidators ?s2) = {x. cc_hasValidator s x \<and> canBecomeActiveValidator x ?s1} \<and> length (cc_activeValidators s) \<le> length (cc_activeValidators ?s2)"
  proof (cases "canBecomeActiveValidator ?a ?s1 \<and> \<not> isActiveValidator ?a ?s1")
    case True
    then have "?a \<notin> set (cc_activeValidators ?s1)" using isActive_iff [OF arr] by blast
    then show ?thesis using addActive_array [OF arr, of ?a] True new(1) set_active can act by auto
  next
    case False
    have "?a \<in> set (cc_activeValidators s) \<longleftrightarrow> \<not> vd_isResigned (cc_validatorsData s ?a)"
    proof (cases "canBecomeActiveValidator ?a ?s1")
      case True
      then show ?thesis using False isActive_iff [OF arr, of ?a] can [of ?a] act by simp
    next
      case False
      then have "vd_isResigned (cc_validatorsData s ?a)" using can [of ?a] by simp
      then show ?thesis unfolding set_active by (simp add: canBecomeActiveValidator_def)
    qed
    then have "set (cc_activeValidators s) = {x. cc_hasValidator s x \<and> canBecomeActiveValidator x ?s1}" using set_active can new(1) by auto
    then show ?thesis unfolding if_not_P [OF False] using arr act by simp
  qed
  have same: "cc_hasValidator ?s2 = cc_hasValidator s" "cc_validators ?s2 = cc_validators s" "cc_held ?s2 = cc_held s" "cc_resignedValidatorsCount ?s2 = cc_resignedValidatorsCount s"
    "cc_rounds ?s2 = cc_rounds s" "cc_minValidators ?s2 = cc_minValidators s" "cc_blsPublicKeys ?s2 = (cc_blsPublicKeys s)(K key := True)"
    "cc_validatorsData ?s2 = (cc_validatorsData s)(?a := (cc_validatorsData s ?a)\<lparr>vd_blsPublicKey := key\<rparr>)"
    by (simp_all add: update_validator_def addActiveValidator_def Let_def)
  have data: "vd_isResigned (((cc_validatorsData s)(?a := (cc_validatorsData s ?a)\<lparr>vd_blsPublicKey := key\<rparr>)) x) = vd_isResigned (cc_validatorsData s x)"
    "vd_fee (((cc_validatorsData s)(?a := (cc_validatorsData s ?a)\<lparr>vd_blsPublicKey := key\<rparr>)) x) = vd_fee (cc_validatorsData s x)"
    "vd_blsPublicKey (((cc_validatorsData s)(?a := (cc_validatorsData s ?a)\<lparr>vd_blsPublicKey := key\<rparr>)) x) = (if x = ?a then key else vd_blsPublicKey (cc_validatorsData s x))" for x by simp_all
  have can2: "canBecomeActiveValidator x ?s2 = canBecomeActiveValidator x ?s1" for x by (simp add: canBecomeActiveValidator_def addActiveValidator_def Let_def)
  have "registry_ok K ?s2" unfolding registry_ok_def fees_held_def same data can2
    using assms(1) new arr2 by (auto simp: registry_ok_def fees_held_def)
  then show ?thesis using registry_ok_cong [OF s''] by blast
qed

text \<open>The storage when the refund is paid.\<close>

definition resigned_storage :: "address \<Rightarrow> consensus_contract \<Rightarrow> consensus_contract" where
  "resigned_storage a s =
     (let s1 = update_validator a (\<lambda>d. d\<lparr>vd_isResigned := True\<rparr>) s; s2 = s1\<lparr>cc_resignedValidatorsCount := cc_resignedValidatorsCount s1 + 1\<rparr>
      in (removeActiveValidator a s2)\<lparr>cc_held := cc_held s - vd_fee (cc_validatorsData s a)\<rparr>)"

lemma resigned_storage_registry:
  assumes ok: "registry_ok K s" and a: "cc_hasValidator s a" "\<not> vd_isResigned (cc_validatorsData s a)" and many: "cc_minValidators s < length (cc_activeValidators s)"
  shows "registry_ok K (resigned_storage a s)" "vd_fee (cc_validatorsData s a) \<le> cc_held s"
proof -
  let ?s2 = "(update_validator a (\<lambda>d. d\<lparr>vd_isResigned := True\<rparr>) s)\<lparr>cc_resignedValidatorsCount := Suc (cc_resignedValidatorsCount s)\<rparr>" and ?fee = "vd_fee (cc_validatorsData s a)"
  let ?s3 = "removeActiveValidator a ?s2"
  have t: "resigned_storage a s = ?s3\<lparr>cc_held := cc_held s - ?fee\<rparr>" by (simp add: resigned_storage_def Let_def update_validator_def)
  have "array_ok ?s2" using ok by (simp add: registry_ok_def array_ok_def update_validator_def)
  note arr = removeActive_array [OF this, of a]
  have act: "cc_activeValidators ?s2 = cc_activeValidators s" by (simp add: update_validator_def)
  have same: "cc_hasValidator ?s3 = cc_hasValidator s" "cc_validators ?s3 = cc_validators s" "cc_resignedValidatorsCount ?s3 = Suc (cc_resignedValidatorsCount s)" "cc_rounds ?s3 = cc_rounds s"
    "cc_minValidators ?s3 = cc_minValidators s" "cc_blsPublicKeys ?s3 = cc_blsPublicKeys s" "cc_validatorsData ?s3 = (cc_validatorsData s)(a := (cc_validatorsData s a)\<lparr>vd_isResigned := True\<rparr>)"
    by (subst removeActive_frame; simp add: update_validator_def)+
  obtain us vs where vs: "cc_validators s = us @ a # vs" using ok a(1) by (metis (mono_tags, lifting) mem_Collect_eq registry_ok_def split_list)
  have d: "a \<notin> set us" "a \<notin> set vs" using ok vs by (auto simp: registry_ok_def)
  have rest: "cc_hasValidator (resigned_storage a s) = cc_hasValidator s" "cc_validators (resigned_storage a s) = cc_validators s" "cc_rounds (resigned_storage a s) = cc_rounds s"
    "cc_minValidators (resigned_storage a s) = cc_minValidators s" "cc_blsPublicKeys (resigned_storage a s) = cc_blsPublicKeys s"
    "cc_resignedValidatorsCount (resigned_storage a s) = Suc (cc_resignedValidatorsCount s)"
    "cc_validatorsData (resigned_storage a s) = (cc_validatorsData s)(a := (cc_validatorsData s a)\<lparr>vd_isResigned := True\<rparr>)" unfolding t by (simp_all add: same)
  have fees: "fees_held s = ?fee + fees_held (resigned_storage a s)"
  proof -
    have "(\<Sum>x \<leftarrow> ws. if vd_isResigned (((cc_validatorsData s)(a := (cc_validatorsData s a)\<lparr>vd_isResigned := True\<rparr>)) x) then 0 else vd_fee (((cc_validatorsData s)(a := (cc_validatorsData s a)\<lparr>vd_isResigned := True\<rparr>)) x))
        = (\<Sum>x \<leftarrow> ws. if vd_isResigned (cc_validatorsData s x) then 0 else vd_fee (cc_validatorsData s x))" if "a \<notin> set ws" for ws
      using that by (intro arg_cong [of _ _ sum_list] map_cong) auto
    note these = this [OF d(1)] this [OF d(2)]
    have "fees_held (resigned_storage a s) = (\<Sum>x \<leftarrow> us. if vd_isResigned (cc_validatorsData s x) then 0 else vd_fee (cc_validatorsData s x))
        + (\<Sum>x \<leftarrow> vs. if vd_isResigned (cc_validatorsData s x) then 0 else vd_fee (cc_validatorsData s x))"
      unfolding fees_held_def rest vs map_append sum_list_append list.map sum_list.Cons these by simp
    then show ?thesis using a(2) by (simp add: fees_held_def vs)
  qed
  have filt: "filter (\<lambda>x. vd_isResigned (((cc_validatorsData s)(a := (cc_validatorsData s a)\<lparr>vd_isResigned := True\<rparr>)) x)) ws = filter (\<lambda>x. vd_isResigned (cc_validatorsData s x)) ws"
    if "a \<notin> set ws" for ws using that by (intro filter_cong) auto
  have count: "length (filter (\<lambda>x. vd_isResigned (((cc_validatorsData s)(a := (cc_validatorsData s a)\<lparr>vd_isResigned := True\<rparr>)) x)) (cc_validators s))
      = length (filter (\<lambda>x. vd_isResigned (cc_validatorsData s x)) (cc_validators s)) + 1"
    using a(2) filt [OF d(1)] filt [OF d(2)] by (simp add: vs)
  show "?fee \<le> cc_held s" using ok fees by (simp add: registry_ok_def)
  have can: "canBecomeActiveValidator x (resigned_storage a s) \<longleftrightarrow> x \<noteq> a \<and> canBecomeActiveValidator x s" for x
    unfolding t by (auto simp: canBecomeActiveValidator_def same)
  have arr': "array_ok (resigned_storage a s)" "cc_activeValidators (resigned_storage a s) = cc_activeValidators ?s3" using arr(1) unfolding t by (simp_all add: array_ok_def)
  have key: "vd_blsPublicKey (cc_validatorsData (resigned_storage a s) x) = vd_blsPublicKey (cc_validatorsData s x)" for x unfolding t by (simp add: same)
  have held: "cc_held (resigned_storage a s) = fees_held (resigned_storage a s)"
  proof -
    have "cc_held (resigned_storage a s) = cc_held s - ?fee" unfolding t by simp
    moreover have "cc_held s = fees_held s" using ok by (simp add: registry_ok_def)
    ultimately show ?thesis using fees by linarith
  qed
  show "registry_ok K (resigned_storage a s)" unfolding registry_ok_def held can key arr'(2) unfolding rest count
    using ok many arr arr'(1) act by (auto simp: registry_ok_def)
qed

lemma resign_result:
  assumes "registry_ok K s" and r: "resignValidator e s = Inr s'"
  obtains s1 where "s1 = resigned_storage (ce_sender e) s \<or> ce_receiver e (resigned_storage (ce_sender e) s) = Some s1" "s' = emit_event (ValidatorResigned (ce_sender e)) s1"
    "registry_ok K (resigned_storage (ce_sender e) s)" "cc_hasValidator s (ce_sender e)"
proof -
  let ?a = "ce_sender e"
  have a: "cc_hasValidator s ?a" "\<not> vd_isResigned (cc_validatorsData s ?a)" "cc_minValidators s < length (cc_activeValidators s)"
    using r by (auto simp: resignValidator_def isValidatorRegistered_def split: if_splits)
  let ?s2 = "(update_validator ?a (\<lambda>d. d\<lparr>vd_isResigned := True\<rparr>) s)\<lparr>cc_resignedValidatorsCount := Suc (cc_resignedValidatorsCount s)\<rparr>" and ?fee = "vd_fee (cc_validatorsData s ?a)"
  let ?s3 = "removeActiveValidator ?a ?s2"
  have s3: "vd_fee (cc_validatorsData ?s3 ?a) = ?fee" "cc_held ?s3 = cc_held s" by (subst removeActive_frame; simp add: update_validator_def)+
  have t: "resigned_storage ?a s = ?s3\<lparr>cc_held := cc_held ?s3 - ?fee\<rparr>" using s3(2) by (simp add: resigned_storage_def Let_def update_validator_def)
  have "sum_bind (if ?fee > 0 then pay_refund e ?fee ?s3 else Inr ?s3) (\<lambda>s4. Inr (emit_event (ValidatorResigned ?a) s4)) = Inr s'"
    using r a by (simp add: resignValidator_def isValidatorRegistered_def Let_def s3 [unfolded update_validator_def] update_validator_def cong: if_cong)
  then obtain s1 where s1: "(if ?fee > 0 then pay_refund e ?fee ?s3 else Inr ?s3) = Inr s1" "s' = emit_event (ValidatorResigned ?a) s1" by (auto simp: sum_bind_Inr_iff)
  have "s1 = resigned_storage ?a s \<or> ce_receiver e (resigned_storage ?a s) = Some s1"
    using s1(1) by (auto simp: t pay_refund_def split: if_splits option.splits)
  then show thesis using that s1(2) resigned_storage_registry [OF assms(1) a] a(1) by blast
qed

end
