(* ===== verification/Contract_Rounds.thy ===== *)
theory Contract_Rounds
  imports Contract_Invariant "HOL-Library.Product_Lexorder" "HOL-Library.Multiset"
begin

text \<open>
  The rounds of the consensus contract: the linked list in which \<open>calculateRoundValidators\<close> collects the best validators, what a round consists of, and that it can be calculated.
\<close>

section \<open>The order of validators\<close>

definition rank :: "consensus_contract \<Rightarrow> address \<Rightarrow> nat \<times> int" where
  "rank s a = (vd_voteBalance (cc_validatorsData s a), - uint a)"

lemma isGreater_rank: "isGreater (validator_at s a) (validator_at s b) \<longleftrightarrow> rank s b < rank s a"
  by (auto simp: isGreater_def validator_at_def rank_def word_less_def)

lemma rank_inj: "rank s a = rank s b \<longleftrightarrow> a = b"
  by (auto simp: rank_def dest: word_uint_eqI)

section \<open>The list of the best\<close>

text \<open>One more candidate for the best \<open>n\<close>, of which the list has the lowest first.\<close>

definition pick :: "nat \<Rightarrow> (address \<Rightarrow> nat \<times> int) \<Rightarrow> address \<Rightarrow> address list \<Rightarrow> address list" where
  "pick n r a xs = (if length xs < n then insort_key r a xs else if r (hd xs) < r a then tl (insort_key r a xs) else xs)"

definition best_of :: "nat \<Rightarrow> (address \<Rightarrow> nat \<times> int) \<Rightarrow> address set \<Rightarrow> address list \<Rightarrow> bool" where
  "best_of n r A xs \<longleftrightarrow> sorted (map r xs) \<and> distinct xs \<and> set xs \<subseteq> A \<and> length xs = min n (card A) \<and> (\<forall>x \<in> set xs. \<forall>y \<in> A - set xs. r y < r x)"

lemma best_of_pick:
  assumes best: "best_of n r A xs" and "finite A" and "a \<notin> A" and inj: "\<And>x y. r x = r y \<longleftrightarrow> x = y" and "0 < n"
  shows "best_of n r (insert a A) (pick n r a xs)"
proof -
  have sub: "set xs \<subseteq> A" and d: "distinct xs" and so: "sorted (map r xs)" and len: "length xs = min n (card A)" using best by (auto simp: best_of_def)
  have above: "\<And>x y. x \<in> set xs \<Longrightarrow> y \<in> A \<Longrightarrow> y \<notin> set xs \<Longrightarrow> r y < r x" using best by (auto simp: best_of_def)
  have a: "a \<notin> set xs" using sub assms(3) by blast
  have card: "card (insert a A) = Suc (card A)" using assms(2,3) by simp
  show ?thesis
  proof (cases "length xs < n")
    case True
    then have "card (set xs) = card A" using len d by (simp add: distinct_card)
    then have "set xs = A" using sub assms(2) card_subset_eq by blast
    then show ?thesis using True so d a len card unfolding best_of_def pick_def
      by (simp add: sorted_insort_key distinct_insort set_insort_key)
  next
    case False
    then have n: "length xs = n" and big: "n \<le> card A" using len by auto
    then obtain h t where xs: "xs = h # t" using assms(5) by (cases xs) auto
    have low: "r h < r x" if "x \<in> set t" for x
    proof -
      have "r h \<le> r x" "h \<noteq> x" using so d xs that by auto
      then show ?thesis using inj [of h x] by auto
    qed
    show ?thesis
    proof (cases "r h < r a")
      case True
      then have p: "pick n r a xs = insort_key r a t" using False xs by (simp add: pick_def not_le [symmetric])
      have "r y < r x" if x: "x \<in> insert a (set t)" and y: "y \<in> insert a A" "y \<notin> insert a (set t)" for x y
      proof (cases "y = h")
        case False
        then have "y \<in> A" "y \<notin> set xs" using y xs by auto
        then have "r y < r h" "x \<in> set t \<Longrightarrow> r y < r x" using above xs by auto
        then show ?thesis using x True by auto
      qed (use low x True in auto)
      then show ?thesis using so d a n sub big card xs unfolding best_of_def p
        by (auto simp: sorted_insort_key distinct_insort set_insort_key)
    next
      case no: False
      then have p: "pick n r a xs = xs" using False xs by (simp add: pick_def)
      have ah: "r a < r h" using no inj [of a h] a xs by auto
      then have "r a < r x" if "x \<in> set xs" for x using low [of x] that xs by auto
      then show ?thesis using best len big card unfolding best_of_def p by auto
    qed
  qed
qed

lemma best_of_picks:
  assumes "best_of n r A xs" and "finite A" and "distinct as" and "A \<inter> set as = {}" and "\<And>x y. r x = r y \<longleftrightarrow> x = y" and "0 < n"
  shows "best_of n r (A \<union> set as) (fold (pick n r) as xs)"
  using assms(1-4)
proof (induction as arbitrary: A xs)
  case (Cons a as)
  then have "best_of n r (insert a A) (pick n r a xs)" using best_of_pick [of n r A xs a] assms(5,6) by auto
  then show ?case using Cons.IH [of "insert a A" "pick n r a xs"] Cons.prems by auto
qed simp

section \<open>The linked list\<close>

definition round_list :: "consensus_contract \<Rightarrow> address list \<Rightarrow> bool" where
  "round_list s xs \<longleftrightarrow> leads (cc_roundValidatorsMap s) (cc_roundValidatorsHead s) xs 0 \<and> distinct xs \<and> 0 \<notin> set xs \<and> (\<forall>a. a \<notin> set xs \<longrightarrow> cc_roundValidatorsMap s a = 0)"

lemma round_list_head: "round_list s xs \<Longrightarrow> cc_roundValidatorsHead s = 0 \<longleftrightarrow> xs = []"
  by (cases xs) (auto simp: round_list_def)

lemma insertAfter_list:
  assumes "round_list s (ys @ p # zs)" and "a \<notin> set (ys @ p # zs)" and "a \<noteq> 0"
  shows "round_list (insertAfter p a s) (ys @ p # a # zs)"
  using assms by (auto simp: round_list_def insertAfter_def Let_def)

lemma insertHead_list: "round_list s xs \<Longrightarrow> a \<notin> set xs \<Longrightarrow> a \<noteq> 0 \<Longrightarrow> round_list (insertHead a s) (a # xs)"
  by (auto simp: round_list_def insertHead_def)

lemma drop_lowest_list: "round_list s (x # xs) \<Longrightarrow> round_list (drop_lowest s) xs"
  by (auto simp: round_list_def drop_lowest_def Let_def)

text \<open>The search for the place of a validator ends, and inserts it where it belongs.\<close>

lemma insert_loop_list:
  assumes "round_list s (ys @ p # zs)" and "a \<notin> set (ys @ p # zs)" and "a \<noteq> 0" and "current = cc_roundValidatorsMap s p"
  shows "\<exists>q. insert_loop a current p s = Some (insertAfter q a s) \<and> round_list (insertAfter q a s) (ys @ p # insort_key (rank s) a zs)"
  using assms(1,2,4)
proof (induction zs arbitrary: ys p current)
  case Nil
  then have "current = 0" by (simp add: round_list_def)
  then show ?case using insertAfter_list [OF Nil.prems(1,2) assms(3)] by (auto simp: insert_loop.simps)
next
  case (Cons c zs)
  have c: "current = c" "c \<noteq> 0" using Cons.prems by (auto simp: round_list_def)
  show ?case
  proof (cases "rank s a < rank s c")
    case True
    then show ?thesis using insertAfter_list [OF Cons.prems(1,2) assms(3)] c by (auto simp: insert_loop.simps [of a c] isGreater_rank)
  next
    case False
    moreover have "a \<noteq> c" using Cons.prems(2) by auto
    ultimately have not: "\<not> rank s a \<le> rank s c" using rank_inj [of s a c] by (auto simp: le_less)
    obtain q where "insert_loop a (cc_roundValidatorsMap s c) c s = Some (insertAfter q a s)" "round_list (insertAfter q a s) ((ys @ [p]) @ c # insort_key (rank s) a zs)"
      using Cons.IH [of "ys @ [p]" c "cc_roundValidatorsMap s c"] Cons.prems by auto
    then show ?thesis using not False c by (auto simp: insert_loop.simps [of a c] isGreater_rank)
  qed
qed

lemma insertValidator_list:
  assumes l: "round_list s xs" and "xs \<noteq> []" and "a \<notin> set xs" and "a \<noteq> 0" and count: "cc_roundValidatorsCount s = length xs"
  shows "\<exists>s'. insertValidator a n s = Some s' \<and> round_list s' (let ys = insort_key (rank s) a xs in if length ys > n then tl ys else ys)
    \<and> cc_roundValidatorsCount s' = (if length xs + 1 > n then length xs else length xs + 1)"
proof -
  obtain h t where xs: "xs = h # t" using assms(2) by (cases xs) auto
  have head: "cc_roundValidatorsHead s = h" using l xs by (simp add: round_list_def)
  have "\<exists>s1. (if isGreater (validator_at s (cc_roundValidatorsHead s)) (validator_at s a) then Some (insertHead a s)
      else insert_loop a (cc_roundValidatorsMap s (cc_roundValidatorsHead s)) (cc_roundValidatorsHead s) s) = Some s1
      \<and> round_list s1 (insort_key (rank s) a xs) \<and> cc_roundValidatorsCount s1 = length xs + 1"
  proof (cases "rank s a < rank s h")
    case True
    then show ?thesis using insertHead_list [OF l assms(3,4)] head count xs by (auto simp: isGreater_rank insertHead_def)
  next
    case False
    then have no: "\<not> rank s a \<le> rank s h" using assms(3) xs rank_inj [of s a h] by (auto simp: le_less)
    obtain q where "insert_loop a (cc_roundValidatorsMap s h) h s = Some (insertAfter q a s)" "round_list (insertAfter q a s) (h # insort_key (rank s) a t)"
      using insert_loop_list [of s "[]" h t a "cc_roundValidatorsMap s h"] l assms(3,4) xs by auto
    then show ?thesis using False no head count xs by (auto simp: isGreater_rank insertAfter_def Let_def)
  qed
  then obtain s1 where s1: "insertValidator a n s = Some (if cc_roundValidatorsCount s1 > n then drop_lowest s1 else s1)"
    "round_list s1 (insort_key (rank s) a xs)" "cc_roundValidatorsCount s1 = length xs + 1" by (auto simp: insertValidator_def)
  obtain y ys where ys: "insort_key (rank s) a xs = y # ys" by (metis insort_not_Nil list.exhaust)
  have "length ys = length xs" using arg_cong [OF ys, of length] by simp
  moreover have "cc_roundValidatorsCount (drop_lowest s1) = cc_roundValidatorsCount s1 - 1" by (simp add: drop_lowest_def Let_def)
  ultimately show ?thesis using s1 drop_lowest_list [of s1 y ys] ys by (cases "n < length xs + 1") simp_all
qed

lemma consider_validator_list:
  assumes l: "round_list s xs" and "a \<notin> set xs" and "a \<noteq> 0" and "0 < n" and count: "cc_roundValidatorsCount s = length xs" and few: "length xs \<le> n"
    and can: "canBecomeActiveValidator a s"
  shows "\<exists>s'. consider_validator n a s = Some s' \<and> round_list s' (pick n (rank s) a xs) \<and> cc_roundValidatorsCount s' = length (pick n (rank s) a xs) \<and> length (pick n (rank s) a xs) \<le> n
    \<and> set (pick n (rank s) a xs) \<subseteq> insert a (set xs)"
proof (cases "xs = []")
  case True
  then have "cc_roundValidatorsHead s = 0" "\<forall>x. cc_roundValidatorsMap s x = 0" using l by (auto simp: round_list_def)
  then show ?thesis using True assms(3,4) can by (auto simp: consider_validator_def canBecomeActiveValidator_def pick_def round_list_def)
next
  case False
  have head: "cc_roundValidatorsHead s \<noteq> 0" "cc_roundValidatorsHead s = hd xs" using round_list_head [OF l] l False by (cases xs; auto simp: round_list_def)+
  obtain s' where s': "insertValidator a n s = Some s'" "round_list s' (let ys = insort_key (rank s) a xs in if length ys > n then tl ys else ys)"
    "cc_roundValidatorsCount s' = (if length xs + 1 > n then length xs else length xs + 1)" using insertValidator_list [OF l False assms(2,3) count] by blast
  have "set (tl (insort_key (rank s) a xs)) \<subseteq> insert a (set xs)" by (metis insort_not_Nil list.set_sel(2) set_insort_key subsetI)
  then show ?thesis using s' head can count l few by (auto simp: consider_validator_def canBecomeActiveValidator_def pick_def isGreater_rank set_insort_key split: if_splits)
qed

lemma other_fields_rank: "other_fields s' = other_fields s \<Longrightarrow> rank s' = rank s \<and> canBecomeActiveValidator a s' = canBecomeActiveValidator a s"
  using other_fields_same(1) [of s' s] by (auto simp: rank_def canBecomeActiveValidator_def fun_eq_iff)

lemma consider_validators_list:
  assumes "round_list s xs" and "0 < n" and "cc_roundValidatorsCount s = length xs" and "length xs \<le> n" and "distinct as" and "set as \<inter> set xs = {}" and "0 \<notin> set as"
    and "\<And>a. a \<in> set as \<Longrightarrow> canBecomeActiveValidator a s"
  shows "\<exists>s'. consider_validators n as s = Some s' \<and> round_list s' (fold (pick n (rank s)) as xs) \<and> cc_roundValidatorsCount s' = length (fold (pick n (rank s)) as xs)"
  using assms
proof (induction as arbitrary: s xs)
  case (Cons a as)
  obtain s1 where s1: "consider_validator n a s = Some s1" "round_list s1 (pick n (rank s) a xs)" "cc_roundValidatorsCount s1 = length (pick n (rank s) a xs)" "length (pick n (rank s) a xs) \<le> n"
    "set (pick n (rank s) a xs) \<subseteq> insert a (set xs)" using consider_validator_list [of s xs a n] Cons.prems by auto
  have "other_fields s1 = other_fields s" using consider_validators_writes [of n "[a]" s s1] s1(1) by simp
  note same = other_fields_rank [OF this]
  have "\<exists>s'. consider_validators n as s1 = Some s' \<and> round_list s' (fold (pick n (rank s1)) as (pick n (rank s) a xs)) \<and> cc_roundValidatorsCount s' = length (fold (pick n (rank s1)) as (pick n (rank s) a xs))"
    by (rule Cons.IH) (use s1 Cons.prems same in auto)
  then show ?case using s1(1) same by simp
qed auto

lemma delete_loop_list:
  "leads m p xs 0 \<Longrightarrow> distinct xs \<Longrightarrow> 0 \<notin> set xs \<Longrightarrow> delete_loop p m = Some (\<lambda>a. if a \<in> set xs then 0 else m a)"
proof (induction xs arbitrary: p m)
  case Nil
  then show ?case by (simp add: delete_loop.simps)
next
  case (Cons x xs)
  have "leads (m(x := 0)) (m x) xs 0" using Cons.prems by simp
  then have "delete_loop (m x) (m(x := 0)) = Some (\<lambda>a. if a \<in> set xs then 0 else (m(x := 0)) a)" by (rule Cons.IH) (use Cons.prems in simp_all)
  then show ?case using Cons.prems by (subst delete_loop.simps) (auto simp: fun_eq_iff)
qed

lemma follow_leads: "leads m p xs q \<Longrightarrow> follow m (length xs) p = xs"
  by (induction xs arbitrary: p) auto

section \<open>A round\<close>

lemma swap_mset: "i < length xs \<Longrightarrow> j < length xs \<Longrightarrow> mset (swap_elements i j xs) = mset xs \<and> length (swap_elements i j xs) = length xs"
  unfolding swap_elements_def by (simp add: mset_swap)

lemma shuffle_mset: "mset (shuffleMem random xs) = mset xs"
proof -
  have "mset (fold (\<lambda>i. swap_elements i (random i mod (i + 1))) is ys) = mset ys" if "\<forall>i \<in> set is. i < length ys" for "is" and ys :: "'a list"
    using that
  proof (induction "is" arbitrary: ys)
    case (Cons i "is")
    then have i: "i < length ys" by simp
    moreover have "random i mod (i + 1) < length ys" using i mod_less_divisor [of "i + 1" "random i"] by linarith
    ultimately show ?case using Cons swap_mset [of i ys "random i mod (i + 1)"] by simp
  qed simp
  then show ?thesis by (auto simp: shuffleMem_def)
qed

definition is_round :: "nat \<Rightarrow> consensus_contract \<Rightarrow> address list \<Rightarrow> bool" where
  "is_round n s xs \<longleftrightarrow> length xs = n \<and> distinct xs \<and> set xs \<subseteq> set (cc_activeValidators s) \<and> (\<forall>x \<in> set xs. \<forall>y \<in> set (cc_activeValidators s) - set xs. rank s y < rank s x)"

lemma calculate_result:
  assumes l: "round_list s xs0" and reg: "registry_ok K s" and owner: "ce_sender e = cc_owner s" and n: "0 < n"
  shows "if n \<le> length (cc_activeValidators s)
    then \<exists>s' xs ys. calculateRoundValidators e n s = Some (Inr s') \<and> is_round n s xs \<and> round_list s' ys
      \<and> s' = (s\<lparr>cc_minValidators := n, cc_roundValidatorsMap := cc_roundValidatorsMap s', cc_roundValidatorsHead := cc_roundValidatorsHead s', cc_roundValidatorsCount := n,
          cc_roundValidators := xs, cc_rounds := cc_rounds s @ [map (\<lambda>a. (a, vd_voteBalance (cc_validatorsData s a))) xs]\<rparr>)
    else calculateRoundValidators e n s = Some (Inl (InsufficientActiveValidators (length (cc_activeValidators s)) n))"
proof -
  let ?A = "cc_activeValidators s"
  let ?s1 = "s\<lparr>cc_minValidators := n, cc_roundValidatorsMap := \<lambda>_. 0, cc_roundValidatorsCount := 0, cc_roundValidatorsHead := 0\<rparr>"
  have A: "distinct ?A" "0 \<notin> set ?A" "\<And>a. a \<in> set ?A \<Longrightarrow> canBecomeActiveValidator a s" using reg by (auto simp: registry_ok_def array_ok_def)
  have "(\<lambda>a. if a \<in> set xs0 then 0 else cc_roundValidatorsMap s a) = (\<lambda>_. 0)" using l by (auto simp: round_list_def)
  then have del: "deleteRoundValidators (s\<lparr>cc_minValidators := n\<rparr>) = Some (s\<lparr>cc_minValidators := n, cc_roundValidatorsMap := \<lambda>_. 0, cc_roundValidatorsCount := 0\<rparr>)"
    using delete_loop_list [of "cc_roundValidatorsMap s" "cc_roundValidatorsHead s" xs0] l by (simp add: deleteRoundValidators_def round_list_def)
  have r: "rank ?s1 = rank s" by (simp add: rank_def fun_eq_iff)
  obtain s2 where s2: "consider_validators n ?A ?s1 = Some s2" "round_list s2 (fold (pick n (rank s)) ?A [])" "cc_roundValidatorsCount s2 = length (fold (pick n (rank s)) ?A [])"
    using consider_validators_list [of ?s1 "[]" n ?A] A n unfolding r by (auto simp: round_list_def canBecomeActiveValidator_def)
  let ?ys = "fold (pick n (rank s)) ?A []"
  have best: "best_of n (rank s) (set ?A) ?ys"
    using best_of_picks [of n "rank s" "{}" "[]" ?A] A(1) n rank_inj by (simp add: best_of_def)
  then have len: "length ?ys = min n (length ?A)" using A(1) by (simp add: best_of_def distinct_card)
  have calc: "calculateRoundValidators e n s = (if cc_roundValidatorsCount s2 < n then Some (Inl (InsufficientActiveValidators (cc_roundValidatorsCount s2) n))
      else let shuffledValidators = shuffleMem (ce_random e) (follow (cc_roundValidatorsMap s2) n (cc_roundValidatorsHead s2))
        in Some (Inr (s2\<lparr>cc_roundValidators := shuffledValidators, cc_rounds := cc_rounds s2 @ [map (\<lambda>addr. (addr, vd_voteBalance (cc_validatorsData s2 addr))) shuffledValidators]\<rparr>)))"
    using owner n del s2(1) by (simp add: calculateRoundValidators_def)
  show ?thesis
  proof (cases "n \<le> length ?A")
    case True
    then have ln: "length ?ys = n" using len by simp
    have fo: "follow (cc_roundValidatorsMap s2) n (cc_roundValidatorsHead s2) = ?ys" using follow_leads [of _ _ ?ys 0] s2(2) ln by (auto simp: round_list_def)
    let ?xs = "shuffleMem (ce_random e) ?ys"
    have perm: "set ?xs = set ?ys" "length ?xs = n" "distinct ?xs"
      using shuffle_mset [of "ce_random e" ?ys] ln best by (metis set_mset_mset) (metis ln shuffle_mset size_mset, metis best best_of_def mset_eq_imp_distinct_iff shuffle_mset)
    have of: "other_fields s2 = other_fields (s\<lparr>cc_minValidators := n\<rparr>)" using consider_validators_writes [OF s2(1)] by (simp add: other_fields_def)
    have s2': "s2 = s\<lparr>cc_minValidators := n, cc_roundValidatorsMap := cc_roundValidatorsMap s2, cc_roundValidatorsHead := cc_roundValidatorsHead s2, cc_roundValidatorsCount := n\<rparr>"
      using other_fields_same [OF of] s2(3) ln by (intro consensus_contract.equality) simp_all
    let ?s' = "s2\<lparr>cc_roundValidators := ?xs, cc_rounds := cc_rounds s2 @ [map (\<lambda>addr. (addr, vd_voteBalance (cc_validatorsData s2 addr))) ?xs]\<rparr>"
    have "calculateRoundValidators e n s = Some (Inr ?s')" using calc fo s2(3) ln by (simp add: Let_def)
    moreover have "is_round n s ?xs" using best perm by (simp add: is_round_def best_of_def)
    moreover have "round_list ?s' ?ys" using s2(2) by (simp add: round_list_def)
    moreover have "?s' = (s\<lparr>cc_minValidators := n, cc_roundValidatorsMap := cc_roundValidatorsMap ?s', cc_roundValidatorsHead := cc_roundValidatorsHead ?s', cc_roundValidatorsCount := n,
          cc_roundValidators := ?xs, cc_rounds := cc_rounds s @ [map (\<lambda>a. (a, vd_voteBalance (cc_validatorsData s a))) ?xs]\<rparr>)"
      using other_fields_same [OF of] s2(3) ln by (intro consensus_contract.equality) simp_all
    ultimately show ?thesis using True by auto
  next
    case False
    then show ?thesis using calc s2(3) len by simp
  qed
qed

end
