(* ===== verification/Contract_Reach.thy ===== *)
theory Contract_Reach
  imports Contract_Rounds
begin

text \<open>
  Every storage of the consensus contract that calls lead to, with the properties of the contract: votes are counted, rounds have the best validators, and a round can always be calculated.
\<close>

section \<open>The invariant\<close>

definition round_part :: "consensus_contract \<Rightarrow> (address \<Rightarrow> address) \<times> address \<times> address list \<times> (address \<times> nat) list list \<times> nat" where
  "round_part s = (cc_roundValidatorsMap s, cc_roundValidatorsHead s, cc_roundValidators s, cc_rounds s, cc_minValidators s)"

definition rounds_ok :: "consensus_contract \<Rightarrow> bool" where
  "rounds_ok s \<longleftrightarrow> (\<exists>xs. round_list s xs) \<and> (\<forall>r \<in> set (cc_rounds s). distinct (map fst r) \<and> r \<noteq> [])
     \<and> (cc_rounds s \<noteq> [] \<longrightarrow> cc_roundValidators s = map fst (last (cc_rounds s)) \<and> cc_minValidators s = length (last (cc_rounds s)))"

lemma rounds_ok_cong: "round_part s' = round_part s \<Longrightarrow> rounds_ok s' = rounds_ok s"
  by (simp add: round_part_def rounds_ok_def round_list_def)

lemma registry_round_part: "registry s' = registry s \<Longrightarrow> round_part s' = round_part s"
proof -
  have keep: "round_part (registry x) = round_part x" for x by (simp add: registry_def round_part_def)
  assume "registry s' = registry s"
  then show ?thesis using keep [of s] keep [of s'] by simp
qed

definition contract_inv :: "(bytes \<Rightarrow> bytes) \<Rightarrow> consensus_contract \<Rightarrow> bool" where
  "contract_inv K s \<longleftrightarrow> (\<exists>es. implements s es) \<and> registry_ok K s \<and> rounds_ok s"

lemma contract_inv_votes: "contract_inv K s \<Longrightarrow> registry s' = registry s \<Longrightarrow> implements s' es \<Longrightarrow> contract_inv K s'"
  using registry_ok_cong [of s' s K] rounds_ok_cong [OF registry_round_part, of s' s] unfolding contract_inv_def by blast

lemma initial_inv: "contract_inv K (contract_initialize sender registrationFee)"
proof -
  let ?s = "contract_initialize sender registrationFee"
  have "implements ?s []" by (simp add: implements_def voters_listed_def links_def contract_initialize_def no_vote_def no_validator_def)
  moreover have "registry_ok K ?s" by (simp add: registry_ok_def array_ok_def fees_held_def contract_initialize_def)
  moreover have "round_list ?s []" by (simp add: round_list_def contract_initialize_def)
  then have "rounds_ok ?s" by (auto simp: rounds_ok_def contract_initialize_def)
  ultimately show ?thesis by (auto simp: contract_inv_def)
qed

section \<open>Every call keeps it\<close>

lemma setFee_inv: "contract_inv K s \<Longrightarrow> setFee e registrationFee s = Inr s' \<Longrightarrow> contract_inv K s'"
proof -
  assume inv: "contract_inv K s" and r: "setFee e registrationFee s = Inr s'"
  then obtain es where es: "implements s es" by (auto simp: contract_inv_def)
  have s': "s' = s \<or> s' = emit_event (FeeUpdated registrationFee) (s\<lparr>cc_fee := registrationFee\<rparr>)" using r by (auto simp: setFee_def only_owner_def split: if_splits)
  have "implements (s\<lparr>cc_fee := registrationFee\<rparr>) es" by (rule implements_frame [OF es]) (use es in \<open>auto simp: implements_def\<close>)
  then have "implements s' es" using s' es by auto
  moreover have "registry s' = registry s" using s' by auto
  ultimately show ?thesis using contract_inv_votes [OF inv] by blast
qed

lemma addValidator_inv:
  assumes "contract_inv K s" and "addr \<noteq> 0" and r: "addValidator e addr resigned s = Inr s'"
  shows "contract_inv K s'"
proof -
  obtain es where es: "implements s es" using assms(1) by (auto simp: contract_inv_def)
  have new: "\<not> cc_hasValidator s addr" using r by (auto simp: addValidator_def only_owner_def split: if_splits)
  have s': "cc_voters s' = cc_voters s" "cc_votersHead s' = cc_votersHead s" "cc_votersTail s' = cc_votersTail s" "cc_votersCount s' = cc_votersCount s" "round_part s' = round_part s"
    "cc_hasValidator s' = (cc_hasValidator s)(addr := True)"
    "cc_validatorsData s' = (cc_validatorsData s)(addr := \<lparr>vd_voteBalance = 0, vd_fee = 0, vd_votersCount = 0, vd_isResigned = resigned, vd_blsPublicKey = []\<rparr>)"
    using r by (auto simp: addValidator_def only_owner_def Let_def emit_event_def round_part_def split: if_splits)
  have "implements s' es" by (rule implements_frame [OF es]) (use s' es implements_unregistered [OF es new] assms(2) in \<open>auto simp: implements_def\<close>)
  then show ?thesis using addValidator_registry [OF _ assms(2) r] assms(1) rounds_ok_cong [OF s'(5)] by (auto simp: contract_inv_def)
qed

lemma registerValidator_inv:
  assumes "contract_inv K s" and "ce_sender e \<noteq> 0" and "ce_keccak256 e = K" and r: "registerValidator e key proof_of s = Inr s'"
  shows "contract_inv K s'"
proof -
  obtain es where es: "implements s es" using assms(1) by (auto simp: contract_inv_def)
  have new: "\<not> cc_hasValidator s (ce_sender e)" using r by (auto simp: registerValidator_def split: if_splits)
  have s': "cc_voters s' = cc_voters s" "cc_votersHead s' = cc_votersHead s" "cc_votersTail s' = cc_votersTail s" "cc_votersCount s' = cc_votersCount s" "round_part s' = round_part s"
    "cc_hasValidator s' = (cc_hasValidator s)(ce_sender e := True)"
    "cc_validatorsData s' = (cc_validatorsData s)(ce_sender e := \<lparr>vd_voteBalance = 0, vd_fee = ce_value e, vd_votersCount = 0, vd_isResigned = False, vd_blsPublicKey = key\<rparr>)"
    using r by (auto simp: registerValidator_def sum_bind_Inr_iff Let_def emit_event_def addActiveValidator_def round_part_def dest!: verify_result split: if_splits)
  have "implements s' es" by (rule implements_frame [OF es]) (use s' es implements_unregistered [OF es new] assms(2) in \<open>auto simp: implements_def\<close>)
  then show ?thesis using registerValidator_registry [OF _ assms(2,3) r] assms(1) rounds_ok_cong [OF s'(5)] by (auto simp: contract_inv_def)
qed

lemma updateValidator_inv:
  assumes "contract_inv K s" and "ce_keccak256 e = K" and r: "updateValidator e key proof_of s = Inr s'"
  shows "contract_inv K s'"
proof -
  obtain es where es: "implements s es" using assms(1) by (auto simp: contract_inv_def)
  have s': "cc_voters s' = cc_voters s" "cc_votersHead s' = cc_votersHead s" "cc_votersTail s' = cc_votersTail s" "cc_votersCount s' = cc_votersCount s" "round_part s' = round_part s"
    "cc_hasValidator s' = cc_hasValidator s" "cc_validatorsData s' = (cc_validatorsData s)(ce_sender e := (cc_validatorsData s (ce_sender e))\<lparr>vd_blsPublicKey := key\<rparr>)"
    unfolding updateValidator_result(4) [OF r] by (simp_all add: emit_event_def addActiveValidator_def rekeyed_def update_validator_def round_part_def Let_def)
  have "implements s' es" by (rule implements_frame [OF es]) (use s' es in \<open>auto simp: implements_def\<close>)
  then show ?thesis using updateValidator_registry [OF _ assms(2) r] assms(1) rounds_ok_cong [OF s'(5)] by (auto simp: contract_inv_def)
qed

lemma resigned_storage_inv:
  assumes "contract_inv K s" and ok: "registry_ok K (resigned_storage a s)"
  shows "contract_inv K (resigned_storage a s)"
proof -
  obtain es where es: "implements s es" using assms(1) by (auto simp: contract_inv_def)
  let ?s2 = "(update_validator a (\<lambda>d. d\<lparr>vd_isResigned := True\<rparr>) s)\<lparr>cc_resignedValidatorsCount := Suc (cc_resignedValidatorsCount s)\<rparr>"
  have t: "resigned_storage a s = (removeActiveValidator a ?s2)\<lparr>cc_held := cc_held s - vd_fee (cc_validatorsData s a)\<rparr>" by (simp add: resigned_storage_def Let_def update_validator_def)
  have same: "cc_voters (resigned_storage a s) = cc_voters s" "cc_votersHead (resigned_storage a s) = cc_votersHead s" "cc_votersTail (resigned_storage a s) = cc_votersTail s"
    "cc_votersCount (resigned_storage a s) = cc_votersCount s" "round_part (resigned_storage a s) = round_part s" "cc_hasValidator (resigned_storage a s) = cc_hasValidator s"
    "cc_validatorsData (resigned_storage a s) = (cc_validatorsData s)(a := (cc_validatorsData s a)\<lparr>vd_isResigned := True\<rparr>)"
    unfolding t by (subst removeActive_frame; simp add: update_validator_def round_part_def)+
  have "implements (resigned_storage a s) es" by (rule implements_frame [OF es]) (use same es in \<open>auto simp: implements_def\<close>)
  then show ?thesis using assms rounds_ok_cong [OF same(5)] by (auto simp: contract_inv_def)
qed

lemma emit_inv: "contract_inv K s \<Longrightarrow> contract_inv K (emit_event ev s)"
  using contract_inv_votes [of K s "emit_event ev s"] by (auto simp: contract_inv_def)

lemma calculate_inv:
  assumes inv: "contract_inv K s" and r: "calculateRoundValidators e n s = Some (Inr s')"
  shows "contract_inv K s'"
proof -
  obtain es xs0 where es: "implements s es" and l: "round_list s xs0" and reg: "registry_ok K s" using inv by (auto simp: contract_inv_def rounds_ok_def)
  have pre: "ce_sender e = cc_owner s" "0 < n" using r by (auto simp: calculateRoundValidators_def split: if_splits)
  have many: "n \<le> length (cc_activeValidators s)" using calculate_result [OF l reg pre] r by (auto split: if_splits)
  then obtain xs ys where xs: "is_round n s xs" "round_list s' ys"
    and s': "s' = (s\<lparr>cc_minValidators := n, cc_roundValidatorsMap := cc_roundValidatorsMap s', cc_roundValidatorsHead := cc_roundValidatorsHead s', cc_roundValidatorsCount := n,
          cc_roundValidators := xs, cc_rounds := cc_rounds s @ [map (\<lambda>a. (a, vd_voteBalance (cc_validatorsData s a))) xs]\<rparr>)"
    using calculate_result [OF l reg pre] r by auto
  have same: "cc_voters s' = cc_voters s" "cc_votersHead s' = cc_votersHead s" "cc_votersTail s' = cc_votersTail s" "cc_votersCount s' = cc_votersCount s" "cc_hasValidator s' = cc_hasValidator s"
    "cc_validatorsData s' = cc_validatorsData s" "cc_activeValidators s' = cc_activeValidators s" "cc_activeValidatorIndex s' = cc_activeValidatorIndex s" "cc_validators s' = cc_validators s"
    "cc_blsPublicKeys s' = cc_blsPublicKeys s" "cc_held s' = cc_held s" "cc_resignedValidatorsCount s' = cc_resignedValidatorsCount s" "cc_minValidators s' = n" "cc_roundValidators s' = xs"
    "cc_rounds s' = cc_rounds s @ [map (\<lambda>a. (a, vd_voteBalance (cc_validatorsData s a))) xs]"
    by (subst s'; simp)+
  have "implements s' es" by (rule implements_frame [OF es]) (use same es in \<open>auto simp: implements_def\<close>)
  moreover have "registry_ok K s'" using reg many unfolding registry_ok_def array_ok_def canBecomeActiveValidator_def fees_held_def same by blast
  moreover have "rounds_ok s'" using inv xs pre(2) unfolding rounds_ok_def same by (auto simp: contract_inv_def rounds_ok_def is_round_def comp_def)
  ultimately show ?thesis by (auto simp: contract_inv_def)
qed

lemma steps_inv: "contract_steps K s0 s \<Longrightarrow> contract_inv K s0 \<Longrightarrow> contract_inv K s"
proof (induction rule: contract_steps.induct)
  case (votes_added s0 s voters e validators s')
  then obtain es where es: "implements s es" by (auto simp: contract_inv_def)
  have r: "add_votes e (zip voters validators) s = Inr s'" using votes_added.hyps by (auto simp: addVotes_def only_owner_def split: if_splits)
  have "0 \<notin> fst ` set (zip voters validators)" using votes_added.hyps(2) by (auto dest: set_zip_leftD)
  then show ?case using votes_added contract_inv_votes [OF _ add_votes_registry [OF r] add_votes_implements [OF es _ r]] by blast
next
  case (resigned s0 s e s')
  then have inv: "contract_inv K s" and reg: "registry_ok K s" by (auto simp: contract_inv_def)
  obtain s1 where s1: "s1 = resigned_storage (ce_sender e) s \<or> ce_receiver e (resigned_storage (ce_sender e) s) = Some s1" "s' = emit_event (ValidatorResigned (ce_sender e)) s1"
    and ok: "registry_ok K (resigned_storage (ce_sender e) s)" by (rule resign_result [OF reg resigned.hyps(4)])
  have "contract_inv K s1" using s1(1) resigned_storage_inv [OF inv ok] resigned.IH(2) by blast
  then show ?case using emit_inv s1(2) by simp
next
  case (voted s0 s e addr s')
  then show ?case using contract_inv_votes [OF _ voteFor_registry voteFor_implements] by (metis contract_inv_def)
next
  case (unvoted s0 s e s')
  then obtain es where es: "implements s es" by (auto simp: contract_inv_def)
  have r: "unvote_internal e s = Inr s'" using unvoted.hyps by (simp add: contract_unvote_def)
  then have "vt_validator (cc_voters s (ce_sender e)) \<noteq> 0" by (auto simp: unvote_internal_def)
  then have "implements s' (without (ce_sender e) es)" using unvote_implements [OF es, of e] r by auto
  then show ?case using unvoted contract_inv_votes [OF _ unvote_registry [OF r]] by blast
next
  case (voters_updated s0 s e voters s')
  then obtain es where es: "implements s es" by (auto simp: contract_inv_def)
  have r: "update_voters e voters s = Inr s'" using voters_updated.hyps by (auto simp: updateVoters_def only_owner_def split: if_splits)
  then show ?case using voters_updated contract_inv_votes [OF _ update_voters_registry [OF r] update_voters_implements [OF es r]] by blast
qed (blast intro: setFee_inv addValidator_inv registerValidator_inv updateValidator_inv calculate_inv)+

section \<open>What the votes say\<close>

abbreviation vote_of :: "consensus_contract \<Rightarrow> address \<Rightarrow> address" where
  "vote_of s a \<equiv> vt_validator (cc_voters s a)"

lemma voters_for:
  assumes "implements s es" and "d \<noteq> 0"
  shows "{a. vote_of s a = d} = fst ` set (ballots d es)" "card {a. vote_of s a = d} = length (ballots d es)" "finite {a. vote_of s a = d}"
proof -
  have "a \<in> fst ` set (ballots d es)" if v: "vote_of s a = d" for a
  proof -
    have "vote_of s a \<noteq> 0" using v assms(2) by simp
    then obtain es1 es2 where "es = es1 @ (a, vote_of s a, vt_balance (cc_voters s a)) # es2" by (rule implements_ballot [OF assms(1)])
    then have "(a, d, vt_balance (cc_voters s a)) \<in> set (ballots d es)" using v by (auto simp: ballots_def)
    then show ?thesis by force
  qed
  moreover have "vote_of s a = d" if "a \<in> fst ` set (ballots d es)" for a using that assms(1) by (auto simp: ballots_def implements_def)
  ultimately show eq: "{a. vote_of s a = d} = fst ` set (ballots d es)" by blast
  have "distinct (map fst (ballots d es))" unfolding ballots_def by (rule distinct_map_filter [OF implements_distinct [OF assms(1)]])
  then have "card (set (map fst (ballots d es))) = length (ballots d es)" using distinct_card by fastforce
  then show "card {a. vote_of s a = d} = length (ballots d es)" by (simp add: eq)
  show "finite {a. vote_of s a = d}" by (simp add: eq)
qed

lemma tally_sum:
  assumes "implements s es" and "d \<noteq> 0"
  shows "tally d es = (\<Sum>a | vote_of s a = d. vt_balance (cc_voters s a))"
proof -
  have bal: "vt_balance (cc_voters s (fst x)) = snd (snd x)" if "x \<in> set (ballots d es)" for x
    using that assms(1) by (auto simp: ballots_def implements_def)
  have d: "distinct (map fst (ballots d es))" unfolding ballots_def by (rule distinct_map_filter [OF implements_distinct [OF assms(1)]])
  have "tally d es = sum_list (map (\<lambda>a. vt_balance (cc_voters s a)) (map fst (ballots d es)))"
    unfolding tally_def using bal by (auto intro!: arg_cong [of _ _ sum_list])
  also have "\<dots> = (\<Sum>a \<in> set (map fst (ballots d es)). vt_balance (cc_voters s a))" by (rule sum_list_distinct_conv_sum_set [OF d])
  finally show ?thesis using voters_for(1) [OF assms] by simp
qed

text \<open>C16 (invariant). In every storage the contract can reach, the balance of votes of a validator is the sum of what is recorded of the voters who vote for it, its number of voters and the
  number of all votes are right, and a voter can always take the vote back.\<close>

theorem votes_are_counted:
  assumes "contract_steps K (contract_initialize owner registrationFee) s"
  shows "(\<forall>d. d \<noteq> 0 \<longrightarrow> vd_voteBalance (cc_validatorsData s d) = (\<Sum>a | vote_of s a = d. vt_balance (cc_voters s a)) \<and> vd_votersCount (cc_validatorsData s d) = card {a. vote_of s a = d})
    \<and> contract_getVotesCount s = card {a. vote_of s a \<noteq> 0} \<and> (\<forall>e. vote_of s (ce_sender e) \<noteq> 0 \<longrightarrow> (\<exists>s'. contract_unvote e s = Inr s' \<and> vote_of s' (ce_sender e) = 0))"
proof -
  obtain es where es: "implements s es" using steps_inv [OF assms initial_inv] by (auto simp: contract_inv_def)
  have "{a. vote_of s a \<noteq> 0} = set (map fst es)" using implements_voter [OF es] by auto
  moreover have "card (set (map fst es)) = length es" using distinct_card [OF implements_distinct [OF es]] by simp
  moreover have "contract_getVotesCount s = length es" using es by (simp add: contract_getVotesCount_def implements_def voters_listed_def)
  moreover have "\<exists>s'. contract_unvote e s = Inr s' \<and> vote_of s' (ce_sender e) = 0" if v: "vote_of s (ce_sender e) \<noteq> 0" for e
  proof -
    obtain s' where s': "unvote_internal e s = Inr s'" "implements s' (without (ce_sender e) es)" using unvote_implements [OF es v] by blast
    have "ce_sender e \<notin> fst ` set (without (ce_sender e) es)" by (auto simp: set_without)
    then show ?thesis using s' implements_voter [OF s'(2), of "ce_sender e"] by (auto simp: contract_unvote_def)
  qed
  ultimately show ?thesis using es voters_for(2) [OF es] tally_sum [OF es] by (auto simp: implements_def)
qed

section \<open>Following the accounts\<close>

lemma update_voters_writes:
  "update_voters e as s = Inr s' \<Longrightarrow> \<exists>f. s' = s\<lparr>cc_voters := \<lambda>a. if a \<in> set as \<and> vote_of s a \<noteq> 0 then (cc_voters s a)\<lparr>vt_balance := ce_balance e a\<rparr> else cc_voters s a,
     cc_validatorsData := \<lambda>d. (cc_validatorsData s d)\<lparr>vd_voteBalance := f d\<rparr>\<rparr>"
proof (induction as arbitrary: s)
  case Nil
  then show ?case by (intro exI [of _ "\<lambda>d. vd_voteBalance (cc_validatorsData s d)"]) simp
next
  case (Cons x as)
  obtain s1 where s1: "updateVoter e x s = Inr s1" "update_voters e as s1 = Inr s'" using Cons.prems by (auto simp: sum_bind_Inr_iff)
  have "\<exists>g. s1 = s\<lparr>cc_voters := \<lambda>a. if a = x \<and> vote_of s a \<noteq> 0 then (cc_voters s a)\<lparr>vt_balance := ce_balance e a\<rparr> else cc_voters s a,
     cc_validatorsData := \<lambda>d. (cc_validatorsData s d)\<lparr>vd_voteBalance := g d\<rparr>\<rparr>"
  proof (cases "vote_of s x = 0")
    case True
    then show ?thesis using s1(1) by (intro exI [of _ "\<lambda>d. vd_voteBalance (cc_validatorsData s d)"] consensus_contract.equality) (auto simp: updateVoter_def fun_eq_iff)
  next
    case False
    then obtain b where b: "s1 = update_vote x (\<lambda>v. v\<lparr>vt_balance := ce_balance e x\<rparr>) (update_validator (vote_of s x) (\<lambda>d. d\<lparr>vd_voteBalance := b\<rparr>) s)"
      using s1(1) by (auto simp: updateVoter_def Let_def sum_bind_Inr_iff split: if_splits)
    show ?thesis by (intro exI [of _ "\<lambda>d. if d = vote_of s x then b else vd_voteBalance (cc_validatorsData s d)"] consensus_contract.equality)
      (use False in \<open>auto simp: b contract_steps_simps fun_eq_iff\<close>)
  qed
  then obtain g where g: "s1 = s\<lparr>cc_voters := \<lambda>a. if a = x \<and> vote_of s a \<noteq> 0 then (cc_voters s a)\<lparr>vt_balance := ce_balance e a\<rparr> else cc_voters s a,
     cc_validatorsData := \<lambda>d. (cc_validatorsData s d)\<lparr>vd_voteBalance := g d\<rparr>\<rparr>" by blast
  obtain f where f: "s' = s1\<lparr>cc_voters := \<lambda>a. if a \<in> set as \<and> vote_of s1 a \<noteq> 0 then (cc_voters s1 a)\<lparr>vt_balance := ce_balance e a\<rparr> else cc_voters s1 a,
     cc_validatorsData := \<lambda>d. (cc_validatorsData s1 d)\<lparr>vd_voteBalance := f d\<rparr>\<rparr>" using Cons.IH [OF s1(2)] by blast
  show ?case by (intro exI [of _ f] consensus_contract.equality) (auto simp: f g fun_eq_iff)
qed

text \<open>C17 (functional). When the accounts a block touched are passed to \<open>updateVoters\<close> - among them every voter whose balance is not the recorded one - the balance of votes of each validator
  is the sum of the balances of its voters. The order in which they are passed, which differs between nodes, does not matter.\<close>

theorem vote_balances_follow_accounts:
  assumes reach: "contract_steps K (contract_initialize owner registrationFee) s" and r: "updateVoters e as s = Inr s'"
    and touched: "\<And>a. vote_of s a \<noteq> 0 \<Longrightarrow> vt_balance (cc_voters s a) \<noteq> ce_balance e a \<Longrightarrow> a \<in> set as"
  shows "(\<forall>d. d \<noteq> 0 \<longrightarrow> vd_voteBalance (cc_validatorsData s' d) = (\<Sum>a | vote_of s a = d. ce_balance e a))
    \<and> (\<forall>bs s''. set bs = set as \<longrightarrow> updateVoters e bs s = Inr s'' \<longrightarrow> s'' = s')"
proof -
  obtain es where es: "implements s es" using steps_inv [OF reach initial_inv] by (auto simp: contract_inv_def)
  have closed: "t = s\<lparr>cc_voters := \<lambda>a. if a \<in> set bs \<and> vote_of s a \<noteq> 0 then (cc_voters s a)\<lparr>vt_balance := ce_balance e a\<rparr> else cc_voters s a,
      cc_validatorsData := \<lambda>d. (cc_validatorsData s d)\<lparr>vd_voteBalance := tally d (update_all (ce_balance e) bs es)\<rparr>\<rparr> \<and> implements t (update_all (ce_balance e) bs es)"
    if "updateVoters e bs s = Inr t" for bs t
  proof -
    have u: "update_voters e bs s = Inr t" using that by (auto simp: updateVoters_def only_owner_def split: if_splits)
    obtain f where f: "t = s\<lparr>cc_voters := \<lambda>a. if a \<in> set bs \<and> vote_of s a \<noteq> 0 then (cc_voters s a)\<lparr>vt_balance := ce_balance e a\<rparr> else cc_voters s a,
      cc_validatorsData := \<lambda>d. (cc_validatorsData s d)\<lparr>vd_voteBalance := f d\<rparr>\<rparr>" using update_voters_writes [OF u] by blast
    have imp: "implements t (update_all (ce_balance e) bs es)" by (rule update_voters_implements [OF es u])
    then have "f d = tally d (update_all (ce_balance e) bs es)" for d by (simp add: implements_def f)
    then show ?thesis using f imp by simp
  qed
  note s' = closed [OF r]
  have votes: "vote_of s' a = vote_of s a" for a using s' by simp
  have bal: "vt_balance (cc_voters s' a) = ce_balance e a" if "vote_of s a \<noteq> 0" for a
    using conjunct1 [OF s'] touched [OF that] that by (cases "a \<in> set as") auto
  have "vd_voteBalance (cc_validatorsData s' d) = (\<Sum>a | vote_of s a = d. ce_balance e a)" if "d \<noteq> 0" for d
  proof -
    have "vd_voteBalance (cc_validatorsData s' d) = (\<Sum>a | vote_of s' a = d. vt_balance (cc_voters s' a))"
      using conjunct2 [OF s'] tally_sum [OF conjunct2 [OF s'] that] by (simp add: implements_def)
    also have "\<dots> = (\<Sum>a | vote_of s a = d. ce_balance e a)" unfolding votes by (rule sum.cong) (use bal that in auto)
    finally show ?thesis .
  qed
  moreover have "s'' = s'" if "set bs = set as" "updateVoters e bs s = Inr s''" for bs s''
    using conjunct1 [OF s'] conjunct1 [OF closed [OF that(2)]] that(1) by (simp add: update_all_ballots)
  ultimately show ?thesis by blast
qed

section \<open>Rounds\<close>

text \<open>C14 (functional). Calculating a round always ends. With enough active validators the round has exactly \<open>n\<close> of them, all different, and nobody left out has more votes than one in it; otherwise it
  reverts and says how many there are.\<close>

theorem round_has_the_best:
  assumes "contract_steps K (contract_initialize owner registrationFee) s" and "ce_sender e = cc_owner s" and "0 < n"
  shows "if n \<le> length (cc_activeValidators s)
    then \<exists>s'. calculateRoundValidators e n s = Some (Inr s') \<and> length (cc_roundValidators s') = n \<and> distinct (cc_roundValidators s')
      \<and> (\<forall>a \<in> set (cc_roundValidators s'). a \<in> set (cc_activeValidators s))
      \<and> (\<forall>a \<in> set (cc_roundValidators s'). \<forall>b \<in> set (cc_activeValidators s) - set (cc_roundValidators s'). isGreater (validator_at s a) (validator_at s b))
      \<and> cc_rounds s' = cc_rounds s @ [map (\<lambda>a. (a, vd_voteBalance (cc_validatorsData s a))) (cc_roundValidators s')] \<and> cc_voters s' = cc_voters s \<and> cc_validatorsData s' = cc_validatorsData s
    else calculateRoundValidators e n s = Some (Inl (InsufficientActiveValidators (length (cc_activeValidators s)) n))"
proof -
  obtain xs0 where l: "round_list s xs0" and reg: "registry_ok K s" using steps_inv [OF assms(1) initial_inv] by (auto simp: contract_inv_def rounds_ok_def)
  note result = calculate_result [OF l reg assms(2,3)]
  show ?thesis
  proof (cases "n \<le> length (cc_activeValidators s)")
    case True
    then obtain s' xs where r: "calculateRoundValidators e n s = Some (Inr s')" and xs: "is_round n s xs"
      and s': "s' = (s\<lparr>cc_minValidators := n, cc_roundValidatorsMap := cc_roundValidatorsMap s', cc_roundValidatorsHead := cc_roundValidatorsHead s', cc_roundValidatorsCount := n,
          cc_roundValidators := xs, cc_rounds := cc_rounds s @ [map (\<lambda>a. (a, vd_voteBalance (cc_validatorsData s a))) xs]\<rparr>)" using result by auto
    have "cc_roundValidators s' = xs" "cc_rounds s' = cc_rounds s @ [map (\<lambda>a. (a, vd_voteBalance (cc_validatorsData s a))) xs]" "cc_voters s' = cc_voters s" "cc_validatorsData s' = cc_validatorsData s"
      by (subst s'; simp)+
    then show ?thesis using True r xs by (auto simp: is_round_def isGreater_rank)
  qed (use result in simp)
qed

text \<open>C15 (liveness). Once there is a round, a round of the same or a smaller size can be calculated in every later storage: no sequence of calls - resignations, changed keys, votes - can make it revert.\<close>

theorem round_can_be_calculated:
  assumes "contract_steps K (contract_initialize owner registrationFee) s" and "ce_sender e = cc_owner s" and "0 < n" and "cc_rounds s \<noteq> []" and "n \<le> length (last (cc_rounds s))"
  shows "\<exists>s'. calculateRoundValidators e n s = Some (Inr s')"
proof -
  have inv: "contract_inv K s" by (rule steps_inv [OF assms(1) initial_inv])
  then obtain xs0 where l: "round_list s xs0" and reg: "registry_ok K s" and ok: "rounds_ok s" by (auto simp: contract_inv_def rounds_ok_def)
  have "n \<le> cc_minValidators s" using ok assms(4,5) by (simp add: rounds_ok_def)
  then have "n \<le> length (cc_activeValidators s)" using reg assms(4) by (simp add: registry_ok_def)
  then show ?thesis using calculate_result [OF l reg assms(2,3)] by auto
qed

text \<open>No two validators have the same key, the contract holds the fees of all validators that may still resign, and a validator that may resign gets its fee.\<close>

lemma validators_have_their_own_keys:
  assumes "contract_steps K (contract_initialize owner registrationFee) s" and "cc_hasValidator s a" and "cc_hasValidator s b"
    and "vd_blsPublicKey (cc_validatorsData s a) = vd_blsPublicKey (cc_validatorsData s b)" and "vd_blsPublicKey (cc_validatorsData s a) \<noteq> []"
  shows "a = b"
  using steps_inv [OF assms(1) initial_inv] assms(2-5) unfolding contract_inv_def registry_ok_def by blast

lemma refund_is_covered:
  assumes "contract_steps K (contract_initialize owner registrationFee) s" and "cc_hasValidator s (ce_sender e)" and "\<not> vd_isResigned (cc_validatorsData s (ce_sender e))"
    and "cc_minValidators s < length (cc_activeValidators s)" and "\<And>x. ce_receiver e x \<noteq> None"
  shows "\<exists>s'. resignValidator e s = Inr s'"
proof -
  let ?s2 = "(update_validator (ce_sender e) (\<lambda>d. d\<lparr>vd_isResigned := True\<rparr>) s)\<lparr>cc_resignedValidatorsCount := Suc (cc_resignedValidatorsCount s)\<rparr>"
  have "vd_fee (cc_validatorsData s (ce_sender e)) \<le> cc_held s"
    by (rule resigned_storage_registry(2) [of K]) (use steps_inv [OF assms(1) initial_inv] assms(2-4) in \<open>auto simp: contract_inv_def\<close>)
  moreover have "vd_fee (cc_validatorsData (removeActiveValidator (ce_sender e) ?s2) (ce_sender e)) = vd_fee (cc_validatorsData s (ce_sender e))" "cc_held (removeActiveValidator (ce_sender e) ?s2) = cc_held s"
    by (subst removeActive_frame; simp add: update_validator_def)+
  moreover obtain rc where "\<And>x. ce_receiver e x = Some (rc x)" using that [of "\<lambda>x. the (ce_receiver e x)"] assms(5) by auto
  ultimately show ?thesis using assms(2-4)
    by (auto simp: resignValidator_def isValidatorRegistered_def Let_def pay_refund_def update_validator_def split: option.splits cong: if_cong)
qed

section \<open>A sample contract\<close>

text \<open>Two validators, 1 and 2, and two voters, 4 with a balance of 100 and 5 with 50. The owner is 9.\<close>

definition sample_call :: "address \<Rightarrow> contract_call" where
  "sample_call sender = \<lparr>ce_sender = sender, ce_value = 0, ce_balance = \<lambda>a. if a = 4 then 100 else if a = 5 then 50 else 0, ce_chainid = [], ce_random = \<lambda>i. i, ce_keccak256 = \<lambda>x. x,
     ce_popVerify = \<lambda>_. Some (replicate 31 0 @ [1]), ce_receiver = Some\<rparr>"

definition sample_key :: "8 word \<Rightarrow> bytes" where
  "sample_key b = replicate 48 b"

definition sample_validator :: "nat \<Rightarrow> nat \<Rightarrow> 8 word \<Rightarrow> validator_data" where
  "sample_validator balance voters b = \<lparr>vd_voteBalance = balance, vd_fee = 0, vd_votersCount = voters, vd_isResigned = False, vd_blsPublicKey = sample_key b\<rparr>"

definition registered_storage :: consensus_contract where
  "registered_storage = (contract_initialize 9 0)\<lparr>cc_validatorsData := (\<lambda>_. no_validator)(1 := sample_validator 0 0 1, 2 := sample_validator 0 0 2),
     cc_hasValidator := (\<lambda>_. False)(1 := True, 2 := True), cc_blsPublicKeys := (\<lambda>_. False)(sample_key 1 := True, sample_key 2 := True), cc_validators := [1, 2], cc_activeValidators := [1, 2],
     cc_activeValidatorIndex := (\<lambda>_. 0)(1 := 0, 2 := 1), cc_log := [ValidatorRegistered 1 (sample_key 1), ValidatorRegistered 2 (sample_key 2)]\<rparr>"

definition voted_storage :: consensus_contract where
  "voted_storage = registered_storage\<lparr>cc_validatorsData := (\<lambda>_. no_validator)(1 := sample_validator 100 1 1, 2 := sample_validator 50 1 2),
     cc_voters := (\<lambda>_. no_vote)(4 := \<lparr>vt_validator = 1, vt_balance = 100, vt_prev = 0, vt_next = 5\<rparr>, 5 := \<lparr>vt_validator = 2, vt_balance = 50, vt_prev = 4, vt_next = 0\<rparr>),
     cc_votersHead := 4, cc_votersTail := 5, cc_votersCount := 2, cc_log := cc_log registered_storage @ [Voted 4 1, Voted 5 2]\<rparr>"

lemmas sample_simps = sample_call_def sample_validator_def registered_storage_def contract_initialize_def no_validator_def no_vote_def

lemma sample_registered: "contract_steps (\<lambda>x. x) (contract_initialize 9 0) registered_storage"
proof -
  have one: "registerValidator (sample_call 1) (sample_key 1) (replicate 96 0) (contract_initialize 9 0) = Inr ((contract_initialize 9 0)\<lparr>cc_validatorsData := (\<lambda>_. no_validator)(1 := sample_validator 0 0 1),
     cc_hasValidator := (\<lambda>_. False)(1 := True), cc_blsPublicKeys := (\<lambda>_. False)(sample_key 1 := True), cc_validators := [1], cc_activeValidators := [1],
     cc_activeValidatorIndex := (\<lambda>_. 0)(1 := 0), cc_log := [ValidatorRegistered 1 (sample_key 1)]\<rparr>)" (is "_ = Inr ?s1")
    by (simp add: registerValidator_def pop_verify_def verifyAndRegisterBlsPublicKey_def addActiveValidator_def emit_event_def Let_def sample_simps sample_key_def)
  have two: "registerValidator (sample_call 2) (sample_key 2) (replicate 96 0) ?s1 = Inr registered_storage"
    by (simp add: registerValidator_def pop_verify_def verifyAndRegisterBlsPublicKey_def addActiveValidator_def emit_event_def Let_def sample_simps sample_key_def)
  show ?thesis
    by (rule contract_steps.registered [OF contract_steps.registered [OF contract_steps.no_step _ _ one] _ _ two]) (simp_all add: sample_call_def)
qed

lemma sample_voted: "contract_steps (\<lambda>x. x) (contract_initialize 9 0) voted_storage"
proof -
  have one: "contract_voteFor (sample_call 4) 1 registered_storage = Inr (registered_storage\<lparr>cc_validatorsData := (\<lambda>_. no_validator)(1 := sample_validator 100 1 1, 2 := sample_validator 0 0 2),
     cc_voters := (\<lambda>_. no_vote)(4 := \<lparr>vt_validator = 1, vt_balance = 100, vt_prev = 0, vt_next = 0\<rparr>),
     cc_votersHead := 4, cc_votersTail := 4, cc_votersCount := 1, cc_log := cc_log registered_storage @ [Voted 4 1]\<rparr>)" (is "_ = Inr ?s1")
    by (simp add: contract_voteFor_def isValidatorRegistered_def append_voter_def count_vote_def checked_add_def contract_steps_simps Let_def sample_simps sample_key_def fun_upd_twist)
  have two: "contract_voteFor (sample_call 5) 2 ?s1 = Inr voted_storage"
    by (simp add: contract_voteFor_def isValidatorRegistered_def append_voter_def count_vote_def checked_add_def contract_steps_simps Let_def sample_simps sample_key_def voted_storage_def fun_upd_twist)
  show ?thesis
    by (rule contract_steps.voted [OF contract_steps.voted [OF sample_registered _ one] _ two]) (simp_all add: sample_call_def)
qed

definition round_storage :: consensus_contract where
  "round_storage = voted_storage\<lparr>cc_minValidators := 2, cc_roundValidatorsMap := (\<lambda>_. 0)(2 := 1), cc_roundValidatorsHead := 2, cc_roundValidatorsCount := 2, cc_roundValidators := [2, 1],
     cc_rounds := [[(2, 50), (1, 100)]]\<rparr>"

lemma sample_calculated: "calculateRoundValidators (sample_call 9) 2 voted_storage = Some (Inr round_storage)"
  by (simp add: calculateRoundValidators_def deleteRoundValidators_def delete_loop.simps consider_validator_def insertValidator_def isGreater_def validator_at_def insertHead_def shuffleMem_def
      swap_elements_def numeral_2_eq_2 round_storage_def voted_storage_def sample_simps sample_key_def Let_def)

lemma sample_round: "contract_steps (\<lambda>x. x) (contract_initialize 9 0) round_storage"
  by (rule contract_steps.round_calculated [OF sample_voted sample_calculated])

theorem votes_are_counted_witness:
  "contract_getVotesCount voted_storage = 2 \<and> card {a. vote_of voted_storage a \<noteq> 0} = 2 \<and> vd_voteBalance (cc_validatorsData voted_storage 1) = 100
   \<and> (\<Sum>a | vote_of voted_storage a = 1. vt_balance (cc_voters voted_storage a)) = 100 \<and> (\<exists>s'. contract_unvote (sample_call 4) voted_storage = Inr s')"
proof -
  have "contract_getVotesCount voted_storage = 2" "vd_voteBalance (cc_validatorsData voted_storage 1) = 100" "vote_of voted_storage (ce_sender (sample_call 4)) \<noteq> 0"
    by (simp_all add: contract_getVotesCount_def voted_storage_def sample_simps)
  then show ?thesis using votes_are_counted [OF sample_voted] by force
qed

definition block_call :: contract_call where
  "block_call = (sample_call 9)\<lparr>ce_balance := \<lambda>a. if a = 4 then 70 else if a = 5 then 50 else 0\<rparr>"

theorem vote_balances_follow_accounts_witness:
  "\<exists>s'. updateVoters block_call [4, 9] voted_storage = Inr s' \<and> vd_voteBalance (cc_validatorsData s' 1) = (\<Sum>a | vote_of voted_storage a = 1. ce_balance block_call a)"
proof -
  obtain s' where s': "updateVoters block_call [4, 9] voted_storage = Inr s'"
    by (simp add: updateVoters_def only_owner_def updateVoter_def checked_add_def checked_sub_def contract_steps_simps block_call_def voted_storage_def sample_simps Let_def)
  have "a \<in> set [4, 9]" if "vote_of voted_storage a \<noteq> 0" "vt_balance (cc_voters voted_storage a) \<noteq> ce_balance block_call a" for a
    using that by (simp add: voted_storage_def sample_simps block_call_def split: if_splits)
  then show ?thesis using vote_balances_follow_accounts [OF sample_voted s'] s' by simp
qed

theorem round_has_the_best_witness:
  "\<exists>s'. calculateRoundValidators (sample_call 9) 1 voted_storage = Some (Inr s') \<and> cc_roundValidators s' = [1]"
proof -
  have call: "ce_sender (sample_call 9) = cc_owner voted_storage" "(0::nat) < 1" and act: "cc_activeValidators voted_storage = [1, 2]" by (simp_all add: voted_storage_def sample_simps)
  obtain s' where s': "calculateRoundValidators (sample_call 9) 1 voted_storage = Some (Inr s')" "length (cc_roundValidators s') = 1" "\<forall>a \<in> set (cc_roundValidators s'). a \<in> {1, 2}"
    "\<forall>a \<in> set (cc_roundValidators s'). \<forall>b \<in> {1, 2} - set (cc_roundValidators s'). isGreater (validator_at voted_storage a) (validator_at voted_storage b)"
    using round_has_the_best [OF sample_voted call] unfolding act by auto
  obtain a where a: "cc_roundValidators s' = [a]" using s'(2) by (cases "cc_roundValidators s'") auto
  have "\<not> isGreater (validator_at voted_storage 2) (validator_at voted_storage 1)" by (simp add: isGreater_def validator_at_def voted_storage_def sample_simps)
  then have "a = 1" using s'(3,4) a by auto
  then show ?thesis using s'(1) a by auto
qed

theorem round_can_be_calculated_witness: "cc_rounds round_storage \<noteq> [] \<and> (\<exists>s'. calculateRoundValidators (sample_call 9) 2 round_storage = Some (Inr s'))"
proof -
  have "cc_rounds round_storage \<noteq> []" "2 \<le> length (last (cc_rounds round_storage))" "ce_sender (sample_call 9) = cc_owner round_storage"
    by (simp_all add: round_storage_def voted_storage_def sample_simps)
  then show ?thesis using round_can_be_calculated [OF sample_round, of "sample_call 9" 2] by simp
qed

text \<open>A validator of the round that resigns stays in the round until the next one is calculated, so round validators need not be active.\<close>

definition small_round :: consensus_contract where
  "small_round = voted_storage\<lparr>cc_minValidators := 1, cc_roundValidatorsHead := 1, cc_roundValidatorsCount := 1, cc_roundValidators := [1], cc_rounds := [[(1, 100)]]\<rparr>"

lemma resigned_in_round:
  "calculateRoundValidators (sample_call 9) 1 voted_storage = Some (Inr small_round)
   \<and> (\<exists>s'. resignValidator (sample_call 1) small_round = Inr s' \<and> cc_roundValidators s' = [1] \<and> cc_activeValidators s' = [2])"
proof
  show "calculateRoundValidators (sample_call 9) 1 voted_storage = Some (Inr small_round)"
    by (simp add: calculateRoundValidators_def deleteRoundValidators_def delete_loop.simps consider_validator_def isGreater_def validator_at_def shuffleMem_def
      small_round_def voted_storage_def sample_simps sample_key_def Let_def)
  show "\<exists>s'. resignValidator (sample_call 1) small_round = Inr s' \<and> cc_roundValidators s' = [1] \<and> cc_activeValidators s' = [2]"
    by (simp add: resignValidator_def isValidatorRegistered_def removeActiveValidator_def isActiveValidator_def contract_steps_simps small_round_def voted_storage_def sample_simps sample_key_def Let_def)
qed

end
