(* ===== verification/Contract_Reader.thy ===== *)
theory Contract_Reader
  imports Contract_Reach
begin

text \<open>
  How the node reads the consensus contract (\<open>packages/evm-consensus/source/services\<close>): the caller, the service, and the iterators over votes and rounds, which ask for them in pages.
  The encoding of arguments and results is viem's and a parameter, \<open>abi\<close>. The contract does not change while it is read.
\<close>

section \<open>The caller\<close>

record abi =
  ab_show :: "address \<Rightarrow> string"
  ab_read :: "string \<Rightarrow> address"
  ab_hex :: "bytes \<Rightarrow> string"

definition view_result :: "string \<Rightarrow> contract_error + 'a \<Rightarrow> error + 'a" where
  "view_result functionName r = (case r of Inl _ \<Rightarrow> Inl (JsError (''Consensus contract call '' @ functionName @ '' failed'')) | Inr x \<Rightarrow> Inr x)"

section \<open>The iterator over votes\<close>

definition VOTES_PER_REQUEST :: nat where
  "VOTES_PER_REQUEST = 10000"

text \<open>A vote is the voter and the validator.\<close>

record votes_iterator =
  vi_address :: string
  vi_votes :: "(string \<times> string) list"
  vi_index :: nat

definition new_votes_iterator :: votes_iterator where
  "new_votes_iterator = \<lparr>vi_address = ''0x0000000000000000000000000000000000000000'', vi_votes = [], vi_index = 0\<rparr>"

definition iterator_getVotes :: "abi \<Rightarrow> contract_call \<Rightarrow> consensus_contract \<Rightarrow> votes_iterator \<Rightarrow> error + (string \<times> string) list" where
  "iterator_getVotes ab e s it =
     sum_bind (view_result ''getVotes'' (contract_getVotes e (ab_read ab (vi_address it)) VOTES_PER_REQUEST s)) (\<lambda>votes.
       Inr (map (\<lambda>(voter, validator). (ab_show ab voter, ab_show ab validator)) votes))"

text \<open>\<open>next()\<close>: \<open>None\<close> is \<open>done\<close>.\<close>

definition votes_next :: "abi \<Rightarrow> contract_call \<Rightarrow> consensus_contract \<Rightarrow> votes_iterator \<Rightarrow> error + ((string \<times> string) \<times> votes_iterator) option" where
  "votes_next ab e s it =
     sum_bind (if length (vi_votes it) = vi_index it
         then sum_bind (iterator_getVotes ab e s it) (\<lambda>votes.
           if votes = [] then Inr None else Inr (Some (it\<lparr>vi_votes := votes, vi_index := 0, vi_address := fst (last votes)\<rparr>)))
         else Inr (Some it)) (\<lambda>r.
       case r of None \<Rightarrow> Inr None | Some it1 \<Rightarrow> Inr (Some (vi_votes it1 ! vi_index it1, it1\<lparr>vi_index := vi_index it1 + 1\<rparr>)))"

text \<open>The loop \<open>for await\<close> over it.\<close>

partial_function (option) read_votes :: "abi \<Rightarrow> contract_call \<Rightarrow> consensus_contract \<Rightarrow> votes_iterator \<Rightarrow> (error + (string \<times> string) list) option" where
  "read_votes ab e s it =
     (case votes_next ab e s it of
        Inl err \<Rightarrow> Some (Inl err)
      | Inr None \<Rightarrow> Some (Inr [])
      | Inr (Some (v, it1)) \<Rightarrow> Option.bind (read_votes ab e s it1) (\<lambda>r. Some (sum_bind r (\<lambda>vs. Inr (v # vs)))))"

section \<open>The iterator over rounds\<close>

definition ROUNDS_PER_REQUEST :: nat where
  "ROUNDS_PER_REQUEST = 2500"

record rounds_iterator =
  ri_rounds :: "(nat \<times> (string \<times> int) list) list"
  ri_index :: nat
  ri_offset :: nat

definition new_rounds_iterator :: rounds_iterator where
  "new_rounds_iterator = \<lparr>ri_rounds = [], ri_index = 0, ri_offset = 0\<rparr>"

definition iterator_getRounds :: "abi \<Rightarrow> contract_call \<Rightarrow> consensus_contract \<Rightarrow> rounds_iterator \<Rightarrow> error + (nat \<times> (string \<times> int) list) list" where
  "iterator_getRounds ab e s it =
     sum_bind (view_result ''getRounds'' (contract_getRounds e (ri_offset it) ROUNDS_PER_REQUEST s)) (\<lambda>rounds.
       Inr (map (\<lambda>(r, validators). (r, map (\<lambda>(addr, voteBalance). (ab_show ab addr, int voteBalance)) validators)) rounds))"

definition rounds_next :: "abi \<Rightarrow> contract_call \<Rightarrow> consensus_contract \<Rightarrow> rounds_iterator \<Rightarrow> error + ((nat \<times> (string \<times> int) list) \<times> rounds_iterator) option" where
  "rounds_next ab e s it =
     sum_bind (if length (ri_rounds it) = ri_index it
         then sum_bind (iterator_getRounds ab e s it) (\<lambda>rounds.
           if rounds = [] then Inr None else Inr (Some (it\<lparr>ri_rounds := rounds, ri_index := 0, ri_offset := ri_offset it + length rounds\<rparr>)))
         else Inr (Some it)) (\<lambda>r.
       case r of None \<Rightarrow> Inr None | Some it1 \<Rightarrow> Inr (Some (ri_rounds it1 ! ri_index it1, it1\<lparr>ri_index := ri_index it1 + 1\<rparr>)))"

partial_function (option) read_rounds :: "abi \<Rightarrow> contract_call \<Rightarrow> consensus_contract \<Rightarrow> rounds_iterator \<Rightarrow> (error + (nat \<times> (string \<times> int) list) list) option" where
  "read_rounds ab e s it =
     (case rounds_next ab e s it of
        Inl err \<Rightarrow> Some (Inl err)
      | Inr None \<Rightarrow> Some (Inr [])
      | Inr (Some (r, it1)) \<Rightarrow> Option.bind (read_rounds ab e s it1) (\<lambda>x. Some (sum_bind x (\<lambda>rs. Inr (r # rs)))))"

section \<open>The service\<close>

definition wallet_of_validator :: "abi \<Rightarrow> contract_validator \<Rightarrow> validator_wallet" where
  "wallet_of_validator ab v =
     \<lparr>vw_address = ab_show ab (cv_addr v), vw_blsPublicKey = drop 2 (ab_hex ab (vd_blsPublicKey (cv_data v))), vw_voteBalance = int (vd_voteBalance (cv_data v)), vw_fee = vd_fee (cv_data v),
      vw_votersCount = vd_votersCount (cv_data v), vw_isResigned = vd_isResigned (cv_data v)\<rparr>"

definition service_getRoundValidators :: "abi \<Rightarrow> consensus_contract \<Rightarrow> error + validator_wallet list" where
  "service_getRoundValidators ab s = sum_bind (view_result ''getRoundValidators'' (Inr (contract_getRoundValidators s))) (\<lambda>validators. Inr (map (wallet_of_validator ab) validators))"

definition service_getAllValidators :: "abi \<Rightarrow> consensus_contract \<Rightarrow> error + validator_wallet list" where
  "service_getAllValidators ab s = sum_bind (view_result ''getAllValidators'' (Inr (contract_getAllValidators s))) (\<lambda>validators. Inr (map (wallet_of_validator ab) validators))"

definition consensus_service :: "abi \<Rightarrow> consensus_contract \<Rightarrow> contract_service" where
  "consensus_service ab s = \<lparr>ct_getRoundValidators = service_getRoundValidators ab s, ct_getAllValidators = service_getAllValidators ab s\<rparr>"

text \<open>What viem does with addresses: showing and reading them back, the null address, and different texts for different addresses.\<close>

definition abi_ok :: "abi \<Rightarrow> bool" where
  "abi_ok ab \<longleftrightarrow> (\<forall>a. ab_read ab (ab_show ab a) = a) \<and> ab_read ab ''0x0000000000000000000000000000000000000000'' = 0"

section \<open>Pages of votes\<close>

lemma votes_loop_leads:
  assumes "leads (\<lambda>a. vt_next (voters a)) p xs 0" and "0 \<notin> set xs" and "min k (length xs) \<le> room"
  shows "votes_loop voters k room p = Inr (map (\<lambda>a. (a, vt_validator (voters a))) (take k xs))"
  using assms
proof (induction k arbitrary: room p xs)
  case (Suc k)
  show ?case
  proof (cases xs)
    case (Cons a ys)
    then have "votes_loop voters k (room - 1) (vt_next (voters a)) = Inr (map (\<lambda>a. (a, vt_validator (voters a))) (take k ys))"
      using Suc.prems by (intro Suc.IH) auto
    then show ?thesis using Cons Suc.prems by auto
  qed (use Suc.prems in simp)
qed simp

definition votes_after :: "address \<Rightarrow> address list \<Rightarrow> address list \<Rightarrow> bool" where
  "votes_after a xs rest \<longleftrightarrow> a = 0 \<and> rest = xs \<or> (\<exists>before. xs = before @ a # rest)"

lemma contract_getVotes_page:
  assumes l: "voters_listed s xs" and "ce_sender e = cc_owner s" and after: "votes_after a xs rest"
  shows "contract_getVotes e a k s = Inr (map (\<lambda>x. (x, vote_of s x)) (take k rest))"
proof -
  have xs: "leads (next_voter s) (cc_votersHead s) xs 0" "0 \<notin> set xs" "cc_votersCount s = length xs" using l by (auto simp: voters_listed_def links_def)
  have start: "leads (next_voter s) (if a \<noteq> 0 then next_voter s a else cc_votersHead s) rest 0" "0 \<notin> set rest" "length rest \<le> length xs"
    using after xs by (auto simp: votes_after_def)
  show ?thesis using votes_loop_leads [OF start(1,2), of k "min k (cc_votersCount s)"] start(3) assms(2) xs(3)
    by (auto simp: contract_getVotes_def only_owner_def)
qed

section \<open>Iterators\<close>

text \<open>An iterator that has a list left, and the loop over it.\<close>

locale async_iterator =
  fixes nxt :: "'it \<Rightarrow> error + ('x \<times> 'it) option" and reading :: "'it \<Rightarrow> (error + 'x list) option" and left_over :: "'it \<Rightarrow> 'x list \<Rightarrow> bool"
  assumes loop: "reading it = (case nxt it of Inl err \<Rightarrow> Some (Inl err) | Inr None \<Rightarrow> Some (Inr [])
      | Inr (Some (x, it1)) \<Rightarrow> Option.bind (reading it1) (\<lambda>r. Some (sum_bind r (\<lambda>xs. Inr (x # xs)))))"
    and at_end: "left_over it [] \<Longrightarrow> nxt it = Inr None"
    and gives: "left_over it (x # xs) \<Longrightarrow> \<exists>it'. nxt it = Inr (Some (x, it')) \<and> left_over it' xs"
begin

lemma reads_all: "left_over it xs \<Longrightarrow> reading it = Some (Inr xs)"
proof (induction xs arbitrary: it)
  case Nil
  then show ?case by (subst loop) (simp add: at_end)
next
  case (Cons x xs)
  then obtain it' where it': "nxt it = Inr (Some (x, it'))" "left_over it' xs" using gives by blast
  then show ?case using Cons.IH [OF it'(2)] by (subst loop) simp
qed

end

text \<open>Votes: what is left of the page, and what comes after the last voter of it.\<close>

abbreviation shown_vote :: "abi \<Rightarrow> consensus_contract \<Rightarrow> address \<Rightarrow> string \<times> string" where
  "shown_vote ab s x \<equiv> (ab_show ab x, ab_show ab (vote_of s x))"

definition votes_left :: "abi \<Rightarrow> consensus_contract \<Rightarrow> address list \<Rightarrow> votes_iterator \<Rightarrow> (string \<times> string) list \<Rightarrow> bool" where
  "votes_left ab s xs it vs \<longleftrightarrow> vi_index it \<le> length (vi_votes it)
     \<and> (\<exists>rest. votes_after (ab_read ab (vi_address it)) xs rest \<and> vs = drop (vi_index it) (vi_votes it) @ map (shown_vote ab s) rest)"

lemma votes_next_page:
  assumes ab: "abi_ok ab" and l: "voters_listed s xs" and own: "ce_sender e = cc_owner s" and after: "votes_after (ab_read ab (vi_address it)) xs rest"
    and i: "vi_index it = length (vi_votes it)"
  shows "case rest of [] \<Rightarrow> votes_next ab e s it = Inr None
    | y # ys \<Rightarrow> \<exists>it'. votes_next ab e s it = Inr (Some (shown_vote ab s y, it')) \<and> votes_left ab s xs it' (map (shown_vote ab s) ys)"
proof -
  let ?page = "take VOTES_PER_REQUEST rest" and ?rest = "drop VOTES_PER_REQUEST rest"
  have page: "iterator_getVotes ab e s it = Inr (map (shown_vote ab s) ?page)"
    using contract_getVotes_page [OF l own after] by (simp add: iterator_getVotes_def view_result_def)
  show ?thesis
  proof (cases rest)
    case Nil
    then show ?thesis using page i by (simp add: votes_next_def)
  next
    case (Cons y ys)
    then obtain p where p: "?page = y # p" by (cases VOTES_PER_REQUEST) (auto simp: VOTES_PER_REQUEST_def)
    let ?it = "it\<lparr>vi_votes := map (shown_vote ab s) ?page, vi_index := 1, vi_address := ab_show ab (last ?page)\<rparr>"
    have nxt: "votes_next ab e s it = Inr (Some (shown_vote ab s y, ?it))" using page i p by (simp add: votes_next_def last_map)
    have split: "rest = butlast ?page @ last ?page # ?rest" using p by (metis append_butlast_last_id append_Cons append_Nil append_assoc append_take_drop_id list.discI)
    have "votes_after (last ?page) xs ?rest" using after split unfolding votes_after_def by (metis append.assoc append_Cons)
    then have "votes_after (ab_read ab (vi_address ?it)) xs ?rest" using ab by (simp add: abi_ok_def)
    moreover have "ys = p @ ?rest" using Cons p append_take_drop_id [of VOTES_PER_REQUEST rest] by simp
    ultimately have "votes_left ab s xs ?it (map (shown_vote ab s) ys)" using p by (auto simp: votes_left_def)
    then show ?thesis using nxt Cons by auto
  qed
qed

lemma votes_left_gives:
  assumes "abi_ok ab" and "voters_listed s xs" and "ce_sender e = cc_owner s"
  shows "votes_left ab s xs it [] \<Longrightarrow> votes_next ab e s it = Inr None"
    and "votes_left ab s xs it (v # vs) \<Longrightarrow> \<exists>it'. votes_next ab e s it = Inr (Some (v, it')) \<and> votes_left ab s xs it' vs"
proof -
  show "votes_next ab e s it = Inr None" if "votes_left ab s xs it []"
    using that votes_next_page [OF assms, of it "[]"] by (auto simp: votes_left_def)
  show "\<exists>it'. votes_next ab e s it = Inr (Some (v, it')) \<and> votes_left ab s xs it' vs" if left_over: "votes_left ab s xs it (v # vs)"
  proof -
    obtain rest where rest: "vi_index it \<le> length (vi_votes it)" "votes_after (ab_read ab (vi_address it)) xs rest" "v # vs = drop (vi_index it) (vi_votes it) @ map (shown_vote ab s) rest"
      using left_over by (auto simp: votes_left_def)
    show ?thesis
    proof (cases "vi_index it = length (vi_votes it)")
      case True
      then show ?thesis using votes_next_page [OF assms rest(2) True] rest(3) by (cases rest) auto
    next
      case False
      then have i: "vi_index it < length (vi_votes it)" using rest(1) by simp
      then have "v = vi_votes it ! vi_index it" "vs = drop (Suc (vi_index it)) (vi_votes it) @ map (shown_vote ab s) rest" using rest(3) by (simp_all add: Cons_nth_drop_Suc [symmetric])
      then show ?thesis using False i rest(2) by (auto simp: votes_next_def votes_left_def)
    qed
  qed
qed

text \<open>Rounds: what is left of the page, and what comes after the offset.\<close>

definition shown_round :: "abi \<Rightarrow> consensus_contract \<Rightarrow> nat \<Rightarrow> nat \<times> (string \<times> int) list" where
  "shown_round ab s i = (i + 1, map (\<lambda>(addr, voteBalance). (ab_show ab addr, int voteBalance)) (cc_rounds s ! i))"

definition rounds_left :: "abi \<Rightarrow> consensus_contract \<Rightarrow> rounds_iterator \<Rightarrow> (nat \<times> (string \<times> int) list) list \<Rightarrow> bool" where
  "rounds_left ab s it rs \<longleftrightarrow> ri_index it \<le> length (ri_rounds it)
     \<and> rs = drop (ri_index it) (ri_rounds it) @ map (shown_round ab s) [ri_offset it..<length (cc_rounds s)]"

lemma contract_getRounds_page:
  assumes "ce_sender e = cc_owner s" and "length (cc_rounds s) + n < 2 ^ 256"
  shows "contract_getRounds e offset n s = Inr (map (\<lambda>i. (i + 1, cc_rounds s ! i)) [offset..<min (length (cc_rounds s)) (offset + n)])"
proof -
  have shift: "map (\<lambda>i. (offset + i + 1, cc_rounds s ! (offset + i))) [0..<m] = map (\<lambda>i. (i + 1, cc_rounds s ! i)) [offset..<offset + m]" for m
    by (induction m) auto
  show ?thesis
  proof (cases "length (cc_rounds s) \<le> offset")
    case True
    then show ?thesis using assms(1) by (simp add: contract_getRounds_def only_owner_def Let_def)
  next
    case False
    then have "offset + n < 2 ^ 256" using assms(2) by linarith
    then have "contract_getRounds e offset n s = Inr (map (\<lambda>i. (offset + i + 1, cc_rounds s ! (offset + i))) [0..<(if offset + n > length (cc_rounds s) then length (cc_rounds s) - offset else n)])"
      using False assms(1) by (simp only: contract_getRounds_def only_owner_def Let_def checked_add_def simp_thms if_True if_False sum_bind.simps)
    moreover have "offset + (if offset + n > length (cc_rounds s) then length (cc_rounds s) - offset else n) = min (length (cc_rounds s)) (offset + n)" using False by auto
    ultimately show ?thesis unfolding shift by simp
  qed
qed

lemma rounds_left_gives:
  assumes own: "ce_sender e = cc_owner s" and few: "length (cc_rounds s) < 2 ^ 53"
  shows "rounds_left ab s it [] \<Longrightarrow> rounds_next ab e s it = Inr None"
    and "rounds_left ab s it (r # rs) \<Longrightarrow> \<exists>it'. rounds_next ab e s it = Inr (Some (r, it')) \<and> rounds_left ab s it' rs"
proof -
  let ?n = "length (cc_rounds s)"
  have "?n + ROUNDS_PER_REQUEST < 2 ^ 256" using few by (simp add: ROUNDS_PER_REQUEST_def)
  then have page: "iterator_getRounds ab e s it = Inr (map (shown_round ab s) [ri_offset it..<min ?n (ri_offset it + ROUNDS_PER_REQUEST)])" for it
    using contract_getRounds_page [OF own, of ROUNDS_PER_REQUEST "ri_offset it"] by (simp add: iterator_getRounds_def view_result_def shown_round_def)
  show "rounds_next ab e s it = Inr None" if "rounds_left ab s it []" for it
    using that page [of it] by (auto simp: rounds_left_def rounds_next_def)
  show "\<exists>it'. rounds_next ab e s it = Inr (Some (r, it')) \<and> rounds_left ab s it' rs" if left_over: "rounds_left ab s it (r # rs)" for it
  proof (cases "ri_index it = length (ri_rounds it)")
    case True
    let ?o = "ri_offset it"
    have all: "r # rs = map (shown_round ab s) [?o..<?n]" using left_over True by (simp add: rounds_left_def)
    then have o: "?o < ?n" by (cases "?o < ?n") auto
    obtain k where k: "?o < k" "k \<le> ?n" "iterator_getRounds ab e s it = Inr (map (shown_round ab s) [?o..<k])"
      using that [of "min ?n (?o + ROUNDS_PER_REQUEST)"] page [of it] o by (simp add: ROUNDS_PER_REQUEST_def)
    have r: "r = shown_round ab s ?o" "rs = map (shown_round ab s) [Suc ?o..<?n]" using all o by (simp_all add: upt_conv_Cons)
    let ?it = "it\<lparr>ri_rounds := map (shown_round ab s) [?o..<k], ri_index := 1, ri_offset := k\<rparr>"
    have nxt: "rounds_next ab e s it = Inr (Some (r, ?it))" using True k r(1) by (simp add: rounds_next_def)
    have "[Suc ?o..<?n] = [Suc ?o..<k] @ [k..<?n]" using k by (metis Suc_leI le_add_diff_inverse upt_add_eq_append)
    then have "rounds_left ab s ?it rs" using k(1) r(2) by (simp add: rounds_left_def upt_conv_Cons)
    then show ?thesis using nxt by blast
  next
    case False
    then have i: "ri_index it < length (ri_rounds it)" using left_over by (simp add: rounds_left_def)
    then have "r = ri_rounds it ! ri_index it" "rs = drop (Suc (ri_index it)) (ri_rounds it) @ map (shown_round ab s) [ri_offset it..<?n]"
      using left_over by (simp_all add: rounds_left_def Cons_nth_drop_Suc [symmetric])
    then show ?thesis using False i by (auto simp: rounds_next_def rounds_left_def)
  qed
qed

definition votes_reading :: "abi \<Rightarrow> contract_call \<Rightarrow> consensus_contract \<Rightarrow> votes_iterator \<Rightarrow> (string \<times> string) list \<Rightarrow> bool" where
  "votes_reading ab e s it vs \<longleftrightarrow> abi_ok ab \<and> ce_sender e = cc_owner s \<and> (\<exists>xs. voters_listed s xs \<and> votes_left ab s xs it vs)"

interpretation votes: async_iterator "votes_next ab e s" "read_votes ab e s" "votes_reading ab e s"
proof
  show "read_votes ab e s it = (case votes_next ab e s it of Inl err \<Rightarrow> Some (Inl err) | Inr None \<Rightarrow> Some (Inr [])
      | Inr (Some (x, it1)) \<Rightarrow> Option.bind (read_votes ab e s it1) (\<lambda>r. Some (sum_bind r (\<lambda>xs. Inr (x # xs)))))" for it by (rule read_votes.simps)
  show "votes_next ab e s it = Inr None" if "votes_reading ab e s it []" for it
    using that votes_left_gives(1) unfolding votes_reading_def by metis
  show "\<exists>it'. votes_next ab e s it = Inr (Some (x, it')) \<and> votes_reading ab e s it' xs" if "votes_reading ab e s it (x # xs)" for it x xs
    using that votes_left_gives(2) unfolding votes_reading_def by metis
qed

definition rounds_reading :: "abi \<Rightarrow> contract_call \<Rightarrow> consensus_contract \<Rightarrow> rounds_iterator \<Rightarrow> (nat \<times> (string \<times> int) list) list \<Rightarrow> bool" where
  "rounds_reading ab e s it rs \<longleftrightarrow> ce_sender e = cc_owner s \<and> length (cc_rounds s) < 2 ^ 53 \<and> rounds_left ab s it rs"

interpretation rounds: async_iterator "rounds_next ab e s" "read_rounds ab e s" "rounds_reading ab e s"
proof
  show "read_rounds ab e s it = (case rounds_next ab e s it of Inl err \<Rightarrow> Some (Inl err) | Inr None \<Rightarrow> Some (Inr [])
      | Inr (Some (x, it1)) \<Rightarrow> Option.bind (read_rounds ab e s it1) (\<lambda>r. Some (sum_bind r (\<lambda>xs. Inr (x # xs)))))" for it by (rule read_rounds.simps)
  show "rounds_next ab e s it = Inr None" if "rounds_reading ab e s it []" for it
    using that rounds_left_gives(1) unfolding rounds_reading_def by metis
  show "\<exists>it'. rounds_next ab e s it = Inr (Some (x, it')) \<and> rounds_reading ab e s it' xs" if "rounds_reading ab e s it (x # xs)" for it x xs
    using that rounds_left_gives(2) unfolding rounds_reading_def by metis
qed

section \<open>What the node reads\<close>

lemma abi_show_inj: "abi_ok ab \<Longrightarrow> ab_show ab a = ab_show ab b \<longleftrightarrow> a = b"
  unfolding abi_ok_def by metis

text \<open>C19 (termination). Reading the contract page by page ends: the loop over votes gives every vote exactly once, the loop over rounds every round in its order with its number.\<close>

theorem votes_and_rounds_are_read_once:
  assumes reach: "contract_steps K (contract_initialize owner registrationFee) s" and own: "ce_sender e = cc_owner s" and ab: "abi_ok ab" and few: "length (cc_rounds s) < 2 ^ 53"
  shows "(\<exists>vs. read_votes ab e s new_votes_iterator = Some (Inr vs) \<and> distinct (map fst vs) \<and> length vs = contract_getVotesCount s
      \<and> set vs = {(ab_show ab a, ab_show ab (vote_of s a)) | a. vote_of s a \<noteq> 0})
    \<and> (\<exists>rs. read_rounds ab e s new_rounds_iterator = Some (Inr rs) \<and> map fst rs = [1..<length (cc_rounds s) + 1]
      \<and> map snd rs = map (map (\<lambda>(addr, voteBalance). (ab_show ab addr, int voteBalance))) (cc_rounds s))"
proof -
  obtain es where es: "implements s es" using steps_inv [OF reach initial_inv] by (auto simp: contract_inv_def)
  let ?xs = "map fst es" let ?vs = "map (shown_vote ab s) ?xs"
  have l: "voters_listed s ?xs" using es by (simp add: implements_def)
  have "votes_reading ab e s new_votes_iterator ?vs"
    using own ab l by (auto simp: votes_reading_def votes_left_def new_votes_iterator_def abi_ok_def votes_after_def intro!: exI [of _ ?xs])
  then have "read_votes ab e s new_votes_iterator = Some (Inr ?vs)" by (rule votes.reads_all)
  moreover have "distinct (map fst ?vs)" using implements_distinct [OF es] abi_show_inj [OF ab] by (simp add: comp_def distinct_map inj_on_def)
  moreover have "length ?vs = contract_getVotesCount s" using l by (simp add: voters_listed_def contract_getVotesCount_def)
  moreover have "set ?vs = {(ab_show ab a, ab_show ab (vote_of s a)) | a. vote_of s a \<noteq> 0}" using implements_voter [OF es] by (auto simp: image_iff)
  moreover have "read_rounds ab e s new_rounds_iterator = Some (Inr (map (shown_round ab s) [0..<length (cc_rounds s)]))"
    by (rule rounds.reads_all) (use own few in \<open>simp add: rounds_reading_def rounds_left_def new_rounds_iterator_def\<close>)
  moreover have "map fst (map (shown_round ab s) [0..<length (cc_rounds s)]) = [1..<length (cc_rounds s) + 1]"
    by (simp add: shown_round_def comp_def map_Suc_upt del: upt_Suc)
  moreover have "map snd (map (shown_round ab s) [0..<length (cc_rounds s)]) = map (map (\<lambda>(addr, voteBalance). (ab_show ab addr, int voteBalance))) (cc_rounds s)"
    by (rule nth_equalityI) (simp_all add: shown_round_def)
  ultimately show ?thesis by blast
qed

definition sample_abi :: abi where
  "sample_abi = \<lparr>ab_show = \<lambda>a. if a = 0 then ''0x0000000000000000000000000000000000000000'' else replicate (unat a) CHR ''1'',
     ab_read = \<lambda>t. if t = ''0x0000000000000000000000000000000000000000'' then 0 else of_nat (length t), ab_hex = \<lambda>_. ''0x''\<rparr>"

lemma sample_abi_ok: "abi_ok sample_abi"
proof -
  have "replicate n CHR ''1'' \<noteq> ''0x0000000000000000000000000000000000000000''" for n by (cases n) auto
  then show ?thesis by (simp add: abi_ok_def sample_abi_def)
qed

theorem votes_and_rounds_are_read_once_witness:
  "(\<exists>vs. read_votes sample_abi (sample_call 9) round_storage new_votes_iterator = Some (Inr vs) \<and> length vs = 2)
   \<and> (\<exists>rs. read_rounds sample_abi (sample_call 9) round_storage new_rounds_iterator = Some (Inr rs) \<and> map fst rs = [1])"
proof -
  have "ce_sender (sample_call 9) = cc_owner round_storage" "length (cc_rounds round_storage) = 1" "contract_getVotesCount round_storage = 2"
    by (simp_all add: round_storage_def voted_storage_def sample_simps contract_getVotesCount_def)
  then show ?thesis using votes_and_rounds_are_read_once [OF sample_round _ sample_abi_ok, of "sample_call 9"] by auto
qed

section \<open>From the contract to the validator set of the node\<close>

lemma indexed_fst: "map fst (map (\<lambda>(v, i). (f v, i)) (zip ws [0..<length ws])) = map f ws"
  by (rule nth_equalityI) auto

lemma indexed_member: "i < length ws \<Longrightarrow> (f (ws ! i), i) \<in> set (map (\<lambda>(v, i). (f v, i)) (zip ws [0..<length ws]))"
  by (force simp: set_zip)

text \<open>C18 (functional). When the round of the next milestone was calculated, the validator set of the node takes exactly its validators, all different, each at the place the contract
  gave it, and knows its place by its address.\<close>

theorem round_reaches_the_validator_set:
  assumes reach: "contract_steps K (contract_initialize owner registrationFee) s" and r: "calculateRoundValidators e n s = Some (Inr s')" and ab: "abi_ok ab"
    and m: "milestone_of nc (so_configHeight st) = Inr m" "ms_roundValidators m = Some n"
  shows "\<exists>vs'. buildRoundValidators nc st (consensus_service ab s') vs = Done vs' \<and> map vw_address (vs_topValidators vs') = map (ab_show ab) (cc_roundValidators s')
    \<and> length (vs_topValidators vs') = n \<and> distinct (map vw_address (vs_topValidators vs')) \<and> (\<forall>v \<in> set (vs_topValidators vs'). \<not> vw_isResigned v)
    \<and> (\<forall>i < n. map_get (vs_indexByAddress vs') (ab_show ab (cc_roundValidators s' ! i)) = Some i)"
proof -
  have inv: "contract_inv K s" by (rule steps_inv [OF reach initial_inv])
  then obtain xs0 where l: "round_list s xs0" and reg: "registry_ok K s" by (auto simp: contract_inv_def rounds_ok_def)
  have pre: "ce_sender e = cc_owner s" "0 < n" using r by (auto simp: calculateRoundValidators_def split: if_splits)
  have many: "n \<le> length (cc_activeValidators s)" using calculate_result [OF l reg pre] r by (auto split: if_splits)
  then obtain xs where round_ok: "is_round n s xs"
    and s': "s' = (s\<lparr>cc_minValidators := n, cc_roundValidatorsMap := cc_roundValidatorsMap s', cc_roundValidatorsHead := cc_roundValidatorsHead s', cc_roundValidatorsCount := n,
          cc_roundValidators := xs, cc_rounds := cc_rounds s @ [map (\<lambda>a. (a, vd_voteBalance (cc_validatorsData s a))) xs]\<rparr>)"
    using calculate_result [OF l reg pre] r by auto
  have xs: "cc_roundValidators s' = xs" "cc_validatorsData s' = cc_validatorsData s" by (subst s'; simp)+
  have n: "length xs = n" "distinct xs" "set xs \<subseteq> set (cc_activeValidators s)" using round_ok by (auto simp: is_round_def)
  let ?ws = "map (wallet_of_validator ab) (contract_getRoundValidators s')"
  have addr: "map vw_address ?ws = map (ab_show ab) xs" by (simp add: contract_getRoundValidators_def validator_at_def wallet_of_validator_def xs comp_def)
  have dist: "distinct (map (ab_show ab) xs)" using n(2) abi_show_inj [OF ab] by (simp add: distinct_map inj_on_def)
  have "\<not> vd_isResigned (cc_validatorsData s a)" if "a \<in> set xs" for a using n(3) that reg by (auto simp: registry_ok_def canBecomeActiveValidator_def)
  then have run: "\<forall>v \<in> set ?ws. \<not> vw_isResigned v" by (auto simp: contract_getRoundValidators_def validator_at_def wallet_of_validator_def xs)
  let ?vs = "vs\<lparr>vs_topValidators := ?ws, vs_indexByAddress := map_of_entries (map (\<lambda>(v, i). (vw_address v, i)) (zip ?ws [0..<length ?ws]))\<rparr>"
  have lw: "length ?ws = n" using addr n(1) by (metis length_map)
  then have "buildRoundValidators nc st (consensus_service ab s') vs = Done ?vs"
    using m by (simp add: buildRoundValidators_def consensus_service_def service_getRoundValidators_def view_result_def Let_def)
  moreover have "map_get (vs_indexByAddress ?vs) (ab_show ab (xs ! i)) = Some i" if i: "i < n" for i
  proof -
    let ?entries = "map (\<lambda>(v, i). (vw_address v, i)) (zip ?ws [0..<length ?ws])"
    have fsts: "map fst ?entries = map (ab_show ab) xs" using indexed_fst [of vw_address ?ws] addr by simp
    have "vw_address (?ws ! i) = ab_show ab (xs ! i)" using arg_cong [OF addr, of "\<lambda>l. l ! i"] i lw n(1) by simp
    then have "(ab_show ab (xs ! i), i) \<in> set ?entries" using indexed_member [of i ?ws vw_address] i lw by simp
    then have "map_of (rev ?entries) (ab_show ab (xs ! i)) = Some i" using dist fsts by (subst map_of_eq_Some_iff) (simp_all add: rev_map [symmetric])
    then show ?thesis by (simp add: map_of_entries_get)
  qed
  ultimately show ?thesis using addr dist run lw by (auto simp: xs)
qed

definition sample_store :: state_store where
  "sample_store = \<lparr>so_genesisCommit = None, so_lastBlock = None, so_blockNumber = 6, so_totalRound = 0, so_configHeight = 7\<rparr>"

theorem round_reaches_the_validator_set_witness:
  "\<exists>vs'. buildRoundValidators sample_network sample_store (consensus_service sample_abi round_storage) empty_validator_set = Done vs' \<and> length (vs_topValidators vs') = 2
    \<and> map_get (vs_indexByAddress vs') (ab_show sample_abi 2) = Some 0"
proof -
  have m: "milestone_of sample_network (so_configHeight sample_store) = Inr (plain_milestone 7 2)" "ms_roundValidators (plain_milestone 7 2) = Some 2"
    by (simp_all add: milestone_of_def milestone_at_def sample_network_def sample_store_def plain_milestone_def)
  have "cc_roundValidators round_storage ! 0 = 2" by (simp add: round_storage_def)
  then show ?thesis using round_reaches_the_validator_set [OF sample_voted sample_calculated sample_abi_ok m, of empty_validator_set] by (metis zero_less_numeral)
qed

end
