(* ===== verification/Vote_Downloader.thy ===== *)
theory Vote_Downloader
  imports Node_Safety
begin

text \<open>
  How a node gets the votes and the proposal it misses: \<open>p2p/source/downloader/message-downloader.ts\<close> and
  \<open>proposal-downloader.ts\<close>, the headers they work on (\<open>header.ts\<close>), and the controllers of the peer that answers
  (\<open>get-messages.ts\<close>, \<open>get-proposal.ts\<close>).

  A download is a first half up to the request and a second half with the answer; in between other downloads start and end and
  headers change. The header of the node and the peers are arguments of each half. \<open>rv\<close> gives \<open>roundValidators\<close> of the milestone.
  The verdict of the consensus on a message, an exception included, is an argument.
\<close>

section \<open>Headers\<close>

text \<open>\<open>HeaderData\<close> without step and version, which no downloader reads.\<close>

record header_data =
  ph_blockNumber :: nat
  ph_round :: nat
  ph_proposedBlockHash :: "string option"
  ph_validatorsSignedPrevote :: "bool list"
  ph_validatorsSignedPrecommit :: "bool list"

record our_header =
  oh_blockNumber :: nat
  oh_round :: nat
  oh_proposal :: "proposal option"
  oh_validatorsSignedPrevote :: "bool list"
  oh_validatorsSignedPrecommit :: "bool list"

record peer =
  peer_ip :: string
  peer_header :: header_data

definition header_of_round :: "round_state \<Rightarrow> node \<Rightarrow> our_header" where
  "header_of_round rs s = \<lparr>oh_blockNumber = nd_blockNumber s, oh_round = nd_round s, oh_proposal = rs_proposal rs,
     oh_validatorsSignedPrevote = rs_validatorsSignedPrevote rs, oh_validatorsSignedPrecommit = rs_validatorsSignedPrecommit rs\<rparr>"

definition header_init :: "env \<Rightarrow> node \<Rightarrow> error + (our_header \<times> node)" where
  "header_init e s =
     sum_bind (getRoundState (createRoundState (ev_roundValidators e s) (ev_proposerIndex e s)) (current_ref s) (nd_repo s)) (\<lambda>(rs, repo).
       Inr (header_of_round rs s, s\<lparr>nd_repo := repo\<rparr>))"

definition header_toData :: "our_header \<Rightarrow> header_data" where
  "header_toData h = \<lparr>ph_blockNumber = oh_blockNumber h, ph_round = oh_round h, ph_proposedBlockHash = map_option (\<lambda>p. bh_hash (pr_blockHeader p)) (oh_proposal h),
     ph_validatorsSignedPrevote = oh_validatorsSignedPrevote h, ph_validatorsSignedPrecommit = oh_validatorsSignedPrecommit h\<rparr>"

definition signed_count :: "bool list \<Rightarrow> nat" where
  "signed_count flags = length (filter id flags)"

section \<open>Message downloader: state\<close>

text \<open>A \<open>Set<number>\<close> is the list of its elements.\<close>

definition set_add :: "nat \<Rightarrow> nat list \<Rightarrow> nat list" where
  "set_add r rs = (if r \<in> set rs then rs else rs @ [r])"

record downloads_by_round =
  dr_precommits :: "bool list"
  dr_prevotes :: "bool list"

record message_downloader =
  md_fullDownloads :: "(nat, nat list) jsmap"
  md_downloads :: "(nat, (nat, downloads_by_round) jsmap) jsmap"

record message_job =
  mj_isFullDownload :: bool
  mj_peer :: peer
  mj_ourHeader :: our_header
  mj_prevoteIndexes :: "nat list"
  mj_precommitIndexes :: "nat list"
  mj_round :: nat
  mj_blockNumber :: nat

definition messages_onApplied :: "nat \<Rightarrow> message_downloader \<Rightarrow> message_downloader" where
  "messages_onApplied number d = d\<lparr>md_downloads := map_delete (md_downloads d) number, md_fullDownloads := map_delete (md_fullDownloads d) number\<rparr>"

definition messages_isDownloading :: "message_downloader \<Rightarrow> bool" where
  "messages_isDownloading d \<longleftrightarrow> md_downloads d \<noteq> [] \<or> md_fullDownloads d \<noteq> []"

section \<open>Message downloader: what to ask for\<close>

definition getHighestRoundToDownload :: "(nat \<Rightarrow> nat) \<Rightarrow> our_header \<Rightarrow> header_data \<Rightarrow> nat" where
  "getHighestRoundToDownload rv ours theirs =
     (if ph_round theirs \<le> oh_round ours then ph_round theirs
      else if isMinority (signed_count (ph_validatorsSignedPrevote theirs)) (rv (oh_blockNumber ours)) then ph_round theirs
      else ph_round theirs - 1)"

definition canDownloadFullRound :: "nat \<Rightarrow> nat \<Rightarrow> message_downloader \<Rightarrow> bool" where
  "canDownloadFullRound number round d =
     (case map_get (md_fullDownloads d) number of None \<Rightarrow> True | Some rounds \<Rightarrow> rounds = [] \<or> round > Max (set rounds))"

definition setFullDownload :: "nat \<Rightarrow> nat \<Rightarrow> message_downloader \<Rightarrow> message_downloader" where
  "setFullDownload number round d =
     d\<lparr>md_fullDownloads := map_set (md_fullDownloads d) number
        (set_add round (case map_get (md_fullDownloads d) number of None \<Rightarrow> [] | Some rounds \<Rightarrow> rounds))\<rparr>"

text \<open>The marks of a round, and \<open>#getDownloadsByRound\<close>, which adds an entry without marks where there is none.\<close>

definition rounds_at :: "nat \<Rightarrow> message_downloader \<Rightarrow> (nat, downloads_by_round) jsmap" where
  "rounds_at number d = (case map_get (md_downloads d) number of None \<Rightarrow> [] | Some rounds \<Rightarrow> rounds)"

definition no_downloads :: "nat \<Rightarrow> downloads_by_round" where
  "no_downloads validators = \<lparr>dr_precommits = replicate validators False, dr_prevotes = replicate validators False\<rparr>"

definition put_downloads :: "nat \<Rightarrow> nat \<Rightarrow> downloads_by_round \<Rightarrow> message_downloader \<Rightarrow> message_downloader" where
  "put_downloads number round x d = d\<lparr>md_downloads := map_set (md_downloads d) number (map_set (rounds_at number d) round x)\<rparr>"

definition getDownloadsByRound :: "(nat \<Rightarrow> nat) \<Rightarrow> nat \<Rightarrow> nat \<Rightarrow> message_downloader \<Rightarrow> downloads_by_round \<times> message_downloader" where
  "getDownloadsByRound rv number round d =
     (case map_get (rounds_at number d) round of
        Some x \<Rightarrow> (x, d)
      | None \<Rightarrow> (no_downloads (rv number), put_downloads number round (no_downloads (rv number)) d))"

definition getIndexesToDownload :: "bool list \<Rightarrow> bool list \<Rightarrow> bool list \<Rightarrow> nat list" where
  "getIndexesToDownload ours theirs messages =
     filter (\<lambda>i. \<not> messages ! i \<and> js_array_get theirs i \<and> \<not> js_array_get ours i) [0..<length messages]"

definition getPrevoteIndexesToDownload :: "our_header \<Rightarrow> header_data \<Rightarrow> bool list \<Rightarrow> nat list" where
  "getPrevoteIndexesToDownload ours theirs = getIndexesToDownload (oh_validatorsSignedPrevote ours) (ph_validatorsSignedPrevote theirs)"

definition getPrecommitIndexesToDownload :: "our_header \<Rightarrow> header_data \<Rightarrow> bool list \<Rightarrow> nat list" where
  "getPrecommitIndexesToDownload ours theirs = getIndexesToDownload (oh_validatorsSignedPrecommit ours) (ph_validatorsSignedPrecommit theirs)"

definition messages_canDownload :: "(nat \<Rightarrow> nat) \<Rightarrow> our_header \<Rightarrow> header_data \<Rightarrow> message_downloader \<Rightarrow> bool \<times> message_downloader" where
  "messages_canDownload rv ours theirs d =
     (if oh_blockNumber ours \<noteq> ph_blockNumber theirs \<or> oh_round ours > ph_round theirs then (False, d)
      else let round = getHighestRoundToDownload rv ours theirs
           in if oh_round ours = round
              then (case getDownloadsByRound rv (ph_blockNumber theirs) (ph_round theirs) d of
                      (x, d1) \<Rightarrow> (getPrevoteIndexesToDownload ours theirs (dr_prevotes x) \<noteq> [] \<or> getPrecommitIndexesToDownload ours theirs (dr_precommits x) \<noteq> [], d1))
              else (canDownloadFullRound (ph_blockNumber theirs) round d, d))"

definition mark_all :: "bool \<Rightarrow> nat list \<Rightarrow> bool list \<Rightarrow> bool list" where
  "mark_all v is flags = fold (\<lambda>i xs. js_array_set xs i v) is flags"

definition setDownloadJob :: "message_job \<Rightarrow> downloads_by_round \<Rightarrow> downloads_by_round" where
  "setDownloadJob job x = \<lparr>dr_precommits = mark_all True (mj_precommitIndexes job) (dr_precommits x), dr_prevotes = mark_all True (mj_prevoteIndexes job) (dr_prevotes x)\<rparr>"

text \<open>\<open>download\<close> up to the request: the job that asks the peer, if any. \<open>busy\<close> is \<open>blockDownloader.isDownloading()\<close>.\<close>

definition messages_download :: "(nat \<Rightarrow> nat) \<Rightarrow> bool \<Rightarrow> our_header \<Rightarrow> peer \<Rightarrow> message_downloader \<Rightarrow> message_job option \<times> message_downloader" where
  "messages_download rv busy ours peer d =
     (if busy then (None, d)
      else case messages_canDownload rv ours (peer_header peer) d of
        (False, d1) \<Rightarrow> (None, d1)
      | (True, d1) \<Rightarrow>
          (let theirs = peer_header peer; round = getHighestRoundToDownload rv ours theirs
           in if oh_round ours = round then
                (case getDownloadsByRound rv (ph_blockNumber theirs) (ph_round theirs) d1 of
                   (x, d2) \<Rightarrow>
                     let job = \<lparr>mj_isFullDownload = False, mj_peer = peer, mj_ourHeader = ours,
                       mj_prevoteIndexes = getPrevoteIndexesToDownload ours theirs (dr_prevotes x),
                       mj_precommitIndexes = getPrecommitIndexesToDownload ours theirs (dr_precommits x), mj_round = round, mj_blockNumber = oh_blockNumber ours\<rparr>
                     in (Some job, put_downloads (ph_blockNumber theirs) (ph_round theirs) (setDownloadJob job x) d2))
              else if ph_round theirs > oh_round ours then
                (Some \<lparr>mj_isFullDownload = True, mj_peer = peer, mj_ourHeader = ours, mj_prevoteIndexes = [], mj_precommitIndexes = [],
                   mj_round = round, mj_blockNumber = oh_blockNumber ours\<rparr>, setFullDownload (ph_blockNumber theirs) round d1)
              else (None, d1)))"

fun filter_peers :: "(nat \<Rightarrow> nat) \<Rightarrow> our_header \<Rightarrow> peer list \<Rightarrow> message_downloader \<Rightarrow> peer list \<times> message_downloader" where
  "filter_peers rv ours [] d = ([], d)"
| "filter_peers rv ours (p # ps) d =
     (case messages_canDownload rv ours (peer_header p) d of
        (can, d1) \<Rightarrow> (case filter_peers rv ours ps d1 of (qs, d2) \<Rightarrow> (if can then p # qs else qs, d2)))"

definition getRandomPeer :: "(peer list \<Rightarrow> nat) \<Rightarrow> peer list \<Rightarrow> peer" where
  "getRandomPeer randomNumber peers = peers ! (randomNumber peers mod length peers)"

text \<open>The loop of \<open>tryToDownload\<close>.\<close>

partial_function (option) download_loop :: "(nat \<Rightarrow> nat) \<Rightarrow> (peer list \<Rightarrow> nat) \<Rightarrow> our_header \<Rightarrow> peer list \<Rightarrow> message_job list \<Rightarrow> message_downloader
    \<Rightarrow> (message_job list \<times> message_downloader) option" where
  "download_loop rv randomNumber ours peers jobs d =
     (case filter_peers rv ours peers d of
        (ps, d1) \<Rightarrow>
          if ps = [] then Some (jobs, d1)
          else (case messages_download rv False ours (getRandomPeer randomNumber ps) d1 of
                  (job, d2) \<Rightarrow> download_loop rv randomNumber ours ps (jobs @ (case job of None \<Rightarrow> [] | Some j \<Rightarrow> [j])) d2))"

definition messages_tryToDownload :: "(nat \<Rightarrow> nat) \<Rightarrow> (peer list \<Rightarrow> nat) \<Rightarrow> bool \<Rightarrow> our_header \<Rightarrow> peer list \<Rightarrow> message_downloader
    \<Rightarrow> (message_job list \<times> message_downloader) option" where
  "messages_tryToDownload rv randomNumber busy ours peers d =
     (if busy then Some ([], d) else download_loop rv randomNumber ours peers [] d)"

section \<open>Message downloader: the answer\<close>

definition checkMessage :: "message \<Rightarrow> message \<Rightarrow> message_job \<Rightarrow> error + unit" where
  "checkMessage m first job =
     (if mg_blockNumber m \<noteq> mg_blockNumber first \<or> mg_round m \<noteq> mg_round first then Inl (JsError ''Received message does not match the first message'')
      else if mg_blockNumber m \<noteq> mj_blockNumber job then Inl (JsError ''Received message blockNumber does not match expected blockNumber'')
      else if mg_round m < mj_round job then Inl (JsError ''Received message round is lower than requested round'')
      else Inr ())"

fun take_votes :: "(bytes \<Rightarrow> error + message) \<Rightarrow> (message \<Rightarrow> error + processor_verdict) \<Rightarrow> message_job \<Rightarrow> message option \<Rightarrow> votes \<Rightarrow> bytes list \<Rightarrow> error + votes" where
  "take_votes fromBytes process job first votes [] = Inr votes"
| "take_votes fromBytes process job first votes (b # bs) =
     sum_bind (fromBytes b) (\<lambda>m.
       let first = (case first of None \<Rightarrow> m | Some f \<Rightarrow> f)
       in sum_bind (checkMessage m first job) (\<lambda>_.
          sum_bind (process m) (\<lambda>response.
            if response = Result_Invalid then Inl (JsError ''Received vote is invalid'')
            else take_votes fromBytes process job (Some first) (map_set votes (mg_validatorIndex m) m) bs)))"

definition checkFullRoundResponse :: "(nat \<Rightarrow> nat) \<Rightarrow> message_job \<Rightarrow> votes \<Rightarrow> votes \<Rightarrow> error + unit" where
  "checkFullRoundResponse rv job prevotes precommits =
     (if \<not> isMajority (length prevotes + signed_count (oh_validatorsSignedPrevote (mj_ourHeader job))) (rv (mj_blockNumber job))
      then Inl (JsError ''Peer did not return enough prevotes for +2/3 majority'')
      else if \<not> isMajority (length precommits + signed_count (oh_validatorsSignedPrecommit (mj_ourHeader job))) (rv (mj_blockNumber job))
      then Inl (JsError ''Peer did not return enough precommits for +2/3 majority'')
      else Inr ())"

definition checkPartialRoundResponse :: "message_job \<Rightarrow> votes \<Rightarrow> votes \<Rightarrow> error + unit" where
  "checkPartialRoundResponse job prevotes precommits =
     (if \<exists>i \<in> set (mj_prevoteIndexes job). \<not> map_has prevotes i then Inl (JsError ''Missing prevote'')
      else if \<exists>i \<in> set (mj_precommitIndexes job). \<not> map_has precommits i then Inl (JsError ''Missing precommit'')
      else Inr ())"

definition checkResponse :: "(nat \<Rightarrow> nat) \<Rightarrow> message_job \<Rightarrow> votes \<Rightarrow> votes \<Rightarrow> error + unit" where
  "checkResponse rv job prevotes precommits =
     (if prevotes = [] \<and> precommits = [] then Inr ()
      else let receivedRound = (if prevotes \<noteq> [] then mg_round (snd (hd prevotes)) else mg_round (snd (hd precommits)))
           in if oh_round (mj_ourHeader job) < receivedRound then checkFullRoundResponse rv job prevotes precommits
              else checkPartialRoundResponse job prevotes precommits)"

text \<open>What the answer of the peer leads to: an error bans the peer.\<close>

definition messages_answer ::
  "(nat \<Rightarrow> nat) \<Rightarrow> (bytes \<Rightarrow> error + message) \<Rightarrow> (message \<Rightarrow> error + processor_verdict) \<Rightarrow> message_job \<Rightarrow> error + (bytes list \<times> bytes list) \<Rightarrow> error + unit" where
  "messages_answer rv fromBytes process job result =
     sum_bind result (\<lambda>(prevotes, precommits).
     sum_bind (take_votes fromBytes process job None [] prevotes) (\<lambda>pv.
     sum_bind (take_votes fromBytes process job None [] precommits) (\<lambda>pc.
       checkResponse rv job pv pc)))"

definition removeFullDownloadJob :: "message_job \<Rightarrow> message_downloader \<Rightarrow> message_downloader" where
  "removeFullDownloadJob job d =
     (case map_get (md_fullDownloads d) (mj_blockNumber job) of
        None \<Rightarrow> d
      | Some rounds \<Rightarrow>
          (let rounds1 = filter (\<lambda>r. r \<noteq> mj_round job) rounds
           in if rounds1 = [] then d\<lparr>md_fullDownloads := map_delete (md_fullDownloads d) (mj_blockNumber job)\<rparr>
              else d\<lparr>md_fullDownloads := map_set (md_fullDownloads d) (mj_blockNumber job) rounds1\<rparr>))"

definition removePartialDownloadJob :: "message_job \<Rightarrow> message_downloader \<Rightarrow> message_downloader" where
  "removePartialDownloadJob job d =
     (case map_get (md_downloads d) (mj_blockNumber job) of
        None \<Rightarrow> d
      | Some rounds \<Rightarrow> (case map_get rounds (mj_round job) of
          None \<Rightarrow> d
        | Some x \<Rightarrow>
            (let x1 = \<lparr>dr_precommits = mark_all False (mj_precommitIndexes job) (dr_precommits x), dr_prevotes = mark_all False (mj_prevoteIndexes job) (dr_prevotes x)\<rparr>;
                 rounds1 = (if True \<notin> set (dr_prevotes x1) \<and> True \<notin> set (dr_precommits x1) then map_delete rounds (mj_round job) else map_set rounds (mj_round job) x1)
             in if rounds1 = [] then d\<lparr>md_downloads := map_delete (md_downloads d) (mj_blockNumber job)\<rparr>
                else d\<lparr>md_downloads := map_set (md_downloads d) (mj_blockNumber job) rounds1\<rparr>)))"

definition removeDownloadJob :: "message_job \<Rightarrow> message_downloader \<Rightarrow> message_downloader" where
  "removeDownloadJob job d = (if mj_isFullDownload job then removeFullDownloadJob job d else removePartialDownloadJob job d)"

text \<open>The end of \<open>#downloadMessagesFromPeer\<close>: the address to ban, the new jobs and the state.\<close>

definition messages_finish ::
  "(nat \<Rightarrow> nat) \<Rightarrow> (peer list \<Rightarrow> nat) \<Rightarrow> bool \<Rightarrow> our_header \<Rightarrow> peer list \<Rightarrow> message_job \<Rightarrow> error + unit \<Rightarrow> message_downloader
   \<Rightarrow> (string option \<times> message_job list \<times> message_downloader) option" where
  "messages_finish rv randomNumber busy ours peers job result d =
     (case result of
        Inr _ \<Rightarrow> Some (None, [], removeDownloadJob job d)
      | Inl err \<Rightarrow> map_option (\<lambda>(jobs, d1). (Some (peer_ip (mj_peer job)), jobs, d1))
          (messages_tryToDownload rv randomNumber busy ours peers (removeDownloadJob job d)))"

section \<open>The controllers of the peer\<close>

definition missing_votes :: "bool list \<Rightarrow> votes \<Rightarrow> bytes list" where
  "missing_votes hasSigned votes =
     map mg_serialized (List.map_filter (\<lambda>i. if hasSigned ! i then None else map_get votes i) [0..<length hasSigned])"

definition peer_round_state :: "env \<Rightarrow> rs_ref \<Rightarrow> node \<Rightarrow> error + (round_state \<times> node)" where
  "peer_round_state e ref s =
     sum_bind (getRoundState (createRoundState (ev_roundValidators e s) (ev_proposerIndex e s)) ref (nd_repo s)) (\<lambda>(rs, repo). Inr (rs, s\<lparr>nd_repo := repo\<rparr>))"

definition get_messages :: "env \<Rightarrow> header_data \<Rightarrow> node \<Rightarrow> error + ((bytes list \<times> bytes list) \<times> node)" where
  "get_messages e h s =
     (if ph_blockNumber h \<noteq> nd_blockNumber s \<or> ph_round h > nd_round s then Inr (([], []), s)
      else sum_bind (peer_round_state e (ph_blockNumber h, nd_round s) s) (\<lambda>(rs, s1).
        sum_bind (if nd_round s \<ge> 1 \<and> nd_round s > ph_round h \<and> \<not> hasMinorityPrevotesOrPrecommits (ev_milestoneValidators e (ph_blockNumber h)) rs
            then sum_bind (peer_round_state e (ph_blockNumber h, nd_round s - 1) s1) (\<lambda>(rs1, s2). Inr (rs1, nd_round s - 1, s2))
            else Inr (rs, nd_round s, s1)) (\<lambda>(rs, round, s2).
          if ph_round h = round
          then Inr ((missing_votes (ph_validatorsSignedPrevote h) (rs_prevotes rs), missing_votes (ph_validatorsSignedPrecommit h) (rs_precommits rs)), s2)
          else Inr ((map (\<lambda>(i, m). mg_serialized m) (rs_prevotes rs), map (\<lambda>(i, m). mg_serialized m) (rs_precommits rs)), s2))))"

definition get_proposal :: "env \<Rightarrow> header_data \<Rightarrow> node \<Rightarrow> error + (bytes \<times> node)" where
  "get_proposal e h s =
     (if ph_blockNumber h \<noteq> nd_blockNumber s \<or> ph_round h > nd_round s then Inr ([], s)
      else sum_bind (peer_round_state e (ph_blockNumber h, ph_round h) s) (\<lambda>(rs, s1).
        Inr (case rs_proposal rs of None \<Rightarrow> [] | Some p \<Rightarrow> pr_serialized p, s1)))"

section \<open>Proposal downloader\<close>

type_synonym proposal_downloader = "(nat, nat list) jsmap"

record proposal_download =
  pj_peer :: peer
  pj_blockNumber :: nat
  pj_round :: nat

definition proposals_canDownload :: "our_header \<Rightarrow> header_data \<Rightarrow> proposal_downloader \<Rightarrow> bool" where
  "proposals_canDownload ours theirs d \<longleftrightarrow> oh_blockNumber ours = ph_blockNumber theirs \<and> oh_round ours = ph_round theirs
     \<and> (case map_get d (ph_blockNumber theirs) of None \<Rightarrow> True | Some rounds \<Rightarrow> ph_round theirs \<notin> set rounds)
     \<and> oh_proposal ours = None \<and> ph_proposedBlockHash theirs \<noteq> None \<and> ph_proposedBlockHash theirs \<noteq> Some []"

definition setDownload :: "proposal_download \<Rightarrow> proposal_downloader \<Rightarrow> proposal_downloader" where
  "setDownload job d = map_set d (pj_blockNumber job) (set_add (pj_round job) (case map_get d (pj_blockNumber job) of None \<Rightarrow> [] | Some rounds \<Rightarrow> rounds))"

definition removeDownload :: "proposal_download \<Rightarrow> proposal_downloader \<Rightarrow> proposal_downloader" where
  "removeDownload job d =
     (case map_get d (pj_blockNumber job) of
        None \<Rightarrow> d
      | Some rounds \<Rightarrow>
          (let rounds1 = filter (\<lambda>r. r \<noteq> pj_round job) rounds
           in if rounds1 = [] then map_delete d (pj_blockNumber job) else map_set d (pj_blockNumber job) rounds1))"

definition proposals_download :: "bool \<Rightarrow> our_header \<Rightarrow> peer \<Rightarrow> proposal_downloader \<Rightarrow> proposal_download option \<times> proposal_downloader" where
  "proposals_download busy ours peer d =
     (if busy \<or> \<not> proposals_canDownload ours (peer_header peer) d then (None, d)
      else let job = \<lparr>pj_peer = peer, pj_blockNumber = ph_blockNumber (peer_header peer), pj_round = ph_round (peer_header peer)\<rparr>
           in (Some job, setDownload job d))"

definition proposals_tryToDownload :: "(peer list \<Rightarrow> nat) \<Rightarrow> bool \<Rightarrow> our_header \<Rightarrow> peer list \<Rightarrow> proposal_downloader \<Rightarrow> proposal_download option \<times> proposal_downloader" where
  "proposals_tryToDownload randomNumber busy ours peers d =
     (let ps = filter (\<lambda>p. proposals_canDownload ours (peer_header p) d) peers
      in if busy \<or> ps = [] then (None, d) else proposals_download busy ours (getRandomPeer randomNumber ps) d)"

definition proposals_answer :: "(bytes \<Rightarrow> error + proposal) \<Rightarrow> (proposal \<Rightarrow> error + processor_verdict) \<Rightarrow> proposal_download \<Rightarrow> error + bytes \<Rightarrow> error + unit" where
  "proposals_answer fromBytes process job result =
     sum_bind result (\<lambda>b.
       if b = [] then Inr ()
       else sum_bind (fromBytes b) (\<lambda>p.
         if bh_number (pr_blockHeader p) \<noteq> pj_blockNumber job then Inl (JsError ''Received proposal blockNumber does not match expected blockNumber'')
         else if pr_round p \<noteq> pj_round job then Inl (JsError ''Received proposal round does not match expected round'')
         else sum_bind (process p) (\<lambda>response. if response = Result_Invalid then Inl (JsError ''Received proposal is invalid'') else Inr ())))"

text \<open>The address to ban, the new job and the state.\<close>

definition proposals_finish ::
  "(peer list \<Rightarrow> nat) \<Rightarrow> bool \<Rightarrow> our_header \<Rightarrow> peer list \<Rightarrow> proposal_download \<Rightarrow> error + unit \<Rightarrow> proposal_downloader
   \<Rightarrow> string option \<times> proposal_download option \<times> proposal_downloader" where
  "proposals_finish randomNumber busy ours peers job result d =
     (case result of
        Inr _ \<Rightarrow> (None, None, removeDownload job d)
      | Inl err \<Rightarrow> (Some (peer_ip (pj_peer job)), proposals_tryToDownload randomNumber busy ours peers (removeDownload job d)))"

definition proposals_onApplied :: "nat \<Rightarrow> proposal_downloader \<Rightarrow> proposal_downloader" where
  "proposals_onApplied number d = map_delete d number"

definition proposals_isDownloading :: "proposal_downloader \<Rightarrow> bool" where
  "proposals_isDownloading d \<longleftrightarrow> d \<noteq> []"

section \<open>Marks\<close>

definition marks :: "(nat \<Rightarrow> nat) \<Rightarrow> nat \<Rightarrow> nat \<Rightarrow> message_downloader \<Rightarrow> downloads_by_round" where
  "marks rv number round d = (case map_get (rounds_at number d) round of None \<Rightarrow> no_downloads (rv number) | Some x \<Rightarrow> x)"

lemma rounds_at_put: "rounds_at n (put_downloads number round x d) = (if n = number then map_set (rounds_at number d) round x else rounds_at n d)"
  by (simp add: rounds_at_def put_downloads_def jsmap_simps)

lemma marks_put: "marks rv n r (put_downloads number round x d) = (if n = number \<and> r = round then x else marks rv n r d)"
  by (auto simp: marks_def rounds_at_put jsmap_simps)

lemma fullDownloads_put [simp]: "md_fullDownloads (put_downloads n r x d) = md_fullDownloads d"
  by (simp add: put_downloads_def)

lemma getDownloadsByRound_marks:
  "fst (getDownloadsByRound rv number round d) = marks rv number round d"
  "marks rv n r (snd (getDownloadsByRound rv number round d)) = marks rv n r d"
  "md_fullDownloads (snd (getDownloadsByRound rv number round d)) = md_fullDownloads d"
  by (auto simp: getDownloadsByRound_def marks_put split: option.splits) (auto simp: marks_def)

text \<open>Whether a peer can be asked depends on the marks and the full downloads only.\<close>

definition wanted :: "(nat \<Rightarrow> nat) \<Rightarrow> our_header \<Rightarrow> header_data \<Rightarrow> message_downloader \<Rightarrow> bool" where
  "wanted rv ours theirs d \<longleftrightarrow> oh_blockNumber ours = ph_blockNumber theirs \<and> oh_round ours \<le> ph_round theirs
     \<and> (if oh_round ours = getHighestRoundToDownload rv ours theirs
        then getPrevoteIndexesToDownload ours theirs (dr_prevotes (marks rv (ph_blockNumber theirs) (ph_round theirs) d)) \<noteq> []
          \<or> getPrecommitIndexesToDownload ours theirs (dr_precommits (marks rv (ph_blockNumber theirs) (ph_round theirs) d)) \<noteq> []
        else canDownloadFullRound (ph_blockNumber theirs) (getHighestRoundToDownload rv ours theirs) d)"

definition same_marks :: "(nat \<Rightarrow> nat) \<Rightarrow> message_downloader \<Rightarrow> message_downloader \<Rightarrow> bool" where
  "same_marks rv d d' \<longleftrightarrow> md_fullDownloads d' = md_fullDownloads d \<and> (\<forall>n r. marks rv n r d' = marks rv n r d)"

lemma wanted_same: "same_marks rv d d' \<Longrightarrow> wanted rv ours theirs d' = wanted rv ours theirs d"
  by (simp add: same_marks_def wanted_def canDownloadFullRound_def)

lemma messages_canDownload_wanted:
  "fst (messages_canDownload rv ours theirs d) = wanted rv ours theirs d" "same_marks rv d (snd (messages_canDownload rv ours theirs d))"
  by (auto simp: messages_canDownload_def wanted_def same_marks_def Let_def case_prod_unfold getDownloadsByRound_marks)

lemma filter_peers_wanted:
  "fst (filter_peers rv ours ps d) = filter (\<lambda>p. wanted rv ours (peer_header p) d) ps \<and> same_marks rv d (snd (filter_peers rv ours ps d))"
proof (induction ps arbitrary: d)
  case Nil
  then show ?case by (simp add: same_marks_def)
next
  case (Cons p ps)
  let ?d1 = "snd (messages_canDownload rv ours (peer_header p) d)"
  have c: "fst (messages_canDownload rv ours (peer_header p) d) = wanted rv ours (peer_header p) d" "same_marks rv d ?d1"
    by (rule messages_canDownload_wanted)+
  have "same_marks rv d (snd (filter_peers rv ours ps ?d1))" using Cons [of ?d1] c(2) by (simp add: same_marks_def)
  then show ?case using Cons [of ?d1] c wanted_same [OF c(2)] by (simp add: case_prod_unfold)
qed

lemma js_array_set_same: "i < length xs \<Longrightarrow> js_array_set xs i v = xs[i := v]"
  by (simp add: js_array_set_def)

lemma mark_all_inside:
  assumes "\<forall>i \<in> set is. i < length xs"
  shows "length (mark_all v is xs) = length xs \<and> (\<forall>j < length xs. mark_all v is xs ! j = (if j \<in> set is then v else xs ! j))"
  using assms unfolding mark_all_def
  by (induction "is" arbitrary: xs) (auto simp: js_array_set_same nth_list_update)

lemma marked_not_wanted:
  "getIndexesToDownload ours theirs (mark_all True (getIndexesToDownload ours theirs xs) xs) = []"
  using mark_all_inside [of "getIndexesToDownload ours theirs xs" xs True]
  by (auto simp: getIndexesToDownload_def filter_empty_conv)

lemma messages_download_not_wanted: "\<not> wanted rv ours (peer_header p) (snd (messages_download rv False ours p d))"
proof (cases "wanted rv ours (peer_header p) d")
  case False
  then show ?thesis
    using messages_canDownload_wanted [where rv = rv and ours = ours and theirs = "peer_header p" and d = d] wanted_same
    by (auto simp: messages_download_def split: prod.splits bool.splits)
next
  case True
  let ?h = "peer_header p" and ?r = "getHighestRoundToDownload rv ours (peer_header p)"
  obtain d1 where c: "messages_canDownload rv ours ?h d = (True, d1)" and same: "same_marks rv d d1"
    using messages_canDownload_wanted [where rv = rv and ours = ours and theirs = ?h and d = d] True by (cases "messages_canDownload rv ours ?h d") simp
  show ?thesis
  proof (cases "oh_round ours = ?r")
    case True
    then show ?thesis unfolding messages_download_def c
      by (simp add: Let_def case_prod_unfold wanted_def marks_put setDownloadJob_def getPrevoteIndexesToDownload_def getPrecommitIndexesToDownload_def marked_not_wanted)
  next
    case full: False
    have "ph_round ?h > oh_round ours" using True full by (auto simp: wanted_def getHighestRoundToDownload_def split: if_splits)
    moreover have "set_add ?r rounds \<noteq> [] \<and> \<not> Max (set (set_add ?r rounds)) < ?r" for rounds by (auto simp: set_add_def not_less)
    ultimately show ?thesis unfolding messages_download_def c using full
      by (auto simp: Let_def wanted_def canDownloadFullRound_def setFullDownload_def jsmap_simps split: option.splits)
  qed
qed

section \<open>The loop ends\<close>

lemma download_loop_returns:
  "length (filter (\<lambda>p. wanted rv ours (peer_header p) d) ps) \<le> n \<Longrightarrow> \<exists>r. download_loop rv randomNumber ours ps jobs d = Some r"
proof (induction n arbitrary: ps d jobs)
  case 0
  then show ?case using filter_peers_wanted [of rv ours ps d] by (subst download_loop.simps) (simp add: case_prod_unfold)
next
  case (Suc n)
  let ?f = "filter_peers rv ours ps d"
  have f: "fst ?f = filter (\<lambda>p. wanted rv ours (peer_header p) d) ps" using filter_peers_wanted by blast
  show ?case
  proof (cases "fst ?f = []")
    case True
    then show ?thesis by (subst download_loop.simps) (simp add: case_prod_unfold)
  next
    case False
    let ?p = "getRandomPeer randomNumber (fst ?f)" and ?d2 = "\<lambda>p. snd (messages_download rv False ours p (snd ?f))"
    have p: "?p \<in> set (fst ?f)" using False by (simp add: getRandomPeer_def)
    then have "length (filter (\<lambda>p. wanted rv ours (peer_header p) (?d2 ?p)) (fst ?f)) < length (fst ?f)"
      by (rule length_filter_less) (rule messages_download_not_wanted)
    then have "length (filter (\<lambda>p. wanted rv ours (peer_header p) (?d2 ?p)) (fst ?f)) \<le> n" using Suc.prems f by simp
    from Suc.IH [OF this] False show ?thesis by (subst download_loop.simps) (simp add: case_prod_unfold)
  qed
qed

text \<open>The loop of \<open>tryToDownload\<close>, which asks random peers for as long as one of them has something to offer, ends for any
  header, any peers, any choices and any state of the downloader.\<close>

theorem tryToDownload_returns: "\<exists>r. messages_tryToDownload rv randomNumber busy ours peers d = Some r"
  using download_loop_returns [OF order_refl] by (simp add: messages_tryToDownload_def)

section \<open>Answers of an honest peer\<close>

text \<open>The votes of a round state, as the peer sends them and the node reads them.\<close>

definition honest_votes :: "(bytes \<Rightarrow> error + message) \<Rightarrow> nat \<Rightarrow> nat \<Rightarrow> votes \<Rightarrow> bool" where
  "honest_votes fromBytes number round vs \<longleftrightarrow> map_ok vs
     \<and> (\<forall>(i, m) \<in> set vs. fromBytes (mg_serialized m) = Inr m \<and> mg_validatorIndex m = i \<and> mg_blockNumber m = number \<and> mg_round m = round)"

lemma take_votes_honest:
  assumes "\<forall>m \<in> set ms. fromBytes (mg_serialized m) = Inr m \<and> mg_blockNumber m = mj_blockNumber job \<and> mg_round m = r \<and> process m \<noteq> Inr Result_Invalid \<and> (\<exists>v. process m = Inr v)"
    and "mj_round job \<le> r" and "\<And>f. first = Some f \<Longrightarrow> mg_blockNumber f = mj_blockNumber job \<and> mg_round f = r"
  shows "take_votes fromBytes process job first vs (map mg_serialized ms) = Inr (fold (\<lambda>m vs. map_set vs (mg_validatorIndex m) m) ms vs)"
  using assms
proof (induction ms arbitrary: first vs)
  case (Cons m ms)
  let ?first = "case first of None \<Rightarrow> m | Some f \<Rightarrow> f"
  have f: "mg_blockNumber ?first = mj_blockNumber job" "mg_round ?first = r" using Cons.prems by (auto split: option.splits)
  then have "checkMessage m ?first job = Inr ()" using Cons.prems(1,2) by (simp add: checkMessage_def)
  moreover obtain v where "process m = Inr v" "v \<noteq> Result_Invalid" using Cons.prems(1) by auto
  ultimately show ?case using Cons.IH [of "Some ?first"] Cons.prems f by (simp add: Let_def)
qed simp

lemma fold_map_set_fresh:
  assumes "distinct (map mg_validatorIndex ms)" and "\<forall>m \<in> set ms. \<not> map_has vs (mg_validatorIndex m)"
  shows "fold (\<lambda>m vs. map_set vs (mg_validatorIndex m) m) ms vs = vs @ map (\<lambda>m. (mg_validatorIndex m, m)) ms"
  using assms
proof (induction ms arbitrary: vs)
  case (Cons m ms)
  have "\<forall>n \<in> set ms. \<not> map_has (vs @ [(mg_validatorIndex m, m)]) (mg_validatorIndex n)" using Cons.prems by (auto simp: map_has_iff image_iff)
  from Cons.IH [OF _ this] Cons.prems show ?case by (simp add: map_set_fresh)
qed simp

lemma take_own_votes:
  assumes "honest_votes fromBytes (mj_blockNumber job) r vs" and "mj_round job \<le> r" and "set ws \<subseteq> set vs" and "distinct (map fst ws)"
    and "\<forall>(i, m) \<in> set vs. process m \<noteq> Inr Result_Invalid \<and> (\<exists>v. process m = Inr v)"
  shows "take_votes fromBytes process job None [] (map (\<lambda>(i, m). mg_serialized m) ws) = Inr ws"
proof -
  have own: "fromBytes (mg_serialized m) = Inr m" "mg_validatorIndex m = i" "mg_blockNumber m = mj_blockNumber job" "mg_round m = r"
    "process m \<noteq> Inr Result_Invalid" "\<exists>v. process m = Inr v" if "(i, m) \<in> set ws" for i m
    using assms(1,3,5) that unfolding honest_votes_def by blast+
  have idx: "map (\<lambda>m. (mg_validatorIndex m, m)) (map snd ws) = ws" "map mg_validatorIndex (map snd ws) = map fst ws"
    using own by (auto intro!: map_idI)
  have "take_votes fromBytes process job None [] (map mg_serialized (map snd ws)) = Inr (fold (\<lambda>m vs. map_set vs (mg_validatorIndex m) m) (map snd ws) [])"
    by (rule take_votes_honest [OF _ assms(2)]) (use own in auto)
  also have "\<dots> = Inr ws" using fold_map_set_fresh [of "map snd ws" "[]", unfolded idx] assms(4) by simp
  finally show ?thesis by (simp add: comp_def case_prod_unfold)
qed

lemma signed_count_votes:
  assumes "flags_ok flags vs" and "map_ok vs"
  shows "signed_count flags = length vs"
proof -
  have "{i. i < length flags \<and> flags ! i} = fst ` set vs"
    using assms(1) unfolding flags_ok_def js_array_get_def map_has_iff by blast
  moreover have "card (fst ` set vs) = length vs" using distinct_card [of "map fst vs"] assms(2) by (simp add: map_ok_def)
  ultimately show ?thesis by (simp add: signed_count_def length_filter_conv_card id_def)
qed

lemma peer_round_state_present: "map_get (nd_repo s) ref = Some rs \<Longrightarrow> peer_round_state e ref s = Inr (rs, s)"
  by (simp add: peer_round_state_def getRoundState_def)

abbreviation accepted :: "(message \<Rightarrow> error + processor_verdict) \<Rightarrow> votes \<Rightarrow> bool" where
  "accepted process vs \<equiv> \<forall>(i, m) \<in> set vs. process m \<noteq> Inr Result_Invalid \<and> (\<exists>v. process m = Inr v)"

text \<open>What is assumed of an honest peer: it is at the block of the node, in some round, with votes that the node can read and accepts.\<close>

definition honest_peer :: "(bytes \<Rightarrow> error + message) \<Rightarrow> (message \<Rightarrow> error + processor_verdict) \<Rightarrow> node \<Rightarrow> round_state \<Rightarrow> bool" where
  "honest_peer fromBytes process s rs \<longleftrightarrow> map_get (nd_repo s) (current_ref s) = Some rs \<and> rs_ok rs
     \<and> honest_votes fromBytes (nd_blockNumber s) (nd_round s) (rs_prevotes rs) \<and> accepted process (rs_prevotes rs)
     \<and> honest_votes fromBytes (nd_blockNumber s) (nd_round s) (rs_precommits rs) \<and> accepted process (rs_precommits rs)"

lemma honest_answer_taken:
  assumes "honest_peer fromBytes process s rs" and "mj_blockNumber job = nd_blockNumber s" and "mj_round job \<le> nd_round s"
    and "set pv \<subseteq> set (rs_prevotes rs)" and "distinct (map fst pv)" and "set pc \<subseteq> set (rs_precommits rs)" and "distinct (map fst pc)"
  shows "messages_answer rv fromBytes process job (Inr (map (\<lambda>(i, m). mg_serialized m) pv, map (\<lambda>(i, m). mg_serialized m) pc)) = checkResponse rv job pv pc"
proof -
  have h: "honest_votes fromBytes (mj_blockNumber job) (nd_round s) (rs_prevotes rs)" "accepted process (rs_prevotes rs)"
    "honest_votes fromBytes (mj_blockNumber job) (nd_round s) (rs_precommits rs)" "accepted process (rs_precommits rs)"
    using assms(1,2) unfolding honest_peer_def by auto
  show ?thesis unfolding messages_answer_def
    by (simp add: take_own_votes [OF h(1) assms(3-5) h(2)] take_own_votes [OF h(3) assms(3,6,7) h(4)])
qed

text \<open>An honest peer in a higher round with more than a third of the prevotes is asked for that round, and is banned for its answer: the check of
  the answer wants two thirds of the prevotes, which the round does not have.\<close>

theorem honest_peer_ahead_is_banned:
  assumes "honest_peer fromBytes process s rs" and "oh_blockNumber ours = nd_blockNumber s" and "oh_round ours < nd_round s"
    and "peer_header p = header_toData (header_of_round rs s)" and "ev_milestoneValidators e (nd_blockNumber s) = rv (nd_blockNumber s)"
    and "isMinority (length (rs_prevotes rs)) (rv (nd_blockNumber s))" and "canDownloadFullRound (nd_blockNumber s) (nd_round s) d"
    and "\<not> isMajority (length (rs_prevotes rs) + signed_count (oh_validatorsSignedPrevote ours)) (rv (nd_blockNumber s))"
    and "ph_blockNumber h = nd_blockNumber s" and "ph_round h < nd_round s"
  shows "\<exists>job d' answer. messages_download rv False ours p d = (Some job, d') \<and> get_messages e h s = Inr (answer, s)
    \<and> messages_answer rv fromBytes process job (Inr answer) = Inl (JsError ''Peer did not return enough prevotes for +2/3 majority'')"
proof -
  let ?n = "nd_blockNumber s" and ?r = "nd_round s"
  have rs: "map_get (nd_repo s) (?n, ?r) = Some rs" "rs_ok rs" using assms(1) by (simp_all add: honest_peer_def current_ref_def)
  then have "signed_count (rs_validatorsSignedPrevote rs) = length (rs_prevotes rs)"
    by (intro signed_count_votes) (simp_all add: rs_ok_def votes_ok_def)
  with assms(2,3,4,6) have round: "getHighestRoundToDownload rv ours (peer_header p) = ?r"
    by (simp add: getHighestRoundToDownload_def header_toData_def header_of_round_def)
  let ?job = "\<lparr>mj_isFullDownload = True, mj_peer = p, mj_ourHeader = ours, mj_prevoteIndexes = [], mj_precommitIndexes = [], mj_round = ?r, mj_blockNumber = ?n\<rparr>"
  have "messages_download rv False ours p d = (Some ?job, setFullDownload ?n ?r d)"
    using assms(2,3,4,7) round by (simp add: messages_download_def messages_canDownload_def Let_def) (simp add: header_toData_def header_of_round_def Let_def)
  moreover have "get_messages e h s = Inr ((map (\<lambda>(i, m). mg_serialized m) (rs_prevotes rs), map (\<lambda>(i, m). mg_serialized m) (rs_precommits rs)), s)"
    using assms(5,6,9,10) rs(1) by (simp add: get_messages_def peer_round_state_present hasMinorityPrevotesOrPrecommits_def)
  moreover have "messages_answer rv fromBytes process ?job (Inr (map (\<lambda>(i, m). mg_serialized m) (rs_prevotes rs), map (\<lambda>(i, m). mg_serialized m) (rs_precommits rs)))
      = checkResponse rv ?job (rs_prevotes rs) (rs_precommits rs)"
    by (rule honest_answer_taken [OF assms(1)]) (use rs(2) in \<open>auto simp: rs_ok_def votes_ok_def map_ok_def\<close>)
  moreover have "rs_prevotes rs \<noteq> []" "mg_round (snd (hd (rs_prevotes rs))) = ?r"
  proof -
    show ne: "rs_prevotes rs \<noteq> []" using assms(6) by (auto simp: isMinority_def)
    show "mg_round (snd (hd (rs_prevotes rs))) = ?r" using assms(1) hd_in_set [OF ne] unfolding honest_peer_def honest_votes_def by (cases "hd (rs_prevotes rs)") auto
  qed
  ultimately show ?thesis using assms(3,8) by (simp add: checkResponse_def checkFullRoundResponse_def)
qed

text \<open>The votes behind the bytes of \<open>missing_votes\<close>.\<close>

definition missing :: "bool list \<Rightarrow> votes \<Rightarrow> votes" where
  "missing flags vs = map (\<lambda>i. (i, the (map_get vs i))) (filter (\<lambda>i. \<not> flags ! i \<and> map_has vs i) [0..<length flags])"

lemma missing_votes_eq: "missing_votes flags vs = map (\<lambda>(i, m). mg_serialized m) (missing flags vs)"
proof -
  have "(if flags ! i then None else map_get vs i) \<noteq> None \<longleftrightarrow> \<not> flags ! i \<and> map_has vs i" for i by (auto simp: map_has_get)
  then show ?thesis unfolding missing_votes_def missing_def map_filter_def by (simp add: comp_def)
qed

lemma missing_has: "map_has (missing flags vs) i \<longleftrightarrow> i < length flags \<and> \<not> flags ! i \<and> map_has vs i"
  by (auto simp: missing_def map_has_iff image_image)

lemma missing_sub: "set (missing flags vs) \<subseteq> set vs" "distinct (map fst (missing flags vs))"
  by (auto simp: missing_def map_has_get comp_def dest: map_get_in_set)

lemma honest_same_round:
  assumes "honest_peer fromBytes process s rs" and "ph_blockNumber h = nd_blockNumber s" and "ph_round h = nd_round s"
    and "mj_blockNumber job = nd_blockNumber s" and "mj_round job = nd_round s" and "oh_round (mj_ourHeader job) = nd_round s"
    and "pv = missing (ph_validatorsSignedPrevote h) (rs_prevotes rs)" and "pc = missing (ph_validatorsSignedPrecommit h) (rs_precommits rs)"
  shows "\<exists>answer. get_messages e h s = Inr (answer, s) \<and> messages_answer rv fromBytes process job (Inr answer)
    = (if pv = [] \<and> pc = [] then Inr () else checkPartialRoundResponse job pv pc)"
proof -
  have rs: "map_get (nd_repo s) (nd_blockNumber s, nd_round s) = Some rs" using assms(1) by (simp add: honest_peer_def current_ref_def)
  let ?answer = "(map (\<lambda>(i, m). mg_serialized m) pv, map (\<lambda>(i, m). mg_serialized m) pc)"
  have "get_messages e h s = Inr (?answer, s)"
    using rs assms(2,3) by (simp add: get_messages_def peer_round_state_present missing_votes_eq assms(7,8))
  moreover have "messages_answer rv fromBytes process job (Inr ?answer) = checkResponse rv job pv pc"
    unfolding assms(7,8) by (rule honest_answer_taken [OF assms(1,4)]) (use assms(5) missing_sub in auto)
  moreover have "(i, m) \<in> set pv \<or> (i, m) \<in> set pc \<Longrightarrow> mg_round m = nd_round s" for i m
    using assms(1) missing_sub(1) unfolding assms(7,8) honest_peer_def honest_votes_def by blast
  then have "pv \<noteq> [] \<Longrightarrow> mg_round (snd (hd pv)) = nd_round s" "pc \<noteq> [] \<Longrightarrow> mg_round (snd (hd pc)) = nd_round s"
    by (metis hd_in_set prod.collapse)+
  ultimately show ?thesis using assms(6) by (auto simp: checkResponse_def)
qed

text \<open>The partial job of a download.\<close>

lemma partial_job:
  assumes "messages_download rv busy ours p d = (Some job, d')" and "\<not> mj_isFullDownload job"
  defines "x \<equiv> marks rv (ph_blockNumber (peer_header p)) (ph_round (peer_header p)) d"
  shows "oh_blockNumber ours = ph_blockNumber (peer_header p)" and "mj_blockNumber job = oh_blockNumber ours" and "mj_round job = oh_round ours" and "mj_ourHeader job = ours"
    and "mj_prevoteIndexes job = getPrevoteIndexesToDownload ours (peer_header p) (dr_prevotes x)"
    and "mj_precommitIndexes job = getPrecommitIndexesToDownload ours (peer_header p) (dr_precommits x)"
    and "marks rv n r d' = (if n = ph_blockNumber (peer_header p) \<and> r = ph_round (peer_header p) then setDownloadJob job x else marks rv n r d)"
proof -
  let ?h = "peer_header p"
  let ?job = "\<lparr>mj_isFullDownload = False, mj_peer = p, mj_ourHeader = ours, mj_prevoteIndexes = getPrevoteIndexesToDownload ours ?h (dr_prevotes x),
    mj_precommitIndexes = getPrecommitIndexesToDownload ours ?h (dr_precommits x), mj_round = oh_round ours, mj_blockNumber = oh_blockNumber ours\<rparr>"
  obtain can d1 where c: "messages_canDownload rv ours ?h d = (can, d1)" by fastforce
  then have can: "can = wanted rv ours ?h d" and same: "same_marks rv d d1"
    using messages_canDownload_wanted [where rv = rv and ours = ours and theirs = ?h and d = d] by simp_all
  have nb: "\<not> busy" using assms(1) by (auto simp: messages_download_def)
  have "can" using assms(1) nb c by (cases can) (auto simp: messages_download_def)
  moreover have round: "oh_round ours = getHighestRoundToDownload rv ours ?h"
    using assms(1,2) nb c \<open>can\<close> by (auto simp: messages_download_def Let_def split: if_splits)
  ultimately have j: "job = ?job \<and> d' = put_downloads (ph_blockNumber ?h) (ph_round ?h) (setDownloadJob ?job x) (snd (getDownloadsByRound rv (ph_blockNumber ?h) (ph_round ?h) d1))"
    using assms(1) nb c same
    by (auto simp: messages_download_def Let_def case_prod_unfold getDownloadsByRound_marks same_marks_def x_def round [symmetric])
  show "oh_blockNumber ours = ph_blockNumber ?h" using can \<open>can\<close> by (simp add: wanted_def)
  show "mj_blockNumber job = oh_blockNumber ours" "mj_round job = oh_round ours" "mj_ourHeader job = ours"
    "mj_prevoteIndexes job = getPrevoteIndexesToDownload ours ?h (dr_prevotes x)" "mj_precommitIndexes job = getPrecommitIndexesToDownload ours ?h (dr_precommits x)"
    using j by simp_all
  show "marks rv n r d' = (if n = ph_blockNumber ?h \<and> r = ph_round ?h then setDownloadJob job x else marks rv n r d)"
    using j same by (simp add: marks_put getDownloadsByRound_marks same_marks_def)
qed

text \<open>An honest peer in the round of the node, which still has the votes it announced, gives an answer that passes every check, if the request says
  of the node what it knew when the download started.\<close>

theorem honest_peer_in_same_round_is_kept:
  assumes "honest_peer fromBytes process s rs" and "oh_blockNumber ours = nd_blockNumber s" and "oh_round ours = nd_round s"
    and "messages_download rv busy ours p d = (Some job, d')" and "ph_round (peer_header p) = oh_round ours"
    and "\<And>i. js_array_get (ph_validatorsSignedPrevote (peer_header p)) i \<Longrightarrow> i < length (oh_validatorsSignedPrevote ours) \<and> map_has (rs_prevotes rs) i"
    and "\<And>i. js_array_get (ph_validatorsSignedPrecommit (peer_header p)) i \<Longrightarrow> i < length (oh_validatorsSignedPrecommit ours) \<and> map_has (rs_precommits rs) i"
  shows "\<exists>answer. get_messages e (header_toData ours) s = Inr (answer, s) \<and> messages_answer rv fromBytes process job (Inr answer) = Inr ()"
proof -
  let ?h = "header_toData ours"
  have partial: "\<not> mj_isFullDownload job"
    using assms(4,5) by (auto simp: messages_download_def getHighestRoundToDownload_def Let_def split: if_splits prod.splits bool.splits)
  note j = partial_job [OF assms(4) partial]
  let ?pv = "missing (oh_validatorsSignedPrevote ours) (rs_prevotes rs)" and ?pc = "missing (oh_validatorsSignedPrecommit ours) (rs_precommits rs)"
  have "checkPartialRoundResponse job ?pv ?pc = Inr ()"
    using assms(6,7) by (auto simp: checkPartialRoundResponse_def j(5,6) getPrevoteIndexesToDownload_def getPrecommitIndexesToDownload_def
      getIndexesToDownload_def missing_has js_array_get_def)
  moreover have "\<exists>answer. get_messages e ?h s = Inr (answer, s) \<and> messages_answer rv fromBytes process job (Inr answer)
    = (if ?pv = [] \<and> ?pc = [] then Inr () else checkPartialRoundResponse job ?pv ?pc)"
    by (rule honest_same_round [OF assms(1)]) (use assms(2,3) j(2-4) in \<open>simp_all add: header_toData_def\<close>)
  ultimately show ?thesis by auto
qed

text \<open>If a prevote that was to be downloaded arrives by itself before the request is sent, the request says that it is there, the honest peer leaves
  it out, and is banned for that as soon as it has any other vote to send.\<close>

theorem vote_arriving_meanwhile_bans_honest_peer:
  assumes "honest_peer fromBytes process s rs" and "oh_blockNumber ours = nd_blockNumber s" and "oh_round ours = nd_round s"
    and "messages_download rv busy ours p d = (Some job, d')" and "\<not> mj_isFullDownload job" and "i \<in> set (mj_prevoteIndexes job)"
    and "ph_blockNumber h = nd_blockNumber s" and "ph_round h = nd_round s" and "js_array_get (ph_validatorsSignedPrevote h) i"
    and "map_has (rs_prevotes rs) k" and "k < length (ph_validatorsSignedPrevote h)" and "\<not> ph_validatorsSignedPrevote h ! k"
  shows "\<exists>answer. get_messages e h s = Inr (answer, s) \<and> messages_answer rv fromBytes process job (Inr answer) = Inl (JsError ''Missing prevote'')"
proof -
  note j = partial_job [OF assms(4,5)]
  let ?pv = "missing (ph_validatorsSignedPrevote h) (rs_prevotes rs)" and ?pc = "missing (ph_validatorsSignedPrecommit h) (rs_precommits rs)"
  have "map_has ?pv k" "\<not> map_has ?pv i" using assms(9-12) by (auto simp: missing_has js_array_get_def)
  then have "?pv \<noteq> []" "checkPartialRoundResponse job ?pv ?pc = Inl (JsError ''Missing prevote'')"
    using assms(6) by (auto simp: checkPartialRoundResponse_def)
  moreover have "\<exists>answer. get_messages e h s = Inr (answer, s) \<and> messages_answer rv fromBytes process job (Inr answer)
    = (if ?pv = [] \<and> ?pc = [] then Inr () else checkPartialRoundResponse job ?pv ?pc)"
    by (rule honest_same_round [OF assms(1,7,8)]) (use assms(2,3) j(2-4) in simp_all)
  ultimately show ?thesis by auto
qed

section \<open>Marks that are not taken back\<close>

lemma removePartial_other_round:
  assumes "r \<noteq> mj_round job"
  shows "map_get (rounds_at n (removePartialDownloadJob job d)) r = map_get (rounds_at n d) r"
  using assms by (auto simp: removePartialDownloadJob_def rounds_at_def Let_def jsmap_simps split: option.splits)
    (metis jsmap_simps(3) map_get_Nil map_get_set)+

text \<open>A download from a peer that is one round ahead marks votes under the round of the peer, and at its end takes back the marks of the round of the
  node: the votes stay marked, and when the node comes to that round it does not ask any peer for them.\<close>

theorem marks_of_next_round_stay:
  assumes "messages_download rv busy ours p d = (Some job, d1)" and "\<not> mj_isFullDownload job" and "ph_round (peer_header p) = oh_round ours + 1"
    and "i \<in> set (mj_prevoteIndexes job)"
    and "messages_download rv busy' ours' p' (removeDownloadJob job d1) = (Some job', d2)" and "\<not> mj_isFullDownload job'"
    and "ph_blockNumber (peer_header p') = ph_blockNumber (peer_header p)" and "ph_round (peer_header p') = ph_round (peer_header p)"
  shows "i \<notin> set (mj_prevoteIndexes job')"
proof -
  let ?n = "ph_blockNumber (peer_header p)" and ?r = "ph_round (peer_header p)"
  note j = partial_job [OF assms(1,2)] and j' = partial_job [OF assms(5,6)]
  let ?x = "marks rv ?n ?r d"
  have inside: "\<forall>i \<in> set (mj_prevoteIndexes job). i < length (dr_prevotes ?x)" unfolding j(5) by (auto simp: getPrevoteIndexesToDownload_def getIndexesToDownload_def)
  have "marks rv ?n ?r (removeDownloadJob job d1) = marks rv ?n ?r d1"
    using assms(2,3) j(3) by (simp add: marks_def removeDownloadJob_def removePartial_other_round)
  also have "\<dots> = setDownloadJob job ?x" using j(7) by simp
  finally have "dr_prevotes (marks rv ?n ?r (removeDownloadJob job d1)) ! i"
    using mark_all_inside [OF inside, of True] assms(4) inside by (simp add: setDownloadJob_def)
  then show ?thesis unfolding j'(5) assms(7,8) by (simp add: getPrevoteIndexesToDownload_def getIndexesToDownload_def)
qed

section \<open>Slots of the proposal downloader\<close>

text \<open>The downloader with the requests that are under way.\<close>

inductive proposals_reach :: "proposal_downloader \<Rightarrow> proposal_download list \<Rightarrow> bool" where
  created: "proposals_reach [] []"
| header_seen: "proposals_reach d jobs \<Longrightarrow> proposals_download busy ours p d = (job, d') \<Longrightarrow> proposals_reach d' (jobs @ (case job of None \<Rightarrow> [] | Some j \<Rightarrow> [j]))"
| answered: "proposals_reach d jobs \<Longrightarrow> j \<in> set jobs \<Longrightarrow> proposals_finish randomNumber busy ours peers j result d = (ban, job, d')
    \<Longrightarrow> proposals_reach d' (remove1 j jobs @ (case job of None \<Rightarrow> [] | Some j' \<Rightarrow> [j']))"
| applied: "proposals_reach d jobs \<Longrightarrow> proposals_reach (proposals_onApplied number d) jobs"

definition slot_of :: "proposal_download \<Rightarrow> nat \<times> nat" where
  "slot_of j = (pj_blockNumber j, pj_round j)"

definition slots :: "proposal_downloader \<Rightarrow> (nat \<times> nat) set" where
  "slots d = {(n, r). \<exists>rounds. map_get d n = Some rounds \<and> r \<in> set rounds}"

definition slots_ok :: "proposal_downloader \<Rightarrow> proposal_download list \<Rightarrow> bool" where
  "slots_ok d jobs \<longleftrightarrow> map_ok d \<and> (\<forall>n. map_get d n \<noteq> Some []) \<and> slots d \<subseteq> slot_of ` set jobs"

lemma slots_setDownload: "slots (setDownload j d) = insert (slot_of j) (slots d)"
  by (auto simp: slots_def setDownload_def slot_of_def set_add_def jsmap_simps split: if_splits option.splits)

lemma slots_removeDownload: "slots (removeDownload j d) = slots d - {slot_of j}"
  by (auto simp: slots_def removeDownload_def slot_of_def Let_def filter_empty_conv jsmap_simps split: if_splits option.splits)

lemma slots_ok_download:
  assumes "slots_ok d jobs" and "proposals_download busy ours p d = (job, d')"
  shows "slots_ok d' (jobs @ (case job of None \<Rightarrow> [] | Some j \<Rightarrow> [j]))"
proof (cases job)
  case None
  then show ?thesis using assms by (auto simp: proposals_download_def Let_def split: if_splits)
next
  case (Some j)
  then have d': "d' = setDownload j d" using assms(2) by (auto simp: proposals_download_def Let_def split: if_splits)
  have "map_ok d'" "map_get d' n \<noteq> Some []" for n
    using assms(1) by (auto simp: d' slots_ok_def setDownload_def set_add_def map_ok_set jsmap_simps split: if_splits option.splits)
  then show ?thesis using assms(1) Some by (auto simp: slots_ok_def d' slots_setDownload)
qed

lemma slots_ok_remove:
  assumes "slots_ok d jobs" shows "slots_ok (removeDownload j d) (remove1 j jobs)"
proof -
  have "map_ok (removeDownload j d)" "map_get (removeDownload j d) n \<noteq> Some []" for n
    using assms by (auto simp: slots_ok_def removeDownload_def Let_def map_ok_set map_ok_delete jsmap_simps split: if_splits option.splits)
  moreover have "slot_of ` set jobs - {slot_of j} \<subseteq> slot_of ` set (remove1 j jobs)" by (auto simp: in_set_remove1 image_iff) (metis in_set_remove1)
  ultimately show ?thesis using assms unfolding slots_ok_def slots_removeDownload by blast
qed

lemma proposals_reach_slots: "proposals_reach d jobs \<Longrightarrow> slots_ok d jobs"
proof (induction rule: proposals_reach.induct)
  case created
  then show ?case by (simp add: slots_ok_def slots_def)
next
  case (header_seen d jobs busy ours p job d')
  show ?case by (rule slots_ok_download [OF header_seen.IH header_seen.hyps(2)])
next
  case (answered d jobs j randomNumber busy ours peers result ban job d')
  note removed = slots_ok_remove [OF answered.IH, of j]
  show ?case
  proof (cases result)
    case (Inr x)
    then show ?thesis using answered.hyps(3) removed by (simp add: proposals_finish_def)
  next
    case (Inl err)
    then have "proposals_tryToDownload randomNumber busy ours peers (removeDownload j d) = (job, d')" using answered.hyps(3) by (simp add: proposals_finish_def)
    then show ?thesis using removed slots_ok_download [OF removed] by (auto simp: proposals_tryToDownload_def Let_def split: if_splits)
  qed
next
  case (applied d jobs number)
  then show ?case by (auto simp: slots_ok_def proposals_onApplied_def slots_def map_ok_delete jsmap_simps split: if_splits)
qed

text \<open>The proposal downloader never holds a slot without a request under way for its block and round, whatever peers answer: a round that
  is not asked for is being asked for, and nothing is marked when nothing is under way.\<close>

theorem proposal_slots_have_requests:
  assumes "proposals_reach d jobs"
  shows "(\<forall>n rounds r. map_get d n = Some rounds \<longrightarrow> r \<in> set rounds \<longrightarrow> (\<exists>j \<in> set jobs. pj_blockNumber j = n \<and> pj_round j = r))
    \<and> (jobs = [] \<longrightarrow> \<not> proposals_isDownloading d)"
proof -
  have ok: "slots_ok d jobs" by (rule proposals_reach_slots [OF assms])
  have "\<exists>j \<in> set jobs. pj_blockNumber j = n \<and> pj_round j = r" if "map_get d n = Some rounds" "r \<in> set rounds" for n rounds r
  proof -
    have "(n, r) \<in> slots d" using that by (auto simp: slots_def)
    then show ?thesis using ok by (auto simp: slots_ok_def slot_of_def)
  qed
  moreover have "d = []" if "jobs = []"
  proof (cases d)
    case (Cons x xs)
    obtain n rounds where x: "x = (n, rounds)" by (cases x)
    then have "map_get d n = Some rounds" using Cons by (simp add: map_get_def)
    moreover from this have "rounds \<noteq> []" using ok by (auto simp: slots_ok_def)
    then have "hd rounds \<in> set rounds" by simp
    ultimately show ?thesis using ok that by (auto simp: slots_ok_def slots_def)
  qed simp
  ultimately show ?thesis by (simp add: proposals_isDownloading_def)
qed

section \<open>Samples\<close>

text \<open>Four validators; a peer at block 1 with some prevotes of a round.\<close>

definition voter_vote :: "nat \<Rightarrow> nat \<Rightarrow> message" where
  "voter_vote r i = (sample_message Prevote 1 r None i)\<lparr>mg_serialized := [of_nat r, of_nat i]\<rparr>"

definition sample_read :: "bytes \<Rightarrow> error + message" where
  "sample_read b = Inr (voter_vote (unat (b ! 0)) (unat (b ! 1)))"

definition sample_peer_round :: "nat \<Rightarrow> nat list \<Rightarrow> round_state" where
  "sample_peer_round r is = add_messages (map (voter_vote r) is) (projr (createRoundState (Inr (map sample_wallet [0, 1, 2, 3])) (\<lambda>r. Some (r mod 4)) (1, r)))"

definition sample_peer_node :: "nat \<Rightarrow> nat list \<Rightarrow> node" where
  "sample_peer_node r is = (fresh_node [])\<lparr>nd_blockNumber := 1, nd_round := r, nd_repo := [((1, r), sample_peer_round r is)]\<rparr>"

definition sample_peer :: "nat \<Rightarrow> nat list \<Rightarrow> peer" where
  "sample_peer r is = \<lparr>peer_ip = ''1.2.3.4'', peer_header = header_toData (header_of_round (sample_peer_round r is) (sample_peer_node r is))\<rparr>"

definition sample_ours :: "nat \<Rightarrow> our_header" where
  "sample_ours r = \<lparr>oh_blockNumber = 1, oh_round = r, oh_proposal = None, oh_validatorsSignedPrevote = replicate 4 False, oh_validatorsSignedPrecommit = replicate 4 False\<rparr>"

definition new_downloader :: message_downloader where
  "new_downloader = \<lparr>md_fullDownloads = [], md_downloads = []\<rparr>"

definition sample_peer_env :: env where
  "sample_peer_env = demo_env\<lparr>ev_milestoneValidators := \<lambda>_. 4\<rparr>"

definition two_voters :: "nat list" where
  "two_voters = [0, 1]"

lemma sample_peer_votes:
  "rs_prevotes (sample_peer_round 0 two_voters) = [(0, voter_vote 0 0), (1, voter_vote 0 1)]" "rs_prevotes (sample_peer_round 2 two_voters) = [(0, voter_vote 2 0), (1, voter_vote 2 1)]"
  "rs_precommits (sample_peer_round 0 two_voters) = []" "rs_precommits (sample_peer_round 2 two_voters) = []"
  "rs_validatorsSignedPrevote (sample_peer_round 0 two_voters) = [True, True, False, False]" "rs_validatorsSignedPrecommit (sample_peer_round 0 two_voters) = [False, False, False, False]"
  by code_simp+

lemma voter_vote_read: "r \<in> {0, 2} \<Longrightarrow> i \<in> {0, 1} \<Longrightarrow> sample_read (mg_serialized (voter_vote r i)) = Inr (voter_vote r i)"
  by (auto simp: sample_read_def voter_vote_def)

lemma voter_vote_fields: "mg_validatorIndex (voter_vote r i) = i" "mg_blockNumber (voter_vote r i) = 1" "mg_round (voter_vote r i) = r"
  by (simp_all add: voter_vote_def sample_message_def)

lemma sample_peer_round_ok: "rs_ok (sample_peer_round r is)"
proof -
  obtain rs where rs: "createRoundState (Inr (map sample_wallet [0, 1, 2, 3])) (\<lambda>r. Some (r mod 4)) (1, r) = Inr rs"
    by (simp add: createRoundState_def configure_round_state_def)
  then show ?thesis using add_messages_rs_ok createRoundState_fresh [OF rs] unfolding sample_peer_round_def rs by simp
qed

lemma sample_honest_peer: "honest_peer sample_read (\<lambda>_. Inr Result_Accepted) (sample_peer_node r two_voters) (sample_peer_round r two_voters)" if "r = 0 \<or> r = 2"
proof -
  have n: "nd_blockNumber (sample_peer_node r two_voters) = 1" "nd_round (sample_peer_node r two_voters) = r"
    "map_get (nd_repo (sample_peer_node r two_voters)) (current_ref (sample_peer_node r two_voters)) = Some (sample_peer_round r two_voters)"
    by (simp_all add: sample_peer_node_def current_ref_def map_get_def)
  have "rs_prevotes (sample_peer_round r two_voters) = [(0, voter_vote r 0), (1, voter_vote r 1)]" "rs_precommits (sample_peer_round r two_voters) = []"
    using that sample_peer_votes by auto
  then show ?thesis unfolding honest_peer_def honest_votes_def n
    using that sample_peer_round_ok by (simp add: map_ok_def voter_vote_fields voter_vote_read)
qed

lemmas sample_peer_simps = sample_peer_def sample_peer_node_def header_toData_def header_of_round_def sample_ours_def new_downloader_def

theorem honest_peer_ahead_is_banned_witness:
  "\<exists>job d' answer. messages_download (\<lambda>_. 4) False (sample_ours 0) (sample_peer 2 two_voters) new_downloader = (Some job, d')
     \<and> get_messages sample_peer_env (header_toData (sample_ours 0)) (sample_peer_node 2 two_voters) = Inr (answer, sample_peer_node 2 two_voters)
     \<and> messages_answer (\<lambda>_. 4) sample_read (\<lambda>_. Inr Result_Accepted) job (Inr answer) = Inl (JsError ''Peer did not return enough prevotes for +2/3 majority'')"
  by (rule honest_peer_ahead_is_banned [OF sample_honest_peer])
    (simp_all add: sample_peer_simps sample_peer_votes sample_peer_env_def isMinority_def isMajority_def canDownloadFullRound_def signed_count_def)

lemma sample_partial_download:
  "\<exists>job d'. messages_download (\<lambda>_. 4) False (sample_ours 0) (sample_peer 0 two_voters) new_downloader = (Some job, d') \<and> \<not> mj_isFullDownload job \<and> 0 \<in> set (mj_prevoteIndexes job)"
proof -
  have "(case messages_download (\<lambda>_. 4) False (sample_ours 0) (sample_peer 0 two_voters) new_downloader of (job, _) \<Rightarrow>
    job \<noteq> None \<and> \<not> mj_isFullDownload (the job) \<and> 0 \<in> set (mj_prevoteIndexes (the job)))" by code_simp
  then show ?thesis by (auto split: prod.splits)
qed

theorem honest_peer_in_same_round_is_kept_witness:
  "\<exists>job d' answer. messages_download (\<lambda>_. 4) False (sample_ours 0) (sample_peer 0 two_voters) new_downloader = (Some job, d')
     \<and> get_messages sample_peer_env (header_toData (sample_ours 0)) (sample_peer_node 0 two_voters) = Inr (answer, sample_peer_node 0 two_voters)
     \<and> messages_answer (\<lambda>_. 4) sample_read (\<lambda>_. Inr Result_Accepted) job (Inr answer) = Inr ()"
proof -
  obtain job d' where job: "messages_download (\<lambda>_. 4) False (sample_ours 0) (sample_peer 0 two_voters) new_downloader = (Some job, d')" using sample_partial_download by blast
  have "\<exists>answer. get_messages sample_peer_env (header_toData (sample_ours 0)) (sample_peer_node 0 two_voters) = Inr (answer, sample_peer_node 0 two_voters)
     \<and> messages_answer (\<lambda>_. 4) sample_read (\<lambda>_. Inr Result_Accepted) job (Inr answer) = Inr ()"
    by (rule honest_peer_in_same_round_is_kept [OF sample_honest_peer _ _ job])
      (auto simp: sample_peer_simps sample_peer_votes js_array_get_def map_has_def less_Suc_eq)
  with job show ?thesis by blast
qed

theorem vote_arriving_meanwhile_bans_honest_peer_witness:
  "\<exists>job d' answer. messages_download (\<lambda>_. 4) False (sample_ours 0) (sample_peer 0 two_voters) new_downloader = (Some job, d')
     \<and> get_messages sample_peer_env ((header_toData (sample_ours 0))\<lparr>ph_validatorsSignedPrevote := [True, False, False, False]\<rparr>) (sample_peer_node 0 two_voters)
       = Inr (answer, sample_peer_node 0 two_voters)
     \<and> messages_answer (\<lambda>_. 4) sample_read (\<lambda>_. Inr Result_Accepted) job (Inr answer) = Inl (JsError ''Missing prevote'')"
proof -
  let ?h = "(header_toData (sample_ours 0))\<lparr>ph_validatorsSignedPrevote := [True, False, False, False]\<rparr>"
  obtain job d' where job: "messages_download (\<lambda>_. 4) False (sample_ours 0) (sample_peer 0 two_voters) new_downloader = (Some job, d')"
    "\<not> mj_isFullDownload job" "0 \<in> set (mj_prevoteIndexes job)" using sample_partial_download by blast
  have "\<exists>answer. get_messages sample_peer_env ?h (sample_peer_node 0 two_voters) = Inr (answer, sample_peer_node 0 two_voters)
     \<and> messages_answer (\<lambda>_. 4) sample_read (\<lambda>_. Inr Result_Accepted) job (Inr answer) = Inl (JsError ''Missing prevote'')"
    by (rule vote_arriving_meanwhile_bans_honest_peer [OF sample_honest_peer _ _ job, where k = 1])
      (simp_all add: sample_peer_simps sample_peer_votes js_array_get_def map_has_def)
  with job(1) show ?thesis by blast
qed

theorem marks_of_next_round_stay_witness:
  "\<exists>job d1 job' d2. messages_download (\<lambda>_. 4) False (sample_ours 0) (sample_peer 1 [0]) new_downloader = (Some job, d1) \<and> mj_prevoteIndexes job = [0]
     \<and> messages_download (\<lambda>_. 4) False (sample_ours 1) (sample_peer 1 two_voters) (removeDownloadJob job d1) = (Some job', d2)
     \<and> 1 \<in> set (mj_prevoteIndexes job') \<and> 0 \<notin> set (mj_prevoteIndexes job')"
proof -
  have "(case messages_download (\<lambda>_. 4) False (sample_ours 0) (sample_peer 1 [0]) new_downloader of (job, d1) \<Rightarrow>
      job \<noteq> None \<and> \<not> mj_isFullDownload (the job) \<and> mj_prevoteIndexes (the job) = [0]
    \<and> (case messages_download (\<lambda>_. 4) False (sample_ours 1) (sample_peer 1 two_voters) (removeDownloadJob (the job) d1) of (job', d2) \<Rightarrow>
       job' \<noteq> None \<and> \<not> mj_isFullDownload (the job') \<and> 1 \<in> set (mj_prevoteIndexes (the job'))))" by code_simp
  then obtain job d1 job' d2 where j: "messages_download (\<lambda>_. 4) False (sample_ours 0) (sample_peer 1 [0]) new_downloader = (Some job, d1)" "\<not> mj_isFullDownload job"
    "mj_prevoteIndexes job = [0]" "messages_download (\<lambda>_. 4) False (sample_ours 1) (sample_peer 1 two_voters) (removeDownloadJob job d1) = (Some job', d2)"
    "\<not> mj_isFullDownload job'" "1 \<in> set (mj_prevoteIndexes job')" by (auto split: prod.splits)
  have "0 \<notin> set (mj_prevoteIndexes job')"
    by (rule marks_of_next_round_stay [OF j(1,2) _ _ j(4,5)]) (simp_all add: j(3) sample_peer_simps)
  with j show ?thesis by blast
qed

theorem proposal_slots_have_requests_witness:
  "\<exists>d job. proposals_reach d [job] \<and> map_get d 1 = Some [0] \<and> pj_blockNumber job = 1 \<and> pj_round job = 0"
proof -
  let ?p = "(sample_peer 0 [])\<lparr>peer_header := (header_toData (sample_ours 0))\<lparr>ph_proposedBlockHash := Some ''b''\<rparr>\<rparr>"
  obtain job d where "proposals_download False (sample_ours 0) ?p [] = (Some job, d)" and d: "map_get d 1 = Some [0]"
    by (simp add: proposals_download_def proposals_canDownload_def sample_ours_def header_toData_def setDownload_def set_add_def map_get_def map_set_def Let_def)
  then have reach: "proposals_reach d [job]" using header_seen [OF created] by fastforce
  have "pj_blockNumber job = 1 \<and> pj_round job = 0" using proposal_slots_have_requests [OF reach] d by fastforce
  with reach d show ?thesis by blast
qed

end
