(* ===== verification/Chain_Storage.thy ===== *)
theory Chain_Storage
  imports Block_Forger Proposal_Codec
begin

text \<open>
  How committed blocks are stored and read back: \<open>evm-service/source/instances/evm.ts\<close> takes a commit apart, the database inside the
  Rust EVM (\<open>evm/core/src/db.rs\<close>) keeps header, proof and transactions, and the \<open>fromStorage\<close> functions of the transaction, block and
  commit factories put the commit together again, which \<open>database/source/database-service.ts\<close> gives to the rest of the node.

  The tables for headers, proofs and transactions are written in one database transaction, so they are one table here. The key
  \<open>number-index\<close> of a transaction is a pair.
\<close>

section \<open>Transactions read from bytes\<close>

text \<open>\<open>new Transaction(tx, serialized)\<close> of \<open>crypto-transaction/source/transaction.ts\<close>, with the nonce and the
  parity of the signature as the natural numbers they are.\<close>

definition transaction_object :: "crypto_data \<times> transaction_data \<times> bytes \<Rightarrow> transaction" where
  "transaction_object x = (case x of (c, d, serialized) \<Rightarrow>
     \<lparr>tx_network = td_network d, tx_to = td_to d, tx_value = td_value d, tx_gasPrice = td_gasPrice d, tx_gasLimit = td_gasLimit d,
      tx_nonce = nat (td_nonce d), tx_data = td_data d, tx_v = nat (td_v d), tx_r = td_r d, tx_s = td_s d,
      tx_legacySecondSignature = td_legacySecondSignature d, tx_hash = cd_hash c, tx_from = cd_from c,
      tx_senderPublicKey = cd_senderPublicKey c, tx_senderLegacyAddress = cd_senderLegacyAddress c, tx_serialized = serialized\<rparr>)"

definition transaction_fromBytes :: "transaction_services \<Rightarrow> bytes \<Rightarrow> error + transaction" where
  "transaction_fromBytes ts buff = sum_bind (transaction_fromSerialized ts buff) (\<lambda>x. Inr (transaction_object x))"

lemma transaction_of_fields_numbers:
  assumes "transaction_of_fields vm items = Inr d"
  shows "0 \<le> td_value d" and "0 \<le> td_nonce d" and "0 \<le> td_v d"
  using assms by (auto simp: transaction_of_fields_def sum_bind_Inr_iff parseBigInt_def Let_def split: if_splits)

lemma transaction_fromSerialized_Inr:
  assumes "transaction_fromSerialized ts bs = Inr (c, d, b)"
  shows "b = bs" and "ts_address ts (cd_senderPublicKey c) = Inr (cd_from c)" and "0 \<le> td_value d" and "0 \<le> td_nonce d" and "0 \<le> td_v d"
proof -
  have d: "deserialize_transaction (ts_viem ts) bs = Inr d" "computeCryptoData ts d = Inr c" "b = bs"
    using assms by (auto simp: transaction_fromSerialized_def sum_bind_Inr_iff split: sum.splits option.splits)
  then show "b = bs" "ts_address ts (cd_senderPublicKey c) = Inr (cd_from c)"
    by (auto simp: computeCryptoData_def Let_def sum_bind_Inr_iff split: if_splits)
  obtain items where "transaction_of_fields (ts_viem ts) items = Inr d"
    using d(1) by (auto simp: deserialize_transaction_def sum_bind_Inr_iff split: if_splits)
  from transaction_of_fields_numbers [OF this] show "0 \<le> td_value d" "0 \<le> td_nonce d" "0 \<le> td_v d" .
qed

section \<open>Data\<close>

record transaction_storage =
  stx_from :: string
  stx_senderPublicKey :: string
  stx_legacyAddress :: string
  stx_to :: "string option"
  stx_gasLimit :: nat
  stx_gasPrice :: nat
  stx_value :: int
  stx_nonce :: nat
  stx_data :: bytes
  stx_txHash :: string
  stx_index :: nat
  stx_blockNumber :: nat
  stx_v :: nat
  stx_r :: string
  stx_s :: string
  stx_legacySecondSignature :: "string option"

record proof_storage =
  spr_round :: nat
  spr_signature :: string
  spr_validatorSet :: int

record commit_storage =
  scm_proof :: proof_storage
  scm_header :: block_header
  scm_transactions :: "transaction_storage list"

section \<open>Taking a commit apart\<close>

definition transaction_data_of :: "nat \<Rightarrow> nat \<Rightarrow> transaction \<Rightarrow> transaction_storage" where
  "transaction_data_of number index t =
     \<lparr>stx_from = tx_from t, stx_senderPublicKey = tx_senderPublicKey t, stx_legacyAddress = tx_senderLegacyAddress t, stx_to = tx_to t,
      stx_gasLimit = tx_gasLimit t, stx_gasPrice = tx_gasPrice t, stx_value = tx_value t, stx_nonce = tx_nonce t,
      stx_data = from_hex (drop 2 (tx_data t)), stx_txHash = tx_hash t, stx_index = index, stx_blockNumber = number, stx_v = tx_v t,
      stx_r = tx_r t, stx_s = tx_s t, stx_legacySecondSignature = tx_legacySecondSignature t\<rparr>"

definition prepareCommitData :: "commit \<Rightarrow> commit_storage" where
  "prepareCommitData c =
     (let block = cm_block c; proof = cm_proof c; number = bh_number (bk_header block)
      in \<lparr>scm_proof = \<lparr>spr_round = cp_round proof, spr_signature = cp_signature proof, spr_validatorSet = validatorSetPack (cp_validators proof)\<rparr>,
          scm_header = bk_header block,
          scm_transactions = map (\<lambda>(i, t). transaction_data_of number i t) (enumerate 0 (bk_transactions block))\<rparr>)"

section \<open>The tables\<close>

record chain_db =
  db_commits :: "(nat, commit_storage) jsmap"
  db_hashNumber :: "(string, nat) jsmap"
  db_transactionKey :: "(string, nat \<times> nat) jsmap"
  db_totalRound :: nat

definition empty_chain_db :: chain_db where
  "empty_chain_db = \<lparr>db_commits = [], db_hashNumber = [], db_transactionKey = [], db_totalRound = 0\<rparr>"

text \<open>The part of \<open>commit_to_db\<close> that writes the commit data under the block number of the commit key. The deployment of the contracts
  commits under the number \<open>2 ^ 32 + 1\<close>, which no block has, and without commit data, so it is not in these tables.\<close>

definition db_commit :: "nat \<Rightarrow> commit_storage \<Rightarrow> chain_db \<Rightarrow> error + chain_db" where
  "db_commit number data db =
     (if map_has (db_commits db) number then Inl (JsError ''block already committed'')
      else Inr (db\<lparr>db_commits := map_set (db_commits db) number data,
        db_hashNumber := map_set (db_hashNumber db) (bh_hash (scm_header data)) number,
        db_transactionKey := fold (\<lambda>(i, t) m. map_set m (stx_txHash t) (number, i)) (enumerate 0 (scm_transactions data)) (db_transactionKey db),
        db_totalRound := db_totalRound db + spr_round (scm_proof data) + 1\<rparr>))"

definition last_number :: "chain_db \<Rightarrow> nat" where
  "last_number db = fold max (map fst (db_commits db)) 0"

definition db_getState :: "chain_db \<Rightarrow> nat \<times> nat" where
  "db_getState db = (last_number db, db_totalRound db)"

definition db_isEmpty :: "chain_db \<Rightarrow> bool" where
  "db_isEmpty db \<longleftrightarrow> db_commits db = []"

definition db_getCommitData :: "chain_db \<Rightarrow> nat \<Rightarrow> commit_storage option" where
  "db_getCommitData db number = map_get (db_commits db) number"

definition db_getTransactionData :: "chain_db \<Rightarrow> nat \<times> nat \<Rightarrow> transaction_storage option" where
  "db_getTransactionData db key =
     (case map_get (db_commits db) (fst key) of
        None \<Rightarrow> None
      | Some data \<Rightarrow> if snd key < length (scm_transactions data) then Some (scm_transactions data ! snd key) else None)"

text \<open>The loop of \<open>get_commits_by_block_range\<close> over the stored blocks in the order of their numbers.\<close>

fun range_loop :: "nat \<Rightarrow> nat \<Rightarrow> (nat \<times> commit_storage) list \<Rightarrow> commit_storage list" where
  "range_loop maxBytes accumulated [] = []"
| "range_loop maxBytes accumulated ((_, data) # rest) =
     (let accumulated = accumulated + (bh_payloadSize (scm_header data) + 1024)
      in if accumulated > maxBytes then [] else data # range_loop maxBytes accumulated rest)"

definition db_getCommitsByBlockRange :: "chain_db \<Rightarrow> nat \<Rightarrow> nat \<Rightarrow> nat \<Rightarrow> error + commit_storage list" where
  "db_getCommitsByBlockRange db from to maxBytes =
     (if from > to then Inl (JsError ''from_block_number must be <= to_block_number'')
      else if maxBytes = 0 then Inl (JsError ''max_bytes must be > 0'')
      else Inr (range_loop maxBytes 0 (sort_key fst (filter (\<lambda>(k, _). from \<le> k \<and> k \<le> to) (db_commits db)))))"

section \<open>Putting a commit together\<close>

record storage_services =
  sx_viem :: viem
  sx_config :: network_config
  sx_legacyAddress :: "string \<Rightarrow> error + string"

definition stored_data :: "storage_services \<Rightarrow> transaction_storage \<Rightarrow> transaction_data" where
  "stored_data sx t = \<lparr>td_network = int (nc_chainId (sx_config sx)), td_to = stx_to t, td_value = stx_value t, td_gasPrice = stx_gasPrice t,
     td_gasLimit = stx_gasLimit t, td_nonce = int (stx_nonce t), td_data = ''0x'' @ to_hex (stx_data t), td_v = int (stx_v t), td_r = stx_r t,
     td_s = stx_s t, td_legacySecondSignature = stx_legacySecondSignature t\<rparr>"

definition transaction_fromStorage :: "storage_services \<Rightarrow> transaction_storage \<Rightarrow> error + transaction" where
  "transaction_fromStorage sx t =
     sum_bind (if stx_legacyAddress t \<noteq> [] then Inr (stx_legacyAddress t) else sx_legacyAddress sx (stx_senderPublicKey t)) (\<lambda>legacyAddress.
     sum_bind (serialize_transaction (sx_viem sx) (stored_data sx t)) (\<lambda>serialized.
       Inr \<lparr>tx_network = int (nc_chainId (sx_config sx)), tx_to = stx_to t, tx_value = stx_value t, tx_gasPrice = stx_gasPrice t, tx_gasLimit = stx_gasLimit t,
         tx_nonce = stx_nonce t, tx_data = ''0x'' @ to_hex (stx_data t), tx_v = stx_v t, tx_r = stx_r t, tx_s = stx_s t,
         tx_legacySecondSignature = stx_legacySecondSignature t, tx_hash = stx_txHash t, tx_from = stx_from t,
         tx_senderPublicKey = stx_senderPublicKey t, tx_senderLegacyAddress = legacyAddress, tx_serialized = serialized\<rparr>))"

definition headerFromStorage :: "block_header \<Rightarrow> block_header" where
  "headerFromStorage h =
     \<lparr>bh_version = bh_version h, bh_timestamp = bh_timestamp h, bh_number = bh_number h, bh_round = bh_round h, bh_parentHash = bh_parentHash h,
      bh_stateRoot = bh_stateRoot h, bh_logsBloom = bh_logsBloom h, bh_transactionsCount = bh_transactionsCount h, bh_gasUsed = bh_gasUsed h,
      bh_fee = bh_fee h, bh_reward = bh_reward h, bh_payloadSize = bh_payloadSize h, bh_transactionsRoot = bh_transactionsRoot h,
      bh_proposer = bh_proposer h, bh_randaoReveal = bh_randaoReveal h, bh_hash = bh_hash h\<rparr>"

definition block_fromStorage :: "storage_services \<Rightarrow> block_header \<Rightarrow> transaction_storage list \<Rightarrow> error + block" where
  "block_fromStorage sx header transactions =
     sum_bind (map_sum (transaction_fromStorage sx) transactions) (\<lambda>parsed.
       let data = headerFromStorage header
       in sum_bind (serializeWithTransactions (sx_viem sx) data (map tx_serialized parsed)) (\<lambda>serialized.
            Inr \<lparr>bk_header = data, bk_serialized = to_hex serialized, bk_transactions = parsed\<rparr>))"

definition commit_fromStorage :: "storage_services \<Rightarrow> commit_storage \<Rightarrow> error + commit" where
  "commit_fromStorage sx data =
     sum_bind (block_fromStorage sx (scm_header data) (scm_transactions data)) (\<lambda>block.
     sum_bind (milestone_of (sx_config sx) (bh_number (bk_header block))) (\<lambda>m.
     sum_bind (case ms_roundValidators m of
         None \<Rightarrow> Inl (RangeError ''numberOfValidators must be a non-negative integer'')
       | Some n \<Rightarrow> validatorSetUnpack (spr_validatorSet (scm_proof data)) n) (\<lambda>validators.
       let proof = \<lparr>cp_round = spr_round (scm_proof data), cp_signature = spr_signature (scm_proof data), cp_validators = validators\<rparr>
       in sum_bind (serializeCommit (sx_viem sx) proof block) (\<lambda>serialized.
            Inr \<lparr>cm_block = block, cm_proof = proof, cm_serialized = to_hex serialized\<rparr>))))"

section \<open>Database service\<close>

record database_state =
  dt_blockNumber :: nat
  dt_totalRound :: nat

definition database_initialize :: "chain_db \<Rightarrow> database_state" where
  "database_initialize db = \<lparr>dt_blockNumber = fst (db_getState db), dt_totalRound = snd (db_getState db)\<rparr>"

definition database_onCommit :: "commit \<Rightarrow> database_state \<Rightarrow> database_state" where
  "database_onCommit c s = s\<lparr>dt_blockNumber := bh_number (bk_header (cm_block c)), dt_totalRound := dt_totalRound s + (cp_round (cm_proof c) + 1)\<rparr>"

definition hasCommitByHash :: "chain_db \<Rightarrow> string \<Rightarrow> bool" where
  "hasCommitByHash db hash \<longleftrightarrow> map_get (db_hashNumber db) hash \<noteq> None"

definition getBlock :: "storage_services \<Rightarrow> chain_db \<Rightarrow> nat \<Rightarrow> error + block option" where
  "getBlock sx db number =
     (case db_getCommitData db number of
        None \<Rightarrow> Inr None
      | Some data \<Rightarrow> sum_bind (commit_fromStorage sx data) (\<lambda>c. Inr (Some (cm_block c))))"

definition getBlockByHash :: "storage_services \<Rightarrow> chain_db \<Rightarrow> string \<Rightarrow> error + block option" where
  "getBlockByHash sx db hash = (case map_get (db_hashNumber db) hash of None \<Rightarrow> Inr None | Some n \<Rightarrow> getBlock sx db n)"

definition getBlockHeader :: "chain_db \<Rightarrow> nat \<Rightarrow> block_header option" where
  "getBlockHeader db number = map_option (\<lambda>data. headerFromStorage (scm_header data)) (db_getCommitData db number)"

definition getBlockHeaderByHash :: "chain_db \<Rightarrow> string \<Rightarrow> block_header option" where
  "getBlockHeaderByHash db hash = (case map_get (db_hashNumber db) hash of None \<Rightarrow> None | Some n \<Rightarrow> getBlockHeader db n)"

definition readCommits :: "storage_services \<Rightarrow> chain_db \<Rightarrow> nat \<Rightarrow> nat \<Rightarrow> nat \<Rightarrow> error + commit list" where
  "readCommits sx db start stop maxBytes =
     (if start > stop then Inl (JsError ''start must be <= end'')
      else if maxBytes = 0 then Inl (JsError ''maxBytes must be > 0'')
      else sum_bind (db_getCommitsByBlockRange db start stop maxBytes) (map_sum (commit_fromStorage sx)))"

definition findCommitBuffers :: "storage_services \<Rightarrow> chain_db \<Rightarrow> nat \<Rightarrow> nat \<Rightarrow> nat \<Rightarrow> error + bytes list" where
  "findCommitBuffers sx db start stop maxBytes = sum_bind (readCommits sx db start stop maxBytes) (\<lambda>cs. Inr (map (\<lambda>c. from_hex (cm_serialized c)) cs))"

definition findBlocks :: "storage_services \<Rightarrow> chain_db \<Rightarrow> nat \<Rightarrow> nat \<Rightarrow> error + block list" where
  "findBlocks sx db start stop = sum_bind (readCommits sx db start stop (2 ^ 53 - 1)) (\<lambda>cs. Inr (map cm_block cs))"

definition readTransaction :: "storage_services \<Rightarrow> chain_db \<Rightarrow> nat \<times> nat \<Rightarrow> error + transaction option" where
  "readTransaction sx db key =
     (case db_getTransactionData db key of
        None \<Rightarrow> Inr None
      | Some t \<Rightarrow> (case db_getCommitData db (stx_blockNumber t) of
          None \<Rightarrow> Inl AssertError
        | Some _ \<Rightarrow> sum_bind (transaction_fromStorage sx t) (\<lambda>tx. Inr (Some tx))))"

definition getTransactionByHash :: "storage_services \<Rightarrow> chain_db \<Rightarrow> string \<Rightarrow> error + transaction option" where
  "getTransactionByHash sx db hash = (case map_get (db_transactionKey db) hash of None \<Rightarrow> Inr None | Some key \<Rightarrow> readTransaction sx db key)"

definition getTransactionByBlockHashAndIndex :: "storage_services \<Rightarrow> chain_db \<Rightarrow> string \<Rightarrow> nat \<Rightarrow> error + transaction option" where
  "getTransactionByBlockHashAndIndex sx db hash index =
     (case map_get (db_hashNumber db) hash of None \<Rightarrow> Inr None | Some n \<Rightarrow> readTransaction sx db (n, index))"

definition getTransactionByBlockNumberAndIndex :: "storage_services \<Rightarrow> chain_db \<Rightarrow> nat \<Rightarrow> nat \<Rightarrow> error + transaction option" where
  "getTransactionByBlockNumberAndIndex sx db number index = readTransaction sx db (number, index)"

definition getLastCommit :: "storage_services \<Rightarrow> chain_db \<Rightarrow> database_state \<Rightarrow> error + commit" where
  "getLastCommit sx db s =
     (if db_isEmpty db then Inl (JsError ''Database is empty'')
      else case db_getCommitData db (dt_blockNumber s) of None \<Rightarrow> Inl AssertError | Some data \<Rightarrow> commit_fromStorage sx data)"

section \<open>Blocks read from bytes\<close>

lemma read_block_canonical:
  assumes "viem_law vm" and "deserializeWithTransactions vm sha256 fromBytes bs = Inr (h, ts)" and "bh_transactionsCount h = length ts"
  obtains txs where "map_sum fromBytes txs = Inr ts" and "wire_block vm h txs" and "bs = values_enc vm blockHeaderSchema (header_values h) @ transactions_enc txs"
proof -
  from assms(2) obtain header b b1 where r: "deserializeBufferHeader vm (fromBuffer bs) = Inr (header, b)"
    "(if getRemainderLength b > 0 then deserializeTransactions vm fromBytes header b else Inr ([], b)) = Inr (ts, b1)"
    "getRemainderLength b1 = 0" "with_hash vm sha256 header = Inr h"
    by (auto simp: deserializeWithTransactions_def sum_bind_Inr_iff split: if_splits)
  from deserializeBufferHeader_Inr [OF assms(1) r(1)] obtain g where g: "header = assign blockHeaderSchema (header_values g) []" "wire_header vm g"
    "bs = values_enc vm blockHeaderSchema (header_values g) @ getRemainder b" "length (getRemainder b) = bh_payloadSize g" "bb_ok b" by blast
  obtain hash where h: "h = g\<lparr>bh_hash := hash\<rparr>" using r(4) with_hash_values [OF assms(1) g(2), of sha256] g(1) by auto
  have same: "header_values h = header_values g" "wire_header vm h" "bh_payloadSize h = bh_payloadSize g" "bh_transactionsCount h = bh_transactionsCount g"
    using g(2) by (simp_all add: h wire_header_def)
  show ?thesis
  proof (cases "getRemainderLength b > 0")
    case False
    then have e: "getRemainder b = []" "ts = []" using r(2) by (simp add: remainder_empty, simp)
    show ?thesis by (rule that [of "[]"]) (use e same g assms(3) in \<open>auto simp: wire_block_def\<close>)
  next
    case True
    then obtain data where d: "deserialize vm transactionsSchema header b = Inr (data, b1)" "map_sum fromBytes (as_buffers (object_get data ''transactions'')) = Inr ts"
      using r(2) by (auto simp: deserializeTransactions_def sum_bind_Inr_iff)
    from deserialize_canonical [OF assms(1) g(5) d(1)] obtain vs where vs: "values_ok vm transactionsSchema header vs" "data = assign transactionsSchema vs header"
      "consumed b (values_enc vm transactionsSchema vs) b1" by blast
    from vs(1) obtain txs where txs: "vs = [V_Buffers txs]" "length txs = bh_transactionsCount g" "\<forall>t \<in> set txs. length t < 2 ^ 32"
      unfolding g(1) by (auto simp: transactionsSchema_def property_ok_def blockHeaderSchema_def length_Suc_conv elim!: values_ok.elims)
    have "getRemainder b = transactions_enc txs" using vs(3) r(3) txs(1) by (simp add: consumed_def remainder_empty transactions_enc_values)
    moreover have "object_get data ''transactions'' = V_Buffers txs" using vs(2) txs(1) by (simp add: transactionsSchema_def)
    ultimately show ?thesis using d(2) same g txs by (intro that [of txs]) (auto simp: wire_block_def)
  qed
qed

section \<open>Round trip\<close>

text \<open>The encoding the serializer writes for a transaction with ordinary fields.\<close>

definition own_encoding :: "storage_services \<Rightarrow> transaction \<Rightarrow> bytes \<Rightarrow> bool" where
  "own_encoding sx t e \<longleftrightarrow> tx_network t = int (nc_chainId (sx_config sx)) \<and> tx_data t = ''0x'' @ to_hex (from_hex (drop 2 (tx_data t)))
     \<and> tx_senderLegacyAddress t \<noteq> [] \<and> tx_legacySecondSignature t \<noteq> Some []
     \<and> serialize_transaction (sx_viem sx) (transaction_toData t) = Inr e"

definition canonical_transaction :: "storage_services \<Rightarrow> transaction \<Rightarrow> bool" where
  "canonical_transaction sx t \<longleftrightarrow> own_encoding sx t (tx_serialized t)"

lemma headerFromStorage_id [simp]: "headerFromStorage h = h"
  by (simp add: headerFromStorage_def)

lemma stored_data_of:
  assumes "tx_network t = int (nc_chainId (sx_config sx))" and "tx_data t = ''0x'' @ to_hex (from_hex (drop 2 (tx_data t)))" and "tx_legacySecondSignature t \<noteq> Some []"
  shows "stored_data sx (transaction_data_of n i t) = transaction_toData t"
  using assms by (simp add: stored_data_def transaction_data_of_def transaction_toData_def)

lemma transaction_reencoded:
  assumes "own_encoding sx t e"
  shows "transaction_fromStorage sx (transaction_data_of n i t) = Inr (t\<lparr>tx_serialized := e\<rparr>)"
proof -
  have c: "tx_network t = int (nc_chainId (sx_config sx))" "tx_data t = ''0x'' @ to_hex (from_hex (drop 2 (tx_data t)))" "tx_senderLegacyAddress t \<noteq> []"
    "tx_legacySecondSignature t \<noteq> Some []" "serialize_transaction (sx_viem sx) (transaction_toData t) = Inr e"
    using assms unfolding own_encoding_def by blast+
  show ?thesis unfolding transaction_fromStorage_def stored_data_of [OF c(1,2,4)] c(5) using c(1,2,3) by (simp add: transaction_data_of_def)
qed

lemma transactions_reencoded:
  assumes "list_all2 (own_encoding sx) ts es"
  shows "map_sum (transaction_fromStorage sx) (map (\<lambda>(i, t). transaction_data_of n i t) (enumerate k ts)) = Inr (map2 (\<lambda>t e. t\<lparr>tx_serialized := e\<rparr>) ts es)"
  using assms by (induction arbitrary: k) (simp_all add: transaction_reencoded)

lemma transactions_stored:
  assumes "\<forall>t \<in> set ts. canonical_transaction sx t"
  shows "map_sum (transaction_fromStorage sx) (map (\<lambda>(i, t). transaction_data_of n i t) (enumerate k ts)) = Inr ts"
proof -
  have "list_all2 (own_encoding sx) ts (map tx_serialized ts)" using assms by (simp add: canonical_transaction_def list_all2_conv_all_nth)
  moreover have "map2 (\<lambda>t e. t\<lparr>tx_serialized := e\<rparr>) ts (map tx_serialized ts) = ts" by (induction ts) simp_all
  ultimately show ?thesis using transactions_reencoded [of sx ts "map tx_serialized ts" n k] by simp
qed

lemma commit_of_stored_block:
  assumes "block_fromStorage sx (bk_header (cm_block c)) (scm_transactions (prepareCommitData c)) = Inr b" and "bk_header b = bk_header (cm_block c)"
    and "milestone_of (sx_config sx) (bh_number (bk_header (cm_block c))) = Inr m" and "ms_roundValidators m = Some (length (cp_validators (cm_proof c)))"
    and "serializeCommit (sx_viem sx) (cm_proof c) b = Inr bs"
  shows "commit_fromStorage sx (prepareCommitData c) = Inr \<lparr>cm_block = b, cm_proof = cm_proof c, cm_serialized = to_hex bs\<rparr>"
proof -
  have "scm_header (prepareCommitData c) = bk_header (cm_block c)" "spr_validatorSet (scm_proof (prepareCommitData c)) = validatorSetPack (cp_validators (cm_proof c))"
    "spr_round (scm_proof (prepareCommitData c)) = cp_round (cm_proof c)" "spr_signature (scm_proof (prepareCommitData c)) = cp_signature (cm_proof c)"
    by (simp_all add: prepareCommitData_def Let_def)
  moreover have "validatorSetUnpack (validatorSetPack xs) (length xs) = Inr xs" for xs using unpack_pack by blast
  ultimately show ?thesis using assms by (cases "cm_proof c") (simp add: commit_fromStorage_def Let_def)
qed

lemma wrong_payload_size:
  assumes "viem_law vm" and "wire_header vm h" and "length rest \<noteq> bh_payloadSize h"
  shows "\<exists>err. deserializeWithTransactions vm sha256 fromBytes (values_enc vm blockHeaderSchema (header_values h) @ rest) = Inl err"
proof -
  let ?bs = "values_enc vm blockHeaderSchema (header_values h) @ rest"
  obtain b where b: "deserialize vm blockHeaderSchema [] (fromBuffer ?bs) = Inr (assign blockHeaderSchema (header_values h) [], b)"
    "consumed (fromBuffer ?bs) (values_enc vm blockHeaderSchema (header_values h)) b"
    using deserialize_consumes [OF assms(1) header_values_ok [OF assms(2)] fromBuffer_simps(1), of ?bs rest] by auto
  have "getRemainder b = rest" using b(2) by (simp add: consumed_def)
  moreover have "as_nat (object_get (assign blockHeaderSchema (header_values h) []) ''payloadSize'') = bh_payloadSize h"
    by (simp add: blockHeaderSchema_def)
  ultimately show ?thesis
    using b(1) assms(3) length_getRemainder [of b] by (simp add: deserializeWithTransactions_def deserializeBufferHeader_def)
qed

lemma map_sum_serialized:
  assumes "\<And>b t. fromBytes b = Inr t \<Longrightarrow> tx_serialized t = b"
  shows "map_sum fromBytes txs = Inr ts \<Longrightarrow> map tx_serialized ts = txs"
  by (induction txs arbitrary: ts) (auto simp: sum_bind_Inr_iff assms)

lemma read_block_serialized:
  assumes "viem_law vm" and "\<And>b t. fromBytes b = Inr t \<Longrightarrow> tx_serialized t = b"
    and "blockFromBytes vm sha256 fromBytes verifyBlock bs = Inr blk" and "bh_transactionsCount (bk_header blk) = length (bk_transactions blk)"
  shows "wire_block vm (bk_header blk) (map tx_serialized (bk_transactions blk))"
    and "serializeWithTransactions vm (bk_header blk) (map tx_serialized (bk_transactions blk)) = Inr bs" and "bk_serialized blk = to_hex bs"
proof -
  from assms(3) have r: "deserializeWithTransactions vm sha256 fromBytes bs = Inr (bk_header blk, bk_transactions blk)" and "bk_serialized blk = to_hex bs"
    by (auto simp: blockFromBytes_def sum_bind_Inr_iff split: option.splits)
  then show "bk_serialized blk = to_hex bs" by simp
  from read_block_canonical [OF assms(1) r assms(4)] obtain txs where t: "map_sum fromBytes txs = Inr (bk_transactions blk)" "wire_block vm (bk_header blk) txs"
    "bs = values_enc vm blockHeaderSchema (header_values (bk_header blk)) @ transactions_enc txs" .
  have "map tx_serialized (bk_transactions blk) = txs" by (rule map_sum_serialized [OF assms(2) t(1)])
  with t serializeWithTransactions_enc [OF assms(1) t(2)]
  show "wire_block vm (bk_header blk) (map tx_serialized (bk_transactions blk))"
    "serializeWithTransactions vm (bk_header blk) (map tx_serialized (bk_transactions blk)) = Inr bs" by simp_all
qed

text \<open>C12 (roundtrip). A commit that was read from the network and stored is put together again exactly as it was, its bytes included, if its transactions
  came in the encoding the serializer writes.\<close>

theorem commit_survives_storage:
  assumes "viem_law (sv_viem sv)" and "\<And>b t. sv_transaction sv b = Inr t \<Longrightarrow> tx_serialized t = b" and "sx_viem sx = sv_viem sv"
    and "commitFromBytes sv bs = Inr c" and "bh_transactionsCount (bk_header (cm_block c)) = length (bk_transactions (cm_block c))"
    and "milestone_of (sx_config sx) (bh_number (bk_header (cm_block c))) = Inr m" and "ms_roundValidators m = Some (length (cp_validators (cm_proof c)))"
    and "\<forall>t \<in> set (bk_transactions (cm_block c)). canonical_transaction sx t"
  shows "commit_fromStorage sx (prepareCommitData c) = Inr c"
proof -
  let ?b = "cm_block c"
  have r: "serializeCommit (sv_viem sv) (cm_proof c) ?b = Inr bs" "cm_serialized c = to_hex bs"
    "blockFromBytes (sv_viem sv) (sv_sha256 sv) (sv_transaction sv) (sv_verifyBlock sv) (drop proofSize bs) = Inr ?b"
    using commitFromBytes_iff [OF assms(1)] assms(4) by blast+
  note b = read_block_serialized [OF assms(1,2) r(3) assms(5)]
  have "block_fromStorage sx (bk_header ?b) (scm_transactions (prepareCommitData c)) = Inr ?b"
    using b(2,3) assms(3) transactions_stored [OF assms(8)] by (simp add: block_fromStorage_def prepareCommitData_def Let_def)
  from commit_of_stored_block [OF this refl assms(6,7)] r(1,2) assms(3) show ?thesis by (cases c) simp
qed

text \<open>C13 (error). A block whose transactions came in a longer encoding than their own is accepted, but only the fields of the transactions are stored. Put
  together again its header announces more bytes than the transactions take, and no node can read it.\<close>

theorem longer_encoding_makes_stored_block_unreadable:
  assumes "viem_law (sv_viem sv)" and "\<And>b t. sv_transaction sv b = Inr t \<Longrightarrow> tx_serialized t = b" and "sx_viem sx = sv_viem sv"
    and "commitFromBytes sv bs = Inr c" and "bh_transactionsCount (bk_header (cm_block c)) = length (bk_transactions (cm_block c))"
    and "milestone_of (sx_config sx) (bh_number (bk_header (cm_block c))) = Inr m" and "ms_roundValidators m = Some (length (cp_validators (cm_proof c)))"
    and "list_all2 (own_encoding sx) (bk_transactions (cm_block c)) es" and "\<forall>e \<in> set es. length e < 2 ^ 32"
    and "length (transactions_enc es) < length (transactions_enc (map tx_serialized (bk_transactions (cm_block c))))"
  shows "\<exists>c'. commit_fromStorage sx (prepareCommitData c) = Inr c' \<and> bk_header (cm_block c') = bk_header (cm_block c)
    \<and> (\<forall>sha256 fromBytes. \<exists>err. deserializeWithTransactions (sv_viem sv) sha256 fromBytes (from_hex (bk_serialized (cm_block c'))) = Inl err)"
proof -
  let ?b = "cm_block c" and ?vm = "sv_viem sv"
  let ?h = "bk_header ?b" and ?ts = "map2 (\<lambda>t e. t\<lparr>tx_serialized := e\<rparr>) (bk_transactions ?b) es"
  have r: "wire_commit_proof ?vm (cm_proof c)" "blockFromBytes ?vm (sv_sha256 sv) (sv_transaction sv) (sv_verifyBlock sv) (drop proofSize bs) = Inr ?b"
    using commitFromBytes_iff [OF assms(1)] assms(4) by blast+
  have wire: "wire_header ?vm ?h" "bh_payloadSize ?h = length (transactions_enc (map tx_serialized (bk_transactions ?b)))"
    using read_block_serialized(1) [OF assms(1,2) r(2) assms(5)] by (simp_all add: wire_block_def)
  have len: "length (bk_transactions ?b) = length es" by (rule list_all2_lengthD [OF assms(8)])
  have es: "map tx_serialized ?ts = es" "length ?ts = length es" using len by (auto simp: map_nth intro!: nth_equalityI)
  define serialized where "serialized = values_enc ?vm blockHeaderSchema (header_values ?h) @ transactions_enc es"
  have ser: "serializeWithTransactions ?vm ?h es = Inr serialized"
    unfolding serialized_def by (rule serializeWithTransactions_fits [OF assms(1) wire(1) _ assms(9)]) (use assms(5,10) len wire(2) in simp_all)
  let ?b' = "\<lparr>bk_header = ?h, bk_serialized = to_hex serialized, bk_transactions = ?ts\<rparr>"
  have "block_fromStorage sx ?h (scm_transactions (prepareCommitData c)) = Inr ?b'"
    using ser es(1) assms(3) transactions_reencoded [OF assms(8)] by (simp add: block_fromStorage_def prepareCommitData_def Let_def)
  moreover have "serializeCommit ?vm (cm_proof c) ?b' = Inr (commit_proof_enc ?vm (cm_proof c) @ serialized)"
    by (simp add: serializeCommit_def serializeCommitProof_enc [OF assms(1) r(1)])
  ultimately have "commit_fromStorage sx (prepareCommitData c) = Inr \<lparr>cm_block = ?b', cm_proof = cm_proof c, cm_serialized = to_hex (commit_proof_enc ?vm (cm_proof c) @ serialized)\<rparr>"
    using commit_of_stored_block [of sx c ?b' m] assms(3,6,7) by simp
  moreover have "\<exists>err. deserializeWithTransactions ?vm sha256 fromBytes serialized = Inl err" for sha256 fromBytes
    unfolding serialized_def by (rule wrong_payload_size [OF assms(1) wire(1)]) (use assms(10) wire(2) in simp)
  ultimately show ?thesis by auto
qed

section \<open>A sample commit\<close>

definition sample_transaction_services :: transaction_services where
  "sample_transaction_services = \<lparr>ts_viem = sample_viem, ts_keccak256 = sample_sha256, ts_isLowS = (\<lambda>_. True), ts_recoverPublicKey = (\<lambda>_ _. Inr ''02''),
     ts_verifyRecoverable = (\<lambda>_ _ _. True), ts_address = (\<lambda>_. Inr ''0x''), ts_legacyAddress = (\<lambda>_. Inr ''D''),
     ts_verifySchemaSigned = (\<lambda>_. None), ts_verifySchemaStrict = (\<lambda>_ _. None)\<rparr>"

definition sample_wire :: services where
  "sample_wire = sample_services\<lparr>sv_transaction := transaction_fromBytes sample_transaction_services\<rparr>"

definition sample_storage :: storage_services where
  "sample_storage = \<lparr>sx_viem = sample_viem, sx_config = \<lparr>nc_genesisNumber = 0, nc_milestones = [\<lparr>ms_height = 0, ms_roundValidators = Some 4, ms_timeouts = None,
     ms_block = None, ms_reward = None, ms_snapshot = None, ms_evmSpec = None, ms_validatorRegistrationFee = None\<rparr>], nc_chainId = 11\<rparr>,
     sx_legacyAddress = (\<lambda>_. Inr ''D'')\<rparr>"

text \<open>The sample transaction with further items at the end of its list.\<close>

definition sample_encoded :: "bytes list \<Rightarrow> bytes" where
  "sample_encoded xs = rlp_list (nine_items sample_viem sample_tx @ xs)"

lemma sample_encoded_read:
  assumes "xs = [] \<or> xs = [[1], [2]]"
  shows "deserialize_transaction sample_viem (sample_encoded xs) = Inr sample_tx"
proof -
  have "small_list (nine_items sample_viem sample_tx @ xs)" using assms unfolding sample_tx_items by (auto simp: small_list_def rlp_bytes_def rlp_header_def)
  moreover have "length (nine_items sample_viem sample_tx @ xs) \<le> 11" using assms by (auto simp: nine_items_def)
  ultimately show ?thesis unfolding sample_encoded_def
    using deserialize_rlp_list nine_items_parse [OF sample_viem_law sample_hex_law sample_wire_tx, of xs] assms by (auto simp: sample_tx_def)
qed

lemma sample_encoded_length: "length (sample_encoded []) = 82" "length (sample_encoded [[1], [2]]) = 84"
  unfolding sample_encoded_def sample_tx_items by (simp_all add: rlp_list_def rlp_bytes_def rlp_header_def le_min.simps Let_def)

lemma sample_encoded_own: "serialize_transaction sample_viem sample_tx = Inr (sample_encoded [])"
  using serialize_transaction_items [OF sample_viem_law sample_hex_law sample_wire_tx]
  by (simp add: sample_encoded_def second_signature_items_def) (simp add: sample_tx_def)

lemma sample_crypto: "\<exists>c. computeCryptoData sample_transaction_services sample_tx = Inr c \<and> cd_senderLegacyAddress c = ''D''"
proof -
  have "toHash sample_viem sample_sha256 sample_tx = Inr (sample_sha256 (sample_encoded []))"
    using sample_encoded_own by (simp add: toHash_def sample_tx_def)
  moreover have "\<exists>x. toHashUnsigned sample_viem sample_sha256 sample_tx = Inr x"
    by (simp add: toHashUnsigned_def serializeUnsigned_def sample_tx_def toBytesCompat_def)
  ultimately show ?thesis by (auto simp: computeCryptoData_def sample_transaction_services_def Let_def)
qed

lemma sample_read:
  assumes "xs = [] \<or> xs = [[1], [2]]"
  shows "\<exists>t. transaction_fromBytes sample_transaction_services (sample_encoded xs) = Inr t \<and> tx_serialized t = sample_encoded xs
    \<and> own_encoding sample_storage t (sample_encoded [])"
proof -
  obtain c where c: "computeCryptoData sample_transaction_services sample_tx = Inr c" "cd_senderLegacyAddress c = ''D''" using sample_crypto by blast
  let ?t = "transaction_object (c, sample_tx, sample_encoded xs)"
  have "transaction_fromBytes sample_transaction_services (sample_encoded xs) = Inr ?t"
    using sample_encoded_read [OF assms] c(1)
    by (simp add: transaction_fromBytes_def transaction_fromSerialized_def) (simp add: sample_transaction_services_def)
  moreover have "transaction_toData ?t = sample_tx" by (simp add: transaction_toData_def transaction_object_def sample_tx_def)
  moreover have "tx_data ?t = ''0x'' @ to_hex (from_hex (drop 2 (tx_data ?t)))" "tx_network ?t = 11" "tx_legacySecondSignature ?t = None" "tx_senderLegacyAddress ?t = ''D''"
    by (simp_all add: transaction_object_def sample_tx_def c(2))
  ultimately show ?thesis using sample_encoded_own by (intro exI [of _ ?t]) (simp add: own_encoding_def sample_storage_def transaction_object_def)
qed

lemma sample_committed:
  assumes "xs = [] \<or> xs = [[1], [2]]"
  obtains bs c t where "commitFromBytes sample_wire bs = Inr c" and "bk_transactions (cm_block c) = [t]" and "bh_transactionsCount (bk_header (cm_block c)) = 1"
    and "length (cp_validators (cm_proof c)) = 4" and "tx_serialized t = sample_encoded xs" and "own_encoding sample_storage t (sample_encoded [])"
proof -
  obtain t where t: "transaction_fromBytes sample_transaction_services (sample_encoded xs) = Inr t" "tx_serialized t = sample_encoded xs"
    "own_encoding sample_storage t (sample_encoded [])" using sample_read [OF assms] by blast
  let ?h = "sample_header\<lparr>bh_payloadSize := 4 + length (sample_encoded xs)\<rparr>"
  have small: "length (sample_encoded xs) < 100" using assms sample_encoded_length by auto
  have "wire_block sample_viem ?h [sample_encoded xs]"
    using sample_wire_header small by (simp add: wire_block_def wire_header_def) (simp add: sample_header_def)
  from block_written_and_read [OF sample_viem_law this, of "transaction_fromBytes sample_transaction_services" "[t]" sample_sha256] t(1)
  obtain hb bs where bs: "deserializeWithTransactions sample_viem sample_sha256 (transaction_fromBytes sample_transaction_services) bs
    = Inr (?h\<lparr>bh_hash := to_hex (sample_sha256 hb)\<rparr>, [t])" by auto
  let ?b = "\<lparr>bk_header = ?h\<lparr>bh_hash := to_hex (sample_sha256 hb)\<rparr>, bk_serialized = to_hex bs, bk_transactions = [t]\<rparr>"
  let ?p = "\<lparr>cp_round = 3, cp_signature = to_hex (replicate 96 7), cp_validators = [True, True, False, True]\<rparr>"
  let ?enc = "commit_proof_enc sample_viem ?p"
  let ?c = "\<lparr>cm_block = ?b, cm_proof = ?p, cm_serialized = to_hex (?enc @ bs)\<rparr>"
  have w: "wire_commit_proof sample_viem ?p" by (simp add: wire_commit_proof_def sample_signature wire_flags_def validatorSetPack_value)
  have "serializeCommit sample_viem ?p ?b = Inr (?enc @ bs)" using serializeCommitProof_enc [OF sample_viem_law w] by (simp add: serializeCommit_def)
  moreover have "blockFromBytes sample_viem sample_sha256 (transaction_fromBytes sample_transaction_services) (\<lambda>_ _. None) bs = Inr ?b"
    using bs by (simp add: blockFromBytes_def)
  ultimately have "commitFromBytes sample_wire (?enc @ bs) = Inr ?c"
    using commitFromBytes_iff [of sample_wire "?enc @ bs" ?c] sample_viem_law w commit_proof_enc_length [OF w] by (simp add: sample_wire_def sample_services_def)
  from that [OF this _ _ _ t(2,3)] show ?thesis by (simp add: sample_header_def)
qed

lemma sample_wire_facts:
  "viem_law (sv_viem sample_wire)" "sv_transaction sample_wire b = Inr t \<Longrightarrow> tx_serialized t = b" "sx_viem sample_storage = sv_viem sample_wire"
  "milestone_of (sx_config sample_storage) n = Inr (hd (nc_milestones (sx_config sample_storage)))" "ms_roundValidators (hd (nc_milestones (sx_config sample_storage))) = Some 4"
  using sample_viem_law
  by (auto simp: sample_wire_def sample_storage_def milestone_of_def milestone_at_def transaction_fromBytes_def transaction_object_def sum_bind_Inr_iff
    dest: transaction_fromSerialized_Inr(1))

theorem commit_survives_storage_witness:
  "\<exists>bs c. commitFromBytes sample_wire bs = Inr c \<and> length (bk_transactions (cm_block c)) = 1 \<and> commit_fromStorage sample_storage (prepareCommitData c) = Inr c"
proof -
  obtain bs c t where c: "commitFromBytes sample_wire bs = Inr c" "bk_transactions (cm_block c) = [t]" "bh_transactionsCount (bk_header (cm_block c)) = 1"
    "length (cp_validators (cm_proof c)) = 4" "tx_serialized t = sample_encoded []" "own_encoding sample_storage t (sample_encoded [])"
    using sample_committed [of "[]"] by blast
  have "commit_fromStorage sample_storage (prepareCommitData c) = Inr c"
    by (rule commit_survives_storage [OF sample_wire_facts(1,2,3) c(1) _ sample_wire_facts(4)])
      (use c sample_wire_facts(5) in \<open>simp_all add: canonical_transaction_def\<close>)
  with c show ?thesis by (intro exI [of _ bs] exI [of _ c]) simp
qed

theorem longer_encoding_makes_stored_block_unreadable_witness:
  "\<exists>bs c c' err. commitFromBytes sample_wire bs = Inr c \<and> commit_fromStorage sample_storage (prepareCommitData c) = Inr c'
     \<and> deserializeWithTransactions sample_viem sample_sha256 (sv_transaction sample_wire) (from_hex (bk_serialized (cm_block c'))) = Inl err"
proof -
  obtain bs c t where c: "commitFromBytes sample_wire bs = Inr c" "bk_transactions (cm_block c) = [t]" "bh_transactionsCount (bk_header (cm_block c)) = 1"
    "length (cp_validators (cm_proof c)) = 4" "tx_serialized t = sample_encoded [[1], [2]]" "own_encoding sample_storage t (sample_encoded [])"
    using sample_committed [of "[[1], [2]]"] by blast
  have "\<exists>c'. commit_fromStorage sample_storage (prepareCommitData c) = Inr c' \<and> bk_header (cm_block c') = bk_header (cm_block c)
    \<and> (\<forall>sha256 fromBytes. \<exists>err. deserializeWithTransactions (sv_viem sample_wire) sha256 fromBytes (from_hex (bk_serialized (cm_block c'))) = Inl err)"
    by (rule longer_encoding_makes_stored_block_unreadable [OF sample_wire_facts(1,2,3) c(1) _ sample_wire_facts(4), of "[sample_encoded []]"])
      (use c sample_wire_facts(5) sample_encoded_length in simp_all)
  moreover have "sv_viem sample_wire = sample_viem" by (simp add: sample_wire_def)
  ultimately show ?thesis using c(1) by metis
qed

end
