(* ===== verification/Block_Downloader.thy ===== *)
theory Block_Downloader
  imports Vote_Downloader Chain_Storage
begin

text \<open>
  How a node that is behind gets blocks: \<open>p2p/source/downloader/block-downloader.ts\<close> with \<open>pending-commits.ts\<close>, and the controller of
  the peer (\<open>get-blocks.ts\<close>).

  Ranges of blocks are asked from several peers at once and processed in order. The state is the list of jobs, the requests under way
  and the runs of \<open>#processBlocks\<close>; a run is cut at its awaits: one batch is verified, one commit is processed. What other parts of the
  node say at a step - the stored block, the peers, the payload limit, the verdicts on signatures and commits - is an argument of
  the step. Job objects have identities (\<open>bj_id\<close>).
\<close>

section \<open>State\<close>

datatype job_status = Downloading | ReadyToProcess | Processing

record block_job =
  bj_id :: nat
  bj_peer :: peer
  bj_blockNumberFrom :: nat
  bj_blockNumberTo :: nat
  bj_blocks :: "bytes list"
  bj_status :: job_status

text \<open>A run of \<open>#processBlocks\<close>: the local variables, with the commits of the current batch that are left.\<close>

record block_run =
  rn_job :: block_job
  rn_number :: nat
  rn_bytes :: "bytes list"
  rn_previousBlockHash :: string
  rn_commits :: "commit list"

record block_downloader =
  bd_jobs :: "block_job list"
  bd_requests :: "nat list"
  bd_runs :: "block_run list"
  bd_pending :: "(nat, commit) jsmap"
  bd_banned :: "string list"
  bd_nextId :: nat

record block_env =
  be_storedNumber :: nat
  be_lastHash :: "error + string"
  be_peers :: "peer list"
  be_randomNumber :: "peer list \<Rightarrow> nat"
  be_maxPayload :: nat

definition MAX_DOWNLOAD_BLOCKS :: nat where
  "MAX_DOWNLOAD_BLOCKS = 400"

definition MAX_DOWNLOAD_BLOCKS_JOBS :: nat where
  "MAX_DOWNLOAD_BLOCKS_JOBS = 10"

definition MAX_PAYLOAD_CLIENT :: nat where
  "MAX_PAYLOAD_CLIENT = 5 * 1024 ^ 2"

definition new_block_downloader :: block_downloader where
  "new_block_downloader = \<lparr>bd_jobs = [], bd_requests = [], bd_runs = [], bd_pending = [], bd_banned = [], bd_nextId = 0\<rparr>"

definition blocks_isDownloading :: "block_downloader \<Rightarrow> bool" where
  "blocks_isDownloading d \<longleftrightarrow> bd_jobs d \<noteq> []"

section \<open>Pending commits\<close>

definition pending_add :: "commit list \<Rightarrow> (nat, commit) jsmap \<Rightarrow> (nat, commit) jsmap" where
  "pending_add commits m = fold (\<lambda>c m. map_set m (bh_number (bk_header (cm_block c))) c) commits m"

definition pending_take :: "nat \<Rightarrow> (nat, commit) jsmap \<Rightarrow> commit option \<times> (nat, commit) jsmap" where
  "pending_take number m = (map_get m number, map_delete m number)"

definition pending_has :: "nat \<Rightarrow> (nat, commit) jsmap \<Rightarrow> bool" where
  "pending_has number m = map_has m number"

section \<open>Jobs\<close>

definition getLastRequestedBlockNumber :: "block_env \<Rightarrow> block_downloader \<Rightarrow> nat" where
  "getLastRequestedBlockNumber e d = (if bd_jobs d = [] then be_storedNumber e else bj_blockNumberTo (last (bd_jobs d)))"

definition calculateBlockNumberTo :: "peer \<Rightarrow> nat \<Rightarrow> nat" where
  "calculateBlockNumberTo p lastRequested =
     (if ph_blockNumber (peer_header p) - lastRequested > MAX_DOWNLOAD_BLOCKS then lastRequested + MAX_DOWNLOAD_BLOCKS
      else ph_blockNumber (peer_header p) - 1)"

text \<open>A new job object with its request.\<close>

definition new_job :: "peer \<Rightarrow> nat \<Rightarrow> nat \<Rightarrow> block_downloader \<Rightarrow> block_job" where
  "new_job p numberFrom numberTo d = \<lparr>bj_id = bd_nextId d, bj_peer = p, bj_blockNumberFrom = numberFrom, bj_blockNumberTo = numberTo, bj_blocks = [], bj_status = Downloading\<rparr>"

definition request :: "block_job list \<Rightarrow> block_downloader \<Rightarrow> block_downloader" where
  "request jobs d = d\<lparr>bd_jobs := jobs, bd_requests := bd_requests d @ [bd_nextId d], bd_nextId := bd_nextId d + 1\<rparr>"

definition blocks_download :: "block_env \<Rightarrow> peer \<Rightarrow> block_downloader \<Rightarrow> block_downloader" where
  "blocks_download e p d =
     (let lastRequested = getLastRequestedBlockNumber e d
      in if ph_blockNumber (peer_header p) - 1 \<le> lastRequested \<or> length (bd_jobs d) \<ge> MAX_DOWNLOAD_BLOCKS_JOBS then d
         else request (bd_jobs d @ [new_job p (lastRequested + 1) (calculateBlockNumberTo p lastRequested) d]) d)"

fun index_of :: "nat \<Rightarrow> block_job list \<Rightarrow> nat option" where
  "index_of k [] = None"
| "index_of k (j # js) = (if bj_id j = k then Some 0 else map_option Suc (index_of k js))"

definition replayJob :: "block_env \<Rightarrow> block_job \<Rightarrow> block_downloader \<Rightarrow> block_downloader" where
  "replayJob e job d =
     (case index_of (bj_id job) (bd_jobs d) of
        None \<Rightarrow> d
      | Some index \<Rightarrow>
          (let isFirstJob = (index = 0);
               isSoleJob = (length (bd_jobs d) = 1);
               numberFrom = (if isFirstJob then be_storedNumber e + 1 else bj_blockNumberFrom job);
               required = (if isSoleJob then numberFrom else max numberFrom (bj_blockNumberTo job));
               peers = filter (\<lambda>p. ph_blockNumber (peer_header p) > required) (be_peers e)
           in if peers = [] then d\<lparr>bd_jobs := take index (bd_jobs d)\<rparr>
              else let p = getRandomPeer (be_randomNumber e) peers;
                       numberTo = (if isSoleJob then calculateBlockNumberTo p (numberFrom - 1) else bj_blockNumberTo job)
                   in if isFirstJob \<and> numberFrom > numberTo then d\<lparr>bd_jobs := tl (bd_jobs d)\<rparr>
                      else request ((bd_jobs d)[index := new_job p numberFrom numberTo d]) d))"

definition handleJobError :: "block_env \<Rightarrow> block_job \<Rightarrow> block_downloader \<Rightarrow> block_downloader" where
  "handleJobError e job d =
     (if index_of (bj_id job) (bd_jobs d) = None then d
      else replayJob e job (d\<lparr>bd_banned := bd_banned d @ [peer_ip (bj_peer job)]\<rparr>))"

definition handleMissingBlocks :: "block_env \<Rightarrow> block_job \<Rightarrow> block_downloader \<Rightarrow> block_downloader" where
  "handleMissingBlocks e job d =
     (let size = sum_list (map length (bj_blocks job))
      in replayJob e job (if size + be_maxPayload e < MAX_PAYLOAD_CLIENT then d\<lparr>bd_banned := bd_banned d @ [peer_ip (bj_peer job)]\<rparr> else d))"

definition skipAppliedBlocks :: "bytes list \<Rightarrow> nat \<Rightarrow> nat \<Rightarrow> bytes list \<times> nat" where
  "skipAppliedBlocks bs fromNumber stored =
     (if fromNumber > stored then (bs, fromNumber)
      else let skipCount = min (length bs) (stored - fromNumber + 1) in (drop skipCount bs, fromNumber + skipCount))"

text \<open>\<open>#processNextJob\<close> with \<open>#processBlocks\<close> up to its loop.\<close>

definition processNextJob :: "block_env \<Rightarrow> block_downloader \<Rightarrow> block_downloader" where
  "processNextJob e d =
     (case bd_jobs d of
        [] \<Rightarrow> d
      | job # rest \<Rightarrow>
          if bj_status job \<noteq> ReadyToProcess then d
          else let job1 = job\<lparr>bj_status := Processing\<rparr>; d1 = d\<lparr>bd_jobs := job1 # rest\<rparr>
               in case be_lastHash e of
                    Inl err \<Rightarrow> (handleJobError e job1 d1)\<lparr>bd_pending := []\<rparr>
                  | Inr hash \<Rightarrow>
                      (case skipAppliedBlocks (bj_blocks job) (bj_blockNumberFrom job) (be_storedNumber e) of
                         (bs, number) \<Rightarrow> d1\<lparr>bd_runs := bd_runs d1 @ [\<lparr>rn_job = job1, rn_number = number, rn_bytes = bs, rn_previousBlockHash = hash, rn_commits = []\<rparr>]\<rparr>))"

text \<open>The answer to the request of a job; the job object may have left the list.\<close>

definition blocks_answer :: "block_env \<Rightarrow> nat \<Rightarrow> error + bytes list \<Rightarrow> block_downloader \<Rightarrow> block_downloader" where
  "blocks_answer e k result d =
     (let d1 = d\<lparr>bd_requests := remove1 k (bd_requests d)\<rparr>
      in case result of
           Inr blocks \<Rightarrow> processNextJob e (d1\<lparr>bd_jobs := map (\<lambda>j. if bj_id j = k then j\<lparr>bj_blocks := blocks, bj_status := ReadyToProcess\<rparr> else j) (bd_jobs d1)\<rparr>)
         | Inl err \<Rightarrow> processNextJob e (case index_of k (bd_jobs d1) of None \<Rightarrow> d1 | Some i \<Rightarrow> handleJobError e (bd_jobs d1 ! i) d1))"

section \<open>A run\<close>

text \<open>The next batch: the commits up to the end of the round, with consecutive numbers and valid signatures over the hash of the block before.\<close>

definition run_batch ::
  "network_config \<Rightarrow> (bytes \<Rightarrow> error + commit) \<Rightarrow> (commit \<Rightarrow> string \<Rightarrow> error + bool) \<Rightarrow> block_run \<Rightarrow> error + block_run" where
  "run_batch nc fromBytes hasValidSignature r =
     sum_bind (calculateRound nc (rn_number r)) (\<lambda>info.
       let n = roundHeight info + maxValidators info - rn_number r
       in sum_bind (map_sum fromBytes (take n (rn_bytes r))) (\<lambda>commits.
            sum_bind (verify_batch hasValidSignature (rn_number r) (rn_previousBlockHash r) commits) (\<lambda>commits.
              Inr (r\<lparr>rn_bytes := drop n (rn_bytes r), rn_commits := commits\<rparr>))))"

definition run_commit :: "error + processor_verdict \<Rightarrow> block_run \<Rightarrow> error + block_run" where
  "run_commit verdict r =
     sum_bind verdict (\<lambda>response.
       if response = Result_Invalid then Inl (JsError ''Received block is invalid'')
       else Inr (r\<lparr>rn_number := rn_number r + 1, rn_previousBlockHash := bh_hash (bk_header (cm_block (hd (rn_commits r)))), rn_commits := tl (rn_commits r)\<rparr>))"

text \<open>How a run goes on: with an error its job is handled and its run ends.\<close>

definition run_continues :: "block_env \<Rightarrow> block_run \<Rightarrow> error + block_run \<Rightarrow> block_downloader \<Rightarrow> block_downloader" where
  "run_continues e r result d =
     (case result of
        Inr r1 \<Rightarrow> d\<lparr>bd_runs := map (\<lambda>x. if x = r then r1 else x) (bd_runs d)\<rparr>
      | Inl err \<Rightarrow> (handleJobError e (rn_job r) (d\<lparr>bd_runs := remove1 r (bd_runs d)\<rparr>))\<lparr>bd_pending := []\<rparr>)"

definition blocks_batch ::
  "network_config \<Rightarrow> (bytes \<Rightarrow> error + commit) \<Rightarrow> (commit \<Rightarrow> string \<Rightarrow> error + bool) \<Rightarrow> block_env \<Rightarrow> block_run \<Rightarrow> block_downloader \<Rightarrow> block_downloader" where
  "blocks_batch nc fromBytes hasValidSignature e r d =
     (let result = run_batch nc fromBytes hasValidSignature r
      in run_continues e r result (case result of Inr r1 \<Rightarrow> d\<lparr>bd_pending := pending_add (rn_commits r1) (bd_pending d)\<rparr> | Inl _ \<Rightarrow> d))"

definition blocks_commit :: "block_env \<Rightarrow> error + processor_verdict \<Rightarrow> block_run \<Rightarrow> block_downloader \<Rightarrow> block_downloader" where
  "blocks_commit e verdict r d =
     run_continues e r (run_commit verdict r) (d\<lparr>bd_pending := snd (pending_take (bh_number (bk_header (cm_block (hd (rn_commits r))))) (bd_pending d))\<rparr>)"

definition blocks_finish :: "block_env \<Rightarrow> block_run \<Rightarrow> block_downloader \<Rightarrow> block_downloader" where
  "blocks_finish e r d =
     (let d1 = d\<lparr>bd_runs := remove1 r (bd_runs d), bd_pending := []\<rparr>
      in if bj_blockNumberTo (rn_job r) + 1 \<noteq> rn_number r then handleMissingBlocks e (rn_job r) d1
         else processNextJob e (d1\<lparr>bd_jobs := tl (bd_jobs d1)\<rparr>))"

section \<open>The controller of the peer\<close>

definition get_blocks :: "storage_services \<Rightarrow> chain_db \<Rightarrow> state_store \<Rightarrow> nat \<Rightarrow> nat \<Rightarrow> error + bytes list" where
  "get_blocks sx db st fromBlockNumber limit =
     (if fromBlockNumber > so_blockNumber st then Inr []
      else findCommitBuffers sx db fromBlockNumber (fromBlockNumber + limit - 1) (MAX_PAYLOAD_CLIENT - 512 - limit * 5))"

section \<open>Steps\<close>

text \<open>The log has the pairs of a commit and the hash of the block before that were found validly signed.\<close>

inductive blocks_reach :: "network_config \<Rightarrow> (bytes \<Rightarrow> error + commit) \<Rightarrow> block_downloader \<Rightarrow> (commit \<times> string) set \<Rightarrow> bool" for nc fromBytes where
  created: "blocks_reach nc fromBytes new_block_downloader {}"
| header_seen: "blocks_reach nc fromBytes d log \<Longrightarrow> blocks_reach nc fromBytes (blocks_download e p d) log"
| answered: "blocks_reach nc fromBytes d log \<Longrightarrow> k \<in> set (bd_requests d) \<Longrightarrow> blocks_reach nc fromBytes (blocks_answer e k result d) log"
| batch: "blocks_reach nc fromBytes d log \<Longrightarrow> r \<in> set (bd_runs d) \<Longrightarrow> rn_commits r = [] \<Longrightarrow> rn_bytes r \<noteq> []
    \<Longrightarrow> blocks_reach nc fromBytes (blocks_batch nc fromBytes valid e r d) (log \<union> {(c, h). valid c h = Inr True})"
| commit: "blocks_reach nc fromBytes d log \<Longrightarrow> r \<in> set (bd_runs d) \<Longrightarrow> rn_commits r \<noteq> [] \<Longrightarrow> blocks_reach nc fromBytes (blocks_commit e verdict r d) log"
| finish: "blocks_reach nc fromBytes d log \<Longrightarrow> r \<in> set (bd_runs d) \<Longrightarrow> rn_commits r = [] \<Longrightarrow> rn_bytes r = [] \<Longrightarrow> blocks_reach nc fromBytes (blocks_finish e r d) log"

section \<open>The invariant\<close>

text \<open>Ranges that are not empty and follow each other.\<close>

fun chained :: "block_job list \<Rightarrow> bool" where
  "chained [] = True"
| "chained (j # js) \<longleftrightarrow> bj_blockNumberFrom j \<le> bj_blockNumberTo j \<and> (js \<noteq> [] \<longrightarrow> bj_blockNumberFrom (hd js) = bj_blockNumberTo j + 1) \<and> chained js"

text \<open>What holds of the jobs while the one with identity \<open>k\<close> is being handled.\<close>

definition jobs_ok_but :: "nat option \<Rightarrow> block_downloader \<Rightarrow> bool" where
  "jobs_ok_but k d \<longleftrightarrow> length (bd_jobs d) \<le> MAX_DOWNLOAD_BLOCKS_JOBS \<and> chained (bd_jobs d) \<and> distinct (map bj_id (bd_jobs d)) \<and> distinct (bd_requests d)
     \<and> (\<forall>j \<in> set (bd_jobs d). bj_id j < bd_nextId d) \<and> (\<forall>i \<in> set (bd_requests d). i < bd_nextId d)
     \<and> (\<forall>j \<in> set (bd_jobs d). Some (bj_id j) \<noteq> k \<longrightarrow> (bj_status j = Downloading \<longleftrightarrow> bj_id j \<in> set (bd_requests d)))
     \<and> (\<forall>j \<in> set (tl (bd_jobs d)). bj_status j \<noteq> Processing)"

definition runs_ok :: "block_downloader \<Rightarrow> bool" where
  "runs_ok d \<longleftrightarrow> (bd_runs d = [] \<and> (bd_jobs d = [] \<or> bj_status (hd (bd_jobs d)) \<noteq> Processing)
     \<or> (\<exists>r. bd_runs d = [r] \<and> bd_jobs d \<noteq> [] \<and> hd (bd_jobs d) = rn_job r \<and> bj_status (rn_job r) = Processing))"

lemma chained_append:
  "chained (xs @ ys) \<longleftrightarrow> chained xs \<and> chained ys \<and> (xs \<noteq> [] \<and> ys \<noteq> [] \<longrightarrow> bj_blockNumberFrom (hd ys) = bj_blockNumberTo (last xs) + 1)"
  by (induction xs) (auto simp: hd_append)

lemma chained_map: "(\<And>j. bj_blockNumberFrom (f j) = bj_blockNumberFrom j \<and> bj_blockNumberTo (f j) = bj_blockNumberTo j) \<Longrightarrow> chained (map f js) = chained js"
  by (induction js) (auto simp: hd_map)

lemma set_tl: "set (tl xs) \<subseteq> set xs"
  by (cases xs) auto

lemma index_of_Some: "index_of k js = Some i \<Longrightarrow> i < length js \<and> bj_id (js ! i) = k"
  by (induction js arbitrary: i) (auto split: if_splits)

lemma index_of_None: "index_of k js = None \<longleftrightarrow> k \<notin> bj_id ` set js"
  by (induction js) auto

lemma new_job_fields [simp]:
  "bj_id (new_job p a b d) = bd_nextId d" "bj_status (new_job p a b d) = Downloading" "bj_blockNumberFrom (new_job p a b d) = a" "bj_blockNumberTo (new_job p a b d) = b"
  by (simp_all add: new_job_def)

lemma request_fields [simp]: "bd_jobs (request js d) = js" "bd_runs (request js d) = bd_runs d" "bd_nextId (request js d) = bd_nextId d + 1"
  "bd_requests (request js d) = bd_requests d @ [bd_nextId d]"
  by (simp_all add: request_def)

lemma blocks_download_ok:
  assumes "jobs_ok_but None d" and "runs_ok d"
  shows "jobs_ok_but None (blocks_download e p d) \<and> runs_ok (blocks_download e p d)"
proof (cases "ph_blockNumber (peer_header p) - 1 \<le> getLastRequestedBlockNumber e d \<or> length (bd_jobs d) \<ge> MAX_DOWNLOAD_BLOCKS_JOBS")
  case True
  then show ?thesis using assms by (simp add: blocks_download_def)
next
  case False
  let ?l = "getLastRequestedBlockNumber e d"
  let ?j = "new_job p (?l + 1) (calculateBlockNumberTo p ?l) d"
  have d': "blocks_download e p d = request (bd_jobs d @ [?j]) d" using False by (simp add: blocks_download_def Let_def)
  have "chained (bd_jobs d @ [?j])" using assms(1) False
    by (auto simp: chained_append jobs_ok_but_def calculateBlockNumberTo_def MAX_DOWNLOAD_BLOCKS_def getLastRequestedBlockNumber_def)
  moreover have "bd_nextId d \<notin> set (bd_requests d)" "bd_nextId d \<notin> bj_id ` set (bd_jobs d)" using assms(1) by (auto simp: jobs_ok_but_def)
  moreover have "set (tl (bd_jobs d @ [?j])) \<subseteq> set (tl (bd_jobs d)) \<union> {?j}" by (cases "bd_jobs d") auto
  ultimately have "jobs_ok_but None (request (bd_jobs d @ [?j]) d)"
    using assms(1) False by (auto simp: jobs_ok_but_def image_iff)
  moreover have "runs_ok (request (bd_jobs d @ [?j]) d)" using assms(2) by (cases "bd_jobs d") (auto simp: runs_ok_def)
  ultimately show ?thesis by (simp add: d')
qed

text \<open>Handling a job again: it is replaced by a new request, or it and the jobs after it are dropped, or it is dropped as done.\<close>

lemma replayJob_ok:
  assumes ok: "jobs_ok_but (Some (bj_id job)) d" and index: "index_of (bj_id job) (bd_jobs d) = Some i"
    and same: "bj_blockNumberFrom job = bj_blockNumberFrom (bd_jobs d ! i)" "bj_blockNumberTo job = bj_blockNumberTo (bd_jobs d ! i)"
  shows "jobs_ok_but None (replayJob e job d)" and "bd_runs (replayJob e job d) = bd_runs d"
    and "i = 0 \<Longrightarrow> bd_jobs (replayJob e job d) = [] \<or> bj_status (hd (bd_jobs (replayJob e job d))) \<noteq> Processing"
    and "i \<noteq> 0 \<Longrightarrow> bd_jobs (replayJob e job d) \<noteq> [] \<and> hd (bd_jobs (replayJob e job d)) = hd (bd_jobs d)"
proof -
  let ?js = "bd_jobs d"
  define numberFrom where "numberFrom = (if i = 0 then be_storedNumber e + 1 else bj_blockNumberFrom job)"
  define required where "required = (if length ?js = 1 then numberFrom else max numberFrom (bj_blockNumberTo job))"
  define peers where "peers = filter (\<lambda>p. ph_blockNumber (peer_header p) > required) (be_peers e)"
  define p where "p = getRandomPeer (be_randomNumber e) peers"
  define numberTo where "numberTo = (if length ?js = 1 then calculateBlockNumberTo p (numberFrom - 1) else bj_blockNumberTo job)"
  let ?j = "new_job p numberFrom numberTo d"
  have d': "replayJob e job d = (if peers = [] then d\<lparr>bd_jobs := take i ?js\<rparr> else if i = 0 \<and> numberFrom > numberTo then d\<lparr>bd_jobs := tl ?js\<rparr> else request (?js[i := ?j]) d)"
    unfolding replayJob_def index Let_def numberFrom_def required_def peers_def p_def numberTo_def by simp
  have i: "i < length ?js" "bj_id (?js ! i) = bj_id job" using index_of_Some [OF index] by simp_all
  obtain xs j ys where js: "?js = xs @ j # ys" and xs: "length xs = i" "j = ?js ! i" using id_take_nth_drop [OF i(1)] i(1) by (metis length_take min.absorb4)
  have j: "bj_id j = bj_id job" "bj_blockNumberFrom j = bj_blockNumberFrom job" "bj_blockNumberTo j = bj_blockNumberTo job" using xs(2) i(2) same by simp_all
  have len: "length xs + length ys < MAX_DOWNLOAD_BLOCKS_JOBS" and ch: "chained (xs @ j # ys)" and dist: "distinct (map bj_id (xs @ j # ys))" and reqs: "distinct (bd_requests d)"
    and ids: "\<forall>x \<in> set (xs @ j # ys). bj_id x < bd_nextId d" and rids: "\<forall>k \<in> set (bd_requests d). k < bd_nextId d"
    and st: "\<forall>x \<in> set (xs @ j # ys). Some (bj_id x) \<noteq> Some (bj_id job) \<longrightarrow> (bj_status x = Downloading \<longleftrightarrow> bj_id x \<in> set (bd_requests d))"
    and pr: "\<forall>x \<in> set (tl (xs @ j # ys)). bj_status x \<noteq> Processing"
    using ok unfolding jobs_ok_but_def js by auto
  have st': "\<forall>x \<in> set (xs @ ys). bj_status x = Downloading \<longleftrightarrow> bj_id x \<in> set (bd_requests d)"
    using st dist j(1) by (auto simp: image_iff)
  have pr': "\<forall>x \<in> set (tl xs @ ys). bj_status x \<noteq> Processing" using pr by (cases xs) auto
  have sole: "length ?js = 1 \<longleftrightarrow> xs = [] \<and> ys = []" by (auto simp: js)
  have first: "i = 0 \<longleftrightarrow> xs = []" using xs(1) by auto
  have upd: "take i ?js = xs" "?js[i := ?j] = xs @ ?j # ys" "xs = [] \<Longrightarrow> tl ?js = ys" using xs(1) by (auto simp: js)
  have p: "ph_blockNumber (peer_header p) > required" if "peers \<noteq> []"
  proof -
    have "p \<in> set peers" using that by (simp add: p_def getRandomPeer_def)
    then show ?thesis by (simp add: peers_def)
  qed
  have dropped: "jobs_ok_but None (d\<lparr>bd_jobs := xs\<rparr>)" "xs = [] \<Longrightarrow> jobs_ok_but None (d\<lparr>bd_jobs := ys\<rparr>)"
    using len ch dist reqs ids rids st' pr' set_tl [of ys] by (auto simp: jobs_ok_but_def chained_append)
  have asked: "jobs_ok_but None (request (xs @ ?j # ys) d)" if "peers \<noteq> []" "\<not> (i = 0 \<and> numberFrom > numberTo)"
  proof -
    have range: "numberFrom \<le> numberTo" "xs \<noteq> [] \<Longrightarrow> numberFrom = bj_blockNumberFrom j" "ys \<noteq> [] \<Longrightarrow> numberTo = bj_blockNumberTo j"
      using p [OF that(1)] that(2) ch j sole first
      by (auto simp: numberFrom_def numberTo_def required_def chained_append calculateBlockNumberTo_def MAX_DOWNLOAD_BLOCKS_def split: if_splits)
    then have "chained (xs @ ?j # ys)" using ch by (auto simp: chained_append)
    moreover have "bd_nextId d \<notin> bj_id ` set (xs @ j # ys)" "bd_nextId d \<notin> set (bd_requests d)" using ids rids by auto
    moreover have "\<forall>x \<in> set (tl (xs @ ?j # ys)). bj_status x \<noteq> Processing" using pr' by (cases xs) auto
    moreover have "\<forall>x \<in> set (xs @ ys). bj_id x \<noteq> bd_nextId d \<and> bj_id x < bd_nextId d + 1"
    proof
      fix x
      assume "x \<in> set (xs @ ys)"
      then have "bj_id x < bd_nextId d" using ids by auto
      then show "bj_id x \<noteq> bd_nextId d \<and> bj_id x < bd_nextId d + 1" by simp
    qed
    moreover have "\<forall>k \<in> set (bd_requests d). k < bd_nextId d + 1" using rids by auto
    ultimately show ?thesis using len dist reqs st' unfolding jobs_ok_but_def by (auto simp: image_iff)
  qed
  show "jobs_ok_but None (replayJob e job d)" using dropped asked by (auto simp: d' upd first)
  show "bd_runs (replayJob e job d) = bd_runs d" by (simp add: d')
  show "i = 0 \<Longrightarrow> bd_jobs (replayJob e job d) = [] \<or> bj_status (hd (bd_jobs (replayJob e job d))) \<noteq> Processing"
    using pr' by (cases ys) (auto simp: d' upd first)
  show "i \<noteq> 0 \<Longrightarrow> bd_jobs (replayJob e job d) \<noteq> [] \<and> hd (bd_jobs (replayJob e job d)) = hd (bd_jobs d)"
    by (auto simp: d' upd first) (simp_all add: js)
qed

lemma jobs_ok_but_frame [simp]:
  "jobs_ok_but k (d\<lparr>bd_banned := b\<rparr>) = jobs_ok_but k d" "jobs_ok_but k (d\<lparr>bd_pending := m\<rparr>) = jobs_ok_but k d" "jobs_ok_but k (d\<lparr>bd_runs := rs\<rparr>) = jobs_ok_but k d"
  "runs_ok (d\<lparr>bd_banned := b\<rparr>) = runs_ok d" "runs_ok (d\<lparr>bd_pending := m\<rparr>) = runs_ok d"
  by (simp_all add: jobs_ok_but_def runs_ok_def)

lemma jobs_ok_weaken: "jobs_ok_but None d \<Longrightarrow> jobs_ok_but k d"
  by (simp add: jobs_ok_but_def)

text \<open>The job at the head fails, with its run over.\<close>

lemma head_replayed:
  assumes "jobs_ok_but (Some (bj_id job)) d" and "bd_jobs d = job # rest" and "bd_runs d = []"
  shows "jobs_ok_but None (replayJob e job d) \<and> runs_ok (replayJob e job d)"
proof -
  have "index_of (bj_id job) (bd_jobs d) = Some 0" using assms(2) by simp
  from replayJob_ok [OF assms(1) this, of e] assms(2,3) show ?thesis by (auto simp: runs_ok_def)
qed

lemma head_fails:
  assumes "jobs_ok_but (Some (bj_id job)) d" and "bd_jobs d = job # rest" and "bd_runs d = []"
  shows "jobs_ok_but None (handleJobError e job d) \<and> runs_ok (handleJobError e job d)"
    and "jobs_ok_but None (handleMissingBlocks e job d) \<and> runs_ok (handleMissingBlocks e job d)"
  using head_replayed [of job "d\<lparr>bd_banned := bd_banned d @ [peer_ip (bj_peer job)]\<rparr>" rest e] head_replayed [OF assms, of e] assms
  by (simp_all add: handleJobError_def handleMissingBlocks_def)

lemma head_status:
  assumes "jobs_ok_but None d" and "bd_jobs d = job # rest" and "bj_status job \<noteq> Downloading"
  shows "jobs_ok_but None (d\<lparr>bd_jobs := job\<lparr>bj_status := Processing\<rparr> # rest\<rparr>)"
  using assms by (simp add: jobs_ok_but_def)

lemma processNextJob_ok:
  assumes "jobs_ok_but None d" and "runs_ok d"
  shows "jobs_ok_but None (processNextJob e d) \<and> runs_ok (processNextJob e d)"
proof (cases "\<exists>job rest. bd_jobs d = job # rest \<and> bj_status job = ReadyToProcess")
  case False
  then show ?thesis using assms by (auto simp: processNextJob_def split: list.splits)
next
  case True
  then obtain job rest where js: "bd_jobs d = job # rest" "bj_status job = ReadyToProcess" by blast
  let ?job = "job\<lparr>bj_status := Processing\<rparr>"
  let ?d = "d\<lparr>bd_jobs := ?job # rest\<rparr>"
  have ok: "jobs_ok_but None ?d" using head_status [OF assms(1) js(1)] js(2) by simp
  have runs: "bd_runs d = []" using assms(2) js by (auto simp: runs_ok_def)
  have "jobs_ok_but None (handleJobError e ?job ?d) \<and> runs_ok (handleJobError e ?job ?d)"
    by (rule head_fails [where rest = rest]) (use jobs_ok_weaken [OF ok] runs in simp_all)
  moreover have "runs_ok (?d\<lparr>bd_runs := [\<lparr>rn_job = ?job, rn_number = n, rn_bytes = bs, rn_previousBlockHash = h, rn_commits = []\<rparr>]\<rparr>)" for n bs h
    by (simp add: runs_ok_def)
  ultimately show ?thesis using ok runs js by (auto simp: processNextJob_def Let_def split: sum.splits prod.splits)
qed

lemma blocks_answer_ok:
  assumes "jobs_ok_but None d" and "runs_ok d" and "k \<in> set (bd_requests d)"
  shows "jobs_ok_but None (blocks_answer e k result d) \<and> runs_ok (blocks_answer e k result d)"
proof -
  let ?d = "d\<lparr>bd_requests := remove1 k (bd_requests d)\<rparr>"
  have reqs: "set (remove1 k (bd_requests d)) = set (bd_requests d) - {k}" using assms(1) by (simp add: jobs_ok_but_def)
  have but: "jobs_ok_but (Some k) ?d" using assms(1) unfolding jobs_ok_but_def by (simp add: reqs distinct_remove1)
  have head: "bj_status j = Downloading" if "j \<in> set (bd_jobs d)" "bj_id j = k" for j
    using assms(1,3) that unfolding jobs_ok_but_def by auto
  show ?thesis
  proof (cases result)
    case (Inl err)
    show ?thesis
    proof (cases "index_of k (bd_jobs d)")
      case None
      then have "bj_id j \<noteq> k" if "j \<in> set (bd_jobs d)" for j using that by (auto simp: index_of_None)
      then have "jobs_ok_but None ?d" using but by (simp add: jobs_ok_but_def reqs)
      then show ?thesis using processNextJob_ok [of ?d e] assms(2) None Inl by (simp add: blocks_answer_def runs_ok_def)
    next
      case (Some i)
      let ?job = "bd_jobs d ! i" and ?d1 = "?d\<lparr>bd_banned := bd_banned d @ [peer_ip (bj_peer (bd_jobs d ! i))]\<rparr>"
      have i: "i < length (bd_jobs d)" "bj_id ?job = k" using index_of_Some [OF Some] by simp_all
      have h: "handleJobError e ?job ?d = replayJob e ?job ?d1" using Some i(2) by (simp add: handleJobError_def)
      have idx: "index_of (bj_id ?job) (bd_jobs ?d1) = Some i" using Some i(2) by simp
      have r: "jobs_ok_but None (replayJob e ?job ?d1)" "bd_runs (replayJob e ?job ?d1) = bd_runs d"
        "i = 0 \<Longrightarrow> bd_jobs (replayJob e ?job ?d1) = [] \<or> bj_status (hd (bd_jobs (replayJob e ?job ?d1))) \<noteq> Processing"
        "i \<noteq> 0 \<Longrightarrow> bd_jobs (replayJob e ?job ?d1) \<noteq> [] \<and> hd (bd_jobs (replayJob e ?job ?d1)) = hd (bd_jobs d)"
        using replayJob_ok [OF _ idx, of e] but i(2) by simp_all
      have "runs_ok (replayJob e ?job ?d1)"
      proof (cases "i = 0")
        case True
        then have "bj_status (hd (bd_jobs d)) = Downloading" using head [of "hd (bd_jobs d)"] i by (cases "bd_jobs d") auto
        then have "bd_runs d = []" using assms(2) by (auto simp: runs_ok_def)
        then show ?thesis using r(2) r(3) [OF True] by (simp add: runs_ok_def)
      next
        case False
        then show ?thesis using r(2) r(4) [OF False] assms(2) i(1) by (auto simp: runs_ok_def)
      qed
      with processNextJob_ok [OF r(1)] show ?thesis using Inl Some h by (simp add: blocks_answer_def)
    qed
  next
    case (Inr blocks)
    let ?f = "\<lambda>j. if bj_id j = k then j\<lparr>bj_blocks := blocks, bj_status := ReadyToProcess\<rparr> else j"
    let ?d1 = "?d\<lparr>bd_jobs := map ?f (bd_jobs d)\<rparr>"
    have f: "bj_id (?f j) = bj_id j" "bj_blockNumberFrom (?f j) = bj_blockNumberFrom j" "bj_blockNumberTo (?f j) = bj_blockNumberTo j" for j by simp_all
    have "chained (map ?f (bd_jobs d)) = chained (bd_jobs d)" by (rule chained_map) simp
    moreover have "map bj_id (map ?f (bd_jobs d)) = map bj_id (bd_jobs d)" by simp
    moreover have "tl (map ?f (bd_jobs d)) = map ?f (tl (bd_jobs d))" by (rule map_tl [symmetric])
    ultimately have ok: "jobs_ok_but None ?d1" using but unfolding jobs_ok_but_def by (auto simp: reqs simp del: map_map)
    have "runs_ok ?d1"
    proof (cases "bd_jobs d")
      case (Cons j js)
      then show ?thesis using assms(2) head [of j] by (auto simp: runs_ok_def)
    qed (use assms(2) in \<open>simp add: runs_ok_def\<close>)
    with processNextJob_ok [OF ok] show ?thesis using Inr by (simp add: blocks_answer_def)
  qed
qed

text \<open>The only run is the one of the first job.\<close>

lemma the_run:
  assumes "runs_ok d" and "r \<in> set (bd_runs d)"
  obtains rest where "bd_runs d = [r]" and "bd_jobs d = rn_job r # rest" and "bj_status (rn_job r) = Processing"
proof -
  have "bd_runs d = [r] \<and> bd_jobs d \<noteq> [] \<and> hd (bd_jobs d) = rn_job r \<and> bj_status (rn_job r) = Processing" using assms by (auto simp: runs_ok_def)
  then show thesis using that by (cases "bd_jobs d") auto
qed

lemma run_continues_ok:
  assumes ok: "jobs_ok_but None d" "runs_ok d" and r: "r \<in> set (bd_runs d)" and same: "\<And>r1. result = Inr r1 \<Longrightarrow> rn_job r1 = rn_job r"
  shows "jobs_ok_but None (run_continues e r result d) \<and> runs_ok (run_continues e r result d)"
proof -
  obtain rest where d: "bd_runs d = [r]" "bd_jobs d = rn_job r # rest" "bj_status (rn_job r) = Processing" using the_run [OF ok(2) r] .
  show ?thesis
  proof (cases result)
    case (Inl err)
    have "jobs_ok_but (Some (bj_id (rn_job r))) (d\<lparr>bd_runs := []\<rparr>)" using jobs_ok_weaken [OF ok(1)] by simp
    from head_fails(1) [OF this, of rest e] Inl d show ?thesis by (simp add: run_continues_def)
  next
    case (Inr r1)
    then have "run_continues e r result d = d\<lparr>bd_runs := [r1]\<rparr>" using d(1) by (simp add: run_continues_def)
    moreover have "rn_job r1 = rn_job r" by (rule same) (rule Inr)
    ultimately show ?thesis using ok(1) d(2,3) by (simp add: runs_ok_def)
  qed
qed

lemma run_batch_job: "run_batch nc fromBytes valid r = Inr r1 \<Longrightarrow> rn_job r1 = rn_job r"
  by (auto simp: run_batch_def Let_def sum_bind_Inr_iff split: if_splits)

lemma run_commit_job: "run_commit verdict r = Inr r1 \<Longrightarrow> rn_job r1 = rn_job r"
  by (auto simp: run_commit_def sum_bind_Inr_iff split: if_splits)

lemma blocks_batch_ok:
  assumes "jobs_ok_but None d" and "runs_ok d" and "r \<in> set (bd_runs d)"
  shows "jobs_ok_but None (blocks_batch nc fromBytes valid e r d) \<and> runs_ok (blocks_batch nc fromBytes valid e r d)"
  unfolding blocks_batch_def Let_def
  by (rule run_continues_ok) (use assms in \<open>auto split: sum.splits dest: run_batch_job\<close>)

lemma blocks_commit_ok:
  assumes "jobs_ok_but None d" and "runs_ok d" and "r \<in> set (bd_runs d)"
  shows "jobs_ok_but None (blocks_commit e verdict r d) \<and> runs_ok (blocks_commit e verdict r d)"
  unfolding blocks_commit_def
  by (rule run_continues_ok) (use assms in \<open>auto dest: run_commit_job\<close>)

lemma blocks_finish_ok:
  assumes ok: "jobs_ok_but None d" "runs_ok d" and r: "r \<in> set (bd_runs d)"
  shows "jobs_ok_but None (blocks_finish e r d) \<and> runs_ok (blocks_finish e r d)"
proof -
  obtain rest where d: "bd_runs d = [r]" "bd_jobs d = rn_job r # rest" "bj_status (rn_job r) = Processing" using the_run [OF ok(2) r] .
  let ?d = "d\<lparr>bd_runs := [], bd_pending := []\<rparr>"
  have but: "jobs_ok_but (Some (bj_id (rn_job r))) ?d" using jobs_ok_weaken [OF ok(1)] by simp
  have "jobs_ok_but None (?d\<lparr>bd_jobs := rest\<rparr>)" "runs_ok (?d\<lparr>bd_jobs := rest\<rparr>)"
    using ok(1) d(2) set_tl [of rest] by (cases rest; auto simp: jobs_ok_but_def runs_ok_def)+
  from processNextJob_ok [OF this] head_fails(2) [OF but, of rest e] d show ?thesis by (simp add: blocks_finish_def Let_def)
qed

lemma reach_ok: "blocks_reach nc fromBytes d log \<Longrightarrow> jobs_ok_but None d \<and> runs_ok d"
proof (induction rule: blocks_reach.induct)
  case created
  then show ?case by (simp add: jobs_ok_but_def runs_ok_def new_block_downloader_def)
qed (simp_all only: blocks_download_ok blocks_answer_ok blocks_batch_ok blocks_commit_ok blocks_finish_ok)

section \<open>What is handed to the commit processor\<close>

text \<open>The commits of a run have consecutive numbers, and each was verified over the hash of the block before it.\<close>

definition run_verified :: "(commit \<times> string) set \<Rightarrow> block_run \<Rightarrow> bool" where
  "run_verified log r \<longleftrightarrow> map (\<lambda>c. bh_number (bk_header (cm_block c))) (rn_commits r) = [rn_number r..<rn_number r + length (rn_commits r)]
     \<and> set (zip (rn_commits r) (previous_hashes (rn_previousBlockHash r) (rn_commits r))) \<subseteq> log"

lemma replay_runs [simp]:
  "bd_runs (replayJob e job d) = bd_runs d" "bd_runs (handleJobError e job d) = bd_runs d" "bd_runs (handleMissingBlocks e job d) = bd_runs d"
proof -
  show r: "bd_runs (replayJob e job d) = bd_runs d" for d by (simp add: replayJob_def Let_def split: option.splits)
  show "bd_runs (handleJobError e job d) = bd_runs d" "bd_runs (handleMissingBlocks e job d) = bd_runs d"
    by (simp_all add: handleJobError_def handleMissingBlocks_def Let_def r)
qed

lemma processNextJob_runs: "r \<in> set (bd_runs (processNextJob e d)) \<Longrightarrow> r \<in> set (bd_runs d) \<or> rn_commits r = []"
  by (auto simp: processNextJob_def Let_def split: list.splits if_splits sum.splits prod.splits)

lemma blocks_answer_runs: "r \<in> set (bd_runs (blocks_answer e k result d)) \<Longrightarrow> r \<in> set (bd_runs d) \<or> rn_commits r = []"
  by (auto simp: blocks_answer_def Let_def split: sum.splits option.splits dest: processNextJob_runs)

lemma blocks_finish_runs: "r' \<in> set (bd_runs (blocks_finish e r d)) \<Longrightarrow> r' \<in> set (bd_runs d) \<or> rn_commits r' = []"
  by (auto simp: blocks_finish_def Let_def split: if_splits dest!: processNextJob_runs dest: set_remove1_subset [THEN subsetD])

lemma run_continues_runs:
  "r' \<in> set (bd_runs (run_continues e r result d)) \<Longrightarrow> r' \<in> set (bd_runs d) \<or> result = Inr r'"
  by (auto simp: run_continues_def split: sum.splits dest: set_remove1_subset [THEN subsetD])

lemma no_commits_verified: "rn_commits r = [] \<Longrightarrow> run_verified log r"
  by (simp add: run_verified_def)

lemma run_batch_verified:
  assumes "run_batch nc fromBytes valid r = Inr r1"
  shows "run_verified (log \<union> {(c, h). valid c h = Inr True}) r1"
proof -
  obtain commits where r1: "rn_commits r1 = commits" "rn_number r1 = rn_number r" "rn_previousBlockHash r1 = rn_previousBlockHash r"
    and numbers: "map (\<lambda>c. bh_number (bk_header (cm_block c))) commits = [rn_number r..<rn_number r + length commits]"
    and valid: "all_valid valid (zip commits (previous_hashes (rn_previousBlockHash r) commits)) = Inr True"
    using assms by (auto simp: run_batch_def Let_def sum_bind_Inr_iff verify_batch_Inr_iff split: if_splits)
  show ?thesis using numbers all_valid_sound [OF valid] by (auto simp: run_verified_def r1)
qed

lemma run_commit_verified:
  assumes "run_verified log r" and "rn_commits r \<noteq> []" and "run_commit verdict r = Inr r1"
  shows "run_verified log r1"
proof -
  obtain c cs where cs: "rn_commits r = c # cs" using assms(2) by (cases "rn_commits r") auto
  have r1: "rn_commits r1 = cs" "rn_number r1 = rn_number r + 1" "rn_previousBlockHash r1 = bh_hash (bk_header (cm_block c))"
    using assms(3) by (auto simp: run_commit_def sum_bind_Inr_iff cs split: if_splits)
  have "[rn_number r..<rn_number r + length (c # cs)] = rn_number r # [rn_number r + 1..<rn_number r + 1 + length cs]" by (simp add: upt_conv_Cons del: upt_Suc)
  then show ?thesis using assms(1) by (simp add: run_verified_def r1 cs previous_hashes_def del: upt_Suc)
qed

lemma reach_verified: "blocks_reach nc fromBytes d log \<Longrightarrow> r \<in> set (bd_runs d) \<Longrightarrow> run_verified log r"
proof (induction arbitrary: r rule: blocks_reach.induct)
  case created
  then show ?case by (simp add: new_block_downloader_def)
next
  case (header_seen d log e p)
  then show ?case by (simp add: blocks_download_def Let_def split: if_splits)
next
  case (answered d log k e result)
  from blocks_answer_runs [OF answered.prems] answered.IH no_commits_verified show ?case by blast
next
  case (batch d log r' valid e)
  have mono: "run_verified (log \<union> L) x" if "x \<in> set (bd_runs d)" for x L using batch.IH [OF that] by (auto simp: run_verified_def)
  from run_continues_runs [OF batch.prems [unfolded blocks_batch_def Let_def]] show ?case
    using mono run_batch_verified by (auto split: sum.splits)
next
  case (commit d log r' e verdict)
  from run_continues_runs [OF commit.prems [unfolded blocks_commit_def]] show ?case
    using commit.IH run_commit_verified [OF commit.IH [OF commit.hyps(2)] commit.hyps(3)] by auto
next
  case (finish d log r' e)
  from blocks_finish_runs [OF finish.prems] finish.IH no_commits_verified show ?case by blast
qed

section \<open>Properties\<close>

text \<open>C26 (invariant). Whatever order answers, verdicts and headers come in: there are at most ten jobs, with ranges that are not empty
  and follow each other without a gap; a job is being downloaded exactly when its request is under way; only the first job is processed, by one run.\<close>

theorem block_jobs_in_order:
  assumes "blocks_reach nc fromBytes d log"
  shows "length (bd_jobs d) \<le> 10 \<and> chained (bd_jobs d)
    \<and> (\<forall>j \<in> set (bd_jobs d). bj_status j = Downloading \<longleftrightarrow> bj_id j \<in> set (bd_requests d))
    \<and> (bd_runs d = [] \<and> (\<forall>j \<in> set (bd_jobs d). bj_status j \<noteq> Processing)
       \<or> (\<exists>r rest. bd_runs d = [r] \<and> bd_jobs d = rn_job r # rest \<and> bj_status (rn_job r) = Processing \<and> (\<forall>j \<in> set rest. bj_status j \<noteq> Processing)))"
proof -
  have ok: "jobs_ok_but None d" "runs_ok d" using reach_ok [OF assms] by simp_all
  have "bd_runs d = [] \<and> (\<forall>j \<in> set (bd_jobs d). bj_status j \<noteq> Processing)
       \<or> (\<exists>r rest. bd_runs d = [r] \<and> bd_jobs d = rn_job r # rest \<and> bj_status (rn_job r) = Processing \<and> (\<forall>j \<in> set rest. bj_status j \<noteq> Processing))"
    using ok by (cases "bd_jobs d") (auto simp: jobs_ok_but_def runs_ok_def)
  then show ?thesis using ok(1) by (simp add: jobs_ok_but_def MAX_DOWNLOAD_BLOCKS_JOBS_def)
qed

text \<open>A downloaded commit is handed to the commit processor only after its signature was found valid over the hash of
  its predecessor - the block handed over before it, or the last block of the store when the run began - and under the next number.\<close>

theorem downloaded_commit_is_verified:
  assumes "blocks_reach nc fromBytes d log" and "r \<in> set (bd_runs d)" and "rn_commits r = c # rest"
  shows "bh_number (bk_header (cm_block c)) = rn_number r \<and> (c, rn_previousBlockHash r) \<in> log
    \<and> run_verified log (r\<lparr>rn_number := rn_number r + 1, rn_previousBlockHash := bh_hash (bk_header (cm_block c)), rn_commits := rest\<rparr>)"
proof -
  have v: "run_verified log r" by (rule reach_verified [OF assms(1,2)])
  have "run_commit (Inr Result_Accepted) r = Inr (r\<lparr>rn_number := rn_number r + 1, rn_previousBlockHash := bh_hash (bk_header (cm_block c)), rn_commits := rest\<rparr>)"
    by (simp add: run_commit_def assms(3))
  from run_commit_verified [OF v _ this] v show ?thesis
    by (simp add: run_verified_def assms(3) previous_hashes_def upt_conv_Cons del: upt_Suc)
qed

text \<open>The steps of a run that go on.\<close>

inductive run_step :: "network_config \<Rightarrow> (bytes \<Rightarrow> error + commit) \<Rightarrow> block_run \<Rightarrow> block_run \<Rightarrow> bool" for nc fromBytes where
  batch: "rn_commits r = [] \<Longrightarrow> rn_bytes r \<noteq> [] \<Longrightarrow> run_batch nc fromBytes valid r = Inr r1 \<Longrightarrow> run_step nc fromBytes r r1"
| commit: "rn_commits r \<noteq> [] \<Longrightarrow> run_commit verdict r = Inr r1 \<Longrightarrow> run_step nc fromBytes r r1"

definition run_size :: "block_run \<Rightarrow> nat" where
  "run_size r = 2 * length (rn_bytes r) + length (rn_commits r)"

lemma map_sum_length: "map_sum f xs = Inr ys \<Longrightarrow> length ys = length xs"
  by (induction xs arbitrary: ys) (auto simp: sum_bind_Inr_iff)

lemma run_step_smaller:
  assumes "run_step nc fromBytes r r1" and "nc_genesisNumber nc < rn_number r"
  shows "run_size r1 < run_size r \<and> nc_genesisNumber nc < rn_number r1"
  using assms
proof cases
  case (batch valid)
  then obtain info where info: "calculateRound nc (rn_number r) = Inr info" by (auto simp: run_batch_def sum_bind_Inr_iff)
  define n where "n = roundHeight info + maxValidators info - rn_number r"
  have "0 < n" using calculateRound_contains [OF info assms(2)] by (simp add: n_def)
  moreover have "rn_bytes r1 = drop n (rn_bytes r)" "length (rn_commits r1) = length (take n (rn_bytes r))" "rn_number r1 = rn_number r"
    using batch(3) by (auto simp: run_batch_def info n_def Let_def sum_bind_Inr_iff verify_batch_Inr_iff split: if_splits dest!: map_sum_length)
  ultimately show ?thesis using batch(1,2) assms(2) by (cases "rn_bytes r") (auto simp: run_size_def)
next
  case (commit verdict)
  then show ?thesis using assms(2) by (cases "rn_commits r") (auto simp: run_size_def run_commit_def sum_bind_Inr_iff split: if_splits)
qed

text \<open>The loop of \<open>#processBlocks\<close> ends: above genesis, after at most two steps per downloaded block.\<close>

theorem processing_of_blocks_ends:
  assumes "(run_step nc fromBytes ^^ n) r r1" and "nc_genesisNumber nc < rn_number r" and "rn_commits r = []"
  shows "n \<le> 2 * length (rn_bytes r)"
proof -
  have "n + run_size r1 \<le> run_size r" using assms(1,2)
  proof (induction n arbitrary: r)
    case (Suc n)
    from relpowp_Suc_D2 [OF Suc.prems(1)] obtain r2 where r2: "run_step nc fromBytes r r2" "(run_step nc fromBytes ^^ n) r2 r1" by blast
    from run_step_smaller [OF r2(1) Suc.prems(2)] Suc.IH [OF r2(2)] show ?case by simp
  qed simp
  then show ?thesis using assms(3) by (simp add: run_size_def)
qed

text \<open>When the blocks missing from an answer were stored by live consensus meanwhile, \<open>#replayJob\<close> drops the finished
  job but nobody calls \<open>#processNextJob\<close>: the downloaded job after it waits with no run and no request, and \<open>isDownloading\<close> stays
  true, until a peer announces a block beyond every requested range.\<close>

theorem ready_job_left_waiting:
  assumes "blocks_reach nc fromBytes d log" and "r \<in> set (bd_runs d)"
    and jobs: "bd_jobs d = rn_job r # job # rest" and ready: "bj_status job = ReadyToProcess" and none: "bd_requests d = []"
    and missing: "rn_number r \<le> bj_blockNumberTo (rn_job r)" and stored: "bj_blockNumberTo (rn_job r) \<le> be_storedNumber e"
    and ahead: "\<exists>p \<in> set (be_peers e). be_storedNumber e + 1 < ph_blockNumber (peer_header p)"
  shows "bd_jobs (blocks_finish e r d) = job # rest \<and> bd_runs (blocks_finish e r d) = [] \<and> bd_requests (blocks_finish e r d) = []
    \<and> (\<forall>e' p. ph_blockNumber (peer_header p) \<le> bj_blockNumberTo (last (job # rest)) + 1 \<longrightarrow> blocks_download e' p (blocks_finish e r d) = blocks_finish e r d)"
proof -
  have runs: "bd_runs d = [r]" using reach_ok [OF assms(1)] assms(2) by (auto simp: runs_ok_def)
  obtain d1 where d1: "blocks_finish e r d = replayJob e (rn_job r) d1" "bd_jobs d1 = bd_jobs d" "bd_requests d1 = bd_requests d" "bd_runs d1 = []"
    using missing runs by (auto simp: blocks_finish_def handleMissingBlocks_def Let_def)
  have "filter (\<lambda>p. ph_blockNumber (peer_header p) > max (be_storedNumber e + 1) (bj_blockNumberTo (rn_job r))) (be_peers e) \<noteq> []"
    using ahead stored by (auto simp: filter_empty_conv)
  then have f: "blocks_finish e r d = d1\<lparr>bd_jobs := job # rest\<rparr>" using d1(2) jobs stored by (simp add: d1(1) replayJob_def Let_def del: max_less_iff_conj)
  have "blocks_download e' p (blocks_finish e r d) = blocks_finish e r d" if "ph_blockNumber (peer_header p) \<le> bj_blockNumberTo (last (job # rest)) + 1" for e' p
  proof -
    have "getLastRequestedBlockNumber e' (blocks_finish e r d) = bj_blockNumberTo (last (job # rest))" by (simp add: f getLastRequestedBlockNumber_def)
    then show ?thesis using that unfolding blocks_download_def Let_def by (simp only: if_True simp_thms add.commute le_diff_conv)
  qed
  then show ?thesis using f d1(3,4) none by simp
qed

section \<open>Witnesses\<close>

definition numbered_commit :: "nat \<Rightarrow> commit" where
  "numbered_commit n = \<lparr>cm_block = \<lparr>bk_header = sample_header\<lparr>bh_number := n\<rparr>, bk_serialized = [], bk_transactions = []\<rparr>,
     cm_proof = \<lparr>cp_round = 0, cp_signature = [], cp_validators = []\<rparr>, cm_serialized = []\<rparr>"

text \<open>In the sample answers a block is the one byte of its number.\<close>

definition commit_of_byte :: "bytes \<Rightarrow> error + commit" where
  "commit_of_byte bs = Inr (numbered_commit (unat (hd bs)))"

definition signed_over_a0 :: "commit \<Rightarrow> string \<Rightarrow> error + bool" where
  "signed_over_a0 c h = Inr (h = ''a0'')"

definition announcing :: "nat \<Rightarrow> peer" where
  "announcing n = \<lparr>peer_ip = ''10.0.0.7'', peer_header = \<lparr>ph_blockNumber = n, ph_round = 0, ph_proposedBlockHash = None, ph_validatorsSignedPrevote = [], ph_validatorsSignedPrecommit = []\<rparr>\<rparr>"

definition stored_env :: "nat \<Rightarrow> block_env" where
  "stored_env n = \<lparr>be_storedNumber = n, be_lastHash = Inr ''a0'', be_peers = [announcing 10], be_randomNumber = (\<lambda>_. 0), be_maxPayload = 2097152\<rparr>"

text \<open>Blocks 6 to 7 are asked from one peer, 8 to 9 from another; the second answers first.\<close>

definition two_jobs :: block_downloader where
  "two_jobs = blocks_answer (stored_env 5) 1 (Inr [[8], [9]]) (blocks_download (stored_env 5) (announcing 10) (blocks_download (stored_env 5) (announcing 8) new_block_downloader))"

text \<open>The first answer comes: complete, or cut after one block while consensus stores both.\<close>

definition complete_answer :: block_downloader where
  "complete_answer = blocks_answer (stored_env 5) 0 (Inr [[6], [7]]) two_jobs"

definition short_answer :: block_downloader where
  "short_answer = blocks_answer (stored_env 7) 0 (Inr [[6]]) two_jobs"

definition first_batch :: block_downloader where
  "first_batch = blocks_batch Blockchain_Utils.sample_network commit_of_byte signed_over_a0 (stored_env 5) (hd (bd_runs complete_answer)) complete_answer"

lemma sample_requests: "bd_requests (blocks_download (stored_env 5) (announcing 10) (blocks_download (stored_env 5) (announcing 8) new_block_downloader)) = [0, 1]"
  "two_jobs = \<lparr>bd_jobs = [\<lparr>bj_id = 0, bj_peer = announcing 8, bj_blockNumberFrom = 6, bj_blockNumberTo = 7, bj_blocks = [], bj_status = Downloading\<rparr>,
       \<lparr>bj_id = 1, bj_peer = announcing 10, bj_blockNumberFrom = 8, bj_blockNumberTo = 9, bj_blocks = [[8], [9]], bj_status = ReadyToProcess\<rparr>],
     bd_requests = [0], bd_runs = [], bd_pending = [], bd_banned = [], bd_nextId = 2\<rparr>"
  by (simp_all add: two_jobs_def new_block_downloader_def blocks_download_def blocks_answer_def getLastRequestedBlockNumber_def calculateBlockNumberTo_def
      MAX_DOWNLOAD_BLOCKS_def MAX_DOWNLOAD_BLOCKS_JOBS_def announcing_def stored_env_def new_job_def request_def processNextJob_def)

definition sample_run :: "nat \<Rightarrow> bytes list \<Rightarrow> bytes list \<Rightarrow> block_run" where
  "sample_run n blocks bs = \<lparr>rn_job = \<lparr>bj_id = 0, bj_peer = announcing 8, bj_blockNumberFrom = 6, bj_blockNumberTo = 7, bj_blocks = blocks, bj_status = Processing\<rparr>,
     rn_number = n, rn_bytes = bs, rn_previousBlockHash = ''a0'', rn_commits = []\<rparr>"

lemma sample_runs: "bd_runs complete_answer = [sample_run 6 [[6], [7]] [[6], [7]]]" "bd_runs short_answer = [sample_run 7 [[6]] []]"
  "bd_jobs short_answer = [rn_job (sample_run 7 [[6]] []),
     \<lparr>bj_id = 1, bj_peer = announcing 10, bj_blockNumberFrom = 8, bj_blockNumberTo = 9, bj_blocks = [[8], [9]], bj_status = ReadyToProcess\<rparr>]" "bd_requests short_answer = []"
  by (simp_all add: complete_answer_def short_answer_def blocks_answer_def sample_requests processNextJob_def skipAppliedBlocks_def stored_env_def sample_run_def Let_def)

lemma sample_reached: "blocks_reach nc fromBytes two_jobs {}" "blocks_reach nc fromBytes complete_answer {}" "blocks_reach nc fromBytes short_answer {}"
proof -
  show t: "blocks_reach nc fromBytes two_jobs {}" unfolding two_jobs_def
    by (intro blocks_reach.answered blocks_reach.header_seen blocks_reach.created) (simp add: sample_requests)
  show "blocks_reach nc fromBytes complete_answer {}" "blocks_reach nc fromBytes short_answer {}" unfolding complete_answer_def short_answer_def
    by (rule blocks_reach.answered [OF t]; simp add: sample_requests)+
qed

theorem block_jobs_in_order_witness:
  "length (bd_jobs two_jobs) \<le> 10 \<and> chained (bd_jobs two_jobs) \<and> map bj_blockNumberFrom (bd_jobs two_jobs) = [6, 8]"
  using block_jobs_in_order [OF sample_reached(1)] by (simp add: sample_requests)

lemma sample_batch_step:
  "run_batch Blockchain_Utils.sample_network commit_of_byte signed_over_a0 (sample_run 6 [[6], [7]] [[6], [7]])
   = Inr (sample_run 6 [[6], [7]] [[7]]\<lparr>rn_commits := [numbered_commit 6]\<rparr>)"
  by (simp add: run_batch_def verify_batch_def sample_run_def Blockchain_Utils.sample_network_rounds commit_of_byte_def numbered_commit_def previous_hashes_def signed_over_a0_def)

lemma first_batch_runs: "bd_runs first_batch = [sample_run 6 [[6], [7]] [[7]]\<lparr>rn_commits := [numbered_commit 6]\<rparr>]"
  by (simp add: first_batch_def sample_runs blocks_batch_def sample_batch_step run_continues_def)

theorem downloaded_commit_is_verified_witness:
  "\<exists>r. bd_runs first_batch = [r] \<and> rn_commits r = [numbered_commit 6] \<and> rn_number r = 6 \<and> signed_over_a0 (numbered_commit 6) (rn_previousBlockHash r) = Inr True"
proof -
  let ?r = "sample_run 6 [[6], [7]] [[7]]\<lparr>rn_commits := [numbered_commit 6]\<rparr>"
  have "blocks_reach Blockchain_Utils.sample_network commit_of_byte first_batch ({} \<union> {(c, h). signed_over_a0 c h = Inr True})" unfolding first_batch_def
    by (rule blocks_reach.batch [OF sample_reached(2)]) (simp_all add: sample_runs sample_run_def)
  from downloaded_commit_is_verified [OF this, of ?r "numbered_commit 6" "[]"] have "signed_over_a0 (numbered_commit 6) (rn_previousBlockHash ?r) = Inr True"
    by (simp add: first_batch_runs)
  then show ?thesis by (simp add: first_batch_runs) (simp add: sample_run_def)
qed

theorem processing_of_blocks_ends_witness:
  "\<exists>r. (run_step Blockchain_Utils.sample_network commit_of_byte ^^ 1) (sample_run 6 [[6], [7]] [[6], [7]]) r \<and> 1 \<le> 2 * length (rn_bytes (sample_run 6 [[6], [7]] [[6], [7]]))"
proof -
  let ?r = "sample_run 6 [[6], [7]] [[7]]\<lparr>rn_commits := [numbered_commit 6]\<rparr>"
  have "run_step Blockchain_Utils.sample_network commit_of_byte (sample_run 6 [[6], [7]] [[6], [7]]) ?r"
    by (rule run_step.batch [OF _ _ sample_batch_step]) (simp_all add: sample_run_def)
  then have "(run_step Blockchain_Utils.sample_network commit_of_byte ^^ 1) (sample_run 6 [[6], [7]] [[6], [7]]) ?r" by (simp only: relpowp_1)
  with processing_of_blocks_ends [OF this] show ?thesis by (auto simp: Blockchain_Utils.sample_network_def sample_run_def)
qed

theorem ready_job_left_waiting_witness:
  "\<exists>job. bd_jobs (blocks_finish (stored_env 7) (sample_run 7 [[6]] []) short_answer) = [job] \<and> bj_status job = ReadyToProcess
     \<and> bd_runs (blocks_finish (stored_env 7) (sample_run 7 [[6]] []) short_answer) = []"
proof -
  have "sample_run 7 [[6]] [] \<in> set (bd_runs short_answer)" by (simp add: sample_runs)
  from ready_job_left_waiting [OF sample_reached(3) this sample_runs(3) _ sample_runs(4), of "stored_env 7"]
  show ?thesis by (simp add: sample_run_def stored_env_def announcing_def)
qed

end
