(* ===== verification/Chain_Node.thy ===== *)
theory Chain_Node
  imports Chain_Storage
begin

text \<open>
  A node over its blocks: the commit of a processed block (\<open>commit\<close> of \<open>processor/source/block-processor.ts\<close>, with \<open>onCommit\<close> of
  \<open>evm-service/source/instances/evm.ts\<close>) and the start of the node (\<open>bootstrap/source/bootstrapper.ts\<close>) up to the start of the consensus.

  The state has a part that survives a crash, the database and the EVM, and one that does not, the store, the database service and
  the validator set. What can fail outside the modelled code is an argument: the commit of the EVM itself, the conversion of a
  commit at the border to Rust (\<open>ne_bindings\<close>), the API database, the workers and the import of a snapshot. A commit that throws ends
  the process (\<open>app.fail\<close>), so the only step after it is a restart.
\<close>

record 'v node_env =
  ne_evm :: "'v evm"
  ne_evmCommit :: "commit_key \<Rightarrow> ('v, unit) evm_op"
  ne_reopen :: "'v \<Rightarrow> 'v"
  ne_contracts :: "'v \<Rightarrow> contract_service"
  ne_bindings :: "commit_storage \<Rightarrow> error + commit_storage"
  ne_processor :: processor_services
  ne_storage :: storage_services
  ne_genesis :: "error + commit"
  ne_apiSync :: bool

text \<open>Failures of the services around a commit or a start.\<close>

record faults =
  fa_flush :: "error option"
  fa_handlers :: "error list"
  fa_snapshot :: "error option"
  fa_apiSync :: "error option"

record 'v chain_node =
  cn_db :: chain_db
  cn_evm :: 'v
  cn_store :: state_store
  cn_database :: database_state
  cn_validators :: validator_set

abbreviation node_config :: "'v node_env \<Rightarrow> network_config" where
  "node_config e \<equiv> sx_config (ne_storage e)"

text \<open>A \<open>ProcessableUnit\<close> that is committed, with what \<open>getCommit\<close> gives.\<close>

record commit_unit =
  cu_unit :: processable_unit
  cu_commit :: "error + commit"

definition fail_with :: "error option \<Rightarrow> 's \<Rightarrow> 's outcome" where
  "fail_with f s = (case f of Some err \<Rightarrow> Threw err s | None \<Rightarrow> Done s)"

section \<open>Commit\<close>

text \<open>\<open>onCommit\<close> of the EVM instance: the border, the check for a block that is already committed, and one database transaction for
  the state of the EVM and the commit.\<close>

definition evm_onCommit :: "'v node_env \<Rightarrow> block_header \<Rightarrow> commit \<Rightarrow> 'v chain_node \<Rightarrow> 'v chain_node outcome" where
  "evm_onCommit e h c n =
     (case sum_bind (ne_bindings e (prepareCommitData c)) (\<lambda>data. db_commit (bh_number h) data (cn_db n)) of
        Inl err \<Rightarrow> Threw err n
      | Inr db \<Rightarrow> (case ne_evmCommit e (block_commitKey h) (cn_evm n) of
          (Inl err, v) \<Rightarrow> Threw err (n\<lparr>cn_evm := v\<rparr>)
        | (Inr _, v) \<Rightarrow> Done (n\<lparr>cn_evm := v, cn_db := db\<rparr>)))"

definition shouldSyncApi :: "'v node_env \<Rightarrow> commit_unit \<Rightarrow> bool" where
  "shouldSyncApi e u \<longleftrightarrow> ne_apiSync e \<and> bh_number (unit_header (cu_unit u)) > nc_genesisNumber (node_config e)"

definition node_validators_onCommit :: "'v node_env \<Rightarrow> nat \<Rightarrow> 'v chain_node \<Rightarrow> 'v chain_node outcome" where
  "node_validators_onCommit e number n =
     (case validator_onCommit (node_config e) (cn_store n) (ne_contracts e (cn_evm n)) (ne_apiSync e) number (cn_validators n) of
        Done vs \<Rightarrow> Done (n\<lparr>cn_validators := vs\<rparr>)
      | Threw err vs \<Rightarrow> Threw err (n\<lparr>cn_validators := vs\<rparr>))"

definition block_commit :: "'v node_env \<Rightarrow> faults \<Rightarrow> commit_unit \<Rightarrow> 'v chain_node \<Rightarrow> 'v chain_node outcome" where
  "block_commit e fa u n =
     and_then (fail_with (if shouldSyncApi e u then fa_flush fa else None) n) (\<lambda>n.
     case cu_commit u of
       Inl err \<Rightarrow> Threw err n
     | Inr c \<Rightarrow>
         and_then (evm_onCommit e (unit_header (cu_unit u)) c n) (\<lambda>n.
         and_then (Done (n\<lparr>cn_store := store_onCommit (pu_block (cu_unit u)) (pu_round (cu_unit u)) (cn_store n)\<rparr>)) (\<lambda>n.
         and_then (Done (n\<lparr>cn_database := database_onCommit c (cn_database n)\<rparr>)) (\<lambda>n.
         and_then (node_validators_onCommit e (bh_number (unit_header (cu_unit u))) n) (\<lambda>n.
           if fa_handlers fa \<noteq> [] then Threw (JsError ''one or more commit handlers failed'') n else Done n)))))"

section \<open>Start\<close>

text \<open>What a new process has: the database and the EVM it left, with the database service initialised from it.\<close>

definition power_on :: "'v node_env \<Rightarrow> 'v chain_node \<Rightarrow> 'v chain_node" where
  "power_on e n = n\<lparr>cn_evm := ne_reopen e (cn_evm n), cn_database := database_initialize (cn_db n), cn_validators := empty_validator_set,
     cn_store := \<lparr>so_genesisCommit = None, so_lastBlock = None, so_blockNumber = 0, so_totalRound = 0, so_configHeight = nc_genesisNumber (node_config e)\<rparr>\<rparr>"

definition node_setGenesisCommit :: "'v node_env \<Rightarrow> 'v chain_node \<Rightarrow> 'v chain_node outcome" where
  "node_setGenesisCommit e n = (case ne_genesis e of Inl err \<Rightarrow> Threw err n | Inr c \<Rightarrow> Done (n\<lparr>cn_store := setGenesisCommit c (cn_store n)\<rparr>))"

definition checkStoredGenesisCommit :: "'v node_env \<Rightarrow> 'v chain_node \<Rightarrow> 'v chain_node outcome" where
  "checkStoredGenesisCommit e n =
     (case getBlock (ne_storage e) (cn_db n) (nc_genesisNumber (node_config e)) of
        Inl err \<Rightarrow> Threw err n
      | Inr None \<Rightarrow> Done n
      | Inr (Some b) \<Rightarrow> (case getGenesisCommit (cn_store n) of
          Inl err \<Rightarrow> Threw err n
        | Inr c \<Rightarrow> if bh_hash (bk_header (cm_block c)) \<noteq> bh_hash (bk_header b)
            then Threw (JsError ''Block from crypto.json does not match stored genesis block'') n else Done n))"

definition tryImportSnapshot :: "'v node_env \<Rightarrow> faults \<Rightarrow> 'v chain_node \<Rightarrow> 'v chain_node outcome" where
  "tryImportSnapshot e fa n =
     (case sum_bind (getGenesisCommit (cn_store n)) (\<lambda>c. sum_bind (milestone_of (node_config e) (so_configHeight (cn_store n))) (\<lambda>m. Inr (c, m))) of
        Inl err \<Rightarrow> Threw err n
      | Inr (c, m) \<Rightarrow>
          if bh_parentHash (bk_header (cm_block c)) = ZeroHash then
            (if ms_snapshot m \<noteq> None then Threw (JsError ''Previous block is set to snapshot, but there is no snapshot defined in milestones'') n else Done n)
          else fail_with (fa_snapshot fa) n)"

text \<open>\<open>commitStateFactory(commit)\<close> reads the validators of the round.\<close>

definition node_processCommit :: "'v node_env \<Rightarrow> faults \<Rightarrow> commit \<Rightarrow> 'v chain_node \<Rightarrow> 'v chain_node outcome" where
  "node_processCommit e fa c n =
     (case getRoundValidators (node_config e) (cn_store n) (cn_validators n) of
        Inl err \<Rightarrow> Threw err n
      | Inr _ \<Rightarrow>
          let u = \<lparr>pu_block = cm_block c, pu_round = cp_round (cm_proof c)\<rparr>
          in (case process_block (ne_processor e) (node_config e) (cn_store n) (cn_validators n) (ne_evm e) u (cn_evm n) of
                (r, v) \<Rightarrow> if \<not> br_success r then Threw (JsError ''Block is not processed.'') (n\<lparr>cn_evm := v\<rparr>)
                  else block_commit e fa \<lparr>cu_unit = u, cu_commit = Inr c\<rparr> (n\<lparr>cn_evm := v\<rparr>)))"

definition processGenesisBlock :: "'v node_env \<Rightarrow> faults \<Rightarrow> 'v chain_node \<Rightarrow> 'v chain_node outcome" where
  "processGenesisBlock e fa n =
     (case getGenesisCommit (cn_store n) of Inl err \<Rightarrow> Threw err n | Inr c \<Rightarrow> node_processCommit e fa c n)"

definition initPostGenesisState :: "'v node_env \<Rightarrow> 'v chain_node \<Rightarrow> 'v chain_node outcome" where
  "initPostGenesisState e n =
     (case getLastCommit (ne_storage e) (cn_db n) (cn_database n) of
        Inl err \<Rightarrow> Threw err n
      | Inr c \<Rightarrow> Done (n\<lparr>cn_store := setTotalRound (dt_totalRound (cn_database n)) (setLastBlock (cm_block c) (cn_store n))\<rparr>))"

definition node_restore_validators :: "'v node_env \<Rightarrow> 'v chain_node \<Rightarrow> 'v chain_node outcome" where
  "node_restore_validators e n =
     (case validator_restore (node_config e) (cn_store n) (ne_contracts e (cn_evm n)) (cn_validators n) of
        Done vs \<Rightarrow> Done (n\<lparr>cn_validators := vs\<rparr>)
      | Threw err vs \<Rightarrow> Threw err (n\<lparr>cn_validators := vs\<rparr>))"

definition node_bootstrap :: "'v node_env \<Rightarrow> faults \<Rightarrow> 'v chain_node \<Rightarrow> 'v chain_node outcome" where
  "node_bootstrap e fa n =
     and_then (node_setGenesisCommit e n) (\<lambda>n.
     and_then (checkStoredGenesisCommit e n) (\<lambda>n.
     and_then (if db_isEmpty (cn_db n) then and_then (tryImportSnapshot e fa n) (processGenesisBlock e fa) else initPostGenesisState e n) (\<lambda>n.
     and_then (node_restore_validators e n) (\<lambda>n.
       if ne_apiSync e then fail_with (fa_apiSync fa) n else Done n))))"

section \<open>Runs\<close>

text \<open>A unit that the consensus hands over for the commit: \<open>RoundState\<close> and \<open>CommitState\<close> give a commit of their block in their round.\<close>

definition unit_ok :: "commit_unit \<Rightarrow> bool" where
  "unit_ok u \<longleftrightarrow> (\<forall>c. cu_commit u = Inr c \<longrightarrow> cm_block c = pu_block (cu_unit u) \<and> cp_round (cm_proof c) = pu_round (cu_unit u))"

text \<open>The EVM can change in any way between commits: by proposals that are processed, and by what is forged.\<close>

inductive chain_reach :: "'v node_env \<Rightarrow> bool \<Rightarrow> 'v chain_node \<Rightarrow> bool" for e where
  installed: "cn_db n = empty_chain_db \<Longrightarrow> chain_reach e False n"
| started: "chain_reach e running n \<Longrightarrow> node_bootstrap e fa (power_on e n) = Done n' \<Longrightarrow> chain_reach e True n'"
| start_failed: "chain_reach e running n \<Longrightarrow> node_bootstrap e fa (power_on e n) = Threw err n' \<Longrightarrow> chain_reach e False n'"
| evm_work: "chain_reach e running n \<Longrightarrow> chain_reach e running (n\<lparr>cn_evm := v\<rparr>)"
| committed: "chain_reach e True n \<Longrightarrow> process_block (ne_processor e) (node_config e) (cn_store n) (cn_validators n) (ne_evm e) (cu_unit u) v = (r, v') \<Longrightarrow> br_success r
    \<Longrightarrow> unit_ok u \<Longrightarrow> block_commit e fa u (n\<lparr>cn_evm := v'\<rparr>) = Done n' \<Longrightarrow> chain_reach e True n'"
| commit_failed: "chain_reach e True n \<Longrightarrow> process_block (ne_processor e) (node_config e) (cn_store n) (cn_validators n) (ne_evm e) (cu_unit u) v = (r, v') \<Longrightarrow> br_success r
    \<Longrightarrow> unit_ok u \<Longrightarrow> block_commit e fa u (n\<lparr>cn_evm := v'\<rparr>) = Threw err n' \<Longrightarrow> chain_reach e False n'"

section \<open>The stored chain\<close>

abbreviation commit_number :: "commit \<Rightarrow> nat" where
  "commit_number c \<equiv> bh_number (bk_header (cm_block c))"

definition linked_commits :: "nat \<Rightarrow> commit list \<Rightarrow> bool" where
  "linked_commits g cs \<longleftrightarrow> (\<forall>i < length cs. commit_number (cs ! i) = g + i)
     \<and> (\<forall>i. Suc i < length cs \<longrightarrow> bh_parentHash (bk_header (cm_block (cs ! Suc i))) = bh_hash (bk_header (cm_block (cs ! i))))"

definition stored_chain :: "'v node_env \<Rightarrow> commit list \<Rightarrow> chain_db \<Rightarrow> bool" where
  "stored_chain e cs db \<longleftrightarrow> linked_commits (nc_genesisNumber (node_config e)) cs
     \<and> db_commits db = map (\<lambda>c. (commit_number c, prepareCommitData c)) cs
     \<and> db_totalRound db = sum_list (map (\<lambda>c. cp_round (cm_proof c) + 1) cs)
     \<and> (cs \<noteq> [] \<longrightarrow> ne_genesis e = Inr (hd cs))"

text \<open>The part in memory tells the same of the chain. Of the last block it is the header: after a restart the block comes from the
  database, which may give other bytes for its transactions (\<open>longer_encoding_makes_stored_block_unreadable\<close>).\<close>

definition in_step :: "commit list \<Rightarrow> 'v chain_node \<Rightarrow> bool" where
  "in_step cs n \<longleftrightarrow> cs \<noteq> [] \<and> so_genesisCommit (cn_store n) = Some (hd cs) \<and> map_option bk_header (so_lastBlock (cn_store n)) = Some (bk_header (cm_block (last cs))) \<and> so_blockNumber (cn_store n) = commit_number (last cs)
     \<and> so_configHeight (cn_store n) = commit_number (last cs) + 1 \<and> so_totalRound (cn_store n) = sum_list (map (\<lambda>c. cp_round (cm_proof c) + 1) cs)
     \<and> cn_database n = \<lparr>dt_blockNumber = commit_number (last cs), dt_totalRound = sum_list (map (\<lambda>c. cp_round (cm_proof c) + 1) cs)\<rparr>"

text \<open>What is relied on: where the border to Rust converts the data of a commit without an exception, the database gets what it was given.
  The conversions of \<open>bindings/src/ctx.rs\<close> and \<open>result.rs\<close> are not modelled.\<close>

definition node_env_ok :: "'v node_env \<Rightarrow> bool" where
  "node_env_ok e \<longleftrightarrow> (\<forall>data data'. ne_bindings e data = Inr data' \<longrightarrow> data' = data)"

section \<open>Lemmas on the tables\<close>

lemma linked_snoc:
  "linked_commits g (cs @ [c]) \<longleftrightarrow> linked_commits g cs \<and> commit_number c = g + length cs
     \<and> (cs \<noteq> [] \<longrightarrow> bh_parentHash (bk_header (cm_block c)) = bh_hash (bk_header (cm_block (last cs))))"
proof -
  have "(\<forall>i. Suc i < length (cs @ [c]) \<longrightarrow> P ((cs @ [c]) ! Suc i) ((cs @ [c]) ! i))
    \<longleftrightarrow> (\<forall>i. Suc i < length cs \<longrightarrow> P (cs ! Suc i) (cs ! i)) \<and> (cs \<noteq> [] \<longrightarrow> P c (last cs))" for P
  proof (cases cs rule: rev_cases)
    case (snoc ds d)
    show ?thesis by (auto simp: snoc nth_append less_Suc_eq)
  qed simp
  from this [of "\<lambda>x y. bh_parentHash (bk_header (cm_block x)) = bh_hash (bk_header (cm_block y))"]
  show ?thesis unfolding linked_commits_def by (auto simp: nth_append less_Suc_eq)
qed

lemma last_commit_number: "linked_commits g cs \<Longrightarrow> cs \<noteq> [] \<Longrightarrow> commit_number (last cs) + 1 = g + length cs"
  by (cases cs rule: rev_cases) (simp_all add: linked_snoc)

lemma stored_numbers:
  assumes "linked_commits g cs"
  shows "map commit_number cs = [g..<g + length cs]"
  using assms by (intro nth_equalityI) (auto simp: linked_commits_def)

lemma stored_has: "stored_chain e cs db \<Longrightarrow> map_has (db_commits db) k \<longleftrightarrow> k \<in> set (map commit_number cs)"
  by (auto simp: stored_chain_def map_has_iff image_image)

lemma stored_get:
  assumes "stored_chain e cs db" and "c \<in> set cs"
  shows "db_getCommitData db (commit_number c) = Some (prepareCommitData c)"
proof -
  have "distinct (map commit_number cs)" using stored_numbers [of "nc_genesisNumber (node_config e)" cs] assms(1) by (simp add: stored_chain_def)
  then have "map_ok (db_commits db)" using assms(1) by (simp add: map_ok_def stored_chain_def comp_def)
  moreover have "(commit_number c, prepareCommitData c) \<in> set (db_commits db)" using assms by (auto simp: stored_chain_def)
  ultimately show ?thesis unfolding db_getCommitData_def by (rule map_ok_get)
qed

lemma fold_max_upt: "fold max [a..<a + n] (m :: nat) = (if n = 0 then m else max m (a + n - 1))"
  by (induction n) auto

lemma stored_state:
  assumes "stored_chain e cs db" and "cs \<noteq> []"
  shows "db_getState db = (commit_number (last cs), sum_list (map (\<lambda>c. cp_round (cm_proof c) + 1) cs))"
proof -
  have l: "linked_commits (nc_genesisNumber (node_config e)) cs" and c: "db_commits db = map (\<lambda>c. (commit_number c, prepareCommitData c)) cs"
    using assms(1) by (simp_all add: stored_chain_def)
  have "map fst (db_commits db) = [nc_genesisNumber (node_config e)..<nc_genesisNumber (node_config e) + length cs]"
    using stored_numbers [OF l] c by (simp add: comp_def)
  then have "last_number db = nc_genesisNumber (node_config e) + length cs - 1"
    using assms(2) by (simp add: last_number_def fold_max_upt)
  moreover have "commit_number (last cs) = nc_genesisNumber (node_config e) + length cs - 1"
    using last_commit_number [OF l assms(2)] by simp
  ultimately show ?thesis using assms(1) by (simp add: db_getState_def stored_chain_def)
qed

section \<open>Lemmas on commits\<close>

lemma processed_is_next:
  assumes "process_block px nc st vs evm u v = (r, v')" and "br_success r" and "so_lastBlock st = Some b"
  shows "bh_number (unit_header u) = nc_genesisNumber nc
    \<or> bh_number (unit_header u) = bh_number (bk_header b) + 1 \<and> bh_parentHash (unit_header u) = bh_hash (bk_header b)"
proof -
  have "chainedVerifier nc st u = Inr ()" using process_block_success [of px nc st vs evm u v v'] assms(1,2) unfolding verify_block_Inr by blast
  with assms(3) show ?thesis by (auto simp: chainedVerifier_def sum_bind_Inr_iff getLastBlock_def split: if_splits)
qed

lemma processed_first_is_genesis:
  assumes "process_block px nc st vs evm u v = (r, v')" and "br_success r" and "so_lastBlock st = None"
  shows "bh_number (unit_header u) = nc_genesisNumber nc"
proof -
  have "chainedVerifier nc st u = Inr ()" using process_block_success [of px nc st vs evm u v v'] assms(1,2) unfolding verify_block_Inr by blast
  with assms(3) show ?thesis by (auto simp: chainedVerifier_def sum_bind_Inr_iff getLastBlock_def split: if_splits)
qed

lemma db_commit_extends:
  assumes "stored_chain e cs db"
    and "cs \<noteq> [] \<Longrightarrow> commit_number c = nc_genesisNumber (node_config e)
      \<or> commit_number c = commit_number (last cs) + 1 \<and> bh_parentHash (bk_header (cm_block c)) = bh_hash (bk_header (cm_block (last cs)))"
    and "cs = [] \<Longrightarrow> commit_number c = nc_genesisNumber (node_config e) \<and> ne_genesis e = Inr c"
    and "db_commit (commit_number c) (prepareCommitData c) db = Inr db'"
  shows "stored_chain e (cs @ [c]) db'"
proof -
  let ?g = "nc_genesisNumber (node_config e)"
  have l: "linked_commits ?g cs" and commits: "db_commits db = map (\<lambda>c. (commit_number c, prepareCommitData c)) cs"
    using assms(1) by (simp_all add: stored_chain_def)
  have fresh: "\<not> map_has (db_commits db) (commit_number c)" using assms(4) by (auto simp: db_commit_def split: if_splits)
  have "linked_commits ?g (cs @ [c])"
  proof (cases "cs = []")
    case False
    then have last: "commit_number (last cs) + 1 = ?g + length cs" using last_commit_number [OF l] by simp
    have "commit_number c \<noteq> ?g" using fresh False stored_has [OF assms(1), of "commit_number c"] stored_numbers [OF l] by auto
    with assms(2) [OF False] l last show ?thesis unfolding linked_snoc by auto
  qed (use assms(3) l in \<open>simp add: linked_commits_def\<close>)
  moreover have "db_commits db' = db_commits db @ [(commit_number c, prepareCommitData c)]" "db_totalRound db' = db_totalRound db + cp_round (cm_proof c) + 1"
    using assms(4) fresh map_set_fresh by (auto simp: db_commit_def prepareCommitData_def Let_def split: if_splits)
  ultimately show ?thesis using assms(1,3) by (cases cs) (simp_all add: stored_chain_def)
qed

lemma evm_onCommit_cases:
  assumes "node_env_ok e" and "evm_onCommit e h c n = r"
  obtains (failed) err v where "r = Threw err (n\<lparr>cn_evm := v\<rparr>)"
    | (stored) db v where "r = Done (n\<lparr>cn_evm := v, cn_db := db\<rparr>)" and "db_commit (bh_number h) (prepareCommitData c) (cn_db n) = Inr db"
proof (cases "sum_bind (ne_bindings e (prepareCommitData c)) (\<lambda>data. db_commit (bh_number h) data (cn_db n))")
  case (Inl err)
  then show ?thesis using assms(2) failed [of err "cn_evm n"] by (simp add: evm_onCommit_def)
next
  case (Inr db)
  then have "db_commit (bh_number h) (prepareCommitData c) (cn_db n) = Inr db" using assms(1) by (auto simp: sum_bind_Inr_iff node_env_ok_def)
  moreover obtain x v where "ne_evmCommit e (block_commitKey h) (cn_evm n) = (x, v)" by fastforce
  ultimately show ?thesis using assms(2) Inr failed stored by (cases x) (auto simp: evm_onCommit_def)
qed

text \<open>A commit changes what is stored in one step, before it touches the memory.\<close>

lemma block_commit_cases:
  assumes "node_env_ok e" and "block_commit e fa u n = r"
  obtains (failed) err n' where "r = Threw err n'" and "cn_db n' = cn_db n"
    | (stored) c where "cu_commit u = Inr c" and "db_commit (bh_number (unit_header (cu_unit u))) (prepareCommitData c) (cn_db n) = Inr (cn_db (outcome_state r))"
      and "\<And>n'. r = Done n' \<Longrightarrow> cn_store n' = store_onCommit (pu_block (cu_unit u)) (pu_round (cu_unit u)) (cn_store n) \<and> cn_database n' = database_onCommit c (cn_database n)"
proof (cases "shouldSyncApi e u \<and> fa_flush fa \<noteq> None")
  case True
  then show ?thesis using assms(2) failed by (auto simp: block_commit_def fail_with_def)
next
  case flushed: False
  show ?thesis
  proof (cases "cu_commit u")
    case (Inl err)
    then show ?thesis using assms(2) flushed failed by (auto simp: block_commit_def fail_with_def)
  next
    case (Inr c)
    have r: "r = and_then (evm_onCommit e (unit_header (cu_unit u)) c n) (\<lambda>n.
       and_then (node_validators_onCommit e (bh_number (unit_header (cu_unit u))) (n\<lparr>cn_store := store_onCommit (pu_block (cu_unit u)) (pu_round (cu_unit u)) (cn_store n),
         cn_database := database_onCommit c (cn_database n)\<rparr>)) (\<lambda>n. if fa_handlers fa \<noteq> [] then Threw (JsError ''one or more commit handlers failed'') n else Done n))"
      using assms(2) Inr flushed by (auto simp: block_commit_def fail_with_def)
    show ?thesis
    proof (rule evm_onCommit_cases [OF assms(1) refl, of "unit_header (cu_unit u)" c n])
      fix err v assume "evm_onCommit e (unit_header (cu_unit u)) c n = Threw err (n\<lparr>cn_evm := v\<rparr>)"
      then show ?thesis using r failed by simp
    next
      fix db v assume db: "evm_onCommit e (unit_header (cu_unit u)) c n = Done (n\<lparr>cn_evm := v, cn_db := db\<rparr>)"
        "db_commit (bh_number (unit_header (cu_unit u))) (prepareCommitData c) (cn_db n) = Inr db"
      have "cn_db (outcome_state r) = db" "\<And>n'. r = Done n' \<Longrightarrow> cn_store n' = store_onCommit (pu_block (cu_unit u)) (pu_round (cu_unit u)) (cn_store n)
        \<and> cn_database n' = database_onCommit c (cn_database n)"
        using r db(1) by (auto simp: node_validators_onCommit_def outcome_simps split: outcome.splits if_splits)
      with db(2) Inr show ?thesis by (intro stored) simp_all
    qed
  qed
qed

text \<open>A node before its first block has nothing in memory.\<close>

definition agrees :: "commit list \<Rightarrow> 'v chain_node \<Rightarrow> bool" where
  "agrees cs n \<longleftrightarrow> (if cs = [] then so_lastBlock (cn_store n) = None \<and> so_totalRound (cn_store n) = 0 \<and> dt_totalRound (cn_database n) = 0 else in_step cs n)"

lemma store_onCommit_fields [simp]:
  "so_lastBlock (store_onCommit b k st) = Some b" "so_blockNumber (store_onCommit b k st) = bh_number (bk_header b)"
  "so_configHeight (store_onCommit b k st) = bh_number (bk_header b) + 1" "so_genesisCommit (store_onCommit b k st) = so_genesisCommit st" "so_totalRound (store_onCommit b k st) = so_totalRound st + k + 1"
  by (simp_all add: store_onCommit_def setLastBlock_def setBlockNumber_def)

lemma block_commit_keeps_chain:
  assumes "node_env_ok e" and "stored_chain e cs (cn_db n)" and "agrees cs n" and "unit_ok u"
    and "process_block (ne_processor e) (node_config e) (cn_store n) (cn_validators n) (ne_evm e) (cu_unit u) v = (r, v')" and "br_success r"
    and "\<And>c. cs = [] \<Longrightarrow> cu_commit u = Inr c \<Longrightarrow> ne_genesis e = Inr c \<and> so_genesisCommit (cn_store n) = Some c"
  shows "\<exists>cs'. stored_chain e cs' (cn_db (outcome_state (block_commit e fa u (n\<lparr>cn_evm := v'\<rparr>))))
    \<and> (\<forall>n'. block_commit e fa u (n\<lparr>cn_evm := v'\<rparr>) = Done n' \<longrightarrow> in_step cs' n')"
proof (rule block_commit_cases [OF assms(1) refl, of fa u "n\<lparr>cn_evm := v'\<rparr>"])
  fix err n' assume "block_commit e fa u (n\<lparr>cn_evm := v'\<rparr>) = Threw err n'" "cn_db n' = cn_db (n\<lparr>cn_evm := v'\<rparr>)"
  then show ?thesis using assms(2) by auto
next
  fix c
  let ?out = "block_commit e fa u (n\<lparr>cn_evm := v'\<rparr>)"
  assume c: "cu_commit u = Inr c" and "db_commit (bh_number (unit_header (cu_unit u))) (prepareCommitData c) (cn_db (n\<lparr>cn_evm := v'\<rparr>)) = Inr (cn_db (outcome_state ?out))"
    and mem: "\<And>n'. ?out = Done n' \<Longrightarrow> cn_store n' = store_onCommit (pu_block (cu_unit u)) (pu_round (cu_unit u)) (cn_store (n\<lparr>cn_evm := v'\<rparr>))
      \<and> cn_database n' = database_onCommit c (cn_database (n\<lparr>cn_evm := v'\<rparr>))"
  moreover have u: "pu_block (cu_unit u) = cm_block c" "pu_round (cu_unit u) = cp_round (cm_proof c)"
    using assms(4) c by (simp_all add: unit_ok_def)
  ultimately have db: "db_commit (commit_number c) (prepareCommitData c) (cn_db n) = Inr (cn_db (outcome_state ?out))" by simp
  have "stored_chain e (cs @ [c]) (cn_db (outcome_state ?out))"
    by (rule db_commit_extends [OF assms(2) _ _ db])
      (use assms(3) processed_is_next [OF assms(5,6)] processed_first_is_genesis [OF assms(5,6)] u(1) assms(7) [OF _ c] in \<open>auto simp: agrees_def in_step_def\<close>)
  moreover have "in_step (cs @ [c]) n'" if "?out = Done n'" for n'
    using mem [OF that] u(1,2) assms(3) assms(7) [OF _ c] by (auto simp: agrees_def in_step_def database_onCommit_def split: if_splits)
  ultimately show ?thesis by blast
qed

section \<open>Lemmas on the start\<close>

lemma stored_empty: "stored_chain e cs db \<Longrightarrow> db_isEmpty db \<longleftrightarrow> cs = []"
  by (auto simp: stored_chain_def db_isEmpty_def)

lemma power_on_fields [simp]:
  "cn_db (power_on e n) = cn_db n" "so_lastBlock (cn_store (power_on e n)) = None" "so_totalRound (cn_store (power_on e n)) = 0"
  "cn_database (power_on e n) = database_initialize (cn_db n)" "cn_validators (power_on e n) = empty_validator_set" "cn_evm (power_on e n) = ne_reopen e (cn_evm n)"
  "so_configHeight (cn_store (power_on e n)) = nc_genesisNumber (node_config e)"
  by (simp_all add: power_on_def)

lemma stored_initialize:
  assumes "stored_chain e cs db" and "cs \<noteq> []"
  shows "database_initialize db = \<lparr>dt_blockNumber = commit_number (last cs), dt_totalRound = sum_list (map (\<lambda>c. cp_round (cm_proof c) + 1) cs)\<rparr>"
  using stored_state [OF assms] by (simp add: database_initialize_def)

lemma stored_last_commit:
  assumes "stored_chain e cs db" and "cs \<noteq> []"
  shows "getLastCommit (ne_storage e) db (database_initialize db) = commit_fromStorage (ne_storage e) (prepareCommitData (last cs))"
  using stored_get [OF assms(1), of "last cs"] stored_initialize [OF assms] stored_empty [OF assms(1)] assms
  by (simp add: getLastCommit_def)

text \<open>Whatever is given out again has the header that was stored.\<close>

lemma fromStorage_header: "commit_fromStorage sx (prepareCommitData c) = Inr c' \<Longrightarrow> bk_header (cm_block c') = bk_header (cm_block c)"
  by (auto simp: commit_fromStorage_def block_fromStorage_def prepareCommitData_def sum_bind_Inr_iff Let_def)

lemma initPostGenesisState_stored:
  assumes "stored_chain e cs (cn_db n)" and "cs \<noteq> []" and "cn_database n = database_initialize (cn_db n)" and "so_genesisCommit (cn_store n) = Some (hd cs)"
  shows "initPostGenesisState e n = Done n' \<Longrightarrow> in_step cs n' \<and> cn_db n' = cn_db n \<and> cn_evm n' = cn_evm n \<and> cn_validators n' = cn_validators n"
    and "initPostGenesisState e n = Threw err n' \<Longrightarrow> n' = n"
    and "commit_fromStorage (ne_storage e) (prepareCommitData (last cs)) = Inr c \<Longrightarrow> \<exists>n'. initPostGenesisState e n = Done n'"
  using stored_last_commit [OF assms(1,2)] stored_initialize [OF assms(1,2)] assms(2-4)
  by (auto simp: initPostGenesisState_def in_step_def setTotalRound_def setLastBlock_def setBlockNumber_def split: sum.splits dest: fromStorage_header)

lemma node_restore_validators_cases:
  "node_restore_validators e n = r \<Longrightarrow> cn_db (outcome_state r) = cn_db n \<and> (in_step cs (outcome_state r) \<longleftrightarrow> in_step cs n)"
  by (auto simp: node_restore_validators_def in_step_def split: outcome.splits)

lemma processGenesisBlock_keeps:
  assumes "node_env_ok e" and "stored_chain e [] (cn_db n)" and "agrees [] n" and "so_genesisCommit (cn_store n) = Some c" and "ne_genesis e = Inr c"
  shows "\<exists>cs'. stored_chain e cs' (cn_db (outcome_state (processGenesisBlock e fa n))) \<and> (\<forall>n'. processGenesisBlock e fa n = Done n' \<longrightarrow> in_step cs' n')"
proof -
  let ?u = "\<lparr>pu_block = cm_block c, pu_round = cp_round (cm_proof c)\<rparr>"
  obtain r v where pb: "process_block (ne_processor e) (node_config e) (cn_store n) (cn_validators n) (ne_evm e) ?u (cn_evm n) = (r, v)" by fastforce
  have ok: "unit_ok \<lparr>cu_unit = ?u, cu_commit = Inr c\<rparr>" by (simp add: unit_ok_def)
  from assms(4) have out: "processGenesisBlock e fa n = (case getRoundValidators (node_config e) (cn_store n) (cn_validators n) of Inl err \<Rightarrow> Threw err n
    | Inr _ \<Rightarrow> if \<not> br_success r then Threw (JsError ''Block is not processed.'') (n\<lparr>cn_evm := v\<rparr>)
        else block_commit e fa \<lparr>cu_unit = ?u, cu_commit = Inr c\<rparr> (n\<lparr>cn_evm := v\<rparr>))"
    using pb by (auto simp: processGenesisBlock_def node_processCommit_def getGenesisCommit_def Let_def split: sum.splits)
  show ?thesis
  proof (cases "\<exists>x. getRoundValidators (node_config e) (cn_store n) (cn_validators n) = Inr x")
    case True
    then show ?thesis using out assms(2) block_commit_keeps_chain [OF assms(1-3) ok _, of "cn_evm n" r v fa] pb assms(4,5) by (cases "br_success r") auto
  next
    case False
    then show ?thesis using out assms(2) by (auto split: sum.splits)
  qed
qed

lemma node_bootstrap_keeps_chain:
  assumes "node_env_ok e" and "stored_chain e cs (cn_db n)"
  shows "\<exists>cs'. stored_chain e cs' (cn_db (outcome_state (node_bootstrap e fa (power_on e n)))) \<and> (\<forall>n'. node_bootstrap e fa (power_on e n) = Done n' \<longrightarrow> in_step cs' n')"
    (is "?goal (node_bootstrap e fa (power_on e n))")
proof (cases "ne_genesis e")
  case (Inl err)
  then show ?thesis using assms(2) by (auto simp: node_bootstrap_def node_setGenesisCommit_def)
next
  case (Inr c)
  define n1 where "n1 = power_on e n\<lparr>cn_store := setGenesisCommit c (cn_store (power_on e n))\<rparr>"
  have n1: "cn_db n1 = cn_db n" "cn_database n1 = database_initialize (cn_db n1)" "so_genesisCommit (cn_store n1) = Some c" "so_lastBlock (cn_store n1) = None"
    "so_totalRound (cn_store n1) = 0" by (simp_all add: n1_def setGenesisCommit_def)
  let ?init = "if db_isEmpty (cn_db n1) then and_then (tryImportSnapshot e fa n1) (processGenesisBlock e fa) else initPostGenesisState e n1"
  have snapshot: "tryImportSnapshot e fa n1 = Done n1 \<or> (\<exists>err. tryImportSnapshot e fa n1 = Threw err n1)"
    by (auto simp: tryImportSnapshot_def fail_with_def split: sum.splits option.splits)
  have init: "?goal ?init"
  proof (cases "cs = []")
    case True
    then have "agrees [] n1" using assms(2) n1 by (simp add: agrees_def database_initialize_def db_getState_def stored_chain_def)
    from processGenesisBlock_keeps [OF assms(1) _ this n1(3) Inr, of fa] True assms(2) n1(1) snapshot stored_empty [OF assms(2)]
    show ?thesis by (auto simp: outcome_simps)
  next
    case False
    moreover have "so_genesisCommit (cn_store n1) = Some (hd cs)" using n1(3) Inr False assms(2) by (simp add: stored_chain_def)
    ultimately show ?thesis using initPostGenesisState_stored(1,2) [of e cs n1] assms(2) n1 stored_empty [OF assms(2)] by (cases "initPostGenesisState e n1") auto
  qed
  have check: "checkStoredGenesisCommit e n1 = Done n1 \<or> (\<exists>err. checkStoredGenesisCommit e n1 = Threw err n1)"
    by (auto simp: checkStoredGenesisCommit_def split: sum.splits option.splits)
  have boot: "node_bootstrap e fa (power_on e n) = and_then (checkStoredGenesisCommit e n1) (\<lambda>n. and_then (if db_isEmpty (cn_db n)
      then and_then (tryImportSnapshot e fa n) (processGenesisBlock e fa) else initPostGenesisState e n)
      (\<lambda>n. and_then (node_restore_validators e n) (\<lambda>n. if ne_apiSync e then fail_with (fa_apiSync fa) n else Done n)))"
    by (simp add: node_bootstrap_def node_setGenesisCommit_def Inr n1_def)
  let ?rest = "\<lambda>n. and_then (node_restore_validators e n) (\<lambda>n. if ne_apiSync e then fail_with (fa_apiSync fa) n else Done n)"
  have rest: "?goal (?rest m)" if "stored_chain e cs' (cn_db m)" "in_step cs' m" for m cs'
    using node_restore_validators_cases [of e m, OF refl, of cs'] that
    by (cases "node_restore_validators e m") (auto simp: fail_with_def split: option.splits intro: exI [of _ cs'])
  show ?thesis
  proof (cases "checkStoredGenesisCommit e n1 = Done n1")
    case True
    then have "node_bootstrap e fa (power_on e n) = and_then ?init ?rest" using boot by simp
    moreover have "?goal (and_then ?init ?rest)" using init rest by (cases ?init) fastforce+
    ultimately show ?thesis by simp
  next
    case False
    then show ?thesis using check boot n1(1) assms(2) by auto
  qed
qed

section \<open>Runs of the node\<close>

lemma reachable_chain:
  assumes "node_env_ok e" and "chain_reach e running n"
  shows "\<exists>cs. stored_chain e cs (cn_db n) \<and> (running \<longrightarrow> in_step cs n)"
  using assms(2)
proof induction
  case (installed n)
  then show ?case by (intro exI [of _ "[]"]) (simp add: stored_chain_def linked_commits_def empty_chain_db_def)
next
  case (started running n fa n')
  then show ?case using node_bootstrap_keeps_chain [OF assms(1), of _ n fa] by fastforce
next
  case (start_failed running n fa err n')
  then show ?case using node_bootstrap_keeps_chain [OF assms(1), of _ n fa] by fastforce
next
  case (evm_work running n v)
  then show ?case by (auto simp: in_step_def)
next
  case (committed n u v r v' fa n')
  then obtain cs where "stored_chain e cs (cn_db n)" "in_step cs n" by blast
  with block_commit_keeps_chain [OF assms(1) _ _ committed(4,2,3), of cs fa] committed(5) show ?case by (fastforce simp: agrees_def in_step_def)
next
  case (commit_failed n u v r v' fa err n')
  then obtain cs where "stored_chain e cs (cn_db n)" "in_step cs n" by blast
  with block_commit_keeps_chain [OF assms(1) _ _ commit_failed(4,2,3), of cs fa] commit_failed(5) show ?case by (fastforce simp: agrees_def in_step_def)
qed

lemma stored_genesis:
  assumes "stored_chain e cs db" and "cs \<noteq> []" and "commit_fromStorage (ne_storage e) (prepareCommitData (hd cs)) = Inr c"
  shows "getBlock (ne_storage e) db (nc_genesisNumber (node_config e)) = Inr (Some (cm_block c))"
proof -
  have "commit_number (hd cs) = nc_genesisNumber (node_config e)" using assms(1,2) by (simp add: stored_chain_def linked_commits_def hd_conv_nth)
  then show ?thesis using stored_get [OF assms(1), of "hd cs"] assms by (simp add: getBlock_def)
qed

lemma restart:
  assumes "stored_chain e cs (cn_db n)" and "cs \<noteq> []" and "ne_apiSync e \<Longrightarrow> fa_apiSync fa = None"
    and "commit_fromStorage (ne_storage e) (prepareCommitData (hd cs)) = Inr g" and "commit_fromStorage (ne_storage e) (prepareCommitData (last cs)) = Inr c"
    and "\<And>st. so_configHeight st = commit_number (last cs) + 1 \<Longrightarrow> \<exists>vs. validator_restore (node_config e) st (ne_contracts e (ne_reopen e (cn_evm n))) empty_validator_set = Done vs"
  shows "\<exists>n'. node_bootstrap e fa (power_on e n) = Done n' \<and> cn_db n' = cn_db n \<and> in_step cs n'"
proof -
  let ?n1 = "power_on e n\<lparr>cn_store := setGenesisCommit (hd cs) (cn_store (power_on e n))\<rparr>"
  have n1: "cn_db ?n1 = cn_db n" "cn_database ?n1 = database_initialize (cn_db ?n1)" "so_genesisCommit (cn_store ?n1) = Some (hd cs)"
    "cn_evm ?n1 = ne_reopen e (cn_evm n)" "cn_validators ?n1 = empty_validator_set" by (simp_all add: setGenesisCommit_def)
  have genesis: "ne_genesis e = Inr (hd cs)" using assms(1,2) by (simp add: stored_chain_def)
  have check: "checkStoredGenesisCommit e ?n1 = Done ?n1"
    using stored_genesis [OF assms(1,2,4)] fromStorage_header [OF assms(4)] n1(1,3) by (simp add: checkStoredGenesisCommit_def getGenesisCommit_def)
  have s1: "stored_chain e cs (cn_db ?n1)" using assms(1) n1(1) by simp
  obtain n2 where i2: "initPostGenesisState e ?n1 = Done n2" using initPostGenesisState_stored(3) [OF s1 assms(2) n1(2,3) assms(5)] by blast
  from initPostGenesisState_stored(1) [OF s1 assms(2) n1(2,3) i2] n1 have n2: "in_step cs n2" "cn_db n2 = cn_db n" "cn_evm n2 = ne_reopen e (cn_evm n)"
    "cn_validators n2 = empty_validator_set" by simp_all
  obtain vs where "validator_restore (node_config e) (cn_store n2) (ne_contracts e (ne_reopen e (cn_evm n))) empty_validator_set = Done vs"
    using assms(6) [of "cn_store n2"] n2(1) by (auto simp: in_step_def)
  with n2(3,4) have v: "node_restore_validators e n2 = Done (n2\<lparr>cn_validators := vs\<rparr>)" by (simp add: node_restore_validators_def)
  have "node_bootstrap e fa (power_on e n) = Done (n2\<lparr>cn_validators := vs\<rparr>)"
    using genesis check i2 v assms(2,3) stored_empty [OF assms(1)] by (simp add: node_bootstrap_def node_setGenesisCommit_def fail_with_def)
  then show ?thesis using n2(1,2) by (simp add: in_step_def)
qed

lemma in_step_same:
  "in_step cs n \<Longrightarrow> in_step cs n' \<Longrightarrow> cn_store n' = cn_store n\<lparr>so_lastBlock := so_lastBlock (cn_store n')\<rparr>
     \<and> map_option bk_header (so_lastBlock (cn_store n')) = map_option bk_header (so_lastBlock (cn_store n)) \<and> cn_database n = cn_database n'"
  by (cases "cn_store n"; cases "cn_store n'") (auto simp: in_step_def)

section \<open>Properties\<close>

text \<open>C10 (invariant). However a node came to run - after commits, crashes inside a commit or a start, and restarts - its database holds a
  chain: the genesis commit of the configuration first, numbers without a gap, every block on the hash of the one before, each stored
  as \<open>prepareCommitData\<close> takes it apart, and the total round the sum of the rounds; and the store (genesis commit, header of the last block,
  number, total round) and the database service are in step with it. Nothing is asked of the encoding of the transactions, so the blocks
  that are given out again with other bytes are among those committed.
  It relies on the border to Rust, which hands the data of a commit over unchanged or throws.\<close>

theorem running_node_agrees_with_storage:
  assumes "node_env_ok e" and "chain_reach e True n"
  shows "\<exists>cs. stored_chain e cs (cn_db n) \<and> in_step cs n"
  using reachable_chain [OF assms] by simp

text \<open>C11 (liveness). A node that stored its genesis block can start again, however it stopped, if the first and the last commit can be put together
  from the database, the validators can be read from the contracts and the API database starts where it is used: nothing stored is lost, and a
  node that was running has the database service and the store it had, the last block up to the bytes of its transactions.\<close>

theorem node_restarts_where_it_stopped:
  assumes "node_env_ok e" and "chain_reach e running n" and "\<not> db_isEmpty (cn_db n)" and "ne_apiSync e \<Longrightarrow> fa_apiSync fa = None"
    and "\<And>k data. k = nc_genesisNumber (node_config e) \<or> k = last_number (cn_db n) \<Longrightarrow> db_getCommitData (cn_db n) k = Some data
      \<Longrightarrow> \<exists>c. commit_fromStorage (ne_storage e) data = Inr c"
    and "\<And>st. so_configHeight st = last_number (cn_db n) + 1
      \<Longrightarrow> \<exists>vs. validator_restore (node_config e) st (ne_contracts e (ne_reopen e (cn_evm n))) empty_validator_set = Done vs"
  shows "\<exists>n'. node_bootstrap e fa (power_on e n) = Done n' \<and> cn_db n' = cn_db n
    \<and> (running \<longrightarrow> cn_store n' = cn_store n\<lparr>so_lastBlock := so_lastBlock (cn_store n')\<rparr>
        \<and> map_option bk_header (so_lastBlock (cn_store n')) = map_option bk_header (so_lastBlock (cn_store n)) \<and> cn_database n' = cn_database n)"
proof -
  obtain cs where cs: "stored_chain e cs (cn_db n)" "running \<longrightarrow> in_step cs n" using reachable_chain [OF assms(1,2)] by blast
  then have ne: "cs \<noteq> []" using stored_empty assms(3) by blast
  have last: "last_number (cn_db n) = commit_number (last cs)" using stored_state [OF cs(1) ne] by (simp add: db_getState_def)
  have first: "nc_genesisNumber (node_config e) = commit_number (hd cs)" using cs(1) ne by (simp add: stored_chain_def linked_commits_def hd_conv_nth)
  obtain g c where "commit_fromStorage (ne_storage e) (prepareCommitData (hd cs)) = Inr g" "commit_fromStorage (ne_storage e) (prepareCommitData (last cs)) = Inr c"
    using assms(5) [OF disjI1 [OF refl], of "prepareCommitData (hd cs)"] assms(5) [OF disjI2 [OF refl], of "prepareCommitData (last cs)"]
      stored_get [OF cs(1), of "hd cs"] stored_get [OF cs(1), of "last cs"] ne unfolding first last by auto
  from restart [OF cs(1) ne assms(4) this] assms(6) last obtain n' where
    n': "node_bootstrap e fa (power_on e n) = Done n'" "cn_db n' = cn_db n" "in_step cs n'" by auto
  with in_step_same [OF _ n'(3), of n] cs(2) show ?thesis by auto
qed

section \<open>A sample node\<close>

definition sample_network :: network_config where
  "sample_network = \<lparr>nc_genesisNumber = 0, nc_milestones = [sample_rules 2097152\<lparr>ms_roundValidators := Some 0\<rparr>, sample_rules 2097152\<lparr>ms_height := 1\<rparr>], nc_chainId = 11\<rparr>"

definition sample_genesis_header :: block_header where
  "sample_genesis_header = sample_header\<lparr>bh_number := 0, bh_parentHash := to_hex (replicate 32 0), bh_transactionsCount := 0, bh_gasUsed := 0, bh_fee := 0,
     bh_payloadSize := 0, bh_transactionsRoot := transactions_root sample_sha256 [], bh_hash := to_hex (replicate 32 8)\<rparr>"

definition sample_genesis_proof :: commit_proof where
  "sample_genesis_proof = \<lparr>cp_round = 0, cp_signature = to_hex (replicate 96 7), cp_validators = []\<rparr>"

definition sample_genesis :: commit where
  "sample_genesis =
     (let block = values_enc sample_viem blockHeaderSchema (header_values sample_genesis_header)
      in \<lparr>cm_block = \<lparr>bk_header = sample_genesis_header, bk_serialized = to_hex block, bk_transactions = []\<rparr>, cm_proof = sample_genesis_proof,
          cm_serialized = to_hex (commit_proof_enc sample_viem sample_genesis_proof @ block)\<rparr>)"

definition sample_node_env :: "unit node_env" where
  "sample_node_env = \<lparr>ne_evm = sample_evm, ne_evmCommit = \<lambda>_. op_return (), ne_reopen = \<lambda>v. v,
     ne_contracts = \<lambda>_. \<lparr>ct_getRoundValidators = Inr (vs_topValidators sample_validators), ct_getAllValidators = Inr (vs_topValidators sample_validators)\<rparr>,
     ne_bindings = Inr, ne_processor = sample_processor, ne_storage = sample_storage\<lparr>sx_config := sample_network\<rparr>, ne_genesis = Inr sample_genesis, ne_apiSync = False\<rparr>"

definition sample_faults :: faults where
  "sample_faults = \<lparr>fa_flush = None, fa_handlers = [], fa_snapshot = None, fa_apiSync = None\<rparr>"

lemma sample_network_simps:
  "milestone_of sample_network 0 = Inr (sample_rules 2097152\<lparr>ms_roundValidators := Some 0\<rparr>)"
  "0 < n \<Longrightarrow> milestone_of sample_network n = Inr (sample_rules 2097152\<lparr>ms_height := 1\<rparr>)" "nc_genesisNumber sample_network = 0"
  by (simp_all add: sample_network_def milestone_of_def milestone_at_def sample_rules_def)

lemma sample_network_new_round: "isNewRound sample_network (Suc 0) = Inr True"
  by (simp add: isNewRound_def calculateRound_def getValidatorSpan_def getValidatorSpans_def sample_network_def sample_rules_def milestone_at_def spans_from.simps
    span_covers_def getNextMilestoneWithNewKey_def Let_def)

lemma sample_genesis_wire: "wire_header sample_viem sample_genesis_header" "wire_commit_proof sample_viem sample_genesis_proof"
  using sample_wire_header
  by (simp_all add: wire_header_def sample_genesis_header_def transactions_root_def sample_sha256_def wire_hex_replicate wire_commit_proof_def sample_genesis_proof_def
    sample_signature wire_flags_def validatorSetPack_value)

lemma sample_genesis_stored: "commit_fromStorage (ne_storage sample_node_env) (prepareCommitData sample_genesis) = Inr sample_genesis"
proof -
  let ?block = "values_enc sample_viem blockHeaderSchema (header_values sample_genesis_header)"
  have sx: "sx_viem (ne_storage sample_node_env) = sample_viem" "sx_config (ne_storage sample_node_env) = sample_network"
    by (simp_all add: sample_node_env_def sample_storage_def)
  have "serializeWithTransactions sample_viem sample_genesis_header [] = Inr ?block"
    using serializeWithTransactions_enc [OF sample_viem_law, of sample_genesis_header "[]"] sample_genesis_wire(1) by (simp add: wire_block_def sample_genesis_header_def)
  then have b: "block_fromStorage (ne_storage sample_node_env) (bk_header (cm_block sample_genesis)) (scm_transactions (prepareCommitData sample_genesis)) = Inr (cm_block sample_genesis)"
    by (simp add: block_fromStorage_def prepareCommitData_def sample_genesis_def sx Let_def)
  have "serializeCommit sample_viem sample_genesis_proof (cm_block sample_genesis) = Inr (commit_proof_enc sample_viem sample_genesis_proof @ ?block)"
    using serializeCommitProof_enc [OF sample_viem_law sample_genesis_wire(2)] by (simp add: serializeCommit_def sample_genesis_def Let_def)
  with commit_of_stored_block [OF b refl] show ?thesis
    by (simp add: sx sample_network_simps sample_genesis_def sample_genesis_header_def sample_genesis_proof_def Let_def)
qed

lemma sample_node_env_ok: "node_env_ok sample_node_env"
  by (simp add: node_env_ok_def sample_node_env_def)

definition sample_installed :: "unit chain_node" where
  "sample_installed = \<lparr>cn_db = empty_chain_db, cn_evm = (), cn_store = sample_store, cn_database = \<lparr>dt_blockNumber = 0, dt_totalRound = 0\<rparr>, cn_validators = empty_validator_set\<rparr>"

lemma sample_genesis_processed:
  assumes "so_lastBlock st = None"
  shows "\<exists>r v'. process_block sample_processor sample_network st vs sample_evm \<lparr>pu_block = cm_block sample_genesis, pu_round = 0\<rparr> () = (r, v') \<and> br_success r"
proof -
  let ?u = "\<lparr>pu_block = cm_block sample_genesis, pu_round = 0\<rparr>"
  have size: "length (bk_serialized (cm_block sample_genesis)) div 2 = headerSize"
    using header_enc_length [OF sample_viem_law sample_genesis_wire(1)] by (simp add: sample_genesis_def Let_def)
  have "to_hex (replicate k 0) = replicate (2 * k) CHR ''0''" for k by (induction k) (simp_all add: to_hex_def hex_chars_def)
  from this [of 32] have zero: "to_hex (replicate 32 0) = ZeroHash" by (simp add: ZeroHash_def)
  have u: "unit_header ?u = sample_genesis_header" "bk_transactions (pu_block ?u) = []" by (simp_all add: sample_genesis_def Let_def)
  have "verify_block sample_processor sample_network st vs sample_evm () ?u = Inr ()"
    unfolding verify_block_Inr
    by (intro conjI) (simp_all add: chainedVerifier_def roundVerifier_def sizeVerifier_def versionVerifier_def rewardVerifier_def transactionsLengthVerifier_def
      transactionsDuplicatesVerifier_def transactionsRootVerifier_def gasLimitVerifier_def legacyAttributeVerifier_def timestampVerifier_def generatorVerifier_def
      randaoVerifier_def u [simplified] size zero sample_network_simps sample_chain_simps sample_genesis_header_def headerSize_def hashSize_def require_def Let_def)
  moreover have "\<exists>m v1 rcs v2. milestone_of sample_network (bh_number (unit_header ?u)) = Inr m
    \<and> prepareCommit sample_processor sample_network st sample_evm (unit_header ?u) m () = (Inr (), v1)
    \<and> run_all sample_evm sample_network (unit_header ?u) (bk_transactions (pu_block ?u)) v1 = (Inr rcs, v2) \<and> bh_gasUsed (unit_header ?u) = gas_of rcs
    \<and> bh_fee (unit_header ?u) = fee_of (bk_transactions (pu_block ?u)) rcs \<and> finish_block sample_evm sample_network st (unit_header ?u) m v2 = (Inr (), ())"
    by (simp add: prepareCommit_def block_prevrandao_def finish_block_def round_updates_def verify_roots_def getPreviousStateRoot_def op_bind_Inr u [simplified]
      sample_network_simps sample_network_new_round sample_chain_simps sample_genesis_header_def gas_of_def fee_of_def require_def) blast
  ultimately show ?thesis using process_block_success [of sample_processor sample_network st vs sample_evm ?u "()" "()"] by auto
qed

lemma sample_validators_read: "0 < so_configHeight st \<Longrightarrow> \<exists>vs'. buildRoundValidators sample_network st (ne_contracts sample_node_env x) vs = Done vs'"
  by (simp add: buildRoundValidators_def sample_network_simps sample_node_env_def sample_validators_def sample_rules_def Let_def)

lemma sample_validators_restored: "0 < so_configHeight st \<Longrightarrow> \<exists>vs'. validator_restore sample_network st (ne_contracts sample_node_env x) vs = Done vs'"
  using sample_validators_read [of st x vs] by (auto simp: validator_restore_def) (simp add: sample_node_env_def)

text \<open>The first start of the node, over an empty database.\<close>

lemma sample_started: "\<exists>n. node_bootstrap sample_node_env sample_faults (power_on sample_node_env sample_installed) = Done n \<and> \<not> db_isEmpty (cn_db n) \<and> last_number (cn_db n) = 0"
proof -
  let ?e = sample_node_env
  define n1 where "n1 = power_on ?e sample_installed\<lparr>cn_store := setGenesisCommit sample_genesis (cn_store (power_on ?e sample_installed))\<rparr>"
  have n1: "cn_db n1 = empty_chain_db" "so_lastBlock (cn_store n1) = None" "so_configHeight (cn_store n1) = 0" "so_genesisCommit (cn_store n1) = Some sample_genesis"
    "cn_validators n1 = empty_validator_set"
    by (simp_all add: n1_def setGenesisCommit_def sample_installed_def) (simp add: sample_node_env_def sample_network_def)
  have e: "node_config ?e = sample_network" "ne_genesis ?e = Inr sample_genesis" "ne_processor ?e = sample_processor" "ne_evm ?e = sample_evm" "ne_apiSync ?e = False"
    by (simp_all add: sample_node_env_def)
  obtain r v where pb: "process_block sample_processor sample_network (cn_store n1) (cn_validators n1) sample_evm \<lparr>pu_block = cm_block sample_genesis, pu_round = 0\<rparr> () = (r, v)"
    "br_success r" using sample_genesis_processed [OF n1(2)] by blast
  let ?c = "\<lparr>cu_unit = \<lparr>pu_block = cm_block sample_genesis, pu_round = 0\<rparr>, cu_commit = Inr sample_genesis\<rparr>"
  obtain n2 where n2: "evm_onCommit ?e sample_genesis_header sample_genesis (n1\<lparr>cn_evm := v\<rparr>) = Done n2" "\<not> db_isEmpty (cn_db n2)" "last_number (cn_db n2) = 0"
    "cn_validators n2 = empty_validator_set"
    using n1(1,5) by (simp add: evm_onCommit_def sample_node_env_def db_commit_def empty_chain_db_def map_has_def op_return_def map_set_def db_isEmpty_def last_number_def
      sample_genesis_header_def)
  let ?n3 = "n2\<lparr>cn_store := store_onCommit (cm_block sample_genesis) 0 (cn_store n2), cn_database := database_onCommit sample_genesis (cn_database n2)\<rparr>"
  have g: "bk_header (cm_block sample_genesis) = sample_genesis_header" "bh_number sample_genesis_header = 0" "cp_round (cm_proof sample_genesis) = 0"
    by (simp_all add: sample_genesis_def sample_genesis_header_def sample_genesis_proof_def Let_def)
  obtain vs where vs: "node_validators_onCommit ?e 0 ?n3 = Done (?n3\<lparr>cn_validators := vs\<rparr>)"
    using sample_validators_read [of "cn_store ?n3" "cn_evm ?n3" "cn_validators ?n3"] g(1,2)
    by (auto simp: node_validators_onCommit_def validator_onCommit_def e sample_network_new_round)
  have commit: "block_commit ?e sample_faults ?c (n1\<lparr>cn_evm := v\<rparr>) = Done (?n3\<lparr>cn_validators := vs\<rparr>)"
    using n2(1) vs by (simp add: block_commit_def shouldSyncApi_def fail_with_def e g sample_faults_def)
  obtain vs' where vs': "node_restore_validators ?e (?n3\<lparr>cn_validators := vs\<rparr>) = Done (?n3\<lparr>cn_validators := vs'\<rparr>)"
    using sample_validators_restored [of "cn_store ?n3" "cn_evm ?n3" vs] by (auto simp: node_restore_validators_def e)
  have "getRoundValidators sample_network (cn_store n1) (cn_validators n1) = Inr []"
    by (simp add: getRoundValidators_def n1 sample_network_simps empty_validator_set_def)
  then have "processGenesisBlock ?e sample_faults n1 = Done (?n3\<lparr>cn_validators := vs\<rparr>)"
    using pb commit n1(4) by (simp add: processGenesisBlock_def getGenesisCommit_def node_processCommit_def e g Let_def)
  moreover have "tryImportSnapshot ?e sample_faults n1 = Done n1"
    by (simp add: tryImportSnapshot_def getGenesisCommit_def n1 e sample_network_simps fail_with_def sample_faults_def sample_rules_def)
  moreover have "checkStoredGenesisCommit ?e n1 = Done n1"
    by (simp add: checkStoredGenesisCommit_def getBlock_def db_getCommitData_def n1(1) empty_chain_db_def map_get_def)
  moreover have "node_setGenesisCommit ?e (power_on ?e sample_installed) = Done n1" by (simp add: node_setGenesisCommit_def e n1_def)
  ultimately have "node_bootstrap ?e sample_faults (power_on ?e sample_installed) = Done (?n3\<lparr>cn_validators := vs'\<rparr>)"
    using vs' n1(1) by (simp add: node_bootstrap_def e db_isEmpty_def empty_chain_db_def)
  then show ?thesis using n2(2,3) by simp
qed

lemma sample_running: "\<exists>n. chain_reach sample_node_env True n \<and> \<not> db_isEmpty (cn_db n) \<and> last_number (cn_db n) = 0"
  using sample_started started [OF installed, of sample_installed sample_node_env sample_faults] by (auto simp: sample_installed_def)

theorem running_node_agrees_with_storage_witness:
  "\<exists>n cs. chain_reach sample_node_env True n \<and> stored_chain sample_node_env cs (cn_db n) \<and> in_step cs n"
  using running_node_agrees_with_storage [OF sample_node_env_ok] sample_running by blast

theorem node_restarts_where_it_stopped_witness:
  "\<exists>n n'. chain_reach sample_node_env True n \<and> node_bootstrap sample_node_env sample_faults (power_on sample_node_env n) = Done n'
     \<and> cn_db n' = cn_db n \<and> so_totalRound (cn_store n') = so_totalRound (cn_store n) \<and> cn_database n' = cn_database n"
proof -
  obtain n where n: "chain_reach sample_node_env True n" "\<not> db_isEmpty (cn_db n)" "last_number (cn_db n) = 0" using sample_running by blast
  have e: "node_config sample_node_env = sample_network" by (simp add: sample_node_env_def)
  obtain cs where cs: "stored_chain sample_node_env cs (cn_db n)" "cs \<noteq> []" using reachable_chain [OF sample_node_env_ok n(1)] by (auto simp: in_step_def)
  then have g: "hd cs = sample_genesis" by (simp add: stored_chain_def) (simp add: sample_node_env_def)
  moreover have "commit_number sample_genesis = 0" by (simp add: sample_genesis_def sample_genesis_header_def Let_def)
  ultimately have "db_getCommitData (cn_db n) 0 = Some (prepareCommitData sample_genesis)" using stored_get [OF cs(1) hd_in_set [OF cs(2)]] by simp
  then have read: "\<exists>c. commit_fromStorage (ne_storage sample_node_env) data = Inr c"
    if "k = nc_genesisNumber (node_config sample_node_env) \<or> k = last_number (cn_db n)" "db_getCommitData (cn_db n) k = Some data" for k data
    using that n(3) sample_genesis_stored by (auto simp: e sample_network_simps)
  have "\<exists>n'. node_bootstrap sample_node_env sample_faults (power_on sample_node_env n) = Done n' \<and> cn_db n' = cn_db n
    \<and> (True \<longrightarrow> cn_store n' = cn_store n\<lparr>so_lastBlock := so_lastBlock (cn_store n')\<rparr>
        \<and> map_option bk_header (so_lastBlock (cn_store n')) = map_option bk_header (so_lastBlock (cn_store n)) \<and> cn_database n' = cn_database n)"
  proof (rule node_restarts_where_it_stopped [OF sample_node_env_ok n(1,2) _ read])
    show "\<exists>vs. validator_restore (node_config sample_node_env) st (ne_contracts sample_node_env (ne_reopen sample_node_env (cn_evm n))) empty_validator_set = Done vs"
      if "so_configHeight st = last_number (cn_db n) + 1" for st
      unfolding e using that n(3) by (intro sample_validators_restored) simp
  qed (simp_all add: sample_faults_def)
  then obtain n' where n': "node_bootstrap sample_node_env sample_faults (power_on sample_node_env n) = Done n'" "cn_db n' = cn_db n" "cn_database n' = cn_database n"
    and st: "cn_store n' = cn_store n\<lparr>so_lastBlock := so_lastBlock (cn_store n')\<rparr>" by blast
  have "so_totalRound (cn_store n') = so_totalRound (cn_store n)" by (subst st) simp
  with n(1) n' show ?thesis by blast
qed

end
