(* ===== verification/P2p_Peers.thy ===== *)
theory P2p_Peers
  imports Block_Downloader Chain_Node
begin

text \<open>
  The peers a node knows: \<open>p2p/source\<close> with \<open>peer-repository.ts\<close>, \<open>peer-disposer.ts\<close>, \<open>peer-processor.ts\<close>, \<open>peer-verifier.ts\<close>,
  \<open>header-service.ts\<close>, the cleaning of \<open>service.ts\<close> and the controllers \<open>post-message.ts\<close>, \<open>post-proposal.ts\<close> and \<open>get-peers.ts\<close>; and
  their copy in the process of the transaction pool (\<open>transaction-pool-broadcaster\<close>, the handlers of \<open>transaction-pool-worker\<close>).

  Peer objects live in a heap, the maps hold references to them. Accepting a peer is cut at its awaits; bans, disconnects and other
  acceptances come in between. The two processes are joined by a queue of commands and a queue of events. Sockets, statistics
  and logging are left out. Matching and parsing of addresses (micromatch, ipaddr.js) and the version check (semver) are parameters.
\<close>

section \<open>Addresses\<close>

record address_lib =
  al_process :: "string \<Rightarrow> string option"
  al_kind :: "string \<Rightarrow> string option"
  al_network :: "string \<Rightarrow> error + string"
  al_isMatch :: "string \<Rightarrow> string \<Rightarrow> error + bool"
  al_interfaces :: "string list"

fun replace_first :: "char \<Rightarrow> string \<Rightarrow> string" where
  "replace_first c [] = []"
| "replace_first c (x # xs) = (if x = c then xs else x # replace_first c xs)"

definition cleanAddress :: "string \<Rightarrow> string" where
  "cleanAddress ip = replace_first (CHR '']'') (replace_first (CHR ''['') ip)"

definition isIPv6Address :: "address_lib \<Rightarrow> string \<Rightarrow> bool" where
  "isIPv6Address al ip \<longleftrightarrow> al_kind al (cleanAddress ip) = Some ''ipv6''"

definition isLocalHost :: "address_lib \<Rightarrow> string \<Rightarrow> bool" where
  "isLocalHost al ip \<longleftrightarrow> take 1 ip = ''0'' \<or> ip \<in> set [''127.0.0.1'', ''::ffff:127.0.0.1'', ''::1''] \<or> ip \<in> set (al_interfaces al)"

definition isValidPeerIp :: "address_lib \<Rightarrow> string \<Rightarrow> bool" where
  "isValidPeerIp al ip = (case al_process al ip of None \<Rightarrow> False | Some address \<Rightarrow> address \<noteq> [] \<and> \<not> isLocalHost al address)"

definition some_match :: "address_lib \<Rightarrow> string \<Rightarrow> string list \<Rightarrow> bool" where
  "some_match al ip patterns = list_ex (\<lambda>p. al_isMatch al ip p = Inr True) patterns"

definition isWhitelisted :: "address_lib \<Rightarrow> string list \<Rightarrow> string \<Rightarrow> bool" where
  "isWhitelisted al whitelist ip \<longleftrightarrow> whitelist = [] \<or> some_match al ip whitelist"

definition isBlacklisted :: "address_lib \<Rightarrow> string list \<Rightarrow> string \<Rightarrow> bool" where
  "isBlacklisted al blacklist ip \<longleftrightarrow> blacklist \<noteq> [] \<and> some_match al ip blacklist"

section \<open>State\<close>

record p2p_config =
  cf_disableDiscovery :: bool
  cf_whitelist :: "string list"
  cf_blacklist :: "string list"
  cf_peerBanTime :: nat
  cf_maxSameSubnetPeers :: nat
  cf_skipPeerStateVerification :: bool
  cf_ignoreMinimumNetworkReach :: bool
  cf_minimumNetworkReach :: nat
  cf_maxPeersBroadcast :: nat
  cf_maxSequentialErrors :: nat

record peer_object =
  po_ip :: string
  po_port :: int
  po_version :: "string option"
  po_latency :: "int option"
  po_header :: "header_data option"

datatype acceptance_phase = VerifyingPeer | VerifyingPool | Discovering

datatype worker_command = SetPeer string | ForgetPeer string

record pool_peer =
  wp_ip :: string
  wp_errorCount :: nat

record peers_state =
  ps_now :: nat
  ps_heap :: "nat \<Rightarrow> peer_object"
  ps_nextId :: nat
  ps_peers :: "(string, nat) jsmap"
  ps_peersPending :: "(string, nat) jsmap"
  ps_blacklist :: "(string, nat) jsmap"
  ps_acceptances :: "(nat \<times> acceptance_phase) list"
  ps_checks :: "nat list"
  ps_verifying :: "string list"
  ps_commands :: "worker_command list"
  ps_events :: "string list"
  ps_poolHeap :: "nat \<Rightarrow> pool_peer"
  ps_poolNextId :: nat
  ps_poolPeers :: "(string, nat) jsmap"

section \<open>Repository\<close>

definition getPeers :: "peers_state \<Rightarrow> peer_object list" where
  "getPeers s = map (\<lambda>(_, k). ps_heap s k) (ps_peers s)"

definition hasPeer :: "string \<Rightarrow> peers_state \<Rightarrow> bool" where
  "hasPeer ip s = map_has (ps_peers s) ip"

definition setPeer :: "nat \<Rightarrow> peers_state \<Rightarrow> peers_state" where
  "setPeer k s = s\<lparr>ps_peers := map_set (ps_peers s) (po_ip (ps_heap s k)) k\<rparr>"

definition forgetPeer :: "string \<Rightarrow> peers_state \<Rightarrow> peers_state" where
  "forgetPeer ip s = s\<lparr>ps_peers := map_delete (ps_peers s) ip\<rparr>"

definition hasPendingPeer :: "string \<Rightarrow> peers_state \<Rightarrow> bool" where
  "hasPendingPeer ip s = map_has (ps_peersPending s) ip"

definition setPendingPeer :: "nat \<Rightarrow> peers_state \<Rightarrow> peers_state" where
  "setPendingPeer k s = s\<lparr>ps_peersPending := map_set (ps_peersPending s) (po_ip (ps_heap s k)) k\<rparr>"

definition forgetPendingPeer :: "nat \<Rightarrow> peers_state \<Rightarrow> peers_state" where
  "forgetPendingPeer k s = s\<lparr>ps_peersPending := map_delete (ps_peersPending s) (po_ip (ps_heap s k))\<rparr>"

definition hasMinimumPeers :: "p2p_config \<Rightarrow> peers_state \<Rightarrow> bool" where
  "hasMinimumPeers cf s \<longleftrightarrow> cf_ignoreMinimumNetworkReach cf \<or> length (getPeers s) \<ge> cf_minimumNetworkReach cf"

fun getSameSubnetPeers :: "address_lib \<Rightarrow> string \<Rightarrow> peer_object list \<Rightarrow> error + peer_object list" where
  "getSameSubnetPeers al ip [] = Inr []"
| "getSameSubnetPeers al ip (p # ps) =
     sum_bind (if \<not> isIPv6Address al (po_ip p) \<and> \<not> isIPv6Address al ip
               then sum_bind (al_network al (po_ip p)) (\<lambda>a. sum_bind (al_network al ip) (\<lambda>b. Inr (a = b)))
               else Inr False) (\<lambda>same.
     sum_bind (getSameSubnetPeers al ip ps) (\<lambda>rest. Inr (if same then p # rest else rest)))"

section \<open>Disposer\<close>

definition isBanned :: "string \<Rightarrow> peers_state \<Rightarrow> bool \<times> peers_state" where
  "isBanned ip s =
     (case map_get (ps_blacklist s) ip of
        None \<Rightarrow> (False, s)
      | Some bannedUntil \<Rightarrow> if bannedUntil > ps_now s then (True, s) else (False, s\<lparr>ps_blacklist := map_delete (ps_blacklist s) ip\<rparr>))"

definition disposePeer :: "string \<Rightarrow> peers_state \<Rightarrow> peers_state" where
  "disposePeer ip s = (if hasPeer ip s then (forgetPeer ip s)\<lparr>ps_commands := ps_commands s @ [ForgetPeer ip]\<rparr> else s)"

text \<open>\<open>lost\<close> says that the error is one of the socket itself: closed, disconnected or timed out.\<close>

definition banPeer :: "p2p_config \<Rightarrow> bool \<Rightarrow> string \<Rightarrow> peers_state \<Rightarrow> peers_state" where
  "banPeer cf lost ip s =
     (case isBanned ip s of (banned, s1) \<Rightarrow>
        if banned then s1
        else if lost then disposePeer ip s1
        else disposePeer ip (if cf_peerBanTime cf > 0 then s1\<lparr>ps_blacklist := map_set (ps_blacklist s1) ip (ps_now s1 + cf_peerBanTime cf * 60000)\<rparr> else s1))"

definition bannedPeers :: "peers_state \<Rightarrow> (string \<times> nat) list \<times> peers_state" where
  "bannedPeers s =
     (let banned = filter (\<lambda>(_, timeout). timeout > ps_now s) (ps_blacklist s)
      in (map (\<lambda>(ip, timeout). (ip, timeout - ps_now s)) banned, s\<lparr>ps_blacklist := banned\<rparr>))"

section \<open>Accepting a peer\<close>

definition validatePeerIp :: "p2p_config \<Rightarrow> address_lib \<Rightarrow> string \<Rightarrow> bool \<Rightarrow> peers_state \<Rightarrow> error + (bool \<times> peers_state)" where
  "validatePeerIp cf al ip seed s =
     (if cf_disableDiscovery cf \<or> \<not> isValidPeerIp al ip \<or> \<not> isWhitelisted al (cf_whitelist cf) ip \<or> isBlacklisted al (cf_blacklist cf) ip then Inr (False, s)
      else case isBanned ip s of (banned, s1) \<Rightarrow>
        if banned then Inr (False, s1)
        else sum_bind (getSameSubnetPeers al ip (getPeers s1)) (\<lambda>same. Inr (\<not> (length same \<ge> cf_maxSameSubnetPeers cf \<and> \<not> seed), s1)))"

text \<open>\<open>#acceptNewPeer\<close> up to its first await.\<close>

definition acceptNewPeer :: "string \<Rightarrow> int \<Rightarrow> peers_state \<Rightarrow> peers_state" where
  "acceptNewPeer ip port s =
     (let k = ps_nextId s;
          s1 = s\<lparr>ps_heap := (ps_heap s)(k := \<lparr>po_ip = ip, po_port = port, po_version = None, po_latency = None, po_header = None\<rparr>), ps_nextId := k + 1\<rparr>
      in (setPendingPeer k s1)\<lparr>ps_acceptances := ps_acceptances s @ [(k, VerifyingPeer)]\<rparr>)"

definition validateAndAcceptPeer :: "p2p_config \<Rightarrow> address_lib \<Rightarrow> int \<Rightarrow> string \<Rightarrow> bool \<Rightarrow> peers_state \<Rightarrow> error + peers_state" where
  "validateAndAcceptPeer cf al port ip seed s =
     (if hasPeer ip s \<or> hasPendingPeer ip s then Inr s
      else sum_bind (validatePeerIp cf al ip seed s) (\<lambda>(valid, s1). Inr (if valid then acceptNewPeer ip port s1 else s1)))"

definition to_phase :: "nat \<Rightarrow> acceptance_phase \<Rightarrow> peers_state \<Rightarrow> peers_state" where
  "to_phase k phase s = s\<lparr>ps_acceptances := map_set (ps_acceptances s) k phase\<rparr>"

definition end_acceptance :: "nat \<Rightarrow> peers_state \<Rightarrow> peers_state" where
  "end_acceptance k s = (forgetPendingPeer k s)\<lparr>ps_acceptances := map_delete (ps_acceptances s) k\<rparr>"

text \<open>The verdict of the verifier on the peer: an error, for which it bans the peer itself, or success.\<close>

definition accept_peer_verified :: "p2p_config \<Rightarrow> bool + unit \<Rightarrow> nat \<Rightarrow> peers_state \<Rightarrow> peers_state" where
  "accept_peer_verified cf verdict k s =
     (case verdict of
        Inl lost \<Rightarrow> end_acceptance k (banPeer cf lost (po_ip (ps_heap s k)) s)
      | Inr _ \<Rightarrow> to_phase k VerifyingPool s)"

definition accept_pool_verified :: "bool \<Rightarrow> nat \<Rightarrow> peers_state \<Rightarrow> peers_state" where
  "accept_pool_verified verified k s =
     (if verified
      then case isBanned (po_ip (ps_heap s k)) s of (banned, s1) \<Rightarrow>
             if banned then end_acceptance k s1
             else to_phase k Discovering ((setPeer k s1)\<lparr>ps_commands := ps_commands s1 @ [SetPeer (po_ip (ps_heap s k))]\<rparr>)
      else end_acceptance k s)"

text \<open>An exception of the worker ends the acceptance where it is.\<close>

definition accept_failed :: "nat \<Rightarrow> peers_state \<Rightarrow> peers_state" where
  "accept_failed k s = s\<lparr>ps_acceptances := map_delete (ps_acceptances s) k\<rparr>"

definition disconnectInvalidPeers :: "(string \<Rightarrow> bool) \<Rightarrow> peers_state \<Rightarrow> peers_state" where
  "disconnectInvalidPeers isValidVersion s =
     fold (\<lambda>p s. case po_version p of
        None \<Rightarrow> disposePeer (po_ip p) s
      | Some v \<Rightarrow> if v \<noteq> [] \<and> isValidVersion v then s else disposePeer (po_ip p) s) (getPeers s) s"

section \<open>Headers and cleaning\<close>

definition header_handle :: "header_data \<Rightarrow> nat \<Rightarrow> peers_state \<Rightarrow> peers_state" where
  "header_handle header k s =
     (let s1 = s\<lparr>ps_heap := (ps_heap s)(k := (ps_heap s k)\<lparr>po_header := Some header\<rparr>)\<rparr>
      in if k \<in> set (ps_checks s) then s1 else s1\<lparr>ps_checks := ps_checks s @ [k]\<rparr>)"

text \<open>After the delay: the peer for which the three downloaders are asked, if it is still there.\<close>

definition header_checked :: "nat \<Rightarrow> peers_state \<Rightarrow> peer option \<times> peers_state" where
  "header_checked k s =
     (let p = ps_heap s k
      in (if hasPeer (po_ip p) s then map_option (\<lambda>h. \<lparr>peer_ip = po_ip p, peer_header = h\<rparr>) (po_header p) else None, s\<lparr>ps_checks := remove1 k (ps_checks s)\<rparr>))"

definition cleansePeers :: "(peer_object list \<Rightarrow> peer_object list) \<Rightarrow> nat \<Rightarrow> peers_state \<Rightarrow> string list \<times> peers_state" where
  "cleansePeers shuffle peerCount s =
     (let ips = map po_ip (take peerCount (shuffle (filter (\<lambda>p. po_ip p \<notin> set (ps_verifying s)) (getPeers s))))
      in (ips, s\<lparr>ps_verifying := ps_verifying s @ ips\<rparr>))"

definition cleanse_verified :: "p2p_config \<Rightarrow> bool + unit \<Rightarrow> string \<Rightarrow> peers_state \<Rightarrow> peers_state" where
  "cleanse_verified cf verdict ip s =
     (case verdict of Inl lost \<Rightarrow> banPeer cf lost ip s | Inr _ \<Rightarrow> s)\<lparr>ps_verifying := removeAll ip (ps_verifying s)\<rparr>"

definition getPeersForBroadcast :: "p2p_config \<Rightarrow> (peer_object list \<Rightarrow> peer_object list) \<Rightarrow> peers_state \<Rightarrow> peer_object list" where
  "getPeersForBroadcast cf shuffle s = take (cf_maxPeersBroadcast cf) (shuffle (getPeers s))"

section \<open>Controllers\<close>

definition posted :: "p2p_config \<Rightarrow> error + processor_verdict \<Rightarrow> string \<Rightarrow> peers_state \<Rightarrow> peers_state" where
  "posted cf result ip s = (case result of Inr verdict \<Rightarrow> if verdict = Result_Invalid then banPeer cf False ip s else s | Inl _ \<Rightarrow> banPeer cf False ip s)"

definition post_message :: "p2p_config \<Rightarrow> (bytes \<Rightarrow> error + message) \<Rightarrow> (message \<Rightarrow> error + processor_verdict) \<Rightarrow> bytes \<Rightarrow> string \<Rightarrow> peers_state \<Rightarrow> peers_state" where
  "post_message cf fromBytes process bs ip s = posted cf (sum_bind (fromBytes bs) process) ip s"

definition post_proposal :: "p2p_config \<Rightarrow> (bytes \<Rightarrow> error + proposal) \<Rightarrow> (proposal \<Rightarrow> error + processor_verdict) \<Rightarrow> bytes \<Rightarrow> string \<Rightarrow> peers_state \<Rightarrow> peers_state" where
  "post_proposal cf fromBytes process bs ip s = posted cf (sum_bind (fromBytes bs) process) ip s"

definition MAX_PEERS_GET_PEERS :: nat where
  "MAX_PEERS_GET_PEERS = 500"

text \<open>Sorting compares every peer as soon as there are two, and the comparison fails on one without latency.\<close>

definition get_peers :: "string \<Rightarrow> peers_state \<Rightarrow> error + (string \<times> int) list" where
  "get_peers requester s =
     (let ps = filter (\<lambda>p. po_port p \<noteq> -1) (filter (\<lambda>p. po_ip p \<noteq> requester) (getPeers s))
      in if length ps \<ge> 2 \<and> list_ex (\<lambda>p. po_latency p = None) ps then Inl AssertError
         else Inr (map (\<lambda>p. (po_ip p, po_port p)) (take MAX_PEERS_GET_PEERS (sort_key (\<lambda>p. the (po_latency p)) ps))))"

section \<open>The process of the transaction pool\<close>

definition pool_handle :: "worker_command \<Rightarrow> peers_state \<Rightarrow> peers_state" where
  "pool_handle c s =
     (case c of
        SetPeer ip \<Rightarrow> s\<lparr>ps_poolHeap := (ps_poolHeap s)(ps_poolNextId s := \<lparr>wp_ip = ip, wp_errorCount = 0\<rparr>), ps_poolNextId := ps_poolNextId s + 1,
            ps_poolPeers := map_set (ps_poolPeers s) ip (ps_poolNextId s)\<rparr>
      | ForgetPeer ip \<Rightarrow> s\<lparr>ps_poolPeers := map_delete (ps_poolPeers s) ip\<rparr>)"

definition pool_posted :: "p2p_config \<Rightarrow> bool \<Rightarrow> nat \<Rightarrow> peers_state \<Rightarrow> peers_state" where
  "pool_posted cf success k s =
     (let p = ps_poolHeap s k
      in if success then s\<lparr>ps_poolHeap := (ps_poolHeap s)(k := p\<lparr>wp_errorCount := 0\<rparr>)\<rparr>
         else let n = wp_errorCount p + 1; s1 = s\<lparr>ps_poolHeap := (ps_poolHeap s)(k := p\<lparr>wp_errorCount := n\<rparr>)\<rparr>
              in if n \<ge> cf_maxSequentialErrors cf then s1\<lparr>ps_poolPeers := map_delete (ps_poolPeers s1) (wp_ip p), ps_events := ps_events s1 @ [wp_ip p]\<rparr> else s1)"

section \<open>Verifying a peer\<close>

record peer_status =
  st_nethash :: string
  st_version :: string
  st_blockNumber :: nat

definition verifyHighestCommonBlock ::
  "(nat \<Rightarrow> nat \<Rightarrow> error + bytes list) \<Rightarrow> (bytes \<Rightarrow> error + commit) \<Rightarrow> (nat \<Rightarrow> error + block option) \<Rightarrow> block \<Rightarrow> nat \<Rightarrow> error + unit" where
  "verifyHighestCommonBlock getBlocks fromBytes blockAt block stateBlockNumber =
     (let own = bh_number (bk_header block); requested = (if stateBlockNumber < own then stateBlockNumber else own)
      in sum_bind (getBlocks requested 1) (\<lambda>blocks.
         if length blocks \<noteq> 1 then Inl (JsError ''Failed to get blocks from peer'')
         else sum_bind (fromBytes (hd blocks)) (\<lambda>received.
         sum_bind (if own = requested then Inr (Some block) else blockAt requested) (\<lambda>found.
         case found of
           None \<Rightarrow> Inl AssertError
         | Some compare \<Rightarrow>
             if bh_number (bk_header (cm_block received)) \<noteq> bh_number (bk_header compare) then Inl (JsError ''Received block does not match the requested block number'')
             else if bh_hash (bk_header (cm_block received)) \<noteq> bh_hash (bk_header compare) then Inl (JsError ''Received block does not match the requested hash. Peer is on a different chain.'')
             else Inr ()))))"

definition verify_peer ::
  "p2p_config \<Rightarrow> string \<Rightarrow> (string \<Rightarrow> bool) \<Rightarrow> error + peer_status \<Rightarrow> (nat \<Rightarrow> nat \<Rightarrow> error + bytes list) \<Rightarrow> (bytes \<Rightarrow> error + commit) \<Rightarrow> (nat \<Rightarrow> error + block option) \<Rightarrow> error + block \<Rightarrow> error + unit" where
  "verify_peer cf nethash isValidVersion status getBlocks fromBytes blockAt lastBlock =
     (if cf_skipPeerStateVerification cf then Inr ()
      else sum_bind status (\<lambda>st.
        if st_nethash st \<noteq> nethash then Inl (JsError ''Invalid nethash'')
        else if \<not> isValidVersion (st_version st) then Inl (JsError ''Invalid version'')
        else sum_bind lastBlock (\<lambda>block. verifyHighestCommonBlock getBlocks fromBytes blockAt block (st_blockNumber st))))"

section \<open>Steps\<close>

definition new_peers_state :: "peers_state \<Rightarrow> peers_state" where
  "new_peers_state s = s\<lparr>ps_nextId := 0, ps_peers := [], ps_peersPending := [], ps_blacklist := [], ps_acceptances := [], ps_checks := [], ps_verifying := [],
     ps_commands := [], ps_events := [], ps_poolNextId := 0, ps_poolPeers := []\<rparr>"

inductive peers_reach :: "p2p_config \<Rightarrow> address_lib \<Rightarrow> peers_state \<Rightarrow> bool" for cf al where
  created: "peers_reach cf al (new_peers_state s)"
| time: "peers_reach cf al s \<Longrightarrow> ps_now s \<le> t \<Longrightarrow> peers_reach cf al (s\<lparr>ps_now := t\<rparr>)"
| asked: "peers_reach cf al s \<Longrightarrow> validateAndAcceptPeer cf al port ip seed s = Inr s' \<Longrightarrow> peers_reach cf al s'"
| peer_verified: "peers_reach cf al s \<Longrightarrow> (k, VerifyingPeer) \<in> set (ps_acceptances s) \<Longrightarrow> peers_reach cf al (accept_peer_verified cf verdict k s)"
| pool_verified: "peers_reach cf al s \<Longrightarrow> (k, VerifyingPool) \<in> set (ps_acceptances s) \<Longrightarrow> peers_reach cf al (accept_pool_verified verified k s)"
| discovered: "peers_reach cf al s \<Longrightarrow> (k, Discovering) \<in> set (ps_acceptances s) \<Longrightarrow> peers_reach cf al (end_acceptance k s)"
| failed: "peers_reach cf al s \<Longrightarrow> (k, Discovering) \<in> set (ps_acceptances s) \<Longrightarrow> peers_reach cf al (accept_failed k s)"
| banned: "peers_reach cf al s \<Longrightarrow> peers_reach cf al (banPeer cf lost ip s)"
| disposed: "peers_reach cf al s \<Longrightarrow> peers_reach cf al (disposePeer ip s)"
| milestone: "peers_reach cf al s \<Longrightarrow> peers_reach cf al (disconnectInvalidPeers isValidVersion s)"
| header: "peers_reach cf al s \<Longrightarrow> k < ps_nextId s \<Longrightarrow> peers_reach cf al (header_handle h k s)"
| checked: "peers_reach cf al s \<Longrightarrow> k \<in> set (ps_checks s) \<Longrightarrow> peers_reach cf al (snd (header_checked k s))"
| answered: "peers_reach cf al s \<Longrightarrow> k < ps_nextId s \<Longrightarrow> peers_reach cf al (s\<lparr>ps_heap := (ps_heap s)(k := (ps_heap s k)\<lparr>po_version := v, po_latency := l\<rparr>)\<rparr>)"
| listed: "peers_reach cf al s \<Longrightarrow> peers_reach cf al (snd (bannedPeers s))"
| cleaning: "peers_reach cf al s \<Longrightarrow> peers_reach cf al (snd (cleansePeers shuffle n s))"
| cleaned: "peers_reach cf al s \<Longrightarrow> ip \<in> set (ps_verifying s) \<Longrightarrow> peers_reach cf al (cleanse_verified cf verdict ip s)"
| message_posted: "peers_reach cf al s \<Longrightarrow> peers_reach cf al (posted cf result ip s)"
| command: "peers_reach cf al s \<Longrightarrow> ps_commands s = c # cs \<Longrightarrow> peers_reach cf al (pool_handle c (s\<lparr>ps_commands := cs\<rparr>))"
| pool_post: "peers_reach cf al s \<Longrightarrow> k < ps_poolNextId s \<Longrightarrow> peers_reach cf al (pool_posted cf success k s)"
| removed: "peers_reach cf al s \<Longrightarrow> ps_events s = ip # es \<Longrightarrow> peers_reach cf al (disposePeer ip (s\<lparr>ps_events := es\<rparr>))"

section \<open>The invariant\<close>

definition banned_now :: "string \<Rightarrow> peers_state \<Rightarrow> bool" where
  "banned_now ip s \<longleftrightarrow> (\<exists>until. map_get (ps_blacklist s) ip = Some until \<and> ps_now s < until)"

definition bans_ok :: "peers_state \<Rightarrow> bool" where
  "bans_ok s \<longleftrightarrow> map_ok (ps_blacklist s) \<and> (\<forall>ip. hasPeer ip s \<longrightarrow> \<not> banned_now ip s)"

definition acceptances_ok :: "peers_state \<Rightarrow> bool" where
  "acceptances_ok s \<longleftrightarrow> map_ok (ps_acceptances s) \<and> map_ok (ps_peersPending s)
     \<and> (\<forall>k phase. map_get (ps_acceptances s) k = Some phase \<longrightarrow> k < ps_nextId s \<and> map_get (ps_peersPending s) (po_ip (ps_heap s k)) = Some k)
     \<and> (\<forall>ip k. map_get (ps_peersPending s) ip = Some k \<longrightarrow> k < ps_nextId s)"

text \<open>The peers the pool has once the commands under way are handled.\<close>

fun after_commands :: "worker_command list \<Rightarrow> string set \<Rightarrow> string set" where
  "after_commands [] W = W"
| "after_commands (SetPeer ip # cs) W = after_commands cs (insert ip W)"
| "after_commands (ForgetPeer ip # cs) W = after_commands cs (W - {ip})"

definition pool_after :: "peers_state \<Rightarrow> string set" where
  "pool_after s = after_commands (ps_commands s) {ip. map_has (ps_poolPeers s) ip}"

definition pool_ok :: "peers_state \<Rightarrow> bool" where
  "pool_ok s \<longleftrightarrow> pool_after s \<subseteq> {ip. hasPeer ip s} \<and> {ip. hasPeer ip s} \<subseteq> pool_after s \<union> set (ps_events s)"

definition peers_ok :: "peers_state \<Rightarrow> bool" where
  "peers_ok s \<longleftrightarrow> bans_ok s \<and> acceptances_ok s \<and> pool_ok s"

lemma map_delete_absent: "\<not> map_has m k \<Longrightarrow> map_delete m k = m"
  by (simp add: map_delete_def map_has_iff delete_idem)

lemma map_ok_filter: "map_ok m \<Longrightarrow> map_ok (filter f m)"
  by (simp add: map_ok_def distinct_map_filter)

lemma map_get_filter: "map_ok m \<Longrightarrow> map_get (filter f m) k = Some v \<Longrightarrow> map_get m k = Some v"
  by (auto dest!: map_get_in_set intro: map_ok_get)

lemma isBanned_eq: "isBanned ip s = (banned_now ip s, if banned_now ip s then s else s\<lparr>ps_blacklist := map_delete (ps_blacklist s) ip\<rparr>)"
  by (auto simp: isBanned_def banned_now_def map_delete_absent map_has_get split: option.splits)

lemma after_commands_snoc [simp]:
  "after_commands (cs @ [SetPeer ip]) W = insert ip (after_commands cs W)" "after_commands (cs @ [ForgetPeer ip]) W = after_commands cs W - {ip}"
  by (induction cs W rule: after_commands.induct) auto

lemma after_commands_local: "(x \<in> V \<longleftrightarrow> x \<in> W) \<Longrightarrow> (x \<in> after_commands cs V \<longleftrightarrow> x \<in> after_commands cs W)"
proof (induction cs arbitrary: V W)
  case (Cons c cs)
  show ?case using Cons.prems by (cases c) (auto intro!: Cons.IH)
qed simp

lemma after_commands_mono: "V \<subseteq> W \<Longrightarrow> after_commands cs V \<subseteq> after_commands cs W"
proof (induction cs arbitrary: V W)
  case (Cons c cs)
  show ?case
  proof (cases c)
    case (SetPeer ip)
    then show ?thesis using Cons.IH [of "insert ip V" "insert ip W"] Cons.prems by auto
  next
    case (ForgetPeer ip)
    then show ?thesis using Cons.IH [of "V - {ip}" "W - {ip}"] Cons.prems by auto
  qed
qed simp

lemma after_commands_without:
  "after_commands cs (W - {ip}) \<subseteq> after_commands cs W" "after_commands cs W \<subseteq> insert ip (after_commands cs (W - {ip}))"
  using after_commands_local [of _ "W - {ip}" W cs] by (auto intro: after_commands_mono [THEN subsetD])

lemma disposePeer_ok:
  assumes "peers_ok s"
  shows "peers_ok (disposePeer ip s)"
proof (cases "hasPeer ip s")
  case True
  have "bans_ok (disposePeer ip s)" using assms True
    by (auto simp: peers_ok_def bans_ok_def disposePeer_def forgetPeer_def hasPeer_def banned_now_def jsmap_simps)
  moreover have "acceptances_ok (disposePeer ip s)" using assms True by (simp add: peers_ok_def acceptances_ok_def disposePeer_def forgetPeer_def)
  moreover have "pool_ok (disposePeer ip s)" using assms True
    by (auto simp: peers_ok_def pool_ok_def pool_after_def disposePeer_def forgetPeer_def hasPeer_def jsmap_simps)
  ultimately show ?thesis by (simp add: peers_ok_def)
qed (use assms in \<open>simp add: disposePeer_def\<close>)

lemma unban_ok: "peers_ok s \<Longrightarrow> peers_ok (s\<lparr>ps_blacklist := map_delete (ps_blacklist s) ip\<rparr>)"
  by (auto simp: peers_ok_def bans_ok_def acceptances_ok_def pool_ok_def pool_after_def hasPeer_def banned_now_def jsmap_simps map_ok_delete split: if_splits)

lemma isBanned_ok: "peers_ok s \<Longrightarrow> peers_ok (snd (isBanned ip s))"
  by (simp add: isBanned_eq unban_ok)

text \<open>A ban is entered before the peer is dropped.\<close>

lemma ban_entered_ok:
  assumes "peers_ok s"
  shows "peers_ok (disposePeer ip (s\<lparr>ps_blacklist := map_set (ps_blacklist s) ip until\<rparr>))"
proof -
  let ?s = "s\<lparr>ps_blacklist := map_set (ps_blacklist s) ip until\<rparr>"
  have "bans_ok (disposePeer ip ?s)" using assms
    by (auto simp: peers_ok_def bans_ok_def disposePeer_def forgetPeer_def hasPeer_def banned_now_def jsmap_simps map_ok_set)
  moreover have "acceptances_ok (disposePeer ip s)" "pool_ok (disposePeer ip s)" using disposePeer_ok [OF assms] by (simp_all add: peers_ok_def)
  moreover have "acceptances_ok (disposePeer ip ?s) = acceptances_ok (disposePeer ip s)" "pool_ok (disposePeer ip ?s) = pool_ok (disposePeer ip s)"
    by (simp_all add: acceptances_ok_def pool_ok_def pool_after_def disposePeer_def forgetPeer_def hasPeer_def)
  ultimately show ?thesis by (simp add: peers_ok_def)
qed

lemma banPeer_ok: "peers_ok s \<Longrightarrow> peers_ok (banPeer cf lost ip s)"
  using isBanned_ok [of s ip] ban_entered_ok [of "snd (isBanned ip s)" ip] disposePeer_ok [of "snd (isBanned ip s)" ip]
  by (simp add: banPeer_def split_beta)

lemma posted_ok: "peers_ok s \<Longrightarrow> peers_ok (posted cf result ip s)"
  by (simp add: posted_def banPeer_ok split: sum.splits)

lemma acceptNewPeer_ok:
  assumes "peers_ok s" and "\<not> hasPendingPeer ip s"
  shows "peers_ok (acceptNewPeer ip port s)"
proof -
  have acc: "acceptances_ok s" using assms(1) by (simp add: peers_ok_def)
  have fresh: "\<not> map_has (ps_acceptances s) (ps_nextId s)" using acc by (auto simp: acceptances_ok_def map_has_get)
  have "ps_acceptances (acceptNewPeer ip port s) = map_set (ps_acceptances s) (ps_nextId s) VerifyingPeer"
    using map_set_fresh [OF fresh] by (simp add: acceptNewPeer_def setPendingPeer_def Let_def)
  moreover have "map_get (ps_acceptances s) k = None" if "po_ip (ps_heap s k) = ip" for k
    using acc assms(2) that by (auto simp: acceptances_ok_def hasPendingPeer_def map_has_get)
  ultimately have "acceptances_ok (acceptNewPeer ip port s)" using acc unfolding acceptances_ok_def
    by (auto simp: acceptNewPeer_def setPendingPeer_def Let_def jsmap_simps map_ok_set less_SucI split: if_splits)
  then show ?thesis using assms(1)
    by (simp add: peers_ok_def bans_ok_def pool_ok_def pool_after_def hasPeer_def banned_now_def acceptNewPeer_def setPendingPeer_def Let_def)
qed

lemma validateAndAcceptPeer_ok:
  assumes "peers_ok s" and "validateAndAcceptPeer cf al port ip seed s = Inr s'"
  shows "peers_ok s'"
proof (cases "hasPeer ip s \<or> hasPendingPeer ip s")
  case True
  then show ?thesis using assms by (simp add: validateAndAcceptPeer_def)
next
  case False
  obtain valid s1 where v: "validatePeerIp cf al ip seed s = Inr (valid, s1)" and s': "s' = (if valid then acceptNewPeer ip port s1 else s1)"
    using assms(2) False by (auto simp: validateAndAcceptPeer_def sum_bind_Inr_iff)
  have "s1 = s \<or> s1 = snd (isBanned ip s)" using v by (auto simp: validatePeerIp_def sum_bind_Inr_iff split: if_splits prod.splits)
  then have "peers_ok s1" "\<not> hasPendingPeer ip s1" using assms(1) isBanned_ok [of s ip] False by (auto simp: isBanned_eq hasPendingPeer_def split: if_splits)
  then show ?thesis using s' acceptNewPeer_ok by simp
qed

lemma to_phase_ok: "peers_ok s \<Longrightarrow> map_has (ps_acceptances s) k \<Longrightarrow> peers_ok (to_phase k phase s)"
  by (auto simp: peers_ok_def bans_ok_def acceptances_ok_def pool_ok_def pool_after_def hasPeer_def banned_now_def to_phase_def jsmap_simps map_ok_set map_has_get split: if_splits)

lemma end_acceptance_ok:
  assumes "peers_ok s" and "map_has (ps_acceptances s) k"
  shows "peers_ok (end_acceptance k s)"
proof -
  have acc: "acceptances_ok s" using assms(1) by (simp add: peers_ok_def)
  then have pending: "map_get (ps_peersPending s) (po_ip (ps_heap s k)) = Some k" using assms(2) by (auto simp: acceptances_ok_def map_has_get)
  then have "map_get (ps_acceptances s) k' = None" if "k' \<noteq> k" "po_ip (ps_heap s k') = po_ip (ps_heap s k)" for k'
    using acc that unfolding acceptances_ok_def by (metis not_Some_eq option.inject)
  then have "acceptances_ok (end_acceptance k s)" using acc unfolding acceptances_ok_def
    by (auto simp: end_acceptance_def forgetPendingPeer_def jsmap_simps map_ok_delete split: if_splits)
  then show ?thesis using assms(1)
    by (simp add: peers_ok_def bans_ok_def pool_ok_def pool_after_def hasPeer_def banned_now_def end_acceptance_def forgetPendingPeer_def)
qed

lemma accept_failed_ok: "peers_ok s \<Longrightarrow> peers_ok (accept_failed k s)"
  by (auto simp: peers_ok_def bans_ok_def acceptances_ok_def pool_ok_def pool_after_def hasPeer_def banned_now_def accept_failed_def jsmap_simps map_ok_delete split: if_splits)

lemma dispose_fields [simp]:
  "ps_acceptances (disposePeer ip s) = ps_acceptances s" "ps_heap (disposePeer ip s) = ps_heap s" "ps_now (disposePeer ip s) = ps_now s"
  "ps_blacklist (disposePeer ip s) = ps_blacklist s" "ps_verifying (disposePeer ip s) = ps_verifying s"
  by (simp_all add: disposePeer_def forgetPeer_def)

lemma ban_fields [simp]:
  "ps_acceptances (banPeer cf lost ip s) = ps_acceptances s" "ps_heap (banPeer cf lost ip s) = ps_heap s" "ps_verifying (banPeer cf lost ip s) = ps_verifying s"
  by (simp_all add: banPeer_def isBanned_eq)

lemma accept_peer_verified_ok: "peers_ok s \<Longrightarrow> map_has (ps_acceptances s) k \<Longrightarrow> peers_ok (accept_peer_verified cf verdict k s)"
  by (simp add: accept_peer_verified_def to_phase_ok end_acceptance_ok banPeer_ok split: sum.splits)

lemma entered_ok:
  assumes "peers_ok s" and "\<not> banned_now (po_ip (ps_heap s k)) s"
  shows "peers_ok ((setPeer k s)\<lparr>ps_commands := ps_commands s @ [SetPeer (po_ip (ps_heap s k))]\<rparr>)"
  using assms by (auto simp: peers_ok_def bans_ok_def acceptances_ok_def pool_ok_def pool_after_def setPeer_def hasPeer_def banned_now_def jsmap_simps)

lemma accept_pool_verified_ok:
  assumes "peers_ok s" and "map_has (ps_acceptances s) k"
  shows "peers_ok (accept_pool_verified verified k s)"
proof -
  let ?ip = "po_ip (ps_heap s k)"
  let ?s = "s\<lparr>ps_blacklist := map_delete (ps_blacklist s) ?ip\<rparr>"
  have "peers_ok ?s" by (rule unban_ok [OF assms(1)])
  moreover have "\<not> banned_now ?ip ?s" by (simp add: banned_now_def jsmap_simps)
  ultimately have "peers_ok ((setPeer k ?s)\<lparr>ps_commands := ps_commands s @ [SetPeer ?ip]\<rparr>)" using entered_ok [of ?s k] by simp
  from to_phase_ok [OF this, of k Discovering] assms end_acceptance_ok [of _ k]
  show ?thesis by (simp add: accept_pool_verified_def isBanned_eq setPeer_def)
qed

lemma pool_handle_ok: "peers_ok s \<Longrightarrow> ps_commands s = c # cs \<Longrightarrow> peers_ok (pool_handle c (s\<lparr>ps_commands := cs\<rparr>))"
proof -
  assume s: "peers_ok s" "ps_commands s = c # cs"
  let ?s = "pool_handle c (s\<lparr>ps_commands := cs\<rparr>)"
  have "{ip. map_has (ps_poolPeers ?s) ip} = (case c of SetPeer ip \<Rightarrow> insert ip {ip. map_has (ps_poolPeers s) ip} | ForgetPeer ip \<Rightarrow> {ip. map_has (ps_poolPeers s) ip} - {ip})"
    by (auto simp: pool_handle_def jsmap_simps split: worker_command.splits)
  then have "pool_after ?s = pool_after s" using s(2) by (cases c) (simp_all add: pool_after_def pool_handle_def)
  moreover have "bans_ok ?s = bans_ok s" "acceptances_ok ?s = acceptances_ok s" "hasPeer ip ?s = hasPeer ip s" "ps_events ?s = ps_events s" for ip
    by (simp_all add: bans_ok_def acceptances_ok_def hasPeer_def banned_now_def pool_handle_def split: worker_command.splits)
  ultimately show ?thesis using s(1) by (simp add: peers_ok_def pool_ok_def)
qed

lemma pool_posted_ok:
  assumes "peers_ok s"
  shows "peers_ok (pool_posted cf success k s)"
proof -
  let ?s = "pool_posted cf success k s" and ?ip = "wp_ip (ps_poolHeap s k)"
  have same: "bans_ok ?s = bans_ok s" "acceptances_ok ?s = acceptances_ok s" "hasPeer ip ?s = hasPeer ip s" for ip
    by (simp_all add: bans_ok_def acceptances_ok_def hasPeer_def banned_now_def pool_posted_def Let_def)
  have "{x. map_has (map_delete m i) x} = {x. map_has m x} - {i}" for m :: "(string, nat) jsmap" and i by (auto simp: jsmap_simps)
  then have "(pool_after ?s = pool_after s \<and> ps_events ?s = ps_events s)
    \<or> (pool_after ?s = after_commands (ps_commands s) ({x. map_has (ps_poolPeers s) x} - {?ip}) \<and> ps_events ?s = ps_events s @ [?ip])"
    by (simp add: pool_posted_def Let_def pool_after_def)
  then have "pool_ok ?s" using assms same(3) after_commands_without [of "ps_commands s" "{x. map_has (ps_poolPeers s) x}" ?ip]
    unfolding peers_ok_def pool_ok_def by (elim disjE conjE) (simp_all add: pool_after_def, blast)
  then show ?thesis using assms same by (simp add: peers_ok_def)
qed

lemma removed_ok:
  assumes "peers_ok s" and "ps_events s = ip # es"
  shows "peers_ok (disposePeer ip (s\<lparr>ps_events := es\<rparr>))"
proof (cases "hasPeer ip s")
  case True
  let ?s = "disposePeer ip (s\<lparr>ps_events := es\<rparr>)"
  have "peers_ok (disposePeer ip s)" by (rule disposePeer_ok [OF assms(1)])
  moreover have "bans_ok ?s = bans_ok (disposePeer ip s)" "acceptances_ok ?s = acceptances_ok (disposePeer ip s)"
    by (simp_all add: bans_ok_def acceptances_ok_def hasPeer_def banned_now_def disposePeer_def forgetPeer_def)
  moreover have "pool_ok ?s" using assms True
    by (auto simp: peers_ok_def pool_ok_def pool_after_def disposePeer_def forgetPeer_def hasPeer_def jsmap_simps)
  ultimately show ?thesis by (simp add: peers_ok_def)
next
  case False
  then show ?thesis using assms
    by (auto simp: peers_ok_def bans_ok_def acceptances_ok_def pool_ok_def pool_after_def disposePeer_def hasPeer_def banned_now_def)
qed

text \<open>Steps that only touch fields outside the invariant, or move the clock forward.\<close>

lemma peers_ok_frame [simp]:
  "peers_ok (s\<lparr>ps_checks := c\<rparr>) = peers_ok s" "peers_ok (s\<lparr>ps_verifying := v\<rparr>) = peers_ok s"
  by (simp_all add: peers_ok_def bans_ok_def acceptances_ok_def pool_ok_def pool_after_def hasPeer_def banned_now_def)

lemma peers_ok_heap:
  assumes "\<And>x. po_ip (heap x) = po_ip (ps_heap s x)" and "peers_ok s"
  shows "peers_ok (s\<lparr>ps_heap := heap\<rparr>)"
  using assms by (simp add: peers_ok_def bans_ok_def acceptances_ok_def pool_ok_def pool_after_def hasPeer_def banned_now_def)

lemma peers_ok_time: "peers_ok s \<Longrightarrow> ps_now s \<le> t \<Longrightarrow> peers_ok (s\<lparr>ps_now := t\<rparr>)"
  by (auto simp: peers_ok_def bans_ok_def acceptances_ok_def pool_ok_def pool_after_def hasPeer_def banned_now_def dest: le_less_trans)

lemma peers_ok_listed: "peers_ok s \<Longrightarrow> peers_ok (snd (bannedPeers s))"
  by (auto simp: peers_ok_def bans_ok_def acceptances_ok_def pool_ok_def pool_after_def hasPeer_def banned_now_def bannedPeers_def Let_def map_ok_filter
      dest: map_get_filter)

lemma disconnectInvalidPeers_ok:
  assumes "peers_ok s"
  shows "peers_ok (disconnectInvalidPeers isValidVersion s)"
proof -
  have "peers_ok (fold (\<lambda>p s. case po_version p of None \<Rightarrow> disposePeer (po_ip p) s | Some v \<Rightarrow> if v \<noteq> [] \<and> isValidVersion v then s else disposePeer (po_ip p) s) ps s)" for ps
    using assms by (induction ps arbitrary: s) (auto simp: disposePeer_ok split: option.splits)
  then show ?thesis by (simp add: disconnectInvalidPeers_def)
qed

lemma acceptance_pending: "acceptances_ok s \<Longrightarrow> map_get (ps_acceptances s) k = Some phase \<Longrightarrow> map_get (ps_peersPending s) (po_ip (ps_heap s k)) = Some k"
  unfolding acceptances_ok_def by blast

lemma acceptance_present: "peers_ok s \<Longrightarrow> (k, phase) \<in> set (ps_acceptances s) \<Longrightarrow> map_has (ps_acceptances s) k"
  by (force simp: map_has_iff)

lemma peers_reach_ok: "peers_reach cf al s \<Longrightarrow> peers_ok s"
proof (induction rule: peers_reach.induct)
  case (created s)
  then show ?case by (simp add: peers_ok_def bans_ok_def acceptances_ok_def pool_ok_def pool_after_def hasPeer_def new_peers_state_def)
next
  case (header s k h)
  then show ?case by (simp add: header_handle_def Let_def peers_ok_heap)
next
  case (checked s k)
  then show ?case by (simp add: header_checked_def Let_def)
next
  case (answered s k v l)
  then show ?case by (simp add: peers_ok_heap)
next
  case (cleaning s shuffle n)
  then show ?case by (simp add: cleansePeers_def Let_def)
next
  case (cleaned s ip verdict)
  then show ?case by (simp add: cleanse_verified_def banPeer_ok split: sum.splits)
qed (simp_all add: peers_ok_time validateAndAcceptPeer_ok accept_peer_verified_ok accept_pool_verified_ok end_acceptance_ok accept_failed_ok banPeer_ok disposePeer_ok
    disconnectInvalidPeers_ok peers_ok_listed posted_ok pool_handle_ok pool_posted_ok removed_ok acceptance_present)

section \<open>Properties\<close>

lemma banned_not_known: "peers_reach cf al s \<Longrightarrow> fst (isBanned ip s) \<Longrightarrow> \<not> hasPeer ip s"
  by (auto simp: peers_ok_def bans_ok_def isBanned_eq dest!: peers_reach_ok)

text \<open>C27 (safety). While a ban lasts the peer is not in the repository: no interleaving of acceptances, bans, answers and the other process
  brings it there, also when it was banned while it was being verified.\<close>

theorem banned_peer_is_not_in_repository:
  assumes "peers_reach cf al s" and "fst (isBanned ip s)"
  shows "\<not> hasPeer ip s"
  by (rule banned_not_known [OF assms])

text \<open>An address is accepted at most once at a time.\<close>

theorem one_acceptance_per_address:
  assumes "peers_reach cf al s" and "(k, phase) \<in> set (ps_acceptances s)" and "(k', phase') \<in> set (ps_acceptances s)"
    and "po_ip (ps_heap s k) = po_ip (ps_heap s k')"
  shows "k = k' \<and> phase = phase'"
proof -
  have acc: "acceptances_ok s" using peers_reach_ok [OF assms(1)] by (simp add: peers_ok_def)
  have got: "map_get (ps_acceptances s) k = Some phase" "map_get (ps_acceptances s) k' = Some phase'"
    using acc assms(2,3) map_ok_get by (auto simp: acceptances_ok_def)
  from acceptance_pending [OF acc got(1)] acceptance_pending [OF acc got(2)] have "k = k'" unfolding assms(4) by simp
  then show ?thesis using got by simp
qed

text \<open>C28 (refinement). The process of the transaction pool keeps a copy of the peers: when no command and no event is under way both know the
  same addresses, although each side removes peers on its own.\<close>

theorem pool_copies_the_peers:
  assumes "peers_reach cf al s" and "ps_commands s = []" and "ps_events s = []"
  shows "map_has (ps_poolPeers s) ip \<longleftrightarrow> hasPeer ip s"
  using peers_reach_ok [OF assms(1)] assms(2,3) by (auto simp: peers_ok_def pool_ok_def pool_after_def)

text \<open>Unless verification is switched off, a verified peer has our network hash and an accepted version, and the block it gives
  for the lower of both heights is ours.\<close>

theorem verified_peer_is_on_our_chain:
  assumes "verify_peer cf nethash isValidVersion status getBlocks fromBytes blockAt (Inr block) = Inr ()" and "\<not> cf_skipPeerStateVerification cf"
  shows "\<exists>st bs c b. status = Inr st \<and> st_nethash st = nethash \<and> isValidVersion (st_version st)
    \<and> getBlocks (min (st_blockNumber st) (bh_number (bk_header block))) 1 = Inr [bs] \<and> fromBytes bs = Inr c
    \<and> (if bh_number (bk_header block) \<le> st_blockNumber st then b = block else blockAt (st_blockNumber st) = Inr (Some b))
    \<and> bh_number (bk_header (cm_block c)) = bh_number (bk_header b) \<and> bh_hash (bk_header (cm_block c)) = bh_hash (bk_header b)"
proof -
  let ?n = "bh_number (bk_header block)"
  obtain st where st: "status = Inr st" "st_nethash st = nethash" "isValidVersion (st_version st)"
    and v: "verifyHighestCommonBlock getBlocks fromBytes blockAt block (st_blockNumber st) = Inr ()"
    using assms by (auto simp: verify_peer_def sum_bind_Inr_iff split: if_splits)
  define m where "m = (if st_blockNumber st < ?n then st_blockNumber st else ?n)"
  have m: "m = min (st_blockNumber st) ?n" by (simp add: m_def)
  obtain blocks c found where r: "getBlocks m 1 = Inr blocks" "length blocks = 1" "fromBytes (hd blocks) = Inr c"
    "(if ?n = m then Inr (Some block) else blockAt m) = Inr found"
    "(case found of None \<Rightarrow> Inl AssertError
      | Some compare \<Rightarrow> if bh_number (bk_header (cm_block c)) \<noteq> bh_number (bk_header compare) then Inl (JsError ''Received block does not match the requested block number'')
          else if bh_hash (bk_header (cm_block c)) \<noteq> bh_hash (bk_header compare) then Inl (JsError ''Received block does not match the requested hash. Peer is on a different chain.'')
          else Inr ()) = Inr ()"
    using v unfolding verifyHighestCommonBlock_def Let_def m_def [symmetric] by (auto simp: sum_bind_Inr_iff split: if_splits)
  obtain bs where bs: "blocks = [bs]" using r(2) by (auto simp: length_Suc_conv)
  obtain b where b: "found = Some b" using r(5) by (cases found) auto
  show ?thesis using st r bs b m by (auto split: if_splits)
qed

text \<open>The answer of \<open>get-status.ts\<close>, and of \<open>get-blocks.ts\<close> for one block.\<close>

definition get_status :: "string \<Rightarrow> string \<Rightarrow> block \<Rightarrow> peer_status" where
  "get_status nethash version lastBlock = \<lparr>st_nethash = nethash, st_version = version, st_blockNumber = bh_number (bk_header lastBlock)\<rparr>"

lemma filter_one_key: "map_ok m \<Longrightarrow> map_get m k = Some v \<Longrightarrow> filter (\<lambda>(x, _). x = k) m = [(k, v)]"
proof (induction m)
  case (Cons p m)
  show ?case
  proof (cases "fst p = k")
    case True
    then have "k \<notin> fst ` set m" using Cons.prems(1) by (auto simp: map_ok_def)
    then have "filter (\<lambda>(x, _). x = k) m = []" by (force simp: filter_empty_conv)
    then show ?thesis using True Cons.prems(2) by (cases p) (simp add: map_get_def)
  next
    case False
    then show ?thesis using Cons by (cases p) (simp add: map_ok_def map_get_def)
  qed
qed simp

lemma get_one_block:
  assumes "map_ok (db_commits db)" and "db_getCommitData db n = Some data" and "commit_fromStorage sx data = Inr c"
    and "bh_payloadSize (scm_header data) + 1541 \<le> MAX_PAYLOAD_CLIENT" and "n \<le> so_blockNumber st"
  shows "get_blocks sx db st n 1 = Inr [from_hex (cm_serialized c)]"
proof -
  have "filter (\<lambda>(k, _). n \<le> k \<and> k \<le> n) (db_commits db) = filter (\<lambda>(k, _). k = n) (db_commits db)" by (rule filter_cong) auto
  then have "sort_key fst (filter (\<lambda>(k, _). n \<le> k \<and> k \<le> n) (db_commits db)) = [(n, data)]"
    using filter_one_key [OF assms(1), of n data] assms(2) by (simp add: db_getCommitData_def)
  then show ?thesis using assms(3-5)
    by (simp add: get_blocks_def findCommitBuffers_def readCommits_def db_getCommitsByBlockRange_def MAX_PAYLOAD_CLIENT_def)
qed

text \<open>A peer that stores our chain up to the lower of both heights is verified: its answer, put together from its database, is
  read as the block we have.\<close>

theorem peer_with_our_chain_is_verified:
  assumes stored: "map_ok (db_commits db)" "db_getCommitData db n = Some data" "commit_fromStorage sx data = Inr c" "n \<le> so_blockNumber st"
      "bh_payloadSize (scm_header data) + 1541 \<le> MAX_PAYLOAD_CLIENT"
    and n: "n = min (bh_number (bk_header theirs)) (bh_number (bk_header ours))"
    and read: "fromBytes (from_hex (cm_serialized c)) = Inr c" and version: "isValidVersion version"
    and same: "if n = bh_number (bk_header ours) then b = ours else blockAt n = Inr (Some b)"
      "bh_number (bk_header (cm_block c)) = bh_number (bk_header b)" "bh_hash (bk_header (cm_block c)) = bh_hash (bk_header b)"
  shows "verify_peer cf nethash isValidVersion (Inr (get_status nethash version theirs)) (get_blocks sx db st) fromBytes blockAt (Inr ours) = Inr ()"
proof -
  have m: "(if bh_number (bk_header theirs) < bh_number (bk_header ours) then bh_number (bk_header theirs) else bh_number (bk_header ours)) = n" using n by simp
  have "get_blocks sx db st n 1 = Inr [from_hex (cm_serialized c)]" by (rule get_one_block [OF stored(1-3,5,4)])
  moreover have "(if bh_number (bk_header ours) = n then Inr (Some ours) else blockAt n) = Inr (Some b)" using same(1) by (auto split: if_splits)
  ultimately have "verifyHighestCommonBlock (get_blocks sx db st) fromBytes blockAt ours (bh_number (bk_header theirs)) = Inr ()"
    unfolding verifyHighestCommonBlock_def Let_def m using read same(2,3) by simp
  then show ?thesis using version by (simp add: verify_peer_def get_status_def)
qed

text \<open>What a peer is told: at most 500 other peers of the repository, the quickest first.\<close>

lemma get_peers_answer:
  assumes "get_peers requester s = Inr answer"
  shows "length answer \<le> 500 \<and> set answer \<subseteq> (\<lambda>p. (po_ip p, po_port p)) ` set (getPeers s) \<and> requester \<notin> fst ` set answer"
  using assms set_take_subset by (force simp: get_peers_def MAX_PEERS_GET_PEERS_def Let_def split: if_splits)

text \<open>An invalid message or proposal costs the sender its place, for the time of the ban; a valid one changes nothing.\<close>

lemma invalid_post_bans_the_sender:
  assumes "peers_reach cf al s" and "0 < cf_peerBanTime cf"
  shows "case result of
      Inr verdict \<Rightarrow> if verdict = Result_Invalid then fst (isBanned ip (posted cf result ip s)) \<and> \<not> hasPeer ip (posted cf result ip s) else posted cf result ip s = s
    | Inl _ \<Rightarrow> fst (isBanned ip (posted cf result ip s)) \<and> \<not> hasPeer ip (posted cf result ip s)"
proof -
  have "fst (isBanned ip (banPeer cf False ip s))" using assms(2)
    by (simp add: isBanned_eq banPeer_def) (simp add: banned_now_def jsmap_simps)
  moreover have "\<not> hasPeer ip (banPeer cf False ip s)"
    by (rule banned_not_known [OF peers_reach.banned [OF assms(1)] calculation])
  ultimately show ?thesis by (simp add: posted_def split: sum.splits)
qed

section \<open>Witnesses\<close>

definition sample_lib :: address_lib where
  "sample_lib = \<lparr>al_process = Some, al_kind = \<lambda>_. Some ''ipv4'', al_network = \<lambda>ip. Inr (rev (dropWhile (\<lambda>c. c \<noteq> CHR ''.'') (rev ip))), al_isMatch = \<lambda>_ p. Inr (p = ''*''), al_interfaces = []\<rparr>"

definition sample_p2p :: p2p_config where
  "sample_p2p = \<lparr>cf_disableDiscovery = False, cf_whitelist = [''*''], cf_blacklist = [], cf_peerBanTime = 3, cf_maxSameSubnetPeers = 1, cf_skipPeerStateVerification = False,
     cf_ignoreMinimumNetworkReach = False, cf_minimumNetworkReach = 2, cf_maxPeersBroadcast = 4, cf_maxSequentialErrors = 3\<rparr>"

definition no_peers :: peers_state where
  "no_peers = \<lparr>ps_now = 0, ps_heap = \<lambda>_. \<lparr>po_ip = [], po_port = 0, po_version = None, po_latency = None, po_header = None\<rparr>, ps_nextId = 0, ps_peers = [], ps_peersPending = [],
     ps_blacklist = [], ps_acceptances = [], ps_checks = [], ps_verifying = [], ps_commands = [], ps_events = [], ps_poolHeap = \<lambda>_. \<lparr>wp_ip = [], wp_errorCount = 0\<rparr>,
     ps_poolNextId = 0, ps_poolPeers = []\<rparr>"

definition first_ip :: string where
  "first_ip = ''5.6.7.8''"

definition second_ip :: string where
  "second_ip = ''5.6.7.9''"

lemma no_peers_reached: "peers_reach cf al no_peers"
proof -
  have "new_peers_state no_peers = no_peers" by (simp add: new_peers_state_def no_peers_def)
  with peers_reach.created [of cf al no_peers] show ?thesis by simp
qed

lemma sample_address: "isValidPeerIp sample_lib first_ip" "isValidPeerIp sample_lib second_ip" "al_network sample_lib first_ip = Inr ''5.6.7.''" "al_network sample_lib second_ip = Inr ''5.6.7.''"
  "\<not> isIPv6Address sample_lib ip" "isWhitelisted sample_lib (cf_whitelist sample_p2p) ip" "\<not> isBlacklisted sample_lib (cf_blacklist sample_p2p) ip" "first_ip \<noteq> second_ip"
  "\<not> cf_disableDiscovery sample_p2p" "cf_maxSameSubnetPeers sample_p2p = Suc 0"
  by (simp_all add: isValidPeerIp_def sample_lib_def isLocalHost_def first_ip_def second_ip_def isIPv6Address_def isWhitelisted_def isBlacklisted_def some_match_def sample_p2p_def)

text \<open>Both addresses are asked for before one of them is in the repository.\<close>

definition both_pending :: peers_state where
  "both_pending = acceptNewPeer second_ip 4002 (acceptNewPeer first_ip 4002 no_peers)"

lemma both_pending_reached: "peers_reach sample_p2p sample_lib both_pending"
proof -
  have "validateAndAcceptPeer sample_p2p sample_lib 4002 first_ip False no_peers = Inr (acceptNewPeer first_ip 4002 no_peers)"
    by (simp add: validateAndAcceptPeer_def validatePeerIp_def sample_address no_peers_def isBanned_def hasPeer_def hasPendingPeer_def getPeers_def)
  from peers_reach.asked [OF no_peers_reached this] have first: "peers_reach sample_p2p sample_lib (acceptNewPeer first_ip 4002 no_peers)" .
  have "validateAndAcceptPeer sample_p2p sample_lib 4002 second_ip False (acceptNewPeer first_ip 4002 no_peers) = Inr both_pending"
    by (simp add: validateAndAcceptPeer_def validatePeerIp_def sample_address no_peers_def isBanned_def hasPeer_def hasPendingPeer_def getPeers_def acceptNewPeer_def setPendingPeer_def
        jsmap_simps sample_address(8) [symmetric] both_pending_def Let_def)
  from peers_reach.asked [OF first this] show ?thesis .
qed

definition one_accepted :: peers_state where
  "one_accepted = accept_pool_verified True 0 (accept_peer_verified sample_p2p (Inr ()) 0 both_pending)"

definition both_accepted :: peers_state where
  "both_accepted = accept_pool_verified True 1 (accept_peer_verified sample_p2p (Inr ()) 1 one_accepted)"

lemmas sample_steps = both_pending_def one_accepted_def both_accepted_def no_peers_def acceptNewPeer_def setPendingPeer_def accept_peer_verified_def accept_pool_verified_def to_phase_def
  isBanned_def setPeer_def map_set_def map_get_def Let_def

lemma sample_acceptances: "ps_acceptances both_pending = [(0, VerifyingPeer), (1, VerifyingPeer)]"
  "ps_acceptances (accept_peer_verified sample_p2p (Inr ()) 0 both_pending) = [(0, VerifyingPool), (1, VerifyingPeer)]"
  "ps_acceptances one_accepted = [(0, Discovering), (1, VerifyingPeer)]"
  "ps_acceptances (accept_peer_verified sample_p2p (Inr ()) 1 one_accepted) = [(0, Discovering), (1, VerifyingPool)]"
  "map po_ip (getPeers both_accepted) = [first_ip, second_ip]" "ps_commands both_accepted = [SetPeer first_ip, SetPeer second_ip]"
  using sample_address(8) by (simp_all add: sample_steps getPeers_def)

lemma one_accepted_reached: "peers_reach sample_p2p sample_lib one_accepted"
  unfolding one_accepted_def by (intro peers_reach.pool_verified peers_reach.peer_verified both_pending_reached) (simp_all add: sample_acceptances)

lemma both_accepted_reached: "peers_reach sample_p2p sample_lib both_accepted"
  unfolding both_accepted_def by (intro peers_reach.pool_verified peers_reach.peer_verified one_accepted_reached) (simp_all add: sample_acceptances sample_acceptances(4) [simplified])

text \<open>The limit of peers from one subnet is checked only against the peers in the repository, not against those being accepted: two peers of
  one subnet get in where the limit is one.\<close>

theorem subnet_limit_exceeded:
  "\<exists>cf al s ip ps. peers_reach cf al s \<and> getSameSubnetPeers al ip (getPeers s) = Inr ps \<and> length ps > cf_maxSameSubnetPeers cf"
proof -
  obtain p q where pq: "getPeers both_accepted = [p, q]" "po_ip p = first_ip" "po_ip q = second_ip" using sample_acceptances(5) by auto
  then have "getSameSubnetPeers sample_lib first_ip (getPeers both_accepted) = Inr [p, q]" by (simp add: sample_address)
  then show ?thesis using both_accepted_reached sample_address(10) by (intro exI [of _ sample_p2p] exI [of _ sample_lib] exI [of _ both_accepted] exI [of _ first_ip] exI [of _ "[p, q]"]) simp
qed

theorem banned_peer_is_not_in_repository_witness:
  "fst (isBanned first_ip (banPeer sample_p2p False first_ip one_accepted)) \<and> \<not> hasPeer first_ip (banPeer sample_p2p False first_ip one_accepted) \<and> hasPeer first_ip one_accepted"
proof -
  have b: "fst (isBanned first_ip (banPeer sample_p2p False first_ip one_accepted))"
    by (simp add: isBanned_eq banPeer_def sample_p2p_def) (simp add: banned_now_def jsmap_simps)
  moreover have "hasPeer first_ip one_accepted" by (simp add: sample_steps hasPeer_def map_has_def)
  ultimately show ?thesis using banned_peer_is_not_in_repository [OF peers_reach.banned [OF one_accepted_reached] b] by simp
qed

theorem one_acceptance_per_address_witness:
  "po_ip (ps_heap both_pending 0) \<noteq> po_ip (ps_heap both_pending 1)"
  using one_acceptance_per_address [OF both_pending_reached, of 0 VerifyingPeer 1 VerifyingPeer] by (auto simp: sample_acceptances)

definition settled :: peers_state where
  "settled = pool_handle (SetPeer second_ip) ((pool_handle (SetPeer first_ip) (both_accepted\<lparr>ps_commands := [SetPeer second_ip]\<rparr>))\<lparr>ps_commands := []\<rparr>)"

lemma settled_reached: "peers_reach sample_p2p sample_lib settled"
proof -
  have "peers_reach sample_p2p sample_lib (pool_handle (SetPeer first_ip) (both_accepted\<lparr>ps_commands := [SetPeer second_ip]\<rparr>))"
    by (rule peers_reach.command [OF both_accepted_reached sample_acceptances(6)])
  then show ?thesis unfolding settled_def by (rule peers_reach.command) (simp add: pool_handle_def)
qed

theorem pool_copies_the_peers_witness:
  "map_has (ps_poolPeers settled) first_ip \<and> hasPeer first_ip settled"
proof -
  have "hasPeer first_ip settled" by (simp add: settled_def pool_handle_def sample_steps hasPeer_def map_has_def)
  moreover have "ps_commands settled = []" "ps_events settled = []" by (simp_all add: settled_def pool_handle_def sample_steps)
  ultimately show ?thesis using pool_copies_the_peers [OF settled_reached, of first_ip] by simp
qed

text \<open>Two nodes that have only the genesis block.\<close>

definition genesis_db :: chain_db where
  "genesis_db = \<lparr>db_commits = [(0, prepareCommitData sample_genesis)], db_hashNumber = [], db_transactionKey = [], db_totalRound = 1\<rparr>"

abbreviation genesis_block :: block where
  "genesis_block \<equiv> cm_block sample_genesis"

lemma genesis_number: "bh_number (bk_header genesis_block) = 0" "bh_payloadSize (scm_header (prepareCommitData sample_genesis)) = 0"
  by (simp_all add: sample_genesis_def sample_genesis_header_def prepareCommitData_def Let_def)

theorem peer_with_our_chain_is_verified_witness:
  "verify_peer sample_p2p ''n'' (\<lambda>v. v = ''1.0.0'') (Inr (get_status ''n'' ''1.0.0'' genesis_block)) (get_blocks (ne_storage sample_node_env) genesis_db sample_store)
     (\<lambda>_. Inr sample_genesis) (\<lambda>_. Inr None) (Inr genesis_block) = Inr ()"
  by (rule peer_with_our_chain_is_verified [where n = 0 and c = sample_genesis and b = genesis_block and data = "prepareCommitData sample_genesis"])
    (simp_all add: genesis_number sample_genesis_stored genesis_db_def db_getCommitData_def map_get_def map_ok_def MAX_PAYLOAD_CLIENT_def)

theorem verified_peer_is_on_our_chain_witness:
  "\<exists>st. Inr (get_status ''n'' ''1.0.0'' genesis_block) = (Inr st :: error + peer_status) \<and> st_nethash st = ''n'' \<and> st_version st = ''1.0.0''"
proof -
  have v: "verify_peer sample_p2p ''n'' (\<lambda>v. v = ''1.0.0'') (Inr (get_status ''n'' ''1.0.0'' genesis_block)) (\<lambda>_ _. Inr [[]]) (\<lambda>_. Inr sample_genesis) (\<lambda>_. Inr None) (Inr genesis_block) = Inr ()"
    by (simp add: verify_peer_def verifyHighestCommonBlock_def get_status_def genesis_number)
  have "\<not> cf_skipPeerStateVerification sample_p2p" by (simp add: sample_p2p_def)
  from verified_peer_is_on_our_chain [OF v this] show ?thesis by blast
qed

end
