(* ===== verification/Kernel_Services.thy ===== *)
theory Kernel_Services
  imports Mainsail_Prelude "HOL-Library.Sublist"
begin

text \<open>
  Services of \<open>kernel/source\<close> the components run on: the event dispatcher (\<open>services/events/drivers/memory.ts\<close>), the job queue
  (\<open>services/queue/drivers/memory.ts\<close>) and the calls between the node and its worker threads (\<open>ipc/subprocess.ts\<close>, \<open>ipc/handler.ts\<close>).

  Listeners, jobs and requests are numbered objects. The queue and the calls are step relations cut at the awaits of the code; messages
  between threads are queues. Matching of event names (micromatch) is a parameter.
\<close>

section \<open>Event dispatcher\<close>

datatype listener = Listener nat | OnceListener nat listener

type_synonym dispatcher = "(string, listener list) jsmap"

definition listener_set_add :: "listener \<Rightarrow> listener list \<Rightarrow> listener list" where
  "listener_set_add l ls = (if l \<in> set ls then ls else ls @ [l])"

definition getListenersByEvent :: "string \<Rightarrow> dispatcher \<Rightarrow> listener list \<times> dispatcher" where
  "getListenersByEvent name d = (case map_get d name of Some ls \<Rightarrow> (ls, d) | None \<Rightarrow> ([], map_set d name []))"

definition events_listen :: "string \<Rightarrow> listener \<Rightarrow> dispatcher \<Rightarrow> dispatcher" where
  "events_listen event l d = (case getListenersByEvent event d of (ls, d1) \<Rightarrow> map_set d1 event (listener_set_add l ls))"

definition events_listenMany :: "(string \<times> listener) list \<Rightarrow> dispatcher \<Rightarrow> dispatcher" where
  "events_listenMany events d = fold (\<lambda>(event, l). events_listen event l) events d"

text \<open>\<open>k\<close> is the identity of the new wrapper.\<close>

definition events_listenOnce :: "nat \<Rightarrow> string \<Rightarrow> listener \<Rightarrow> dispatcher \<Rightarrow> dispatcher" where
  "events_listenOnce k name l d = events_listen name (OnceListener k l) d"

definition events_forget :: "string \<Rightarrow> listener option \<Rightarrow> dispatcher \<Rightarrow> bool \<times> dispatcher" where
  "events_forget event l d =
     (case l of
        Some l \<Rightarrow> if event = [] then (map_has d event, map_delete d event)
                  else (case getListenersByEvent event d of (ls, d1) \<Rightarrow> (l \<in> set ls, map_set d1 event (removeAll l ls)))
      | None \<Rightarrow> (map_has d event, map_delete d event))"

definition events_forgetMany :: "(string \<times> listener option) list \<Rightarrow> dispatcher \<Rightarrow> dispatcher" where
  "events_forgetMany events d = fold (\<lambda>(event, l) d. snd (events_forget event l d)) events d"

definition events_flush :: "dispatcher \<Rightarrow> dispatcher" where
  "events_flush d = []"

definition getListenersByPattern :: "(string list \<Rightarrow> string \<Rightarrow> string list) \<Rightarrow> string \<Rightarrow> dispatcher \<Rightarrow> listener list" where
  "getListenersByPattern mm event d =
     (case map_get d ''*'' of None \<Rightarrow> [] | Some ls \<Rightarrow> ls)
     @ concat (map (\<lambda>match. case map_get d match of None \<Rightarrow> [] | Some ls \<Rightarrow> ls) (filter (\<lambda>match. match \<noteq> ''*'') (mm (map fst d) event)))"

definition getListeners :: "(string list \<Rightarrow> string \<Rightarrow> string list) \<Rightarrow> string \<Rightarrow> dispatcher \<Rightarrow> listener list" where
  "getListeners mm event d = getListenersByPattern mm (if event = [] then ''*'' else event) d"

definition hasListeners :: "(string list \<Rightarrow> string \<Rightarrow> string list) \<Rightarrow> string \<Rightarrow> dispatcher \<Rightarrow> bool" where
  "hasListeners mm event d \<longleftrightarrow> 0 < length (getListenersByPattern mm event d)"

definition countListeners :: "(string list \<Rightarrow> string \<Rightarrow> string list) \<Rightarrow> string \<Rightarrow> dispatcher \<Rightarrow> nat" where
  "countListeners mm event d = (if event \<noteq> [] then length (getListenersByPattern mm event d) else sum_list (map (\<lambda>(_, ls). length ls) d))"

text \<open>The listeners called by a delivery to one listener, and what it leaves of the dispatcher: a wrapper takes itself out under the name of the event.\<close>

fun deliver :: "string \<Rightarrow> listener \<Rightarrow> dispatcher \<Rightarrow> nat list \<times> dispatcher" where
  "deliver name (Listener i) d = ([i], d)"
| "deliver name (OnceListener k l) d = deliver name l (snd (events_forget name (Some (OnceListener k l)) d))"

fun deliver_all :: "string \<Rightarrow> listener list \<Rightarrow> dispatcher \<Rightarrow> nat list \<times> dispatcher" where
  "deliver_all name [] d = ([], d)"
| "deliver_all name (l # ls) d = (case deliver name l d of (called, d1) \<Rightarrow> case deliver_all name ls d1 of (rest, d2) \<Rightarrow> (called @ rest, d2))"

definition events_dispatch :: "(string list \<Rightarrow> string \<Rightarrow> string list) \<Rightarrow> string \<Rightarrow> dispatcher \<Rightarrow> nat list \<times> dispatcher" where
  "events_dispatch mm event d = deliver_all event (getListenersByPattern mm event d) d"

fun events_dispatchMany :: "(string list \<Rightarrow> string \<Rightarrow> string list) \<Rightarrow> string list \<Rightarrow> dispatcher \<Rightarrow> nat list \<times> dispatcher" where
  "events_dispatchMany mm [] d = ([], d)"
| "events_dispatchMany mm (e # es) d = (case events_dispatch mm e d of (called, d1) \<Rightarrow> case events_dispatchMany mm es d1 of (rest, d2) \<Rightarrow> (called @ rest, d2))"

section \<open>Job queue\<close>

record job_queue =
  qu_jobs :: "nat list"
  qu_running :: bool
  qu_started :: bool
  qu_timers :: "(nat \<times> nat) list"
  qu_waiting :: "nat list"
  qu_current :: "nat option"
  qu_pushed :: "nat list"
  qu_taken :: "nat list"

text \<open>The last two fields record every job pushed and every job taken, in order; the code has no such fields.\<close>

definition new_queue :: job_queue where
  "new_queue = \<lparr>qu_jobs = [], qu_running = False, qu_started = False, qu_timers = [], qu_waiting = [], qu_current = None, qu_pushed = [], qu_taken = []\<rparr>"

definition queue_exit :: "job_queue \<Rightarrow> job_queue" where
  "queue_exit q = q\<lparr>qu_running := False, qu_waiting := [], qu_current := None\<rparr>"

definition queue_loop :: "job_queue \<Rightarrow> job_queue" where
  "queue_loop q =
     (case qu_jobs q of
        [] \<Rightarrow> queue_exit q
      | job # jobs \<Rightarrow> if \<not> qu_started q then queue_exit q else q\<lparr>qu_jobs := jobs, qu_current := Some job, qu_taken := qu_taken q @ [job]\<rparr>)"

definition processJobs :: "job_queue \<Rightarrow> job_queue" where
  "processJobs q = (if qu_running q then q else queue_loop (q\<lparr>qu_running := True\<rparr>))"

definition queue_start :: "job_queue \<Rightarrow> job_queue" where
  "queue_start q = processJobs (q\<lparr>qu_started := True\<rparr>)"

definition waitUntilProcessed :: "nat \<Rightarrow> job_queue \<Rightarrow> job_queue" where
  "waitUntilProcessed w q = (if qu_running q then q\<lparr>qu_waiting := qu_waiting q @ [w]\<rparr> else q)"

definition queue_clear :: "job_queue \<Rightarrow> job_queue" where
  "queue_clear q = q\<lparr>qu_timers := [], qu_jobs := []\<rparr>"

definition queue_stop :: "nat \<Rightarrow> job_queue \<Rightarrow> job_queue" where
  "queue_stop w q = queue_clear (waitUntilProcessed w (q\<lparr>qu_started := False\<rparr>))"

definition queue_pause :: "nat \<Rightarrow> job_queue \<Rightarrow> job_queue" where
  "queue_pause w q = waitUntilProcessed w (q\<lparr>qu_started := False\<rparr>)"

definition queue_bulk :: "nat list \<Rightarrow> job_queue \<Rightarrow> job_queue" where
  "queue_bulk jobs q = processJobs (q\<lparr>qu_jobs := qu_jobs q @ jobs, qu_pushed := qu_pushed q @ jobs\<rparr>)"

definition queue_push :: "nat \<Rightarrow> job_queue \<Rightarrow> job_queue" where
  "queue_push job q = queue_bulk [job] q"

definition queue_later :: "nat \<Rightarrow> nat \<Rightarrow> job_queue \<Rightarrow> job_queue" where
  "queue_later timer job q = q\<lparr>qu_timers := qu_timers q @ [(timer, job)]\<rparr>"

definition timer_fires :: "nat \<times> nat \<Rightarrow> job_queue \<Rightarrow> job_queue" where
  "timer_fires t q = queue_push (snd t) (q\<lparr>qu_timers := removeAll t (qu_timers q)\<rparr>)"

text \<open>One turn of the loop of \<open>drain\<close>.\<close>

definition queue_drain :: "nat \<Rightarrow> job_queue \<Rightarrow> job_queue" where
  "queue_drain w q = (if qu_running q \<or> qu_jobs q \<noteq> [] then waitUntilProcessed w (if qu_started q then processJobs q else queue_start q) else q)"

text \<open>The current job is over with its event dispatched; or a listener of the event of a failed job threw.\<close>

definition job_over :: "job_queue \<Rightarrow> job_queue" where
  "job_over q = queue_loop (q\<lparr>qu_current := None\<rparr>)"

inductive queue_reach :: "bool \<Rightarrow> job_queue \<Rightarrow> bool" for listeners_throw where
  created: "queue_reach listeners_throw new_queue"
| start: "queue_reach listeners_throw q \<Longrightarrow> queue_reach listeners_throw (queue_start q)"
| stop: "queue_reach listeners_throw q \<Longrightarrow> queue_reach listeners_throw (queue_stop w q)"
| pause: "queue_reach listeners_throw q \<Longrightarrow> queue_reach listeners_throw (queue_pause w q)"
| clear: "queue_reach listeners_throw q \<Longrightarrow> queue_reach listeners_throw (queue_clear q)"
| bulk: "queue_reach listeners_throw q \<Longrightarrow> queue_reach listeners_throw (queue_bulk jobs q)"
| later: "queue_reach listeners_throw q \<Longrightarrow> queue_reach listeners_throw (queue_later timer job q)"
| timer: "queue_reach listeners_throw q \<Longrightarrow> t \<in> set (qu_timers q) \<Longrightarrow> queue_reach listeners_throw (timer_fires t q)"
| drain: "queue_reach listeners_throw q \<Longrightarrow> queue_reach listeners_throw (queue_drain w q)"
| over: "queue_reach listeners_throw q \<Longrightarrow> qu_current q \<noteq> None \<Longrightarrow> queue_reach listeners_throw (job_over q)"
| broken: "queue_reach listeners_throw q \<Longrightarrow> qu_current q \<noteq> None \<Longrightarrow> listeners_throw \<Longrightarrow> queue_reach listeners_throw (queue_exit q)"

section \<open>Calls between threads\<close>

datatype ipc_message = Reply nat "error + string" | Event string string

record ipc =
  ip_lastId :: nat
  ip_callbacks :: "nat list"
  ip_stopped :: "error option"
  ip_draining :: bool
  ip_eventHandlers :: "string list"
  ip_requests :: "(nat \<times> string) list"
  ip_handling :: "nat list"
  ip_messages :: "ipc_message list"
  ip_delivered :: "(string \<times> string) list"
  ip_settled :: "(nat \<times> (error + string)) list"
  ip_answered :: "(nat \<times> (error + string)) list"

text \<open>The last three fields record the events handed to handlers, how promises were settled and what the worker answered; the code has no such fields.\<close>

definition new_ipc :: ipc where
  "new_ipc = \<lparr>ip_lastId = 1, ip_callbacks = [], ip_stopped = None, ip_draining = False, ip_eventHandlers = [], ip_requests = [], ip_handling = [], ip_messages = [], ip_delivered = [], ip_settled = [], ip_answered = []\<rparr>"

definition notifyDrained :: "ipc \<Rightarrow> ipc" where
  "notifyDrained s = s\<lparr>ip_draining := False\<rparr>"

definition settle :: "nat \<Rightarrow> error + string \<Rightarrow> ipc \<Rightarrow> ipc" where
  "settle k r s =
     (let s1 = s\<lparr>ip_callbacks := removeAll k (ip_callbacks s), ip_settled := (if k \<in> set (ip_callbacks s) then ip_settled s @ [(k, r)] else ip_settled s)\<rparr>
      in if ip_callbacks s1 = [] then notifyDrained s1 else s1)"

text \<open>\<open>cloned\<close> is the error of arguments that cannot be sent. A request of a stopped worker is refused without a number.\<close>

definition sendRequest :: "error option \<Rightarrow> string \<Rightarrow> ipc \<Rightarrow> (error + nat) \<times> ipc" where
  "sendRequest cloned request_method s =
     (case ip_stopped s of
        Some e \<Rightarrow> (Inl e, s)
      | None \<Rightarrow>
          (let k = ip_lastId s; s1 = s\<lparr>ip_lastId := k + 1, ip_callbacks := ip_callbacks s @ [k]\<rparr>
           in (Inr k, case cloned of None \<Rightarrow> s1\<lparr>ip_requests := ip_requests s1 @ [(k, request_method)]\<rparr> | Some e \<Rightarrow> settle k (Inl e) s1)))"

definition rejectPending :: "error \<Rightarrow> ipc \<Rightarrow> ipc" where
  "rejectPending e s = notifyDrained (s\<lparr>ip_settled := ip_settled s @ map (\<lambda>k. (k, Inl e)) (ip_callbacks s), ip_callbacks := []\<rparr>)"

definition ipc_stop :: "error \<Rightarrow> ipc \<Rightarrow> ipc" where
  "ipc_stop e s = rejectPending e (s\<lparr>ip_stopped := (case ip_stopped s of None \<Rightarrow> Some e | Some e1 \<Rightarrow> Some e1), ip_requests := [], ip_handling := []\<rparr>)"

text \<open>\<open>kill\<close> and \<open>dispose\<close>; the exit of the worker follows.\<close>

definition ipc_terminate :: "error \<Rightarrow> ipc \<Rightarrow> ipc" where
  "ipc_terminate e s = s\<lparr>ip_stopped := (case ip_stopped s of None \<Rightarrow> Some e | Some e1 \<Rightarrow> Some e1)\<rparr>"

definition ipc_drain :: "ipc \<Rightarrow> ipc" where
  "ipc_drain s = (if ip_callbacks s = [] then s else s\<lparr>ip_draining := True\<rparr>)"

definition ipc_onMessage :: "ipc_message \<Rightarrow> ipc \<Rightarrow> ipc" where
  "ipc_onMessage m s = (case m of Reply k r \<Rightarrow> settle k r s | Event name data \<Rightarrow> if name \<in> set (ip_eventHandlers s) then s\<lparr>ip_delivered := ip_delivered s @ [(name, data)]\<rparr> else s)"

text \<open>The worker: it takes a request, and answers after the call of its handler.\<close>

definition handler_onMessage :: "(string \<Rightarrow> bool) \<Rightarrow> nat \<Rightarrow> string \<Rightarrow> ipc \<Rightarrow> ipc" where
  "handler_onMessage defined k request_method s =
     (if defined request_method then s\<lparr>ip_handling := ip_handling s @ [k]\<rparr>
      else let r = Inl (JsError ''Method is not defined on the handler'') in s\<lparr>ip_messages := ip_messages s @ [Reply k r], ip_answered := ip_answered s @ [(k, r)]\<rparr>)"

definition handler_answers :: "nat \<Rightarrow> error + string \<Rightarrow> ipc \<Rightarrow> ipc" where
  "handler_answers k r s = s\<lparr>ip_handling := removeAll k (ip_handling s), ip_messages := ip_messages s @ [Reply k r], ip_answered := ip_answered s @ [(k, r)]\<rparr>"

inductive ipc_reach :: "(string \<Rightarrow> bool) \<Rightarrow> ipc \<Rightarrow> bool" for defined where
  created: "ipc_reach defined new_ipc"
| sent: "ipc_reach defined s \<Longrightarrow> ipc_reach defined (snd (sendRequest cloned request_method s))"
| drained: "ipc_reach defined s \<Longrightarrow> ipc_reach defined (ipc_drain s)"
| terminated: "ipc_reach defined s \<Longrightarrow> ipc_reach defined (ipc_terminate e s)"
| exited: "ipc_reach defined s \<Longrightarrow> ipc_reach defined (ipc_stop e s)"
| registered: "ipc_reach defined s \<Longrightarrow> ipc_reach defined (s\<lparr>ip_eventHandlers := handlers\<rparr>)"
| emitted: "ipc_reach defined s \<Longrightarrow> ipc_reach defined (s\<lparr>ip_messages := ip_messages s @ [Event name data]\<rparr>)"
| received: "ipc_reach defined s \<Longrightarrow> ip_requests s = (k, request_method) # rest \<Longrightarrow> ipc_reach defined (handler_onMessage defined k request_method (s\<lparr>ip_requests := rest\<rparr>))"
| answered: "ipc_reach defined s \<Longrightarrow> k \<in> set (ip_handling s) \<Longrightarrow> ipc_reach defined (handler_answers k r s)"
| delivered: "ipc_reach defined s \<Longrightarrow> ip_messages s = m # rest \<Longrightarrow> ipc_reach defined (ipc_onMessage m (s\<lparr>ip_messages := rest\<rparr>))"
| garbled: "ipc_reach defined s \<Longrightarrow> ip_messages s = m # rest \<Longrightarrow> ipc_reach defined (rejectPending e (s\<lparr>ip_messages := rest\<rparr>))"

section \<open>The queue keeps its jobs in order and does not fall asleep\<close>

definition queue_ok :: "bool \<Rightarrow> job_queue \<Rightarrow> bool" where
  "queue_ok listeners_throw q \<longleftrightarrow> (qu_running q \<longleftrightarrow> qu_current q \<noteq> None) \<and> (qu_waiting q \<noteq> [] \<longrightarrow> qu_running q) \<and> subseq (qu_taken q @ qu_jobs q) (qu_pushed q)
     \<and> (\<not> listeners_throw \<longrightarrow> qu_started q \<and> qu_jobs q \<noteq> [] \<longrightarrow> qu_running q)"

lemma subseq_appendD: "subseq (xs @ ys) zs \<Longrightarrow> subseq xs zs"
  by (rule subseq_order.trans [OF prefix_imp_subseq]) (auto simp: prefix_def)

lemma queue_loop_ok:
  assumes "subseq (qu_taken q @ qu_jobs q) (qu_pushed q)" and "qu_running q"
  shows "queue_ok b (queue_loop q)"
  using assms by (auto simp: queue_loop_def queue_ok_def queue_exit_def split: list.splits)

lemma processJobs_ok:
  assumes "subseq (qu_taken q @ qu_jobs q) (qu_pushed q)" and "qu_running q \<longleftrightarrow> qu_current q \<noteq> None" and "qu_waiting q \<noteq> [] \<longrightarrow> qu_running q"
  shows "queue_ok b (processJobs q)"
  using assms queue_loop_ok [of "q\<lparr>qu_running := True\<rparr>" b] by (auto simp: processJobs_def queue_ok_def)

lemma waitUntilProcessed_ok: "queue_ok b q \<Longrightarrow> queue_ok b (waitUntilProcessed w q)"
  by (auto simp: queue_ok_def waitUntilProcessed_def)

lemma queue_clear_ok: "queue_ok b q \<Longrightarrow> queue_ok b (queue_clear q)"
  by (auto simp: queue_ok_def queue_clear_def dest: subseq_appendD)

lemma queue_unstarted_ok: "queue_ok b q \<Longrightarrow> queue_ok b (q\<lparr>qu_started := False\<rparr>)"
  by (auto simp: queue_ok_def)

lemma queue_start_ok: "queue_ok b q \<Longrightarrow> queue_ok b (queue_start q)"
  unfolding queue_start_def by (rule processJobs_ok) (auto simp: queue_ok_def)

lemma queue_bulk_ok: "queue_ok b q \<Longrightarrow> queue_ok b (queue_bulk jobs q)"
  unfolding queue_bulk_def
  by (rule processJobs_ok) (auto simp: queue_ok_def list_emb_append_mono append_assoc [symmetric] simp del: append_assoc)

lemma queue_reach_ok: "queue_reach b q \<Longrightarrow> queue_ok b q"
proof (induction rule: queue_reach.induct)
  case created
  then show ?case by (simp add: queue_ok_def new_queue_def)
next
  case (stop q w)
  then show ?case by (simp add: queue_stop_def queue_clear_ok waitUntilProcessed_ok queue_unstarted_ok)
next
  case (pause q w)
  then show ?case by (simp add: queue_pause_def waitUntilProcessed_ok queue_unstarted_ok)
next
  case (later q timer job)
  then show ?case by (auto simp: queue_later_def queue_ok_def)
next
  case (timer q t)
  then have "queue_ok b (q\<lparr>qu_timers := removeAll t (qu_timers q)\<rparr>)" by (auto simp: queue_ok_def)
  then show ?case by (simp add: timer_fires_def queue_push_def queue_bulk_ok)
next
  case (drain q w)
  then have "queue_ok b (processJobs q)" by (intro processJobs_ok) (auto simp: queue_ok_def)
  with drain show ?case by (simp add: queue_drain_def waitUntilProcessed_ok queue_start_ok)
next
  case (over q)
  then show ?case unfolding job_over_def by (intro queue_loop_ok) (auto simp: queue_ok_def)
next
  case (broken q)
  then show ?case by (simp add: queue_exit_def queue_ok_def)
qed (simp_all add: queue_start_ok queue_bulk_ok queue_clear_ok)

text \<open>C29 (liveness). A started queue with jobs left is working on one of them, unless a listener of the event of a failed job throws: no interleaving of
  pushes, timers, stops and starts leaves it asleep. Jobs are taken one at a time in the order they were pushed, and who waits for the queue waits only while it works.\<close>

theorem queue_keeps_working:
  assumes "queue_reach False q"
  shows "(qu_started q \<and> qu_jobs q \<noteq> [] \<longrightarrow> qu_current q \<noteq> None) \<and> subseq (qu_taken q) (qu_pushed q) \<and> (qu_waiting q \<noteq> [] \<longrightarrow> qu_current q \<noteq> None)"
  using queue_reach_ok [OF assms] by (auto simp: queue_ok_def dest: subseq_appendD)

text \<open>A listener that throws on the event of a failed job ends the loop with jobs left in a started queue.\<close>

theorem throwing_listener_stops_the_queue:
  "\<exists>q. queue_reach True q \<and> qu_started q \<and> qu_jobs q \<noteq> [] \<and> qu_current q = None"
proof -
  let ?q = "queue_bulk [1, 2] (queue_start new_queue)"
  have "queue_reach True ?q" by (intro queue_reach.bulk queue_reach.start queue_reach.created)
  moreover have "qu_current ?q = Some 1" "qu_jobs ?q = [2]" "qu_started ?q"
    by (simp_all add: queue_bulk_def queue_start_def processJobs_def queue_loop_def queue_exit_def new_queue_def)
  moreover from calculation have "queue_reach True (queue_exit ?q)" by (intro queue_reach.broken) simp_all
  ultimately have "queue_reach True (queue_exit ?q)" "qu_started (queue_exit ?q)" "qu_jobs (queue_exit ?q) = [2]" "qu_current (queue_exit ?q) = None"
    by (simp_all only: queue_exit_def) simp_all
  then show ?thesis by (intro exI [of _ "queue_exit ?q"]) simp
qed

theorem queue_keeps_working_witness:
  "qu_started (queue_bulk [7, 8] (queue_start new_queue)) \<and> qu_jobs (queue_bulk [7, 8] (queue_start new_queue)) \<noteq> [] \<and> qu_current (queue_bulk [7, 8] (queue_start new_queue)) \<noteq> None"
proof -
  let ?q = "queue_bulk [7, 8] (queue_start new_queue)"
  have "queue_reach False ?q" by (intro queue_reach.bulk queue_reach.start queue_reach.created)
  moreover have "qu_started ?q" "qu_jobs ?q \<noteq> []"
    by (simp_all add: queue_bulk_def queue_start_def processJobs_def queue_loop_def queue_exit_def new_queue_def)
  ultimately show ?thesis using queue_keeps_working [of ?q] by simp
qed

section \<open>Every call between threads is settled once\<close>

definition reply_ids :: "ipc_message list \<Rightarrow> nat list" where
  "reply_ids ms = concat (map (\<lambda>m. case m of Reply k _ \<Rightarrow> [k] | Event _ _ \<Rightarrow> []) ms)"

text \<open>Numbers that are on their way: asked, being handled or answered.\<close>

definition under_way :: "ipc \<Rightarrow> nat set" where
  "under_way s = fst ` set (ip_requests s) \<union> set (ip_handling s) \<union> set (reply_ids (ip_messages s))"

definition ipc_ok :: "ipc \<Rightarrow> bool" where
  "ipc_ok s \<longleftrightarrow> distinct (ip_callbacks s @ map fst (ip_settled s)) \<and> set (ip_callbacks s) \<union> fst ` set (ip_settled s) = {1..<ip_lastId s}
     \<and> (ip_draining s \<longrightarrow> ip_callbacks s \<noteq> []) \<and> set (ip_callbacks s) \<subseteq> under_way s
     \<and> (\<forall>k v. (k, Inr v) \<in> set (ip_settled s) \<longrightarrow> (k, Inr v) \<in> set (ip_answered s))
     \<and> (\<forall>k r. Reply k r \<in> set (ip_messages s) \<longrightarrow> (k, r) \<in> set (ip_answered s)) \<and> 1 \<le> ip_lastId s"

lemma reply_ids_simps [simp]: "reply_ids [] = []" "reply_ids (Reply k r # ms) = k # reply_ids ms" "reply_ids (Event n d # ms) = reply_ids ms" "reply_ids (ms @ ms') = reply_ids ms @ reply_ids ms'"
  by (simp_all add: reply_ids_def)

lemma settle_fields [simp]:
  "ip_callbacks (settle k r s) = removeAll k (ip_callbacks s)" "ip_lastId (settle k r s) = ip_lastId s" "ip_messages (settle k r s) = ip_messages s"
  "ip_settled (settle k r s) = (if k \<in> set (ip_callbacks s) then ip_settled s @ [(k, r)] else ip_settled s)" "ip_answered (settle k r s) = ip_answered s"
  "under_way (settle k r s) = under_way s" "ip_draining (settle k r s) = (removeAll k (ip_callbacks s) \<noteq> [] \<and> ip_draining s)"
  by (simp_all add: settle_def notifyDrained_def Let_def under_way_def)

lemma reject_fields [simp]:
  "ip_callbacks (rejectPending e s) = []" "ip_lastId (rejectPending e s) = ip_lastId s" "ip_messages (rejectPending e s) = ip_messages s"
  "ip_settled (rejectPending e s) = ip_settled s @ map (\<lambda>k. (k, Inl e)) (ip_callbacks s)" "ip_answered (rejectPending e s) = ip_answered s" "\<not> ip_draining (rejectPending e s)"
  by (simp_all add: rejectPending_def notifyDrained_def)

lemma rejectPending_ok: "ipc_ok s \<Longrightarrow> ipc_ok (rejectPending e s)"
  by (auto simp: ipc_ok_def comp_def image_Un image_image)

lemma delivered_ok:
  assumes ok: "ipc_ok s" and m: "ip_messages s = Reply k r # rest"
  shows "ipc_ok (settle k r (s\<lparr>ip_messages := rest\<rparr>))"
proof -
  have answered: "(k, r) \<in> set (ip_answered s)" using ok m by (auto simp: ipc_ok_def)
  have way: "set (ip_callbacks s) - {k} \<subseteq> under_way (s\<lparr>ip_messages := rest\<rparr>)" using ok m by (auto simp: ipc_ok_def under_way_def)
  show ?thesis using ok answered way m unfolding ipc_ok_def by (auto simp: distinct_removeAll)
qed

lemma sent_ok:
  assumes "ipc_ok s"
  shows "ipc_ok (snd (sendRequest cloned request_method s))"
proof (cases "ip_stopped s")
  case None
  let ?k = "ip_lastId s"
  have fresh: "?k \<notin> set (ip_callbacks s)" "?k \<notin> fst ` set (ip_settled s)" using assms by (auto simp: ipc_ok_def)
  have upto: "{Suc 0..<Suc ?k} = insert ?k {Suc 0..<?k}" using assms by (auto simp: ipc_ok_def)
  show ?thesis
  proof (cases cloned)
    case None
    then show ?thesis using assms fresh upto \<open>ip_stopped s = None\<close> by (auto simp: sendRequest_def ipc_ok_def under_way_def Let_def)
  next
    case (Some e)
    then show ?thesis using assms fresh upto \<open>ip_stopped s = None\<close>
      by (auto simp: sendRequest_def ipc_ok_def Let_def) (auto simp: under_way_def)
  qed
qed (use assms in \<open>simp add: sendRequest_def\<close>)

lemma received_ok:
  assumes "ipc_ok s" and "ip_requests s = (k, request_method) # rest"
  shows "ipc_ok (handler_onMessage defined k request_method (s\<lparr>ip_requests := rest\<rparr>))"
  using assms by (auto simp: ipc_ok_def handler_onMessage_def under_way_def Let_def)

lemma answered_ok: "ipc_ok s \<Longrightarrow> k \<in> set (ip_handling s) \<Longrightarrow> ipc_ok (handler_answers k r s)"
  by (auto simp: ipc_ok_def handler_answers_def under_way_def)

lemma ipc_reach_ok: "ipc_reach defined s \<Longrightarrow> ipc_ok s"
proof (induction rule: ipc_reach.induct)
  case created
  then show ?case by (simp add: ipc_ok_def new_ipc_def)
next
  case (drained s)
  then show ?case by (auto simp: ipc_drain_def ipc_ok_def under_way_def)
next
  case (terminated s e)
  then show ?case by (simp add: ipc_terminate_def ipc_ok_def under_way_def)
next
  case (exited s e)
  then show ?case using rejectPending_ok [OF exited.IH, of e] by (simp add: ipc_stop_def ipc_ok_def)
next
  case (registered s handlers)
  then show ?case by (simp add: ipc_ok_def under_way_def)
next
  case (emitted s name data)
  then show ?case by (simp add: ipc_ok_def under_way_def)
next
  case (delivered s m rest)
  then show ?case by (cases m) (auto simp: ipc_onMessage_def delivered_ok, auto simp: ipc_ok_def under_way_def)
next
  case (garbled s m rest e)
  then show ?case using rejectPending_ok [OF garbled.IH, of e] by (auto simp: ipc_ok_def)
qed (simp_all add: sent_ok received_ok answered_ok)

text \<open>A call to a worker is settled at most once, a result it returns is what the worker answered to this call, and as long as it is not
  settled it is on its way; \<open>drain\<close> waits only while some call is open.\<close>

theorem calls_are_settled_once:
  assumes "ipc_reach defined s"
  shows "distinct (map fst (ip_settled s)) \<and> (\<forall>k v. (k, Inr v) \<in> set (ip_settled s) \<longrightarrow> (k, Inr v) \<in> set (ip_answered s))
    \<and> (\<forall>k. 1 \<le> k \<and> k < ip_lastId s \<and> k \<notin> fst ` set (ip_settled s) \<longrightarrow> k \<in> under_way s) \<and> (ip_draining s \<longrightarrow> ip_callbacks s \<noteq> [])"
proof -
  have ok: "ipc_ok s" by (rule ipc_reach_ok [OF assms])
  have "k \<in> under_way s" if "1 \<le> k" "k < ip_lastId s" "k \<notin> fst ` set (ip_settled s)" for k
  proof -
    have "k \<in> set (ip_callbacks s) \<union> fst ` set (ip_settled s)" using ok that by (simp add: ipc_ok_def)
    then show ?thesis using ok that(3) by (auto simp: ipc_ok_def)
  qed
  then show ?thesis using ok by (auto simp: ipc_ok_def)
qed

definition one_call :: ipc where
  "one_call = ipc_onMessage (Reply 1 (Inr ''ok'')) ((handler_answers 1 (Inr ''ok'') (handler_onMessage (\<lambda>_. True) 1 ''start'' ((snd (sendRequest None ''start'' new_ipc))\<lparr>ip_requests := []\<rparr>)))\<lparr>ip_messages := []\<rparr>)"

theorem calls_are_settled_once_witness:
  "ip_settled one_call = [(1, Inr ''ok'')] \<and> (1, Inr ''ok'') \<in> set (ip_answered one_call)"
proof -
  let ?s = "snd (sendRequest None ''start'' new_ipc)"
  let ?t = "handler_onMessage (\<lambda>_. True) 1 ''start'' (?s\<lparr>ip_requests := []\<rparr>)"
  have "ipc_reach (\<lambda>_. True) ?t"
    by (rule ipc_reach.received [OF ipc_reach.sent [OF ipc_reach.created]]) (simp add: sendRequest_def new_ipc_def Let_def)
  then have "ipc_reach (\<lambda>_. True) (handler_answers 1 (Inr ''ok'') ?t)"
    by (rule ipc_reach.answered) (simp add: handler_onMessage_def)
  then have "ipc_reach (\<lambda>_. True) one_call" unfolding one_call_def
    by (rule ipc_reach.delivered) (simp add: handler_answers_def handler_onMessage_def sendRequest_def new_ipc_def Let_def)
  moreover have "ip_settled one_call = [(1, Inr ''ok'')]"
    by (simp add: one_call_def ipc_onMessage_def handler_answers_def handler_onMessage_def sendRequest_def new_ipc_def Let_def)
  ultimately show ?thesis using calls_are_settled_once [of "\<lambda>_. True" one_call] by auto
qed

section \<open>Listeners for one event\<close>

definition registered_at :: "string \<Rightarrow> listener \<Rightarrow> dispatcher \<Rightarrow> bool" where
  "registered_at key l d \<longleftrightarrow> (\<exists>ls. map_get d key = Some ls \<and> l \<in> set ls)"

lemma forget_registered: "registered_at key w (snd (events_forget name (Some l) d)) \<Longrightarrow> registered_at key w d"
  by (auto simp: registered_at_def events_forget_def getListenersByEvent_def jsmap_simps split: if_splits option.splits)

lemma deliver_registered: "registered_at key w (snd (deliver name l d)) \<Longrightarrow> registered_at key w d"
  by (induction name l d rule: deliver.induct) (auto dest: forget_registered)

lemma deliver_all_registered: "registered_at key w (snd (deliver_all name ls d)) \<Longrightarrow> registered_at key w d"
proof (induction name ls d rule: deliver_all.induct)
  case (2 name l ls d)
  obtain called d1 where d1: "deliver name l d = (called, d1)" by fastforce
  have "registered_at key w d1" using 2 d1 by (auto split: prod.splits)
  then show ?case using deliver_registered [of key w name l d] d1 by simp
qed simp

lemma listen_get:
  "map_get (events_listen event l d) key = (if key = event then Some (listener_set_add l (case map_get d event of None \<Rightarrow> [] | Some ls \<Rightarrow> ls)) else map_get d key)"
  by (cases "map_get d event") (auto simp: events_listen_def getListenersByEvent_def jsmap_simps)

lemma once_removed: "name \<noteq> [] \<Longrightarrow> \<not> registered_at name (OnceListener k l) (snd (deliver name (OnceListener k l) d))"
proof
  assume n: "name \<noteq> []" and "registered_at name (OnceListener k l) (snd (deliver name (OnceListener k l) d))"
  then have "registered_at name (OnceListener k l) (snd (events_forget name (Some (OnceListener k l)) d))" by (auto dest: deliver_registered)
  then show False using n by (auto simp: registered_at_def events_forget_def getListenersByEvent_def jsmap_simps split: option.splits)
qed

lemma deliver_all_once:
  "OnceListener k (Listener i) \<in> set ls \<Longrightarrow> name \<noteq> [] \<Longrightarrow>
     i \<in> set (fst (deliver_all name ls d)) \<and> \<not> registered_at name (OnceListener k (Listener i)) (snd (deliver_all name ls d))"
proof (induction name ls d rule: deliver_all.induct)
  case (2 name l ls d)
  show ?case
  proof (cases "l = OnceListener k (Listener i)")
    case True
    have "\<not> registered_at name l (snd (deliver name l d))" unfolding True by (rule once_removed [OF 2(3)])
    then show ?thesis using True deliver_all_registered [of name l name ls] by (auto split: prod.splits)
  next
    case False
    then show ?thesis using 2 by (fastforce split: prod.splits)
  qed
qed simp

text \<open>A listener for one occurrence of an event is called by the next dispatch and registered nowhere afterwards, if the name of the event
  is not a pattern.\<close>

theorem once_listener_is_called_once:
  assumes exact: "\<And>keys. mm keys name = filter (\<lambda>key. key = name) keys" and name: "name \<noteq> []" "name \<noteq> ''*''"
    and fresh: "\<And>key. \<not> registered_at key (OnceListener k (Listener i)) d"
  shows "i \<in> set (fst (events_dispatch mm name (events_listenOnce k name (Listener i) d)))
    \<and> \<not> registered_at key (OnceListener k (Listener i)) (snd (events_dispatch mm name (events_listenOnce k name (Listener i) d)))"
proof -
  let ?w = "OnceListener k (Listener i)"
  let ?d = "events_listenOnce k name (Listener i) d"
  obtain ls where ls: "map_get ?d name = Some ls" "?w \<in> set ls"
    by (simp add: events_listenOnce_def listen_get) (simp add: listener_set_add_def)
  have only: "key = name" if "registered_at key ?w ?d" for key
    using that fresh [of key] by (auto simp: registered_at_def events_listenOnce_def listen_get split: if_splits)
  have "name \<in> set (map fst ?d)" using ls(1) by (auto dest!: map_get_in_set intro: rev_image_eqI)
  then have "?w \<in> set (getListenersByPattern mm name ?d)" using ls name(2) by (auto simp: getListenersByPattern_def exact)
  from deliver_all_once [OF this name(1), of ?d] show ?thesis using only deliver_all_registered [of key ?w name _ ?d] by (auto simp: events_dispatch_def)
qed

text \<open>A listener for one occurrence of any event takes itself out under the name of the event that came, where it is not registered: it is called for
  every event.\<close>

theorem once_listener_for_all_events_stays:
  assumes "\<forall>e \<in> set es. e \<noteq> ''*''"
  shows "fst (events_dispatchMany mm es (events_listenOnce k ''*'' (Listener i) [])) = replicate (length es) i"
proof -
  let ?w = "OnceListener k (Listener i)"
  define others_empty where "others_empty d \<longleftrightarrow> map_get d ''*'' = Some [?w] \<and> (\<forall>key ls. key \<noteq> ''*'' \<longrightarrow> map_get d key = Some ls \<longrightarrow> ls = [])" for d
  have step: "fst (events_dispatch mm e d) = [i] \<and> others_empty (snd (events_dispatch mm e d))" if "others_empty d" "e \<noteq> ''*''" for e d
  proof -
    have "getListenersByPattern mm e d = [?w]" using that(1)
      by (auto simp: getListenersByPattern_def others_empty_def concat_eq_Nil_conv split: option.splits)
    then have "events_dispatch mm e d = ([i], snd (events_forget e (Some ?w) d))" by (simp add: events_dispatch_def)
    moreover have "others_empty (snd (events_forget e (Some ?w) d))" using that
      by (auto simp: others_empty_def events_forget_def getListenersByEvent_def jsmap_simps split: option.splits if_splits)
    ultimately show ?thesis by simp
  qed
  have "fst (events_dispatchMany mm es d) = replicate (length es) i" if "others_empty d" for d
    using that assms
  proof (induction es arbitrary: d)
    case (Cons e es)
    obtain called d1 where d1: "events_dispatch mm e d = (called, d1)" by fastforce
    with step [OF Cons.prems(1), of e] Cons.prems(2) have "called = [i]" "others_empty d1" by auto
    with Cons.IH [of d1] Cons.prems(2) d1 show ?case by (auto split: prod.splits)
  qed simp
  moreover have "others_empty (events_listenOnce k ''*'' (Listener i) [])"
    by (simp add: others_empty_def events_listenOnce_def events_listen_def getListenersByEvent_def listener_set_add_def jsmap_simps)
  ultimately show ?thesis by blast
qed

theorem once_listener_is_called_once_witness:
  "5 \<in> set (fst (events_dispatch (\<lambda>keys n. filter (\<lambda>key. key = n) keys) ''block.applied'' (events_listenOnce 0 ''block.applied'' (Listener 5) [])))"
  using once_listener_is_called_once [of "\<lambda>keys n. filter (\<lambda>key. key = n) keys" "''block.applied''" 0 5 "[]"] by (simp add: registered_at_def)

theorem once_listener_for_all_events_stays_witness:
  "fst (events_dispatchMany (\<lambda>keys n. filter (\<lambda>key. key = n) keys) [''block.applied'', ''block.received''] (events_listenOnce 0 ''*'' (Listener 5) [])) = [5, 5]"
  using once_listener_for_all_events_stays [of "[''block.applied'', ''block.received'']" "\<lambda>keys n. filter (\<lambda>key. key = n) keys" 0 5] by simp

end
