(* ===== verification/Crypto_Workers.thy ===== *)
theory Crypto_Workers
  imports Kernel_Services
begin

text \<open>
  The threads for signatures and factories (\<open>packages/crypto-worker/source\<close>): the pool that spawns them, some at once and the rest in the background, that gives out the
  one with the fewest open requests, and that takes them all down (\<open>worker-pool.ts\<close>), and one worker with its orderly end (\<open>worker.ts\<close>), over the calls of \<open>Kernel_Services\<close>.

  Workers of a pool are numbered as they are spawned. The pool is a step relation cut at its awaits.
\<close>

section \<open>One worker\<close>

datatype dispose_phase = NotDisposing | Draining | Asked nat | Terminated

text \<open>\<open>wk_boot\<close> is the promise of the first \<open>boot\<close>: refused at once, or a request. \<open>wk_before\<close> notes the number of the next request when \<open>dispose\<close> was called; the code has no such field.\<close>

record crypto_worker =
  wk_ipc :: ipc
  wk_boot :: "(error + nat) option"
  wk_dispose :: dispose_phase
  wk_before :: nat

definition new_worker :: crypto_worker where
  "new_worker = \<lparr>wk_ipc = new_ipc, wk_boot = None, wk_dispose = NotDisposing, wk_before = 0\<rparr>"

definition worker_boot :: "crypto_worker \<Rightarrow> crypto_worker" where
  "worker_boot w =
     (case wk_boot w of
        Some _ \<Rightarrow> w
      | None \<Rightarrow> (case sendRequest None ''boot'' (wk_ipc w) of (r, s) \<Rightarrow> w\<lparr>wk_ipc := s, wk_boot := Some r\<rparr>))"

text \<open>\<open>consensusSignature\<close>, \<open>walletSignature\<close>, \<open>blockFactory\<close>, \<open>transactionFactory\<close>, \<open>publicKeyFactory\<close>: a request of that name.\<close>

definition worker_call :: "error option \<Rightarrow> string \<Rightarrow> crypto_worker \<Rightarrow> (error + nat) \<times> crypto_worker" where
  "worker_call cloned name w = (case sendRequest cloned name (wk_ipc w) of (r, s) \<Rightarrow> (r, w\<lparr>wk_ipc := s\<rparr>))"

definition worker_terminate :: "crypto_worker \<Rightarrow> crypto_worker" where
  "worker_terminate w = w\<lparr>wk_ipc := ipc_terminate (JsError ''Worker is being disposed'') (wk_ipc w), wk_dispose := Terminated\<rparr>"

definition ask_to_dispose :: "crypto_worker \<Rightarrow> crypto_worker" where
  "ask_to_dispose w =
     (case sendRequest None ''dispose'' (wk_ipc w) of
        (Inr k, s) \<Rightarrow> w\<lparr>wk_ipc := s, wk_dispose := Asked k\<rparr>
      | (Inl _, s) \<Rightarrow> worker_terminate (w\<lparr>wk_ipc := s\<rparr>))"

definition worker_dispose :: "crypto_worker \<Rightarrow> crypto_worker" where
  "worker_dispose w =
     (if wk_dispose w \<noteq> NotDisposing then w
      else let w1 = w\<lparr>wk_before := ip_lastId (wk_ipc w)\<rparr>
        in if ip_callbacks (wk_ipc w1) = [] then ask_to_dispose w1 else w1\<lparr>wk_ipc := ipc_drain (wk_ipc w1), wk_dispose := Draining\<rparr>)"

definition getQueueSize :: "crypto_worker \<Rightarrow> nat" where
  "getQueueSize w = length (ip_callbacks (wk_ipc w))"

definition isStopped :: "crypto_worker \<Rightarrow> bool" where
  "isStopped w = (ip_stopped (wk_ipc w) \<noteq> None)"

text \<open>The steps: calls, the calls between threads moving on, the drain that is over and the answer to the request to dispose.\<close>

inductive ipc_moves :: "(string \<Rightarrow> bool) \<Rightarrow> ipc \<Rightarrow> ipc \<Rightarrow> bool" for defined where
  moves_received: "ip_requests s = (k, request_method) # rest \<Longrightarrow> ipc_moves defined s (handler_onMessage defined k request_method (s\<lparr>ip_requests := rest\<rparr>))"
| moves_answered: "k \<in> set (ip_handling s) \<Longrightarrow> ipc_moves defined s (handler_answers k r s)"
| moves_delivered: "ip_messages s = m # rest \<Longrightarrow> ipc_moves defined s (ipc_onMessage m (s\<lparr>ip_messages := rest\<rparr>))"
| moves_garbled: "ip_messages s = m # rest \<Longrightarrow> ipc_moves defined s (rejectPending e (s\<lparr>ip_messages := rest\<rparr>))"
| moves_exited: "ipc_moves defined s (ipc_stop e s)"

inductive worker_reach :: "(string \<Rightarrow> bool) \<Rightarrow> crypto_worker \<Rightarrow> bool" for defined where
  worker_created: "worker_reach defined new_worker"
| worker_booted: "worker_reach defined w \<Longrightarrow> worker_reach defined (worker_boot w)"
| worker_called: "worker_reach defined w \<Longrightarrow> worker_reach defined (snd (worker_call cloned name w))"
| worker_moved: "worker_reach defined w \<Longrightarrow> ipc_moves defined (wk_ipc w) s \<Longrightarrow> worker_reach defined (w\<lparr>wk_ipc := s\<rparr>)"
| worker_disposed: "worker_reach defined w \<Longrightarrow> worker_reach defined (worker_dispose w)"
| worker_drained: "worker_reach defined w \<Longrightarrow> wk_dispose w = Draining \<Longrightarrow> \<not> ip_draining (wk_ipc w) \<Longrightarrow> worker_reach defined (ask_to_dispose w)"
| worker_ended: "worker_reach defined w \<Longrightarrow> wk_dispose w = Asked k \<Longrightarrow> k \<in> fst ` set (ip_settled (wk_ipc w)) \<Longrightarrow> worker_reach defined (worker_terminate w)"

section \<open>The pool of workers\<close>

datatype growth = NotGrown | Growing nat nat | Grown

text \<open>\<open>wo_pending\<close> are the workers of the first phase whose \<open>boot\<close> is not over, \<open>wo_left\<close> how many are to follow, as long as \<open>boot\<close> waits for the first phase;
  \<open>wo_waiting\<close> are the calls of \<open>dispose\<close> that wait for the background, \<open>wo_disposing\<close> the workers whose \<open>dispose\<close> was called. \<open>wo_spawned\<close> and \<open>wo_booted\<close> only observe.\<close>

record worker_pool =
  wo_workers :: "nat list"
  wo_allWorkers :: "nat list"
  wo_currentWorkerIndex :: nat
  wo_disposed :: bool
  wo_started :: bool
  wo_pending :: "nat list"
  wo_left :: "nat option"
  wo_growth :: growth
  wo_waiting :: nat
  wo_disposing :: "nat list"
  wo_spawned :: nat
  wo_booted :: "nat list"

definition new_worker_pool :: worker_pool where
  "new_worker_pool = \<lparr>wo_workers = [], wo_allWorkers = [], wo_currentWorkerIndex = 0, wo_disposed = False, wo_started = False, wo_pending = [], wo_left = None, wo_growth = NotGrown,
     wo_waiting = 0, wo_disposing = [], wo_spawned = 0, wo_booted = []\<rparr>"

definition EAGER_WORKER_COUNT :: nat where
  "EAGER_WORKER_COUNT = 2"

definition collect_workers :: "worker_pool \<Rightarrow> worker_pool" where
  "collect_workers p = p\<lparr>wo_disposing := wo_disposing p @ wo_allWorkers p, wo_allWorkers := [], wo_workers := []\<rparr>"

definition growth_over :: "worker_pool \<Rightarrow> worker_pool" where
  "growth_over p = (let p1 = p\<lparr>wo_growth := Grown, wo_waiting := 0\<rparr> in if wo_waiting p > 0 then collect_workers p1 else p1)"

text \<open>\<open>#growPool\<close> with \<open>count\<close> rounds left.\<close>

definition growPool :: "nat \<Rightarrow> worker_pool \<Rightarrow> worker_pool" where
  "growPool count p =
     (if count = 0 \<or> wo_disposed p then growth_over p
      else p\<lparr>wo_allWorkers := wo_allWorkers p @ [wo_spawned p], wo_growth := Growing (wo_spawned p) (count - 1), wo_spawned := wo_spawned p + 1\<rparr>)"

definition first_phase_over :: "nat \<Rightarrow> worker_pool \<Rightarrow> worker_pool" where
  "first_phase_over left p = (let p1 = p\<lparr>wo_left := None\<rparr> in if left > 0 \<and> \<not> wo_disposed p1 then growPool left p1 else p1)"

definition pool_boot :: "nat \<Rightarrow> worker_pool \<Rightarrow> worker_pool" where
  "pool_boot workerCount p =
     (let eagerCount = min EAGER_WORKER_COUNT workerCount; workers = [wo_spawned p..<wo_spawned p + eagerCount];
          p1 = p\<lparr>wo_started := True, wo_allWorkers := wo_allWorkers p @ workers, wo_pending := workers, wo_spawned := wo_spawned p + eagerCount, wo_left := Some (workerCount - eagerCount)\<rparr>
      in if eagerCount = 0 then first_phase_over (workerCount - eagerCount) p1 else p1)"

text \<open>The \<open>boot\<close> of a worker is over.\<close>

definition join_pool :: "nat \<Rightarrow> worker_pool \<Rightarrow> worker_pool" where
  "join_pool i p = p\<lparr>wo_booted := wo_booted p @ [i], wo_workers := (if wo_disposed p then wo_workers p else wo_workers p @ [i])\<rparr>"

definition eager_booted :: "nat \<Rightarrow> worker_pool \<Rightarrow> worker_pool" where
  "eager_booted i p =
     (let p1 = (join_pool i p)\<lparr>wo_pending := removeAll i (wo_pending p)\<rparr>
      in case wo_left p1 of Some left \<Rightarrow> if wo_pending p1 = [] then first_phase_over left p1 else p1 | None \<Rightarrow> p1)"

definition eager_failed :: "nat \<Rightarrow> worker_pool \<Rightarrow> worker_pool" where
  "eager_failed i p = p\<lparr>wo_pending := removeAll i (wo_pending p), wo_left := None\<rparr>"

definition pool_dispose :: "worker_pool \<Rightarrow> worker_pool" where
  "pool_dispose p =
     (let p1 = p\<lparr>wo_disposed := True\<rparr>
      in case wo_growth p1 of Growing _ _ \<Rightarrow> p1\<lparr>wo_waiting := wo_waiting p1 + 1\<rparr> | _ \<Rightarrow> collect_workers p1)"

text \<open>\<open>getWorker\<close>, for the workers that stopped and the open requests of each.\<close>

definition scan_step :: "nat list \<Rightarrow> (nat \<Rightarrow> nat) \<Rightarrow> nat \<Rightarrow> nat \<Rightarrow> nat \<times> nat \<Rightarrow> nat \<times> nat" where
  "scan_step workers queueSize current offset s =
     (case s of (selected, smallestQueueSize) \<Rightarrow>
        let worker = workers ! ((current + offset) mod length workers)
        in if queueSize worker < smallestQueueSize then (worker, queueSize worker) else (selected, smallestQueueSize))"

definition getWorker :: "(nat \<Rightarrow> bool) \<Rightarrow> (nat \<Rightarrow> nat) \<Rightarrow> worker_pool \<Rightarrow> (error + nat) \<times> worker_pool" where
  "getWorker stopped queueSize p =
     (let workers = filter (\<lambda>w. \<not> stopped w) (wo_workers p)
      in if workers = [] then (Inl (JsError ''No crypto workers available''), p)
         else let current = wo_currentWorkerIndex p mod length workers;
                  start = workers ! current;
                  selected = fst (fold (scan_step workers queueSize current) [1..<length workers] (start, queueSize start))
              in (Inr selected, p\<lparr>wo_currentWorkerIndex := (current + 1) mod length workers\<rparr>))"

inductive workers_reach :: "worker_pool \<Rightarrow> bool" where
  pool_created: "workers_reach new_worker_pool"
| pool_booted: "workers_reach p \<Longrightarrow> \<not> wo_started p \<Longrightarrow> \<not> wo_disposed p \<Longrightarrow> workers_reach (pool_boot workerCount p)"
| pool_eager: "workers_reach p \<Longrightarrow> i \<in> set (wo_pending p) \<Longrightarrow> workers_reach (eager_booted i p)"
| pool_failed: "workers_reach p \<Longrightarrow> i \<in> set (wo_pending p) \<Longrightarrow> workers_reach (eager_failed i p)"
| pool_grown: "workers_reach p \<Longrightarrow> wo_growth p = Growing i count \<Longrightarrow> workers_reach (growPool count (join_pool i p))"
| pool_not_grown: "workers_reach p \<Longrightarrow> wo_growth p = Growing i count \<Longrightarrow> workers_reach (growPool count p)"
| pool_given: "workers_reach p \<Longrightarrow> workers_reach (snd (getWorker stopped queueSize p))"
| pool_disposed: "workers_reach p \<Longrightarrow> workers_reach (pool_dispose p)"

section \<open>The end of a worker\<close>

abbreviation settled_ids :: "ipc \<Rightarrow> nat set" where
  "settled_ids s \<equiv> fst ` set (ip_settled s)"

lemma all_settled: "ipc_ok s \<Longrightarrow> ip_callbacks s = [] \<Longrightarrow> settled_ids s = {1..<ip_lastId s}"
  by (simp add: ipc_ok_def)

text \<open>What moves of calls keep: what is settled stays settled, and waiting for the drain ends only when nothing is open.\<close>

definition ipc_grows :: "ipc \<Rightarrow> ipc \<Rightarrow> bool" where
  "ipc_grows s s' \<longleftrightarrow> settled_ids s \<subseteq> settled_ids s' \<and> ip_lastId s \<le> ip_lastId s' \<and> (ip_draining s \<and> \<not> ip_draining s' \<longrightarrow> ip_callbacks s' = [])"

lemma settle_grows: "ipc_grows s (settle k r s)"
  by (auto simp: ipc_grows_def)

lemma moves_grow: "ipc_moves defined s s' \<Longrightarrow> ipc_grows s s'"
proof (induction rule: ipc_moves.induct)
  case (moves_delivered s m rest)
  then show ?case by (cases m) (auto simp: ipc_onMessage_def ipc_grows_def)
qed (auto simp: ipc_grows_def handler_onMessage_def handler_answers_def ipc_stop_def Let_def)

lemma send_grows: "ipc_grows s (snd (sendRequest cloned name s))"
  by (auto simp: sendRequest_def ipc_grows_def Let_def split: option.splits)

lemma worker_ipc: "worker_reach defined w \<Longrightarrow> ipc_reach defined (wk_ipc w)"
proof (induction rule: worker_reach.induct)
  case worker_created
  then show ?case by (simp add: new_worker_def ipc_reach.created)
next
  case (worker_booted w)
  then show ?case using ipc_reach.sent [OF worker_booted.IH, of None "''boot''"] by (auto simp: worker_boot_def split: option.splits prod.splits)
next
  case (worker_called w cloned name)
  then show ?case using ipc_reach.sent [OF worker_called.IH, of cloned name] by (auto simp: worker_call_def split: prod.splits)
next
  case (worker_moved w s)
  from worker_moved(2) show ?case
    by (cases rule: ipc_moves.cases) (auto intro: ipc_reach.intros worker_moved.IH)
next
  case (worker_disposed w)
  then show ?case using ipc_reach.sent [OF worker_disposed.IH, of None "''dispose''"] ipc_reach.drained [OF worker_disposed.IH]
    by (auto simp: worker_dispose_def ask_to_dispose_def worker_terminate_def Let_def ipc_reach.terminated split: prod.splits sum.splits)
next
  case (worker_drained w)
  then show ?case using ipc_reach.sent [OF worker_drained.IH, of None "''dispose''"]
    by (auto simp: ask_to_dispose_def worker_terminate_def ipc_reach.terminated split: prod.splits sum.splits)
next
  case (worker_ended w k)
  then show ?case by (simp add: worker_terminate_def ipc_reach.terminated)
qed

definition worker_ok :: "crypto_worker \<Rightarrow> bool" where
  "worker_ok w \<longleftrightarrow> wk_before w \<le> ip_lastId (wk_ipc w)
     \<and> (wk_dispose w \<noteq> NotDisposing \<and> \<not> (wk_dispose w = Draining \<and> ip_draining (wk_ipc w)) \<longrightarrow> {1..<wk_before w} \<subseteq> settled_ids (wk_ipc w))
     \<and> (wk_dispose w = Terminated \<longrightarrow> ip_stopped (wk_ipc w) \<noteq> None)"

lemma worker_ok_boot [simp]: "worker_ok (w\<lparr>wk_boot := b\<rparr>) = worker_ok w"
  by (simp add: worker_ok_def)

lemma worker_ok_grows:
  assumes "worker_ok w" and "ipc_ok s" and "ipc_grows (wk_ipc w) s" and "ip_stopped (wk_ipc w) \<noteq> None \<Longrightarrow> ip_stopped s \<noteq> None"
  shows "worker_ok (w\<lparr>wk_ipc := s\<rparr>)"
proof -
  have grows: "settled_ids (wk_ipc w) \<subseteq> settled_ids s" "ip_lastId (wk_ipc w) \<le> ip_lastId s" "ip_draining (wk_ipc w) \<Longrightarrow> \<not> ip_draining s \<Longrightarrow> ip_callbacks s = []"
    using assms(3) unfolding ipc_grows_def by blast+
  have before: "wk_before w \<le> ip_lastId s" using assms(1) grows(2) by (simp add: worker_ok_def)
  have "{1..<wk_before w} \<subseteq> settled_ids s" if "wk_dispose w \<noteq> NotDisposing" "\<not> (wk_dispose w = Draining \<and> ip_draining s)"
  proof (cases "wk_dispose w = Draining \<and> ip_draining (wk_ipc w)")
    case True
    then have "settled_ids s = {1..<ip_lastId s}" using that(2) grows(3) all_settled [OF assms(2)] by blast
    then show ?thesis using before by auto
  next
    case False
    then have "{1..<wk_before w} \<subseteq> settled_ids (wk_ipc w)" using assms(1) that(1) unfolding worker_ok_def by blast
    then show ?thesis using grows(1) by (rule order_trans)
  qed
  moreover have "wk_dispose w = Terminated \<Longrightarrow> ip_stopped s \<noteq> None" using assms(1,4) unfolding worker_ok_def by blast
  ultimately show ?thesis using before unfolding worker_ok_def by simp
qed

lemma moves_stopped: "ipc_moves defined s s' \<Longrightarrow> ip_stopped s \<noteq> None \<Longrightarrow> ip_stopped s' \<noteq> None"
  by (induction rule: ipc_moves.induct)
    (auto simp: handler_onMessage_def handler_answers_def ipc_onMessage_def settle_def rejectPending_def notifyDrained_def ipc_stop_def Let_def split: ipc_message.splits)

lemma send_stopped: "ip_stopped (snd (sendRequest cloned name s)) = ip_stopped s"
  by (auto simp: sendRequest_def settle_def notifyDrained_def Let_def split: option.splits)

lemma ask_ok:
  assumes "worker_ok w" and "ipc_ok (wk_ipc w)" and "{1..<wk_before w} \<subseteq> settled_ids (wk_ipc w)"
  shows "worker_ok (ask_to_dispose w)"
proof -
  obtain r s where rs: "sendRequest None ''dispose'' (wk_ipc w) = (r, s)" by fastforce
  have g: "settled_ids (wk_ipc w) \<subseteq> settled_ids s" "ip_lastId (wk_ipc w) \<le> ip_lastId s"
    using send_grows [of "wk_ipc w" None "''dispose''"] rs by (simp_all add: ipc_grows_def)
  have "wk_before w \<le> ip_lastId s" "{1..<wk_before w} \<subseteq> settled_ids s" using assms(1,3) g by (auto simp: worker_ok_def)
  then show ?thesis by (cases r) (auto simp: ask_to_dispose_def rs worker_terminate_def ipc_terminate_def worker_ok_def split: option.splits)
qed

lemma worker_reach_ok: "worker_reach defined w \<Longrightarrow> worker_ok w"
proof (induction rule: worker_reach.induct)
  case worker_created
  then show ?case by (simp add: worker_ok_def new_worker_def)
next
  case (worker_booted w)
  have "ipc_ok (snd (sendRequest None ''boot'' (wk_ipc w)))" by (rule sent_ok [OF ipc_reach_ok [OF worker_ipc [OF worker_booted(1)]]])
  then have "worker_ok (w\<lparr>wk_ipc := snd (sendRequest None ''boot'' (wk_ipc w))\<rparr>)" by (rule worker_ok_grows [OF worker_booted.IH _ send_grows]) (simp add: send_stopped)
  then show ?case using worker_booted.IH by (cases "wk_boot w"; cases "sendRequest None ''boot'' (wk_ipc w)") (simp_all add: worker_boot_def)
next
  case (worker_called w cloned name)
  have "ipc_ok (snd (sendRequest cloned name (wk_ipc w)))" by (rule sent_ok [OF ipc_reach_ok [OF worker_ipc [OF worker_called(1)]]])
  then have "worker_ok (w\<lparr>wk_ipc := snd (sendRequest cloned name (wk_ipc w))\<rparr>)" by (rule worker_ok_grows [OF worker_called.IH _ send_grows]) (simp add: send_stopped)
  then show ?case by (cases "sendRequest cloned name (wk_ipc w)") (simp add: worker_call_def)
next
  case (worker_moved w s)
  have "ipc_ok s" using ipc_reach_ok [OF worker_ipc [OF worker_reach.worker_moved [OF worker_moved(1,2)]]] by simp
  then show ?case by (rule worker_ok_grows [OF worker_moved.IH _ moves_grow [OF worker_moved(2)]]) (rule moves_stopped [OF worker_moved(2)])
next
  case (worker_disposed w)
  note ok = ipc_reach_ok [OF worker_ipc [OF worker_disposed(1)]]
  show ?case
  proof (cases "wk_dispose w = NotDisposing \<and> ip_callbacks (wk_ipc w) = []")
    case True
    let ?w = "w\<lparr>wk_before := ip_lastId (wk_ipc w)\<rparr>"
    have "worker_ok (ask_to_dispose ?w)" by (rule ask_ok) (use True ok all_settled [OF ok] in \<open>auto simp: worker_ok_def\<close>)
    then show ?thesis using True by (simp add: worker_dispose_def)
  next
    case False
    then show ?thesis using worker_disposed.IH by (auto simp: worker_dispose_def Let_def worker_ok_def ipc_drain_def)
  qed
next
  case (worker_drained w)
  then have "{1..<wk_before w} \<subseteq> settled_ids (wk_ipc w)" unfolding worker_ok_def by simp
  then show ?case by (rule ask_ok [OF worker_drained.IH ipc_reach_ok [OF worker_ipc [OF worker_drained(1)]]])
next
  case (worker_ended w k)
  then show ?case by (auto simp: worker_ok_def worker_terminate_def ipc_terminate_def split: option.splits)
qed

text \<open>A worker is taken down only after every request that was made before \<open>dispose\<close> is settled.\<close>

lemma worker_end_is_orderly:
  "worker_reach defined w \<Longrightarrow> wk_dispose w = Terminated \<Longrightarrow> {1..<wk_before w} \<subseteq> settled_ids (wk_ipc w) \<and> isStopped w"
  using worker_reach_ok [of defined w] unfolding worker_ok_def isStopped_def by simp

section \<open>The pool keeps its workers\<close>

definition workers_ok :: "worker_pool \<Rightarrow> bool" where
  "workers_ok p \<longleftrightarrow> set (wo_allWorkers p) \<union> set (wo_disposing p) = {..<wo_spawned p} \<and> set (wo_workers p) \<subseteq> set (wo_allWorkers p) \<inter> set (wo_booted p)
     \<and> (wo_disposed p \<and> wo_waiting p = 0 \<longrightarrow> wo_allWorkers p = [] \<and> (\<forall>i n. wo_growth p \<noteq> Growing i n))
     \<and> (0 < wo_waiting p \<longrightarrow> wo_disposed p \<and> (\<exists>i n. wo_growth p = Growing i n)) \<and> (\<not> wo_disposed p \<longrightarrow> wo_disposing p = [])
     \<and> (wo_growth p \<noteq> NotGrown \<longrightarrow> wo_left p = None) \<and> (\<forall>i n. wo_growth p = Growing i n \<and> \<not> wo_disposed p \<longrightarrow> i \<in> set (wo_allWorkers p))
     \<and> (\<not> wo_started p \<longrightarrow> wo_left p = None \<and> wo_growth p = NotGrown \<and> wo_pending p = []) \<and> (\<not> wo_disposed p \<longrightarrow> set (wo_pending p) \<subseteq> set (wo_allWorkers p))"

lemma spawn_set: "insert n {..<n} = {..<Suc n}" for n :: nat
  by auto

lemma getWorker_frame: "\<exists>index. snd (getWorker stopped queueSize p) = p\<lparr>wo_currentWorkerIndex := index\<rparr>"
  by (auto simp: getWorker_def Let_def intro: exI [of _ "wo_currentWorkerIndex p"])

lemma workers_ok_index [simp]: "workers_ok (p\<lparr>wo_currentWorkerIndex := index\<rparr>) = workers_ok p"
  by (simp add: workers_ok_def)

lemmas pool_steps = growth_over_def growPool_def first_phase_over_def join_pool_def collect_workers_def Let_def

lemma growPool_ok:
  assumes "workers_ok p" and "wo_growth p = Growing i n \<or> wo_growth p = NotGrown \<and> \<not> wo_disposed p" and "wo_left p = None" and "wo_started p"
  shows "workers_ok (growPool count p)"
proof (cases "count = 0 \<or> wo_disposed p")
  case True
  then show ?thesis using assms by (cases "wo_waiting p") (auto simp: workers_ok_def pool_steps)
next
  case False
  then show ?thesis using assms unfolding workers_ok_def by (auto simp: growPool_def)
qed

lemma join_ok:
  assumes "workers_ok p" and "\<not> wo_disposed p \<Longrightarrow> i \<in> set (wo_allWorkers p)"
  shows "workers_ok (join_pool i p)"
  using assms unfolding workers_ok_def by (auto simp: join_pool_def)

lemma first_phase_ok: "workers_ok p \<Longrightarrow> wo_growth p = NotGrown \<Longrightarrow> wo_started p \<Longrightarrow> workers_ok (first_phase_over left p)"
  using growPool_ok [of "p\<lparr>wo_left := None\<rparr>"] by (auto simp: first_phase_over_def Let_def workers_ok_def)

lemma workers_reach_ok: "workers_reach p \<Longrightarrow> workers_ok p"
proof (induction rule: workers_reach.induct)
  case pool_created
  then show ?case by (simp add: workers_ok_def new_worker_pool_def lessThan_empty_iff)
next
  case (pool_booted p workerCount)
  let ?k = "min EAGER_WORKER_COUNT workerCount" and ?n = "wo_spawned p"
  let ?p = "p\<lparr>wo_started := True, wo_allWorkers := wo_allWorkers p @ [?n..<?n + ?k], wo_pending := [?n..<?n + ?k], wo_spawned := ?n + ?k, wo_left := Some (workerCount - ?k)\<rparr>"
  have "{..<?n} \<union> {?n..<?n + ?k} = {..<?n + ?k}" by auto
  moreover have "wo_growth p = NotGrown" "set (wo_allWorkers p) = {..<?n}" using pool_booted unfolding workers_ok_def by auto
  ultimately have ok: "workers_ok ?p" using pool_booted unfolding workers_ok_def by auto
  have "wo_growth ?p = NotGrown" using pool_booted by (simp add: workers_ok_def)
  then have "workers_ok (first_phase_over (workerCount - ?k) ?p)" by (intro first_phase_ok [OF ok]) simp_all
  with ok show ?case unfolding pool_boot_def Let_def by (intro if_split [of workers_ok, THEN iffD2] conjI impI)
next
  case (pool_given p stopped queueSize)
  obtain index where "snd (getWorker stopped queueSize p) = p\<lparr>wo_currentWorkerIndex := index\<rparr>" using getWorker_frame by blast
  then show ?case using pool_given.IH by simp
next
  case (pool_disposed p)
  then show ?case by (cases "wo_growth p") (auto simp: pool_dispose_def collect_workers_def workers_ok_def)
next
  case (pool_grown p i count)
  have "workers_ok (join_pool i p)" by (rule join_ok [OF pool_grown.IH]) (use pool_grown in \<open>simp add: workers_ok_def\<close>)
  then show ?case by (rule growPool_ok) (use pool_grown in \<open>auto simp: join_pool_def workers_ok_def\<close>)
next
  case (pool_not_grown p i count)
  show ?case by (rule growPool_ok [OF pool_not_grown.IH]) (use pool_not_grown in \<open>auto simp: workers_ok_def\<close>)
next
  case (pool_eager p i)
  let ?p = "(join_pool i p)\<lparr>wo_pending := removeAll i (wo_pending p)\<rparr>"
  have "workers_ok (join_pool i p)" by (rule join_ok [OF pool_eager.IH]) (use pool_eager in \<open>auto simp: workers_ok_def\<close>)
  then have ok: "workers_ok ?p" unfolding workers_ok_def by (auto simp: join_pool_def)
  show ?case
  proof (cases "wo_left ?p")
    case (Some left)
    then have "wo_started ?p" "wo_growth ?p = NotGrown" using ok by (auto simp: workers_ok_def)
    then have "workers_ok (first_phase_over left ?p)" by (intro first_phase_ok [OF ok])
    then show ?thesis using ok Some by (simp only: eager_booted_def Let_def option.case) (intro if_split [of workers_ok, THEN iffD2] conjI impI)
  qed (use ok in \<open>simp add: eager_booted_def Let_def\<close>)
next
  case (pool_failed p i)
  then show ?case by (auto simp: eager_failed_def workers_ok_def)
qed

section \<open>The choice of a worker\<close>

text \<open>The scan keeps a worker with the smallest queue among those it has seen.\<close>

lemma scan_smallest:
  assumes "n \<le> length ws" and "0 < n"
  shows "\<exists>j < n. fold (scan_step ws q c) [1..<n] (ws ! (c mod length ws), q (ws ! (c mod length ws))) = (ws ! ((c + j) mod length ws), q (ws ! ((c + j) mod length ws)))
    \<and> (\<forall>i < n. q (ws ! ((c + j) mod length ws)) \<le> q (ws ! ((c + i) mod length ws))) \<and> (\<forall>i < j. q (ws ! ((c + j) mod length ws)) < q (ws ! ((c + i) mod length ws)))"
  using assms
proof (induction n)
  case (Suc n)
  show ?case
  proof (cases "n = 0")
    case False
    let ?w = "\<lambda>i. ws ! ((c + i) mod length ws)"
    obtain j where j: "j < n" "fold (scan_step ws q c) [1..<n] (ws ! (c mod length ws), q (ws ! (c mod length ws))) = (?w j, q (?w j))"
      "\<forall>i < n. q (?w j) \<le> q (?w i)" "\<forall>i < j. q (?w j) < q (?w i)" using Suc False by auto
    have step: "fold (scan_step ws q c) [1..<Suc n] (ws ! (c mod length ws), q (ws ! (c mod length ws))) = scan_step ws q c n (?w j, q (?w j))"
      using j(2) False by simp
    show ?thesis
    proof (cases "q (?w n) < q (?w j)")
      case True
      then have "\<forall>i < n. q (?w n) < q (?w i)" using j(3) by (auto intro: less_le_trans)
      then show ?thesis unfolding step by (intro exI [of _ n]) (use True in \<open>auto simp: scan_step_def Let_def less_Suc_eq less_imp_le\<close>)
    next
      case False
      then show ?thesis unfolding step by (intro exI [of _ j]) (use j in \<open>auto simp: scan_step_def Let_def less_Suc_eq\<close>)
    qed
  qed simp
qed simp

lemma rotated_covers: "ws \<noteq> [] \<Longrightarrow> v \<in> set ws \<Longrightarrow> \<exists>i < length ws. v = ws ! ((c + i) mod length ws)"
proof -
  assume "ws \<noteq> []" "v \<in> set ws"
  then obtain k where k: "k < length ws" "v = ws ! k" by (auto simp: in_set_conv_nth)
  let ?i = "(k + length ws - c mod length ws) mod length ws"
  have "(c + ?i) mod length ws = (c mod length ws + (k + length ws - c mod length ws)) mod length ws" by (simp add: mod_simps)
  also have "c mod length ws + (k + length ws - c mod length ws) = k + length ws" using k(1) by (metis add.commute le_add_diff_inverse less_or_eq_imp_le mod_less_divisor not_less_zero gr0I trans_le_add2)
  finally have "(c + ?i) mod length ws = k" using k(1) by simp
  then show ?thesis using k by (intro exI [of _ ?i]) (auto intro: mod_less_divisor)
qed

lemma getWorker_result:
  assumes "getWorker stopped q p = (Inr w, p')"
  defines "ws \<equiv> filter (\<lambda>w. \<not> stopped w) (wo_workers p)" and "c \<equiv> wo_currentWorkerIndex p"
  obtains j where "j < length ws" "w = ws ! ((c + j) mod length ws)" "\<forall>v \<in> set ws. q w \<le> q v" "\<forall>i < j. q w < q (ws ! ((c + i) mod length ws))"
    "wo_currentWorkerIndex p' = (c + 1) mod length ws"
proof -
  have ne: "ws \<noteq> []" using assms(1) by (auto simp: getWorker_def ws_def Let_def)
  have res: "w = fst (fold (scan_step ws q (c mod length ws)) [1..<length ws] (ws ! (c mod length ws), q (ws ! (c mod length ws))))"
    "wo_currentWorkerIndex p' = (c mod length ws + 1) mod length ws"
    using assms(1) ne unfolding getWorker_def ws_def [symmetric] Let_def c_def by auto
  obtain j where j: "j < length ws" "w = ws ! ((c mod length ws + j) mod length ws)" "\<forall>i < length ws. q w \<le> q (ws ! ((c mod length ws + i) mod length ws))"
    "\<forall>i < j. q w < q (ws ! ((c mod length ws + i) mod length ws))"
    using scan_smallest [of "length ws" ws q "c mod length ws"] ne res(1) by auto
  show thesis
  proof (rule that [OF j(1)])
    show "\<forall>v \<in> set ws. q w \<le> q v" using j(3) rotated_covers [OF ne, of _ "c mod length ws"] by metis
  qed (use j res(2) in \<open>simp_all add: mod_simps\<close>)
qed

text \<open>When all have the same number of open requests, they are given out in turn.\<close>

fun give_workers :: "(nat \<Rightarrow> bool) \<Rightarrow> (nat \<Rightarrow> nat) \<Rightarrow> nat \<Rightarrow> worker_pool \<Rightarrow> nat list" where
  "give_workers stopped q 0 p = []"
| "give_workers stopped q (Suc n) p = (case getWorker stopped q p of (Inr w, p') \<Rightarrow> w # give_workers stopped q n p' | (Inl _, _) \<Rightarrow> [])"

lemma idle_workers_in_turn:
  assumes "filter (\<lambda>w. \<not> stopped w) (wo_workers p) = ws" and "ws \<noteq> []" and "\<forall>v \<in> set ws. q v = open_requests"
  shows "give_workers stopped q n p = map (\<lambda>i. ws ! ((wo_currentWorkerIndex p + i) mod length ws)) [0..<n]"
  using assms(1)
proof (induction n arbitrary: p)
  case (Suc n)
  obtain w p' where w: "getWorker stopped q p = (Inr w, p')" using Suc.prems assms(2) by (auto simp: getWorker_def Let_def)
  have "p' = snd (getWorker stopped q p)" using w by simp
  then have same: "filter (\<lambda>w. \<not> stopped w) (wo_workers p') = ws" using getWorker_frame [of stopped q p] Suc.prems by auto
  obtain j where j: "j < length ws" "w = ws ! ((wo_currentWorkerIndex p + j) mod length ws)" "\<forall>i < j. q w < q (ws ! ((wo_currentWorkerIndex p + i) mod length ws))"
    "wo_currentWorkerIndex p' = (wo_currentWorkerIndex p + 1) mod length ws" using getWorker_result [OF w] Suc.prems by metis
  have same_size: "q (ws ! (i mod length ws)) = open_requests" for i using assms(2,3) by simp
  have "j = 0" using j(3) same_size unfolding j(2) by (cases j) auto
  moreover have "map (\<lambda>i. ws ! ((wo_currentWorkerIndex p' + i) mod length ws)) [0..<n] = map (\<lambda>i. ws ! ((wo_currentWorkerIndex p + i) mod length ws)) [1..<Suc n]"
    unfolding j(4) by (auto simp: mod_simps map_Suc_upt [symmetric] simp del: upt_Suc)
  ultimately show ?case using Suc.IH [OF same] w j(2) by (simp add: upt_conv_Cons del: upt_Suc)
qed simp

text \<open>Workers that are given out were booted, run, and have the fewest open requests.
  Once \<open>dispose\<close> of the pool does not wait any more, no worker is given out and every worker ever spawned, in the background too, is being disposed.\<close>

theorem crypto_workers_are_kept:
  assumes "workers_reach p"
  shows "(\<forall>w p'. getWorker stopped q p = (Inr w, p') \<longrightarrow> w \<in> set (wo_booted p) \<and> \<not> stopped w \<and> (\<forall>v \<in> set (wo_workers p). \<not> stopped v \<longrightarrow> q w \<le> q v))
    \<and> (wo_disposed p \<and> wo_waiting p = 0 \<longrightarrow> set (wo_disposing p) = {..<wo_spawned p} \<and> (\<forall>stopped q. \<exists>err. getWorker stopped q p = (Inl err, p)))"
proof -
  note ok = workers_reach_ok [OF assms, unfolded workers_ok_def]
  let ?ws = "filter (\<lambda>w. \<not> stopped w) (wo_workers p)"
  have "w \<in> set (wo_booted p) \<and> \<not> stopped w \<and> (\<forall>v \<in> set (wo_workers p). \<not> stopped v \<longrightarrow> q w \<le> q v)" if got: "getWorker stopped q p = (Inr w, p')" for w p'
  proof -
    obtain j where j: "j < length ?ws" "w = ?ws ! ((wo_currentWorkerIndex p + j) mod length ?ws)" "\<forall>v \<in> set ?ws. q w \<le> q v" by (rule getWorker_result [OF got])
    have "(wo_currentWorkerIndex p + j) mod length ?ws < length ?ws" using j(1) by (intro mod_less_divisor) linarith
    then have "w \<in> set ?ws" unfolding j(2) by (rule nth_mem)
    then show ?thesis using ok j(3) by auto
  qed
  moreover have "set (wo_disposing p) = {..<wo_spawned p}" "\<exists>err. getWorker stopped q p = (Inl err, p)" if "wo_disposed p" "wo_waiting p = 0" for stopped q
    using ok that by (auto simp: getWorker_def)
  ultimately show ?thesis by blast
qed

text \<open>Three workers are asked for; the pool is disposed while the third boots in the background.\<close>

definition disposed_pool :: worker_pool where
  "disposed_pool = growPool 0 (join_pool 2 (pool_dispose (eager_booted 1 (eager_booted 0 (pool_boot 3 new_worker_pool)))))"

lemma disposed_pool_reached: "workers_reach disposed_pool"
proof -
  have "workers_reach (eager_booted 0 (pool_boot 3 new_worker_pool))"
    by (intro workers_reach.intros) (simp_all add: new_worker_pool_def pool_boot_def EAGER_WORKER_COUNT_def Let_def)
  then have "workers_reach (eager_booted 1 (eager_booted 0 (pool_boot 3 new_worker_pool)))"
    by (rule workers_reach.pool_eager) (simp add: new_worker_pool_def pool_boot_def EAGER_WORKER_COUNT_def eager_booted_def pool_steps upt_rec)
  then show ?thesis unfolding disposed_pool_def
    by (rule workers_reach.pool_grown [OF workers_reach.pool_disposed]) (simp add: new_worker_pool_def pool_boot_def EAGER_WORKER_COUNT_def eager_booted_def pool_dispose_def pool_steps upt_rec)
qed

theorem crypto_workers_are_kept_witness:
  "wo_spawned disposed_pool = 3 \<and> set (wo_disposing disposed_pool) = {..<3} \<and> (\<exists>err. getWorker (\<lambda>_. False) (\<lambda>_. 0) disposed_pool = (Inl err, disposed_pool))"
proof -
  have "wo_spawned disposed_pool = 3" "wo_disposed disposed_pool" "wo_waiting disposed_pool = 0"
    by (simp_all add: disposed_pool_def new_worker_pool_def pool_boot_def EAGER_WORKER_COUNT_def eager_booted_def pool_dispose_def pool_steps upt_rec)
  then show ?thesis using crypto_workers_are_kept [OF disposed_pool_reached] by metis
qed

end
