(* ===== verification/Nes_Protocol.thy ===== *)
theory Nes_Protocol
  imports Byte_Buffer
begin

text \<open>
  The protocol peers speak over a web socket (\<open>p2p/source/hapi-nes\<close>): the frames (\<open>utilities.ts\<close>), the client that sends requests and waits for
  their answers (\<open>client.ts\<close>) and the socket of the server (\<open>socket.ts\<close>).

  A frame is a header of 14 bytes, a path, a socket id and a payload. Strings are kept as their UTF-8 bytes, the version as the number its
  digits write. The web socket itself, reconnection (which the node never asks for) and heartbeats are left out; the answer of the web server to an
  injected request is a parameter.
\<close>

section \<open>Frames\<close>

datatype nes_type = Nes_hello | Nes_ping | Nes_update | Nes_request | Nes_undefined

record nes_message =
  nes_type :: "nes_type option"
  nes_id :: "nat option"
  nes_path :: "bytes option"
  nes_payload :: "bytes option"
  nes_statusCode :: "nat option"
  nes_version :: "nat option"
  nes_socket :: "bytes option"
  nes_heartbeat :: "(nat \<times> nat) option"

definition mapTypeIntToString :: "nat \<Rightarrow> nes_type option" where
  "mapTypeIntToString n =
     (if n = 0 then Some Nes_hello else if n = 1 then Some Nes_ping else if n = 2 then Some Nes_update else if n = 3 then Some Nes_request
      else if n = 9 then Some Nes_undefined else None)"

fun mapTypeStringToInt :: "nes_type \<Rightarrow> nat" where
  "mapTypeStringToInt Nes_hello = 0"
| "mapTypeStringToInt Nes_ping = 1"
| "mapTypeStringToInt Nes_request = 3"
| "mapTypeStringToInt Nes_undefined = 9"
| "mapTypeStringToInt Nes_update = 2"

definition HEADER_BYTE_LENGTH :: nat where
  "HEADER_BYTE_LENGTH = 14"

definition MAX_PATH_LENGTH :: nat where
  "MAX_PATH_LENGTH = 100"

definition MAX_SOCKET_LENGTH :: nat where
  "MAX_SOCKET_LENGTH = 100"

definition part :: "nat \<Rightarrow> nat \<Rightarrow> bytes \<Rightarrow> bytes" where
  "part start n bs = take n (drop start bs)"

definition parseNesMessage :: "bytes \<Rightarrow> error + nes_message" where
  "parseNesMessage buf =
     (if length buf < HEADER_BYTE_LENGTH then Inl (JsError ''Nes message is below minimum length'')
      else case mapTypeIntToString (be_value (part 1 1 buf)) of
        None \<Rightarrow> Inl (JsError ''Type is invalid'')
      | Some t \<Rightarrow>
          (let pathLength = be_value (part 8 1 buf); socketLength = be_value (part 9 1 buf)
           in if pathLength > MAX_PATH_LENGTH \<or> length buf < HEADER_BYTE_LENGTH + pathLength then Inl (JsError ''Invalid path length'')
              else if socketLength > MAX_SOCKET_LENGTH \<or> length buf < HEADER_BYTE_LENGTH + pathLength + socketLength then Inl (JsError ''Invalid socket length'')
              else Inr \<lparr>nes_type = Some t, nes_id = Some (be_value (part 2 4 buf)), nes_path = Some (part HEADER_BYTE_LENGTH pathLength buf),
                nes_payload = Some (drop (HEADER_BYTE_LENGTH + pathLength + socketLength) buf), nes_statusCode = Some (be_value (part 6 2 buf)),
                nes_version = Some (be_value (part 0 1 buf)), nes_socket = Some (part (HEADER_BYTE_LENGTH + pathLength) socketLength buf),
                nes_heartbeat = Some (be_value (part 10 2 buf), be_value (part 12 2 buf))\<rparr>))"

text \<open>The write methods of Node's \<open>Buffer\<close> throw when the value does not fit; \<open>x || y\<close> takes \<open>y\<close> for an absent value and for 0.\<close>

definition write_be :: "nat \<Rightarrow> nat \<Rightarrow> error + bytes" where
  "write_be n v = (if v < 256 ^ n then Inr (be_bytes n v) else Inl (RangeError ''out of range''))"

definition or_else :: "nat option \<Rightarrow> nat \<Rightarrow> nat" where
  "or_else v d = (case v of None \<Rightarrow> d | Some n \<Rightarrow> if n = 0 then d else n)"

definition stringifyNesMessage :: "nes_message \<Rightarrow> error + bytes" where
  "stringifyNesMessage m =
     (let pathBuf = (case nes_path m of None \<Rightarrow> [] | Some p \<Rightarrow> p); socketBuf = (case nes_socket m of None \<Rightarrow> [] | Some p \<Rightarrow> p);
          payloadBuf = (case nes_payload m of None \<Rightarrow> [] | Some p \<Rightarrow> p)
      in sum_bind (write_be 1 (or_else (nes_version m) 0)) (\<lambda>version.
         sum_bind (write_be 1 (mapTypeStringToInt (case nes_type m of None \<Rightarrow> Nes_undefined | Some t \<Rightarrow> t))) (\<lambda>type.
         sum_bind (write_be 4 (or_else (nes_id m) 1)) (\<lambda>id.
         sum_bind (write_be 2 (or_else (nes_statusCode m) 200)) (\<lambda>status.
         sum_bind (write_be 1 (length pathBuf)) (\<lambda>pathLength.
         sum_bind (write_be 1 (length socketBuf)) (\<lambda>socketLength.
         sum_bind (write_be 2 (or_else (map_option fst (nes_heartbeat m)) 0)) (\<lambda>interval.
         sum_bind (write_be 2 (or_else (map_option snd (nes_heartbeat m)) 0)) (\<lambda>timeout.
           Inr (version @ type @ id @ status @ pathLength @ socketLength @ interval @ timeout @ pathBuf @ socketBuf @ payloadBuf))))))))))"

text \<open>A message with every field in its range, as it is read.\<close>

definition wire_nes :: "nes_message \<Rightarrow> bool" where
  "wire_nes m \<longleftrightarrow> (\<exists>t k path payload status version socket interval timeout.
     m = \<lparr>nes_type = Some t, nes_id = Some k, nes_path = Some path, nes_payload = Some payload, nes_statusCode = Some status, nes_version = Some version, nes_socket = Some socket,
       nes_heartbeat = Some (interval, timeout)\<rparr>
     \<and> k < 256 ^ 4 \<and> status < 256 ^ 2 \<and> version < 256 \<and> interval < 256 ^ 2 \<and> timeout < 256 ^ 2 \<and> length path \<le> MAX_PATH_LENGTH \<and> length socket \<le> MAX_SOCKET_LENGTH)"

lemma mapType_inverse [simp]: "mapTypeIntToString (mapTypeStringToInt t) = Some t"
  by (cases t) (simp_all add: mapTypeIntToString_def)

lemma mapType_SomeD: "mapTypeIntToString n = Some t \<Longrightarrow> n = mapTypeStringToInt t"
  by (auto simp: mapTypeIntToString_def split: if_splits)

lemma mapType_small: "mapTypeStringToInt t < 256"
  by (cases t) simp_all

lemma length_part: "start + n \<le> length bs \<Longrightarrow> length (part start n bs) = n"
  by (simp add: part_def)

lemma be_roundtrip: "v < 256 ^ n \<Longrightarrow> be_value (be_bytes n v) = v"
  by (simp add: le_value_bytes)

lemma be_unique: "be_bytes (length bs) (be_value bs) = bs"
  using le_bytes_value [of "rev bs"] by simp

lemma be_bound: "be_value bs < 256 ^ length bs"
  using le_value_bound [of "rev bs"] by simp

lemma or_else_zero [simp]: "or_else (Some v) 0 = v" "v \<noteq> 0 \<Longrightarrow> or_else (Some v) d = v"
  by (simp_all add: or_else_def)

text \<open>The header split into its fields.\<close>

lemma drop_part: "drop s bs = part s n bs @ drop (s + n) bs"
  by (simp add: part_def drop_drop [symmetric] add.commute del: drop_drop)

lemma header_split:
  "buf = part 0 1 buf @ part 1 1 buf @ part 2 4 buf @ part 6 2 buf @ part 8 1 buf @ part 9 1 buf @ part 10 2 buf @ part 12 2 buf @ drop 14 buf"
proof -
  have d: "drop 0 buf = part 0 1 buf @ drop 1 buf" "drop 1 buf = part 1 1 buf @ drop 2 buf" "drop 2 buf = part 2 4 buf @ drop 6 buf" "drop 6 buf = part 6 2 buf @ drop 8 buf"
    "drop 8 buf = part 8 1 buf @ drop 9 buf" "drop 9 buf = part 9 1 buf @ drop 10 buf" "drop 10 buf = part 10 2 buf @ drop 12 buf" "drop 12 buf = part 12 2 buf @ drop 14 buf"
    using drop_part [of 0 buf 1] drop_part [of 1 buf 1] drop_part [of 2 buf 4] drop_part [of 6 buf 2] drop_part [of 8 buf 1] drop_part [of 9 buf 1] drop_part [of 10 buf 2]
      drop_part [of 12 buf 2] by (simp_all only: one_add_one) simp_all
  have "drop 0 buf = part 0 1 buf @ part 1 1 buf @ part 2 4 buf @ part 6 2 buf @ part 8 1 buf @ part 9 1 buf @ part 10 2 buf @ part 12 2 buf @ drop 14 buf"
    by (simp only: d)
  then show ?thesis by (simp only: drop_0)
qed

lemma parsed_frame:
  assumes p: "parseNesMessage bs = Inr m"
    and m: "m = \<lparr>nes_type = Some t, nes_id = Some k, nes_path = Some path, nes_payload = Some payload, nes_statusCode = Some status, nes_version = Some version, nes_socket = Some socket,
       nes_heartbeat = Some (interval, timeout)\<rparr>"
  shows "bs = be_bytes 1 version @ be_bytes 1 (mapTypeStringToInt t) @ be_bytes 4 k @ be_bytes 2 status @ be_bytes 1 (length path) @ be_bytes 1 (length socket)
    @ be_bytes 2 interval @ be_bytes 2 timeout @ path @ socket @ payload"
proof -
  have len: "14 \<le> length bs" and v: "mapTypeIntToString (be_value (part 1 1 bs)) = Some t" "k = be_value (part 2 4 bs)" "status = be_value (part 6 2 bs)" "version = be_value (part 0 1 bs)"
    "interval = be_value (part 10 2 bs)" "timeout = be_value (part 12 2 bs)"
    and path: "path = part 14 (be_value (part 8 1 bs)) bs" "14 + be_value (part 8 1 bs) \<le> length bs"
    and socket: "socket = part (14 + be_value (part 8 1 bs)) (be_value (part 9 1 bs)) bs" "14 + be_value (part 8 1 bs) + be_value (part 9 1 bs) \<le> length bs"
    and payload: "payload = drop (14 + be_value (part 8 1 bs) + be_value (part 9 1 bs)) bs"
    using p unfolding m parseNesMessage_def HEADER_BYTE_LENGTH_def by (auto simp: Let_def split: if_splits option.splits)
  have lens: "length path = be_value (part 8 1 bs)" "length socket = be_value (part 9 1 bs)" using path socket by (simp_all add: length_part)
  have whole: "be_bytes n (be_value (part s n bs)) = part s n bs" if "s + n \<le> length bs" for s n using be_unique [of "part s n bs"] length_part [OF that] by simp
  have rest: "drop 14 bs = path @ socket @ payload"
    unfolding path(1) socket(1) payload by (simp only: drop_part [symmetric])
  have fields: "be_bytes 1 version = part 0 1 bs" "be_bytes 1 (mapTypeStringToInt t) = part 1 1 bs" "be_bytes 4 k = part 2 4 bs" "be_bytes 2 status = part 6 2 bs"
    "be_bytes 1 (length path) = part 8 1 bs" "be_bytes 1 (length socket) = part 9 1 bs" "be_bytes 2 interval = part 10 2 bs" "be_bytes 2 timeout = part 12 2 bs"
    unfolding v(2-6) lens mapType_SomeD [OF v(1), symmetric] by (rule whole; use len in simp)+
  show ?thesis unfolding fields rest [symmetric] by (rule header_split)
qed

text \<open>What is read of a written message: absent fields have their defaults.\<close>

definition filled :: "nes_message \<Rightarrow> nes_message" where
  "filled m = \<lparr>nes_type = Some (case nes_type m of None \<Rightarrow> Nes_undefined | Some t \<Rightarrow> t), nes_id = Some (or_else (nes_id m) 1), nes_path = Some (case nes_path m of None \<Rightarrow> [] | Some p \<Rightarrow> p),
     nes_payload = Some (case nes_payload m of None \<Rightarrow> [] | Some p \<Rightarrow> p), nes_statusCode = Some (or_else (nes_statusCode m) 200), nes_version = Some (or_else (nes_version m) 0),
     nes_socket = Some (case nes_socket m of None \<Rightarrow> [] | Some p \<Rightarrow> p), nes_heartbeat = Some (or_else (map_option fst (nes_heartbeat m)) 0, or_else (map_option snd (nes_heartbeat m)) 0)\<rparr>"

lemma written_is_read:
  assumes "stringifyNesMessage m = Inr bs" and "length (the (nes_path (filled m))) \<le> 100" and "length (the (nes_socket (filled m))) \<le> 100"
  shows "parseNesMessage bs = Inr (filled m)"
proof -
  obtain t k path payload status version socket interval timeout where
    m: "filled m = \<lparr>nes_type = Some t, nes_id = Some k, nes_path = Some path, nes_payload = Some payload, nes_statusCode = Some status, nes_version = Some version, nes_socket = Some socket,
       nes_heartbeat = Some (interval, timeout)\<rparr>" by (simp add: filled_def)
  let ?frame = "be_bytes 1 version @ be_bytes 1 (mapTypeStringToInt t) @ be_bytes 4 k @ be_bytes 2 status @ be_bytes 1 (length path) @ be_bytes 1 (length socket)
    @ be_bytes 2 interval @ be_bytes 2 timeout @ path @ socket @ payload"
  have e: "t = (case nes_type m of None \<Rightarrow> Nes_undefined | Some t \<Rightarrow> t)" "k = or_else (nes_id m) 1" "path = (case nes_path m of None \<Rightarrow> [] | Some p \<Rightarrow> p)"
    "payload = (case nes_payload m of None \<Rightarrow> [] | Some p \<Rightarrow> p)" "status = or_else (nes_statusCode m) 200" "version = or_else (nes_version m) 0"
    "socket = (case nes_socket m of None \<Rightarrow> [] | Some p \<Rightarrow> p)" "interval = or_else (map_option fst (nes_heartbeat m)) 0" "timeout = or_else (map_option snd (nes_heartbeat m)) 0"
    using m by (simp_all add: filled_def)
  have bs: "bs = ?frame" and r: "k < 256 ^ 4" "status < 256 ^ 2" "version < 256 ^ 1" "interval < 256 ^ 2" "timeout < 256 ^ 2"
    using assms(1) unfolding stringifyNesMessage_def Let_def write_be_def e [symmetric] by (auto simp: sum_bind_Inr_iff simp del: le_bytes.simps split: if_splits)
  have len: "length path \<le> 100" "length socket \<le> 100" using assms(2,3) m by simp_all
  have f: "part 0 1 ?frame = be_bytes 1 version" "part 1 1 ?frame = be_bytes 1 (mapTypeStringToInt t)" "part 2 4 ?frame = be_bytes 4 k" "part 6 2 ?frame = be_bytes 2 status"
    "part 8 1 ?frame = be_bytes 1 (length path)" "part 9 1 ?frame = be_bytes 1 (length socket)" "part 10 2 ?frame = be_bytes 2 interval" "part 12 2 ?frame = be_bytes 2 timeout"
    "part 14 (length path) ?frame = path" "part (14 + length path) (length socket) ?frame = socket" "drop (14 + length path + length socket) ?frame = payload"
    by (simp_all add: part_def del: le_bytes.simps)
  have v: "be_value (be_bytes 1 version) = version" "be_value (be_bytes 1 (mapTypeStringToInt t)) = mapTypeStringToInt t" "be_value (be_bytes 4 k) = k" "be_value (be_bytes 2 status) = status"
    "be_value (be_bytes 1 (length path)) = length path" "be_value (be_bytes 1 (length socket)) = length socket" "be_value (be_bytes 2 interval) = interval" "be_value (be_bytes 2 timeout) = timeout"
    by (rule be_roundtrip; use r len mapType_small [of t] in simp)+
  show ?thesis unfolding bs m parseNesMessage_def HEADER_BYTE_LENGTH_def f v Let_def using len by (simp add: MAX_PATH_LENGTH_def MAX_SOCKET_LENGTH_def)
qed

text \<open>A message in range whose id and status are not 0 is written and read back; and a frame that is read as such a message is the only one
  the writer makes of it.\<close>

theorem nes_roundtrip:
  assumes "wire_nes m" and "nes_id m \<noteq> Some 0" and "nes_statusCode m \<noteq> Some 0"
  shows "parseNesMessage bs = Inr m \<longleftrightarrow> stringifyNesMessage m = Inr bs"
proof -
  obtain t k path payload status version socket interval timeout where
    m: "m = \<lparr>nes_type = Some t, nes_id = Some k, nes_path = Some path, nes_payload = Some payload, nes_statusCode = Some status, nes_version = Some version, nes_socket = Some socket,
       nes_heartbeat = Some (interval, timeout)\<rparr>"
    and r: "k < 256 ^ 4" "status < 256 ^ 2" "version < 256" "interval < 256 ^ 2" "timeout < 256 ^ 2" "length path \<le> 100" "length socket \<le> 100"
    using assms(1) by (auto simp: wire_nes_def MAX_PATH_LENGTH_def MAX_SOCKET_LENGTH_def)
  have nz: "k \<noteq> 0" "status \<noteq> 0" using assms(2,3) m by simp_all
  have same: "filled m = m" using nz by (simp add: m filled_def)
  obtain frame where w: "stringifyNesMessage m = Inr frame" using r nz mapType_small [of t] by (simp add: stringifyNesMessage_def m write_be_def)
  have read: "parseNesMessage frame = Inr m" using written_is_read [OF w] same m r by simp
  have "bs = frame" if "parseNesMessage bs = Inr m" using parsed_frame [OF that m] parsed_frame [OF read m] by simp
  then show ?thesis using w read by auto
qed

theorem nes_roundtrip_witness:
  "\<exists>bs m. stringifyNesMessage m = Inr bs \<and> parseNesMessage bs = Inr m \<and> nes_path m = Some [47, 97]"
proof -
  let ?m = "\<lparr>nes_type = Some Nes_request, nes_id = Some 7, nes_path = Some [47, 97], nes_payload = Some [1, 2, 3], nes_statusCode = Some 200, nes_version = Some 2, nes_socket = Some [],
    nes_heartbeat = Some (0, 0)\<rparr>"
  have "wire_nes ?m" by (simp add: wire_nes_def MAX_PATH_LENGTH_def MAX_SOCKET_LENGTH_def)
  moreover obtain bs where "stringifyNesMessage ?m = Inr bs" by (simp add: stringifyNesMessage_def write_be_def or_else_def)
  ultimately show ?thesis using nes_roundtrip [of ?m bs] by (intro exI [of _ bs] exI [of _ ?m]) simp
qed

section \<open>Client\<close>

datatype nes_error = Nes_Disconnect | Nes_Protocol | Nes_Server nat bytes | Nes_Timeout | Nes_Ws | Nes_Encoding error

record nes_client =
  ncl_ready :: bool
  ncl_ids :: nat
  ncl_requests :: "nat list"
  ncl_id :: "bytes option"
  ncl_lastPinged :: "nat option"
  ncl_sent :: "bytes list"
  ncl_settled :: "(nat \<times> (nes_error + bytes)) list"
  ncl_errors :: "nes_error list"

text \<open>The last three fields record the frames sent, how promises were settled and what was reported to \<open>onError\<close>.\<close>

definition empty_message :: nes_message where
  "empty_message = \<lparr>nes_type = None, nes_id = None, nes_path = None, nes_payload = None, nes_statusCode = None, nes_version = None, nes_socket = None, nes_heartbeat = None\<rparr>"

definition client_settle :: "nat \<Rightarrow> nes_error + bytes \<Rightarrow> nes_client \<Rightarrow> nes_client" where
  "client_settle k r c = c\<lparr>ncl_requests := removeAll k (ncl_requests c), ncl_settled := ncl_settled c @ [(k, r)]\<rparr>"

text \<open>\<open>broken\<close> says that the web socket throws.\<close>

definition client_send :: "bool \<Rightarrow> bool \<Rightarrow> nes_message \<Rightarrow> nes_client \<Rightarrow> (nes_error + nat) \<times> nes_client" where
  "client_send broken track m c =
     (if \<not> ncl_ready c then (Inl Nes_Disconnect, c)
      else let k = ncl_ids c + 1; c1 = c\<lparr>ncl_ids := k\<rparr>
           in case stringifyNesMessage (m\<lparr>nes_id := Some k\<rparr>) of
                Inl e \<Rightarrow> (Inl (Nes_Encoding e), c1)
              | Inr frame \<Rightarrow> if broken then (Inl Nes_Ws, c1)
                  else (Inr k, c1\<lparr>ncl_requests := (if track then ncl_requests c1 @ [k] else ncl_requests c1), ncl_sent := ncl_sent c1 @ [frame]\<rparr>))"

definition request_message :: "bytes \<Rightarrow> bytes \<Rightarrow> nes_message" where
  "request_message path payload = empty_message\<lparr>nes_type := Some Nes_request, nes_path := Some path, nes_payload := Some payload\<rparr>"

definition client_request :: "bool \<Rightarrow> bytes \<Rightarrow> bytes \<Rightarrow> nes_client \<Rightarrow> (nes_error + nat) \<times> nes_client" where
  "client_request broken path payload c = client_send broken True (request_message path payload) c"

definition client_hello :: "bool \<Rightarrow> nes_client \<Rightarrow> (nes_error + nat) \<times> nes_client" where
  "client_hello broken c = client_send broken True (empty_message\<lparr>nes_type := Some Nes_hello, nes_version := Some 2\<rparr>) c"

definition client_timeout :: "nat \<Rightarrow> nes_client \<Rightarrow> nes_client" where
  "client_timeout k c = client_settle k (Inl Nes_Timeout) c"

definition client_cleanup :: "nes_client \<Rightarrow> nes_client" where
  "client_cleanup c = c\<lparr>ncl_ready := False, ncl_id := None, ncl_requests := [], ncl_settled := ncl_settled c @ map (\<lambda>k. (k, Inl Nes_Disconnect)) (ncl_requests c)\<rparr>"

definition client_error :: "nes_error \<Rightarrow> nes_client \<Rightarrow> nes_client" where
  "client_error e c = c\<lparr>ncl_errors := ncl_errors c @ [e]\<rparr>"

definition client_onMessage :: "nat \<Rightarrow> bytes \<Rightarrow> nes_client \<Rightarrow> nes_client" where
  "client_onMessage now frame c =
     (case parseNesMessage frame of
        Inl _ \<Rightarrow> client_error Nes_Protocol c
      | Inr update \<Rightarrow>
          if nes_type update = Some Nes_ping then
            (let c1 = c\<lparr>ncl_lastPinged := Some now\<rparr>
             in case ncl_lastPinged c of
                  Some t \<Rightarrow> if t \<noteq> 0 \<and> now < t + 1000 then client_error Nes_Protocol c1 else snd (client_send False False (empty_message\<lparr>nes_type := Some Nes_ping\<rparr>) c1)
                | None \<Rightarrow> snd (client_send False False (empty_message\<lparr>nes_type := Some Nes_ping\<rparr>) c1))
          else let k = the (nes_id update); status = the (nes_statusCode update); payload = the (nes_payload update);
                   failed = (if status \<ge> 400 then Inl (Nes_Server status (take 512 payload)) else Inr payload)
               in if k \<notin> set (ncl_requests c) then client_error Nes_Protocol c
                  else if nes_type update = Some Nes_request then client_settle k failed c
                  else if nes_type update = Some Nes_hello then client_settle k (case failed of Inl e \<Rightarrow> Inl e | Inr _ \<Rightarrow> Inr []) (c\<lparr>ncl_id := nes_socket update\<rparr>)
                  else client_error Nes_Protocol (client_settle k (Inl Nes_Protocol) c))"

section \<open>Socket of the server\<close>

record nes_server =
  nsv_open :: bool
  nsv_id :: bytes
  nsv_helloed :: bool
  nsv_lastPinged :: "nat option"

text \<open>What becomes of a message: a request is injected into the web server under its id, or there is an answer, nothing, or an error with a status.\<close>

datatype nes_outcome = Injected nat bytes bytes | Answered nes_message | Nothing | Failed nat

definition gracefulErrorStatusCode :: nat where
  "gracefulErrorStatusCode = 499"

definition processHello :: "nes_message \<Rightarrow> nes_server \<Rightarrow> nes_outcome \<times> nes_server" where
  "processHello request s =
     (if nsv_helloed s \<or> nes_version request \<noteq> Some 2 then (Failed 400, s)
      else (Answered (empty_message\<lparr>nes_type := Some Nes_hello, nes_id := nes_id request, nes_socket := Some (nsv_id s), nes_heartbeat := Some (15000, 5000)\<rparr>), s\<lparr>nsv_helloed := True\<rparr>))"

text \<open>\<open>lookup\<close> gives the path of a named route, unless its method is a wildcard.\<close>

definition processRequest :: "(bytes \<Rightarrow> (bytes option) option) \<Rightarrow> nes_message \<Rightarrow> nes_outcome" where
  "processRequest lookup request =
     (let path = the (nes_path request); payload = the (nes_payload request); k = the (nes_id request)
      in if path = [] then Failed 400
         else if hd path \<noteq> 47 then (case lookup path of None \<Rightarrow> Failed 404 | Some None \<Rightarrow> Failed 400 | Some (Some p) \<Rightarrow> Injected k p payload)
         else Injected k path payload)"

definition lifecycle :: "nat \<Rightarrow> (bytes \<Rightarrow> (bytes option) option) \<Rightarrow> nes_message \<Rightarrow> nes_server \<Rightarrow> nes_outcome \<times> nes_server" where
  "lifecycle now lookup request s =
     (if nes_id request = Some 0 then (Failed 400, s)
      else if nes_type request = Some Nes_ping then
        (case nsv_lastPinged s of
           Some t \<Rightarrow> (if t \<noteq> 0 \<and> now < t + 1000 then Failed 400 else Nothing, s\<lparr>nsv_lastPinged := Some now\<rparr>)
         | None \<Rightarrow> (Nothing, s\<lparr>nsv_lastPinged := Some now\<rparr>))
      else if nes_type request = Some Nes_hello then processHello request s
      else if \<not> nsv_helloed s then (Failed 400, s)
      else if nes_type request = Some Nes_request then (processRequest lookup request, s)
      else (Failed 400, s))"

definition server_terminate :: "nes_server \<Rightarrow> nes_server" where
  "server_terminate s = s\<lparr>nsv_open := False\<rparr>"

text \<open>Sending an answer; one that cannot be written ends the connection.\<close>

definition server_send :: "nes_message \<Rightarrow> nes_server \<Rightarrow> bytes list \<times> nes_server" where
  "server_send m s =
     (if \<not> nsv_open s then ([], server_terminate s)
      else case stringifyNesMessage m of Inr frame \<Rightarrow> ([frame], s) | Inl _ \<Rightarrow> ([], server_terminate s))"

definition server_error :: "(nat \<Rightarrow> bytes) \<Rightarrow> nat \<Rightarrow> nes_message \<Rightarrow> nes_server \<Rightarrow> bytes list \<times> nes_server" where
  "server_error explain status request s =
     (if status = gracefulErrorStatusCode
      then server_send (empty_message\<lparr>nes_type := nes_type request, nes_id := nes_id request, nes_statusCode := Some status, nes_payload := Some (explain status)\<rparr>) s
      else ([], server_terminate s))"

definition server_onMessage :: "nat \<Rightarrow> (bytes \<Rightarrow> (bytes option) option) \<Rightarrow> (nat \<Rightarrow> bytes) \<Rightarrow> bytes \<Rightarrow> nes_server \<Rightarrow> (nat \<times> bytes \<times> bytes) option \<times> bytes list \<times> nes_server" where
  "server_onMessage now lookup explain frame s =
     (case parseNesMessage frame of
        Inl _ \<Rightarrow> (None, [], server_terminate s)
      | Inr request \<Rightarrow>
          (case lifecycle now lookup request s of (out, s1) \<Rightarrow>
             case out of
               Injected k path payload \<Rightarrow> (Some (k, path, payload), [], s1)
             | Answered m \<Rightarrow> (None, server_send m s1)
             | Nothing \<Rightarrow> (None, [], s1)
             | Failed status \<Rightarrow> (None, server_error explain status request s1)))"

text \<open>The web server answers the injected request.\<close>

definition server_injected :: "(nat \<Rightarrow> bytes) \<Rightarrow> nat \<Rightarrow> nat \<Rightarrow> bytes \<Rightarrow> nes_server \<Rightarrow> bytes list \<times> nes_server" where
  "server_injected explain k status result s =
     (if status \<ge> 400 then server_error explain status (empty_message\<lparr>nes_type := Some Nes_request, nes_id := Some k\<rparr>) s
      else server_send (empty_message\<lparr>nes_type := Some Nes_request, nes_id := Some k, nes_statusCode := Some status, nes_payload := Some result\<rparr>) s)"

section \<open>A request and its answer\<close>

text \<open>C30 (functional). A request on an initialized connection comes to the web server as it was made, and the answer settles this request with its payload.\<close>

theorem answer_reaches_its_request:
  assumes client: "ncl_ready c" "ncl_ids c + 1 < 256 ^ 4" and server: "nsv_open s" "nsv_helloed s"
    and path: "length path \<le> 100" "path \<noteq> []" "hd path = 47" and status: "0 < status" "status < 400"
  shows "\<exists>frame reply c1. client_request False path payload c = (Inr (ncl_ids c + 1), c1) \<and> ncl_sent c1 = ncl_sent c @ [frame]
    \<and> server_onMessage now lookup explain frame s = (Some (ncl_ids c + 1, path, payload), [], s)
    \<and> server_injected explain (ncl_ids c + 1) status result s = ([reply], s)
    \<and> client_onMessage later reply c1 = client_settle (ncl_ids c + 1) (Inr result) c1"
proof -
  let ?k = "ncl_ids c + 1"
  let ?m = "(request_message path payload)\<lparr>nes_id := Some ?k\<rparr>"
  let ?a = "empty_message\<lparr>nes_type := Some Nes_request, nes_id := Some ?k, nes_statusCode := Some status, nes_payload := Some result\<rparr>"
  have mf: "filled ?m = \<lparr>nes_type = Some Nes_request, nes_id = Some ?k, nes_path = Some path, nes_payload = Some payload, nes_statusCode = Some 200, nes_version = Some 0, nes_socket = Some [],
      nes_heartbeat = Some (0, 0)\<rparr>" by (simp add: filled_def request_message_def empty_message_def or_else_def)
  have af: "filled ?a = \<lparr>nes_type = Some Nes_request, nes_id = Some ?k, nes_path = Some [], nes_payload = Some result, nes_statusCode = Some status, nes_version = Some 0, nes_socket = Some [],
      nes_heartbeat = Some (0, 0)\<rparr>" using status(1) by (simp add: filled_def empty_message_def or_else_def)
  obtain frame where frame: "stringifyNesMessage ?m = Inr frame" using client(2) path(1)
    by (simp add: stringifyNesMessage_def request_message_def empty_message_def or_else_def write_be_def)
  obtain reply where reply: "stringifyNesMessage ?a = Inr reply" using client(2) status
    by (simp add: stringifyNesMessage_def empty_message_def or_else_def write_be_def)
  have pf: "parseNesMessage frame = Inr (filled ?m)" by (rule written_is_read [OF frame]; use path(1) in \<open>simp add: mf [simplified]\<close>)
  have pr: "parseNesMessage reply = Inr (filled ?a)" by (rule written_is_read [OF reply]; simp add: af [simplified])
  note read = pf [unfolded mf] pr [unfolded af]
  let ?c = "c\<lparr>ncl_ids := ?k, ncl_requests := ncl_requests c @ [?k], ncl_sent := ncl_sent c @ [frame]\<rparr>"
  have "client_request False path payload c = (Inr ?k, ?c)" using client(1) frame by (simp add: client_request_def client_send_def Let_def)
  moreover have "server_onMessage now lookup explain frame s = (Some (?k, path, payload), [], s)" using server path
    by (simp add: server_onMessage_def read lifecycle_def processRequest_def Let_def)
  moreover have "server_injected explain ?k status result s = ([reply], s)" using server reply status(2) by (simp add: server_injected_def server_send_def)
  moreover have "client_onMessage later reply ?c = client_settle ?k (Inr result) ?c" using status(2) by (simp add: client_onMessage_def read Let_def)
  ultimately show ?thesis by (intro exI [of _ frame] exI [of _ reply] exI [of _ ?c]) simp
qed

theorem answer_reaches_its_request_witness:
  "\<exists>frame reply c1. client_request False [47] [1] \<lparr>ncl_ready = True, ncl_ids = 1, ncl_requests = [], ncl_id = None, ncl_lastPinged = None, ncl_sent = [], ncl_settled = [], ncl_errors = []\<rparr> = (Inr 2, c1)
    \<and> ncl_sent c1 = [frame] \<and> client_onMessage 0 reply c1 = client_settle 2 (Inr [5]) c1"
proof -
  let ?c = "\<lparr>ncl_ready = True, ncl_ids = 1, ncl_requests = [], ncl_id = None, ncl_lastPinged = None, ncl_sent = [], ncl_settled = [], ncl_errors = []\<rparr>"
  let ?s = "\<lparr>nsv_open = True, nsv_id = [], nsv_helloed = True, nsv_lastPinged = None\<rparr>"
  show ?thesis using answer_reaches_its_request [of ?c ?s "[47]" 200 "[1]" 0 "\<lambda>_. None" "\<lambda>_. []" "[5]" 0] by (auto simp: numeral_2_eq_2)
qed

text \<open>The state of the server after some frames.\<close>

fun server_after :: "nat \<Rightarrow> (bytes \<Rightarrow> (bytes option) option) \<Rightarrow> (nat \<Rightarrow> bytes) \<Rightarrow> bytes list \<Rightarrow> nes_server \<Rightarrow> nes_server" where
  "server_after now lookup explain [] s = s"
| "server_after now lookup explain (f # fs) s = server_after now lookup explain fs (snd (snd (server_onMessage now lookup explain f s)))"

lemma send_helloed [simp]: "nsv_helloed (snd (server_send m s)) = nsv_helloed s" "nsv_helloed (snd (server_error explain status m s)) = nsv_helloed s"
  by (simp_all add: server_send_def server_error_def server_terminate_def split: sum.splits)

lemma becomes_helloed:
  assumes "nsv_helloed (snd (snd (server_onMessage now lookup explain f s)))" and "\<not> nsv_helloed s"
  shows "\<exists>m. parseNesMessage f = Inr m \<and> nes_type m = Some Nes_hello \<and> nes_version m = Some 2"
proof (cases "parseNesMessage f")
  case (Inl e)
  then show ?thesis using assms by (simp add: server_onMessage_def server_terminate_def)
next
  case (Inr m)
  obtain out s1 where l: "lifecycle now lookup m s = (out, s1)" by fastforce
  have "nsv_helloed s1" using assms(1) by (simp add: server_onMessage_def Inr l split: nes_outcome.splits)
  then show ?thesis using l assms(2) Inr
    by (auto simp: lifecycle_def processHello_def split: if_splits option.splits)
qed

text \<open>The web server gets a request of a connection only after a hello of the right version came on it.\<close>

theorem request_needs_hello:
  assumes "\<not> nsv_helloed s" and "fst (server_onMessage now lookup explain f (server_after now lookup explain fs s)) = Some r"
  shows "\<exists>h \<in> set fs. \<exists>m. parseNesMessage h = Inr m \<and> nes_type m = Some Nes_hello \<and> nes_version m = Some 2"
proof -
  have "nsv_helloed (server_after now lookup explain fs s)" using assms(2)
    by (auto simp: server_onMessage_def lifecycle_def processHello_def split: sum.splits prod.splits nes_outcome.splits if_splits option.splits)
  then show ?thesis using assms(1)
  proof (induction fs arbitrary: s)
    case (Cons g fs)
    show ?case
    proof (cases "nsv_helloed (snd (snd (server_onMessage now lookup explain g s)))")
      case True
      then show ?thesis using becomes_helloed Cons.prems(2) by fastforce
    next
      case False
      then show ?thesis using Cons.IH [of "snd (snd (server_onMessage now lookup explain g s))"] Cons.prems(1) by auto
    qed
  qed simp
qed

theorem request_needs_hello_witness:
  "\<exists>h f r. fst (server_onMessage 0 (\<lambda>_. None) (\<lambda>_. []) f (server_after 0 (\<lambda>_. None) (\<lambda>_. []) [h] \<lparr>nsv_open = True, nsv_id = [], nsv_helloed = False, nsv_lastPinged = None\<rparr>)) = Some r
     \<and> (\<exists>m. parseNesMessage h = Inr m \<and> nes_type m = Some Nes_hello \<and> nes_version m = Some 2)"
proof -
  let ?s = "\<lparr>nsv_open = True, nsv_id = [], nsv_helloed = False, nsv_lastPinged = None\<rparr>"
  let ?h = "[2, 0, 0, 0, 0, 1, 0, 200, 0, 0, 0, 0, 0, 0]"
  let ?f = "[0, 3, 0, 0, 0, 2, 0, 200, 1, 0, 0, 0, 0, 0, 47]"
  have "fst (server_onMessage 0 (\<lambda>_. None) (\<lambda>_. []) ?f (server_after 0 (\<lambda>_. None) (\<lambda>_. []) [?h] ?s)) = Some (2, [47], [])"
    by (simp add: server_onMessage_def parseNesMessage_def HEADER_BYTE_LENGTH_def MAX_PATH_LENGTH_def MAX_SOCKET_LENGTH_def part_def mapTypeIntToString_def lifecycle_def processHello_def
      processRequest_def server_send_def stringifyNesMessage_def write_be_def or_else_def empty_message_def)
  then show ?thesis using request_needs_hello [of ?s 0 "\<lambda>_. None" "\<lambda>_. []" ?f "[?h]" "(2, [47], [])"]
    by (intro exI [of _ ?h] exI [of _ ?f] exI [of _ "(2, [47], [])"]) simp
qed

end
