(* ===== verification/Api_Sync.thy ===== *)
theory Api_Sync
  imports Chain_State
begin

text \<open>
  The index for the HTTP interface (\<open>packages/api-sync/source/service.ts\<close>, \<open>parsers/\<close>): what is written to PostgreSQL for a committed block, how
  the writing is repeated after a failure, and when a start throws the index away.

  Tables are maps from their primary keys, a database transaction is a function on all tables that either succeeds or leaves them as they were. The SQL
  statement that writes wallets is \<open>upsert_row\<close>; the attributes of a wallet (a JSON column) are a record with optional fields. Numbers written as
  strings are numbers. The parsers of contract logs (viem), the hash of addresses and the EVM are parameters; tokens are left out.
\<close>

section \<open>Rows\<close>

record receipt_data =
  rd_status :: nat
  rd_gasUsed :: nat
  rd_cumulativeGasUsed :: nat
  rd_gasRefunded :: nat
  rd_contractAddress :: "string option"
  rd_logs :: string
  rd_output :: "bytes option"

record account_update =
  au_address :: string
  au_balance :: int
  au_nonce :: int
  au_vote :: "string option"
  au_unvote :: "string option"
  au_username :: "string option"
  au_usernameResigned :: bool
  au_legacyMergeInfo :: "(string \<times> string) option"

record api_services =
  sy_config :: network_config
  sy_fromPublicKey :: "string \<Rightarrow> string"
  sy_multiPaymentContract :: string
  sy_usernameContract :: string
  sy_parsePayments :: "receipt_data \<Rightarrow> (string \<times> int \<times> bool) list"
  sy_parseUsernames :: "receipt_data \<Rightarrow> (string \<times> string option) list"
  sy_transactionError :: "transaction \<Rightarrow> receipt_data \<Rightarrow> string option"
  sy_version :: string

record block_row =
  kr_hash :: string
  kr_number :: nat
  kr_commitRound :: nat
  kr_fee :: int
  kr_gasUsed :: nat
  kr_parentHash :: string
  kr_payloadSize :: nat
  kr_proposer :: string
  kr_reward :: int
  kr_round :: nat
  kr_signature :: string
  kr_stateRoot :: string
  kr_timestamp :: nat
  kr_transactionsCount :: nat
  kr_transactionsRoot :: string
  kr_validatorRound :: nat
  kr_validatorSet :: int
  kr_version :: nat

record transaction_row =
  tr_hash :: string
  tr_blockHash :: string
  tr_blockNumber :: nat
  tr_cumulativeGasUsed :: nat
  tr_data :: string
  tr_decodedError :: "string option"
  tr_deployedContractAddress :: "string option"
  tr_from :: string
  tr_gas :: nat
  tr_gasPrice :: nat
  tr_gasRefunded :: nat
  tr_gasUsed :: nat
  tr_legacySecondSignature :: "string option"
  tr_logs :: string
  tr_multiPaymentRecipients :: "string list option"
  tr_nonce :: nat
  tr_output :: "bytes option"
  tr_senderPublicKey :: string
  tr_signature :: string
  tr_status :: nat
  tr_timestamp :: nat
  tr_to :: "string option"
  tr_transactionIndex :: nat
  tr_value :: int

record multi_payment_row =
  mp_hash :: string
  mp_logIndex :: nat
  mp_to :: string
  mp_amount :: int
  mp_success :: bool

record validator_round_row =
  vr_round :: nat
  vr_roundHeight :: nat
  vr_validators :: "string list"
  vr_votes :: "int list"

text \<open>A value inside a JSON column: an object, or text. \<open>->>\<close> makes text of both.\<close>

datatype jsonb = Json string | Text string

fun as_text :: "jsonb \<Rightarrow> jsonb" where
  "as_text (Json s) = Text s"
| "as_text (Text s) = Text s"

record wallet_attributes =
  wa_isLegacy :: "bool option"
  wa_secondPublicKey :: "string option"
  wa_multiSignature :: "jsonb option"
  wa_legacyMerge :: "jsonb option"
  wa_legacyNonce :: "nat option"
  wa_vote :: "string option"
  wa_unvote :: "string option"
  wa_username :: "string option"
  wa_usernameResigned :: "bool option"
  wa_validatorPublicKey :: "string option"
  wa_validatorResigned :: "bool option"
  wa_validatorVoteBalance :: "int option"
  wa_validatorVotersCount :: "nat option"
  wa_validatorFee :: "nat option"
  wa_validatorLastBlock :: "(string \<times> nat \<times> nat) option"
  wa_validatorForgedFees :: "int option"
  wa_validatorForgedRewards :: "int option"
  wa_validatorForgedTotal :: "int option"
  wa_validatorProducedBlocks :: "nat option"

definition no_attributes :: wallet_attributes where
  "no_attributes = \<lparr>wa_isLegacy = None, wa_secondPublicKey = None, wa_multiSignature = None, wa_legacyMerge = None, wa_legacyNonce = None, wa_vote = None,
     wa_unvote = None, wa_username = None, wa_usernameResigned = None, wa_validatorPublicKey = None, wa_validatorResigned = None, wa_validatorVoteBalance = None,
     wa_validatorVotersCount = None, wa_validatorFee = None, wa_validatorLastBlock = None, wa_validatorForgedFees = None, wa_validatorForgedRewards = None,
     wa_validatorForgedTotal = None, wa_validatorProducedBlocks = None\<rparr>"

record wallet_row =
  wl_publicKey :: "string option"
  wl_balance :: int
  wl_nonce :: int
  wl_attributes :: wallet_attributes
  wl_updated_at :: nat

record cold_wallet_row =
  cw_balance :: int
  cw_mergeInfoTransactionHash :: "string option"
  cw_mergeInfoWalletAddress :: "string option"

record deferred_sync =
  ds_block :: block_row
  ds_transactions :: "transaction_row list"
  ds_multiPayments :: "multi_payment_row list"
  ds_validatorRound :: "validator_round_row option"
  ds_wallets :: "(string \<times> wallet_row) list"
  ds_mergedLegacyColdWallets :: "(string \<times> string \<times> string) list"
  ds_newMilestones :: "milestone option"

record api_database =
  ap_blocks :: "(string, block_row) jsmap"
  ap_state :: "(nat \<times> int) option"
  ap_transactions :: "(string, transaction_row) jsmap"
  ap_multiPayments :: "(string \<times> nat, multi_payment_row) jsmap"
  ap_validatorRounds :: "(nat, validator_round_row) jsmap"
  ap_wallets :: "(string, wallet_row) jsmap"
  ap_coldWallets :: "(string, cold_wallet_row) jsmap"
  ap_configuration :: "(string \<times> milestone) option"

section \<open>What a block changes\<close>

text \<open>\<open>[...new Set(xs)]\<close>.\<close>

definition unique_values :: "'a list \<Rightarrow> 'a list" where
  "unique_values xs = rev (remdups (rev xs))"

definition hex_chars_of :: "nat \<Rightarrow> char" where
  "hex_chars_of n = ''0123456789abcdef'' ! (n mod 16)"

fun hex_number :: "nat \<Rightarrow> string" where
  "hex_number n = (if n < 16 then [hex_chars_of n] else hex_number (n div 16) @ [hex_chars_of n])"

declare hex_number.simps [simp del]

definition formatEcdsaSignature :: "string \<Rightarrow> string \<Rightarrow> nat \<Rightarrow> string" where
  "formatEcdsaSignature r s v = r @ s @ (let h = hex_number v in replicate (2 - length h) (CHR ''0'') @ h)"

definition parseMultiPayments :: "api_services \<Rightarrow> transaction \<Rightarrow> receipt_data \<Rightarrow> multi_payment_row list" where
  "parseMultiPayments sv t r =
     (if tx_to t \<noteq> Some (sy_multiPaymentContract sv) then []
      else let payments = sy_parsePayments sv r
           in map (\<lambda>((recipient, amount, success), logIndex). \<lparr>mp_hash = tx_hash t, mp_logIndex = logIndex, mp_to = recipient, mp_amount = amount, mp_success = success\<rparr>)
                (zip payments [0..<length payments]))"

definition sync_transaction_row :: "api_services \<Rightarrow> block_header \<Rightarrow> nat \<Rightarrow> transaction \<Rightarrow> receipt_data \<Rightarrow> transaction_row" where
  "sync_transaction_row sv header index t r =
     (let parsed = parseMultiPayments sv t r
      in \<lparr>tr_hash = tx_hash t, tr_blockHash = bh_hash header, tr_blockNumber = bh_number header, tr_cumulativeGasUsed = rd_cumulativeGasUsed r, tr_data = tx_data t,
          tr_decodedError = sy_transactionError sv t r, tr_deployedContractAddress = rd_contractAddress r, tr_from = tx_from t, tr_gas = tx_gasLimit t,
          tr_gasPrice = tx_gasPrice t, tr_gasRefunded = rd_gasRefunded r, tr_gasUsed = rd_gasUsed r, tr_legacySecondSignature = tx_legacySecondSignature t,
          tr_logs = rd_logs r, tr_multiPaymentRecipients = (if parsed \<noteq> [] then Some (unique_values (map mp_to parsed)) else None), tr_nonce = tx_nonce t,
          tr_output = rd_output r, tr_senderPublicKey = tx_senderPublicKey t, tr_signature = formatEcdsaSignature (tx_r t) (tx_s t) (tx_v t),
          tr_status = rd_status r, tr_timestamp = bh_timestamp header, tr_to = tx_to t, tr_transactionIndex = index, tr_value = tx_value t\<rparr>)"

text \<open>The two lookups of sender keys: a key is looked at once.\<close>

definition learn_key :: "(string \<Rightarrow> string) \<Rightarrow> string \<Rightarrow> (string, string) jsmap \<times> (string, string) jsmap \<Rightarrow> (string, string) jsmap \<times> (string, string) jsmap" where
  "learn_key fromPublicKey key keys =
     (case keys of (publicKeyToAddress, addressToPublicKey) \<Rightarrow>
        if map_has publicKeyToAddress key then keys
        else (map_set publicKeyToAddress key (fromPublicKey key), map_set addressToPublicKey (fromPublicKey key) key))"

fun sync_transactions :: "api_services \<Rightarrow> block_header \<Rightarrow> (string, receipt_data) jsmap \<Rightarrow> nat \<Rightarrow> transaction list \<Rightarrow> error + transaction_row list \<times> multi_payment_row list" where
  "sync_transactions sv header receipts index [] = Inr ([], [])"
| "sync_transactions sv header receipts index (t # ts) =
     (case map_get receipts (tx_hash t) of
        None \<Rightarrow> Inl AssertError
      | Some r \<Rightarrow> sum_bind (sync_transactions sv header receipts (index + 1) ts) (\<lambda>(rows, payments).
          Inr (sync_transaction_row sv header index t r # rows, parseMultiPayments sv t r @ payments)))"

definition sync_block_row :: "api_services \<Rightarrow> commit \<Rightarrow> error + block_row" where
  "sync_block_row sv c =
     (let header = bk_header (cm_block c); proof_data = cm_proof c
      in sum_bind (calculateRound (sy_config sv) (bh_number header)) (\<lambda>info.
        Inr \<lparr>kr_hash = bh_hash header, kr_number = bh_number header, kr_commitRound = cp_round proof_data, kr_fee = bh_fee header, kr_gasUsed = bh_gasUsed header,
          kr_parentHash = bh_parentHash header, kr_payloadSize = bh_payloadSize header, kr_proposer = bh_proposer header, kr_reward = bh_reward header,
          kr_round = bh_round header, kr_signature = cp_signature proof_data, kr_stateRoot = bh_stateRoot header, kr_timestamp = bh_timestamp header,
          kr_transactionsCount = bh_transactionsCount header, kr_transactionsRoot = bh_transactionsRoot header, kr_validatorRound = infoRound info,
          kr_validatorSet = validatorSetPack (cp_validators proof_data), kr_version = bh_version header\<rparr>))"

text \<open>Objects used as maps: \<open>reduce\<close> over a list, a later entry with the same key replaces an earlier one.\<close>

definition updates_by_address :: "account_update list \<Rightarrow> (string, account_update) jsmap" where
  "updates_by_address us = map_of_entries (map (\<lambda>u. (au_address u, u)) us)"

definition validators_by_address :: "validator_wallet list \<Rightarrow> (string, validator_wallet) jsmap" where
  "validators_by_address vs = map_of_entries (map (\<lambda>v. (vw_address v, v)) vs)"

text \<open>On the first block after genesis the account of the genesis proposer is added.\<close>

definition with_genesis_account :: "block_header \<Rightarrow> (string \<Rightarrow> int \<times> int) \<Rightarrow> nat \<Rightarrow> (string, account_update) jsmap \<Rightarrow> (string, account_update) jsmap" where
  "with_genesis_account genesis getAccountInfo blockNumber updates =
     (if blockNumber = bh_number genesis + 1 \<and> \<not> map_has updates (bh_proposer genesis)
      then map_set updates (bh_proposer genesis) \<lparr>au_address = bh_proposer genesis, au_balance = fst (getAccountInfo (bh_proposer genesis)),
        au_nonce = snd (getAccountInfo (bh_proposer genesis)), au_vote = None, au_unvote = None, au_username = None, au_usernameResigned = False, au_legacyMergeInfo = None\<rparr>
      else updates)"

definition validatorAttributes :: "(string, validator_wallet) jsmap \<Rightarrow> block_header \<Rightarrow> string \<Rightarrow> wallet_attributes" where
  "validatorAttributes dirtyValidators header address =
     (let a = (case map_get dirtyValidators address of
                 None \<Rightarrow> no_attributes
               | Some v \<Rightarrow> no_attributes\<lparr>wa_validatorFee := Some (vw_fee v), wa_validatorPublicKey := Some (vw_blsPublicKey v), wa_validatorResigned := Some (vw_isResigned v),
                   wa_validatorVoteBalance := Some (vw_voteBalance v), wa_validatorVotersCount := Some (vw_votersCount v)\<rparr>)
      in if bh_proposer header = address
         then a\<lparr>wa_validatorForgedFees := Some (bh_fee header), wa_validatorForgedRewards := Some (bh_reward header), wa_validatorForgedTotal := Some (bh_fee header + bh_reward header),
           wa_validatorLastBlock := Some (bh_hash header, bh_number header, bh_timestamp header), wa_validatorProducedBlocks := Some 1\<rparr>
         else a)"

text \<open>Strings are taken as conditions: the empty one counts as absent.\<close>

definition truthy :: "string option \<Rightarrow> bool" where
  "truthy s \<longleftrightarrow> s \<noteq> None \<and> s \<noteq> Some []"

definition account_attributes :: "account_update \<Rightarrow> wallet_attributes \<Rightarrow> wallet_attributes" where
  "account_attributes account a =
     (let a1 = (if truthy (au_unvote account) then a\<lparr>wa_unvote := au_unvote account\<rparr> else if truthy (au_vote account) then a\<lparr>wa_vote := au_vote account\<rparr> else a);
          a2 = (if au_usernameResigned account then a1\<lparr>wa_usernameResigned := Some True\<rparr> else if truthy (au_username account) then a1\<lparr>wa_username := au_username account\<rparr> else a1)
      in case au_legacyMergeInfo account of None \<Rightarrow> a2 | Some (address, txHash) \<Rightarrow> a2\<lparr>wa_legacyMerge := Some (Json (address @ txHash))\<rparr>)"

definition account_wallet :: "(string, validator_wallet) jsmap \<Rightarrow> block_header \<Rightarrow> (string, string) jsmap \<Rightarrow> account_update \<Rightarrow> string \<times> wallet_row" where
  "account_wallet dirtyValidators header addressToPublicKey account =
     (au_address account, \<lparr>wl_publicKey = map_get addressToPublicKey (au_address account), wl_balance = au_balance account, wl_nonce = au_nonce account,
        wl_attributes = account_attributes account (validatorAttributes dirtyValidators header (au_address account)), wl_updated_at = bh_number header\<rparr>)"

definition missing_validators :: "(string, validator_wallet) jsmap \<Rightarrow> block_header \<Rightarrow> (string, account_update) jsmap \<Rightarrow> string list" where
  "missing_validators dirtyValidators header updates =
     filter (\<lambda>a. \<not> map_has updates a) (unique_values (bh_proposer header # map (\<lambda>(_, v). vw_address v) dirtyValidators))"

definition validator_wallet_row :: "(string, validator_wallet) jsmap \<Rightarrow> block_header \<Rightarrow> (string, string) jsmap \<Rightarrow> string \<Rightarrow> string \<times> wallet_row" where
  "validator_wallet_row dirtyValidators header addressToPublicKey address =
     (address, \<lparr>wl_publicKey = map_get addressToPublicKey address, wl_balance = -1, wl_nonce = -1, wl_attributes = validatorAttributes dirtyValidators header address,
        wl_updated_at = bh_number header\<rparr>)"

text \<open>The validators of the next round in the order of their proposals.\<close>

fun proposal_order :: "(nat \<Rightarrow> nat option) \<Rightarrow> validator_wallet list \<Rightarrow> nat list \<Rightarrow> error + validator_wallet list" where
  "proposal_order getIndex validators [] = Inr []"
| "proposal_order getIndex validators (i # is) =
     (case getIndex i of
        None \<Rightarrow> Inl TypeError
      | Some j \<Rightarrow> if j < length validators then sum_bind (proposal_order getIndex validators is) (\<lambda>vs. Inr (validators ! j # vs)) else Inl TypeError)"

definition createValidatorRound :: "network_config \<Rightarrow> state_store \<Rightarrow> validator_set \<Rightarrow> nat \<Rightarrow> error + validator_round_row" where
  "createValidatorRound nc st vs number =
     sum_bind (getRoundValidators nc st vs) (\<lambda>roundValidators.
     sum_bind (proposal_order (\<lambda>i. case getValidatorIndex nc st i of Inl _ \<Rightarrow> None | Inr j \<Rightarrow> j) roundValidators [0..<length roundValidators]) (\<lambda>validators.
     sum_bind (calculateRound nc number) (\<lambda>info.
       Inr \<lparr>vr_round = infoRound info, vr_roundHeight = roundHeight info, vr_validators = map vw_address validators, vr_votes = map vw_voteBalance validators\<rparr>)))"

definition api_onCommit :: "api_services \<Rightarrow> state_store \<Rightarrow> validator_set \<Rightarrow> block_header \<Rightarrow> (string \<Rightarrow> int \<times> int) \<Rightarrow> commit \<Rightarrow> (string, receipt_data) jsmap \<Rightarrow> account_update list
    \<Rightarrow> error + deferred_sync" where
  "api_onCommit sv st vs genesis getAccountInfo c receipts accountUpdates =
     (let header = bk_header (cm_block c); transactions = bk_transactions (cm_block c);
          addressToPublicKey = snd (fold (learn_key (sy_fromPublicKey sv)) (map tx_senderPublicKey transactions) ([], []));
          dirtyValidators = validators_by_address (vs_dirtyValidators vs);
          updates = with_genesis_account genesis getAccountInfo (bh_number header) (updates_by_address accountUpdates);
          wallets = map (\<lambda>(_, u). account_wallet dirtyValidators header addressToPublicKey u) updates
            @ map (validator_wallet_row dirtyValidators header addressToPublicKey) (missing_validators dirtyValidators header updates);
          merged = concat (map (\<lambda>(_, u). case au_legacyMergeInfo u of None \<Rightarrow> [] | Some (address, txHash) \<Rightarrow> [(address, au_address u, txHash)]) updates)
      in sum_bind (sync_transactions sv header receipts 0 transactions) (\<lambda>(rows, payments).
         sum_bind (sync_block_row sv c) (\<lambda>row.
         sum_bind (isNewRound (sy_config sv) (bh_number header + 1)) (\<lambda>new.
         sum_bind (if new then sum_bind (createValidatorRound (sy_config sv) st vs (bh_number header + 1)) (\<lambda>r. Inr (Some r)) else Inr None) (\<lambda>round.
         sum_bind (if \<exists>m \<in> set (nc_milestones (sy_config sv)). ms_height m = bh_number header + 1
                   then sum_bind (milestone_of (sy_config sv) (bh_number header + 1)) (\<lambda>m. Inr (Some m)) else Inr None) (\<lambda>milestone.
           Inr \<lparr>ds_block = row, ds_transactions = rows, ds_multiPayments = payments, ds_validatorRound = round, ds_wallets = wallets, ds_mergedLegacyColdWallets = merged,
             ds_newMilestones = milestone\<rparr>))))))"

section \<open>Writing a block\<close>

fun chunk :: "'a list \<Rightarrow> nat \<Rightarrow> 'a list list" where
  "chunk xs n = (if xs = [] \<or> n = 0 then [] else take n xs # chunk (drop n xs) n)"

declare chunk.simps [simp del]

definition insert_or_ignore :: "'k \<Rightarrow> 'v \<Rightarrow> ('k, 'v) jsmap \<Rightarrow> ('k, 'v) jsmap" where
  "insert_or_ignore k v table = (if map_has table k then table else map_set table k v)"

text \<open>\<open>COALESCE(x, y)\<close>, and the sum of two amounts that may be absent, written as absent when it is 0.\<close>

definition coalesce :: "'a option \<Rightarrow> 'a option \<Rightarrow> 'a option" where
  "coalesce x y = (case x of None \<Rightarrow> y | Some _ \<Rightarrow> x)"

definition add_amounts :: "'a option \<Rightarrow> 'a option \<Rightarrow> ('a :: {plus, zero}) option" where
  "add_amounts x y = (let t = (case x of None \<Rightarrow> 0 | Some v \<Rightarrow> v) + (case y of None \<Rightarrow> 0 | Some v \<Rightarrow> v) in if t = 0 then None else Some t)"

definition merge_attributes :: "wallet_attributes \<Rightarrow> wallet_attributes \<Rightarrow> wallet_attributes" where
  "merge_attributes excluded wallet =
     \<lparr>wa_isLegacy = wa_isLegacy wallet, wa_secondPublicKey = wa_secondPublicKey wallet, wa_multiSignature = map_option as_text (wa_multiSignature wallet),
      wa_legacyMerge = map_option as_text (wa_legacyMerge wallet), wa_legacyNonce = wa_legacyNonce wallet,
      wa_vote = (if wa_unvote excluded \<noteq> None then None else coalesce (wa_vote excluded) (wa_vote wallet)), wa_unvote = None,
      wa_username = (if wa_usernameResigned excluded = Some True then None else coalesce (wa_username excluded) (wa_username wallet)), wa_usernameResigned = None,
      wa_validatorPublicKey = coalesce (wa_validatorPublicKey excluded) (wa_validatorPublicKey wallet),
      wa_validatorResigned = coalesce (wa_validatorResigned excluded) (wa_validatorResigned wallet),
      wa_validatorVoteBalance = coalesce (wa_validatorVoteBalance excluded) (wa_validatorVoteBalance wallet),
      wa_validatorVotersCount = coalesce (wa_validatorVotersCount excluded) (wa_validatorVotersCount wallet),
      wa_validatorFee = coalesce (wa_validatorFee excluded) (wa_validatorFee wallet),
      wa_validatorLastBlock = coalesce (wa_validatorLastBlock excluded) (wa_validatorLastBlock wallet),
      wa_validatorForgedFees = add_amounts (wa_validatorForgedFees wallet) (wa_validatorForgedFees excluded),
      wa_validatorForgedRewards = add_amounts (wa_validatorForgedRewards wallet) (wa_validatorForgedRewards excluded),
      wa_validatorForgedTotal = add_amounts (wa_validatorForgedTotal wallet) (wa_validatorForgedTotal excluded),
      wa_validatorProducedBlocks = add_amounts (wa_validatorProducedBlocks wallet) (wa_validatorProducedBlocks excluded)\<rparr>"

text \<open>One row of the statement: a new wallet is written as it is, a known one is merged.\<close>

definition upsert_row :: "wallet_row \<Rightarrow> wallet_row option \<Rightarrow> wallet_row" where
  "upsert_row excluded wallet =
     (case wallet of
        None \<Rightarrow> excluded
      | Some w \<Rightarrow> \<lparr>wl_publicKey = coalesce (if wl_publicKey excluded = Some [] then None else wl_publicKey excluded) (wl_publicKey w),
          wl_balance = (if wl_balance excluded = -1 then wl_balance w else wl_balance excluded), wl_nonce = (if wl_nonce excluded = -1 then wl_nonce w else wl_nonce excluded),
          wl_attributes = merge_attributes (wl_attributes excluded) (wl_attributes w), wl_updated_at = wl_updated_at excluded\<rparr>)"

text \<open>A statement must not write a row twice.\<close>

definition upsert_batch :: "(string \<times> wallet_row) list \<Rightarrow> (string, wallet_row) jsmap \<Rightarrow> error + (string, wallet_row) jsmap" where
  "upsert_batch batch wallets =
     (if distinct (map fst batch) then Inr (fold (\<lambda>(a, w) ws. map_set ws a (upsert_row w (map_get ws a))) batch wallets)
      else Inl (JsError ''ON CONFLICT DO UPDATE command cannot affect row a second time''))"

fun upsert_batches :: "(string \<times> wallet_row) list list \<Rightarrow> (string, wallet_row) jsmap \<Rightarrow> error + (string, wallet_row) jsmap" where
  "upsert_batches [] wallets = Inr wallets"
| "upsert_batches (batch # batches) wallets = sum_bind (upsert_batch batch wallets) (upsert_batches batches)"

definition merge_cold_wallet :: "string \<times> string \<times> string \<Rightarrow> (string, cold_wallet_row) jsmap \<Rightarrow> (string, cold_wallet_row) jsmap" where
  "merge_cold_wallet m wallets =
     (case m of (legacyAddress, address, txHash) \<Rightarrow>
        case map_get wallets legacyAddress of
          None \<Rightarrow> wallets
        | Some w \<Rightarrow> map_set wallets legacyAddress (w\<lparr>cw_mergeInfoTransactionHash := Some txHash, cw_mergeInfoWalletAddress := Some address\<rparr>))"

definition update_state :: "block_row \<Rightarrow> (nat \<times> int) option \<Rightarrow> (nat \<times> int) option" where
  "update_state row s =
     (case s of
        None \<Rightarrow> None
      | Some (blockNumber, supply) \<Rightarrow> if int blockNumber = int (kr_number row) - 1 then Some (kr_number row, supply + kr_reward row) else Some (blockNumber, supply))"

definition syncToDatabase :: "api_services \<Rightarrow> deferred_sync \<Rightarrow> api_database \<Rightarrow> error + api_database" where
  "syncToDatabase sv d db =
     sum_bind (upsert_batches (chunk (ds_wallets d) 256) (ap_wallets db)) (\<lambda>wallets.
       Inr (db\<lparr>ap_blocks := insert_or_ignore (kr_hash (ds_block d)) (ds_block d) (ap_blocks db),
               ap_state := update_state (ds_block d) (ap_state db),
               ap_transactions := fold (fold (\<lambda>t. insert_or_ignore (tr_hash t) t)) (chunk (ds_transactions d) 256) (ap_transactions db),
               ap_multiPayments := fold (fold (\<lambda>p. insert_or_ignore (mp_hash p, mp_logIndex p) p)) (chunk (ds_multiPayments d) 256) (ap_multiPayments db),
               ap_validatorRounds := (case ds_validatorRound d of None \<Rightarrow> ap_validatorRounds db | Some r \<Rightarrow> insert_or_ignore (vr_round r) r (ap_validatorRounds db)),
               ap_configuration := map_option (\<lambda>(_, milestone). (sy_version sv, case ds_newMilestones d of None \<Rightarrow> milestone | Some m \<Rightarrow> m)) (ap_configuration db),
               ap_coldWallets := fold merge_cold_wallet (ds_mergedLegacyColdWallets d) (ap_coldWallets db),
               ap_wallets := wallets\<rparr>))"

section \<open>Attempts\<close>

definition nextAttemptDelay :: "nat \<Rightarrow> nat" where
  "nextAttemptDelay attempts = min (500 + attempts * 500) 30000"

text \<open>The job in the queue: \<open>failing k\<close> says that the database refuses the attempt after \<open>k\<close> failures. The result tells whether it was written.\<close>

function sync_attempts :: "nat \<Rightarrow> (nat \<Rightarrow> bool) \<Rightarrow> api_services \<Rightarrow> deferred_sync \<Rightarrow> nat \<Rightarrow> api_database \<Rightarrow> bool \<times> api_database" where
  "sync_attempts maxAttempts failing sv d attempts db =
     (case (if failing attempts then Inl (JsError ''connection'') else syncToDatabase sv d db) of
        Inr db1 \<Rightarrow> (True, db1)
      | Inl _ \<Rightarrow> if attempts + 1 < maxAttempts then sync_attempts maxAttempts failing sv d (attempts + 1) db else (False, db))"
  by pat_completeness auto
termination by (relation "measure (\<lambda>(m, _, _, _, a, _). m - a)") auto

declare sync_attempts.simps [simp del]

section \<open>Start\<close>

text \<open>\<open>#resetDatabaseIfNecessary\<close>: whether the index is kept. The highest number among the blocks is compared with that of the node.\<close>

definition max_height :: "nat \<Rightarrow> api_database \<Rightarrow> nat" where
  "max_height genesisHeight db = (if ap_blocks db = [] then genesisHeight else Max (set (map (\<lambda>(_, r). kr_number r) (ap_blocks db))))"

definition keeps_database :: "nat \<Rightarrow> nat \<Rightarrow> bool \<Rightarrow> bool \<Rightarrow> api_database \<Rightarrow> bool" where
  "keeps_database genesisHeight lastHeight truncateDatabase inMaintenance db \<longleftrightarrow>
     (ap_blocks db \<noteq> [] \<and> max_height genesisHeight db = lastHeight) \<and> \<not> truncateDatabase \<and> \<not> inMaintenance"

definition empty_database :: api_database where
  "empty_database = \<lparr>ap_blocks = [], ap_state = None, ap_transactions = [], ap_multiPayments = [], ap_validatorRounds = [], ap_wallets = [], ap_coldWallets = [],
     ap_configuration = None\<rparr>"

definition resetDatabaseIfNecessary :: "nat \<Rightarrow> nat \<Rightarrow> bool \<Rightarrow> bool \<Rightarrow> api_database \<Rightarrow> api_database" where
  "resetDatabaseIfNecessary genesisHeight lastHeight truncateDatabase inMaintenance db =
     (if keeps_database genesisHeight lastHeight truncateDatabase inMaintenance db then db else empty_database)"

definition api_bootstrap :: "(api_database \<Rightarrow> error + api_database) \<Rightarrow> nat \<Rightarrow> nat \<Rightarrow> bool \<Rightarrow> bool \<Rightarrow> api_database \<Rightarrow> error + api_database" where
  "api_bootstrap restore genesisHeight lastHeight truncateDatabase inMaintenance db =
     (let db1 = resetDatabaseIfNecessary genesisHeight lastHeight truncateDatabase inMaintenance db
      in if ap_blocks db1 = [] then restore db1 else Inr db1)"

end
