(* ===== verification/Api_Restore.thy ===== *)
theory Api_Restore
  imports Api_Sync
begin

text \<open>
  Filling the index from scratch (\<open>packages/api-sync/source/restore.ts\<close>): the stages that read validators and votes from the contract, commits and
  receipts from storage, and accounts from the EVM. What they read is the record \<open>chain_source\<close>; pages of accounts are lists. The rows of a batch of blocks
  are written at its end, where the code writes some of them earlier when many are waiting; the table and the order are the same.

  A node fills the index once and then follows its commits with \<open>Api_Sync\<close>; \<open>Api_Agreement\<close> shows that both ways come to the same blocks,
  transactions, payments and wallets.
\<close>

section \<open>What is read\<close>

record account_info_extended =
  ac_address :: string
  ac_balance :: int
  ac_nonce :: int
  ac_legacyNonce :: "nat option"
  ac_secondPublicKey :: "string option"
  ac_multiSignature :: "string option"

record legacy_cold_wallet =
  lw_address :: string
  lw_balance :: int
  lw_mergeInfo :: "(string \<times> string) option"

record imported_wallet =
  iw_ethAddress :: "string option"
  iw_publicKey :: "string option"
  iw_legacyNonce :: "nat option"

record chain_source =
  sc_commits :: "commit list"
  sc_receipts :: "nat \<Rightarrow> (string, receipt_data) jsmap"
  sc_validators :: "validator_wallet list"
  sc_votes :: "(string \<times> string) list"
  sc_accounts :: "account_info_extended list list"
  sc_coldWallets :: "legacy_cold_wallet list list"
  sc_rounds :: "(nat \<times> (string \<times> int) list) list"
  sc_snapshot :: "((string \<times> string) list \<times> imported_wallet list) option"

record validator_totals =
  va_lastBlock :: "block_header option"
  va_totalForgedFees :: int
  va_totalForgedRewards :: int
  va_producedBlocks :: nat
  va_voteBalance :: int
  va_fee :: nat
  va_votersCount :: nat
  va_blsPublicKey :: string
  va_isResigned :: bool

record user_attributes =
  ua_username :: "string option"
  ua_usernameFromContract :: bool
  ua_vote :: "string option"
  ua_legacyNonce :: "nat option"
  ua_legacyMerge :: "(string \<times> string) option"

definition no_user :: user_attributes where
  "no_user = \<lparr>ua_username = None, ua_usernameFromContract = False, ua_vote = None, ua_legacyNonce = None, ua_legacyMerge = None\<rparr>"

record restore_context =
  rx_keys :: "(string, string) jsmap \<times> (string, string) jsmap"
  rx_legacyAddresses :: "string list"
  rx_lastBlockNumber :: nat
  rx_totalSupply :: int
  rx_validators :: "(string, validator_totals) jsmap"
  rx_users :: "(string, user_attributes) jsmap"
  rx_totalRound :: nat
  rx_validatorRounds :: "(nat, round_info \<times> nat) jsmap"
  rx_db :: api_database

definition update_user :: "string \<Rightarrow> (user_attributes \<Rightarrow> user_attributes) \<Rightarrow> (string, user_attributes) jsmap \<Rightarrow> (string, user_attributes) jsmap" where
  "update_user a f users = map_set users a (f (case map_get users a of None \<Rightarrow> no_user | Some u \<Rightarrow> u))"

section \<open>Stages\<close>

definition new_context :: "nat \<Rightarrow> api_database \<Rightarrow> restore_context" where
  "new_context genesisHeight db = \<lparr>rx_keys = ([], []), rx_legacyAddresses = [], rx_lastBlockNumber = genesisHeight, rx_totalSupply = 0, rx_validators = [], rx_users = [],
     rx_totalRound = 0, rx_validatorRounds = [], rx_db = db\<rparr>"

definition ingestConsensusData :: "chain_source \<Rightarrow> restore_context \<Rightarrow> restore_context" where
  "ingestConsensusData src x =
     x\<lparr>rx_validators := fold (\<lambda>v vs. map_set vs (vw_address v) \<lparr>va_lastBlock = None, va_totalForgedFees = 0, va_totalForgedRewards = 0, va_producedBlocks = 0,
         va_voteBalance = vw_voteBalance v, va_fee = vw_fee v, va_votersCount = vw_votersCount v, va_blsPublicKey = vw_blsPublicKey v, va_isResigned = vw_isResigned v\<rparr>)
         (sc_validators src) (rx_validators x),
       rx_users := fold (\<lambda>(voter, validator). update_user voter (\<lambda>u. u\<lparr>ua_vote := Some validator\<rparr>)) (sc_votes src) (rx_users x)\<rparr>"

definition restore_block_row :: "api_services \<Rightarrow> commit \<Rightarrow> error + block_row" where
  "restore_block_row sv c =
     (let b = bk_header (cm_block c)
      in sum_bind (calculateRound (sy_config sv) (bh_number b)) (\<lambda>info.
        Inr \<lparr>kr_hash = bh_hash b, kr_number = bh_number b, kr_commitRound = cp_round (cm_proof c), kr_fee = bh_fee b, kr_gasUsed = bh_gasUsed b,
          kr_parentHash = bh_parentHash b, kr_payloadSize = bh_payloadSize b, kr_proposer = bh_proposer b, kr_reward = bh_reward b, kr_round = bh_round b,
          kr_signature = cp_signature (cm_proof c), kr_stateRoot = bh_stateRoot b, kr_timestamp = bh_timestamp b, kr_transactionsCount = bh_transactionsCount b,
          kr_transactionsRoot = bh_transactionsRoot b, kr_validatorRound = infoRound info, kr_validatorSet = validatorSetPack (cp_validators (cm_proof c)),
          kr_version = bh_version b\<rparr>))"

definition count_block :: "nat \<Rightarrow> block_header \<Rightarrow> (string, validator_totals) jsmap \<Rightarrow> error + (string, validator_totals) jsmap" where
  "count_block genesisHeight b validators =
     (case map_get validators (bh_proposer b) of
        None \<Rightarrow> if bh_number b \<noteq> genesisHeight then Inl (JsError ''unexpected validator'') else Inr validators
      | Some v \<Rightarrow> Inr (map_set validators (bh_proposer b) (v\<lparr>va_producedBlocks := va_producedBlocks v + 1, va_totalForgedFees := va_totalForgedFees v + bh_fee b,
          va_totalForgedRewards := va_totalForgedRewards v + bh_reward b, va_lastBlock := Some b\<rparr>)))"

definition parseUsernames :: "api_services \<Rightarrow> transaction \<Rightarrow> receipt_data \<Rightarrow> (string \<times> string option) list" where
  "parseUsernames sv t r = (if tx_to t \<noteq> Some (sy_usernameContract sv) then [] else sy_parseUsernames sv r)"

definition restore_transaction_row :: "api_services \<Rightarrow> block_header \<Rightarrow> nat \<Rightarrow> transaction \<Rightarrow> receipt_data \<Rightarrow> transaction_row" where
  "restore_transaction_row sv b index t r =
     (let parsed = parseMultiPayments sv t r
      in \<lparr>tr_hash = tx_hash t, tr_blockHash = bh_hash b, tr_blockNumber = bh_number b, tr_cumulativeGasUsed = rd_cumulativeGasUsed r, tr_data = tx_data t,
          tr_decodedError = sy_transactionError sv t r, tr_deployedContractAddress = rd_contractAddress r, tr_from = tx_from t, tr_gas = tx_gasLimit t,
          tr_gasPrice = tx_gasPrice t, tr_gasRefunded = rd_gasRefunded r, tr_gasUsed = rd_gasUsed r, tr_legacySecondSignature = tx_legacySecondSignature t,
          tr_logs = rd_logs r, tr_multiPaymentRecipients = (if parsed \<noteq> [] then Some (unique_values (map mp_to parsed)) else None), tr_nonce = tx_nonce t,
          tr_output = rd_output r, tr_senderPublicKey = tx_senderPublicKey t, tr_signature = formatEcdsaSignature (tx_r t) (tx_s t) (tx_v t),
          tr_status = rd_status r, tr_timestamp = bh_timestamp b, tr_to = tx_to t, tr_transactionIndex = index, tr_value = tx_value t\<rparr>)"

text \<open>One transaction: its key, the usernames it sets, and its rows.\<close>

definition restore_transaction :: "api_services \<Rightarrow> block_header \<Rightarrow> nat \<Rightarrow> transaction \<Rightarrow> receipt_data \<Rightarrow> restore_context \<Rightarrow> restore_context" where
  "restore_transaction sv b index t r x =
     x\<lparr>rx_keys := learn_key (sy_fromPublicKey sv) (tx_senderPublicKey t) (rx_keys x),
       rx_users := fold (\<lambda>(a, name). update_user a (\<lambda>u. u\<lparr>ua_username := name, ua_usernameFromContract := True\<rparr>)) (parseUsernames sv t r) (rx_users x),
       rx_db := (rx_db x)\<lparr>ap_transactions := insert_or_ignore (tx_hash t) (restore_transaction_row sv b index t r) (ap_transactions (rx_db x)),
         ap_multiPayments := fold (\<lambda>p. insert_or_ignore (mp_hash p, mp_logIndex p) p) (parseMultiPayments sv t r) (ap_multiPayments (rx_db x))\<rparr>\<rparr>"

fun restore_transactions :: "api_services \<Rightarrow> block_header \<Rightarrow> (string, receipt_data) jsmap \<Rightarrow> nat \<Rightarrow> transaction list \<Rightarrow> restore_context \<Rightarrow> error + restore_context" where
  "restore_transactions sv b receipts index [] x = Inr x"
| "restore_transactions sv b receipts index (t # ts) x =
     (case map_get receipts (tx_hash t) of
        None \<Rightarrow> Inl AssertError
      | Some r \<Rightarrow> restore_transactions sv b receipts (index + 1) ts (restore_transaction sv b index t r x))"

definition restore_commit :: "api_services \<Rightarrow> chain_source \<Rightarrow> commit \<Rightarrow> restore_context \<Rightarrow> error + restore_context" where
  "restore_commit sv src c x =
     (let b = bk_header (cm_block c); nc = sy_config sv
      in sum_bind (restore_block_row sv c) (\<lambda>row.
         sum_bind (count_block (nc_genesisNumber nc) b (rx_validators x)) (\<lambda>validators.
         sum_bind (isNewRound nc (bh_number b + 1)) (\<lambda>new.
         sum_bind (if new then sum_bind (calculateRound nc (bh_number b + 1)) (\<lambda>info.
             Inr (map_set (rx_validatorRounds x) (infoRound info) (info, rx_totalRound x + (bh_round b + 1)))) else Inr (rx_validatorRounds x)) (\<lambda>rounds.
         sum_bind (restore_transactions sv b (sc_receipts src (bh_number b)) 0 (bk_transactions (cm_block c))
             (x\<lparr>rx_validators := validators, rx_totalRound := rx_totalRound x + (bh_round b + 1), rx_validatorRounds := rounds,
                rx_db := (rx_db x)\<lparr>ap_blocks := insert_or_ignore (kr_hash row) row (ap_blocks (rx_db x))\<rparr>\<rparr>)) (\<lambda>x1.
           Inr (x1\<lparr>rx_lastBlockNumber := bh_number b\<rparr>)))))))"

fun restore_commits :: "api_services \<Rightarrow> chain_source \<Rightarrow> commit list \<Rightarrow> restore_context \<Rightarrow> error + restore_context" where
  "restore_commits sv src [] x = Inr x"
| "restore_commits sv src (c # cs) x = sum_bind (restore_commit sv src c x) (restore_commits sv src cs)"

text \<open>\<open>readCommits\<close>, and the loop over batches of blocks; the size of a batch is positive by the schema of the configuration.\<close>

definition read_commits :: "chain_source \<Rightarrow> nat \<Rightarrow> nat \<Rightarrow> commit list" where
  "read_commits src from to = filter (\<lambda>c. from \<le> bh_number (bk_header (cm_block c)) \<and> bh_number (bk_header (cm_block c)) \<le> to) (sc_commits src)"

function ingestBlocksAndTransactions :: "api_services \<Rightarrow> chain_source \<Rightarrow> nat \<Rightarrow> nat \<Rightarrow> nat \<Rightarrow> restore_context \<Rightarrow> error + restore_context" where
  "ingestBlocksAndTransactions sv src batchSize lastNumber current x =
     sum_bind (restore_commits sv src (read_commits src (min current lastNumber) (min (current + batchSize - 1) lastNumber)) x) (\<lambda>x1.
       if 0 < batchSize \<and> current + batchSize \<le> lastNumber then ingestBlocksAndTransactions sv src batchSize lastNumber (current + batchSize) x1 else Inr x1)"
  by pat_completeness auto
termination by (relation "measure (\<lambda>(_, _, _, l, c, _). l - c)") auto

declare ingestBlocksAndTransactions.simps [simp del]

definition restore_cold_wallet :: "legacy_cold_wallet \<Rightarrow> restore_context \<Rightarrow> restore_context" where
  "restore_cold_wallet w x =
     (let row = \<lparr>cw_balance = lw_balance w, cw_mergeInfoTransactionHash = map_option snd (lw_mergeInfo w), cw_mergeInfoWalletAddress = map_option fst (lw_mergeInfo w)\<rparr>;
          x1 = x\<lparr>rx_db := (rx_db x)\<lparr>ap_coldWallets := insert_or_ignore (lw_address w) row (ap_coldWallets (rx_db x))\<rparr>\<rparr>
      in case lw_mergeInfo w of
           Some (address, txHash) \<Rightarrow> x1\<lparr>rx_users := update_user address (\<lambda>u. u\<lparr>ua_legacyMerge := Some (lw_address w, txHash)\<rparr>) (rx_users x1)\<rparr>
         | None \<Rightarrow> x1\<lparr>rx_totalSupply := rx_totalSupply x1 + lw_balance w\<rparr>)"

definition ingestLegacyColdWallets :: "chain_source \<Rightarrow> restore_context \<Rightarrow> restore_context" where
  "ingestLegacyColdWallets src x = fold (fold restore_cold_wallet) (sc_coldWallets src) x"

definition take_imported :: "imported_wallet \<Rightarrow> restore_context \<Rightarrow> restore_context" where
  "take_imported w x =
     (case (iw_ethAddress w, iw_publicKey w) of
        (Some a, Some k) \<Rightarrow> if a = [] \<or> k = [] then x
          else x\<lparr>rx_users := update_user a (\<lambda>u. u\<lparr>ua_legacyNonce := iw_legacyNonce w\<rparr>) (rx_users x), rx_legacyAddresses := a # rx_legacyAddresses x,
            rx_keys := (fst (rx_keys x), map_set (snd (rx_keys x)) a k)\<rparr>
      | _ \<Rightarrow> x)"

definition take_snapshot :: "chain_source \<Rightarrow> restore_context \<Rightarrow> restore_context" where
  "take_snapshot src x =
     (case sc_snapshot src of
        None \<Rightarrow> x
      | Some (validators, wallets) \<Rightarrow> fold take_imported wallets
          (x\<lparr>rx_users := fold (\<lambda>(a, name) users. case map_get users a of
               Some u \<Rightarrow> if ua_usernameFromContract u then users else map_set users a (u\<lparr>ua_username := Some name\<rparr>)
             | None \<Rightarrow> map_set users a (no_user\<lparr>ua_username := Some name\<rparr>)) validators (rx_users x)\<rparr>))"

definition positive :: "'a \<Rightarrow> ('a :: {zero, ord}) option" where
  "positive n = (if 0 < n then Some n else None)"

definition restored_wallet :: "restore_context \<Rightarrow> account_info_extended \<Rightarrow> wallet_row" where
  "restored_wallet x account =
     (let a0 = (case map_get (rx_validators x) (ac_address account) of
                  None \<Rightarrow> no_attributes
                | Some v \<Rightarrow> no_attributes\<lparr>wa_validatorFee := Some (va_fee v), wa_validatorPublicKey := Some (va_blsPublicKey v), wa_validatorResigned := Some (va_isResigned v),
                    wa_validatorVoteBalance := Some (va_voteBalance v), wa_validatorVotersCount := Some (va_votersCount v),
                    wa_validatorForgedFees := positive (va_totalForgedFees v), wa_validatorForgedRewards := positive (va_totalForgedRewards v),
                    wa_validatorForgedTotal := positive (va_totalForgedFees v + va_totalForgedRewards v), wa_validatorProducedBlocks := positive (va_producedBlocks v),
                    wa_validatorLastBlock := map_option (\<lambda>b. (bh_hash b, bh_number b, bh_timestamp b)) (va_lastBlock v)\<rparr>);
          a1 = (case map_get (rx_users x) (ac_address account) of
                  None \<Rightarrow> a0
                | Some u \<Rightarrow> a0\<lparr>wa_username := (if truthy (ua_username u) then ua_username u else None), wa_vote := (if truthy (ua_vote u) then ua_vote u else None),
                    wa_legacyNonce := ua_legacyNonce u, wa_isLegacy := (if ua_legacyMerge u \<noteq> None then Some True else None),
                    wa_legacyMerge := map_option (\<lambda>(address, txHash). Json (address @ txHash)) (ua_legacyMerge u)\<rparr>);
          a2 = (if ac_address account \<in> set (rx_legacyAddresses x) then a1\<lparr>wa_isLegacy := Some True\<rparr> else a1);
          a3 = a2\<lparr>wa_legacyNonce := coalesce (ac_legacyNonce account) (wa_legacyNonce a2),
            wa_secondPublicKey := (if truthy (ac_secondPublicKey account) then ac_secondPublicKey account else None),
            wa_multiSignature := map_option Json (ac_multiSignature account)\<rparr>
      in \<lparr>wl_publicKey = map_get (snd (rx_keys x)) (ac_address account), wl_balance = ac_balance account, wl_nonce = ac_nonce account, wl_attributes = a3, wl_updated_at = 0\<rparr>)"

definition ingestWallets :: "chain_source \<Rightarrow> restore_context \<Rightarrow> restore_context" where
  "ingestWallets src x =
     (let x1 = take_snapshot src x
      in x1\<lparr>rx_db := (rx_db x1)\<lparr>ap_wallets := fold (fold (\<lambda>a. insert_or_ignore (ac_address a) (restored_wallet x1 a))) (sc_accounts src) (ap_wallets (rx_db x1))\<rparr>,
            rx_totalSupply := rx_totalSupply x1 + sum_list (map ac_balance (concat (sc_accounts src)))\<rparr>)"

definition restore_round :: "restore_context \<Rightarrow> nat \<times> (string \<times> int) list \<Rightarrow> error + validator_round_row" where
  "restore_round x r =
     (case r of (round, validators) \<Rightarrow>
        case map_get (rx_validatorRounds x) round of
          None \<Rightarrow> Inl AssertError
        | Some (info, totalRound) \<Rightarrow>
            if maxValidators info \<noteq> length validators then Inl (JsError ''mismatch in expected and actual validator count'')
            else let order = map (\<lambda>index. validators ! the (getValidatorIndexFrom (maxValidators info) totalRound index)) [0..<length validators]
                 in Inr \<lparr>vr_round = round, vr_roundHeight = roundHeight info, vr_validators = map fst order, vr_votes = map snd order\<rparr>)"

fun ingestValidatorRounds :: "(nat \<times> (string \<times> int) list) list \<Rightarrow> restore_context \<Rightarrow> error + restore_context" where
  "ingestValidatorRounds [] x = Inr x"
| "ingestValidatorRounds (r # rs) x = sum_bind (restore_round x r) (\<lambda>row.
     ingestValidatorRounds rs (x\<lparr>rx_db := (rx_db x)\<lparr>ap_validatorRounds := insert_or_ignore (vr_round row) row (ap_validatorRounds (rx_db x))\<rparr>\<rparr>))"

definition ingestConfiguration :: "api_services \<Rightarrow> restore_context \<Rightarrow> error + restore_context" where
  "ingestConfiguration sv x =
     sum_bind (milestone_of (sy_config sv) (rx_lastBlockNumber x + 1)) (\<lambda>m.
       Inr (x\<lparr>rx_db := (rx_db x)\<lparr>ap_configuration := Some (sy_version sv, case ap_configuration (rx_db x) of None \<Rightarrow> m | Some (_, old) \<Rightarrow> old)\<rparr>\<rparr>))"

definition ingestState :: "restore_context \<Rightarrow> restore_context" where
  "ingestState x = x\<lparr>rx_db := (rx_db x)\<lparr>ap_state := (case ap_state (rx_db x) of None \<Rightarrow> Some (rx_lastBlockNumber x, rx_totalSupply x) | Some s \<Rightarrow> Some s)\<rparr>\<rparr>"

text \<open>The long database transaction.\<close>

definition restore_index :: "api_services \<Rightarrow> nat \<Rightarrow> chain_source \<Rightarrow> api_database \<Rightarrow> error + api_database" where
  "restore_index sv batchSize src db =
     (let genesis = nc_genesisNumber (sy_config sv); lastNumber = bh_number (bk_header (cm_block (last (sc_commits src))))
      in sum_bind (ingestBlocksAndTransactions sv src batchSize lastNumber genesis (ingestConsensusData src (new_context genesis db))) (\<lambda>x1.
         sum_bind (ingestValidatorRounds (sc_rounds src) (ingestWallets src (ingestLegacyColdWallets src x1))) (\<lambda>x2.
         sum_bind (ingestConfiguration sv x2) (\<lambda>x3.
           Inr (rx_db (ingestState x3))))))"

end
