(* ===== verification/Api_Index.thy ===== *)
theory Api_Index
  imports Api_Restore
begin

text \<open>
  The two ways to fill the index come to the same result: \<open>restore_index\<close> reads the whole chain (\<open>Api_Restore\<close>), \<open>api_onCommit\<close> and \<open>syncToDatabase\<close> follow it block
  by block (\<open>Api_Sync\<close>). \<open>follows\<close> says how the EVM and the storage change with a block, \<open>source_ok\<close> what holds of them at any time; both are laws of code
  outside this model. \<open>index_reach\<close> is the life of an index over commits, failed attempts, stops and starts.
\<close>

section \<open>Batches\<close>

lemma concat_chunk: "0 < n \<Longrightarrow> concat (chunk xs n) = xs"
  by (induction xs n rule: chunk.induct) (subst chunk.simps, simp)

lemma fold_pages: "fold (fold f) xss t = fold f (concat xss) t"
  by (induction xss arbitrary: t) simp_all

lemma fold_chunk: "0 < n \<Longrightarrow> fold (fold f) (chunk xs n) t = fold f xs t"
  by (simp add: fold_pages concat_chunk)

definition upsert_all :: "(string \<times> wallet_row) list \<Rightarrow> (string, wallet_row) jsmap \<Rightarrow> (string, wallet_row) jsmap" where
  "upsert_all ws t = fold (\<lambda>(a, w) ws. map_set ws a (upsert_row w (map_get ws a))) ws t"

lemma upsert_all_get:
  "distinct (map fst ws) \<Longrightarrow> map_get (upsert_all ws t) a = (case map_of ws a of None \<Rightarrow> map_get t a | Some w \<Rightarrow> Some (upsert_row w (map_get t a)))"
proof (induction ws arbitrary: t)
  case Nil
  then show ?case by (simp add: upsert_all_def)
next
  case (Cons p ws)
  obtain b w where p: "p = (b, w)" by fastforce
  have fresh: "map_of ws b = None" using Cons.prems p by (simp add: map_of_eq_None_iff)
  have "upsert_all (p # ws) t = upsert_all ws (map_set t b (upsert_row w (map_get t b)))" by (simp add: upsert_all_def p)
  then show ?case using Cons p fresh by (auto simp: jsmap_simps split: option.splits)
qed

lemma upsert_batches_all: "distinct (map fst (concat bs)) \<Longrightarrow> upsert_batches bs t = Inr (upsert_all (concat bs) t)"
  by (induction bs arbitrary: t) (simp_all add: upsert_batch_def upsert_all_def)

lemma upsert_chunks: "distinct (map fst ws) \<Longrightarrow> upsert_batches (chunk ws 256) t = Inr (upsert_all ws t)"
  using upsert_batches_all [of "chunk ws 256" t] by (simp add: concat_chunk)

section \<open>The wallets of a block\<close>

definition keyed :: "('v \<Rightarrow> 'k) \<Rightarrow> ('k, 'v) jsmap \<Rightarrow> bool" where
  "keyed f m \<longleftrightarrow> map_ok m \<and> (\<forall>(k, v) \<in> set m. f v = k)"

lemma keyed_set: "keyed f m \<Longrightarrow> keyed f (map_set m (f v) v)"
proof -
  assume k: "keyed f m"
  have "f v' = k'" if "(k', v') \<in> set (map_set m (f v) v)" for k' v'
  proof -
    have "map_get (map_set m (f v) v) k' = Some v'" using that k by (intro map_ok_get) (auto simp: keyed_def map_ok_set)
    then show ?thesis using k by (auto simp: keyed_def jsmap_simps split: if_splits dest: map_get_in_set)
  qed
  then show ?thesis using k by (auto simp: keyed_def map_ok_set)
qed

lemma keyed_entries: "keyed f (map_of_entries (map (\<lambda>v. (f v, v)) vs))"
proof -
  have "keyed f (fold (\<lambda>(k, v) m. map_set m k v) (map (\<lambda>v. (f v, v)) vs) m)" if "keyed f m" for m
    using that by (induction vs arbitrary: m) (simp_all add: keyed_set)
  from this [of "[]"] show ?thesis by (simp add: map_of_entries_def) (simp add: keyed_def)
qed

lemma keyed_map_of: "keyed f m \<Longrightarrow> map_of (map (\<lambda>(_, v). (f v, g v)) m) a = map_option g (map_get m a)"
  by (induction m) (auto simp: keyed_def map_ok_def map_get_def)

lemma keyed_keys: "keyed f m \<Longrightarrow> map (\<lambda>(_, v). f v) m = map fst m"
  by (induction m) (auto simp: keyed_def map_ok_def)

lemma keyed_updates: "keyed au_address (with_genesis_account genesis info n (updates_by_address us))"
  using keyed_entries [of au_address us] keyed_set [of au_address "updates_by_address us" "\<lparr>au_address = bh_proposer genesis, au_balance = fst (info (bh_proposer genesis)),
        au_nonce = snd (info (bh_proposer genesis)), au_vote = None, au_unvote = None, au_username = None, au_usernameResigned = False, au_legacyMergeInfo = None\<rparr>"]
  by (auto simp: with_genesis_account_def updates_by_address_def)

lemma keyed_validators: "keyed vw_address (validators_by_address vs)"
  using keyed_entries [of vw_address vs] by (simp add: validators_by_address_def)

lemma set_unique_values [simp]: "set (unique_values xs) = set xs" and distinct_unique_values [simp]: "distinct (unique_values xs)"
  by (simp_all add: unique_values_def)

definition block_wallets :: "(string, validator_wallet) jsmap \<Rightarrow> block_header \<Rightarrow> (string, string) jsmap \<Rightarrow> (string, account_update) jsmap \<Rightarrow> (string \<times> wallet_row) list" where
  "block_wallets dirty header keys updates =
     map (\<lambda>(_, u). account_wallet dirty header keys u) updates @ map (validator_wallet_row dirty header keys) (missing_validators dirty header updates)"

lemma block_wallets_keys:
  assumes "keyed au_address updates"
  shows "map fst (block_wallets dirty header keys updates) = map fst updates @ missing_validators dirty header updates"
  using keyed_keys [OF assms] by (simp add: block_wallets_def comp_def account_wallet_def validator_wallet_row_def case_prod_beta)

lemma block_wallets_distinct: "keyed au_address updates \<Longrightarrow> distinct (map fst (block_wallets dirty header keys updates))"
  by (auto simp: block_wallets_keys missing_validators_def keyed_def map_ok_def map_has_iff)

lemma map_of_constant_keys: "map_of (map (\<lambda>a. (a, g a)) as) a = (if a \<in> set as then Some (g a) else None)"
  by (induction as) auto

lemma block_wallets_get:
  assumes u: "keyed au_address updates" and d: "keyed vw_address dirty"
  shows "map_of (block_wallets dirty header keys updates) a =
    (case map_get updates a of
       Some u \<Rightarrow> Some (snd (account_wallet dirty header keys u))
     | None \<Rightarrow> if a = bh_proposer header \<or> map_has dirty a then Some (snd (validator_wallet_row dirty header keys a)) else None)"
proof -
  have one: "map (\<lambda>(_, u). account_wallet dirty header keys u) updates = map (\<lambda>(_, u). (au_address u, snd (account_wallet dirty header keys u))) updates"
    by (simp add: account_wallet_def)
  have two: "map (validator_wallet_row dirty header keys) ms = map (\<lambda>a. (a, snd (validator_wallet_row dirty header keys a))) ms" for ms
    by (simp add: validator_wallet_row_def)
  have addresses: "set (map (\<lambda>(_, v). vw_address v) dirty) = {a. map_has dirty a}" using keyed_keys [OF d] by (auto simp: map_has_iff image_iff)
  show ?thesis unfolding block_wallets_def map_of_append map_add_def one two keyed_map_of [OF u] map_of_constant_keys
    using addresses by (auto simp: missing_validators_def map_has_get split: option.splits)
qed

section \<open>Keys of senders\<close>

definition knows :: "(string \<Rightarrow> string) \<Rightarrow> string set \<Rightarrow> (string, string) jsmap \<Rightarrow> bool" where
  "knows f ks m \<longleftrightarrow> (\<forall>a k. map_get m a = Some k \<longleftrightarrow> k \<in> ks \<and> f k = a)"

definition coherent :: "(string \<Rightarrow> string) \<Rightarrow> string set \<Rightarrow> (string, string) jsmap \<times> (string, string) jsmap \<Rightarrow> bool" where
  "coherent f ks keys \<longleftrightarrow> (\<forall>k. map_has (fst keys) k \<longleftrightarrow> k \<in> ks) \<and> knows f ks (snd keys)"

lemma knows_set:
  assumes "inj_on f (insert k ks)" and "knows f ks m"
  shows "knows f (insert k ks) (map_set m (f k) k)"
proof -
  have "map_get (map_set m (f k) k) a = Some k' \<longleftrightarrow> k' \<in> insert k ks \<and> f k' = a" for a k'
    using assms(2) [unfolded knows_def, rule_format, of a k'] inj_onD [OF assms(1), of k' k] by (cases "a = f k") (auto simp: jsmap_simps)
  then show ?thesis by (simp add: knows_def)
qed

lemma learn_coherent: "inj_on f (insert k ks) \<Longrightarrow> coherent f ks keys \<Longrightarrow> coherent f (insert k ks) (learn_key f k keys)"
  using knows_set [of f k ks "snd keys"] by (auto simp: coherent_def learn_key_def jsmap_simps insert_absorb split: prod.splits)

lemma learn_all: "inj_on f (set new \<union> ks) \<Longrightarrow> coherent f ks keys \<Longrightarrow> coherent f (set new \<union> ks) (fold (learn_key f) new keys)"
proof (induction new arbitrary: keys ks)
  case (Cons k new)
  have "inj_on f (insert k ks)" "inj_on f (set new \<union> insert k ks)" using Cons.prems(1) by (auto intro: inj_on_subset)
  then show ?case using Cons.IH [OF _ learn_coherent [of f k ks keys]] Cons.prems(2) by simp
qed simp

lemma coherent_empty: "coherent f {} ([], [])"
  by (simp add: coherent_def knows_def)

lemma learned: "inj_on f (set new) \<Longrightarrow> knows f (set new) (snd (fold (learn_key f) new ([], [])))"
  using learn_all [OF _ coherent_empty, of f new] by (simp add: coherent_def)

section \<open>Attributes of users\<close>

definition user_of :: "(string, user_attributes) jsmap \<Rightarrow> string \<Rightarrow> user_attributes" where
  "user_of users a = (case map_get users a of None \<Rightarrow> no_user | Some u \<Rightarrow> u)"

lemma user_of_update [simp]: "user_of (update_user a f users) b = (if b = a then f (user_of users a) else user_of users b)"
  by (simp add: user_of_def update_user_def jsmap_simps)

lemma fold_user:
  assumes "\<And>v b users. user_of (step v users) b = (if b = fst v then g (snd v) (user_of users b) else user_of users b)" and "\<And>v w u. g v (g w u) = g v u"
  shows "user_of (fold step vs users) a = (case map_of (rev vs) a of None \<Rightarrow> user_of users a | Some v \<Rightarrow> g v (user_of users a))"
  by (induction vs arbitrary: users) (auto simp: assms map_of_append map_add_def split: option.splits)

definition set_name :: "string \<times> string option \<Rightarrow> (string, user_attributes) jsmap \<Rightarrow> (string, user_attributes) jsmap" where
  "set_name e = (case e of (a, name) \<Rightarrow> update_user a (\<lambda>u. u\<lparr>ua_username := name, ua_usernameFromContract := True\<rparr>))"

lemma names_of: "user_of (fold set_name es users) a = (case map_of (rev es) a of None \<Rightarrow> user_of users a
    | Some name \<Rightarrow> (user_of users a)\<lparr>ua_username := name, ua_usernameFromContract := True\<rparr>)"
  by (rule fold_user) (simp_all add: set_name_def split: prod.splits)

lemma votes_of: "user_of (fold (\<lambda>(voter, validator). update_user voter (\<lambda>u. u\<lparr>ua_vote := Some validator\<rparr>)) vs users) a
    = (case map_of (rev vs) a of None \<Rightarrow> user_of users a | Some v \<Rightarrow> (user_of users a)\<lparr>ua_vote := Some v\<rparr>)"
  by (rule fold_user) (simp_all split: prod.splits)

lemma snapshot_names:
  "user_of (fold (\<lambda>(a, name) users. case map_get users a of
       Some u \<Rightarrow> if ua_usernameFromContract u then users else map_set users a (u\<lparr>ua_username := Some name\<rparr>)
     | None \<Rightarrow> map_set users a (no_user\<lparr>ua_username := Some name\<rparr>)) vs users) a
   = (case map_of (rev vs) a of None \<Rightarrow> user_of users a
      | Some name \<Rightarrow> if ua_usernameFromContract (user_of users a) then user_of users a else (user_of users a)\<lparr>ua_username := Some name\<rparr>)"
  by (rule fold_user) (auto simp: user_of_def jsmap_simps no_user_def split: prod.splits option.splits)

definition taken_over :: "imported_wallet list \<Rightarrow> (string \<times> string \<times> nat option) list" where
  "taken_over ws = concat (map (\<lambda>w. case (iw_ethAddress w, iw_publicKey w) of
     (Some a, Some k) \<Rightarrow> if a = [] \<or> k = [] then [] else [(a, k, iw_legacyNonce w)] | _ \<Rightarrow> []) ws)"

lemma taken_over_Cons: "taken_over (w # ws) = taken_over [w] @ taken_over ws"
  by (simp add: taken_over_def)

lemma take_imported_fields [simp]:
  "rx_validators (take_imported w x) = rx_validators x" "rx_db (take_imported w x) = rx_db x" "rx_lastBlockNumber (take_imported w x) = rx_lastBlockNumber x"
  by (auto simp: take_imported_def split: option.splits)

lemma taken_fields [simp]:
  "rx_validators (fold take_imported ws x) = rx_validators x" "rx_db (fold take_imported ws x) = rx_db x" "rx_lastBlockNumber (fold take_imported ws x) = rx_lastBlockNumber x"
  by (induction ws arbitrary: x) simp_all

lemma taken_users:
  "user_of (rx_users (fold take_imported ws x)) a = (case map_of (rev (taken_over ws)) a of None \<Rightarrow> user_of (rx_users x) a
     | Some (_, n) \<Rightarrow> (user_of (rx_users x) a)\<lparr>ua_legacyNonce := n\<rparr>)"
proof (induction ws arbitrary: x)
  case (Cons w ws)
  have "user_of (rx_users (take_imported w x)) a = (case map_of (rev (taken_over [w])) a of None \<Rightarrow> user_of (rx_users x) a
      | Some (_, n) \<Rightarrow> (user_of (rx_users x) a)\<lparr>ua_legacyNonce := n\<rparr>)"
    by (auto simp: take_imported_def taken_over_def split: option.splits)
  then show ?case using Cons taken_over_Cons [of w ws] by (auto simp: map_of_append map_add_def split: option.splits)
qed (simp add: taken_over_def)

lemma taken_keys:
  assumes "inj_on f ((\<lambda>(_, k, _). k) ` set (taken_over ws) \<union> ks)" and "\<And>a k n. (a, k, n) \<in> set (taken_over ws) \<Longrightarrow> f k = a" and "knows f ks (snd (rx_keys x))"
  shows "knows f ((\<lambda>(_, k, _). k) ` set (taken_over ws) \<union> ks) (snd (rx_keys (fold take_imported ws x)))"
  using assms
proof (induction ws arbitrary: x ks)
  case (Cons w ws)
  have inj: "inj_on f ((\<lambda>(_, k, _). k) ` set (taken_over ws) \<union> ((\<lambda>(_, k, _). k) ` set (taken_over [w]) \<union> ks))"
    "inj_on f ((\<lambda>(_, k, _). k) ` set (taken_over [w]) \<union> ks)"
    using Cons.prems(1) unfolding taken_over_Cons [of w ws] set_append image_Un by (simp_all only: Un_ac) (erule inj_on_subset, blast)
  have step: "knows f ((\<lambda>(_, k, _). k) ` set (taken_over [w]) \<union> ks) (snd (rx_keys (take_imported w x)))"
  proof (cases "taken_over [w]")
    case Nil
    then show ?thesis using Cons.prems(3) by (auto simp: take_imported_def taken_over_def split: option.splits if_splits)
  next
    case (Cons e es)
    then obtain a k where w: "iw_ethAddress w = Some a" "iw_publicKey w = Some k" "a \<noteq> []" "k \<noteq> []" "taken_over [w] = [(a, k, iw_legacyNonce w)]"
      by (auto simp: taken_over_def split: option.splits if_splits)
    have "f k = a" using Cons.prems(2) [of a k "iw_legacyNonce w"] w(5) taken_over_Cons [of w ws] by simp
    then show ?thesis using knows_set [OF _ Cons.prems(3), of k] inj(2) w by (simp add: take_imported_def)
  qed
  have rest: "f k = a" if "(a, k, n) \<in> set (taken_over ws)" for a k n using Cons.prems(2) [of a k n] that taken_over_Cons [of w ws] by simp
  show ?case using Cons.IH [OF inj(1) rest step] taken_over_Cons [of w ws] by (simp add: image_Un Un_ac)
qed (simp add: taken_over_def)

section \<open>What the stages of a restore leave\<close>

abbreviation commit_header :: "commit \<Rightarrow> block_header" where
  "commit_header c \<equiv> bk_header (cm_block c)"

abbreviation commit_transactions :: "commit \<Rightarrow> transaction list" where
  "commit_transactions c \<equiv> bk_transactions (cm_block c)"

definition name_events :: "api_services \<Rightarrow> (string, receipt_data) jsmap \<Rightarrow> transaction list \<Rightarrow> (string \<times> string option) list" where
  "name_events sv receipts ts = concat (map (\<lambda>t. parseUsernames sv t (the (map_get receipts (tx_hash t)))) ts)"

type_synonym index_tables = "(string, block_row) jsmap \<times> (string, transaction_row) jsmap \<times> (string \<times> nat, multi_payment_row) jsmap"

definition tables_of :: "api_database \<Rightarrow> index_tables" where
  "tables_of db = (ap_blocks db, ap_transactions db, ap_multiPayments db)"

text \<open>The rows of a commit added to the tables.\<close>

definition add_commit :: "api_services \<Rightarrow> (nat \<Rightarrow> (string, receipt_data) jsmap) \<Rightarrow> commit \<Rightarrow> index_tables \<Rightarrow> index_tables" where
  "add_commit sv receipts c tables =
     (case (tables, sync_block_row sv c, sync_transactions sv (commit_header c) (receipts (bh_number (commit_header c))) 0 (commit_transactions c)) of
        ((blocks, transactions, payments), Inr row, Inr (rows, ps)) \<Rightarrow>
          (insert_or_ignore (kr_hash row) row blocks, fold (\<lambda>t. insert_or_ignore (tr_hash t) t) rows transactions,
           fold (\<lambda>p. insert_or_ignore (mp_hash p, mp_logIndex p) p) ps payments)
      | _ \<Rightarrow> tables)"

lemma same_rows: "restore_block_row sv c = sync_block_row sv c" "restore_transaction_row sv b i t r = sync_transaction_row sv b i t r"
  by (simp_all add: restore_block_row_def sync_block_row_def restore_transaction_row_def sync_transaction_row_def Let_def)

lemma row_hash: "tr_hash (sync_transaction_row sv b i t r) = tx_hash t"
  by (simp add: sync_transaction_row_def Let_def)

lemma restored_transactions:
  assumes "restore_transactions sv b receipts i ts x = Inr x'"
  shows "rx_keys x' = fold (learn_key (sy_fromPublicKey sv)) (map tx_senderPublicKey ts) (rx_keys x)
    \<and> rx_users x' = fold set_name (name_events sv receipts ts) (rx_users x) \<and> rx_validators x' = rx_validators x \<and> rx_legacyAddresses x' = rx_legacyAddresses x
    \<and> (\<exists>rows ps. sync_transactions sv b receipts i ts = Inr (rows, ps)
       \<and> rx_db x' = (rx_db x)\<lparr>ap_transactions := fold (\<lambda>t. insert_or_ignore (tr_hash t) t) rows (ap_transactions (rx_db x)),
           ap_multiPayments := fold (\<lambda>p. insert_or_ignore (mp_hash p, mp_logIndex p) p) ps (ap_multiPayments (rx_db x))\<rparr>)"
  using assms
proof (induction ts arbitrary: i x)
  case (Cons t ts)
  then obtain r where r: "map_get receipts (tx_hash t) = Some r" and rest: "restore_transactions sv b receipts (i + 1) ts (restore_transaction sv b i t r x) = Inr x'"
    by (auto split: option.splits)
  let ?x = "restore_transaction sv b i t r x"
  have names: "rx_users ?x = fold set_name (parseUsernames sv t r) (rx_users x)" by (simp add: restore_transaction_def set_name_def [abs_def] case_prod_unfold)
  have keys: "rx_keys ?x = learn_key (sy_fromPublicKey sv) (tx_senderPublicKey t) (rx_keys x)" by (simp add: restore_transaction_def)
  have others: "rx_validators ?x = rx_validators x" "rx_legacyAddresses ?x = rx_legacyAddresses x" by (simp_all add: restore_transaction_def)
  have db: "rx_db ?x = (rx_db x)\<lparr>ap_transactions := insert_or_ignore (tx_hash t) (sync_transaction_row sv b i t r) (ap_transactions (rx_db x)),
      ap_multiPayments := fold (\<lambda>p. insert_or_ignore (mp_hash p, mp_logIndex p) p) (parseMultiPayments sv t r) (ap_multiPayments (rx_db x))\<rparr>"
    by (simp add: restore_transaction_def same_rows)
  show ?case using Cons.IH [OF rest] by (auto simp: names keys others db r name_events_def row_hash)
qed (simp add: name_events_def)

definition add_block :: "block_header \<Rightarrow> validator_totals \<Rightarrow> validator_totals" where
  "add_block b v = v\<lparr>va_producedBlocks := va_producedBlocks v + 1, va_totalForgedFees := va_totalForgedFees v + bh_fee b,
     va_totalForgedRewards := va_totalForgedRewards v + bh_reward b, va_lastBlock := Some b\<rparr>"

definition made_by :: "string \<Rightarrow> commit list \<Rightarrow> block_header list" where
  "made_by a cs = filter (\<lambda>b. bh_proposer b = a) (map commit_header cs)"

lemma counted: "count_block g b vs = Inr vs' \<Longrightarrow> map_get vs' a = map_option (fold add_block (if bh_proposer b = a then [b] else [])) (map_get vs a)"
  by (auto simp: count_block_def jsmap_simps add_block_def option.map_id split: option.splits if_splits)

lemma restored_commit:
  assumes "restore_commit sv src c x = Inr x'"
  shows "rx_keys x' = fold (learn_key (sy_fromPublicKey sv)) (map tx_senderPublicKey (commit_transactions c)) (rx_keys x)
    \<and> rx_users x' = fold set_name (name_events sv (sc_receipts src (bh_number (commit_header c))) (commit_transactions c)) (rx_users x)
    \<and> map_get (rx_validators x') a = map_option (fold add_block (made_by a [c])) (map_get (rx_validators x) a) \<and> rx_legacyAddresses x' = rx_legacyAddresses x
    \<and> ap_wallets (rx_db x') = ap_wallets (rx_db x) \<and> tables_of (rx_db x') = add_commit sv (sc_receipts src) c (tables_of (rx_db x))"
proof -
  let ?b = "commit_header c"
  obtain row validators rounds x1 where row: "sync_block_row sv c = Inr row" and count: "count_block (nc_genesisNumber (sy_config sv)) ?b (rx_validators x) = Inr validators"
    and txs: "restore_transactions sv ?b (sc_receipts src (bh_number ?b)) 0 (commit_transactions c)
             (x\<lparr>rx_validators := validators, rx_totalRound := rx_totalRound x + (bh_round ?b + 1), rx_validatorRounds := rounds,
                rx_db := (rx_db x)\<lparr>ap_blocks := insert_or_ignore (kr_hash row) row (ap_blocks (rx_db x))\<rparr>\<rparr>) = Inr x1"
    and x': "x' = x1\<lparr>rx_lastBlockNumber := bh_number ?b\<rparr>"
    using assms by (auto simp: restore_commit_def Let_def sum_bind_Inr_iff same_rows)
  show ?thesis using restored_transactions [OF txs] counted [OF count, of a] row
    by (auto simp: x' tables_of_def add_commit_def made_by_def)
qed

lemma restored_commits:
  assumes "restore_commits sv src cs x = Inr x'"
  shows "rx_keys x' = fold (learn_key (sy_fromPublicKey sv)) (concat (map (\<lambda>c. map tx_senderPublicKey (commit_transactions c)) cs)) (rx_keys x)
    \<and> rx_users x' = fold set_name (concat (map (\<lambda>c. name_events sv (sc_receipts src (bh_number (commit_header c))) (commit_transactions c)) cs)) (rx_users x)
    \<and> map_get (rx_validators x') a = map_option (fold add_block (made_by a cs)) (map_get (rx_validators x) a) \<and> rx_legacyAddresses x' = rx_legacyAddresses x
    \<and> ap_wallets (rx_db x') = ap_wallets (rx_db x) \<and> tables_of (rx_db x') = fold (add_commit sv (sc_receipts src)) cs (tables_of (rx_db x))"
  using assms
proof (induction cs arbitrary: x)
  case Nil
  then show ?case by (simp add: made_by_def option.map_ident)
next
  case (Cons c cs)
  then obtain x1 where one: "restore_commit sv src c x = Inr x1" and rest: "restore_commits sv src cs x1 = Inr x'" by (auto simp: sum_bind_Inr_iff)
  have "made_by a (c # cs) = made_by a [c] @ made_by a cs" by (simp add: made_by_def)
  then show ?case using restored_commit [OF one, of a] Cons.IH [OF rest] by (simp add: option.map_comp comp_def)
qed

end
