(* ===== verification/Api_Agreement.thy ===== *)
theory Api_Agreement
  imports Api_Index
begin

text \<open>
  The wallets of the index in closed form: what \<open>restore_index\<close> writes for an account, and that following a block with \<open>api_onCommit\<close> and \<open>syncToDatabase\<close>
  keeps it. Then the life of an index and its agreement with a restore.
\<close>

section \<open>What the index says of an account\<close>

definition account_in :: "chain_source \<Rightarrow> string \<Rightarrow> account_info_extended option" where
  "account_in src a = find (\<lambda>acc. ac_address acc = a) (concat (sc_accounts src))"

definition validator_in :: "chain_source \<Rightarrow> string \<Rightarrow> validator_wallet option" where
  "validator_in src a = map_get (validators_by_address (sc_validators src)) a"

definition vote_in :: "chain_source \<Rightarrow> string \<Rightarrow> string option" where
  "vote_in src a = map_of (rev (sc_votes src)) a"

definition block_names :: "api_services \<Rightarrow> chain_source \<Rightarrow> commit \<Rightarrow> (string \<times> string option) list" where
  "block_names sv src c = name_events sv (sc_receipts src (bh_number (commit_header c))) (commit_transactions c)"

definition snapshot_validators :: "chain_source \<Rightarrow> (string \<times> string) list" where
  "snapshot_validators src = (case sc_snapshot src of None \<Rightarrow> [] | Some (vs, _) \<Rightarrow> vs)"

definition snapshot_wallets :: "chain_source \<Rightarrow> (string \<times> string \<times> nat option) list" where
  "snapshot_wallets src = (case sc_snapshot src of None \<Rightarrow> [] | Some (_, ws) \<Rightarrow> taken_over ws)"

definition name_in :: "api_services \<Rightarrow> chain_source \<Rightarrow> string \<Rightarrow> string option" where
  "name_in sv src a =
     (case map_of (rev (concat (map (block_names sv src) (sc_commits src)))) a of Some name \<Rightarrow> name | None \<Rightarrow> map_of (rev (snapshot_validators src)) a)"

definition sender_keys :: "commit list \<Rightarrow> string list" where
  "sender_keys cs = concat (map (\<lambda>c. map tx_senderPublicKey (commit_transactions c)) cs)"

definition keys_in :: "chain_source \<Rightarrow> string set" where
  "keys_in src = (\<lambda>(_, k, _). k) ` set (snapshot_wallets src) \<union> set (sender_keys (sc_commits src))"

definition legacy_nonce_in :: "chain_source \<Rightarrow> account_info_extended \<Rightarrow> nat option" where
  "legacy_nonce_in src acc = coalesce (ac_legacyNonce acc) (case map_of (rev (snapshot_wallets src)) (ac_address acc) of None \<Rightarrow> None | Some (_, n) \<Rightarrow> n)"

definition present :: "string option \<Rightarrow> string option" where
  "present s = (if truthy s then s else None)"

definition validator_matches :: "validator_wallet option \<Rightarrow> block_header list \<Rightarrow> wallet_attributes \<Rightarrow> bool" where
  "validator_matches v bs t \<longleftrightarrow>
     wa_validatorFee t = map_option vw_fee v \<and> wa_validatorPublicKey t = map_option vw_blsPublicKey v \<and> wa_validatorResigned t = map_option vw_isResigned v
     \<and> wa_validatorVoteBalance t = map_option vw_voteBalance v \<and> wa_validatorVotersCount t = map_option vw_votersCount v
     \<and> wa_validatorForgedFees t = (if v = None then None else positive (sum_list (map bh_fee bs)))
     \<and> wa_validatorForgedRewards t = (if v = None then None else positive (sum_list (map bh_reward bs)))
     \<and> wa_validatorForgedTotal t = (if v = None then None else positive (sum_list (map bh_fee bs) + sum_list (map bh_reward bs)))
     \<and> wa_validatorProducedBlocks t = (if v = None then None else positive (length bs))
     \<and> wa_validatorLastBlock t = (if v = None \<or> bs = [] then None else Some (bh_hash (last bs), bh_number (last bs), bh_timestamp (last bs)))"

definition wallet_matches :: "api_services \<Rightarrow> chain_source \<Rightarrow> account_info_extended \<Rightarrow> wallet_row \<Rightarrow> bool" where
  "wallet_matches sv src acc w \<longleftrightarrow>
     (\<forall>k. wl_publicKey w = Some k \<longleftrightarrow> k \<in> keys_in src \<and> sy_fromPublicKey sv k = ac_address acc) \<and> wl_balance w = ac_balance acc \<and> wl_nonce w = ac_nonce acc
     \<and> wa_vote (wl_attributes w) = present (vote_in src (ac_address acc)) \<and> wa_username (wl_attributes w) = present (name_in sv src (ac_address acc))
     \<and> wa_legacyNonce (wl_attributes w) = legacy_nonce_in src acc \<and> wa_secondPublicKey (wl_attributes w) = present (ac_secondPublicKey acc)
     \<and> validator_matches (validator_in src (ac_address acc)) (made_by (ac_address acc) (sc_commits src)) (wl_attributes w)"

section \<open>What holds of the chain and the EVM\<close>

text \<open>
  A stored chain and the EVM in its state: commits are numbered from genesis, amounts are not negative, every block but genesis was proposed by a registered validator,
  the keys that occur have different addresses, and whoever votes, has a name, a key or a validator has an account.
\<close>

definition source_ok :: "api_services \<Rightarrow> chain_source \<Rightarrow> bool" where
  "source_ok sv src \<longleftrightarrow>
     sc_commits src \<noteq> [] \<and> map (\<lambda>c. bh_number (commit_header c)) (sc_commits src) = [nc_genesisNumber (sy_config sv)..<nc_genesisNumber (sy_config sv) + length (sc_commits src)]
     \<and> (\<forall>c \<in> set (sc_commits src). 0 \<le> bh_fee (commit_header c) \<and> 0 \<le> bh_reward (commit_header c)
          \<and> (validator_in src (bh_proposer (commit_header c)) \<noteq> None \<longleftrightarrow> bh_number (commit_header c) \<noteq> nc_genesisNumber (sy_config sv)))
     \<and> distinct (map vw_address (sc_validators src)) \<and> inj_on (sy_fromPublicKey sv) (keys_in src) \<and> (\<forall>(a, k, n) \<in> set (snapshot_wallets src). sy_fromPublicKey sv k = a)
     \<and> (\<forall>a. account_in src a = None \<longrightarrow> validator_in src a = None \<and> vote_in src a = None \<and> name_in sv src a = None \<and> a \<notin> sy_fromPublicKey sv ` keys_in src
          \<and> map_of (rev (snapshot_wallets src)) a = None)"

text \<open>
  How chain and EVM change with a block, as \<open>commit\<close> of the EVM reports it in the updates of accounts (\<open>evm/core/src/state_commit.rs\<close>): an updated account has the
  reported amounts and the others keep theirs; votes and names change as reported, a resignation or unvote before anything else, and names are those the logs of the block
  show, so a name set by another contract that calls the one for usernames is outside; no validator disappears; a sender is updated. Legacy attributes stay: blocks that merge a
  legacy wallet are outside.
\<close>

record block_entry =
  be_commit :: commit
  be_receipts :: "(string, receipt_data) jsmap"
  be_updates :: "account_update list"

definition account_after :: "account_info_extended option \<Rightarrow> account_update \<Rightarrow> account_info_extended" where
  "account_after before u =
     (case before of
        Some acc \<Rightarrow> acc\<lparr>ac_balance := au_balance u, ac_nonce := au_nonce u\<rparr>
      | None \<Rightarrow> \<lparr>ac_address = au_address u, ac_balance = au_balance u, ac_nonce = au_nonce u, ac_legacyNonce = None, ac_secondPublicKey = None, ac_multiSignature = None\<rparr>)"

definition follows :: "api_services \<Rightarrow> chain_source \<Rightarrow> block_entry \<Rightarrow> chain_source \<Rightarrow> bool" where
  "follows sv src e src' \<longleftrightarrow>
     (let updates = updates_by_address (be_updates e); c = be_commit e
      in sc_commits src' = sc_commits src @ [c] \<and> sc_receipts src' (bh_number (commit_header c)) = be_receipts e
         \<and> (\<forall>c0 \<in> set (sc_commits src). sc_receipts src' (bh_number (commit_header c0)) = sc_receipts src (bh_number (commit_header c0))) \<and> sc_snapshot src' = sc_snapshot src
         \<and> (\<forall>a. account_in src' a = (case map_get updates a of Some u \<Rightarrow> Some (account_after (account_in src a) u) | None \<Rightarrow> account_in src a))
         \<and> (\<forall>a u. map_get updates a = Some u \<longrightarrow> 0 \<le> au_balance u \<and> 0 \<le> au_nonce u)
         \<and> (\<forall>a. vote_in src' a = (case map_get updates a of None \<Rightarrow> vote_in src a
              | Some u \<Rightarrow> if truthy (au_unvote u) then None else if truthy (au_vote u) then au_vote u else vote_in src a))
         \<and> (\<forall>a. map_of (rev (block_names sv src' c)) a = (case map_get updates a of None \<Rightarrow> None
              | Some u \<Rightarrow> if au_usernameResigned u then Some None else if truthy (au_username u) then Some (au_username u) else None))
         \<and> (\<forall>a. validator_in src a \<noteq> None \<longrightarrow> validator_in src' a \<noteq> None) \<and> validator_in src (bh_proposer (commit_header c)) \<noteq> None
         \<and> (\<forall>t \<in> set (commit_transactions c). tx_senderPublicKey t \<noteq> [] \<and> map_has updates (sy_fromPublicKey sv (tx_senderPublicKey t))))"

section \<open>Restore\<close>

lemma sum_bind_id [simp]: "sum_bind r Inr = r"
  by (cases r) simp_all

lemma restore_commits_append: "restore_commits sv src (as @ bs) x = sum_bind (restore_commits sv src as x) (restore_commits sv src bs)"
proof (induction as arbitrary: x)
  case (Cons c as)
  show ?case by (cases "restore_commit sv src c x") (simp_all add: Cons)
qed simp

lemma filter_split:
  "sorted (map f xs) \<Longrightarrow> m \<le> l \<Longrightarrow> filter (\<lambda>x. c \<le> f x \<and> f x \<le> l) xs = filter (\<lambda>x. c \<le> f x \<and> f x \<le> m) xs @ filter (\<lambda>x. c \<le> f x \<and> m < f x \<and> f x \<le> l) xs" for f :: "'a \<Rightarrow> nat"
proof (induction xs)
  case (Cons x xs)
  show ?case
  proof (cases "f x \<le> m")
    case False
    then have "filter (\<lambda>x. c \<le> f x \<and> f x \<le> m) xs = []" using Cons.prems(1) by (fastforce simp: filter_empty_conv)
    then show ?thesis using Cons False by auto
  qed (use Cons in auto)
qed simp

lemma batches_are_one_pass:
  assumes "sorted (map (\<lambda>c. bh_number (commit_header c)) (sc_commits src))" and "0 < n" and "current \<le> l"
  shows "ingestBlocksAndTransactions sv src n l current x = restore_commits sv src (read_commits src current l) x"
  using assms(3)
proof (induction "l - current" arbitrary: current x rule: less_induct)
  case less
  show ?case
  proof (cases "current + n \<le> l")
    case True
    have eq: "current \<le> k \<and> current + n - 1 < k \<and> k \<le> l \<longleftrightarrow> current + n \<le> k \<and> k \<le> l" for k using assms(2) by auto
    have "read_commits src current l = read_commits src current (current + n - 1) @ read_commits src (current + n) l"
      using filter_split [OF assms(1), of "current + n - 1" l current] True unfolding read_commits_def eq by simp
    moreover have "min current l = current" "min (current + n - 1) l = current + n - 1" using True less.prems by auto
    moreover have "ingestBlocksAndTransactions sv src n l (current + n) y = restore_commits sv src (read_commits src (current + n) l) y" for y
      by (rule less.hyps) (use True assms(2) in auto)
    ultimately show ?thesis using True assms(2) by (subst ingestBlocksAndTransactions.simps) (simp add: restore_commits_append)
  next
    case False
    then have "min current l = current" "min (current + n - 1) l = l" using less.prems by auto
    with False show ?thesis by (subst ingestBlocksAndTransactions.simps) simp
  qed
qed

lemma insert_get: "map_get (insert_or_ignore k v t) k' = (if k' = k \<and> map_get t k = None then Some v else map_get t k')"
  by (simp add: insert_or_ignore_def jsmap_simps map_has_get)

lemma insert_all_get:
  "map_get (fold (\<lambda>x. insert_or_ignore (f x) (g x)) xs t) b = (case map_get t b of Some w \<Rightarrow> Some w | None \<Rightarrow> map_option g (find (\<lambda>x. f x = b) xs))"
  by (induction xs arbitrary: t) (auto simp: insert_get split: option.splits)

lemma insert_pages_get:
  "map_get (fold (fold (\<lambda>x. insert_or_ignore (f x) (g x))) xss t) b = (case map_get t b of Some w \<Rightarrow> Some w | None \<Rightarrow> map_option g (find (\<lambda>x. f x = b) (concat xss)))"
  by (simp add: fold_pages insert_all_get)

lemma consensus_validators:
  "map_get (rx_validators (ingestConsensusData src (new_context g db))) a = map_option (\<lambda>v. \<lparr>va_lastBlock = None, va_totalForgedFees = 0, va_totalForgedRewards = 0, va_producedBlocks = 0,
     va_voteBalance = vw_voteBalance v, va_fee = vw_fee v, va_votersCount = vw_votersCount v, va_blsPublicKey = vw_blsPublicKey v, va_isResigned = vw_isResigned v\<rparr>) (validator_in src a)"
proof -
  have "map_get (fold (\<lambda>v vs. map_set vs (vw_address v) (h v)) vs m) a = (case map_of (rev (map (\<lambda>v. (vw_address v, v)) vs)) a of None \<Rightarrow> map_get m a | Some v \<Rightarrow> Some (h v))"
    for vs m and h :: "validator_wallet \<Rightarrow> validator_totals"
    by (induction vs arbitrary: m) (auto simp: jsmap_simps map_of_append map_add_def split: option.splits)
  then show ?thesis
    by (simp add: ingestConsensusData_def new_context_def validator_in_def validators_by_address_def map_of_entries_get split: option.splits)
qed

lemma consensus_users: "user_of (rx_users (ingestConsensusData src (new_context g db))) a = no_user\<lparr>ua_vote := vote_in src a\<rparr>"
  by (simp add: ingestConsensusData_def new_context_def votes_of vote_in_def user_of_def [of "[]"] no_user_def split: option.splits)

definition cold_frame :: "restore_context \<Rightarrow> restore_context \<Rightarrow> bool" where
  "cold_frame x x' \<longleftrightarrow> rx_keys x' = rx_keys x \<and> rx_validators x' = rx_validators x \<and> tables_of (rx_db x') = tables_of (rx_db x) \<and> ap_wallets (rx_db x') = ap_wallets (rx_db x)
     \<and> (\<forall>a. ua_username (user_of (rx_users x') a) = ua_username (user_of (rx_users x) a) \<and> ua_usernameFromContract (user_of (rx_users x') a) = ua_usernameFromContract (user_of (rx_users x) a)
          \<and> ua_vote (user_of (rx_users x') a) = ua_vote (user_of (rx_users x) a) \<and> ua_legacyNonce (user_of (rx_users x') a) = ua_legacyNonce (user_of (rx_users x) a))"

lemma cold_frame_one: "cold_frame x (restore_cold_wallet w x)"
  by (auto simp: cold_frame_def restore_cold_wallet_def Let_def tables_of_def split: option.splits)

lemma cold_frame_fold: "cold_frame x (fold restore_cold_wallet ws x)"
proof (induction ws arbitrary: x)
  case (Cons w ws)
  show ?case using Cons [of "restore_cold_wallet w x"] cold_frame_one [of x w] by (simp add: cold_frame_def)
qed (simp add: cold_frame_def)

lemma cold_frame_all: "cold_frame x (ingestLegacyColdWallets src x)"
proof -
  have "cold_frame x (fold (fold restore_cold_wallet) wss x)" for wss
  proof (induction wss arbitrary: x)
    case (Cons ws wss)
    show ?case using Cons [of "fold restore_cold_wallet ws x"] cold_frame_fold [of x ws] by (simp add: cold_frame_def)
  qed (simp add: cold_frame_def)
  then show ?thesis by (simp add: ingestLegacyColdWallets_def)
qed

lemma rounds_frame: "ingestValidatorRounds rs x = Inr x' \<Longrightarrow> ap_wallets (rx_db x') = ap_wallets (rx_db x) \<and> tables_of (rx_db x') = tables_of (rx_db x)"
  by (induction rs arbitrary: x) (fastforce simp: sum_bind_Inr_iff tables_of_def)+

lemma snapshot_users:
  "user_of (rx_users (take_snapshot src x)) a =
    (let u = user_of (rx_users x) a;
         u1 = (case map_of (rev (snapshot_validators src)) a of None \<Rightarrow> u | Some name \<Rightarrow> if ua_usernameFromContract u then u else u\<lparr>ua_username := Some name\<rparr>)
     in case map_of (rev (snapshot_wallets src)) a of None \<Rightarrow> u1 | Some (_, n) \<Rightarrow> u1\<lparr>ua_legacyNonce := n\<rparr>)"
  by (simp add: take_snapshot_def snapshot_validators_def snapshot_wallets_def taken_users snapshot_names Let_def split: option.splits prod.splits)

lemma snapshot_frame [simp]: "rx_validators (take_snapshot src x) = rx_validators x" "rx_db (take_snapshot src x) = rx_db x"
  by (simp_all add: take_snapshot_def split: option.splits prod.splits)

lemma snapshot_keys:
  assumes "inj_on f ((\<lambda>(_, k, _). k) ` set (snapshot_wallets src) \<union> ks)" and "\<forall>(a, k, n) \<in> set (snapshot_wallets src). f k = a" and "knows f ks (snd (rx_keys x))"
  shows "knows f ((\<lambda>(_, k, _). k) ` set (snapshot_wallets src) \<union> ks) (snd (rx_keys (take_snapshot src x)))"
proof (cases "sc_snapshot src")
  case (Some p)
  obtain vs ws where p: "p = (vs, ws)" by fastforce
  have keys: "f k = a" if "(a, k, n) \<in> set (taken_over ws)" for a k n using assms(2) that by (auto simp: snapshot_wallets_def Some p)
  show ?thesis using taken_keys [OF _ keys] assms(1,3) by (simp add: take_snapshot_def snapshot_wallets_def Some p)
qed (use assms(3) in \<open>simp add: take_snapshot_def snapshot_wallets_def\<close>)

lemma fold_add_block:
  "fold add_block bs v = v\<lparr>va_producedBlocks := va_producedBlocks v + length bs, va_totalForgedFees := va_totalForgedFees v + sum_list (map bh_fee bs),
     va_totalForgedRewards := va_totalForgedRewards v + sum_list (map bh_reward bs), va_lastBlock := (if bs = [] then va_lastBlock v else Some (last bs))\<rparr>"
  by (induction bs arbitrary: v) (simp_all add: add_block_def)

lemma restored_wallet_fields:
  fixes x acc
  defines "w \<equiv> restored_wallet x acc" and "u \<equiv> user_of (rx_users x) (ac_address acc)" and "v \<equiv> map_get (rx_validators x) (ac_address acc)"
  shows "wl_publicKey w = map_get (snd (rx_keys x)) (ac_address acc)" "wl_balance w = ac_balance acc" "wl_nonce w = ac_nonce acc"
    "wa_vote (wl_attributes w) = present (ua_vote u)" "wa_username (wl_attributes w) = present (ua_username u)"
    "wa_legacyNonce (wl_attributes w) = coalesce (ac_legacyNonce acc) (ua_legacyNonce u)" "wa_secondPublicKey (wl_attributes w) = present (ac_secondPublicKey acc)"
    "wa_validatorFee (wl_attributes w) = map_option va_fee v" "wa_validatorPublicKey (wl_attributes w) = map_option va_blsPublicKey v"
    "wa_validatorResigned (wl_attributes w) = map_option va_isResigned v" "wa_validatorVoteBalance (wl_attributes w) = map_option va_voteBalance v"
    "wa_validatorVotersCount (wl_attributes w) = map_option va_votersCount v"
    "wa_validatorForgedFees (wl_attributes w) = Option.bind v (\<lambda>v. positive (va_totalForgedFees v))"
    "wa_validatorForgedRewards (wl_attributes w) = Option.bind v (\<lambda>v. positive (va_totalForgedRewards v))"
    "wa_validatorForgedTotal (wl_attributes w) = Option.bind v (\<lambda>v. positive (va_totalForgedFees v + va_totalForgedRewards v))"
    "wa_validatorProducedBlocks (wl_attributes w) = Option.bind v (\<lambda>v. positive (va_producedBlocks v))"
    "wa_validatorLastBlock (wl_attributes w) = Option.bind v (\<lambda>v. map_option (\<lambda>b. (bh_hash b, bh_number b, bh_timestamp b)) (va_lastBlock v))"
  unfolding w_def u_def v_def restored_wallet_def Let_def
  by (simp_all add: user_of_def no_user_def no_attributes_def present_def truthy_def split: option.splits)

lemma restored_state:
  assumes r: "restore_commits sv src (sc_commits src) (ingestConsensusData src (new_context g empty_database)) = Inr x1"
    and ok: "source_ok sv src"
  defines "x \<equiv> take_snapshot src (ingestLegacyColdWallets src x1)"
  shows "knows (sy_fromPublicKey sv) (keys_in src) (snd (rx_keys x))" "ua_vote (user_of (rx_users x) a) = vote_in src a"
    "ua_username (user_of (rx_users x) a) = name_in sv src a"
    "ua_legacyNonce (user_of (rx_users x) a) = (case map_of (rev (snapshot_wallets src)) a of None \<Rightarrow> None | Some (_, n) \<Rightarrow> n)"
    "map_get (rx_validators x) a = map_option (\<lambda>v. fold add_block (made_by a (sc_commits src)) \<lparr>va_lastBlock = None, va_totalForgedFees = 0, va_totalForgedRewards = 0, va_producedBlocks = 0,
       va_voteBalance = vw_voteBalance v, va_fee = vw_fee v, va_votersCount = vw_votersCount v, va_blsPublicKey = vw_blsPublicKey v, va_isResigned = vw_isResigned v\<rparr>) (validator_in src a)"
    "ap_wallets (rx_db x) = []" "tables_of (rx_db x) = fold (add_commit sv (sc_receipts src)) (sc_commits src) ([], [], [])"
proof -
  let ?x0 = "ingestConsensusData src (new_context g empty_database)"
  have start: "rx_keys ?x0 = ([], [])" "ap_wallets (rx_db ?x0) = []" "tables_of (rx_db ?x0) = ([], [], [])"
    by (simp_all add: ingestConsensusData_def new_context_def empty_database_def tables_of_def)
  note parts = restored_commits [OF r, unfolded start]
  note cold = cold_frame_all [of x1 src, unfolded cold_frame_def]
  have inj: "inj_on (sy_fromPublicKey sv) (keys_in src)" using ok by (simp add: source_ok_def)
  have keys1: "knows (sy_fromPublicKey sv) (set (sender_keys (sc_commits src))) (snd (rx_keys x1))"
    using parts learned [OF inj_on_subset [OF inj], of "sender_keys (sc_commits src)"] by (simp add: sender_keys_def keys_in_def)
  show "knows (sy_fromPublicKey sv) (keys_in src) (snd (rx_keys x))"
    using snapshot_keys [OF inj [unfolded keys_in_def] _ keys1 [folded conjunct1 [OF cold]]] ok by (simp add: x_def keys_in_def source_ok_def)
  have user1: "user_of (rx_users x1) b = (case map_of (rev (concat (map (block_names sv src) (sc_commits src)))) b of None \<Rightarrow> no_user\<lparr>ua_vote := vote_in src b\<rparr>
      | Some name \<Rightarrow> no_user\<lparr>ua_vote := vote_in src b, ua_username := name, ua_usernameFromContract := True\<rparr>)" for b
    using parts by (simp add: names_of consensus_users block_names_def [abs_def] split: option.splits)
  show "ua_vote (user_of (rx_users x) a) = vote_in src a" "ua_username (user_of (rx_users x) a) = name_in sv src a"
    "ua_legacyNonce (user_of (rx_users x) a) = (case map_of (rev (snapshot_wallets src)) a of None \<Rightarrow> None | Some (_, n) \<Rightarrow> n)"
    using cold user1 [of a] by (auto simp: x_def snapshot_users Let_def name_in_def no_user_def split: option.splits)
  show "map_get (rx_validators x) a = map_option (\<lambda>v. fold add_block (made_by a (sc_commits src)) \<lparr>va_lastBlock = None, va_totalForgedFees = 0, va_totalForgedRewards = 0, va_producedBlocks = 0,
       va_voteBalance = vw_voteBalance v, va_fee = vw_fee v, va_votersCount = vw_votersCount v, va_blsPublicKey = vw_blsPublicKey v, va_isResigned = vw_isResigned v\<rparr>) (validator_in src a)"
    using cold parts by (simp add: x_def consensus_validators option.map_comp comp_def)
  show "ap_wallets (rx_db x) = []" "tables_of (rx_db x) = fold (add_commit sv (sc_receipts src)) (sc_commits src) ([], [], [])" using cold parts by (simp_all add: x_def)
qed

definition chain_tables :: "api_services \<Rightarrow> chain_source \<Rightarrow> index_tables" where
  "chain_tables sv src = fold (add_commit sv (sc_receipts src)) (sc_commits src) ([], [], [])"

text \<open>A row without an account in the EVM says nothing but an amount.\<close>

definition blank :: "wallet_row \<Rightarrow> bool" where
  "blank w \<longleftrightarrow> wl_publicKey w = None \<and> wl_attributes w = no_attributes"

text \<open>What an index says that is in step with the chain.\<close>

definition index_matches :: "api_services \<Rightarrow> chain_source \<Rightarrow> api_database \<Rightarrow> bool" where
  "index_matches sv src db \<longleftrightarrow> tables_of db = chain_tables sv src
     \<and> (\<forall>a acc. account_in src a = Some acc \<longrightarrow> (\<exists>w. map_get (ap_wallets db) a = Some w \<and> wallet_matches sv src acc w))
     \<and> (\<forall>a w. account_in src a = None \<and> map_get (ap_wallets db) a = Some w \<longrightarrow> blank w)"

lemma account_in_address: "account_in src a = Some acc \<Longrightarrow> ac_address acc = a"
  by (auto simp: account_in_def find_Some_iff)

lemma source_numbers:
  assumes "source_ok sv src"
  shows "sorted (map (\<lambda>c. bh_number (commit_header c)) (sc_commits src))" "read_commits src (nc_genesisNumber (sy_config sv)) (bh_number (commit_header (last (sc_commits src)))) = sc_commits src"
    "nc_genesisNumber (sy_config sv) \<le> bh_number (commit_header (last (sc_commits src)))"
    "bh_number (commit_header (last (sc_commits src))) = nc_genesisNumber (sy_config sv) + length (sc_commits src) - 1"
proof -
  let ?g = "nc_genesisNumber (sy_config sv)" and ?cs = "sc_commits src" and ?n = "\<lambda>c. bh_number (commit_header c)"
  have ne: "?cs \<noteq> []" and nums: "map ?n ?cs = [?g..<?g + length ?cs]" using assms by (simp_all add: source_ok_def)
  have "?n (last ?cs) = last (map ?n ?cs)" using ne by (simp add: last_map)
  also have "\<dots> = ?g + length ?cs - 1" using ne unfolding nums by (simp add: last_upt)
  finally show l: "?n (last ?cs) = ?g + length ?cs - 1" .
  show "sorted (map ?n ?cs)" unfolding nums by simp
  show "?g \<le> ?n (last ?cs)" using ne unfolding l by (cases ?cs) auto
  have "?g \<le> ?n c \<and> ?n c \<le> ?n (last ?cs)" if "c \<in> set ?cs" for c
  proof -
    have "?n c \<in> set [?g..<?g + length ?cs]" using that unfolding nums [symmetric] by simp
    then show ?thesis unfolding l by auto
  qed
  then show "read_commits src ?g (?n (last ?cs)) = ?cs" by (simp add: read_commits_def filter_id_conv)
qed

lemma restored_matches:
  assumes r: "restore_index sv n src empty_database = Inr db" and n: "0 < n" and ok: "source_ok sv src"
  shows "index_matches sv src db \<and> (\<forall>a w. map_get (ap_wallets db) a = Some w \<longrightarrow> (\<exists>acc. account_in src a = Some acc \<and> wallet_matches sv src acc w))"
proof -
  let ?g = "nc_genesisNumber (sy_config sv)"
  obtain x1 x2 where x1: "restore_commits sv src (sc_commits src) (ingestConsensusData src (new_context ?g empty_database)) = Inr x1"
    and x2: "ingestValidatorRounds (sc_rounds src) (ingestWallets src (ingestLegacyColdWallets src x1)) = Inr x2"
    and db: "ap_wallets db = ap_wallets (rx_db x2)" "tables_of db = tables_of (rx_db x2)"
    using r batches_are_one_pass [OF source_numbers(1) [OF ok] n source_numbers(3) [OF ok]] source_numbers(2) [OF ok]
    by (auto simp: restore_index_def Let_def sum_bind_Inr_iff ingestConfiguration_def ingestState_def tables_of_def)
  let ?x = "take_snapshot src (ingestLegacyColdWallets src x1)"
  note st = restored_state [OF x1 ok]
  have w: "map_get (ap_wallets db) a = map_option (restored_wallet ?x) (account_in src a)" for a
    using rounds_frame [OF x2] db(1) st(6) by (simp add: ingestWallets_def Let_def insert_pages_get account_in_def)
  have t: "tables_of db = chain_tables sv src" using rounds_frame [OF x2] db(2) st(7) by (simp add: ingestWallets_def Let_def tables_of_def chain_tables_def)
  have m: "wallet_matches sv src acc (restored_wallet ?x acc)" for acc
    using st(1) unfolding wallet_matches_def validator_matches_def restored_wallet_fields st(2-5)
    by (auto simp: knows_def legacy_nonce_in_def fold_add_block split: option.splits)
  show ?thesis using w t m by (auto simp: index_matches_def)
qed

section \<open>Following a block\<close>

lemma positive_add: "0 \<le> x \<Longrightarrow> 0 \<le> y \<Longrightarrow> add_amounts (positive x) (Some y) = positive (x + y)" "add_amounts (positive x) None = positive x" "add_amounts None None = (None :: int option)"
  for x y :: int
  by (auto simp: add_amounts_def positive_def Let_def)

lemma positive_count: "add_amounts (positive x) (Some y) = positive (x + y)" "add_amounts (positive x) None = positive x" "add_amounts None None = (None :: nat option)"
  for x y :: nat
  by (auto simp: add_amounts_def positive_def Let_def)

lemma account_attributes_fields:
  "wa_validatorFee (account_attributes u t) = wa_validatorFee t" "wa_validatorPublicKey (account_attributes u t) = wa_validatorPublicKey t"
  "wa_validatorResigned (account_attributes u t) = wa_validatorResigned t" "wa_validatorVoteBalance (account_attributes u t) = wa_validatorVoteBalance t"
  "wa_validatorVotersCount (account_attributes u t) = wa_validatorVotersCount t" "wa_validatorForgedFees (account_attributes u t) = wa_validatorForgedFees t"
  "wa_validatorForgedRewards (account_attributes u t) = wa_validatorForgedRewards t" "wa_validatorForgedTotal (account_attributes u t) = wa_validatorForgedTotal t"
  "wa_validatorProducedBlocks (account_attributes u t) = wa_validatorProducedBlocks t" "wa_validatorLastBlock (account_attributes u t) = wa_validatorLastBlock t"
  "wa_legacyNonce (account_attributes u t) = wa_legacyNonce t" "wa_secondPublicKey (account_attributes u t) = wa_secondPublicKey t"
  by (simp_all add: account_attributes_def Let_def split: option.splits prod.splits)

lemma account_attributes_validator:
  "validator_matches v bs (account_attributes u t) = validator_matches v bs t"
  "validator_matches v bs (merge_attributes (account_attributes u t) old) = validator_matches v bs (merge_attributes t old)"
  by (simp_all add: validator_matches_def merge_attributes_def account_attributes_fields)

lemma made_by_snoc: "made_by a (cs @ [c]) = made_by a cs @ (if bh_proposer (commit_header c) = a then [commit_header c] else [])"
  by (simp add: made_by_def)

text \<open>The part of a validator: \<open>v\<close> before the block and \<open>v'\<close> after it.\<close>

lemma validator_step:
  assumes old: "validator_matches v bs t" and v': "v' = coalesce (map_get dirty a) v" and proposer: "bh_proposer h = a \<longrightarrow> v \<noteq> None"
    and new: "v = None \<and> v' \<noteq> None \<longrightarrow> bs = []" and signs: "\<forall>b \<in> set bs. 0 \<le> bh_fee b \<and> 0 \<le> bh_reward b" "0 \<le> bh_fee h" "0 \<le> bh_reward h"
  shows "validator_matches v' (bs @ (if bh_proposer h = a then [h] else [])) (merge_attributes (validatorAttributes dirty h a) t)"
proof -
  have sums: "0 \<le> sum_list (map bh_fee bs)" "0 \<le> sum_list (map bh_reward bs)" using signs(1) by (auto intro!: sum_list_nonneg)
  show ?thesis
  proof (cases v)
    case None
    then show ?thesis using old v' proposer new
      by (auto simp: validator_matches_def merge_attributes_def validatorAttributes_def no_attributes_def coalesce_def positive_add positive_count positive_def split: option.splits)
  next
    case (Some c)
    then have "v' \<noteq> None" using v' by (auto simp: coalesce_def split: option.splits)
    then show ?thesis using old v' Some sums signs
      by (cases "map_get dirty a"; cases "bh_proposer h = a")
        (simp_all add: validator_matches_def merge_attributes_def validatorAttributes_def no_attributes_def coalesce_def positive_add positive_count algebra_simps split: if_splits)
  qed
qed

lemma validator_new:
  assumes "v' = map_get dirty a" and "bh_proposer h \<noteq> a" and "bs = [] \<or> v' = None"
  shows "validator_matches v' bs (validatorAttributes dirty h a)"
  using assms by (auto simp: validator_matches_def validatorAttributes_def no_attributes_def positive_def split: option.splits)

lemma find_fresh: "k \<notin> f ` set xs \<Longrightarrow> find (\<lambda>x. f x = k) xs = None"
  by (auto simp: find_None_iff)

lemma by_address_get:
  assumes "distinct (map vw_address vs)"
  shows "map_get (validators_by_address vs) a = find (\<lambda>v. vw_address v = a) vs"
  using assms
proof (induction vs rule: rev_induct)
  case (snoc v vs)
  then have "find (\<lambda>w. vw_address w = vw_address v) vs = None" by (intro find_fresh) simp
  with snoc show ?case by (auto simp: validators_by_address_def map_of_entries_get find_append split: option.splits)
qed (simp add: validators_by_address_def map_of_entries_def)

lemma changed_get:
  assumes d: "distinct (map vw_address vs)"
  shows "map_get (validators_by_address (filter (\<lambda>v. validator_changed v (old (vw_address v))) vs)) a
    = (case find (\<lambda>v. vw_address v = a) vs of None \<Rightarrow> None | Some v \<Rightarrow> if validator_changed v (old a) then Some v else None)"
proof -
  have d': "distinct (map vw_address (filter P vs))" for P using d by (simp add: distinct_map_filter)
  show ?thesis unfolding by_address_get [OF d'] using d
  proof (induction vs)
    case (Cons v vs)
    then have "vw_address v = a \<Longrightarrow> find (\<lambda>w. vw_address w = a) vs = None" by (intro find_fresh) auto
    moreover have "vw_address v = a \<Longrightarrow> find (\<lambda>w. vw_address w = a) (filter P vs) = None" for P using Cons.prems by (intro find_fresh) auto
    ultimately show ?case using Cons by auto
  qed simp
qed

lemma build_keeps: "buildRoundValidators nc st cs vs = Done vs' \<Longrightarrow> vs_allValidators vs' = vs_allValidators vs"
  by (auto simp: buildRoundValidators_def split: sum.splits)

lemma validators_after:
  assumes ok: "source_ok sv src'" and old: "\<And>a. map_get (vs_allValidators vs) a = validator_in src a" and mono: "\<And>a. validator_in src a \<noteq> None \<Longrightarrow> validator_in src' a \<noteq> None"
    and c: "ct_getAllValidators cs = Inr (sc_validators src')" and committed: "validator_onCommit nc st cs True n vs = Done vs'"
  shows "validator_in src' a = coalesce (map_get (validators_by_address (vs_dirtyValidators vs')) a) (validator_in src a)" "map_get (vs_allValidators vs') a = validator_in src' a"
proof -
  have d: "distinct (map vw_address (sc_validators src'))" using ok by (simp add: source_ok_def)
  obtain vs1 where vs1: "vs_allValidators vs1 = vs_allValidators vs" "calculateChangedValidators cs vs1 = Done vs'"
    using committed build_keeps [of nc st cs vs] by (auto simp: validator_onCommit_def and_then_Done_iff split: sum.splits if_splits)
  have dirty: "vs_dirtyValidators vs' = filter (\<lambda>v. validator_changed v (validator_in src (vw_address v))) (sc_validators src')"
    using vs1 by (auto simp: calculateChangedValidators_def c old)
  have find: "validator_in src' b = find (\<lambda>v. vw_address v = b) (sc_validators src')" for b unfolding validator_in_def by (rule by_address_get [OF d])
  have same: "v = w" if "\<not> validator_changed v (validator_in src a)" "validator_in src' a = Some v" "validator_in src a = Some w" for v w
  proof -
    have "vw_address v = a" "vw_address w = a" using that(2,3) keyed_validators by (auto simp: validator_in_def keyed_def dest!: map_get_in_set)
    with that show ?thesis by (cases v; cases w) (simp add: validator_changed_def)
  qed
  show "validator_in src' a = coalesce (map_get (validators_by_address (vs_dirtyValidators vs')) a) (validator_in src a)"
    unfolding dirty changed_get [OF d] find [symmetric] using mono [of a] same
    by (cases "validator_in src a"; cases "validator_in src' a") (auto simp: coalesce_def validator_changed_def [of _ None])
  show "map_get (vs_allValidators vs') a = validator_in src' a"
    using vs1(2) by (auto simp: calculateChangedValidators_def c validator_in_def validators_by_address_def)
qed

text \<open>The written wallets of a block, seen from one account.\<close>

lemma api_onCommit_parts:
  assumes "api_onCommit sv st vs genesis info c receipts us = Inr d"
  defines "h \<equiv> commit_header c" and "updates \<equiv> with_genesis_account genesis info (bh_number (commit_header c)) (updates_by_address us)"
  shows "ds_wallets d = block_wallets (validators_by_address (vs_dirtyValidators vs)) h (snd (fold (learn_key (sy_fromPublicKey sv)) (map tx_senderPublicKey (commit_transactions c)) ([], []))) updates"
    "sync_block_row sv c = Inr (ds_block d)" "sync_transactions sv h receipts 0 (commit_transactions c) = Inr (ds_transactions d, ds_multiPayments d)"
  using assms(1) unfolding api_onCommit_def Let_def block_wallets_def h_def updates_def by (auto simp: sum_bind_Inr_iff split: prod.splits)

lemma synced_tables:
  assumes d: "api_onCommit sv st vs genesis info c (receipts (bh_number (commit_header c))) us = Inr d" and s: "syncToDatabase sv d db = Inr db'"
  shows "tables_of db' = add_commit sv receipts c (tables_of db)"
  using s api_onCommit_parts [OF d] by (auto simp: syncToDatabase_def sum_bind_Inr_iff tables_of_def add_commit_def fold_chunk)

lemma synced_wallets:
  assumes d: "api_onCommit sv st vs genesis info c receipts us = Inr d" and s: "syncToDatabase sv d db = Inr db'"
  shows "ap_wallets db' = upsert_all (ds_wallets d) (ap_wallets db)"
  using s api_onCommit_parts(1) [OF d] block_wallets_distinct [OF keyed_updates] by (auto simp: syncToDatabase_def upsert_chunks)

text \<open>Writing a block cannot fail because of its wallets.\<close>

lemma sync_succeeds: "api_onCommit sv st vs genesis info c receipts us = Inr d \<Longrightarrow> \<exists>db'. syncToDatabase sv d db = Inr db'"
  using api_onCommit_parts(1) [of sv st vs genesis info c receipts us d] block_wallets_distinct [OF keyed_updates] by (simp add: syncToDatabase_def upsert_chunks)

text \<open>Facts on the chain after a block.\<close>

lemma followed:
  fixes a
  assumes f: "follows sv src e src'"
  defines "c \<equiv> be_commit e" and "u \<equiv> map_get (updates_by_address (be_updates e)) a"
  shows "sc_commits src' = sc_commits src @ [c]" "keys_in src' = keys_in src \<union> set (map tx_senderPublicKey (commit_transactions c))"
    "name_in sv src' a = (case u of None \<Rightarrow> name_in sv src a
       | Some u \<Rightarrow> if au_usernameResigned u then None else if truthy (au_username u) then au_username u else name_in sv src a)"
    "vote_in src' a = (case u of None \<Rightarrow> vote_in src a | Some u \<Rightarrow> if truthy (au_unvote u) then None else if truthy (au_vote u) then au_vote u else vote_in src a)"
    "legacy_nonce_in src' acc = legacy_nonce_in src acc"
    "account_in src' a = (case u of Some u \<Rightarrow> Some (account_after (account_in src a) u) | None \<Rightarrow> account_in src a)"
    "u = Some u1 \<Longrightarrow> 0 \<le> au_balance u1 \<and> 0 \<le> au_nonce u1" "validator_in src (bh_proposer (commit_header c)) \<noteq> None"
    "t \<in> set (commit_transactions c) \<Longrightarrow> tx_senderPublicKey t \<noteq> [] \<and> map_has (updates_by_address (be_updates e)) (sy_fromPublicKey sv (tx_senderPublicKey t))"
    "chain_tables sv src' = add_commit sv (sc_receipts src') c (chain_tables sv src)" "sc_receipts src' (bh_number (commit_header c)) = be_receipts e"
    "validator_in src b \<noteq> None \<Longrightarrow> validator_in src' b \<noteq> None"
proof -
  note law = f [unfolded follows_def Let_def, folded c_def]
  show cs: "sc_commits src' = sc_commits src @ [c]" using law by simp
  have snap: "snapshot_wallets src' = snapshot_wallets src" "snapshot_validators src' = snapshot_validators src" using law by (simp_all add: snapshot_wallets_def snapshot_validators_def)
  show "keys_in src' = keys_in src \<union> set (map tx_senderPublicKey (commit_transactions c))" by (auto simp: keys_in_def snap cs sender_keys_def)
  have "block_names sv src' c0 = block_names sv src c0" if "c0 \<in> set (sc_commits src)" for c0 using law that by (simp add: block_names_def)
  then have names: "concat (map (block_names sv src') (sc_commits src')) = concat (map (block_names sv src) (sc_commits src)) @ block_names sv src' c" by (simp add: cs cong: map_cong)
  show "name_in sv src' a = (case u of None \<Rightarrow> name_in sv src a
       | Some u \<Rightarrow> if au_usernameResigned u then None else if truthy (au_username u) then au_username u else name_in sv src a)"
    unfolding name_in_def names snap using law by (auto simp: map_of_append map_add_def u_def split: option.splits)
  show "vote_in src' a = (case u of None \<Rightarrow> vote_in src a | Some u \<Rightarrow> if truthy (au_unvote u) then None else if truthy (au_vote u) then au_vote u else vote_in src a)"
    using law by (simp add: u_def)
  show "legacy_nonce_in src' acc = legacy_nonce_in src acc" by (simp add: legacy_nonce_in_def snap)
  show "account_in src' a = (case u of Some u \<Rightarrow> Some (account_after (account_in src a) u) | None \<Rightarrow> account_in src a)" using law by (simp add: u_def)
  show "u = Some u1 \<Longrightarrow> 0 \<le> au_balance u1 \<and> 0 \<le> au_nonce u1" using law by (auto simp: u_def)
  show "validator_in src (bh_proposer (commit_header c)) \<noteq> None" using law by simp
  show "t \<in> set (commit_transactions c) \<Longrightarrow> tx_senderPublicKey t \<noteq> [] \<and> map_has (updates_by_address (be_updates e)) (sy_fromPublicKey sv (tx_senderPublicKey t))" using law by auto
  have "add_commit sv (sc_receipts src') c0 = add_commit sv (sc_receipts src) c0" if "c0 \<in> set (sc_commits src)" for c0
    using law that by (intro ext) (simp add: add_commit_def)
  then show "chain_tables sv src' = add_commit sv (sc_receipts src') c (chain_tables sv src)" by (simp add: chain_tables_def cs cong: fold_cong)
  show "sc_receipts src' (bh_number (commit_header c)) = be_receipts e" using law by simp
  show "validator_in src b \<noteq> None \<Longrightarrow> validator_in src' b \<noteq> None" using law by auto
qed

lemma first_blocks:
  assumes "source_ok sv src" "source_ok sv src'" "follows sv src e src'" "validator_in src a = None" "validator_in src' a \<noteq> None"
  shows "made_by a (sc_commits src) = []"
proof -
  have "bh_proposer (commit_header c) \<noteq> a" if "c \<in> set (sc_commits src)" for c
  proof
    assume p: "bh_proposer (commit_header c) = a"
    have "c \<in> set (sc_commits src')" using that followed(1) [OF assms(3)] by simp
    then have "bh_number (commit_header c) \<noteq> nc_genesisNumber (sy_config sv)" using assms(2,5) p unfolding source_ok_def by blast
    moreover have "bh_number (commit_header c) = nc_genesisNumber (sy_config sv)" using assms(1,4) p that unfolding source_ok_def by blast
    ultimately show False by simp
  qed
  then show ?thesis by (simp add: made_by_def filter_empty_conv)
qed

lemma made_nonneg: "source_ok sv src \<Longrightarrow> \<forall>b \<in> set (made_by a (sc_commits src)). 0 \<le> bh_fee b \<and> 0 \<le> bh_reward b"
  by (auto simp: source_ok_def made_by_def)

text \<open>An update without votes and names, and the update of an account or its stand-in.\<close>

definition neutral :: "account_update \<Rightarrow> bool" where
  "neutral u \<longleftrightarrow> au_vote u = None \<and> au_unvote u = None \<and> au_username u = None \<and> \<not> au_usernameResigned u \<and> au_legacyMergeInfo u = None"

lemma neutral_attributes: "neutral u \<Longrightarrow> account_attributes u t = t"
  by (simp add: neutral_def account_attributes_def truthy_def)

lemma coalesce_present [simp]: "truthy s \<Longrightarrow> present s = s" "\<not> truthy s \<Longrightarrow> present s = None" "\<not> truthy None" "coalesce None x = x" "truthy s \<Longrightarrow> coalesce s x = s" "truthy s \<Longrightarrow> s \<noteq> None"
  "coalesce (present s) x = (if truthy s then s else x)"
  by (auto simp: present_def truthy_def coalesce_def)

lemma account_attributes_vote_name:
  "wa_vote (account_attributes u t) = (if truthy (au_unvote u) then wa_vote t else if truthy (au_vote u) then au_vote u else wa_vote t)"
  "wa_unvote (account_attributes u t) = (if truthy (au_unvote u) then au_unvote u else wa_unvote t)"
  "wa_username (account_attributes u t) = (if au_usernameResigned u then wa_username t else if truthy (au_username u) then au_username u else wa_username t)"
  "wa_usernameResigned (account_attributes u t) = (if au_usernameResigned u then Some True else wa_usernameResigned t)"
  by (simp_all add: account_attributes_def Let_def split: option.splits prod.splits)

lemma validatorAttributes_fields:
  "wa_vote (validatorAttributes dirty h b) = None" "wa_unvote (validatorAttributes dirty h b) = None" "wa_username (validatorAttributes dirty h b) = None"
  "wa_usernameResigned (validatorAttributes dirty h b) = None" "wa_legacyNonce (validatorAttributes dirty h b) = None" "wa_secondPublicKey (validatorAttributes dirty h b) = None"
  by (simp_all add: validatorAttributes_def no_attributes_def Let_def split: option.splits)

lemmas attributes_vote_name = account_attributes_vote_name account_attributes_fields(11,12) validatorAttributes_fields

text \<open>A known wallet after its row was written: \<open>u\<close> is the update of the account or neutral.\<close>

lemma merged_matches:
  assumes f: "follows sv src e src'" and ok: "source_ok sv src" "source_ok sv src'"
    and dirty: "validator_in src' a = coalesce (map_get dirty a) (validator_in src a)"
    and keys: "knows (sy_fromPublicKey sv) (set (map tx_senderPublicKey (commit_transactions (be_commit e)))) keys"
    and before: "ac_address acc0 = a" "wallet_matches sv src acc0 w0"
    and after: "ac_address acc = a" "ac_legacyNonce acc = ac_legacyNonce acc0" "ac_secondPublicKey acc = ac_secondPublicKey acc0"
    and u: "case map_get (updates_by_address (be_updates e)) a of None \<Rightarrow> neutral u | Some u' \<Rightarrow> u = u'"
    and amounts: "if wl_balance ex = -1 then ac_balance acc = ac_balance acc0 else wl_balance ex = ac_balance acc"
      "if wl_nonce ex = -1 then ac_nonce acc = ac_nonce acc0 else wl_nonce ex = ac_nonce acc"
    and ex: "wl_publicKey ex = map_get keys a" "wl_attributes ex = account_attributes u (validatorAttributes dirty (commit_header (be_commit e)) a)"
  shows "wallet_matches sv src' acc (upsert_row ex (Some w0))"
proof -
  let ?c = "be_commit e"
  note addr = before(1) after(1) and legacy = after(2,3)
  note old = before(2) [unfolded wallet_matches_def addr]
  have key: "wl_publicKey (upsert_row ex (Some w0)) = Some k \<longleftrightarrow> k \<in> keys_in src' \<and> sy_fromPublicKey sv k = a" for k
  proof (cases "map_get keys a")
    case None
    then have "\<not> (k \<in> set (map tx_senderPublicKey (commit_transactions ?c)) \<and> sy_fromPublicKey sv k = a)" for k
      using keys [unfolded knows_def, rule_format, of a k] by auto
    then show ?thesis using None old ex(1) by (auto simp: upsert_row_def coalesce_def followed(2) [OF f])
  next
    case (Some k0)
    then have k0: "k0 \<in> set (map tx_senderPublicKey (commit_transactions ?c))" "sy_fromPublicKey sv k0 = a" using keys by (auto simp: knows_def)
    then have "k0 \<noteq> []" using followed(9) [OF f] by auto
    then have "wl_publicKey (upsert_row ex (Some w0)) = Some k0" using Some ex(1) by (simp add: upsert_row_def coalesce_def)
    moreover have "k = k0" if "k \<in> keys_in src'" "sy_fromPublicKey sv k = a"
      using ok(2) k0 that by (auto simp: source_ok_def followed(2) [OF f] dest: inj_onD)
    ultimately show ?thesis using k0 unfolding followed(2) [OF f] by (metis Un_iff option.inject)
  qed
  have "validator_matches (validator_in src' a) (made_by a (sc_commits src')) (merge_attributes (wl_attributes ex) (wl_attributes w0))"
    unfolding followed(1) [OF f] made_by_snoc ex(2) account_attributes_validator
  proof (rule validator_step [where v = "validator_in src a"])
    show "\<forall>b \<in> set (made_by a (sc_commits src)). 0 \<le> bh_fee b \<and> 0 \<le> bh_reward b" by (rule made_nonneg [OF ok(1)])
    show "0 \<le> bh_fee (commit_header ?c)" "0 \<le> bh_reward (commit_header ?c)" using ok(2) by (simp_all add: source_ok_def followed(1) [OF f])
    show "validator_matches (validator_in src a) (made_by a (sc_commits src)) (wl_attributes w0)" using old by simp
    show "validator_in src' a = coalesce (map_get dirty a) (validator_in src a)" by (rule dirty)
    show "bh_proposer (commit_header ?c) = a \<longrightarrow> validator_in src a \<noteq> None" using followed(8) [OF f] by blast
    show "validator_in src a = None \<and> validator_in src' a \<noteq> None \<longrightarrow> made_by a (sc_commits src) = []" using first_blocks [OF ok f] by blast
  qed
  moreover have "wa_vote (merge_attributes (wl_attributes ex) (wl_attributes w0)) = present (vote_in src' a)"
    "wa_username (merge_attributes (wl_attributes ex) (wl_attributes w0)) = present (name_in sv src' a)"
    using u old unfolding followed(3,4) [OF f] ex(2)
    by (cases "map_get (updates_by_address (be_updates e)) a"; simp add: merge_attributes_def attributes_vote_name neutral_def coalesce_present)+
  moreover have "wa_legacyNonce (merge_attributes (wl_attributes ex) (wl_attributes w0)) = legacy_nonce_in src' acc"
    "wa_secondPublicKey (merge_attributes (wl_attributes ex) (wl_attributes w0)) = present (ac_secondPublicKey acc)"
    using old followed(5) [OF f, of acc] by (simp_all add: merge_attributes_def legacy legacy_nonce_in_def addr)
  ultimately show ?thesis using key amounts old by (auto simp: wallet_matches_def addr upsert_row_def)
qed

definition blank_account :: "string \<Rightarrow> wallet_row \<Rightarrow> account_info_extended" where
  "blank_account a w = \<lparr>ac_address = a, ac_balance = wl_balance w, ac_nonce = wl_nonce w, ac_legacyNonce = None, ac_secondPublicKey = None, ac_multiSignature = None\<rparr>"

lemma no_account:
  assumes "source_ok sv src" and "account_in src a = None"
  shows "validator_in src a = None" "vote_in src a = None" "name_in sv src a = None" "k \<in> keys_in src \<Longrightarrow> sy_fromPublicKey sv k \<noteq> a" "map_of (rev (snapshot_wallets src)) a = None"
proof -
  have all: "validator_in src a = None \<and> vote_in src a = None \<and> name_in sv src a = None \<and> a \<notin> sy_fromPublicKey sv ` keys_in src \<and> map_of (rev (snapshot_wallets src)) a = None"
    using assms by (simp add: source_ok_def)
  then show "validator_in src a = None" "vote_in src a = None" "name_in sv src a = None" "k \<in> keys_in src \<Longrightarrow> sy_fromPublicKey sv k \<noteq> a" "map_of (rev (snapshot_wallets src)) a = None"
    by auto
qed

lemma blank_matches:
  assumes "source_ok sv src" and "account_in src a = None" and "blank w"
  shows "wallet_matches sv src (blank_account a w) w"
  using no_account [OF assms(1,2)] assms(3) unfolding wallet_matches_def blank_account_def blank_def
  by (auto simp: no_attributes_def validator_matches_def legacy_nonce_in_def coalesce_def present_def truthy_def)

text \<open>A wallet that is written for the first time.\<close>

lemma inserted_matches:
  assumes f: "follows sv src e src'" and ok: "source_ok sv src" "source_ok sv src'"
    and dirty: "validator_in src' a = coalesce (map_get dirty a) (validator_in src a)"
    and keys: "knows (sy_fromPublicKey sv) (set (map tx_senderPublicKey (commit_transactions (be_commit e)))) keys"
    and before: "account_in src a = None" and u: "map_get (updates_by_address (be_updates e)) a = Some u"
  shows "wallet_matches sv src' (account_after None u) (snd (account_wallet dirty (commit_header (be_commit e)) keys u))"
proof -
  let ?c = "be_commit e"
  have addr: "au_address u = a" using u keyed_entries [of au_address "be_updates e"] by (auto simp: updates_by_address_def keyed_def dest!: map_get_in_set)
  note none = no_account [OF ok(1) before]
  have other: "bh_proposer (commit_header ?c) \<noteq> a" using followed(8) [OF f] none(1) by auto
  have fresh: "made_by a (sc_commits src') = [] \<or> validator_in src' a = None"
    using first_blocks [OF ok f none(1)] other by (cases "validator_in src' a") (simp_all add: followed(1) [OF f] made_by_snoc)
  have v: "validator_matches (validator_in src' a) (made_by a (sc_commits src')) (wl_attributes (snd (account_wallet dirty (commit_header ?c) keys u)))"
    unfolding account_wallet_def by (simp add: addr account_attributes_validator) (rule validator_new [OF _ other fresh], simp add: dirty none(1) coalesce_def split: option.splits)
  have nonce: "legacy_nonce_in src' (account_after None u) = None" unfolding followed(5) [OF f] by (simp add: legacy_nonce_in_def account_after_def addr none(5) coalesce_def)
  show ?thesis unfolding wallet_matches_def
  proof (intro conjI allI)
    show "wl_publicKey (snd (account_wallet dirty (commit_header ?c) keys u)) = Some k \<longleftrightarrow> k \<in> keys_in src' \<and> sy_fromPublicKey sv k = ac_address (account_after None u)" for k
      using keys [unfolded knows_def, rule_format, of a k] none(4) [of k] unfolding followed(2) [OF f] by (auto simp: account_wallet_def account_after_def addr)
  qed (use v nonce followed(3,4) [OF f, of a] none(2,3) u in \<open>simp_all add: account_wallet_def account_after_def addr attributes_vote_name\<close>)
qed

text \<open>The written row of an address, by the update of its account.\<close>

lemma written_row:
  fixes sv src e src' dirty keys genesis info a
  defines "h \<equiv> commit_header (be_commit e)" and "base \<equiv> updates_by_address (be_updates e)"
  assumes d: "keyed vw_address dirty"
  defines "written \<equiv> map_of (block_wallets dirty h keys (with_genesis_account genesis info (bh_number h) base)) a"
  shows "case map_get base a of
      Some u \<Rightarrow> written = Some (snd (account_wallet dirty h keys u))
    | None \<Rightarrow> (\<exists>g. neutral g \<and> au_address g = a \<and> (au_balance g, au_nonce g) = info a \<and> written = Some (snd (account_wallet dirty h keys g)))
        \<or> written = (if a = bh_proposer h \<or> map_has dirty a then Some (snd (validator_wallet_row dirty h keys a)) else None)"
proof -
  let ?updates = "with_genesis_account genesis info (bh_number h) base"
  note get = block_wallets_get [OF keyed_updates [of genesis info "bh_number h" "be_updates e", folded base_def] d, of h keys a, folded written_def]
  consider (given) u where "map_get base a = Some u" "map_get ?updates a = Some u"
    | (genesis) g where "map_get base a = None" "map_get ?updates a = Some g" "neutral g" "au_address g = a" "(au_balance g, au_nonce g) = info a"
    | (absent) "map_get base a = None" "map_get ?updates a = None"
  proof (cases "map_get ?updates a = map_get base a")
    case True
    then show thesis using given absent by (cases "map_get base a") simp_all
  next
    case False
    then have a: "a = bh_proposer genesis" "map_get base a = None" by (auto simp: with_genesis_account_def jsmap_simps map_has_get split: if_splits)
    show thesis by (rule genesis [OF a(2)]) (use False a in \<open>auto simp: with_genesis_account_def jsmap_simps neutral_def split: if_splits\<close>)
  qed
  then show ?thesis
  proof cases
    case given
    then show ?thesis using get by simp
  next
    case genesis
    then show ?thesis using get by auto
  next
    case absent
    then show ?thesis using get by simp
  qed
qed

lemma key_needs_update:
  assumes f: "follows sv src e src'" and keys: "knows (sy_fromPublicKey sv) (set (map tx_senderPublicKey (commit_transactions (be_commit e)))) keys"
    and "map_get (updates_by_address (be_updates e)) a = None"
  shows "map_get keys a = None"
proof (rule ccontr)
  assume "map_get keys a \<noteq> None"
  then obtain k where "map_get keys a = Some k" by auto
  then obtain t where "t \<in> set (commit_transactions (be_commit e))" "sy_fromPublicKey sv (tx_senderPublicKey t) = a"
    using keys [unfolded knows_def, rule_format, of a k] by auto
  then show False using followed(9) [OF f, of t] assms(3) by (simp add: map_has_get)
qed

lemma untouched_matches:
  assumes f: "follows sv src e src'" and dirty: "validator_in src' a = validator_in src a" and proposer: "a \<noteq> bh_proposer (commit_header (be_commit e))"
    and none: "map_get (updates_by_address (be_updates e)) a = None" and acc: "ac_address acc = a" and w: "wallet_matches sv src acc w"
  shows "wallet_matches sv src' acc w"
proof -
  have "k \<in> keys_in src' \<and> sy_fromPublicKey sv k = a \<longleftrightarrow> k \<in> keys_in src \<and> sy_fromPublicKey sv k = a" for k
  proof -
    have "sy_fromPublicKey sv (tx_senderPublicKey t) \<noteq> a" if "t \<in> set (commit_transactions (be_commit e))" for t
      using followed(9) [OF f that] none by (auto simp: map_has_get)
    then show ?thesis unfolding followed(2) [OF f] by auto
  qed
  then show ?thesis using w none proposer followed(3,4) [OF f, of a] followed(5) [OF f, of acc]
    by (simp add: wallet_matches_def acc dirty followed(1) [OF f] made_by_snoc)
qed

lemma written_matches:
  fixes genesis :: block_header
  assumes f: "follows sv src e src'" and ok: "source_ok sv src" "source_ok sv src'"
    and dirty: "validator_in src' a = coalesce (map_get dirty a) (validator_in src a)" and kd: "keyed vw_address dirty"
    and keys: "knows (sy_fromPublicKey sv) (set (map tx_senderPublicKey (commit_transactions (be_commit e)))) keys"
    and info: "info a = (ac_balance acc, ac_nonce acc)" and acc: "account_in src' a = Some acc"
    and known: "\<And>acc0. account_in src a = Some acc0 \<Longrightarrow> \<exists>w. t = Some w \<and> wallet_matches sv src acc0 w" and unknown: "\<And>w. account_in src a = None \<Longrightarrow> t = Some w \<Longrightarrow> blank w"
  defines "h \<equiv> commit_header (be_commit e)" and "base \<equiv> updates_by_address (be_updates e)"
  defines "written \<equiv> map_of (block_wallets dirty h keys (with_genesis_account genesis info (bh_number h) base)) a"
  shows "\<exists>w. (case written of None \<Rightarrow> t | Some ex \<Rightarrow> Some (upsert_row ex t)) = Some w \<and> wallet_matches sv src' acc w"
proof (cases "map_get base a")
  case (Some u)
  have ex: "written = Some (snd (account_wallet dirty h keys u))" using written_row [OF kd, where e = e and a = a and keys = keys and genesis = genesis and info = info] Some by (simp add: written_def h_def base_def)
  have addr: "au_address u = a" using Some keyed_entries [of au_address "be_updates e"] by (auto simp: base_def updates_by_address_def keyed_def dest!: map_get_in_set)
  have after: "acc = account_after (account_in src a) u" using followed(6) [OF f, of a] acc Some by (simp add: base_def)
  have amounts: "0 \<le> au_balance u" "0 \<le> au_nonce u" using followed(7) [OF f] Some by (auto simp: base_def)
  show ?thesis
  proof (cases t)
    case None
    then have "account_in src a = None" using known by fastforce
    then show ?thesis using inserted_matches [OF f ok dirty keys _ Some [unfolded base_def]] after ex None by (simp add: h_def upsert_row_def)
  next
    case t: (Some w0)
    obtain acc0 where acc0: "ac_address acc0 = a" "wallet_matches sv src acc0 w0" "ac_legacyNonce acc = ac_legacyNonce acc0" "ac_secondPublicKey acc = ac_secondPublicKey acc0"
    proof (cases "account_in src a")
      case None
      show thesis by (rule that [of "blank_account a w0"]) (use blank_matches [OF ok(1) None unknown [OF None t]] None after in \<open>simp_all add: blank_account_def account_after_def\<close>)
    next
      case (Some acc0)
      show thesis by (rule that [of acc0]) (use known [OF Some] t account_in_address [OF Some] after Some in \<open>simp_all add: account_after_def\<close>)
    qed
    have "wallet_matches sv src' acc (upsert_row (snd (account_wallet dirty h keys u)) (Some w0))"
      by (rule merged_matches [OF f ok dirty keys acc0(1,2) account_in_address [OF acc] acc0(3,4)])
        (use Some amounts after addr in \<open>simp_all add: account_wallet_def account_after_def h_def base_def split: option.splits\<close>)
    then show ?thesis by (simp add: ex t)
  qed
next
  case None
  then have same: "account_in src a = Some acc" using followed(6) [OF f, of a] acc by (simp add: base_def)
  then obtain w0 where w0: "t = Some w0" "wallet_matches sv src acc w0" using known by auto
  have addr: "ac_address acc = a" by (rule account_in_address [OF acc])
  have merged: "wallet_matches sv src' acc (upsert_row ex (Some w0))"
    if "neutral u" "wl_publicKey ex = map_get keys a" "wl_attributes ex = account_attributes u (validatorAttributes dirty h a)"
      "wl_balance ex \<in> {-1, ac_balance acc}" "wl_nonce ex \<in> {-1, ac_nonce acc}" for ex u
    by (rule merged_matches [OF f ok dirty keys addr w0(2) addr refl refl]) (use that None in \<open>auto simp: h_def base_def\<close>)
  consider (genesis) g where "neutral g" "au_address g = a" "(au_balance g, au_nonce g) = info a" "written = Some (snd (account_wallet dirty h keys g))"
    | (row) "written = Some (snd (validator_wallet_row dirty h keys a))" | (nothing) "written = None" "a \<noteq> bh_proposer h" "map_get dirty a = None"
    using written_row [OF kd, where e = e and a = a and keys = keys and genesis = genesis and info = info] None by (auto simp: written_def h_def base_def map_has_get split: if_splits)
  then show ?thesis
  proof cases
    case genesis
    then show ?thesis using merged [of g "snd (account_wallet dirty h keys g)"] info w0(1) by (simp add: account_wallet_def)
  next
    case row
    define u where "u = \<lparr>au_address = a, au_balance = 0, au_nonce = 0, au_vote = None, au_unvote = None, au_username = None, au_usernameResigned = False, au_legacyMergeInfo = None\<rparr>"
    have "neutral u" by (simp add: u_def neutral_def)
    then show ?thesis using merged [of u "snd (validator_wallet_row dirty h keys a)"] neutral_attributes [of u] row w0(1) by (simp add: validator_wallet_row_def)
  next
    case nothing
    then show ?thesis using untouched_matches [OF f _ _ None [unfolded base_def] addr w0(2)] dirty w0(1) by (simp add: h_def coalesce_def)
  qed
qed

lemma written_blank:
  fixes genesis :: block_header
  assumes f: "follows sv src e src'" and ok: "source_ok sv src" "source_ok sv src'"
    and dirty: "validator_in src' a = coalesce (map_get dirty a) (validator_in src a)" and kd: "keyed vw_address dirty"
    and keys: "knows (sy_fromPublicKey sv) (set (map tx_senderPublicKey (commit_transactions (be_commit e)))) keys"
    and none: "account_in src' a = None" and old: "\<And>w. t = Some w \<Longrightarrow> blank w"
  defines "h \<equiv> commit_header (be_commit e)"
  assumes w: "(case map_of (block_wallets dirty h keys (with_genesis_account genesis info (bh_number h) (updates_by_address (be_updates e)))) a of
      None \<Rightarrow> t | Some ex \<Rightarrow> Some (upsert_row ex t)) = Some w"
  shows "blank w"
proof -
  have base: "map_get (updates_by_address (be_updates e)) a = None" using followed(6) [OF f, of a] none by (auto split: option.splits)
  have v: "validator_in src' a = None" by (rule no_account [OF ok(2) none])
  then have nodirty: "map_get dirty a = None" "validator_in src a = None" using dirty by (auto simp: coalesce_def split: option.splits)
  then have other: "a \<noteq> bh_proposer h" using followed(8) [OF f] by (auto simp: h_def)
  have key: "map_get keys a = None" by (rule key_needs_update [OF f keys base])
  have attributes: "validatorAttributes dirty h a = no_attributes" using nodirty other by (simp add: validatorAttributes_def)
  have merge: "merge_attributes no_attributes no_attributes = no_attributes" by (simp add: merge_attributes_def no_attributes_def coalesce_def add_amounts_def)
  have blank_ex: "blank (upsert_row ex t)" if "blank ex" for ex
    using that old merge by (cases t) (auto simp: upsert_row_def blank_def)
  have "\<exists>g. neutral g \<and> au_address g = a \<and> w = upsert_row (snd (account_wallet dirty h keys g)) t" if "t \<noteq> Some w"
    using written_row [OF kd, where e = e and a = a and keys = keys and genesis = genesis and info = info] base w other nodirty that by (auto simp: h_def map_has_get split: option.splits)
  then show ?thesis using old blank_ex neutral_attributes attributes key by (cases "t = Some w") (auto simp: account_wallet_def blank_def)
qed

lemma followed_index:
  assumes m: "index_matches sv src db" and f: "follows sv src e src'" and ok: "source_ok sv src" "source_ok sv src'"
    and dirty: "\<And>a. validator_in src' a = coalesce (map_get (validators_by_address (vs_dirtyValidators vs)) a) (validator_in src a)"
    and info: "\<And>a acc. account_in src' a = Some acc \<Longrightarrow> info a = (ac_balance acc, ac_nonce acc)"
    and d: "api_onCommit sv st vs genesis info (be_commit e) (be_receipts e) (be_updates e) = Inr d" and s: "syncToDatabase sv d db = Inr db'"
  shows "index_matches sv src' db'"
proof -
  let ?c = "be_commit e"
  let ?keys = "snd (fold (learn_key (sy_fromPublicKey sv)) (map tx_senderPublicKey (commit_transactions ?c)) ([], []))"
  let ?dirty = "validators_by_address (vs_dirtyValidators vs)"
  have keys: "knows (sy_fromPublicKey sv) (set (map tx_senderPublicKey (commit_transactions ?c))) ?keys" 
    using ok(2) by (intro learned) (auto simp: source_ok_def followed(2) [OF f] intro: inj_on_subset)
  note kd = keyed_validators [of "vs_dirtyValidators vs"]
  note ws = api_onCommit_parts(1) [OF d]
  have get: "map_get (ap_wallets db') a = (case map_of (ds_wallets d) a of None \<Rightarrow> map_get (ap_wallets db) a | Some ex \<Rightarrow> Some (upsert_row ex (map_get (ap_wallets db) a)))" for a
    unfolding synced_wallets [OF d s] by (rule upsert_all_get) (simp add: ws block_wallets_distinct [OF keyed_updates])
  have tables: "tables_of db' = chain_tables sv src'"
    using synced_tables [OF _ s, of st vs genesis info ?c "sc_receipts src'" "be_updates e"] d m followed(10,11) [OF f] by (simp add: index_matches_def)
  have "\<exists>w. map_get (ap_wallets db') a = Some w \<and> wallet_matches sv src' acc w" if "account_in src' a = Some acc" for a acc
    unfolding get ws by (rule written_matches [where info = info and a = a, OF f ok dirty [of a] kd keys info [OF that] that]) (use m in \<open>auto simp: index_matches_def\<close>)
  moreover have "blank w" if "account_in src' a = None" "map_get (ap_wallets db') a = Some w" for a w
  proof (rule written_blank [OF f ok dirty [of a] kd keys that(1) _ that(2) [unfolded get ws]])
    have "account_in src a = None" using followed(6) [OF f, of a] that(1) by (auto split: option.splits)
    then show "\<And>w. map_get (ap_wallets db) a = Some w \<Longrightarrow> blank w" using m by (auto simp: index_matches_def)
  qed
  ultimately show ?thesis using tables by (auto simp: index_matches_def)
qed

section \<open>The life of an index\<close>

text \<open>
  A node starts with an empty index, is started and stopped any number of times, and commits blocks. While it runs, a block is written after some failed attempts,
  or given up after \<open>maxAttempts\<close> of them; while it stops, blocks whose jobs were still waiting are committed and not written. The first argument tells whether the
  node runs, the second how many blocks were given up since the index was last filled from the chain: a start that keeps the index keeps this number.
\<close>

inductive index_life :: "api_services \<Rightarrow> nat \<Rightarrow> nat \<Rightarrow> block_header \<Rightarrow> bool \<Rightarrow> nat \<Rightarrow> chain_source \<Rightarrow> validator_set \<Rightarrow> api_database \<Rightarrow> bool"
  for sv batchSize maxAttempts genesis where
  created: "source_ok sv src \<Longrightarrow> index_life sv batchSize maxAttempts genesis False 0 src vs empty_database"
| booted: "index_life sv batchSize maxAttempts genesis False lost src vs0 db \<Longrightarrow> ct_getAllValidators cs = Inr (sc_validators src) \<Longrightarrow> validator_restore (sy_config sv) st cs vs1 = Done vs \<Longrightarrow>
    api_bootstrap (restore_index sv batchSize src) (nc_genesisNumber (sy_config sv)) (bh_number (commit_header (last (sc_commits src)))) truncateDatabase inMaintenance db = Inr db' \<Longrightarrow>
    index_life sv batchSize maxAttempts genesis True
      (if keeps_database (nc_genesisNumber (sy_config sv)) (bh_number (commit_header (last (sc_commits src)))) truncateDatabase inMaintenance db then lost else 0) src vs db'"
| committed: "index_life sv batchSize maxAttempts genesis True lost src vs db \<Longrightarrow> follows sv src e src' \<Longrightarrow> source_ok sv src' \<Longrightarrow> ct_getAllValidators cs = Inr (sc_validators src') \<Longrightarrow>
    validator_onCommit (sy_config sv) st cs True (bh_number (commit_header (be_commit e))) vs = Done vs' \<Longrightarrow>
    (\<And>a acc. account_in src' a = Some acc \<Longrightarrow> info a = (ac_balance acc, ac_nonce acc)) \<Longrightarrow>
    api_onCommit sv st' vs' genesis info (be_commit e) (be_receipts e) (be_updates e) = Inr d \<Longrightarrow> sync_attempts maxAttempts failing sv d 0 db = (written, db') \<Longrightarrow>
    index_life sv batchSize maxAttempts genesis True (if written then lost else Suc lost) src' vs' db'"
| stopped: "index_life sv batchSize maxAttempts genesis True lost src vs db \<Longrightarrow> index_life sv batchSize maxAttempts genesis False lost src vs db"
| unwritten: "index_life sv batchSize maxAttempts genesis False lost src vs db \<Longrightarrow> follows sv src e src' \<Longrightarrow> source_ok sv src' \<Longrightarrow> index_life sv batchSize maxAttempts genesis False lost src' vs db"

lemma attempts_write: "sync_attempts m failing sv d k db = (True, db') \<Longrightarrow> syncToDatabase sv d db = Inr db'"
proof (induction m failing sv d k db rule: sync_attempts.induct)
  case (1 m failing sv d k db)
  show ?case using "1.prems" "1.IH" by (subst (asm) sync_attempts.simps) (auto split: sum.splits if_splits)
qed

lemma table_numbers:
  assumes "\<forall>(_, r) \<in> set (fst t). kr_number r \<in> N" and "\<forall>c \<in> set cs. bh_number (commit_header c) \<in> N"
  shows "\<forall>(_, r) \<in> set (fst (fold (add_commit sv receipts) cs t)). kr_number r \<in> N"
  using assms
proof (induction cs arbitrary: t)
  case (Cons c cs)
  have "\<forall>(_, r) \<in> set (fst (add_commit sv receipts c t)). kr_number r \<in> N"
    using Cons.prems by (auto simp: add_commit_def insert_or_ignore_def sync_block_row_def Let_def sum_bind_Inr_iff map_set_fresh split: sum.splits prod.splits if_splits)
  then show ?case using Cons.IH Cons.prems(2) by simp
qed simp

lemma height_bound:
  assumes "index_matches sv src db" and "source_ok sv src" and "ap_blocks db \<noteq> []"
  shows "max_height g db < nc_genesisNumber (sy_config sv) + length (sc_commits src)"
proof -
  let ?N = "{..<nc_genesisNumber (sy_config sv) + length (sc_commits src)}"
  have "bh_number (commit_header c) \<in> ?N" if "c \<in> set (sc_commits src)" for c
  proof -
    have "bh_number (commit_header c) \<in> set (map (\<lambda>c. bh_number (commit_header c)) (sc_commits src))" using that by simp
    also have "\<dots> = set [nc_genesisNumber (sy_config sv)..<nc_genesisNumber (sy_config sv) + length (sc_commits src)]"
      using assms(2) unfolding source_ok_def by simp
    finally show ?thesis by simp
  qed
  moreover have "ap_blocks db = fst (chain_tables sv src)" using assms(1) by (simp add: index_matches_def tables_of_def) (metis fst_conv)
  ultimately have "\<forall>(_, r) \<in> set (ap_blocks db). kr_number r \<in> ?N" using table_numbers [of "([], [], [])" ?N "sc_commits src" sv "sc_receipts src"] by (simp add: chain_tables_def)
  then show ?thesis using assms(3) by (auto simp: max_height_def)
qed

text \<open>An index that a start finds: empty, in step with the chain, or behind it.\<close>

definition index_found :: "api_services \<Rightarrow> chain_source \<Rightarrow> api_database \<Rightarrow> bool" where
  "index_found sv src db \<longleftrightarrow> ap_blocks db = []
     \<or> (\<exists>src0. source_ok sv src0 \<and> index_matches sv src0 db \<and> (src0 = src \<or> length (sc_commits src0) < length (sc_commits src)))"

lemma found_after: "index_found sv src db \<Longrightarrow> follows sv src e src' \<Longrightarrow> index_found sv src' db"
  using followed(1) [of sv src e src'] by (auto simp: index_found_def)

lemma kept_matches:
  assumes "index_found sv src db" and "source_ok sv src" and "keeps_database (nc_genesisNumber (sy_config sv)) (bh_number (commit_header (last (sc_commits src)))) truncateDatabase inMaintenance db"
  shows "index_matches sv src db"
proof -
  obtain src0 where src0: "source_ok sv src0" "index_matches sv src0 db" "src0 = src \<or> length (sc_commits src0) < length (sc_commits src)" and some: "ap_blocks db \<noteq> []"
    and same: "max_height (nc_genesisNumber (sy_config sv)) db = bh_number (commit_header (last (sc_commits src)))"
    using assms(1,3) by (auto simp: index_found_def keeps_database_def)
  then show ?thesis using height_bound [OF src0(2,1) some, of "nc_genesisNumber (sy_config sv)"] source_numbers(4) [OF assms(2)] same by auto
qed

lemma boot_matches:
  assumes "source_ok sv src" and "0 < n"
    and "keeps_database (nc_genesisNumber (sy_config sv)) (bh_number (commit_header (last (sc_commits src)))) truncateDatabase inMaintenance db \<Longrightarrow> index_found sv src db"
    and "api_bootstrap (restore_index sv n src) (nc_genesisNumber (sy_config sv)) (bh_number (commit_header (last (sc_commits src)))) truncateDatabase inMaintenance db = Inr db'"
  shows "index_matches sv src db'"
proof (cases "keeps_database (nc_genesisNumber (sy_config sv)) (bh_number (commit_header (last (sc_commits src)))) truncateDatabase inMaintenance db")
  case True
  then have "db' = db" using assms(4) by (auto simp: api_bootstrap_def resetDatabaseIfNecessary_def keeps_database_def)
  then show ?thesis using kept_matches [OF assms(3) [OF True] assms(1) True] by simp
next
  case False
  then have "restore_index sv n src empty_database = Inr db'" using assms(4) by (simp add: api_bootstrap_def resetDatabaseIfNecessary_def empty_database_def)
  then show ?thesis using restored_matches [OF _ assms(2,1)] by blast
qed

lemma index_life_ok:
  assumes "index_life sv n maxAttempts genesis running lost src vs db" and "0 < n"
  shows "source_ok sv src \<and> (running \<longrightarrow> (\<forall>a. map_get (vs_allValidators vs) a = validator_in src a))
    \<and> (lost = 0 \<longrightarrow> (if running then index_matches sv src db else index_found sv src db))"
  using assms(1)
proof (induction rule: index_life.induct)
  case (created src vs)
  then show ?case by (simp add: index_found_def empty_database_def)
next
  case (booted lost src vs0 db cs st vs1 vs truncateDatabase inMaintenance db')
  then have "map_get (vs_allValidators vs) a = validator_in src a" for a
    by (auto simp: validator_restore_def and_then_Done_iff validator_in_def validators_by_address_def)
  moreover have "index_matches sv src db'"
    if "lost = 0 \<or> \<not> keeps_database (nc_genesisNumber (sy_config sv)) (bh_number (commit_header (last (sc_commits src)))) truncateDatabase inMaintenance db"
    by (rule boot_matches [OF _ assms(2) _ booted(4)]) (use booted(5) that in auto)
  ultimately show ?case using booted(5) by auto
next
  case (committed lost src vs db e src' cs st vs' info st' d failing written db')
  then have ok: "source_ok sv src" "source_ok sv src'" and old: "\<And>a. map_get (vs_allValidators vs) a = validator_in src a" by simp_all
  note after = validators_after [OF ok(2) old followed(12) [OF committed(2)] committed(4,5)]
  have "index_matches sv src' db'" if "written" "lost = 0"
    using followed_index [OF _ committed(2) ok after(1) committed(6,7) attempts_write, of db] committed(8,9) that by auto
  then show ?case using ok(2) after(2) by simp
next
  case (stopped lost src vs db)
  then show ?case by (auto simp: index_found_def)
next
  case (unwritten lost src vs db e src')
  then show ?case using found_after [of sv src db e src'] by simp
qed

text \<open>What both ways of filling the index have in common of a wallet. Five attributes are left out of the comparison: \<open>isLegacy\<close> and \<open>legacyMerge\<close>, which
  the statement for a block never writes to a known wallet (\<open>merge_not_written\<close> below), \<open>multiSignature\<close>, which it turns into text, and \<open>unvote\<close> and \<open>usernameResigned\<close>, which tell it what to
  forget and stay behind in the row of a new wallet only.\<close>

definition common_attributes :: "wallet_attributes \<Rightarrow> wallet_attributes" where
  "common_attributes t = t\<lparr>wa_isLegacy := None, wa_multiSignature := None, wa_legacyMerge := None, wa_unvote := None, wa_usernameResigned := None\<rparr>"

definition same_wallet :: "wallet_row \<Rightarrow> wallet_row \<Rightarrow> bool" where
  "same_wallet w w' \<longleftrightarrow> wl_publicKey w = wl_publicKey w' \<and> wl_balance w = wl_balance w' \<and> wl_nonce w = wl_nonce w'
     \<and> common_attributes (wl_attributes w) = common_attributes (wl_attributes w')"

lemma matches_same:
  assumes "wallet_matches sv src acc w" and "wallet_matches sv src acc w'"
  shows "same_wallet w w'"
proof -
  have "wl_publicKey w = wl_publicKey w'" using assms unfolding wallet_matches_def by (metis option.exhaust)
  moreover have "common_attributes (wl_attributes w) = common_attributes (wl_attributes w')"
    using assms by (cases "wl_attributes w"; cases "wl_attributes w'") (simp add: wallet_matches_def validator_matches_def common_attributes_def)
  ultimately show ?thesis using assms by (simp add: same_wallet_def wallet_matches_def)
qed

text \<open>C31 (equivalence). A running index that has not given up a block since it was last filled - whatever its history of followed blocks, failed attempts, stops, starts and
  blocks lost in a stop, and with blocks given up before the last filling - has the tables of blocks, transactions and payments that filling an empty index from the same chain
  gives. The wallet of every account has the restored public key, balance, nonce and attributes, but for the five that \<open>same_wallet\<close> leaves out, and the rows without an account carry nothing but an
  amount. Blocks change the EVM as \<open>follows\<close> says: they merge no legacy wallet, and set and resign usernames in transactions to the contract for them, whose logs a restore
  reads.\<close>

theorem index_agrees_with_restore:
  assumes "index_life sv n maxAttempts genesis True 0 src vs db" and "0 < n" and "restore_index sv m src empty_database = Inr fresh" and "0 < m"
  shows "ap_blocks db = ap_blocks fresh \<and> ap_transactions db = ap_transactions fresh \<and> ap_multiPayments db = ap_multiPayments fresh
    \<and> (\<forall>a w. map_get (ap_wallets db) a = Some w \<longrightarrow> (case map_get (ap_wallets fresh) a of None \<Rightarrow> blank w | Some w' \<Rightarrow> same_wallet w w'))
    \<and> (\<forall>a. map_has (ap_wallets fresh) a \<longrightarrow> map_has (ap_wallets db) a)"
proof -
  have ok: "source_ok sv src" and db: "index_matches sv src db" using index_life_ok [OF assms(1,2)] by simp_all
  note fresh = restored_matches [OF assms(3,4) ok]
  have tables: "tables_of db = tables_of fresh" using db fresh by (simp add: index_matches_def)
  have wallets: "case map_get (ap_wallets fresh) a of None \<Rightarrow> blank w | Some w' \<Rightarrow> same_wallet w w'" if "map_get (ap_wallets db) a = Some w" for a w
  proof (cases "account_in src a")
    case None
    then have "map_get (ap_wallets fresh) a = None" using fresh by (metis option.distinct(1) option.exhaust)
    then show ?thesis using None db that by (simp add: index_matches_def)
  next
    case (Some acc)
    then obtain w' where "map_get (ap_wallets fresh) a = Some w'" "wallet_matches sv src acc w'" using fresh unfolding index_matches_def by blast
    moreover have "wallet_matches sv src acc w" using db Some that unfolding index_matches_def by fastforce
    ultimately show ?thesis using matches_same by simp
  qed
  moreover have "map_has (ap_wallets db) a" if has: "map_has (ap_wallets fresh) a" for a
  proof -
    obtain acc where "account_in src a = Some acc" using has fresh by (auto simp: map_has_get)
    then show ?thesis using db by (fastforce simp: index_matches_def map_has_get)
  qed
  ultimately show ?thesis using tables by (simp add: tables_of_def)
qed

section \<open>What is lost\<close>

text \<open>The statement that writes wallets takes the merge of a legacy wallet from the stored row only: for a known wallet it is lost.\<close>

lemma merge_not_written:
  "au_legacyMergeInfo u = Some (address, txHash) \<Longrightarrow> ex = snd (account_wallet dirty h keys u) \<Longrightarrow> wa_legacyMerge (wl_attributes w) = None \<Longrightarrow>
   wa_legacyMerge (wl_attributes ex) = Some (Json (address @ txHash)) \<and> wa_legacyMerge (wl_attributes (upsert_row ex (Some w))) = None"
  by (simp add: account_wallet_def account_attributes_def upsert_row_def merge_attributes_def Let_def)

text \<open>A block given up after the last attempt is never repaired: once a later block is written, a start finds the highest number right and keeps the index.\<close>

lemma given_up_kept:
  assumes "syncToDatabase sv later db = Inr db'" and "\<forall>(_, r) \<in> set (ap_blocks db). kr_number r < number" and "kr_number (ds_block later) = number" and "\<not> map_has (ap_blocks db) (kr_hash (ds_block later))"
  shows "sync_attempts 1 (\<lambda>_. True) sv earlier 0 db = (False, db) \<and> keeps_database g number False False db' \<and> ap_blocks db' = ap_blocks db @ [(kr_hash (ds_block later), ds_block later)]"
proof -
  have b: "ap_blocks db' = ap_blocks db @ [(kr_hash (ds_block later), ds_block later)]"
    using assms(1,4) by (auto simp: syncToDatabase_def sum_bind_Inr_iff insert_or_ignore_def map_set_fresh)
  have "Max (set (map (\<lambda>(_, r). kr_number r) (ap_blocks db'))) = number" using assms(2,3) unfolding b by (intro Max_eqI) (auto intro: less_imp_le)
  then show ?thesis using b by (subst sync_attempts.simps) (simp add: keeps_database_def max_height_def)
qed

section \<open>Samples\<close>

text \<open>A chain of a genesis block and a block in which a new account votes for the proposer and pays through the contract for many payments.\<close>

definition index_header :: "nat \<Rightarrow> string \<Rightarrow> int \<Rightarrow> block_header" where
  "index_header number proposer fee = \<lparr>bh_version = 1, bh_timestamp = 8000 * number, bh_number = number, bh_round = 0, bh_parentHash = [], bh_stateRoot = [], bh_logsBloom = [],
     bh_transactionsCount = number, bh_gasUsed = 0, bh_fee = fee, bh_reward = 2 * int number, bh_payloadSize = 0, bh_transactionsRoot = [], bh_proposer = proposer,
     bh_randaoReveal = [], bh_hash = (if number = 0 then ''genesis'' else ''first'')\<rparr>"

definition index_commit :: "block_header \<Rightarrow> transaction list \<Rightarrow> commit" where
  "index_commit header ts = \<lparr>cm_block = \<lparr>bk_header = header, bk_serialized = [], bk_transactions = ts\<rparr>, cm_proof = \<lparr>cp_round = 0, cp_signature = [], cp_validators = []\<rparr>, cm_serialized = []\<rparr>"

definition index_transaction :: transaction where
  "index_transaction = \<lparr>tx_network = 1, tx_to = Some ''pay'', tx_value = 4, tx_gasPrice = 1, tx_gasLimit = 3, tx_nonce = 0, tx_data = [], tx_v = 27, tx_r = ''r'', tx_s = ''s'',
     tx_legacySecondSignature = None, tx_hash = ''tx'', tx_from = ''0xk'', tx_senderPublicKey = ''k'', tx_senderLegacyAddress = [], tx_serialized = []\<rparr>"

definition index_receipt :: receipt_data where
  "index_receipt = \<lparr>rd_status = 1, rd_gasUsed = 3, rd_cumulativeGasUsed = 3, rd_gasRefunded = 0, rd_contractAddress = None, rd_logs = [], rd_output = None\<rparr>"

definition index_services :: api_services where
  "index_services = \<lparr>sy_config = sample_network, sy_fromPublicKey = (\<lambda>k. ''0x'' @ k), sy_multiPaymentContract = ''pay'', sy_usernameContract = ''name'',
     sy_parsePayments = (\<lambda>r. [(''g'', 4, True)]), sy_parseUsernames = (\<lambda>r. []), sy_transactionError = (\<lambda>t r. None), sy_version = ''1''\<rparr>"

definition index_wallet :: "string \<Rightarrow> int \<Rightarrow> validator_wallet" where
  "index_wallet a votes = \<lparr>vw_address = a, vw_blsPublicKey = a, vw_voteBalance = votes, vw_fee = 0, vw_votersCount = nat votes, vw_isResigned = False\<rparr>"

definition index_account :: "string \<Rightarrow> int \<Rightarrow> int \<Rightarrow> account_info_extended" where
  "index_account a balance nonce = \<lparr>ac_address = a, ac_balance = balance, ac_nonce = nonce, ac_legacyNonce = None, ac_secondPublicKey = None, ac_multiSignature = None\<rparr>"

definition index_start :: chain_source where
  "index_start = \<lparr>sc_commits = [index_commit (index_header 0 ''g'' 0) []], sc_receipts = (\<lambda>_. []), sc_validators = [index_wallet ''u'' 0, index_wallet ''v'' 0, index_wallet ''w'' 0],
     sc_votes = [], sc_accounts = [[index_account ''g'' 9 0, index_account ''u'' 0 0], [index_account ''v'' 0 0, index_account ''w'' 0 0]], sc_coldWallets = [], sc_rounds = [],
     sc_snapshot = None\<rparr>"

definition index_first :: block_entry where
  "index_first = \<lparr>be_commit = index_commit (index_header 1 ''v'' 3) [index_transaction], be_receipts = [(''tx'', index_receipt)],
     be_updates = [\<lparr>au_address = ''0xk'', au_balance = 1, au_nonce = 1, au_vote = Some ''v'', au_unvote = None, au_username = None, au_usernameResigned = False, au_legacyMergeInfo = None\<rparr>,
       \<lparr>au_address = ''g'', au_balance = 4, au_nonce = 0, au_vote = None, au_unvote = None, au_username = None, au_usernameResigned = False, au_legacyMergeInfo = None\<rparr>]\<rparr>"

definition index_next :: chain_source where
  "index_next = index_start\<lparr>sc_commits := sc_commits index_start @ [be_commit index_first], sc_receipts := (\<lambda>n. if n = 1 then be_receipts index_first else []),
     sc_validators := [index_wallet ''u'' 0, index_wallet ''v'' 1, index_wallet ''w'' 0], sc_votes := [(''0xk'', ''v'')],
     sc_accounts := [[index_account ''0xk'' 1 1, index_account ''g'' 4 0, index_account ''u'' 0 0], [index_account ''v'' 0 0, index_account ''w'' 0 0]]\<rparr>"

definition index_validators :: "chain_source \<Rightarrow> contract_service" where
  "index_validators src = \<lparr>ct_getRoundValidators = Inr (sc_validators src), ct_getAllValidators = Inr (sc_validators src)\<rparr>"

definition index_store :: state_store where
  "index_store = \<lparr>so_genesisCommit = None, so_lastBlock = None, so_blockNumber = 0, so_totalRound = 1, so_configHeight = 1\<rparr>"

definition index_set :: validator_set where
  "index_set = (case validator_restore sample_network index_store (index_validators index_start) empty_validator_set of Done vs \<Rightarrow> vs | _ \<Rightarrow> empty_validator_set)"

lemma index_restored_set: "validator_restore sample_network index_store (index_validators index_start) empty_validator_set = Done index_set"
  by code_simp

lemma index_network:
  "\<not> isl (calculateRound sample_network 0)" "\<not> isl (calculateRound sample_network (Suc 0))" "isNewRound sample_network (Suc 0) = Inr True" "isNewRound sample_network (Suc (Suc 0)) = Inr False"
  "\<not> isl (milestone_of sample_network (Suc 0))" "\<not> isl (milestone_of sample_network (Suc (Suc 0)))" "nc_genesisNumber sample_network = 0"
  "\<not> (\<exists>m \<in> set (nc_milestones sample_network). ms_height m = Suc (Suc 0))"
  by code_simp+

lemmas index_defs = index_start_def index_next_def index_first_def index_commit_def index_header_def index_transaction_def index_receipt_def index_account_def index_wallet_def

lemma index_sources: "source_ok index_services index_start" "source_ok index_services index_next"
  by (auto simp: source_ok_def index_defs index_services_def index_network account_in_def validator_in_def vote_in_def name_in_def keys_in_def sender_keys_def block_names_def
    snapshot_wallets_def snapshot_validators_def name_events_def parseUsernames_def validators_by_address_def map_of_entries_def jsmap_simps)

lemma index_followed: "follows index_services index_start index_first index_next"
  by (auto simp: follows_def Let_def index_defs index_services_def index_network account_in_def account_after_def validator_in_def vote_in_def block_names_def truthy_def
    name_events_def parseUsernames_def validators_by_address_def updates_by_address_def map_of_entries_def jsmap_simps)


lemma index_restores: "\<exists>db. restore_index index_services 1 index_start empty_database = Inr db" "\<exists>db. restore_index index_services 1 index_next empty_database = Inr db"
proof -
  note one = batches_are_one_pass [OF source_numbers(1) [OF index_sources(1)] zero_less_one source_numbers(3) [OF index_sources(1)]]
    and two = batches_are_one_pass [OF source_numbers(1) [OF index_sources(2)] zero_less_one source_numbers(3) [OF index_sources(2)]]
  obtain r0 r1 m1 m2 where net: "calculateRound sample_network 0 = Inr r0" "calculateRound sample_network (Suc 0) = Inr r1" "milestone_of sample_network (Suc 0) = Inr m1" 
    "milestone_of sample_network (Suc (Suc 0)) = Inr m2"
    using index_network(1,2,5,6) by (auto simp: isl_def) (metis isl_def obj_sumE)
  have receipt: "map_get [(''tx'', r)] ''tx'' = Some r" for r :: receipt_data by (simp add: map_get_def)
  note steps = receipt restore_commit_def Let_def restore_block_row_def count_block_def ingestConsensusData_def new_context_def restore_transaction_def jsmap_simps net index_network
    ingestLegacyColdWallets_def ingestWallets_def take_snapshot_def ingestConfiguration_def
  show "\<exists>db. restore_index index_services 1 index_start empty_database = Inr db"
    unfolding restore_index_def Let_def one source_numbers(2) [OF index_sources(1)] by (simp add: steps index_services_def) (simp add: index_defs steps)
  show "\<exists>db. restore_index index_services 1 index_next empty_database = Inr db"
    unfolding restore_index_def Let_def two source_numbers(2) [OF index_sources(2)] by (simp add: steps index_services_def) (simp add: index_defs steps)
qed

lemma index_synced: "\<exists>d. api_onCommit index_services index_store vs (index_header 0 ''g'' 0) info (be_commit index_first) (be_receipts index_first) (be_updates index_first) = Inr d"
proof -
  obtain r1 where "calculateRound sample_network (Suc 0) = Inr r1" using index_network(2) by (auto simp: isl_def) (metis isl_def obj_sumE)
  then show ?thesis using index_network(4,8) by (simp add: api_onCommit_def Let_def index_services_def index_first_def index_commit_def index_header_def index_transaction_def map_get_def sync_block_row_def)
qed

text \<open>The node starts with an empty index, follows the block after one refused attempt.\<close>

lemma index_lived: "\<exists>vs db. index_life index_services 1 3 (index_header 0 ''g'' 0) True 0 index_next vs db"
proof -
  let ?life = "index_life index_services 1 3 (index_header 0 ''g'' 0)"
  obtain db0 where "restore_index index_services 1 index_start empty_database = Inr db0" using index_restores(1) by blast
  then have boot: "api_bootstrap (restore_index index_services 1 index_start) (nc_genesisNumber (sy_config index_services)) (bh_number (commit_header (last (sc_commits index_start)))) False False
      empty_database = Inr db0"
    by (simp add: api_bootstrap_def resetDatabaseIfNecessary_def keeps_database_def empty_database_def)
  have running: "?life True 0 index_start index_set db0"
    by (rule index_life.booted [where lost = 0, simplified, OF index_life.created [OF index_sources(1)], where cs = "index_validators index_start" and st = index_store])
      (use index_restored_set boot in \<open>simp_all add: index_validators_def index_services_def\<close>)
  obtain vs where vs: "validator_onCommit sample_network index_store (index_validators index_next) True (Suc 0) index_set = Done vs"
    using index_network(4) by (simp add: validator_onCommit_def calculateChangedValidators_def index_validators_def)
  define info where "info a = (case account_in index_next a of None \<Rightarrow> (0, 0) | Some acc \<Rightarrow> (ac_balance acc, ac_nonce acc))" for a
  obtain d where d: "api_onCommit index_services index_store vs (index_header 0 ''g'' 0) info (be_commit index_first) (be_receipts index_first) (be_updates index_first) = Inr d"
    using index_synced by blast
  obtain db1 where "syncToDatabase index_services d db0 = Inr db1" using sync_succeeds [OF d] by blast
  then have s: "sync_attempts 3 (\<lambda>k. k = 0) index_services d 0 db0 = (True, db1)"
    by (subst sync_attempts.simps, simp, subst sync_attempts.simps, simp)
  have "?life True 0 index_next vs db1"
    by (rule index_life.committed [where written = True, simplified, OF running index_followed index_sources(2) _ _ _ d s, where cs = "index_validators index_next" and st = index_store])
      (use vs in \<open>simp_all add: index_validators_def index_services_def index_first_def index_commit_def index_header_def info_def\<close>)
  then show ?thesis by blast
qed

theorem index_agrees_with_restore_witness:
  "\<exists>vs db fresh. index_life index_services 1 3 (index_header 0 ''g'' 0) True 0 index_next vs db \<and> ap_blocks db = ap_blocks fresh \<and> ap_transactions db = ap_transactions fresh \<and> ap_multiPayments db = ap_multiPayments fresh
    \<and> (\<forall>a w. map_get (ap_wallets db) a = Some w \<longrightarrow> (case map_get (ap_wallets fresh) a of None \<Rightarrow> blank w | Some w' \<Rightarrow> same_wallet w w'))
    \<and> (\<forall>a. map_has (ap_wallets fresh) a \<longrightarrow> map_has (ap_wallets db) a) \<and> restore_index index_services 1 index_next empty_database = Inr fresh"
proof -
  obtain vs db where life: "index_life index_services 1 3 (index_header 0 ''g'' 0) True 0 index_next vs db" using index_lived by blast
  obtain fresh where fresh: "restore_index index_services 1 index_next empty_database = Inr fresh" using index_restores(2) by blast
  show ?thesis by (intro exI [of _ vs] exI [of _ db] exI [of _ fresh]) (use index_agrees_with_restore [OF life zero_less_one fresh zero_less_one] fresh life in simp)
qed

end
