(* ===== verification/Spec2Isabelle.thy ===== *)
theory Spec2Isabelle
  imports Bft_Agreement Proposal_Codec Transaction_Codec Async_Lock Pool_Worker Pool_Overlap Forged_Blocks Contract_Reader P2p_Peers Crypto_Workers Nes_Protocol Api_Agreement
begin

text \<open>
  Verification of the core of Mainsail, the blockchain node under \<open>src/packages\<close>: its consensus, the formats its messages,
  proposals, blocks, commits and transactions have on the wire, its transaction pool, and the making and processing of blocks.

  \<^bold>\<open>The program.\<close> A node runs a Tendermint-style consensus (\<open>packages/consensus\<close>). Validators propose blocks and exchange signed
  prevotes and precommits; a block is committed with +2/3 precommits. Messages arrive as bytes, are read by the factories of
  \<open>crypto-messages\<close>, \<open>crypto-proposal\<close>, \<open>crypto-commit\<close>, \<open>crypto-block\<close> and \<open>crypto-transaction\<close> (on \<open>serializer\<close> and the byte buffer
  of \<open>utils\<close>), are checked by the processors and collected in round states; \<open>consensus.ts\<close> applies its rules to them. What a
  validator needs after a crash is written by \<open>consensus-storage\<close>, and \<open>bootstrapper.ts\<close> reads it at the start. Heights, rounds,
  proposers, timestamps and quorums come from \<open>blockchain-utils\<close> over the milestones of \<open>crypto-config\<close>. Transactions wait in
  \<open>transaction-pool-service\<close>; \<open>forger\<close> takes them from there, executes them and makes a block, and \<open>processor\<close> verifies a proposed block and executes
  it again, against the last block in \<open>state\<close> and the validators of the round in \<open>evm-consensus\<close>, which come from the consensus contract. A committed block is taken apart, stored by the
  database inside the Rust EVM (\<open>evm-service\<close>, \<open>evm\<close>) and put together again by \<open>database\<close>, for peers and for the next start (\<open>bootstrap\<close>).
  A node learns from the headers of its peers what it misses - votes, a proposal, blocks - and the downloaders of \<open>p2p\<close> ask for it.
  For the HTTP interface \<open>api-sync\<close> copies committed blocks and the accounts they change into a relational database.

  \<^bold>\<open>The theories.\<close>
  \<^item> \<open>Mainsail_Prelude\<close>: exceptions as values (\<open>error\<close>; \<open>'s outcome\<close> keeps the state an exception was thrown in), the JavaScript
    \<open>Map\<close> and \<open>Set\<close>, shared lemmas. \<open>Chain_Types\<close>: the data types of \<open>contracts\<close>.
  \<^item> \<open>Crypto_Configuration\<close> (\<open>crypto-config/source/configuration.ts\<close>): milestones with the cached search, against its
    specification \<open>milestone_at\<close>. \<open>Blockchain_Utils\<close> (\<open>blockchain-utils\<close>): quorums, fees, proposers, timestamps, and the rounds of
    heights over changes of the number of validators.
  \<^item> \<open>Round_State\<close> (\<open>round-state.ts\<close>, \<open>aggregator.ts\<close>, \<open>round-state-repository.ts\<close>): votes are recorded once per validator, and
    aggregated proofs verify. \<open>Consensus_Storage\<close> (\<open>consensus-storage/source/service.ts\<close>), \<open>Consensus_Scheduler\<close> (\<open>scheduler.ts\<close>).
  \<^item> \<open>Consensus_Node\<close> (\<open>consensus.ts\<close>, \<open>commit-state.ts\<close>): the state of the node and every handler; effects (signing, saving,
    committing, broadcasting) are a trace. \<open>Consensus_Processors\<close> (\<open>processors/\<close>, \<open>bootstrapper.ts\<close>). \<open>Consensus_Rules\<close>: what
    handlers leave alone, and that \<open>applyRules\<close> ends. \<open>Consensus_Reach\<close>: the step relation over any interleaving of handlers,
    time-outs, arriving data, exceptions, crashes at any effect and restarts. \<open>Consensus_Safety\<close> and \<open>Consensus_Safety_Rules\<close>: the
    invariant and that each rule keeps it. \<open>Node_Safety\<close>: the properties of one node. \<open>Bft_Agreement\<close>: agreement of all nodes,
    proved in the locale \<open>bft_votes\<close>, of which the network of nodes is an instance.
  \<^item> \<open>Async_Lock\<close> (\<open>utils/source/lock.ts\<close>): the lock under which handlers run, as a step relation between two awaits: exclusion,
    and that every call ends.
  \<^item> \<open>Byte_Buffer\<close> (\<open>byte-buffer.ts\<close>, \<open>validator-set-pack.ts\<close>), \<open>Wire_Serializer\<close> (\<open>serializer.ts\<close>): formats as instances of the locale
    \<open>wire_codec\<close>, which gives round trips and unique encodings of composed formats. \<open>Consensus_Codecs\<close> (\<open>crypto-messages\<close>),
    \<open>Block_Codec\<close> (\<open>crypto-block\<close>), \<open>Proposal_Codec\<close> (\<open>crypto-proposal\<close>, \<open>crypto-commit\<close>), \<open>Transaction_Codec\<close>
    (\<open>crypto-transaction\<close>: RLP with its 32-bit length arithmetic).
  \<^item> \<open>Pool_Sender\<close> (\<open>wallet.ts\<close>, \<open>sender-state.ts\<close>, \<open>sender-mempool.ts\<close>), \<open>Pool_Query\<close> (\<open>query.ts\<close>, \<open>selector.ts\<close>; the locale
    \<open>transaction_selector\<close> with the two orders of \<open>query.ts\<close>), \<open>Pool_Service\<close> (\<open>mempool.ts\<close>, \<open>storage.ts\<close>, \<open>service.ts\<close>,
    \<open>processor.ts\<close>), \<open>Pool_Steps\<close> and \<open>Pool_Invariant\<close>: the pools that operations run one after the other reach, within their limit
    and backed by the database. \<open>Pool_Overlap\<close>: the same additions taken apart at their awaits; overlapping ones can exceed the limit, and the commit of a block restores it.
    \<open>Pool_Worker\<close> (\<open>transaction-pool-worker\<close>): the thread the pool lives in, the handlers of its requests, and that what a committed block outdates leaves it.
  \<^item> \<open>Chain_State\<close> (\<open>store.ts\<close>, \<open>validator-set.ts\<close>, \<open>randao.ts\<close>): what a node knows of its chain. \<open>Block_Processor\<close> (\<open>processor\<close>): the verifiers, the execution
    and what its success means. \<open>Block_Forger\<close> (\<open>forger\<close>): the transactions taken from the pool, their execution with snapshots and roll backs,
    and the block made of them. \<open>Forged_Blocks\<close>: under the laws \<open>evm_ok\<close> of the EVM the processor accepts what the forger makes, up to the
    size limit, which the forger does not know.
  \<^item> \<open>Chain_Storage\<close> (\<open>evm-service\<close>, \<open>evm/core/src/db.rs\<close>, \<open>database-service.ts\<close> and the \<open>fromStorage\<close> factories): what is stored of a commit and when
    reading it back gives the same bytes. \<open>Chain_Node\<close> (\<open>commit\<close> of \<open>block-processor.ts\<close>, \<open>bootstrapper.ts\<close>): commits and starts of a node
    as a step relation with failures in between; the stored chain is linked and the memory in step with it, and a restart gives it back.
  \<^item> \<open>Consensus_Contract\<close> (\<open>src/contracts/src/consensus/ConsensusV1.sol\<close>): the contract with the validators, the votes and the rounds, its functions over its storage, and its
    life as a step relation in which the receiver of a refund may call it again. \<open>Contract_Votes\<close>: its doubly linked list implements a list of votes. \<open>Contract_Invariant\<close>: the array
    of active validators, keys and fees. \<open>Contract_Rounds\<close>: the linked list of the best validators and what a round is. \<open>Contract_Reach\<close>: the invariant of every storage that calls lead to,
    votes that are counted, rounds that have the best validators and can always be calculated. \<open>Contract_Reader\<close> (\<open>evm-consensus/source/services\<close>): the service and the
    iterators that read it in pages, instances of the locale \<open>async_iterator\<close>, and the round in the validator set of the node.
  \<^item> \<open>Vote_Downloader\<close> (\<open>p2p\<close>: \<open>header.ts\<close>, \<open>message-downloader.ts\<close>, \<open>proposal-downloader.ts\<close> and the controllers that answer them): which downloads start,
    that their start ends, and which honest peers are kept and which are banned. \<open>Block_Downloader\<close> (\<open>block-downloader.ts\<close>, \<open>pending-commits.ts\<close>,
    \<open>get-blocks.ts\<close>): the jobs as a step relation; their ranges stay in order, only verified commits are handed on, and the loop over them ends.
  \<^item> \<open>P2p_Peers\<close> (\<open>peer-repository.ts\<close>, \<open>peer-disposer.ts\<close>, \<open>peer-processor.ts\<close>, \<open>peer-verifier.ts\<close>, \<open>header-service.ts\<close>, the controllers, and the peers of
    \<open>transaction-pool-broadcaster\<close> in the other process): bans hold against acceptances under way, both processes come to the same peers,
    and a peer with the same chain is verified.
  \<^item> \<open>Nes_Protocol\<close> (\<open>p2p/source/hapi-nes\<close>): the frames peers exchange, the client with its open requests and the socket of the server; an answer
    reaches its request, and no request passes before a hello. \<open>Kernel_Services\<close> (\<open>kernel\<close>: \<open>services/events\<close>, \<open>services/queue\<close>, \<open>ipc\<close>): the event
    dispatcher, the job queue, which does not fall asleep, and the calls to worker threads, each settled at most once.
    \<open>Crypto_Workers\<close> (\<open>crypto-worker\<close>): the pool of threads over these calls; requests made before the end of a worker are answered first, and no thread is left behind.
  \<^item> \<open>Api_Sync\<close> (\<open>api-sync/source/service.ts\<close>): the rows a committed block adds to the PostgreSQL index of the HTTP interface, the statements that write them, the
    repeated attempts, and when a start throws the index away. \<open>Api_Restore\<close> (\<open>restore.ts\<close>): filling it from the stored chain. \<open>Api_Index\<close>, \<open>Api_Agreement\<close>: what
    both say of an account in closed form, the life of an index as a step relation, and that however it came about it agrees with one filled anew.
  \<^item> This theory: the factories of the wire formats satisfy the hypotheses of the consensus safety theorems and of the pool.

  \<^bold>\<open>What is assumed.\<close> Cryptography, schema checks, viem, the EVM and the clock are parameters. The hypotheses on them are named
  (\<open>world_ok\<close>, \<open>env_ok\<close>, \<open>factory_ok\<close>, \<open>pool_env_ok\<close>, \<open>evm_ok\<close>, \<open>node_env_ok\<close>, \<open>honest_peer\<close>, \<open>hex_law\<close>, \<open>abi_ok\<close> of viem, \<open>source_ok\<close> and \<open>follows\<close> of the EVM under an index, the laws of aggregated signatures) and every theorem that has one has a
  sample instance. A downloaded block is committed only after \<open>verify_batch\<close> has checked its aggregated signature; that such a signature, and
  that of a lock proof, comes from a quorum of validators, and that at most a third of the validators is faulty, is assumed in \<open>network_ok\<close> of \<open>Bft_Agreement\<close> only.

  \<^bold>\<open>Loops and fuel.\<close> \<open>applyRules\<close> recurses through \<open>startRound\<close>; it runs with fuel 3, which is proved never to run out. Loops over
  lists are recursive functions; \<open>decode_fields\<close>, \<open>select_loop\<close>, \<open>transaction_iterable\<close> and the milestone search have termination proofs. The eviction loop
  of the pool and the loop of \<open>tryToDownload\<close> are \<open>partial_function\<close>s, proved to return: the first in every reachable state, the second always.
  The loop over downloaded blocks is a step relation with a proved bound on its steps. The loops over the linked lists of the
  contract and over its pages are \<open>partial_function\<close>s, proved to return in every storage calls lead to.

  \<^bold>\<open>Simplifications.\<close> A step of the lock, of the peers and of the downloaders is the code between two awaits. A step of the consensus is a whole handler with the
  awaits in it: handlers run one at a time under \<open>#handlerLock\<close>, and what else runs meanwhile - arriving messages, time-outs, the storage - is a step before or after it; a crash
  cuts a handler short after any of its effects. The operations of the pool run one after the other, where the code lets them overlap at their awaits; \<open>sender_flow\<close> in
  \<open>Pool_Sender\<close> takes the addition to a sender apart at its awaits and lets removals run in between, and \<open>Pool_Overlap\<close> does so for the additions of the service.
  The bindings between TypeScript and the Rust EVM are taken to hand data over unchanged (\<open>node_env_ok\<close>). The index of the HTTP interface is followed through blocks that are
  finally written (\<open>index_life\<close>), with usernames set through the username contract (\<open>follows\<close>), and accounts are compared in the attributes that both ways of filling
  it write (\<open>same_wallet\<close>). Logging is left out. Numbers are exact: \<open>nat\<close> and \<open>int\<close>
  where the code stays far below \<open>2^53\<close>, words or written-out rounding where it can leave that range (lengths in the RLP decoder,
  \<open>Number\<close> of a decoded field, the fields of the byte buffer).

  \<^bold>\<open>Not modelled.\<close> In the
  consensus theories the result of processing a block and the validators are parameters. Networking, HTTP interfaces, tokens and the queries of the index,
  command line, application framework, the bindings of the Rust EVM, wrappers of cryptographic libraries, schemas and import tools are
  I/O or glue around third-party code and stay outside.
\<close>

section \<open>The wire formats and the consensus\<close>

text \<open>The hash of the block in a payload, as the proposal factory reads it.\<close>

definition payload_hash :: "services \<Rightarrow> string \<Rightarrow> string" where
  "payload_hash sv s =
     (case getLockProof (sv_viem sv) (fromBuffer (from_hex s)) of
        Inl _ \<Rightarrow> []
      | Inr (_, buffer) \<Rightarrow> (case deserializeHeader (sv_viem sv) (sv_sha256 sv) (getRemainder buffer) of Inl _ \<Rightarrow> [] | Inr h \<Rightarrow> bh_hash h))"

definition with_proposal_factory :: "services \<Rightarrow> world \<Rightarrow> world" where
  "with_proposal_factory sv w = w\<lparr>wd_makeProposal := makeProposalFromBytes sv, wd_payloadHash := payload_hash sv\<rparr>"

definition with_payload_factory :: "services \<Rightarrow> env \<Rightarrow> env" where
  "with_payload_factory sv e = e\<lparr>ev_makePayload := \<lambda>s. makePayloadFromBytes sv (from_hex s)\<rparr>"

lemma header_payload_hash:
  "getLockProofAndBlockHeader sv (from_hex s) = Inr (h, lp) \<Longrightarrow> bh_hash h = payload_hash sv s"
  by (auto simp: getLockProofAndBlockHeader_def headerFromBytes_def payload_hash_def sum_bind_Inr_iff split: if_splits option.splits)

lemma block_payload_hash:
  "makePayloadFromBytes sv (from_hex s) = Inr pl \<Longrightarrow> bh_hash (bk_header (pl_block pl)) = payload_hash sv s"
  by (auto simp: makePayloadFromBytes_def payload_hash_def sum_bind_Inr_iff dest!: blockFromBytes_header split: if_splits)

text \<open>C35 (refinement). The proposal and payload factories of the code satisfy what the safety theorems ask of the services: put in place
  of any services that satisfy it, the hypotheses still hold.\<close>

theorem factories_meet_the_safety_hypotheses:
  assumes "env_ok w e"
  shows "world_ok (with_proposal_factory sv w) \<and> env_ok (with_proposal_factory sv w) (with_payload_factory sv e)"
proof
  show "world_ok (with_proposal_factory sv w)"
    unfolding world_ok_def
  proof (intro allI impI)
    fix b p assume "wd_makeProposal (with_proposal_factory sv w) b = Inr p"
    then have "makeProposalFromBytes sv b = Inr p" by (simp add: with_proposal_factory_def)
    then have r: "getLockProofAndBlockHeader sv (from_hex (pr_payloadSerialized p)) = Inr (pr_blockHeader p, pr_lockProof p)"
      "pr_payload p = None" by (blast elim: makeProposalFromBytes_Inr)+
    from header_payload_hash [OF r(1)] r(2) show "proposal_ok (with_proposal_factory sv w) p"
      by (simp add: proposal_ok_def with_proposal_factory_def)
  qed
  show "env_ok (with_proposal_factory sv w) (with_payload_factory sv e)"
    using assms by (auto simp: env_ok_def with_proposal_factory_def with_payload_factory_def dest!: block_payload_hash)
qed

theorem factories_meet_the_safety_hypotheses_witness:
  "world_ok (with_proposal_factory sample_services demo_world)
   \<and> env_ok (with_proposal_factory sample_services demo_world) (with_payload_factory sample_services demo_env)"
  by (rule factories_meet_the_safety_hypotheses [OF demo_env_ok])

section \<open>The transaction factory and the pool\<close>

text \<open>C32 (refinement). The transaction factory satisfies what the pool relies on: a transaction keeps the bytes it was read from, its sender is the
  address of its public key, and its value is not negative.\<close>

theorem transaction_factory_meets_the_pool_hypotheses:
  "factory_ok (transaction_fromBytes ts) (ts_address ts)"
  by (auto simp: factory_ok_def transaction_fromBytes_def transaction_object_def sum_bind_Inr_iff dest: transaction_fromSerialized_Inr split: prod.splits)

end
